(* ===== verification/Timing_Prelude.thy ===== *)
theory Timing_Prelude
  imports Complex_Main "HOL-Library.AList" "HOL-Library.Product_Lexorder" "HOL-Library.Multiset"
begin

text \<open>
  Shared vocabulary of the development: Python's numbers as values (\<open>pynum\<close>),
  Python dictionaries as association lists in insertion order, generic lemmas on sorted,
  filtered and indexed lists, and the interfaces (locales) that the components implement:
  a machine with an invariant and a machine that can be checkpointed.

  Finite floats are exact rationals: the development proves what the formulas of the
  program compute and does not model IEEE rounding. Infinities and NaN, which the
  program filters explicitly, are values of their own.
\<close>

named_theorems guard_defs \<open>definitions of the boolean guards of the code\<close>

section \<open>Python numbers\<close>

datatype pynum = PyInt int | PyFloat rat | PyInf | PyNegInf | PyNaN

text \<open>\<open>float(x)\<close> followed by \<open>isfinite\<close>: the value when it is finite.\<close>

fun finite_value :: "pynum \<Rightarrow> rat option" where
  "finite_value (PyInt i) = Some (of_int i)"
| "finite_value (PyFloat q) = Some q"
| "finite_value _ = None"

text \<open>\<open>type(value) is int\<close> with a lower bound, on a field declared \<open>int | None\<close>.\<close>

definition is_int :: "int option \<Rightarrow> int \<Rightarrow> bool" where
  [guard_defs]: "is_int value minimum = (case value of None \<Rightarrow> False | Some v \<Rightarrow> minimum \<le> v)"

lemma is_int_Some [simp]: "is_int (Some v) m \<longleftrightarrow> m \<le> v"
  by (simp add: is_int_def)

lemma is_int_None [simp]: "\<not> is_int None m"
  by (simp add: is_int_def)

lemma is_intE [elim]:
  assumes "is_int x m" obtains v where "x = Some v" "m \<le> v"
  using assms by (auto simp: is_int_def split: option.splits)

section \<open>Lists\<close>

text \<open>\<open>xs[-n:]\<close> for a positive \<open>n\<close>.\<close>

definition last_n :: "nat \<Rightarrow> 'a list \<Rightarrow> 'a list" where
  "last_n n xs = drop (length xs - n) xs"

lemma length_last_n [simp]: "length (last_n n xs) = min n (length xs)"
  by (simp add: last_n_def)

lemma set_last_n: "set (last_n n xs) \<subseteq> set xs"
  by (simp add: last_n_def set_drop_subset)

lemma last_n_last_n_snoc: "1 \<le> n \<Longrightarrow> last_n n (last_n n xs @ [x]) = last_n n (xs @ [x])"
  by (cases "length xs < n") (simp_all add: last_n_def Suc_diff_le)

text \<open>
  The comprehension \<open>[y for x in xs if (y := f(x)) is not None]\<close> is the library's
  \<open>List.map_filter\<close>.
\<close>

lemma mset_map_filter_cong:
  "mset xs = mset ys \<Longrightarrow> mset (List.map_filter f xs) = mset (List.map_filter f ys)"
  by (simp add: map_filter_def)

lemma set_map_filter: "set (List.map_filter f xs) = {y. \<exists>x \<in> set xs. f x = Some y}"
  by (force simp: map_filter_def)

lemma map_filter_snoc:
  "List.map_filter f (xs @ [x]) = List.map_filter f xs @ (case f x of None \<Rightarrow> [] | Some y \<Rightarrow> [y])"
  by (auto simp: map_filter_def)

lemma length_map_filter_le: "length (List.map_filter f xs) \<le> length xs"
  by (simp add: map_filter_def)

lemma sort_cong_mset: "mset xs = mset ys \<Longrightarrow> sort xs = sort (ys :: 'a :: linorder list)"
  by (metis mset_sort properties_for_sort sorted_sort)

text \<open>The last element that satisfies a predicate, with what surrounds it.\<close>

lemma last_filter_split:
  "filter P xs \<noteq> [] \<Longrightarrow> \<exists>as bs. xs = as @ last (filter P xs) # bs \<and> (\<forall>b \<in> set bs. \<not> P b) \<and> P (last (filter P xs))"
proof (induction xs rule: rev_induct)
  case (snoc x xs)
  show ?case
  proof (cases "P x")
    case True
    then show ?thesis by (intro exI [of _ xs] exI [of _ "[]"]) simp
  next
    case False
    with snoc obtain as bs where "xs = as @ last (filter P xs) # bs" "\<forall>b \<in> set bs. \<not> P b"
      "P (last (filter P xs))" by auto
    with False show ?thesis by (intro exI [of _ as] exI [of _ "bs @ [x]"]) auto
  qed
qed simp

text \<open>A loop that raises at the first failing element.\<close>

fun traverse :: "('a \<Rightarrow> 'e + 'b) \<Rightarrow> 'a list \<Rightarrow> 'e + 'b list" where
  "traverse f [] = Inr []"
| "traverse f (x # xs) =
    (case f x of Inl e \<Rightarrow> Inl e | Inr y \<Rightarrow> map_sum id (\<lambda>ys. y # ys) (traverse f xs))"

lemma traverse_ok: "\<forall>x \<in> set xs. f x = Inr (g x) \<Longrightarrow> traverse f xs = Inr (map g xs)"
  by (induction xs) auto

section \<open>Dictionaries\<close>

text \<open>
  A Python dictionary is an association list in insertion order: assignment overwrites in
  place or appends (\<open>AList.update\<close>). \<open>dict_of\<close> is a dictionary display or comprehension.
\<close>

definition dict_of :: "('k \<times> 'v) list \<Rightarrow> ('k \<times> 'v) list" where
  "dict_of items = fold (\<lambda>(k, v) d. AList.update k v d) items []"

lemma fold_update_distinct:
  "distinct (map fst (d @ items)) \<Longrightarrow> fold (\<lambda>(k, v) d. AList.update k v d) items d = d @ items"
proof (induction items arbitrary: d)
  case (Cons kv items)
  have "k \<notin> fst ` set d \<Longrightarrow> AList.update k v d = d @ [(k, v)]" for k v
    by (induction d) auto
  then show ?case using Cons by (cases kv) auto
qed simp

lemma dict_of_distinct [simp]: "distinct (map fst items) \<Longrightarrow> dict_of items = items"
  unfolding dict_of_def using fold_update_distinct [of "[]" items] by simp

lemma distinct_dict_of [simp]: "distinct (map fst (dict_of items))"
proof -
  have "distinct (map fst d) \<Longrightarrow> distinct (map fst (fold (\<lambda>(k, v) d. AList.update k v d) items d))" for d
    by (induction items arbitrary: d) (auto simp: distinct_update)
  then show ?thesis by (simp add: dict_of_def)
qed

section \<open>Interfaces\<close>

text \<open>
  A component that consumes a sequence of inputs and keeps an invariant. The client
  facts lift one step to whole runs from any admitted start state.
\<close>

locale invariant_machine =
  fixes step :: "'s \<Rightarrow> 'c \<Rightarrow> 's"
    and start :: "'s \<Rightarrow> bool"
    and inv :: "'s \<Rightarrow> bool"
  assumes start_inv: "start s \<Longrightarrow> inv s"
    and step_inv: "inv s \<Longrightarrow> inv (step s c)"
begin

lemma run_inv: "inv s \<Longrightarrow> inv (foldl step s cs)"
  by (induction cs arbitrary: s) (auto intro: step_inv)

lemma reachable_inv: "start s \<Longrightarrow> inv (foldl step s cs)"
  by (blast intro: run_inv start_inv)

end

text \<open>
  A machine whose state can be written out and read back, up to a simulation (an order of
  dictionary entries, say) that the steps respect. Recovery from a checkpoint taken anywhere
  in the input then continues like the uninterrupted run.
\<close>

locale checkpointed_machine = invariant_machine step start inv
  for step :: "'s \<Rightarrow> 'c \<Rightarrow> 's" and start inv +
  fixes snapshot :: "'s \<Rightarrow> 'j"
    and restore :: "'j \<Rightarrow> 'e + 's"
    and sim :: "'s \<Rightarrow> 's \<Rightarrow> bool"
  assumes restore_snapshot: "inv s \<Longrightarrow> \<exists>s'. restore (snapshot s) = Inr s' \<and> sim s' s"
    and sim_step: "inv s \<Longrightarrow> sim s' s \<Longrightarrow> sim (step s' c) (step s c)"
begin

lemma sim_run: "inv s \<Longrightarrow> sim s' s \<Longrightarrow> sim (foldl step s' cs) (foldl step s cs)"
  by (induction cs arbitrary: s s') (auto intro: sim_step step_inv)

lemma resume_anywhere:
  assumes "start s"
  shows "\<exists>s'. restore (snapshot (foldl step s xs)) = Inr s' \<and>
    sim (foldl step s' ys) (foldl step s (xs @ ys))"
  using restore_snapshot [OF reachable_inv [OF assms]] sim_run [OF reachable_inv [OF assms]] by fastforce

end

text \<open>
  A loop over numbered updates that keeps, for every key, the admitted update of highest
  rank, the later one on a tie. \<open>put\<close> is one iteration on the dictionary.
\<close>

locale keyed_latest =
  fixes put :: "nat \<times> 'a \<Rightarrow> ('k \<times> nat \<times> 'a) list \<Rightarrow> ('k \<times> nat \<times> 'a) list"
    and key :: "'a \<Rightarrow> 'k"
    and admit :: "'a \<Rightarrow> bool"
    and rank :: "'a \<Rightarrow> 'r :: linorder"
  assumes put_reject: "\<not> admit x \<Longrightarrow> put (i, x) d = d"
    and put_new: "admit x \<Longrightarrow> map_of d (key x) = None \<Longrightarrow> put (i, x) d = AList.update (key x) (i, x) d"
    and put_old: "admit x \<Longrightarrow> map_of d (key x) = Some (j, y) \<Longrightarrow>
      put (i, x) d = (if (rank y, j) \<le> (rank x, i) then AList.update (key x) (i, x) d else d)"
begin

definition latest :: "'a list \<Rightarrow> 'k \<Rightarrow> nat \<Rightarrow> 'a \<Rightarrow> bool" where
  "latest xs k i x \<longleftrightarrow> i < length xs \<and> xs ! i = x \<and> admit x \<and> key x = k \<and>
     (\<forall>j < length xs. admit (xs ! j) \<and> key (xs ! j) = k \<longrightarrow> (rank (xs ! j), j) \<le> (rank x, i))"

lemma latest_unique: "latest xs k i x \<Longrightarrow> latest xs k j y \<Longrightarrow> (i, x) = (j, y)"
  by (fastforce simp: latest_def)

definition run :: "'a list \<Rightarrow> ('k \<times> nat \<times> 'a) list" where
  "run xs = fold put (enumerate 0 xs) []"

lemma run_Nil [simp]: "run [] = []"
  by (simp add: run_def)

lemma run_snoc: "run (xs @ [x]) = put (length xs, x) (run xs)"
  by (simp add: run_def enumerate_append_eq)

lemma distinct_put: "distinct (map fst d) \<Longrightarrow> distinct (map fst (put (i, x) d))"
  by (cases "admit x"; cases "map_of d (key x)")
     (auto simp: put_reject put_new put_old distinct_update)

lemma distinct_run: "distinct (map fst (run xs))"
  by (induction xs rule: rev_induct) (simp_all add: run_snoc distinct_put)

lemma map_of_put:
  "map_of (put (i, x) d) k =
    (if admit x \<and> key x = k \<and> (case map_of d k of None \<Rightarrow> True | Some (j, y) \<Rightarrow> (rank y, j) \<le> (rank x, i))
     then Some (i, x) else map_of d k)"
  by (cases "admit x"; cases "map_of d (key x)")
     (auto simp: put_reject put_new put_old update_conv)

lemma run_sound_complete:
  "(\<forall>i x. map_of (run xs) k = Some (i, x) \<longrightarrow> latest xs k i x) \<and>
   (map_of (run xs) k = None \<longrightarrow> (\<forall>x \<in> set xs. \<not> (admit x \<and> key x = k)))"
proof (induction xs rule: rev_induct)
  case (snoc z xs)
  let ?d = "map_of (run xs) k"
  consider (other) "\<not> (admit z \<and> key z = k)"
    | (new) "admit z" "key z = k" "?d = None"
    | (win) j y where "admit z" "key z = k" "?d = Some (j, y)" "(rank y, j) \<le> (rank z, length xs)"
    | (lose) j y where "admit z" "key z = k" "?d = Some (j, y)" "\<not> (rank y, j) \<le> (rank z, length xs)"
    by (cases ?d) auto
  then show ?case
  proof cases
    case other
    then have "map_of (run (xs @ [z])) k = ?d" by (auto simp: run_snoc map_of_put)
    then show ?thesis using snoc other by (auto simp: latest_def nth_append less_Suc_eq)
  next
    case new
    then have r: "map_of (run (xs @ [z])) k = Some (length xs, z)" by (simp add: run_snoc map_of_put)
    show ?thesis unfolding r using snoc new by (auto simp: latest_def nth_append less_Suc_eq)
  next
    case win
    then have r: "map_of (run (xs @ [z])) k = Some (length xs, z)" by (simp add: run_snoc map_of_put)
    have "latest xs k j y" using snoc win(3) by blast
    then have "latest (xs @ [z]) k (length xs) z"
      using win order_trans [OF _ win(4)] by (auto simp: latest_def nth_append less_Suc_eq simp del: less_eq_prod_simp)
    then show ?thesis unfolding r by simp
  next
    case lose
    then have r: "map_of (run (xs @ [z])) k = Some (j, y)"
      by (simp add: run_snoc map_of_put del: less_eq_prod_simp)
    have "latest xs k j y" using snoc lose(3) by blast
    then have "latest (xs @ [z]) k j y"
      using lose linear [of "(rank y, j)" "(rank z, length xs)"]
      by (auto simp: latest_def nth_append less_Suc_eq simp del: less_eq_prod_simp)
    then show ?thesis unfolding r by simp
  qed
qed simp

lemma lookup_run: "map_of (run xs) k = Some (i, x) \<longleftrightarrow> latest xs k i x"
proof
  assume l: "latest xs k i x"
  then have "x \<in> set xs" "admit x" "key x = k" by (auto simp: latest_def)
  then have "map_of (run xs) k \<noteq> None" using run_sound_complete [of xs k] by blast
  then obtain j y where r: "map_of (run xs) k = Some (j, y)" by auto
  then have "latest xs k j y" using run_sound_complete by blast
  then show "map_of (run xs) k = Some (i, x)" using latest_unique [OF l] r by simp
qed (use run_sound_complete in blast)

lemma mem_run: "(k, i, x) \<in> set (run xs) \<longleftrightarrow> latest xs k i x"
  by (metis lookup_run distinct_run map_of_eq_Some_iff)

text \<open>Replaying the whole list of updates changes no winner.\<close>

lemma latest_twice: "latest (xs @ xs) k i x \<longleftrightarrow> length xs \<le> i \<and> latest xs k (i - length xs) x"
  (is "?L \<longleftrightarrow> ?R")
proof
  let ?n = "length xs"
  assume l: ?L
  have i: "?n \<le> i"
  proof (rule ccontr)
    assume "\<not> ?n \<le> i"
    then have "(xs @ xs) ! (i + ?n) = x" "i + ?n < length (xs @ xs)"
      using l by (auto simp: latest_def nth_append)
    then have "(rank x, i + ?n) \<le> (rank x, i)" using l unfolding latest_def by metis
    then show False using \<open>\<not> ?n \<le> i\<close> by simp
  qed
  have "(rank (xs ! j), j) \<le> (rank x, i - ?n)" if "j < ?n" "admit (xs ! j)" "key (xs ! j) = k" for j
  proof -
    have "(xs @ xs) ! (?n + j) = xs ! j" "?n + j < length (xs @ xs)" using that by (auto simp: nth_append)
    then have "(rank (xs ! j), ?n + j) \<le> (rank x, i)" using l that unfolding latest_def by metis
    then show ?thesis using i by auto
  qed
  then show ?R using l i by (auto simp: latest_def nth_append)
next
  let ?n = "length xs"
  assume r: ?R
  have "(rank ((xs @ xs) ! j), j) \<le> (rank x, i)"
    if j: "j < length (xs @ xs)" "admit ((xs @ xs) ! j)" "key ((xs @ xs) ! j) = k" for j
  proof (cases "j < ?n")
    case True
    then have "(rank (xs ! j), j) \<le> (rank x, i - ?n)" using r j by (auto simp: latest_def nth_append)
    then show ?thesis using True r by (auto simp: nth_append)
  next
    case False
    then have "j - ?n < ?n" using j(1) by simp
    then have "(rank (xs ! (j - ?n)), j - ?n) \<le> (rank x, i - ?n)"
      using r j False by (simp add: latest_def nth_append del: less_eq_prod_simp)
    then show ?thesis using False r by (auto simp: nth_append)
  qed
  then show ?L using r by (auto simp: latest_def nth_append)
qed

lemma winners_twice: "(\<exists>i. (k, i, x) \<in> set (run (xs @ xs))) \<longleftrightarrow> (\<exists>i. (k, i, x) \<in> set (run xs))"
proof -
  have "latest xs k i x \<Longrightarrow> latest (xs @ xs) k (i + length xs) x" for i by (simp add: latest_twice)
  then show ?thesis unfolding mem_run by (metis latest_twice)
qed

end

end
