(* ===== verification/Pace.thy ===== *)
theory Pace
  imports Timing_Prelude
begin

text \<open>
  The pace primitives of \<open>server/timing/metrics.py\<close>: number guards, median,
  nearest-rank percentile, clean-lap selection, rolling pace with robust consistency and
  slow-lap detection, pace deltas and competition ranking.
\<close>

section \<open>Number guards\<close>

definition positive_number :: "pynum option \<Rightarrow> rat option" where
  [guard_defs]: "positive_number value =
    (case Option.bind value finite_value of
       None \<Rightarrow> None
     | Some number \<Rightarrow> if 0 < number then Some number else None)"

definition non_negative_number :: "pynum option \<Rightarrow> rat option" where
  [guard_defs]: "non_negative_number value =
    (case Option.bind value finite_value of
       None \<Rightarrow> None
     | Some number \<Rightarrow> if 0 \<le> number then Some number else None)"

lemma positive_number_Some [simp]:
  "positive_number v = Some q \<longleftrightarrow> (\<exists>n. v = Some n \<and> finite_value n = Some q \<and> 0 < q)"
  by (auto simp: positive_number_def bind_eq_Some_conv split: option.splits if_splits)

lemma positive_number_int [simp]:
  "positive_number (Some (PyInt d)) = (if 0 < d then Some (of_int d) else None)"
  by (simp add: positive_number_def)

lemma non_negative_number_Some [simp]:
  "non_negative_number v = Some q \<longleftrightarrow> (\<exists>n. v = Some n \<and> finite_value n = Some q \<and> 0 \<le> q)"
  by (auto simp: non_negative_number_def bind_eq_Some_conv split: option.splits if_splits)

section \<open>Median and percentile\<close>

definition median :: "rat list \<Rightarrow> rat option" where
  "median values =
    (if values = [] then None
     else let ordered = sort values; middle = length ordered div 2 in
       if length ordered mod 2 \<noteq> 0 then Some (ordered ! middle)
       else Some ((ordered ! (middle - 1) + ordered ! middle) / 2))"

definition percentile :: "rat list \<Rightarrow> rat \<Rightarrow> rat option" where
  "percentile values quantile =
    (if values = [] \<or> \<not> (0 \<le> quantile \<and> quantile \<le> 1) then None
     else let ordered = sort values;
              rank = max 1 (min (int (length ordered)) \<lceil>quantile * of_nat (length ordered)\<rceil>)
          in Some (ordered ! nat (rank - 1)))"

definition median_ms :: "pynum option list \<Rightarrow> rat option" where
  "median_ms values = median (List.map_filter positive_number values)"

definition mad :: "rat list \<Rightarrow> rat option" where
  "mad normalized =
    (case median normalized of
       None \<Rightarrow> None
     | Some center \<Rightarrow> median (map (\<lambda>value. \<bar>value - center\<bar>) normalized))"

definition mad_ms :: "pynum option list \<Rightarrow> rat option" where
  "mad_ms values = mad (List.map_filter positive_number values)"

section \<open>Laps\<close>

record lap_sample =
  lap_participant_id :: "string option"
  lap_number :: "int option"
  lap_capture_sequence :: "int option"
  lap_completed_at_us :: "int option"
  lap_duration_ms :: "int option"
  lap_flag_kinds :: "string list"
  lap_is_in_lap :: "bool option"
  lap_is_out_lap :: "bool option"
  lap_crosses_pit :: "bool option"
  lap_has_feed_gap :: "bool option"

text \<open>The argument shapes that \<open>__post_init__\<close> turns into the tuple of flag kinds.\<close>

datatype flag_input = OneFlag string | FlagSeq "string list" | NoFlags

fun post_init_flags :: "flag_input \<Rightarrow> string list" where
  "post_init_flags (OneFlag flag) = [flag]"
| "post_init_flags (FlagSeq flags) = flags"
| "post_init_flags NoFlags = []"

definition GREEN_FLAG :: string where "GREEN_FLAG = ''GREEN''"

definition is_clean_lap :: "lap_sample \<Rightarrow> bool" where
  [guard_defs]: "is_clean_lap lap =
    (if positive_number (map_option PyInt (lap_duration_ms lap)) = None then False
     else if lap_flag_kinds lap = [] \<or> list_ex (\<lambda>flag. flag \<noteq> GREEN_FLAG) (lap_flag_kinds lap)
     then False
     else lap_is_in_lap lap = Some False \<and> lap_is_out_lap lap = Some False
        \<and> lap_crosses_pit lap = Some False \<and> lap_has_feed_gap lap = Some False)"

definition select_clean_laps :: "lap_sample list \<Rightarrow> lap_sample list" where
  "select_clean_laps laps = filter is_clean_lap laps"

text \<open>
  \<open>float(lap.duration_ms)\<close>; on a lap without a duration the code would raise, which
  clean laps exclude (\<open>clean_duration\<close> below), so the value there is never read.
\<close>

definition lap_duration :: "lap_sample \<Rightarrow> rat" where
  "lap_duration lap = (case lap_duration_ms lap of Some d \<Rightarrow> of_int d | None \<Rightarrow> 0)"

lemma clean_duration:
  "is_clean_lap lap \<Longrightarrow> \<exists>d. lap_duration_ms lap = Some d \<and> 0 < d \<and> lap_duration lap = of_int d"
  by (cases "lap_duration_ms lap")
     (auto simp: is_clean_lap_def lap_duration_def positive_number_def split: if_splits)

section \<open>Rolling pace\<close>

datatype pace_error = SlowLapWindowError

record pace_metrics =
  pace3_ms :: "rat option"
  pace5_ms :: "rat option"
  pace10_ms :: "rat option"
  consistency10_ms :: "rat option"
  p10_p90_range_ms :: "rat option"
  clean_lap_count :: nat
  observed_lap_count :: nat
  clean_lap_ratio :: "rat option"
  slow_lap_numbers :: "int list option"

definition pace_window :: "rat list \<Rightarrow> nat \<Rightarrow> rat option" where
  "pace_window durations window =
    (if window \<le> length durations then median (last_n window durations) else None)"

definition slow_threshold :: "rat list \<Rightarrow> rat option" where
  "slow_threshold prior =
    (case (median prior, mad_ms (map (\<lambda>d. Some (PyFloat d)) prior)) of
       (Some prior_pace, Some prior_mad) \<Rightarrow> Some (prior_pace + max 2000 (3 * prior_mad))
     | _ \<Rightarrow> None)"

definition slow_lap_at :: "lap_sample list \<Rightarrow> nat \<Rightarrow> int option" where
  "slow_lap_at clean index =
    (let lap = clean ! index;
         prior = map lap_duration (take 10 (drop (index - 10) clean))
     in case lap_number lap of
          None \<Rightarrow> None
        | Some number \<Rightarrow>
           (case slow_threshold prior of
              None \<Rightarrow> None
            | Some threshold \<Rightarrow> if threshold < lap_duration lap then Some number else None))"

definition slow_laps :: "lap_sample list \<Rightarrow> nat option \<Rightarrow> int list" where
  "slow_laps clean slow_lap_window =
    (let start_index = max 10 (length clean - (case slow_lap_window of Some w \<Rightarrow> w | None \<Rightarrow> length clean))
     in List.map_filter (slow_lap_at clean) [start_index ..< length clean])"

definition calculate_pace_metrics ::
    "lap_sample list \<Rightarrow> bool \<Rightarrow> int option \<Rightarrow> pace_error + pace_metrics" where
  "calculate_pace_metrics observed include_slow_lap_history slow_lap_window =
    (let clean = select_clean_laps observed;
         durations = map lap_duration clean;
         last10 = last_n 10 durations;
         mad10 = (if length last10 = 10 then mad_ms (map (\<lambda>d. Some (PyFloat d)) last10) else None);
         p10 = (if length last10 = 10 then percentile last10 (1/10) else None);
         p90 = (if length last10 = 10 then percentile last10 (9/10) else None)
     in if (\<exists>w \<in> set_option slow_lap_window. w < 1) then Inl SlowLapWindowError
        else Inr \<lparr> pace3_ms = pace_window durations 3,
                   pace5_ms = pace_window durations 5,
                   pace10_ms = pace_window durations 10,
                   consistency10_ms = map_option (\<lambda>m. 14826/10000 * m) mad10,
                   p10_p90_range_ms = (case (p10, p90) of (Some a, Some b) \<Rightarrow> Some (b - a) | _ \<Rightarrow> None),
                   clean_lap_count = length clean,
                   observed_lap_count = length observed,
                   clean_lap_ratio = (if observed = [] then None
                                      else Some (of_nat (length clean) / of_nat (length observed))),
                   slow_lap_numbers =
                     (if \<not> include_slow_lap_history \<or> length clean < 11 then None
                      else Some (slow_laps clean (map_option nat slow_lap_window))) \<rparr>)"

section \<open>Comparing paces\<close>

definition pace_delta_ms :: "pynum option \<Rightarrow> pynum option \<Rightarrow> rat option" where
  "pace_delta_ms ours_pace_ms reference_pace_ms =
    (case (positive_number ours_pace_ms, positive_number reference_pace_ms) of
       (Some ours, Some reference) \<Rightarrow> Some (ours - reference)
     | _ \<Rightarrow> None)"

definition class_median_pace_ms :: "(string \<times> pynum option) list \<Rightarrow> rat option" where
  "class_median_pace_ms pace_by_participant =
    median (List.map_filter positive_number (map snd pace_by_participant))"

definition pace_rank :: "string \<Rightarrow> (string \<times> pynum option) list \<Rightarrow> nat option" where
  "pace_rank participant_id pace_by_participant =
    (case positive_number (Option.bind (map_of pace_by_participant participant_id) id) of
       None \<Rightarrow> None
     | Some ours \<Rightarrow>
        (let population = List.map_filter positive_number (map snd pace_by_participant)
         in Some (1 + length (filter (\<lambda>value. value < ours) population))))"

section \<open>What the median and the percentile mean\<close>

lemma sorted_count_le:
  assumes "sorted ys" "i < length ys"
  shows "Suc i \<le> length (filter (\<lambda>v. v \<le> ys ! i) ys)"
proof -
  have "filter (\<lambda>v. v \<le> ys ! i) (take (Suc i) ys) = take (Suc i) ys"
    using assms by (auto simp: in_set_conv_nth less_Suc_eq_le intro!: filter_True sorted_nth_mono)
  then have "length (filter (\<lambda>v. v \<le> ys ! i) (take (Suc i) ys @ drop (Suc i) ys)) \<ge> Suc i"
    using assms(2) by (simp only: filter_append length_append) simp
  then show ?thesis by simp
qed

lemma sorted_count_ge:
  assumes "sorted ys" "i < length ys"
  shows "length ys - i \<le> length (filter (\<lambda>v. ys ! i \<le> v) ys)"
proof -
  have "filter (\<lambda>v. ys ! i \<le> v) (drop i ys) = drop i ys"
    using assms by (auto simp: in_set_conv_nth intro!: filter_True sorted_nth_mono)
  then have "length (filter (\<lambda>v. ys ! i \<le> v) (take i ys @ drop i ys)) \<ge> length ys - i"
    by (simp only: filter_append length_append) simp
  then show ?thesis by simp
qed

lemma length_filter_sort [simp]: "length (filter P (sort xs)) = length (filter P xs)"
  by (metis mset_filter mset_sort size_mset)

lemma median_empty_iff [simp]: "median xs = None \<longleftrightarrow> xs = []"
  by (simp add: median_def Let_def del: not_None_eq)

lemma median_Nil [simp]: "median [] = None"
  by simp

lemma median_eq_mset: "mset xs = mset ys \<Longrightarrow> median xs = median ys"
  unfolding median_def using sort_cong_mset [of xs ys] by auto

lemma filter_length_mono: "(\<And>v. v \<in> set xs \<Longrightarrow> P v \<Longrightarrow> Q v) \<Longrightarrow> length (filter P xs) \<le> length (filter Q xs)"
  by (induction xs) auto

lemma median_halves:
  assumes "median xs = Some m"
  shows "length xs \<le> 2 * length (filter (\<lambda>v. v \<le> m) xs) \<and>
         length xs \<le> 2 * length (filter (\<lambda>v. m \<le> v) xs)"
proof -
  define ys where "ys = sort xs"
  define k where "k = length ys div 2"
  have ne: "xs \<noteq> []" using assms by auto
  have ys: "sorted ys" "length ys = length xs" by (auto simp: ys_def)
  have k: "k < length ys" using ne ys(2) by (simp add: k_def)
  note cnt = sorted_count_le [OF ys(1)] sorted_count_ge [OF ys(1)]
  show ?thesis
  proof (cases "odd (length ys)")
    case True
    then have "m = ys ! k" using assms ne by (simp add: median_def ys_def k_def Let_def odd_iff_mod_2_eq_one)
    then show ?thesis using cnt [OF k] ys(2) True unfolding ys_def k_def by simp linarith
  next
    case False
    then have m: "m = (ys ! (k - 1) + ys ! k) / 2"
      using assms ne ys(2) by (auto simp: median_def ys_def k_def Let_def odd_iff_mod_2_eq_one)
    have "0 < length ys" using ne ys(2) by simp
    then have k0: "0 < k" using False unfolding k_def by presburger
    have le: "ys ! (k - 1) \<le> ys ! k" using ys(1) k by (simp add: sorted_nth_mono)
    have "length (filter (\<lambda>v. v \<le> ys ! (k - 1)) ys) \<le> length (filter (\<lambda>v. v \<le> m) ys)"
      using le by (intro filter_length_mono) (simp add: m field_simps)
    moreover have "length (filter (\<lambda>v. ys ! k \<le> v) ys) \<le> length (filter (\<lambda>v. m \<le> v) ys)"
      using le by (intro filter_length_mono) (simp add: m field_simps)
    moreover have "Suc (k - 1) \<le> length (filter (\<lambda>v. v \<le> ys ! (k - 1)) ys)"
      using k by (intro sorted_count_le ys) simp
    moreover obtain j where "length ys = 2 * j" using False by (auto elim: evenE)
    ultimately show ?thesis using cnt(2) [OF k] k0 ys(2) unfolding k_def ys_def by simp
  qed
qed

lemma median_between:
  assumes "median xs = Some m" "\<And>v. v \<in> set xs \<Longrightarrow> lo \<le> v \<and> v \<le> hi"
  shows "lo \<le> m \<and> m \<le> hi"
proof -
  have "xs \<noteq> []" using assms(1) by auto
  then have "filter (\<lambda>v. v \<le> m) xs \<noteq> []" "filter (\<lambda>v. m \<le> v) xs \<noteq> []"
    using median_halves [OF assms(1)] by (auto simp del: filter_empty_conv)
  then show ?thesis using assms(2) by (fastforce simp: filter_empty_conv)
qed

lemma median_lower:
  assumes "median xs = Some m" "\<And>v. v \<in> set xs \<Longrightarrow> lo \<le> v"
  shows "lo \<le> m"
proof -
  have "xs \<noteq> []" using assms(1) by auto
  then have "filter (\<lambda>v. v \<le> m) xs \<noteq> []"
    using median_halves [OF assms(1)] by (auto simp del: filter_empty_conv)
  then show ?thesis using assms(2) by (fastforce simp: filter_empty_conv)
qed

lemma percentile_rank:
  assumes "percentile xs q = Some p"
  shows "p \<in> set xs \<and> q * of_nat (length xs) \<le> of_nat (length (filter (\<lambda>v. v \<le> p) xs)) \<and>
         of_nat (length (filter (\<lambda>v. v < p) xs)) \<le> q * of_nat (length xs)"
proof -
  define ys where "ys = sort xs"
  define r where "r = max 1 (min (int (length ys)) \<lceil>q * of_nat (length ys)\<rceil>)"
  define i where "i = nat (r - 1)"
  have ys: "sorted ys" "length ys = length xs" "set ys = set xs" by (auto simp: ys_def)
  have ne: "xs \<noteq> []" and q: "0 \<le> q" "q \<le> 1" and p: "p = ys ! i"
    using assms by (auto simp: percentile_def ys_def i_def r_def Let_def split: if_splits)
  have r: "1 \<le> r" "r \<le> int (length ys)" using ne ys(2) by (auto simp: r_def Suc_le_eq)
  have i: "i < length ys" using r by (simp add: i_def)
  have "q * of_nat (length ys) \<le> of_nat (length ys)" using q by (simp add: mult_left_le_one_le)
  then have c: "\<lceil>q * of_nat (length ys)\<rceil> \<le> int (length ys)" by (simp add: ceiling_le_iff)
  then have r_eq: "r = max 1 \<lceil>q * of_nat (length ys)\<rceil>" by (simp add: r_def)
  have "q * of_nat (length xs) \<le> of_int r" unfolding r_eq using ys(2) by (simp add: le_max_iff_disj) linarith
  also have "\<dots> = of_nat (Suc i)" using r(1) by (simp add: i_def)
  also have "\<dots> \<le> (of_nat (length (filter (\<lambda>v. v \<le> p) ys)) :: rat)"
    using sorted_count_le [OF ys(1) i] p by (simp only: of_nat_le_iff)
  finally have A: "q * of_nat (length xs) \<le> of_nat (length (filter (\<lambda>v. v \<le> p) xs))" by (simp add: ys_def)
  have "length (filter (\<lambda>v. v < p) ys) + length (filter (\<lambda>v. p \<le> v) ys) = length ys"
    using sum_length_filter_compl [of "\<lambda>v. v < p" ys] by (simp add: not_less)
  then have "length (filter (\<lambda>v. v < p) ys) \<le> i"
    using sorted_count_ge [OF ys(1) i] i unfolding p [symmetric] by linarith
  moreover have "(of_nat i :: rat) \<le> q * of_nat (length xs)"
  proof (cases "\<lceil>q * of_nat (length ys)\<rceil> \<le> 1")
    case True then have "i = 0" by (simp add: i_def r_eq max_def)
    then show ?thesis using q by simp
  next
    case False
    then have "of_nat i = (of_int (\<lceil>q * of_nat (length ys)\<rceil> - 1) :: rat)"
      by (simp add: i_def r_eq max_def)
    then show ?thesis using ceiling_correct [of "q * of_nat (length ys)"] ys(2) by simp
  qed
  ultimately have B: "of_nat (length (filter (\<lambda>v. v < p) xs)) \<le> q * of_nat (length xs)"
    by (simp add: ys_def)
  from A B show ?thesis using i p ys(3) by (metis nth_mem)
qed

section \<open>Pace facts\<close>

lemma median_ms_eq_mset: "mset xs = mset ys \<Longrightarrow> median_ms xs = median_ms ys"
  unfolding median_ms_def by (intro median_eq_mset mset_map_filter_cong)

lemma map_filter_positive_floats:
  "\<forall>d \<in> set ds. 0 < d \<Longrightarrow> List.map_filter positive_number (map (\<lambda>d. Some (PyFloat d)) ds) = ds"
  by (induction ds) (simp_all add: map_filter_simps positive_number_def)

lemma mad_ms_floats: "\<forall>d \<in> set ds. 0 < d \<Longrightarrow> mad_ms (map (\<lambda>d. Some (PyFloat d)) ds) = mad ds"
  by (simp add: mad_ms_def map_filter_positive_floats)

lemma mad_None_iff [simp]: "mad ds = None \<longleftrightarrow> ds = []"
  by (auto simp: mad_def split: option.splits)

lemma mad_nonneg:
  assumes "mad ds = Some d" shows "0 \<le> d"
proof -
  obtain c where "median (map (\<lambda>v. \<bar>v - c\<bar>) ds) = Some d"
    using assms by (auto simp: mad_def split: option.splits)
  then show ?thesis
    by (rule median_lower) auto
qed

lemma select_clean_idem [simp]: "select_clean_laps (select_clean_laps laps) = select_clean_laps laps"
  by (simp add: select_clean_laps_def)

lemma set_select_clean: "set (select_clean_laps laps) = {lap \<in> set laps. is_clean_lap lap}"
  by (auto simp: select_clean_laps_def)

lemma lap_duration_pos: "is_clean_lap lap \<Longrightarrow> 0 < lap_duration lap"
  by (metis clean_duration of_int_0_less_iff)

lemma slow_threshold_clean:
  assumes "prior \<noteq> []" "\<forall>d \<in> set prior. 0 < d"
  shows "\<exists>p m. median prior = Some p \<and> mad prior = Some m \<and>
               slow_threshold prior = Some (p + max 2000 (3 * m))"
  using assms by (cases "median prior"; cases "mad prior")
    (auto simp: slow_threshold_def mad_ms_floats simp del: not_None_eq)

lemma slow_threshold_gap:
  assumes "slow_threshold prior = Some t"
  shows "\<exists>p. median prior = Some p \<and> p + 2000 \<le> t"
  using assms by (auto simp: slow_threshold_def split: option.splits)

lemma set_slow_laps:
  "n \<in> set (slow_laps clean w) \<longleftrightarrow>
    (\<exists>i. max 10 (length clean - (case w of Some k \<Rightarrow> k | None \<Rightarrow> length clean)) \<le> i \<and>
         i < length clean \<and> slow_lap_at clean i = Some n)"
  by (auto simp: slow_laps_def set_map_filter)

lemma slow_lap_at_Some:
  assumes "slow_lap_at clean i = Some n" "10 \<le> i"
  shows "lap_number (clean ! i) = Some n \<and>
         (\<exists>p. median (map lap_duration (take 10 (drop (i - 10) clean))) = Some p \<and>
              p + 2000 < lap_duration (clean ! i))"
  using assms
  by (fastforce simp: slow_lap_at_def Let_def split: option.splits if_splits dest: slow_threshold_gap)

lemma slow_laps_window_suffix: "\<exists>older. slow_laps clean None = older @ slow_laps clean (Some w)"
proof -
  let ?n = "length clean" and ?s = "max 10 (length clean - w)"
  show ?thesis
  proof (cases "?s \<le> ?n")
    case True
    then have "[max 10 0 ..< ?n] = [max 10 0 ..< ?s] @ [?s ..< ?n]"
      using upt_add_eq_append [of 10 ?s "?n - ?s"] by simp
    then show ?thesis by (auto simp: slow_laps_def Let_def map_filter_def)
  next
    case False
    then show ?thesis by (auto simp: slow_laps_def Let_def map_filter_def)
  qed
qed


lemma length_filter_less:
  assumes "\<And>v. P v \<Longrightarrow> Q v" "x \<in> set xs" "Q x" "\<not> P x"
  shows "length (filter P xs) < length (filter Q xs)"
  using assms(2)
proof (induction xs)
  case (Cons y ys)
  show ?case
  proof (cases "x = y")
    case True
    then show ?thesis
      using assms filter_length_mono [of ys P Q] by (simp add: le_imp_less_Suc)
  next
    case False
    then show ?thesis using Cons assms(1) by auto
  qed
qed simp

section \<open>Properties\<close>

text \<open>The median of the valid pace values splits them: at least half of them are not
  above it and at least half are not below it; it exists exactly when a value is valid.\<close>
theorem median_ms_halves:
  "let valid = List.map_filter positive_number values
   in case median_ms values of
        None \<Rightarrow> valid = []
      | Some m \<Rightarrow> valid \<noteq> [] \<and> length valid \<le> 2 * length (filter (\<lambda>v. v \<le> m) valid) \<and>
                  length valid \<le> 2 * length (filter (\<lambda>v. m \<le> v) valid)"
  using median_halves [of "List.map_filter positive_number values"]
  by (auto simp: median_ms_def Let_def split: option.split simp del: not_None_eq)

text \<open>Pace analytics see clean laps only: two histories with the same clean laps in the
  same order have the same paces, consistency, range, clean count and slow laps, whatever
  unclean laps lie between them.\<close>
theorem pace_depends_on_clean_laps:
  assumes "select_clean_laps laps = select_clean_laps laps'"
  shows "calculate_pace_metrics laps' incl w =
    map_sum id (\<lambda>m. m\<lparr>observed_lap_count := length laps',
                       clean_lap_ratio := (if laps' = [] then None
                         else Some (of_nat (clean_lap_count m) / of_nat (length laps')))\<rparr>)
      (calculate_pace_metrics laps incl w)"
  using assms by (simp add: calculate_pace_metrics_def Let_def)

text \<open>A lap number is reported as slow exactly when it belongs to a clean lap in the
  evaluation window, after at least ten clean laps, whose duration exceeds the median of its ten
  predecessors by more than the larger of two seconds and three times their deviation.\<close>
theorem slow_lap_reported_iff:
  assumes "calculate_pace_metrics laps incl w = Inr m" "slow_lap_numbers m = Some ns"
  defines "clean \<equiv> select_clean_laps laps"
  shows "n \<in> set ns \<longleftrightarrow>
    (\<exists>i < length clean. 10 \<le> i \<and> (\<forall>k \<in> set_option w. int (length clean) - k \<le> int i) \<and>
       lap_number (clean ! i) = Some n \<and>
       (\<exists>p d. median (map lap_duration (take 10 (drop (i - 10) clean))) = Some p \<and>
              mad (map lap_duration (take 10 (drop (i - 10) clean))) = Some d \<and>
              p + max 2000 (3 * d) < lap_duration (clean ! i)))"
proof -
  have ns: "ns = slow_laps clean (map_option nat w)" and w: "\<And>k. w = Some k \<Longrightarrow> 1 \<le> k"
    using assms by (auto simp: calculate_pace_metrics_def Let_def clean_def split: if_splits)
  have thr: "slow_lap_at clean i = Some n \<longleftrightarrow> lap_number (clean ! i) = Some n \<and>
       (\<exists>p d. median (map lap_duration (take 10 (drop (i - 10) clean))) = Some p \<and>
              mad (map lap_duration (take 10 (drop (i - 10) clean))) = Some d \<and>
              p + max 2000 (3 * d) < lap_duration (clean ! i))" (is "_ = ?R i")
    if "i < length clean" "10 \<le> i" for i
  proof -
    let ?prior = "map lap_duration (take 10 (drop (i - 10) clean))"
    have "\<forall>d \<in> set ?prior. 0 < d"
      using lap_duration_pos
      by (auto simp: clean_def set_select_clean dest!: in_set_takeD in_set_dropD)
    moreover have "?prior \<noteq> []" using that by auto
    ultimately obtain p d where "median ?prior = Some p" "mad ?prior = Some d"
      "slow_threshold ?prior = Some (p + max 2000 (3 * d))"
      using slow_threshold_clean by blast
    then show ?thesis by (auto simp: slow_lap_at_def Let_def split: option.splits)
  qed
  have start: "max 10 (length clean - (case map_option nat w of Some k \<Rightarrow> k | None \<Rightarrow> length clean)) \<le> i
      \<longleftrightarrow> 10 \<le> i \<and> (\<forall>k \<in> set_option w. int (length clean) - k \<le> int i)" for i
    using w by (cases w) auto
  show ?thesis unfolding ns set_slow_laps start using thr by blast
qed

text \<open>Restricting slow-lap detection to the live tail loses nothing there: the windowed
  report is a suffix of the report over the whole history, and every window below one is
  rejected.\<close>
theorem slow_lap_window_is_suffix:
  assumes "calculate_pace_metrics laps True None = Inr m" "slow_lap_numbers m = Some full"
  shows "if w < 1 then calculate_pace_metrics laps True (Some w) = Inl SlowLapWindowError
         else \<exists>m' older tail. calculate_pace_metrics laps True (Some w) = Inr m' \<and>
                slow_lap_numbers m' = Some tail \<and> full = older @ tail"
  using assms slow_laps_window_suffix [of "select_clean_laps laps" "nat w"]
  by (auto simp: calculate_pace_metrics_def Let_def split: if_splits)

text \<open>Competition ranking is monotone: a participant ranks no worse than another exactly
  when its pace is no slower, so equal paces share a rank and ranks start at one.\<close>
theorem pace_rank_order:
  assumes "pace_rank p paces = Some i" "pace_rank q paces = Some j"
    and "positive_number (Option.bind (map_of paces p) id) = Some a"
    and "positive_number (Option.bind (map_of paces q) id) = Some b"
  shows "(i \<le> j \<longleftrightarrow> a \<le> b) \<and> 1 \<le> i \<and> i \<le> length paces"
proof -
  define pop where "pop = List.map_filter positive_number (map snd paces)"
  have i: "i = Suc (length (filter (\<lambda>v. v < a) pop))" and j: "j = Suc (length (filter (\<lambda>v. v < b) pop))"
    using assms by (auto simp: pace_rank_def Let_def pop_def simp del: positive_number_Some)
  have mem: "c \<in> set pop" if "positive_number (Option.bind (map_of paces r) id) = Some c" for r c
  proof -
    from that obtain v where "map_of paces r = Some v" "positive_number v = Some c"
      by (cases "map_of paces r") (auto simp: positive_number_def)
    then show ?thesis by (force simp: pop_def set_map_filter dest: map_of_SomeD)
  qed
  have "a \<le> b \<Longrightarrow> i \<le> j" unfolding i j by (auto intro: filter_length_mono)
  moreover have "j < i" if "b < a"
    unfolding i j Suc_less_eq using that mem [OF assms(4)] by (intro length_filter_less) auto
  moreover have "length (filter (\<lambda>v. v < a) pop) < length pop"
    using mem [OF assms(3)] by (intro length_filter_less [of _ "\<lambda>_. True" a, simplified]) auto
  moreover have "length pop \<le> length paces"
    unfolding pop_def by (rule order_trans [OF length_map_filter_le]) simp
  ultimately show ?thesis using i by fastforce
qed

section \<open>Witnesses\<close>

text \<open>Concrete laps for the witnesses: ten even green laps, a slow one, an even one.\<close>

definition green_lap :: "int \<Rightarrow> int \<Rightarrow> lap_sample" where
  "green_lap number duration =
    \<lparr> lap_participant_id = Some ''p21'', lap_number = Some number, lap_capture_sequence = None,
      lap_completed_at_us = None, lap_duration_ms = Some duration, lap_flag_kinds = [GREEN_FLAG],
      lap_is_in_lap = Some False, lap_is_out_lap = Some False, lap_crosses_pit = Some False,
      lap_has_feed_gap = Some False \<rparr>"

definition green_laps :: "lap_sample list" where
  "green_laps = map (\<lambda>n. green_lap n (100000 + 10 * n)) [1..10] @ [green_lap 11 103000, green_lap 12 100000]"

definition pit_lap :: lap_sample where
  "pit_lap = green_lap 13 160000 \<lparr> lap_crosses_pit := Some True \<rparr>"

lemma green_laps_facts:
  "select_clean_laps green_laps = green_laps" "length green_laps = 12"
  "select_clean_laps (green_laps @ [pit_lap]) = green_laps"
  by code_simp+

lemma slow_green_laps:
  obtains m where "calculate_pace_metrics green_laps True None = Inr m" "slow_lap_numbers m = Some [11]"
proof -
  have "case calculate_pace_metrics green_laps True None of
          Inl _ \<Rightarrow> False | Inr m \<Rightarrow> slow_lap_numbers m = Some [11]"
    by code_simp
  then show ?thesis using that by (auto split: sum.splits)
qed

theorem pace_depends_on_clean_laps_witness:
  "select_clean_laps green_laps = select_clean_laps (green_laps @ [pit_lap]) \<and>
   map_sum id pace5_ms (calculate_pace_metrics (green_laps @ [pit_lap]) True None)
     = map_sum id pace5_ms (calculate_pace_metrics green_laps True None)"
proof -
  have h: "select_clean_laps green_laps = select_clean_laps (green_laps @ [pit_lap])"
    by (simp add: green_laps_facts)
  show ?thesis
    using h pace_depends_on_clean_laps [OF h, of True None]
    by (cases "calculate_pace_metrics green_laps True None") simp_all
qed

theorem slow_lap_reported_iff_witness:
  "\<exists>i p d. i < 12 \<and> 10 \<le> i \<and> lap_number (green_laps ! i) = Some 11 \<and>
     median (map lap_duration (take 10 (drop (i - 10) green_laps))) = Some p \<and>
     mad (map lap_duration (take 10 (drop (i - 10) green_laps))) = Some d \<and>
     p + max 2000 (3 * d) < lap_duration (green_laps ! i)"
proof -
  obtain m where m: "calculate_pace_metrics green_laps True None = Inr m" "slow_lap_numbers m = Some [11]"
    by (rule slow_green_laps)
  show ?thesis using slow_lap_reported_iff [OF m, of 11] by (auto simp: green_laps_facts)
qed

theorem slow_lap_window_is_suffix_witness:
  "\<exists>m' older tail. calculate_pace_metrics green_laps True (Some 2) = Inr m' \<and>
     slow_lap_numbers m' = Some tail \<and> [11] = older @ tail"
proof -
  obtain m where m: "calculate_pace_metrics green_laps True None = Inr m" "slow_lap_numbers m = Some [11]"
    by (rule slow_green_laps)
  show ?thesis using slow_lap_window_is_suffix [OF m, of 2] by simp
qed

theorem pace_rank_order_witness:
  "pace_rank ''a'' [(''a'', Some (PyInt 5)), (''b'', None), (''c'', Some (PyInt 7))] = Some 1 \<and>
   pace_rank ''c'' [(''a'', Some (PyInt 5)), (''b'', None), (''c'', Some (PyInt 7))] = Some 2 \<and>
   ((1::nat) \<le> 2 \<longleftrightarrow> (5::rat) \<le> 7)"
proof -
  let ?m = "[(''a'', Some (PyInt 5)), (''b'', None), (''c'', Some (PyInt 7))]"
  have h: "pace_rank ''a'' ?m = Some 1" "pace_rank ''c'' ?m = Some 2"
    by (simp_all add: pace_rank_def map_filter_simps positive_number_def)
  show ?thesis using h pace_rank_order [OF h, of 5 7] by simp
qed

end
