(* ===== verification/Gap_Trends.thy ===== *)
theory Gap_Trends
  imports Pace
begin

text \<open>
  Gap trends of \<open>server/timing/metrics.py\<close>: eligibility of a gap sample, the rolling
  time-window and exact lap-window trends over the contiguous eligible suffix, and the
  contact forecast derived from them.
\<close>

section \<open>Samples and eligibility\<close>

definition ON_TRACK_STATE :: string where "ON_TRACK_STATE = ''ON_TRACK''"

definition GAP_RELATION_AHEAD :: string where "GAP_RELATION_AHEAD = ''AHEAD''"

definition GAP_RELATION_BEHIND :: string where "GAP_RELATION_BEHIND = ''BEHIND''"

definition GAP_RELATIONS :: "string list" where
  "GAP_RELATIONS = [GAP_RELATION_AHEAD, GAP_RELATION_BEHIND]"

definition GAP_WINDOWS_S :: "int list" where "GAP_WINDOWS_S = [30, 60, 180]"

definition GAP_LAP_WINDOWS :: "int list" where "GAP_LAP_WINDOWS = [3, 5]"

datatype gap_direction = CLOSING | LOSING_GROUND | PULLING_AWAY | BEING_CAUGHT | STABLE

record gap_sample =
  gs_target_participant_id :: "string option"
  gs_observed_at_us :: "int option"
  gs_gap_ms :: "int option"
  gs_our_lap_number :: "int option"
  gs_target_lap_number :: "int option"
  gs_flag_kind :: "string option"
  gs_our_state_kind :: "string option"
  gs_target_state_kind :: "string option"
  gs_has_feed_gap :: "bool option"
  gs_source_time_interval :: "bool option"

definition is_eligible_gap_sample :: "gap_sample \<Rightarrow> bool" where
  [guard_defs]: "is_eligible_gap_sample sample =
    (let has_lap_axis = is_int (gs_our_lap_number sample) 0 \<and> is_int (gs_target_lap_number sample) 0;
         same_lap = (if has_lap_axis then gs_our_lap_number sample = gs_target_lap_number sample
                     else gs_source_time_interval sample = Some True)
     in (case gs_target_participant_id sample of None \<Rightarrow> False | Some t \<Rightarrow> t \<noteq> [])
      \<and> is_int (gs_observed_at_us sample) 0
      \<and> is_int (gs_gap_ms sample) 0
      \<and> same_lap
      \<and> gs_flag_kind sample = Some GREEN_FLAG
      \<and> gs_our_state_kind sample = Some ON_TRACK_STATE
      \<and> gs_target_state_kind sample = Some ON_TRACK_STATE
      \<and> gs_has_feed_gap sample = Some False)"

section \<open>Trends\<close>

record gap_trend =
  gt_relation :: string
  gt_window_s :: int
  gt_covered_s :: rat
  gt_started_at_us :: int
  gt_ended_at_us :: int
  gt_started_gap_ms :: int
  gt_ended_gap_ms :: int
  gt_gap_change_ms :: int
  gt_closure_ms_per_min :: rat
  gt_closure_ms_per_lap :: "rat option"
  gt_direction :: gap_direction

record gap_lap_trend =
  lt_relation :: string
  lt_window_laps :: int
  lt_started_at_us :: int
  lt_ended_at_us :: int
  lt_started_gap_ms :: int
  lt_ended_gap_ms :: int
  lt_gap_change_ms :: int
  lt_closure_ms_per_lap :: rat
  lt_direction :: gap_direction

definition gap_direction_of :: "string \<Rightarrow> int \<Rightarrow> gap_direction" where
  "gap_direction_of relation gap_change_ms =
    (if gap_change_ms = 0 then STABLE
     else if relation = GAP_RELATION_AHEAD
     then if gap_change_ms < 0 then CLOSING else LOSING_GROUND
     else if 0 < gap_change_ms then PULLING_AWAY else BEING_CAUGHT)"

text \<open>
  The sort key: the observation time, or \<open>float("inf")\<close> for a sample without a valid
  one (a pair ordered lexicographically), then the position in the input.
\<close>

definition gap_time_key :: "gap_sample \<Rightarrow> nat \<times> int" where
  "gap_time_key sample =
    (if is_int (gs_observed_at_us sample) 0 then (0, the (gs_observed_at_us sample)) else (1, 0))"

definition ordered_gap_samples :: "gap_sample list \<Rightarrow> gap_sample list" where
  "ordered_gap_samples samples =
    map snd (sort_key (\<lambda>item. (gap_time_key (snd item), fst item)) (enumerate 0 samples))"

text \<open>The \<open>while\<close> loop that walks back over the contiguous eligible samples.\<close>

fun suffix_start :: "gap_sample list \<Rightarrow> string option \<Rightarrow> nat \<Rightarrow> nat" where
  "suffix_start ordered latest_target 0 = 0"
| "suffix_start ordered latest_target (Suc k) =
    (if is_eligible_gap_sample (ordered ! k) \<and> gs_target_participant_id (ordered ! k) = latest_target
     then suffix_start ordered latest_target k else Suc k)"

definition gap_closure :: "string \<Rightarrow> int \<Rightarrow> int \<Rightarrow> int" where
  "gap_closure relation first_gap latest_gap =
    (if relation = GAP_RELATION_AHEAD then first_gap - latest_gap else latest_gap - first_gap)"

text \<open>The record built from the two ends of the window.\<close>

definition gap_trend_between :: "string \<Rightarrow> int \<Rightarrow> gap_sample \<Rightarrow> gap_sample \<Rightarrow> gap_trend option" where
  "gap_trend_between relation window_s first latest =
    (let first_us = the (gs_observed_at_us first);
         latest_us = the (gs_observed_at_us latest);
         first_gap = the (gs_gap_ms first);
         latest_gap = the (gs_gap_ms latest);
         elapsed_us = latest_us - first_us
     in if elapsed_us \<le> 0 then None
     else let gap_change = latest_gap - first_gap;
              closure = gap_closure relation first_gap latest_gap;
              lap_delta = (if is_int (gs_our_lap_number latest) 0 \<and> is_int (gs_our_lap_number first) 0
                           then Some (the (gs_our_lap_number latest) - the (gs_our_lap_number first))
                           else None)
     in Some \<lparr> gt_relation = relation,
               gt_window_s = window_s,
               gt_covered_s = of_int elapsed_us / 1000000,
               gt_started_at_us = first_us,
               gt_ended_at_us = latest_us,
               gt_started_gap_ms = first_gap,
               gt_ended_gap_ms = latest_gap,
               gt_gap_change_ms = gap_change,
               gt_closure_ms_per_min = of_int closure * 60000000 / of_int elapsed_us,
               gt_closure_ms_per_lap =
                 (case lap_delta of Some d \<Rightarrow> if 0 < d then Some (of_int closure / of_int d) else None
                  | None \<Rightarrow> None),
               gt_direction = gap_direction_of relation gap_change \<rparr>)"

definition calculate_gap_trend :: "gap_sample list \<Rightarrow> string \<Rightarrow> int \<Rightarrow> gap_trend option" where
  "calculate_gap_trend samples relation window_s =
    (if relation \<notin> set GAP_RELATIONS \<or> window_s < 1 then None
     else let ordered = ordered_gap_samples samples in
     if length ordered < 2 \<or> \<not> is_eligible_gap_sample (last ordered) then None
     else let latest = last ordered;
              suffix = drop (suffix_start ordered (gs_target_participant_id latest) (length ordered - 1)) ordered;
              cutoff_us = the (gs_observed_at_us latest) - window_s * 1000000;
              candidates = filter (\<lambda>sample. case gs_observed_at_us sample of
                                      None \<Rightarrow> False | Some t \<Rightarrow> t \<le> cutoff_us) (butlast suffix)
     in if candidates = [] then None
     else gap_trend_between relation window_s (last candidates) latest)"

definition calculate_gap_trends ::
    "gap_sample list \<Rightarrow> string \<Rightarrow> int list \<Rightarrow> (int \<times> gap_trend option) list" where
  "calculate_gap_trends samples relation windows_s =
    dict_of (map (\<lambda>window_s. (window_s, calculate_gap_trend samples relation window_s)) windows_s)"

definition gap_lap_trend_between :: "string \<Rightarrow> int \<Rightarrow> gap_sample \<Rightarrow> gap_sample \<Rightarrow> gap_lap_trend option" where
  "gap_lap_trend_between relation window_laps first latest =
    (let first_us = the (gs_observed_at_us first);
         latest_us = the (gs_observed_at_us latest);
         first_gap = the (gs_gap_ms first);
         latest_gap = the (gs_gap_ms latest)
     in if latest_us \<le> first_us then None
     else let gap_change = latest_gap - first_gap;
              closure = gap_closure relation first_gap latest_gap
     in Some \<lparr> lt_relation = relation,
               lt_window_laps = window_laps,
               lt_started_at_us = first_us,
               lt_ended_at_us = latest_us,
               lt_started_gap_ms = first_gap,
               lt_ended_gap_ms = latest_gap,
               lt_gap_change_ms = gap_change,
               lt_closure_ms_per_lap = of_int closure / of_int window_laps,
               lt_direction = gap_direction_of relation gap_change \<rparr>)"

definition calculate_gap_lap_trend :: "gap_sample list \<Rightarrow> string \<Rightarrow> int \<Rightarrow> gap_lap_trend option" where
  "calculate_gap_lap_trend samples relation window_laps =
    (if relation \<notin> set GAP_RELATIONS \<or> window_laps < 1 then None
     else let ordered = ordered_gap_samples samples in
     if length ordered < 2 \<or> \<not> is_eligible_gap_sample (last ordered) then None
     else let latest = last ordered in
     if \<not> is_int (gs_our_lap_number latest) window_laps then None
     else let start = suffix_start ordered (gs_target_participant_id latest) (length ordered - 1);
              target_lap = the (gs_our_lap_number latest) - window_laps;
              candidates = filter (\<lambda>sample. gs_our_lap_number sample = Some target_lap)
                             (butlast (drop start ordered))
     in if candidates = [] then None
     else gap_lap_trend_between relation window_laps (last candidates) latest)"

definition calculate_gap_lap_trends ::
    "gap_sample list \<Rightarrow> string \<Rightarrow> int list \<Rightarrow> (int \<times> gap_lap_trend option) list" where
  "calculate_gap_lap_trends samples relation windows_laps =
    dict_of (map (\<lambda>window_laps. (window_laps, calculate_gap_lap_trend samples relation window_laps)) windows_laps)"

section \<open>Contact forecast\<close>

record catch_range =
  cr_relation :: string
  cr_gap_ms :: int
  cr_minimum_laps :: rat
  cr_maximum_laps :: rat
  cr_minimum_time_ms :: rat
  cr_maximum_time_ms :: rat
  cr_source_windows_s :: "int list"

definition catch_rate :: "string \<Rightarrow> gap_trend \<Rightarrow> (int \<times> rat) option" where
  "catch_rate relation trend =
    (let expected_direction = (if relation = GAP_RELATION_AHEAD then CLOSING else BEING_CAUGHT) in
     if gt_relation trend \<noteq> relation \<or> gt_direction trend \<noteq> expected_direction then None
     else let closure = gt_closure_ms_per_lap trend;
              rate = (if relation = GAP_RELATION_AHEAD
                      then positive_number (map_option PyFloat closure)
                      else positive_number (map_option (\<lambda>c. PyFloat (- c)) closure))
     in map_option (\<lambda>r. (gt_window_s trend, r)) rate)"

definition calculate_catch_range ::
    "gap_sample \<Rightarrow> gap_trend option list \<Rightarrow> string \<Rightarrow> pynum option \<Rightarrow> catch_range option" where
  "calculate_catch_range current trends relation reference_pace_ms =
    (if relation \<notin> set GAP_RELATIONS \<or> \<not> is_eligible_gap_sample current then None
     else case (positive_number reference_pace_ms, gs_gap_ms current) of
       (Some pace, Some gap) \<Rightarrow>
         (let rates = List.map_filter (\<lambda>trend. Option.bind trend (catch_rate relation)) trends in
          if length rates < 2 then None
          else let fastest_rate = Max (set (map snd rates));
                   slowest_rate = Min (set (map snd rates));
                   minimum_laps = of_int gap / fastest_rate;
                   maximum_laps = of_int gap / slowest_rate
          in Some \<lparr> cr_relation = relation,
                    cr_gap_ms = gap,
                    cr_minimum_laps = minimum_laps,
                    cr_maximum_laps = maximum_laps,
                    cr_minimum_time_ms = minimum_laps * pace,
                    cr_maximum_time_ms = maximum_laps * pace,
                    cr_source_windows_s = sort (map fst rates) \<rparr>)
     | _ \<Rightarrow> None)"

section \<open>Ordering facts\<close>

lemma mset_ordered [simp]: "mset (ordered_gap_samples samples) = mset samples"
proof -
  have "mset (map snd (enumerate 0 samples)) = mset samples" by simp
  then show ?thesis by (simp only: ordered_gap_samples_def mset_map mset_sort)
qed

lemma length_ordered [simp]: "length (ordered_gap_samples samples) = length samples"
  by (metis mset_ordered size_mset)

lemma sorted_map_fst: "sorted (xs :: ('a :: linorder \<times> 'b :: linorder) list) \<Longrightarrow> sorted (map fst xs)"
  by (induction xs) (auto simp: less_eq_prod_def)

lemma sorted_ordered: "sorted (map gap_time_key (ordered_gap_samples samples))"
proof -
  let ?k = "\<lambda>item :: nat \<times> gap_sample. (gap_time_key (snd item), fst item)"
  show ?thesis using sorted_map_fst [OF sorted_sort_key [of ?k "enumerate 0 samples"]]
    by (simp add: ordered_gap_samples_def comp_def)
qed

lemma ordered_by_distinct_times:
  assumes "mset samples = mset samples'" "distinct (map gap_time_key samples)"
  shows "ordered_gap_samples samples = ordered_gap_samples samples'"
proof -
  have inj: "inj_on gap_time_key (set samples)" using assms(2) by (simp add: distinct_map)
  have "sort_key gap_time_key samples = ordered_gap_samples xs" if "mset xs = mset samples" for xs
    by (rule sort_key_inj_key_eq [OF _ inj sorted_ordered]) (simp add: that)
  then show ?thesis using assms(1) by metis
qed

section \<open>The contiguous suffix\<close>

lemma suffix_start_le: "suffix_start xs t k \<le> k"
  by (induction xs t k rule: suffix_start.induct) auto

lemma suffix_start_eligible:
  "suffix_start xs t k \<le> i \<Longrightarrow> i < k \<Longrightarrow>
   is_eligible_gap_sample (xs ! i) \<and> gs_target_participant_id (xs ! i) = t"
proof (induction xs t k rule: suffix_start.induct)
  case (2 xs t k)
  then show ?case by (cases "i = k") (auto split: if_splits)
qed simp

lemma suffix_start_maximal:
  "suffix_start xs t k = Suc j \<Longrightarrow>
   \<not> (is_eligible_gap_sample (xs ! j) \<and> gs_target_participant_id (xs ! j) = t)"
  by (induction xs t k rule: suffix_start.induct) (auto split: if_splits)

text \<open>
  A seg that ends with the latest sample, starts with a given earlier one and stays
  eligible against one target: what both trends are computed over.
\<close>

definition clear_span :: "gap_sample list \<Rightarrow> gap_sample list \<Rightarrow> bool" where
  "clear_span ordered seg = (\<exists>earlier. ordered = earlier @ seg \<and> 2 \<le> length seg \<and>
     (\<forall>s \<in> set seg. is_eligible_gap_sample s \<and>
        gs_target_participant_id s = gs_target_participant_id (last ordered)))"

lemma eligible_observed:
  "is_eligible_gap_sample s \<Longrightarrow> \<exists>t g. gs_observed_at_us s = Some t \<and> 0 \<le> t \<and> gs_gap_ms s = Some g \<and> 0 \<le> g"
  by (auto simp: is_eligible_gap_sample_def Let_def elim!: is_intE)

lemma candidate_span:
  assumes "2 \<le> length ordered" "is_eligible_gap_sample (last ordered)"
  defines "t \<equiv> gs_target_participant_id (last ordered)"
  defines "k \<equiv> suffix_start ordered t (length ordered - 1)"
  defines "xs \<equiv> butlast (drop k ordered)"
  assumes cand: "filter P xs \<noteq> []"
  shows "\<exists>seg. clear_span ordered seg \<and> hd seg = last (filter P xs) \<and> P (hd seg) \<and>
           last seg = last ordered \<and> (\<forall>s \<in> set (butlast (tl seg)). \<not> P s)"
proof -
  from last_filter_split [OF cand] obtain as bs f where
    split: "xs = as @ f # bs" "\<forall>b \<in> set bs. \<not> P b" "P f" and f: "f = last (filter P xs)" by blast
  let ?seg = "f # bs @ [last ordered]"
  have k: "k \<le> length ordered - 1" unfolding k_def by (rule suffix_start_le)
  have el: "is_eligible_gap_sample x \<and> gs_target_participant_id x = t" if x: "x \<in> set xs" for x
  proof -
    obtain i where "i < length xs" "x = xs ! i" using x by (metis in_set_conv_nth)
    then have "x = ordered ! (k + i)" "k + i < length ordered - 1"
      using k assms(1) by (auto simp: nth_butlast xs_def)
    then show ?thesis using suffix_start_eligible [of ordered t "length ordered - 1" "k + i"]
      by (simp add: k_def)
  qed
  have "drop k ordered \<noteq> []" using k assms(1) by auto
  then have "drop k ordered = xs @ [last ordered]"
    using append_butlast_last_id [of "drop k ordered"] last_drop [of k ordered] unfolding xs_def by simp
  then have "ordered = take k ordered @ as @ ?seg"
    using append_take_drop_id [of k ordered] split(1) by simp
  moreover have "\<forall>x \<in> set ?seg. is_eligible_gap_sample x \<and> gs_target_participant_id x = t"
  proof -
    have "set ?seg \<subseteq> insert (last ordered) (set xs)" using split(1) by auto
    then show ?thesis using el assms(2) t_def by blast
  qed
  ultimately have "clear_span ordered ?seg"
    unfolding clear_span_def t_def by (intro exI [of _ "take k ordered @ as"]) simp
  then show ?thesis using split(2,3) f by (intro exI [of _ ?seg]) (simp add: butlast_append)
qed

text \<open>The eligible prefix of an observed sample carries its time and gap.\<close>

lemma clear_span_ends:
  assumes "clear_span ordered seg"
  shows "seg \<noteq> []" "is_eligible_gap_sample (hd seg)" "is_eligible_gap_sample (last seg)"
proof -
  show ne: "seg \<noteq> []" using assms by (auto simp: clear_span_def)
  show "is_eligible_gap_sample (hd seg)" "is_eligible_gap_sample (last seg)"
    using assms hd_in_set [OF ne] last_in_set [OF ne] unfolding clear_span_def by blast+
qed

section \<open>What a trend is computed from\<close>

lemma gap_trend_span:
  assumes "calculate_gap_trend samples relation window_s = Some t"
  shows "\<exists>seg. clear_span (ordered_gap_samples samples) seg \<and>
     gap_trend_between relation window_s (hd seg) (last seg) = Some t \<and>
     relation \<in> set GAP_RELATIONS \<and> last seg = last (ordered_gap_samples samples) \<and>
     the (gs_observed_at_us (hd seg)) \<le> the (gs_observed_at_us (last seg)) - window_s * 1000000 \<and>
     (\<forall>s \<in> set (butlast (tl seg)).
        the (gs_observed_at_us (last seg)) - window_s * 1000000 < the (gs_observed_at_us s))"
proof -
  define ordered where "ordered = ordered_gap_samples samples"
  define P where "P = (\<lambda>sample :: gap_sample. case gs_observed_at_us sample of None \<Rightarrow> False
      | Some u \<Rightarrow> u \<le> the (gs_observed_at_us (last ordered)) - window_s * 1000000)"
  define xs where "xs = butlast (drop (suffix_start ordered (gs_target_participant_id (last ordered))
      (length ordered - 1)) ordered)"
  have len: "2 \<le> length ordered" and el: "is_eligible_gap_sample (last ordered)"
    and cand: "filter P xs \<noteq> []" and rel: "relation \<in> set GAP_RELATIONS"
    and t: "gap_trend_between relation window_s (last (filter P xs)) (last ordered) = Some t"
    using assms unfolding calculate_gap_trend_def Let_def
    by (simp_all only: ordered_def [symmetric] P_def [symmetric] xs_def [symmetric] split: if_splits) auto
  obtain seg where seg: "clear_span ordered seg" "hd seg = last (filter P xs)" "P (hd seg)"
      "last seg = last ordered" "\<forall>s \<in> set (butlast (tl seg)). \<not> P s"
    using candidate_span [OF len el, of P] cand unfolding xs_def by blast
  have "the (gs_observed_at_us (last seg)) - window_s * 1000000 < the (gs_observed_at_us s)"
    if "s \<in> set (butlast (tl seg))" for s
  proof -
    have "s \<in> set seg"
      using that clear_span_ends(1) [OF seg(1)] by (meson in_set_butlastD list.set_sel(2))
    then have "is_eligible_gap_sample s" using seg(1) by (auto simp: clear_span_def)
    then show ?thesis using seg(4,5) that eligible_observed [of s] by (auto simp: P_def not_le)
  qed
  moreover have "the (gs_observed_at_us (hd seg)) \<le> the (gs_observed_at_us (last seg)) - window_s * 1000000"
    using seg(3,4) by (auto simp: P_def split: option.splits)
  ultimately show ?thesis using seg(1,2,4) t rel unfolding ordered_def by metis
qed

lemma gap_lap_trend_span:
  assumes "calculate_gap_lap_trend samples relation window_laps = Some t"
  shows "\<exists>seg l. clear_span (ordered_gap_samples samples) seg \<and>
     gap_lap_trend_between relation window_laps (hd seg) (last seg) = Some t \<and>
     relation \<in> set GAP_RELATIONS \<and> 1 \<le> window_laps \<and> last seg = last (ordered_gap_samples samples) \<and>
     gs_our_lap_number (last seg) = Some l \<and> gs_our_lap_number (hd seg) = Some (l - window_laps)"
proof -
  define ordered where "ordered = ordered_gap_samples samples"
  define P where "P = (\<lambda>sample :: gap_sample. gs_our_lap_number sample =
      Some (the (gs_our_lap_number (last ordered)) - window_laps))"
  define xs where "xs = butlast (drop (suffix_start ordered (gs_target_participant_id (last ordered))
      (length ordered - 1)) ordered)"
  have len: "2 \<le> length ordered" and el: "is_eligible_gap_sample (last ordered)"
    and cand: "filter P xs \<noteq> []" and rel: "relation \<in> set GAP_RELATIONS" "1 \<le> window_laps"
    and l: "is_int (gs_our_lap_number (last ordered)) window_laps"
    and t: "gap_lap_trend_between relation window_laps (last (filter P xs)) (last ordered) = Some t"
    using assms unfolding calculate_gap_lap_trend_def Let_def
    by (simp_all only: ordered_def [symmetric] P_def [symmetric] xs_def [symmetric] split: if_splits) auto
  obtain seg where seg: "clear_span ordered seg" "hd seg = last (filter P xs)" "P (hd seg)"
      "last seg = last ordered"
    using candidate_span [OF len el, of P] cand unfolding xs_def by blast
  then show ?thesis using t rel l unfolding ordered_def P_def by (metis is_intE option.sel)
qed

section \<open>Signs\<close>

lemma gap_direction_sign:
  "gap_direction_of relation (g1 - g0) \<in> {CLOSING, PULLING_AWAY} \<longleftrightarrow> 0 < gap_closure relation g0 g1"
  "gap_direction_of relation (g1 - g0) = STABLE \<longleftrightarrow> gap_closure relation g0 g1 = 0"
  by (auto simp: gap_direction_of_def gap_closure_def)

lemma gap_trend_between_Some:
  assumes "gap_trend_between relation w f l = Some t"
  defines "closure \<equiv> gap_closure relation (gt_started_gap_ms t) (gt_ended_gap_ms t)"
  shows "gt_started_at_us t = the (gs_observed_at_us f)" "gt_ended_at_us t = the (gs_observed_at_us l)"
    "gt_started_gap_ms t = the (gs_gap_ms f)" "gt_ended_gap_ms t = the (gs_gap_ms l)"
    "gt_started_at_us t < gt_ended_at_us t" "gt_relation t = relation" "gt_window_s t = w"
    "gt_direction t = gap_direction_of relation (gt_ended_gap_ms t - gt_started_gap_ms t)"
    "gt_closure_ms_per_min t = of_int closure * 60000000 / of_int (gt_ended_at_us t - gt_started_at_us t)"
    "\<And>c. gt_closure_ms_per_lap t = Some c \<Longrightarrow> \<exists>d > 0. c = of_int closure / of_int d"
  using assms
  by (auto simp: gap_trend_between_def Let_def simp del: of_int_diff split: if_splits
      intro!: exI [of _ "the (gs_our_lap_number l) - the (gs_our_lap_number f)"])

lemma calculate_gap_trend_between:
  assumes "calculate_gap_trend samples relation w = Some t"
  obtains f l where "gap_trend_between relation w f l = Some t" "relation \<in> set GAP_RELATIONS"
  using gap_trend_span [OF assms] by blast

section \<open>Properties\<close>

text \<open>C17. A time-window trend is safe: it is computed between the two ends of a run of
  samples that ends with the newest one, covers the requested window, is eligible throughout
  (Green, on track, same lap, no feed gap) and concerns one target; the run starts with the
  newest sample that is old enough.\<close>
theorem gap_trend_is_gated:
  assumes "calculate_gap_trend samples relation window_s = Some t"
  shows "\<exists>earlier seg. ordered_gap_samples samples = earlier @ seg \<and> 2 \<le> length seg \<and>
    (\<forall>s \<in> set seg. is_eligible_gap_sample s \<and>
        gs_target_participant_id s = gs_target_participant_id (last seg)) \<and>
    gs_observed_at_us (hd seg) = Some (gt_started_at_us t) \<and> gs_gap_ms (hd seg) = Some (gt_started_gap_ms t) \<and>
    gs_observed_at_us (last seg) = Some (gt_ended_at_us t) \<and> gs_gap_ms (last seg) = Some (gt_ended_gap_ms t) \<and>
    window_s * 1000000 \<le> gt_ended_at_us t - gt_started_at_us t \<and>
    (\<forall>s \<in> set (butlast (tl seg)). gt_ended_at_us t - window_s * 1000000 < the (gs_observed_at_us s))"
proof -
  obtain seg where seg: "clear_span (ordered_gap_samples samples) seg"
    "gap_trend_between relation window_s (hd seg) (last seg) = Some t"
    "last seg = last (ordered_gap_samples samples)"
    "the (gs_observed_at_us (hd seg)) \<le> the (gs_observed_at_us (last seg)) - window_s * 1000000"
    "\<forall>s \<in> set (butlast (tl seg)). the (gs_observed_at_us (last seg)) - window_s * 1000000 < the (gs_observed_at_us s)"
    using gap_trend_span [OF assms] by blast
  note ends = eligible_observed [OF clear_span_ends(2) [OF seg(1)]] eligible_observed [OF clear_span_ends(3) [OF seg(1)]]
  note t = gap_trend_between_Some [OF seg(2)]
  from seg(1) obtain earlier where e: "ordered_gap_samples samples = earlier @ seg" "2 \<le> length seg"
    "\<forall>s \<in> set seg. is_eligible_gap_sample s \<and> gs_target_participant_id s = gs_target_participant_id (last seg)"
    unfolding clear_span_def seg(3) by blast
  show ?thesis
    using e seg(4,5) ends t(1-4) by (intro exI [of _ earlier] exI [of _ seg]) auto
qed

text \<open>The sign convention is consistent: for a target ahead or behind, a positive closure
  rate is exactly a favourable direction (closing or pulling away), a zero rate exactly a stable
  gap, and the rate per lap, where there is one, has the sign of the rate per minute.\<close>
theorem gap_trend_sign_convention:
  assumes "calculate_gap_trend samples relation window_s = Some t"
  shows "(gt_direction t \<in> {CLOSING, PULLING_AWAY} \<longleftrightarrow> 0 < gt_closure_ms_per_min t) \<and>
    (gt_direction t = STABLE \<longleftrightarrow> gt_closure_ms_per_min t = 0) \<and>
    (\<forall>c. gt_closure_ms_per_lap t = Some c \<longrightarrow> sgn c = sgn (gt_closure_ms_per_min t))"
proof -
  obtain f l where b: "gap_trend_between relation window_s f l = Some t"
    by (rule calculate_gap_trend_between [OF assms])
  note t = gap_trend_between_Some [OF b]
  let ?c = "gap_closure relation (gt_started_gap_ms t) (gt_ended_gap_ms t)"
  have e: "0 < (of_int (gt_ended_at_us t - gt_started_at_us t) :: rat)" using t(5) by simp
  have min: "0 < gt_closure_ms_per_min t \<longleftrightarrow> 0 < ?c" "gt_closure_ms_per_min t = 0 \<longleftrightarrow> ?c = 0"
    unfolding t(9) using e by (simp_all add: zero_less_divide_iff zero_less_mult_iff)
  moreover have "sgn c = sgn (gt_closure_ms_per_min t)" if c: "gt_closure_ms_per_lap t = Some c" for c
  proof -
    have "0 < c \<longleftrightarrow> 0 < ?c" "c = 0 \<longleftrightarrow> ?c = 0"
      using t(10) [OF c] by (auto simp: zero_less_divide_iff)
    then show ?thesis using min by (simp add: sgn_if)
  qed
  ultimately show ?thesis unfolding t(8) using gap_direction_sign by simp
qed

text \<open>Trends do not depend on the order in which samples arrive: two deliveries of the same
  samples with distinct observation times give the same time and lap trends.\<close>
theorem gap_trends_ignore_delivery_order:
  assumes "mset samples = mset samples'" "distinct (map gap_time_key samples)"
  shows "calculate_gap_trends samples relation ws = calculate_gap_trends samples' relation ws \<and>
         calculate_gap_lap_trends samples relation ls = calculate_gap_lap_trends samples' relation ls"
  unfolding calculate_gap_trends_def calculate_gap_lap_trends_def
    calculate_gap_trend_def calculate_gap_lap_trend_def
  by (simp only: ordered_by_distinct_times [OF assms] simp_thms)

text \<open>A lap-window trend spans exactly the requested number of our laps, over eligible samples
  against one target, and its rate times the window is the change of the gap.\<close>
theorem gap_lap_trend_exact:
  assumes "calculate_gap_lap_trend samples relation window_laps = Some t"
  shows "\<exists>seg l. (\<exists>earlier. ordered_gap_samples samples = earlier @ seg) \<and>
    (\<forall>s \<in> set seg. is_eligible_gap_sample s \<and> gs_target_participant_id s = gs_target_participant_id (last seg)) \<and>
    gs_our_lap_number (hd seg) = Some (l - window_laps) \<and> gs_our_lap_number (last seg) = Some l \<and>
    gs_observed_at_us (hd seg) = Some (lt_started_at_us t) \<and> gs_observed_at_us (last seg) = Some (lt_ended_at_us t) \<and>
    lt_started_at_us t < lt_ended_at_us t \<and>
    lt_closure_ms_per_lap t * of_int window_laps =
      of_int (if relation = GAP_RELATION_AHEAD then - lt_gap_change_ms t else lt_gap_change_ms t)"
proof -
  obtain seg l where seg: "clear_span (ordered_gap_samples samples) seg"
    "gap_lap_trend_between relation window_laps (hd seg) (last seg) = Some t" "1 \<le> window_laps"
    "last seg = last (ordered_gap_samples samples)"
    "gs_our_lap_number (last seg) = Some l" "gs_our_lap_number (hd seg) = Some (l - window_laps)"
    using gap_lap_trend_span [OF assms] by blast
  note ends = eligible_observed [OF clear_span_ends(2) [OF seg(1)]] eligible_observed [OF clear_span_ends(3) [OF seg(1)]]
  from seg(1) have e: "\<exists>earlier. ordered_gap_samples samples = earlier @ seg"
    "\<forall>s \<in> set seg. is_eligible_gap_sample s \<and> gs_target_participant_id s = gs_target_participant_id (last seg)"
    unfolding clear_span_def seg(4) by auto
  show ?thesis
    using e ends seg(2,3,5,6) by (intro exI [of _ seg] exI [of _ l])
      (auto simp: gap_lap_trend_between_def Let_def gap_closure_def split: if_splits)
qed

section \<open>The forecast\<close>

lemma catch_rate_pos: "catch_rate relation t = Some (w, r) \<Longrightarrow> 0 < r \<and> w = gt_window_s t"
  by (auto simp: catch_rate_def Let_def split: if_splits)

text \<open>A contact forecast needs at least two trends that agree on the expected direction; its
  range contains the forecast of every one of them, is ordered and non-negative, in laps and in
  time.\<close>
theorem catch_range_brackets:
  assumes "calculate_catch_range current trends relation pace = Some c"
  shows "0 \<le> cr_minimum_laps c \<and> cr_minimum_laps c \<le> cr_maximum_laps c \<and>
    cr_minimum_time_ms c \<le> cr_maximum_time_ms c \<and> 2 \<le> length (cr_source_windows_s c) \<and>
    (\<forall>t w r. Some t \<in> set trends \<and> catch_rate relation t = Some (w, r) \<longrightarrow>
       w \<in> set (cr_source_windows_s c) \<and>
       cr_minimum_laps c \<le> of_int (cr_gap_ms c) / r \<and> of_int (cr_gap_ms c) / r \<le> cr_maximum_laps c)"
proof -
  define rates where "rates = List.map_filter (\<lambda>trend. Option.bind trend (catch_rate relation)) trends"
  from assms obtain p g where pg: "positive_number pace = Some p" "gs_gap_ms current = Some g"
    and el: "is_eligible_gap_sample current" and len: "2 \<le> length rates"
    and c: "c = \<lparr> cr_relation = relation, cr_gap_ms = g,
      cr_minimum_laps = of_int g / Max (set (map snd rates)),
      cr_maximum_laps = of_int g / Min (set (map snd rates)),
      cr_minimum_time_ms = of_int g / Max (set (map snd rates)) * p,
      cr_maximum_time_ms = of_int g / Min (set (map snd rates)) * p,
      cr_source_windows_s = sort (map fst rates) \<rparr>"
    unfolding calculate_catch_range_def Let_def rates_def [symmetric]
    by (auto split: if_splits option.splits simp del: positive_number_Some)
  have g: "0 \<le> (of_int g :: rat)" using eligible_observed [OF el] pg(2) by auto
  have p: "0 < p" using pg(1) by auto
  have mem: "(w, r) \<in> set rates" if "Some t \<in> set trends" "catch_rate relation t = Some (w, r)" for t w r
    unfolding rates_def set_map_filter using that by force
  have pos: "0 < r" if "r \<in> snd ` set rates" for r
    using that catch_rate_pos unfolding rates_def set_map_filter by (auto simp: bind_eq_Some_conv)
  let ?R = "snd ` set rates"
  have R: "finite ?R" "?R \<noteq> {}" using len by auto
  have mx: "0 < Max ?R" and mn: "0 < Min ?R" using pos R by auto
  have bracket: "of_int g / Max ?R \<le> of_int g / r \<and> of_int g / r \<le> of_int g / Min ?R" if "r \<in> ?R" for r
  proof -
    have "r \<le> Max ?R" "Min ?R \<le> r" "0 < r" using that R(1) pos by simp_all
    then show ?thesis using g mx mn by (intro conjI divide_left_mono) simp_all
  qed
  have ord: "of_int g / Max ?R \<le> of_int g / Min ?R" using bracket Min_in [OF R] by blast
  have "w \<in> set (map fst rates) \<and> of_int g / Max ?R \<le> of_int g / r \<and> of_int g / r \<le> of_int g / Min ?R"
    if "Some t \<in> set trends \<and> catch_rate relation t = Some (w, r)" for t w r
    using mem [of t w r] that bracket [of r] by force
  moreover have "of_int g / Max ?R * p \<le> of_int g / Min ?R * p"
    using ord p by (simp only: mult_le_cancel_right) simp
  ultimately show ?thesis using ord g mx len by (simp add: c)
qed

section \<open>Witnesses\<close>

definition green_gap :: "int \<Rightarrow> int \<Rightarrow> int \<Rightarrow> gap_sample" where
  "green_gap observed gap lap =
    \<lparr> gs_target_participant_id = Some ''p7'', gs_observed_at_us = Some observed, gs_gap_ms = Some gap,
      gs_our_lap_number = Some lap, gs_target_lap_number = Some lap, gs_flag_kind = Some GREEN_FLAG,
      gs_our_state_kind = Some ON_TRACK_STATE, gs_target_state_kind = Some ON_TRACK_STATE,
      gs_has_feed_gap = Some False, gs_source_time_interval = None \<rparr>"

definition closing_gaps :: "gap_sample list" where
  "closing_gaps = [green_gap 0 9000 1, green_gap 100000000 8000 2, green_gap 170000000 7000 3,
                   green_gap 200000000 6000 4]"

lemma closing_trend:
  obtains t where "calculate_gap_trend closing_gaps GAP_RELATION_AHEAD 60 = Some t"
    "gt_closure_ms_per_min t = 1200" "gt_started_at_us t = 100000000"
proof -
  have "case calculate_gap_trend closing_gaps GAP_RELATION_AHEAD 60 of None \<Rightarrow> False
        | Some t \<Rightarrow> gt_closure_ms_per_min t = 1200 \<and> gt_started_at_us t = 100000000"
    by code_simp
  then show ?thesis using that by (auto split: option.splits)
qed

theorem gap_trend_is_gated_witness:
  "\<exists>t seg. calculate_gap_trend closing_gaps GAP_RELATION_AHEAD 60 = Some t \<and>
     2 \<le> length seg \<and> list_all is_eligible_gap_sample seg \<and> 60000000 \<le> gt_ended_at_us t - gt_started_at_us t"
proof -
  obtain t where t: "calculate_gap_trend closing_gaps GAP_RELATION_AHEAD 60 = Some t" by (rule closing_trend)
  show ?thesis using t gap_trend_is_gated [OF t] by (auto simp: list_all_iff)
qed

theorem gap_trend_sign_convention_witness:
  "\<exists>t. calculate_gap_trend closing_gaps GAP_RELATION_AHEAD 60 = Some t \<and> gt_direction t \<in> {CLOSING, PULLING_AWAY}"
proof -
  obtain t where t: "calculate_gap_trend closing_gaps GAP_RELATION_AHEAD 60 = Some t"
    "gt_closure_ms_per_min t = 1200" by (rule closing_trend)
  show ?thesis using t gap_trend_sign_convention [OF t(1)] by auto
qed

theorem gap_trends_ignore_delivery_order_witness:
  "calculate_gap_trends closing_gaps GAP_RELATION_AHEAD GAP_WINDOWS_S =
   calculate_gap_trends (rev closing_gaps) GAP_RELATION_AHEAD GAP_WINDOWS_S"
proof -
  have h: "mset closing_gaps = mset (rev closing_gaps)" "distinct (map gap_time_key closing_gaps)"
    by (simp, code_simp)
  show ?thesis using gap_trends_ignore_delivery_order [OF h] by blast
qed

theorem gap_lap_trend_exact_witness:
  "\<exists>t (seg :: gap_sample list) l. calculate_gap_lap_trend closing_gaps GAP_RELATION_AHEAD 3 = Some t \<and>
     gs_our_lap_number (hd seg) = Some (l - 3) \<and> gs_our_lap_number (last seg) = Some l \<and>
     lt_closure_ms_per_lap t * 3 = of_int (- lt_gap_change_ms t)"
proof -
  have "calculate_gap_lap_trend closing_gaps GAP_RELATION_AHEAD 3 \<noteq> None" by code_simp
  then obtain t where t: "calculate_gap_lap_trend closing_gaps GAP_RELATION_AHEAD 3 = Some t" by auto
  show ?thesis using t gap_lap_trend_exact [OF t] by (simp del: of_int_minus) blast
qed

theorem catch_range_brackets_witness:
  "\<exists>c. calculate_catch_range (last closing_gaps)
         (map snd (calculate_gap_trends closing_gaps GAP_RELATION_AHEAD GAP_WINDOWS_S))
         GAP_RELATION_AHEAD (Some (PyInt 100000)) = Some c \<and>
       cr_minimum_laps c \<le> cr_maximum_laps c \<and> 2 \<le> length (cr_source_windows_s c)"
proof -
  have "calculate_catch_range (last closing_gaps)
         (map snd (calculate_gap_trends closing_gaps GAP_RELATION_AHEAD GAP_WINDOWS_S))
         GAP_RELATION_AHEAD (Some (PyInt 100000)) \<noteq> None" by code_simp
  then obtain c where c: "calculate_catch_range (last closing_gaps)
         (map snd (calculate_gap_trends closing_gaps GAP_RELATION_AHEAD GAP_WINDOWS_S))
         GAP_RELATION_AHEAD (Some (PyInt 100000)) = Some c" by auto
  show ?thesis using c catch_range_brackets [OF c] by auto
qed

end
