(* ===== verification/Tire_Pits.thy ===== *)
theory Tire_Pits
  imports Pace
begin

text \<open>
  Pit stops, tyre stints and race obligations of \<open>server/timing/metrics.py\<close>:
  deduplication of pit updates, reconstruction of the tyre ledger from completed stops and
  laps, and the mandatory-stop cadence of a race plan.
\<close>

section \<open>Pit stops\<close>

record pit_stop =
  stop_number :: "int option"
  stop_entered_at_us :: "int option"
  stop_exited_at_us :: "int option"
  stop_entered_lap :: "int option"
  stop_exited_lap :: "int option"
  stop_pit_lane_ms :: "int option"
  stop_completed :: "bool option"
  stop_duration_source_kind :: "string option"

definition is_completed_pit_stop :: "pit_stop \<Rightarrow> bool" where
  [guard_defs]: "is_completed_pit_stop stop =
    (stop_completed stop = Some True
     \<and> is_int (stop_entered_at_us stop) 0
     \<and> is_int (stop_exited_at_us stop) 0
     \<and> the (stop_entered_at_us stop) \<le> the (stop_exited_at_us stop))"

text \<open>The dictionary key: \<open>("stop_number", n)\<close> or \<open>("timestamps", entered, exited)\<close>.\<close>

datatype stop_key = StopNumber int | Timestamps int int

definition stop_key_of :: "pit_stop \<Rightarrow> stop_key" where
  "stop_key_of stop =
    (if is_int (stop_number stop) 1 then StopNumber (the (stop_number stop))
     else Timestamps (the (stop_entered_at_us stop)) (the (stop_exited_at_us stop)))"

abbreviation exited_of :: "pit_stop \<Rightarrow> int" where
  "exited_of stop \<equiv> the (stop_exited_at_us stop)"

text \<open>One iteration of the loop over the source updates; \<open>selected\<close> is the dictionary.\<close>

fun select_stop ::
    "nat \<times> pit_stop \<Rightarrow> (stop_key \<times> nat \<times> pit_stop) list \<Rightarrow> (stop_key \<times> nat \<times> pit_stop) list" where
  "select_stop (index, stop) selected =
    (if \<not> is_completed_pit_stop stop then selected
     else let key = stop_key_of stop in
       (case map_of selected key of
          None \<Rightarrow> AList.update key (index, stop) selected
        | Some (i, existing) \<Rightarrow>
            if (exited_of existing, i) \<le> (exited_of stop, index)
            then AList.update key (index, stop) selected
            else selected))"

definition selected_stops :: "pit_stop list \<Rightarrow> (stop_key \<times> nat \<times> pit_stop) list" where
  "selected_stops stops = fold select_stop (enumerate 0 stops) []"

definition stop_sort_key :: "nat \<times> pit_stop \<Rightarrow> int \<times> int \<times> int \<times> nat" where
  "stop_sort_key item =
    (exited_of (snd item), the (stop_entered_at_us (snd item)),
     (case stop_number (snd item) of Some n \<Rightarrow> n | None \<Rightarrow> 0), fst item)"

definition completed_pit_stops :: "pit_stop list \<Rightarrow> pit_stop list" where
  "completed_pit_stops stops = map snd (sort_key stop_sort_key (map snd (selected_stops stops)))"

section \<open>Tyre ledger\<close>

record tire_stint =
  stint_number :: nat
  stint_started_at_us :: "int option"
  stint_ended_at_us :: "int option"
  stint_started_lap :: "int option"
  stint_ended_lap :: "int option"
  stint_completed_laps :: int
  stint_is_partial :: bool
  stint_is_current :: bool

record tire_ledger =
  ledger_stints :: "tire_stint list"
  ledger_completed_pit_count :: nat

definition current_stint :: "tire_ledger \<Rightarrow> tire_stint option" where
  "current_stint ledger = (if ledger_stints ledger = [] then None else Some (last (ledger_stints ledger)))"

definition current_tire_age_laps :: "tire_ledger \<Rightarrow> int option" where
  "current_tire_age_laps ledger = map_option stint_completed_laps (current_stint ledger)"

definition max_lap_number :: "lap_sample list \<Rightarrow> int option" where
  "max_lap_number laps =
    (let numbers = map the (filter (\<lambda>n. is_int n 0) (map lap_number laps))
     in if numbers = [] then None else Some (Max (set numbers)))"

datatype lap_key = LapKey int | TimeKey int nat

definition observed_lap_key :: "int option \<Rightarrow> int option \<Rightarrow> nat \<times> lap_sample \<Rightarrow> lap_key option" where
  "observed_lap_key start_at_us end_at_us item =
    (let completed_at = lap_completed_at_us (snd item) in
     if is_int completed_at 0
     then if (\<exists>s \<in> set_option start_at_us. the completed_at < s) then None
          else if (\<exists>e \<in> set_option end_at_us. e \<le> the completed_at) then None
          else Some (if is_int (lap_number (snd item)) 0 then LapKey (the (lap_number (snd item)))
                     else TimeKey (the completed_at) (fst item))
     else None)"

definition observed_laps_in_interval :: "lap_sample list \<Rightarrow> int option \<Rightarrow> int option \<Rightarrow> nat" where
  "observed_laps_in_interval laps start_at_us end_at_us =
    length (remdups (List.map_filter (observed_lap_key start_at_us end_at_us) (enumerate 0 laps)))"

definition build_stint ::
    "lap_sample list \<Rightarrow> int option \<Rightarrow> pit_stop list \<Rightarrow> nat \<Rightarrow> tire_stint" where
  "build_stint observations activation_at_us completed stint_index =
    (let previous = (if 0 < stint_index then Some (completed ! (stint_index - 1)) else None);
         following = (if stint_index < length completed then Some (completed ! stint_index) else None);
         started_at = (case previous of Some stop \<Rightarrow> stop_exited_at_us stop
                       | None \<Rightarrow> if is_int activation_at_us 0 then activation_at_us else None);
         ended_at = Option.bind following stop_entered_at_us;
         started_lap = Option.bind previous stop_exited_lap;
         ended_lap = Option.bind following stop_entered_lap;
         completed_laps =
           (case started_lap of
              Some lap \<Rightarrow>
                (case (case ended_lap of Some upper \<Rightarrow> Some upper | None \<Rightarrow> max_lap_number observations) of
                   Some upper_lap \<Rightarrow> max 0 (upper_lap - lap)
                 | None \<Rightarrow> 0)
            | None \<Rightarrow> int (observed_laps_in_interval observations started_at ended_at))
     in \<lparr> stint_number = stint_index + 1,
          stint_started_at_us = started_at,
          stint_ended_at_us = ended_at,
          stint_started_lap = started_lap,
          stint_ended_lap = ended_lap,
          stint_completed_laps = completed_laps,
          stint_is_partial = (stint_index = 0),
          stint_is_current = (following = None) \<rparr>)"

definition derive_tire_ledger :: "lap_sample list \<Rightarrow> pit_stop list \<Rightarrow> int option \<Rightarrow> tire_ledger" where
  "derive_tire_ledger laps stops activation_at_us =
    (let completed = completed_pit_stops stops
     in \<lparr> ledger_stints = map (build_stint laps activation_at_us completed) [0 ..< length completed + 1],
          ledger_completed_pit_count = length completed \<rparr>)"

section \<open>Race obligations\<close>

record race_plan =
  plan_duration_s :: "int option"
  plan_required_pits :: "int option"

record pit_obligations =
  ob_completed_pits :: nat
  ob_required_pits :: int
  ob_remaining_pits :: int
  ob_remaining_time_s :: rat
  ob_initial_equal_stint_target_s :: rat
  ob_remaining_equal_stint_target_s :: rat
  ob_stop_load_per_hour :: "rat option"
  ob_next_equal_pit_elapsed_s :: "rat option"
  ob_next_equal_pit_in_s :: "rat option"
  ob_schedule_deviation_s :: "rat option"

text \<open>The values once the plan and the elapsed time are known to be valid.\<close>

definition obligation_values :: "int \<Rightarrow> int \<Rightarrow> nat \<Rightarrow> rat \<Rightarrow> pit_obligations" where
  "obligation_values duration required completed elapsed =
    (let remaining_pits = max 0 (required - int completed);
         remaining_time = max 0 (of_int duration - elapsed);
         initial_target = of_int duration / of_int (required + 1);
         remaining_target = remaining_time / of_int (remaining_pits + 1);
         next_elapsed = of_nat (completed + 1) * initial_target;
         remaining_hours = remaining_time / 3600
     in \<lparr> ob_completed_pits = completed,
          ob_required_pits = required,
          ob_remaining_pits = remaining_pits,
          ob_remaining_time_s = remaining_time,
          ob_initial_equal_stint_target_s = initial_target,
          ob_remaining_equal_stint_target_s = remaining_target,
          ob_stop_load_per_hour =
            (if remaining_pits = 0 then None
             else if 0 < remaining_hours then Some (of_int remaining_pits / remaining_hours) else None),
          ob_next_equal_pit_elapsed_s = (if remaining_pits = 0 then None else Some next_elapsed),
          ob_next_equal_pit_in_s =
            (if remaining_pits = 0 then None else Some (max 0 (next_elapsed - elapsed))),
          ob_schedule_deviation_s =
            (if remaining_pits = 0 then None else Some (elapsed - next_elapsed)) \<rparr>)"

definition RACE_PLAN_DURATIONS_S :: "int list" where
  "RACE_PLAN_DURATIONS_S = [14400, 21600, 43200, 86400]"

definition RACE_PLAN_REQUIRED_PITS :: "int list" where
  "RACE_PLAN_REQUIRED_PITS = [2..8]"

definition calculate_pit_obligations ::
    "race_plan \<Rightarrow> pit_stop list \<Rightarrow> pynum option \<Rightarrow> pit_obligations option" where
  "calculate_pit_obligations plan stops elapsed_s =
    (case (plan_duration_s plan, plan_required_pits plan) of
       (Some duration, Some required) \<Rightarrow>
         if duration \<notin> set RACE_PLAN_DURATIONS_S \<or> required \<notin> set RACE_PLAN_REQUIRED_PITS then None
         else map_option (obligation_values duration required (length (completed_pit_stops stops)))
                (non_negative_number elapsed_s)
     | _ \<Rightarrow> None)"

section \<open>Deduplication facts\<close>

interpretation pits: keyed_latest select_stop stop_key_of is_completed_pit_stop exited_of
  by unfold_locales (auto simp: Let_def)

lemma selected_stops_run: "selected_stops stops = pits.run stops"
  by (simp add: selected_stops_def pits.run_def)

lemma set_completed:
  "set (completed_pit_stops stops) = {s. \<exists>k i. (k, i, s) \<in> set (pits.run stops)}"
  by (force simp: completed_pit_stops_def selected_stops_run)

text \<open>The key the result is ordered by, without the tie-breaking position.\<close>

definition stop_order :: "pit_stop \<Rightarrow> int \<times> int \<times> int" where
  "stop_order s = (exited_of s, the (stop_entered_at_us s), (case stop_number s of Some n \<Rightarrow> n | None \<Rightarrow> 0))"

lemma stop_order_key:
  assumes "is_completed_pit_stop s" "is_completed_pit_stop s'" "stop_order s = stop_order s'"
  shows "stop_key_of s = stop_key_of s'"
  using assms by (auto simp: stop_order_def stop_key_of_def is_completed_pit_stop_def elim!: is_intE
      split: option.splits)

lemma run_entry: "(k, i, s) \<in> set (pits.run stops) \<Longrightarrow> is_completed_pit_stop s \<and> stop_key_of s = k"
  by (auto simp: pits.mem_run pits.latest_def)

lemma mset_completed: "mset (completed_pit_stops stops) = mset (map (snd \<circ> snd) (pits.run stops))"
  by (simp add: completed_pit_stops_def selected_stops_run multiset.map_comp)

lemma map_key_run: "map (stop_key_of \<circ> (snd \<circ> snd)) (pits.run stops) = map fst (pits.run stops)"
  by (auto dest: run_entry)

lemma distinct_keys: "distinct (map stop_key_of (completed_pit_stops stops))"
proof -
  have "mset (map stop_key_of (completed_pit_stops stops)) = mset (map fst (pits.run stops))"
    by (simp add: mset_completed multiset.map_comp flip: map_key_run)
  then show ?thesis using pits.distinct_run by (metis mset_eq_imp_distinct_iff)
qed

lemma sorted_map_mono:
  assumes "sorted (map f xs)" "\<And>x y. f x \<le> f y \<Longrightarrow> g x \<le> g y"
  shows "sorted (map g xs)"
  using assms by (simp add: sorted_wrt_map) (erule sorted_wrt_mono_rel [rotated], blast)

lemma sorted_completed: "sorted (map stop_order (completed_pit_stops stops))"
proof -
  have "sorted (map stop_sort_key (sort_key stop_sort_key (map snd (selected_stops stops))))" by simp
  then have "sorted (map (stop_order \<circ> snd) (sort_key stop_sort_key (map snd (selected_stops stops))))"
    by (rule sorted_map_mono) (auto simp: stop_sort_key_def stop_order_def less_eq_prod_def)
  then show ?thesis by (simp add: completed_pit_stops_def)
qed

lemma completed_inj: "inj_on stop_order (set (completed_pit_stops stops))"
proof (rule inj_onI)
  fix s s' assume s: "s \<in> set (completed_pit_stops stops)" "s' \<in> set (completed_pit_stops stops)"
    and eq: "stop_order s = stop_order s'"
  have "is_completed_pit_stop s" "is_completed_pit_stop s'"
    using s unfolding set_completed by (blast dest: run_entry)+
  then have "stop_key_of s = stop_key_of s'" using eq by (rule stop_order_key)
  moreover have "inj_on stop_key_of (set (completed_pit_stops stops))"
    using distinct_keys distinct_map by blast
  ultimately show "s = s'" using s by (meson inj_onD)
qed

lemma completed_eqI:
  assumes "set (completed_pit_stops xs) = set (completed_pit_stops ys)"
  shows "completed_pit_stops xs = completed_pit_stops ys"
proof -
  have "distinct (completed_pit_stops zs)" for zs using distinct_keys distinct_map by blast
  then have m: "mset (completed_pit_stops ys) = mset (completed_pit_stops xs)"
    using assms set_eq_iff_mset_eq_distinct by metis
  have "sort_key stop_order (completed_pit_stops xs) = completed_pit_stops xs"
    using sorted_completed by (rule sort_key_id_if_sorted)
  moreover have "sort_key stop_order (completed_pit_stops xs) = completed_pit_stops ys"
    by (rule sort_key_inj_key_eq [OF m [symmetric] completed_inj sorted_completed])
  ultimately show ?thesis by simp
qed

lemma completed_pit_stops_set: "s \<in> set (completed_pit_stops stops) \<Longrightarrow> is_completed_pit_stop s"
  unfolding set_completed by (blast dest: run_entry)

section \<open>Properties of the pit history\<close>

text \<open>The pit history holds exactly one stop for every key that a completed update
  mentions: the update with the latest exit, the later update on equal exits; the stops are
  ordered by exit, entry and number.\<close>
theorem completed_pit_stops_spec:
  "distinct (map stop_key_of (completed_pit_stops stops)) \<and>
   sorted (map stop_order (completed_pit_stops stops)) \<and>
   stop_key_of ` set (completed_pit_stops stops) = stop_key_of ` {s \<in> set stops. is_completed_pit_stop s} \<and>
   (\<forall>s \<in> set (completed_pit_stops stops). is_completed_pit_stop s \<and>
      (\<exists>i < length stops. stops ! i = s \<and>
        (\<forall>j < length stops. is_completed_pit_stop (stops ! j) \<and> stop_key_of (stops ! j) = stop_key_of s \<longrightarrow>
           (exited_of (stops ! j), j) \<le> (exited_of s, i))))"
proof (intro conjI)
  show "stop_key_of ` set (completed_pit_stops stops) = stop_key_of ` {s \<in> set stops. is_completed_pit_stop s}"
    (is "?L = ?R")
  proof
    show "?L \<subseteq> ?R" by (auto simp: set_completed pits.mem_run pits.latest_def)
    show "?R \<subseteq> ?L"
    proof
      fix k assume "k \<in> ?R"
      then obtain s where s: "s \<in> set stops" "is_completed_pit_stop s" "stop_key_of s = k" by auto
      then have "map_of (pits.run stops) k \<noteq> None" using pits.run_sound_complete [of stops k] by blast
      then obtain i s' where "(k, i, s') \<in> set (pits.run stops)"
        by (metis not_None_eq map_of_SomeD surj_pair)
      then have "s' \<in> set (completed_pit_stops stops)" "stop_key_of s' = k"
        by (auto simp: set_completed dest: run_entry)
      then show "k \<in> ?L" by blast
    qed
  qed
  show "\<forall>s \<in> set (completed_pit_stops stops). is_completed_pit_stop s \<and>
      (\<exists>i < length stops. stops ! i = s \<and>
        (\<forall>j < length stops. is_completed_pit_stop (stops ! j) \<and> stop_key_of (stops ! j) = stop_key_of s \<longrightarrow>
           (exited_of (stops ! j), j) \<le> (exited_of s, i)))"
    unfolding set_completed pits.mem_run pits.latest_def by blast
qed (rule distinct_keys sorted_completed)+

text \<open>Redelivering the whole update history changes nothing.\<close>
theorem completed_pit_stops_replay:
  "completed_pit_stops (stops @ stops) = completed_pit_stops stops"
  by (rule completed_eqI) (use pits.winners_twice [of _ _ stops] in \<open>auto simp: set_completed\<close>)


section \<open>The ledger\<close>

lemma completed_stop_times:
  assumes "i < length (completed_pit_stops stops)"
  shows "\<exists>e x. stop_entered_at_us (completed_pit_stops stops ! i) = Some e \<and>
    stop_exited_at_us (completed_pit_stops stops ! i) = Some x \<and> 0 \<le> e \<and> e \<le> x"
proof -
  have "is_completed_pit_stop (completed_pit_stops stops ! i)"
    using nth_mem [OF assms] completed_pit_stops_set by blast
  then show ?thesis by (auto simp: is_completed_pit_stop_def elim!: is_intE)
qed

text \<open>Stops whose lap numbers are known and follow each other up to the latest lap of the record.\<close>

definition laps_follow :: "lap_sample list \<Rightarrow> pit_stop list \<Rightarrow> bool" where
  "laps_follow laps cs \<longleftrightarrow> list_all (\<lambda>s. stop_entered_lap s \<noteq> None \<and> stop_exited_lap s \<noteq> None) cs \<and> max_lap_number laps \<noteq> None \<and>
     successively (\<lambda>s r. the (stop_exited_lap s) \<le> the (stop_entered_lap r)) cs \<and>
     (cs \<noteq> [] \<longrightarrow> the (stop_exited_lap (last cs)) \<le> the (max_lap_number laps))"

text \<open>Driven between the stops and in the pit lane adds up to driven between the first and the last exit.\<close>

lemma telescope:
  fixes e x :: "nat \<Rightarrow> int"
  shows "(\<Sum>i = 1..k. e i - x (i - 1)) + (\<Sum>i = 1..k. x i - e i) = x k - x 0"
  by (induction k) simp_all

lemma stint_laps:
  assumes f: "laps_follow laps cs" and i: "i < length cs"
  shows "stint_completed_laps (build_stint laps activation cs (Suc i)) =
    (if Suc i < length cs then the (stop_entered_lap (cs ! Suc i)) else the (max_lap_number laps)) - the (stop_exited_lap (cs ! i))"
proof -
  have n: "stop_entered_lap (cs ! j) \<noteq> None" "stop_exited_lap (cs ! j) \<noteq> None" if "j < length cs" for j
    using f that by (auto simp: laps_follow_def list_all_length)
  have "the (stop_exited_lap (cs ! i)) \<le> the (stop_entered_lap (cs ! Suc i))" if "Suc i < length cs"
    using f that by (simp add: laps_follow_def successively_conv_nth)
  moreover have "the (stop_exited_lap (cs ! i)) \<le> the (max_lap_number laps)" if "\<not> Suc i < length cs"
  proof -
    have "i = length cs - 1" "cs \<noteq> []" using that i by auto
    then show ?thesis using f by (simp add: laps_follow_def last_conv_nth)
  qed
  moreover have "max_lap_number laps \<noteq> None" using f by (simp add: laps_follow_def)
  ultimately show ?thesis using n[OF i] n(1)[of "Suc i"] by (auto simp: build_stint_def Let_def)
qed

lemma stint_laps_total:
  assumes f: "laps_follow laps cs" and ne: "cs \<noteq> []"
  shows "(\<Sum>i < length cs. stint_completed_laps (build_stint laps activation cs (Suc i))) +
      (\<Sum>i = 1..length cs - 1. the (stop_exited_lap (cs ! i)) - the (stop_entered_lap (cs ! i))) =
    the (max_lap_number laps) - the (stop_exited_lap (hd cs))"
proof -
  let ?e = "\<lambda>i. the (stop_entered_lap (cs ! i))" and ?x = "\<lambda>i. the (stop_exited_lap (cs ! i))"
  obtain k where k: "length cs = Suc k" using ne by (cases cs) auto
  have "(\<Sum>i < length cs. stint_completed_laps (build_stint laps activation cs (Suc i))) =
      (\<Sum>i < k. ?e (Suc i) - ?x i) + (the (max_lap_number laps) - ?x k)"
    using stint_laps[OF f] by (simp add: k)
  also have "(\<Sum>i < k. ?e (Suc i) - ?x i) = (\<Sum>i = 1..k. ?e i - ?x (i - 1))"
    by (rule sum.reindex_bij_witness[where i = "\<lambda>i. i - 1" and j = Suc]) auto
  finally show ?thesis using telescope[of ?e ?x k] ne by (simp add: k hd_conv_nth)
qed

text \<open>C21. The tyre ledger is one stint more than there are completed stops, numbered from one, the
  first partial, the last current; a stint starts exactly when a stop is left (the first one at the
  activation) and ends exactly when the next stop is entered, so stints and stops alternate without
  overlap. When the lap numbers of the stops are known and follow each other, no lap is lost or
  counted twice: the ages of the stints after the first stop and the laps spent in the pit lane add up to
  the laps driven since that stop.\<close>
theorem tire_ledger_structure:
  "let st = ledger_stints (derive_tire_ledger laps stops activation); cs = completed_pit_stops stops; n = length cs
   in map stint_number st = [1 ..< n + 2] \<and>
    map stint_started_at_us st = (if is_int activation 0 then activation else None) # map stop_exited_at_us cs \<and>
    map stint_ended_at_us st = map stop_entered_at_us cs @ [None] \<and>
    (\<forall>i < n. \<exists>e x. stint_ended_at_us (st ! i) = Some e \<and> stint_started_at_us (st ! Suc i) = Some x \<and> e \<le> x) \<and>
    (\<forall>i \<le> n. 0 \<le> stint_completed_laps (st ! i) \<and> (stint_is_partial (st ! i) \<longleftrightarrow> i = 0) \<and> (stint_is_current (st ! i) \<longleftrightarrow> i = n)) \<and>
    (laps_follow laps cs \<and> cs \<noteq> [] \<longrightarrow>
      (\<Sum>s \<leftarrow> tl st. stint_completed_laps s) + (\<Sum>s \<leftarrow> tl cs. the (stop_exited_lap s) - the (stop_entered_lap s)) =
      the (max_lap_number laps) - the (stop_exited_lap (hd cs)))"
proof -
  define st where "st = ledger_stints (derive_tire_ledger laps stops activation)"
  define cs where "cs = completed_pit_stops stops"
  define n where "n = length cs"
  have st: "st = map (build_stint laps activation cs) [0 ..< n + 1]"
    unfolding st_def n_def cs_def derive_tire_ledger_def Let_def by simp
  have nth: "st ! i = build_stint laps activation cs i" if "i \<le> n" for i
    using that nth_map_upt [of i "n + 1" 0] by (simp add: st)
  have len: "length st = n + 1" by (simp add: st)
  have number: "map stint_number st = [1 ..< n + 2]"
    by (rule nth_equalityI) (auto simp: len nth build_stint_def Let_def simp del: upt_Suc)
  have started: "map stint_started_at_us st = (if is_int activation 0 then activation else None) # map stop_exited_at_us cs"
  proof (rule nth_equalityI)
    fix i assume "i < length (map stint_started_at_us st)"
    then show "map stint_started_at_us st ! i = ((if is_int activation 0 then activation else None) # map stop_exited_at_us cs) ! i"
      by (cases i) (auto simp: len nth n_def build_stint_def Let_def)
  qed (simp add: len n_def)
  have ended: "map stint_ended_at_us st = map stop_entered_at_us cs @ [None]"
    by (rule nth_equalityI) (auto simp: len nth n_def nth_append build_stint_def Let_def)
  have "\<exists>e x. stint_ended_at_us (st ! i) = Some e \<and> stint_started_at_us (st ! Suc i) = Some x \<and> e \<le> x" if i: "i < n" for i
  proof -
    obtain e x where "stop_entered_at_us (cs ! i) = Some e" "stop_exited_at_us (cs ! i) = Some x" "e \<le> x"
      using completed_stop_times [of i stops] i unfolding n_def cs_def by auto
    then show ?thesis using i by (simp add: nth build_stint_def Let_def n_def)
  qed
  moreover have "0 \<le> stint_completed_laps (st ! i) \<and> (stint_is_partial (st ! i) \<longleftrightarrow> i = 0) \<and> (stint_is_current (st ! i) \<longleftrightarrow> i = n)"
    if "i \<le> n" for i using that by (simp add: nth build_stint_def Let_def n_def split: option.split)
  moreover have "(\<Sum>s \<leftarrow> tl st. stint_completed_laps s) + (\<Sum>s \<leftarrow> tl cs. the (stop_exited_lap s) - the (stop_entered_lap s)) =
      the (max_lap_number laps) - the (stop_exited_lap (hd cs))" if f: "laps_follow laps cs" "cs \<noteq> []"
  proof -
    have "tl st = map (\<lambda>i. build_stint laps activation cs (Suc i)) [0 ..< n]"
      by (rule nth_equalityI) (auto simp: len nth_tl nth simp del: upt_Suc)
    then have "(\<Sum>s \<leftarrow> tl st. stint_completed_laps s) = (\<Sum>i < n. stint_completed_laps (build_stint laps activation cs (Suc i)))"
      by (simp add: sum_list_sum_nth atLeast0LessThan)
    moreover have "(\<Sum>s \<leftarrow> tl cs. the (stop_exited_lap s) - the (stop_entered_lap s)) =
        (\<Sum>i = 1..n - 1. the (stop_exited_lap (cs ! i)) - the (stop_entered_lap (cs ! i)))"
    proof -
      have "(\<Sum>s \<leftarrow> tl cs. the (stop_exited_lap s) - the (stop_entered_lap s)) =
          (\<Sum>i < n - 1. the (stop_exited_lap (cs ! Suc i)) - the (stop_entered_lap (cs ! Suc i)))"
        by (simp add: sum_list_sum_nth atLeast0LessThan nth_tl n_def)
      also have "\<dots> = (\<Sum>i = 1..n - 1. the (stop_exited_lap (cs ! i)) - the (stop_entered_lap (cs ! i)))"
        by (rule sum.reindex_bij_witness[where i = "\<lambda>i. i - 1" and j = Suc]) auto
      finally show ?thesis .
    qed
    ultimately show ?thesis using stint_laps_total[OF f, of activation] by (simp add: n_def)
  qed
  ultimately show ?thesis using number started ended
    unfolding Let_def st_def [symmetric] cs_def [symmetric] n_def [symmetric] by blast
qed

text \<open>A pit exit mounts fresh tyres: when every completed lap of the record precedes the exit
  of the last completed stop, the current tyre age is zero.\<close>
theorem tire_age_after_pit_exit:
  assumes "completed_pit_stops stops \<noteq> []"
    and "\<forall>lap \<in> set laps. is_int (lap_completed_at_us lap) 0 \<longrightarrow>
      the (lap_completed_at_us lap) < exited_of (last (completed_pit_stops stops))"
    and "\<forall>l m. stop_exited_lap (last (completed_pit_stops stops)) = Some l \<and> max_lap_number laps = Some m \<longrightarrow> m \<le> l"
  shows "current_tire_age_laps (derive_tire_ledger laps stops activation) = Some 0"
proof -
  define cs where "cs = completed_pit_stops stops"
  have ne: "cs \<noteq> []" using assms(1) by (simp add: cs_def)
  have lst: "cs ! (length cs - Suc 0) = last cs" using ne by (simp add: last_conv_nth)
  obtain e x where x: "stop_exited_at_us (last cs) = Some x"
    using completed_stop_times [of "length cs - 1" stops] ne lst unfolding cs_def by fastforce
  have "current_tire_age_laps (derive_tire_ledger laps stops activation)
      = Some (stint_completed_laps (build_stint laps activation cs (length cs)))"
    by (simp add: current_tire_age_laps_def current_stint_def derive_tire_ledger_def Let_def cs_def)
  moreover have "observed_lap_key (Some x) None item = None" if "item \<in> set (enumerate 0 laps)" for item
  proof -
    have "snd item \<in> snd ` set (enumerate 0 laps)" using that by (rule imageI)
    then have "snd item \<in> set laps" by (simp flip: set_map)
    then show ?thesis using assms(2) x unfolding cs_def [symmetric]
      by (auto simp: observed_lap_key_def Let_def)
  qed
  then have "List.map_filter (observed_lap_key (Some x) None) (enumerate 0 laps) = []"
    by (simp add: map_filter_def filter_empty_conv)
  ultimately show ?thesis
    using ne lst x assms(3) unfolding cs_def [symmetric]
    by (auto simp: build_stint_def Let_def observed_laps_in_interval_def split: option.split)
qed

section \<open>Obligations\<close>

text \<open>Race obligations balance: completed and remaining stops cover the requirement, the equal
  stints partition the race and the remaining time, the next scheduled stop exists exactly while
  stops remain and lies strictly before the end of the race.\<close>
theorem pit_obligations_balance:
  assumes "calculate_pit_obligations plan stops elapsed = Some ob"
  shows "ob_completed_pits ob = length (completed_pit_stops stops) \<and>
    ob_required_pits ob \<le> int (ob_completed_pits ob) + ob_remaining_pits ob \<and> 0 \<le> ob_remaining_pits ob \<and>
    ob_initial_equal_stint_target_s ob * of_int (ob_required_pits ob + 1) = of_int (the (plan_duration_s plan)) \<and>
    ob_remaining_equal_stint_target_s ob * of_int (ob_remaining_pits ob + 1) = ob_remaining_time_s ob \<and>
    (ob_next_equal_pit_elapsed_s ob = None \<longleftrightarrow> ob_remaining_pits ob = 0) \<and>
    (\<forall>t. ob_next_equal_pit_elapsed_s ob = Some t \<longrightarrow> t < of_int (the (plan_duration_s plan)))"
proof -
  define c where "c = length (completed_pit_stops stops)"
  obtain d r el where mem: "plan_duration_s plan = Some d" "d \<in> set RACE_PLAN_DURATIONS_S"
      "r \<in> set RACE_PLAN_REQUIRED_PITS" and ob_eq: "ob = obligation_values d r c el"
    using assms unfolding calculate_pit_obligations_def c_def
    by (auto split: option.splits if_splits)
  have dr: "plan_duration_s plan = Some d" "2 \<le> r" "0 < d"
    using mem by (auto simp: RACE_PLAN_DURATIONS_S_def RACE_PLAN_REQUIRED_PITS_def)
  have ob: "ob_completed_pits ob = c" "ob_required_pits ob = r" "ob_remaining_pits ob = max 0 (r - int c)"
    "ob_initial_equal_stint_target_s ob = of_int d / of_int (r + 1)"
    "ob_remaining_equal_stint_target_s ob = ob_remaining_time_s ob / of_int (ob_remaining_pits ob + 1)"
    "ob_next_equal_pit_elapsed_s ob = (if max 0 (r - int c) = 0 then None
        else Some (of_nat (c + 1) * (of_int d / of_int (r + 1))))"
    unfolding ob_eq obligation_values_def Let_def by simp_all
  have "of_nat (c + 1) * (of_int d / of_int (r + 1)) < (of_int d :: rat)" if "int c < r"
  proof -
    have "int (c + 1) < r + 1" using that by simp
    then have "(of_int (int (c + 1)) :: rat) < of_int (r + 1)" by (simp only: of_int_less_iff)
    then have "of_nat (c + 1) < (of_int (r + 1) :: rat)" by (simp only: of_int_of_nat_eq)
    moreover have "0 < (of_int d :: rat)" "0 < (of_int (r + 1) :: rat)" using dr(2,3) by simp_all
    ultimately show ?thesis by (simp add: pos_divide_less_eq mult.commute del: of_int_add of_nat_add)
  qed
  then have next_lt: "\<forall>t. ob_next_equal_pit_elapsed_s ob = Some t \<longrightarrow> t < of_int d"
    unfolding ob(6) by (auto split: if_splits)
  have nz: "(of_int (r + 1) :: rat) \<noteq> 0" "(of_int (ob_remaining_pits ob + 1) :: rat) \<noteq> 0"
    using dr(2) ob(3) by (simp_all only: of_int_eq_0_iff)
  have "ob_initial_equal_stint_target_s ob * of_int (ob_required_pits ob + 1) = of_int d"
    unfolding ob(2,4) using nz(1) by (rule nonzero_eq_divide_eq [THEN iffD1, OF _ refl])
  moreover have "ob_remaining_equal_stint_target_s ob * of_int (ob_remaining_pits ob + 1) = ob_remaining_time_s ob"
    using ob(5) nz(2) by (metis nonzero_eq_divide_eq)
  moreover have "ob_required_pits ob \<le> int (ob_completed_pits ob) + ob_remaining_pits ob"
    "0 \<le> ob_remaining_pits ob" "ob_next_equal_pit_elapsed_s ob = None \<longleftrightarrow> ob_remaining_pits ob = 0"
    unfolding ob(1-3,6) by auto
  ultimately show ?thesis using next_lt ob(1) dr(1) unfolding c_def by simp
qed


section \<open>Witnesses\<close>

definition numbered_stop :: "int \<Rightarrow> int \<Rightarrow> int \<Rightarrow> pit_stop" where
  "numbered_stop n entered exited =
    \<lparr> stop_number = Some n, stop_entered_at_us = Some entered, stop_exited_at_us = Some exited,
      stop_entered_lap = None, stop_exited_lap = None, stop_pit_lane_ms = None,
      stop_completed = Some True, stop_duration_source_kind = None \<rparr>"

definition two_stops :: "pit_stop list" where
  "two_stops = [numbered_stop 1 100 160, numbered_stop 2 500 570, numbered_stop 1 100 165]"

lemma two_stops_completed: "completed_pit_stops two_stops = [numbered_stop 1 100 165, numbered_stop 2 500 570]"
  by code_simp

theorem completed_pit_stops_spec_witness:
  "numbered_stop 1 100 165 \<in> set (completed_pit_stops two_stops) \<and>
   (\<exists>i < length two_stops. two_stops ! i = numbered_stop 1 100 165 \<and>
      (is_completed_pit_stop (two_stops ! 0) \<and> stop_key_of (two_stops ! 0) = stop_key_of (numbered_stop 1 100 165) \<longrightarrow>
        (exited_of (two_stops ! 0), 0) \<le> (exited_of (numbered_stop 1 100 165), i)))"
proof -
  have mem: "numbered_stop 1 100 165 \<in> set (completed_pit_stops two_stops)" by (simp add: two_stops_completed)
  have "0 < length two_stops" by (simp add: two_stops_def)
  then show ?thesis using mem completed_pit_stops_spec [of two_stops] by blast
qed

definition lap_stops :: "pit_stop list" where
  "lap_stops = [(numbered_stop 1 100 165)\<lparr> stop_entered_lap := Some 3, stop_exited_lap := Some 3 \<rparr>,
     (numbered_stop 2 500 570)\<lparr> stop_entered_lap := Some 7, stop_exited_lap := Some 8 \<rparr>]"

text \<open>Twelve laps, stops on laps 3 and 7 to 8: four laps on the second set, one in the pit lane, four on the third.\<close>

theorem tire_ledger_structure_witness:
  "map stint_started_at_us (ledger_stints (derive_tire_ledger green_laps lap_stops (Some 0))) = [Some 0, Some 165, Some 570] \<and>
   (\<Sum>s \<leftarrow> tl (ledger_stints (derive_tire_ledger green_laps lap_stops (Some 0))). stint_completed_laps s) + 1 = 12 - 3"
proof -
  have c: "completed_pit_stops lap_stops = lap_stops" by code_simp
  have m: "max_lap_number green_laps = Some 12" by code_simp
  have "laps_follow green_laps lap_stops" by code_simp
  then show ?thesis using tire_ledger_structure [of green_laps lap_stops "Some 0"] unfolding Let_def c m
    by (simp add: lap_stops_def numbered_stop_def)
qed

definition early_laps :: "lap_sample list" where
  "early_laps = [green_lap 1 90000 \<lparr> lap_completed_at_us := Some 90 \<rparr>,
                 green_lap 2 90000 \<lparr> lap_completed_at_us := Some 480 \<rparr>]"

theorem tire_age_after_pit_exit_witness:
  "current_tire_age_laps (derive_tire_ledger early_laps two_stops (Some 0)) = Some 0"
proof (rule tire_age_after_pit_exit)
  show "completed_pit_stops two_stops \<noteq> []" by (simp add: two_stops_completed)
  show "\<forall>lap \<in> set early_laps. is_int (lap_completed_at_us lap) 0 \<longrightarrow>
      the (lap_completed_at_us lap) < exited_of (last (completed_pit_stops two_stops))"
    by (simp add: two_stops_completed early_laps_def green_lap_def numbered_stop_def)
  show "\<forall>l m. stop_exited_lap (last (completed_pit_stops two_stops)) = Some l \<and> max_lap_number early_laps = Some m \<longrightarrow> m \<le> l"
    by (simp add: two_stops_completed numbered_stop_def)
qed

theorem pit_obligations_balance_witness:
  "\<exists>ob. calculate_pit_obligations \<lparr> plan_duration_s = Some 14400, plan_required_pits = Some 5 \<rparr>
           two_stops (Some (PyInt 3600)) = Some ob \<and>
        ob_initial_equal_stint_target_s ob * of_int (ob_required_pits ob + 1) = 14400"
proof -
  have "calculate_pit_obligations \<lparr> plan_duration_s = Some 14400, plan_required_pits = Some 5 \<rparr>
           two_stops (Some (PyInt 3600)) \<noteq> None"
    by code_simp
  then obtain ob where ob: "calculate_pit_obligations \<lparr> plan_duration_s = Some 14400, plan_required_pits = Some 5 \<rparr>
           two_stops (Some (PyInt 3600)) = Some ob" by auto
  show ?thesis using ob pit_obligations_balance [OF ob] by (simp del: of_int_add)
qed

end
