(* ===== verification/Wire_Text.thy ===== *)
theory Wire_Text
  imports Timing_Prelude "HOL-Library.List_Lexorder" "HOL-Library.Char_ord"
begin

text \<open>
  JSON values and the text primitives the service applies to provider data. Python strings
  are modelled by HOL's \<open>string\<close>, whose 256 characters are the code points of Latin-1; the
  functions below agree with \<open>str.strip\<close>, \<open>str.casefold\<close>, \<open>str.isdigit\<close> and \<open>int\<close> on
  exactly those code points.
\<close>

section \<open>JSON values\<close>

datatype json =
    JNull
  | JBool bool
  | JNum pynum
  | JStr string
  | JList "json list"
  | JObj "(string \<times> json) list"

abbreviation JInt :: "int \<Rightarrow> json" where "JInt i \<equiv> JNum (PyInt i)"

text \<open>\<open>d.get(key)\<close>: the value, or \<open>None\<close> for an absent key.\<close>

definition jget :: "string \<Rightarrow> (string \<times> json) list \<Rightarrow> json" where
  "jget key d = (case map_of d key of Some v \<Rightarrow> v | None \<Rightarrow> JNull)"

definition opt_json :: "('a \<Rightarrow> json) \<Rightarrow> 'a option \<Rightarrow> json" where
  "opt_json f v = (case v of None \<Rightarrow> JNull | Some x \<Rightarrow> f x)"

section \<open>Characters\<close>

abbreviation code_point :: "char \<Rightarrow> nat" where "code_point c \<equiv> of_char c"

definition is_py_space :: "char \<Rightarrow> bool" where
  "is_py_space c = (let n = code_point c in
     (9 \<le> n \<and> n \<le> 13) \<or> (28 \<le> n \<and> n \<le> 32) \<or> n = 133 \<or> n = 160)"

definition is_ascii_digit :: "char \<Rightarrow> bool" where
  "is_ascii_digit c = (48 \<le> code_point c \<and> code_point c \<le> 57)"

text \<open>\<open>str.isdigit\<close> also accepts the superscripts two, three and one.\<close>

definition is_py_digit :: "char \<Rightarrow> bool" where
  "is_py_digit c = (is_ascii_digit c \<or> code_point c \<in> {178, 179, 185})"

section \<open>Text\<close>

definition strip :: "string \<Rightarrow> string" where
  "strip s = rev (dropWhile is_py_space (rev (dropWhile is_py_space s)))"

definition digits_value :: "string \<Rightarrow> int" where
  "digits_value s = foldl (\<lambda>n c. 10 * n + int (code_point c - 48)) 0 s"

definition ascii_digits :: "string \<Rightarrow> bool" where
  "ascii_digits s = (s \<noteq> [] \<and> list_all is_ascii_digit s)"

text \<open>
  \<open>re.sub(r"[^a-z0-9]+", "", value.casefold())\<close>: letters in lower case and digits are
  kept; the sharp s folds to two letters; every other Latin-1 character folds outside the
  kept alphabet.
\<close>

definition fold_token_char :: "char \<Rightarrow> string" where
  "fold_token_char c = (let n = code_point c in
     if 65 \<le> n \<and> n \<le> 90 then [char_of (n + 32)]
     else if (97 \<le> n \<and> n \<le> 122) \<or> (48 \<le> n \<and> n \<le> 57) then [c]
     else if n = 223 then ''ss''
     else [])"

definition text_token :: "string \<Rightarrow> string" where
  "text_token value = concat (map fold_token_char value)"

definition token_char :: "char \<Rightarrow> bool" where
  "token_char c = ((97 \<le> code_point c \<and> code_point c \<le> 122) \<or> is_ascii_digit c)"

text \<open>\<open>str(n)\<close> of an integer.\<close>

fun nat_digits :: "nat \<Rightarrow> string" where
  "nat_digits n = (if n < 10 then [char_of (48 + n)] else nat_digits (n div 10) @ [char_of (48 + n mod 10)])"

declare nat_digits.simps [simp del]

definition int_text :: "int \<Rightarrow> string" where
  "int_text i = (if i < 0 then ''-'' @ nat_digits (nat (- i)) else nat_digits (nat i))"

section \<open>Facts about text\<close>

lemma strip_Nil [simp]: "strip [] = []"
  by (simp add: strip_def)

lemma strip_subset: "set (strip s) \<subseteq> set s"
  by (auto simp: strip_def dest!: set_dropWhileD)

lemma strip_id: "list_all (\<lambda>c. \<not> is_py_space c) s \<Longrightarrow> strip s = s"
proof -
  have D: "dropWhile P xs = xs" if "\<forall>x \<in> set xs. \<not> P x" for P :: "char \<Rightarrow> bool" and xs
    using that by (cases xs) auto
  then show "list_all (\<lambda>c. \<not> is_py_space c) s \<Longrightarrow> strip s = s"
    using D [of s is_py_space] D [of "rev s" is_py_space] by (simp add: strip_def list_all_iff)
qed

lemma dropWhile_idem: "dropWhile P (dropWhile P xs) = dropWhile P xs"
  by (induction xs) auto

lemma digit_not_space: "is_ascii_digit c \<Longrightarrow> \<not> is_py_space c"
  by (auto simp: is_ascii_digit_def is_py_space_def Let_def)

lemma strip_digits [simp]: "ascii_digits s \<Longrightarrow> strip s = s"
  by (rule strip_id) (auto simp: ascii_digits_def list_all_iff digit_not_space)

lemma digits_value_snoc [simp]: "digits_value (s @ [c]) = 10 * digits_value s + int (code_point c - 48)"
  by (simp add: digits_value_def)

lemma digits_value_Nil [simp]: "digits_value [] = 0"
  by (simp add: digits_value_def)

lemma digits_value_nonneg: "0 \<le> digits_value s"
  by (induction s rule: rev_induct) auto

lemma of_char_small: "n < 256 \<Longrightarrow> code_point (char_of n :: char) = n"
  by simp

lemma nat_digits_correct: "ascii_digits (nat_digits n) \<and> digits_value (nat_digits n) = int n"
proof (induction n rule: nat_digits.induct)
  case (1 n)
  show ?case
  proof (cases "n < 10")
    case True
    then show ?thesis
      by (subst (1 2) nat_digits.simps)
         (simp add: ascii_digits_def is_ascii_digit_def digits_value_def)
  next
    case False
    have "n mod 10 < 10" by simp
    then have "is_ascii_digit (char_of (48 + n mod 10))" by (simp add: is_ascii_digit_def)
    moreover have "10 * int (n div 10) + int (n mod 10) = int n" by (simp add: zdiv_int zmod_int)
    ultimately show ?thesis using 1 [OF False] False
      by (subst (1 2) nat_digits.simps) (auto simp: ascii_digits_def)
  qed
qed

lemma text_token_chars: "list_all token_char (text_token s)"
  by (induction s) (auto simp: text_token_def fold_token_char_def token_char_def is_ascii_digit_def Let_def)

lemma fold_token_id: "token_char c \<Longrightarrow> fold_token_char c = [c]"
  by (auto simp: token_char_def fold_token_char_def is_ascii_digit_def Let_def)

lemma text_token_idem [simp]: "text_token (text_token s) = text_token s"
proof -
  have "concat (map fold_token_char t) = t" if "list_all token_char t" for t
    using that by (induction t) (auto simp: fold_token_id)
  then show ?thesis using text_token_chars [of s] by (simp add: text_token_def)
qed

end
