(* ===== verification/Lifecycle.thy ===== *)
theory Lifecycle
  imports Wire_Text "HOL-Library.Monad_Syntax"
begin

text \<open>
  \<open>server/timing/lifecycle.py\<close> over the tables of migrations 0001 and 0002: validation,
  the source catalogue, session creation and the start, stop and abort transitions, each in
  one write transaction with idempotency replay and an audit record. A connection is its
  tables; a raised exception is \<open>Inl\<close>, and the transaction wrapper rolls back to the tables
  it began with. The SHA-256 of the canonical request is the parameter \<open>sha\<close>; the clock and
  \<open>uuid4\<close> are inputs of each command.
\<close>

section \<open>Data\<close>

datatype lifecycle = Draft | Active | Stopped | Aborted

datatype operation = OpCreate | OpStart | OpStop | OpAbort

datatype lifecycle_error =
    LifecycleError string
  | ValidationError string
  | UnknownSourceError
  | SessionNotFoundError
  | TransitionError operation lifecycle
  | ActiveSessionConflict "string option"
  | IdempotencyConflict
  | IntegrityError string

record timing_source =
  src_slug :: string
  src_display_name :: string
  src_url :: string
  src_timezone_name :: string
  src_adapter_version :: string

record source_row =
  ts_id :: nat
  ts_slug :: string
  ts_source_url :: string
  ts_adapter_version :: string
  ts_created_at_us :: int
  ts_display_name :: "string option"
  ts_timezone_name :: string

record session_row =
  s_id :: string
  s_source_id :: nat
  s_mode :: string
  s_lifecycle :: lifecycle
  s_race_duration_s :: "int option"
  s_required_pits :: "int option"
  s_our_participant_id :: "string option"
  s_our_class :: "string option"
  s_identity_state :: string
  s_started_at_us :: "int option"
  s_stopped_at_us :: "int option"
  s_stop_intent :: "string option"
  s_timezone_name :: string
  s_created_at_us :: int
  s_updated_at_us :: int

record analysis_session =
  as_id :: string
  as_source_slug :: string
  as_source_url :: string
  as_source_name :: "string option"
  as_timezone_name :: string
  as_mode :: string
  as_lifecycle :: lifecycle
  as_race_duration_s :: "int option"
  as_required_pits :: "int option"
  as_our_participant_id :: "string option"
  as_our_class :: "string option"
  as_identity_state :: string
  as_started_at_us :: "int option"
  as_stopped_at_us :: "int option"
  as_stop_intent :: "string option"
  as_created_at_us :: int
  as_updated_at_us :: int

record mutation_result =
  mr_session :: analysis_session
  mr_replayed :: bool

record idempotency_row =
  ik_operation :: operation
  ik_request_hash :: string
  ik_session_id :: string
  ik_result_json :: json
  ik_created_at_us :: int

record audit_row =
  au_session_id :: string
  au_event_type :: string
  au_actor_kind :: string
  au_parameters :: json
  au_created_at_us :: int

record db =
  db_sources :: "source_row list"
  db_sessions :: "session_row list"
  db_keys :: "(string \<times> idempotency_row) list"
  db_audit :: "audit_row list"
  db_in_transaction :: bool

definition TIMING_SOURCE_CATALOG :: "timing_source list" where
  "TIMING_SOURCE_CATALOG =
    [\<lparr> src_slug = ''igora'', src_display_name = ''Igora Drive'',
       src_url = ''https://livetiming.getraceresults.com/igora'',
       src_timezone_name = ''Europe/Moscow'', src_adapter_version = ''timeservice-signalr-v1'' \<rparr>,
     \<lparr> src_slug = ''moscow'', src_display_name = ''Moscow Raceway'',
       src_url = ''https://livetiming.getraceresults.com/moscowraceway'',
       src_timezone_name = ''Europe/Moscow'', src_adapter_version = ''timeservice-signalr-v1'' \<rparr>]"

definition RACE_DURATIONS_S :: "int list" where "RACE_DURATIONS_S = [14400, 21600, 43200, 86400]"

definition RACE_REQUIRED_PITS :: "int list" where "RACE_REQUIRED_PITS = [2, 3, 4, 5, 6, 7, 8]"

definition MODES :: "string list" where "MODES = [''practice'', ''qualifying'', ''race'']"

definition ACTOR_KINDS :: "string list" where
  "ACTOR_KINDS = [''engineer_token'', ''engineer_session'', ''system'']"

definition DEFAULT_ACTOR_KIND :: string where "DEFAULT_ACTOR_KIND = ''engineer_token''"

section \<open>Validation\<close>

definition as_source :: "string \<Rightarrow> lifecycle_error + timing_source" where
  "as_source source_slug =
    (case find (\<lambda>source. src_slug source = source_slug) TIMING_SOURCE_CATALOG of
       None \<Rightarrow> Inl UnknownSourceError
     | Some source \<Rightarrow> Inr source)"

definition validate_actor_kind :: "string option \<Rightarrow> lifecycle_error + string" where
  "validate_actor_kind actor_kind =
    (let value = (case actor_kind of None \<Rightarrow> DEFAULT_ACTOR_KIND | Some a \<Rightarrow> a)
     in if value \<in> set ACTOR_KINDS then Inr value else Inl (ValidationError ''actor_kind''))"

definition validate_idempotency_key :: "string option \<Rightarrow> lifecycle_error + string option" where
  "validate_idempotency_key idempotency_key =
    (case idempotency_key of
       None \<Rightarrow> Inr None
     | Some key \<Rightarrow>
        if key = [] \<or> 255 < length key then Inl (ValidationError ''idempotency_key'')
        else if key \<noteq> strip key \<or> list_ex (\<lambda>c. code_point c < 33 \<or> 126 < code_point c) key
        then Inl (ValidationError ''idempotency_key'')
        else Inr (Some key))"

definition validate_session_spec ::
    "string \<Rightarrow> int option \<Rightarrow> int option \<Rightarrow> lifecycle_error + (string \<times> int option \<times> int option)" where
  "validate_session_spec mode race_duration_s required_pits =
    (if mode \<notin> set MODES then Inl (ValidationError ''mode'')
     else if mode \<noteq> ''race''
     then if race_duration_s \<noteq> None \<or> required_pits \<noteq> None then Inl (ValidationError ''race_only'')
          else Inr (mode, None, None)
     else case race_duration_s of
       None \<Rightarrow> Inl (ValidationError ''race_duration_s'')
     | Some duration \<Rightarrow>
        if duration \<notin> set RACE_DURATIONS_S then Inl (ValidationError ''race_duration_s'')
        else (case required_pits of
          None \<Rightarrow> Inl (ValidationError ''required_pits'')
        | Some pits \<Rightarrow>
           if pits \<notin> set RACE_REQUIRED_PITS then Inl (ValidationError ''required_pits'')
           else Inr (mode, Some duration, Some pits)))"

section \<open>Rows, views and their JSON form\<close>

definition next_rowid :: "source_row list \<Rightarrow> nat" where
  "next_rowid rows = (if rows = [] then 1 else Max (set (map ts_id rows)) + 1)"

text \<open>The upsert of one catalogue entry.\<close>

definition seed_source :: "int \<Rightarrow> timing_source \<Rightarrow> source_row list \<Rightarrow> source_row list" where
  "seed_source timestamp_us source rows =
    (if src_slug source \<in> set (map ts_slug rows)
     then map (\<lambda>r. if ts_slug r = src_slug source
                then r\<lparr> ts_source_url := src_url source, ts_adapter_version := src_adapter_version source,
                        ts_display_name := Some (src_display_name source),
                        ts_timezone_name := src_timezone_name source \<rparr>
                else r) rows
     else rows @ [\<lparr> ts_id = next_rowid rows, ts_slug = src_slug source, ts_source_url = src_url source,
                    ts_adapter_version = src_adapter_version source, ts_created_at_us = timestamp_us,
                    ts_display_name = Some (src_display_name source),
                    ts_timezone_name = src_timezone_name source \<rparr>])"

definition seed_catalog :: "int \<Rightarrow> db \<Rightarrow> db" where
  "seed_catalog timestamp_us d =
    d\<lparr> db_sources := fold (seed_source timestamp_us) TIMING_SOURCE_CATALOG (db_sources d) \<rparr>"

definition row_to_session :: "session_row \<times> source_row \<Rightarrow> analysis_session" where
  "row_to_session row = (case row of (s, ts) \<Rightarrow>
    \<lparr> as_id = s_id s, as_source_slug = ts_slug ts, as_source_url = ts_source_url ts,
      as_source_name = ts_display_name ts, as_timezone_name = s_timezone_name s, as_mode = s_mode s,
      as_lifecycle = s_lifecycle s, as_race_duration_s = s_race_duration_s s,
      as_required_pits = s_required_pits s, as_our_participant_id = s_our_participant_id s,
      as_our_class = s_our_class s, as_identity_state = s_identity_state s,
      as_started_at_us = s_started_at_us s, as_stopped_at_us = s_stopped_at_us s,
      as_stop_intent = s_stop_intent s, as_created_at_us = s_created_at_us s,
      as_updated_at_us = s_updated_at_us s \<rparr>)"

text \<open>\<open>analysis_sessions JOIN timing_sources ON ts.id = s.source_id\<close>.\<close>

definition session_select :: "db \<Rightarrow> (session_row \<times> source_row) list" where
  "session_select d =
    concat (map (\<lambda>s. map (\<lambda>ts. (s, ts)) (filter (\<lambda>ts. ts_id ts = s_source_id s) (db_sources d)))
      (db_sessions d))"

definition get_session_row :: "db \<Rightarrow> string \<Rightarrow> lifecycle_error + (session_row \<times> source_row)" where
  "get_session_row d session_id =
    (case find (\<lambda>(s, ts). s_id s = session_id) (session_select d) of
       None \<Rightarrow> Inl SessionNotFoundError
     | Some row \<Rightarrow> Inr row)"

definition get_session :: "db \<Rightarrow> string \<Rightarrow> lifecycle_error + analysis_session" where
  "get_session d session_id =
    (if session_id = [] then Inl SessionNotFoundError
     else map_sum id row_to_session (get_session_row d session_id))"

definition get_active_session :: "db \<Rightarrow> string \<Rightarrow> lifecycle_error + analysis_session option" where
  "get_active_session d source_slug =
    (case as_source source_slug of
       Inl e \<Rightarrow> Inl e
     | Inr source \<Rightarrow> Inr (map_option row_to_session
         (find (\<lambda>(s, ts). ts_slug ts = src_slug source \<and> s_lifecycle s = Active) (session_select d))))"

definition list_active_sessions :: "db \<Rightarrow> analysis_session list" where
  "list_active_sessions d = map row_to_session
    (sort_key (\<lambda>(s, ts). (case s_started_at_us s of None \<Rightarrow> (0::nat, 0::int) | Some t \<Rightarrow> (1, t), s_id s))
      (filter (\<lambda>(s, ts). s_lifecycle s = Active) (session_select d)))"

fun lifecycle_text :: "lifecycle \<Rightarrow> string" where
  "lifecycle_text Draft = ''draft''"
| "lifecycle_text Active = ''active''"
| "lifecycle_text Stopped = ''stopped''"
| "lifecycle_text Aborted = ''aborted''"

fun operation_text :: "operation \<Rightarrow> string" where
  "operation_text OpCreate = ''create''"
| "operation_text OpStart = ''start''"
| "operation_text OpStop = ''stop''"
| "operation_text OpAbort = ''abort''"

definition session_as_dict :: "analysis_session \<Rightarrow> (string \<times> json) list" where
  "session_as_dict a =
    [(''id'', JStr (as_id a)), (''source_slug'', JStr (as_source_slug a)),
     (''source_url'', JStr (as_source_url a)), (''source_name'', opt_json JStr (as_source_name a)),
     (''timezone_name'', JStr (as_timezone_name a)), (''mode'', JStr (as_mode a)),
     (''lifecycle'', JStr (lifecycle_text (as_lifecycle a))),
     (''race_duration_s'', opt_json JInt (as_race_duration_s a)),
     (''required_pits'', opt_json JInt (as_required_pits a)),
     (''our_participant_id'', opt_json JStr (as_our_participant_id a)),
     (''our_class'', opt_json JStr (as_our_class a)), (''identity_state'', JStr (as_identity_state a)),
     (''started_at_us'', opt_json JInt (as_started_at_us a)),
     (''stopped_at_us'', opt_json JInt (as_stopped_at_us a)),
     (''stop_intent'', opt_json JStr (as_stop_intent a)),
     (''created_at_us'', JInt (as_created_at_us a)), (''updated_at_us'', JInt (as_updated_at_us a))]"

definition result_as_dict :: "mutation_result \<Rightarrow> json" where
  "result_as_dict r =
    JObj [(''session'', JObj (session_as_dict (mr_session r))), (''replayed'', JBool (mr_replayed r))]"

text \<open>
  Reading a stored payload back: \<open>KeyError\<close> and \<open>TypeError\<close> are \<open>None\<close>. A field of
  another JSON type than the one \<open>as_dict\<close> writes counts as malformed.
\<close>

definition text_field :: "string \<Rightarrow> (string \<times> json) list \<Rightarrow> string option" where
  "text_field key d = (case map_of d key of Some (JStr s) \<Rightarrow> Some s | _ \<Rightarrow> None)"

definition opt_text_field :: "string \<Rightarrow> (string \<times> json) list \<Rightarrow> string option option" where
  "opt_text_field key d = (case map_of d key of Some JNull \<Rightarrow> Some None
     | Some (JStr s) \<Rightarrow> Some (Some s) | _ \<Rightarrow> None)"

definition int_field :: "string \<Rightarrow> (string \<times> json) list \<Rightarrow> int option" where
  "int_field key d = (case map_of d key of Some (JNum (PyInt i)) \<Rightarrow> Some i | _ \<Rightarrow> None)"

definition opt_int_field :: "string \<Rightarrow> (string \<times> json) list \<Rightarrow> int option option" where
  "opt_int_field key d = (case map_of d key of Some JNull \<Rightarrow> Some None
     | Some (JNum (PyInt i)) \<Rightarrow> Some (Some i) | _ \<Rightarrow> None)"

definition lifecycle_of_text :: "string \<Rightarrow> lifecycle option" where
  "lifecycle_of_text s = find (\<lambda>l. lifecycle_text l = s) [Draft, Active, Stopped, Aborted]"

definition session_of_dict :: "(string \<times> json) list \<Rightarrow> analysis_session option" where
  "session_of_dict d = do {
     i \<leftarrow> text_field ''id'' d;
     slug \<leftarrow> text_field ''source_slug'' d;
     url \<leftarrow> text_field ''source_url'' d;
     nm \<leftarrow> opt_text_field ''source_name'' d;
     tz \<leftarrow> text_field ''timezone_name'' d;
     mode \<leftarrow> text_field ''mode'' d;
     lt \<leftarrow> text_field ''lifecycle'' d;
     l \<leftarrow> lifecycle_of_text lt;
     dur \<leftarrow> opt_int_field ''race_duration_s'' d;
     pits \<leftarrow> opt_int_field ''required_pits'' d;
     p \<leftarrow> opt_text_field ''our_participant_id'' d;
     c \<leftarrow> opt_text_field ''our_class'' d;
     ident \<leftarrow> text_field ''identity_state'' d;
     started \<leftarrow> opt_int_field ''started_at_us'' d;
     stopped \<leftarrow> opt_int_field ''stopped_at_us'' d;
     intent \<leftarrow> opt_text_field ''stop_intent'' d;
     created \<leftarrow> int_field ''created_at_us'' d;
     updated \<leftarrow> int_field ''updated_at_us'' d;
     Some \<lparr> as_id = i, as_source_slug = slug, as_source_url = url, as_source_name = nm,
       as_timezone_name = tz, as_mode = mode, as_lifecycle = l, as_race_duration_s = dur,
       as_required_pits = pits, as_our_participant_id = p, as_our_class = c,
       as_identity_state = ident, as_started_at_us = started, as_stopped_at_us = stopped,
       as_stop_intent = intent, as_created_at_us = created, as_updated_at_us = updated \<rparr> }"

section \<open>Idempotency and audit\<close>

definition idempotency_replay ::
    "db \<Rightarrow> string option \<Rightarrow> operation \<Rightarrow> string \<Rightarrow> lifecycle_error + mutation_result option" where
  "idempotency_replay d idempotency_key oper request_hash =
    (case idempotency_key of
       None \<Rightarrow> Inr None
     | Some key \<Rightarrow>
       (case map_of (db_keys d) key of
          None \<Rightarrow> Inr None
        | Some row \<Rightarrow>
          if ik_operation row \<noteq> oper \<or> ik_request_hash row \<noteq> request_hash then Inl IdempotencyConflict
          else (case ik_result_json row of
                  JObj payload \<Rightarrow>
                    (case jget ''session'' payload of
                       JObj sess \<Rightarrow>
                         (case session_of_dict sess of
                            Some a \<Rightarrow> Inr (Some \<lparr> mr_session = a, mr_replayed = True \<rparr>)
                          | None \<Rightarrow> Inl (LifecycleError ''stored result''))
                     | _ \<Rightarrow> Inl (LifecycleError ''stored result''))
                | _ \<Rightarrow> Inl (LifecycleError ''stored result''))))"

definition store_idempotency ::
    "string option \<Rightarrow> operation \<Rightarrow> string \<Rightarrow> mutation_result \<Rightarrow> int \<Rightarrow> db \<Rightarrow> db" where
  "store_idempotency idempotency_key oper request_hash result timestamp_us d =
    (case idempotency_key of
       None \<Rightarrow> d
     | Some key \<Rightarrow> d\<lparr> db_keys := db_keys d @
         [(key, \<lparr> ik_operation = oper, ik_request_hash = request_hash,
                  ik_session_id = as_id (mr_session result), ik_result_json = result_as_dict result,
                  ik_created_at_us = timestamp_us \<rparr>)] \<rparr>)"

definition write_audit :: "string \<Rightarrow> string \<Rightarrow> string \<Rightarrow> json \<Rightarrow> int \<Rightarrow> db \<Rightarrow> db" where
  "write_audit session_id event_type actor_kind parameters timestamp_us d =
    d\<lparr> db_audit := db_audit d @
        [\<lparr> au_session_id = session_id, au_event_type = event_type, au_actor_kind = actor_kind,
           au_parameters = parameters, au_created_at_us = timestamp_us \<rparr>] \<rparr>"

text \<open>\<open>BEGIN IMMEDIATE\<close>, then commit on return and rollback on any exception.\<close>

definition write_transaction ::
    "(db \<Rightarrow> lifecycle_error + (db \<times> 'a)) \<Rightarrow> db \<Rightarrow> (lifecycle_error + 'a) \<times> db" where
  "write_transaction body d =
    (if db_in_transaction d then (Inl (LifecycleError ''open transaction''), d)
     else case body (d\<lparr> db_in_transaction := True \<rparr>) of
            Inl e \<Rightarrow> (Inl e, d)
          | Inr (d', r) \<Rightarrow> (Inr r, d'\<lparr> db_in_transaction := False \<rparr>))"

section \<open>Operations\<close>

definition ensure_source_catalog :: "int \<Rightarrow> db \<Rightarrow> (lifecycle_error + timing_source list) \<times> db" where
  "ensure_source_catalog timestamp_us d =
    write_transaction (\<lambda>d. Inr (seed_catalog timestamp_us d, TIMING_SOURCE_CATALOG)) d"

definition create_request :: "timing_source \<Rightarrow> string \<Rightarrow> int option \<Rightarrow> int option \<Rightarrow> json" where
  "create_request source mode race_duration_s required_pits =
    JObj [(''operation'', JStr ''create''), (''source_slug'', JStr (src_slug source)), (''mode'', JStr mode),
          (''race_duration_s'', opt_json JInt race_duration_s), (''required_pits'', opt_json JInt required_pits)]"

definition create_body ::
    "timing_source \<Rightarrow> string \<Rightarrow> int option \<Rightarrow> int option \<Rightarrow> string option \<Rightarrow> string \<Rightarrow> string \<Rightarrow> int \<Rightarrow> string
      \<Rightarrow> db \<Rightarrow> lifecycle_error + (db \<times> mutation_result)" where
  "create_body source mode race_duration_s required_pits key actor request_hash timestamp_us session_id d0 =
    (let d = seed_catalog timestamp_us d0 in
     case idempotency_replay d key OpCreate request_hash of
       Inl e \<Rightarrow> Inl e
     | Inr (Some replay) \<Rightarrow> Inr (d, replay)
     | Inr None \<Rightarrow>
       (case find (\<lambda>r. ts_slug r = src_slug source) (db_sources d) of
          None \<Rightarrow> Inl (LifecycleError ''catalog'')
        | Some source_row \<Rightarrow>
          if session_id \<in> set (map s_id (db_sessions d)) then Inl (IntegrityError ''analysis_sessions.id'')
          else
            (let row = \<lparr> s_id = session_id, s_source_id = ts_id source_row, s_mode = mode,
                   s_lifecycle = Draft, s_race_duration_s = race_duration_s,
                   s_required_pits = required_pits, s_our_participant_id = None, s_our_class = None,
                   s_identity_state = ''pending'', s_started_at_us = None, s_stopped_at_us = None,
                   s_stop_intent = None, s_timezone_name = ts_timezone_name source_row,
                   s_created_at_us = timestamp_us, s_updated_at_us = timestamp_us \<rparr>;
                 d1 = d\<lparr> db_sessions := db_sessions d @ [row] \<rparr>
             in case get_session_row d1 session_id of
                  Inl e \<Rightarrow> Inl e
                | Inr joined \<Rightarrow>
                  (let result = \<lparr> mr_session = row_to_session joined, mr_replayed = False \<rparr>;
                       d2 = write_audit session_id ''created'' actor
                              (JObj [(''mode'', JStr mode),
                                     (''race_duration_s'', opt_json JInt race_duration_s),
                                     (''required_pits'', opt_json JInt required_pits)]) timestamp_us d1
                   in Inr (store_idempotency key OpCreate request_hash result timestamp_us d2, result)))))"

definition create_session ::
    "(json \<Rightarrow> string) \<Rightarrow> string \<Rightarrow> string \<Rightarrow> int option \<Rightarrow> int option \<Rightarrow> string option \<Rightarrow> string option
      \<Rightarrow> int \<Rightarrow> string \<Rightarrow> db \<Rightarrow> (lifecycle_error + mutation_result) \<times> db" where
  "create_session sha source_slug mode race_duration_s required_pits idempotency_key actor_kind
      timestamp_us session_id d =
    (case as_source source_slug of Inl e \<Rightarrow> (Inl e, d) | Inr source \<Rightarrow>
     case validate_session_spec mode race_duration_s required_pits of Inl e \<Rightarrow> (Inl e, d)
     | Inr (mode, race_duration_s, required_pits) \<Rightarrow>
     case validate_idempotency_key idempotency_key of Inl e \<Rightarrow> (Inl e, d) | Inr key \<Rightarrow>
     case validate_actor_kind actor_kind of Inl e \<Rightarrow> (Inl e, d) | Inr actor \<Rightarrow>
       write_transaction
         (create_body source mode race_duration_s required_pits key actor
            (sha (create_request source mode race_duration_s required_pits)) timestamp_us session_id) d)"

text \<open>The \<open>UPDATE\<close> of one session and the partial unique index it must respect.\<close>

definition update_session :: "string \<Rightarrow> (session_row \<Rightarrow> session_row) \<Rightarrow> db \<Rightarrow> db" where
  "update_session session_id f d =
    d\<lparr> db_sessions := map (\<lambda>s. if s_id s = session_id then f s else s) (db_sessions d) \<rparr>"

definition active_index_ok :: "db \<Rightarrow> bool" where
  "active_index_ok d = distinct (map s_source_id (filter (\<lambda>s. s_lifecycle s = Active) (db_sessions d)))"

definition start_row :: "int \<Rightarrow> session_row \<Rightarrow> session_row" where
  "start_row timestamp_us s =
    s\<lparr> s_lifecycle := Active, s_started_at_us := Some timestamp_us,
       s_updated_at_us := timestamp_us, s_stop_intent := None \<rparr>"

definition stop_row :: "int \<Rightarrow> session_row \<Rightarrow> session_row" where
  "stop_row timestamp_us s =
    s\<lparr> s_lifecycle := Stopped, s_stopped_at_us := Some timestamp_us,
       s_stop_intent := Some ''operator_stop'', s_updated_at_us := timestamp_us \<rparr>"

definition abort_row :: "int \<Rightarrow> session_row \<Rightarrow> session_row" where
  "abort_row timestamp_us s =
    s\<lparr> s_lifecycle := Aborted, s_stopped_at_us := Some timestamp_us,
       s_stop_intent := Some ''operator_abort'', s_updated_at_us := timestamp_us \<rparr>"

text \<open>The guarded change of one operation and the event it is audited as.\<close>

definition apply_operation ::
    "operation \<Rightarrow> string \<Rightarrow> int \<Rightarrow> session_row \<Rightarrow> db \<Rightarrow> lifecycle_error + (db \<times> string)" where
  "apply_operation oper session_id timestamp_us row d =
    (case oper of
       OpStart \<Rightarrow>
         if s_lifecycle row \<noteq> Draft then Inl (TransitionError OpStart (s_lifecycle row))
         else (case find (\<lambda>s. s_source_id s = s_source_id row \<and> s_lifecycle s = Active) (db_sessions d) of
                 Some existing \<Rightarrow> Inl (ActiveSessionConflict (Some (s_id existing)))
               | None \<Rightarrow>
                   (let d' = update_session session_id (start_row timestamp_us) d
                    in if active_index_ok d' then Inr (d', ''started'')
                       else Inl (IntegrityError ''analysis_sessions.source_id'')))
     | OpStop \<Rightarrow>
         if s_lifecycle row \<noteq> Active then Inl (TransitionError OpStop (s_lifecycle row))
         else Inr (update_session session_id (stop_row timestamp_us) d, ''stopped'')
     | OpAbort \<Rightarrow>
         if s_lifecycle row \<notin> {Draft, Active} then Inl (TransitionError OpAbort (s_lifecycle row))
         else Inr (update_session session_id (abort_row timestamp_us) d, ''aborted'')
     | OpCreate \<Rightarrow> Inl (LifecycleError ''unsupported''))"

definition transition_body ::
    "string \<Rightarrow> operation \<Rightarrow> string option \<Rightarrow> string \<Rightarrow> string \<Rightarrow> int \<Rightarrow> db \<Rightarrow> lifecycle_error + (db \<times> mutation_result)" where
  "transition_body session_id oper key actor request_hash timestamp_us d =
    (case idempotency_replay d key oper request_hash of
       Inl e \<Rightarrow> Inl e
     | Inr (Some replay) \<Rightarrow> Inr (d, replay)
     | Inr None \<Rightarrow>
       (case get_session_row d session_id of
          Inl e \<Rightarrow> Inl e
        | Inr (row, ts) \<Rightarrow>
          (case apply_operation oper session_id timestamp_us row d of
             Inl e \<Rightarrow> Inl e
           | Inr (d1, audit_event) \<Rightarrow>
             (case get_session_row d1 session_id of
                Inl e \<Rightarrow> Inl e
              | Inr joined \<Rightarrow>
                (let result = \<lparr> mr_session = row_to_session joined, mr_replayed = False \<rparr>;
                     d2 = write_audit session_id audit_event actor (JObj []) timestamp_us d1
                 in Inr (store_idempotency key oper request_hash result timestamp_us d2, result))))))"

definition transition_request :: "operation \<Rightarrow> string \<Rightarrow> json" where
  "transition_request oper session_id =
    JObj [(''operation'', JStr (operation_text oper)), (''session_id'', JStr session_id)]"

definition transition_session ::
    "(json \<Rightarrow> string) \<Rightarrow> string \<Rightarrow> operation \<Rightarrow> string option \<Rightarrow> string option \<Rightarrow> int \<Rightarrow> db
      \<Rightarrow> (lifecycle_error + mutation_result) \<times> db" where
  "transition_session sha session_id oper idempotency_key actor_kind timestamp_us d =
    (if session_id = [] then (Inl SessionNotFoundError, d)
     else case validate_idempotency_key idempotency_key of Inl e \<Rightarrow> (Inl e, d) | Inr key \<Rightarrow>
          case validate_actor_kind actor_kind of Inl e \<Rightarrow> (Inl e, d) | Inr actor \<Rightarrow>
          (case write_transaction
                 (transition_body session_id oper key actor (sha (transition_request oper session_id)) timestamp_us) d of
             (Inl (IntegrityError what), d') \<Rightarrow>
               (if what = ''analysis_sessions.source_id'' then (Inl (ActiveSessionConflict None), d')
                else (Inl (IntegrityError what), d'))
           | other \<Rightarrow> other))"

definition start_session where "start_session sha session_id = transition_session sha session_id OpStart"

definition stop_session where "stop_session sha session_id = transition_session sha session_id OpStop"

definition abort_session where "abort_session sha session_id = transition_session sha session_id OpAbort"

section \<open>Commands\<close>

text \<open>One call of the module, with the clock and the fresh identifier it reads.\<close>

datatype command =
    EnsureCatalog int
  | Create string string "int option" "int option" "string option" "string option" int string
  | Transition operation string "string option" "string option" int

definition exec :: "(json \<Rightarrow> string) \<Rightarrow> db \<Rightarrow> command \<Rightarrow> db" where
  "exec sha d c =
    (case c of
       EnsureCatalog t \<Rightarrow> snd (ensure_source_catalog t d)
     | Create slug mode dur pits key actor t sid \<Rightarrow>
         snd (create_session sha slug mode dur pits key actor t sid d)
     | Transition oper sid key actor t \<Rightarrow> snd (transition_session sha sid oper key actor t d))"

definition empty_db :: db where
  "empty_db = \<lparr> db_sources = [], db_sessions = [], db_keys = [], db_audit = [], db_in_transaction = False \<rparr>"

section \<open>The contract: lifecycles, histories, well-formed tables\<close>

inductive lc_step :: "lifecycle \<Rightarrow> operation \<Rightarrow> lifecycle \<Rightarrow> bool" where
  start: "lc_step Draft OpStart Active"
| stop: "lc_step Active OpStop Stopped"
| abort_draft: "lc_step Draft OpAbort Aborted"
| abort_active: "lc_step Active OpAbort Aborted"

inductive_cases lc_step_OpStart [elim!]: "lc_step l OpStart l'"
inductive_cases lc_step_OpStop [elim!]: "lc_step l OpStop l'"
inductive_cases lc_step_OpAbort [elim!]: "lc_step l OpAbort l'"
inductive_cases lc_step_OpCreate [elim!]: "lc_step l OpCreate l'"
inductive_simps lc_step_Stopped [simp]: "lc_step Stopped oper l'"
inductive_simps lc_step_Aborted [simp]: "lc_step Aborted oper l'"

fun event_of :: "operation \<Rightarrow> string" where
  "event_of OpCreate = ''created''"
| "event_of OpStart = ''started''"
| "event_of OpStop = ''stopped''"
| "event_of OpAbort = ''aborted''"

text \<open>The event types a session in a given state has left in the audit table.\<close>

inductive lc_history :: "string list \<Rightarrow> lifecycle \<Rightarrow> bool" where
  created: "lc_history [''created''] Draft"
| operated: "lc_history es l \<Longrightarrow> lc_step l oper l' \<Longrightarrow> lc_history (es @ [event_of oper]) l'"

definition session_events :: "db \<Rightarrow> string \<Rightarrow> string list" where
  "session_events d session_id =
    map au_event_type (filter (\<lambda>a. au_session_id a = session_id) (db_audit d))"

definition spec_ok :: "string \<Rightarrow> int option \<Rightarrow> int option \<Rightarrow> bool" where
  "spec_ok mode dur pits \<longleftrightarrow> mode \<in> set MODES \<and>
     (if mode = ''race'' then dur \<in> Some ` set RACE_DURATIONS_S \<and> pits \<in> Some ` set RACE_REQUIRED_PITS
      else dur = None \<and> pits = None)"

fun times_ok :: "lifecycle \<Rightarrow> int option \<Rightarrow> int option \<Rightarrow> string option \<Rightarrow> bool" where
  "times_ok Draft started stopped intent = (started = None \<and> stopped = None \<and> intent = None)"
| "times_ok Active started stopped intent = (started \<noteq> None \<and> stopped = None \<and> intent = None)"
| "times_ok Stopped started stopped intent =
     (started \<noteq> None \<and> stopped \<noteq> None \<and> intent = Some ''operator_stop'')"
| "times_ok Aborted started stopped intent = (stopped \<noteq> None \<and> intent = Some ''operator_abort'')"

definition session_ok :: "session_row \<Rightarrow> bool" where
  "session_ok s \<longleftrightarrow> spec_ok (s_mode s) (s_race_duration_s s) (s_required_pits s) \<and>
     times_ok (s_lifecycle s) (s_started_at_us s) (s_stopped_at_us s) (s_stop_intent s)"

definition sources_ok :: "source_row list \<Rightarrow> bool" where
  "sources_ok rows \<longleftrightarrow> distinct (map ts_id rows) \<and> distinct (map ts_slug rows)"

definition db_ok :: "db \<Rightarrow> bool" where
  "db_ok d \<longleftrightarrow> sources_ok (db_sources d) \<and> distinct (map s_id (db_sessions d)) \<and>
     (\<forall>s \<in> set (db_sessions d). s_source_id s \<in> ts_id ` set (db_sources d) \<and> session_ok s \<and>
        lc_history (session_events d (s_id s)) (s_lifecycle s)) \<and>
     (\<forall>a \<in> set (db_audit d). au_session_id a \<in> s_id ` set (db_sessions d)) \<and>
     active_index_ok d \<and> distinct (map fst (db_keys d)) \<and> \<not> db_in_transaction d"

lemma validate_session_spec_ok:
  "validate_session_spec mode dur pits = Inr (m, d, p) \<longleftrightarrow> (m, d, p) = (mode, dur, pits) \<and> spec_ok mode dur pits"
  by (auto simp: validate_session_spec_def spec_ok_def split: option.splits)

section \<open>The JSON form of a session\<close>

lemma field_simps_json:
  "map_of d k = Some (JStr s) \<Longrightarrow> text_field k d = Some s"
  "map_of d k = Some (JInt i) \<Longrightarrow> int_field k d = Some i"
  "map_of d k = Some (opt_json JStr os) \<Longrightarrow> opt_text_field k d = Some os"
  "map_of d k = Some (opt_json JInt oi) \<Longrightarrow> opt_int_field k d = Some oi"
  by (auto simp: text_field_def int_field_def opt_text_field_def opt_int_field_def opt_json_def
      split: option.splits)

lemma lifecycle_of_text_text [simp]: "lifecycle_of_text (lifecycle_text l) = Some l"
  by (cases l) (simp_all add: lifecycle_of_text_def)

lemma session_dict_lookup: "session_of_dict (session_as_dict a) = Some a"
  unfolding session_of_dict_def
  by (simp add: field_simps_json session_as_dict_def)

section \<open>Catalogue\<close>

lemma seed_source_slugs:
  "map ts_slug (seed_source t src rows) =
    (if src_slug src \<in> set (map ts_slug rows) then map ts_slug rows else map ts_slug rows @ [src_slug src])"
  by (auto simp: seed_source_def)

lemma seed_source_ids:
  "map ts_id (seed_source t src rows) =
    (if src_slug src \<in> set (map ts_slug rows) then map ts_id rows else map ts_id rows @ [next_rowid rows])"
  by (auto simp: seed_source_def)

lemma next_rowid_fresh: "next_rowid rows \<notin> set (map ts_id rows)"
proof
  assume a: "next_rowid rows \<in> set (map ts_id rows)"
  then have "rows \<noteq> []" by auto
  then show False using Max_ge [OF _ a] by (simp add: next_rowid_def)
qed

lemma seed_source_ok: "sources_ok rows \<Longrightarrow> sources_ok (seed_source t src rows)"
  using next_rowid_fresh [of rows]
  unfolding sources_ok_def seed_source_slugs seed_source_ids by auto

lemma seed_source_keeps_ids: "set (map ts_id rows) \<subseteq> set (map ts_id (seed_source t src rows))"
  by (simp only: seed_source_ids) auto

lemma fold_seed_ok: "sources_ok rows \<Longrightarrow> sources_ok (fold (seed_source t) srcs rows)"
  by (induction srcs arbitrary: rows) (auto intro: seed_source_ok)

lemma fold_seed_keeps_ids: "set (map ts_id rows) \<subseteq> set (map ts_id (fold (seed_source t) srcs rows))"
proof (induction srcs arbitrary: rows)
  case (Cons src srcs)
  show ?case using subset_trans [OF seed_source_keeps_ids Cons.IH] by simp
qed simp

lemma seed_catalog_fields [simp]:
  "db_sessions (seed_catalog t d) = db_sessions d" "db_keys (seed_catalog t d) = db_keys d"
  "db_audit (seed_catalog t d) = db_audit d" "db_in_transaction (seed_catalog t d) = db_in_transaction d"
  by (simp_all add: seed_catalog_def)

lemma seed_catalog_sources:
  "sources_ok (db_sources d) \<Longrightarrow> sources_ok (db_sources (seed_catalog t d))"
  "ts_id ` set (db_sources d) \<subseteq> ts_id ` set (db_sources (seed_catalog t d))"
  using fold_seed_keeps_ids by (simp_all add: seed_catalog_def fold_seed_ok)

lemma seed_catalog_ok: "db_ok d \<Longrightarrow> db_ok (seed_catalog t d)"
  using seed_catalog_sources [of d t] by (auto simp: db_ok_def session_events_def active_index_ok_def)

section \<open>One operation on one row\<close>

fun op_row :: "operation \<Rightarrow> int \<Rightarrow> session_row \<Rightarrow> session_row" where
  "op_row OpStart t s = start_row t s"
| "op_row OpStop t s = stop_row t s"
| "op_row OpAbort t s = abort_row t s"
| "op_row OpCreate t s = s"

lemma op_row_keys [simp]: "s_id (op_row oper t s) = s_id s" "s_source_id (op_row oper t s) = s_source_id s"
  "s_mode (op_row oper t s) = s_mode s" "s_race_duration_s (op_row oper t s) = s_race_duration_s s"
  "s_required_pits (op_row oper t s) = s_required_pits s" "s_created_at_us (op_row oper t s) = s_created_at_us s"
  by (cases oper; simp add: start_row_def stop_row_def abort_row_def)+

lemma op_row_ops: "op_row OpStart t = start_row t" "op_row OpStop t = stop_row t" "op_row OpAbort t = abort_row t"
  by (intro ext, simp)+

lemma apply_operation_Inr:
  assumes "apply_operation oper sid t row d = Inr (d', ev)"
  shows "d' = update_session sid (op_row oper t) d \<and> ev = event_of oper \<and>
    lc_step (s_lifecycle row) oper (s_lifecycle (op_row oper t row)) \<and>
    (oper = OpStart \<longrightarrow> active_index_ok d' \<and>
       find (\<lambda>s. s_source_id s = s_source_id row \<and> s_lifecycle s = Active) (db_sessions d) = None)"
proof (cases oper)
  case OpStart
  then have l: "s_lifecycle row = Draft" using assms by (simp add: apply_operation_def split: if_splits)
  then show ?thesis using assms OpStart
    by (simp add: apply_operation_def Let_def split: if_splits option.splits)
       (auto simp: op_row_ops start_row_def intro: lc_step.intros)
next
  case OpAbort
  then have "s_lifecycle row = Draft \<or> s_lifecycle row = Active"
    using assms by (simp add: apply_operation_def split: if_splits)
  then show ?thesis using assms OpAbort
    by (simp add: apply_operation_def) (auto simp: op_row_ops abort_row_def intro: lc_step.intros)
qed (use assms in \<open>auto simp: op_row_ops apply_operation_def stop_row_def intro: lc_step.intros split: if_splits\<close>)

lemma op_row_ok:
  assumes "lc_step (s_lifecycle s) oper (s_lifecycle (op_row oper t s))" "session_ok s"
  shows "session_ok (op_row oper t s)"
proof -
  have "times_ok (s_lifecycle (op_row oper t s)) (s_started_at_us (op_row oper t s))
     (s_stopped_at_us (op_row oper t s)) (s_stop_intent (op_row oper t s))"
    using assms by (cases oper) (auto simp: session_ok_def start_row_def stop_row_def abort_row_def)
  then show ?thesis using assms(2) by (simp add: session_ok_def)
qed

lemma get_session_row_Inr:
  assumes "get_session_row d sid = Inr (row, ts)"
  shows "row \<in> set (db_sessions d) \<and> ts \<in> set (db_sources d) \<and> s_id row = sid \<and> ts_id ts = s_source_id row"
proof -
  have "find (\<lambda>(s, ts). s_id s = sid) (session_select d) = Some (row, ts)"
    using assms by (simp add: get_session_row_def split: option.splits)
  then have "(row, ts) \<in> set (session_select d)" "s_id row = sid"
    by (auto simp: find_Some_iff in_set_conv_nth)
  then show ?thesis by (auto simp: session_select_def)
qed

lemma get_session_row_some:
  assumes "s \<in> set (db_sessions d)" "ts_id ts = s_source_id s" "ts \<in> set (db_sources d)"
  shows "\<exists>row ts'. get_session_row d (s_id s) = Inr (row, ts')"
proof -
  have "(s, ts) \<in> set (session_select d)" using assms by (auto simp: session_select_def)
  then have "find (\<lambda>(s', ts). s_id s' = s_id s) (session_select d) \<noteq> None"
    by (auto simp: find_None_iff)
  then show ?thesis by (auto simp: get_session_row_def)
qed

lemma update_session_fields [simp]:
  "db_sources (update_session sid f d) = db_sources d" "db_keys (update_session sid f d) = db_keys d"
  "db_audit (update_session sid f d) = db_audit d"
  "db_in_transaction (update_session sid f d) = db_in_transaction d"
  by (simp_all add: update_session_def)

lemma write_audit_fields [simp]:
  "db_sources (write_audit sid ev a p t d) = db_sources d" "db_keys (write_audit sid ev a p t d) = db_keys d"
  "db_sessions (write_audit sid ev a p t d) = db_sessions d"
  "db_in_transaction (write_audit sid ev a p t d) = db_in_transaction d"
  by (simp_all add: write_audit_def)

lemma store_idempotency_fields [simp]:
  "db_sources (store_idempotency k oper h r t d) = db_sources d"
  "db_sessions (store_idempotency k oper h r t d) = db_sessions d"
  "db_audit (store_idempotency k oper h r t d) = db_audit d"
  "db_in_transaction (store_idempotency k oper h r t d) = db_in_transaction d"
  by (simp_all add: store_idempotency_def split: option.splits)

lemma session_events_audit:
  "session_events (write_audit sid ev a p t d) x = session_events d x @ (if x = sid then [ev] else [])"
  by (simp add: session_events_def write_audit_def)

lemma session_events_cong [simp]:
  "session_events (update_session sid f d) x = session_events d x"
  "session_events (store_idempotency k oper h r t d) x = session_events d x"
  by (simp_all add: session_events_def)

lemma replay_None_key:
  "idempotency_replay d (Some k) oper h = Inr None \<Longrightarrow> k \<notin> fst ` set (db_keys d)"
  by (auto simp: idempotency_replay_def map_of_eq_None_iff Let_def
      split: option.splits if_splits json.splits)

lemma store_keys_distinct:
  assumes "idempotency_replay d key oper h = Inr None" "distinct (map fst (db_keys d'))" "db_keys d' = db_keys d"
  shows "distinct (map fst (db_keys (store_idempotency key oper h r t d')))"
  using assms replay_None_key [of d _ oper h] by (cases key) (auto simp: store_idempotency_def)

section \<open>What a committed write did\<close>

lemma transition_body_cases:
  assumes "transition_body sid oper key actor h t d = Inr (d', r)"
  obtains (replay) "idempotency_replay d key oper h = Inr (Some r)" "d' = d"
  | (fresh) row ts joined d1 where "idempotency_replay d key oper h = Inr None"
      "get_session_row d sid = Inr (row, ts)"
      "apply_operation oper sid t row d = Inr (d1, event_of oper)"
      "get_session_row d1 sid = Inr joined"
      "r = \<lparr> mr_session = row_to_session joined, mr_replayed = False \<rparr>"
      "d' = store_idempotency key oper h r t (write_audit sid (event_of oper) actor (JObj []) t d1)"
proof (cases "idempotency_replay d key oper h")
  case (Inl e)
  then show ?thesis using assms by (simp add: transition_body_def)
next
  case (Inr o1)
  show ?thesis
  proof (cases o1)
    case (Some r')
    have "d' = d" "r = r'" using assms unfolding transition_body_def Inr Some by simp_all
    then show ?thesis using replay Inr Some by blast
  next
    case None
    obtain row ts where g: "get_session_row d sid = Inr (row, ts)"
      using assms unfolding transition_body_def Inr None by (cases "get_session_row d sid") auto
    obtain d1 ev where ap: "apply_operation oper sid t row d = Inr (d1, ev)"
      using assms g unfolding transition_body_def Inr None by (cases "apply_operation oper sid t row d") auto
    obtain joined where j: "get_session_row d1 sid = Inr joined"
      using assms g ap unfolding transition_body_def Inr None by (cases "get_session_row d1 sid") simp_all
    have ev: "ev = event_of oper" using apply_operation_Inr [OF ap] by simp
    have r: "store_idempotency key oper h \<lparr> mr_session = row_to_session joined, mr_replayed = False \<rparr> t
        (write_audit sid ev actor (JObj []) t d1) = d' \<and> \<lparr> mr_session = row_to_session joined, mr_replayed = False \<rparr> = r"
      using assms g ap j unfolding transition_body_def Inr None Let_def by simp metis
    then have "r = \<lparr> mr_session = row_to_session joined, mr_replayed = False \<rparr>"
      "d' = store_idempotency key oper h r t (write_audit sid ev actor (JObj []) t d1)" by blast+
    then show ?thesis using fresh [OF _ g _ j] ap Inr None unfolding ev by simp
  qed
qed

lemma create_body_cases:
  assumes "create_body src mode dur pits key actor h t sid d0 = Inr (d', r)"
  obtains (replay) "idempotency_replay (seed_catalog t d0) key OpCreate h = Inr (Some r)" "d' = seed_catalog t d0"
  | (fresh) srow row joined d1 where "idempotency_replay (seed_catalog t d0) key OpCreate h = Inr None"
      "srow \<in> set (db_sources (seed_catalog t d0))" "ts_slug srow = src_slug src"
      "sid \<notin> set (map s_id (db_sessions d0))"
      "s_id row = sid" "s_source_id row = ts_id srow" "s_lifecycle row = Draft" "s_mode row = mode"
      "s_race_duration_s row = dur" "s_required_pits row = pits" "s_started_at_us row = None"
      "s_stopped_at_us row = None" "s_stop_intent row = None"
      "d1 = (seed_catalog t d0)\<lparr> db_sessions := db_sessions d0 @ [row] \<rparr>"
      "get_session_row d1 sid = Inr joined"
      "r = \<lparr> mr_session = row_to_session joined, mr_replayed = False \<rparr>"
      "\<exists>params. d' = store_idempotency key OpCreate h r t (write_audit sid ''created'' actor params t d1)"
proof (cases "idempotency_replay (seed_catalog t d0) key OpCreate h")
  case (Inl e)
  then show ?thesis using assms by (simp add: create_body_def)
next
  case (Inr o1)
  show ?thesis
  proof (cases o1)
    case (Some r')
    have "d' = seed_catalog t d0" "r = r'"
      using assms Inr unfolding create_body_def Let_def Some by simp_all
    then show ?thesis using replay Inr Some by blast
  next
    case None
    let ?d = "seed_catalog t d0"
    obtain srow where f: "find (\<lambda>r. ts_slug r = src_slug src) (db_sources ?d) = Some srow"
      using assms Inr None unfolding create_body_def Let_def
      by (cases "find (\<lambda>r. ts_slug r = src_slug src) (db_sources ?d)") simp_all
    define row where "row = \<lparr> s_id = sid, s_source_id = ts_id srow, s_mode = mode,
        s_lifecycle = Draft, s_race_duration_s = dur, s_required_pits = pits, s_our_participant_id = None,
        s_our_class = None, s_identity_state = ''pending'', s_started_at_us = None,
        s_stopped_at_us = None, s_stop_intent = None, s_timezone_name = ts_timezone_name srow,
        s_created_at_us = t, s_updated_at_us = t \<rparr>"
    define d1 where "d1 = ?d\<lparr> db_sessions := db_sessions d0 @ [row] \<rparr>"
    have n: "sid \<notin> set (map s_id (db_sessions d0))"
      using assms Inr None f unfolding create_body_def Let_def by (simp split: if_splits)
    have "create_body src mode dur pits key actor h t sid d0 =
      (case get_session_row d1 sid of Inl e \<Rightarrow> Inl e | Inr joined \<Rightarrow>
        (let result = \<lparr> mr_session = row_to_session joined, mr_replayed = False \<rparr>;
             d2 = write_audit sid ''created'' actor
              (JObj [(''mode'', JStr mode), (''race_duration_s'', opt_json JInt dur),
                     (''required_pits'', opt_json JInt pits)]) t d1
         in Inr (store_idempotency key OpCreate h result t d2, result)))"
      unfolding create_body_def Let_def row_def d1_def seed_catalog_fields using Inr None f n by simp
    then obtain joined where j: "get_session_row d1 sid = Inr joined"
      "r = \<lparr> mr_session = row_to_session joined, mr_replayed = False \<rparr>"
      "\<exists>params. d' = store_idempotency key OpCreate h r t (write_audit sid ''created'' actor params t d1)"
      using assms by (cases "get_session_row d1 sid") (auto simp: Let_def)
    have s: "srow \<in> set (db_sources ?d)" "ts_slug srow = src_slug src"
      using f by (auto simp: find_Some_iff in_set_conv_nth)
    show ?thesis
      by (rule fresh [OF _ s n _ _ _ _ _ _ _ _ _ d1_def j]) (simp_all add: Inr None row_def)
  qed
qed

section \<open>Well-formed tables are preserved\<close>

lemma db_ok_cong:
  assumes "db_sources d' = db_sources d" "db_sessions d' = db_sessions d" "db_audit d' = db_audit d"
    "distinct (map fst (db_keys d'))" "\<not> db_in_transaction d'" "db_ok d"
  shows "db_ok d'"
  using assms by (simp add: db_ok_def session_events_def active_index_ok_def)

lemma update_other_ids: "map s_id (db_sessions (update_session sid (op_row oper t) d)) = map s_id (db_sessions d)"
  by (simp add: update_session_def)

lemma active_after_op:
  assumes "distinct (map s_id (db_sessions d))" "row \<in> set (db_sessions d)" "s_id row = sid"
    "lc_step (s_lifecycle row) oper (s_lifecycle (op_row oper t row))" "oper \<noteq> OpStart" "active_index_ok d"
  shows "active_index_ok (update_session sid (op_row oper t) d)"
proof -
  have u: "s = row" if "s \<in> set (db_sessions d)" "s_id s = sid" for s
    using that assms(1-3) by (metis distinct_map inj_on_def)
  have na: "s_lifecycle (op_row oper t s) \<noteq> Active" for s
    using assms(4,5) by (cases oper) (auto simp: stop_row_def abort_row_def)
  have "filter (\<lambda>s. s_lifecycle s = Active) (db_sessions (update_session sid (op_row oper t) d)) =
        filter (\<lambda>s. s_id s \<noteq> sid) (filter (\<lambda>s. s_lifecycle s = Active) (db_sessions d))"
  proof -
    have "filter (\<lambda>s. s_lifecycle s = Active) (map (\<lambda>s. if s_id s = sid then op_row oper t s else s) ss) =
      filter (\<lambda>s. s_id s \<noteq> sid) (filter (\<lambda>s. s_lifecycle s = Active) ss)" for ss
      using na by (induction ss) auto
    then show ?thesis by (simp add: update_session_def)
  qed
  then show ?thesis using assms(6) unfolding active_index_ok_def by (metis distinct_map_filter)
qed

lemma operated_ok:
  assumes ok: "db_ok (d\<lparr> db_in_transaction := False \<rparr>)" and row: "row \<in> set (db_sessions d)" "s_id row = sid"
    and ap: "apply_operation oper sid t row d = Inr (d1, event_of oper)"
  shows "db_ok ((write_audit sid (event_of oper) actor p t d1)\<lparr> db_in_transaction := False \<rparr>)"
proof -
  note A = apply_operation_Inr [OF ap]
  have dist: "distinct (map s_id (db_sessions d))" using ok by (simp add: db_ok_def)
  have u: "s = row" if "s \<in> set (db_sessions d)" "s_id s = sid" for s
    using that dist row by (metis distinct_map inj_on_def)
  let ?w = "(write_audit sid (event_of oper) actor p t d1)\<lparr> db_in_transaction := False \<rparr>"
  have ev: "session_events ?w x = session_events d x @ (if x = sid then [event_of oper] else [])" for x
    using A session_events_audit [of sid "event_of oper" actor p t d1 x] by (simp add: session_events_def)
  have sess: "db_sessions ?w = map (\<lambda>s. if s_id s = sid then op_row oper t s else s) (db_sessions d)"
    using A by (simp add: update_session_def)
  have src: "db_sources ?w = db_sources d" using A by simp
  have each: "s_source_id s \<in> ts_id ` set (db_sources ?w) \<and> session_ok s \<and>
      lc_history (session_events ?w (s_id s)) (s_lifecycle s)" if sm: "s \<in> set (db_sessions ?w)" for s
  proof -
    obtain s0 where s0: "s0 \<in> set (db_sessions d)" "s = (if s_id s0 = sid then op_row oper t s0 else s0)"
      using sm unfolding sess set_map by blast
    have old: "s_source_id s0 \<in> ts_id ` set (db_sources d)" "session_ok s0"
      "lc_history (session_events d (s_id s0)) (s_lifecycle s0)"
      using ok s0(1) by (auto simp: db_ok_def session_events_def)
    show ?thesis
    proof (cases "s_id s0 = sid")
      case True
      then have [simp]: "s0 = row" using u s0(1) by blast
      then have s: "s = op_row oper t row" using s0(2) row(2) by simp
      have "lc_history (session_events ?w sid) (s_lifecycle s)"
        unfolding ev [of sid] s
        using lc_history.operated [of "session_events d sid" "s_lifecycle row" oper] A old(3) row(2) by simp
      moreover have "session_ok s" using op_row_ok A old(2) by (simp add: s)
      moreover have "s_source_id s \<in> ts_id ` set (db_sources ?w)" using A old(1) by (simp add: s)
      ultimately show ?thesis using row(2) by (simp add: s)
    next
      case False
      then show ?thesis using s0(2) old src ev [of "s_id s0"] by simp
    qed
  qed
  have act: "active_index_ok ?w"
  proof (cases "oper = OpStart")
    case True
    then have "active_index_ok d1" using A by blast
    then show ?thesis by (simp add: active_index_ok_def)
  next
    case False
    then show ?thesis using active_after_op [OF dist row _ False] A ok
      by (simp add: active_index_ok_def db_ok_def)
  qed
  have ids: "map s_id (db_sessions ?w) = map s_id (db_sessions d)" unfolding sess by simp
  have aud: "\<forall>a \<in> set (db_audit ?w). au_session_id a \<in> s_id ` set (db_sessions ?w)"
  proof -
    have "s_id ` set (db_sessions ?w) = s_id ` set (db_sessions d)"
      using arg_cong [OF ids, of set] by simp
    moreover have "db_audit ?w = db_audit d @ [\<lparr> au_session_id = sid, au_event_type = event_of oper,
        au_actor_kind = actor, au_parameters = p, au_created_at_us = t \<rparr>]"
      using A by (simp add: write_audit_def)
    ultimately show ?thesis using ok row by (auto simp: db_ok_def)
  qed
  show ?thesis unfolding db_ok_def
    using each act aud dist ids ok A by (simp add: db_ok_def)
qed

lemma created_ok:
  assumes ok: "db_ok d" and new: "s_id row \<notin> set (map s_id (db_sessions d))"
    and row: "s_source_id row \<in> ts_id ` set (db_sources d)" "session_ok row" "s_lifecycle row = Draft"
  shows "db_ok (write_audit (s_id row) ''created'' actor p t (d\<lparr> db_sessions := db_sessions d @ [row] \<rparr>))"
    (is "db_ok ?w")
proof -
  have none: "session_events d (s_id row) = []"
  proof -
    have "au_session_id a \<noteq> s_id row" if "a \<in> set (db_audit d)" for a
    proof -
      have "au_session_id a \<in> s_id ` set (db_sessions d)" using ok that by (simp add: db_ok_def)
      then show ?thesis using new by (metis set_map)
    qed
    then show ?thesis by (auto simp: session_events_def filter_empty_conv)
  qed
  have ev: "session_events ?w x = session_events d x @ (if x = s_id row then [''created''] else [])" for x
    by (simp add: session_events_audit) (simp add: session_events_def)
  have old: "lc_history (session_events ?w (s_id s)) (s_lifecycle s)" if "s \<in> set (db_sessions d)" for s
  proof -
    have "s_id s \<noteq> s_id row" using new that by (metis image_eqI set_map)
    then show ?thesis using ok that by (simp add: ev db_ok_def)
  qed
  have mine: "lc_history (session_events ?w (s_id row)) Draft"
    unfolding ev none by (simp add: lc_history.created)
  have aud: "\<forall>a \<in> set (db_audit ?w). au_session_id a \<in> s_id ` set (db_sessions ?w)"
    using ok by (auto simp: write_audit_def db_ok_def)
  have act: "active_index_ok ?w" using ok row(3) by (simp add: active_index_ok_def db_ok_def)
  show ?thesis unfolding db_ok_def using act aud mine old ok row new by (auto simp: db_ok_def)
qed

lemma store_ok:
  assumes "db_ok d'" "idempotency_replay d key oper h = Inr None" "db_keys d' = db_keys d"
  shows "db_ok (store_idempotency key oper h r t d')"
  by (rule db_ok_cong [OF _ _ _ store_keys_distinct [OF assms(2) _ assms(3)] _ assms(1)])
     (use assms(1) in \<open>simp_all add: db_ok_def\<close>)

text \<open>The transaction wrapper: either the body committed, or the tables are as before.\<close>

lemma write_transaction_cases:
  obtains (failed) e where "write_transaction body d = (Inl e, d)"
  | (committed) d' r where "body (d\<lparr> db_in_transaction := True \<rparr>) = Inr (d', r)" "\<not> db_in_transaction d"
      "write_transaction body d = (Inr r, d'\<lparr> db_in_transaction := False \<rparr>)"
proof (cases "db_in_transaction d")
  case True
  then show ?thesis using failed by (simp add: write_transaction_def)
next
  case False
  show ?thesis
  proof (cases "body (d\<lparr> db_in_transaction := True \<rparr>)")
    case (Inl e)
    then show ?thesis using failed False by (simp add: write_transaction_def)
  next
    case (Inr p)
    then show ?thesis using committed False by (cases p) (simp add: write_transaction_def)
  qed
qed

lemma idempotency_replay_cong: "db_keys d = db_keys d' \<Longrightarrow> idempotency_replay d = idempotency_replay d'"
proof (intro ext)
  fix key oper h assume k: "db_keys d = db_keys d'"
  show "idempotency_replay d key oper h = idempotency_replay d' key oper h"
    unfolding idempotency_replay_def k ..
qed

lemma close_seed: "(seed_catalog t (d\<lparr> db_in_transaction := b \<rparr>)) = (seed_catalog t d)\<lparr> db_in_transaction := b \<rparr>"
  by (simp add: seed_catalog_def)

lemma close_store: "(store_idempotency k oper h r t d)\<lparr> db_in_transaction := b \<rparr> =
    store_idempotency k oper h r t (d\<lparr> db_in_transaction := b \<rparr>)"
  by (simp add: store_idempotency_def split: option.splits)

lemma close_audit: "(write_audit sid ev a p t d)\<lparr> db_in_transaction := b \<rparr> =
    write_audit sid ev a p t (d\<lparr> db_in_transaction := b \<rparr>)"
  by (simp add: write_audit_def)

lemma db_ok_closed: "db_ok d \<Longrightarrow> d\<lparr> db_in_transaction := False \<rparr> = d"
  by (simp add: db_ok_def)

lemma transition_body_ok:
  assumes ok: "db_ok d" and b: "transition_body sid oper key actor h t (d\<lparr> db_in_transaction := True \<rparr>) = Inr (d', r)"
  shows "db_ok (d'\<lparr> db_in_transaction := False \<rparr>)"
  using b
proof (cases rule: transition_body_cases)
  case replay
  then show ?thesis using ok db_ok_closed [OF ok] by simp
next
  case (fresh row ts joined d1)
  let ?o = "d\<lparr> db_in_transaction := True \<rparr>"
  have row: "row \<in> set (db_sessions ?o)" "s_id row = sid" using get_session_row_Inr [OF fresh(2)] by auto
  have "db_ok (?o\<lparr> db_in_transaction := False \<rparr>)" using ok db_ok_closed [OF ok] by simp
  from operated_ok [OF this row fresh(3), of actor "JObj []"]
  have "db_ok ((write_audit sid (event_of oper) actor (JObj []) t d1)\<lparr> db_in_transaction := False \<rparr>)" .
  moreover have "db_keys d1 = db_keys ?o" using apply_operation_Inr [OF fresh(3)] by simp
  ultimately show ?thesis unfolding fresh(6) close_store by (intro store_ok [OF _ fresh(1)]) simp_all
qed

lemma create_body_ok:
  assumes ok: "db_ok d" and spec: "spec_ok mode dur pits"
    and b: "create_body src mode dur pits key actor h t sid (d\<lparr> db_in_transaction := True \<rparr>) = Inr (d', r)"
  shows "db_ok (d'\<lparr> db_in_transaction := False \<rparr>)"
  using b
proof (cases rule: create_body_cases)
  case replay
  then show ?thesis using seed_catalog_ok [OF ok, of t] db_ok_closed
    by (simp add: close_seed)
next
  case (fresh srow row joined d1)
  let ?s = "seed_catalog t d"
  have ok': "db_ok ?s" by (rule seed_catalog_ok [OF ok])
  have d1: "d1\<lparr> db_in_transaction := False \<rparr> = ?s\<lparr> db_sessions := db_sessions ?s @ [row] \<rparr>"
    using ok by (simp add: fresh(14) close_seed db_ok_def)
  obtain p where d': "d' = store_idempotency key OpCreate h r t (write_audit sid ''created'' actor p t d1)"
    using fresh(17) by blast
  have "db_ok (write_audit (s_id row) ''created'' actor p t (?s\<lparr> db_sessions := db_sessions ?s @ [row] \<rparr>))"
  proof (rule created_ok [OF ok'])
    show "s_id row \<notin> set (map s_id (db_sessions ?s))" using fresh(4,5) by simp
    show "s_source_id row \<in> ts_id ` set (db_sources ?s)"
      using fresh(2,6) by (auto simp: close_seed)
    show "session_ok row" using fresh(7-13) spec by (simp add: session_ok_def)
  qed (rule fresh(7))
  then show ?thesis unfolding d' close_store close_audit d1
    by (intro store_ok [OF _ fresh(1)]) (simp_all add: fresh(5))
qed

lemma ensure_source_catalog_ok: "db_ok d \<Longrightarrow> db_ok (snd (ensure_source_catalog t d))"
  unfolding ensure_source_catalog_def
  by (rule write_transaction_cases [of "\<lambda>d. Inr (seed_catalog t d, TIMING_SOURCE_CATALOG)" d])
     (use seed_catalog_ok [of d t] db_ok_closed in \<open>auto simp: close_seed\<close>)

lemma transition_session_snd:
  "(snd (transition_session sha sid oper key actor t d) = d \<and>
     (\<exists>e. fst (transition_session sha sid oper key actor t d) = Inl e)) \<or>
   (\<exists>key' actor' r d'. transition_body sid oper key' actor' (sha (transition_request oper sid)) t
       (d\<lparr> db_in_transaction := True \<rparr>) = Inr (d', r) \<and> validate_idempotency_key key = Inr key' \<and>
       \<not> db_in_transaction d \<and>
       transition_session sha sid oper key actor t d = (Inr r, d'\<lparr> db_in_transaction := False \<rparr>))"
proof (cases "sid = []")
  case False
  show ?thesis
  proof (cases "validate_idempotency_key key")
    case (Inr key')
    show ?thesis
    proof (cases "validate_actor_kind actor")
      case (Inr actor')
      note I = \<open>validate_idempotency_key key = Inr key'\<close> Inr False
      let ?b = "transition_body sid oper key' actor' (sha (transition_request oper sid)) t"
      show ?thesis
      proof (rule write_transaction_cases [of ?b d])
        fix e assume "write_transaction ?b d = (Inl e, d)"
        then show ?thesis using I by (cases e) (simp_all add: transition_session_def)
      next
        fix d' r assume "?b (d\<lparr> db_in_transaction := True \<rparr>) = Inr (d', r)" "\<not> db_in_transaction d"
          "write_transaction ?b d = (Inr r, d'\<lparr> db_in_transaction := False \<rparr>)"
        then show ?thesis using I unfolding transition_session_def by simp blast
      qed
    qed (use Inr False in \<open>simp add: transition_session_def\<close>)
  qed (use False in \<open>simp add: transition_session_def\<close>)
qed (simp add: transition_session_def)

lemma create_session_snd:
  "(snd (create_session sha slug mode dur pits key actor t sid d) = d \<and>
     (\<exists>e. fst (create_session sha slug mode dur pits key actor t sid d) = Inl e)) \<or>
   (\<exists>src key' actor' r d'. create_body src mode dur pits key' actor' (sha (create_request src mode dur pits)) t sid
       (d\<lparr> db_in_transaction := True \<rparr>) = Inr (d', r) \<and> validate_idempotency_key key = Inr key' \<and>
       as_source slug = Inr src \<and> spec_ok mode dur pits \<and> \<not> db_in_transaction d \<and>
       create_session sha slug mode dur pits key actor t sid d = (Inr r, d'\<lparr> db_in_transaction := False \<rparr>))"
proof (cases "as_source slug")
  case (Inr src)
  show ?thesis
  proof (cases "validate_session_spec mode dur pits")
    case V: (Inr v)
    then have v: "v = (mode, dur, pits)" "spec_ok mode dur pits"
      using validate_session_spec_ok [of mode dur pits] by (cases v; auto)+
    show ?thesis
    proof (cases "validate_idempotency_key key")
      case K: (Inr key')
      show ?thesis
      proof (cases "validate_actor_kind actor")
        case A: (Inr actor')
        let ?b = "create_body src mode dur pits key' actor' (sha (create_request src mode dur pits)) t sid"
        have c: "create_session sha slug mode dur pits key actor t sid d = write_transaction ?b d"
          using Inr V v(1) K A by (simp add: create_session_def)
        show ?thesis
        proof (rule write_transaction_cases [of ?b d])
          fix e assume "write_transaction ?b d = (Inl e, d)"
          then show ?thesis unfolding c by simp
        next
          fix d' r assume "?b (d\<lparr> db_in_transaction := True \<rparr>) = Inr (d', r)" "\<not> db_in_transaction d"
            "write_transaction ?b d = (Inr r, d'\<lparr> db_in_transaction := False \<rparr>)"
          then show ?thesis using K Inr v(2) unfolding c by blast
        qed
      qed (use Inr V v K in \<open>simp add: create_session_def\<close>)
    qed (use Inr V v in \<open>simp add: create_session_def\<close>)
  qed (use Inr in \<open>simp add: create_session_def\<close>)
qed (simp add: create_session_def)

lemma exec_ok: "db_ok d \<Longrightarrow> db_ok (exec sha d c)"
proof (cases c)
  case (Create slug mode dur pits key actor t sid)
  then show "db_ok d \<Longrightarrow> ?thesis"
    using create_session_snd [of sha slug mode dur pits key actor t sid d] create_body_ok [of d mode dur pits]
    by (auto simp: exec_def)
next
  case (Transition oper sid key actor t)
  then show "db_ok d \<Longrightarrow> ?thesis"
    using transition_session_snd [of sha sid oper key actor t d] transition_body_ok [of d sid oper]
    by (auto simp: exec_def)
qed (simp add: exec_def ensure_source_catalog_ok)

lemma empty_db_ok: "db_ok empty_db"
  by (simp add: db_ok_def empty_db_def sources_ok_def active_index_ok_def)

interpretation lifecycle_machine: invariant_machine "exec sha" "\<lambda>d. d = empty_db" db_ok for sha
  by unfold_locales (auto intro: exec_ok empty_db_ok)

section \<open>Idempotency keys\<close>

lemma exec_keeps_keys:
  assumes "map_of (db_keys d) k = Some row" shows "map_of (db_keys (exec sha d c)) k = Some row"
proof -
  have st: "map_of (db_keys (store_idempotency key oper h r t d')) k = Some row"
    if "map_of (db_keys d') k = Some row" for key oper h r t d'
    using that by (cases key) (simp_all add: store_idempotency_def)
  have tr: "map_of (db_keys (snd (transition_session sha sid oper key actor t d))) k = Some row"
    for sid oper key actor t
    using transition_session_snd [of sha sid oper key actor t d]
  proof (elim disjE exE conjE)
    fix key' actor' r d'
    assume b: "transition_body sid oper key' actor' (sha (transition_request oper sid)) t
       (d\<lparr> db_in_transaction := True \<rparr>) = Inr (d', r)"
      and e: "transition_session sha sid oper key actor t d = (Inr r, d'\<lparr> db_in_transaction := False \<rparr>)"
    from b have "map_of (db_keys d') k = Some row"
    proof (cases rule: transition_body_cases)
      case (fresh row ts joined d1)
      then show ?thesis using apply_operation_Inr [OF fresh(3)] assms by (simp add: st)
    qed (use assms in simp)
    then show ?thesis by (simp add: e)
  qed (use assms in simp)
  have cr: "map_of (db_keys (snd (create_session sha slug mode dur pits key actor t sid d))) k = Some row"
    for slug mode dur pits sid key actor t
    using create_session_snd [of sha slug mode dur pits key actor t sid d]
  proof (elim disjE exE conjE)
    fix src key' actor' r d'
    assume b: "create_body src mode dur pits key' actor' (sha (create_request src mode dur pits)) t sid
       (d\<lparr> db_in_transaction := True \<rparr>) = Inr (d', r)"
      and e: "create_session sha slug mode dur pits key actor t sid d = (Inr r, d'\<lparr> db_in_transaction := False \<rparr>)"
    from b have "map_of (db_keys d') k = Some row"
    proof (cases rule: create_body_cases)
      case (fresh srow row joined d1)
      then show ?thesis using assms by (auto simp: st)
    qed (use assms in simp)
    then show ?thesis by (simp add: e)
  qed (use assms in simp)
  show ?thesis
    by (cases c) (use assms tr cr in \<open>auto simp: exec_def ensure_source_catalog_def write_transaction_def\<close>)
qed

lemma run_keeps_keys:
  "map_of (db_keys d) k = Some row \<Longrightarrow> map_of (db_keys (foldl (exec sha) d cs)) k = Some row"
  by (induction cs arbitrary: d) (auto intro: exec_keeps_keys)

lemma replay_of_stored:
  assumes "map_of (db_keys d) k =
    Some \<lparr> ik_operation = oper, ik_request_hash = h, ik_session_id = i, ik_result_json = result_as_dict r,
           ik_created_at_us = t \<rparr>"
  shows "idempotency_replay d (Some k) oper h = Inr (Some (r\<lparr> mr_replayed := True \<rparr>))"
  using assms by (simp add: idempotency_replay_def result_as_dict_def jget_def session_dict_lookup)

lemma replay_determined:
  assumes "idempotency_replay d (Some k) oper h = Inr (Some r)"
  obtains row where "map_of (db_keys d) k = Some row" "ik_operation row = oper" "ik_request_hash row = h"
    "mr_replayed r"
proof -
  obtain row where row: "map_of (db_keys d) k = Some row"
    using assms by (cases "map_of (db_keys d) k") (simp_all add: idempotency_replay_def)
  moreover have same: "ik_operation row = oper \<and> ik_request_hash row = h"
  proof (rule ccontr)
    assume "\<not> ?thesis"
    then show False using assms row by (auto simp: idempotency_replay_def)
  qed
  moreover have "mr_replayed r"
    using assms row same
    by (auto simp: idempotency_replay_def split: json.splits option.splits)
  ultimately show ?thesis using that by blast
qed

text \<open>After a success under a key, the table holds the request and replays its result.\<close>

lemma transition_success_stored:
  assumes "transition_session sha sid oper (Some k) actor t d = (Inr r, d')"
  shows "sid \<noteq> [] \<and> validate_idempotency_key (Some k) = Inr (Some k) \<and> \<not> db_in_transaction d' \<and>
    (\<exists>row. map_of (db_keys d') k = Some row \<and> ik_operation row = oper \<and>
       ik_request_hash row = sha (transition_request oper sid)) \<and>
    idempotency_replay d' (Some k) oper (sha (transition_request oper sid)) = Inr (Some (r\<lparr> mr_replayed := True \<rparr>))"
proof -
  let ?h = "sha (transition_request oper sid)"
  have ne: "sid \<noteq> []" using assms by (auto simp: transition_session_def)
  obtain key' where key: "validate_idempotency_key (Some k) = Inr key'"
    using assms ne by (cases "validate_idempotency_key (Some k)") (simp_all add: transition_session_def)
  have key': "key' = Some k" using key by (simp add: validate_idempotency_key_def split: if_splits)
  obtain actor' where actor: "validate_actor_kind actor = Inr actor'"
    using assms ne key by (cases "validate_actor_kind actor") (simp_all add: transition_session_def)
  let ?b = "transition_body sid oper (Some k) actor' ?h t"
  obtain d1 where b: "?b (d\<lparr> db_in_transaction := True \<rparr>) = Inr (d1, r)"
    and d': "d' = d1\<lparr> db_in_transaction := False \<rparr>"
  proof (rule write_transaction_cases [of ?b d])
    fix e assume "write_transaction ?b d = (Inl e, d)"
    then have False using assms ne key key' actor
      by (cases e) (auto simp: transition_session_def split: if_splits)
    then show ?thesis ..
  next
    fix d1 r1 assume "?b (d\<lparr> db_in_transaction := True \<rparr>) = Inr (d1, r1)"
      "write_transaction ?b d = (Inr r1, d1\<lparr> db_in_transaction := False \<rparr>)"
    then show ?thesis using assms ne key key' actor that by (simp add: transition_session_def)
  qed
  have cong: "idempotency_replay d' = idempotency_replay d1" by (rule idempotency_replay_cong) (simp add: d')
  from b have "(\<exists>row. map_of (db_keys d1) k = Some row \<and> ik_operation row = oper \<and> ik_request_hash row = ?h) \<and>
    idempotency_replay d1 (Some k) oper ?h = Inr (Some (r\<lparr> mr_replayed := True \<rparr>))"
  proof (cases rule: transition_body_cases)
    case replay
    then have "idempotency_replay d1 (Some k) oper ?h = Inr (Some r)" by simp
    moreover from this have "r\<lparr> mr_replayed := True \<rparr> = r" by (elim replay_determined) simp
    ultimately show ?thesis by (metis replay_determined)
  next
    case (fresh row ts joined d2)
    have "k \<notin> fst ` set (db_keys d2)"
      using replay_None_key [OF fresh(1)] apply_operation_Inr [OF fresh(3)] by simp
    then have "map_of (db_keys d1) k = Some \<lparr> ik_operation = oper, ik_request_hash = ?h,
        ik_session_id = as_id (mr_session r), ik_result_json = result_as_dict r, ik_created_at_us = t \<rparr>"
      by (simp add: fresh(6) store_idempotency_def map_add_def map_of_eq_None_iff [symmetric]
          split: option.splits)
    then show ?thesis using replay_of_stored by simp
  qed
  then show ?thesis using ne key key' unfolding cong by (auto simp: d')
qed

lemma transition_replays:
  assumes "sid \<noteq> []" "validate_idempotency_key (Some k) = Inr (Some k)" "validate_actor_kind actor = Inr actor'"
    "\<not> db_in_transaction d"
    "idempotency_replay d (Some k) oper (sha (transition_request oper sid)) = Inr (Some r)"
  shows "transition_session sha sid oper (Some k) actor t d = (Inr r, d)"
proof -
  have "idempotency_replay (d\<lparr> db_in_transaction := True \<rparr>) = idempotency_replay d"
    by (rule idempotency_replay_cong) simp
  moreover have "(d\<lparr> db_in_transaction := True \<rparr>)\<lparr> db_in_transaction := False \<rparr> = d" using assms(4) by simp
  ultimately show ?thesis using assms
    by (simp add: transition_session_def write_transaction_def transition_body_def)
qed

lemma run_closed: "\<not> db_in_transaction d \<Longrightarrow> \<not> db_in_transaction (foldl (exec sha) d cs)"
proof (induction cs arbitrary: d)
  case (Cons c cs)
  have "\<not> db_in_transaction (exec sha d c)"
  proof (cases c)
    case (Create slug mode dur pits key actor t sid)
    then show ?thesis using Cons.prems create_session_snd [of sha slug mode dur pits key actor t sid d]
      by (auto simp: exec_def)
  next
    case (Transition oper sid key actor t)
    then show ?thesis using Cons.prems transition_session_snd [of sha sid oper key actor t d]
      by (auto simp: exec_def)
  qed (simp add: exec_def ensure_source_catalog_def write_transaction_def Cons.prems)
  then show ?case using Cons.IH by simp
qed simp

lemma idempotency_replay_lookup:
  "map_of (db_keys d) k = map_of (db_keys d') k \<Longrightarrow> idempotency_replay d (Some k) oper h = idempotency_replay d' (Some k) oper h"
  unfolding idempotency_replay_def by simp

section \<open>Properties\<close>

lemma distinct_filter_at_most_one: "distinct (map f xs) \<Longrightarrow> length (filter (\<lambda>x. f x = a) xs) \<le> 1"
  by (induction xs) (auto simp: filter_empty_conv image_iff)

text \<open>Example data: a source, a race session on it, and its start.\<close>

abbreviation demo_sha :: "json \<Rightarrow> string" where
  "demo_sha j \<equiv> (case j of JObj ((k, JStr x) # _) \<Rightarrow> x | _ \<Rightarrow> [])"

definition demo_commands :: "command list" where
  "demo_commands = [Create ''igora'' ''race'' (Some 14400) (Some 3) (Some ''k0'') None 100 ''s1'']"

definition demo_db :: db where
  "demo_db = \<lparr> db_sources = fold (seed_source 100) TIMING_SOURCE_CATALOG [],
     db_sessions = [\<lparr> s_id = ''s1'', s_source_id = 1, s_mode = ''race'',
          s_lifecycle = Draft, s_race_duration_s = Some 14400,
          s_required_pits = Some 3, s_our_participant_id = None, s_our_class = None,
          s_identity_state = ''pending'', s_started_at_us = None, s_stopped_at_us = None,
          s_stop_intent = None, s_timezone_name = ''Europe/Moscow'',
          s_created_at_us = 100, s_updated_at_us = 100 \<rparr>],
     db_keys = db_keys (foldl (exec demo_sha) empty_db demo_commands),
     db_audit = db_audit (foldl (exec demo_sha) empty_db demo_commands), db_in_transaction = False \<rparr>"

lemma demo_db_reached: "foldl (exec demo_sha) empty_db demo_commands = demo_db"
  by code_simp

lemma demo_db_ok: "db_ok demo_db"
  using lifecycle_machine.reachable_inv [of empty_db demo_sha demo_commands] demo_db_reached by simp

text \<open>C1. After any sequence of catalogue seedings, creations, starts, stops and aborts,
  whatever their keys, clocks and identifiers, a source has at most one active session.\<close>
theorem one_active_session_per_source:
  "length (filter (\<lambda>s. s_source_id s = source_id \<and> s_lifecycle s = Active)
     (db_sessions (foldl (exec sha) empty_db commands))) \<le> 1"
proof -
  let ?d = "foldl (exec sha) empty_db commands"
  have "db_ok ?d" by (rule lifecycle_machine.reachable_inv) simp
  then have "distinct (map s_source_id (filter (\<lambda>s. s_lifecycle s = Active) (db_sessions ?d)))"
    by (simp add: db_ok_def active_index_ok_def)
  from distinct_filter_at_most_one [OF this, of source_id] show ?thesis by (simp add: conj_commute)
qed

text \<open>C18. In every reachable state, the audit events of a session are exactly a path of the
  lifecycle automaton to its current state, and its timestamps, stop intent, duration and
  pit requirement fit that state and its mode.\<close>
theorem audit_trail_matches_lifecycle:
  assumes "find (\<lambda>s. s_id s = session_id) (db_sessions (foldl (exec sha) empty_db commands)) = Some s"
  shows "lc_history (session_events (foldl (exec sha) empty_db commands) session_id) (s_lifecycle s) \<and>
    times_ok (s_lifecycle s) (s_started_at_us s) (s_stopped_at_us s) (s_stop_intent s) \<and>
    spec_ok (s_mode s) (s_race_duration_s s) (s_required_pits s)"
proof -
  have "db_ok (foldl (exec sha) empty_db commands)" by (rule lifecycle_machine.reachable_inv) simp
  moreover have "s \<in> set (db_sessions (foldl (exec sha) empty_db commands))" "s_id s = session_id"
    using assms by (auto simp: find_Some_iff)
  ultimately show ?thesis by (auto simp: db_ok_def session_ok_def)
qed

theorem audit_trail_matches_lifecycle_witness: "lc_history (session_events demo_db ''s1'') Draft"
proof -
  have "\<exists>s. find (\<lambda>s. s_id s = ''s1'') (db_sessions (foldl (exec demo_sha) empty_db demo_commands)) = Some s \<and>
      s_lifecycle s = Draft"
    unfolding demo_db_reached by (simp add: demo_db_def)
  then show ?thesis using audit_trail_matches_lifecycle [of "''s1''" demo_sha demo_commands] demo_db_reached by auto
qed

text \<open>A rejected operation leaves the database exactly as it was: the transaction rolls
  back the audit record, the idempotency key, the session row and the catalogue upsert.\<close>
theorem rejected_operation_changes_nothing:
  assumes "fst (create_session sha slug mode dur pits key actor t sid d) = Inl e"
    and "fst (transition_session sha' sid' oper key' actor' t' d') = Inl e'"
  shows "snd (create_session sha slug mode dur pits key actor t sid d) = d \<and>
    snd (transition_session sha' sid' oper key' actor' t' d') = d'"
  using assms create_session_snd [of sha slug mode dur pits key actor t sid d]
    transition_session_snd [of sha' sid' oper key' actor' t' d'] by auto

theorem rejected_operation_changes_nothing_witness:
  "snd (create_session demo_sha ''nowhere'' ''race'' None None None None 5 ''s2'' demo_db) = demo_db \<and>
   snd (transition_session demo_sha ''s1'' OpStop None None 7 demo_db) = demo_db"
proof (rule rejected_operation_changes_nothing)
  show "fst (create_session demo_sha ''nowhere'' ''race'' None None None None 5 ''s2'' demo_db) = Inl UnknownSourceError"
    by code_simp
  show "fst (transition_session demo_sha ''s1'' OpStop None None 7 demo_db) = Inl (TransitionError OpStop Draft)"
    by code_simp
qed

lemma transition_session_unkeyed:
  assumes "sid \<noteq> []" "validate_actor_kind actor = Inr actor'" "\<not> db_in_transaction d"
    "get_session_row d sid = Inr (row, ts)"
  shows "isl (fst (transition_session sha sid oper None actor t d)) \<longleftrightarrow>
    isl (apply_operation oper sid t row (d\<lparr> db_in_transaction := True \<rparr>)) \<or>
    (\<exists>d1 ev e. apply_operation oper sid t row (d\<lparr> db_in_transaction := True \<rparr>) = Inr (d1, ev) \<and>
       get_session_row d1 sid = Inl e)"
proof -
  let ?o = "d\<lparr> db_in_transaction := True \<rparr>"
  have g: "get_session_row ?o sid = Inr (row, ts)"
    using assms(4) by (simp add: get_session_row_def session_select_def)
  have k: "validate_idempotency_key None = Inr None" by (simp add: validate_idempotency_key_def)
  have r: "idempotency_replay ?o None oper h = Inr None" for h by (simp add: idempotency_replay_def)
  let ?b = "transition_body sid oper None actor' (sha (transition_request oper sid)) t"
  have s: "isl (fst (transition_session sha sid oper None actor t d)) \<longleftrightarrow> isl (?b ?o)"
    using assms k by (cases "?b ?o")
      (auto simp: transition_session_def write_transaction_def split: lifecycle_error.splits)
  show ?thesis unfolding s
  proof (cases "apply_operation oper sid t row ?o")
    case (Inr p)
    obtain d1 ev where p: "p = (d1, ev)" by (cases p)
    show "isl (?b ?o) \<longleftrightarrow> isl (apply_operation oper sid t row ?o) \<or> (\<exists>d1 ev e.
       apply_operation oper sid t row ?o = Inr (d1, ev) \<and> get_session_row d1 sid = Inl e)"
      using g r Inr p by (cases "get_session_row d1 sid") (simp_all add: transition_body_def Let_def)
  qed (simp add: transition_body_def g r)
qed


lemma find_active_None:
  "find (\<lambda>s. s_source_id s = k \<and> s_lifecycle s = Active) ss = None \<longleftrightarrow>
   (\<forall>s \<in> set ss. s_source_id s = k \<longrightarrow> s_lifecycle s \<noteq> Active)"
  by (auto simp: find_None_iff)

lemma start_keeps_index:
  assumes "distinct (map s_id ss)" "row \<in> set ss" "s_lifecycle row = Draft"
    "distinct (map s_source_id (filter (\<lambda>s. s_lifecycle s = Active) ss))"
    "\<forall>s \<in> set ss. s_source_id s = s_source_id row \<longrightarrow> s_lifecycle s \<noteq> Active"
  shows "distinct (map s_source_id (filter (\<lambda>s. s_lifecycle s = Active)
    (map (\<lambda>s. if s_id s = s_id row then start_row t s else s) ss)))"
  using assms
proof (induction ss)
  case (Cons s ss)
  show ?case
  proof (cases "s_id s = s_id row")
    case True
    then have s: "s = row" using Cons.prems(1,2) by (metis distinct.simps(2) image_eqI list.simps(9) set_ConsD set_map)
    have "s_id x \<noteq> s_id row" if "x \<in> set ss" for x using that Cons.prems(1) s by (auto simp: image_iff)
    then have "map (\<lambda>s. if s_id s = s_id row then start_row t s else s) ss = ss"
      by (simp add: map_idI)
    then show ?thesis using Cons.prems s by (auto simp: start_row_def)
  next
    case False
    then have "row \<in> set ss" using Cons.prems(2) by auto
    then have ih: "distinct (map s_source_id (filter (\<lambda>s. s_lifecycle s = Active)
        (map (\<lambda>s. if s_id s = s_id row then start_row t s else s) ss)))"
      using Cons by (auto split: if_splits)
    have "s_source_id s \<notin> s_source_id ` set (filter (\<lambda>s. s_lifecycle s = Active)
        (map (\<lambda>s. if s_id s = s_id row then start_row t s else s) ss))" if a: "s_lifecycle s = Active"
    proof
      assume "s_source_id s \<in> s_source_id ` set (filter (\<lambda>s. s_lifecycle s = Active)
        (map (\<lambda>s. if s_id s = s_id row then start_row t s else s) ss))"
      then obtain x where x: "x \<in> set ss" "s_source_id s = s_source_id x"
        "s_id x = s_id row \<or> s_lifecycle x = Active"
        by (auto simp: start_row_def split: if_splits)
      show False
      proof (cases "s_id x = s_id row")
        case True
        then have "x = row" using x(1) \<open>row \<in> set ss\<close> Cons.prems(1) by (auto simp: distinct_map inj_on_def)
        then show False using Cons.prems(5) a x(2) by auto
      next
        case False
        then have "x \<in> set (filter (\<lambda>s. s_lifecycle s = Active) ss)" using x by auto
        then show False using Cons.prems(4) a x(2) by (auto simp: image_iff)
      qed
    qed
    then show ?thesis using ih False by auto
  qed
qed simp

lemma get_session_row_ok:
  assumes "db_ok d" "s \<in> set (db_sessions d)"
  obtains ts where "get_session_row d (s_id s) = Inr (s, ts)"
proof -
  obtain ts where "ts \<in> set (db_sources d)" "ts_id ts = s_source_id s"
    using assms unfolding db_ok_def by (metis image_iff)
  then obtain row ts' where g: "get_session_row d (s_id s) = Inr (row, ts')"
    using get_session_row_some [OF assms(2)] by blast
  have "row = s" using get_session_row_Inr [OF g] assms by (auto simp: db_ok_def distinct_map inj_on_def)
  then show ?thesis using that g by simp
qed

lemma get_session_row_updated:
  assumes "db_ok d" "s \<in> set (db_sessions d)"
  shows "\<exists>x. get_session_row (update_session (s_id s) (op_row oper t) (d\<lparr> db_in_transaction := b \<rparr>)) (s_id s) = Inr x"
proof -
  obtain ts where ts: "ts \<in> set (db_sources d)" "ts_id ts = s_source_id s"
    using assms unfolding db_ok_def by (metis image_iff)
  let ?d = "update_session (s_id s) (op_row oper t) (d\<lparr> db_in_transaction := b \<rparr>)"
  have "op_row oper t s \<in> set (db_sessions ?d)" using assms(2) by (force simp: update_session_def)
  from get_session_row_some [OF this, of ts] show ?thesis using ts by auto
qed

lemma apply_operation_accepts:
  assumes "db_ok d" "s \<in> set (db_sessions d)"
  shows "\<not> isl (apply_operation oper (s_id s) t s (d\<lparr> db_in_transaction := True \<rparr>)) \<longleftrightarrow>
    (\<exists>l'. lc_step (s_lifecycle s) oper l') \<and>
    (oper = OpStart \<longrightarrow> (\<forall>x \<in> set (db_sessions d). s_source_id x = s_source_id s \<longrightarrow> s_lifecycle x \<noteq> Active))"
proof (cases oper)
  case OpStart
  have idx: "active_index_ok (update_session (s_id s) (start_row t) (d\<lparr> db_in_transaction := True \<rparr>))"
    if "s_lifecycle s = Draft" "\<forall>x \<in> set (db_sessions d). s_source_id x = s_source_id s \<longrightarrow> s_lifecycle x \<noteq> Active"
    using start_keeps_index [OF _ assms(2) that(1) _ that(2), of t] assms(1)
    by (simp add: db_ok_def active_index_ok_def update_session_def)
  show ?thesis
  proof (cases "s_lifecycle s = Draft \<and> find (\<lambda>x. s_source_id x = s_source_id s \<and> s_lifecycle x = Active) (db_sessions d) = None")
    case True
    then show ?thesis using idx OpStart find_active_None
      by (auto simp: apply_operation_def intro: lc_step.intros)
  next
    case False
    then have "\<not> (s_lifecycle s = Draft \<and> (\<forall>x \<in> set (db_sessions d). s_source_id x = s_source_id s \<longrightarrow> s_lifecycle x \<noteq> Active))"
      using find_active_None by blast
    moreover have "isl (apply_operation oper (s_id s) t s (d\<lparr> db_in_transaction := True \<rparr>))"
      using False OpStart by (auto simp: apply_operation_def)
    ultimately show ?thesis using OpStart by blast
  qed
next
  case OpStop
  then show ?thesis by (cases "s_lifecycle s") (auto simp: apply_operation_def intro: lc_step.intros)
next
  case OpAbort
  then show ?thesis by (cases "s_lifecycle s") (auto simp: apply_operation_def intro: lc_step.intros)
qed (auto simp: apply_operation_def)

text \<open>On well-formed tables a start, stop or abort with a valid key that has no stored
  request is accepted exactly when the lifecycle automaton allows it from the session's
  state and, for a start, the source has no active session.\<close>
theorem transition_accepted_iff:
  assumes "db_ok d" "s \<in> set (db_sessions d)" "s_id s \<noteq> []" "validate_actor_kind actor = Inr actor'"
  shows "\<not> isl (fst (transition_session sha (s_id s) oper None actor t d)) \<longleftrightarrow>
    (\<exists>l'. lc_step (s_lifecycle s) oper l') \<and>
    (oper = OpStart \<longrightarrow> (\<forall>x \<in> set (db_sessions d). s_source_id x = s_source_id s \<longrightarrow> s_lifecycle x \<noteq> Active))"
proof -
  obtain ts where g: "get_session_row d (s_id s) = Inr (s, ts)"
    using get_session_row_ok assms(1,2) by blast
  have "get_session_row d1 (s_id s) \<noteq> Inl e"
    if "apply_operation oper (s_id s) t s (d\<lparr> db_in_transaction := True \<rparr>) = Inr (d1, ev)" for d1 ev e
    using get_session_row_updated [OF assms(1,2), of oper t True] apply_operation_Inr [OF that] by auto
  then show ?thesis
    using transition_session_unkeyed [OF assms(3,4) _ g, of sha oper t] apply_operation_accepts [OF assms(1,2), of oper t]
      assms(1) by (auto simp: db_ok_def)
qed

theorem transition_accepted_iff_witness:
  "\<not> isl (fst (transition_session demo_sha ''s1'' OpStart None None 200 demo_db))"
proof -
  let ?s = "hd (db_sessions demo_db)"
  have s: "?s \<in> set (db_sessions demo_db)" "s_id ?s = ''s1''" "s_lifecycle ?s = Draft"
    by (simp_all add: demo_db_def)
  have "validate_actor_kind None = Inr DEFAULT_ACTOR_KIND" by code_simp
  then show ?thesis
    using transition_accepted_iff [OF demo_db_ok s(1), of None _ demo_sha OpStart 200] s
    by (auto simp: demo_db_def intro: lc_step.intros)
qed

lemma replayed_result:
  assumes "idempotency_replay d key oper h = Inr (Some r)"
  obtains k row where "key = Some k" "map_of (db_keys d) k = Some row" "ik_operation row = oper" "ik_request_hash row = h" "mr_replayed r"
  using assms by (auto simp: idempotency_replay_def split: option.splits if_splits json.splits)

text \<open>C24. An accepted start, stop or abort, with or without an idempotency key, either takes the
  automaton's step on the addressed session and on no other - it reports the session as it is stored,
  appends one audit event, remembers a given key with the request, and leaves the sources and the
  identity of every row alone - or it is marked as replayed: then its key was stored by the same
  operation with the same request, and nothing changes.\<close>
theorem accepted_transition_refines_automaton:
  assumes "db_ok d" and "transition_session sha sid oper key actor t d = (Inr r, d')"
  shows "if mr_replayed r
    then d' = d \<and> (\<exists>k row. validate_idempotency_key key = Inr (Some k) \<and> map_of (db_keys d) k = Some row \<and>
      ik_operation row = oper \<and> ik_request_hash row = sha (transition_request oper sid))
    else \<exists>s \<in> set (db_sessions d). s_id s = sid \<and>
      lc_step (s_lifecycle s) oper (as_lifecycle (mr_session r)) \<and>
      db_sessions d' = map (\<lambda>x. if s_id x = sid then op_row oper t x else x) (db_sessions d) \<and>
      get_session d' sid = Inr (mr_session r) \<and>
      db_sources d' = db_sources d \<and>
      (\<exists>stored. validate_idempotency_key key = Inr stored \<and> map fst (db_keys d') = map fst (db_keys d) @ (case stored of None \<Rightarrow> [] | Some k \<Rightarrow> [k])) \<and>
      session_events d' sid = session_events d sid @ [event_of oper] \<and> db_ok d'"
proof -
  obtain key' actor' d1 where b: "transition_body sid oper key' actor' (sha (transition_request oper sid)) t
       (d\<lparr> db_in_transaction := True \<rparr>) = Inr (d1, r)" and k: "validate_idempotency_key key = Inr key'"
    and d': "d' = d1\<lparr> db_in_transaction := False \<rparr>" and nt: "\<not> db_in_transaction d"
    using transition_session_snd [of sha sid oper key actor t d] assms(2) by auto
  have ok: "db_ok d'" unfolding d' by (rule transition_body_ok [OF assms(1) b])
  have sid: "sid \<noteq> []" using assms(2) by (auto simp: transition_session_def)
  from b show ?thesis
  proof (cases rule: transition_body_cases)
    case replay
    obtain k' row where r: "key' = Some k'" "map_of (db_keys d) k' = Some row" "ik_operation row = oper"
        "ik_request_hash row = sha (transition_request oper sid)" "mr_replayed r"
      by (rule replayed_result [OF replay(1)]) simp
    have "d' = d" using nt by (simp add: d' replay(2))
    then show ?thesis using r k by simp
  next
    case (fresh row ts joined d2)
    note A = apply_operation_Inr [OF fresh(3)]
    obtain row' ts' where j: "joined = (row', ts')" by (cases joined)
    have row: "row \<in> set (db_sessions d)" "s_id row = sid" using get_session_row_Inr [OF fresh(2)] by auto
    have d2: "db_sessions d2 = map (\<lambda>x. if s_id x = sid then op_row oper t x else x) (db_sessions d)"
      "db_sources d2 = db_sources d" "db_keys d2 = db_keys d" "db_audit d2 = db_audit d"
      using A by (simp_all add: update_session_def)
    have d1: "db_sessions d1 = db_sessions d2" "db_sources d1 = db_sources d2"
      "map fst (db_keys d1) = map fst (db_keys d2) @ (case key' of None \<Rightarrow> [] | Some k \<Rightarrow> [k])"
      using fresh(6) by (simp_all add: store_idempotency_def write_audit_def split: option.splits)
    have ev: "session_events d' sid = session_events d sid @ [event_of oper]"
      using fresh(6) d2(4) by (simp add: d' store_idempotency_def write_audit_def session_events_def split: option.splits)
    have "row' \<in> set (db_sessions d2)" "s_id row' = sid"
      using get_session_row_Inr fresh(4) unfolding j by blast+
    then obtain x where x: "x \<in> set (db_sessions d)" "row' = (if s_id x = sid then op_row oper t x else x)"
      unfolding d2 set_map by blast
    have "x = row" using x \<open>s_id row' = sid\<close> row assms(1)
      by (auto simp: db_ok_def distinct_map inj_on_def split: if_splits)
    then have r: "row' = op_row oper t row" using x(2) row(2) by simp
    have "get_session_row d' sid = get_session_row d2 sid"
      by (simp add: d' get_session_row_def session_select_def d1)
    then have get: "get_session d' sid = Inr (mr_session r)"
      using sid fresh(4) by (simp add: get_session_def fresh(5))
    have step: "lc_step (s_lifecycle row) oper (as_lifecycle (mr_session r))"
      using A r j by (simp add: fresh(5) row_to_session_def)
    have "db_sessions d' = map (\<lambda>x. if s_id x = sid then op_row oper t x else x) (db_sessions d)"
      "db_sources d' = db_sources d" "map fst (db_keys d') = map fst (db_keys d) @ (case key' of None \<Rightarrow> [] | Some k \<Rightarrow> [k])"
      using d1 d2 by (simp_all add: d')
    then have "\<exists>s \<in> set (db_sessions d). s_id s = sid \<and> lc_step (s_lifecycle s) oper (as_lifecycle (mr_session r)) \<and>
      db_sessions d' = map (\<lambda>x. if s_id x = sid then op_row oper t x else x) (db_sessions d) \<and>
      get_session d' sid = Inr (mr_session r) \<and> db_sources d' = db_sources d \<and>
      (\<exists>stored. validate_idempotency_key key = Inr stored \<and> map fst (db_keys d') = map fst (db_keys d) @ (case stored of None \<Rightarrow> [] | Some k \<Rightarrow> [k])) \<and>
      session_events d' sid = session_events d sid @ [event_of oper] \<and> db_ok d'"
      using row get step ev ok k by blast
    moreover have "\<not> mr_replayed r" by (simp add: fresh(5))
    ultimately show ?thesis by simp
  qed
qed

theorem accepted_transition_refines_automaton_witness:
  "\<exists>r d'. transition_session demo_sha ''s1'' OpStart (Some ''k1'') None 200 demo_db = (Inr r, d') \<and>
     get_session d' ''s1'' = Inr (mr_session r) \<and> map fst (db_keys d') = [''k0'', ''k1''] \<and> db_ok d'"
proof -
  have "\<not> isl (fst (transition_session demo_sha ''s1'' OpStart (Some ''k1'') None 200 demo_db)) \<and>
      \<not> mr_replayed (projr (fst (transition_session demo_sha ''s1'' OpStart (Some ''k1'') None 200 demo_db))) \<and>
      map fst (db_keys demo_db) = [''k0''] \<and> validate_idempotency_key (Some ''k1'') = Inr (Some ''k1'')" by code_simp
  then obtain r d' where e: "transition_session demo_sha ''s1'' OpStart (Some ''k1'') None 200 demo_db = (Inr r, d')"
      "\<not> mr_replayed r" "map fst (db_keys demo_db) = [''k0'']" "validate_idempotency_key (Some ''k1'') = Inr (Some ''k1'')"
    by (metis isl_def prod.collapse sum.exhaust_sel)
  then show ?thesis using accepted_transition_refines_automaton [OF demo_db_ok e(1)] by auto
qed

text \<open>C20. A start, stop or abort that succeeded under an idempotency key can be retried any
  time later, by any valid actor and after any other commands: it returns the first result,
  marked as replayed, and changes nothing.\<close>
theorem retried_transition_replays:
  assumes "transition_session sha sid oper (Some k) actor t d = (Inr r, d')"
    and "validate_actor_kind actor2 = Inr actor3"
  shows "transition_session sha sid oper (Some k) actor2 t2 (foldl (exec sha) d' commands) =
    (Inr (r\<lparr> mr_replayed := True \<rparr>), foldl (exec sha) d' commands)"
proof -
  let ?d = "foldl (exec sha) d' commands"
  note S = transition_success_stored [OF assms(1)]
  then obtain row where row: "map_of (db_keys d') k = Some row" by blast
  then have "map_of (db_keys ?d) k = map_of (db_keys d') k" using run_keeps_keys [OF row] by simp
  then have "idempotency_replay ?d (Some k) oper (sha (transition_request oper sid)) =
      Inr (Some (r\<lparr> mr_replayed := True \<rparr>))"
    using S idempotency_replay_lookup by metis
  then show ?thesis using S assms(2) run_closed by (intro transition_replays) auto
qed

theorem retried_transition_replays_witness:
  "\<exists>r d'. transition_session demo_sha ''s1'' OpStart (Some ''k1'') None 200 demo_db = (Inr r, d') \<and>
     transition_session demo_sha ''s1'' OpStart (Some ''k1'') (Some ''system'') 900
       (foldl (exec demo_sha) d' [Transition OpStop ''s1'' None None 300]) =
     (Inr (r\<lparr> mr_replayed := True \<rparr>), foldl (exec demo_sha) d' [Transition OpStop ''s1'' None None 300])"
proof -
  have "\<not> isl (fst (transition_session demo_sha ''s1'' OpStart (Some ''k1'') None 200 demo_db))" by code_simp
  then obtain r d' where e: "transition_session demo_sha ''s1'' OpStart (Some ''k1'') None 200 demo_db = (Inr r, d')"
    by (metis isl_def prod.collapse sum.exhaust_sel)
  have "validate_actor_kind (Some ''system'') = Inr ''system''" by code_simp
  from retried_transition_replays [OF e this] show ?thesis using e by blast
qed

text \<open>A key that has served one transition rejects every other one: a different operation,
  or a different request body, is an idempotency conflict, whenever it comes, and changes
  nothing.\<close>
theorem reused_key_conflicts:
  assumes "transition_session sha sid oper (Some k) actor t d = (Inr r, d')"
    and "oper2 \<noteq> oper \<or> sha (transition_request oper2 sid2) \<noteq> sha (transition_request oper sid)"
    and "validate_actor_kind actor2 = Inr actor3" "sid2 \<noteq> []"
  shows "transition_session sha sid2 oper2 (Some k) actor2 t2 (foldl (exec sha) d' commands) =
    (Inl IdempotencyConflict, foldl (exec sha) d' commands)"
proof -
  let ?d = "foldl (exec sha) d' commands"
  note S = transition_success_stored [OF assms(1)]
  then obtain row where row: "map_of (db_keys d') k = Some row" "ik_operation row = oper"
    "ik_request_hash row = sha (transition_request oper sid)" by blast
  have "map_of (db_keys (?d\<lparr> db_in_transaction := True \<rparr>)) k = Some row" using run_keeps_keys [OF row(1)] by simp
  then have "idempotency_replay (?d\<lparr> db_in_transaction := True \<rparr>) (Some k) oper2 (sha (transition_request oper2 sid2)) =
      Inl IdempotencyConflict"
    using row assms(2) by (auto simp: idempotency_replay_def)
  moreover have "\<not> db_in_transaction ?d" using S run_closed by blast
  ultimately show ?thesis using S assms(3,4)
    by (simp add: transition_session_def write_transaction_def transition_body_def)
qed

theorem reused_key_conflicts_witness:
  "\<exists>d'. transition_session demo_sha ''s1'' OpStop (Some ''k1'') None 300 d' = (Inl IdempotencyConflict, d')"
proof -
  have "\<not> isl (fst (transition_session demo_sha ''s1'' OpStart (Some ''k1'') None 200 demo_db))" by code_simp
  then obtain r d' where e: "transition_session demo_sha ''s1'' OpStart (Some ''k1'') None 200 demo_db = (Inr r, d')"
    by (metis isl_def prod.collapse sum.exhaust_sel)
  have "validate_actor_kind None = Inr DEFAULT_ACTOR_KIND" by code_simp
  from reused_key_conflicts [OF e _ this, of OpStop "''s1''" 300 "[]"] show ?thesis by auto
qed

lemma catalog_seeded:
  assumes "src \<in> set TIMING_SOURCE_CATALOG"
  shows "src_slug src \<in> set (map ts_slug (db_sources (seed_catalog t d)))"
proof -
  have keep: "x \<in> set (map ts_slug rows) \<Longrightarrow> x \<in> set (map ts_slug (fold (seed_source t) srcs rows))" for x srcs rows
  proof (induction srcs arbitrary: rows)
    case (Cons s srcs)
    have "x \<in> set (map ts_slug (seed_source t s rows))"
      using Cons.prems unfolding seed_source_slugs by auto
    then show ?case using Cons.IH by simp
  qed simp
  have "src_slug src \<in> set (map ts_slug (fold (seed_source t) srcs rows))" if "src \<in> set srcs" for srcs rows
    using that
  proof (induction srcs arbitrary: rows)
    case (Cons s srcs)
    show ?case
    proof (cases "src = s")
      case True
      have "src_slug s \<in> set (map ts_slug (seed_source t s rows))" unfolding seed_source_slugs by auto
      then show ?thesis using keep True by simp
    next
      case False
      then show ?thesis using Cons by simp
    qed
  qed simp
  then show ?thesis using assms by (simp add: seed_catalog_def)
qed

lemma as_source_Inr: "as_source slug = Inr src \<Longrightarrow> src \<in> set TIMING_SOURCE_CATALOG \<and> src_slug src = slug"
  by (auto simp: as_source_def find_Some_iff in_set_conv_nth split: option.splits)

lemma as_source_isl: "isl (as_source slug) \<longleftrightarrow> slug \<notin> src_slug ` set TIMING_SOURCE_CATALOG"
proof (cases "find (\<lambda>s. src_slug s = slug) TIMING_SOURCE_CATALOG")
  case None
  then have "slug \<notin> src_slug ` set TIMING_SOURCE_CATALOG" by (auto simp: find_None_iff)
  then show ?thesis using None by (simp add: as_source_def)
next
  case (Some src)
  then have "src \<in> set TIMING_SOURCE_CATALOG" "src_slug src = slug"
    using as_source_Inr [of slug src] by (simp_all add: as_source_def)
  then show ?thesis using Some by (auto simp: as_source_def)
qed

lemma create_body_succeeds:
  assumes ok: "db_ok d" and src: "src \<in> set TIMING_SOURCE_CATALOG"
    and new: "sid \<notin> set (map s_id (db_sessions d))"
  shows "\<exists>d' r. create_body src mode dur pits None actor h t sid (d\<lparr> db_in_transaction := True \<rparr>) = Inr (d', r) \<and>
    as_id (mr_session r) = sid \<and> as_source_slug (mr_session r) = src_slug src \<and>
    as_lifecycle (mr_session r) = Draft \<and> as_mode (mr_session r) = mode \<and>
    as_race_duration_s (mr_session r) = dur \<and> as_required_pits (mr_session r) = pits \<and> \<not> mr_replayed r"
proof -
  let ?s = "seed_catalog t (d\<lparr> db_in_transaction := True \<rparr>)"
  have sok: "sources_ok (db_sources ?s)"
    using seed_catalog_sources(1) [of "d\<lparr> db_in_transaction := True \<rparr>" t] ok by (simp add: db_ok_def)
  obtain srow where f: "find (\<lambda>r. ts_slug r = src_slug src) (db_sources ?s) = Some srow"
  proof (cases "find (\<lambda>r. ts_slug r = src_slug src) (db_sources ?s)")
    case None
    then show ?thesis using catalog_seeded [OF src, of t "d\<lparr> db_in_transaction := True \<rparr>"]
      by (auto simp: find_None_iff)
  qed (rule that)
  then have srow: "srow \<in> set (db_sources ?s)" "ts_slug srow = src_slug src"
    by (auto simp: find_Some_iff in_set_conv_nth)
  define row where "row = \<lparr> s_id = sid, s_source_id = ts_id srow, s_mode = mode,
        s_lifecycle = Draft, s_race_duration_s = dur, s_required_pits = pits, s_our_participant_id = None,
        s_our_class = None, s_identity_state = ''pending'', s_started_at_us = None,
        s_stopped_at_us = None, s_stop_intent = None, s_timezone_name = ts_timezone_name srow,
        s_created_at_us = t, s_updated_at_us = t \<rparr>"
  define d1 where "d1 = ?s\<lparr> db_sessions := db_sessions d @ [row] \<rparr>"
  have mem: "row \<in> set (db_sessions d1)" "srow \<in> set (db_sources d1)" "ts_id srow = s_source_id row" "s_id row = sid"
    using srow by (simp_all add: d1_def row_def)
  obtain row' ts' where g: "get_session_row d1 sid = Inr (row', ts')"
    using get_session_row_some [OF mem(1,3,2)] mem(4) by auto
  have "row' \<in> set (db_sessions d) \<or> row' = row" "s_id row' = sid" "ts' \<in> set (db_sources ?s)" "ts_id ts' = s_source_id row'"
    using get_session_row_Inr [OF g] by (auto simp: d1_def)
  then have "row' = row" using new by auto
  then have "ts' = srow" using \<open>ts' \<in> _\<close> \<open>ts_id ts' = _\<close> srow(1) mem(3) sok
    by (auto simp: sources_ok_def distinct_map inj_on_def)
  have "idempotency_replay ?s None OpCreate h = Inr None" by (simp add: idempotency_replay_def)
  then have "\<exists>d'. create_body src mode dur pits None actor h t sid (d\<lparr> db_in_transaction := True \<rparr>) =
      Inr (d', \<lparr> mr_session = row_to_session (row, srow), mr_replayed = False \<rparr>)"
    using f new g \<open>row' = row\<close> \<open>ts' = srow\<close>
    by (simp add: create_body_def Let_def row_def [symmetric] d1_def [symmetric])
  then show ?thesis using srow(2) by (auto simp: row_to_session_def row_def)
qed

text \<open>A session is created exactly for a catalogue source, a supported actor and a
  configuration the rules allow: race with one of four durations and two to eight pit stops,
  any other mode with neither. The result is a draft carrying exactly those values.\<close>
theorem create_session_accepted_iff:
  assumes "db_ok d" "sid \<notin> set (map s_id (db_sessions d))"
  shows "(\<exists>r d'. create_session sha slug mode dur pits None actor t sid d = (Inr r, d') \<and> db_ok d' \<and>
      as_id (mr_session r) = sid \<and> as_source_slug (mr_session r) = slug \<and>
      as_lifecycle (mr_session r) = Draft \<and> as_mode (mr_session r) = mode \<and>
      as_race_duration_s (mr_session r) = dur \<and> as_required_pits (mr_session r) = pits) \<longleftrightarrow>
    slug \<in> {''igora'', ''moscow''} \<and> actor \<in> insert None (Some ` set ACTOR_KINDS) \<and>
    mode \<in> {''practice'', ''qualifying'', ''race''} \<and>
    (if mode = ''race'' then dur \<in> {Some 14400, Some 21600, Some 43200, Some 86400} \<and> pits \<in> Some ` {2..8}
     else dur = None \<and> pits = None)" (is "?L \<longleftrightarrow> ?R")
proof -
  have rules: "?R \<longleftrightarrow> \<not> isl (as_source slug) \<and> \<not> isl (validate_actor_kind actor) \<and> spec_ok mode dur pits"
  proof -
    have "{2..8} = set RACE_REQUIRED_PITS" by (auto simp: RACE_REQUIRED_PITS_def)
    moreover have "{Some 14400, Some 21600, Some 43200, Some 86400} = Some ` set RACE_DURATIONS_S"
      by (auto simp: RACE_DURATIONS_S_def)
    moreover have "{''igora'', ''moscow''} = src_slug ` set TIMING_SOURCE_CATALOG"
      by (auto simp: TIMING_SOURCE_CATALOG_def)
    moreover have "actor \<in> insert None (Some ` set ACTOR_KINDS) \<longleftrightarrow> \<not> isl (validate_actor_kind actor)"
      by (cases actor) (auto simp: validate_actor_kind_def DEFAULT_ACTOR_KIND_def ACTOR_KINDS_def)
    moreover have "{''practice'', ''qualifying'', ''race''} = set MODES" by (simp add: MODES_def)
    ultimately show ?thesis by (simp only: as_source_isl spec_ok_def) blast
  qed
  have k: "validate_idempotency_key None = Inr None" by (simp add: validate_idempotency_key_def)
  show ?thesis
  proof (rule iffI)
    assume ?L
    then obtain r d' where e: "create_session sha slug mode dur pits None actor t sid d = (Inr r, d')" by blast
    have "\<not> isl (as_source slug)" using e by (cases "as_source slug") (simp_all add: create_session_def)
    moreover have "spec_ok mode dur pits"
      using create_session_snd [of sha slug mode dur pits None actor t sid d] e by auto
    moreover have "\<not> isl (validate_actor_kind actor)"
    proof
      assume "isl (validate_actor_kind actor)"
      then obtain a where "validate_actor_kind actor = Inl a" by (auto simp: isl_def)
      then show False using e
        by (cases "as_source slug"; cases "validate_session_spec mode dur pits")
           (auto simp: create_session_def k split: prod.splits)
    qed
    ultimately show ?R using rules by blast
  next
    assume ?R
    then obtain src act where v: "as_source slug = Inr src" "validate_actor_kind actor = Inr act" "spec_ok mode dur pits"
      using rules by (metis isl_def sum.exhaust_sel)
    have src: "src \<in> set TIMING_SOURCE_CATALOG" "src_slug src = slug" using as_source_Inr [OF v(1)] by auto
    from create_body_succeeds [OF assms(1) src(1) assms(2), of mode dur pits act "sha (create_request src mode dur pits)" t]
    obtain d1 r where b: "create_body src mode dur pits None act (sha (create_request src mode dur pits)) t sid
        (d\<lparr> db_in_transaction := True \<rparr>) = Inr (d1, r)"
      "as_id (mr_session r) = sid" "as_source_slug (mr_session r) = src_slug src"
      "as_lifecycle (mr_session r) = Draft" "as_mode (mr_session r) = mode"
      "as_race_duration_s (mr_session r) = dur" "as_required_pits (mr_session r) = pits" by blast
    have "validate_session_spec mode dur pits = Inr (mode, dur, pits)" using v(3) validate_session_spec_ok by blast
    then have "create_session sha slug mode dur pits None actor t sid d = (Inr r, d1\<lparr> db_in_transaction := False \<rparr>)"
      using v b(1) assms(1) by (simp add: create_session_def k write_transaction_def db_ok_def)
    then show ?L using b src create_body_ok [OF assms(1) v(3) b(1)] by blast
  qed
qed

theorem create_session_accepted_iff_witness:
  "\<exists>r d'. create_session demo_sha ''moscow'' ''race'' (Some 21600) (Some 8) None None 5 ''s2'' demo_db = (Inr r, d') \<and> db_ok d'"
proof -
  have "''s2'' \<notin> set (map s_id (db_sessions demo_db))" by (simp add: demo_db_def)
  from create_session_accepted_iff [OF demo_db_ok this, of demo_sha "''moscow''" "''race''" "Some 21600" "Some 8" None 5]
  show ?thesis by auto
qed

end
