(* ===== verification/Clock.thy ===== *)
theory Clock
  imports Wire_Text
begin

text \<open>
  The clock part of \<open>server/timing/normalization.py\<close>: provider timestamps (microseconds
  since 2000-01-01), receive times, and the per-connection calibrator that turns the first
  into UTC by a windowed median of observed offsets.

  \<open>datetime.fromisoformat\<close> is the parameter \<open>fromiso\<close> of the definitions: \<open>None\<close> is its
  \<open>ValueError\<close>, \<open>Some None\<close> a naive moment, \<open>Some (Some u)\<close> an aware one, \<open>u\<close> microseconds
  after the Unix epoch. Decimal strings of any length are converted by \<open>int\<close>.
\<close>

section \<open>Timestamps\<close>

definition TIME_SERVICE_EPOCH_UNIX_US :: int where
  "TIME_SERVICE_EPOCH_UNIX_US = 946684800000000"

definition OPEN_ENDED_TS_TIME :: int where
  "OPEN_ENDED_TS_TIME = 9223372036854775807"

definition parse_ts_time :: "json \<Rightarrow> int option" where
  "parse_ts_time value =
    (case value of
       JNum (PyInt i) \<Rightarrow> if i \<ge> 0 then Some i else None
     | JStr s \<Rightarrow>
         (let candidate = strip s
          in if candidate = [] \<or> \<not> list_all (\<lambda>c. code_point c < 128) candidate
                \<or> \<not> list_all is_py_digit candidate
             then None else Some (digits_value candidate))
     | _ \<Rightarrow> None)"

definition is_open_ended_ts_time :: "json \<Rightarrow> bool" where
  "is_open_ended_ts_time value = (parse_ts_time value = Some OPEN_ENDED_TS_TIME)"

definition time_service_to_unix_us :: "json \<Rightarrow> int option" where
  "time_service_to_unix_us value =
    (case parse_ts_time value of
       None \<Rightarrow> None
     | Some timestamp \<Rightarrow>
         if timestamp = OPEN_ENDED_TS_TIME then None
         else Some (TIME_SERVICE_EPOCH_UNIX_US + timestamp))"

datatype value_error = ValueError string | OverflowError

text \<open>A receive time is a JSON value or a \<open>datetime\<close> (its UTC microseconds when aware).\<close>

datatype received = RJson json | RDatetime "int option"

text \<open>
  \<open>int\<close> of a non-empty string of which \<open>isdigit\<close> holds: the superscript digits satisfy
  \<open>isdigit\<close> but are no decimal digits, so \<open>int\<close> raises.
\<close>

definition int_of_isdigit :: "string \<Rightarrow> value_error + int" where
  "int_of_isdigit s =
    (if list_all is_ascii_digit s then Inr (digits_value s)
     else Inl (ValueError ''invalid literal for int''))"

definition received_at_to_unix_us ::
    "(string \<Rightarrow> int option option) \<Rightarrow> received \<Rightarrow> value_error + int option" where
  "received_at_to_unix_us fromiso value =
    (case value of
       RJson (JNum (PyInt i)) \<Rightarrow> Inr (Some i)
     | RDatetime moment \<Rightarrow> Inr moment
     | RJson (JStr s) \<Rightarrow>
         (let candidate = strip s
          in if candidate \<noteq> [] \<and> list_all is_py_digit candidate
             then map_sum id Some (int_of_isdigit candidate)
             else
               let candidate = (if candidate \<noteq> [] \<and> last candidate = CHR ''Z''
                                then butlast candidate @ ''+00:00'' else candidate)
               in case fromiso candidate of None \<Rightarrow> Inr None | Some moment \<Rightarrow> Inr moment)
     | _ \<Rightarrow> Inr None)"

section \<open>Server-time payloads\<close>

definition message_payload :: "json \<Rightarrow> json" where
  "message_payload args = (case args of JList [x] \<Rightarrow> x | _ \<Rightarrow> args)"

definition SERVER_TIME_KEYS :: "string list" where
  "SERVER_TIME_KEYS = [''t'', ''time'', ''serverTime'', ''server_time'', ''timestamp'']"

fun first_parsed :: "string list \<Rightarrow> (string \<times> json) list \<Rightarrow> int option" where
  "first_parsed [] d = None"
| "first_parsed (key # keys) d =
    (case map_of d key of
       None \<Rightarrow> first_parsed keys d
     | Some v \<Rightarrow> (case parse_ts_time v of None \<Rightarrow> first_parsed keys d | Some t \<Rightarrow> Some t))"

definition server_time_from_payload :: "json \<Rightarrow> int option" where
  "server_time_from_payload value =
    (case parse_ts_time value of
       Some direct \<Rightarrow> Some direct
     | None \<Rightarrow>
        (case value of
           JList [x] \<Rightarrow> parse_ts_time x
         | JObj d \<Rightarrow> first_parsed SERVER_TIME_KEYS d
         | _ \<Rightarrow> None))"

section \<open>The calibrator\<close>

record clock_calibrator =
  max_samples :: int
  offsets_us :: "int list"

definition new_calibrator :: "int \<Rightarrow> value_error + clock_calibrator" where
  "new_calibrator n =
    (if n < 1 then Inl (ValueError ''max_samples'') else Inr \<lparr> max_samples = n, offsets_us = [] \<rparr>)"

definition sample_count :: "clock_calibrator \<Rightarrow> nat" where
  "sample_count c = length (offsets_us c)"

definition offset_us :: "clock_calibrator \<Rightarrow> int option" where
  "offset_us c =
    (if offsets_us c = [] then None
     else let ordered = sort (offsets_us c);
              middle = length ordered div 2
          in if length ordered mod 2 \<noteq> 0 then Some (ordered ! middle)
             else Some ((ordered ! (middle - 1) + ordered ! middle) div 2))"

text \<open>The tail kept by \<open>del offsets[: len(offsets) - max_samples]\<close>.\<close>

definition append_offset :: "int \<Rightarrow> clock_calibrator \<Rightarrow> clock_calibrator" where
  "append_offset offset c =
    (let offsets = offsets_us c @ [offset]
     in c\<lparr> offsets_us :=
          (if max_samples c < int (length offsets)
           then drop (nat (int (length offsets) - max_samples c)) offsets else offsets) \<rparr>)"

definition observe ::
    "(string \<Rightarrow> int option option) \<Rightarrow> json \<Rightarrow> received \<Rightarrow> clock_calibrator
      \<Rightarrow> (value_error + int option) \<times> clock_calibrator" where
  "observe fromiso provider_ts_time received_at c =
    (case received_at_to_unix_us fromiso received_at of
       Inl e \<Rightarrow> (Inl e, c)
     | Inr received_us \<Rightarrow>
        (case (time_service_to_unix_us provider_ts_time, received_us) of
           (Some p, Some r) \<Rightarrow> (Inr (Some (r - p)), append_offset (r - p) c)
         | _ \<Rightarrow> (Inr None, c)))"

definition observe_server_time ::
    "(string \<Rightarrow> int option option) \<Rightarrow> string \<Rightarrow> json \<Rightarrow> received \<Rightarrow> clock_calibrator
      \<Rightarrow> (value_error + int option) \<times> clock_calibrator" where
  "observe_server_time fromiso handle args received_at c =
    (if handle \<notin> {''s_i'', ''s_t''} then (Inr None, c)
     else observe fromiso (opt_json JInt (server_time_from_payload (message_payload args))) received_at c)"

definition to_utc_us :: "json \<Rightarrow> clock_calibrator \<Rightarrow> int option" where
  "to_utc_us provider_ts_time c =
    (case (time_service_to_unix_us provider_ts_time, offset_us c) of
       (Some p, Some offset) \<Rightarrow> Some (p + offset)
     | _ \<Rightarrow> None)"

definition clock_snapshot :: "clock_calibrator \<Rightarrow> json" where
  "clock_snapshot c =
    JObj [(''max_samples'', JInt (max_samples c)), (''offsets_us'', JList (map JInt (offsets_us c)))]"

fun json_int :: "json \<Rightarrow> int option" where
  "json_int (JNum (PyInt i)) = Some i"
| "json_int _ = None"

definition clock_from_snapshot :: "json \<Rightarrow> value_error + clock_calibrator" where
  "clock_from_snapshot state =
    (case state of
       JObj d \<Rightarrow>
        (case json_int (jget ''max_samples'' d) of
           None \<Rightarrow> Inl (ValueError ''max_samples'')
         | Some n \<Rightarrow>
            if n < 1 then Inl (ValueError ''max_samples'')
            else (case jget ''offsets_us'' d of
               JList offsets \<Rightarrow>
                 if n < int (length offsets) then Inl (ValueError ''offsets'')
                 else if list_ex (\<lambda>offset. json_int offset = None) offsets then Inl (ValueError ''offsets'')
                 else Inr \<lparr> max_samples = n, offsets_us = map (the \<circ> json_int) offsets \<rparr>
             | _ \<Rightarrow> Inl (ValueError ''offsets'')))
     | _ \<Rightarrow> Inl (ValueError ''object''))"

section \<open>The window invariant and checkpoints\<close>

text \<open>One observed message: handle, arguments and receive time.\<close>

type_synonym clock_input = "string \<times> json \<times> received"

definition clock_step ::
    "(string \<Rightarrow> int option option) \<Rightarrow> clock_calibrator \<Rightarrow> clock_input \<Rightarrow> clock_calibrator" where
  "clock_step fromiso c i = (case i of (handle, args, received_at) \<Rightarrow> snd (observe_server_time fromiso handle args received_at c))"

definition clock_ok :: "clock_calibrator \<Rightarrow> bool" where
  "clock_ok c \<longleftrightarrow> 1 \<le> max_samples c \<and> int (length (offsets_us c)) \<le> max_samples c"

lemma append_offset_last_n:
  "0 \<le> max_samples c \<Longrightarrow>
    append_offset x c = c\<lparr> offsets_us := last_n (nat (max_samples c)) (offsets_us c @ [x]) \<rparr>"
  by (simp add: append_offset_def last_n_def Let_def nat_diff_distrib' nat_add_distrib)

lemma append_offset_ok: "clock_ok c \<Longrightarrow> clock_ok (append_offset x c)"
  by (auto simp: clock_ok_def append_offset_last_n min_def)

lemma observe_server_time_snd:
  "snd (observe_server_time fromiso handle args received_at c) = c \<or>
   (\<exists>x. fst (observe_server_time fromiso handle args received_at c) = Inr (Some x) \<and>
        snd (observe_server_time fromiso handle args received_at c) = append_offset x c)"
  by (auto simp: observe_server_time_def observe_def split: sum.splits option.splits)

lemma clock_step_ok: "clock_ok c \<Longrightarrow> clock_ok (clock_step fromiso c i)"
  using observe_server_time_snd [of fromiso _ _ _ c]
  by (cases i) (metis append_offset_ok clock_step_def old.prod.case)

lemma clock_restore:
  assumes "clock_ok c" shows "clock_from_snapshot (clock_snapshot c) = Inr c"
proof -
  have "\<not> list_ex (\<lambda>offset. json_int offset = None) (map JInt (offsets_us c))"
    by (simp add: list_ex_iff)
  moreover have "map (the \<circ> json_int) (map JInt (offsets_us c)) = offsets_us c" by (simp add: o_def)
  ultimately show ?thesis using assms
    by (simp add: clock_from_snapshot_def clock_snapshot_def jget_def clock_ok_def)
qed

interpretation clock: checkpointed_machine "clock_step fromiso" "\<lambda>c. \<exists>n. new_calibrator n = Inr c" clock_ok
    clock_snapshot clock_from_snapshot "(=)" for fromiso
  by unfold_locales
     (auto simp: new_calibrator_def clock_restore clock_step_ok, auto simp: clock_ok_def split: if_splits)

section \<open>Text\<close>

lemma int_text_digits: "0 \<le> i \<Longrightarrow> ascii_digits (int_text i) \<and> digits_value (int_text i) = i"
  using nat_digits_correct [of "nat i"] by (simp add: int_text_def)

lemma parse_ts_digits:
  assumes "ascii_digits s" shows "parse_ts_time (JStr s) = Some (digits_value s)"
proof -
  have "list_all (\<lambda>c. code_point c < 128) s" "list_all is_py_digit s"
    using assms by (auto simp: ascii_digits_def list_all_iff is_ascii_digit_def is_py_digit_def)
  then show ?thesis using assms by (simp add: parse_ts_time_def ascii_digits_def [of s])
qed

section \<open>Properties\<close>

text \<open>The two wire spellings of a timestamp agree: every non-negative integer, as a number or
  as decimal text, alone, wrapped in a one-element argument list or under any of the server
  clock names, is read back exactly; no negative number, boolean or float is accepted.\<close>
theorem server_time_spellings_agree:
  assumes "0 \<le> t" "key \<in> set SERVER_TIME_KEYS"
  shows "server_time_from_payload (message_payload (JInt t)) = Some t \<and>
    server_time_from_payload (message_payload (JStr (int_text t))) = Some t \<and>
    server_time_from_payload (message_payload (JList [JStr (int_text t)])) = Some t \<and>
    server_time_from_payload (message_payload (JList [JObj [(key, JStr (int_text t))]])) = Some t \<and>
    parse_ts_time (JInt (- t - 1)) = None \<and> parse_ts_time (JBool b) = None \<and>
    parse_ts_time (JNum (PyFloat q)) = None"
proof -
  have p: "parse_ts_time (JInt t) = Some t" "parse_ts_time (JStr (int_text t)) = Some t"
    using assms(1) int_text_digits [OF assms(1)] parse_ts_digits by (simp_all add: parse_ts_time_def)
  have o: "parse_ts_time (JObj d) = None" for d by (simp add: parse_ts_time_def)
  have "first_parsed keys [(key, JStr (int_text t))] = Some t" if "key \<in> set keys" for keys
    using that by (induction keys) (auto simp: p)
  then show ?thesis using assms
    by (simp add: server_time_from_payload_def message_payload_def p o) (simp add: parse_ts_time_def)
qed

theorem server_time_spellings_agree_witness:
  "server_time_from_payload (message_payload (JList [JObj [(''serverTime'', JStr (int_text 845000))]])) = Some 845000"
  using server_time_spellings_agree [of 845000 "''serverTime''" False 0] by (simp add: SERVER_TIME_KEYS_def)

text \<open>The calibrator is exactly the last \<open>max_samples\<close> offsets of the explicit server-time
  messages of its connection, in arrival order; every other message leaves it alone.\<close>
theorem calibrator_window:
  assumes "new_calibrator n = Inr c"
  shows "offsets_us (foldl (clock_step fromiso) c inputs) =
    last_n (nat n) (List.map_filter (\<lambda>(handle, args, received_at).
      case fst (observe_server_time fromiso handle args received_at c) of Inr x \<Rightarrow> x | Inl e \<Rightarrow> None) inputs)"
proof -
  have n: "1 \<le> n" "c = \<lparr> max_samples = n, offsets_us = [] \<rparr>"
    using assms by (auto simp: new_calibrator_def split: if_splits)
  let ?f = "\<lambda>(handle, args, received_at).
      case fst (observe_server_time fromiso handle args received_at c) of Inr x \<Rightarrow> x | Inl e \<Rightarrow> None"
  have fst_eq: "fst (observe_server_time fromiso handle args received_at c') =
      fst (observe_server_time fromiso handle args received_at c)" for handle args received_at c'
    by (simp add: observe_server_time_def observe_def split: sum.splits option.splits)
  have step: "clock_step fromiso c' i = (case ?f i of None \<Rightarrow> c' | Some x \<Rightarrow> append_offset x c')" for c' i
    by (cases i) (auto simp: clock_step_def observe_server_time_def observe_def split: sum.splits option.splits)
  have "max_samples (foldl (clock_step fromiso) c inputs) = n \<and>
    offsets_us (foldl (clock_step fromiso) c inputs) = last_n (nat n) (List.map_filter ?f inputs)"
  proof (induction inputs rule: rev_induct)
    case (snoc i inputs)
    then show ?case using n(1)
      by (cases "?f i")
         (simp_all add: step append_offset_last_n map_filter_snoc last_n_last_n_snoc del: split_paired_All)
  qed (simp add: n(2) last_n_def)
  then show ?thesis by blast
qed

theorem calibrator_window_witness:
  "offsets_us (foldl (clock_step (\<lambda>_. None)) \<lparr> max_samples = 2, offsets_us = [] \<rparr>
     [(''s_t'', JInt 5, RDatetime (Some 946684800000015)), (''s_t'', JInt 6, RJson (JStr ''946684800000026'')),
      (''r_c'', JInt 7, RDatetime (Some 0)), (''s_i'', JList [JInt 10], RJson (JInt 946684800000020))]) = [20, 10]"
proof -
  have c: "new_calibrator 2 = Inr \<lparr> max_samples = 2, offsets_us = [] \<rparr>" by (simp add: new_calibrator_def)
  show ?thesis unfolding calibrator_window [OF c] by code_simp
qed

text \<open>C22. A calibrator restored from a checkpoint taken at any point of the feed continues exactly
  as the one that kept running.\<close>
theorem clock_checkpoint_resumes:
  assumes "new_calibrator n = Inr c"
  shows "map_sum id (\<lambda>c'. foldl (clock_step fromiso) c' later)
      (clock_from_snapshot (clock_snapshot (foldl (clock_step fromiso) c earlier)))
    = Inr (foldl (clock_step fromiso) c (earlier @ later))"
  using clock.resume_anywhere [where fromiso = fromiso and s = c and xs = earlier and ys = later] assms by force

theorem clock_checkpoint_resumes_witness:
  "map_sum id (\<lambda>c'. foldl (clock_step (\<lambda>_. None)) c' [(''s_t'', JInt 6, RJson (JInt 9))])
      (clock_from_snapshot (clock_snapshot (foldl (clock_step (\<lambda>_. None)) \<lparr> max_samples = 1, offsets_us = [] \<rparr>
         [(''s_t'', JInt 5, RJson (JInt 9))])))
    = Inr (foldl (clock_step (\<lambda>_. None)) \<lparr> max_samples = 1, offsets_us = [] \<rparr>
        ([(''s_t'', JInt 5, RJson (JInt 9))] @ [(''s_t'', JInt 6, RJson (JInt 9))]))"
  by (rule clock_checkpoint_resumes [of 1]) (simp add: new_calibrator_def)

lemma sorted_nth_bounds:
  assumes "i < length (sort xs)" shows "Min (set xs) \<le> sort xs ! i \<and> sort xs ! i \<le> Max (set xs)"
proof -
  have "sort xs ! i \<in> set xs" using assms by (metis nth_mem set_sort)
  then show ?thesis by simp
qed

text \<open>The calibrated offset is a median: it lies between the smallest and the largest offset
  of the window, at least half of the window is not above it and at least half not below it
  (also with the rounded mean of an even window), and it is defined exactly when a server time
  has been observed.\<close>
theorem offset_is_median:
  "case offset_us c of
     None \<Rightarrow> offsets_us c = []
   | Some m \<Rightarrow> offsets_us c \<noteq> [] \<and> Min (set (offsets_us c)) \<le> m \<and> m \<le> Max (set (offsets_us c)) \<and>
       length (offsets_us c) \<le> 2 * length (filter (\<lambda>x. x \<le> m) (offsets_us c)) \<and>
       length (offsets_us c) \<le> 2 * length (filter (\<lambda>x. m \<le> x) (offsets_us c))"
proof (cases "offsets_us c = []")
  case False
  define s where "s = sort (offsets_us c)"
  define k where "k = length s div 2"
  have len: "length s = length (offsets_us c)" "0 < length s" using False by (simp_all add: s_def)
  have cnt: "length (filter P (offsets_us c)) = length (filter P s)" for P
    by (metis mset_filter mset_sort s_def size_mset)
  have k: "k < length s" using len(2) by (simp add: k_def)
  have srt: "s ! i \<le> s ! j" if "i \<le> j" "j < length s" for i j
    using that by (simp add: s_def sorted_nth_mono)
  have low: "j \<le> length (filter (\<lambda>x. x \<le> m) s)" if "j \<le> length s" "\<forall>i < j. s ! i \<le> m" for j m
  proof -
    have "\<forall>x \<in> set (take j s). x \<le> m" using that by (auto simp: in_set_conv_nth)
    then have "filter (\<lambda>x. x \<le> m) (take j s) = take j s" by simp
    then have "filter (\<lambda>x. x \<le> m) s = take j s @ filter (\<lambda>x. x \<le> m) (drop j s)"
      by (metis append_take_drop_id filter_append)
    then show ?thesis using that(1) by simp
  qed
  have high: "length s - j \<le> length (filter (\<lambda>x. m \<le> x) s)" if "\<forall>i. j \<le> i \<and> i < length s \<longrightarrow> m \<le> s ! i" for j m
  proof -
    have "\<forall>x \<in> set (drop j s). m \<le> x" using that by (auto simp: in_set_conv_nth)
    then have "filter (\<lambda>x. m \<le> x) (drop j s) = drop j s" by simp
    then have "filter (\<lambda>x. m \<le> x) s = filter (\<lambda>x. m \<le> x) (take j s) @ drop j s"
      by (metis append_take_drop_id filter_append)
    then show ?thesis by simp
  qed
  have rng: "Min (set (offsets_us c)) \<le> s ! i \<and> s ! i \<le> Max (set (offsets_us c))" if "i < length s" for i
    using sorted_nth_bounds that by (simp add: s_def)
  obtain m j where m: "offset_us c = Some m" "s ! j \<le> m" "m \<le> s ! k" "j \<le> k" "length s \<le> 2 * (j + 1)"
    "2 * k \<le> length s"
  proof (cases "odd (length s)")
    case True
    then show ?thesis using that [of "s ! k" k] False
      by (simp add: offset_us_def Let_def s_def [symmetric] k_def odd_iff_mod_2_eq_one)
  next
    case ev: False
    then have "length s = 2 * k" by (simp add: k_def)
    moreover from this have "1 \<le> k" using len(2) by linarith
    moreover have "offset_us c = Some ((s ! (k - 1) + s ! k) div 2)"
      using ev False by (simp add: offset_us_def Let_def s_def [symmetric] k_def [symmetric] even_iff_mod_2_eq_zero)
    moreover have "s ! (k - 1) \<le> s ! k" using srt k by simp
    ultimately show ?thesis using that [of "(s ! (k - 1) + s ! k) div 2" "k - 1"] by simp
  qed
  have "j + 1 \<le> length (filter (\<lambda>x. x \<le> m) s)"
    using low [of "j + 1" m] srt [of _ j] m k by (force simp: less_Suc_eq_le intro: order_trans)
  moreover have "length s - k \<le> length (filter (\<lambda>x. m \<le> x) s)"
    using high [of k m] srt [of k] m by (force intro: order_trans)
  moreover have "Min (set (offsets_us c)) \<le> m" "m \<le> Max (set (offsets_us c))"
    using rng [of j] rng [of k] m k by auto
  ultimately show ?thesis using m False by (simp add: cnt len(1) [symmetric])
qed (simp add: offset_us_def)

text \<open>One server time observed on a fresh connection calibrates it exactly: the same provider
  time resolves to the receive time, and any other to the receive time shifted by the
  difference of the two provider times.\<close>
theorem first_observation_calibrates:
  assumes "new_calibrator n = Inr c" "0 \<le> p" "p \<noteq> OPEN_ENDED_TS_TIME" "0 \<le> q" "q \<noteq> OPEN_ENDED_TS_TIME"
  shows "to_utc_us (JInt q) (clock_step fromiso c (''s_t'', JList [JInt p], RDatetime (Some r))) = Some (r + (q - p)) \<and>
    to_utc_us (JInt q) c = None"
proof -
  have n: "1 \<le> n" "c = \<lparr> max_samples = n, offsets_us = [] \<rparr>"
    using assms(1) by (auto simp: new_calibrator_def split: if_splits)
  have ts: "time_service_to_unix_us (JInt x) = Some (TIME_SERVICE_EPOCH_UNIX_US + x)"
    if "0 \<le> x" "x \<noteq> OPEN_ENDED_TS_TIME" for x
    using that by (simp add: time_service_to_unix_us_def parse_ts_time_def)
  have "clock_step fromiso c (''s_t'', JList [JInt p], RDatetime (Some r)) =
      \<lparr> max_samples = n, offsets_us = [r - (TIME_SERVICE_EPOCH_UNIX_US + p)] \<rparr>"
    using n(1) assms(2,3)
    by (simp add: n(2) clock_step_def observe_server_time_def observe_def received_at_to_unix_us_def
        message_payload_def server_time_from_payload_def parse_ts_time_def opt_json_def ts
        append_offset_def)
  then show ?thesis using assms(4,5) by (simp add: n(2) to_utc_us_def ts offset_us_def)
qed

theorem first_observation_calibrates_witness:
  "to_utc_us (JInt 250) (clock_step (\<lambda>_. None) \<lparr> max_samples = 31, offsets_us = [] \<rparr>
     (''s_t'', JList [JInt 100], RDatetime (Some 946684800000500))) = Some 946684800000650"
proof -
  have "new_calibrator 31 = Inr \<lparr> max_samples = 31, offsets_us = [] \<rparr>" by (simp add: new_calibrator_def)
  from first_observation_calibrates [OF this, of 100 250 "\<lambda>_. None" 946684800000500] show ?thesis
    by (simp add: OPEN_ENDED_TS_TIME_def)
qed

text \<open>Reading a receive time fails with a \<open>ValueError\<close> exactly on text made of \<open>isdigit\<close>
  characters of which one is no decimal digit (a superscript), where \<open>int\<close> raises; every
  other value is a time or is rejected as \<open>None\<close>.\<close>
theorem receive_time_raises_iff:
  "isl (received_at_to_unix_us fromiso value) \<longleftrightarrow>
    (\<exists>s. value = RJson (JStr s) \<and> strip s \<noteq> [] \<and> list_all is_py_digit (strip s) \<and>
       \<not> list_all is_ascii_digit (strip s))"
  by (auto simp: received_at_to_unix_us_def int_of_isdigit_def Let_def
      split: received.splits json.splits pynum.splits option.splits)

end
