(* ===== verification/Result_Schema.thy ===== *)
theory Result_Schema
  imports Clock
begin

text \<open>
  The result-table part of \<open>server/timing/normalization.py\<close>: dynamic header layouts, the
  schema contract that diagnoses them, the state cell, track flags, the typed reading of
  scalar fields, tracker passings and compact statistics. \<open>render\<close> is \<open>str\<close> on the values
  whose text is not modelled: floats, lists and objects.
\<close>

section \<open>Columns\<close>

record result_column =
  rc_index :: int
  rc_source_name :: string
  rc_source_parameter :: "string option"
  rc_key :: "string option"

record result_schema_binding =
  b_key :: string
  b_source_name :: string
  b_source_parameter :: "string option"

definition binding_of :: "string \<Rightarrow> string \<Rightarrow> string option \<Rightarrow> result_schema_binding" where
  "binding_of key source_name source_parameter =
    \<lparr> b_key = key, b_source_name = source_name, b_source_parameter = source_parameter \<rparr>"

definition CURRENT_RESULT_SCHEMA_REQUIRED :: "result_schema_binding list" where
  "CURRENT_RESULT_SCHEMA_REQUIRED =
    [binding_of ''position_overall'' ''position'' None,
     binding_of ''start_number'' ''startnumber'' None,
     binding_of ''state'' ''State'' None,
     binding_of ''team_name'' ''Team name'' None,
     binding_of ''current_driver'' ''CurrentDriver'' None,
     binding_of ''class_name'' ''class'' None,
     binding_of ''position_class'' ''position_in_class'' None,
     binding_of ''gap'' ''hole'' None,
     binding_of ''best_lap'' ''fastestRoundTime'' None,
     binding_of ''last_lap'' ''lastRoundTime'' None,
     binding_of ''driver_stint'' ''CurrentDriverStintTime'' None,
     binding_of ''pit_time'' ''PitTime'' None,
     binding_of ''pit_stops'' ''pitstops'' None,
     binding_of ''sector_1'' ''SectorTimes'' (Some ''1''),
     binding_of ''sector_2'' ''SectorTimes'' (Some ''2''),
     binding_of ''sector_3'' ''SectorTimes'' (Some ''3'')]"

definition CURRENT_RESULT_SCHEMA_OPTIONAL :: "result_schema_binding list" where
  "CURRENT_RESULT_SCHEMA_OPTIONAL =
    [binding_of ''car_name'' ''car'' None,
     binding_of ''laps'' ''laps'' None,
     binding_of ''diff'' ''diff'' None,
     binding_of ''section_marker'' ''sectionMarker'' None]"

definition CURRENT_RESULT_SCHEMA_CONTRACT :: string where
  "CURRENT_RESULT_SCHEMA_CONTRACT = ''time-service-result-grid-v1''"

definition RESULT_FIELD_ALIASES :: "(string \<times> string) list" where
  "RESULT_FIELD_ALIASES =
    [(''position'', ''position_overall''), (''pos'', ''position_overall''), (''marker'', ''marker''),
     (''startnumber'', ''start_number''), (''startno'', ''start_number''), (''nr'', ''start_number''),
     (''number'', ''start_number''), (''nbr'', ''start_number''), (''state'', ''state''),
     (''team'', ''team_name''), (''teamname'', ''team_name''), (''driver'', ''current_driver''),
     (''currentdriver'', ''current_driver''), (''driverincar'', ''current_driver''),
     (''class'', ''class_name''), (''cls'', ''class_name''), (''positioninclass'', ''position_class''),
     (''pic'', ''position_class''), (''hole'', ''gap''), (''gap'', ''gap''), (''diff'', ''diff''),
     (''fastestroundtime'', ''best_lap''), (''best'', ''best_lap''), (''lastroundtime'', ''last_lap''),
     (''last'', ''last_lap''), (''laps'', ''laps''), (''lap'', ''laps''),
     (''currentdriverstinttime'', ''driver_stint''), (''stint'', ''driver_stint''),
     (''pittime'', ''pit_time''), (''lpit'', ''pit_time''), (''pitstops'', ''pit_stops''),
     (''pit'', ''pit_stops''), (''sectionmarker'', ''section_marker''), (''section'', ''section_marker''),
     (''s'', ''section_marker''), (''car'', ''car_name''), (''vehicle'', ''car_name''), (''speed'', ''speed'')]"

definition header_token :: "string \<Rightarrow> string" where
  "header_token value = text_token value"

text \<open>\<open>[1-9][0-9]*\<close>, and the sector header with its ordinal.\<close>

definition positive_ordinal :: "string \<Rightarrow> bool" where
  "positive_ordinal s = (ascii_digits s \<and> hd s \<noteq> CHR ''0'')"

definition sector_ordinal :: "string \<Rightarrow> string option" where
  "sector_ordinal token =
    map_option (\<lambda>prefix. drop (length prefix) token)
      (find (\<lambda>prefix. take (length prefix) token = prefix \<and> positive_ordinal (drop (length prefix) token))
        [''sectortimes'', ''sectortime'', ''sector'', ''sect''])"

definition result_field_key :: "string \<Rightarrow> string option \<Rightarrow> string option" where
  "result_field_key source_name source_parameter =
    (let token = header_token source_name in
     case map_of RESULT_FIELD_ALIASES token of
       Some known \<Rightarrow> Some known
     | None \<Rightarrow>
        (case sector_ordinal token of
           Some ordinal \<Rightarrow> Some (''sector_'' @ ordinal)
         | None \<Rightarrow>
            if token \<in> {''sectortime'', ''sectortimes'', ''sector'', ''sect''}
            then (case source_parameter of
                    None \<Rightarrow> None
                  | Some p \<Rightarrow> if positive_ordinal (strip p) then Some (''sector_'' @ strip p) else None)
            else None))"

definition json_text :: "(json \<Rightarrow> string) \<Rightarrow> json \<Rightarrow> string" where
  "json_text render value =
    (case value of
       JNull \<Rightarrow> ''None''
     | JBool b \<Rightarrow> if b then ''True'' else ''False''
     | JNum (PyInt i) \<Rightarrow> int_text i
     | JStr s \<Rightarrow> s
     | other \<Rightarrow> render other)"

definition present_text :: "(json \<Rightarrow> string) \<Rightarrow> json \<Rightarrow> string option" where
  "present_text render value =
    (if value = JNull \<or> value = JStr [] then None else Some (json_text render value))"

definition result_column_of :: "(json \<Rightarrow> string) \<Rightarrow> nat \<Rightarrow> json \<Rightarrow> result_column" where
  "result_column_of render index header =
    (let raw_name = (case header of
           JObj d \<Rightarrow> (case map_of d ''n'' of None \<Rightarrow> JInt (int index) | Some v \<Rightarrow> v)
         | _ \<Rightarrow> header);
         raw_parameter = (case header of JObj d \<Rightarrow> jget ''p'' d | _ \<Rightarrow> JNull);
         raw_display_name = (case header of JObj d \<Rightarrow> jget ''c'' d | _ \<Rightarrow> JNull);
         source_name = (if raw_name \<noteq> JNull then strip (json_text render raw_name) else int_text (int index));
         source_parameter = present_text render raw_parameter;
         key = result_field_key source_name source_parameter;
         key = (case (key, present_text render raw_display_name) of
                  (None, Some display) \<Rightarrow> result_field_key (strip display) source_parameter
                | _ \<Rightarrow> key)
     in \<lparr> rc_index = int index, rc_source_name = source_name,
          rc_source_parameter = source_parameter, rc_key = key \<rparr>)"

definition layout_headers :: "json \<Rightarrow> json list" where
  "layout_headers layout =
    (case layout of
       JObj d \<Rightarrow>
        (let candidate = jget ''h'' d;
             candidate = (if candidate = JNull
                          then (case jget ''l'' d of JObj l \<Rightarrow> jget ''h'' l | _ \<Rightarrow> JNull)
                          else candidate)
         in case candidate of JList headers \<Rightarrow> headers | _ \<Rightarrow> [])
     | _ \<Rightarrow> [])"

definition result_columns :: "(json \<Rightarrow> string) \<Rightarrow> json \<Rightarrow> (int \<times> result_column) list" where
  "result_columns render layout =
    map (\<lambda>(index, header). (int index, result_column_of render index header))
      (enumerate 0 (layout_headers layout))"

section \<open>The schema contract\<close>

datatype contract_status = CURRENT | DEGRADED

record binding_mismatch =
  bm_key :: string
  bm_expected_source_name :: string
  bm_expected_source_parameter :: "string option"
  bm_observed :: "result_column list"

record schema_validation =
  sv_contract_name :: string
  sv_status :: contract_status
  sv_required_keys :: "string list"
  sv_present_keys :: "string list"
  sv_missing_required_keys :: "string list"
  sv_binding_mismatches :: "binding_mismatch list"
  sv_optional_present_keys :: "string list"
  sv_unknown_columns :: "(int \<times> string \<times> string option) list"

text \<open>\<open>sorted(columns.items())\<close>: the indexes are distinct, so they decide the order.\<close>

definition sorted_columns :: "(int \<times> result_column) list \<Rightarrow> result_column list" where
  "sorted_columns columns = map snd (sort_key fst columns)"

definition observed_columns :: "(int \<times> result_column) list \<Rightarrow> result_schema_binding \<Rightarrow> result_column list" where
  "observed_columns columns binding =
    filter (\<lambda>column. rc_key column = Some (b_key binding)) (sorted_columns columns)"

definition is_exact_column :: "result_schema_binding \<Rightarrow> result_column \<Rightarrow> bool" where
  "is_exact_column binding column =
    (header_token (rc_source_name column) = header_token (b_source_name binding) \<and>
     rc_source_parameter column = b_source_parameter binding)"

definition exact_columns :: "(int \<times> result_column) list \<Rightarrow> result_schema_binding \<Rightarrow> result_column list" where
  "exact_columns columns binding = filter (is_exact_column binding) (observed_columns columns binding)"

definition binding_mismatch_of ::
    "(int \<times> result_column) list \<Rightarrow> result_schema_binding \<Rightarrow> binding_mismatch option" where
  "binding_mismatch_of columns binding =
    (let observed = observed_columns columns binding in
     if observed = [] then None
     else if length observed \<noteq> 1 \<or> length (exact_columns columns binding) \<noteq> 1
     then Some \<lparr> bm_key = b_key binding, bm_expected_source_name = b_source_name binding,
                 bm_expected_source_parameter = b_source_parameter binding, bm_observed = observed \<rparr>
     else None)"

definition validate_current_result_schema :: "(int \<times> result_column) list \<Rightarrow> schema_validation" where
  "validate_current_result_schema columns =
    (let bindings = CURRENT_RESULT_SCHEMA_REQUIRED @ CURRENT_RESULT_SCHEMA_OPTIONAL;
         required_keys = map b_key CURRENT_RESULT_SCHEMA_REQUIRED;
         optional_keys = map b_key CURRENT_RESULT_SCHEMA_OPTIONAL;
         present_keys = sort (remdups (List.map_filter (\<lambda>(i, column). rc_key column) columns));
         missing_required = map b_key (filter (\<lambda>b. b_key b \<in> set required_keys \<and> exact_columns columns b = []) bindings);
         mismatches = List.map_filter (binding_mismatch_of columns) bindings
     in \<lparr> sv_contract_name = CURRENT_RESULT_SCHEMA_CONTRACT,
          sv_status = (if missing_required = [] \<and> mismatches = [] then CURRENT else DEGRADED),
          sv_required_keys = required_keys,
          sv_present_keys = present_keys,
          sv_missing_required_keys = missing_required,
          sv_binding_mismatches = mismatches,
          sv_optional_present_keys = filter (\<lambda>k. k \<in> set present_keys) (sort (remdups optional_keys)),
          sv_unknown_columns = map (\<lambda>c. (rc_index c, rc_source_name c, rc_source_parameter c))
            (filter (\<lambda>c. rc_key c = None) (sorted_columns columns)) \<rparr>)"

section \<open>The state cell\<close>

record result_state =
  st_raw :: json
  st_kind :: string
  st_literal :: "string option"
  st_timer_target_raw :: "string option"
  st_timer_target_ts_time :: "int option"

definition STATE_LITERALS :: "(string \<times> string) list" where
  "STATE_LITERALS = [(''inpit'', ''IN_PIT''), (''outlap'', ''OUT_LAP''), (''finshd'', ''FINISHED''),
     (''finished'', ''FINISHED'')]"

definition unknown_state :: "json \<Rightarrow> result_state" where
  "unknown_state raw = \<lparr> st_raw = raw, st_kind = ''UNKNOWN'', st_literal = None,
     st_timer_target_raw = None, st_timer_target_ts_time = None \<rparr>"

text \<open>\<open>candidate[0].upper()\<close> is \<open>E\<close> or \<open>S\<close> for exactly these Latin-1 characters.\<close>

definition parse_result_state :: "json \<Rightarrow> result_state" where
  "parse_result_state value =
    (case value of
       JStr raw \<Rightarrow>
        (case strip raw of
           [] \<Rightarrow> unknown_state value
         | c # rest \<Rightarrow>
            if c \<in> {CHR ''E'', CHR ''e''}
            then
              (let timer_raw = strip rest in
               case parse_ts_time (JStr timer_raw) of
                 Some timer \<Rightarrow>
                   if timer \<noteq> OPEN_ENDED_TS_TIME
                   then (unknown_state value)\<lparr> st_kind := ''ON_TRACK'',
                          st_timer_target_raw := Some timer_raw, st_timer_target_ts_time := Some timer \<rparr>
                   else (unknown_state value)\<lparr> st_timer_target_raw := (if timer_raw = [] then None else Some timer_raw) \<rparr>
               | None \<Rightarrow> (unknown_state value)\<lparr> st_timer_target_raw := (if timer_raw = [] then None else Some timer_raw) \<rparr>)
            else
              (let literal = (if c \<in> {CHR ''S'', CHR ''s''} then strip rest else c # rest) in
               (unknown_state value)\<lparr> st_literal := Some literal,
                 st_kind := (case map_of STATE_LITERALS (text_token literal) of None \<Rightarrow> ''UNKNOWN'' | Some k \<Rightarrow> k) \<rparr>))
     | _ \<Rightarrow> unknown_state value)"

section \<open>Flags\<close>

record flag_state =
  fl_raw :: json
  fl_kind :: string
  fl_provider_code :: "int option"
  fl_provider_label :: "string option"

definition FLAG_BY_CODE :: "(int \<times> string \<times> string) list" where
  "FLAG_BY_CODE = [(-1, ''NOT_STARTED'', ''Not started''), (0, ''NOT_STARTED'', ''Not started''),
     (1, ''READY'', ''Ready''), (2, ''RED'', ''Red flag''), (3, ''SAFETY_CAR'', ''Safety car''),
     (4, ''CODE_60'', ''Code 60''), (5, ''FINISH'', ''Finish flag''), (6, ''GREEN'', ''Green flag''),
     (7, ''FULL_COURSE_YELLOW'', ''Full course yellow'')]"

definition FLAG_CODE_BY_LABEL :: "(string \<times> int) list" where
  "FLAG_CODE_BY_LABEL = [(''notstarted'', 0), (''ready'', 1), (''warmupflag'', 1), (''redflag'', 2),
     (''yellowflag'', 3), (''safetycar'', 3), (''purpleflag'', 4), (''code60'', 4), (''finishflag'', 5),
     (''greenflag'', 6), (''fullcourseyellow'', 7), (''fcy'', 7)]"

definition flag_code :: "json \<Rightarrow> int option" where
  "flag_code value =
    (case value of
       JNum (PyInt i) \<Rightarrow> Some i
     | JStr s \<Rightarrow>
        (let candidate = strip s in
         if ascii_digits candidate then Some (digits_value candidate)
         else if candidate \<noteq> [] \<and> hd candidate = CHR ''-'' \<and> ascii_digits (tl candidate)
         then Some (- digits_value (tl candidate))
         else None)
     | _ \<Rightarrow> None)"

definition canonical_flag :: "json \<Rightarrow> flag_state" where
  "canonical_flag value =
    (case flag_code value of
       Some code \<Rightarrow>
        (case map_of FLAG_BY_CODE code of
           Some (kind, label) \<Rightarrow> \<lparr> fl_raw = value, fl_kind = kind, fl_provider_code = Some code, fl_provider_label = Some label \<rparr>
         | None \<Rightarrow> \<lparr> fl_raw = value, fl_kind = ''UNKNOWN'', fl_provider_code = Some code, fl_provider_label = None \<rparr>)
     | None \<Rightarrow>
        (case value of
           JStr s \<Rightarrow>
            (let source_label = strip s in
             case map_of FLAG_CODE_BY_LABEL (text_token source_label) of
               Some label_code \<Rightarrow> \<lparr> fl_raw = value, fl_kind = fst (the (map_of FLAG_BY_CODE label_code)),
                 fl_provider_code = Some label_code, fl_provider_label = Some source_label \<rparr>
             | None \<Rightarrow> \<lparr> fl_raw = value, fl_kind = ''UNKNOWN'', fl_provider_code = None,
                 fl_provider_label = (if source_label = [] then None else Some source_label) \<rparr>)
         | _ \<Rightarrow> \<lparr> fl_raw = value, fl_kind = ''UNKNOWN'', fl_provider_code = None, fl_provider_label = None \<rparr>))"

end
