(* ===== verification/Provider_Records.thy ===== *)
theory Provider_Records
  imports Result_Schema
begin

text \<open>
  The typed reading of provider values in \<open>server/timing/normalization.py\<close>: integers, floats,
  booleans and text, the tracker tuple \<open>t_p\<close> and the compact statistics patch \<open>a_i\<close>/\<open>a_u\<close>.
  A float is the exact rational its text denotes. An integer or a decimal text beyond the
  float range is an \<open>OverflowError\<close> or an infinity, as in \<open>float\<close>.
\<close>

section \<open>Scalars\<close>

definition at_least :: "'a :: linorder option \<Rightarrow> 'a \<Rightarrow> 'a option" where
  "at_least minimum parsed =
    (case minimum of None \<Rightarrow> Some parsed | Some m \<Rightarrow> if m \<le> parsed then Some parsed else None)"

definition as_int :: "json \<Rightarrow> int option \<Rightarrow> int option" where
  "as_int value minimum =
    (case value of
       JNum (PyInt i) \<Rightarrow> at_least minimum i
     | JStr s \<Rightarrow> if ascii_digits (strip s) then at_least minimum (digits_value (strip s)) else None
     | _ \<Rightarrow> None)"

definition lower_ascii :: "string \<Rightarrow> string" where
  "lower_ascii s = map (\<lambda>c. if 65 \<le> code_point c \<and> code_point c \<le> 90 then char_of (code_point c + 32) else c) s"

text \<open>Digits with single underscores between them.\<close>

fun underscores_ok :: "string \<Rightarrow> bool" where
  "underscores_ok [] = False"
| "underscores_ok [c] = is_ascii_digit c"
| "underscores_ok (c # d # cs) =
    (is_ascii_digit c \<and> (if d = CHR ''_'' then underscores_ok cs else underscores_ok (d # cs)))"

definition digit_part :: "string \<Rightarrow> string option" where
  "digit_part s = (if underscores_ok s then Some (filter (\<lambda>c. c \<noteq> CHR ''_'') s) else None)"

definition sign_split :: "string \<Rightarrow> bool \<times> string" where
  "sign_split s =
    (case s of c # cs \<Rightarrow> if c = CHR ''-'' then (True, cs) else if c = CHR ''+'' then (False, cs) else (False, s)
     | [] \<Rightarrow> (False, []))"

definition exponent_value :: "string \<Rightarrow> int option" where
  "exponent_value s =
    (let (negative, body) = sign_split s
     in map_option (\<lambda>d. if negative then - digits_value d else digits_value d) (digit_part body))"

definition ten_power :: "int \<Rightarrow> rat" where
  "ten_power e = (if 0 \<le> e then 10 ^ nat e else 1 / 10 ^ nat (- e))"

definition mantissa_value :: "string \<Rightarrow> rat option" where
  "mantissa_value s =
    (let whole = takeWhile (\<lambda>c. c \<noteq> CHR ''.'') s;
         rest = dropWhile (\<lambda>c. c \<noteq> CHR ''.'') s;
         fraction = tl rest
     in if rest = [] then map_option (\<lambda>d. of_int (digits_value d)) (digit_part whole)
        else if whole = [] \<and> fraction = [] then None
        else (case (if whole = [] then Some [] else digit_part whole,
                    if fraction = [] then Some [] else digit_part fraction) of
                (Some w, Some f) \<Rightarrow> Some (of_int (digits_value (w @ f)) * ten_power (- int (length f)))
              | _ \<Rightarrow> None))"

definition FLOAT_OVERFLOW :: rat where "FLOAT_OVERFLOW = 2 ^ 1024 - 2 ^ 970"

text \<open>\<open>float(text)\<close>; \<open>None\<close> is its \<open>ValueError\<close>.\<close>

definition parse_float :: "string \<Rightarrow> pynum option" where
  "parse_float text =
    (let (negative, body) = sign_split (lower_ascii (strip text)) in
     if body = ''inf'' \<or> body = ''infinity'' then Some (if negative then PyNegInf else PyInf)
     else if body = ''nan'' then Some PyNaN
     else
       (let mantissa = takeWhile (\<lambda>c. c \<noteq> CHR ''e'') body;
            rest = dropWhile (\<lambda>c. c \<noteq> CHR ''e'') body
        in case (mantissa_value mantissa, if rest = [] then Some 0 else exponent_value (tl rest)) of
             (Some m, Some e) \<Rightarrow>
               (let v = m * ten_power e in
                if FLOAT_OVERFLOW \<le> v then Some (if negative then PyNegInf else PyInf)
                else Some (PyFloat (if negative then - v else v)))
           | _ \<Rightarrow> None))"

definition as_float :: "json \<Rightarrow> rat option \<Rightarrow> value_error + rat option" where
  "as_float value minimum =
    (let finite = (\<lambda>n. case finite_value n of None \<Rightarrow> None | Some q \<Rightarrow> at_least minimum q) in
     case value of
       JNum (PyInt i) \<Rightarrow>
         if FLOAT_OVERFLOW \<le> of_int (abs i) then Inl OverflowError else Inr (at_least minimum (of_int i))
     | JNum n \<Rightarrow> Inr (finite n)
     | JStr s \<Rightarrow> Inr (case parse_float (strip s) of None \<Rightarrow> None | Some n \<Rightarrow> finite n)
     | _ \<Rightarrow> Inr None)"

definition as_bool :: "json \<Rightarrow> bool option" where
  "as_bool value =
    (case value of
       JBool b \<Rightarrow> Some b
     | JNum (PyInt i) \<Rightarrow> if i = 0 then Some False else if i = 1 then Some True else None
     | JStr s \<Rightarrow>
        (let token = lower_ascii (strip s) in
         if token \<in> {''true'', ''1''} then Some True
         else if token \<in> {''false'', ''0''} then Some False else None)
     | _ \<Rightarrow> None)"

definition as_text :: "(json \<Rightarrow> string) \<Rightarrow> json \<Rightarrow> string option" where
  "as_text render value =
    (case value of
       JStr s \<Rightarrow> if strip s = [] then None else Some (strip s)
     | JNum n \<Rightarrow> Some (json_text render value)
     | _ \<Rightarrow> None)"

section \<open>Tracker passings\<close>

record tracker_passing =
  tp_raw :: json
  tp_transponder_id :: "string option"
  tp_start_number :: "string option"
  tp_distance_mm :: "int option"
  tp_stop_distance_mm :: "int option"
  tp_sector_id :: "int option"
  tp_speed_mm_s :: "int option"
  tp_speed_kph :: "rat option"
  tp_is_in_pit :: "bool option"
  tp_provider_passed_at_raw :: json
  tp_passed_at_ts_time :: "int option"
  tp_path_id :: "string option"
  tp_errors :: "string list"

definition field_item :: "json list \<Rightarrow> nat \<Rightarrow> json" where
  "field_item values i = (if i < length values then values ! i else JNull)"

definition parse_tracker_passing :: "(json \<Rightarrow> string) \<Rightarrow> json \<Rightarrow> value_error + tracker_passing" where
  "parse_tracker_passing render value =
    (case value of
       JList values \<Rightarrow>
        (let transponder_id = as_text render (field_item values 0);
             speed = as_int (field_item values 5) (Some 0);
             in_pit = as_bool (field_item values 6);
             passed_at = parse_ts_time (field_item values 7);
             errors = (if length values < 8 then [''truncated_tuple''] else [])
               @ (if transponder_id = None then [''invalid_transponder_id''] else [])
               @ (if speed = None then [''invalid_speed_mm_s''] else [])
               @ (if in_pit = None then [''invalid_is_in_pit''] else [])
               @ (if passed_at = None then [''invalid_passed_at''] else [])
         in if (case speed of None \<Rightarrow> False | Some v \<Rightarrow> FLOAT_OVERFLOW \<le> of_int v) then Inl OverflowError else Inr
            \<lparr> tp_raw = value, tp_transponder_id = transponder_id,
              tp_start_number = as_text render (field_item values 1),
              tp_distance_mm = as_int (field_item values 2) None,
              tp_stop_distance_mm = as_int (field_item values 3) None,
              tp_sector_id = as_int (field_item values 4) None,
              tp_speed_mm_s = speed, tp_speed_kph = map_option (\<lambda>v. of_int v * (36 / 10000)) speed,
              tp_is_in_pit = in_pit, tp_provider_passed_at_raw = field_item values 7,
              tp_passed_at_ts_time = passed_at, tp_path_id = as_text render (field_item values 8),
              tp_errors = errors \<rparr>)
     | _ \<Rightarrow> Inr \<lparr> tp_raw = value, tp_transponder_id = None, tp_start_number = None, tp_distance_mm = None,
              tp_stop_distance_mm = None, tp_sector_id = None, tp_speed_mm_s = None, tp_speed_kph = None,
              tp_is_in_pit = None, tp_provider_passed_at_raw = JNull, tp_passed_at_ts_time = None,
              tp_path_id = None, tp_errors = [''expected_tuple''] \<rparr>)"

section \<open>Statistics\<close>

record best_lap_record =
  bl_provider_key :: string
  bl_lap_number :: "int option"
  bl_lap_time_us :: "int option"
  bl_occurred_at_ts_time :: "int option"
  bl_average_speed_kph :: "rat option"
  bl_driver_name :: "string option"
  bl_team_name :: "string option"
  bl_vehicle_name :: "string option"
  bl_start_number :: "string option"
  bl_class_name :: "string option"
  bl_class_order :: "int option"

record caution_period =
  cp_provider_key :: string
  cp_flag :: flag_state
  cp_started_at_raw :: json
  cp_started_at_ts_time :: "int option"
  cp_ended_at_raw :: json
  cp_ended_at_ts_time :: "int option"
  cp_is_open :: bool
  cp_clock_stopped_raw :: json
  cp_clock_stopped :: "bool option"
  cp_remark :: "string option"

record leader_history_record =
  lh_provider_key :: string
  lh_occurred_at_raw :: json
  lh_occurred_at_ts_time :: "int option"
  lh_lap_number :: "int option"
  lh_start_number :: "string option"
  lh_team_name :: "string option"
  lh_driver_name :: "string option"
  lh_vehicle_name :: "string option"

record leader_lap_aggregate =
  la_provider_key :: string
  la_leader_laps :: "int option"
  la_team_name :: "string option"
  la_vehicle_name :: "string option"
  la_start_number :: "string option"

record statistics_update =
  su_summary :: "(string \<times> json) list"
  su_best_lap_history :: "best_lap_record list"
  su_best_lap_per_class :: "best_lap_record list"
  su_caution_periods :: "caution_period list"
  su_leader_history :: "leader_history_record list"
  su_leader_lap_aggregates :: "leader_lap_aggregate list"
  su_truncations :: "(string \<times> int) list"
  su_unknown_keys :: "string list"
  su_errors :: "string list"

definition STATISTICS_COUNTERS :: "(string \<times> string) list" where
  "STATISTICS_COUNTERS =
    [(''p'', ''participants_started''), (''a'', ''participants_classified''),
     (''n'', ''participants_not_classified''), (''pt'', ''participants_on_track''),
     (''pp'', ''participants_in_pit_zone''), (''ptz'', ''participants_in_tank_zone''),
     (''o'', ''total_laps''), (''x'', ''total_pitstops''), (''e'', ''leader_laps_green''),
     (''y'', ''leader_laps_safety_car''), (''r'', ''leader_laps_code_60''),
     (''fy'', ''leader_laps_full_course_yellow''), (''c'', ''safety_car_count''),
     (''s'', ''code_60_count''), (''fc'', ''full_course_yellow_count'')]"

definition STATISTICS_DURATIONS_RAW :: "(string \<times> string) list" where
  "STATISTICS_DURATIONS_RAW =
    [(''u'', ''safety_car_total_time_raw''), (''t'', ''code_60_total_time_raw''),
     (''fu'', ''full_course_yellow_total_time_raw'')]"

definition FLAG_TIMES :: "(string \<times> string) list" where
  "FLAG_TIMES = [(''g'', ''green_flag_ts_time''), (''f'', ''finish_flag_ts_time'')]"

definition COLLECTIONS :: "string list" where "COLLECTIONS = [''b'', ''q'', ''i'', ''l'', ''d'']"

definition record_items :: "(string \<times> json) list \<Rightarrow> (string \<times> (string \<times> json) list) list" where
  "record_items items = List.map_filter (\<lambda>(k, v). case v of JObj d \<Rightarrow> Some (k, d) | _ \<Rightarrow> None) items"

definition record_sort_key :: "string \<times> 'a \<Rightarrow> nat \<times> int \<times> string" where
  "record_sort_key item =
    (if ascii_digits (fst item) then (0, digits_value (fst item), []) else (1, 0, fst item))"

definition ordered_records :: "json \<Rightarrow> (string \<times> (string \<times> json) list) list" where
  "ordered_records value =
    (case value of
       JObj d \<Rightarrow> sort_key record_sort_key (record_items d)
     | JList xs \<Rightarrow> sort_key record_sort_key
         (record_items (map (\<lambda>(i, v). (int_text (int i), v)) (enumerate 1 xs)))
     | _ \<Rightarrow> [])"

definition best_lap_of ::
    "(json \<Rightarrow> string) \<Rightarrow> string \<times> (string \<times> json) list \<Rightarrow> value_error + best_lap_record" where
  "best_lap_of render item = (case item of (key, d) \<Rightarrow>
    map_sum id (\<lambda>speed.
      \<lparr> bl_provider_key = key, bl_lap_number = as_int (jget ''r'' d) (Some 0),
        bl_lap_time_us = as_int (jget ''i'' d) (Some 0), bl_occurred_at_ts_time = parse_ts_time (jget ''t'' d),
        bl_average_speed_kph = speed, bl_driver_name = as_text render (jget ''d'' d),
        bl_team_name = as_text render (jget ''n'' d), bl_vehicle_name = as_text render (jget ''c'' d),
        bl_start_number = as_text render (jget ''s'' d), bl_class_name = as_text render (jget ''m'' d),
        bl_class_order = as_int (jget ''p'' d) (Some 0) \<rparr>)
    (as_float (jget ''a'' d) (Some 0)))"

definition best_lap_records :: "(json \<Rightarrow> string) \<Rightarrow> json \<Rightarrow> value_error + best_lap_record list" where
  "best_lap_records render value = traverse (best_lap_of render) (ordered_records value)"

definition caution_periods :: "(json \<Rightarrow> string) \<Rightarrow> json \<Rightarrow> caution_period list" where
  "caution_periods render value = map (\<lambda>(key, d).
      \<lparr> cp_provider_key = key, cp_flag = canonical_flag (jget ''k'' d),
        cp_started_at_raw = jget ''f'' d, cp_started_at_ts_time = parse_ts_time (jget ''f'' d),
        cp_ended_at_raw = jget ''t'' d,
        cp_ended_at_ts_time = (if is_open_ended_ts_time (jget ''t'' d) then None else parse_ts_time (jget ''t'' d)),
        cp_is_open = is_open_ended_ts_time (jget ''t'' d), cp_clock_stopped_raw = jget ''s'' d,
        cp_clock_stopped = as_bool (jget ''s'' d), cp_remark = as_text render (jget ''r'' d) \<rparr>)
    (ordered_records value)"

definition leader_history_records :: "(json \<Rightarrow> string) \<Rightarrow> json \<Rightarrow> leader_history_record list" where
  "leader_history_records render value = map (\<lambda>(key, d).
      \<lparr> lh_provider_key = key, lh_occurred_at_raw = jget ''f'' d,
        lh_occurred_at_ts_time = parse_ts_time (jget ''f'' d), lh_lap_number = as_int (jget ''l'' d) (Some 0),
        lh_start_number = as_text render (jget ''s'' d), lh_team_name = as_text render (jget ''n'' d),
        lh_driver_name = as_text render (jget ''d'' d), lh_vehicle_name = as_text render (jget ''c'' d) \<rparr>)
    (ordered_records value)"

definition leader_lap_aggregates :: "(json \<Rightarrow> string) \<Rightarrow> json \<Rightarrow> leader_lap_aggregate list" where
  "leader_lap_aggregates render value = map (\<lambda>(key, d).
      \<lparr> la_provider_key = key, la_leader_laps = as_int (jget ''e'' d) (Some 0),
        la_team_name = as_text render (jget ''n'' d), la_vehicle_name = as_text render (jget ''c'' d),
        la_start_number = as_text render (jget ''s'' d) \<rparr>)
    (ordered_records value)"

text \<open>
  The typed fields of a patch: a key that is present contributes either a summary entry or
  an error. \<open>order\<close> is the iteration order of the frozen set of collection names, which
  Python does not fix.
\<close>

definition put_field ::
    "(json \<Rightarrow> json option) \<Rightarrow> (string \<times> json) list \<Rightarrow> string \<times> string
      \<Rightarrow> (string \<times> json) list \<times> string list \<Rightarrow> (string \<times> json) list \<times> string list" where
  "put_field read payload entry acc =
    (case (entry, acc) of ((key, field_name), (summary, errors)) \<Rightarrow>
      (case map_of payload key of
         None \<Rightarrow> acc
       | Some v \<Rightarrow>
          (case read v of
             None \<Rightarrow> (summary, errors @ [''invalid_'' @ field_name])
           | Some j \<Rightarrow> (AList.update field_name j summary, errors))))"

definition statistics_summary ::
    "(json \<Rightarrow> string) \<Rightarrow> (string \<times> json) list \<Rightarrow> (string \<times> json) list \<times> string list" where
  "statistics_summary render payload =
    fold (put_field (\<lambda>v. map_option JInt (parse_ts_time v)) payload) FLAG_TIMES
      (fold (put_field Some payload) STATISTICS_DURATIONS_RAW
        (fold (put_field (\<lambda>v. map_option JInt (as_int v (Some 0))) payload) STATISTICS_COUNTERS
          (put_field (\<lambda>v. map_option JStr (as_text render v)) payload (''h'', ''heat_name'') ([], []))))"

definition put_truncation ::
    "(string \<times> json) list \<Rightarrow> string \<Rightarrow> (string \<times> int) list \<times> string list \<Rightarrow> (string \<times> int) list \<times> string list" where
  "put_truncation payload key acc =
    (case acc of (truncations, errors) \<Rightarrow>
      (case map_of payload (key @ ''C'') of
         None \<Rightarrow> acc
       | Some v \<Rightarrow>
          (case as_int v (Some 0) of
             None \<Rightarrow> (truncations, errors @ [''invalid_'' @ key @ ''C''])
           | Some n \<Rightarrow> (AList.update key n truncations, errors))))"

definition known_statistics_keys :: "string list" where
  "known_statistics_keys = map fst STATISTICS_COUNTERS @ map fst STATISTICS_DURATIONS_RAW
     @ [''h'', ''g'', ''f''] @ COLLECTIONS @ map (\<lambda>k. k @ ''C'') COLLECTIONS"

definition normalize_statistics_update ::
    "(json \<Rightarrow> string) \<Rightarrow> string list \<Rightarrow> json \<Rightarrow> value_error + statistics_update" where
  "normalize_statistics_update render order payload =
    (case payload of
       JObj d \<Rightarrow>
        (let (summary, errors) = statistics_summary render d;
             (truncations, errors) = fold (put_truncation d) order ([], errors)
         in case best_lap_records render (jget ''b'' d) of
              Inl e \<Rightarrow> Inl e
            | Inr history \<Rightarrow>
               (case best_lap_records render (jget ''q'' d) of
                  Inl e \<Rightarrow> Inl e
                | Inr per_class \<Rightarrow> Inr
                   \<lparr> su_summary = summary, su_best_lap_history = history, su_best_lap_per_class = per_class,
                     su_caution_periods = caution_periods render (jget ''i'' d),
                     su_leader_history = leader_history_records render (jget ''l'' d),
                     su_leader_lap_aggregates = leader_lap_aggregates render (jget ''d'' d),
                     su_truncations = truncations,
                     su_unknown_keys = sort (filter (\<lambda>k. k \<notin> set known_statistics_keys) (map fst d)),
                     su_errors = errors \<rparr>))
     | _ \<Rightarrow> Inr \<lparr> su_summary = [], su_best_lap_history = [], su_best_lap_per_class = [],
             su_caution_periods = [], su_leader_history = [], su_leader_lap_aggregates = [],
             su_truncations = [], su_unknown_keys = [], su_errors = [''expected_object''] \<rparr>)"

section \<open>Properties\<close>

lemma mismatch_None_iff:
  "binding_mismatch_of columns b = None \<longleftrightarrow>
    observed_columns columns b = [] \<or>
    length (observed_columns columns b) = 1 \<and> length (exact_columns columns b) = 1"
  by (auto simp: binding_mismatch_of_def Let_def)

lemma exact_single:
  "length (observed_columns columns b) = 1 \<and> length (exact_columns columns b) = 1 \<longleftrightarrow>
    (\<exists>c. observed_columns columns b = [c] \<and> is_exact_column b c)"
  by (auto simp: exact_columns_def length_Suc_conv split: if_splits)

lemma required_keys_disjoint:
  "b \<in> set CURRENT_RESULT_SCHEMA_OPTIONAL \<Longrightarrow> b_key b \<notin> b_key ` set CURRENT_RESULT_SCHEMA_REQUIRED"
  by (auto simp: CURRENT_RESULT_SCHEMA_OPTIONAL_def CURRENT_RESULT_SCHEMA_REQUIRED_def binding_of_def)

text \<open>A layout passes the contract exactly when every required field is carried by one column
  and no other, under its known wire header and parameter, and every optional field is
  either absent or carried the same way; the position of the columns plays no part.\<close>
theorem schema_current_iff:
  "sv_status (validate_current_result_schema columns) = CURRENT \<longleftrightarrow>
    list_all (\<lambda>b. \<exists>c. observed_columns columns b = [c] \<and> is_exact_column b c) CURRENT_RESULT_SCHEMA_REQUIRED \<and>
    list_all (\<lambda>b. observed_columns columns b = [] \<or> (\<exists>c. observed_columns columns b = [c] \<and> is_exact_column b c))
      CURRENT_RESULT_SCHEMA_OPTIONAL"
proof -
  have mf: "List.map_filter f xs = [] \<longleftrightarrow> list_all (\<lambda>x. f x = None) xs" for f :: "'x \<Rightarrow> 'y option" and xs
    by (auto simp: map_filter_def filter_empty_conv list_all_iff)
  have logic: "((\<forall>b \<in> set R. N b) \<and> (\<forall>b \<in> set (R @ T). ob b \<or> E b)) =
      ((\<forall>b \<in> set R. E b) \<and> (\<forall>b \<in> set T. ob b \<or> E b))"
    if "\<And>b. E b \<Longrightarrow> N b" "\<And>b. N b \<Longrightarrow> \<not> ob b" for R T N E and ob :: "result_schema_binding \<Rightarrow> bool"
    using that unfolding set_append ball_Un by blast
  have ex: "\<exists>c. observed_columns columns b = [c] \<and> is_exact_column b c \<Longrightarrow> exact_columns columns b \<noteq> []" for b
    by (auto simp: exact_columns_def)
  have obs: "exact_columns columns b \<noteq> [] \<Longrightarrow> \<not> observed_columns columns b = []" for b
    by (auto simp: exact_columns_def)
  have "sv_status (validate_current_result_schema columns) = CURRENT \<longleftrightarrow>
     list_all (\<lambda>b. exact_columns columns b \<noteq> []) CURRENT_RESULT_SCHEMA_REQUIRED \<and>
     list_all (\<lambda>b. binding_mismatch_of columns b = None) (CURRENT_RESULT_SCHEMA_REQUIRED @ CURRENT_RESULT_SCHEMA_OPTIONAL)"
  proof -
    have r: "filter (\<lambda>b. b_key b \<in> b_key ` set CURRENT_RESULT_SCHEMA_REQUIRED \<and> exact_columns columns b = [])
        (CURRENT_RESULT_SCHEMA_REQUIRED @ CURRENT_RESULT_SCHEMA_OPTIONAL) = [] \<longleftrightarrow>
      list_all (\<lambda>b. exact_columns columns b \<noteq> []) CURRENT_RESULT_SCHEMA_REQUIRED"
      unfolding filter_empty_conv list_all_iff using required_keys_disjoint by auto
    have ite: "(if P then CURRENT else DEGRADED) = CURRENT \<longleftrightarrow> P" for P by simp
    have "sv_status (validate_current_result_schema columns) =
      (if map b_key (filter (\<lambda>b. b_key b \<in> b_key ` set CURRENT_RESULT_SCHEMA_REQUIRED \<and> exact_columns columns b = [])
            (CURRENT_RESULT_SCHEMA_REQUIRED @ CURRENT_RESULT_SCHEMA_OPTIONAL)) = [] \<and>
          List.map_filter (binding_mismatch_of columns) (CURRENT_RESULT_SCHEMA_REQUIRED @ CURRENT_RESULT_SCHEMA_OPTIONAL) = []
       then CURRENT else DEGRADED)"
      by (simp only: validate_current_result_schema_def Let_def schema_validation.select_convs set_map)
    from this [unfolded map_is_Nil_conv r mf] show ?thesis by (rule ssubst) (rule ite)
  qed
  then show ?thesis
    unfolding list_all_append mismatch_None_iff exact_single list_all_iff by (rule trans) (rule logic [OF ex obs])
qed

text \<open>A state cell keeps its source text, is on track exactly when it carries a provider timer,
  and every timer a cell can carry is read back from \<open>E\<close> followed by its decimal text,
  in either case of the letter and with surrounding blanks.\<close>
theorem state_timer_round_trip:
  assumes "0 \<le> t" "t \<noteq> OPEN_ENDED_TS_TIME" "c \<in> {CHR ''E'', CHR ''e''}"
  shows "parse_result_state (JStr (c # int_text t)) =
      \<lparr> st_raw = JStr (c # int_text t), st_kind = ''ON_TRACK'', st_literal = None,
        st_timer_target_raw = Some (int_text t), st_timer_target_ts_time = Some t \<rparr> \<and>
    st_raw (parse_result_state v) = v \<and>
    (st_kind (parse_result_state v) = ''ON_TRACK'' \<longleftrightarrow> st_timer_target_ts_time (parse_result_state v) \<noteq> None) \<and>
    st_timer_target_ts_time (parse_result_state v) \<noteq> Some OPEN_ENDED_TS_TIME"
proof -
  have d: "ascii_digits (int_text t)" "digits_value (int_text t) = t" using int_text_digits assms(1) by auto
  have "\<not> is_py_space c" using assms(3) by (auto simp: is_py_space_def Let_def)
  moreover have "list_all (\<lambda>c. \<not> is_py_space c) (int_text t)"
    using d(1) digit_not_space by (auto simp: ascii_digits_def list_all_iff)
  ultimately have s: "strip (c # int_text t) = c # int_text t" by (intro strip_id) simp
  have "parse_ts_time (JStr (int_text t)) = Some t" using parse_ts_digits d by simp
  then have first: "parse_result_state (JStr (c # int_text t)) =
      \<lparr> st_raw = JStr (c # int_text t), st_kind = ''ON_TRACK'', st_literal = None,
        st_timer_target_raw = Some (int_text t), st_timer_target_ts_time = Some t \<rparr>"
    using assms d(1) by (auto simp: parse_result_state_def s unknown_state_def Let_def)
  have nt: "(case map_of STATE_LITERALS k of None \<Rightarrow> ''UNKNOWN'' | Some x \<Rightarrow> x) \<noteq> ''ON_TRACK''" for k
    by (simp add: STATE_LITERALS_def)
  have "st_raw (parse_result_state v) = v \<and>
    (st_kind (parse_result_state v) = ''ON_TRACK'' \<longleftrightarrow> st_timer_target_ts_time (parse_result_state v) \<noteq> None) \<and>
    st_timer_target_ts_time (parse_result_state v) \<noteq> Some OPEN_ENDED_TS_TIME"
  proof (cases v)
    case (JStr raw)
    show ?thesis
    proof (cases "strip raw")
      case (Cons c rest)
      show ?thesis
      proof (cases "c \<in> {CHR ''E'', CHR ''e''}")
        case True
        then show ?thesis
          by (cases "parse_ts_time (JStr (strip rest))")
             (simp_all add: parse_result_state_def JStr Cons unknown_state_def Let_def)
      next
        case False
        then show ?thesis by (simp add: parse_result_state_def JStr Cons unknown_state_def Let_def nt)
      qed
    qed (simp add: parse_result_state_def JStr unknown_state_def)
  qed (simp_all add: parse_result_state_def unknown_state_def)
  with first show ?thesis by blast
qed

theorem state_timer_round_trip_witness:
  "st_timer_target_ts_time (parse_result_state (JStr (CHR ''e'' # int_text 845123))) = Some 845123"
  using state_timer_round_trip [of 845123 "CHR ''e''" JNull] by (simp add: OPEN_ENDED_TS_TIME_def)

text \<open>The two flag tables agree: a known code gives the same flag as a number, as its decimal
  text and as the label the provider shows for it.\<close>
theorem flag_code_and_label_agree:
  assumes "map_of FLAG_BY_CODE code = Some (kind, label)"
  shows "fl_kind (canonical_flag (JInt code)) = kind \<and>
    fl_kind (canonical_flag (JStr (int_text code))) = kind \<and> fl_kind (canonical_flag (JStr label)) = kind \<and>
    fl_provider_label (canonical_flag (JStr label)) = Some label"
proof -
  have "(code, kind, label) \<in> set FLAG_BY_CODE" using assms by (rule map_of_SomeD)
  moreover have "list_all (\<lambda>(code, kind, label). fl_kind (canonical_flag (JInt code)) = kind \<and>
    fl_kind (canonical_flag (JStr (int_text code))) = kind \<and> fl_kind (canonical_flag (JStr label)) = kind \<and>
    fl_provider_label (canonical_flag (JStr label)) = Some label) FLAG_BY_CODE" by code_simp
  ultimately show ?thesis by (auto simp: list_all_iff)
qed

theorem flag_code_and_label_agree_witness: "fl_kind (canonical_flag (JStr ''Safety car'')) = ''SAFETY_CAR''"
  using flag_code_and_label_agree [of 3 "''SAFETY_CAR''" "''Safety car''"] by (simp add: FLAG_BY_CODE_def)

lemma put_field_fold_errors:
  "set (snd acc) \<subseteq> set (snd (fold (put_field read payload) entries acc))"
proof (induction entries arbitrary: acc)
  case (Cons e entries)
  have "set (snd acc) \<subseteq> set (snd (put_field read payload e acc))"
    by (cases e; cases acc) (auto simp: put_field_def split: option.splits)
  then show ?case using Cons.IH by fastforce
qed simp

lemma put_field_fold_other:
  "f \<notin> snd ` set entries \<Longrightarrow> map_of (fst (fold (put_field read payload) entries acc)) f = map_of (fst acc) f"
proof (induction entries arbitrary: acc)
  case (Cons e entries)
  have "map_of (fst (put_field read payload e acc)) f = map_of (fst acc) f"
    using Cons.prems by (cases e; cases acc) (auto simp: put_field_def update_conv split: option.splits)
  then show ?case using Cons by simp
qed simp

lemma put_field_fold:
  assumes "distinct (map snd entries)" "(k, f) \<in> set entries" "map_of payload k = Some v"
  shows "case read v of
      Some j \<Rightarrow> map_of (fst (fold (put_field read payload) entries acc)) f = Some j
    | None \<Rightarrow> ''invalid_'' @ f \<in> set (snd (fold (put_field read payload) entries acc))"
  using assms
proof (induction entries arbitrary: acc)
  case (Cons e entries)
  show ?case
  proof (cases "e = (k, f)")
    case True
    then have nf: "f \<notin> snd ` set entries" using Cons.prems(1) by simp
    have one: "case read v of Some j \<Rightarrow> map_of (fst (put_field read payload e acc)) f = Some j
        | None \<Rightarrow> ''invalid_'' @ f \<in> set (snd (put_field read payload e acc))"
      using True Cons.prems(3) by (cases acc) (auto simp: put_field_def update_conv split: option.splits)
    then show ?thesis
      using put_field_fold_other [OF nf, of read payload "put_field read payload e acc"]
        put_field_fold_errors [of "put_field read payload e acc" read payload entries]
      by (auto split: option.splits)
  next
    case False
    then have "(k, f) \<in> set entries" using Cons.prems(2) by simp
    then show ?thesis
      using Cons.IH [of "put_field read payload e acc"] Cons.prems(1,3) unfolding fold_simps by simp
  qed
qed simp

lemma summary_counter:
  assumes "(k, f) \<in> set STATISTICS_COUNTERS" "map_of d k = Some v"
  shows "case as_int v (Some 0) of
      Some n \<Rightarrow> map_of (fst (statistics_summary render d)) f = Some (JInt n)
    | None \<Rightarrow> ''invalid_'' @ f \<in> set (snd (statistics_summary render d))"
proof -
  let ?read = "\<lambda>v. map_option JInt (as_int v (Some 0))"
  let ?a0 = "put_field (\<lambda>v. map_option JStr (as_text render v)) d (''h'', ''heat_name'') ([], [])"
  let ?a1 = "fold (put_field ?read d) STATISTICS_COUNTERS ?a0"
  let ?a2 = "fold (put_field Some d) STATISTICS_DURATIONS_RAW ?a1"
  have dist: "distinct (map snd STATISTICS_COUNTERS)" by (simp add: STATISTICS_COUNTERS_def)
  have "f \<in> snd ` set STATISTICS_COUNTERS" using assms(1) by force
  then have nf: "f \<notin> snd ` set STATISTICS_DURATIONS_RAW" "f \<notin> snd ` set FLAG_TIMES"
    by (auto simp: STATISTICS_COUNTERS_def STATISTICS_DURATIONS_RAW_def FLAG_TIMES_def)
  have s: "statistics_summary render d = fold (put_field (\<lambda>v. map_option JInt (parse_ts_time v)) d) FLAG_TIMES ?a2"
    by (simp add: statistics_summary_def)
  show ?thesis unfolding s
    using put_field_fold [OF dist assms, of ?read ?a0] put_field_fold_other [OF nf(1), of Some d ?a1]
      put_field_fold_other [OF nf(2), of "\<lambda>v. map_option JInt (parse_ts_time v)" d ?a2]
      put_field_fold_errors [of ?a1 Some d STATISTICS_DURATIONS_RAW]
      put_field_fold_errors [of ?a2 "\<lambda>v. map_option JInt (parse_ts_time v)" d FLAG_TIMES]
    by (auto split: option.splits)
qed

lemma put_truncation_errors:
  "set (snd acc) \<subseteq> set (snd (fold (put_truncation payload) order acc))"
proof (induction order arbitrary: acc)
  case (Cons k order)
  have "set (snd acc) \<subseteq> set (snd (put_truncation payload k acc))"
    by (cases acc) (auto simp: put_truncation_def split: option.splits)
  then show ?case using Cons.IH by fastforce
qed simp

text \<open>No key of a statistics patch is lost: a counter that is present is either in the summary
  with exactly its value or reported as invalid, and a key outside the known vocabulary is
  reported as unknown, whatever order the collections are visited in.\<close>
theorem statistics_account_for_every_key:
  assumes "normalize_statistics_update render order (JObj d) = Inr u" "map_of d k = Some v"
  shows "(k \<in> set known_statistics_keys \<or> k \<in> set (su_unknown_keys u)) \<and>
    ((k, f) \<in> set STATISTICS_COUNTERS \<longrightarrow>
      (case as_int v (Some 0) of
         Some n \<Rightarrow> map_of (su_summary u) f = Some (JInt n)
       | None \<Rightarrow> ''invalid_'' @ f \<in> set (su_errors u)))"
proof -
  obtain s e where se: "statistics_summary render d = (s, e)" by (cases "statistics_summary render d")
  obtain t e' where te: "fold (put_truncation d) order ([], e) = (t, e')"
    by (cases "fold (put_truncation d) order ([], e)")
  have u: "su_summary u = s" "su_errors u = e'"
    "su_unknown_keys u = sort (filter (\<lambda>k. k \<notin> set known_statistics_keys) (map fst d))"
    using assms(1) se te by (auto simp: normalize_statistics_update_def Let_def split: sum.splits)
  have "set e \<subseteq> set e'" using put_truncation_errors [of "([], e)" d order] te by simp
  moreover have "k \<in> fst ` set d" using assms(2) map_of_SomeD by force
  ultimately show ?thesis using summary_counter [OF _ assms(2), of f render] se u
    by (auto split: option.splits)
qed

theorem statistics_account_for_every_key_witness:
  "\<exists>u. normalize_statistics_update (\<lambda>_. []) COLLECTIONS
      (JObj [(''p'', JStr ''12''), (''zz'', JNull), (''o'', JInt (-1))]) = Inr u \<and>
    map_of (su_summary u) ''participants_started'' = Some (JInt 12)"
proof -
  let ?d = "[(''p'', JStr ''12''), (''zz'', JNull), (''o'', JInt (-1))]"
  have "case normalize_statistics_update (\<lambda>_. []) COLLECTIONS (JObj ?d) of Inl e \<Rightarrow> False | Inr u \<Rightarrow> True"
    by code_simp
  then obtain u where u: "normalize_statistics_update (\<lambda>_. []) COLLECTIONS (JObj ?d) = Inr u"
    by (cases "normalize_statistics_update (\<lambda>_. []) COLLECTIONS (JObj ?d)") auto
  have "as_int (JStr ''12'') (Some 0) = Some 12" by code_simp
  then show ?thesis using statistics_account_for_every_key [OF u, of "''p''" "JStr ''12''" "''participants_started''"] u
    by (auto simp: STATISTICS_COUNTERS_def)
qed

end
