(* ===== verification/Result_Grid.thy ===== *)
theory Result_Grid
  imports Result_Schema
begin

text \<open>
  \<open>server/timing/result_grid.py\<close>: the reducer of the provider's sparse result grid. A
  dictionary is an association list in insertion order; \<open>copy.deepcopy\<close> is the identity on
  values. \<open>render\<close> is \<open>str\<close> on floats, lists and objects, as in the layout reader.
\<close>

section \<open>State\<close>

record result_cell =
  cell_value :: json
  cell_presentation :: "json list"

record result_grid =
  layout :: json
  columns :: "(int \<times> result_column) list"
  rows :: "(int \<times> (int \<times> result_cell) list) list"
  metadata_changes :: "json list list"
  layout_generation :: int
  schema_pending :: bool
  schema_conflicts :: "(string \<times> int list) list"

definition empty_grid :: result_grid where
  "empty_grid = \<lparr> layout = JNull, columns = [], rows = [], metadata_changes = [],
     layout_generation = 0, schema_pending = True, schema_conflicts = [] \<rparr>"

text \<open>\<open>d.setdefault(key, []).append(x)\<close>\<close>

definition append_at :: "'k \<Rightarrow> 'v \<Rightarrow> ('k \<times> 'v list) list \<Rightarrow> ('k \<times> 'v list) list" where
  "append_at key x d = AList.update key ((case map_of d key of None \<Rightarrow> [] | Some xs \<Rightarrow> xs) @ [x]) d"

definition indexes_by_key :: "(int \<times> result_column) list \<Rightarrow> (string \<times> int list) list" where
  "indexes_by_key cols =
    fold (\<lambda>(index, column) d. case rc_key column of None \<Rightarrow> d | Some key \<Rightarrow> append_at key index d) cols []"

definition find_schema_conflicts :: "(int \<times> result_column) list \<Rightarrow> (string \<times> int list) list" where
  "find_schema_conflicts cols = filter (\<lambda>(key, indexes). 1 < length indexes) (indexes_by_key cols)"

definition schema_ready :: "result_grid \<Rightarrow> bool" where
  "schema_ready g = (layout g \<noteq> JNull \<and> \<not> schema_pending g \<and> schema_conflicts g = [])"

section \<open>Layouts\<close>

definition set_layout :: "(json \<Rightarrow> string) \<Rightarrow> json \<Rightarrow> result_grid \<Rightarrow> result_grid" where
  "set_layout render new_layout g =
    g\<lparr> layout := new_layout, columns := result_columns render new_layout, rows := [],
       schema_pending := True,
       schema_conflicts := find_schema_conflicts (result_columns render new_layout),
       layout_generation := layout_generation g + 1 \<rparr>"

datatype column_identity = Canonical string | Raw string "string option"

definition column_identity :: "result_column \<Rightarrow> column_identity" where
  "column_identity column =
    (case rc_key column of
       Some key \<Rightarrow> Canonical key
     | None \<Rightarrow> Raw (rc_source_name column) (rc_source_parameter column))"

definition indexes_by_identity :: "(int \<times> result_column) list \<Rightarrow> (column_identity \<times> int list) list" where
  "indexes_by_identity cols = fold (\<lambda>(index, column) d. append_at (column_identity column) index d) cols []"

definition remap_cells ::
    "(int \<times> result_column) list \<Rightarrow> (column_identity \<times> int list) list
      \<Rightarrow> (int \<times> result_cell) list \<Rightarrow> (int \<times> result_cell) list" where
  "remap_cells previous_columns next_indexes cells =
    fold (\<lambda>(old_index, cell) next_cells.
        case map_of previous_columns old_index of
          None \<Rightarrow> next_cells
        | Some old_column \<Rightarrow>
            (case map_of next_indexes (column_identity old_column) of
               Some [candidate] \<Rightarrow> AList.update candidate cell next_cells
             | _ \<Rightarrow> next_cells))
      cells []"

definition remap_rows ::
    "(int \<times> result_column) list \<Rightarrow> (column_identity \<times> int list) list
      \<Rightarrow> (int \<times> (int \<times> result_cell) list) list \<Rightarrow> (int \<times> (int \<times> result_cell) list) list" where
  "remap_rows previous_columns next_indexes previous_rows =
    fold (\<lambda>(row_index, cells) remapped.
        let next_cells = remap_cells previous_columns next_indexes cells
        in if next_cells \<noteq> [] then AList.update row_index next_cells remapped else remapped)
      previous_rows []"

definition apply_layout_update :: "(json \<Rightarrow> string) \<Rightarrow> json \<Rightarrow> result_grid \<Rightarrow> result_grid" where
  "apply_layout_update render next_layout g =
    (let previous_rows = (if schema_ready g then rows g else []);
         next_columns = result_columns render next_layout;
         next_conflicts = find_schema_conflicts next_columns;
         remapped = (if next_conflicts = []
                     then remap_rows (columns g) (indexes_by_identity next_columns) previous_rows
                     else [])
     in g\<lparr> layout := next_layout, columns := next_columns, rows := remapped, schema_pending := False,
           schema_conflicts := next_conflicts, layout_generation := layout_generation g + 1 \<rparr>)"

section \<open>Cells\<close>

definition change_rows :: "json \<Rightarrow> json list list" where
  "change_rows value =
    (case value of
       JList items \<Rightarrow> List.map_filter (\<lambda>item. case item of JList change \<Rightarrow> Some change | _ \<Rightarrow> None) items
     | _ \<Rightarrow> [])"

text \<open>The addressed cell of a sparse change, when it is a data row.\<close>

definition change_cell :: "json list \<Rightarrow> (int \<times> int \<times> result_cell) option" where
  "change_cell change =
    (case change of
       JNum (PyInt row_index) # JNum (PyInt column_index) # value # presentation \<Rightarrow>
         if row_index < 0 \<or> column_index < 0 then None
         else Some (row_index, column_index, \<lparr> cell_value = value, cell_presentation = presentation \<rparr>)
     | _ \<Rightarrow> None)"

definition row_cells :: "int \<Rightarrow> result_grid \<Rightarrow> (int \<times> result_cell) list" where
  "row_cells row_index g = (case map_of (rows g) row_index of None \<Rightarrow> [] | Some cells \<Rightarrow> cells)"

definition apply_change :: "json list \<Rightarrow> result_grid \<Rightarrow> result_grid" where
  "apply_change change g =
    (case change_cell change of
       None \<Rightarrow> g\<lparr> metadata_changes := metadata_changes g @ [change] \<rparr>
     | Some (row_index, column_index, cell) \<Rightarrow>
        if \<not> schema_ready g then g
        else g\<lparr> rows := AList.update row_index (AList.update column_index cell (row_cells row_index g)) (rows g) \<rparr>)"

definition apply_changes :: "json \<Rightarrow> result_grid \<Rightarrow> result_grid" where
  "apply_changes payload g =
    (let g' = fold apply_change (change_rows payload) g
     in g'\<lparr> metadata_changes := last_n 200 (metadata_changes g') \<rparr>)"

definition apply_snapshot :: "(json \<Rightarrow> string) \<Rightarrow> json \<Rightarrow> result_grid \<Rightarrow> result_grid" where
  "apply_snapshot render payload g =
    (case payload of
       JObj d \<Rightarrow>
        (let new_layout = jget ''l'' d;
             g1 = (if new_layout \<noteq> JNull then set_layout render new_layout g else g);
             g2 = g1\<lparr> rows := [], metadata_changes := [] \<rparr>
         in if layout g2 = JNull then g2\<lparr> schema_pending := True \<rparr>
            else apply_changes (jget ''r'' d) (g2\<lparr> schema_pending := False \<rparr>))
     | _ \<Rightarrow> g)"

definition removal_of :: "json list \<Rightarrow> int option" where
  "removal_of change = (case change of JNum (PyInt r) # _ \<Rightarrow> if r < 0 then None else Some r | _ \<Rightarrow> None)"

definition remove_rows :: "json \<Rightarrow> result_grid \<Rightarrow> result_grid" where
  "remove_rows payload g =
    g\<lparr> rows := fold (\<lambda>change rs. case removal_of change of None \<Rightarrow> rs | Some r \<Rightarrow> AList.delete r rs)
            (change_rows payload) (rows g) \<rparr>"

definition cell_name :: "(int \<times> result_column) list \<Rightarrow> int \<Rightarrow> string" where
  "cell_name cols column_index =
    (case map_of cols column_index of
       None \<Rightarrow> ''column_'' @ int_text column_index
     | Some column \<Rightarrow>
        (case rc_key column of
           Some key \<Rightarrow> if key \<noteq> [] then key else ''unknown:'' @ rc_source_name column @ '':'' @
               (case rc_source_parameter column of None \<Rightarrow> [] | Some p \<Rightarrow> p)
         | None \<Rightarrow> ''unknown:'' @ rc_source_name column @ '':'' @
               (case rc_source_parameter column of None \<Rightarrow> [] | Some p \<Rightarrow> p)))"

definition row_values :: "int \<Rightarrow> result_grid \<Rightarrow> (string \<times> json) list" where
  "row_values row_index g =
    (if \<not> schema_ready g then []
     else fold (\<lambda>(column_index, cell). AList.update (cell_name (columns g) column_index) (cell_value cell))
            (row_cells row_index g) [])"

definition all_rows :: "result_grid \<Rightarrow> (int \<times> (string \<times> json) list) list" where
  "all_rows g = (if \<not> schema_ready g then [] else map (\<lambda>i. (i, row_values i g)) (sort (map fst (rows g))))"

section \<open>Checkpoints\<close>

definition cells_snapshot :: "(int \<times> result_cell) list \<Rightarrow> json" where
  "cells_snapshot cells =
    JObj (map (\<lambda>(column_index, cell). (int_text column_index, JList (cell_value cell # cell_presentation cell)))
      (sort_key fst cells))"

definition grid_snapshot :: "result_grid \<Rightarrow> json" where
  "grid_snapshot g =
    JObj [(''layout'', layout g),
          (''rows'', JObj (map (\<lambda>(row_index, cells). (int_text row_index, cells_snapshot cells)) (sort_key fst (rows g)))),
          (''metadata_changes'', JList (map JList (metadata_changes g))),
          (''layout_generation'', JInt (layout_generation g)),
          (''schema_pending'', JBool (schema_pending g)),
          (''schema_conflicts'', JObj (map (\<lambda>(key, indexes). (key, JList (map JInt indexes)))
             (sort_key fst (schema_conflicts g))))]"

datatype grid_error = ResultGridStateError string

definition checkpoint_non_negative_integer :: "json \<Rightarrow> string \<Rightarrow> grid_error + int" where
  "checkpoint_non_negative_integer value field_name =
    (case value of
       JNum (PyInt i) \<Rightarrow> if 0 \<le> i then Inr i else Inl (ResultGridStateError field_name)
     | JStr s \<Rightarrow> if ascii_digits s then Inr (digits_value s) else Inl (ResultGridStateError field_name)
     | _ \<Rightarrow> Inl (ResultGridStateError field_name))"

definition checkpoint_conflict :: "string \<times> json \<Rightarrow> grid_error + (string \<times> int list)" where
  "checkpoint_conflict item =
    (case item of (key, indexes) \<Rightarrow>
      if key = [] then Inl (ResultGridStateError ''schema conflict key'')
      else (case indexes of
         JList xs \<Rightarrow>
          (case traverse (\<lambda>index. checkpoint_non_negative_integer index ''schema conflict index'') xs of
             Inl e \<Rightarrow> Inl e
           | Inr parsed \<Rightarrow>
              if length parsed < 2 then Inl (ResultGridStateError ''schema conflict'') else Inr (key, parsed))
       | _ \<Rightarrow> Inl (ResultGridStateError ''schema conflict indexes'')))"

definition checkpoint_conflicts :: "json \<Rightarrow> grid_error + (string \<times> int list) list" where
  "checkpoint_conflicts value =
    (case value of
       JObj d \<Rightarrow> map_sum id dict_of (traverse checkpoint_conflict d)
     | _ \<Rightarrow> Inl (ResultGridStateError ''schema_conflicts''))"

definition restore_cell :: "string \<times> json \<Rightarrow> grid_error + (int \<times> result_cell)" where
  "restore_cell item =
    (case item of (column_key, raw_cell) \<Rightarrow>
      (case checkpoint_non_negative_integer (JStr column_key) ''column index'' of
         Inl e \<Rightarrow> Inl e
       | Inr column_index \<Rightarrow>
          (case raw_cell of
             JList (value # presentation) \<Rightarrow>
               Inr (column_index, \<lparr> cell_value = value, cell_presentation = presentation \<rparr>)
           | _ \<Rightarrow> Inl (ResultGridStateError ''result cell''))))"

definition restore_row :: "string \<times> json \<Rightarrow> grid_error + (int \<times> (int \<times> result_cell) list)" where
  "restore_row item =
    (case item of (row_key, raw_cells) \<Rightarrow>
      (case checkpoint_non_negative_integer (JStr row_key) ''row index'' of
         Inl e \<Rightarrow> Inl e
       | Inr row_index \<Rightarrow>
          (case raw_cells of
             JObj items \<Rightarrow> map_sum id (\<lambda>cells. (row_index, dict_of cells)) (traverse restore_cell items)
           | _ \<Rightarrow> Inl (ResultGridStateError ''row cells''))))"

definition restore_metadata :: "json \<Rightarrow> grid_error + json list list" where
  "restore_metadata value =
    (case value of
       JList items \<Rightarrow>
         if 200 < length items then Inl (ResultGridStateError ''metadata_changes exceeds reducer bound'')
         else traverse (\<lambda>item. case item of JList xs \<Rightarrow> Inr xs
                 | _ \<Rightarrow> Inl (ResultGridStateError ''metadata_changes item'')) items
     | _ \<Rightarrow> Inl (ResultGridStateError ''metadata_changes''))"

text \<open>Equality of dictionaries does not see the order of their entries.\<close>

definition dict_eq :: "('k \<times> 'v) list \<Rightarrow> ('k \<times> 'v) list \<Rightarrow> bool" where
  "dict_eq d e = (list_all (\<lambda>(k, v). map_of e k = Some v) d \<and> list_all (\<lambda>(k, v). map_of d k = Some v) e)"

definition restore_snapshot :: "(json \<Rightarrow> string) \<Rightarrow> json \<Rightarrow> grid_error + result_grid" where
  "restore_snapshot render state =
    (case state of
       JObj d \<Rightarrow>
        (let stored_layout = jget ''layout'' d in
         case checkpoint_non_negative_integer (jget ''layout_generation'' d) ''layout_generation'' of Inl e \<Rightarrow> Inl e
         | Inr generation \<Rightarrow>
        (case jget ''schema_pending'' d of
           JBool pending \<Rightarrow>
            (let cols = result_columns render stored_layout; conflicts = find_schema_conflicts cols in
             case checkpoint_conflicts (jget ''schema_conflicts'' d) of Inl e \<Rightarrow> Inl e
             | Inr expected_conflicts \<Rightarrow>
             if \<not> dict_eq conflicts expected_conflicts then Inl (ResultGridStateError ''schema_conflicts mismatch'')
             else case restore_metadata (jget ''metadata_changes'' d) of Inl e \<Rightarrow> Inl e
             | Inr metadata \<Rightarrow>
             (case jget ''rows'' d of
                JObj raw_rows \<Rightarrow>
                 (case map_sum id dict_of (traverse restore_row raw_rows) of Inl e \<Rightarrow> Inl e
                  | Inr restored_rows \<Rightarrow>
                    if stored_layout = JNull \<and> restored_rows \<noteq> [] then Inl (ResultGridStateError ''rows require a layout'')
                    else if pending \<and> restored_rows \<noteq> [] then Inl (ResultGridStateError ''pending with rows'')
                    else Inr \<lparr> layout = stored_layout, columns = cols, rows = restored_rows,
                           metadata_changes = metadata, layout_generation = generation,
                           schema_pending = pending, schema_conflicts = conflicts \<rparr>)
              | _ \<Rightarrow> Inl (ResultGridStateError ''rows'')))
         | _ \<Rightarrow> Inl (ResultGridStateError ''schema_pending'')))
     | _ \<Rightarrow> Inl (ResultGridStateError ''object''))"

section \<open>Layout facts\<close>

lemma result_field_key_names:
  assumes "result_field_key name param = Some key"
  shows "key \<in> snd ` set RESULT_FIELD_ALIASES \<or> (\<exists>ordinal. key = ''sector_'' @ ordinal)"
proof (cases "map_of RESULT_FIELD_ALIASES (header_token name)")
  case None
  then show ?thesis using assms
    by (auto simp: result_field_key_def Let_def split: option.splits if_splits)
next
  case (Some known)
  then show ?thesis using assms by (auto simp: result_field_key_def dest!: map_of_SomeD intro: rev_image_eqI)
qed

lemma canonical_names:
  assumes "result_field_key name param = Some key"
  shows "key \<noteq> [] \<and> key \<noteq> ''unknown:'' @ x \<and> key \<noteq> ''column_'' @ y"
proof -
  have "list_all (\<lambda>(a, key). key \<noteq> [] \<and> hd key \<noteq> CHR ''u'' \<and> take 7 key \<noteq> ''column_'') RESULT_FIELD_ALIASES"
    by (simp add: RESULT_FIELD_ALIASES_def)
  then have tabled: "key \<noteq> [] \<and> hd key \<noteq> CHR ''u'' \<and> take 7 key \<noteq> ''column_''"
    if "key \<in> snd ` set RESULT_FIELD_ALIASES" using that by (auto simp: list_all_iff)
  from result_field_key_names [OF assms] show ?thesis
  proof (elim disjE exE)
    assume "key \<in> snd ` set RESULT_FIELD_ALIASES"
    from tabled [OF this] show ?thesis by auto
  qed auto
qed

lemma column_key_cases:
  "rc_key (result_column_of render i h) = Some key \<Longrightarrow> \<exists>name param. result_field_key name param = Some key"
  by (auto simp: result_column_of_def Let_def split: option.splits)

lemma result_columns_mem:
  "(i, col) \<in> set (result_columns render lay) \<Longrightarrow> 0 \<le> i \<and> (\<exists>n h. col = result_column_of render n h)"
  by (auto simp: result_columns_def)

lemma result_columns_distinct: "distinct (map fst (result_columns render lay))"
proof -
  have "map fst (result_columns render lay) = map int [0 ..< length (layout_headers lay)]"
    by (simp add: result_columns_def o_def split_def flip: map_map [of int fst, unfolded o_def])
  then show ?thesis by (simp add: distinct_map)
qed

section \<open>Grouped indexes\<close>

definition grouped :: "(int \<times> result_column) list \<Rightarrow> (result_column \<Rightarrow> 'k option) \<Rightarrow> 'k \<Rightarrow> int list" where
  "grouped cols f key = map fst (filter (\<lambda>(i, col). f col = Some key) cols)"

lemma map_of_append_at:
  "map_of (append_at key x d) k =
    (if k = key then Some ((case map_of d key of None \<Rightarrow> [] | Some xs \<Rightarrow> xs) @ [x]) else map_of d k)"
  by (simp add: append_at_def update_conv')

lemma fold_append_at:
  "map_of (fold (\<lambda>(i, col) d. case f col of None \<Rightarrow> d | Some key \<Rightarrow> append_at key i d) cols d) key =
    (if grouped cols f key = [] then map_of d key
     else Some ((case map_of d key of None \<Rightarrow> [] | Some xs \<Rightarrow> xs) @ grouped cols f key))"
proof (induction cols arbitrary: d)
  case (Cons c cols)
  then show ?case
    by (cases c; cases "f (snd c)") (auto simp: grouped_def map_of_append_at split: option.splits)
qed (simp add: grouped_def)

lemma map_of_indexes_by_key:
  "map_of (indexes_by_key cols) key = (if grouped cols rc_key key = [] then None else Some (grouped cols rc_key key))"
  by (simp add: indexes_by_key_def fold_append_at)

lemma map_of_indexes_by_identity:
  "map_of (indexes_by_identity cols) ident =
    (if grouped cols (Some \<circ> column_identity) ident = [] then None
     else Some (grouped cols (Some \<circ> column_identity) ident))"
  using fold_append_at [of "Some \<circ> column_identity" cols "[]" ident]
  by (simp add: indexes_by_identity_def o_def)

lemma distinct_append_at: "distinct (map fst d) \<Longrightarrow> distinct (map fst (append_at key x d))"
  by (simp add: append_at_def distinct_update)

lemma distinct_indexes_by_key: "distinct (map fst (indexes_by_key cols))"
proof -
  have "distinct (map fst d) \<Longrightarrow> distinct (map fst (fold (\<lambda>(i, col) d. case rc_key col of None \<Rightarrow> d
      | Some key \<Rightarrow> append_at key i d) cols d))" for d
    by (induction cols arbitrary: d) (auto simp: distinct_append_at split: option.splits)
  then show ?thesis by (simp add: indexes_by_key_def)
qed

lemma conflicts_mem:
  "(key, indexes) \<in> set (find_schema_conflicts cols) \<longleftrightarrow> indexes = grouped cols rc_key key \<and> 1 < length indexes"
proof -
  have "(key, indexes) \<in> set (indexes_by_key cols) \<longleftrightarrow> map_of (indexes_by_key cols) key = Some indexes"
    using distinct_indexes_by_key by (metis map_of_eq_Some_iff)
  then show ?thesis by (auto simp: find_schema_conflicts_def map_of_indexes_by_key split: if_splits)
qed

lemma distinct_conflicts: "distinct (map fst (find_schema_conflicts cols))"
  unfolding find_schema_conflicts_def by (rule distinct_map_filter [OF distinct_indexes_by_key])

lemma distinct_grouped: "distinct (map fst cols) \<Longrightarrow> distinct (grouped cols f key)"
  unfolding grouped_def by (rule distinct_map_filter)

text \<open>Without conflicts a canonical key names one column.\<close>

lemma no_conflict_unique:
  assumes "find_schema_conflicts cols = []" "distinct (map fst cols)"
    "(i, c) \<in> set cols" "(j, c') \<in> set cols" "rc_key c = Some key" "rc_key c' = Some key"
  shows "i = j"
proof (rule ccontr)
  assume "i \<noteq> j"
  have sub: "{i, j} \<subseteq> set (grouped cols rc_key key)" using assms(3-6) by (force simp: grouped_def)
  have "card {i, j} \<le> length (grouped cols rc_key key)"
    using card_mono [OF _ sub] card_length [of "grouped cols rc_key key"] by simp
  then have "1 < length (grouped cols rc_key key)" using \<open>i \<noteq> j\<close> by simp
  then show False using conflicts_mem [of key "grouped cols rc_key key" cols] assms(1) by simp
qed

section \<open>Well-formed grids\<close>

definition grid_ok :: "(json \<Rightarrow> string) \<Rightarrow> result_grid \<Rightarrow> bool" where
  "grid_ok render g \<longleftrightarrow>
    columns g = result_columns render (layout g) \<and>
    schema_conflicts g = find_schema_conflicts (columns g) \<and> 0 \<le> layout_generation g \<and>
    (\<not> schema_ready g \<longrightarrow> rows g = []) \<and> length (metadata_changes g) \<le> 200 \<and>
    distinct (map fst (rows g)) \<and>
    (\<forall>(r, cells) \<in> set (rows g). 0 \<le> r \<and> distinct (map fst cells) \<and> (\<forall>(c, x) \<in> set cells. 0 \<le> c))"

datatype grid_message = Layout json | Snapshot json | Changes json | Removal json

definition grid_step :: "(json \<Rightarrow> string) \<Rightarrow> result_grid \<Rightarrow> grid_message \<Rightarrow> result_grid" where
  "grid_step render g message =
    (case message of
       Layout payload \<Rightarrow> apply_layout_update render payload g
     | Snapshot payload \<Rightarrow> apply_snapshot render payload g
     | Changes payload \<Rightarrow> apply_changes payload g
     | Removal payload \<Rightarrow> remove_rows payload g)"

definition rows_ok :: "(int \<times> (int \<times> result_cell) list) list \<Rightarrow> bool" where
  "rows_ok rs \<longleftrightarrow> distinct (map fst rs) \<and>
    (\<forall>(r, cells) \<in> set rs. 0 \<le> r \<and> distinct (map fst cells) \<and> (\<forall>(c, x) \<in> set cells. 0 \<le> c))"

lemma rows_ok_Nil [simp]: "rows_ok []" by (simp add: rows_ok_def)

lemma mem_update:
  "(k', v') \<in> set (AList.update k v d) \<Longrightarrow> (k', v') = (k, v) \<or> (k', v') \<in> set d"
  by (induction d) (auto split: if_splits)

lemma rows_ok_update:
  assumes "rows_ok rs" "0 \<le> r" "distinct (map fst cells)" "\<forall>(c, x) \<in> set cells. 0 \<le> c"
  shows "rows_ok (AList.update r cells rs)"
  using assms by (auto simp: rows_ok_def distinct_update dest!: mem_update)

lemma row_cells_ok:
  assumes "rows_ok (rows g)"
  shows "distinct (map fst (row_cells r g)) \<and> (\<forall>(c, x) \<in> set (row_cells r g). 0 \<le> c)"
proof (cases "map_of (rows g) r")
  case (Some cells)
  then have "(r, cells) \<in> set (rows g)" by (rule map_of_SomeD)
  then show ?thesis using assms Some by (auto simp: rows_ok_def row_cells_def)
qed (simp add: row_cells_def)

lemma change_cell_nonneg: "change_cell change = Some (r, c, x) \<Longrightarrow> 0 \<le> r \<and> 0 \<le> c"
  by (auto simp: change_cell_def split: list.splits json.splits pynum.splits if_splits)

lemma apply_change_fields [simp]:
  "layout (apply_change ch g) = layout g" "columns (apply_change ch g) = columns g"
  "layout_generation (apply_change ch g) = layout_generation g"
  "schema_pending (apply_change ch g) = schema_pending g"
  "schema_conflicts (apply_change ch g) = schema_conflicts g"
  "schema_ready (apply_change ch g) = schema_ready g"
  by (simp_all add: apply_change_def schema_ready_def split: option.splits)

lemma fold_apply_change_fields [simp]:
  "layout (fold apply_change cs g) = layout g" "columns (fold apply_change cs g) = columns g"
  "layout_generation (fold apply_change cs g) = layout_generation g"
  "schema_pending (fold apply_change cs g) = schema_pending g"
  "schema_conflicts (fold apply_change cs g) = schema_conflicts g"
  "schema_ready (fold apply_change cs g) = schema_ready g"
  by (induction cs arbitrary: g) simp_all

lemma apply_change_rows_ok: "rows_ok (rows g) \<Longrightarrow> rows_ok (rows (apply_change ch g))"
proof (cases "change_cell ch")
  case (Some x)
  obtain r c v where x: "x = (r, c, v)" by (cases x)
  assume ok: "rows_ok (rows g)"
  have "0 \<le> r" "0 \<le> c" using change_cell_nonneg [of ch r c v] Some x by auto
  moreover have "distinct (map fst (AList.update c v (row_cells r g)))"
    using row_cells_ok [OF ok] by (simp add: distinct_update)
  moreover have "\<forall>(c', y) \<in> set (AList.update c v (row_cells r g)). 0 \<le> c'"
    using row_cells_ok [OF ok, of r] \<open>0 \<le> c\<close> by (auto dest!: mem_update)
  ultimately have "rows_ok (AList.update r (AList.update c v (row_cells r g)) (rows g))"
    by (intro rows_ok_update [OF ok])
  then show "rows_ok (rows (apply_change ch g))" using Some x ok by (simp add: apply_change_def)
qed (simp add: apply_change_def)

lemma fold_apply_change_rows_ok: "rows_ok (rows g) \<Longrightarrow> rows_ok (rows (fold apply_change cs g))"
  by (induction cs arbitrary: g) (auto intro: apply_change_rows_ok)

lemma not_ready_rows: "\<not> schema_ready g \<Longrightarrow> rows (fold apply_change cs g) = rows g"
proof (induction cs arbitrary: g)
  case (Cons c cs)
  have "rows (apply_change c g) = rows g" using Cons.prems by (simp add: apply_change_def split: option.splits)
  then show ?case using Cons by simp
qed simp

lemma apply_changes_fields [simp]:
  "layout (apply_changes p g) = layout g" "columns (apply_changes p g) = columns g"
  "layout_generation (apply_changes p g) = layout_generation g"
  "schema_pending (apply_changes p g) = schema_pending g"
  "schema_conflicts (apply_changes p g) = schema_conflicts g"
  "schema_ready (apply_changes p g) = schema_ready g"
  "rows (apply_changes p g) = rows (fold apply_change (change_rows p) g)"
  by (simp_all add: apply_changes_def Let_def schema_ready_def)

lemma grid_ok_alt:
  "grid_ok render g \<longleftrightarrow> columns g = result_columns render (layout g) \<and>
    schema_conflicts g = find_schema_conflicts (columns g) \<and> 0 \<le> layout_generation g \<and>
    (schema_ready g \<or> rows g = []) \<and> length (metadata_changes g) \<le> 200 \<and> rows_ok (rows g)"
  by (auto simp: grid_ok_def rows_ok_def)

lemma apply_changes_ok:
  assumes "columns g = result_columns render (layout g)" "schema_conflicts g = find_schema_conflicts (columns g)"
    "0 \<le> layout_generation g" "schema_ready g \<or> rows g = []" "rows_ok (rows g)"
  shows "grid_ok render (apply_changes p g)"
proof -
  have "length (metadata_changes (apply_changes p g)) \<le> 200" by (simp add: apply_changes_def Let_def)
  moreover have "schema_ready g \<or> rows (apply_changes p g) = []" using assms(4) not_ready_rows [of g] by (cases "schema_ready g") auto
  ultimately show ?thesis using assms fold_apply_change_rows_ok [OF assms(5)] by (simp add: grid_ok_alt)
qed

lemma remap_cells_ok:
  assumes "\<forall>(k, js) \<in> set ni. \<forall>j \<in> set js. 0 \<le> j"
  shows "distinct (map fst (remap_cells pc ni cells)) \<and> (\<forall>(c, x) \<in> set (remap_cells pc ni cells). 0 \<le> c)"
proof -
  let ?f = "\<lambda>(old_index, cell) next_cells. case map_of pc old_index of None \<Rightarrow> next_cells
        | Some old_column \<Rightarrow> (case map_of ni (column_identity old_column) of
               Some [candidate] \<Rightarrow> AList.update candidate cell next_cells | _ \<Rightarrow> next_cells)"
  have one: "distinct (map fst (?f x d)) \<and> (\<forall>(c, y) \<in> set (?f x d). 0 \<le> c)"
    if "distinct (map fst d) \<and> (\<forall>(c, y) \<in> set d. 0 \<le> c)" for d :: "(int \<times> result_cell) list" and x
  proof -
    have "0 \<le> j" if "map_of ni i = Some [j]" for i j using assms map_of_SomeD [OF that] by auto
    then show ?thesis using that
      by (cases x) (auto simp: distinct_update split: option.splits list.splits dest!: mem_update)
  qed
  have every: "distinct (map fst (fold ?f cells d)) \<and> (\<forall>(c, y) \<in> set (fold ?f cells d). 0 \<le> c)"
    if "distinct (map fst d) \<and> (\<forall>(c, y) \<in> set d. 0 \<le> c)" for d :: "(int \<times> result_cell) list"
    using that
  proof (induction cells arbitrary: d)
    case (Cons x cells)
    show ?case using Cons.IH [OF one [OF Cons.prems, of x]] by simp
  qed simp
  show ?thesis using every [of "[]"] by (simp add: remap_cells_def)
qed

lemma remap_rows_ok:
  assumes ni: "\<forall>(k, js) \<in> set ni. \<forall>j \<in> set js. 0 \<le> j" and ok: "rows_ok rs"
  shows "rows_ok (remap_rows pc ni rs)"
proof -
  let ?f = "\<lambda>(row_index, cells) remapped. let next_cells = remap_cells pc ni cells
        in if next_cells \<noteq> [] then AList.update row_index next_cells remapped else remapped"
  have every: "rows_ok (fold ?f ss acc)" if "rows_ok acc" "\<forall>(r, cells) \<in> set ss. 0 \<le> r" for ss acc
    using that
  proof (induction ss arbitrary: acc)
    case (Cons s ss)
    obtain r cells where s: "s = (r, cells)" by (cases s)
    have "rows_ok (?f s acc)"
      using Cons.prems remap_cells_ok [OF ni, of pc cells] by (simp add: s Let_def rows_ok_update)
    then show ?case using Cons.IH Cons.prems(2) by simp
  qed simp
  have "\<forall>(r, cells) \<in> set rs. 0 \<le> r" using ok by (auto simp: rows_ok_def)
  then show ?thesis using every [OF rows_ok_Nil] by (simp add: remap_rows_def)
qed

lemma distinct_indexes_by_identity: "distinct (map fst (indexes_by_identity cols))"
proof -
  have "distinct (map fst d) \<Longrightarrow> distinct (map fst (fold (\<lambda>(index, column) d.
      append_at (column_identity column) index d) cols d))" for d
    by (induction cols arbitrary: d) (auto simp: distinct_append_at)
  then show ?thesis by (simp add: indexes_by_identity_def)
qed

lemma indexes_by_identity_nonneg:
  "\<forall>(k, js) \<in> set (indexes_by_identity (result_columns render lay)). \<forall>j \<in> set js. 0 \<le> j"
proof (clarify)
  fix k js j assume "(k, js) \<in> set (indexes_by_identity (result_columns render lay))" "j \<in> set js"
  then have "map_of (indexes_by_identity (result_columns render lay)) k = Some js"
    using distinct_indexes_by_identity by (metis map_of_eq_Some_iff)
  then have "js = grouped (result_columns render lay) (Some \<circ> column_identity) k"
    by (simp add: map_of_indexes_by_identity split: if_splits)
  then show "0 \<le> j" using \<open>j \<in> set js\<close> result_columns_mem by (fastforce simp: grouped_def)
qed

lemma empty_grid_ok: "grid_ok render empty_grid"
  by (simp add: grid_ok_alt empty_grid_def result_columns_def layout_headers_def find_schema_conflicts_def
      indexes_by_key_def)

lemma apply_layout_update_ok: "grid_ok render g \<Longrightarrow> grid_ok render (apply_layout_update render lay g)"
proof -
  assume ok: "grid_ok render g"
  let ?g = "apply_layout_update render lay g"
  have cols: "columns ?g = result_columns render lay" "layout ?g = lay" "\<not> schema_pending ?g"
    "schema_conflicts ?g = find_schema_conflicts (result_columns render lay)"
    "layout_generation ?g = layout_generation g + 1" "metadata_changes ?g = metadata_changes g"
    by (simp_all add: apply_layout_update_def Let_def)
  have rows: "rows ?g = (if schema_conflicts ?g = []
      then remap_rows (columns g) (indexes_by_identity (result_columns render lay)) (if schema_ready g then rows g else [])
      else [])"
    by (simp add: apply_layout_update_def Let_def)
  have "rows_ok (if schema_ready g then rows g else [])" using ok by (simp add: grid_ok_alt)
  then have "rows_ok (rows ?g)" unfolding rows using remap_rows_ok [OF indexes_by_identity_nonneg] by simp
  moreover have "schema_ready ?g \<or> rows ?g = []"
  proof (cases "lay = JNull")
    case True
    have none: "remap_cells pc [] cells = []" for pc cells
      unfolding remap_cells_def by (induction cells) (auto split: option.splits)
    have "fold (\<lambda>(row_index, cells) remapped. remapped) xs [] = []" for xs :: "(int \<times> (int \<times> result_cell) list) list"
      by (induction xs) auto
    then have "remap_rows (columns g) [] xs = []" for xs by (simp add: remap_rows_def none)
    moreover have "indexes_by_identity (result_columns render JNull) = []"
      by (simp add: result_columns_def layout_headers_def indexes_by_identity_def)
    ultimately show ?thesis using True unfolding rows by simp
  next
    case False
    then show ?thesis unfolding schema_ready_def rows using cols by auto
  qed
  ultimately show ?thesis using ok cols by (simp add: grid_ok_alt)
qed

lemma apply_snapshot_ok: "grid_ok render g \<Longrightarrow> grid_ok render (apply_snapshot render payload g)"
proof (cases payload)
  case (JObj d)
  assume ok: "grid_ok render g"
  let ?g1 = "if jget ''l'' d \<noteq> JNull then set_layout render (jget ''l'' d) g else g"
  have c: "columns ?g1 = result_columns render (layout ?g1) \<and> schema_conflicts ?g1 = find_schema_conflicts (columns ?g1)
    \<and> 0 \<le> layout_generation ?g1" using ok by (simp add: set_layout_def grid_ok_alt)
  show ?thesis
  proof (cases "layout ?g1 = JNull")
    case True
    then have "apply_snapshot render payload g = ?g1\<lparr> rows := [], metadata_changes := [], schema_pending := True \<rparr>"
      by (simp add: apply_snapshot_def JObj Let_def)
    then show ?thesis using c by (simp add: grid_ok_alt)
  next
    case False
    then have "apply_snapshot render payload g = apply_changes (jget ''r'' d)
        (?g1\<lparr> rows := [], metadata_changes := [], schema_pending := False \<rparr>)"
      by (simp add: apply_snapshot_def JObj Let_def)
    moreover have "grid_ok render (apply_changes (jget ''r'' d) (?g1\<lparr> rows := [], metadata_changes := [], schema_pending := False \<rparr>))"
      by (rule apply_changes_ok) (use c in simp_all)
    ultimately show ?thesis by simp
  qed
qed (simp_all add: apply_snapshot_def)

lemma rows_ok_delete: "rows_ok rs \<Longrightarrow> rows_ok (AList.delete r rs)"
  by (auto simp: rows_ok_def distinct_map_filter AList.delete_eq)

lemma remove_rows_ok: "grid_ok render g \<Longrightarrow> grid_ok render (remove_rows payload g)"
proof -
  have "rows_ok rs \<Longrightarrow> rows_ok (fold (\<lambda>change rs. case removal_of change of None \<Rightarrow> rs | Some r \<Rightarrow> AList.delete r rs) cs rs)" for cs rs
    by (induction cs arbitrary: rs) (auto intro: rows_ok_delete split: option.splits)
  moreover have "fold (\<lambda>change rs. case removal_of change of None \<Rightarrow> rs | Some r \<Rightarrow> AList.delete r rs) cs [] = ([] :: (int \<times> (int \<times> result_cell) list) list)" for cs
    by (induction cs) (auto split: option.splits)
  ultimately show "grid_ok render g \<Longrightarrow> ?thesis"
    by (auto simp: grid_ok_alt remove_rows_def schema_ready_def)
qed

lemma grid_step_ok: "grid_ok render g \<Longrightarrow> grid_ok render (grid_step render g m)"
  by (cases m) (auto simp: grid_step_def grid_ok_alt [of render g]
      intro: apply_layout_update_ok apply_snapshot_ok remove_rows_ok apply_changes_ok)

interpretation grid_machine: invariant_machine "grid_step render" "\<lambda>g. g = empty_grid" "grid_ok render" for render
  by unfold_locales (auto intro: empty_grid_ok grid_step_ok)

section \<open>Checkpoints\<close>

text \<open>
  Two grids are alike when they differ at most in the order of dictionary entries. Messages
  that address cells respect this; a layout update may not (see below), so recovery is
  stated for the snapshots, cell changes and removals that follow a checkpoint.
\<close>

definition grid_view :: "result_grid \<Rightarrow> int \<Rightarrow> (int \<Rightarrow> result_cell option) option" where
  "grid_view g r = map_option map_of (map_of (rows g) r)"

definition alike :: "result_grid \<Rightarrow> result_grid \<Rightarrow> bool" where
  "alike g' g \<longleftrightarrow> layout g' = layout g \<and> columns g' = columns g \<and> metadata_changes g' = metadata_changes g \<and>
    layout_generation g' = layout_generation g \<and> schema_pending g' = schema_pending g \<and>
    schema_conflicts g' = schema_conflicts g \<and> grid_view g' = grid_view g"

datatype cell_message = CellSnapshot json | CellChanges json | CellRemoval json

fun as_grid_message :: "cell_message \<Rightarrow> grid_message" where
  "as_grid_message (CellSnapshot p) = Snapshot p"
| "as_grid_message (CellChanges p) = Changes p"
| "as_grid_message (CellRemoval p) = Removal p"

definition cell_step :: "(json \<Rightarrow> string) \<Rightarrow> result_grid \<Rightarrow> cell_message \<Rightarrow> result_grid" where
  "cell_step render g m = grid_step render g (as_grid_message m)"

lemma alike_ready: "alike g' g \<Longrightarrow> schema_ready g' = schema_ready g"
  by (simp add: alike_def schema_ready_def)

lemma map_of_row_cells: "map_of (row_cells r g) = (case grid_view g r of None \<Rightarrow> Map.empty | Some m \<Rightarrow> m)"
  by (cases "map_of (rows g) r") (simp_all add: row_cells_def grid_view_def)

lemma grid_view_put:
  "grid_view (g\<lparr> rows := AList.update r (AList.update c x (row_cells r g)) (rows g) \<rparr>) =
    (grid_view g)(r \<mapsto> (case grid_view g r of None \<Rightarrow> Map.empty | Some m \<Rightarrow> m)(c \<mapsto> x))"
  by (rule ext) (simp add: grid_view_def [of "g\<lparr> rows := _ \<rparr>"] update_conv' map_of_row_cells, simp add: grid_view_def)

lemma alike_change: "alike g' g \<Longrightarrow> alike (apply_change ch g') (apply_change ch g)"
proof (cases "change_cell ch")
  case None
  then show "alike g' g \<Longrightarrow> ?thesis" by (simp add: apply_change_def alike_def grid_view_def fun_eq_iff)
next
  case (Some x)
  obtain r c v where x: "x = (r, c, v)" by (cases x)
  assume a: "alike g' g"
  show ?thesis
  proof (cases "schema_ready g")
    case True
    have "grid_view (apply_change ch g') = grid_view (apply_change ch g)"
      using True alike_ready [OF a] a Some x by (simp add: apply_change_def grid_view_put alike_def)
    then show ?thesis using a by (simp add: alike_def) (simp add: apply_change_def Some x)
  qed (use a alike_ready [OF a] Some x in \<open>simp add: apply_change_def\<close>)
qed

lemma alike_changes: "alike g' g \<Longrightarrow> alike (apply_changes p g') (apply_changes p g)"
proof -
  have "alike g' g \<Longrightarrow> alike (fold apply_change cs g') (fold apply_change cs g)" for cs
    by (induction cs arbitrary: g' g) (auto intro: alike_change)
  then show "alike g' g \<Longrightarrow> ?thesis"
    unfolding apply_changes_def Let_def by (simp add: alike_def grid_view_def fun_eq_iff)
qed

lemma alike_removal: "alike g' g \<Longrightarrow> alike (remove_rows p g') (remove_rows p g)"
proof -
  let ?del = "\<lambda>change rs. case removal_of change of None \<Rightarrow> rs | Some r \<Rightarrow> AList.delete r rs"
  have "\<forall>r. map_option map_of (map_of (fold ?del cs rs') r) = map_option map_of (map_of (fold ?del cs rs) r)"
    if "\<forall>r. map_option map_of (map_of rs' r) = map_option map_of (map_of rs r)"
    for cs and rs rs' :: "(int \<times> (int \<times> result_cell) list) list"
    using that
  proof (induction cs arbitrary: rs rs')
    case (Cons c cs)
    have "\<forall>r. map_option map_of (map_of (?del c rs') r) = map_option map_of (map_of (?del c rs) r)"
      using Cons.prems by (auto simp: delete_conv' split: option.splits)
    from Cons.IH [OF this] show ?case by simp
  qed simp
  then show "alike g' g \<Longrightarrow> ?thesis" by (simp add: remove_rows_def alike_def grid_view_def fun_eq_iff)
qed

lemma alike_pending: "alike g' g \<Longrightarrow> alike (g'\<lparr> schema_pending := b \<rparr>) (g\<lparr> schema_pending := b \<rparr>)"
  by (simp add: alike_def grid_view_def fun_eq_iff)

lemma alike_clear: "alike g' g \<Longrightarrow>
    alike (g'\<lparr> rows := [], metadata_changes := [] \<rparr>) (g\<lparr> rows := [], metadata_changes := [] \<rparr>)"
  by (simp add: alike_def grid_view_def fun_eq_iff)

lemma alike_set_layout: "alike g' g \<Longrightarrow> alike (set_layout render lay g') (set_layout render lay g)"
  by (simp add: alike_def set_layout_def grid_view_def fun_eq_iff)

lemma alike_snapshot: "alike g' g \<Longrightarrow> alike (apply_snapshot render p g') (apply_snapshot render p g)"
proof (cases p)
  case (JObj d)
  assume a: "alike g' g"
  define g1 where "g1 = (\<lambda>g. (if jget ''l'' d \<noteq> JNull then set_layout render (jget ''l'' d) g else g)\<lparr> rows := [], metadata_changes := [] \<rparr>)"
  have g1: "alike (g1 g') (g1 g)" unfolding g1_def using a alike_clear alike_set_layout by auto
  then have lay: "layout (g1 g') = layout (g1 g)" by (simp add: alike_def)
  have "apply_snapshot render p h = (if layout (g1 h) = JNull then (g1 h)\<lparr> schema_pending := True \<rparr>
      else apply_changes (jget ''r'' d) ((g1 h)\<lparr> schema_pending := False \<rparr>))" for h
    unfolding apply_snapshot_def JObj Let_def g1_def by simp
  then show ?thesis using g1 lay alike_pending alike_changes by simp
qed (simp_all add: apply_snapshot_def)

lemma alike_cell_step: "alike g' g \<Longrightarrow> alike (cell_step render g' m) (cell_step render g m)"
  by (cases m) (simp_all add: cell_step_def grid_step_def alike_snapshot alike_changes alike_removal)

lemma traverse_map: "\<forall>y \<in> set ys. f (h y) = Inr (k y) \<Longrightarrow> traverse f (map h ys) = Inr (map k ys)"
  by (induction ys) auto

lemma map_of_sort: "distinct (map fst xs) \<Longrightarrow> map_of (sort_key fst xs) = map_of xs"
  by (subst map_of_inject_set) (simp_all add: distinct_map)

lemma distinct_sort_keys: "distinct (map fst xs) \<Longrightarrow> distinct (map fst (sort_key fst xs))"
  by (simp add: distinct_map)

lemma checkpoint_index [simp]: "0 \<le> i \<Longrightarrow> checkpoint_non_negative_integer (JStr (int_text i)) f = Inr i"
  using int_text_digits [of i] by (simp add: checkpoint_non_negative_integer_def)

lemma restore_cells:
  assumes "distinct (map fst cells)" "\<forall>(c, x) \<in> set cells. 0 \<le> c" "0 \<le> r"
  shows "restore_row (int_text r, cells_snapshot cells) = Inr (r, sort_key fst cells)"
proof -
  have "traverse restore_cell (map (\<lambda>(c, x). (int_text c, JList (cell_value x # cell_presentation x))) (sort_key fst cells)) =
      Inr (map id (sort_key fst cells))"
    using assms(2) by (intro traverse_map) (auto simp: restore_cell_def)
  then show ?thesis
    using assms(1,3) distinct_sort_keys [OF assms(1)] by (simp add: restore_row_def cells_snapshot_def)
qed

lemma restore_rows:
  assumes "rows_ok rs"
  shows "map_sum id dict_of (traverse restore_row (map (\<lambda>(r, cells). (int_text r, cells_snapshot cells)) (sort_key fst rs))) =
    (Inr (map (\<lambda>(r, cells). (r, sort_key fst cells)) (sort_key fst rs)) :: grid_error + _)"
proof -
  have "traverse restore_row (map (\<lambda>(r, cells). (int_text r, cells_snapshot cells)) (sort_key fst rs)) =
      Inr (map (\<lambda>(r, cells). (r, sort_key fst cells)) (sort_key fst rs))"
    using assms by (intro traverse_map) (auto simp: rows_ok_def restore_cells)
  moreover have "distinct (map fst (map (\<lambda>(r, cells). (r, sort_key fst cells)) (sort_key fst rs)))"
    using assms distinct_sort_keys [of rs] by (simp add: rows_ok_def o_def split_def)
  ultimately show ?thesis by simp
qed

lemma restore_conflicts:
  assumes "cols = result_columns render lay"
  shows "checkpoint_conflicts (JObj (map (\<lambda>(key, indexes). (key, JList (map JInt indexes)))
      (sort_key fst (find_schema_conflicts cols)))) = Inr (sort_key fst (find_schema_conflicts cols))"
proof -
  have "checkpoint_conflict (key, JList (map JInt indexes)) = Inr (key, indexes)"
    if "(key, indexes) \<in> set (find_schema_conflicts cols)" for key indexes
  proof -
    have i: "indexes = grouped cols rc_key key" "1 < length indexes" using that by (auto simp: conflicts_mem)
    then have "grouped cols rc_key key \<noteq> []" by auto
    then obtain j col where j: "(j, col) \<in> set cols" "rc_key col = Some key"
      by (auto simp: grouped_def filter_empty_conv)
    then obtain n h where "col = result_column_of render n h" using result_columns_mem assms by blast
    then have "key \<noteq> []" using j(2) column_key_cases canonical_names by blast
    moreover have "\<forall>i \<in> set indexes. 0 \<le> i" using result_columns_mem unfolding i(1) assms by (fastforce simp: grouped_def)
    then have "traverse (\<lambda>index. checkpoint_non_negative_integer index ''schema conflict index'') (map JInt indexes) =
        Inr (map id indexes)"
      by (intro traverse_map) (simp add: checkpoint_non_negative_integer_def)
    ultimately show ?thesis using i(2) by (simp add: checkpoint_conflict_def)
  qed
  then have "traverse checkpoint_conflict (map (\<lambda>(key, indexes). (key, JList (map JInt indexes)))
      (sort_key fst (find_schema_conflicts cols))) = Inr (map id (sort_key fst (find_schema_conflicts cols)))"
    by (intro traverse_map) auto
  then show ?thesis using distinct_sort_keys [OF distinct_conflicts] by (simp add: checkpoint_conflicts_def)
qed

lemma dict_eq_sorted: "distinct (map fst d) \<Longrightarrow> dict_eq d (sort_key fst d)"
  by (auto simp: dict_eq_def list_all_iff map_of_sort)

lemma grid_restore:
  assumes ok: "grid_ok render g"
  shows "\<exists>g'. restore_snapshot render (grid_snapshot g) = Inr g' \<and> alike g' g \<and> grid_ok render g'"
proof -
  note o = ok [unfolded grid_ok_alt]
  let ?rows = "map (\<lambda>(r, cells). (r, sort_key fst cells)) (sort_key fst (rows g))"
  let ?g' = "g\<lparr> rows := ?rows \<rparr>"
  have meta: "restore_metadata (JList (map JList (metadata_changes g))) = Inr (metadata_changes g)"
    using o by (simp add: restore_metadata_def traverse_map [of _ _ JList id, simplified])
  have gen: "checkpoint_non_negative_integer (JInt (layout_generation g)) f = Inr (layout_generation g)" for f
    using o by (simp add: checkpoint_non_negative_integer_def)
  have conf: "checkpoint_conflicts (JObj (map (\<lambda>(key, indexes). (key, JList (map JInt indexes)))
      (sort_key fst (schema_conflicts g)))) = Inr (sort_key fst (schema_conflicts g))"
    using restore_conflicts [of "columns g" render "layout g"] o by simp
  have deq: "dict_eq (schema_conflicts g) (sort_key fst (schema_conflicts g))"
    using o dict_eq_sorted distinct_conflicts by metis
  have cols: "result_columns render (layout g) = columns g" "find_schema_conflicts (columns g) = schema_conflicts g"
    using o by simp_all
  have rr: "map_sum id dict_of (traverse restore_row (map (\<lambda>(r, cells). (int_text r, cells_snapshot cells)) (sort_key fst (rows g)))) =
    (Inr ?rows :: grid_error + _)" using o by (intro restore_rows) simp
  have rows: "layout g = JNull \<longrightarrow> rows g = []" "schema_pending g \<longrightarrow> rows g = []"
    using o by (auto simp: schema_ready_def)
  have "restore_snapshot render (grid_snapshot g) = Inr ?g'"
    using rows by (simp add: restore_snapshot_def grid_snapshot_def jget_def gen conf cols deq meta rr Let_def)
  moreover have "grid_view ?g' = grid_view g"
  proof
    fix r
    have "map_of ?rows r = map_option (sort_key fst) (map_of (rows g) r)"
      using o by (simp add: map_of_map map_of_sort rows_ok_def)
    moreover have "map_of (sort_key fst cells) = map_of cells" if "map_of (rows g) r = Some cells" for cells
      using o map_of_SomeD [OF that] by (auto simp: rows_ok_def map_of_sort)
    ultimately show "grid_view ?g' r = grid_view g r" by (cases "map_of (rows g) r") (simp_all add: grid_view_def)
  qed
  then have "alike ?g' g" by (simp add: alike_def)
  moreover have "rows_ok ?rows"
    using o distinct_sort_keys [of "rows g"] by (auto simp: rows_ok_def o_def split_def distinct_sort_keys)
  then have "grid_ok render ?g'" using o by (auto simp: grid_ok_alt schema_ready_def)
  ultimately show ?thesis by blast
qed

interpretation grid_cells: checkpointed_machine "cell_step render" "grid_ok render" "grid_ok render"
    grid_snapshot "restore_snapshot render" alike for render
  by unfold_locales (auto simp: cell_step_def intro: grid_step_ok alike_cell_step [unfolded cell_step_def] dest: grid_restore)

section \<open>Properties\<close>

text \<open>C23. A grid restored from a checkpoint taken after any history of messages goes on like the
  grid that kept running: after any further snapshots, cell changes and removals the two
  agree in layout, columns, conflicts, generation, metadata and in every cell of every row.\<close>
theorem grid_checkpoint_resumes:
  "\<exists>g'. restore_snapshot render (grid_snapshot (foldl (grid_step render) empty_grid history)) = Inr g' \<and>
    alike (foldl (cell_step render) g' later) (foldl (cell_step render) (foldl (grid_step render) empty_grid history) later)"
proof -
  have "grid_ok render (foldl (grid_step render) empty_grid history)"
    by (rule grid_machine.reachable_inv) simp
  from grid_cells.resume_anywhere [OF this, of "[]" later] show ?thesis by simp
qed

text \<open>The grid fails closed: after any messages it holds no row at all unless its layout is
  known, confirmed by a snapshot or an authoritative layout, and free of duplicate headers;
  rejected deltas are kept as at most 200 metadata records.\<close>
theorem grid_fails_closed:
  "(schema_ready (foldl (grid_step render) empty_grid messages) \<or>
      rows (foldl (grid_step render) empty_grid messages) = [] \<and>
      all_rows (foldl (grid_step render) empty_grid messages) = []) \<and>
    length (metadata_changes (foldl (grid_step render) empty_grid messages)) \<le> 200"
proof -
  have "grid_ok render (foldl (grid_step render) empty_grid messages)"
    by (rule grid_machine.reachable_inv) simp
  then show ?thesis by (auto simp: grid_ok_alt all_rows_def)
qed

definition changes_to :: "int \<Rightarrow> int \<Rightarrow> json \<Rightarrow> result_cell list" where
  "changes_to r c payload = List.map_filter (\<lambda>ch. case change_cell ch of
      Some (r', c', x) \<Rightarrow> if r' = r \<and> c' = c then Some x else None | None \<Rightarrow> None) (change_rows payload)"

lemma cell_after_fold:
  assumes "schema_ready g"
  shows "map_of (row_cells r (fold apply_change chs g)) c =
    (let xs = List.map_filter (\<lambda>ch. case change_cell ch of
        Some (r', c', x) \<Rightarrow> if r' = r \<and> c' = c then Some x else None | None \<Rightarrow> None) chs
     in if xs = [] then map_of (row_cells r g) c else Some (last xs))"
  using assms
proof (induction chs rule: rev_induct)
  case (snoc ch chs)
  let ?h = "fold apply_change chs g"
  have ready: "schema_ready ?h" using snoc.prems by simp
  show ?case
  proof (cases "change_cell ch")
    case None
    then have "row_cells r (apply_change ch ?h) = row_cells r ?h" by (simp add: apply_change_def row_cells_def)
    then show ?thesis using snoc None by (simp add: map_filter_snoc)
  next
    case (Some p)
    obtain r' c' x where p: "p = (r', c', x)" by (cases p)
    have "map_of (row_cells r (apply_change ch ?h)) c =
        (if r' = r \<and> c' = c then Some x else map_of (row_cells r ?h) c)"
      using ready Some p by (auto simp: apply_change_def row_cells_def update_conv' split: option.splits)
    then show ?thesis using snoc Some p by (auto simp: map_filter_snoc Let_def)
  qed
qed (simp add: List.map_filter_simps)

text \<open>A sparse \<open>r_c\<close> message merges last-writer-wins: on a ready grid every cell holds the
  last value the message gives for its row and column, and keeps its old value when the
  message does not mention it; on any other grid no cell changes.\<close>
theorem sparse_changes_merge:
  "map_of (row_cells r (apply_changes payload g)) c =
    (if schema_ready g \<and> changes_to r c payload \<noteq> [] then Some (last (changes_to r c payload))
     else map_of (row_cells r g) c)"
proof (cases "schema_ready g")
  case True
  have "row_cells r (apply_changes payload g) = row_cells r (fold apply_change (change_rows payload) g)"
    by (simp add: row_cells_def)
  then show ?thesis using cell_after_fold [OF True] True by (simp add: changes_to_def Let_def)
next
  case False
  then show ?thesis by (simp add: row_cells_def not_ready_rows)
qed

section \<open>Layout updates\<close>

lemma canonical_name_cell:
  assumes ok: "grid_ok render g" and i: "(i, col) \<in> set (columns g)" "rc_key col = Some key"
    and ready: "schema_ready g"
  shows "cell_name (columns g) j = key \<longleftrightarrow> j = i"
proof -
  have cols: "columns g = result_columns render (layout g)" using ok by (simp add: grid_ok_def)
  have dist: "distinct (map fst (columns g))" unfolding cols by (rule result_columns_distinct)
  obtain n h where "col = result_column_of render n h" using result_columns_mem i(1) cols by metis
  then obtain name param where f: "result_field_key name param = Some key" using column_key_cases i(2) by blast
  note names = canonical_names [OF f]
  have conf: "find_schema_conflicts (columns g) = []" using ok ready by (simp add: grid_ok_def schema_ready_def)
  show ?thesis
  proof
    assume n: "cell_name (columns g) j = key"
    show "j = i"
    proof (cases "map_of (columns g) j")
      case (Some c')
      then have "rc_key c' = Some key" using n names
        by (auto simp: cell_name_def split: option.splits if_splits)
      then show ?thesis using no_conflict_unique [OF conf dist map_of_SomeD [OF Some] i(1)] i(2) by simp
    qed (use n names in \<open>auto simp: cell_name_def\<close>)
  next
    assume "j = i"
    then show "cell_name (columns g) j = key"
      using i names map_of_is_SomeI [OF dist i(1)] by (simp add: cell_name_def)
  qed
qed

lemma fold_update_lookup:
  assumes "\<forall>j. name j = key \<longleftrightarrow> j = i" "distinct (map fst cells)"
  shows "map_of (fold (\<lambda>(j, x). AList.update (name j) (value_of x)) cells d) key =
    (case map_of cells i of None \<Rightarrow> map_of d key | Some x \<Rightarrow> Some (value_of x))"
  using assms(2)
proof (induction cells arbitrary: d)
  case (Cons c cells)
  obtain j x where c: "c = (j, x)" by (cases c)
  show ?case
  proof (cases "j = i")
    case True
    then have "map_of cells i = None" using Cons.prems c by (simp add: map_of_eq_None_iff)
    moreover have "key = name i" using assms(1) by metis
    ultimately show ?thesis using Cons True by (simp add: c update_conv')
  next
    case False
    then have "name j \<noteq> key" using assms(1) by blast
    then show ?thesis using Cons False by (cases "map_of cells i") (simp_all add: c update_conv')
  qed
qed simp

lemma canonical_value:
  assumes ok: "grid_ok render g" and i: "(i, col) \<in> set (columns g)" "rc_key col = Some key"
    and ready: "schema_ready g"
  shows "map_of (row_values r g) key = map_option cell_value (map_of (row_cells r g) i)"
proof -
  have "distinct (map fst (row_cells r g))" using row_cells_ok ok by (auto simp: grid_ok_alt)
  then show ?thesis
    using fold_update_lookup [of "cell_name (columns g)" key i "row_cells r g" cell_value "[]"]
      canonical_name_cell [OF ok i ready] ready
    by (simp add: row_values_def split: option.splits)
qed

lemma canonical_value_absent:
  assumes ok: "grid_ok render g" and none: "\<forall>(i, col) \<in> set (columns g). rc_key col \<noteq> Some key"
    and key: "result_field_key name param = Some key"
  shows "map_of (row_values r g) key = None"
proof -
  have "cell_name (columns g) j \<noteq> key" for j
  proof (cases "map_of (columns g) j")
    case (Some c')
    then have "rc_key c' \<noteq> Some key" using none map_of_SomeD by fastforce
    then show ?thesis using Some canonical_names [OF key]
      by (auto simp: cell_name_def split: option.splits)
  qed (use canonical_names [OF key] in \<open>auto simp: cell_name_def\<close>)
  then have "key \<noteq> cell_name (columns g) j" for j by metis
  then have "map_of (fold (\<lambda>(j, x). AList.update (cell_name (columns g) j) (cell_value x)) cells d) key = map_of d key"
    for cells :: "(int \<times> result_cell) list" and d
    by (induction cells arbitrary: d) (auto simp: update_conv')
  then show ?thesis by (simp add: row_values_def)
qed

text \<open>Where a cell of the old layout goes.\<close>

definition cell_target :: "(int \<times> result_column) list \<Rightarrow> (int \<times> result_column) list \<Rightarrow> int \<Rightarrow> int option" where
  "cell_target old new i =
    (case map_of old i of
       None \<Rightarrow> None
     | Some col \<Rightarrow> (case grouped new (Some \<circ> column_identity) (column_identity col) of [j] \<Rightarrow> Some j | _ \<Rightarrow> None))"

lemma remap_cells_alt:
  "remap_cells old (indexes_by_identity new) cells =
    fold (\<lambda>(i, x) d. case cell_target old new i of None \<Rightarrow> d | Some j \<Rightarrow> AList.update j x d) cells []"
proof -
  have "(case map_of old i of None \<Rightarrow> d | Some col \<Rightarrow>
      (case map_of (indexes_by_identity new) (column_identity col) of Some [j] \<Rightarrow> AList.update j x d | _ \<Rightarrow> d)) =
    (case cell_target old new i of None \<Rightarrow> d | Some j \<Rightarrow> AList.update j x d)" for i d and x :: result_cell
    by (auto simp: cell_target_def map_of_indexes_by_identity split: option.splits list.splits)
  then show ?thesis unfolding remap_cells_def by simp
qed

lemma map_of_remap:
  assumes "distinct (map fst cells)" "\<forall>i. cell_target old new i = Some j \<longleftrightarrow> i = i0"
  shows "map_of (remap_cells old (indexes_by_identity new) cells) j = map_of cells i0"
proof -
  have "map_of (fold (\<lambda>(i, x) d. case cell_target old new i of None \<Rightarrow> d | Some j \<Rightarrow> AList.update j x d) cells d) j =
      (case map_of cells i0 of None \<Rightarrow> map_of d j | Some x \<Rightarrow> Some x)" for d
    using assms(1)
  proof (induction cells arbitrary: d)
    case (Cons c cells)
    obtain i x where c: "c = (i, x)" by (cases c)
    show ?case
    proof (cases "i = i0")
      case True
      then have "map_of cells i0 = None" "cell_target old new i = Some j"
        using Cons.prems c assms(2) by (auto simp: map_of_eq_None_iff)
      then show ?thesis using Cons True by (simp add: c update_conv')
    next
      case False
      then have "cell_target old new i \<noteq> Some j" using assms(2) by blast
      then show ?thesis using Cons False by (auto simp: c update_conv' split: option.splits)
    qed
  qed simp
  then show ?thesis by (simp add: remap_cells_alt split: option.splits)
qed

lemma map_of_remap_none:
  assumes "\<forall>i. cell_target old new i \<noteq> Some j"
  shows "map_of (remap_cells old (indexes_by_identity new) cells) j = None"
proof -
  have "map_of (fold (\<lambda>(i, x) d. case cell_target old new i of None \<Rightarrow> d | Some j \<Rightarrow> AList.update j x d) cells d) j = map_of d j" for d
    using assms by (induction cells arbitrary: d) (auto simp: update_conv' split: option.splits)
  then show ?thesis by (simp add: remap_cells_alt)
qed

lemma row_cells_remap:
  assumes "distinct (map fst rs)"
  shows "(case map_of (remap_rows old ni rs) r of None \<Rightarrow> [] | Some cells \<Rightarrow> cells) =
    (case map_of rs r of None \<Rightarrow> [] | Some cells \<Rightarrow> remap_cells old ni cells)"
proof -
  let ?f = "\<lambda>(row_index, cells) remapped. let next_cells = remap_cells old ni cells
        in if next_cells \<noteq> [] then AList.update row_index next_cells remapped else remapped"
  have "map_of (fold ?f rs d) r = (case map_of rs r of None \<Rightarrow> map_of d r
      | Some cells \<Rightarrow> if remap_cells old ni cells = [] then map_of d r else Some (remap_cells old ni cells))" for d
    using assms
  proof (induction rs arbitrary: d)
    case (Cons s rs)
    obtain r' cells where s: "s = (r', cells)" by (cases s)
    have "r' = r \<Longrightarrow> map_of rs r = None" using Cons.prems s by (simp add: map_of_eq_None_iff)
    then show ?case using Cons by (auto simp: s Let_def update_conv' split: option.splits)
  qed simp
  then show ?thesis by (auto simp: remap_rows_def split: option.splits)
qed

lemma grouped_identity:
  assumes "rc_key col = Some key"
  shows "grouped new (Some \<circ> column_identity) (column_identity col) = grouped new rc_key key"
proof -
  have "column_identity c = column_identity col \<longleftrightarrow> rc_key c = Some key" for c
    using assms by (auto simp: column_identity_def split: option.splits)
  then show ?thesis by (simp add: grouped_def)
qed

lemma grouped_single:
  assumes "find_schema_conflicts new = []" "distinct (map fst new)" "(j, c) \<in> set new" "rc_key c = Some key"
  shows "grouped new rc_key key = [j]"
proof -
  have "j \<in> set (grouped new rc_key key)" using assms(3,4) by (force simp: grouped_def)
  moreover have "\<not> 1 < length (grouped new rc_key key)" using conflicts_mem [of key _ new] assms(1) by auto
  ultimately show ?thesis by (cases "grouped new rc_key key") auto
qed

lemma cell_target_canonical:
  assumes old: "find_schema_conflicts old = []" "distinct (map fst old)"
    and new: "find_schema_conflicts new = []" "distinct (map fst new)" "(j, c') \<in> set new" "rc_key c' = Some key"
  shows "cell_target old new i = Some j \<longleftrightarrow> (\<exists>c. (i, c) \<in> set old \<and> rc_key c = Some key)"
proof
  assume t: "cell_target old new i = Some j"
  then obtain c where c: "map_of old i = Some c" "grouped new (Some \<circ> column_identity) (column_identity c) = [j]"
    by (auto simp: cell_target_def split: option.splits list.splits)
  then have "j \<in> set (grouped new (Some \<circ> column_identity) (column_identity c))" by simp
  then obtain c2 where "(j, c2) \<in> set new" "column_identity c2 = column_identity c" by (auto simp: grouped_def)
  then have "column_identity c' = column_identity c"
    using new(2,3) by (metis map_of_is_SomeI option.inject)
  then have "rc_key c = Some key" using new(4) by (simp add: column_identity_def split: option.splits)
  then show "\<exists>c. (i, c) \<in> set old \<and> rc_key c = Some key" using map_of_SomeD [OF c(1)] by blast
next
  assume "\<exists>c. (i, c) \<in> set old \<and> rc_key c = Some key"
  then obtain c where c: "(i, c) \<in> set old" "rc_key c = Some key" by blast
  then show "cell_target old new i = Some j"
    using map_of_is_SomeI [OF old(2) c(1)] grouped_identity [OF c(2), of new] grouped_single [OF new]
    by (simp add: cell_target_def)
qed

text \<open>An authoritative layout change never reinterprets a fact: whatever columns are added, moved
  or dropped, every recognised field of the new layout reads, in every row, exactly the value
  it had under the old one, and has no value when the old layout did not carry it.\<close>
theorem layout_update_keeps_fields:
  assumes "grid_ok render g" "schema_ready g" "schema_ready (apply_layout_update render lay g)"
    and "(j, col) \<in> set (columns (apply_layout_update render lay g))" "rc_key col = Some key"
  shows "map_of (row_values r (apply_layout_update render lay g)) key = map_of (row_values r g) key"
proof -
  let ?g = "apply_layout_update render lay g"
  let ?old = "columns g" and ?new = "columns ?g"
  have ok: "grid_ok render ?g" by (rule apply_layout_update_ok [OF assms(1)])
  have cols: "?old = result_columns render (layout g)" "?new = result_columns render (layout ?g)"
    using assms(1) ok by (simp_all add: grid_ok_def)
  have dist: "distinct (map fst ?old)" "distinct (map fst ?new)"
    unfolding cols by (rule result_columns_distinct)+
  have conf: "find_schema_conflicts ?old = []" "find_schema_conflicts ?new = []"
  proof -
    have "schema_conflicts g = []" "schema_conflicts ?g = []" using assms(2,3) by (simp_all add: schema_ready_def)
    moreover have "schema_conflicts g = find_schema_conflicts ?old" "schema_conflicts ?g = find_schema_conflicts ?new"
      using assms(1) ok unfolding grid_ok_def by blast+
    ultimately show "find_schema_conflicts ?old = []" "find_schema_conflicts ?new = []" by simp_all
  qed
  have new: "?new = result_columns render lay" by (simp add: apply_layout_update_def Let_def)
  have "rows ?g = remap_rows ?old (indexes_by_identity ?new) (rows g)"
    using assms(2) conf(2) by (simp add: new) (simp add: apply_layout_update_def Let_def new)
  moreover have "distinct (map fst (rows g))" using assms(1) by (simp add: grid_ok_def)
  ultimately have cells: "row_cells r ?g = remap_cells ?old (indexes_by_identity ?new) (row_cells r g)"
    using row_cells_remap [of "rows g" ?old "indexes_by_identity ?new" r]
    by (cases "map_of (rows g) r") (simp_all add: row_cells_def remap_cells_def [of _ _ "[]"])
  have dc: "distinct (map fst (row_cells r g))" using row_cells_ok assms(1) by (auto simp: grid_ok_alt)
  note target = cell_target_canonical [OF conf(1) dist(1) conf(2) dist(2) assms(4,5)]
  have valued: "map_of (row_values r ?g) key = map_option cell_value (map_of (row_cells r ?g) j)"
    by (rule canonical_value [OF ok assms(4,5,3)])
  show ?thesis
  proof (cases "\<exists>i c. (i, c) \<in> set ?old \<and> rc_key c = Some key")
    case True
    then obtain i c where i: "(i, c) \<in> set ?old" "rc_key c = Some key" by blast
    have "cell_target ?old ?new i' = Some j \<longleftrightarrow> i' = i" for i'
      unfolding target using i no_conflict_unique [OF conf(1) dist(1) _ i(1) _ i(2)] by blast
    then have "map_of (row_cells r ?g) j = map_of (row_cells r g) i"
      unfolding cells by (intro map_of_remap [OF dc]) blast
    then show ?thesis using valued canonical_value [OF assms(1) i assms(2)] by simp
  next
    case False
    then have "map_of (row_cells r ?g) j = None"
      unfolding cells by (intro map_of_remap_none) (use target in blast)
    moreover have "map_of (row_values r g) key = None"
    proof -
      obtain n h where "col = result_column_of render n h" using result_columns_mem assms(4) cols(2) by metis
      then obtain name param where "result_field_key name param = Some key"
        using column_key_cases assms(5) by blast
      then show ?thesis using canonical_value_absent [OF assms(1)] False by blast
    qed
    ultimately show ?thesis using valued by simp
  qed
qed

definition demo_layout :: "string list \<Rightarrow> json" where
  "demo_layout names = JObj [(''h'', JList (map JStr names))]"

definition demo_grid :: "string list \<Rightarrow> json list list \<Rightarrow> result_grid" where
  "demo_grid names changes = apply_snapshot (\<lambda>_. [])
     (JObj [(''l'', demo_layout names), (''r'', JList (map JList changes))]) empty_grid"

theorem layout_update_keeps_fields_witness:
  "map_of (row_values 0 (apply_layout_update (\<lambda>_. []) (demo_layout [''CAR'', ''POS'', ''NR''])
      (demo_grid [''POS'', ''NR''] [[JInt 0, JInt 0, JInt 4], [JInt 0, JInt 1, JStr ''21'']]))) ''position_overall'' = Some (JInt 4)"
proof -
  let ?g = "demo_grid [''POS'', ''NR''] [[JInt 0, JInt 0, JInt 4], [JInt 0, JInt 1, JStr ''21'']]"
  let ?l = "demo_layout [''CAR'', ''POS'', ''NR'']"
  have ok: "grid_ok (\<lambda>_. []) ?g" unfolding demo_grid_def by (rule apply_snapshot_ok [OF empty_grid_ok])
  have r: "schema_ready ?g" "schema_ready (apply_layout_update (\<lambda>_. []) ?l ?g)" by code_simp+
  have c: "(1, snd (columns (apply_layout_update (\<lambda>_. []) ?l ?g) ! 1)) \<in> set (columns (apply_layout_update (\<lambda>_. []) ?l ?g))"
    "rc_key (snd (columns (apply_layout_update (\<lambda>_. []) ?l ?g) ! 1)) = Some ''position_overall''" by code_simp+
  have "map_of (row_values 0 ?g) ''position_overall'' = Some (JInt 4)" by code_simp
  then show ?thesis using layout_update_keeps_fields [OF ok r c, of 0] by simp
qed

text \<open>The order of dictionary entries is not in the checkpoint, and it matters: with two
  unrecognised columns of one header, the grid that kept running and the grid restored from
  its own checkpoint report different values for the same row, and still do after the next
  layout keeps one of the two columns.\<close>
theorem checkpoint_forgets_cell_order:
  "let g = demo_grid [''NR'', ''Foo'', ''Foo''] [[JInt 0, JInt 2, JInt 7], [JInt 0, JInt 1, JInt 5]];
       next_layout = demo_layout [''Foo'', ''NR'']
   in case restore_snapshot (\<lambda>_. []) (grid_snapshot g) of
        Inl e \<Rightarrow> False
      | Inr g' \<Rightarrow>
          map_of (row_values 0 g) ''unknown:Foo:'' = Some (JInt 5) \<and>
          map_of (row_values 0 g') ''unknown:Foo:'' = Some (JInt 7) \<and>
          map_of (row_values 0 (apply_layout_update (\<lambda>_. []) next_layout g)) ''unknown:Foo:'' = Some (JInt 5) \<and>
          map_of (row_values 0 (apply_layout_update (\<lambda>_. []) next_layout g')) ''unknown:Foo:'' = Some (JInt 7)"
  by code_simp

end
