(* ===== verification/Canonical_Laps.thy ===== *)
theory Canonical_Laps
  imports Clock
begin

text \<open>
  \<open>server/timing/canonical_laps.py\<close> over the tables of migration 0018: lap boundaries, laps,
  passings and sectors reconstructed from tracker passings, the attachment of LAST cells, and
  the rebuild of one heat. A table is a list of rows in row-id order; a \<open>SELECT\<close> is a filter
  and a sort; a violated \<open>UNIQUE\<close> or \<open>CHECK\<close> constraint is an \<open>IntegrityError\<close>, or skips the
  row for \<open>INSERT OR IGNORE\<close>. An observation carries the handle of the message it is joined
  with. The audit timestamps \<open>created_at_us\<close> and \<open>updated_at_us\<close> are left out; \<open>uuid5\<close> of the
  URL namespace is the parameter \<open>uuid5\<close>.
\<close>

section \<open>Tables\<close>

record observation =
  ob_id :: int
  ob_heat :: int
  ob_participant :: "string option"
  ob_handle :: "string option"
  ob_start_distance_mm :: "int option"
  ob_stop_distance_mm :: "int option"
  ob_sector_id :: "int option"
  ob_is_in_pit :: "bool option"
  ob_provider_passed_at_raw :: "string option"
  ob_provider_us :: "int option"
  ob_passed_at_us :: "int option"
  ob_message_id :: "int option"
  ob_source_key :: string
  ob_observed_at_us :: int

record green_flag =
  gf_provider_ts_raw :: "string option"
  gf_provider_us :: "int option"
  gf_at_us :: "int option"
  gf_message_id :: "int option"
  gf_source_key :: "string option"
  gf_observed_at_us :: int

datatype boundary_kind = HEAT_START | COVERAGE_START | MAIN_FINISH | PIT_FINISH

datatype boundary_source = HEAT_GREEN | TRACKER_PASSING

record boundary =
  bd_id :: string
  bd_heat :: int
  bd_participant :: string
  bd_ordinal :: int
  bd_kind :: boundary_kind
  bd_source :: boundary_source
  bd_passing :: "int option"
  bd_corroborating :: "int option"
  bd_provider_passed_at_raw :: string
  bd_provider_us :: int
  bd_passed_at_us :: "int option"
  bd_observed_at_us :: int
  bd_start_distance_mm :: "int option"
  bd_stop_distance_mm :: "int option"
  bd_sector_id :: "int option"
  bd_is_in_pit :: "bool option"
  bd_message_id :: "int option"
  bd_source_key :: string

datatype reconciliation = PENDING | EXACT | MISMATCH | MISSING_SOURCE | MISSING_TRACKER

record canonical_lap =
  cl_id :: string
  cl_heat :: int
  cl_participant :: string
  cl_ordinal :: int
  cl_number :: "int option"
  cl_coverage_complete :: bool
  cl_start_boundary :: string
  cl_finish_boundary :: string
  cl_started_at_provider_us :: int
  cl_finished_at_provider_us :: int
  cl_started_at_us :: "int option"
  cl_finished_at_us :: "int option"
  cl_start_observed_at_us :: int
  cl_finish_observed_at_us :: int
  cl_duration_us :: int
  cl_duration_ms :: int
  cl_last_cell :: "int option"
  cl_source_duration_raw :: "string option"
  cl_source_duration_us :: "int option"
  cl_source_duration_ms :: "int option"
  cl_reconciliation :: reconciliation
  cl_is_pit_lap :: bool
  cl_message_id :: "int option"
  cl_source_key :: string

datatype passing_role = SECTOR_1_END | SECTOR_2_END | FINISH | START_CORROBORATION | PIT_PATH | OTHER

record lap_passing =
  lp_lap :: string
  lp_passing :: int
  lp_ordinal :: int
  lp_role :: passing_role

record lap_sector =
  ls_lap :: string
  ls_number :: int
  ls_start_passing :: "int option"
  ls_finish_passing :: "int option"
  ls_started_us :: "int option"
  ls_finished_us :: "int option"
  ls_duration_us :: "int option"
  ls_duration_ms :: "int option"
  ls_source_cell :: "int option"
  ls_source_duration_raw :: "string option"
  ls_source_duration_us :: "int option"
  ls_source_duration_ms :: "int option"
  ls_reconciliation :: reconciliation

text \<open>
  Result cells joined with their column definition and message, and the LAST ledger joined
  with the text of its cell.
\<close>

record cell_observation =
  co_id :: int
  co_heat :: int
  co_participant :: "string option"
  co_canonical_key :: "string option"
  co_value_text :: "string option"
  co_message_id :: int
  co_frame_id :: int
  co_message_ordinal :: int
  co_change_ordinal :: int

record ledger_row =
  lr_cell :: int
  lr_heat :: int
  lr_participant :: "string option"
  lr_frame_id :: int
  lr_message_id :: int
  lr_message_ordinal :: int
  lr_change_ordinal :: int
  lr_handle :: string
  lr_observed_at_us :: int
  lr_duration_ms :: "int option"
  lr_classification :: string
  lr_reason :: string
  lr_linked_lap :: "string option"
  lr_sectors :: "json option"
  lr_sector_cells :: "json option"
  lr_value_text :: "string option"

record canonical_db =
  cd_observations :: "observation list"
  cd_green :: "(int \<times> green_flag) list"
  cd_boundaries :: "boundary list"
  cd_laps :: "canonical_lap list"
  cd_passings :: "lap_passing list"
  cd_sectors :: "lap_sector list"
  cd_cells :: "cell_observation list"
  cd_ledger :: "ledger_row list"

datatype canonical_error = IntegrityError string | RuntimeError string | TypeError | ValueError string

record lap_match =
  lm_id :: string
  lm_participant :: string
  lm_ordinal :: int
  lm_number :: "int option"
  lm_duration_us :: int

definition START_SIGNAL_WINDOW_US :: int where "START_SIGNAL_WINDOW_US = 5000000"

definition LAST_MATCH_WINDOW_US :: int where "LAST_MATCH_WINDOW_US = 5000000"

section \<open>Identifiers and durations\<close>

fun join_colon :: "string list \<Rightarrow> string" where
  "join_colon [] = []"
| "join_colon [x] = x"
| "join_colon (x # xs) = x @ '':'' @ join_colon xs"

definition canonical_id :: "(string \<Rightarrow> string) \<Rightarrow> string \<Rightarrow> string list \<Rightarrow> string" where
  "canonical_id uuid5 kind parts = uuid5 (''balchug-racing:canonical:'' @ kind @ '':'' @ join_colon parts)"

fun kind_text :: "boundary_kind \<Rightarrow> string" where
  "kind_text HEAT_START = ''HEAT_START''"
| "kind_text COVERAGE_START = ''COVERAGE_START''"
| "kind_text MAIN_FINISH = ''MAIN_FINISH''"
| "kind_text PIT_FINISH = ''PIT_FINISH''"

text \<open>\<open>str\<close> of a nullable text column.\<close>

definition text_or_None :: "string option \<Rightarrow> string" where
  "text_or_None s = (case s of None \<Rightarrow> ''None'' | Some t \<Rightarrow> t)"

definition duration_us :: "json \<Rightarrow> int option" where
  "duration_us value =
    (case parse_ts_time value of
       None \<Rightarrow> None
     | Some parsed \<Rightarrow> if 1000000 \<le> parsed \<and> parsed < OPEN_ENDED_TS_TIME then Some parsed else None)"

section \<open>Queries\<close>

definition tracker_observation :: "canonical_db \<Rightarrow> int \<Rightarrow> int \<Rightarrow> observation option" where
  "tracker_observation d source_heat_id observation_id =
    find (\<lambda>o1. ob_id o1 = observation_id \<and> ob_heat o1 = source_heat_id \<and> ob_handle o1 \<noteq> None) (cd_observations d)"

definition track_length_mm :: "canonical_db \<Rightarrow> int \<Rightarrow> int option" where
  "track_length_mm d source_heat_id =
    (case List.map_filter (\<lambda>o1. if ob_heat o1 = source_heat_id
            then (case ob_stop_distance_mm o1 of Some s \<Rightarrow> if s > 0 then Some s else None | None \<Rightarrow> None)
            else None) (cd_observations d) of
       [] \<Rightarrow> None
     | s # ss \<Rightarrow> Some (fold max ss s))"

definition green_flag_row :: "canonical_db \<Rightarrow> int \<Rightarrow> (green_flag \<times> int) option" where
  "green_flag_row d source_heat_id =
    (case map_of (cd_green d) source_heat_id of
       None \<Rightarrow> None
     | Some g \<Rightarrow> (case gf_provider_us g of None \<Rightarrow> None | Some u \<Rightarrow> Some (g, u)))"

definition is_start_signal :: "int \<Rightarrow> string \<Rightarrow> int \<Rightarrow> int \<Rightarrow> observation \<Rightarrow> bool" where
  "is_start_signal source_heat_id participant_id track_length green_provider_us o1 =
    (ob_heat o1 = source_heat_id \<and> ob_participant o1 = Some participant_id \<and> ob_handle o1 = Some ''t_p'' \<and>
     (case ob_provider_us o1 of None \<Rightarrow> False | Some u \<Rightarrow> u > 0 \<and> \<bar>u - green_provider_us\<bar> \<le> START_SIGNAL_WINDOW_US) \<and>
     ob_start_distance_mm o1 = Some 0 \<and> ob_stop_distance_mm o1 = Some track_length \<and> ob_is_in_pit o1 = Some False)"

definition start_signal :: "canonical_db \<Rightarrow> int \<Rightarrow> string \<Rightarrow> int \<Rightarrow> observation option" where
  "start_signal d source_heat_id participant_id green_provider_us =
    (case track_length_mm d source_heat_id of
       None \<Rightarrow> None
     | Some track_length \<Rightarrow>
        (case sort_key (\<lambda>o1. (\<bar>the (ob_provider_us o1) - green_provider_us\<bar>, ob_id o1))
            (filter (is_start_signal source_heat_id participant_id track_length green_provider_us) (cd_observations d)) of
           [] \<Rightarrow> None
         | o1 # _ \<Rightarrow> Some o1))"

definition boundaries_of :: "int \<Rightarrow> string \<Rightarrow> boundary list \<Rightarrow> boundary list" where
  "boundaries_of h p bs = filter (\<lambda>b. bd_heat b = h \<and> bd_participant b = p) bs"

definition laps_of :: "int \<Rightarrow> string \<Rightarrow> canonical_lap list \<Rightarrow> canonical_lap list" where
  "laps_of h p ls = filter (\<lambda>l. cl_heat l = h \<and> cl_participant l = p) ls"

definition latest_boundary :: "canonical_db \<Rightarrow> int \<Rightarrow> string \<Rightarrow> boundary option" where
  "latest_boundary d h p =
    (case rev (sort_key bd_ordinal (boundaries_of h p (cd_boundaries d))) of [] \<Rightarrow> None | b # _ \<Rightarrow> Some b)"

definition boundary_conflict :: "boundary \<Rightarrow> boundary \<Rightarrow> bool" where
  "boundary_conflict b x =
    (bd_id x = bd_id b \<or> (bd_passing b \<noteq> None \<and> bd_passing x = bd_passing b) \<or>
     (bd_heat x = bd_heat b \<and> bd_participant x = bd_participant b \<and>
       (bd_ordinal x = bd_ordinal b \<or> (bd_provider_us x = bd_provider_us b \<and> bd_kind x = bd_kind b))))"

definition boundary_row_ok :: "boundary \<Rightarrow> canonical_db \<Rightarrow> bool" where
  "boundary_row_ok b d = (0 \<le> bd_ordinal b \<and> \<not> list_ex (boundary_conflict b) (cd_boundaries d))"

text \<open>\<open>INSERT OR IGNORE\<close> and the row read back by its id.\<close>

definition insert_boundary_or_ignore :: "boundary \<Rightarrow> canonical_db \<Rightarrow> canonical_error + (canonical_db \<times> boundary)" where
  "insert_boundary_or_ignore b d =
    (let d' = (if boundary_row_ok b d then d\<lparr> cd_boundaries := cd_boundaries d @ [b] \<rparr> else d)
     in case find (\<lambda>x. bd_id x = bd_id b) (cd_boundaries d') of
          None \<Rightarrow> Inl (RuntimeError ''boundary was not persisted'')
        | Some row \<Rightarrow> Inr (d', row))"

section \<open>The first boundary\<close>

definition heat_start_boundary :: "(string \<Rightarrow> string) \<Rightarrow> int \<Rightarrow> string \<Rightarrow> green_flag \<Rightarrow> int \<Rightarrow> observation \<Rightarrow> boundary" where
  "heat_start_boundary uuid5 h p green provider_us signal =
    \<lparr> bd_id = canonical_id uuid5 ''boundary'' [int_text h, p, ''HEAT_START'', int_text provider_us],
      bd_heat = h, bd_participant = p, bd_ordinal = 0, bd_kind = HEAT_START, bd_source = HEAT_GREEN,
      bd_passing = None, bd_corroborating = Some (ob_id signal),
      bd_provider_passed_at_raw = text_or_None (gf_provider_ts_raw green), bd_provider_us = provider_us,
      bd_passed_at_us = gf_at_us green, bd_observed_at_us = gf_observed_at_us green,
      bd_start_distance_mm = None, bd_stop_distance_mm = None, bd_sector_id = None, bd_is_in_pit = None,
      bd_message_id = gf_message_id green, bd_source_key = text_or_None (gf_source_key green) \<rparr>"

text \<open>A boundary made of one passing; the coverage start and both finishes are of this form.\<close>

definition passing_boundary ::
    "(string \<Rightarrow> string) \<Rightarrow> boundary_kind \<Rightarrow> int \<Rightarrow> string \<Rightarrow> int \<Rightarrow> int \<Rightarrow> observation \<Rightarrow> boundary" where
  "passing_boundary uuid5 kind h p ordinal provider_us o1 =
    \<lparr> bd_id = canonical_id uuid5 ''boundary'' [int_text h, p, kind_text kind, int_text (ob_id o1)],
      bd_heat = h, bd_participant = p, bd_ordinal = ordinal, bd_kind = kind, bd_source = TRACKER_PASSING,
      bd_passing = Some (ob_id o1), bd_corroborating = None,
      bd_provider_passed_at_raw = text_or_None (ob_provider_passed_at_raw o1), bd_provider_us = provider_us,
      bd_passed_at_us = ob_passed_at_us o1, bd_observed_at_us = ob_observed_at_us o1,
      bd_start_distance_mm = ob_start_distance_mm o1, bd_stop_distance_mm = ob_stop_distance_mm o1,
      bd_sector_id = ob_sector_id o1, bd_is_in_pit = ob_is_in_pit o1,
      bd_message_id = ob_message_id o1, bd_source_key = ob_source_key o1 \<rparr>"

definition initial_boundary ::
    "(string \<Rightarrow> string) \<Rightarrow> int \<Rightarrow> string \<Rightarrow> int \<Rightarrow> observation \<Rightarrow> canonical_db
      \<Rightarrow> canonical_error + (canonical_db \<times> boundary)" where
  "initial_boundary uuid5 h p provider_us fallback d =
    (case latest_boundary d h p of
       Some current \<Rightarrow> Inr (d, current)
     | None \<Rightarrow>
        (case (case green_flag_row d h of
                 None \<Rightarrow> None
               | Some (green, green_us) \<Rightarrow>
                   map_option (\<lambda>signal. heat_start_boundary uuid5 h p green green_us signal)
                     (start_signal d h p green_us)) of
           Some b \<Rightarrow> insert_boundary_or_ignore b d
         | None \<Rightarrow> insert_boundary_or_ignore (passing_boundary uuid5 COVERAGE_START h p 0 provider_us fallback) d))"

section \<open>Passings and sectors of one lap\<close>

definition passing_role :: "int \<Rightarrow> int option \<Rightarrow> observation \<Rightarrow> passing_role" where
  "passing_role finish_observation_id track_length o1 =
    (if ob_id o1 = finish_observation_id then FINISH
     else if ob_sector_id o1 = Some 1 then SECTOR_1_END
     else if ob_sector_id o1 = Some 2 then SECTOR_2_END
     else if track_length \<noteq> None \<and> ob_start_distance_mm o1 = Some 0 \<and> ob_stop_distance_mm o1 = track_length
     then START_CORROBORATION
     else if ob_is_in_pit o1 = Some True \<or> (case ob_sector_id o1 of None \<Rightarrow> False | Some s \<Rightarrow> s < 0) then PIT_PATH
     else OTHER)"

definition lap_passings :: "canonical_db \<Rightarrow> int \<Rightarrow> string \<Rightarrow> int \<Rightarrow> int \<Rightarrow> observation list" where
  "lap_passings d h p started finished =
    sort_key (\<lambda>o1. (the (ob_provider_us o1), ob_id o1))
      (filter (\<lambda>o1. ob_heat o1 = h \<and> ob_participant o1 = Some p \<and> ob_handle o1 = Some ''t_p'' \<and>
          (case ob_provider_us o1 of None \<Rightarrow> False | Some u \<Rightarrow> started < u \<and> u \<le> finished))
        (cd_observations d))"

fun insert_passings :: "string \<Rightarrow> int \<Rightarrow> int option \<Rightarrow> (nat \<times> observation) list \<Rightarrow> canonical_db \<Rightarrow> canonical_db" where
  "insert_passings lap_id finish_observation_id track_length [] d = d"
| "insert_passings lap_id finish_observation_id track_length ((ordinal, o1) # rest) d =
    insert_passings lap_id finish_observation_id track_length rest
      (if list_ex (\<lambda>x. lp_passing x = ob_id o1 \<or> (lp_lap x = lap_id \<and> lp_ordinal x = int ordinal)) (cd_passings d)
       then d
       else d\<lparr> cd_passings := cd_passings d @
              [\<lparr> lp_lap = lap_id, lp_passing = ob_id o1, lp_ordinal = int ordinal,
                 lp_role = passing_role finish_observation_id track_length o1 \<rparr>] \<rparr>)"

definition sector_row ::
    "string \<Rightarrow> boundary \<Rightarrow> int \<times> observation option \<times> observation option \<times> int option \<times> int option \<Rightarrow> lap_sector" where
  "sector_row lap_id start_boundary point =
    (case point of (number, start, end_passing, started, finished) \<Rightarrow>
      (let duration = (case (started, finished) of (Some s, Some f) \<Rightarrow> if f > s then Some (f - s) else None | _ \<Rightarrow> None)
       in \<lparr> ls_lap = lap_id, ls_number = number,
            ls_start_passing = (case start of Some o1 \<Rightarrow> Some (ob_id o1) | None \<Rightarrow> bd_passing start_boundary),
            ls_finish_passing = map_option ob_id end_passing,
            ls_started_us = started, ls_finished_us = finished, ls_duration_us = duration,
            ls_duration_ms = map_option (\<lambda>d. d div 1000) duration,
            ls_source_cell = None, ls_source_duration_raw = None, ls_source_duration_us = None,
            ls_source_duration_ms = None, ls_reconciliation = PENDING \<rparr>))"

definition sector_rows :: "string \<Rightarrow> boundary \<Rightarrow> boundary \<Rightarrow> observation list \<Rightarrow> lap_sector list" where
  "sector_rows lap_id start_boundary finish_boundary passings =
    (let sector_1 = find (\<lambda>o1. ob_sector_id o1 = Some 1) passings;
         sector_2 = find (\<lambda>o1. ob_sector_id o1 = Some 2) passings;
         finish = find (\<lambda>o1. Some (ob_id o1) = bd_passing finish_boundary) passings;
         time = (\<lambda>x. case x of None \<Rightarrow> None | Some o1 \<Rightarrow> ob_provider_us o1)
     in map (sector_row lap_id start_boundary)
          [(1, None, sector_1, Some (bd_provider_us start_boundary), time sector_1),
           (2, sector_1, sector_2, time sector_1, time sector_2),
           (3, sector_2, finish, time sector_2, Some (bd_provider_us finish_boundary))])"

definition sector_check :: "lap_sector \<Rightarrow> bool" where
  "sector_check s = ((case ls_duration_us s of None \<Rightarrow> True | Some d \<Rightarrow> d > 0) \<and>
    (case ls_duration_ms s of None \<Rightarrow> True | Some d \<Rightarrow> d > 0))"

fun insert_sectors :: "lap_sector list \<Rightarrow> canonical_db \<Rightarrow> canonical_error + canonical_db" where
  "insert_sectors [] d = Inr d"
| "insert_sectors (s # ss) d =
    (if \<not> sector_check s \<or> list_ex (\<lambda>x. ls_lap x = ls_lap s \<and> ls_number x = ls_number s) (cd_sectors d)
     then Inl (IntegrityError ''canonical_lap_sectors'')
     else insert_sectors ss (d\<lparr> cd_sectors := cd_sectors d @ [s] \<rparr>))"

section \<open>One passing\<close>

definition lap_conflict :: "canonical_lap \<Rightarrow> canonical_lap \<Rightarrow> bool" where
  "lap_conflict l x =
    (cl_id x = cl_id l \<or> cl_finish_boundary x = cl_finish_boundary l \<or>
     (cl_heat x = cl_heat l \<and> cl_participant x = cl_participant l \<and>
       (cl_ordinal x = cl_ordinal l \<or> (cl_number l \<noteq> None \<and> cl_number x = cl_number l))))"

definition lap_row_ok :: "canonical_lap \<Rightarrow> canonical_db \<Rightarrow> bool" where
  "lap_row_ok l d = (1 \<le> cl_ordinal l \<and> 0 < cl_duration_us l \<and> 0 < cl_duration_ms l \<and>
     \<not> list_ex (lap_conflict l) (cd_laps d))"

definition new_lap ::
    "(string \<Rightarrow> string) \<Rightarrow> int \<Rightarrow> string \<Rightarrow> boundary \<Rightarrow> boundary \<Rightarrow> bool \<Rightarrow> bool \<Rightarrow> int \<Rightarrow> observation \<Rightarrow> canonical_lap" where
  "new_lap uuid5 h p previous finish coverage_complete crosses_pit provider_us o1 =
    \<lparr> cl_id = canonical_id uuid5 ''lap'' [int_text h, p, int_text (ob_id o1)],
      cl_heat = h, cl_participant = p, cl_ordinal = bd_ordinal finish,
      cl_number = (if coverage_complete then Some (bd_ordinal finish) else None),
      cl_coverage_complete = coverage_complete,
      cl_start_boundary = bd_id previous, cl_finish_boundary = bd_id finish,
      cl_started_at_provider_us = bd_provider_us previous, cl_finished_at_provider_us = provider_us,
      cl_started_at_us = bd_passed_at_us previous, cl_finished_at_us = ob_passed_at_us o1,
      cl_start_observed_at_us = bd_observed_at_us previous, cl_finish_observed_at_us = ob_observed_at_us o1,
      cl_duration_us = provider_us - bd_provider_us previous,
      cl_duration_ms = (provider_us - bd_provider_us previous) div 1000,
      cl_last_cell = None, cl_source_duration_raw = None, cl_source_duration_us = None,
      cl_source_duration_ms = None, cl_reconciliation = PENDING, cl_is_pit_lap = crosses_pit,
      cl_message_id = ob_message_id o1, cl_source_key = ob_source_key o1 \<rparr>"

definition match_of :: "canonical_lap \<Rightarrow> lap_match" where
  "match_of l = \<lparr> lm_id = cl_id l, lm_participant = cl_participant l, lm_ordinal = cl_ordinal l,
     lm_number = cl_number l, lm_duration_us = cl_duration_us l \<rparr>"

text \<open>The lap closed by a finish passing, after its boundary and guards.\<close>

definition close_lap ::
    "(string \<Rightarrow> string) \<Rightarrow> int \<Rightarrow> string \<Rightarrow> boundary \<Rightarrow> int \<Rightarrow> observation \<Rightarrow> canonical_db
      \<Rightarrow> canonical_error + (canonical_db \<times> lap_match option)" where
  "close_lap uuid5 h p previous provider_us o1 d =
    (let kind = (if ob_is_in_pit o1 = Some True then PIT_FINISH else MAIN_FINISH);
         finish = passing_boundary uuid5 kind h p (bd_ordinal previous + 1) provider_us o1
     in if \<not> boundary_row_ok finish d then Inl (IntegrityError ''canonical_lap_boundaries'')
        else
          (let d1 = d\<lparr> cd_boundaries := cd_boundaries d @ [finish] \<rparr>;
               first = find (\<lambda>b. bd_heat b = h \<and> bd_participant b = p \<and> bd_ordinal b = 0) (cd_boundaries d1)
           in if bd_kind previous \<noteq> HEAT_START \<and> first = None then Inl TypeError
              else
                (let coverage = (bd_kind previous = HEAT_START \<or> bd_kind (the first) = HEAT_START);
                     passings = lap_passings d1 h p (bd_provider_us previous) provider_us;
                     crosses_pit = (kind = PIT_FINISH \<or> list_ex (\<lambda>x. ob_is_in_pit x = Some True) passings);
                     lap = new_lap uuid5 h p previous finish coverage crosses_pit provider_us o1
                 in if \<not> lap_row_ok lap d1 then Inl (IntegrityError ''canonical_laps'')
                    else
                      (let d2 = d1\<lparr> cd_laps := cd_laps d1 @ [lap] \<rparr>;
                           d3 = insert_passings (cl_id lap) (ob_id o1) (track_length_mm d h)
                                  (enumerate 1 passings) d2
                       in case insert_sectors (sector_rows (cl_id lap) previous finish passings) d3 of
                            Inl e \<Rightarrow> Inl e
                          | Inr d4 \<Rightarrow> Inr (d4, Some (match_of lap))))))"

definition record_tracker_passing ::
    "(string \<Rightarrow> string) \<Rightarrow> int \<Rightarrow> int \<Rightarrow> canonical_db \<Rightarrow> canonical_error + (canonical_db \<times> lap_match option)" where
  "record_tracker_passing uuid5 source_heat_id observation_id d =
    (case tracker_observation d source_heat_id observation_id of
       None \<Rightarrow> Inr (d, None)
     | Some o1 \<Rightarrow>
        (case (ob_participant o1, ob_provider_us o1) of
           (Some p, Some provider_us) \<Rightarrow>
             if ob_handle o1 \<noteq> Some ''t_p'' \<or> provider_us \<le> 0 \<or> ob_start_distance_mm o1 \<noteq> Some 0 then Inr (d, None)
             else
               (let track_length = track_length_mm d source_heat_id in
                case initial_boundary uuid5 source_heat_id p provider_us o1 d of
                  Inl e \<Rightarrow> Inl e
                | Inr (d1, previous) \<Rightarrow>
                    if track_length \<noteq> None \<and> ob_stop_distance_mm o1 = track_length \<and> ob_is_in_pit o1 = Some False
                    then Inr (d1, None)
                    else if provider_us \<le> bd_provider_us previous then Inr (d1, None)
                    else if list_ex (\<lambda>b. bd_passing b = Some observation_id) (cd_boundaries d1) then Inr (d1, None)
                    else close_lap uuid5 source_heat_id p previous provider_us o1 d1)
         | _ \<Rightarrow> Inr (d, None)))"

section \<open>LAST cells\<close>

text \<open>A text cell as the value \<open>_duration_us\<close> reads.\<close>

definition text_json :: "string option \<Rightarrow> json" where
  "text_json s = opt_json JStr s"

definition match_last_cell :: "int \<Rightarrow> string \<Rightarrow> json \<Rightarrow> int \<Rightarrow> canonical_db \<Rightarrow> lap_match option" where
  "match_last_cell source_heat_id participant_id duration_raw observed_at_us d =
    (case duration_us duration_raw of
       None \<Rightarrow> None
     | Some source_duration_us \<Rightarrow>
        (case filter (\<lambda>l. cl_last_cell l = None \<and> cl_duration_us l = source_duration_us \<and>
                 \<bar>cl_finish_observed_at_us l - observed_at_us\<bar> \<le> LAST_MATCH_WINDOW_US)
               (laps_of source_heat_id participant_id (cd_laps d)) of
           [l] \<Rightarrow> Some (match_of l)
         | _ \<Rightarrow> None))"

definition linked_lap_for_last_cell :: "int \<Rightarrow> int \<Rightarrow> canonical_db \<Rightarrow> lap_match option" where
  "linked_lap_for_last_cell source_heat_id cell d =
    (case filter (\<lambda>l. cl_heat l = source_heat_id \<and> cl_last_cell l = Some cell) (cd_laps d) of
       [l] \<Rightarrow> Some (match_of l)
     | _ \<Rightarrow> None)"

definition attach_lap_row :: "lap_match \<Rightarrow> int \<Rightarrow> string \<Rightarrow> int \<Rightarrow> canonical_lap \<Rightarrow> canonical_lap" where
  "attach_lap_row m cell raw duration l =
    (if cl_id l = lm_id m \<and> cl_last_cell l = None
     then l\<lparr> cl_last_cell := Some cell, cl_source_duration_raw := Some raw,
            cl_source_duration_us := Some duration, cl_source_duration_ms := Some (duration div 1000),
            cl_reconciliation := (if duration = lm_duration_us m then EXACT else MISMATCH) \<rparr>
     else l)"

definition reconcile_sector :: "int option \<Rightarrow> int option \<Rightarrow> reconciliation" where
  "reconcile_sector source_us tracker_us =
    (if source_us = None then MISSING_SOURCE
     else if tracker_us = None then MISSING_TRACKER
     else if source_us = tracker_us then EXACT
     else MISMATCH)"

definition attach_sector_row ::
    "lap_match \<Rightarrow> (string option \<times> int) option \<Rightarrow> int \<Rightarrow> lap_sector \<Rightarrow> lap_sector" where
  "attach_sector_row m source number s =
    (if ls_lap s = lm_id m \<and> ls_number s = number
     then (let raw = (case source of None \<Rightarrow> None | Some (r, i) \<Rightarrow> r);
               source_us = duration_us (text_json raw)
           in s\<lparr> ls_source_cell := map_option snd source, ls_source_duration_raw := raw,
                 ls_source_duration_us := source_us,
                 ls_source_duration_ms := map_option (\<lambda>u. u div 1000) source_us,
                 ls_reconciliation := reconcile_sector source_us (ls_duration_us s) \<rparr>)
     else s)"

definition distinct_some :: "'a option list \<Rightarrow> bool" where
  "distinct_some xs = distinct (List.map_filter id xs)"

fun attach_sectors ::
    "lap_match \<Rightarrow> (string \<times> string option \<times> int) list \<Rightarrow> int list \<Rightarrow> canonical_db \<Rightarrow> canonical_error + canonical_db" where
  "attach_sectors m sources [] d = Inr d"
| "attach_sectors m sources (number # numbers) d =
    (let source = map_of sources (''sector_'' @ int_text number);
         sectors = map (attach_sector_row m source number) (cd_sectors d)
     in if \<not> distinct_some (map ls_source_cell sectors) then Inl (IntegrityError ''canonical_lap_sectors'')
        else attach_sectors m sources numbers (d\<lparr> cd_sectors := sectors \<rparr>))"

text \<open>\<open>str(duration_raw)\<close> of the value that \<open>_duration_us\<close> accepted: a text or an integer.\<close>

definition raw_text :: "json \<Rightarrow> string" where
  "raw_text value = (case value of JStr s \<Rightarrow> s | JNum (PyInt i) \<Rightarrow> int_text i | _ \<Rightarrow> [])"

definition attach_last_cell ::
    "lap_match \<Rightarrow> int \<Rightarrow> json \<Rightarrow> (string \<times> string option \<times> int) list \<Rightarrow> canonical_db \<Rightarrow> canonical_error + canonical_db" where
  "attach_last_cell m cell duration_raw sources d =
    (case duration_us duration_raw of
       None \<Rightarrow> Inl (ValueError ''canonical LAST attachment requires a valid source duration'')
     | Some duration \<Rightarrow>
        (let updated = list_ex (\<lambda>l. cl_id l = lm_id m \<and> cl_last_cell l = None) (cd_laps d);
             laps = map (attach_lap_row m cell (raw_text duration_raw) duration) (cd_laps d)
         in if \<not> distinct_some (map cl_last_cell laps) then Inl (IntegrityError ''canonical_laps'')
            else if \<not> updated \<and>
                 (case find (\<lambda>l. cl_id l = lm_id m) (cd_laps d) of
                    None \<Rightarrow> True | Some l \<Rightarrow> cl_last_cell l \<noteq> Some cell)
            then Inl (RuntimeError ''LAST source conflict'')
            else attach_sectors m sources [1, 2, 3] (d\<lparr> cd_laps := laps \<rparr>)))"

section \<open>Rebuild\<close>

definition message_rank :: "cell_observation \<Rightarrow> int \<times> int" where
  "message_rank c = (co_frame_id c, co_message_ordinal c)"

text \<open>\<open>GLOB 'sector_[0-9]*'\<close>\<close>

definition is_sector_key :: "string \<Rightarrow> bool" where
  "is_sector_key key = (take 7 key = ''sector_'' \<and> 7 < length key \<and> is_ascii_digit (key ! 7))"

definition previous_last :: "canonical_db \<Rightarrow> int \<Rightarrow> string \<Rightarrow> ledger_row \<Rightarrow> cell_observation option" where
  "previous_last d h p last_row =
    (case rev (sort_key (\<lambda>c. (message_rank c, co_change_ordinal c))
        (filter (\<lambda>c. co_heat c = h \<and> co_participant c = Some p \<and> co_canonical_key c = Some ''last_lap'' \<and>
             message_rank c < (lr_frame_id last_row, lr_message_ordinal last_row)) (cd_cells d))) of
       [] \<Rightarrow> None | c # _ \<Rightarrow> Some c)"

definition source_sectors_for_last ::
    "canonical_db \<Rightarrow> int \<Rightarrow> string \<Rightarrow> ledger_row \<Rightarrow> (string \<times> string option \<times> int) list" where
  "source_sectors_for_last d h p last_row =
    (let here = (lr_frame_id last_row, lr_message_ordinal last_row);
         admitted = (\<lambda>c. case previous_last d h p last_row of
             None \<Rightarrow> co_message_id c = lr_message_id last_row
           | Some previous \<Rightarrow> message_rank previous < message_rank c \<and> message_rank c \<le> here);
         cells = sort_key (\<lambda>c. (the (co_canonical_key c), message_rank c, co_change_ordinal c))
           (filter (\<lambda>c. co_heat c = h \<and> co_participant c = Some p \<and>
               (case co_canonical_key c of None \<Rightarrow> False | Some k \<Rightarrow> is_sector_key k) \<and> admitted c) (cd_cells d))
     in dict_of (map (\<lambda>c. (the (co_canonical_key c),
           (if duration_us (text_json (co_value_text c)) \<noteq> None then co_value_text c else None), co_id c)) cells))"

text \<open>\<open>DELETE FROM canonical_lap_boundaries\<close> with the cascades of migration 0018.\<close>

definition delete_heat :: "int \<Rightarrow> canonical_db \<Rightarrow> canonical_db" where
  "delete_heat h d =
    (let gone = map bd_id (filter (\<lambda>b. bd_heat b = h) (cd_boundaries d));
         dead = map cl_id (filter (\<lambda>l. cl_start_boundary l \<in> set gone \<or> cl_finish_boundary l \<in> set gone) (cd_laps d))
     in d\<lparr> cd_boundaries := filter (\<lambda>b. bd_heat b \<noteq> h) (cd_boundaries d),
           cd_laps := filter (\<lambda>l. cl_id l \<notin> set dead) (cd_laps d),
           cd_passings := filter (\<lambda>x. lp_lap x \<notin> set dead) (cd_passings d),
           cd_sectors := filter (\<lambda>x. ls_lap x \<notin> set dead) (cd_sectors d),
           cd_ledger := map (\<lambda>r. case lr_linked_lap r of
               Some l \<Rightarrow> if l \<in> set dead then r\<lparr> lr_linked_lap := None \<rparr> else r | None \<Rightarrow> r) (cd_ledger d) \<rparr>)"

definition physical_passings :: "canonical_db \<Rightarrow> int \<Rightarrow> observation list" where
  "physical_passings d h =
    sort_key (\<lambda>o1. (the (ob_provider_us o1), ob_id o1))
      (filter (\<lambda>o1. ob_heat o1 = h \<and> ob_participant o1 \<noteq> None \<and> ob_handle o1 = Some ''t_p'' \<and>
          (case ob_provider_us o1 of None \<Rightarrow> False | Some u \<Rightarrow> u > 0)) (cd_observations d))"

fun record_all :: "(string \<Rightarrow> string) \<Rightarrow> int \<Rightarrow> observation list \<Rightarrow> canonical_db \<Rightarrow> canonical_error + canonical_db" where
  "record_all uuid5 h [] d = Inr d"
| "record_all uuid5 h (o1 # os) d =
    (case record_tracker_passing uuid5 h (ob_id o1) d of
       Inl e \<Rightarrow> Inl e
     | Inr (d', m) \<Rightarrow> record_all uuid5 h os d')"

definition REBUILD_REASONS :: "string list" where
  "REBUILD_REASONS = [''SOURCE_LAP_BOUNDARY'', ''DIRECT_FIRST_OBSERVATION'', ''DIRECT_VALUE_CHANGED'',
     ''AMBIGUOUS_EQUAL_DURATION'', ''CANONICAL_TRACKER_DURATION_MATCH'']"

definition last_cells :: "canonical_db \<Rightarrow> int \<Rightarrow> ledger_row list" where
  "last_cells d h =
    sort_key (\<lambda>r. (lr_frame_id r, lr_message_ordinal r, lr_change_ordinal r, lr_cell r))
      (filter (\<lambda>r. lr_heat r = h \<and> lr_participant r \<noteq> None \<and> lr_handle r = ''r_c'' \<and>
          lr_duration_ms r \<noteq> None \<and> lr_reason r \<in> set REBUILD_REASONS) (cd_ledger d))"

definition sectors_json :: "('a \<Rightarrow> json) \<Rightarrow> (string \<times> 'a) list \<Rightarrow> json option" where
  "sectors_json f sectors =
    (if sectors = [] then None else Some (JObj (map (\<lambda>(k, v). (k, f v)) (sort_key fst sectors))))"

definition link_ledger :: "lap_match \<Rightarrow> (string \<times> string option \<times> int) list \<Rightarrow> int \<Rightarrow> ledger_row \<Rightarrow> ledger_row" where
  "link_ledger m sectors cell r =
    (if lr_cell r = cell
     then r\<lparr> lr_classification := ''CONFIRMED_LAP'', lr_reason := ''CANONICAL_TRACKER_DURATION_MATCH'',
            lr_linked_lap := Some (lm_id m),
            lr_sectors := sectors_json (\<lambda>v. text_json (fst v)) sectors,
            lr_sector_cells := sectors_json (\<lambda>v. JInt (snd v)) sectors \<rparr>
     else r)"

fun attach_all :: "int \<Rightarrow> ledger_row list \<Rightarrow> nat \<Rightarrow> canonical_db \<Rightarrow> canonical_error + (canonical_db \<times> nat)" where
  "attach_all h [] matched d = Inr (d, matched)"
| "attach_all h (r # rs) matched d =
    (case match_last_cell h (text_or_None (lr_participant r)) (text_json (lr_value_text r)) (lr_observed_at_us r) d of
       None \<Rightarrow> attach_all h rs matched d
     | Some m \<Rightarrow>
        (let sectors = source_sectors_for_last d h (lm_participant m) r in
         case attach_last_cell m (lr_cell r) (text_json (lr_value_text r)) sectors d of
           Inl e \<Rightarrow> Inl e
         | Inr d' \<Rightarrow> attach_all h rs (matched + 1) (d'\<lparr> cd_ledger := map (link_ledger m sectors (lr_cell r)) (cd_ledger d') \<rparr>)))"

record rebuild_summary =
  rs_observations :: nat
  rs_laps :: nat
  rs_exact_laps :: nat
  rs_full_coverage_laps :: nat
  rs_matched_last_cells :: nat

definition rebuild_canonical_heat ::
    "(string \<Rightarrow> string) \<Rightarrow> int \<Rightarrow> canonical_db \<Rightarrow> canonical_error + (canonical_db \<times> rebuild_summary)" where
  "rebuild_canonical_heat uuid5 h d0 =
    (let d = delete_heat h d0; observations = physical_passings d h in
     case record_all uuid5 h observations d of
       Inl e \<Rightarrow> Inl e
     | Inr d1 \<Rightarrow>
        (case attach_all h (last_cells d1 h) 0 d1 of
           Inl e \<Rightarrow> Inl e
         | Inr (d2, matched) \<Rightarrow>
            (let laps = filter (\<lambda>l. cl_heat l = h) (cd_laps d2) in
             Inr (d2, \<lparr> rs_observations = length observations, rs_laps = length laps,
               rs_exact_laps = length (filter (\<lambda>l. cl_reconciliation l = EXACT) laps),
               rs_full_coverage_laps = length (filter cl_coverage_complete laps),
               rs_matched_last_cells = matched \<rparr>))))"

section \<open>Identifiers name their participant\<close>

lemma split_first_colon:
  "CHR '':'' \<notin> set a \<Longrightarrow> CHR '':'' \<notin> set b \<Longrightarrow> a @ CHR '':'' # x = b @ CHR '':'' # y \<Longrightarrow> a = b \<and> x = y"
proof (induction a arbitrary: b)
  case Nil
  then show ?case by (cases b) auto
next
  case (Cons c a)
  then show ?case by (cases b) auto
qed

lemma split_last_colon:
  assumes "CHR '':'' \<notin> set a" "CHR '':'' \<notin> set b" "x @ CHR '':'' # a = y @ CHR '':'' # b"
  shows "a = b \<and> x = y"
proof -
  have "rev a @ CHR '':'' # rev x = rev b @ CHR '':'' # rev y" using arg_cong [OF assms(3), of rev] by simp
  then have "rev a = rev b \<and> rev x = rev y" using assms(1,2) by (intro split_first_colon) simp_all
  then show ?thesis by simp
qed

lemma digits_no_colon: "ascii_digits s \<Longrightarrow> CHR '':'' \<notin> set s \<and> CHR ''-'' \<notin> set s"
  by (auto simp: ascii_digits_def list_all_iff is_ascii_digit_def)

lemma int_text_no_colon: "CHR '':'' \<notin> set (int_text i)"
  using digits_no_colon nat_digits_correct by (auto simp: int_text_def)

lemma int_text_inj: "int_text i = int_text j \<Longrightarrow> i = j"
proof -
  have d: "digits_value (nat_digits n) = int n" for n using nat_digits_correct by blast
  have m: "nat_digits n \<noteq> CHR ''-'' # s" for n s
    using nat_digits_correct [of n] digits_no_colon [of "nat_digits n"] by auto
  assume e: "int_text i = int_text j"
  consider "0 \<le> i" "0 \<le> j" | "i < 0" "j < 0" | "i < 0" "0 \<le> j" | "0 \<le> i" "j < 0" by linarith
  then show "i = j"
  proof cases
    case 1
    then show ?thesis using arg_cong [OF e, of digits_value] by (simp add: int_text_def d)
  next
    case 2
    then have "nat_digits (nat (- i)) = nat_digits (nat (- j))" using e by (simp add: int_text_def)
    then have "digits_value (nat_digits (nat (- i))) = digits_value (nat_digits (nat (- j)))" by simp
    then show ?thesis using 2 by (simp only: d)
  next
    case 3
    then show ?thesis using e m [of "nat j" "nat_digits (nat (- i))"] by (simp add: int_text_def)
  next
    case 4
    then show ?thesis using e m [of "nat i" "nat_digits (nat (- j))"] by (simp add: int_text_def)
  qed
qed

lemma boundary_id_names_owner:
  assumes "inj uuid5"
    "canonical_id uuid5 ''boundary'' [int_text h, p, kind_text k, int_text n] =
     canonical_id uuid5 ''boundary'' [int_text h', p', kind_text k', int_text n']"
  shows "h = h' \<and> p = p'"
proof -
  have eq: "int_text h @ CHR '':'' # (p @ CHR '':'' # (kind_text k @ CHR '':'' # int_text n)) =
      int_text h' @ CHR '':'' # (p' @ CHR '':'' # (kind_text k' @ CHR '':'' # int_text n'))"
  proof -
    have "''balchug-racing:canonical:'' @ ''boundary'' @ '':'' @ join_colon [int_text h, p, kind_text k, int_text n] =
      ''balchug-racing:canonical:'' @ ''boundary'' @ '':'' @ join_colon [int_text h', p', kind_text k', int_text n']"
      using assms(2) unfolding canonical_id_def by (rule injD [OF assms(1)])
    then have "join_colon [int_text h, p, kind_text k, int_text n] = join_colon [int_text h', p', kind_text k', int_text n']"
      by (simp only: same_append_eq)
    then show ?thesis by simp
  qed
  have k: "CHR '':'' \<notin> set (kind_text k)" for k by (cases k) simp_all
  from split_first_colon [OF int_text_no_colon int_text_no_colon eq]
  have h: "h = h'" and rest: "p @ CHR '':'' # (kind_text k @ CHR '':'' # int_text n) =
      p' @ CHR '':'' # (kind_text k' @ CHR '':'' # int_text n')" using int_text_inj by auto
  have "(p @ CHR '':'' # kind_text k) @ CHR '':'' # int_text n = (p' @ CHR '':'' # kind_text k') @ CHR '':'' # int_text n'"
    using rest by simp
  from split_last_colon [OF int_text_no_colon int_text_no_colon this]
  have "p @ CHR '':'' # kind_text k = p' @ CHR '':'' # kind_text k'" by simp
  from split_last_colon [OF k k this] show ?thesis using h by simp
qed

section \<open>The chronology of one participant\<close>

definition lap_spans :: "boundary list \<Rightarrow> nat \<Rightarrow> canonical_lap \<Rightarrow> bool" where
  "lap_spans bs k l \<longleftrightarrow> cl_ordinal l = int k + 1 \<and>
     cl_start_boundary l = bd_id (bs ! k) \<and> cl_finish_boundary l = bd_id (bs ! Suc k) \<and>
     cl_started_at_provider_us l = bd_provider_us (bs ! k) \<and>
     cl_finished_at_provider_us l = bd_provider_us (bs ! Suc k) \<and>
     cl_duration_us l = bd_provider_us (bs ! Suc k) - bd_provider_us (bs ! k) \<and>
     cl_number l = (if bd_kind (bs ! 0) = HEAT_START then Some (int k + 1) else None)"

definition chronology_ok :: "boundary list \<Rightarrow> canonical_lap list \<Rightarrow> bool" where
  "chronology_ok bs ls \<longleftrightarrow>
     map bd_ordinal bs = map int [0 ..< length bs] \<and> sorted_wrt (<) (map bd_provider_us bs) \<and>
     (\<forall>k < length bs. bd_kind (bs ! k) \<in> (if k = 0 then {HEAT_START, COVERAGE_START} else {MAIN_FINISH, PIT_FINISH})) \<and>
     length ls = length bs - 1 \<and> (\<forall>k < length ls. lap_spans bs k (ls ! k))"

definition owned_id :: "(string \<Rightarrow> string) \<Rightarrow> boundary \<Rightarrow> bool" where
  "owned_id uuid5 b \<longleftrightarrow> (\<exists>n. bd_id b =
     canonical_id uuid5 ''boundary'' [int_text (bd_heat b), bd_participant b, kind_text (bd_kind b), int_text n])"

definition canonical_ok :: "(string \<Rightarrow> string) \<Rightarrow> canonical_db \<Rightarrow> bool" where
  "canonical_ok uuid5 d \<longleftrightarrow>
     (\<forall>h p. chronology_ok (boundaries_of h p (cd_boundaries d)) (laps_of h p (cd_laps d))) \<and>
     (\<forall>b \<in> set (cd_boundaries d). owned_id uuid5 b) \<and>
     distinct (map bd_id (cd_boundaries d)) \<and> distinct (map cl_id (cd_laps d))"

lemma chronology_Nil [simp]: "chronology_ok [] []"
  by (simp add: chronology_ok_def)

lemma chronology_start: "bd_ordinal b = 0 \<Longrightarrow> bd_kind b \<in> {HEAT_START, COVERAGE_START} \<Longrightarrow> chronology_ok [b] []"
  by (simp add: chronology_ok_def)

lemma chronology_ordinal:
  assumes "chronology_ok bs ls" "k < length bs" shows "bd_ordinal (bs ! k) = int k"
proof -
  have "map bd_ordinal bs ! k = map int [0 ..< length bs] ! k" using assms(1) by (simp add: chronology_ok_def)
  then show ?thesis using assms(2) by simp
qed

lemma chronology_extend:
  assumes ok: "chronology_ok bs ls" and ne: "bs \<noteq> []"
    and b: "bd_ordinal b = bd_ordinal (last bs) + 1" "bd_provider_us (last bs) < bd_provider_us b"
      "bd_kind b \<in> {MAIN_FINISH, PIT_FINISH}"
    and l: "cl_ordinal l = bd_ordinal b" "cl_start_boundary l = bd_id (last bs)" "cl_finish_boundary l = bd_id b"
      "cl_started_at_provider_us l = bd_provider_us (last bs)" "cl_finished_at_provider_us l = bd_provider_us b"
      "cl_duration_us l = bd_provider_us b - bd_provider_us (last bs)"
      "cl_number l = (if bd_kind (bs ! 0) = HEAT_START then Some (bd_ordinal b) else None)"
  shows "chronology_ok (bs @ [b]) (ls @ [l])"
proof -
  obtain n where n: "length bs = Suc n" using ne by (cases bs) auto
  then have last: "last bs = bs ! n" "bd_ordinal (last bs) = int n"
    using ne chronology_ordinal [OF ok, of n] by (simp_all add: last_conv_nth)
  have len: "length ls = n" using ok n by (simp add: chronology_ok_def)
  have "\<forall>x \<in> set (map bd_provider_us bs). x < bd_provider_us b"
  proof
    fix x assume "x \<in> set (map bd_provider_us bs)"
    then obtain i where i: "i \<le> n" "x = bd_provider_us (bs ! i)" using n by (auto simp: in_set_conv_nth less_Suc_eq_le)
    have "i = n \<or> bd_provider_us (bs ! i) < bd_provider_us (bs ! n)"
      using ok i(1) n by (auto simp: chronology_ok_def sorted_wrt_iff_nth_less le_less)
    then show "x < bd_provider_us b" using i(2) b(2) last(1) by auto
  qed
  moreover have "lap_spans (bs @ [b]) k ((ls @ [l]) ! k)" if k: "k < length (ls @ [l])" for k
  proof (cases "k = n")
    case True
    then show ?thesis using l b(1) last n len ne by (simp add: lap_spans_def nth_append)
  next
    case False
    then have kn: "k < n" using k len by simp
    then have "lap_spans bs k (ls ! k)" using ok len by (simp add: chronology_ok_def)
    then show ?thesis using kn n len by (simp add: lap_spans_def nth_append)
  qed
  moreover have "\<forall>k < length (bs @ [b]). bd_kind ((bs @ [b]) ! k) \<in>
      (if k = 0 then {HEAT_START, COVERAGE_START} else {MAIN_FINISH, PIT_FINISH})"
    using ok b(3) ne by (auto simp: chronology_ok_def nth_append less_Suc_eq)
  ultimately show ?thesis using ok b(1) last(2) n len by (simp add: chronology_ok_def sorted_wrt_append)
qed

lemma sort_key_id: "sorted (map f xs) \<Longrightarrow> sort_key f xs = xs"
  by (induction xs) (auto intro: insort_is_Cons)

lemma latest_boundary_last:
  assumes "canonical_ok uuid5 d"
  shows "latest_boundary d h p =
    (if boundaries_of h p (cd_boundaries d) = [] then None else Some (last (boundaries_of h p (cd_boundaries d))))"
proof -
  let ?bs = "boundaries_of h p (cd_boundaries d)"
  have "map bd_ordinal ?bs = map int [0 ..< length ?bs]" using assms by (simp add: canonical_ok_def chronology_ok_def)
  then have "sorted (map bd_ordinal ?bs)" by (simp add: sorted_iff_nth_mono)
  then have s: "sort_key bd_ordinal ?bs = ?bs" by (rule sort_key_id)
  show ?thesis unfolding latest_boundary_def s
    by (cases ?bs rule: rev_cases) auto
qed

section \<open>Recording keeps the chronology\<close>

lemma boundaries_of_append:
  "boundaries_of h p (bs @ [b]) = boundaries_of h p bs @ (if bd_heat b = h \<and> bd_participant b = p then [b] else [])"
  by (simp add: boundaries_of_def)

lemma laps_of_append:
  "laps_of h p (ls @ [l]) = laps_of h p ls @ (if cl_heat l = h \<and> cl_participant l = p then [l] else [])"
  by (simp add: laps_of_def)

lemma find_new_id:
  assumes "\<not> list_ex (boundary_conflict b) bs"
  shows "find (\<lambda>x. bd_id x = bd_id b) (bs @ [b]) = Some b"
proof -
  have "bd_id x \<noteq> bd_id b" if "x \<in> set bs" for x using assms that by (auto simp: list_ex_iff boundary_conflict_def)
  then show ?thesis by (induction bs) auto
qed

lemma owned_boundary:
  assumes inj: "inj uuid5" and ok: "canonical_ok uuid5 d" and x: "x \<in> set (cd_boundaries d)"
    and b: "owned_id uuid5 b" "bd_id x = bd_id b"
  shows "bd_heat x = bd_heat b \<and> bd_participant x = bd_participant b"
proof -
  have "owned_id uuid5 x" using ok x by (simp add: canonical_ok_def)
  then obtain n where n: "bd_id x = canonical_id uuid5 ''boundary'' [int_text (bd_heat x), bd_participant x, kind_text (bd_kind x), int_text n]"
    unfolding owned_id_def by blast
  obtain n' where n': "bd_id b = canonical_id uuid5 ''boundary'' [int_text (bd_heat b), bd_participant b, kind_text (bd_kind b), int_text n']"
    using b(1) unfolding owned_id_def by blast
  show ?thesis using b(2) unfolding n n' by (rule boundary_id_names_owner [OF inj])
qed

lemma insert_first_boundary:
  assumes inj: "inj uuid5" and ok: "canonical_ok uuid5 d"
    and none: "boundaries_of (bd_heat b) (bd_participant b) (cd_boundaries d) = []"
    and own: "owned_id uuid5 b" and ins: "insert_boundary_or_ignore b d = Inr (d', row)"
  shows "d' = d\<lparr> cd_boundaries := cd_boundaries d @ [b] \<rparr> \<and> row = b \<and> boundary_row_ok b d"
proof (cases "boundary_row_ok b d")
  case True
  then have "find (\<lambda>x. bd_id x = bd_id b) (cd_boundaries d @ [b]) = Some b"
    by (intro find_new_id) (simp add: boundary_row_ok_def)
  then have "insert_boundary_or_ignore b d = Inr (d\<lparr> cd_boundaries := cd_boundaries d @ [b] \<rparr>, b)"
    using True by (simp add: insert_boundary_or_ignore_def)
  with ins have "d' = d\<lparr> cd_boundaries := cd_boundaries d @ [b] \<rparr> \<and> row = b"
    by (metis prod.inject sum.inject(2))
  then show ?thesis using True by blast
next
  case False
  then have "find (\<lambda>x. bd_id x = bd_id b) (cd_boundaries d) = Some row"
    using ins by (auto simp: insert_boundary_or_ignore_def split: option.splits)
  then have r: "row \<in> set (cd_boundaries d)" "bd_id row = bd_id b" by (auto simp: find_Some_iff)
  then have "row \<in> set (boundaries_of (bd_heat b) (bd_participant b) (cd_boundaries d))"
    using owned_boundary [OF inj ok r(1) own r(2)] by (simp add: boundaries_of_def)
  then show ?thesis using none by simp
qed

lemma start_boundary_ok:
  assumes ok: "canonical_ok uuid5 d" and none: "boundaries_of (bd_heat b) (bd_participant b) (cd_boundaries d) = []"
    and b: "owned_id uuid5 b" "bd_ordinal b = 0" "bd_kind b \<in> {HEAT_START, COVERAGE_START}" "boundary_row_ok b d"
  shows "canonical_ok uuid5 (d\<lparr> cd_boundaries := cd_boundaries d @ [b] \<rparr>)"
proof -
  have "chronology_ok (boundaries_of h p (cd_boundaries d @ [b])) (laps_of h p (cd_laps d))" for h p
  proof (cases "bd_heat b = h \<and> bd_participant b = p")
    case True
    have "chronology_ok (boundaries_of h p (cd_boundaries d)) (laps_of h p (cd_laps d))"
      using ok by (simp add: canonical_ok_def)
    then have "laps_of h p (cd_laps d) = []" using none True by (simp add: chronology_ok_def)
    then show ?thesis using none True chronology_start [OF b(2,3)] by (simp add: boundaries_of_append)
  next
    case False
    then show ?thesis using ok by (auto simp: boundaries_of_append canonical_ok_def)
  qed
  moreover have "bd_id x \<noteq> bd_id b" if "x \<in> set (cd_boundaries d)" for x
    using b(4) that by (auto simp: boundary_row_ok_def list_ex_iff boundary_conflict_def)
  then have "bd_id b \<notin> bd_id ` set (cd_boundaries d)" by (metis imageE)
  ultimately show ?thesis using ok b(1) by (simp add: canonical_ok_def)
qed

lemma heat_start_fields [simp]:
  "bd_heat (heat_start_boundary uuid5 h p g u s) = h" "bd_participant (heat_start_boundary uuid5 h p g u s) = p"
  "bd_ordinal (heat_start_boundary uuid5 h p g u s) = 0" "bd_kind (heat_start_boundary uuid5 h p g u s) = HEAT_START"
  "bd_provider_us (heat_start_boundary uuid5 h p g u s) = u"
  by (simp_all add: heat_start_boundary_def)

lemma heat_start_owned: "owned_id uuid5 (heat_start_boundary uuid5 h p g u s)"
proof -
  have "kind_text HEAT_START = ''HEAT_START''" by simp
  then show ?thesis unfolding owned_id_def heat_start_boundary_def
    by (intro exI [of _ u]) (simp del: kind_text.simps)
qed

lemma passing_boundary_fields [simp]:
  "bd_heat (passing_boundary uuid5 k h p n u o1) = h" "bd_participant (passing_boundary uuid5 k h p n u o1) = p"
  "bd_ordinal (passing_boundary uuid5 k h p n u o1) = n" "bd_kind (passing_boundary uuid5 k h p n u o1) = k"
  "bd_provider_us (passing_boundary uuid5 k h p n u o1) = u"
  "bd_passing (passing_boundary uuid5 k h p n u o1) = Some (ob_id o1)"
  by (simp_all add: passing_boundary_def)

lemma passing_boundary_owned: "owned_id uuid5 (passing_boundary uuid5 k h p n u o1)"
  unfolding owned_id_def passing_boundary_def by (intro exI [of _ "ob_id o1"]) simp

text \<open>The first boundary exists afterwards, and is the latest one.\<close>

lemma initial_boundary_ok:
  assumes inj: "inj uuid5" and ok: "canonical_ok uuid5 d"
    and init: "initial_boundary uuid5 h p u fallback d = Inr (d1, b)"
  shows "canonical_ok uuid5 d1 \<and> boundaries_of h p (cd_boundaries d1) \<noteq> [] \<and>
    b = last (boundaries_of h p (cd_boundaries d1)) \<and>
    (d1 = d \<or> boundaries_of h p (cd_boundaries d) = [] \<and> d1 = d\<lparr> cd_boundaries := cd_boundaries d @ [b] \<rparr>)"
proof (cases "boundaries_of h p (cd_boundaries d) = []")
  case False
  then have "initial_boundary uuid5 h p u fallback d = Inr (d, last (boundaries_of h p (cd_boundaries d)))"
    by (simp add: initial_boundary_def latest_boundary_last [OF ok])
  with init have "d1 = d \<and> b = last (boundaries_of h p (cd_boundaries d))" by (metis prod.inject sum.inject(2))
  then show ?thesis using False ok by blast
next
  case True
  then obtain c where c: "insert_boundary_or_ignore c d = Inr (d1, b)" "bd_heat c = h" "bd_participant c = p"
    "bd_ordinal c = 0" "bd_kind c \<in> {HEAT_START, COVERAGE_START}" "owned_id uuid5 c"
    using init unfolding initial_boundary_def latest_boundary_last [OF ok]
    by (auto simp: heat_start_owned passing_boundary_owned split: option.splits)
  have i: "d1 = d\<lparr> cd_boundaries := cd_boundaries d @ [c] \<rparr>" "b = c" "boundary_row_ok c d"
    using insert_first_boundary [OF inj ok _ c(6,1)] True c(2,3) by auto
  then have "canonical_ok uuid5 d1" using start_boundary_ok [OF ok _ c(6,4,5)] True c(2,3) by simp
  then show ?thesis using i True c(2,3) by (simp add: boundaries_of_append)
qed

lemma insert_passings_fields [simp]:
  "cd_boundaries (insert_passings l f t xs d) = cd_boundaries d" "cd_laps (insert_passings l f t xs d) = cd_laps d"
  "cd_observations (insert_passings l f t xs d) = cd_observations d" "cd_green (insert_passings l f t xs d) = cd_green d"
  "cd_cells (insert_passings l f t xs d) = cd_cells d" "cd_ledger (insert_passings l f t xs d) = cd_ledger d"
  by (induction l f t xs d rule: insert_passings.induct) simp_all

lemma insert_sectors_fields:
  "insert_sectors ss d = Inr d' \<Longrightarrow> cd_boundaries d' = cd_boundaries d \<and> cd_laps d' = cd_laps d \<and>
    cd_observations d' = cd_observations d \<and> cd_green d' = cd_green d \<and> cd_cells d' = cd_cells d \<and> cd_ledger d' = cd_ledger d"
  by (induction ss d rule: insert_sectors.induct) (auto split: if_splits)

lemma first_boundary:
  assumes "chronology_ok (boundaries_of h p bs) ls" "boundaries_of h p bs \<noteq> []"
  shows "find (\<lambda>b. bd_heat b = h \<and> bd_participant b = p \<and> bd_ordinal b = 0) bs = Some (boundaries_of h p bs ! 0)"
proof -
  obtain b xs where b: "boundaries_of h p bs = b # xs" using assms(2) by (cases "boundaries_of h p bs") auto
  then have "bd_ordinal b = 0" using chronology_ordinal [OF assms(1), of 0] by simp
  moreover have "find (\<lambda>b. bd_heat b = h \<and> bd_participant b = p \<and> bd_ordinal b = 0) bs =
      find (\<lambda>b. bd_ordinal b = 0) (boundaries_of h p bs)"
    by (induction bs) (auto simp: boundaries_of_def)
  ultimately show ?thesis using b by simp
qed

text \<open>What closing a lap stores.\<close>

lemma close_lap_cases:
  assumes "close_lap uuid5 h p previous u o1 d = Inr (d', m)"
  obtains finish lap where
    "finish = passing_boundary uuid5 (if ob_is_in_pit o1 = Some True then PIT_FINISH else MAIN_FINISH) h p (bd_ordinal previous + 1) u o1"
    "boundary_row_ok finish d"
    "\<exists>coverage crosses. lap = new_lap uuid5 h p previous finish coverage crosses u o1 \<and>
      (coverage \<longleftrightarrow> bd_kind previous = HEAT_START \<or>
        (\<exists>b. find (\<lambda>b. bd_heat b = h \<and> bd_participant b = p \<and> bd_ordinal b = 0) (cd_boundaries d @ [finish]) = Some b \<and>
          bd_kind b = HEAT_START))"
    "lap_row_ok lap (d\<lparr> cd_boundaries := cd_boundaries d @ [finish] \<rparr>)"
    "cd_boundaries d' = cd_boundaries d @ [finish]" "cd_laps d' = cd_laps d @ [lap]"
    "cd_observations d' = cd_observations d" "cd_green d' = cd_green d"
    "cd_cells d' = cd_cells d" "cd_ledger d' = cd_ledger d" "m = Some (match_of lap)"
proof -
  define finish where "finish = passing_boundary uuid5 (if ob_is_in_pit o1 = Some True then PIT_FINISH else MAIN_FINISH) h p (bd_ordinal previous + 1) u o1"
  define d1 where "d1 = d\<lparr> cd_boundaries := cd_boundaries d @ [finish] \<rparr>"
  define first where "first = find (\<lambda>b. bd_heat b = h \<and> bd_participant b = p \<and> bd_ordinal b = 0) (cd_boundaries d1)"
  define coverage where "coverage = (bd_kind previous = HEAT_START \<or> bd_kind (the first) = HEAT_START)"
  define passings where "passings = lap_passings d1 h p (bd_provider_us previous) u"
  define crosses where "crosses = ((if ob_is_in_pit o1 = Some True then PIT_FINISH else MAIN_FINISH) = PIT_FINISH \<or> list_ex (\<lambda>x. ob_is_in_pit x = Some True) passings)"
  define lap where "lap = new_lap uuid5 h p previous finish coverage crosses u o1"
  define d3 where "d3 = insert_passings (cl_id lap) (ob_id o1) (track_length_mm d h) (enumerate 1 passings) (d1\<lparr> cd_laps := cd_laps d1 @ [lap] \<rparr>)"
  have eq: "close_lap uuid5 h p previous u o1 d =
    (if \<not> boundary_row_ok finish d then Inl (IntegrityError ''canonical_lap_boundaries'')
     else if bd_kind previous \<noteq> HEAT_START \<and> first = None then Inl TypeError
     else if \<not> lap_row_ok lap d1 then Inl (IntegrityError ''canonical_laps'')
     else (case insert_sectors (sector_rows (cl_id lap) previous finish passings) d3 of
             Inl e \<Rightarrow> Inl e | Inr d4 \<Rightarrow> Inr (d4, Some (match_of lap))))"
    unfolding close_lap_def Let_def d3_def lap_def crosses_def passings_def coverage_def first_def d1_def finish_def by simp
  have r: "boundary_row_ok finish d" "bd_kind previous = HEAT_START \<or> first \<noteq> None" "lap_row_ok lap d1"
    using assms unfolding eq by (auto split: if_splits)
  then obtain d4 where d4: "insert_sectors (sector_rows (cl_id lap) previous finish passings) d3 = Inr d4"
    "d' = d4" "m = Some (match_of lap)"
    using assms unfolding eq by (auto split: sum.splits)
  have cov: "coverage \<longleftrightarrow> bd_kind previous = HEAT_START \<or>
        (\<exists>b. find (\<lambda>b. bd_heat b = h \<and> bd_participant b = p \<and> bd_ordinal b = 0) (cd_boundaries d @ [finish]) = Some b \<and>
          bd_kind b = HEAT_START)"
    using r(2) by (auto simp: coverage_def first_def d1_def)
  note f = insert_sectors_fields [OF d4(1)]
  show ?thesis
    by (rule that [OF finish_def r(1) _ r(3) [unfolded d1_def] _ _ _ _ _ _ d4(3)])
       (use f d4(2) cov lap_def in \<open>auto simp: d3_def d1_def\<close>)
qed

lemma close_lap_ok:
  assumes ok: "canonical_ok uuid5 d" and ne: "boundaries_of h p (cd_boundaries d) \<noteq> []"
    and prev: "previous = last (boundaries_of h p (cd_boundaries d))" and u: "bd_provider_us previous < u"
    and cl: "close_lap uuid5 h p previous u o1 d = Inr (d', m)"
  shows "canonical_ok uuid5 d'"
  using cl
proof (cases rule: close_lap_cases)
  case (1 finish lap)
  let ?bs = "boundaries_of h p (cd_boundaries d)" and ?ls = "laps_of h p (cd_laps d)"
  have ch: "chronology_ok ?bs ?ls" using ok by (simp add: canonical_ok_def)
  have fin: "bd_heat finish = h" "bd_participant finish = p" "bd_ordinal finish = bd_ordinal previous + 1"
    "bd_provider_us finish = u" "bd_kind finish \<in> {MAIN_FINISH, PIT_FINISH}" "owned_id uuid5 finish"
    by (simp_all add: 1(1) passing_boundary_owned)
  have "find (\<lambda>b. bd_heat b = h \<and> bd_participant b = p \<and> bd_ordinal b = 0) (cd_boundaries d @ [finish]) = Some (?bs ! 0)"
  proof -
    have f: "find (\<lambda>b. bd_heat b = h \<and> bd_participant b = p \<and> bd_ordinal b = 0) (cd_boundaries d) = Some (?bs ! 0)"
      by (rule first_boundary [OF ch ne])
    have "find P xs = Some y \<Longrightarrow> find P (xs @ zs) = Some y" for P xs y and zs :: "boundary list"
      by (induction xs) (auto split: if_splits)
    then show ?thesis using f by blast
  qed
  moreover have "bd_kind previous = HEAT_START \<Longrightarrow> bd_kind (?bs ! 0) = HEAT_START"
  proof -
    assume k: "bd_kind previous = HEAT_START"
    have "previous = ?bs ! (length ?bs - 1)" using prev ne by (simp add: last_conv_nth)
    moreover have "bd_kind (?bs ! (length ?bs - 1)) \<in> {MAIN_FINISH, PIT_FINISH}" if "length ?bs - 1 \<noteq> 0"
      using ch that ne unfolding chronology_ok_def by (metis diff_less length_greater_0_conv zero_less_one)
    ultimately have "length ?bs - 1 = 0" using k by force
    then show ?thesis using k prev ne by (simp add: last_conv_nth)
  qed
  moreover obtain coverage crosses where c: "lap = new_lap uuid5 h p previous finish coverage crosses u o1"
      "coverage \<longleftrightarrow> bd_kind previous = HEAT_START \<or>
        (\<exists>b. find (\<lambda>b. bd_heat b = h \<and> bd_participant b = p \<and> bd_ordinal b = 0) (cd_boundaries d @ [finish]) = Some b \<and>
          bd_kind b = HEAT_START)"
    using 1(3) by blast
  ultimately have "coverage = (bd_kind (?bs ! 0) = HEAT_START)" by auto
  with c(1) have lap: "lap = new_lap uuid5 h p previous finish (bd_kind (?bs ! 0) = HEAT_START) crosses u o1" by simp
  have new: "chronology_ok (?bs @ [finish]) (?ls @ [lap])"
    by (rule chronology_extend [OF ch ne]) (use fin u prev in \<open>simp_all add: lap new_lap_def\<close>)
  have lo: "cl_heat lap = h" "cl_participant lap = p" by (simp_all add: lap new_lap_def)
  have "chronology_ok (boundaries_of h' p' (cd_boundaries d')) (laps_of h' p' (cd_laps d'))" for h' p'
    using new ok fin(1,2) lo by (auto simp: 1(5,6) boundaries_of_append laps_of_append canonical_ok_def)
  moreover have "bd_id finish \<notin> bd_id ` set (cd_boundaries d)"
    using 1(2) by (auto simp: boundary_row_ok_def list_ex_iff boundary_conflict_def)
  moreover have "cl_id lap \<notin> cl_id ` set (cd_laps d)"
    using 1(4) by (auto simp: lap_row_ok_def list_ex_iff lap_conflict_def)
  ultimately show ?thesis using ok fin(6) by (simp add: canonical_ok_def 1(5,6))
qed

definition lap_candidate :: "observation \<Rightarrow> string \<Rightarrow> int \<Rightarrow> bool" where
  "lap_candidate o1 p u \<longleftrightarrow> ob_participant o1 = Some p \<and> ob_provider_us o1 = Some u \<and>
     ob_handle o1 = Some ''t_p'' \<and> 0 < u \<and> ob_start_distance_mm o1 = Some 0"

definition start_line_passing :: "canonical_db \<Rightarrow> int \<Rightarrow> observation \<Rightarrow> bool" where
  "start_line_passing d h o1 \<longleftrightarrow> track_length_mm d h \<noteq> None \<and>
     ob_stop_distance_mm o1 = track_length_mm d h \<and> ob_is_in_pit o1 = Some False"

lemma record_unfold:
  assumes "tracker_observation d h oid = Some o1" "lap_candidate o1 p u"
  shows "record_tracker_passing uuid5 h oid d =
    (case initial_boundary uuid5 h p u o1 d of
       Inl e \<Rightarrow> Inl e
     | Inr (d1, b) \<Rightarrow>
        if start_line_passing d h o1 \<or> u \<le> bd_provider_us b \<or> list_ex (\<lambda>b. bd_passing b = Some oid) (cd_boundaries d1)
        then Inr (d1, None) else close_lap uuid5 h p b u o1 d1)"
  using assms
  by (auto simp: record_tracker_passing_def lap_candidate_def start_line_passing_def Let_def split: sum.splits)

lemma record_ignored:
  assumes "\<not> (\<exists>o1 p u. tracker_observation d h oid = Some o1 \<and> lap_candidate o1 p u)"
  shows "record_tracker_passing uuid5 h oid d = Inr (d, None)"
proof (cases "tracker_observation d h oid")
  case (Some o1)
  show ?thesis
  proof (cases "ob_participant o1"; cases "ob_provider_us o1")
    fix p u assume pu: "ob_participant o1 = Some p" "ob_provider_us o1 = Some u"
    then have "\<not> (ob_handle o1 = Some ''t_p'' \<and> 0 < u \<and> ob_start_distance_mm o1 = Some 0)"
      using assms Some by (auto simp: lap_candidate_def)
    then show ?thesis using Some pu by (auto simp: record_tracker_passing_def)
  qed (simp_all add: record_tracker_passing_def Some)
qed (simp add: record_tracker_passing_def)

text \<open>The tables a recorded passing reads are not the ones it writes.\<close>

definition same_sources :: "canonical_db \<Rightarrow> canonical_db \<Rightarrow> bool" where
  "same_sources d' d \<longleftrightarrow> cd_observations d' = cd_observations d \<and> cd_green d' = cd_green d \<and>
     cd_cells d' = cd_cells d \<and> cd_ledger d' = cd_ledger d"

lemma source_queries:
  assumes "same_sources d' d"
  shows "tracker_observation d' h i = tracker_observation d h i" "track_length_mm d' h = track_length_mm d h"
    "start_line_passing d' h o1 = start_line_passing d h o1" "physical_passings d' h = physical_passings d h"
  using assms by (simp_all add: same_sources_def tracker_observation_def track_length_mm_def
      start_line_passing_def physical_passings_def)

lemma record_ok:
  assumes inj: "inj uuid5" and ok: "canonical_ok uuid5 d"
    and r: "record_tracker_passing uuid5 h oid d = Inr (d', m)"
  shows "canonical_ok uuid5 d' \<and> same_sources d' d \<and> record_tracker_passing uuid5 h oid d' = Inr (d', None)"
proof (cases "\<exists>o1 p u. tracker_observation d h oid = Some o1 \<and> lap_candidate o1 p u")
  case False
  from record_ignored [OF this, of uuid5] r have "d' = d" by (metis prod.inject sum.inject(2))
  then show ?thesis using ok record_ignored [OF False] by (simp add: same_sources_def)
next
  case True
  then obtain o1 p u where o: "tracker_observation d h oid = Some o1" "lap_candidate o1 p u" by blast
  note rec = r [unfolded record_unfold [OF o]]
  obtain d1 b where i: "initial_boundary uuid5 h p u o1 d = Inr (d1, b)"
    using rec by (cases "initial_boundary uuid5 h p u o1 d") auto
  from initial_boundary_ok [OF inj ok i] have ok1: "canonical_ok uuid5 d1"
    and ne: "boundaries_of h p (cd_boundaries d1) \<noteq> []" and b: "b = last (boundaries_of h p (cd_boundaries d1))"
    and d1: "d1 = d \<or> boundaries_of h p (cd_boundaries d) = [] \<and> d1 = d\<lparr> cd_boundaries := cd_boundaries d @ [b] \<rparr>" by blast+
  have src1: "same_sources d1 d" using d1 by (auto simp: same_sources_def)
  have again: "record_tracker_passing uuid5 h oid d2 = Inr (d2, None)"
    if "canonical_ok uuid5 d2" "same_sources d2 d" "boundaries_of h p (cd_boundaries d2) \<noteq> []"
      "start_line_passing d h o1 \<or> u \<le> bd_provider_us (last (boundaries_of h p (cd_boundaries d2))) \<or>
       list_ex (\<lambda>b. bd_passing b = Some oid) (cd_boundaries d2)" for d2
  proof -
    have o2: "tracker_observation d2 h oid = Some o1" using o(1) source_queries(1) [OF that(2)] by simp
    have "initial_boundary uuid5 h p u o1 d2 = Inr (d2, last (boundaries_of h p (cd_boundaries d2)))"
      using that(3) by (simp add: initial_boundary_def latest_boundary_last [OF that(1)])
    then show ?thesis
      using that(4) source_queries(3) [OF that(2)] by (simp add: record_unfold [OF o2 o(2)])
  qed
  show ?thesis
  proof (cases "start_line_passing d h o1 \<or> u \<le> bd_provider_us b \<or> list_ex (\<lambda>b. bd_passing b = Some oid) (cd_boundaries d1)")
    case True
    then have "d' = d1" using rec i by simp
    then show ?thesis using again [OF ok1 src1 ne] True b ok1 src1 by simp
  next
    case False
    then have cl: "close_lap uuid5 h p b u o1 d1 = Inr (d', m)" using rec i by simp
    have ok': "canonical_ok uuid5 d'" using close_lap_ok [OF ok1 ne b _ cl] False by simp
    from cl show ?thesis
    proof (cases rule: close_lap_cases)
      case (1 finish lap)
      have "same_sources d' d" using src1 1(7-10) by (simp add: same_sources_def)
      moreover have "boundaries_of h p (cd_boundaries d') = boundaries_of h p (cd_boundaries d1) @ [finish]"
        by (simp add: 1(1,5) boundaries_of_append)
      ultimately show ?thesis using ok' again [OF ok'] by (simp add: 1(1))
    qed
  qed
qed

section \<open>Attaching and rebuilding keep it\<close>

lemma attach_lap_row_fields [simp]:
  "cl_id (attach_lap_row m c r t l) = cl_id l" "cl_heat (attach_lap_row m c r t l) = cl_heat l"
  "cl_participant (attach_lap_row m c r t l) = cl_participant l"
  "lap_spans bs k (attach_lap_row m c r t l) = lap_spans bs k l"
  by (simp_all add: attach_lap_row_def lap_spans_def)

lemma attach_sectors_fields:
  "attach_sectors m src ns d = Inr d' \<Longrightarrow> cd_boundaries d' = cd_boundaries d \<and> cd_laps d' = cd_laps d \<and>
    cd_observations d' = cd_observations d \<and> cd_green d' = cd_green d \<and> cd_cells d' = cd_cells d \<and> cd_ledger d' = cd_ledger d"
  by (induction m src ns d rule: attach_sectors.induct) (auto simp: Let_def split: if_splits)

lemma attach_last_cell_result:
  assumes "attach_last_cell m c raw src d = Inr d'"
  shows "\<exists>t. duration_us raw = Some t \<and> cd_boundaries d' = cd_boundaries d \<and>
    cd_laps d' = map (attach_lap_row m c (raw_text raw) t) (cd_laps d) \<and>
    distinct_some (map cl_last_cell (cd_laps d')) \<and>
    same_sources d' d"
proof -
  obtain t where t: "duration_us raw = Some t"
    using assms by (cases "duration_us raw") (simp_all add: attach_last_cell_def)
  let ?laps = "map (attach_lap_row m c (raw_text raw) t) (cd_laps d)"
  have u: "distinct_some (map cl_last_cell ?laps)" "attach_sectors m src [1, 2, 3] (d\<lparr> cd_laps := ?laps \<rparr>) = Inr d'"
    using assms t by (auto simp: attach_last_cell_def Let_def split: if_splits)
  then show ?thesis using t attach_sectors_fields [OF u(2)] by (simp add: same_sources_def)
qed

lemma attach_ok:
  assumes "canonical_ok uuid5 d" "attach_last_cell m c raw src d = Inr d'"
  shows "canonical_ok uuid5 d'"
proof -
  obtain t where r: "cd_boundaries d' = cd_boundaries d"
    "cd_laps d' = map (attach_lap_row m c (raw_text raw) t) (cd_laps d)"
    using attach_last_cell_result [OF assms(2)] by blast
  have "laps_of h p (cd_laps d') = map (attach_lap_row m c (raw_text raw) t) (laps_of h p (cd_laps d))" for h p
    by (simp add: laps_of_def r filter_map o_def)
  moreover have "chronology_ok bs (map (attach_lap_row m c (raw_text raw) t) ls) = chronology_ok bs ls" for bs ls
    by (auto simp: chronology_ok_def)
  moreover have "map cl_id (cd_laps d') = map cl_id (cd_laps d)" by (simp add: r)
  ultimately show ?thesis using assms(1) r(1) unfolding canonical_ok_def by simp
qed

lemma canonical_ok_ledger [simp]: "canonical_ok uuid5 (d\<lparr> cd_ledger := l \<rparr>) = canonical_ok uuid5 d"
  by (simp add: canonical_ok_def)

lemma attach_all_ok:
  "canonical_ok uuid5 d \<Longrightarrow> attach_all h rs n d = Inr (d', k) \<Longrightarrow> canonical_ok uuid5 d'"
proof (induction h rs n d rule: attach_all.induct)
  case (2 h r rs n d)
  let ?match = "match_last_cell h (text_or_None (lr_participant r)) (text_json (lr_value_text r)) (lr_observed_at_us r) d"
  show ?case
  proof (cases ?match)
    case None
    then show ?thesis using 2 by simp
  next
    case (Some m)
    let ?src = "source_sectors_for_last d h (lm_participant m) r"
    show ?thesis
    proof (cases "attach_last_cell m (lr_cell r) (text_json (lr_value_text r)) ?src d")
      case (Inl e)
      then show ?thesis using 2(4) Some by (simp add: Let_def)
    next
      case (Inr d1)
      have "canonical_ok uuid5 (d1\<lparr> cd_ledger := map (link_ledger m ?src (lr_cell r)) (cd_ledger d1) \<rparr>)"
        using attach_ok [OF 2(3) Inr] by simp
      then show ?thesis using 2(2) [OF Some refl Inr] 2(4) Some Inr by (simp add: Let_def)
    qed
  qed
qed simp

lemma record_all_ok:
  "inj uuid5 \<Longrightarrow> canonical_ok uuid5 d \<Longrightarrow> record_all uuid5 h os d = Inr d' \<Longrightarrow> canonical_ok uuid5 d' \<and> same_sources d' d"
proof (induction uuid5 h os d rule: record_all.induct)
  case (2 uuid5 h o1 os d)
  obtain d1 m where r: "record_tracker_passing uuid5 h (ob_id o1) d = Inr (d1, m)"
    using 2(4) by (cases "record_tracker_passing uuid5 h (ob_id o1) d") auto
  have "canonical_ok uuid5 d1" "same_sources d1 d" using record_ok [OF 2(2,3) r] by auto
  then show ?case using 2(1) [OF r refl 2(2)] 2(4) r by (auto simp: same_sources_def)
qed (simp add: same_sources_def)

lemma lap_boundary_member:
  assumes "canonical_ok uuid5 d" "l \<in> set (cd_laps d)"
  shows "\<exists>b \<in> set (cd_boundaries d). bd_heat b = cl_heat l \<and> cl_start_boundary l = bd_id b"
    and "\<exists>b \<in> set (cd_boundaries d). bd_heat b = cl_heat l \<and> cl_finish_boundary l = bd_id b"
proof -
  let ?bs = "boundaries_of (cl_heat l) (cl_participant l) (cd_boundaries d)"
  let ?ls = "laps_of (cl_heat l) (cl_participant l) (cd_laps d)"
  have ch: "chronology_ok ?bs ?ls" using assms(1) by (simp add: canonical_ok_def)
  have "l \<in> set ?ls" using assms(2) by (simp add: laps_of_def)
  then obtain k where k: "k < length ?ls" "?ls ! k = l" by (auto simp: in_set_conv_nth)
  then have sp: "lap_spans ?bs k l" and n: "Suc k < length ?bs" using ch by (auto simp: chronology_ok_def)
  then have "?bs ! k \<in> set ?bs" "?bs ! Suc k \<in> set ?bs" by (simp_all add: nth_mem)
  then show "\<exists>b \<in> set (cd_boundaries d). bd_heat b = cl_heat l \<and> cl_start_boundary l = bd_id b"
    "\<exists>b \<in> set (cd_boundaries d). bd_heat b = cl_heat l \<and> cl_finish_boundary l = bd_id b"
    using sp by (auto simp: lap_spans_def boundaries_of_def)
qed

lemma same_key: "distinct (map f xs) \<Longrightarrow> x \<in> set xs \<Longrightarrow> y \<in> set xs \<Longrightarrow> f x = f y \<Longrightarrow> x = y"
  by (simp add: distinct_map inj_on_def)

lemma key_in_filter:
  assumes "distinct (map f xs)" "x \<in> set xs" shows "f x \<in> set (map f (filter P xs)) \<longleftrightarrow> P x"
proof
  assume "f x \<in> set (map f (filter P xs))"
  then obtain y where "y \<in> set xs" "P y" "f x = f y" by auto
  then show "P x" using same_key [OF assms] by metis
qed (use assms(2) in simp)

lemma delete_heat_laps:
  assumes "canonical_ok uuid5 d"
  shows "cd_laps (delete_heat h d) = filter (\<lambda>l. cl_heat l \<noteq> h) (cd_laps d)"
proof -
  define gone where "gone = map bd_id (filter (\<lambda>b. bd_heat b = h) (cd_boundaries d))"
  define dead :: "canonical_lap \<Rightarrow> bool" where "dead = (\<lambda>l. cl_start_boundary l \<in> set gone \<or> cl_finish_boundary l \<in> set gone)"
  have dist: "distinct (map bd_id (cd_boundaries d))" "distinct (map cl_id (cd_laps d))"
    using assms by (simp_all add: canonical_ok_def)
  have laps: "cd_laps (delete_heat h d) = filter (\<lambda>l. cl_id l \<notin> set (map cl_id (filter dead (cd_laps d)))) (cd_laps d)"
    by (simp only: delete_heat_def Let_def gone_def dead_def) simp
  have "dead l \<longleftrightarrow> cl_heat l = h" if l: "l \<in> set (cd_laps d)" for l
  proof -
    obtain b where b: "b \<in> set (cd_boundaries d)" "bd_heat b = cl_heat l" "cl_start_boundary l = bd_id b"
      using lap_boundary_member(1) [OF assms l] by blast
    obtain c where c: "c \<in> set (cd_boundaries d)" "bd_heat c = cl_heat l" "cl_finish_boundary l = bd_id c"
      using lap_boundary_member(2) [OF assms l] by blast
    show ?thesis unfolding dead_def gone_def b(3) c(3) key_in_filter [OF dist(1) b(1)] key_in_filter [OF dist(1) c(1)]
      by (simp add: b(2) c(2))
  qed
  then show ?thesis unfolding laps
    by (intro filter_cong refl) (simp only: key_in_filter [OF dist(2)] simp_thms)
qed

lemma delete_heat_ok:
  assumes "canonical_ok uuid5 d" shows "canonical_ok uuid5 (delete_heat h d)"
proof -
  have b: "cd_boundaries (delete_heat h d) = filter (\<lambda>b. bd_heat b \<noteq> h) (cd_boundaries d)"
    by (simp add: delete_heat_def Let_def)
  have "boundaries_of h' p (cd_boundaries (delete_heat h d)) =
      (if h' = h then [] else boundaries_of h' p (cd_boundaries d))" for h' p
    by (auto simp: b boundaries_of_def intro!: filter_cong)
  moreover have "laps_of h' p (cd_laps (delete_heat h d)) = (if h' = h then [] else laps_of h' p (cd_laps d))" for h' p
    by (auto simp: delete_heat_laps [OF assms] laps_of_def intro!: filter_cong)
  ultimately show ?thesis using assms
    by (auto simp: canonical_ok_def b delete_heat_laps [OF assms] distinct_map_filter)
qed

section \<open>The projection as a machine\<close>

text \<open>
  What the normalizer does to these tables: it stores source rows, then calls one operation
  in a transaction, and an error rolls the transaction back.
\<close>

datatype canonical_command =
    Observe observation
  | Green int green_flag
  | Cell cell_observation
  | Last_Ledger ledger_row
  | Passing int int
  | Last int string json int int "(string \<times> string option \<times> int) list"
  | Rebuild int

fun canonical_op :: "(string \<Rightarrow> string) \<Rightarrow> canonical_command \<Rightarrow> canonical_db \<Rightarrow> canonical_error + canonical_db" where
  "canonical_op uuid5 (Observe o1) d = Inr (d\<lparr> cd_observations := cd_observations d @ [o1] \<rparr>)"
| "canonical_op uuid5 (Green h g) d = Inr (d\<lparr> cd_green := AList.update h g (cd_green d) \<rparr>)"
| "canonical_op uuid5 (Cell c) d = Inr (d\<lparr> cd_cells := cd_cells d @ [c] \<rparr>)"
| "canonical_op uuid5 (Last_Ledger r) d = Inr (d\<lparr> cd_ledger := cd_ledger d @ [r] \<rparr>)"
| "canonical_op uuid5 (Passing h oid) d = map_sum id fst (record_tracker_passing uuid5 h oid d)"
| "canonical_op uuid5 (Last h p raw observed cell sources) d =
    (case match_last_cell h p raw observed d of
       None \<Rightarrow> Inr d
     | Some m \<Rightarrow> attach_last_cell m cell raw sources d)"
| "canonical_op uuid5 (Rebuild h) d = map_sum id fst (rebuild_canonical_heat uuid5 h d)"

definition canonical_step :: "(string \<Rightarrow> string) \<Rightarrow> canonical_db \<Rightarrow> canonical_command \<Rightarrow> canonical_db" where
  "canonical_step uuid5 d c = (case canonical_op uuid5 c d of Inl e \<Rightarrow> d | Inr d' \<Rightarrow> d')"

definition empty_canonical_db :: canonical_db where
  "empty_canonical_db = \<lparr> cd_observations = [], cd_green = [], cd_boundaries = [], cd_laps = [],
     cd_passings = [], cd_sectors = [], cd_cells = [], cd_ledger = [] \<rparr>"

lemma rebuild_ok:
  assumes "inj uuid5" "canonical_ok uuid5 d" "rebuild_canonical_heat uuid5 h d = Inr (d', s)"
  shows "canonical_ok uuid5 d'"
proof -
  let ?d = "delete_heat h d"
  obtain d1 where d1: "record_all uuid5 h (physical_passings ?d h) ?d = Inr d1"
    using assms(3) by (cases "record_all uuid5 h (physical_passings ?d h) ?d") (simp_all add: rebuild_canonical_heat_def Let_def)
  obtain d2 k where d2: "attach_all h (last_cells d1 h) 0 d1 = Inr (d2, k)"
    using assms(3) d1 by (cases "attach_all h (last_cells d1 h) 0 d1") (auto simp: rebuild_canonical_heat_def Let_def)
  have "d' = d2" using assms(3) d1 d2 by (simp add: rebuild_canonical_heat_def Let_def)
  then show ?thesis
    using attach_all_ok [OF _ d2] record_all_ok [OF assms(1) delete_heat_ok [OF assms(2)] d1] by blast
qed

lemma canonical_op_ok:
  assumes "inj uuid5" "canonical_ok uuid5 d" "canonical_op uuid5 c d = Inr d'"
  shows "canonical_ok uuid5 d'"
proof (cases c)
  case (Passing h oid)
  then obtain m where "record_tracker_passing uuid5 h oid d = Inr (d', m)"
    using assms(3) by (cases "record_tracker_passing uuid5 h oid d") auto
  then show ?thesis using record_ok [OF assms(1,2)] by blast
next
  case (Last h p raw observed cell sources)
  then show ?thesis using assms attach_ok [OF assms(2)] by (auto split: option.splits)
next
  case (Rebuild h)
  then obtain s where "rebuild_canonical_heat uuid5 h d = Inr (d', s)"
    using assms(3) by (cases "rebuild_canonical_heat uuid5 h d") auto
  then show ?thesis by (rule rebuild_ok [OF assms(1,2)])
qed (use assms in \<open>auto simp: canonical_ok_def\<close>)

lemma empty_canonical_ok: "canonical_ok uuid5 empty_canonical_db"
  by (simp add: canonical_ok_def empty_canonical_db_def boundaries_of_def laps_of_def)

lemma canonical_step_ok:
  "(inj uuid5 \<longrightarrow> canonical_ok uuid5 d) \<Longrightarrow> inj uuid5 \<longrightarrow> canonical_ok uuid5 (canonical_step uuid5 d c)"
  using canonical_op_ok by (auto simp: canonical_step_def split: sum.splits)

interpretation canonical_machine: invariant_machine "canonical_step uuid5" "\<lambda>d. d = empty_canonical_db"
    "\<lambda>d. inj uuid5 \<longrightarrow> canonical_ok uuid5 d" for uuid5
proof unfold_locales
  show "inj uuid5 \<longrightarrow> canonical_ok uuid5 d" if "d = empty_canonical_db" for d
    using that empty_canonical_ok by blast
  show "inj uuid5 \<longrightarrow> canonical_ok uuid5 (canonical_step uuid5 d c)" if "inj uuid5 \<longrightarrow> canonical_ok uuid5 d" for d c
    using that by (rule canonical_step_ok)
qed

definition laps_tile :: "canonical_lap list \<Rightarrow> bool" where
  "laps_tile ls \<longleftrightarrow>
     map cl_ordinal ls = map int [1 ..< length ls + 1] \<and>
     (\<forall>l \<in> set ls. 0 < cl_duration_us l \<and>
        cl_duration_us l = cl_finished_at_provider_us l - cl_started_at_provider_us l) \<and>
     (\<forall>k. Suc k < length ls \<longrightarrow> cl_start_boundary (ls ! Suc k) = cl_finish_boundary (ls ! k) \<and>
        cl_started_at_provider_us (ls ! Suc k) = cl_finished_at_provider_us (ls ! k)) \<and>
     (list_all (\<lambda>l. cl_number l = Some (cl_ordinal l)) ls \<or> list_all (\<lambda>l. cl_number l = None) ls)"

lemma chronology_tiles:
  assumes "chronology_ok bs ls"
  shows "laps_tile ls"
proof -
  have sp: "lap_spans bs k (ls ! k)" if "k < length ls" for k using assms that by (simp add: chronology_ok_def)
  have len: "k < length ls \<Longrightarrow> Suc k < length bs" for k using assms by (auto simp: chronology_ok_def)
  have inc: "bd_provider_us (bs ! k) < bd_provider_us (bs ! Suc k)" if "k < length ls" for k
    using assms len [OF that] by (auto simp: chronology_ok_def sorted_wrt_iff_nth_less)
  have "map cl_ordinal ls = map int [1 ..< length ls + 1]"
    using sp by (intro nth_equalityI) (auto simp: lap_spans_def simp del: upt_Suc)
  moreover have "\<forall>l \<in> set ls. 0 < cl_duration_us l \<and>
        cl_duration_us l = cl_finished_at_provider_us l - cl_started_at_provider_us l"
    using sp inc by (auto simp: in_set_conv_nth lap_spans_def)
  moreover have "\<forall>k. Suc k < length ls \<longrightarrow> cl_start_boundary (ls ! Suc k) = cl_finish_boundary (ls ! k) \<and>
        cl_started_at_provider_us (ls ! Suc k) = cl_finished_at_provider_us (ls ! k)"
  proof (intro allI impI)
    fix k assume "Suc k < length ls"
    then show "cl_start_boundary (ls ! Suc k) = cl_finish_boundary (ls ! k) \<and>
        cl_started_at_provider_us (ls ! Suc k) = cl_finished_at_provider_us (ls ! k)"
      using sp [of k] sp [of "Suc k"] by (simp add: lap_spans_def)
  qed
  moreover have "list_all (\<lambda>l. cl_number l = Some (cl_ordinal l)) ls \<or> list_all (\<lambda>l. cl_number l = None) ls"
    using sp by (cases "bd_kind (bs ! 0) = HEAT_START") (auto simp: list_all_length lap_spans_def)
  ultimately show ?thesis unfolding laps_tile_def by blast
qed

lemma tile_duration:
  assumes "laps_tile ls" "ls \<noteq> []"
  shows "sum_list (map cl_duration_us ls) = cl_finished_at_provider_us (last ls) - cl_started_at_provider_us (hd ls)"
proof -
  have d: "cl_duration_us (ls ! k) = cl_finished_at_provider_us (ls ! k) - cl_started_at_provider_us (ls ! k)"
    if "k < length ls" for k using assms(1) nth_mem [OF that] by (auto simp: laps_tile_def)
  have j: "cl_started_at_provider_us (ls ! Suc k) = cl_finished_at_provider_us (ls ! k)" if "Suc k < length ls" for k
    using assms(1) that by (simp add: laps_tile_def)
  have "Suc n \<le> length ls \<Longrightarrow> sum_list (map cl_duration_us (take (Suc n) ls)) =
      cl_finished_at_provider_us (ls ! n) - cl_started_at_provider_us (ls ! 0)" for n
  proof (induction n)
    case 0
    then have "ls \<noteq> []" by auto
    then have "take (Suc 0) ls = [ls ! 0]" by (cases ls) simp_all
    then show ?case using d [of 0] \<open>ls \<noteq> []\<close> by simp
  next
    case (Suc n)
    then show ?case using d [of "Suc n"] j [of n] by (simp add: take_Suc_conv_app_nth [of "Suc n"])
  qed
  from this [of "length ls - 1"] assms(2) show ?thesis by (simp add: last_conv_nth hd_conv_nth)
qed

lemma reachable_laps_tile:
  assumes "inj uuid5"
  shows "laps_tile (laps_of h p (cd_laps (foldl (canonical_step uuid5) empty_canonical_db cs)))"
  using canonical_machine.reachable_inv [OF refl, of uuid5 cs] assms chronology_tiles
  by (auto simp: canonical_ok_def)

text \<open>C16. Whatever the stream stores and in whatever order the operations run, rebuilds included,
the canonical laps of a participant tile its race: they are numbered 1, 2, 3 and so on
without a gap, each starts at the very boundary and provider microsecond at which the one
before it finished, every duration is positive, and the durations add up to the time from
the first start to the last finish. Lap numbers are given to all of them or to none.
\<close>
theorem canonical_laps_tile_the_race:
  assumes "inj uuid5" "ls = laps_of h p (cd_laps (foldl (canonical_step uuid5) empty_canonical_db cs))" "ls \<noteq> []"
  shows "laps_tile ls \<and>
    sum_list (map cl_duration_us ls) = cl_finished_at_provider_us (last ls) - cl_started_at_provider_us (hd ls)"
  using reachable_laps_tile [OF assms(1)] tile_duration [OF _ assms(3)] assms(2) by simp

definition sample_observation :: "int \<Rightarrow> int \<Rightarrow> observation" where
  "sample_observation i u =
    \<lparr> ob_id = i, ob_heat = 1, ob_participant = Some ''7'', ob_handle = Some ''t_p'',
      ob_start_distance_mm = Some 0, ob_stop_distance_mm = Some 900, ob_sector_id = Some 1,
      ob_is_in_pit = Some False, ob_provider_passed_at_raw = None, ob_provider_us = Some u,
      ob_passed_at_us = None, ob_message_id = None, ob_source_key = ''k'', ob_observed_at_us = u \<rparr>"

text \<open>The track is 1800 mm long and every sample passing stops after 900.\<close>

definition sample_start :: "canonical_command list" where
  "sample_start =
    [Observe ((sample_observation 1 10)\<lparr> ob_stop_distance_mm := Some 1800, ob_start_distance_mm := None \<rparr>),
     Observe (sample_observation 2 1000000), Passing 1 2,
     Observe (sample_observation 3 91000000), Passing 1 3]"

definition sample_race :: "canonical_command list" where
  "sample_race = sample_start @ [Observe (sample_observation 4 182500000), Passing 1 4]"

lemma canonical_laps_tile_the_race_witness:
  "laps_of 1 ''7'' (cd_laps (foldl (canonical_step id) empty_canonical_db sample_race)) \<noteq> [] \<and>
   laps_tile (laps_of 1 ''7'' (cd_laps (foldl (canonical_step id) empty_canonical_db sample_race)))"
proof -
  have "laps_of 1 ''7'' (cd_laps (foldl (canonical_step id) empty_canonical_db sample_race)) \<noteq> []"
    by code_simp
  then show ?thesis using canonical_laps_tile_the_race [OF inj_on_id refl] by blast
qed

text \<open>Delivering a tracker passing again changes nothing: once an observation was recorded, with
a lap or without one, recording it a second time returns no lap and leaves every table as it
is. No passing closes two laps.
\<close>
theorem redelivered_passing_is_idle:
  assumes "inj uuid5" "d = foldl (canonical_step uuid5) empty_canonical_db cs"
    "record_tracker_passing uuid5 h oid d = Inr (d', m)"
  shows "record_tracker_passing uuid5 h oid d' = Inr (d', None)"
  using record_ok [OF assms(1) _ assms(3)] canonical_machine.reachable_inv [OF refl, of uuid5 cs] assms(1,2) by blast

lemma redelivered_passing_is_idle_witness:
  "\<exists>d' m. record_tracker_passing id 1 3 (foldl (canonical_step id) empty_canonical_db (butlast sample_start)) = Inr (d', Some m) \<and>
    record_tracker_passing id 1 3 d' = Inr (d', None)"
proof -
  let ?r = "record_tracker_passing id 1 3 (foldl (canonical_step id) empty_canonical_db (butlast sample_start))"
  have "(case ?r of Inr (d', Some m) \<Rightarrow> True | _ \<Rightarrow> False)" by code_simp
  then obtain d' m where "?r = Inr (d', Some m)" by (auto split: sum.splits option.splits prod.splits)
  then show ?thesis using redelivered_passing_is_idle [OF inj_on_id refl] by blast
qed

section \<open>Attached cells\<close>

lemma unique_filter:
  assumes "distinct xs" "x \<in> set xs" "P x" "\<And>y. y \<in> set xs \<Longrightarrow> P y \<Longrightarrow> y = x"
  shows "filter P xs = [x]"
  using assms
proof (induction xs)
  case (Cons a xs)
  show ?case
  proof (cases "a = x")
    case True
    have "\<not> P y" if "y \<in> set xs" for y
      using that True Cons.prems(1) Cons.prems(4) [of y] by (metis distinct.simps(2) list.set_intros(2))
    then have "filter P xs = []" by (simp add: filter_empty_conv)
    then show ?thesis using True Cons.prems(3) by simp
  next
    case False
    then have "\<not> P a" using Cons.prems(4) [of a] by (metis list.set_intros(1))
    moreover have "filter P xs = [x]"
      by (rule Cons.IH) (use Cons.prems(1-3) False in simp_all, rule Cons.prems(4), simp_all)
    ultimately show ?thesis by simp
  qed
qed simp

lemma distinct_some_same:
  "distinct_some (map f xs) \<Longrightarrow> x \<in> set xs \<Longrightarrow> y \<in> set xs \<Longrightarrow> f x = Some c \<Longrightarrow> f y = Some c \<Longrightarrow> x = y"
proof (induction xs)
  case (Cons a xs)
  have m: "c \<in> set (List.map_filter id (map f xs))" if "z \<in> set xs" "f z = Some c" for z
    using that by (force simp: List.map_filter_def)
  have t: "distinct_some (map f xs)" "f a = Some c \<Longrightarrow> c \<notin> set (List.map_filter id (map f xs))"
    using Cons(2) by (auto simp: distinct_some_def map_filter_simps split: option.splits)
  then show ?case using Cons m by auto
qed simp

lemma match_last_cell_row:
  assumes "match_last_cell h p raw observed d = Some m"
  obtains l where "l \<in> set (laps_of h p (cd_laps d))" "cl_last_cell l = None" "duration_us raw = Some (cl_duration_us l)"
    "m = match_of l"
proof -
  obtain t where t: "duration_us raw = Some t" using assms by (cases "duration_us raw") (simp_all add: match_last_cell_def)
  define found where "found = filter (\<lambda>l. cl_last_cell l = None \<and> cl_duration_us l = t \<and>
      \<bar>cl_finish_observed_at_us l - observed\<bar> \<le> LAST_MATCH_WINDOW_US) (laps_of h p (cd_laps d))"
  obtain l where l: "found = [l]" "m = match_of l"
    using assms t by (auto simp: match_last_cell_def found_def [symmetric] split: list.splits)
  then have "l \<in> set found" by simp
  then show ?thesis using that [of l] l(2) t by (auto simp: found_def)
qed

lemma attach_lap_row_other: "cl_id l \<noteq> lm_id m \<Longrightarrow> attach_lap_row m c r t l = l"
  by (simp add: attach_lap_row_def)

lemma match_of_attach [simp]: "match_of (attach_lap_row m c r t l) = match_of l"
  by (simp add: match_of_def attach_lap_row_def)

lemma attached_row:
  assumes "cl_last_cell l = None" "duration_us raw = Some (cl_duration_us l)"
  shows "cl_last_cell (attach_lap_row (match_of l) c r (cl_duration_us l) l) = Some c \<and>
    cl_reconciliation (attach_lap_row (match_of l) c r (cl_duration_us l) l) = EXACT \<and>
    cl_duration_us (attach_lap_row (match_of l) c r (cl_duration_us l) l) = cl_duration_us l"
  using assms by (simp add: attach_lap_row_def match_of_def)

lemma attach_exact:
  assumes dist: "distinct (map cl_id (cd_laps d))"
    and m: "match_last_cell h p raw observed d = Some m" and a: "attach_last_cell m cell raw sources d = Inr d'"
  obtains l k where "k < length (cd_laps d)" "cd_laps d ! k = l" "m = match_of l" "cl_heat l = h" "cl_participant l = p"
    "cl_last_cell l = None" "duration_us raw = Some (cl_duration_us l)"
    "cd_laps d' = (cd_laps d)[k := attach_lap_row m cell (raw_text raw) (cl_duration_us l) l]"
    "distinct_some (map cl_last_cell (cd_laps d'))"
proof -
  obtain l where l: "l \<in> set (laps_of h p (cd_laps d))" "cl_last_cell l = None" "duration_us raw = Some (cl_duration_us l)"
    "m = match_of l" by (rule match_last_cell_row [OF m])
  obtain t where t: "duration_us raw = Some t" "cd_laps d' = map (attach_lap_row m cell (raw_text raw) t) (cd_laps d)"
    "distinct_some (map cl_last_cell (cd_laps d'))"
    using attach_last_cell_result [OF a] by blast
  have tl: "t = cl_duration_us l" using t(1) l(3) by simp
  have mem: "l \<in> set (cd_laps d)" "cl_heat l = h" "cl_participant l = p" using l(1) by (simp_all add: laps_of_def)
  then obtain k where k: "k < length (cd_laps d)" "cd_laps d ! k = l" by (auto simp: in_set_conv_nth)
  have "cd_laps d' = (cd_laps d)[k := attach_lap_row m cell (raw_text raw) t l]"
  proof (rule nth_equalityI)
    fix i assume "i < length (cd_laps d')"
    then have i: "i < length (cd_laps d)" by (simp add: t(2))
    have "cl_id (cd_laps d ! i) \<noteq> lm_id m" if "i \<noteq> k"
      using that dist i k l(4) by (auto simp: match_of_def distinct_conv_nth)
    then show "cd_laps d' ! i = (cd_laps d)[k := attach_lap_row m cell (raw_text raw) t l] ! i"
      using i k by (cases "i = k") (simp_all add: t(2) attach_lap_row_other)
  qed (simp add: t(2))
  then show ?thesis using that [OF k l(4) mem(2,3) l(2,3)] t(3) tl by simp
qed

lemma distinct_rows: "distinct (map f xs) \<Longrightarrow> distinct xs"
  by (simp add: distinct_map)

section \<open>Links last\<close>

text \<open>\<open>keeps_linked P d d'\<close>: the laps with \<open>P\<close> that have a cell are the same rows in \<open>d'\<close>, and no cell gets a second lap.\<close>

definition keeps_linked :: "(canonical_lap \<Rightarrow> bool) \<Rightarrow> canonical_db \<Rightarrow> canonical_db \<Rightarrow> bool" where
  "keeps_linked P d d' \<longleftrightarrow>
     (\<forall>n \<in> set (cd_laps d). P n \<and> cl_last_cell n \<noteq> None \<longrightarrow> n \<in> set (cd_laps d')) \<and>
     (distinct_some (map cl_last_cell (cd_laps d)) \<longrightarrow> distinct_some (map cl_last_cell (cd_laps d')))"

lemma keeps_linked_same: "cd_laps d' = cd_laps d \<Longrightarrow> keeps_linked P d d'"
  by (simp add: keeps_linked_def)

lemma keeps_linked_trans: "keeps_linked P d e \<Longrightarrow> keeps_linked P e f \<Longrightarrow> keeps_linked P d f"
  by (auto simp: keeps_linked_def)

lemma keeps_linked_append: "cd_laps d' = cd_laps d @ [l] \<Longrightarrow> cl_last_cell l = None \<Longrightarrow> keeps_linked P d d'"
  by (simp add: keeps_linked_def distinct_some_def map_filter_snoc)

lemma keeps_linked_attach:
  assumes "attach_last_cell m c raw src d = Inr d'" shows "keeps_linked P d d'"
proof -
  obtain t where t: "cd_laps d' = map (attach_lap_row m c (raw_text raw) t) (cd_laps d)" "distinct_some (map cl_last_cell (cd_laps d'))"
    using attach_last_cell_result [OF assms] by blast
  have "n \<in> set (cd_laps d')" if "n \<in> set (cd_laps d)" "cl_last_cell n \<noteq> None" for n
    using imageI [OF that(1), of "attach_lap_row m c (raw_text raw) t"] that(2) by (simp add: t(1) attach_lap_row_def)
  then show ?thesis using t(2) by (simp add: keeps_linked_def)
qed

lemma keeps_linked_record:
  assumes inj: "inj uuid5" and ok: "canonical_ok uuid5 d" and r: "record_tracker_passing uuid5 h oid d = Inr (d', m)"
  shows "keeps_linked P d d'"
proof (cases "\<exists>o1 p u. tracker_observation d h oid = Some o1 \<and> lap_candidate o1 p u")
  case False
  from record_ignored [OF this, of uuid5] r have "d' = d" by (metis prod.inject sum.inject(2))
  then show ?thesis by (simp add: keeps_linked_same)
next
  case True
  then obtain o1 p u where o: "tracker_observation d h oid = Some o1" "lap_candidate o1 p u" by blast
  note rec = r [unfolded record_unfold [OF o]]
  obtain d1 b where i: "initial_boundary uuid5 h p u o1 d = Inr (d1, b)"
    using rec by (cases "initial_boundary uuid5 h p u o1 d") auto
  have "d1 = d \<or> (\<exists>bs. d1 = d\<lparr> cd_boundaries := bs \<rparr>)" using initial_boundary_ok [OF inj ok i] by blast
  then have d1: "cd_laps d1 = cd_laps d" by auto
  consider "d' = d1" | "close_lap uuid5 h p b u o1 d1 = Inr (d', m)" using rec i by (auto split: if_splits)
  then show ?thesis
  proof cases
    case 1
    then show ?thesis using d1 by (simp add: keeps_linked_same)
  next
    case 2
    then show ?thesis
    proof (cases rule: close_lap_cases)
      case (1 finish lap)
      then have "cl_last_cell lap = None" by (auto simp: new_lap_def)
      then show ?thesis using 1(6) d1 by (intro keeps_linked_append [of _ _ lap]) simp_all
    qed
  qed
qed

lemma keeps_linked_record_all:
  "inj uuid5 \<Longrightarrow> canonical_ok uuid5 d \<Longrightarrow> record_all uuid5 h os d = Inr d' \<Longrightarrow> keeps_linked P d d'"
proof (induction uuid5 h os d rule: record_all.induct)
  case (2 uuid5 h o1 os d)
  obtain d1 m where r: "record_tracker_passing uuid5 h (ob_id o1) d = Inr (d1, m)"
    using 2(4) by (cases "record_tracker_passing uuid5 h (ob_id o1) d") auto
  have "canonical_ok uuid5 d1" using record_ok [OF 2(2,3) r] by simp
  then have "keeps_linked P d1 d'" using 2(1) [OF r refl 2(2)] 2(4) r by simp
  then show ?case by (rule keeps_linked_trans [OF keeps_linked_record [OF 2(2,3) r]])
qed (simp add: keeps_linked_same)

lemma keeps_linked_attach_all: "attach_all h rs n d = Inr (d', k) \<Longrightarrow> keeps_linked P d d'"
proof (induction h rs n d rule: attach_all.induct)
  case (2 h r rs n d)
  let ?match = "match_last_cell h (text_or_None (lr_participant r)) (text_json (lr_value_text r)) (lr_observed_at_us r) d"
  show ?case
  proof (cases ?match)
    case None
    then show ?thesis using 2 by simp
  next
    case (Some m)
    let ?src = "source_sectors_for_last d h (lm_participant m) r"
    obtain d1 where d1: "attach_last_cell m (lr_cell r) (text_json (lr_value_text r)) ?src d = Inr d1"
      using 2(3) Some by (cases "attach_last_cell m (lr_cell r) (text_json (lr_value_text r)) ?src d") (simp_all add: Let_def)
    let ?e = "d1\<lparr> cd_ledger := map (link_ledger m ?src (lr_cell r)) (cd_ledger d1) \<rparr>"
    have "keeps_linked P d ?e" using keeps_linked_attach [OF d1, of P] by (simp add: keeps_linked_def)
    moreover have "keeps_linked P ?e d'" using 2(2) [OF Some refl d1] 2(3) Some d1 by (simp add: Let_def)
    ultimately show ?thesis by (rule keeps_linked_trans)
  qed
qed (simp add: keeps_linked_same)

lemma distinct_some_filter: "distinct_some (map f xs) \<Longrightarrow> distinct_some (map f (filter P xs))"
proof (induction xs)
  case (Cons x xs)
  have "set (List.map_filter id (map f (filter P xs))) \<subseteq> set (List.map_filter id (map f xs))"
    by (auto simp: List.map_filter_def)
  then show ?case using Cons by (auto simp: distinct_some_def map_filter_simps split: option.splits)
qed simp

lemma keeps_linked_delete: "canonical_ok uuid5 d \<Longrightarrow> keeps_linked (\<lambda>n. cl_heat n \<noteq> h) d (delete_heat h d)"
  by (simp add: keeps_linked_def delete_heat_laps distinct_some_filter)

lemma keeps_linked_weaken: "keeps_linked P d d' \<Longrightarrow> (\<And>n. Q n \<Longrightarrow> P n) \<Longrightarrow> keeps_linked Q d d'"
  by (auto simp: keeps_linked_def)

lemma keeps_linked_rebuild:
  assumes "inj uuid5" "canonical_ok uuid5 d" "rebuild_canonical_heat uuid5 h d = Inr (d', s)"
  shows "keeps_linked (\<lambda>n. cl_heat n \<noteq> h) d d'"
proof -
  let ?d = "delete_heat h d"
  obtain d1 where d1: "record_all uuid5 h (physical_passings ?d h) ?d = Inr d1"
    using assms(3) by (cases "record_all uuid5 h (physical_passings ?d h) ?d") (simp_all add: rebuild_canonical_heat_def Let_def)
  obtain d2 k where d2: "attach_all h (last_cells d1 h) 0 d1 = Inr (d2, k)"
    using assms(3) d1 by (cases "attach_all h (last_cells d1 h) 0 d1") (auto simp: rebuild_canonical_heat_def Let_def)
  have "d' = d2" using assms(3) d1 d2 by (simp add: rebuild_canonical_heat_def Let_def)
  then show ?thesis
    using keeps_linked_trans [OF keeps_linked_delete [OF assms(2)] keeps_linked_trans [OF
        keeps_linked_record_all [OF assms(1) delete_heat_ok [OF assms(2)] d1] keeps_linked_attach_all [OF d2]]] by blast
qed

lemma keeps_linked_op:
  assumes inj: "inj uuid5" and ok: "canonical_ok uuid5 d" and op: "canonical_op uuid5 c d = Inr d'" and c: "c \<noteq> Rebuild h"
  shows "keeps_linked (\<lambda>n. cl_heat n = h) d d'"
proof (cases c)
  case (Passing h' oid)
  then obtain m where "record_tracker_passing uuid5 h' oid d = Inr (d', m)"
    using op by (cases "record_tracker_passing uuid5 h' oid d") auto
  then show ?thesis by (rule keeps_linked_record [OF inj ok])
next
  case (Last h' p raw observed cell sources)
  then show ?thesis using op keeps_linked_attach by (auto simp: keeps_linked_same split: option.splits)
next
  case (Rebuild h')
  then obtain s where "rebuild_canonical_heat uuid5 h' d = Inr (d', s)"
    using op by (cases "rebuild_canonical_heat uuid5 h' d") auto
  from keeps_linked_rebuild [OF inj ok this] show ?thesis by (rule keeps_linked_weaken) (use c Rebuild in simp)
qed (use op in \<open>auto simp: keeps_linked_def\<close>)

lemma keeps_linked_run:
  assumes "inj uuid5" "canonical_ok uuid5 d" "Rebuild h \<notin> set cs"
  shows "keeps_linked (\<lambda>n. cl_heat n = h) d (foldl (canonical_step uuid5) d cs)"
  using assms(2,3)
proof (induction cs arbitrary: d)
  case (Cons c cs)
  let ?d = "canonical_step uuid5 d c"
  have "keeps_linked (\<lambda>n. cl_heat n = h) d ?d" "canonical_ok uuid5 ?d"
    using keeps_linked_op [OF assms(1) Cons.prems(1), of c] canonical_op_ok [OF assms(1) Cons.prems(1), of c] Cons.prems
    by (auto simp: canonical_step_def keeps_linked_same split: sum.splits)
  then show ?case using Cons.IH Cons.prems(2) keeps_linked_trans by (metis foldl_Cons list.set_intros(2))
qed (simp add: keeps_linked_same)

text \<open>C19. A LAST cell that matches a lap is reconciled with it exactly. Attaching it changes one lap
row, of that heat and participant, that had no cell and whose tracker duration is the
source's to the microsecond; the row becomes \<open>EXACT\<close>. Until the laps of the heat are rebuilt, whatever
is observed, recorded, matched or rebuilt for other heats, the row stays as it is, the lap is the one
linked with the cell, so a replay finds it again, and no further cell can match it.
\<close>
theorem matched_last_cell_is_exact:
  assumes "inj uuid5" "d = foldl (canonical_step uuid5) empty_canonical_db cs"
    "match_last_cell h p raw observed d = Some m" "attach_last_cell m cell raw sources d = Inr d'"
    "Rebuild h \<notin> set later" "e = foldl (canonical_step uuid5) d' later"
  shows "(\<exists>k l. k < length (cd_laps d) \<and> cl_last_cell (cd_laps d ! k) = None \<and> cd_laps d' = (cd_laps d)[k := l] \<and>
      l \<in> set (laps_of h p (cd_laps e)) \<and> cl_last_cell l = Some cell \<and> cl_reconciliation l = EXACT \<and>
      duration_us raw = Some (cl_duration_us l) \<and> match_of l = m) \<and>
    linked_lap_for_last_cell h cell e = Some m \<and>
    (\<forall>raw' t m'. match_last_cell h p raw' t e = Some m' \<longrightarrow> lm_id m' \<noteq> lm_id m)"
proof -
  have ok: "canonical_ok uuid5 d" using canonical_machine.reachable_inv [OF refl, of uuid5 cs] assms(1,2) by blast
  then have dist: "distinct (map cl_id (cd_laps d))" by (simp add: canonical_ok_def)
  have ok': "canonical_ok uuid5 d'" by (rule attach_ok [OF ok assms(4)])
  have "canonical_ok uuid5 e" unfolding assms(6) using ok' canonical_step_ok assms(1)
    by (induction later rule: rev_induct) auto
  then have diste: "distinct (map cl_id (cd_laps e))" by (simp add: canonical_ok_def)
  obtain l k where l: "k < length (cd_laps d)" "cd_laps d ! k = l" "m = match_of l" "cl_heat l = h" "cl_participant l = p"
    "cl_last_cell l = None" "duration_us raw = Some (cl_duration_us l)"
    "cd_laps d' = (cd_laps d)[k := attach_lap_row m cell (raw_text raw) (cl_duration_us l) l]"
    "distinct_some (map cl_last_cell (cd_laps d'))"
    by (rule attach_exact [OF dist assms(3,4)])
  define n where "n = attach_lap_row m cell (raw_text raw) (cl_duration_us l) l"
  have n: "n \<in> set (cd_laps d')" "cl_last_cell n = Some cell" "cl_reconciliation n = EXACT"
    "cl_duration_us n = cl_duration_us l" "cl_heat n = h" "cl_participant n = p" "match_of n = m"
    using l(1) attached_row [OF l(6,7), of cell "raw_text raw"] l(4,5)
    by (simp_all add: n_def l(8) set_update_memI l(3))
  have kept: "n \<in> set (cd_laps e)" "distinct_some (map cl_last_cell (cd_laps e))"
    using keeps_linked_run [OF assms(1) ok' assms(5)] n(1,2,5) l(9) unfolding assms(6) by (auto simp: keeps_linked_def)
  have "y = n" if "y \<in> set (cd_laps e)" "cl_heat y = h \<and> cl_last_cell y = Some cell" for y
    by (rule distinct_some_same [OF kept(2) that(1) kept(1) conjunct2 [OF that(2)] n(2)])
  then have "filter (\<lambda>l. cl_heat l = h \<and> cl_last_cell l = Some cell) (cd_laps e) = [n]"
    by (intro unique_filter [OF distinct_rows [OF diste] kept(1)]) (use n in blast)+
  then have "linked_lap_for_last_cell h cell e = Some m" using n(7) by (simp add: linked_lap_for_last_cell_def)
  moreover have "lm_id m' \<noteq> lm_id m" if m': "match_last_cell h p raw' t e = Some m'" for raw' t m'
  proof
    assume id: "lm_id m' = lm_id m"
    obtain x where x: "x \<in> set (laps_of h p (cd_laps e))" "cl_last_cell x = None" "m' = match_of x"
      by (rule match_last_cell_row [OF m'])
    then have "x \<in> set (cd_laps e)" by (simp add: laps_of_def)
    moreover have "cl_id x = cl_id n" using id x(3) n(7) by (auto simp: match_of_def)
    ultimately have "x = n" by (rule same_key [OF diste _ kept(1)])
    then show False using x(2) n(2) by simp
  qed
  moreover have "n \<in> set (laps_of h p (cd_laps e))" using n kept(1) by (simp add: laps_of_def)
  ultimately show ?thesis using n(2-4,7) l(1,2,6,7) l(8) [folded n_def] by metis
qed

text \<open>The lap is linked before and after the next one is driven.\<close>

lemma matched_last_cell_is_exact_witness:
  "\<exists>d' m. attach_last_cell m 5 (JStr ''90000000'') [] (foldl (canonical_step id) empty_canonical_db sample_race) = Inr d' \<and>
    linked_lap_for_last_cell 1 5 (foldl (canonical_step id) d' [Observe (sample_observation 9 273000000), Passing 1 9]) = Some m"
proof -
  let ?d = "foldl (canonical_step id) empty_canonical_db sample_race"
  have "(case match_last_cell 1 ''7'' (JStr ''90000000'') 91000000 ?d of None \<Rightarrow> False
      | Some m \<Rightarrow> (case attach_last_cell m 5 (JStr ''90000000'') [] ?d of Inl e \<Rightarrow> False | Inr d' \<Rightarrow> True))"
    by code_simp
  then obtain m d' where "match_last_cell 1 ''7'' (JStr ''90000000'') 91000000 ?d = Some m"
    "attach_last_cell m 5 (JStr ''90000000'') [] ?d = Inr d'" by (auto split: option.splits sum.splits)
  then show ?thesis
    using matched_last_cell_is_exact [OF inj_on_id refl, where later = "[Observe (sample_observation 9 273000000), Passing 1 9]"] by fastforce
qed

end
