(* ===== verification/Race_Control.thy ===== *)
theory Race_Control
  imports Wire_Text
begin

text \<open>
  Race-control screen messages: the parser \<open>server/timing/screen_messages.py\<close>, the projection
  \<open>server/timing/race_control_store.py\<close> over the tables of migration 0015, and the rebuild
  \<open>server/timing/race_control_backfill.py\<close>. A JSON text column holds the value it encodes, with
  sorted keys; \<open>created_at_us\<close>, \<open>updated_at_us\<close> and the always empty
  \<open>provider_occurred_at_us\<close> are left out; referenced rows exist.
\<close>

section \<open>Canonical JSON\<close>

text \<open>
  \<open>json.dumps(value, sort_keys=True, allow_nan=False)\<close>: the value written, or the
  \<open>ValueError\<close> of a number that JSON does not have.
\<close>

fun all_some :: "'a option list \<Rightarrow> 'a list option" where
  "all_some [] = Some []"
| "all_some (x # xs) = (case x of None \<Rightarrow> None | Some y \<Rightarrow> map_option ((#) y) (all_some xs))"

fun dumps :: "json \<Rightarrow> json option" where
  "dumps (JNum n) = (if finite_value n = None then None else Some (JNum n))"
| "dumps (JList xs) = map_option JList (all_some (map dumps xs))"
| "dumps (JObj kvs) = map_option (\<lambda>ys. JObj (sort_key fst ys))
     (all_some (map (\<lambda>kv. map_option (Pair (fst kv)) (dumps (snd kv))) kvs))"
| "dumps v = Some v"

section \<open>Parsing one invocation\<close>

record screen_patch =
  sp_id :: string
  sp_source_ordinal :: nat
  sp_application_ordinal :: nat
  sp_text :: "string option"
  sp_line :: "int option"
  sp_modality :: "int option"
  sp_background_color :: "string option"
  sp_font_color :: "string option"
  sp_changed_fields :: "string list"
  sp_raw :: json

datatype screen_operation = SNAPSHOT | RESET | UPSERT | DELETE | UNKNOWN | INVALID

record screen_update =
  su_handle :: string
  su_operation :: screen_operation
  su_patches :: "screen_patch list"
  su_message_id :: "string option"
  su_snapshot_complete :: bool
  su_errors :: "string list"

definition plain_update :: "string \<Rightarrow> screen_operation \<Rightarrow> screen_update" where
  "plain_update handle oper = \<lparr> su_handle = handle, su_operation = oper, su_patches = [],
     su_message_id = None, su_snapshot_complete = False, su_errors = [] \<rparr>"

definition is_actionable :: "screen_update \<Rightarrow> bool" where
  "is_actionable u = (su_operation u \<noteq> UNKNOWN \<and> su_operation u \<noteq> INVALID)"

definition provider_message_id :: "json \<Rightarrow> string option" where
  "provider_message_id value = (case value of JStr s \<Rightarrow> if strip s \<noteq> [] then Some s else None | _ \<Rightarrow> None)"

text \<open>
  One field: its value and the lists \<open>changed_fields\<close> and \<open>errors\<close> after it. An absent or
  null field changes nothing, a value of another type is an error.
\<close>

definition string_field ::
    "(string \<times> json) list \<Rightarrow> string \<Rightarrow> string \<Rightarrow> string list \<times> string list
      \<Rightarrow> string option \<times> string list \<times> string list" where
  "string_field payload source_name field_name acc =
    (case (jget source_name payload, acc) of
       (JNull, changed, errors) \<Rightarrow> (None, changed, errors)
     | (JStr s, changed, errors) \<Rightarrow> (Some s, changed @ [field_name], errors)
     | (_, changed, errors) \<Rightarrow> (None, changed, errors @ [''invalid_'' @ field_name]))"

definition integer_field ::
    "(string \<times> json) list \<Rightarrow> string \<Rightarrow> string \<Rightarrow> string list \<times> string list
      \<Rightarrow> int option \<times> string list \<times> string list" where
  "integer_field payload source_name field_name acc =
    (case (jget source_name payload, acc) of
       (JNull, changed, errors) \<Rightarrow> (None, changed, errors)
     | (JNum (PyInt i), changed, errors) \<Rightarrow> (Some i, changed @ [field_name], errors)
     | (_, changed, errors) \<Rightarrow> (None, changed, errors @ [''invalid_'' @ field_name]))"

definition parse_patch :: "json \<Rightarrow> nat \<Rightarrow> nat \<Rightarrow> screen_patch option \<times> string list" where
  "parse_patch payload source_ordinal application_ordinal =
    (case payload of
       JObj d \<Rightarrow>
        (case provider_message_id (jget ''Id'' d) of
           None \<Rightarrow> (None, [''invalid_provider_message_id''])
         | Some message_id \<Rightarrow>
            (let (text, acc1) = string_field d ''t'' ''text'' ([], []);
                 (line, acc2) = integer_field d ''l'' ''line'' acc1;
                 (modality, acc3) = integer_field d ''m'' ''modality'' acc2;
                 (background, acc4) = string_field d ''bc'' ''background_color'' acc3;
                 (font, changed, errors) = string_field d ''fc'' ''font_color'' acc4;
                 raw = dumps (JObj d)
             in (Some \<lparr> sp_id = message_id, sp_source_ordinal = source_ordinal,
                        sp_application_ordinal = application_ordinal, sp_text = text, sp_line = line,
                        sp_modality = modality, sp_background_color = background, sp_font_color = font,
                        sp_changed_fields = changed,
                        sp_raw = (case raw of None \<Rightarrow> JObj [] | Some j \<Rightarrow> j) \<rparr>,
                 errors @ (if raw = None then [''raw_payload_not_json''] else []))))
     | _ \<Rightarrow> (None, [''expected_message_object'']))"

text \<open>The reverse loop over a snapshot; \<open>n\<close> items are still to be applied.\<close>

fun parse_items :: "json list \<Rightarrow> nat \<Rightarrow> screen_patch list \<times> string list" where
  "parse_items items 0 = ([], [])"
| "parse_items items (Suc n) =
    (let (patch, item_errors) = parse_patch (items ! n) n (length items - Suc n);
         (patches, errors) = parse_items items n
     in ((case patch of None \<Rightarrow> patches | Some p \<Rightarrow> p # patches),
         map (\<lambda>e. ''snapshot_item_'' @ int_text (int n) @ '':'' @ e) item_errors @ errors))"

definition parse_snapshot :: "string \<Rightarrow> json \<Rightarrow> screen_update" where
  "parse_snapshot handle payload =
    (case payload of
       JNull \<Rightarrow> (plain_update handle SNAPSHOT)\<lparr> su_snapshot_complete := True \<rparr>
     | JList items \<Rightarrow>
        (let (patches, errors) = parse_items items (length items)
         in (plain_update handle SNAPSHOT)\<lparr> su_patches := patches, su_snapshot_complete := (errors = []),
              su_errors := errors \<rparr>)
     | _ \<Rightarrow> (plain_update handle INVALID)\<lparr> su_errors := [''expected_snapshot_list''] \<rparr>)"

definition parse_screen_message_payload :: "string \<Rightarrow> json \<Rightarrow> screen_update" where
  "parse_screen_message_payload handle payload =
    (if handle = ''m_i'' then parse_snapshot handle payload
     else if handle = ''m_a'' then plain_update handle RESET
     else if handle = ''m_c'' then
       (case parse_patch payload 0 0 of
          (None, errors) \<Rightarrow> (plain_update handle INVALID)\<lparr> su_errors := errors \<rparr>
        | (Some patch, errors) \<Rightarrow> (plain_update handle UPSERT)\<lparr> su_patches := [patch], su_errors := errors \<rparr>)
     else if handle = ''m_d'' then
       (case provider_message_id payload of
          None \<Rightarrow> (plain_update handle INVALID)\<lparr> su_errors := [''invalid_provider_message_id''] \<rparr>
        | Some message_id \<Rightarrow> (plain_update handle DELETE)\<lparr> su_message_id := Some message_id \<rparr>)
     else plain_update handle UNKNOWN)"

text \<open>The positional arguments are a list; a single one is the payload.\<close>

definition screen_payload :: "json list \<Rightarrow> json" where
  "screen_payload args = (case args of [x] \<Rightarrow> x | _ \<Rightarrow> JList args)"

definition parse_screen_message_update :: "string \<Rightarrow> json list \<Rightarrow> screen_update" where
  "parse_screen_message_update handle args = parse_screen_message_payload handle (screen_payload args)"

section \<open>Tables\<close>

record rc_source =
  rs_heat :: int
  rs_frame :: int
  rs_message :: int
  rs_message_ordinal :: int
  rs_key :: string
  rs_observed_at_us :: int

datatype rc_action = INITIAL_SNAPSHOT | A_UPSERT | A_DELETE | CLEAR | A_UNKNOWN | SNAPSHOT_RECONCILIATION

record rc_observation =
  ro_id :: int
  ro_source :: rc_source
  ro_handle :: string
  ro_operation :: rc_action
  ro_message_id :: "string option"
  ro_text :: "string option"
  ro_line :: "int option"
  ro_modality :: "int option"
  ro_background_color :: "string option"
  ro_font_color :: "string option"
  ro_raw_record :: "json option"
  ro_raw_payload :: json
  ro_change_ordinal :: nat

text \<open>An action with its provenance: the first, last and removal columns of a current row.\<close>

record rc_event =
  re_action :: rc_action
  re_source :: rc_source
  re_change_ordinal :: nat
  re_observation :: "int option"

record rc_message =
  rm_heat :: int
  rm_id :: string
  rm_text :: "string option"
  rm_line :: "int option"
  rm_modality :: "int option"
  rm_background_color :: "string option"
  rm_font_color :: "string option"
  rm_raw_record :: json
  rm_is_active :: bool
  rm_first :: rc_event
  rm_last :: rc_event
  rm_removed :: "rc_event option"

record rc_db =
  rd_observations :: "rc_observation list"
  rd_current :: "rc_message list"

datatype rc_error = RaceControlStoreError string

record rc_result =
  rr_action :: rc_action
  rr_observations_written :: nat
  rr_current_affected :: nat

section \<open>Writing\<close>

definition rc_next_id :: "rc_observation list \<Rightarrow> int" where
  "rc_next_id rows = fold max (map ro_id rows) 0 + 1"

definition rc_changed :: "screen_patch \<Rightarrow> string \<Rightarrow> 'a option \<Rightarrow> 'a option" where
  "rc_changed patch name v = (if name \<in> set (sp_changed_fields patch) then v else None)"

definition observation_row ::
    "int \<Rightarrow> rc_source \<Rightarrow> string \<Rightarrow> rc_action \<Rightarrow> nat \<Rightarrow> json \<Rightarrow> screen_patch option \<Rightarrow> string option \<Rightarrow> rc_observation" where
  "observation_row i source handle action ordinal payload_json patch message_id =
    \<lparr> ro_id = i, ro_source = source, ro_handle = handle, ro_operation = action,
      ro_message_id = (case patch of Some p \<Rightarrow> Some (sp_id p) | None \<Rightarrow> message_id),
      ro_text = Option.bind patch (\<lambda>p. rc_changed p ''text'' (sp_text p)),
      ro_line = Option.bind patch (\<lambda>p. rc_changed p ''line'' (sp_line p)),
      ro_modality = Option.bind patch (\<lambda>p. rc_changed p ''modality'' (sp_modality p)),
      ro_background_color = Option.bind patch (\<lambda>p. rc_changed p ''background_color'' (sp_background_color p)),
      ro_font_color = Option.bind patch (\<lambda>p. rc_changed p ''font_color'' (sp_font_color p)),
      ro_raw_record = map_option sp_raw patch, ro_raw_payload = payload_json, ro_change_ordinal = ordinal \<rparr>"

text \<open>The \<open>CHECK\<close> constraints of the ledger.\<close>

definition observation_check :: "rc_observation \<Rightarrow> bool" where
  "observation_check r =
    (((ro_operation r = INITIAL_SNAPSHOT \<and> ro_handle r = ''m_i'') \<or> (ro_operation r = A_UPSERT \<and> ro_handle r = ''m_c'') \<or>
      (ro_operation r = A_DELETE \<and> ro_handle r = ''m_d'') \<or> (ro_operation r = CLEAR \<and> ro_handle r = ''m_a'') \<or>
      ro_operation r = A_UNKNOWN) \<and>
     (ro_operation r \<in> {A_UPSERT, A_DELETE} \<longrightarrow> ro_message_id r \<noteq> None))"

definition same_change :: "rc_source \<Rightarrow> nat \<Rightarrow> rc_observation \<Rightarrow> bool" where
  "same_change source ordinal r =
    (rs_heat (ro_source r) = rs_heat source \<and> rs_key (ro_source r) = rs_key source \<and> ro_change_ordinal r = ordinal)"

definition insert_observation ::
    "rc_source \<Rightarrow> string \<Rightarrow> rc_action \<Rightarrow> nat \<Rightarrow> json \<Rightarrow> screen_patch option \<Rightarrow> string option \<Rightarrow> rc_db
      \<Rightarrow> rc_error + (rc_db \<times> int \<times> nat)" where
  "insert_observation source handle action ordinal payload_json patch message_id d =
    (let row = observation_row (rc_next_id (rd_observations d)) source handle action ordinal payload_json patch message_id;
         fresh = (observation_check row \<and> \<not> list_ex (same_change source ordinal) (rd_observations d));
         d' = (if fresh then d\<lparr> rd_observations := rd_observations d @ [row] \<rparr> else d)
     in case find (same_change source ordinal) (rd_observations d') of
          None \<Rightarrow> Inl (RaceControlStoreError ''Race Control observation did not persist'')
        | Some r \<Rightarrow> Inr (d', ro_id r, if fresh then 1 else 0))"

definition keep_or :: "screen_patch \<Rightarrow> string \<Rightarrow> 'a option \<Rightarrow> 'a option \<Rightarrow> 'a option" where
  "keep_or patch name new old = (if name \<in> set (sp_changed_fields patch) then new else old)"

definition rc_key :: "int \<Rightarrow> string \<Rightarrow> rc_message \<Rightarrow> bool" where
  "rc_key h i r = (rm_heat r = h \<and> rm_id r = i)"

definition new_message :: "screen_patch \<Rightarrow> int \<Rightarrow> rc_event \<Rightarrow> rc_message" where
  "new_message patch h event =
    \<lparr> rm_heat = h, rm_id = sp_id patch, rm_text = rc_changed patch ''text'' (sp_text patch),
      rm_line = rc_changed patch ''line'' (sp_line patch), rm_modality = rc_changed patch ''modality'' (sp_modality patch),
      rm_background_color = rc_changed patch ''background_color'' (sp_background_color patch),
      rm_font_color = rc_changed patch ''font_color'' (sp_font_color patch),
      rm_raw_record = sp_raw patch, rm_is_active = True, rm_first = event, rm_last = event, rm_removed = None \<rparr>"

definition merge_message :: "screen_patch \<Rightarrow> rc_event \<Rightarrow> rc_message \<Rightarrow> rc_message" where
  "merge_message patch event r =
    r\<lparr> rm_text := keep_or patch ''text'' (sp_text patch) (rm_text r),
       rm_line := keep_or patch ''line'' (sp_line patch) (rm_line r),
       rm_modality := keep_or patch ''modality'' (sp_modality patch) (rm_modality r),
       rm_background_color := keep_or patch ''background_color'' (sp_background_color patch) (rm_background_color r),
       rm_font_color := keep_or patch ''font_color'' (sp_font_color patch) (rm_font_color r),
       rm_raw_record := sp_raw patch, rm_is_active := True, rm_last := event, rm_removed := None \<rparr>"

definition upsert_current :: "rc_source \<Rightarrow> rc_action \<Rightarrow> screen_patch \<Rightarrow> int \<Rightarrow> rc_db \<Rightarrow> rc_db \<times> nat" where
  "upsert_current source action patch observation_id d =
    (let event = \<lparr> re_action = action, re_source = source, re_change_ordinal = sp_source_ordinal patch,
                   re_observation = Some observation_id \<rparr>
     in (if list_ex (rc_key (rs_heat source) (sp_id patch)) (rd_current d)
         then d\<lparr> rd_current := map (\<lambda>r. if rc_key (rs_heat source) (sp_id patch) r then merge_message patch event r else r)
                                (rd_current d) \<rparr>
         else d\<lparr> rd_current := rd_current d @ [new_message patch (rs_heat source) event] \<rparr>, 1))"

definition remove_message :: "rc_event \<Rightarrow> rc_message \<Rightarrow> rc_message" where
  "remove_message event r = r\<lparr> rm_is_active := False, rm_last := event, rm_removed := Some event \<rparr>"

text \<open>An \<open>UPDATE ... WHERE source_heat_id = ? AND is_active = 1 AND\<close> a condition on the id.\<close>

definition deactivate :: "int \<Rightarrow> (string \<Rightarrow> bool) \<Rightarrow> rc_event \<Rightarrow> rc_db \<Rightarrow> rc_db \<times> nat" where
  "deactivate h P event d =
    (let hit = (\<lambda>r. rm_heat r = h \<and> rm_is_active r \<and> P (rm_id r))
     in (d\<lparr> rd_current := map (\<lambda>r. if hit r then remove_message event r else r) (rd_current d) \<rparr>,
         length (filter hit (rd_current d))))"

definition mark_removed ::
    "rc_source \<Rightarrow> string list option \<Rightarrow> rc_action \<Rightarrow> int option \<Rightarrow> nat \<Rightarrow> rc_db \<Rightarrow> rc_db \<times> nat" where
  "mark_removed source message_ids action observation_id ordinal d =
    (let event = \<lparr> re_action = action, re_source = source, re_change_ordinal = ordinal, re_observation = observation_id \<rparr>
     in case message_ids of
          None \<Rightarrow> deactivate (rs_heat source) (\<lambda>_. True) event d
        | Some ids \<Rightarrow> if ids = [] then (d, 0) else deactivate (rs_heat source) (\<lambda>i. i \<in> set ids) event d)"

definition reconcile_snapshot_absences :: "rc_source \<Rightarrow> string list \<Rightarrow> rc_db \<Rightarrow> rc_db \<times> nat" where
  "reconcile_snapshot_absences source visible d =
    (if visible = [] then mark_removed source None SNAPSHOT_RECONCILIATION None 0 d
     else deactivate (rs_heat source) (\<lambda>i. i \<notin> set visible)
            \<lparr> re_action = SNAPSHOT_RECONCILIATION, re_source = source, re_change_ordinal = 0, re_observation = None \<rparr> d)"

section \<open>One invocation\<close>

definition validate_source :: "rc_source \<Rightarrow> rc_error option" where
  "validate_source source =
    (if rs_heat source \<le> 0 then Some (RaceControlStoreError ''source_heat_id must be a positive integer'')
     else if rs_frame source \<le> 0 then Some (RaceControlStoreError ''source_frame_id must be a positive integer'')
     else if rs_message source \<le> 0 then Some (RaceControlStoreError ''source_message_id must be a positive integer'')
     else if rs_message_ordinal source < 0
       then Some (RaceControlStoreError ''source_message_ordinal must be a non-negative integer'')
     else if strip (rs_key source) = [] then Some (RaceControlStoreError ''source_key must be a non-empty string'')
     else if rs_observed_at_us source < 0
       then Some (RaceControlStoreError ''observed_at_us must be a non-negative integer'')
     else None)"

definition canonical_json :: "json \<Rightarrow> json" where
  "canonical_json value = (case dumps value of None \<Rightarrow> JNull | Some j \<Rightarrow> j)"

fun apply_patches ::
    "rc_source \<Rightarrow> string \<Rightarrow> json \<Rightarrow> screen_patch list \<Rightarrow> rc_db \<Rightarrow> rc_error + (rc_db \<times> nat \<times> nat)" where
  "apply_patches source handle payload_json [] d = Inr (d, 0, 0)"
| "apply_patches source handle payload_json (patch # patches) d =
    (case insert_observation source handle INITIAL_SNAPSHOT (sp_source_ordinal patch) payload_json (Some patch) None d of
       Inl e \<Rightarrow> Inl e
     | Inr (d1, observation_id, inserted) \<Rightarrow>
        (let (d2, affected) = (if inserted \<noteq> 0 then upsert_current source INITIAL_SNAPSHOT patch observation_id d1 else (d1, 0))
         in map_sum id (\<lambda>(d3, w, a). (d3, inserted + w, affected + a))
              (apply_patches source handle payload_json patches d2)))"

definition project_snapshot ::
    "rc_source \<Rightarrow> string \<Rightarrow> json \<Rightarrow> screen_update \<Rightarrow> rc_db \<Rightarrow> rc_error + (rc_db \<times> rc_result)" where
  "project_snapshot source handle payload_json update d =
    (let action = (if su_snapshot_complete update then INITIAL_SNAPSHOT else A_UNKNOWN) in
     case (if su_patches update = []
           then map_sum id (\<lambda>(d1, i, w). (d1, w)) (insert_observation source handle action 0 payload_json None None d)
           else Inr (d, 0)) of
       Inl e \<Rightarrow> Inl e
     | Inr (d1, written0) \<Rightarrow>
        (case apply_patches source handle payload_json (su_patches update) d1 of
           Inl e \<Rightarrow> Inl e
         | Inr (d2, written1, affected1) \<Rightarrow>
            (let written = written0 + written1;
                 (d3, affected2) = (if su_snapshot_complete update \<and> written \<noteq> 0
                    then reconcile_snapshot_absences source (map sp_id (su_patches update)) d2 else (d2, 0))
             in Inr (d3, \<lparr> rr_action = action, rr_observations_written = written,
                           rr_current_affected = affected1 + affected2 \<rparr>))))"

text \<open>The operations that write one observation, with what a fresh one does to the board.\<close>

definition project_one ::
    "rc_source \<Rightarrow> string \<Rightarrow> rc_action \<Rightarrow> json \<Rightarrow> screen_patch option \<Rightarrow> string option
      \<Rightarrow> (int \<Rightarrow> rc_db \<Rightarrow> rc_db \<times> nat) \<Rightarrow> rc_db \<Rightarrow> rc_error + (rc_db \<times> rc_result)" where
  "project_one source handle action payload_json patch message_id effect d =
    (case insert_observation source handle action 0 payload_json patch message_id d of
       Inl e \<Rightarrow> Inl e
     | Inr (d1, observation_id, inserted) \<Rightarrow>
        (let (d2, affected) = (if inserted \<noteq> 0 then effect observation_id d1 else (d1, 0))
         in Inr (d2, \<lparr> rr_action = action, rr_observations_written = inserted, rr_current_affected = affected \<rparr>)))"

definition project_screen_message ::
    "rc_source \<Rightarrow> string \<Rightarrow> json list \<Rightarrow> rc_db \<Rightarrow> rc_error + (rc_db \<times> rc_result)" where
  "project_screen_message source handle args d =
    (case validate_source source of
       Some e \<Rightarrow> Inl e
     | None \<Rightarrow>
        (let update = parse_screen_message_update handle args;
             payload_json = canonical_json (screen_payload args)
         in case su_operation update of
              SNAPSHOT \<Rightarrow> project_snapshot source handle payload_json update d
            | UPSERT \<Rightarrow>
                (let patch = hd (su_patches update)
                 in project_one source handle A_UPSERT payload_json (Some patch) None
                      (upsert_current source A_UPSERT patch) d)
            | DELETE \<Rightarrow>
                project_one source handle A_DELETE payload_json None (su_message_id update)
                  (\<lambda>i. mark_removed source (Some (case su_message_id update of None \<Rightarrow> [] | Some m \<Rightarrow> [m])) A_DELETE (Some i) 0) d
            | RESET \<Rightarrow>
                project_one source handle CLEAR payload_json None None
                  (\<lambda>i. mark_removed source None CLEAR (Some i) 0) d
            | _ \<Rightarrow> project_one source handle A_UNKNOWN payload_json None None (\<lambda>i d. (d, 0)) d))"

section \<open>Rebuild from raw frames\<close>

fun heat_for_observation :: "(int \<times> int) list \<Rightarrow> int \<Rightarrow> int option \<Rightarrow> int option" where
  "heat_for_observation [] observed_at_us result = result"
| "heat_for_observation ((heat_id, created_at_us) # heats) observed_at_us result =
    (if created_at_us > observed_at_us then result
     else heat_for_observation heats observed_at_us (Some heat_id))"

text \<open>A frame joined with one of its \<open>m_*\<close> messages; \<open>None\<close> is an \<open>args_json\<close> that is no JSON.\<close>

record raw_screen_message =
  rw_frame :: int
  rw_connection :: string
  rw_sequence :: int
  rw_received_at_us :: int
  rw_message :: int
  rw_ordinal :: int
  rw_handle :: string
  rw_args :: "json option"

datatype backfill_error = RaceControlBackfillError string | Store rc_error

record backfill_result =
  bf_source_heats :: nat
  bf_frames_seen :: nat
  bf_messages_seen :: nat
  bf_observations_written :: nat
  bf_current_messages :: nat
  bf_active_messages :: nat

definition raw_source :: "int \<Rightarrow> raw_screen_message \<Rightarrow> rc_source" where
  "raw_source heat_id m =
    \<lparr> rs_heat = heat_id, rs_frame = rw_frame m, rs_message = rw_message m, rs_message_ordinal = rw_ordinal m,
      rs_key = rw_connection m @ '':'' @ int_text (rw_sequence m) @ '':'' @ int_text (rw_ordinal m),
      rs_observed_at_us = rw_received_at_us m \<rparr>"

fun replay_messages ::
    "(int \<times> int) list \<Rightarrow> raw_screen_message list \<Rightarrow> nat \<Rightarrow> rc_db \<Rightarrow> backfill_error + (rc_db \<times> nat)" where
  "replay_messages heats [] written d = Inr (d, written)"
| "replay_messages heats (m # ms) written d =
    (case heat_for_observation heats (rw_received_at_us m) None of
       None \<Rightarrow> Inl (RaceControlBackfillError ''Race Control source frame predates every known source heat'')
     | Some heat_id \<Rightarrow>
        (case rw_args m of
           None \<Rightarrow> Inl (RaceControlBackfillError ''invalid args JSON'')
         | Some (JList args) \<Rightarrow>
            (case project_screen_message (raw_source heat_id m) (rw_handle m) args d of
               Inl e \<Rightarrow> Inl (Store e)
             | Inr (d', r) \<Rightarrow> replay_messages heats ms (written + rr_observations_written r) d')
         | Some _ \<Rightarrow> Inl (RaceControlBackfillError ''args are not an array'')))"

definition delete_session_messages :: "int list \<Rightarrow> rc_db \<Rightarrow> rc_db" where
  "delete_session_messages heat_ids d =
    d\<lparr> rd_current := filter (\<lambda>r. rm_heat r \<notin> set heat_ids) (rd_current d),
       rd_observations := filter (\<lambda>r. rs_heat (ro_source r) \<notin> set heat_ids) (rd_observations d) \<rparr>"

definition rebuild_race_control_messages ::
    "string \<Rightarrow> string option \<Rightarrow> (int \<times> int) list \<Rightarrow> raw_screen_message list \<Rightarrow> rc_db
      \<Rightarrow> backfill_error + (rc_db \<times> backfill_result)" where
  "rebuild_race_control_messages session_id lifecycle heats messages d =
    (if strip session_id = [] then Inl (RaceControlBackfillError ''session_id must be a non-empty string'')
     else case lifecycle of
       None \<Rightarrow> Inl (RaceControlBackfillError ''Analysis session not found'')
     | Some l \<Rightarrow>
        if l \<noteq> ''stopped'' \<and> l \<noteq> ''aborted''
        then Inl (RaceControlBackfillError ''Race Control backfill requires a stopped or aborted session'')
        else if heats = []
        then Inl (RaceControlBackfillError ''Session has no source heat to receive Race Control messages'')
        else
          (let heat_ids = map fst heats in
           case replay_messages heats messages 0 (delete_session_messages heat_ids d) of
             Inl e \<Rightarrow> Inl e
           | Inr (d', written) \<Rightarrow>
              (let current = filter (\<lambda>r. rm_heat r \<in> set heat_ids) (rd_current d')
               in Inr (d', \<lparr> bf_source_heats = length heats, bf_frames_seen = length (remdups (map rw_frame messages)),
                    bf_messages_seen = length messages, bf_observations_written = written,
                    bf_current_messages = length current,
                    bf_active_messages = length (filter rm_is_active current) \<rparr>))))"

section \<open>What the parser promises\<close>

lemma parse_items_ordinals:
  "n \<le> length items \<Longrightarrow> sorted_wrt (>) (map sp_source_ordinal (fst (parse_items items n))) \<and>
    (\<forall>p \<in> set (fst (parse_items items n)). sp_source_ordinal p < n)"
proof (induction n)
  case (Suc n)
  have p: "sp_source_ordinal p = n" if "fst (parse_patch (items ! n) n k) = Some p" for p k
    using that by (auto simp: parse_patch_def Let_def split: json.splits option.splits prod.splits)
  obtain patch errs where pp: "parse_patch (items ! n) n (length items - Suc n) = (patch, errs)" by fastforce
  obtain ps es where it: "parse_items items n = (ps, es)" by fastforce
  have IH: "sorted_wrt (>) (map sp_source_ordinal ps)" "\<forall>p \<in> set ps. sp_source_ordinal p < n"
    using Suc it by simp_all
  show ?case
  proof (cases patch)
    case None
    then show ?thesis using IH pp it by (auto simp: less_Suc_eq)
  next
    case (Some q)
    then have "sp_source_ordinal q = n" using p [of "length items - Suc n" q] pp by simp
    then show ?thesis using IH pp it Some by (auto simp: less_Suc_eq)
  qed
qed simp

lemma distinct_decreasing: "sorted_wrt (>) (xs :: nat list) \<Longrightarrow> distinct xs"
  by (induction xs) auto

lemma update_shape:
  assumes "parse_screen_message_update handle args = u"
  shows "distinct (map sp_source_ordinal (su_patches u)) \<and>
    (su_operation u = SNAPSHOT \<longrightarrow> handle = ''m_i'') \<and>
    (su_operation u = UPSERT \<longrightarrow> handle = ''m_c'' \<and> (\<exists>p. su_patches u = [p] \<and> sp_source_ordinal p = 0)) \<and>
    (su_operation u = DELETE \<longrightarrow> handle = ''m_d'' \<and> su_message_id u \<noteq> None) \<and>
    (su_operation u = RESET \<longrightarrow> handle = ''m_a'')"
proof -
  have z: "sp_source_ordinal p = 0" if "parse_patch x 0 0 = (Some p, e)" for p e x
    using that by (auto simp: parse_patch_def Let_def split: json.splits option.splits prod.splits)
  have d: "distinct (map sp_source_ordinal (fst (parse_items items (length items))))" for items
    using parse_items_ordinals [of "length items" items] distinct_decreasing by blast
  show ?thesis
  proof (cases "handle = ''m_i''")
    case True
    show ?thesis unfolding assms [symmetric] parse_screen_message_update_def parse_screen_message_payload_def
      using True d by (auto simp: parse_snapshot_def plain_update_def Let_def split: json.splits prod.splits)
         (metis fst_conv)+
  next
    case False
    then show ?thesis unfolding assms [symmetric] parse_screen_message_update_def parse_screen_message_payload_def
      using z by (auto simp: plain_update_def split: option.splits prod.splits)
  qed
qed

section \<open>The board a client keeps\<close>

text \<open>
  What the table promises of each message: its fields and whether it is shown. An item sparsely
  updates the message of its \<open>Id\<close> and shows it; a message that is hidden keeps its fields, so
  that it comes back with those the next item does not set. A complete snapshot hides all
  messages and applies its items, an incomplete one must not hide any; a deletion hides one
  message, a reset all.
\<close>

record screen_fields =
  sf_text :: "string option"
  sf_line :: "int option"
  sf_modality :: "int option"
  sf_background_color :: "string option"
  sf_font_color :: "string option"

type_synonym board = "string \<rightharpoonup> screen_fields"
type_synonym kept_board = "string \<rightharpoonup> screen_fields \<times> bool"

definition blank_fields :: screen_fields where
  "blank_fields = \<lparr> sf_text = None, sf_line = None, sf_modality = None, sf_background_color = None, sf_font_color = None \<rparr>"

definition patch_fields :: "screen_patch \<Rightarrow> screen_fields \<Rightarrow> screen_fields" where
  "patch_fields p f = \<lparr>
     sf_text = keep_or p ''text'' (sp_text p) (sf_text f),
     sf_line = keep_or p ''line'' (sp_line p) (sf_line f),
     sf_modality = keep_or p ''modality'' (sp_modality p) (sf_modality f),
     sf_background_color = keep_or p ''background_color'' (sp_background_color p) (sf_background_color f),
     sf_font_color = keep_or p ''font_color'' (sp_font_color p) (sf_font_color f) \<rparr>"

definition kept_put :: "screen_patch \<Rightarrow> kept_board \<Rightarrow> kept_board" where
  "kept_put p k = k(sp_id p \<mapsto> (patch_fields p (case k (sp_id p) of None \<Rightarrow> blank_fields | Some (f, v) \<Rightarrow> f), True))"

definition kept_hide :: "(string \<Rightarrow> bool) \<Rightarrow> kept_board \<Rightarrow> kept_board" where
  "kept_hide P k = (\<lambda>i. map_option (\<lambda>(f, v). (f, v \<and> \<not> P i)) (k i))"

definition kept_step :: "screen_update \<Rightarrow> kept_board \<Rightarrow> kept_board" where
  "kept_step u k =
    (case su_operation u of
       SNAPSHOT \<Rightarrow> fold kept_put (su_patches u) (if su_snapshot_complete u then kept_hide (\<lambda>i. True) k else k)
     | UPSERT \<Rightarrow> fold kept_put (su_patches u) k
     | DELETE \<Rightarrow> (case su_message_id u of None \<Rightarrow> k | Some m \<Rightarrow> kept_hide (\<lambda>i. i = m) k)
     | RESET \<Rightarrow> kept_hide (\<lambda>i. True) k
     | _ \<Rightarrow> k)"

section \<open>The board the provider shows\<close>

text \<open>
  The provider's own client, as \<open>screen_messages.py\<close> observed it: every \<open>m_i\<close> clears the
  collection and applies its items, also one that the parser found incomplete; \<open>m_a\<close> clears it,
  \<open>m_d\<close> removes a message with its fields. Items that do not parse are not applied.
\<close>

definition board_put :: "screen_patch \<Rightarrow> board \<Rightarrow> board" where
  "board_put p b = b(sp_id p \<mapsto> patch_fields p (case b (sp_id p) of None \<Rightarrow> blank_fields | Some f \<Rightarrow> f))"

definition board_step :: "screen_update \<Rightarrow> board \<Rightarrow> board" where
  "board_step u b =
    (case su_operation u of
       SNAPSHOT \<Rightarrow> fold board_put (su_patches u) Map.empty
     | UPSERT \<Rightarrow> fold board_put (su_patches u) b
     | DELETE \<Rightarrow> (case su_message_id u of None \<Rightarrow> b | Some i \<Rightarrow> b(i := None))
     | RESET \<Rightarrow> Map.empty
     | _ \<Rightarrow> b)"

text \<open>Every field the provider's message has is the kept one.\<close>

definition covers :: "screen_fields \<Rightarrow> screen_fields \<Rightarrow> bool" where
  "covers g f \<longleftrightarrow>
     (sf_text f \<noteq> None \<longrightarrow> sf_text g = sf_text f) \<and> (sf_line f \<noteq> None \<longrightarrow> sf_line g = sf_line f) \<and>
     (sf_modality f \<noteq> None \<longrightarrow> sf_modality g = sf_modality f) \<and>
     (sf_background_color f \<noteq> None \<longrightarrow> sf_background_color g = sf_background_color f) \<and>
     (sf_font_color f \<noteq> None \<longrightarrow> sf_font_color g = sf_font_color f)"

text \<open>What the provider shows is kept and shown.\<close>

definition shows_all :: "kept_board \<Rightarrow> board \<Rightarrow> bool" where
  "shows_all k b \<longleftrightarrow> (\<forall>i f. b i = Some f \<longrightarrow> (\<exists>g. k i = Some (g, True) \<and> covers g f))"

text \<open>What is shown, the provider shows.\<close>

definition shows_only :: "kept_board \<Rightarrow> board \<Rightarrow> bool" where
  "shows_only k b \<longleftrightarrow> (\<forall>i g. k i = Some (g, True) \<longrightarrow> b i \<noteq> None)"

lemma covers_patch: "covers g f \<Longrightarrow> covers (patch_fields p g) (patch_fields p f)"
  "covers (patch_fields p g) (patch_fields p blank_fields)"
  by (simp_all add: covers_def patch_fields_def keep_or_def blank_fields_def)

lemma shows_all_empty: "shows_all k Map.empty"
  by (simp add: shows_all_def)

lemma shows_only_hidden: "shows_only (kept_hide (\<lambda>i. True) k) b"
  by (auto simp: shows_only_def kept_hide_def)

lemma put_shows_all: "shows_all k b \<Longrightarrow> shows_all (kept_put p k) (board_put p b)"
  unfolding shows_all_def
proof (intro allI impI)
  fix i f assume a: "\<forall>i f. b i = Some f \<longrightarrow> (\<exists>g. k i = Some (g, True) \<and> covers g f)" and f: "board_put p b i = Some f"
  show "\<exists>g. kept_put p k i = Some (g, True) \<and> covers g f"
  proof (cases "i = sp_id p")
    case True
    then show ?thesis using a f
      by (cases "b (sp_id p)") (auto simp: board_put_def kept_put_def covers_patch split: option.splits dest!: spec [of _ "sp_id p"])
  next
    case False
    then show ?thesis using a f by (simp add: board_put_def kept_put_def)
  qed
qed

lemma put_shows_only: "shows_only k b \<Longrightarrow> shows_only (kept_put p k) (board_put p b)"
  by (auto simp: shows_only_def kept_put_def board_put_def)

lemma fold_shows_all: "shows_all k b \<Longrightarrow> shows_all (fold kept_put ps k) (fold board_put ps b)"
  by (induction ps arbitrary: k b) (simp_all add: put_shows_all)

lemma fold_shows_only: "shows_only k b \<Longrightarrow> shows_only (fold kept_put ps k) (fold board_put ps b)"
  by (induction ps arbitrary: k b) (simp_all add: put_shows_only)

lemma hide_shows_all: "shows_all k b \<Longrightarrow> shows_all (kept_hide (\<lambda>i. i = m) k) (b(m := None))"
  by (fastforce simp: shows_all_def kept_hide_def)

lemma step_shows_all: "shows_all k b \<Longrightarrow> shows_all (kept_step u k) (board_step u b)"
proof (cases "su_operation u")
  case DELETE
  assume "shows_all k b"
  then show ?thesis using DELETE
    by (cases "su_message_id u") (simp_all add: kept_step_def board_step_def hide_shows_all)
qed (simp_all add: kept_step_def board_step_def fold_shows_all shows_all_empty)

lemma step_shows_only:
  assumes "shows_only k b" "su_operation u = SNAPSHOT \<longrightarrow> su_snapshot_complete u"
  shows "shows_only (kept_step u k) (board_step u b)"
proof (cases "su_operation u")
  case DELETE
  then show ?thesis using assms(1)
    by (cases "su_message_id u") (auto simp: kept_step_def board_step_def shows_only_def kept_hide_def)
qed (use assms in \<open>simp_all add: kept_step_def board_step_def fold_shows_only shows_only_hidden\<close>)

section \<open>The stored board\<close>

text \<open>\<open>SELECT ... WHERE source_heat_id = ? AND message_id_raw = ?\<close>\<close>

definition rc_row :: "int \<Rightarrow> rc_db \<Rightarrow> string \<Rightarrow> rc_message option" where
  "rc_row h d i = find (rc_key h i) (rd_current d)"

lemma rc_keys_kept [simp]:
  "rc_key h i (merge_message p e r) = rc_key h i r" "rc_key h i (remove_message e r) = rc_key h i r"
  "rc_key h i (new_message p h' e) \<longleftrightarrow> h' = h \<and> sp_id p = i"
  by (simp_all add: rc_key_def merge_message_def remove_message_def new_message_def)

lemma find_map_key:
  assumes "\<And>r. rc_key h i (f r) = rc_key h i r"
  shows "find (rc_key h i) (map f rs) = map_option f (find (rc_key h i) rs)"
  by (induction rs) (auto simp: assms)

lemma find_snoc: "find P (xs @ [x]) = (case find P xs of Some y \<Rightarrow> Some y | None \<Rightarrow> if P x then Some x else None)"
  by (induction xs) auto

lemma list_ex_find: "list_ex P xs \<longleftrightarrow> find P xs \<noteq> None"
  by (induction xs) auto

lemma upsert_row:
  "rc_row h (fst (upsert_current source action p oid d)) i =
    (let event = \<lparr> re_action = action, re_source = source, re_change_ordinal = sp_source_ordinal p, re_observation = Some oid \<rparr>
     in if h = rs_heat source \<and> i = sp_id p
        then Some (case rc_row h d i of None \<Rightarrow> new_message p h event | Some r \<Rightarrow> merge_message p event r)
        else rc_row h d i)"
proof -
  have other: "rc_key h' i' r \<Longrightarrow> rc_key h i r \<Longrightarrow> h = h' \<and> i = i'" for h' i' r by (simp add: rc_key_def)
  have keep: "find (rc_key h i) (map (\<lambda>r. if rc_key h' i' r then f r else r) rs) = find (rc_key h i) rs"
    if "\<not> (h = h' \<and> i = i')" "\<And>r. rc_key h i (f r) = rc_key h i r" for h' i' f rs
    using that other by (induction rs) auto
  have same: "find (rc_key h' i') (map (\<lambda>r. if rc_key h' i' r then f r else r) rs) = map_option f (find (rc_key h' i') rs)"
    if "\<And>r. rc_key h' i' (f r) = rc_key h' i' r" for h' i' f rs
    using that by (induction rs) auto
  show ?thesis
    by (cases "h = rs_heat source \<and> i = sp_id p")
       (auto simp: rc_row_def upsert_current_def Let_def list_ex_find find_snoc same keep split: option.splits)
qed

lemma upsert_observations [simp]: "rd_observations (fst (upsert_current s a p oid d)) = rd_observations d"
  by (simp add: upsert_current_def Let_def)

lemma upsert_count [simp]: "snd (upsert_current s a p oid d) = 1"
  by (simp add: upsert_current_def Let_def)

lemma deactivate_row:
  "rc_row h (fst (deactivate h' P e d)) i =
    map_option (\<lambda>r. if h = h' \<and> rm_is_active r \<and> P i then remove_message e r else r) (rc_row h d i)"
proof -
  let ?f = "\<lambda>r. if rm_heat r = h' \<and> rm_is_active r \<and> P (rm_id r) then remove_message e r else r"
  have "rc_row h (fst (deactivate h' P e d)) i = map_option ?f (rc_row h d i)"
    using find_map_key [of h i ?f] by (simp add: rc_row_def deactivate_def Let_def)
  moreover have "rm_heat r = h \<and> rm_id r = i" if "rc_row h d i = Some r" for r
    using that by (auto simp: rc_row_def find_Some_iff rc_key_def)
  ultimately show ?thesis by (cases "rc_row h d i") auto
qed

lemma deactivate_observations [simp]: "rd_observations (fst (deactivate h P e d)) = rd_observations d"
  by (simp add: deactivate_def Let_def)

section \<open>The table as a board\<close>

definition row_fields :: "rc_message \<Rightarrow> screen_fields" where
  "row_fields r = \<lparr> sf_text = rm_text r, sf_line = rm_line r, sf_modality = rm_modality r,
     sf_background_color = rm_background_color r, sf_font_color = rm_font_color r \<rparr>"

definition stored_board :: "int \<Rightarrow> rc_db \<Rightarrow> kept_board" where
  "stored_board h d = (\<lambda>i. map_option (\<lambda>r. (row_fields r, rm_is_active r)) (rc_row h d i))"

lemma row_written [simp]:
  "row_fields (merge_message p e r) = patch_fields p (row_fields r)"
  "row_fields (new_message p h e) = patch_fields p blank_fields"
  "row_fields (remove_message e r) = row_fields r"
  "rm_is_active (merge_message p e r)" "rm_is_active (new_message p h e)" "\<not> rm_is_active (remove_message e r)"
  by (simp_all add: row_fields_def patch_fields_def blank_fields_def merge_message_def new_message_def
      remove_message_def keep_or_def rc_changed_def)

lemma stored_upsert: "stored_board (rs_heat s) (fst (upsert_current s a p oid d)) = kept_put p (stored_board (rs_heat s) d)"
  by (rule ext) (auto simp: stored_board_def kept_put_def upsert_row Let_def split: option.splits)

lemma stored_deactivate: "stored_board h (fst (deactivate h P e d)) = kept_hide P (stored_board h d)"
proof
  show "stored_board h (fst (deactivate h P e d)) i = kept_hide P (stored_board h d) i" for i
    by (cases "rc_row h d i") (auto simp: stored_board_def kept_hide_def deactivate_row)
qed

lemma stored_observations [simp]: "stored_board h (d\<lparr> rd_observations := os \<rparr>) = stored_board h d"
  by (simp add: stored_board_def rc_row_def)

text \<open>Hiding what a snapshot did not name after applying it is hiding all before.\<close>

lemma put_hide: "kept_put p (kept_hide P k) = kept_hide (\<lambda>i. P i \<and> i \<noteq> sp_id p) (kept_put p k)"
  by (rule ext) (auto simp: kept_put_def kept_hide_def split: option.splits)

lemma fold_put_hide:
  "fold kept_put ps (kept_hide P k) = kept_hide (\<lambda>i. P i \<and> i \<notin> set (map sp_id ps)) (fold kept_put ps k)"
  by (induction ps arbitrary: k P) (simp_all add: put_hide conj_assoc)

section \<open>The ledger\<close>

abbreviation has_change :: "rc_db \<Rightarrow> rc_source \<Rightarrow> nat \<Rightarrow> bool" where
  "has_change d s n \<equiv> list_ex (same_change s n) (rd_observations d)"

text \<open>What an invocation writes: the ordinals of its items, or a single marker.\<close>

definition change_ordinals :: "screen_update \<Rightarrow> nat list" where
  "change_ordinals u = (if su_patches u = [] then [0] else map sp_source_ordinal (su_patches u))"

definition same_origin :: "rc_source \<Rightarrow> rc_source \<Rightarrow> bool" where
  "same_origin s t \<longleftrightarrow> rs_heat s = rs_heat t \<and> rs_key s = rs_key t"

definition extends_ledger :: "rc_source \<Rightarrow> nat list \<Rightarrow> rc_db \<Rightarrow> rc_db \<Rightarrow> bool" where
  "extends_ledger s ns d d' \<longleftrightarrow> (\<forall>t n. has_change d' t n \<longleftrightarrow> has_change d t n \<or> same_origin s t \<and> n \<in> set ns)"

lemma observation_row_fields [simp]:
  "ro_source (observation_row i s h a n j p m) = s" "ro_change_ordinal (observation_row i s h a n j p m) = n"
  "ro_handle (observation_row i s h a n j p m) = h" "ro_operation (observation_row i s h a n j p m) = a"
  "ro_message_id (observation_row i s h a n j p m) = (case p of Some q \<Rightarrow> Some (sp_id q) | None \<Rightarrow> m)"
  by (simp_all add: observation_row_def)

lemma insert_recorded:
  assumes "has_change d s n"
  shows "\<exists>i. insert_observation s h a n j p m d = Inr (d, i, 0)"
proof -
  obtain r where "find (same_change s n) (rd_observations d) = Some r"
    using assms by (auto simp: list_ex_find)
  then show ?thesis using assms by (simp add: insert_observation_def Let_def)
qed

text \<open>The pairs of action and handle the projection writes.\<close>

definition legal_write :: "rc_action \<Rightarrow> string \<Rightarrow> screen_patch option \<Rightarrow> string option \<Rightarrow> bool" where
  "legal_write a h p m \<longleftrightarrow> (a = INITIAL_SNAPSHOT \<and> h = ''m_i'') \<or> (a = A_UPSERT \<and> h = ''m_c'' \<and> p \<noteq> None) \<or>
     (a = A_DELETE \<and> h = ''m_d'' \<and> m \<noteq> None) \<or> (a = CLEAR \<and> h = ''m_a'') \<or> a = A_UNKNOWN"

lemma insert_new:
  assumes "\<not> has_change d s n" "legal_write a h p m"
  shows "\<exists>i row. insert_observation s h a n j p m d = Inr (d\<lparr> rd_observations := rd_observations d @ [row] \<rparr>, i, 1) \<and>
    same_change s n row \<and> extends_ledger s [n] d (d\<lparr> rd_observations := rd_observations d @ [row] \<rparr>)"
proof -
  define row where "row = observation_row (rc_next_id (rd_observations d)) s h a n j p m"
  have c: "observation_check row" using assms(2)
    by (auto simp: row_def observation_check_def legal_write_def split: option.splits)
  have sc: "same_change t k row \<longleftrightarrow> same_origin s t \<and> k = n" for t k
    by (auto simp: row_def same_change_def same_origin_def)
  have f: "find (same_change s n) (rd_observations d @ [row]) = Some row"
    using assms(1) sc by (auto simp: list_ex_find find_snoc same_origin_def)
  have e: "insert_observation s h a n j p m d = Inr (d\<lparr> rd_observations := rd_observations d @ [row] \<rparr>, ro_id row, 1)"
    unfolding insert_observation_def Let_def row_def [symmetric] using assms(1) c f by simp
  show ?thesis
    by (rule exI, rule exI [of _ row]) (use e sc in \<open>auto simp: extends_ledger_def same_origin_def\<close>)
qed

lemma extends_trans:
  "extends_ledger s ns d d1 \<Longrightarrow> extends_ledger s ms d1 d2 \<Longrightarrow> extends_ledger s (ns @ ms) d d2"
  by (auto simp: extends_ledger_def)

lemma extends_same_ledger: "rd_observations d2 = rd_observations d1 \<Longrightarrow> extends_ledger s ns d d1 = extends_ledger s ns d d2"
  by (simp add: extends_ledger_def)

lemma patches_recorded:
  "\<forall>p \<in> set ps. has_change d s (sp_source_ordinal p) \<Longrightarrow> apply_patches s h j ps d = Inr (d, 0, 0)"
proof (induction ps)
  case (Cons p ps)
  then obtain i where "insert_observation s h INITIAL_SNAPSHOT (sp_source_ordinal p) j (Some p) None d = Inr (d, i, 0)"
    using insert_recorded by (metis list.set_intros(1))
  then show ?case using Cons by simp
qed simp

lemma patches_new:
  "distinct (map sp_source_ordinal ps) \<Longrightarrow> \<forall>p \<in> set ps. \<not> has_change d s (sp_source_ordinal p) \<Longrightarrow>
    \<exists>d' a. apply_patches s ''m_i'' j ps d = Inr (d', length ps, a) \<and>
      stored_board (rs_heat s) d' = fold kept_put ps (stored_board (rs_heat s) d) \<and>
      extends_ledger s (map sp_source_ordinal ps) d d'"
proof (induction ps arbitrary: d)
  case Nil
  then show ?case by (simp add: extends_ledger_def)
next
  case (Cons p ps)
  have "\<not> has_change d s (sp_source_ordinal p)" "legal_write INITIAL_SNAPSHOT ''m_i'' (Some p) None"
    using Cons.prems by (simp_all add: legal_write_def)
  from insert_new [OF this, of j] obtain i row where
    e: "insert_observation s ''m_i'' INITIAL_SNAPSHOT (sp_source_ordinal p) j (Some p) None d =
        Inr (d\<lparr> rd_observations := rd_observations d @ [row] \<rparr>, i, 1)"
      and x: "extends_ledger s [sp_source_ordinal p] d (d\<lparr> rd_observations := rd_observations d @ [row] \<rparr>)" by blast
  define d1 where "d1 = d\<lparr> rd_observations := rd_observations d @ [row] \<rparr>"
  define d2 where "d2 = fst (upsert_current s INITIAL_SNAPSHOT p i d1)"
  have x2: "extends_ledger s [sp_source_ordinal p] d d2"
    using x extends_same_ledger [of d2 d1] by (simp add: d1_def d2_def)
  have "sp_source_ordinal q \<noteq> sp_source_ordinal p" if "q \<in> set ps" for q
    using Cons.prems(1) that by (auto simp: image_iff)
  then have fresh: "\<forall>q \<in> set ps. \<not> has_change d2 s (sp_source_ordinal q)"
    using Cons.prems(2) x2 by (simp add: extends_ledger_def)
  have dist: "distinct (map sp_source_ordinal ps)" using Cons.prems(1) by simp
  have put: "stored_board (rs_heat s) d2 = kept_put p (stored_board (rs_heat s) d)"
    by (simp add: d2_def stored_upsert d1_def)
  from Cons.IH [OF dist fresh] obtain d' a where d': "apply_patches s ''m_i'' j ps d2 = Inr (d', length ps, a)"
    "stored_board (rs_heat s) d' = fold kept_put ps (stored_board (rs_heat s) d2)" "extends_ledger s (map sp_source_ordinal ps) d2 d'"
    by blast
  have "upsert_current s INITIAL_SNAPSHOT p i d1 = (d2, 1)" by (simp add: d2_def prod_eq_iff)
  then have "apply_patches s ''m_i'' j (p # ps) d = Inr (d', length (p # ps), 1 + a)"
    using e d'(1) by (simp add: d1_def)
  then show ?case using d'(2) put extends_trans [OF x2 d'(3)] by simp
qed

section \<open>The projection is a step of the board\<close>

lemma project_unfold:
  assumes "validate_source s = None" "u = parse_screen_message_update h args" "j = canonical_json (screen_payload args)"
  shows "project_screen_message s h args d =
    (case su_operation u of
       SNAPSHOT \<Rightarrow> project_snapshot s h j u d
     | UPSERT \<Rightarrow> project_one s h A_UPSERT j (Some (hd (su_patches u))) None (upsert_current s A_UPSERT (hd (su_patches u))) d
     | DELETE \<Rightarrow> project_one s h A_DELETE j None (su_message_id u)
         (\<lambda>i. mark_removed s (Some (case su_message_id u of None \<Rightarrow> [] | Some m \<Rightarrow> [m])) A_DELETE (Some i) 0) d
     | RESET \<Rightarrow> project_one s h CLEAR j None None (\<lambda>i. mark_removed s None CLEAR (Some i) 0) d
     | _ \<Rightarrow> project_one s h A_UNKNOWN j None None (\<lambda>i d. (d, 0)) d)"
  unfolding project_screen_message_def assms Let_def by simp

lemma update_patches:
  assumes "u = parse_screen_message_update h args" "su_operation u \<noteq> SNAPSHOT"
  shows "change_ordinals u = [0]"
proof (cases "su_operation u = UPSERT")
  case True
  then show ?thesis using update_shape [OF assms(1) [symmetric]] by (auto simp: change_ordinals_def)
next
  case False
  then have "su_patches u = []"
    using assms(2) unfolding assms(1) parse_screen_message_update_def parse_screen_message_payload_def
    by (auto simp: parse_snapshot_def plain_update_def Let_def split: if_splits json.splits option.splits prod.splits)
  then show ?thesis by (simp add: change_ordinals_def)
qed

lemma project_recorded:
  assumes v: "validate_source s = None" and u: "u = parse_screen_message_update h args"
    and rec: "\<forall>n \<in> set (change_ordinals u). has_change d s n"
  shows "\<exists>a. project_screen_message s h args d = Inr (d, \<lparr> rr_action = a, rr_observations_written = 0, rr_current_affected = 0 \<rparr>)"
proof -
  define j where "j = canonical_json (screen_payload args)"
  note eq = project_unfold [OF v u j_def, of d]
  show ?thesis
  proof (cases "su_operation u = SNAPSHOT")
    case snap: True
    show ?thesis
    proof (cases "su_patches u = []")
      case True
      then have "has_change d s 0" using rec by (simp add: change_ordinals_def)
      from insert_recorded [OF this] obtain i where
        "insert_observation s h (if su_snapshot_complete u then INITIAL_SNAPSHOT else A_UNKNOWN) 0 j None None d = Inr (d, i, 0)"
        by blast
      then show ?thesis using True snap by (simp add: eq project_snapshot_def Let_def)
    next
      case False
      then have "apply_patches s h j (su_patches u) d = Inr (d, 0, 0)"
        using rec by (intro patches_recorded) (simp add: change_ordinals_def)
      then show ?thesis using False snap by (simp add: eq project_snapshot_def Let_def)
    qed
  next
    case False
    then have rec0: "has_change d s 0" using rec update_patches [OF u] by simp
    have one: "project_one s h a j p m effect d = Inr (d, \<lparr> rr_action = a, rr_observations_written = 0, rr_current_affected = 0 \<rparr>)"
      for a p m effect
      using insert_recorded [OF rec0, of h a j p m] by (auto simp: project_one_def Let_def)
    show ?thesis using False by (cases "su_operation u") (simp_all add: eq one)
  qed
qed

lemma project_one_new:
  assumes "\<not> has_change d s 0" "legal_write a h p m"
    and eff: "\<And>i d. rd_observations (fst (effect i d)) = rd_observations d"
    and ref: "\<And>i d. stored_board (rs_heat s) (fst (effect i d)) = g (stored_board (rs_heat s) d)"
  shows "\<exists>d' r. project_one s h a j p m effect d = Inr (d', r) \<and>
    stored_board (rs_heat s) d' = g (stored_board (rs_heat s) d) \<and> extends_ledger s [0] d d'"
proof -
  obtain i row where e: "insert_observation s h a 0 j p m d = Inr (d\<lparr> rd_observations := rd_observations d @ [row] \<rparr>, i, 1)"
    and x: "extends_ledger s [0] d (d\<lparr> rd_observations := rd_observations d @ [row] \<rparr>)"
    using insert_new [OF assms(1,2), of j] by blast
  let ?d = "d\<lparr> rd_observations := rd_observations d @ [row] \<rparr>"
  have "stored_board (rs_heat s) (fst (effect i ?d)) = g (stored_board (rs_heat s) d)" using ref [of i ?d] by simp
  moreover have "extends_ledger s [0] d (fst (effect i ?d))" using x extends_same_ledger [OF eff [of i ?d]] by blast
  ultimately show ?thesis using e by (simp add: project_one_def Let_def case_prod_beta)
qed

lemma deactivate_removed:
  "fst (mark_removed s None a i n d) = fst (deactivate (rs_heat s) (\<lambda>_. True)
     \<lparr> re_action = a, re_source = s, re_change_ordinal = n, re_observation = i \<rparr> d)"
  "fst (mark_removed s (Some [m]) a i n d) = fst (deactivate (rs_heat s) (\<lambda>x. x = m)
     \<lparr> re_action = a, re_source = s, re_change_ordinal = n, re_observation = i \<rparr> d)"
  by (simp_all add: mark_removed_def Let_def)

lemma reconcile_deactivate:
  "fst (reconcile_snapshot_absences s ids d) = fst (deactivate (rs_heat s) (\<lambda>i. i \<notin> set ids)
     \<lparr> re_action = SNAPSHOT_RECONCILIATION, re_source = s, re_change_ordinal = 0, re_observation = None \<rparr> d)"
  by (simp add: reconcile_snapshot_absences_def mark_removed_def Let_def)

lemma project_snapshot_new:
  assumes dist: "distinct (map sp_source_ordinal (su_patches u))"
    and new: "\<forall>n \<in> set (change_ordinals u). \<not> has_change d s n"
    and op: "su_operation u = SNAPSHOT"
  shows "\<exists>d' r. project_snapshot s ''m_i'' j u d = Inr (d', r) \<and>
    stored_board (rs_heat s) d' = kept_step u (stored_board (rs_heat s) d) \<and> extends_ledger s (change_ordinals u) d d'"
proof (cases "su_patches u = []")
  case True
  define a where "a = (if su_snapshot_complete u then INITIAL_SNAPSHOT else A_UNKNOWN)"
  have "\<not> has_change d s 0" "legal_write a ''m_i'' None None"
    using new True by (simp_all add: change_ordinals_def legal_write_def a_def)
  from insert_new [OF this, of j] obtain i row where
    e: "insert_observation s ''m_i'' a 0 j None None d = Inr (d\<lparr> rd_observations := rd_observations d @ [row] \<rparr>, i, 1)"
    and x: "extends_ledger s [0] d (d\<lparr> rd_observations := rd_observations d @ [row] \<rparr>)" by blast
  let ?d = "d\<lparr> rd_observations := rd_observations d @ [row] \<rparr>"
  let ?d' = "if su_snapshot_complete u then fst (reconcile_snapshot_absences s [] ?d) else ?d"
  have p: "\<exists>r. project_snapshot s ''m_i'' j u d = Inr (?d', r)"
    using True e by (cases "reconcile_snapshot_absences s [] ?d") (simp add: project_snapshot_def Let_def a_def [symmetric])
  have "stored_board (rs_heat s) ?d' = kept_step u (stored_board (rs_heat s) d)"
    using op True by (simp add: kept_step_def reconcile_deactivate stored_deactivate)
  moreover have "extends_ledger s [0] d ?d'"
    using x extends_same_ledger [of "fst (reconcile_snapshot_absences s [] ?d)" ?d]
    by (simp add: reconcile_deactivate)
  ultimately show ?thesis using p True by (auto simp: change_ordinals_def)
next
  case False
  have n: "\<forall>p \<in> set (su_patches u). \<not> has_change d s (sp_source_ordinal p)" "change_ordinals u = map sp_source_ordinal (su_patches u)"
    using new False by (simp_all add: change_ordinals_def)
  from patches_new [OF dist n(1), of j] obtain d1 a where
    d1: "apply_patches s ''m_i'' j (su_patches u) d = Inr (d1, length (su_patches u), a)"
      "stored_board (rs_heat s) d1 = fold kept_put (su_patches u) (stored_board (rs_heat s) d)"
      "extends_ledger s (map sp_source_ordinal (su_patches u)) d d1" by blast
  let ?d' = "if su_snapshot_complete u then fst (reconcile_snapshot_absences s (map sp_id (su_patches u)) d1) else d1"
  have "stored_board (rs_heat s) ?d' = kept_step u (stored_board (rs_heat s) d)"
    using op d1(2) by (simp add: kept_step_def reconcile_deactivate stored_deactivate fold_put_hide)
  moreover have "extends_ledger s (map sp_source_ordinal (su_patches u)) d ?d'"
    using d1(3) extends_same_ledger [of ?d' d1] by (simp add: reconcile_deactivate)
  moreover have "\<exists>r. project_snapshot s ''m_i'' j u d = Inr (?d', r)"
    using False d1(1) by (cases "reconcile_snapshot_absences s (map sp_id (su_patches u)) d1")
      (simp add: project_snapshot_def Let_def)
  ultimately show ?thesis using n(2) by auto
qed

lemma project_new:
  assumes v: "validate_source s = None" and u: "u = parse_screen_message_update h args"
    and new: "\<forall>n \<in> set (change_ordinals u). \<not> has_change d s n"
  shows "\<exists>d' r. project_screen_message s h args d = Inr (d', r) \<and>
    stored_board (rs_heat s) d' = kept_step u (stored_board (rs_heat s) d) \<and> extends_ledger s (change_ordinals u) d d'"
proof -
  define j where "j = canonical_json (screen_payload args)"
  note shape = update_shape [OF u [symmetric]]
  note eq = project_unfold [OF v u j_def, of d]
  have single: "\<not> has_change d s 0 \<and> change_ordinals u = [0]" if "su_operation u \<noteq> SNAPSHOT"
    using update_patches [OF u that] new by simp
  show ?thesis
  proof (cases "su_operation u")
    case SNAPSHOT
    then have "project_screen_message s h args d = project_snapshot s ''m_i'' j u d" using shape unfolding eq by simp
    then show ?thesis using project_snapshot_new [OF conjunct1 [OF shape] new SNAPSHOT, of j] by simp
  next
    case UPSERT
    then obtain p where p: "su_patches u = [p]" "h = ''m_c''" using shape by blast
    have o: "\<not> has_change d s 0" "change_ordinals u = [0]" using single UPSERT by simp_all
    have e: "project_screen_message s h args d = project_one s ''m_c'' A_UPSERT j (Some p) None (upsert_current s A_UPSERT p) d"
      using UPSERT p unfolding eq by simp
    have st: "kept_step u = kept_put p" using UPSERT p by (simp add: kept_step_def fun_eq_iff)
    show ?thesis unfolding e st o(2)
      by (rule project_one_new [OF o(1)]) (simp_all add: legal_write_def stored_upsert)
  next
    case DELETE
    then obtain m where m: "su_message_id u = Some m" "h = ''m_d''" using shape by blast
    have o: "\<not> has_change d s 0" "change_ordinals u = [0]" using single DELETE by simp_all
    have e: "project_screen_message s h args d =
        project_one s ''m_d'' A_DELETE j None (Some m) (\<lambda>i. mark_removed s (Some [m]) A_DELETE (Some i) 0) d"
      using DELETE m unfolding eq by simp
    have st: "kept_step u = kept_hide (\<lambda>i. i = m)" using DELETE m by (simp add: kept_step_def fun_eq_iff)
    show ?thesis unfolding e st o(2)
      by (rule project_one_new [OF o(1)]) (simp_all add: legal_write_def deactivate_removed stored_deactivate)
  next
    case RESET
    have o: "\<not> has_change d s 0" "change_ordinals u = [0]" using single RESET by simp_all
    have e: "project_screen_message s h args d =
        project_one s ''m_a'' CLEAR j None None (\<lambda>i. mark_removed s None CLEAR (Some i) 0) d"
      using RESET shape unfolding eq by simp
    have st: "kept_step u = kept_hide (\<lambda>i. True)" using RESET by (simp add: kept_step_def fun_eq_iff)
    show ?thesis unfolding e st o(2)
      by (rule project_one_new [OF o(1)]) (simp_all add: legal_write_def deactivate_removed stored_deactivate)
  next
    case UNKNOWN
    have o: "\<not> has_change d s 0" "change_ordinals u = [0]" using single UNKNOWN by simp_all
    have e: "project_screen_message s h args d = project_one s h A_UNKNOWN j None None (\<lambda>i d. (d, 0)) d"
      using UNKNOWN by (simp add: eq)
    have st: "kept_step u = (\<lambda>k. k)" using UNKNOWN by (simp add: kept_step_def fun_eq_iff)
    show ?thesis unfolding e st o(2)
      by (rule project_one_new [OF o(1)]) (simp_all add: legal_write_def)
  next
    case INVALID
    have o: "\<not> has_change d s 0" "change_ordinals u = [0]" using single INVALID by simp_all
    have e: "project_screen_message s h args d = project_one s h A_UNKNOWN j None None (\<lambda>i d. (d, 0)) d"
      using INVALID by (simp add: eq)
    have st: "kept_step u = (\<lambda>k. k)" using INVALID by (simp add: kept_step_def fun_eq_iff)
    show ?thesis unfolding e st o(2)
      by (rule project_one_new [OF o(1)]) (simp_all add: legal_write_def)
  qed
qed

section \<open>Deliveries\<close>

text \<open>One invocation with its source; an error rolls the frame's transaction back.\<close>

type_synonym delivery = "rc_source \<times> string \<times> json list"

definition rc_step :: "rc_db \<Rightarrow> delivery \<Rightarrow> rc_db" where
  "rc_step d x = (case x of (s, h, args) \<Rightarrow>
     (case project_screen_message s h args d of Inl e \<Rightarrow> d | Inr (d', r) \<Rightarrow> d'))"

definition empty_rc_db :: rc_db where
  "empty_rc_db = \<lparr> rd_observations = [], rd_current = [] \<rparr>"

text \<open>The deliveries that count: each source key is taken once.\<close>

definition take_delivery :: "(screen_update \<Rightarrow> 'b \<Rightarrow> 'b) \<Rightarrow> string set \<times> 'b \<Rightarrow> delivery \<Rightarrow> string set \<times> 'b" where
  "take_delivery step sb x = (case (sb, x) of ((seen, b), (s, h, args)) \<Rightarrow>
     if validate_source s \<noteq> None \<or> rs_key s \<in> seen then (seen, b)
     else (insert (rs_key s) seen, step (parse_screen_message_update h args) b))"

lemma take_delivery_apply:
  "take_delivery step (seen, b) (s, h, args) =
    (if validate_source s \<noteq> None \<or> rs_key s \<in> seen then (seen, b)
     else (insert (rs_key s) seen, step (parse_screen_message_update h args) b))"
  by (simp add: take_delivery_def)

definition kept_after :: "delivery list \<Rightarrow> kept_board" where
  "kept_after feed = snd (foldl (take_delivery kept_step) ({}, Map.empty) feed)"

definition provider_after :: "delivery list \<Rightarrow> board" where
  "provider_after feed = snd (foldl (take_delivery board_step) ({}, Map.empty) feed)"

text \<open>Every snapshot among the deliveries parsed completely.\<close>

definition complete_snapshots :: "delivery list \<Rightarrow> bool" where
  "complete_snapshots feed \<longleftrightarrow> (\<forall>(s, h, args) \<in> set feed.
     let u = parse_screen_message_update h args in su_operation u = SNAPSHOT \<longrightarrow> su_snapshot_complete u)"

text \<open>Deliveries of one heat in which a source key always names the same invocation.\<close>

definition consistent_log :: "int \<Rightarrow> delivery list \<Rightarrow> bool" where
  "consistent_log heat feed \<longleftrightarrow>
     (\<forall>(s, h, args) \<in> set feed. rs_heat s = heat \<and>
       (\<forall>(s', h', args') \<in> set feed. rs_key s' = rs_key s \<longrightarrow> h' = h \<and> args' = args))"

definition logged :: "delivery list \<Rightarrow> string \<Rightarrow> nat \<Rightarrow> bool" where
  "logged feed key n \<longleftrightarrow> (\<exists>(s, h, args) \<in> set feed. validate_source s = None \<and> rs_key s = key \<and>
     n \<in> set (change_ordinals (parse_screen_message_update h args)))"

definition valid_keys :: "delivery list \<Rightarrow> string set" where
  "valid_keys feed = set (map (rs_key \<circ> fst) (filter (\<lambda>x. validate_source (fst x) = None) feed))"

lemma valid_keys_snoc:
  "valid_keys (feed @ [(s, y)]) = (if validate_source s = None then insert (rs_key s) (valid_keys feed) else valid_keys feed)"
  by (simp add: valid_keys_def)

lemma valid_keys_mem: "k \<in> valid_keys feed \<longleftrightarrow> (\<exists>s h args. (s, h, args) \<in> set feed \<and> validate_source s = None \<and> rs_key s = k)"
  by (force simp: valid_keys_def)

lemma change_ordinals_nonempty: "\<exists>n. n \<in> set (change_ordinals u)"
  by (cases "su_patches u") (auto simp: change_ordinals_def)

lemma deliver_run:
  "consistent_log heat feed \<Longrightarrow>
    (let (seen, b) = foldl (take_delivery kept_step) ({}, Map.empty) feed; d = foldl rc_step empty_rc_db feed
     in stored_board heat d = b \<and> (\<forall>s n. rs_heat s = heat \<longrightarrow> has_change d s n = logged feed (rs_key s) n) \<and>
        seen = valid_keys feed)"
proof (induction feed rule: rev_induct)
  case Nil
  then show ?case
    by (simp add: stored_board_def rc_row_def empty_rc_db_def logged_def valid_keys_def)
next
  case (snoc x feed)
  obtain s h args where x: "x = (s, h, args)" by (cases x) auto
  define u where "u = parse_screen_message_update h args"
  obtain seen b where sb: "foldl (take_delivery kept_step) ({}, Map.empty) feed = (seen, b)" by fastforce
  define d where "d = foldl rc_step empty_rc_db feed"
  have "consistent_log heat feed" using snoc.prems by (auto simp: consistent_log_def)
  then have IH: "stored_board heat d = b" "\<And>t n. rs_heat t = heat \<Longrightarrow> has_change d t n = logged feed (rs_key t) n"
    "seen = valid_keys feed"
    using snoc.IH sb by (simp_all add: d_def Let_def)
  have heat: "rs_heat s = heat" using snoc.prems x by (auto simp: consistent_log_def)
  have logx: "logged (feed @ [x]) k n \<longleftrightarrow> logged feed k n \<or> validate_source s = None \<and> k = rs_key s \<and> n \<in> set (change_ordinals u)" for k n
    by (auto simp: logged_def x u_def)
  have goal: ?case if "stored_board heat d' = b'" "\<And>t n. rs_heat t = heat \<Longrightarrow> has_change d' t n = logged (feed @ [x]) (rs_key t) n"
      "seen' = valid_keys (feed @ [x])"
      "take_delivery kept_step (seen, b) x = (seen', b')" "rc_step d x = d'" for seen' b' d'
    using that sb by (simp add: d_def [symmetric])
  show ?case
  proof (cases "validate_source s = None")
    case False
    then obtain e where "project_screen_message s h args d = Inl e" by (auto simp: project_screen_message_def)
    then have "rc_step d x = d" "take_delivery kept_step (seen, b) x = (seen, b)"
      using False by (simp_all add: take_delivery_def rc_step_def x)
    moreover have "valid_keys (feed @ [x]) = valid_keys feed" unfolding x valid_keys_snoc using False by (simp only: if_False)
    ultimately show ?thesis using IH logx False by (intro goal [of d b seen]) simp_all
  next
    case v: True
    show ?thesis
    proof (cases "rs_key s \<in> seen")
      case True
      then obtain s' h' args' where s': "(s', h', args') \<in> set feed" "validate_source s' = None" "rs_key s' = rs_key s"
        using IH(3) by (auto simp: valid_keys_mem)
      then have "h' = h \<and> args' = args" using snoc.prems x unfolding consistent_log_def by fastforce
      then have rec: "logged feed (rs_key s) n" if "n \<in> set (change_ordinals u)" for n
        using s' that unfolding logged_def u_def by blast
      then have "\<forall>n \<in> set (change_ordinals u). has_change d s n" using IH(2) [OF heat] by simp
      from project_recorded [OF v u_def this] have "rc_step d x = d" by (auto simp: rc_step_def x)
      moreover have "logged (feed @ [x]) k n = logged feed k n" for k n using logx rec by auto
      moreover have "take_delivery kept_step (seen, b) x = (seen, b)" using True by (simp add: take_delivery_def x)
      ultimately show ?thesis using IH v True
        by (intro goal [of d b seen]) (simp_all add: x valid_keys_snoc insert_absorb)
    next
      case False
      then have "\<not> logged feed (rs_key s) n" for n unfolding IH(3) valid_keys_mem logged_def by fast
      then have "\<forall>n \<in> set (change_ordinals u). \<not> has_change d s n" using IH(2) [OF heat] by simp
      from project_new [OF v u_def this] IH(1) heat obtain d' r where
        d': "project_screen_message s h args d = Inr (d', r)" "stored_board heat d' = kept_step u b"
          "extends_ledger s (change_ordinals u) d d'" by auto
      have "has_change d' t n = logged (feed @ [x]) (rs_key t) n" if "rs_heat t = heat" for t n
        using d'(3) IH(2) [OF that] logx v heat that by (auto simp: extends_ledger_def same_origin_def)
      moreover have "rc_step d x = d'" using d'(1) by (simp add: rc_step_def x)
      moreover have "take_delivery kept_step (seen, b) x = (insert (rs_key s) seen, kept_step u b)"
        using v False by (simp add: take_delivery_def x u_def)
      ultimately show ?thesis using d'(2) v IH(3)
        by (intro goal [of d' "kept_step u b" "insert (rs_key s) seen"]) (simp_all add: x valid_keys_snoc)
    qed
  qed
qed

text \<open>The provider's board and the kept one over the same deliveries.\<close>

lemma boards_run:
  "fst (foldl (take_delivery kept_step) ({}, Map.empty) feed) = fst (foldl (take_delivery board_step) ({}, Map.empty) feed) \<and>
   shows_all (kept_after feed) (provider_after feed) \<and>
   (complete_snapshots feed \<longrightarrow> shows_only (kept_after feed) (provider_after feed))"
proof (induction feed rule: rev_induct)
  case Nil
  then show ?case by (simp add: kept_after_def provider_after_def shows_all_def shows_only_def)
next
  case (snoc x feed)
  obtain s h args where x: "x = (s, h, args)" by (cases x) auto
  obtain seen k where k: "foldl (take_delivery kept_step) ({}, Map.empty) feed = (seen, k)" by fastforce
  obtain seen' b where b: "foldl (take_delivery board_step) ({}, Map.empty) feed = (seen', b)" by fastforce
  have s: "seen' = seen" "shows_all k b" "complete_snapshots feed \<longrightarrow> shows_only k b"
    using snoc.IH by (simp_all add: kept_after_def provider_after_def k b)
  have c: "complete_snapshots (feed @ [x]) \<longleftrightarrow> complete_snapshots feed \<and>
      (su_operation (parse_screen_message_update h args) = SNAPSHOT \<longrightarrow> su_snapshot_complete (parse_screen_message_update h args))"
    by (auto simp: complete_snapshots_def x Let_def)
  show ?case using s unfolding c
    by (auto simp: kept_after_def provider_after_def k b x take_delivery_apply step_shows_all step_shows_only)
qed

section \<open>Redelivery\<close>

lemma insert_grows:
  assumes "insert_observation s h a n j p m d = Inr (d', i, k)"
  shows "has_change d' s n \<and> (\<forall>t l. has_change d t l \<longrightarrow> has_change d' t l)"
proof -
  have "rd_observations d' = rd_observations d \<or> (\<exists>row. rd_observations d' = rd_observations d @ [row])"
    "find (same_change s n) (rd_observations d') \<noteq> None"
    using assms by (auto simp: insert_observation_def Let_def split: option.splits if_splits)
  moreover from this(2) have "has_change d' s n" by (simp add: list_ex_find)
  ultimately show ?thesis by auto
qed

lemma patches_grow:
  "apply_patches s h j ps d = Inr (d', w, a) \<Longrightarrow>
    (\<forall>p \<in> set ps. has_change d' s (sp_source_ordinal p)) \<and> (\<forall>t l. has_change d t l \<longrightarrow> has_change d' t l)"
proof (induction ps arbitrary: d d' w a)
  case (Cons p ps)
  obtain d1 i k where e: "insert_observation s h INITIAL_SNAPSHOT (sp_source_ordinal p) j (Some p) None d = Inr (d1, i, k)"
    using Cons.prems by (cases "insert_observation s h INITIAL_SNAPSHOT (sp_source_ordinal p) j (Some p) None d") auto
  define d2 where "d2 = fst (if k \<noteq> 0 then upsert_current s INITIAL_SNAPSHOT p i d1 else (d1, 0))"
  have o: "rd_observations d2 = rd_observations d1" by (simp add: d2_def)
  obtain w' a' where r: "apply_patches s h j ps d2 = Inr (d', w', a')"
    using Cons.prems e
    by (cases "apply_patches s h j ps d2") (auto simp: d2_def case_prod_beta Let_def split: if_splits)
  show ?case using Cons.IH [OF r] insert_grows [OF e] o by auto
qed simp

lemma effect_ledger [simp]:
  "rd_observations (fst (mark_removed s ids a i n d)) = rd_observations d"
  "rd_observations (fst (reconcile_snapshot_absences s vis d)) = rd_observations d"
  by (auto simp: mark_removed_def reconcile_snapshot_absences_def Let_def split: option.splits)

lemma project_grows:
  assumes "project_screen_message s h args d = Inr (d', r)"
  shows "(\<forall>n \<in> set (change_ordinals (parse_screen_message_update h args)). has_change d' s n) \<and>
    (\<forall>t l. has_change d t l \<longrightarrow> has_change d' t l)"
proof -
  define u where "u = parse_screen_message_update h args"
  define j where "j = canonical_json (screen_payload args)"
  have v: "validate_source s = None"
    using assms by (cases "validate_source s") (simp_all add: project_screen_message_def)
  note eq = assms [unfolded project_unfold [OF v u_def j_def]]
  have one: "has_change d' s 0 \<and> (\<forall>t l. has_change d t l \<longrightarrow> has_change d' t l)"
    if po: "project_one s h a j p m effect d = Inr (d', r)" and ef: "\<And>i d. rd_observations (fst (effect i d)) = rd_observations d"
    for a p m effect
  proof -
    obtain d1 i k where e: "insert_observation s h a 0 j p m d = Inr (d1, i, k)"
      using po by (cases "insert_observation s h a 0 j p m d") (auto simp: project_one_def)
    have "rd_observations d' = rd_observations d1"
      using po ef [of i d1] e by (auto simp: project_one_def Let_def case_prod_beta split: if_splits)
    then show ?thesis using insert_grows [OF e] by simp
  qed
  show ?thesis unfolding u_def [symmetric]
  proof (cases "su_operation u = SNAPSHOT")
    case snap: True
    define a where "a = (if su_snapshot_complete u then INITIAL_SNAPSHOT else A_UNKNOWN)"
    have p: "project_snapshot s h j u d = Inr (d', r)" using eq snap by simp
    show "(\<forall>n \<in> set (change_ordinals u). has_change d' s n) \<and> (\<forall>t l. has_change d t l \<longrightarrow> has_change d' t l)"
    proof (cases "su_patches u = []")
      case True
      obtain d1 i k where e: "insert_observation s h a 0 j None None d = Inr (d1, i, k)"
        using p True by (cases "insert_observation s h a 0 j None None d") (auto simp: project_snapshot_def Let_def a_def [symmetric])
      have "rd_observations d' = rd_observations d1"
        using p True e by (auto simp: project_snapshot_def Let_def a_def [symmetric] case_prod_beta split: if_splits)
      then show ?thesis using insert_grows [OF e] True by (simp add: change_ordinals_def)
    next
      case False
      obtain d1 w k where e: "apply_patches s h j (su_patches u) d = Inr (d1, w, k)"
        using p False by (cases "apply_patches s h j (su_patches u) d") (auto simp: project_snapshot_def Let_def)
      have "rd_observations d' = rd_observations d1"
        using p False e by (auto simp: project_snapshot_def Let_def case_prod_beta split: if_splits)
      then show ?thesis using patches_grow [OF e] False by (auto simp: change_ordinals_def)
    qed
  next
    case False
    have "has_change d' s 0 \<and> (\<forall>t l. has_change d t l \<longrightarrow> has_change d' t l)"
      using eq False by (cases "su_operation u") (simp_all, (rule one, assumption, simp)+)
    then show "(\<forall>n \<in> set (change_ordinals u). has_change d' s n) \<and> (\<forall>t l. has_change d t l \<longrightarrow> has_change d' t l)"
      using update_patches [OF u_def False] by simp
  qed
qed

lemma run_grows: "has_change d t l \<Longrightarrow> has_change (foldl rc_step d feed) t l"
proof (induction feed arbitrary: d)
  case (Cons x feed)
  have "has_change (rc_step d x) t l"
    using Cons.prems project_grows by (fastforce simp: rc_step_def split: prod.splits sum.splits)
  then show ?case using Cons.IH by simp
qed simp

section \<open>Well-formed tables\<close>

definition message_ok :: "rc_message \<Rightarrow> bool" where
  "message_ok r \<longleftrightarrow> (rm_is_active r \<longleftrightarrow> rm_removed r = None) \<and>
     re_action (rm_first r) \<in> {INITIAL_SNAPSHOT, A_UPSERT} \<and>
     (case rm_removed r of None \<Rightarrow> re_action (rm_last r) \<in> {INITIAL_SNAPSHOT, A_UPSERT}
      | Some e \<Rightarrow> e = rm_last r \<and> re_action e \<in> {A_DELETE, CLEAR, SNAPSHOT_RECONCILIATION})"

definition change_of :: "rc_observation \<Rightarrow> int \<times> string \<times> nat" where
  "change_of o1 = (rs_heat (ro_source o1), rs_key (ro_source o1), ro_change_ordinal o1)"

definition rc_tables_ok :: "rc_db \<Rightarrow> bool" where
  "rc_tables_ok d \<longleftrightarrow>
     distinct (map ro_id (rd_observations d)) \<and> distinct (map change_of (rd_observations d)) \<and>
     (\<forall>o1 \<in> set (rd_observations d). observation_check o1) \<and>
     distinct (map (\<lambda>r. (rm_heat r, rm_id r)) (rd_current d)) \<and> (\<forall>r \<in> set (rd_current d). message_ok r)"

lemma fold_max_ge: "fold max xs a \<ge> (a :: int) \<and> (\<forall>x \<in> set xs. x \<le> fold max xs a)"
proof (induction xs arbitrary: a)
  case (Cons x xs)
  show ?case using Cons [of "max x a"] by auto
qed simp

lemma insert_tables_ok:
  assumes "rc_tables_ok d" "insert_observation s h a n j p m d = Inr (d', i, k)"
  shows "rc_tables_ok d' \<and> rd_current d' = rd_current d"
proof -
  define row where "row = observation_row (rc_next_id (rd_observations d)) s h a n j p m"
  define fresh where "fresh \<longleftrightarrow> observation_check row \<and> \<not> has_change d s n"
  have d': "d' = (if fresh then d\<lparr> rd_observations := rd_observations d @ [row] \<rparr> else d)"
    using assms(2) unfolding insert_observation_def Let_def row_def [symmetric] fresh_def [symmetric]
    by (auto split: option.splits)
  have "ro_id row \<notin> set (map ro_id (rd_observations d))"
    using fold_max_ge [of 0 "map ro_id (rd_observations d)"] by (auto simp: row_def observation_row_def rc_next_id_def)
  moreover have "change_of row \<notin> set (map change_of (rd_observations d))" if fresh
    using that by (auto simp: fresh_def change_of_def row_def list_ex_iff same_change_def)
  ultimately show ?thesis using assms(1) by (auto simp: d' rc_tables_ok_def fresh_def)
qed

lemma rc_id_kept [simp]:
  "rm_heat (merge_message p e r) = rm_heat r" "rm_id (merge_message p e r) = rm_id r"
  "rm_heat (remove_message e r) = rm_heat r" "rm_id (remove_message e r) = rm_id r"
  by (simp_all add: merge_message_def remove_message_def)

lemma map_keys_kept:
  assumes "\<And>r. rm_heat (f r) = rm_heat r" "\<And>r. rm_id (f r) = rm_id r"
  shows "map (\<lambda>r. (rm_heat r, rm_id r)) (map (\<lambda>r. if Q r then f r else r) xs) = map (\<lambda>r. (rm_heat r, rm_id r)) xs"
  using assms by (induction xs) auto

lemma upsert_tables_ok:
  assumes "rc_tables_ok d" "a \<in> {INITIAL_SNAPSHOT, A_UPSERT}"
  shows "rc_tables_ok (fst (upsert_current s a p i d))"
proof -
  define event where "event = \<lparr> re_action = a, re_source = s, re_change_ordinal = sp_source_ordinal p, re_observation = Some i \<rparr>"
  have m: "message_ok r \<Longrightarrow> message_ok (merge_message p event r)" "message_ok (new_message p h event)" for r h
    using assms(2) by (auto simp: message_ok_def merge_message_def new_message_def event_def)
  show ?thesis
  proof (cases "list_ex (rc_key (rs_heat s) (sp_id p)) (rd_current d)")
    case True
    then have e: "fst (upsert_current s a p i d) = d\<lparr> rd_current :=
        map (\<lambda>r. if rc_key (rs_heat s) (sp_id p) r then merge_message p event r else r) (rd_current d) \<rparr>"
      by (simp add: upsert_current_def Let_def event_def)
    have "map (\<lambda>r. (rm_heat r, rm_id r)) (rd_current (fst (upsert_current s a p i d))) = map (\<lambda>r. (rm_heat r, rm_id r)) (rd_current d)"
    proof -
      have "rd_current (fst (upsert_current s a p i d)) =
          map (\<lambda>r. if rc_key (rs_heat s) (sp_id p) r then merge_message p event r else r) (rd_current d)" by (simp add: e)
      then show ?thesis by (simp only:) (rule map_keys_kept; simp)
    qed
    moreover have "\<forall>r \<in> set (rd_current (fst (upsert_current s a p i d))). message_ok r"
      using assms(1) m(1) unfolding e by (auto simp: rc_tables_ok_def)
    ultimately show ?thesis using assms(1) by (simp add: rc_tables_ok_def)
  next
    case False
    then have e: "fst (upsert_current s a p i d) = d\<lparr> rd_current := rd_current d @ [new_message p (rs_heat s) event] \<rparr>"
      by (simp add: upsert_current_def Let_def event_def)
    have "(rs_heat s, sp_id p) \<notin> set (map (\<lambda>r. (rm_heat r, rm_id r)) (rd_current d))"
      using False by (auto simp: list_ex_iff rc_key_def)
    then show ?thesis using assms(1) m(2) [of "rs_heat s"] unfolding e by (auto simp: rc_tables_ok_def new_message_def)
  qed
qed

lemma deactivate_tables_ok:
  assumes "rc_tables_ok d" "re_action e \<in> {A_DELETE, CLEAR, SNAPSHOT_RECONCILIATION}"
  shows "rc_tables_ok (fst (deactivate h P e d))"
proof -
  have "map (\<lambda>r. (rm_heat r, rm_id r)) (rd_current (fst (deactivate h P e d))) = map (\<lambda>r. (rm_heat r, rm_id r)) (rd_current d)"
  proof -
    have "rd_current (fst (deactivate h P e d)) =
        map (\<lambda>r. if rm_heat r = h \<and> rm_is_active r \<and> P (rm_id r) then remove_message e r else r) (rd_current d)"
      by (simp add: deactivate_def Let_def)
    then show ?thesis by (simp only:) (rule map_keys_kept; simp)
  qed
  moreover have "message_ok r \<Longrightarrow> message_ok (remove_message e r)" for r
    using assms(2) by (auto simp: message_ok_def remove_message_def)
  then have "\<forall>r \<in> set (rd_current (fst (deactivate h P e d))). message_ok r"
    using assms(1) by (auto simp: rc_tables_ok_def deactivate_def Let_def)
  ultimately show ?thesis using assms(1) by (simp add: rc_tables_ok_def)
qed

section \<open>What every write preserves, the projection preserves\<close>

lemma project_preserves:
  assumes ins: "\<And>d d' h a n j p m i k. I d \<Longrightarrow> insert_observation s h a n j p m d = Inr (d', i, k) \<Longrightarrow> I d'"
    and ups: "\<And>d a p i. I d \<Longrightarrow> a \<in> {INITIAL_SNAPSHOT, A_UPSERT} \<Longrightarrow> I (fst (upsert_current s a p i d))"
    and dea: "\<And>d P e. I d \<Longrightarrow> re_action e \<in> {A_DELETE, CLEAR, SNAPSHOT_RECONCILIATION} \<Longrightarrow>
      I (fst (deactivate (rs_heat s) P e d))"
    and I: "I d" and pr: "project_screen_message s h args d = Inr (d', r)"
  shows "I d'"
proof -
  define u where "u = parse_screen_message_update h args"
  define j where "j = canonical_json (screen_payload args)"
  have v: "validate_source s = None"
    using pr by (cases "validate_source s") (simp_all add: project_screen_message_def)
  note eq = pr [unfolded project_unfold [OF v u_def j_def]]
  have mark: "I (fst (mark_removed s ids a i n d))" if "I d" "a \<in> {A_DELETE, CLEAR, SNAPSHOT_RECONCILIATION}" for ids a i n d
    using that dea by (auto simp: mark_removed_def Let_def split: option.splits)
  have rec: "I (fst (reconcile_snapshot_absences s vis d))" if "I d" for vis d
    using that dea mark by (auto simp: reconcile_snapshot_absences_def)
  have pat: "I d'" if "I d" "apply_patches s h j ps d = Inr (d', w, a)" for ps d d' w a
    using that
  proof (induction ps arbitrary: d w a)
    case (Cons p ps)
    obtain d1 i k where e: "insert_observation s h INITIAL_SNAPSHOT (sp_source_ordinal p) j (Some p) None d = Inr (d1, i, k)"
      using Cons.prems(2) by (cases "insert_observation s h INITIAL_SNAPSHOT (sp_source_ordinal p) j (Some p) None d") auto
    define d2 where "d2 = fst (if k \<noteq> 0 then upsert_current s INITIAL_SNAPSHOT p i d1 else (d1, 0))"
    have "I d1" by (rule ins [OF Cons.prems(1) e])
    then have "I d2" by (simp add: d2_def ups)
    moreover obtain w' a' where "apply_patches s h j ps d2 = Inr (d', w', a')"
      using Cons.prems(2) e
      by (cases "apply_patches s h j ps d2") (auto simp: d2_def case_prod_beta Let_def split: if_splits)
    ultimately show ?case by (rule Cons.IH)
  qed simp
  have one: "I d'" if po: "project_one s h a j p m effect d = Inr (d', r)"
      and ef: "\<And>i d. I d \<Longrightarrow> I (fst (effect i d))" for a p m effect
  proof -
    obtain d1 i k where e: "insert_observation s h a 0 j p m d = Inr (d1, i, k)"
      using po by (cases "insert_observation s h a 0 j p m d") (auto simp: project_one_def)
    have "I d1" by (rule ins [OF I e])
    moreover have "d' = (if k \<noteq> 0 then fst (effect i d1) else d1)"
      using po e by (auto simp: project_one_def Let_def case_prod_beta split: if_splits)
    ultimately show ?thesis using ef by simp
  qed
  show ?thesis
  proof (cases "su_operation u = SNAPSHOT")
    case True
    define a where "a = (if su_snapshot_complete u then INITIAL_SNAPSHOT else A_UNKNOWN)"
    have p: "project_snapshot s h j u d = Inr (d', r)" using eq True by simp
    show ?thesis
    proof (cases "su_patches u = []")
      case True
      obtain d1 i k where e: "insert_observation s h a 0 j None None d = Inr (d1, i, k)"
        using p True by (cases "insert_observation s h a 0 j None None d") (auto simp: project_snapshot_def Let_def a_def [symmetric])
      have "I d1" by (rule ins [OF I e])
      moreover have "d' = d1 \<or> d' = fst (reconcile_snapshot_absences s [] d1)"
        using p True e by (auto simp: project_snapshot_def Let_def a_def [symmetric] case_prod_beta split: if_splits)
      ultimately show ?thesis using rec by blast
    next
      case False
      obtain d1 w k where e: "apply_patches s h j (su_patches u) d = Inr (d1, w, k)"
        using p False by (cases "apply_patches s h j (su_patches u) d") (auto simp: project_snapshot_def Let_def)
      have "I d1" by (rule pat [OF I e])
      moreover have "d' = d1 \<or> d' = fst (reconcile_snapshot_absences s (map sp_id (su_patches u)) d1)"
        using p False e by (auto simp: project_snapshot_def Let_def case_prod_beta split: if_splits)
      ultimately show ?thesis using rec by blast
    qed
  next
    case False
    then show ?thesis
      using eq by (cases "su_operation u") (simp_all, (rule one, assumption, simp add: ups mark)+)
  qed
qed

lemma project_tables_ok:
  assumes "rc_tables_ok d" "project_screen_message s h args d = Inr (d', r)"
  shows "rc_tables_ok d'"
proof (rule project_preserves [where I = rc_tables_ok, OF _ _ _ assms])
  show "rc_tables_ok d2" if "rc_tables_ok d1" "insert_observation s h a n j p m d1 = Inr (d2, i, k)" for d1 d2 h a n j p m i k
    using insert_tables_ok [OF that] by blast
qed (rule upsert_tables_ok deactivate_tables_ok; assumption)+

interpretation board: invariant_machine rc_step "\<lambda>d. d = empty_rc_db" rc_tables_ok
proof unfold_locales
  show "rc_tables_ok d" if "d = empty_rc_db" for d using that by (simp add: rc_tables_ok_def empty_rc_db_def)
  show "rc_tables_ok (rc_step d x)" if "rc_tables_ok d" for d x
    using that project_tables_ok by (auto simp: rc_step_def split: prod.splits sum.splits)
qed

text \<open>The rows of other heats.\<close>

definition outside :: "int set \<Rightarrow> rc_db \<Rightarrow> rc_message list \<times> rc_observation list" where
  "outside H d = (filter (\<lambda>r. rm_heat r \<notin> H) (rd_current d), filter (\<lambda>o1. rs_heat (ro_source o1) \<notin> H) (rd_observations d))"

lemma filter_map_kept:
  "(\<And>x. x \<in> set xs \<Longrightarrow> P (f x) = P x) \<Longrightarrow> (\<And>x. x \<in> set xs \<Longrightarrow> P x \<Longrightarrow> f x = x) \<Longrightarrow> filter P (map f xs) = filter P xs"
  by (induction xs) auto

lemma project_outside:
  assumes "project_screen_message s h args d = Inr (d', r)" "rs_heat s \<in> H"
  shows "outside H d' = outside H d"
proof (rule project_preserves [where I = "\<lambda>d'. outside H d' = outside H d", OF _ _ _ _ assms(1)])
  fix d1 d2 h a n j p m i k
  assume "outside H d1 = outside H d" "insert_observation s h a n j p m d1 = Inr (d2, i, k)"
  then show "outside H d2 = outside H d"
    using assms(2) by (auto simp: insert_observation_def Let_def outside_def split: option.splits if_splits)
next
  fix d1 a p i assume "outside H d1 = outside H d"
  moreover have "filter (\<lambda>r. rm_heat r \<notin> H) (map (\<lambda>r. if rc_key (rs_heat s) (sp_id p) r then merge_message p e r else r) xs) =
      filter (\<lambda>r. rm_heat r \<notin> H) xs" for e xs
    using assms(2) by (intro filter_map_kept) (auto simp: rc_key_def)
  ultimately show "outside H (fst (upsert_current s a p i d1)) = outside H d"
    using assms(2) by (simp add: upsert_current_def Let_def outside_def new_message_def)
next
  fix d1 P e assume "outside H d1 = outside H d"
  moreover have "filter (\<lambda>r. rm_heat r \<notin> H) (map (\<lambda>r. if rm_heat r = rs_heat s \<and> rm_is_active r \<and> P (rm_id r)
      then remove_message e r else r) xs) = filter (\<lambda>r. rm_heat r \<notin> H) xs" for xs
    using assms(2) by (intro filter_map_kept) auto
  ultimately show "outside H (fst (deactivate (rs_heat s) P e d1)) = outside H d"
    by (simp add: deactivate_def Let_def outside_def)
qed simp

lemma heat_found: "heat_for_observation heats t None = Some h \<Longrightarrow> h \<in> fst ` set heats"
proof -
  have "heat_for_observation heats t r = Some h \<Longrightarrow> h \<in> fst ` set heats \<or> r = Some h" for r
    by (induction heats t r rule: heat_for_observation.induct) (auto split: if_splits)
  then show "heat_for_observation heats t None = Some h \<Longrightarrow> h \<in> fst ` set heats" by blast
qed

lemma replay_outside:
  "replay_messages heats ms w d = Inr (d', w') \<Longrightarrow> outside (fst ` set heats) d' = outside (fst ` set heats) d"
proof (induction heats ms w d rule: replay_messages.induct)
  case (2 heats m ms w d)
  obtain h args where h: "heat_for_observation heats (rw_received_at_us m) None = Some h" "rw_args m = Some (JList args)"
    using 2(2) by (auto split: option.splits json.splits)
  obtain d1 r where r: "project_screen_message (raw_source h m) (rw_handle m) args d = Inr (d1, r)"
    using 2(2) h by (cases "project_screen_message (raw_source h m) (rw_handle m) args d") auto
  have "outside (fst ` set heats) d1 = outside (fst ` set heats) d"
    by (rule project_outside [OF r]) (simp add: raw_source_def heat_found [OF h(1)])
  then show ?case using 2 h r by simp
qed simp

lemma delete_outside:
  "outside (set hs) d' = outside (set hs) d \<Longrightarrow> delete_session_messages hs d' = delete_session_messages hs d"
  by (simp add: delete_session_messages_def outside_def)

lemma outside_deleted: "outside (set hs) (delete_session_messages hs d) = outside (set hs) d"
  by (simp add: delete_session_messages_def outside_def)

section \<open>Properties\<close>

definition demo_source :: "int \<Rightarrow> rc_source" where
  "demo_source i = \<lparr> rs_heat = 1, rs_frame = i, rs_message = i, rs_message_ordinal = 0,
     rs_key = ''c:'' @ int_text i, rs_observed_at_us = 1000 * i \<rparr>"

definition demo_put :: "string \<Rightarrow> (string \<times> json) list \<Rightarrow> json" where
  "demo_put i fs = JObj ((''Id'', JStr i) # fs)"

text \<open>Three messages, the second delivered twice, the first removed and shown again without text,
  the third removed.\<close>

definition demo_feed :: "delivery list" where
  "demo_feed =
    [(demo_source 1, ''m_c'', [demo_put ''a'' [(''t'', JStr ''PIT'')]]),
     (demo_source 2, ''m_c'', [demo_put ''b'' [(''t'', JStr ''SC''), (''l'', JInt 2)]]),
     (demo_source 2, ''m_c'', [demo_put ''b'' [(''t'', JStr ''SC''), (''l'', JInt 2)]]),
     (demo_source 3, ''m_d'', [JStr ''a'']),
     (demo_source 4, ''m_c'', [demo_put ''a'' [(''l'', JInt 5)]]),
     (demo_source 5, ''m_c'', [demo_put ''c'' [(''t'', JStr ''RED'')]]),
     (demo_source 6, ''m_d'', [JStr ''c''])]"

lemma demo_feed_consistent: "consistent_log 1 demo_feed"
  by code_simp

text \<open>C15. The stored race-control board is exactly the board that keeps the fields of its hidden
  messages: after any deliveries of one heat, in which a source key always carries the same
  invocation but may arrive any number of times, every row has the fields and the visibility
  that board gives its message, no row is missing and none is additional. Against the provider's
  own client, which clears its collection with every snapshot and forgets the fields of a removed
  message: whatever the client shows is visible, with every field the client has; and when every
  snapshot parsed completely, only what the client shows is visible.\<close>
theorem board_follows_provider:
  assumes "consistent_log heat feed"
  shows "stored_board heat (foldl rc_step empty_rc_db feed) = kept_after feed \<and>
    (\<forall>i f. provider_after feed i = Some f \<longrightarrow>
      (\<exists>r. rc_row heat (foldl rc_step empty_rc_db feed) i = Some r \<and> rm_is_active r \<and> covers (row_fields r) f)) \<and>
    (complete_snapshots feed \<longrightarrow> (\<forall>i r. rc_row heat (foldl rc_step empty_rc_db feed) i = Some r \<longrightarrow>
      (rm_is_active r \<longleftrightarrow> provider_after feed i \<noteq> None)))"
proof -
  let ?d = "foldl rc_step empty_rc_db feed"
  have k: "stored_board heat ?d = kept_after feed"
    using deliver_run [OF assms] by (simp add: Let_def case_prod_beta kept_after_def)
  have row: "kept_after feed i = map_option (\<lambda>r. (row_fields r, rm_is_active r)) (rc_row heat ?d i)" for i
    using fun_cong [OF k, of i] by (simp add: stored_board_def)
  have all: "\<exists>r. rc_row heat ?d i = Some r \<and> rm_is_active r \<and> covers (row_fields r) f" if p: "provider_after feed i = Some f" for i f
  proof -
    obtain g where "kept_after feed i = Some (g, True)" "covers g f"
      using boards_run [of feed] p unfolding shows_all_def by blast
    then show ?thesis using row [of i] by auto
  qed
  have only: "rm_is_active r \<longleftrightarrow> provider_after feed i \<noteq> None" if "complete_snapshots feed" "rc_row heat ?d i = Some r" for i r
  proof -
    have "kept_after feed i = Some (row_fields r, rm_is_active r)" using row [of i] that(2) by simp
    then have "rm_is_active r \<Longrightarrow> provider_after feed i \<noteq> None"
      using boards_run [of feed] that(1) unfolding shows_only_def by (metis (full_types))
    then show ?thesis using all [of i] that(2) by auto
  qed
  show ?thesis using k all only by blast
qed

lemma board_follows_provider_witness:
  "stored_board 1 (foldl rc_step empty_rc_db demo_feed) = kept_after demo_feed \<and>
   map (\<lambda>r. (rm_id r, rm_is_active r)) (rd_current (foldl rc_step empty_rc_db demo_feed)) =
     [(''a'', True), (''b'', True), (''c'', False)] \<and>
   provider_after demo_feed ''a'' \<noteq> None \<and> provider_after demo_feed ''c'' = None"
proof -
  let ?d = "foldl rc_step empty_rc_db demo_feed"
  have "complete_snapshots demo_feed" by code_simp
  then have board: "stored_board 1 ?d = kept_after demo_feed"
    "\<And>i r. rc_row 1 ?d i = Some r \<Longrightarrow> rm_is_active r \<longleftrightarrow> provider_after demo_feed i \<noteq> None"
    using board_follows_provider [OF demo_feed_consistent] by blast+
  have shown: "map (\<lambda>r. (rm_id r, rm_is_active r)) (rd_current ?d) = [(''a'', True), (''b'', True), (''c'', False)]"
    by code_simp
  have "map_option rm_is_active (rc_row 1 ?d ''a'') = Some True" "map_option rm_is_active (rc_row 1 ?d ''c'') = Some False"
    by code_simp+
  then obtain r q where "rc_row 1 ?d ''a'' = Some r" "rm_is_active r" "rc_row 1 ?d ''c'' = Some q" "\<not> rm_is_active q" by auto
  then have "provider_after demo_feed ''a'' \<noteq> None" "provider_after demo_feed ''c'' = None" using board(2) by metis+
  then show ?thesis using board(1) shown by simp
qed

text \<open>An invocation is applied once. When the projection of an invocation succeeded, a later
  delivery of it under the same heat and source key, after any other deliveries, writes no
  observation, changes no message and leaves both tables as they are.\<close>
theorem redelivered_message_is_idle:
  assumes "project_screen_message s h args d = Inr (d', r)"
    "validate_source t = None" "rs_heat t = rs_heat s" "rs_key t = rs_key s"
  shows "\<exists>a. project_screen_message t h args (foldl rc_step d' feed) =
    Inr (foldl rc_step d' feed, \<lparr> rr_action = a, rr_observations_written = 0, rr_current_affected = 0 \<rparr>)"
proof (rule project_recorded [OF assms(2) refl])
  have "same_change t n = same_change s n" for n using assms(3,4) by (simp add: same_change_def fun_eq_iff)
  then show "\<forall>n \<in> set (change_ordinals (parse_screen_message_update h args)). has_change (foldl rc_step d' feed) t n"
    using project_grows [OF assms(1)] run_grows by simp
qed

lemma redelivered_message_is_idle_witness:
  "\<exists>d' r a. project_screen_message (demo_source 1) ''m_c'' [demo_put ''a'' []] empty_rc_db = Inr (d', r) \<and>
    rr_observations_written r = 1 \<and>
    project_screen_message (demo_source 1) ''m_c'' [demo_put ''a'' []] (foldl rc_step d' (drop 3 demo_feed)) =
      Inr (foldl rc_step d' (drop 3 demo_feed), \<lparr> rr_action = a, rr_observations_written = 0, rr_current_affected = 0 \<rparr>)"
proof -
  let ?p = "project_screen_message (demo_source 1) ''m_c'' [demo_put ''a'' []] empty_rc_db"
  have "(case ?p of Inl e \<Rightarrow> False | Inr (d', r) \<Rightarrow> rr_observations_written r = 1)" by code_simp
  then obtain d' r where p: "?p = Inr (d', r)" "rr_observations_written r = 1" by (auto split: sum.splits)
  have "validate_source (demo_source 1) = None" by code_simp
  then show ?thesis using p redelivered_message_is_idle [OF p(1), of "demo_source 1" "drop 3 demo_feed"] by blast
qed

text \<open>C25. The tables stay well formed under any deliveries: observation ids and (heat, key,
  ordinal) are unique and every ledger row satisfies its checks; a message has one row; an
  active row has no removal and was last shown, an inactive one carries the removal that is
  its last action.\<close>
theorem race_control_tables_well_formed: "rc_tables_ok (foldl rc_step empty_rc_db feed)"
  by (rule board.reachable_inv [OF refl])

text \<open>C26. A rebuild is idempotent: once it succeeded, running it again on the result with the same
  raw messages gives the same tables and the same counts.\<close>
theorem race_control_rebuild_idempotent:
  assumes "rebuild_race_control_messages session_id lifecycle heats messages d = Inr (d', r)"
  shows "rebuild_race_control_messages session_id lifecycle heats messages d' = Inr (d', r)"
proof -
  let ?del = "delete_session_messages (map fst heats)"
  obtain w where w: "replay_messages heats messages 0 (?del d) = Inr (d', w)"
    using assms by (auto simp: rebuild_race_control_messages_def Let_def split: if_splits option.splits sum.splits)
  have "outside (set (map fst heats)) d' = outside (set (map fst heats)) d"
    using replay_outside [OF w] outside_deleted [of "map fst heats" d] by simp
  then have same: "?del d' = ?del d" by (rule delete_outside)
  show ?thesis using assms unfolding rebuild_race_control_messages_def Let_def same .
qed

definition demo_raw :: "raw_screen_message list" where
  "demo_raw =
    [\<lparr> rw_frame = 1, rw_connection = ''c'', rw_sequence = 1, rw_received_at_us = 10, rw_message = 1, rw_ordinal = 0,
       rw_handle = ''m_i'', rw_args = Some (JList [JList [demo_put ''a'' [], demo_put ''b'' []]]) \<rparr>,
     \<lparr> rw_frame = 2, rw_connection = ''c'', rw_sequence = 2, rw_received_at_us = 20, rw_message = 2, rw_ordinal = 0,
       rw_handle = ''m_d'', rw_args = Some (JList [JStr ''a'']) \<rparr>]"

lemma race_control_rebuild_idempotent_witness:
  "\<exists>d' r. rebuild_race_control_messages ''s'' (Some ''stopped'') [(1, 5)] demo_raw (foldl rc_step empty_rc_db demo_feed) = Inr (d', r) \<and>
    bf_active_messages r = 1 \<and>
    rebuild_race_control_messages ''s'' (Some ''stopped'') [(1, 5)] demo_raw d' = Inr (d', r)"
proof -
  let ?p = "rebuild_race_control_messages ''s'' (Some ''stopped'') [(1, 5)] demo_raw (foldl rc_step empty_rc_db demo_feed)"
  have "(case ?p of Inl e \<Rightarrow> False | Inr (d', r) \<Rightarrow> bf_active_messages r = 1)" by code_simp
  then obtain d' r where p: "?p = Inr (d', r)" "bf_active_messages r = 1" by (auto split: sum.splits)
  then show ?thesis using race_control_rebuild_idempotent [OF p(1)] by blast
qed

text \<open>A removed message leaves its fields behind: deleted and shown again without a text, it
  has no text on the provider's board and still the old one in the table.\<close>
theorem removed_message_keeps_fields:
  "map_option rm_text (rc_row 1 (foldl rc_step empty_rc_db demo_feed) ''a'') = Some (Some ''PIT'') \<and>
   map_option sf_text (provider_after demo_feed ''a'') = Some None"
  by code_simp

end
