(* ===== verification/Stream_Outbox.thy ===== *)
theory Stream_Outbox
  imports Race_Control Lifecycle
begin

text \<open>
  The durable outbox of the live stream: \<open>append_stream_events\<close>
  (\<open>server/timing/stream_events.py\<close>), the exceptional events of the normalizer, the stream
  part of retention (\<open>server/timing/retention.py\<close>) and of the rebuild
  (\<open>server/timing/rebuild.py\<close>), and the cursor reads of \<open>server/timing/sse.py\<close>, over the tables
  of migrations 0001 and 0005. Ids are AUTOINCREMENT: one more than the largest id the
  table ever held, kept in \<open>sd_sequence\<close>; whether an ignored insert uses up a number is a
  parameter (\<open>burns\<close>). A payload column holds the value it encodes. Referenced rows
  exist and are not deleted while their events are.
\<close>

section \<open>Tables\<close>

record stream_row =
  se_id :: int
  se_session :: string
  se_heat :: "int option"
  se_frame :: "int option"
  se_message :: "int option"
  se_source_key :: "string option"
  se_type :: string
  se_key :: "string option"
  se_observed_at_us :: "int option"
  se_payload :: json
  se_created_at_us :: int

record stream_db =
  sd_events :: "stream_row list"
  sd_sequence :: int
  sd_floors :: "(string \<times> int) list"
  sd_sessions :: "session_row list"

definition empty_stream_db :: stream_db where
  "empty_stream_db = \<lparr> sd_events = [], sd_sequence = 0, sd_floors = [], sd_sessions = [] \<rparr>"

text \<open>The session is stopped or aborted.\<close>

definition is_closed :: "stream_db \<Rightarrow> string \<Rightarrow> bool" where
  "is_closed d sid = list_ex (\<lambda>s. s_id s = sid \<and> (s_lifecycle s = Stopped \<or> s_lifecycle s = Aborted)) (sd_sessions d)"

section \<open>Appending\<close>

definition STREAM_EVENT_TYPES :: "string list" where
  "STREAM_EVENT_TYPES = [''state'', ''flag'', ''lap'', ''pit'', ''metric'', ''alert'', ''quality'']"

datatype stream_error = StreamEventError string | StreamCursorError string

record stream_candidate =
  ec_type :: string
  ec_key :: string
  ec_payload :: json

record stream_origin =
  so_session :: string
  so_heat :: int
  so_frame :: int
  so_message :: "int option"
  so_source_key :: string
  so_observed_at_us :: int

definition origin_error :: "stream_origin \<Rightarrow> string option" where
  "origin_error a =
    (if so_session a = [] then Some ''analysis_session_id must be a non-empty string''
     else if so_heat a \<le> 0 then Some ''source_heat_id must be a positive integer''
     else if so_frame a \<le> 0 then Some ''source_frame_id must be a positive integer''
     else if (case so_message a of None \<Rightarrow> False | Some i \<Rightarrow> i \<le> 0) then Some ''source_message_id must be a positive integer or None''
     else if strip (so_source_key a) = [] then Some ''source_key must be a non-empty string''
     else if so_observed_at_us a < 0 then Some ''observed_at_us must be a non-negative integer''
     else None)"

definition candidate_error :: "string list \<Rightarrow> stream_candidate \<Rightarrow> string option" where
  "candidate_error seen e =
    (if ec_type e \<notin> set STREAM_EVENT_TYPES then Some ''unsupported stream event type''
     else if ec_key e = [] \<or> length (ec_key e) > 500 then Some ''event_key must be a non-empty string of at most 500 characters''
     else if ec_key e \<in> set seen then Some ''duplicate event_key in one write''
     else (case ec_payload e of
         JObj _ \<Rightarrow> if dumps (ec_payload e) = None then Some ''event payload is not JSON serializable'' else None
       | _ \<Rightarrow> Some ''event payload must be an object''))"

text \<open>The unique index of migration 0005.\<close>

definition key_taken :: "stream_db \<Rightarrow> string \<Rightarrow> string option \<Rightarrow> bool" where
  "key_taken d sid key = (key \<noteq> None \<and> list_ex (\<lambda>r. se_session r = sid \<and> se_key r = key) (sd_events d))"

text \<open>\<open>INSERT OR IGNORE\<close>: the new database and \<open>cursor.rowcount\<close>.\<close>

definition insert_stream_row :: "bool \<Rightarrow> stream_row \<Rightarrow> stream_db \<Rightarrow> stream_db \<times> nat" where
  "insert_stream_row burns row d =
    (if key_taken d (se_session row) (se_key row)
     then (d\<lparr> sd_sequence := sd_sequence d + (if burns then 1 else 0) \<rparr>, 0)
     else (d\<lparr> sd_events := sd_events d @ [row\<lparr> se_id := sd_sequence d + 1 \<rparr>],
              sd_sequence := sd_sequence d + 1 \<rparr>, 1))"

definition outbox_row :: "int \<Rightarrow> stream_origin \<Rightarrow> stream_candidate \<Rightarrow> stream_row" where
  "outbox_row created_at_us a e = \<lparr> se_id = 0, se_session = so_session a, se_heat = Some (so_heat a),
     se_frame = Some (so_frame a), se_message = so_message a, se_source_key = Some (so_source_key a),
     se_type = ec_type e, se_key = Some (ec_key e), se_observed_at_us = Some (so_observed_at_us a),
     se_payload = the (dumps (ec_payload e)), se_created_at_us = created_at_us \<rparr>"

fun append_loop ::
    "bool \<Rightarrow> int \<Rightarrow> stream_origin \<Rightarrow> string list \<Rightarrow> stream_candidate list \<Rightarrow> stream_db
      \<Rightarrow> stream_error + (stream_db \<times> nat)" where
  "append_loop burns now a seen [] d = Inr (d, 0)"
| "append_loop burns now a seen (e # events) d =
    (case candidate_error seen e of
       Some message \<Rightarrow> Inl (StreamEventError message)
     | None \<Rightarrow>
        (let (d', n) = insert_stream_row burns (outbox_row now a e) d
         in case append_loop burns now a (ec_key e # seen) events d' of
              Inl error \<Rightarrow> Inl error
            | Inr (d'', written) \<Rightarrow> Inr (d'', n + written)))"

text \<open>An error leaves the transaction to the caller, which rolls it back.\<close>

definition append_stream_events ::
    "bool \<Rightarrow> int \<Rightarrow> stream_origin \<Rightarrow> stream_candidate list \<Rightarrow> stream_db \<Rightarrow> stream_error + (stream_db \<times> nat)" where
  "append_stream_events burns now a events d =
    (case origin_error a of
       Some message \<Rightarrow> Inl (StreamEventError message)
     | None \<Rightarrow> append_loop burns now a [] events d)"

text \<open>\<open>TimingNormalizer._emit_stream_event\<close>: an event without key, once per message and type.\<close>

definition emit_stream_event ::
    "int \<Rightarrow> string \<Rightarrow> int option \<Rightarrow> int \<Rightarrow> string \<Rightarrow> string \<Rightarrow> json \<Rightarrow> stream_db \<Rightarrow> stream_db" where
  "emit_stream_event now sid heat message source_key event_type payload d =
    (if list_ex (\<lambda>r. se_session r = sid \<and> se_message r = Some message \<and> se_type r = event_type) (sd_events d) then d
     else fst (insert_stream_row False
       \<lparr> se_id = 0, se_session = sid, se_heat = heat, se_frame = None, se_message = Some message,
         se_source_key = Some source_key, se_type = event_type, se_key = None, se_observed_at_us = None,
         se_payload = payload, se_created_at_us = now \<rparr> d))"

section \<open>Deleting\<close>

text \<open>\<open>INSERT ... ON CONFLICT DO UPDATE SET deleted_through_id = MAX(...)\<close>.\<close>

definition raise_floor :: "string \<Rightarrow> int \<Rightarrow> stream_db \<Rightarrow> stream_db" where
  "raise_floor sid cursor d = d\<lparr> sd_floors := AList.update sid
     (case map_of (sd_floors d) sid of None \<Rightarrow> cursor | Some old \<Rightarrow> max old cursor) (sd_floors d) \<rparr>"

record stream_plan =
  pl_stream_before_us :: int
  pl_stream_event_ids :: "int list"

abbreviation DAY_US :: int where "DAY_US \<equiv> 86400000000"

definition plan_stream_retention :: "int \<Rightarrow> int \<Rightarrow> stream_db \<Rightarrow> stream_plan" where
  "plan_stream_retention now_at_us stream_days d =
    (let before = now_at_us - stream_days * DAY_US
     in \<lparr> pl_stream_before_us = before,
          pl_stream_event_ids = map se_id
            (filter (\<lambda>r. is_closed d (se_session r) \<and> se_created_at_us r < before) (sd_events d)) \<rparr>)"

text \<open>One planned id: the row is still old and its session still closed, or nothing happens.\<close>

definition delete_stream_event ::
    "int \<Rightarrow> int \<Rightarrow> stream_db \<times> (string \<times> int) list \<Rightarrow> stream_db \<times> (string \<times> int) list" where
  "delete_stream_event before event_id st =
    (case st of (d, cursors) \<Rightarrow>
      (case find (\<lambda>r. se_id r = event_id \<and> se_created_at_us r < before \<and> is_closed d (se_session r)) (sd_events d) of
         None \<Rightarrow> (d, cursors)
       | Some row \<Rightarrow>
          (d\<lparr> sd_events := filter (\<lambda>r. se_id r \<noteq> event_id) (sd_events d) \<rparr>,
           AList.update (se_session row)
             (max (case map_of cursors (se_session row) of None \<Rightarrow> 0 | Some c \<Rightarrow> c) event_id) cursors)))"

definition apply_stream_retention :: "stream_plan \<Rightarrow> stream_db \<Rightarrow> stream_db" where
  "apply_stream_retention plan d =
    (let (d', cursors) = fold (delete_stream_event (pl_stream_before_us plan)) (pl_stream_event_ids plan) (d, [])
     in fold (\<lambda>(sid, cursor). raise_floor sid cursor) cursors d')"

text \<open>\<open>_stream_cursor\<close>, \<open>MAX(id)\<close> of one session, 0 without rows.\<close>

definition stream_cursor :: "stream_db \<Rightarrow> string \<Rightarrow> int" where
  "stream_cursor d sid = (let ids = map se_id (filter (\<lambda>r. se_session r = sid) (sd_events d))
     in if ids = [] then 0 else Max (set ids))"

text \<open>
  The stream part of \<open>_reset_derived_state\<close>: under the writer lock the plan equals a fresh
  plan, so its cursor is the current one and its session is closed.
\<close>

definition reset_session_stream :: "string \<Rightarrow> stream_db \<Rightarrow> stream_db option" where
  "reset_session_stream sid d =
    (if \<not> is_closed d sid then None
     else (let previous = stream_cursor d sid;
               d' = (if previous \<noteq> 0 then raise_floor sid previous d else d)
           in Some (d'\<lparr> sd_events := filter (\<lambda>r. se_session r \<noteq> sid) (sd_events d') \<rparr>)))"

section \<open>Reading\<close>

definition parse_last_event_id :: "string option \<Rightarrow> stream_error + int option" where
  "parse_last_event_id v =
    (case v of
       None \<Rightarrow> Inr None
     | Some s \<Rightarrow>
        (if s = [] then Inr None
         else if \<not> ascii_digits s \<or> length s > 19 then Inl (StreamCursorError ''not a decimal cursor'')
         else if digits_value s > 9223372036854775807 then Inl (StreamCursorError ''outside the SQLite range'')
         else Inr (Some (digits_value s))))"

abbreviation DEFAULT_BATCH_SIZE :: nat where "DEFAULT_BATCH_SIZE \<equiv> 128"

definition require_cursor :: "int \<Rightarrow> stream_error + int" where
  "require_cursor cursor =
    (if cursor < 0 then Inl (StreamCursorError ''stream cursor must be a non-negative integer'') else Inr cursor)"

definition require_limit :: "int \<Rightarrow> stream_error + nat" where
  "require_limit limit =
    (if 1 \<le> limit \<and> limit \<le> int DEFAULT_BATCH_SIZE then Inr (nat limit)
     else Inl (StreamCursorError ''stream batch limit''))"

text \<open>\<open>WHERE id > ? [AND analysis_session_id = ?] ORDER BY id LIMIT ?\<close>.\<close>

definition select_events :: "int \<Rightarrow> nat \<Rightarrow> string option \<Rightarrow> stream_db \<Rightarrow> stream_row list" where
  "select_events after_id limit session d =
    take limit (sort_key se_id (filter (\<lambda>r. after_id < se_id r \<and>
      (case session of None \<Rightarrow> True | Some sid \<Rightarrow> se_session r = sid)) (sd_events d)))"

definition read_stream_events :: "string \<Rightarrow> int \<Rightarrow> int \<Rightarrow> stream_db \<Rightarrow> stream_error + stream_row list" where
  "read_stream_events sid after_id limit d =
    (if sid = [] then Inl (StreamCursorError ''analysis_session_id must be non-empty'')
     else case require_cursor after_id of
       Inl e \<Rightarrow> Inl e
     | Inr after \<Rightarrow>
        (case require_limit limit of
           Inl e \<Rightarrow> Inl e
         | Inr n \<Rightarrow> Inr (select_events after n (Some sid) d)))"

record cursor_window =
  cw_deleted_through_id :: int
  cw_latest_id :: int
  cw_cursor_exists :: bool

definition requires_reset :: "cursor_window \<Rightarrow> int \<Rightarrow> bool" where
  "requires_reset w cursor =
    (if cursor < 0 \<or> cw_latest_id w < cursor then True
     else if cw_deleted_through_id w \<noteq> 0 \<and> cursor \<le> cw_deleted_through_id w then True
     else if cursor = 0 \<or> cursor = cw_latest_id w then False
     else \<not> cw_cursor_exists w)"

definition stream_floor :: "stream_db \<Rightarrow> string \<Rightarrow> int" where
  "stream_floor d sid = (case map_of (sd_floors d) sid of None \<Rightarrow> 0 | Some f \<Rightarrow> f)"

definition read_cursor_window :: "string \<Rightarrow> int \<Rightarrow> stream_db \<Rightarrow> stream_error + cursor_window" where
  "read_cursor_window sid cursor d =
    (if sid = [] then Inl (StreamCursorError ''analysis_session_id must be non-empty'')
     else case require_cursor cursor of
       Inl e \<Rightarrow> Inl e
     | Inr c \<Rightarrow> Inr \<lparr> cw_deleted_through_id = stream_floor d sid, cw_latest_id = stream_cursor d sid,
         cw_cursor_exists = (c = 0 \<or> list_ex (\<lambda>r. se_session r = sid \<and> se_id r = c) (sd_events d)) \<rparr>)"

definition last_global_event_id :: "stream_db \<Rightarrow> int" where
  "last_global_event_id d = (if sd_events d = [] then 0 else Max (se_id ` set (sd_events d)))"

section \<open>How the tables change\<close>

text \<open>
  Every operation either appends rows with fresh increasing ids, or deletes rows whose id is
  at most the floor it leaves for their session.
\<close>

definition outbox_extends :: "stream_db \<Rightarrow> stream_db \<Rightarrow> bool" where
  "outbox_extends d d' \<longleftrightarrow> sd_sequence d \<le> sd_sequence d' \<and> sd_floors d' = sd_floors d \<and> sd_sessions d' = sd_sessions d \<and>
     (\<exists>new. sd_events d' = sd_events d @ new \<and> sorted_wrt (<) (map se_id new) \<and>
       (\<forall>r \<in> set new. sd_sequence d < se_id r \<and> se_id r \<le> sd_sequence d'))"

definition outbox_shrinks :: "stream_db \<Rightarrow> stream_db \<Rightarrow> bool" where
  "outbox_shrinks d d' \<longleftrightarrow> sd_sequence d' = sd_sequence d \<and> sd_sessions d' = sd_sessions d \<and>
     (\<exists>P. sd_events d' = filter P (sd_events d)) \<and>
     (\<forall>sid. stream_floor d sid \<le> stream_floor d' sid) \<and>
     (\<forall>r \<in> set (sd_events d). r \<notin> set (sd_events d') \<longrightarrow> se_id r \<le> stream_floor d' (se_session r))"

lemma extends_refl [simp]: "outbox_extends d d"
  by (simp add: outbox_extends_def)

lemma outbox_extends_trans:
  assumes "outbox_extends d d1" "outbox_extends d1 d2"
  shows "outbox_extends d d2"
proof -
  obtain n1 n2 where n: "sd_events d1 = sd_events d @ n1" "sd_events d2 = sd_events d1 @ n2"
    "sorted_wrt (<) (map se_id n1)" "sorted_wrt (<) (map se_id n2)"
    and b: "\<forall>r \<in> set n1. sd_sequence d < se_id r \<and> se_id r \<le> sd_sequence d1"
      "\<forall>r \<in> set n2. sd_sequence d1 < se_id r \<and> se_id r \<le> sd_sequence d2"
    and s: "sd_sequence d \<le> sd_sequence d1" "sd_sequence d1 \<le> sd_sequence d2"
    using assms unfolding outbox_extends_def by blast
  have "sorted_wrt (<) (map se_id (n1 @ n2))"
    using n b by (auto simp: sorted_wrt_append) (metis le_less_trans)
  moreover have "\<forall>r \<in> set (n1 @ n2). sd_sequence d < se_id r \<and> se_id r \<le> sd_sequence d2" using b s by fastforce
  moreover have "sd_events d2 = sd_events d @ n1 @ n2" using n by simp
  ultimately show ?thesis using assms s unfolding outbox_extends_def by (metis order_trans)
qed

lemma insert_extends: "outbox_extends d (fst (insert_stream_row burns row d))"
  by (simp add: insert_stream_row_def outbox_extends_def)

lemma insert_stream_row_pair:
  "insert_stream_row burns row d = (d', n) \<Longrightarrow> outbox_extends d d'"
  using insert_extends [of d burns row] by simp

lemma append_loop_extends: "append_loop burns now a seen events d = Inr (d', n) \<Longrightarrow> outbox_extends d d'"
proof (induction events arbitrary: seen d n)
  case (Cons e events)
  obtain d1 n1 where i: "insert_stream_row burns (outbox_row now a e) d = (d1, n1)" by fastforce
  from Cons.prems i obtain n2 where "append_loop burns now a (ec_key e # seen) events d1 = Inr (d', n2)"
    by (auto split: option.splits sum.splits)
  from Cons.IH [OF this] insert_stream_row_pair [OF i] show ?case by (rule outbox_extends_trans [rotated])
qed simp

lemma append_extends: "append_stream_events burns now a events d = Inr (d', n) \<Longrightarrow> outbox_extends d d'"
  by (auto simp: append_stream_events_def append_loop_extends split: option.splits)

lemma emit_extends: "outbox_extends d (emit_stream_event now sid heat message key type payload d)"
  by (simp add: emit_stream_event_def insert_extends)

lemma floor_raise:
  "stream_floor (raise_floor sid c d) s = (if s = sid then (case map_of (sd_floors d) sid of None \<Rightarrow> c | Some f \<Rightarrow> max f c) else stream_floor d s)"
  by (auto simp: stream_floor_def raise_floor_def update_conv)

lemma raise_floor_fields [simp]:
  "sd_events (raise_floor sid c d) = sd_events d" "sd_sequence (raise_floor sid c d) = sd_sequence d"
  "sd_sessions (raise_floor sid c d) = sd_sessions d"
  by (simp_all add: raise_floor_def)

lemma raise_floor_bounds: "0 \<le> c \<Longrightarrow> stream_floor d s \<le> stream_floor (raise_floor sid c d) s"
  "c \<le> stream_floor (raise_floor sid c d) sid"
  by (auto simp: stream_floor_def raise_floor_def update_conv split: option.splits)

definition raise_all :: "(string \<times> int) list \<Rightarrow> stream_db \<Rightarrow> stream_db" where
  "raise_all cursors d = fold (\<lambda>(sid, cursor). raise_floor sid cursor) cursors d"

lemma raise_all_Cons [simp]: "raise_all [] d = d" "raise_all ((s, c) # cs) d = raise_all cs (raise_floor s c d)"
  by (simp_all add: raise_all_def)

lemma raise_all_fields [simp]:
  "sd_events (raise_all cs d) = sd_events d" "sd_sequence (raise_all cs d) = sd_sequence d"
  "sd_sessions (raise_all cs d) = sd_sessions d"
  by (induction cs arbitrary: d) auto

lemma raise_all_mono: "\<forall>x \<in> set cs. 0 \<le> snd x \<Longrightarrow> stream_floor d s \<le> stream_floor (raise_all cs d) s"
proof (induction cs arbitrary: d)
  case (Cons x cs)
  have "0 \<le> snd x" using Cons.prems by simp
  moreover have "stream_floor (raise_floor (fst x) (snd x) d) s \<le> stream_floor (raise_all cs (raise_floor (fst x) (snd x) d)) s"
    using Cons by simp
  moreover have "raise_all (x # cs) d = raise_all cs (raise_floor (fst x) (snd x) d)" by (cases x) simp
  ultimately show ?case using order_trans [OF raise_floor_bounds(1)] by metis
qed simp

lemma raise_all_covers: "\<forall>x \<in> set cs. 0 \<le> snd x \<Longrightarrow> (s, c) \<in> set cs \<Longrightarrow> c \<le> stream_floor (raise_all cs d) s"
proof (induction cs arbitrary: d)
  case (Cons x cs)
  show ?case
  proof (cases "x = (s, c)")
    case True
    then show ?thesis
      using raise_all_mono [of cs "raise_floor s c d" s] raise_floor_bounds(2) [of c s d] Cons.prems(1) by simp
  next
    case False
    then have "(s, c) \<in> set cs" using Cons.prems(2) by auto
    then have "c \<le> stream_floor (raise_all cs (raise_floor (fst x) (snd x) d)) s" using Cons by simp
    then show ?thesis by (cases x) simp
  qed
qed simp

text \<open>The deletion loop keeps the largest deleted id of every session.\<close>

lemma set_alist_update: "set (AList.update k v d) \<subseteq> insert (k, v) (set d)"
  by (induction d) auto

definition deletion_ok :: "stream_db \<Rightarrow> stream_db \<times> (string \<times> int) list \<Rightarrow> bool" where
  "deletion_ok d st = (case st of (d', cursors) \<Rightarrow>
     sd_sequence d' = sd_sequence d \<and> sd_sessions d' = sd_sessions d \<and> sd_floors d' = sd_floors d \<and>
     (\<exists>P. sd_events d' = filter P (sd_events d)) \<and> distinct (map fst cursors) \<and>
     (\<forall>x \<in> set cursors. 0 \<le> snd x) \<and>
     (\<forall>r \<in> set (sd_events d). r \<notin> set (sd_events d') \<longrightarrow>
       (\<exists>c. map_of cursors (se_session r) = Some c \<and> se_id r \<le> c)))"

lemma delete_stream_event_ok:
  assumes ok: "deletion_ok d st" and inj: "distinct (map se_id (sd_events d))"
  shows "deletion_ok d (delete_stream_event before i st)"
proof -
  obtain d' cursors where st: "st = (d', cursors)" by fastforce
  show ?thesis
  proof (cases "find (\<lambda>r. se_id r = i \<and> se_created_at_us r < before \<and> is_closed d' (se_session r)) (sd_events d')")
    case None
    then show ?thesis using ok by (simp add: delete_stream_event_def st)
  next
    case (Some row)
    then have row: "row \<in> set (sd_events d')" "se_id row = i" by (auto simp: find_Some_iff)
    obtain P where P: "sd_events d' = filter P (sd_events d)" using ok by (auto simp: deletion_ok_def st)
    let ?c = "max (case map_of cursors (se_session row) of None \<Rightarrow> 0 | Some c \<Rightarrow> c) i"
    have e: "delete_stream_event before i st = (d'\<lparr> sd_events := filter (\<lambda>r. se_id r \<noteq> i) (sd_events d') \<rparr>,
        AList.update (se_session row) ?c cursors)"
      using Some by (simp add: delete_stream_event_def st)
    have one: "r = row" if "r \<in> set (sd_events d')" "se_id r = i" for r
      using inj that row P by (auto simp: distinct_map inj_on_def)
    have cur: "\<exists>c. map_of (AList.update (se_session row) ?c cursors) (se_session r) = Some c \<and> se_id r \<le> c"
      if m: "r \<in> set (sd_events d)" "\<not> (r \<in> set (sd_events d') \<and> se_id r \<noteq> i)" for r
    proof (cases "r \<in> set (sd_events d')")
      case True
      then show ?thesis using one m row by (auto simp: update_conv)
    next
      case False
      then obtain c where "map_of cursors (se_session r) = Some c" "se_id r \<le> c"
        using ok m(1) unfolding deletion_ok_def st prod.case by blast
      then show ?thesis by (cases "se_session r = se_session row") (auto simp: update_conv)
    qed
    have nn: "\<forall>x \<in> set (AList.update (se_session row) ?c cursors). 0 \<le> snd x"
    proof
      fix x assume "x \<in> set (AList.update (se_session row) ?c cursors)"
      moreover have "0 \<le> ?c"
      proof (cases "map_of cursors (se_session row)")
        case (Some c)
        then have "0 \<le> c" using ok by (force simp: deletion_ok_def st dest: map_of_SomeD)
        then show ?thesis using Some by simp
      qed simp
      ultimately show "0 \<le> snd x" using ok set_alist_update [of "se_session row" ?c cursors]
        unfolding deletion_ok_def st prod.case by auto
    qed
    have f: "filter (\<lambda>r. se_id r \<noteq> i) (sd_events d') = filter (\<lambda>r. P r \<and> se_id r \<noteq> i) (sd_events d)"
      unfolding P by (simp add: conj_commute)
    define cs where "cs = AList.update (se_session row) ?c cursors"
    let ?d = "d'\<lparr> sd_events := filter (\<lambda>r. se_id r \<noteq> i) (sd_events d') \<rparr>"
    have "sd_sequence ?d = sd_sequence d \<and> sd_sessions ?d = sd_sessions d \<and> sd_floors ?d = sd_floors d \<and> distinct (map fst cs)"
      using ok by (simp add: deletion_ok_def st cs_def distinct_update)
    moreover have "\<exists>P. sd_events ?d = filter P (sd_events d)" using f by auto
    moreover have "\<forall>x \<in> set cs. 0 \<le> snd x" using nn by (simp add: cs_def)
    moreover have "\<exists>c. map_of cs (se_session r) = Some c \<and> se_id r \<le> c"
      if "r \<in> set (sd_events d)" "r \<notin> set (sd_events ?d)" for r
      unfolding cs_def by (rule cur) (use that in auto)
    ultimately show ?thesis unfolding e deletion_ok_def prod.case cs_def [symmetric] by blast
  qed
qed

lemma retention_shrinks:
  assumes "distinct (map se_id (sd_events d))"
  shows "outbox_shrinks d (apply_stream_retention plan d)"
proof -
  obtain d' cursors where f: "fold (delete_stream_event (pl_stream_before_us plan)) (pl_stream_event_ids plan) (d, []) = (d', cursors)"
    by fastforce
  have "deletion_ok d st \<Longrightarrow> deletion_ok d (fold (delete_stream_event b) ids st)" for b ids st
  proof (induction ids arbitrary: st)
    case (Cons i ids)
    then show ?case using delete_stream_event_ok [OF Cons.prems assms] by simp
  qed simp
  moreover have "deletion_ok d (d, [])" by (auto simp: deletion_ok_def intro: exI [of _ "\<lambda>_. True"])
  ultimately have ok: "deletion_ok d (d', cursors)" using f by metis
  have a: "apply_stream_retention plan d = raise_all cursors d'"
    by (simp add: apply_stream_retention_def f raise_all_def)
  have nn: "\<forall>x \<in> set cursors. 0 \<le> snd x" using ok by (simp add: deletion_ok_def)
  have fl: "stream_floor d' s = stream_floor d s" for s using ok by (simp add: deletion_ok_def stream_floor_def)
  have "se_id r \<le> stream_floor (raise_all cursors d') (se_session r)"
    if r: "r \<in> set (sd_events d)" "r \<notin> set (sd_events d')" for r
  proof -
    obtain c where "map_of cursors (se_session r) = Some c" "se_id r \<le> c"
      using ok r by (auto simp: deletion_ok_def)
    then show ?thesis using raise_all_covers [OF nn map_of_SomeD] by (meson order_trans)
  qed
  moreover have "stream_floor d s \<le> stream_floor (raise_all cursors d') s" for s
    using raise_all_mono [OF nn, of d' s] fl by simp
  ultimately show ?thesis using ok unfolding a outbox_shrinks_def by (auto simp: deletion_ok_def)
qed

lemma stream_cursor_ge: "r \<in> set (sd_events d) \<Longrightarrow> se_id r \<le> stream_cursor d (se_session r)"
  unfolding stream_cursor_def Let_def by (auto simp: filter_empty_conv intro!: Max_ge)

lemma stream_cursor_mem:
  "stream_cursor d sid \<noteq> 0 \<Longrightarrow> \<exists>r \<in> set (sd_events d). se_session r = sid \<and> se_id r = stream_cursor d sid"
proof -
  let ?S = "{r \<in> set (sd_events d). se_session r = sid}"
  assume a: "stream_cursor d sid \<noteq> 0"
  then have n: "se_id ` ?S \<noteq> {}" and c: "stream_cursor d sid = Max (se_id ` ?S)"
    by (auto simp: stream_cursor_def Let_def filter_empty_conv split: if_splits)
  have "Max (se_id ` ?S) \<in> se_id ` ?S" using n by (intro Max_in) auto
  then show ?thesis using c by auto
qed

lemma reset_shrinks:
  assumes pos: "\<forall>r \<in> set (sd_events d). 0 < se_id r" and r: "reset_session_stream sid d = Some d'"
  shows "outbox_shrinks d d'"
proof -
  have p: "0 \<le> stream_cursor d sid" using pos stream_cursor_mem [of d sid] by (cases "stream_cursor d sid = 0") auto
  have d': "sd_events d' = filter (\<lambda>r. se_session r \<noteq> sid) (sd_events d)" "sd_sequence d' = sd_sequence d"
    "sd_sessions d' = sd_sessions d"
    "sd_floors d' = sd_floors (if stream_cursor d sid \<noteq> 0 then raise_floor sid (stream_cursor d sid) d else d)"
    using r by (auto simp: reset_session_stream_def Let_def split: if_splits)
  have fl: "stream_floor d' s = stream_floor (if stream_cursor d sid \<noteq> 0 then raise_floor sid (stream_cursor d sid) d else d) s" for s
    by (simp add: stream_floor_def d'(4))
  have "se_id e \<le> stream_floor d' (se_session e)" if e: "e \<in> set (sd_events d)" "se_session e = sid" for e
  proof -
    have "se_id e \<le> stream_cursor d sid" "0 < se_id e" using stream_cursor_ge [OF e(1)] e pos by auto
    then show ?thesis using raise_floor_bounds(2) [of "stream_cursor d sid" sid d] unfolding fl e(2) by auto
  qed
  moreover have "stream_floor d s \<le> stream_floor d' s" for s
    unfolding fl using raise_floor_bounds(1) [OF p] by auto
  ultimately show ?thesis unfolding outbox_shrinks_def d' by auto
qed

section \<open>The outbox as a machine\<close>

text \<open>
  The writers of the outbox. A failed append is rolled back, a refused rebuild changes
  nothing, a retention plan may be stale or invented, and the session table is the one of
  the lifecycle component. The state is paired with every row ever appended.
\<close>

datatype stream_command =
    Append bool int stream_origin "stream_candidate list"
  | Emit int string "int option" int string string json
  | Retain stream_plan
  | Reset_Session string
  | Set_Sessions "session_row list"

fun stream_step :: "stream_db \<Rightarrow> stream_command \<Rightarrow> stream_db" where
  "stream_step d (Append burns now a events) =
    (case append_stream_events burns now a events d of Inl _ \<Rightarrow> d | Inr (d', _) \<Rightarrow> d')"
| "stream_step d (Emit now sid heat message key type payload) = emit_stream_event now sid heat message key type payload d"
| "stream_step d (Retain plan) = apply_stream_retention plan d"
| "stream_step d (Reset_Session sid) = (case reset_session_stream sid d of None \<Rightarrow> d | Some d' \<Rightarrow> d')"
| "stream_step d (Set_Sessions rows) = d\<lparr> sd_sessions := rows \<rparr>"

definition logged_step :: "stream_db \<times> stream_row list \<Rightarrow> stream_command \<Rightarrow> stream_db \<times> stream_row list" where
  "logged_step st c = (let d' = stream_step (fst st) c
     in (d', snd st @ filter (\<lambda>r. sd_sequence (fst st) < se_id r) (sd_events d')))"

definition outbox_ok :: "stream_db \<times> stream_row list \<Rightarrow> bool" where
  "outbox_ok st = (case st of (d, history) \<Rightarrow>
     0 \<le> sd_sequence d \<and> sorted_wrt (<) (map se_id history) \<and>
     (\<forall>r \<in> set history. 0 < se_id r \<and> se_id r \<le> sd_sequence d) \<and>
     (\<exists>P. sd_events d = filter P history) \<and>
     (\<forall>r \<in> set history. r \<notin> set (sd_events d) \<longrightarrow> se_id r \<le> stream_floor d (se_session r)))"

lemma outbox_okD:
  assumes "outbox_ok (d, h)"
  shows "sorted_wrt (<) (map se_id h)" "sorted_wrt (<) (map se_id (sd_events d))"
    "distinct (map se_id (sd_events d))" "set (sd_events d) \<subseteq> set h"
    "\<forall>r \<in> set h. 0 < se_id r \<and> se_id r \<le> sd_sequence d" "0 \<le> sd_sequence d"
    "\<forall>r \<in> set h. r \<notin> set (sd_events d) \<longrightarrow> se_id r \<le> stream_floor d (se_session r)"
proof -
  obtain P where P: "sd_events d = filter P h" and s: "sorted_wrt (<) (map se_id h)"
    using assms by (auto simp: outbox_ok_def)
  show e: "sorted_wrt (<) (map se_id (sd_events d))"
    using s unfolding P sorted_wrt_map by (rule sorted_wrt_filter)
  then show "distinct (map se_id (sd_events d))" by (simp add: strict_sorted_iff)
qed (use assms in \<open>auto simp: outbox_ok_def\<close>)

lemma extends_ok:
  assumes ok: "outbox_ok (d, h)" and x: "outbox_extends d d'"
  shows "outbox_ok (d', h @ filter (\<lambda>r. sd_sequence d < se_id r) (sd_events d'))"
proof -
  note o = outbox_okD [OF ok]
  obtain new where new: "sd_events d' = sd_events d @ new" "sorted_wrt (<) (map se_id new)"
    "\<forall>r \<in> set new. sd_sequence d < se_id r \<and> se_id r \<le> sd_sequence d'"
    and f: "sd_sequence d \<le> sd_sequence d'" "sd_floors d' = sd_floors d"
    using x by (auto simp: outbox_extends_def)
  obtain P where P: "sd_events d = filter P h" using ok by (auto simp: outbox_ok_def)
  have n: "filter (\<lambda>r. sd_sequence d < se_id r) (sd_events d') = new"
  proof -
    have "filter (\<lambda>r. sd_sequence d < se_id r) (sd_events d) = []" using o(4,5) by (fastforce simp: filter_empty_conv)
    then show ?thesis using new by (simp add: filter_id_conv)
  qed
  have "sorted_wrt (<) (map se_id (h @ new))"
    using o(1,5) new by (auto simp: sorted_wrt_append) (meson le_less_trans)
  moreover have "sd_events d' = filter (\<lambda>r. if sd_sequence d < se_id r then True else P r) (h @ new)"
  proof -
    have "filter (\<lambda>r. if sd_sequence d < se_id r then True else P r) h = filter P h"
      using o(5) by (intro filter_cong) auto
    moreover have "filter (\<lambda>r. if sd_sequence d < se_id r then True else P r) new = new"
      using new(3) by (simp add: filter_id_conv)
    ultimately show ?thesis using new(1) P by simp
  qed
  moreover have "stream_floor d' s = stream_floor d s" for s using f by (simp add: stream_floor_def)
  moreover have "\<forall>r \<in> set (h @ new). 0 < se_id r \<and> se_id r \<le> sd_sequence d'" using o(5,6) f new(3) by fastforce
  moreover have "\<forall>r \<in> set (h @ new). r \<notin> set (sd_events d') \<longrightarrow> se_id r \<le> stream_floor d (se_session r)"
    using o(7) new(1) by auto
  moreover have "0 \<le> sd_sequence d'" using o(6) f(1) by simp
  ultimately show ?thesis unfolding n outbox_ok_def prod.case by metis
qed

lemma shrinks_ok:
  assumes ok: "outbox_ok (d, h)" and x: "outbox_shrinks d d'"
  shows "outbox_ok (d', h @ filter (\<lambda>r. sd_sequence d < se_id r) (sd_events d'))"
proof -
  note o = outbox_okD [OF ok]
  obtain P Q where P: "sd_events d = filter P h" "sd_events d' = filter Q (sd_events d)"
    using ok x by (auto simp: outbox_ok_def outbox_shrinks_def)
  have n: "filter (\<lambda>r. sd_sequence d < se_id r) (sd_events d') = []"
    using o(4,5) P by (auto simp: filter_empty_conv)
  have e: "sd_events d' = filter (\<lambda>r. P r \<and> Q r) h" using P by simp
  have "se_id r \<le> stream_floor d' (se_session r)" if r: "r \<in> set h" "r \<notin> set (sd_events d')" for r
  proof (cases "r \<in> set (sd_events d)")
    case True
    then show ?thesis using x r by (simp add: outbox_shrinks_def)
  next
    case False
    then have "se_id r \<le> stream_floor d (se_session r)" using o(7) r by simp
    also have "\<dots> \<le> stream_floor d' (se_session r)" using x by (simp add: outbox_shrinks_def)
    finally show ?thesis .
  qed
  then show ?thesis using o x e unfolding n outbox_ok_def prod.case append_Nil2 by (auto simp: outbox_shrinks_def)
qed

lemma stream_step_changes:
  assumes "outbox_ok (d, h)"
  shows "outbox_extends d (stream_step d c) \<or> outbox_shrinks d (stream_step d c) \<or>
    (\<exists>rows. stream_step d c = d\<lparr> sd_sessions := rows \<rparr>)"
proof (cases c)
  case (Append burns now a events)
  then show ?thesis by (auto simp: append_extends split: sum.splits)
next
  case (Reset_Session sid)
  have "\<forall>r \<in> set (sd_events d). 0 < se_id r" using outbox_okD [OF assms] by auto
  then show ?thesis using Reset_Session by (auto split: option.splits dest: reset_shrinks)
qed (use outbox_okD [OF assms] in \<open>auto simp: emit_extends intro: retention_shrinks\<close>)

lemma logged_step_ok: "outbox_ok st \<Longrightarrow> outbox_ok (logged_step st c)"
proof (cases st)
  case (Pair d h)
  assume ok: "outbox_ok st"
  consider "outbox_extends d (stream_step d c)" | "outbox_shrinks d (stream_step d c)"
    | rows where "stream_step d c = d\<lparr> sd_sessions := rows \<rparr>"
    using stream_step_changes ok Pair by metis
  then show ?thesis
  proof cases
    case 3
    have n: "filter (\<lambda>r. sd_sequence d < se_id r) (sd_events d) = []"
      using outbox_okD(4,5) [of d h] ok Pair by (fastforce simp: filter_empty_conv)
    show ?thesis using ok n unfolding Pair by (simp add: logged_step_def 3 outbox_ok_def stream_floor_def)
  qed (use ok extends_ok shrinks_ok Pair in \<open>auto simp: logged_step_def Let_def\<close>)
qed

interpretation outbox: invariant_machine logged_step "\<lambda>st. st = (empty_stream_db, [])" outbox_ok
proof unfold_locales
  show "outbox_ok (logged_step st c)" if "outbox_ok st" for st c by (rule logged_step_ok [OF that])
qed (simp add: outbox_ok_def empty_stream_db_def)

definition run_outbox :: "stream_command list \<Rightarrow> stream_db \<times> stream_row list" where
  "run_outbox cs = foldl logged_step (empty_stream_db, []) cs"

lemma run_outbox_ok: "outbox_ok (run_outbox cs)"
  unfolding run_outbox_def by (rule outbox.reachable_inv) simp

lemma run_outbox_snoc [simp]: "run_outbox (cs @ [c]) = logged_step (run_outbox cs) c"
  by (simp add: run_outbox_def)

section \<open>Cursors\<close>

definition events_after :: "string \<Rightarrow> int \<Rightarrow> stream_row list \<Rightarrow> stream_row list" where
  "events_after sid cursor rows = filter (\<lambda>r. se_session r = sid \<and> cursor < se_id r) rows"

lemma filter_of_filter_same:
  "(\<forall>x \<in> set xs. Q x \<longrightarrow> P x) \<Longrightarrow> filter Q (filter P xs) = filter Q xs"
  by (induction xs) auto

lemma above_floor_retained:
  assumes ok: "outbox_ok (d, h)" and c: "stream_floor d sid \<le> cursor"
  shows "events_after sid cursor (sd_events d) = events_after sid cursor h"
proof -
  obtain P where P: "sd_events d = filter P h" using ok by (auto simp: outbox_ok_def)
  have "\<forall>r \<in> set h. se_session r = sid \<and> cursor < se_id r \<longrightarrow> P r"
    using outbox_okD(7) [OF ok] c P by fastforce
  then show ?thesis unfolding events_after_def P by (rule filter_of_filter_same)
qed

lemma sort_key_sorted: "sorted_wrt (<) (map f xs) \<Longrightarrow> sort_key f xs = (xs :: 'a list)"
  for f :: "'a \<Rightarrow> int"
  by (simp add: sorted_sort_id strict_sorted_iff sort_key_id_if_sorted)

lemma select_session_events:
  assumes "outbox_ok (d, h)"
  shows "select_events after n (Some sid) d = take n (events_after sid after (sd_events d))"
proof -
  have "sorted_wrt (<) (map se_id (filter (\<lambda>r. after < se_id r \<and> se_session r = sid) (sd_events d)))"
    using outbox_okD(2) [OF assms] unfolding sorted_wrt_map by (rule sorted_wrt_filter)
  then show ?thesis by (simp add: select_events_def sort_key_sorted events_after_def conj_commute)
qed

text \<open>C7. A client's cursor that the stream accepts is exact: when the cursor window of a
  session asks for no reset, the rows the outbox still holds after the cursor are all rows
  ever appended to the session after it, in order, whatever appends, retention passes (even
  stale plans), rebuilds and lifecycle changes came before; the replay read returns the
  first of them.\<close>
theorem accepted_cursor_replays_exactly:
  assumes "run_outbox cs = (d, history)" "read_cursor_window sid cursor d = Inr window" "\<not> requires_reset window cursor"
  shows "events_after sid cursor (sd_events d) = events_after sid cursor history \<and>
    read_stream_events sid cursor 128 d = Inr (take 128 (events_after sid cursor history))"
proof -
  have ok: "outbox_ok (d, history)" using run_outbox_ok [of cs] assms(1) by simp
  have w: "sid \<noteq> []" "0 \<le> cursor" "cw_deleted_through_id window = stream_floor d sid"
    using assms(2) by (auto simp: read_cursor_window_def require_cursor_def split: if_splits)
  have "stream_floor d sid = 0 \<or> stream_floor d sid < cursor"
    using assms(3) w(3) by (auto simp: requires_reset_def split: if_splits)
  then have e: "events_after sid cursor (sd_events d) = events_after sid cursor history"
    using above_floor_retained [OF ok, of sid cursor] w(2) by auto
  then show ?thesis using w(1,2)
    by (simp add: read_stream_events_def require_cursor_def require_limit_def select_session_events [OF ok])
qed

definition demo_origin :: stream_origin where
  "demo_origin = \<lparr> so_session = ''s'', so_heat = 1, so_frame = 1, so_message = None, so_source_key = ''1:1'',
     so_observed_at_us = 5 \<rparr>"

definition demo_candidate :: "string \<Rightarrow> stream_candidate" where
  "demo_candidate key = \<lparr> ec_type = ''lap'', ec_key = key, ec_payload = JObj [] \<rparr>"

lemma accepted_cursor_replays_exactly_witness:
  "\<exists>d history window. run_outbox [Append False 7 demo_origin [demo_candidate ''a'', demo_candidate ''b'']] = (d, history) \<and>
    read_cursor_window ''s'' 1 d = Inr window \<and> \<not> requires_reset window 1 \<and>
    length (events_after ''s'' 1 (sd_events d)) = 1 \<and>
    events_after ''s'' 1 (sd_events d) = events_after ''s'' 1 history"
proof -
  obtain d h where r: "run_outbox [Append False 7 demo_origin [demo_candidate ''a'', demo_candidate ''b'']] = (d, h)" by fastforce
  have d: "d = fst (run_outbox [Append False 7 demo_origin [demo_candidate ''a'', demo_candidate ''b'']])" by (simp add: r)
  define w where "w = \<lparr> cw_deleted_through_id = 0, cw_latest_id = 2, cw_cursor_exists = True \<rparr>"
  have w: "read_cursor_window ''s'' 1 d = Inr w" "\<not> requires_reset w 1"
    "length (events_after ''s'' 1 (sd_events d)) = 1"
    unfolding d w_def by code_simp+
  from accepted_cursor_replays_exactly [OF r w(1,2)] show ?thesis using r w by blast
qed

section \<open>Exactly-once appends\<close>

definition fresh_candidates :: "stream_db \<Rightarrow> string \<Rightarrow> stream_candidate list \<Rightarrow> stream_candidate list" where
  "fresh_candidates d sid events = filter (\<lambda>e. \<not> key_taken d sid (Some (ec_key e))) events"

definition candidates_ok :: "stream_candidate list \<Rightarrow> bool" where
  "candidates_ok events = (distinct (map ec_key events) \<and> list_all (\<lambda>e. candidate_error [] e = None) events)"

lemma candidate_error_seen:
  "candidate_error seen e = None \<longleftrightarrow> candidate_error [] e = None \<and> ec_key e \<notin> set seen"
  by (auto simp: candidate_error_def split: json.splits if_splits)

lemma append_loop_accepts:
  "(\<exists>r. append_loop burns now a seen events d = Inr r) \<longleftrightarrow>
    candidates_ok events \<and> set seen \<inter> ec_key ` set events = {}"
proof (induction events arbitrary: seen d)
  case (Cons e events)
  obtain d' n where i: "insert_stream_row burns (outbox_row now a e) d = (d', n)" by fastforce
  have "(\<exists>r. append_loop burns now a seen (e # events) d = Inr r) \<longleftrightarrow>
      candidate_error seen e = None \<and> (\<exists>r. append_loop burns now a (ec_key e # seen) events d' = Inr r)"
    by (auto simp: i split: option.splits sum.splits)
  then show ?case unfolding Cons.IH candidate_error_seen [of seen] by (auto simp: candidates_ok_def)
qed (simp add: candidates_ok_def)

lemma key_taken_insert:
  "insert_stream_row burns row d = (d', n) \<Longrightarrow> key_taken d' sid (Some k) \<longleftrightarrow>
    key_taken d sid (Some k) \<or> (se_session row = sid \<and> se_key row = Some k)"
  by (auto simp: insert_stream_row_def key_taken_def list_ex_iff split: if_splits)

lemma append_loop_writes:
  assumes "append_loop burns now a seen events d = Inr (d', n)"
  shows "\<exists>new. sd_events d' = sd_events d @ new \<and> n = length new \<and>
    map (\<lambda>r. r\<lparr> se_id := 0 \<rparr>) new = map (outbox_row now a) (fresh_candidates d (so_session a) events)"
  using assms
proof (induction events arbitrary: seen d n)
  case (Cons e events)
  let ?s = "so_session a"
  obtain d1 n1 where i: "insert_stream_row burns (outbox_row now a e) d = (d1, n1)" by fastforce
  obtain n2 where l: "append_loop burns now a (ec_key e # seen) events d1 = Inr (d', n2)"
    and n: "n = n1 + n2" using Cons.prems i by (auto split: option.splits sum.splits)
  obtain new where new: "sd_events d' = sd_events d1 @ new" "n2 = length new"
    "map (\<lambda>r. r\<lparr> se_id := 0 \<rparr>) new = map (outbox_row now a) (fresh_candidates d1 ?s events)"
    using Cons.IH [OF l] by auto
  have "ec_key e \<notin> ec_key ` set events"
    using append_loop_accepts [of burns now a "ec_key e # seen" events d1] l by auto
  then have f: "fresh_candidates d1 ?s events = fresh_candidates d ?s events"
    unfolding fresh_candidates_def using key_taken_insert [OF i]
    by (intro filter_cong) (auto simp: outbox_row_def)
  have kt: "key_taken d (se_session (outbox_row now a e)) (se_key (outbox_row now a e)) =
      key_taken d ?s (Some (ec_key e))" by (simp add: outbox_row_def)
  show ?case
  proof (cases "key_taken d ?s (Some (ec_key e))")
    case True
    then have "sd_events d1 = sd_events d" "n1 = 0" using i kt by (auto simp: insert_stream_row_def)
    then show ?thesis using new n f True by (simp add: fresh_candidates_def)
  next
    case False
    then have d1: "sd_events d1 = sd_events d @ [(outbox_row now a e)\<lparr> se_id := sd_sequence d + 1 \<rparr>]" "n1 = 1"
      using i kt by (auto simp: insert_stream_row_def)
    show ?thesis
      using new n f False d1
      by (intro exI [of _ "(outbox_row now a e)\<lparr> se_id := sd_sequence d + 1 \<rparr> # new"])
         (auto simp: fresh_candidates_def outbox_row_def)
  qed
qed (simp add: fresh_candidates_def)

text \<open>C31. An append is accepted exactly for a valid origin and candidates of known types with
  non-empty, pairwise different keys of at most 500 characters and JSON object payloads.\<close>
theorem append_accepted_iff:
  "(\<exists>r. append_stream_events burns now a events d = Inr r) \<longleftrightarrow>
    origin_error a = None \<and> distinct (map ec_key events) \<and>
    list_all (\<lambda>e. ec_type e \<in> set STREAM_EVENT_TYPES \<and> ec_key e \<noteq> [] \<and> length (ec_key e) \<le> 500 \<and>
      (case ec_payload e of JObj _ \<Rightarrow> dumps (ec_payload e) \<noteq> None | _ \<Rightarrow> False)) events"
proof -
  have c: "candidate_error [] e = None \<longleftrightarrow> ec_type e \<in> set STREAM_EVENT_TYPES \<and> ec_key e \<noteq> [] \<and> length (ec_key e) \<le> 500 \<and>
      (case ec_payload e of JObj _ \<Rightarrow> dumps (ec_payload e) \<noteq> None | _ \<Rightarrow> False)" for e
    by (auto simp: candidate_error_def split: json.splits)
  show ?thesis
    using append_loop_accepts [of burns now a "[]" events d]
    by (auto simp: append_stream_events_def candidates_ok_def c split: option.splits)
qed

text \<open>C30. Appends are exactly once: an accepted append writes, in order, one row for every
  candidate whose key its session does not hold yet, and returns their number; delivered
  again after any number of further appends it writes no row and returns 0.\<close>
theorem append_exactly_once:
  assumes "append_stream_events burns now a events d = Inr (d1, written)" "outbox_extends d1 d2"
  shows "(\<exists>new. sd_events d1 = sd_events d @ new \<and> written = length new \<and>
      map (\<lambda>r. r\<lparr> se_id := 0 \<rparr>) new = map (outbox_row now a) (fresh_candidates d (so_session a) events)) \<and>
    (\<exists>d3. append_stream_events burns' now' a events d2 = Inr (d3, 0) \<and> sd_events d3 = sd_events d2)"
proof -
  have l: "append_loop burns now a [] events d = Inr (d1, written)" and o: "origin_error a = None"
    using assms(1) by (auto simp: append_stream_events_def split: option.splits)
  obtain new where new: "sd_events d1 = sd_events d @ new" "written = length new"
      "map (\<lambda>r. r\<lparr> se_id := 0 \<rparr>) new = map (outbox_row now a) (fresh_candidates d (so_session a) events)"
    using append_loop_writes [OF l] by auto
  have "key_taken d1 (so_session a) (Some (ec_key e))" if e: "e \<in> set events" for e
  proof (cases "key_taken d (so_session a) (Some (ec_key e))")
    case True
    then show ?thesis using new(1) by (auto simp: key_taken_def)
  next
    case False
    then have "outbox_row now a e \<in> set (map (outbox_row now a) (fresh_candidates d (so_session a) events))"
      using e by (auto simp: fresh_candidates_def)
    then obtain r where "r \<in> set new" "r\<lparr> se_id := 0 \<rparr> = outbox_row now a e" unfolding new(3) [symmetric] by auto
    then have "r \<in> set new" "se_session r = so_session a" "se_key r = Some (ec_key e)"
      by (auto simp: outbox_row_def stream_row.defs dest!: arg_cong [of _ _ "\<lambda>r. (se_session r, se_key r)"])
    then show ?thesis using new(1) by (auto simp: key_taken_def list_ex_iff)
  qed
  then have "key_taken d2 (so_session a) (Some (ec_key e))" if "e \<in> set events" for e
    using that assms(2) by (fastforce simp: key_taken_def outbox_extends_def list_ex_iff)
  then have none: "fresh_candidates d2 (so_session a) events = []" by (simp add: fresh_candidates_def filter_empty_conv)
  obtain d3 m where r: "append_loop burns' now' a [] events d2 = Inr (d3, m)"
    using append_loop_accepts [of burns' now' a "[]" events d2] append_loop_accepts [of burns now a "[]" events d] l by auto
  from append_loop_writes [OF r] none have "m = 0" "sd_events d3 = sd_events d2" by auto
  then show ?thesis using new r o by (auto simp: append_stream_events_def)
qed

lemma append_exactly_once_witness:
  "\<exists>d1 d3. append_stream_events False 7 demo_origin [demo_candidate ''a''] empty_stream_db = Inr (d1, 1) \<and>
    append_stream_events True 8 demo_origin [demo_candidate ''a''] d1 = Inr (d3, 0) \<and> sd_events d3 = sd_events d1"
proof -
  define d1 where "d1 = \<lparr> sd_events = [(outbox_row 7 demo_origin (demo_candidate ''a''))\<lparr> se_id := 1 \<rparr>],
    sd_sequence = 1, sd_floors = [], sd_sessions = [] \<rparr>"
  have a: "append_stream_events False 7 demo_origin [demo_candidate ''a''] empty_stream_db = Inr (d1, 1)"
    unfolding d1_def by code_simp
  from append_exactly_once [OF a extends_refl, of True 8] a show ?thesis by blast
qed

text \<open>A cursor survives the wire: the decimal text of an id in SQLite's range is read
  back as that id; a text that is read is decimal and in range; everything else that is not
  empty is refused.\<close>
theorem last_event_id_round_trip:
  "(if 0 \<le> i \<and> i \<le> 9223372036854775807 then parse_last_event_id (Some (int_text i)) = Inr (Some i)
    else (\<exists>e. parse_last_event_id (Some (int_text i)) = Inl e)) \<and>
   (case parse_last_event_id (Some s) of
      Inr (Some c) \<Rightarrow> ascii_digits s \<and> c = digits_value s \<and> 0 \<le> c \<and> c \<le> 9223372036854775807
    | Inr None \<Rightarrow> s = []
    | Inl _ \<Rightarrow> s \<noteq> [])"
proof
  have len: "n < 10 ^ Suc k \<Longrightarrow> length (nat_digits n) \<le> Suc k" for n k
  proof (induction k arbitrary: n)
    case 0
    then show ?case by (subst nat_digits.simps) simp
  next
    case (Suc k)
    have "n div 10 < 10 ^ Suc k" using Suc.prems by (simp add: less_mult_imp_div_less)
    then show ?case using Suc.IH [of "n div 10"] by (subst nat_digits.simps) simp
  qed
  have pos: "parse_last_event_id (Some (int_text i)) = Inr (Some i)" if i: "0 \<le> i" "i \<le> 9223372036854775807"
  proof -
    have "nat i < 10 ^ Suc 18" using i by simp
    then have "length (nat_digits (nat i)) \<le> 19" using len [of "nat i" 18] by simp
    then show ?thesis
      using nat_digits_correct [of "nat i"] i
      by (auto simp: parse_last_event_id_def int_text_def ascii_digits_def)
  qed
  have big: "\<exists>e. parse_last_event_id (Some (int_text i)) = Inl e" if i: "9223372036854775807 < i"
    using nat_digits_correct [of "nat i"] i
    by (auto simp: parse_last_event_id_def int_text_def ascii_digits_def)
  have neg: "\<exists>e. parse_last_event_id (Some (int_text i)) = Inl e" if "i < 0"
    using that by (auto simp: parse_last_event_id_def int_text_def ascii_digits_def is_ascii_digit_def)
  show "if 0 \<le> i \<and> i \<le> 9223372036854775807 then parse_last_event_id (Some (int_text i)) = Inr (Some i)
    else (\<exists>e. parse_last_event_id (Some (int_text i)) = Inl e)"
    using pos big neg by (cases "0 \<le> i"; cases "i \<le> 9223372036854775807") auto
qed (auto simp: parse_last_event_id_def digits_value_nonneg)

end
