(* ===== verification/Sse_Frames.thy ===== *)
theory Sse_Frames
  imports Stream_Outbox
begin

text \<open>
  What the live stream writes on the wire: \<open>json.dumps\<close> with \<open>ensure_ascii=False\<close>, the frames
  of \<open>format_sse_event\<close> and \<open>format_sse_comment\<close> (\<open>server/timing/sse.py\<close>) and the public
  event payload of \<open>server/timing/api.py\<close>. The text is the one before UTF-8 encoding; the
  decimal text of a float is the parameter \<open>float_text\<close>.
\<close>

section \<open>JSON text\<close>

fun join :: "string \<Rightarrow> string list \<Rightarrow> string" where
  "join sep [] = []"
| "join sep [x] = x"
| "join sep (x # y # xs) = x @ sep @ join sep (y # xs)"

definition hex_digit :: "nat \<Rightarrow> char" where
  "hex_digit n = char_of (if n < 10 then 48 + n else 87 + n)"

text \<open>The escapes of \<open>json.encoder.ESCAPE\<close>: quote, backslash and the C0 controls.\<close>

definition escape_char :: "char \<Rightarrow> string" where
  "escape_char c = (let n = code_point c in
     if n = 34 then [char_of (92::nat), char_of (34::nat)]
     else if n = 92 then [char_of (92::nat), char_of (92::nat)]
     else if n = 10 then char_of (92::nat) # ''n''
     else if n = 13 then char_of (92::nat) # ''r''
     else if n = 9 then char_of (92::nat) # ''t''
     else if n = 12 then char_of (92::nat) # ''f''
     else if n = 8 then char_of (92::nat) # ''b''
     else if n < 32 then char_of (92::nat) # ''u00'' @ [hex_digit (n div 16), hex_digit (n mod 16)]
     else [c])"

definition json_quote :: "string \<Rightarrow> string" where
  "json_quote s = char_of (34::nat) # concat (map escape_char s) @ [char_of (34::nat)]"

fun encode_json :: "(rat \<Rightarrow> string) \<Rightarrow> json \<Rightarrow> string" where
  "encode_json ft JNull = ''null''"
| "encode_json ft (JBool b) = (if b then ''true'' else ''false'')"
| "encode_json ft (JNum n) = (case n of PyInt i \<Rightarrow> int_text i | PyFloat q \<Rightarrow> ft q
    | PyInf \<Rightarrow> ''Infinity'' | PyNegInf \<Rightarrow> ''-Infinity'' | PyNaN \<Rightarrow> ''NaN'')"
| "encode_json ft (JStr s) = json_quote s"
| "encode_json ft (JList xs) = ''['' @ join '','' (map (encode_json ft) xs) @ '']''"
| "encode_json ft (JObj kvs) = ''{'' @ join '','' (map (\<lambda>kv. json_quote (fst kv) @ '':'' @ encode_json ft (snd kv)) kvs) @ ''}''"

section \<open>Frames\<close>

definition LF :: char where "LF = char_of (10::nat)"

definition is_line_break :: "char \<Rightarrow> bool" where
  "is_line_break c = (code_point c \<in> {10, 11, 12, 13, 28, 29, 30, 133})"

text \<open>\<open>str.splitlines()\<close> on Latin-1 text: a carriage return and line feed are one break.\<close>

fun split_lines :: "string \<Rightarrow> string list" where
  "split_lines [] = []"
| "split_lines [c] = (if is_line_break c then [[]] else [[c]])"
| "split_lines (c # d # s) =
    (if code_point c = 13 \<and> code_point d = 10 then [] # split_lines s
     else if is_line_break c then [] # split_lines (d # s)
     else (case split_lines (d # s) of [] \<Rightarrow> [[c]] | l # ls \<Rightarrow> (c # l) # ls))"

datatype frame_error = ValueError string

definition format_sse_event ::
    "(rat \<Rightarrow> string) \<Rightarrow> string \<Rightarrow> json \<Rightarrow> int option \<Rightarrow> int option \<Rightarrow> frame_error + string" where
  "format_sse_event ft event_type payload event_id retry_ms =
    (if event_type = [] \<or> list_ex (\<lambda>c. code_point c = 10 \<or> code_point c = 13) event_type
     then Inl (ValueError ''SSE event_type must be one line'')
     else if (case event_id of None \<Rightarrow> False | Some i \<Rightarrow> i < 0)
     then Inl (ValueError ''SSE event_id must be a non-negative integer or None'')
     else if (case retry_ms of None \<Rightarrow> False | Some i \<Rightarrow> i < 0)
     then Inl (ValueError ''SSE retry_ms must be a non-negative integer or None'')
     else (case dumps payload of
         None \<Rightarrow> Inl (ValueError ''Out of range float values are not JSON compliant'')
       | Some value \<Rightarrow>
          (let encoded = encode_json ft value;
               retry = (case retry_ms of None \<Rightarrow> [] | Some i \<Rightarrow> [''retry: '' @ int_text i]);
               ident = (case event_id of None \<Rightarrow> [] | Some i \<Rightarrow> [''id: '' @ int_text i]);
               data = (if split_lines encoded = [] then [[]] else split_lines encoded)
           in Inr (join [LF] (retry @ ident @ [''event: '' @ event_type] @ map (\<lambda>line. ''data: '' @ line) data)
                @ [LF, LF]))))"

definition format_sse_comment :: "string \<Rightarrow> string" where
  "format_sse_comment v = '': '' @ join '' '' (split_lines v) @ [LF, LF]"

text \<open>\<open>StreamEvent.generation\<close> and \<open>_sse_event_payload\<close>.\<close>

definition event_generation :: "stream_row \<Rightarrow> json" where
  "event_generation e = (case se_payload e of
     JObj d \<Rightarrow> (case jget ''generation'' d of JNum (PyInt i) \<Rightarrow> JInt i | _ \<Rightarrow> JNull)
   | _ \<Rightarrow> JNull)"

definition sse_event_payload :: "stream_row \<Rightarrow> string \<times> json" where
  "sse_event_payload e =
    (let event_type = (if se_type e \<in> set STREAM_EVENT_TYPES then se_type e else ''alert'');
         source = (case se_payload e of JObj d \<Rightarrow> d | _ \<Rightarrow> []);
         data = (case map_of source ''data'' of Some v \<Rightarrow> v | None \<Rightarrow> JObj source)
     in (event_type, JObj
       [(''schema_version'', JStr ''timing-live.v1''), (''sequence'', JInt (se_id e)),
        (''session_id'', JStr (se_session e)), (''source_heat_id'', opt_json JInt (se_heat e)),
        (''source_frame_id'', opt_json JInt (se_frame e)), (''source_message_id'', opt_json JInt (se_message e)),
        (''source_key'', opt_json JStr (se_source_key e)), (''observed_at_us'', opt_json JInt (se_observed_at_us e)),
        (''generation'', event_generation e), (''type'', JStr event_type), (''data'', data)]))"

section \<open>The receiving side\<close>

text \<open>
  The event-stream format, as a specification: lines end at a line feed or a carriage
  return, a field is the text before the first colon, one space after it is dropped, the
  \<open>data\<close> lines are joined by line feeds, and a blank line dispatches the event.
\<close>

fun split_char :: "(char \<Rightarrow> bool) \<Rightarrow> string \<Rightarrow> string list" where
  "split_char P [] = [[]]"
| "split_char P (c # s) = (if P c then [] # split_char P s
     else (case split_char P s of [] \<Rightarrow> [[c]] | l # ls \<Rightarrow> (c # l) # ls))"

definition ends_line :: "char \<Rightarrow> bool" where
  "ends_line c = (code_point c = 10 \<or> code_point c = 13)"

definition sse_field :: "string \<Rightarrow> string \<times> string" where
  "sse_field line = (let v = drop 1 (dropWhile (\<lambda>c. c \<noteq> CHR '':'') line)
     in (takeWhile (\<lambda>c. c \<noteq> CHR '':'') line, if take 1 v = '' '' then drop 1 v else v))"

record sse_message =
  sm_type :: string
  sm_id :: "string option"
  sm_data :: string

definition sse_decode :: "string \<Rightarrow> sse_message" where
  "sse_decode text =
    (let fs = map sse_field (takeWhile (\<lambda>l. l \<noteq> []) (split_char ends_line text));
         vals = (\<lambda>name. map snd (filter (\<lambda>f. fst f = name) fs))
     in \<lparr> sm_type = (if vals ''event'' = [] then ''message'' else last (vals ''event'')),
          sm_id = (if vals ''id'' = [] then None else Some (last (vals ''id''))),
          sm_data = join [LF] (vals ''data'') \<rparr>)"

section \<open>Facts\<close>

lemma split_char_ne [simp]: "split_char P s \<noteq> []"
  by (cases s) (auto split: list.splits)

lemma split_char_line: "list_all (\<lambda>c. \<not> P c) l \<Longrightarrow> split_char P l = [l]"
  by (induction l) auto

lemma split_char_append:
  "list_all (\<lambda>c. \<not> P c) l \<Longrightarrow> P c \<Longrightarrow> split_char P (l @ c # s) = l # split_char P s"
  by (induction l) auto

lemma split_char_join:
  "ls \<noteq> [] \<Longrightarrow> \<forall>l \<in> set ls. list_all (\<lambda>c. \<not> P c) l \<Longrightarrow> P c \<Longrightarrow>
    split_char P (join [c] ls @ c # s) = ls @ split_char P s"
proof (induction ls rule: induct_list012)
  case (3 x y zs)
  then show ?case by (simp add: split_char_append)
qed (simp_all add: split_char_append)

definition nel_to_lf :: "char \<Rightarrow> char" where
  "nel_to_lf c = (if code_point c = 133 then LF else c)"

lemma split_lines_tame:
  assumes "\<forall>c \<in> set s. is_line_break c \<longrightarrow> code_point c = 133"
  shows "split_lines (c # s) = (if is_line_break c \<and> code_point c \<noteq> 13 then [] # split_lines s
    else if code_point c = 13 then [] # split_lines s
    else (case split_lines s of [] \<Rightarrow> [[c]] | l # ls \<Rightarrow> (c # l) # ls))"
  using assms by (cases s) (auto simp: is_line_break_def)

lemma split_lines_ne: "s \<noteq> [] \<Longrightarrow> split_lines s \<noteq> []"
  by (induction s rule: split_lines.induct) (auto split: list.splits)

lemma join_split_lines:
  assumes "\<forall>c \<in> set s. is_line_break c \<longrightarrow> code_point c = 133" "s \<noteq> []" "code_point (last s) \<noteq> 133"
  shows "join [LF] (split_lines s) = map nel_to_lf s"
  using assms
proof (induction s)
  case (Cons c s)
  have t: "\<forall>c \<in> set s. is_line_break c \<longrightarrow> code_point c = 133" using Cons.prems by auto
  have u: "split_lines (c # s) = (if code_point c = 133 then [] # split_lines s
    else (case split_lines s of [] \<Rightarrow> [[c]] | l # ls \<Rightarrow> (c # l) # ls))"
    unfolding split_lines_tame [OF t] using Cons.prems(1) by (auto simp: is_line_break_def)
  show ?case
  proof (cases "s = []")
    case True
    then show ?thesis using Cons.prems u by (auto simp: nel_to_lf_def)
  next
    case False
    then obtain l ls where l: "split_lines s = l # ls" using split_lines_ne by (metis neq_Nil_conv)
    have ih: "join [LF] (l # ls) = map nel_to_lf s" using Cons False t l by simp
    have "join [LF] ((c # l) # ls) = c # join [LF] (l # ls)" by (cases ls) auto
    then show ?thesis using ih by (simp add: u l nel_to_lf_def)
  qed
qed simp

lemma split_lines_chars:
  "l \<in> set (split_lines s) \<Longrightarrow> \<not> list_ex is_line_break l"
  by (induction s arbitrary: l rule: split_lines.induct) (fastforce split: list.splits if_splits)+

text \<open>Encoded JSON has no C0 control character, so the only line break left in it is U+0085.\<close>

definition printable :: "char \<Rightarrow> bool" where
  "printable c = (32 \<le> code_point c)"

lemma printable_break: "printable c \<Longrightarrow> is_line_break c \<Longrightarrow> code_point c = 133"
  by (auto simp: printable_def is_line_break_def)

lemma hex_digit_printable: "n < 16 \<Longrightarrow> printable (hex_digit n)"
  by (simp add: hex_digit_def printable_def)

lemma escape_char_printable: "list_all printable (escape_char c)"
proof -
  have "code_point c div 16 < 16" using nat_of_char_less_256 [of c] by (simp add: less_mult_imp_div_less)
  then have "printable (hex_digit (code_point c div 16))" "printable (hex_digit (code_point c mod 16))"
    by (simp_all add: hex_digit_printable)
  then show ?thesis by (auto simp: escape_char_def Let_def printable_def)
qed

lemma json_quote_printable: "list_all printable (json_quote s)"
  using escape_char_printable by (auto simp: json_quote_def list_all_iff printable_def)

lemma join_all: "list_all P sep \<Longrightarrow> \<forall>x \<in> set xs. list_all P x \<Longrightarrow> list_all P (join sep xs)"
  by (induction xs rule: induct_list012) auto

lemma int_text_printable: "list_all printable (int_text i)"
proof -
  have "list_all printable (nat_digits n)" for n
    using nat_digits_correct [of n] by (auto simp: ascii_digits_def list_all_iff is_ascii_digit_def printable_def)
  then show ?thesis by (simp add: int_text_def printable_def)
qed

lemma encode_json_printable:
  "\<forall>q. list_all printable (ft q) \<Longrightarrow> list_all printable (encode_json ft j)"
proof (induction j)
  case (JNum n)
  then show ?case using int_text_printable by (cases n) (auto simp: printable_def [abs_def])
next
  case (JList xs)
  then show ?case by (auto simp: printable_def intro!: join_all)
next
  case (JObj kvs)
  have "list_all printable (json_quote (fst kv) @ '':'' @ encode_json ft (snd kv))" if "kv \<in> set kvs" for kv
  proof -
    have "printable (CHR '':'')" by (simp add: printable_def)
    then show ?thesis using JObj that json_quote_printable by (cases kv) fastforce
  qed
  moreover have "printable (CHR '','')" "printable (CHR ''{'')" "printable (CHR ''}'')" by (simp_all add: printable_def)
  ultimately show ?case by (auto intro!: join_all)
qed (auto simp: json_quote_printable printable_def)

lemma dumps_object: "dumps (JObj d) = Some v \<Longrightarrow> \<exists>d'. v = JObj d'"
  by auto

lemma decode_lines:
  assumes "\<forall>l \<in> set ls. list_all (\<lambda>c. \<not> ends_line c) l \<and> l \<noteq> []" "ls \<noteq> []"
  shows "takeWhile (\<lambda>l. l \<noteq> []) (split_char ends_line (join [LF] ls @ [LF, LF])) = ls"
proof -
  have "ends_line LF" by (simp add: ends_line_def LF_def)
  then have "split_char ends_line (join [LF] ls @ LF # [LF]) = ls @ split_char ends_line [LF]"
    using assms by (intro split_char_join) auto
  then show ?thesis using assms by (simp add: ends_line_def LF_def takeWhile_append2)
qed

lemma field_prefix:
  "sse_field (''data: '' @ v) = (''data'', v)" "sse_field (''event: '' @ v) = (''event'', v)"
  "sse_field (''id: '' @ v) = (''id'', v)" "sse_field (''retry: '' @ v) = (''retry'', v)"
  by (simp_all add: sse_field_def)

text \<open>C32. A frame decodes to what was sent, up to one character: for an object payload and a
  one-line event type, an event-stream client reads back the event type, the id, and as data
  the encoded JSON in which every U+0085 has become a line feed. The frame is thus exact
  precisely when the encoded payload contains no U+0085: \<open>str.splitlines\<close> cuts there, JSON
  does not escape it, and the client joins the pieces with line feeds.\<close>
theorem sse_frame_round_trip:
  assumes float_text: "\<forall>q. list_all printable (ft q)"
    and sent: "format_sse_event ft event_type (JObj d) event_id retry_ms = Inr frame"
    and encoded: "dumps (JObj d) = Some v"
  shows "sse_decode frame = \<lparr> sm_type = event_type, sm_id = map_option int_text event_id,
      sm_data = map nel_to_lf (encode_json ft v) \<rparr> \<and>
    (sm_data (sse_decode frame) = encode_json ft v \<longleftrightarrow> list_all (\<lambda>c. code_point c \<noteq> 133) (encode_json ft v))"
proof -
  let ?e = "encode_json ft v"
  define retry where "retry = (case retry_ms of None \<Rightarrow> [] | Some i \<Rightarrow> [''retry: '' @ int_text i])"
  define ident where "ident = (case event_id of None \<Rightarrow> [] | Some i \<Rightarrow> [''id: '' @ int_text i])"
  define ls where "ls = retry @ ident @ [''event: '' @ event_type] @ map (\<lambda>line. ''data: '' @ line) (split_lines ?e)"
  obtain d' where v: "v = JObj d'" using dumps_object encoded by blast
  have ne: "?e \<noteq> []" and lst: "code_point (last ?e) \<noteq> 133" by (simp_all add: v)
  have tame: "\<forall>c \<in> set ?e. is_line_break c \<longrightarrow> code_point c = 133"
    using encode_json_printable [OF float_text, of v] printable_break by (auto simp: list_all_iff)
  have frm: "frame = join [LF] ls @ [LF, LF]"
    using sent by (auto simp only: format_sse_event_def encoded option.case Let_def split_lines_ne [OF ne] if_False
        ls_def retry_def ident_def sum.inject sum.distinct split: if_splits)
  have et: "list_all (\<lambda>c. \<not> ends_line c) event_type"
    using sent by (auto simp: format_sse_event_def list_ex_iff list_all_iff ends_line_def split: if_splits)
  have it: "list_all (\<lambda>c. \<not> ends_line c) (int_text i)" for i
    using int_text_printable [of i] by (auto simp: list_all_iff printable_def ends_line_def)
  have dt: "list_all (\<lambda>c. \<not> ends_line c) l" if "l \<in> set (split_lines ?e)" for l
    using split_lines_chars [OF that] by (auto simp: list_all_iff list_ex_iff is_line_break_def ends_line_def)
  have "\<forall>l \<in> set ls. list_all (\<lambda>c. \<not> ends_line c) l \<and> l \<noteq> []"
    using et it dt by (auto simp: ls_def retry_def ident_def ends_line_def split: option.splits)
  then have fs: "takeWhile (\<lambda>l. l \<noteq> []) (split_char ends_line frame) = ls"
    unfolding frm by (rule decode_lines) (simp add: ls_def)
  have r: "map sse_field retry = (case retry_ms of None \<Rightarrow> [] | Some i \<Rightarrow> [(''retry'', int_text i)])"
    "map sse_field ident = (case event_id of None \<Rightarrow> [] | Some i \<Rightarrow> [(''id'', int_text i)])"
    by (auto simp: retry_def ident_def field_prefix simp del: append.simps split: option.splits)
  have "map sse_field ls = (case retry_ms of None \<Rightarrow> [] | Some i \<Rightarrow> [(''retry'', int_text i)]) @
      (case event_id of None \<Rightarrow> [] | Some i \<Rightarrow> [(''id'', int_text i)]) @ (''event'', event_type) #
      map (Pair ''data'') (split_lines ?e)"
    unfolding ls_def map_append r by (simp add: field_prefix o_def del: append_Cons)
  then have dec: "sse_decode frame = \<lparr> sm_type = event_type, sm_id = map_option int_text event_id,
      sm_data = join [LF] (split_lines ?e) \<rparr>"
    unfolding sse_decode_def fs by (simp add: filter_map o_def split: option.split)
  have j: "join [LF] (split_lines ?e) = map nel_to_lf ?e" by (rule join_split_lines [OF tame ne lst])
  have "map nel_to_lf s = s \<longleftrightarrow> list_all (\<lambda>c. code_point c \<noteq> 133) s" for s
    by (induction s) (auto simp: nel_to_lf_def LF_def)
  then show ?thesis unfolding dec j by simp
qed

lemma sse_frame_round_trip_witness:
  "\<exists>frame. format_sse_event (\<lambda>_. ''0.5'') ''lap'' (JObj [(''team'', JStr [char_of (133::nat)])]) (Some 7) None = Inr frame \<and>
    sse_decode frame = \<lparr> sm_type = ''lap'', sm_id = Some ''7'',
      sm_data = [CHR ''{'', char_of (34::nat)] @ ''team'' @ [char_of (34::nat), CHR '':'', char_of (34::nat), LF, char_of (34::nat), CHR ''}''] \<rparr>"
proof -
  let ?d = "[(''team'', JStr [char_of (133::nat)])]"
  obtain frame where t: "format_sse_event (\<lambda>_. ''0.5'') ''lap'' (JObj ?d) (Some 7) None = Inr frame"
    by (auto simp: format_sse_event_def Let_def)
  have "dumps (JObj ?d) = Some (JObj ?d)" by code_simp
  moreover have "\<forall>q :: rat. list_all printable ''0.5''" by (simp add: printable_def)
  moreover have "map nel_to_lf (encode_json (\<lambda>_. ''0.5'') (JObj ?d)) =
      [CHR ''{'', char_of (34::nat)] @ ''team'' @ [char_of (34::nat), CHR '':'', char_of (34::nat), LF, char_of (34::nat), CHR ''}'']"
    by code_simp
  moreover have "int_text 7 = ''7''" by code_simp
  ultimately show ?thesis using sse_frame_round_trip [OF _ t, of "JObj ?d"] t by simp
qed

end
