(* ===== verification/Live_Stream.thy ===== *)
theory Live_Stream
  imports Sse_Frames
begin

text \<open>
  The live stream: the in-process fan-out of \<open>TimingStreamBroker\<close> (\<open>server/timing/sse.py\<close>) and
  the endpoint \<open>timing_stream\<close> (\<open>server/timing/api.py\<close>) as state machines over the outbox. A
  view is what one read of the database shows the endpoint: the outbox and the current
  heat and generation of the session's snapshot. The frames a client receives are kept as
  a list; \<open>cl_base\<close> is a ghost: the largest id that the client's last full snapshot, or
  the cursor it resumed from, accounts for.
\<close>

section \<open>Freshness\<close>

abbreviation LIVE_FRESHNESS_US :: int where "LIVE_FRESHNESS_US \<equiv> 3000000"
abbreviation STALE_FRESHNESS_US :: int where "STALE_FRESHNESS_US \<equiv> 10000000"

text \<open>The rows \<open>_freshness_payload\<close> reads of one session.\<close>

record freshness_rows =
  fr_lifecycle :: lifecycle
  fr_heat :: "(int \<times> int) option"
  fr_open_gap :: bool
  fr_flag :: "string option"
  fr_tick :: "(int \<times> string) option"

record freshness =
  fq_source_heat_id :: "int option"
  fq_generation :: "int option"
  fq_status :: string
  fq_reason :: string
  fq_age_ms :: "int option"
  fq_observed_at_us :: "int option"
  fq_source_key :: "string option"

definition session_reason :: "lifecycle \<Rightarrow> string option" where
  "session_reason l = (case l of Stopped \<Rightarrow> Some ''session_stopped'' | Aborted \<Rightarrow> Some ''session_aborted'' | _ \<Rightarrow> None)"

definition freshness_payload :: "freshness_rows \<Rightarrow> int \<Rightarrow> freshness" where
  "freshness_payload rows at_us =
    (case fr_heat rows of
       None \<Rightarrow> \<lparr> fq_source_heat_id = None, fq_generation = None, fq_status = ''OFFLINE'',
         fq_reason = (case session_reason (fr_lifecycle rows) of Some r \<Rightarrow> r | None \<Rightarrow> ''no_source_heat''),
         fq_age_ms = None, fq_observed_at_us = None, fq_source_key = None \<rparr>
     | Some (heat_id, generation) \<Rightarrow>
        (let (status, reason) =
           (case session_reason (fr_lifecycle rows) of Some r \<Rightarrow> (''OFFLINE'', r)
            | None \<Rightarrow> if fr_flag rows = Some ''FINISH'' then (''OFFLINE'', ''track_finished'')
                      else if fr_open_gap rows then (''OFFLINE'', ''source_gap'')
                      else (case fr_tick rows of
                          None \<Rightarrow> (''OFFLINE'', ''no_state_tick'')
                        | Some (observed, _) \<Rightarrow>
                            if at_us - observed \<le> LIVE_FRESHNESS_US then (''LIVE'', ''fresh'')
                            else if at_us - observed \<le> STALE_FRESHNESS_US then (''STALE'', ''stale'')
                            else (''OFFLINE'', ''source_timeout'')))
         in \<lparr> fq_source_heat_id = Some heat_id, fq_generation = Some generation,
              fq_status = status, fq_reason = reason,
              fq_age_ms = map_option (\<lambda>(observed, _). max 0 ((at_us - observed) div 1000)) (fr_tick rows),
              fq_observed_at_us = map_option fst (fr_tick rows),
              fq_source_key = map_option snd (fr_tick rows) \<rparr>))"

section \<open>The broker\<close>

datatype item = Item stream_row | Reset_Required string

record subscriber =
  sb_id :: nat
  sb_session :: string
  sb_queue :: "item list"

type_synonym fingerprint = "int option \<times> int option \<times> string \<times> string"

record broker =
  bk_batch_size :: nat
  bk_queue_size :: nat
  bk_subscribers :: "subscriber list"
  bk_last :: int
  bk_fingerprints :: "(string \<times> fingerprint) list"

definition new_broker :: "nat \<Rightarrow> nat \<Rightarrow> stream_db \<Rightarrow> broker" where
  "new_broker batch_size queue_size d = \<lparr> bk_batch_size = batch_size, bk_queue_size = queue_size,
     bk_subscribers = [], bk_last = last_global_event_id d, bk_fingerprints = [] \<rparr>"

text \<open>\<open>put_nowait\<close>; a full queue is drained and holds one reset marker.\<close>

definition put_item :: "nat \<Rightarrow> item \<Rightarrow> item list \<Rightarrow> item list" where
  "put_item maxsize item queue =
    (if length queue < maxsize then queue @ [item]
     else if 0 < maxsize then [Reset_Required ''subscriber_backpressure''] else [])"

definition fanout :: "string \<Rightarrow> item \<Rightarrow> broker \<Rightarrow> broker" where
  "fanout sid item b = b\<lparr> bk_subscribers := map (\<lambda>s. if sb_session s = sid
     then s\<lparr> sb_queue := put_item (bk_queue_size b) item (sb_queue s) \<rparr> else s) (bk_subscribers b) \<rparr>"

text \<open>
  \<open>subscribe\<close>: it looks whether anybody is subscribed; if nobody is, it awaits the global
  cursor, read in a thread; then it assigns that cursor and registers the queue.
\<close>

definition subscribe_check :: "broker \<Rightarrow> bool" where
  "subscribe_check b = (bk_subscribers b = [])"

definition subscribe_read :: "bool \<Rightarrow> stream_db \<Rightarrow> int option" where
  "subscribe_read none_subscribed d = (if none_subscribed then Some (last_global_event_id d) else None)"

definition subscribe_add :: "nat \<Rightarrow> string \<Rightarrow> int option \<Rightarrow> broker \<Rightarrow> broker" where
  "subscribe_add i sid cursor b =
    b\<lparr> bk_last := (case cursor of None \<Rightarrow> bk_last b | Some l \<Rightarrow> l),
       bk_subscribers := bk_subscribers b @ [\<lparr> sb_id = i, sb_session = sid, sb_queue = [] \<rparr>] \<rparr>"

definition unsubscribe :: "nat \<Rightarrow> string \<Rightarrow> broker \<Rightarrow> broker" where
  "unsubscribe i sid b =
    (let rest = filter (\<lambda>s. sb_id s \<noteq> i) (bk_subscribers b)
     in b\<lparr> bk_subscribers := rest,
           bk_fingerprints := (if list_ex (\<lambda>s. sb_session s = sid) rest then bk_fingerprints b
             else AList.delete sid (bk_fingerprints b)) \<rparr>)"

definition poll_event :: "stream_row \<Rightarrow> broker \<Rightarrow> broker" where
  "poll_event e b = fanout (se_session e) (Item e) (b\<lparr> bk_last := max (bk_last b) (se_id e) \<rparr>)"

text \<open>The event part of one turn of \<open>_run\<close>; an idle broker does not read.\<close>

definition poll_events :: "stream_db \<Rightarrow> broker \<Rightarrow> broker" where
  "poll_events d b =
    (if bk_subscribers b = [] then b
     else fold poll_event (select_events (bk_last b) (bk_batch_size b) None d) b)"

text \<open>One session of the quality part: a changed fingerprint is remembered and fanned out.\<close>

definition quality_row :: "string \<Rightarrow> (freshness \<Rightarrow> json) \<Rightarrow> freshness \<Rightarrow> stream_row" where
  "quality_row sid encode q = \<lparr> se_id = 0, se_session = sid, se_heat = fq_source_heat_id q, se_frame = None,
     se_message = None, se_source_key = fq_source_key q, se_type = ''quality'', se_key = None,
     se_observed_at_us = fq_observed_at_us q, se_payload = encode q, se_created_at_us = 0 \<rparr>"

definition poll_quality :: "(freshness \<Rightarrow> json) \<Rightarrow> string \<times> freshness \<Rightarrow> broker \<Rightarrow> broker" where
  "poll_quality encode sq b =
    (case sq of (sid, q) \<Rightarrow>
      (let fingerprint = (fq_source_heat_id q, fq_generation q, fq_status q, fq_reason q)
       in if map_of (bk_fingerprints b) sid = Some fingerprint then b
          else fanout sid (Item (quality_row sid encode q))
            (b\<lparr> bk_fingerprints := AList.update sid fingerprint (bk_fingerprints b) \<rparr>)))"

section \<open>The endpoint\<close>

record view =
  vw_db :: stream_db
  vw_heat :: "int option"
  vw_generation :: "int option"

datatype frame =
    Snapshot_Frame int
  | Reset_Frame int
  | Event_Frame stream_row

record client =
  cl_session :: string
  cl_delivered :: int
  cl_heat :: "int option"
  cl_generation :: "int option"
  cl_frames :: "frame list"
  cl_base :: int

definition reset_client :: "view \<Rightarrow> client \<Rightarrow> client" where
  "reset_client v c =
    (let barrier = stream_cursor (vw_db v) (cl_session c)
     in c\<lparr> cl_delivered := barrier, cl_heat := vw_heat v, cl_generation := vw_generation v,
           cl_frames := cl_frames c @ [Reset_Frame barrier], cl_base := sd_sequence (vw_db v) \<rparr>)"

text \<open>\<open>active_heat_id is not None and event.source_heat_id not in {None, active_heat_id}\<close>.\<close>

definition other_heat :: "int option \<Rightarrow> stream_row \<Rightarrow> bool" where
  "other_heat active e = (active \<noteq> None \<and> se_heat e \<noteq> None \<and> se_heat e \<noteq> active)"

definition deliver :: "stream_row \<Rightarrow> client \<Rightarrow> client" where
  "deliver e c = c\<lparr> cl_delivered := (if se_id e \<noteq> 0 then se_id e else cl_delivered c),
     cl_frames := cl_frames c @ [Event_Frame e] \<rparr>"

definition stream_reset_required ::
    "string \<Rightarrow> int option \<Rightarrow> int \<Rightarrow> stream_db \<Rightarrow> stream_db \<Rightarrow> stream_error + bool" where
  "stream_reset_required sid heat cursor d_window d_prior =
    (if cursor = 0 then Inr True
     else case read_cursor_window sid cursor d_window of
       Inl e \<Rightarrow> Inl e
     | Inr window \<Rightarrow>
        (let reset = (requires_reset window cursor \<or>
               (0 < cw_deleted_through_id window \<and> cursor = cw_deleted_through_id window))
         in if reset \<or> \<not> 0 < cursor then Inr reset
            else case read_stream_events sid (cursor - 1) 1 d_prior of
              Inl e \<Rightarrow> Inl e
            | Inr [] \<Rightarrow> Inr True
            | Inr (p # _) \<Rightarrow> Inr (se_id p \<noteq> cursor \<or> other_heat heat p)))"

text \<open>
  Opening: the snapshot's view, and the databases of the two cursor reads. The result is the
  client and whether a replay follows.
\<close>

definition open_client ::
    "string \<Rightarrow> int option \<Rightarrow> view \<Rightarrow> stream_db \<Rightarrow> stream_db \<Rightarrow> stream_error + (client \<times> bool)" where
  "open_client sid requested v d_window d_prior =
    (let barrier = stream_cursor (vw_db v) sid;
         fresh = \<lparr> cl_session = sid, cl_delivered = barrier, cl_heat = vw_heat v, cl_generation = vw_generation v,
                   cl_frames = [], cl_base = sd_sequence (vw_db v) \<rparr>
     in case requested of
          None \<Rightarrow> Inr (fresh\<lparr> cl_frames := [Snapshot_Frame barrier] \<rparr>, False)
        | Some cursor \<Rightarrow>
           (case stream_reset_required sid (vw_heat v) cursor d_window d_prior of
              Inl e \<Rightarrow> Inl e
            | Inr True \<Rightarrow> Inr (fresh\<lparr> cl_frames := [Reset_Frame barrier] \<rparr>, False)
            | Inr False \<Rightarrow> Inr (fresh\<lparr> cl_delivered := cursor, cl_base := cursor \<rparr>, True)))"

text \<open>The inner loop of the replay; the flag is \<open>restarted\<close>.\<close>

fun replay_batch :: "view \<Rightarrow> stream_row list \<Rightarrow> client \<times> nat \<Rightarrow> (client \<times> nat) \<times> bool" where
  "replay_batch v [] st = (st, False)"
| "replay_batch v (e # events) (c, n) =
    (if se_id e \<le> cl_delivered c then replay_batch v events (c, n)
     else if other_heat (cl_heat c) e then ((reset_client v c, n + 1), True)
     else replay_batch v events (deliver e c, n + 1))"

abbreviation REPLAY_LIMIT :: nat where "REPLAY_LIMIT \<equiv> 1024"

text \<open>One turn of the outer loop, with the database it reads; the flag ends the loop.\<close>

definition replay_turn :: "stream_db \<Rightarrow> view \<Rightarrow> client \<times> nat \<Rightarrow> (client \<times> nat) \<times> bool" where
  "replay_turn d v st =
    (if \<not> snd st < REPLAY_LIMIT then (st, True)
     else (let events = select_events (cl_delivered (fst st)) DEFAULT_BATCH_SIZE (Some (cl_session (fst st))) d
           in if events = [] then (st, True)
              else (case replay_batch v events st of
                  (st', restarted) \<Rightarrow> (st', restarted \<or> length events < DEFAULT_BATCH_SIZE))))"

definition finish_replay :: "view \<Rightarrow> client \<times> nat \<Rightarrow> client" where
  "finish_replay v st = (if REPLAY_LIMIT \<le> snd st then reset_client v (fst st) else fst st)"

text \<open>One item taken from the queue.\<close>

definition consume :: "view \<Rightarrow> item \<Rightarrow> client \<Rightarrow> client" where
  "consume v item c =
    (case item of
       Reset_Required _ \<Rightarrow> reset_client v c
     | Item e \<Rightarrow>
        (if se_id e \<noteq> 0 \<and> se_id e \<le> cl_delivered c then c
         else if se_id e \<noteq> 0 \<and> other_heat (cl_heat c) e then reset_client v c
         else deliver e c))"

section \<open>The whole replay\<close>

text \<open>\<open>w k\<close> is the view of the \<open>k\<close>-th database read of the loop.\<close>

lemma replay_batch_grows:
  "replay_batch v events (c, n) = ((c', n'), r) \<Longrightarrow> n \<le> n' \<and>
    (\<forall>e \<in> set (take 1 events). cl_delivered c < se_id e \<longrightarrow> n < n')"
  by (induction events arbitrary: c n) (fastforce split: if_splits)+

lemma select_after: "e \<in> set (select_events after n sid d) \<Longrightarrow> after < se_id e \<and> e \<in> set (sd_events d)"
  by (auto simp: select_events_def dest!: in_set_takeD)

lemma replay_turn_grows:
  assumes "replay_turn d v (c, n) = ((c', n'), False)"
  shows "n < n' \<and> n < REPLAY_LIMIT"
proof -
  let ?es = "select_events (cl_delivered c) DEFAULT_BATCH_SIZE (Some (cl_session c)) d"
  have "?es \<noteq> []" "n < REPLAY_LIMIT" and r: "replay_batch v ?es (c, n) = ((c', n'), False)"
    using assms by (auto simp: replay_turn_def Let_def split: if_splits prod.splits)
  then have "\<forall>e \<in> set (take 1 ?es). cl_delivered c < se_id e" "take 1 ?es \<noteq> []"
    by (auto dest!: in_set_takeD select_after)
  then show ?thesis using replay_batch_grows [OF r] \<open>n < REPLAY_LIMIT\<close> by (metis last_in_set)
qed

function replay :: "(nat \<Rightarrow> view) \<Rightarrow> nat \<Rightarrow> client \<times> nat \<Rightarrow> client" where
  "replay w k st =
    (case replay_turn (vw_db (w k)) (w (k + 1)) st of
       (st', finished) \<Rightarrow> if finished then finish_replay (w (k + 2)) st' else replay w (k + 2) st')"
  by auto

termination
proof (relation "measure (\<lambda>(w, k, st). REPLAY_LIMIT - snd st)", goal_cases)
  case (2 w k st st' finished)
  then have "replay_turn (vw_db (w k)) (w (k + 1)) (fst st, snd st) = ((fst st', snd st'), False)" by simp
  from replay_turn_grows [OF this] show ?case by (simp add: diff_less_mono2)
qed simp

declare replay.simps [simp del]

section \<open>Replaying\<close>

lemma deliver_fields [simp]:
  "cl_session (deliver e c) = cl_session c" "cl_heat (deliver e c) = cl_heat c" "cl_base (deliver e c) = cl_base c"
  "cl_frames (deliver e c) = cl_frames c @ [Event_Frame e]"
  by (simp_all add: deliver_def)

lemma deliver_all_fields [simp]:
  "cl_session (fold deliver es c) = cl_session c" "cl_heat (fold deliver es c) = cl_heat c"
  "cl_base (fold deliver es c) = cl_base c"
  "cl_frames (fold deliver es c) = cl_frames c @ map Event_Frame es"
  by (induction es arbitrary: c) auto

lemma reset_client_fields [simp]:
  "cl_session (reset_client v c) = cl_session c" "cl_heat (reset_client v c) = vw_heat v"
  "cl_base (reset_client v c) = sd_sequence (vw_db v)"
  "cl_delivered (reset_client v c) = stream_cursor (vw_db v) (cl_session c)"
  "cl_frames (reset_client v c) = cl_frames c @ [Reset_Frame (stream_cursor (vw_db v) (cl_session c))]"
  by (simp_all add: reset_client_def Let_def)

lemma delivered_all:
  "\<forall>e \<in> set es. se_id e \<noteq> 0 \<Longrightarrow> cl_delivered (fold deliver es c) = (if es = [] then cl_delivered c else se_id (last es))"
  by (induction es arbitrary: c) (auto simp: deliver_def)

definition ascending_from :: "int \<Rightarrow> stream_row list \<Rightarrow> bool" where
  "ascending_from D es \<longleftrightarrow> sorted_wrt (<) (map se_id es) \<and> (\<forall>e \<in> set es. D < se_id e \<and> 0 < se_id e)"

lemma ascending_Cons: "ascending_from D (e # es) \<longleftrightarrow> D < se_id e \<and> 0 < se_id e \<and> ascending_from (max D (se_id e)) es"
  by (auto simp: ascending_from_def)

lemma ascending_mono: "ascending_from D es \<Longrightarrow> D' \<le> D \<Longrightarrow> ascending_from D' es"
  by (auto simp: ascending_from_def)

lemma ascending_tail: "ascending_from D (e # es) \<Longrightarrow> ascending_from (se_id e) es"
  by (auto simp: ascending_from_def)

lemma replay_batch_outcome:
  assumes "ascending_from (cl_delivered c) es"
  shows "(list_all (\<lambda>e. \<not> other_heat (cl_heat c) e) es \<longrightarrow> replay_batch v es (c, n) = ((fold deliver es c, n + length es), False)) \<and>
    (list_ex (other_heat (cl_heat c)) es \<longrightarrow> (\<exists>pre e post. es = pre @ e # post \<and>
      list_all (\<lambda>e. \<not> other_heat (cl_heat c) e) pre \<and> other_heat (cl_heat c) e \<and>
      replay_batch v es (c, n) = ((reset_client v (fold deliver pre c), n + length pre + 1), True)))"
  using assms
proof (induction es arbitrary: c n)
  case (Cons e es)
  have e: "\<not> se_id e \<le> cl_delivered c" "se_id e \<noteq> 0" using Cons.prems by (auto simp: ascending_from_def)
  show ?case
  proof (cases "other_heat (cl_heat c) e")
    case True
    then show ?thesis using e by (auto intro!: exI [of _ "[]"])
  next
    case False
    have a: "ascending_from (cl_delivered (deliver e c)) es" using ascending_tail [OF Cons.prems] e by (simp add: deliver_def)
    have u: "replay_batch v (e # es) (c, n) = replay_batch v es (deliver e c, n + 1)" using e False by simp
    note ih = Cons.IH [OF a, of "n + 1"]
    show ?thesis
    proof (intro conjI impI)
      assume "list_all (\<lambda>e. \<not> other_heat (cl_heat c) e) (e # es)"
      then show "replay_batch v (e # es) (c, n) = ((fold deliver (e # es) c, n + length (e # es)), False)"
        unfolding u using ih by simp
    next
      assume "list_ex (other_heat (cl_heat c)) (e # es)"
      then obtain pre x post where "es = pre @ x # post" "list_all (\<lambda>e. \<not> other_heat (cl_heat c) e) pre"
        "other_heat (cl_heat c) x"
        "replay_batch v es (deliver e c, n + 1) = ((reset_client v (fold deliver pre (deliver e c)), n + 1 + length pre + 1), True)"
        using ih False by auto
      then show "\<exists>pre ea post. e # es = pre @ ea # post \<and> list_all (\<lambda>e. \<not> other_heat (cl_heat c) e) pre \<and>
          other_heat (cl_heat c) ea \<and>
          replay_batch v (e # es) (c, n) = ((reset_client v (fold deliver pre c), n + length pre + 1), True)"
        unfolding u using False by (intro exI [of _ "e # pre"] exI [of _ x] exI [of _ post]) simp
    qed
  qed
qed simp

definition pending :: "stream_db \<Rightarrow> client \<Rightarrow> stream_row list" where
  "pending d c = events_after (cl_session c) (cl_delivered c) (sd_events d)"

lemma pending_ascending: "outbox_ok (d, h) \<Longrightarrow> ascending_from (cl_delivered c) (pending d c)"
  using outbox_okD [of d h] sorted_wrt_filter [of "\<lambda>a b. se_id a < se_id b" "sd_events d"]
  by (auto simp: pending_def events_after_def ascending_from_def sorted_wrt_map)

lemma ascending_take: "ascending_from D es \<Longrightarrow> ascending_from D (take n es)"
  by (auto simp: ascending_from_def take_map [symmetric] sorted_wrt_take dest: in_set_takeD)

lemma pending_after_take:
  assumes ok: "outbox_ok (d, h)" and n: "n \<le> length (pending d c)"
  shows "pending d (fold deliver (take n (pending d c)) c) = drop n (pending d c)"
proof (cases "n = 0")
  case False
  let ?P = "pending d c"
  have a: "ascending_from (cl_delivered c) ?P" by (rule pending_ascending [OF ok])
  have ne: "take n ?P \<noteq> []" using n False by auto
  let ?l = "se_id (last (take n ?P))"
  have D: "cl_delivered (fold deliver (take n ?P) c) = ?l"
  proof -
    have "\<forall>e \<in> set (take n ?P). se_id e \<noteq> 0" using ascending_take [OF a, of n] by (fastforce simp: ascending_from_def)
    from delivered_all [OF this, of c] show ?thesis using ne by simp
  qed
  have lP: "cl_delivered c < ?l" using ascending_take [OF a, of n] ne last_in_set by (auto simp: ascending_from_def)
  have s: "sorted_wrt (<) (map se_id (take n ?P @ drop n ?P))" using a by (simp add: ascending_from_def)
  have "\<forall>e \<in> set (drop n ?P). ?l < se_id e"
    using s ne last_in_set [OF ne] unfolding map_append sorted_wrt_append by auto
  moreover have "\<forall>e \<in> set (take n ?P). se_id e \<le> ?l"
  proof -
    have "sorted_wrt (<) (map se_id (butlast (take n ?P) @ [last (take n ?P)]))"
      using s unfolding append_butlast_last_id [OF ne] map_append sorted_wrt_append by blast
    then have "\<forall>e \<in> set (butlast (take n ?P) @ [last (take n ?P)]). se_id e \<le> ?l"
      unfolding map_append sorted_wrt_append by auto
    then show ?thesis unfolding append_butlast_last_id [OF ne] .
  qed
  ultimately have "filter (\<lambda>e. ?l < se_id e) (take n ?P @ drop n ?P) = drop n ?P"
    unfolding filter_append by (simp add: filter_empty_conv filter_id_conv) (meson linorder_not_le)
  moreover have "filter (\<lambda>e. ?l < se_id e) ?P = events_after (cl_session c) ?l (sd_events d)"
    using lP by (auto simp: pending_def events_after_def intro: filter_cong)
  ultimately show ?thesis unfolding pending_def [of d "fold deliver _ _"] D deliver_all_fields by simp
qed simp

lemma select_pending:
  "outbox_ok (d, h) \<Longrightarrow> select_events (cl_delivered c) n (Some (cl_session c)) d = take n (pending d c)"
  by (simp add: select_session_events pending_def)


lemma replay_turn_cases:
  fixes c :: client
  assumes ok: "outbox_ok (vw_db v, h)" and n: "n < REPLAY_LIMIT"
  defines "P \<equiv> pending (vw_db v) c"
  defines "b \<equiv> take DEFAULT_BATCH_SIZE P"
  shows "(list_all (\<lambda>e. \<not> other_heat (cl_heat c) e) b \<longrightarrow>
      replay_turn (vw_db v) v (c, n) = ((fold deliver b c, n + length b), length b < DEFAULT_BATCH_SIZE)) \<and>
    (list_ex (other_heat (cl_heat c)) b \<longrightarrow> (\<exists>j < length b. list_all (\<lambda>e. \<not> other_heat (cl_heat c) e) (take j P) \<and>
      replay_turn (vw_db v) v (c, n) = ((reset_client v (fold deliver (take j P) c), n + j + 1), True)))"
proof -
  have a: "ascending_from (cl_delivered c) b" unfolding b_def P_def by (intro ascending_take pending_ascending [OF ok])
  have s: "select_events (cl_delivered c) DEFAULT_BATCH_SIZE (Some (cl_session c)) (vw_db v) = b"
    unfolding b_def P_def by (rule select_pending [OF ok])
  have u: "replay_turn (vw_db v) v (c, n) = (if b = [] then ((c, n), True)
      else (case replay_batch v b (c, n) of (st', restarted) \<Rightarrow> (st', restarted \<or> length b < DEFAULT_BATCH_SIZE)))"
    using n by (simp add: replay_turn_def s Let_def)
  note o = replay_batch_outcome [OF a, of v n]
  show ?thesis
  proof (intro conjI impI)
    assume l: "list_all (\<lambda>e. \<not> other_heat (cl_heat c) e) b"
    then show "replay_turn (vw_db v) v (c, n) = ((fold deliver b c, n + length b), length b < DEFAULT_BATCH_SIZE)"
      unfolding u using o by (cases "b = []") simp_all
  next
    assume x: "list_ex (other_heat (cl_heat c)) b"
    then obtain pre e post where p: "b = pre @ e # post" "list_all (\<lambda>e. \<not> other_heat (cl_heat c) e) pre"
      "replay_batch v b (c, n) = ((reset_client v (fold deliver pre c), n + length pre + 1), True)" using o by blast
    have "take (length pre) P = pre"
    proof -
      have "take (length pre) b = pre" by (simp add: p(1))
      moreover have "length pre \<le> DEFAULT_BATCH_SIZE" using p(1) b_def by (metis length_append length_take min.bounded_iff order_refl trans_le_add1)
      ultimately show ?thesis by (simp add: b_def min.absorb1)
    qed
    then show "\<exists>j < length b. list_all (\<lambda>e. \<not> other_heat (cl_heat c) e) (take j P) \<and>
      replay_turn (vw_db v) v (c, n) = ((reset_client v (fold deliver (take j P) c), n + j + 1), True)"
      unfolding u using p by (intro exI [of _ "length pre"]) simp
  qed
qed

definition quiet :: "client \<Rightarrow> stream_row list \<Rightarrow> bool" where
  "quiet c es = list_all (\<lambda>e. \<not> other_heat (cl_heat c) e) es"

definition caught_up :: "view \<Rightarrow> client \<Rightarrow> nat \<Rightarrow> client \<Rightarrow> bool" where
  "caught_up v c n c' =
    (let P = pending (vw_db v) c; barrier = stream_cursor (vw_db v) (cl_session c)
     in if quiet c P \<and> n + length P < REPLAY_LIMIT then c' = fold deliver P c
        else cl_delivered c' = barrier \<and> cl_heat c' = vw_heat v \<and>
          (\<exists>j rs. n + j \<le> REPLAY_LIMIT \<and> quiet c (take j P) \<and> rs \<noteq> [] \<and> set rs = {Reset_Frame barrier} \<and>
             cl_frames c' = cl_frames c @ map Event_Frame (take j P) @ rs))"

lemma quiet_append [simp]: "quiet c (xs @ ys) \<longleftrightarrow> quiet c xs \<and> quiet c ys"
  by (simp add: quiet_def)

lemma quiet_heat: "cl_heat c' = cl_heat c \<Longrightarrow> quiet c' es = quiet c es"
  by (simp add: quiet_def)

lemma replay_caught_up:
  assumes ok: "outbox_ok (vw_db v, h)" and n: "n \<le> REPLAY_LIMIT" "DEFAULT_BATCH_SIZE dvd n"
  shows "caught_up v c n (replay (\<lambda>_. v) k (c, n))"
  using n
proof (induction "REPLAY_LIMIT - n" arbitrary: k c n rule: less_induct)
  case less
  define P where "P = pending (vw_db v) c"
  define b where "b = take DEFAULT_BATCH_SIZE P"
  have u: "replay (\<lambda>_. v) k (c, n) = (case replay_turn (vw_db v) v (c, n) of
      (st', finished) \<Rightarrow> if finished then finish_replay v st' else replay (\<lambda>_. v) (k + 2) st')"
    by (subst replay.simps) simp
  show ?case
  proof (cases "n < REPLAY_LIMIT")
    case False
    then have "replay (\<lambda>_. v) k (c, n) = reset_client v c" using less.prems unfolding u by (simp add: replay_turn_def finish_replay_def)
    then show ?thesis using False less.prems
      by (auto simp: caught_up_def Let_def quiet_def intro!: exI [of _ 0])
  next
    case n: True
    then have n896: "n + DEFAULT_BATCH_SIZE \<le> REPLAY_LIMIT" using less.prems(2) by (auto elim!: dvdE)
    note t = replay_turn_cases [OF ok n, of c, folded P_def, folded b_def]
    show ?thesis
    proof (cases "quiet c b")
      case False
      then obtain j where j: "j < length b" "quiet c (take j P)"
        "replay_turn (vw_db v) v (c, n) = ((reset_client v (fold deliver (take j P) c), n + j + 1), True)"
        using t by (auto simp: quiet_def list_ex_iff list_all_iff)
      have nq: "\<not> quiet c P" using False by (auto simp: quiet_def b_def list_all_iff dest: in_set_takeD)
      define r where "r = Reset_Frame (stream_cursor (vw_db v) (cl_session c))"
      define rs where "rs = (if REPLAY_LIMIT \<le> n + j + 1 then [r, r] else [r])"
      have "n + j \<le> REPLAY_LIMIT" using j(1) n896 by (simp add: b_def)
      moreover have "cl_frames (replay (\<lambda>_. v) k (c, n)) = cl_frames c @ map Event_Frame (take j P) @ rs"
        unfolding u j(3) by (simp add: finish_replay_def rs_def r_def)
      moreover have "cl_delivered (replay (\<lambda>_. v) k (c, n)) = stream_cursor (vw_db v) (cl_session c)"
        "cl_heat (replay (\<lambda>_. v) k (c, n)) = vw_heat v"
        unfolding u j(3) by (simp_all add: finish_replay_def)
      moreover have "rs \<noteq> []" "set rs = {r}" by (auto simp: rs_def)
      ultimately show ?thesis using nq j(2) unfolding caught_up_def Let_def P_def [symmetric] r_def by auto
    next
      case q: True
      then have t': "replay_turn (vw_db v) v (c, n) = ((fold deliver b c, n + length b), length b < DEFAULT_BATCH_SIZE)"
        using t by (simp add: quiet_def)
      show ?thesis
      proof (cases "length b < DEFAULT_BATCH_SIZE")
        case True
        then have "b = P" by (simp add: b_def)
        then show ?thesis using q True n896 unfolding u t' caught_up_def Let_def P_def [symmetric]
          by (simp add: finish_replay_def)
      next
        case False
        define c1 where "c1 = fold deliver b c"
        have lb: "length b = DEFAULT_BATCH_SIZE" using False by (simp add: b_def)
        have e: "replay (\<lambda>_. v) k (c, n) = replay (\<lambda>_. v) (k + 2) (c1, n + DEFAULT_BATCH_SIZE)"
          unfolding u t' lb by (simp add: c1_def)
        have ih0: "caught_up v c1 (n + DEFAULT_BATCH_SIZE) (replay (\<lambda>_. v) (k + 2) (c1, n + DEFAULT_BATCH_SIZE))"
          using n n896 less.prems(2) by (intro less.hyps) auto
        have hp: "pending (vw_db v) c1 = drop DEFAULT_BATCH_SIZE P"
          using pending_after_take [OF ok, of DEFAULT_BATCH_SIZE c] lb unfolding c1_def b_def P_def by simp
        have P: "P = b @ drop DEFAULT_BATCH_SIZE P" by (simp add: b_def)
        have tk: "b @ take j (drop DEFAULT_BATCH_SIZE P) = take (DEFAULT_BATCH_SIZE + j) P" for j
          by (simp add: b_def take_add)
        have hs: "cl_session c1 = cl_session c" and hq: "quiet c1 = quiet c" by (auto simp: c1_def quiet_def)
        have ih: "if quiet c (drop DEFAULT_BATCH_SIZE P) \<and> n + DEFAULT_BATCH_SIZE + length (drop DEFAULT_BATCH_SIZE P) < REPLAY_LIMIT
            then replay (\<lambda>_. v) k (c, n) = fold deliver (drop DEFAULT_BATCH_SIZE P) c1
            else cl_delivered (replay (\<lambda>_. v) k (c, n)) = stream_cursor (vw_db v) (cl_session c) \<and>
              cl_heat (replay (\<lambda>_. v) k (c, n)) = vw_heat v \<and>
              (\<exists>j rs. n + DEFAULT_BATCH_SIZE + j \<le> REPLAY_LIMIT \<and> quiet c (take j (drop DEFAULT_BATCH_SIZE P)) \<and> rs \<noteq> [] \<and>
                set rs = {Reset_Frame (stream_cursor (vw_db v) (cl_session c))} \<and>
                cl_frames (replay (\<lambda>_. v) k (c, n)) = cl_frames c1 @ map Event_Frame (take j (drop DEFAULT_BATCH_SIZE P)) @ rs)"
          using ih0 unfolding caught_up_def Let_def e hp hq hs .
        have qP: "quiet c P \<longleftrightarrow> quiet c (drop DEFAULT_BATCH_SIZE P)" using P q quiet_append by metis
        have lP: "n + DEFAULT_BATCH_SIZE + length (drop DEFAULT_BATCH_SIZE P) = n + length P" using lb by (simp add: b_def)
        have f: "fold deliver (drop DEFAULT_BATCH_SIZE P) c1 = fold deliver P c"
          using P unfolding c1_def by (metis comp_apply fold_append)
        have fr: "cl_frames c1 = cl_frames c @ map Event_Frame b" by (simp add: c1_def)
        show ?thesis
        proof (cases "quiet c P \<and> n + length P < REPLAY_LIMIT")
          case True
          then show ?thesis using ih unfolding caught_up_def Let_def P_def [symmetric] qP lP f by simp
        next
          case False
          then obtain j rs where o: "n + DEFAULT_BATCH_SIZE + j \<le> REPLAY_LIMIT" "quiet c (take j (drop DEFAULT_BATCH_SIZE P))" "rs \<noteq> []"
            "set rs = {Reset_Frame (stream_cursor (vw_db v) (cl_session c))}"
            "cl_frames (replay (\<lambda>_. v) k (c, n)) = cl_frames c1 @ map Event_Frame (take j (drop DEFAULT_BATCH_SIZE P)) @ rs"
            and d: "cl_delivered (replay (\<lambda>_. v) k (c, n)) = stream_cursor (vw_db v) (cl_session c)"
              "cl_heat (replay (\<lambda>_. v) k (c, n)) = vw_heat v"
            using ih unfolding qP lP by auto
          have "quiet c (take (DEFAULT_BATCH_SIZE + j) P)" using q o(2) tk quiet_append by metis
          moreover have "cl_frames (replay (\<lambda>_. v) k (c, n)) = cl_frames c @ map Event_Frame (take (DEFAULT_BATCH_SIZE + j) P) @ rs"
            unfolding o(5) fr tk [symmetric] by simp
          moreover have "n + (DEFAULT_BATCH_SIZE + j) \<le> REPLAY_LIMIT" using o(1) by simp
          ultimately show ?thesis using False d o(3,4) unfolding caught_up_def Let_def P_def [symmetric] by (metis (no_types))
        qed
      qed
    qed
  qed
qed


text \<open>C28. Replay terminates and catches up: on a database that stands still, the replay loop ends
  for every cursor. If fewer than 1,024 events of the client's heat are pending, the client
  receives exactly these, in order, and nothing else; otherwise it receives a prefix of them,
  at most 1,024 events and none of another heat, and then a reset whose snapshot is the
  barrier of the database, where the client then stands.\<close>
theorem replay_delivers_all_or_resets:
  fixes c :: client and v :: view
  assumes "run_outbox cs = (vw_db v, history)"
  defines "P \<equiv> events_after (cl_session c) (cl_delivered c) (sd_events (vw_db v))"
    and "c' \<equiv> replay (\<lambda>_. v) 0 (c, 0)" and "barrier \<equiv> stream_cursor (vw_db v) (cl_session c)"
  shows "if list_all (\<lambda>e. \<not> other_heat (cl_heat c) e) P \<and> length P < 1024
    then cl_frames c' = cl_frames c @ map Event_Frame P \<and> cl_heat c' = cl_heat c \<and>
      cl_delivered c' = (if P = [] then cl_delivered c else se_id (last P))
    else cl_delivered c' = barrier \<and> cl_heat c' = vw_heat v \<and>
      (\<exists>j rs. j \<le> 1024 \<and> list_all (\<lambda>e. \<not> other_heat (cl_heat c) e) (take j P) \<and> rs \<noteq> [] \<and>
        set rs = {Reset_Frame barrier} \<and> cl_frames c' = cl_frames c @ map Event_Frame (take j P) @ rs)"
proof -
  have ok: "outbox_ok (vw_db v, history)" using run_outbox_ok [of cs] assms(1) by simp
  have pe: "P = pending (vw_db v) c" by (simp add: P_def pending_def)
  have cu: "caught_up v c 0 c'" unfolding c'_def by (rule replay_caught_up [OF ok]) simp_all
  have nz: "\<forall>e \<in> set P. se_id e \<noteq> 0" using pending_ascending [OF ok, of c] by (fastforce simp: pe ascending_from_def)
  show ?thesis
  proof (cases "quiet c P \<and> length P < REPLAY_LIMIT")
    case True
    then have "c' = fold deliver P c" using cu by (simp add: caught_up_def pe Let_def)
    then show ?thesis using True delivered_all [OF nz, of c] by (simp add: quiet_def)
  next
    case False
    then show ?thesis using cu unfolding caught_up_def Let_def pe [symmetric] barrier_def quiet_def by auto
  qed
qed

lemma replay_delivers_all_or_resets_witness:
  "\<exists>c'. replay (\<lambda>_. \<lparr> vw_db = fst (run_outbox [Append False 7 demo_origin [demo_candidate ''a'']]),
      vw_heat = Some 1, vw_generation = Some 1 \<rparr>) 0
      (\<lparr> cl_session = ''s'', cl_delivered = 0, cl_heat = Some 1, cl_generation = Some 1, cl_frames = [], cl_base = 0 \<rparr>, 0) = c' \<and>
    cl_frames c' = [Event_Frame ((outbox_row 7 demo_origin (demo_candidate ''a''))\<lparr> se_id := 1 \<rparr>)] \<and> cl_delivered c' = 1"
proof -
  let ?cs = "[Append False 7 demo_origin [demo_candidate ''a'']]"
  let ?v = "\<lparr> vw_db = fst (run_outbox ?cs), vw_heat = Some 1, vw_generation = Some 1 \<rparr>"
  let ?c = "\<lparr> cl_session = ''s'', cl_delivered = 0, cl_heat = Some 1, cl_generation = Some 1, cl_frames = [], cl_base = 0 \<rparr>"
  have r: "run_outbox ?cs = (vw_db ?v, snd (run_outbox ?cs))" by simp
  have P: "events_after (cl_session ?c) (cl_delivered ?c) (sd_events (vw_db ?v)) =
      [(outbox_row 7 demo_origin (demo_candidate ''a''))\<lparr> se_id := 1 \<rparr>]" by code_simp
  show ?thesis using replay_delivers_all_or_resets [OF r, of ?c, unfolded P]
    by (simp add: other_heat_def outbox_row_def demo_origin_def)
qed

section \<open>Writers, broker and clients together\<close>

text \<open>
  One connection of the endpoint: its queue is registered, then the snapshot and the cursor
  decide, a resumed client replays turn by turn, finishes, and streams from its queue. The
  steps of all connections, of the broker and of the writers interleave freely; every
  database read sees the current database. \<open>Subscribe\<close> is a subscription that nothing
  interrupts; \<open>Subscribe_Check\<close> and \<open>Subscribe_Add\<close> are its parts before and after the await.
\<close>

datatype phase = Opening | Replaying client nat | Finishing client nat | Streaming client

record world =
  wd_log :: "stream_db \<times> stream_row list"
  wd_broker :: broker
  wd_phases :: "(nat \<times> phase) list"
  wd_checked :: "(nat \<times> string \<times> bool) list"

abbreviation wd_db :: "world \<Rightarrow> stream_db" where "wd_db w \<equiv> fst (wd_log w)"

datatype world_command =
    Write stream_command
  | Poll
  | Poll_Quality string freshness json
  | Subscribe nat string
  | Subscribe_Check nat string
  | Subscribe_Add nat
  | Open nat "int option" "int option" "int option"
  | Replay_Turn nat "int option" "int option"
  | Finish nat "int option" "int option"
  | Consume nat "int option" "int option"
  | Disconnect nat

definition current_view :: "world \<Rightarrow> int option \<Rightarrow> int option \<Rightarrow> view" where
  "current_view w heat generation = \<lparr> vw_db = wd_db w, vw_heat = heat, vw_generation = generation \<rparr>"

definition find_subscriber :: "nat \<Rightarrow> broker \<Rightarrow> subscriber option" where
  "find_subscriber i b = find (\<lambda>s. sb_id s = i) (bk_subscribers b)"

definition set_phase :: "nat \<Rightarrow> phase \<Rightarrow> world \<Rightarrow> world" where
  "set_phase i p w = w\<lparr> wd_phases := AList.update i p (wd_phases w) \<rparr>"

definition disconnect :: "nat \<Rightarrow> world \<Rightarrow> world" where
  "disconnect i w = (case find_subscriber i (wd_broker w) of
     None \<Rightarrow> w
   | Some s \<Rightarrow> w\<lparr> wd_broker := unsubscribe i (sb_session s) (wd_broker w),
       wd_phases := AList.delete i (wd_phases w) \<rparr>)"

definition register :: "nat \<Rightarrow> string \<Rightarrow> bool \<Rightarrow> world \<Rightarrow> world" where
  "register i sid none_subscribed w =
    (if find_subscriber i (wd_broker w) \<noteq> None then w
     else set_phase i Opening (w\<lparr> wd_broker :=
       subscribe_add i sid (subscribe_read none_subscribed (wd_db w)) (wd_broker w) \<rparr>))"

definition take_item :: "nat \<Rightarrow> broker \<Rightarrow> broker" where
  "take_item i b = b\<lparr> bk_subscribers := map (\<lambda>s. if sb_id s = i then s\<lparr> sb_queue := tl (sb_queue s) \<rparr> else s) (bk_subscribers b) \<rparr>"

fun world_step :: "world \<Rightarrow> world_command \<Rightarrow> world" where
  "world_step w (Write c) = w\<lparr> wd_log := logged_step (wd_log w) c \<rparr>"
| "world_step w Poll = w\<lparr> wd_broker := poll_events (wd_db w) (wd_broker w) \<rparr>"
| "world_step w (Poll_Quality sid q payload) = w\<lparr> wd_broker := poll_quality (\<lambda>_. payload) (sid, q) (wd_broker w) \<rparr>"
| "world_step w (Subscribe i sid) = register i sid (subscribe_check (wd_broker w)) w"
| "world_step w (Subscribe_Check i sid) = w\<lparr> wd_checked := (i, sid, subscribe_check (wd_broker w)) # wd_checked w \<rparr>"
| "world_step w (Subscribe_Add i) = (case map_of (wd_checked w) i of
     None \<Rightarrow> w
   | Some (sid, none_subscribed) \<Rightarrow> register i sid none_subscribed w)"
| "world_step w (Open i requested heat generation) =
    (case (find_subscriber i (wd_broker w), map_of (wd_phases w) i) of
       (Some s, Some Opening) \<Rightarrow>
         (case open_client (sb_session s) requested (current_view w heat generation) (wd_db w) (wd_db w) of
            Inl _ \<Rightarrow> disconnect i w
          | Inr (c, replays) \<Rightarrow> set_phase i (if replays then Replaying c 0 else Streaming c) w)
     | _ \<Rightarrow> w)"
| "world_step w (Replay_Turn i heat generation) =
    (case map_of (wd_phases w) i of
       Some (Replaying c n) \<Rightarrow>
         (case replay_turn (wd_db w) (current_view w heat generation) (c, n) of
            ((c', n'), finished) \<Rightarrow> set_phase i (if finished then Finishing c' n' else Replaying c' n') w)
     | _ \<Rightarrow> w)"
| "world_step w (Finish i heat generation) =
    (case map_of (wd_phases w) i of
       Some (Finishing c n) \<Rightarrow> set_phase i (Streaming (finish_replay (current_view w heat generation) (c, n))) w
     | _ \<Rightarrow> w)"
| "world_step w (Consume i heat generation) =
    (case (find_subscriber i (wd_broker w), map_of (wd_phases w) i) of
       (Some s, Some (Streaming c)) \<Rightarrow>
         (case sb_queue s of
            [] \<Rightarrow> w
          | item # _ \<Rightarrow> set_phase i (Streaming (consume (current_view w heat generation) item c))
              (w\<lparr> wd_broker := take_item i (wd_broker w) \<rparr>))
     | _ \<Rightarrow> w)"
| "world_step w (Disconnect i) = disconnect i w"

definition new_world :: "nat \<Rightarrow> nat \<Rightarrow> world" where
  "new_world batch_size queue_size = \<lparr> wd_log = (empty_stream_db, []),
     wd_broker = new_broker batch_size queue_size empty_stream_db, wd_phases = [], wd_checked = [] \<rparr>"

fun uninterrupted :: "world_command \<Rightarrow> bool" where
  "uninterrupted (Subscribe_Check i sid) = False"
| "uninterrupted (Subscribe_Add i) = False"
| "uninterrupted _ = True"

section \<open>What a connection has\<close>

definition is_event_frame :: "frame \<Rightarrow> bool" where
  "is_event_frame f = (case f of Event_Frame _ \<Rightarrow> True | _ \<Rightarrow> False)"

definition frame_events :: "frame list \<Rightarrow> stream_row list" where
  "frame_events fs = concat (map (\<lambda>f. case f of Event_Frame e \<Rightarrow> if se_id e \<noteq> 0 then [e] else [] | _ \<Rightarrow> []) fs)"

text \<open>The events received since the last snapshot or reset.\<close>

definition since_reset :: "frame list \<Rightarrow> stream_row list" where
  "since_reset fs = frame_events (rev (takeWhile is_event_frame (rev fs)))"

definition queue_events :: "item list \<Rightarrow> stream_row list" where
  "queue_events q = concat (map (\<lambda>i. case i of Item e \<Rightarrow> if se_id e \<noteq> 0 then [e] else [] | _ \<Rightarrow> []) q)"

definition is_reset :: "item \<Rightarrow> bool" where
  "is_reset i = (case i of Reset_Required _ \<Rightarrow> True | _ \<Rightarrow> False)"

definition queue_ok :: "int \<Rightarrow> item list \<Rightarrow> bool" where
  "queue_ok L q \<longleftrightarrow> sorted_wrt (<) (map se_id (queue_events q)) \<and> (\<forall>e \<in> set (queue_events q). se_id e \<le> L) \<and>
     list_all (\<lambda>i. \<not> is_reset i) (tl q)"

definition covered :: "stream_db \<Rightarrow> string \<Rightarrow> int \<Rightarrow> int \<Rightarrow> item list \<Rightarrow> bool" where
  "covered d sid L D q \<longleftrightarrow> list_ex is_reset q \<or>
     (\<forall>e \<in> set (sd_events d). se_session e = sid \<and> D < se_id e \<and> se_id e \<le> L \<longrightarrow> e \<in> set (queue_events q))"

definition client_ok :: "stream_db \<Rightarrow> string \<Rightarrow> client \<Rightarrow> bool" where
  "client_ok d sid c \<longleftrightarrow> cl_session c = sid \<and> cl_delivered c \<le> sd_sequence d \<and>
     sorted_wrt (<) (map se_id (since_reset (cl_frames c))) \<and>
     (\<forall>e \<in> set (since_reset (cl_frames c)). se_id e \<le> cl_delivered c) \<and>
     (\<forall>e \<in> set (sd_events d). se_session e = sid \<and> cl_base c < se_id e \<and> se_id e \<le> cl_delivered c \<longrightarrow>
       e \<in> set (since_reset (cl_frames c)))"

fun phase_ok :: "stream_db \<Rightarrow> string \<Rightarrow> int \<Rightarrow> item list \<Rightarrow> phase \<Rightarrow> bool" where
  "phase_ok d sid L q Opening = True"
| "phase_ok d sid L q (Replaying c n) = client_ok d sid c"
| "phase_ok d sid L q (Finishing c n) = (client_ok d sid c \<and> (REPLAY_LIMIT \<le> n \<or> covered d sid L (cl_delivered c) q))"
| "phase_ok d sid L q (Streaming c) = (client_ok d sid c \<and> covered d sid L (cl_delivered c) q)"

definition subscriber_ok :: "stream_db \<Rightarrow> (nat \<times> phase) list \<Rightarrow> int \<Rightarrow> subscriber \<Rightarrow> bool" where
  "subscriber_ok d phases L s \<longleftrightarrow> queue_ok L (sb_queue s) \<and>
     (\<forall>p. map_of phases (sb_id s) = Some p \<longrightarrow> phase_ok d (sb_session s) L (sb_queue s) p)"

definition broker_ok :: "stream_db \<Rightarrow> (nat \<times> phase) list \<Rightarrow> broker \<Rightarrow> bool" where
  "broker_ok d phases b \<longleftrightarrow> 0 \<le> bk_last b \<and> bk_last b \<le> sd_sequence d \<and>
     0 < bk_queue_size b \<and> 0 < bk_batch_size b \<and> distinct (map sb_id (bk_subscribers b)) \<and>
     (\<forall>s \<in> set (bk_subscribers b). subscriber_ok d phases (bk_last b) s)"

definition world_ok :: "world \<Rightarrow> bool" where
  "world_ok w \<longleftrightarrow> outbox_ok (wd_log w) \<and> broker_ok (wd_db w) (wd_phases w) (wd_broker w)"

section \<open>Frames and queues\<close>

lemma queue_events_simps [simp]:
  "queue_events [] = []" "queue_events (i # q) = (case i of Item e \<Rightarrow> if se_id e \<noteq> 0 then [e] else [] | _ \<Rightarrow> []) @ queue_events q"
  "queue_events (q @ q') = queue_events q @ queue_events q'"
  by (simp_all add: queue_events_def)

lemma is_reset_simps [simp]: "\<not> is_reset (Item e)" "is_reset (Reset_Required r)"
  by (simp_all add: is_reset_def)

lemma since_reset_simps [simp]:
  "since_reset (fs @ [Reset_Frame b]) = []" "since_reset (fs @ [Snapshot_Frame b]) = []" "since_reset [] = []"
  "since_reset (fs @ [Event_Frame e]) = since_reset fs @ (if se_id e \<noteq> 0 then [e] else [])"
  by (simp_all add: since_reset_def frame_events_def is_event_frame_def)

lemma since_reset_events:
  "\<forall>e \<in> set es. se_id e \<noteq> 0 \<Longrightarrow> since_reset (fs @ map Event_Frame es) = since_reset fs @ es"
proof (induction es rule: rev_induct)
  case (snoc e es)
  then show ?case using since_reset_simps(4) [of "fs @ map Event_Frame es" e] by simp
qed simp

lemma put_item_cases:
  obtains (room) "put_item n i q = q @ [i]" | (full) r where "0 < n \<Longrightarrow> put_item n i q = [Reset_Required r]"
  by (cases "length q < n") (auto simp: put_item_def)

lemma put_item_ok:
  assumes q: "queue_ok L q" and n: "0 < n" and e: "se_id e \<noteq> 0 \<longrightarrow> L < se_id e" "L \<le> L'" "se_id e \<le> L'"
  shows "queue_ok L' (put_item n (Item e) q)"
proof (cases rule: put_item_cases [of n "Item e" q])
  case room
  have s: "sorted_wrt (<) (map se_id (queue_events q))" and b: "\<forall>x \<in> set (queue_events q). se_id x \<le> L"
    and t: "list_all (\<lambda>i. \<not> is_reset i) (tl q)"
    using q by (auto simp: queue_ok_def)
  have "list_all (\<lambda>i. \<not> is_reset i) (tl (q @ [Item e]))" using t by (cases q) auto
  moreover have "sorted_wrt (<) (map se_id (queue_events (q @ [Item e])))"
    using s b e by (auto simp: sorted_wrt_append)
  moreover have "\<forall>x \<in> set (queue_events (q @ [Item e])). se_id x \<le> L'" using b e by auto
  ultimately show ?thesis by (simp only: queue_ok_def room)
next
  case full
  then show ?thesis using n by (simp add: queue_ok_def)
qed

text \<open>Putting an event keeps every retained event up to the new mark covered.\<close>

lemma put_item_covered:
  assumes c: "covered d sid L D q" and n: "0 < n"
    and between: "\<forall>x \<in> set (sd_events d). se_session x = sid \<and> L < se_id x \<and> se_id x \<le> L' \<longrightarrow> x = e" "se_id e \<noteq> 0 \<or> L' = L"
  shows "covered d sid L' D (put_item n (Item e) q)"
proof (cases rule: put_item_cases [of n "Item e" q])
  case room
  then show ?thesis using c between by (cases "se_id e = 0") (fastforce simp: covered_def)+
next
  case full
  then show ?thesis using n by (simp add: covered_def)
qed

lemma covered_caught_up:
  "\<forall>e \<in> set (sd_events d). se_session e = sid \<longrightarrow> se_id e \<le> D \<Longrightarrow> covered d sid L D q"
  by (force simp: covered_def)

lemma retained_bounds: "outbox_ok (d, h) \<Longrightarrow> e \<in> set (sd_events d) \<Longrightarrow> 0 < se_id e \<and> se_id e \<le> sd_sequence d"
  using outbox_okD(4,5) [of d h] by blast

lemma stream_cursor_le: "outbox_ok (d, h) \<Longrightarrow> stream_cursor d sid \<le> sd_sequence d"
  using stream_cursor_mem [of d sid] retained_bounds [of d h] outbox_okD(6) [of d h]
  by (cases "stream_cursor d sid = 0") force+

lemma reset_client_ok:
  assumes ok: "outbox_ok (vw_db v, h)" and c: "cl_session c = sid"
  shows "client_ok (vw_db v) sid (reset_client v c) \<and> covered (vw_db v) sid L (cl_delivered (reset_client v c)) q"
proof -
  have "\<forall>e \<in> set (sd_events (vw_db v)). se_session e = sid \<longrightarrow> se_id e \<le> cl_delivered (reset_client v c)"
    using stream_cursor_ge [of _ "vw_db v"] c by fastforce
  then have "covered (vw_db v) sid L (cl_delivered (reset_client v c)) q" by (rule covered_caught_up)
  moreover have "client_ok (vw_db v) sid (reset_client v c)"
    using stream_cursor_le [OF ok, of sid] retained_bounds [OF ok] c by (force simp: client_ok_def)
  ultimately show ?thesis by blast
qed

lemma deliver_ok:
  assumes c: "client_ok d sid c" and n: "m \<le> length (pending d c)" and ok: "outbox_ok (d, h)"
  defines "c' \<equiv> fold deliver (take m (pending d c)) c"
  shows "client_ok d sid c'" "pending d c' = drop m (pending d c)"
proof -
  let ?P = "pending d c"
  let ?t = "take m ?P"
  have a: "ascending_from (cl_delivered c) ?t" by (intro ascending_take pending_ascending [OF ok])
  have s: "cl_session c = sid" using c by (simp add: client_ok_def)
  show p: "pending d c' = drop m ?P" unfolding c'_def by (rule pending_after_take [OF ok n])
  have nz: "\<forall>e \<in> set ?t. se_id e \<noteq> 0" using a by (fastforce simp: ascending_from_def)
  have D: "cl_delivered c' = (if ?t = [] then cl_delivered c else se_id (last ?t))"
    unfolding c'_def by (rule delivered_all [OF nz])
  have fr: "since_reset (cl_frames c') = since_reset (cl_frames c) @ ?t"
    unfolding c'_def by (simp add: since_reset_events [OF nz])
  have tm: "e \<in> set (sd_events d)" if "e \<in> set ?t" for e
    using in_set_takeD [OF that] by (auto simp: pending_def events_after_def)
  have le: "cl_delivered c \<le> cl_delivered c'" "\<forall>e \<in> set ?t. se_id e \<le> cl_delivered c'"
  proof -
    have "\<forall>e \<in> set ?t. se_id e \<le> se_id (last ?t)" if "?t \<noteq> []"
    proof -
      have "sorted_wrt (<) (map se_id (butlast ?t @ [last ?t]))"
        using a unfolding append_butlast_last_id [OF that] by (simp add: ascending_from_def)
      then have "\<forall>e \<in> set (butlast ?t @ [last ?t]). se_id e \<le> se_id (last ?t)"
        unfolding map_append sorted_wrt_append by auto
      then show ?thesis unfolding append_butlast_last_id [OF that] .
    qed
    then show "\<forall>e \<in> set ?t. se_id e \<le> cl_delivered c'" using D by (cases "?t = []") auto
    show "cl_delivered c \<le> cl_delivered c'"
    proof (cases "?t = []")
      case False
      then have "cl_delivered c < se_id (last ?t)" using a last_in_set [OF False] unfolding ascending_from_def by blast
      then show ?thesis using D False by simp
    qed (simp add: D)
  qed
  have "cl_delivered c' \<le> sd_sequence d"
  proof (cases "?t = []")
    case False
    then show ?thesis using D retained_bounds [OF ok tm [OF last_in_set [OF False]]] by simp
  qed (use D c in \<open>simp add: client_ok_def\<close>)
  moreover have "sorted_wrt (<) (map se_id (since_reset (cl_frames c) @ ?t))"
    using c a unfolding map_append sorted_wrt_append by (fastforce simp: client_ok_def ascending_from_def)
  moreover have "\<forall>e \<in> set (since_reset (cl_frames c) @ ?t). se_id e \<le> cl_delivered c'"
    using c le by (fastforce simp: client_ok_def)
  moreover have "e \<in> set (since_reset (cl_frames c) @ ?t)"
    if e: "e \<in> set (sd_events d)" "se_session e = sid" "cl_base c < se_id e" "se_id e \<le> cl_delivered c'" for e
  proof (cases "se_id e \<le> cl_delivered c")
    case True
    then show ?thesis using c e by (simp add: client_ok_def)
  next
    case False
    then have "e \<in> set ?P" using e s by (simp add: pending_def events_after_def)
    moreover have "e \<notin> set (drop m ?P)"
      using e(4) unfolding p [symmetric] by (auto simp: pending_def events_after_def)
    ultimately have "e \<in> set ?t" by (metis UnE append_take_drop_id set_append)
    then show ?thesis by simp
  qed
  ultimately show "client_ok d sid c'" using s unfolding client_ok_def fr by (simp add: c'_def)
qed


lemma consume_ok:
  assumes ok: "outbox_ok (vw_db v, h)" and d: "d = vw_db v" and c: "client_ok d sid c"
    and cov: "covered d sid L (cl_delivered c) (item # q)" and q: "queue_ok L (item # q)" and L: "L \<le> sd_sequence d"
  shows "client_ok d sid (consume v item c) \<and> covered d sid L (cl_delivered (consume v item c)) q"
proof (cases item)
  case (Reset_Required r)
  have "cl_session c = sid" using c by (simp add: client_ok_def)
  from reset_client_ok [OF ok this] show ?thesis unfolding d Reset_Required consume_def item.case by blast
next
  case (Item e)
  have sess: "cl_session c = sid" using c by (simp add: client_ok_def)
  have nr: "\<not> list_ex is_reset (item # q)" using q by (auto simp: queue_ok_def Item list_ex_iff list_all_iff)
  then have all: "\<And>x. x \<in> set (sd_events d) \<Longrightarrow> se_session x = sid \<Longrightarrow> cl_delivered c < se_id x \<Longrightarrow> se_id x \<le> L \<Longrightarrow>
      x \<in> set (queue_events (item # q))"
    using cov by (auto simp: covered_def)
  have pos: "\<And>x. x \<in> set (sd_events d) \<Longrightarrow> 0 < se_id x" using retained_bounds [OF ok] d by blast
  consider (skip) "se_id e \<noteq> 0" "se_id e \<le> cl_delivered c" | (zero) "se_id e = 0"
    | (other) "se_id e \<noteq> 0" "\<not> se_id e \<le> cl_delivered c" "other_heat (cl_heat c) e"
    | (new) "se_id e \<noteq> 0" "\<not> se_id e \<le> cl_delivered c" "\<not> other_heat (cl_heat c) e" by blast
  then show ?thesis
  proof cases
    case skip
    then have "queue_events (item # q) = e # queue_events q" by (simp add: Item)
    then have "covered d sid L (cl_delivered c) q" using all skip by (fastforce simp: covered_def)
    then show ?thesis using skip c by (simp add: consume_def Item)
  next
    case zero
    then have "queue_events (item # q) = queue_events q" by (simp add: Item)
    then have "covered d sid L (cl_delivered c) q" using all by (simp add: covered_def)
    then show ?thesis using zero c by (simp add: consume_def Item deliver_def client_ok_def)
  next
    case other
    then show ?thesis using reset_client_ok [OF ok sess] unfolding d by (simp add: consume_def Item)
  next
    case new
    have e: "consume v item c = deliver e c" using new by (simp add: consume_def Item)
    have srt: "\<forall>x \<in> set (queue_events q). se_id e < se_id x" and eL: "se_id e \<le> L"
      using q new by (auto simp: queue_ok_def Item)
    have "queue_events (item # q) = e # queue_events q" using new by (simp add: Item)
    then have "covered d sid L (se_id e) q" using all new by (fastforce simp: covered_def)
    moreover have "x \<in> set (since_reset (cl_frames c) @ [e])"
      if x: "x \<in> set (sd_events d)" "se_session x = sid" "cl_base c < se_id x" "se_id x \<le> se_id e" for x
    proof (cases "se_id x \<le> cl_delivered c")
      case True
      then show ?thesis using c x by (simp add: client_ok_def)
    next
      case False
      then have "x \<in> set (queue_events (item # q))" using all x eL by simp
      then show ?thesis using srt x new by (fastforce simp: Item)
    qed
    moreover have "sorted_wrt (<) (map se_id (since_reset (cl_frames c) @ [e]))"
      using c new by (fastforce simp: client_ok_def sorted_wrt_append)
    moreover have "\<forall>x \<in> set (since_reset (cl_frames c) @ [e]). se_id x \<le> se_id e"
      using c new by (fastforce simp: client_ok_def)
    moreover have fr: "since_reset (cl_frames (deliver e c)) = since_reset (cl_frames c) @ [e]" using new by simp
    moreover have "cl_delivered (deliver e c) = se_id e" using new by (simp add: deliver_def)
    ultimately show ?thesis using eL L sess unfolding e client_ok_def fr by simp
  qed
qed

lemma queue_ok_tl: "queue_ok L (item # q) \<Longrightarrow> queue_ok L q"
  by (cases q; cases item) (auto simp: queue_ok_def sorted_wrt_append split: if_splits)

lemma replay_turn_ok:
  assumes ok: "outbox_ok (vw_db v, h)" and c: "client_ok (vw_db v) sid c"
    and t: "replay_turn (vw_db v) v (c, n) = ((c', n'), finished)"
  shows "phase_ok (vw_db v) sid L q (if finished then Finishing c' n' else Replaying c' n')"
proof (cases "n < REPLAY_LIMIT")
  case False
  then show ?thesis using t c by (auto simp: replay_turn_def)
next
  case True
  let ?P = "pending (vw_db v) c"
  let ?b = "take DEFAULT_BATCH_SIZE ?P"
  have sess: "cl_session c = sid" using c by (simp add: client_ok_def)
  note k = replay_turn_cases [OF ok True, of c]
  have caught: "covered (vw_db v) sid L (cl_delivered x) q" if x: "pending (vw_db v) x = []" "cl_session x = sid" for x
    using x by (intro covered_caught_up) (auto simp: pending_def events_after_def filter_empty_conv)
  show ?thesis
  proof (cases "list_ex (other_heat (cl_heat c)) ?b")
    case ex: True
    then obtain j where "replay_turn (vw_db v) v (c, n) = ((reset_client v (fold deliver (take j ?P) c), n + j + 1), True)"
      using k by blast
    then show ?thesis using t sess reset_client_ok [OF ok, of "fold deliver (take j ?P) c" sid] by auto
  next
    case no: False
    then have "list_all (\<lambda>e. \<not> other_heat (cl_heat c) e) ?b" by (simp add: list_all_iff list_ex_iff)
    then have e: "c' = fold deliver ?b c" "finished = (length ?b < DEFAULT_BATCH_SIZE)"
      using k t by auto
    have b: "?b = take (length ?b) ?P" "length ?b \<le> length ?P"
      by (metis append_eq_conv_conj append_take_drop_id, simp)
    note dl = deliver_ok [OF c b(2) ok, folded b(1)]
    show ?thesis
    proof (cases finished)
      case True
      then have "pending (vw_db v) c' = []" using dl(2) e by simp
      then show ?thesis using True dl(1) e(1) caught sess by simp
    next
      case False
      then show ?thesis using dl(1) e(1) by simp
    qed
  qed
qed


lemma phase_ok_mono:
  assumes "phase_ok d sid L q p" "\<And>D. covered d sid L D q \<Longrightarrow> covered d' sid L' D q'"
    "\<And>c. client_ok d sid c \<Longrightarrow> client_ok d' sid c"
  shows "phase_ok d' sid L' q' p"
  using assms by (cases p) auto

lemma fanout_ok:
  assumes b: "broker_ok d ph b" and e: "se_id e \<noteq> 0 \<longrightarrow> bk_last b < se_id e" "bk_last b \<le> L" "se_id e \<le> L" "L \<le> sd_sequence d"
    and between: "\<forall>x \<in> set (sd_events d). bk_last b < se_id x \<and> se_id x \<le> L \<longrightarrow> x = e \<and> sid = se_session e"
    "se_id e \<noteq> 0 \<or> L = bk_last b"
  shows "broker_ok d ph (fanout sid (Item e) (b\<lparr> bk_last := L \<rparr>))"
proof -
  let ?f = "\<lambda>s. if sb_session s = sid then s\<lparr> sb_queue := put_item (bk_queue_size b) (Item e) (sb_queue s) \<rparr> else s"
  have n: "0 < bk_queue_size b" using b by (simp add: broker_ok_def)
  have "subscriber_ok d ph L (?f s)" if s: "s \<in> set (bk_subscribers b)" for s
  proof -
    have so: "queue_ok (bk_last b) (sb_queue s)"
      "\<And>p. map_of ph (sb_id s) = Some p \<Longrightarrow> phase_ok d (sb_session s) (bk_last b) (sb_queue s) p"
      using b s by (auto simp: broker_ok_def subscriber_ok_def)
    show ?thesis
    proof (cases "sb_session s = sid")
      case True
      have "queue_ok L (put_item (bk_queue_size b) (Item e) (sb_queue s))" by (rule put_item_ok [OF so(1) n e(1-3)])
      moreover have "phase_ok d (sb_session s) L (put_item (bk_queue_size b) (Item e) (sb_queue s)) p"
        if "map_of ph (sb_id s) = Some p" for p
        using so(2) [OF that] by (rule phase_ok_mono) (use between n in \<open>auto intro: put_item_covered\<close>)
      ultimately show ?thesis using True by (simp add: subscriber_ok_def)
    next
      case False
      have "queue_ok L (sb_queue s)" using so(1) e(2) by (fastforce simp: queue_ok_def)
      moreover have "phase_ok d (sb_session s) L (sb_queue s) p" if "map_of ph (sb_id s) = Some p" for p
      proof (rule phase_ok_mono [OF so(2) [OF that]])
        fix D assume "covered d (sb_session s) (bk_last b) D (sb_queue s)"
        then show "covered d (sb_session s) L D (sb_queue s)"
          using False between unfolding covered_def by (metis linorder_not_le)
      qed
      ultimately show ?thesis using False by (simp add: subscriber_ok_def)
    qed
  qed
  moreover define B where "B = fanout sid (Item e) (b\<lparr> bk_last := L \<rparr>)"
  moreover have B: "bk_last B = L" "bk_queue_size B = bk_queue_size b" "bk_batch_size B = bk_batch_size b"
    "bk_subscribers B = map ?f (bk_subscribers b)" by (simp_all add: B_def fanout_def)
  moreover have "map sb_id (bk_subscribers B) = map sb_id (bk_subscribers b)" unfolding B(4) by simp
  moreover have "0 \<le> L" using b e(2) by (simp add: broker_ok_def)
  ultimately have "\<forall>s \<in> set (bk_subscribers B). subscriber_ok d ph L s" "distinct (map sb_id (bk_subscribers B))"
    using b unfolding broker_ok_def by (auto simp only: set_map image_iff)
  then show ?thesis using b e(4) B(1-3) \<open>0 \<le> L\<close> unfolding broker_ok_def B_def [symmetric] by simp
qed

lemma poll_event_ok:
  assumes ok: "outbox_ok (d, h)" and b: "broker_ok d ph b" and e: "e \<in> set (sd_events d)" "bk_last b < se_id e"
    and between: "\<forall>x \<in> set (sd_events d). bk_last b < se_id x \<and> se_id x \<le> se_id e \<longrightarrow> x = e"
  shows "broker_ok d ph (poll_event e b)"
proof -
  have "max (bk_last b) (se_id e) = se_id e" using e by simp
  then show ?thesis unfolding poll_event_def
    using retained_bounds [OF ok e(1)] e between by (intro fanout_ok [OF b]) auto
qed

lemma poll_event_fields [simp]:
  "bk_last (poll_event e b) = max (bk_last b) (se_id e)" "bk_queue_size (poll_event e b) = bk_queue_size b"
  "bk_batch_size (poll_event e b) = bk_batch_size b" "map sb_id (bk_subscribers (poll_event e b)) = map sb_id (bk_subscribers b)"
  by (auto simp: poll_event_def fanout_def)

lemma poll_fold_ok:
  assumes ok: "outbox_ok (d, h)" and b: "broker_ok d ph b" and s: "ascending_from (bk_last b) es" "set es \<subseteq> set (sd_events d)"
    and prefix: "\<forall>x \<in> set (sd_events d). \<forall>e \<in> set es. bk_last b < se_id x \<and> se_id x \<le> se_id e \<longrightarrow> x \<in> set es"
  shows "broker_ok d ph (fold poll_event es b)"
  using b s prefix
proof (induction es arbitrary: b)
  case (Cons e es)
  have lt: "bk_last b < se_id e" "\<forall>x \<in> set es. se_id e < se_id x" using Cons.prems(2) by (auto simp: ascending_from_def)
  have "x = e" if x: "x \<in> set (sd_events d)" "bk_last b < se_id x" "se_id x \<le> se_id e" for x
  proof -
    have "x \<in> set (e # es)" using Cons.prems(4) x by simp
    then show ?thesis using lt(2) x(3) by auto
  qed
  then have p: "broker_ok d ph (poll_event e b)" using Cons.prems(1,3) lt by (intro poll_event_ok [OF ok]) auto
  have l: "bk_last (poll_event e b) = se_id e" using lt by simp
  have "broker_ok d ph (fold poll_event es (poll_event e b))"
  proof (rule Cons.IH [OF p])
    show "ascending_from (bk_last (poll_event e b)) es" unfolding l by (rule ascending_tail [OF Cons.prems(2)])
    show "set es \<subseteq> set (sd_events d)" using Cons.prems(3) by simp
    show "\<forall>x \<in> set (sd_events d). \<forall>y \<in> set es. bk_last (poll_event e b) < se_id x \<and> se_id x \<le> se_id y \<longrightarrow> x \<in> set es"
    proof (intro ballI impI)
      fix x y assume x: "x \<in> set (sd_events d)" "y \<in> set es" "bk_last (poll_event e b) < se_id x \<and> se_id x \<le> se_id y"
      then have "bk_last b < se_id x \<and> se_id x \<le> se_id y" using lt(1) l by simp
      moreover have "y \<in> set (e # es)" using x(2) by simp
      ultimately have "x \<in> set (e # es)" using Cons.prems(4) x(1) by blast
      moreover have "x \<noteq> e" using x(3) l by auto
      ultimately show "x \<in> set es" by simp
    qed
  qed
  then show ?case by simp
qed simp

lemma select_all_events:
  assumes ok: "outbox_ok (d, h)"
  shows "select_events after n None d = take n (filter (\<lambda>r. after < se_id r) (sd_events d))"
    and "ascending_from after (select_events after n None d)"
    and "\<forall>x \<in> set (sd_events d). \<forall>e \<in> set (select_events after n None d). after < se_id x \<and> se_id x \<le> se_id e \<longrightarrow>
      x \<in> set (select_events after n None d)"
proof -
  let ?F = "filter (\<lambda>r. after < se_id r) (sd_events d)"
  have s: "sorted_wrt (<) (map se_id ?F)"
    using outbox_okD(2) [OF ok] unfolding sorted_wrt_map by (rule sorted_wrt_filter)
  then show u: "select_events after n None d = take n ?F" by (simp add: select_events_def sort_key_sorted)
  have "ascending_from after ?F" using s retained_bounds [OF ok] by (auto simp: ascending_from_def)
  then show "ascending_from after (select_events after n None d)" unfolding u by (rule ascending_take)
  show "\<forall>x \<in> set (sd_events d). \<forall>e \<in> set (select_events after n None d). after < se_id x \<and> se_id x \<le> se_id e \<longrightarrow>
      x \<in> set (select_events after n None d)"
  proof (intro ballI impI)
    fix x e assume x: "x \<in> set (sd_events d)" "e \<in> set (select_events after n None d)" "after < se_id x \<and> se_id x \<le> se_id e"
    have "x \<in> set ?F" using x by simp
    moreover have "x \<notin> set (drop n ?F)"
    proof
      assume dr: "x \<in> set (drop n ?F)"
      have "sorted_wrt (<) (map se_id (take n ?F @ drop n ?F))" using s by simp
      then have "\<forall>a \<in> set (map se_id (take n ?F)). \<forall>b \<in> set (map se_id (drop n ?F)). a < b"
        unfolding map_append sorted_wrt_append by blast
      moreover have "se_id e \<in> set (map se_id (take n ?F))" "se_id x \<in> set (map se_id (drop n ?F))"
        using x(2) dr unfolding u by (simp_all only: set_map image_eqI)
      ultimately have "se_id e < se_id x" by blast
      then show False using x(3) by simp
    qed
    ultimately show "x \<in> set (select_events after n None d)" unfolding u by (metis UnE append_take_drop_id set_append)
  qed
qed

lemma poll_events_ok:
  assumes ok: "outbox_ok (d, h)" and b: "broker_ok d ph b"
  shows "broker_ok d ph (poll_events d b)"
proof (cases "bk_subscribers b = []")
  case False
  note s = select_all_events [OF ok, of "bk_last b" "bk_batch_size b"]
  have "set (select_events (bk_last b) (bk_batch_size b) None d) \<subseteq> set (sd_events d)" using select_after by blast
  then show ?thesis using False poll_fold_ok [OF ok b s(2) _ s(3)] by (simp add: poll_events_def)
qed (simp add: poll_events_def b)


section \<open>Every step keeps the invariant\<close>

lemma broker_ok_phases:
  assumes "broker_ok d ph b" "\<And>s p. s \<in> set (bk_subscribers b) \<Longrightarrow> map_of ph' (sb_id s) = Some p \<Longrightarrow>
    map_of ph (sb_id s) = Some p \<or> phase_ok d (sb_session s) (bk_last b) (sb_queue s) p"
  shows "broker_ok d ph' b"
  using assms by (fastforce simp: broker_ok_def subscriber_ok_def)

lemma same_subscriber: "distinct (map sb_id xs) \<Longrightarrow> s \<in> set xs \<Longrightarrow> s' \<in> set xs \<Longrightarrow> sb_id s = sb_id s' \<Longrightarrow> s = s'"
  by (induction xs) (auto simp: rev_image_eqI)

lemma find_subscriberD: "find_subscriber i b = Some s \<Longrightarrow> s \<in> set (bk_subscribers b) \<and> sb_id s = i"
  by (auto simp: find_subscriber_def find_Some_iff)

lemma set_phase_ok:
  assumes w: "world_ok w" and p: "\<And>s. s \<in> set (bk_subscribers (wd_broker w)) \<Longrightarrow> sb_id s = i \<Longrightarrow>
    phase_ok (wd_db w) (sb_session s) (bk_last (wd_broker w)) (sb_queue s) p"
  shows "world_ok (set_phase i p w)"
  using w p unfolding world_ok_def set_phase_def
  by (auto simp: update_conv intro!: broker_ok_phases [of "wd_db w" "wd_phases w"] split: if_splits)

lemma current_phase_ok:
  "world_ok w \<Longrightarrow> s \<in> set (bk_subscribers (wd_broker w)) \<Longrightarrow> map_of (wd_phases w) (sb_id s) = Some p \<Longrightarrow>
    phase_ok (wd_db w) (sb_session s) (bk_last (wd_broker w)) (sb_queue s) p"
  by (auto simp: world_ok_def broker_ok_def subscriber_ok_def)

lemma current_view_db [simp]: "vw_db (current_view w h g) = wd_db w"
  by (simp add: current_view_def)

lemma disconnect_ok: "world_ok w \<Longrightarrow> world_ok (disconnect i w)"
proof (cases "find_subscriber i (wd_broker w)")
  case (Some s)
  assume w: "world_ok w"
  let ?b = "unsubscribe i (sb_session s) (wd_broker w)"
  have u: "bk_subscribers ?b = filter (\<lambda>s. sb_id s \<noteq> i) (bk_subscribers (wd_broker w))" "bk_last ?b = bk_last (wd_broker w)"
    "bk_queue_size ?b = bk_queue_size (wd_broker w)" "bk_batch_size ?b = bk_batch_size (wd_broker w)"
    by (simp_all add: unsubscribe_def Let_def)
  have "broker_ok (wd_db w) (wd_phases w) ?b"
    using w unfolding world_ok_def broker_ok_def u by (auto simp: distinct_map_filter)
  then have "broker_ok (wd_db w) (AList.delete i (wd_phases w)) ?b"
    by (rule broker_ok_phases) (auto simp: delete_conv split: if_splits)
  then show ?thesis using w Some by (simp add: disconnect_def world_ok_def)
qed (simp add: disconnect_def)

lemma last_global_le: "outbox_ok (d, h) \<Longrightarrow> 0 \<le> last_global_event_id d \<and> last_global_event_id d \<le> sd_sequence d"
proof (cases "sd_events d = []")
  case False
  assume ok: "outbox_ok (d, h)"
  have "Max (se_id ` set (sd_events d)) \<in> se_id ` set (sd_events d)" using False by (intro Max_in) auto
  then obtain e where "e \<in> set (sd_events d)" "Max (se_id ` set (sd_events d)) = se_id e" by auto
  then show ?thesis using retained_bounds [OF ok] False by (simp add: last_global_event_id_def order_less_imp_le)
qed (simp add: last_global_event_id_def outbox_okD(6))

lemma register_ok:
  assumes w: "world_ok w" and none: "subscribe_check (wd_broker w) = none_subscribed"
  shows "world_ok (register i sid none_subscribed w)"
proof (cases "find_subscriber i (wd_broker w)")
  case None
  let ?b = "subscribe_add i sid (subscribe_read none_subscribed (wd_db w)) (wd_broker w)"
  have fresh: "i \<notin> sb_id ` set (bk_subscribers (wd_broker w))"
    using None by (auto simp: find_subscriber_def find_None_iff)
  have ok: "outbox_ok (wd_db w, snd (wd_log w))" using w by (simp add: world_ok_def)
  have "broker_ok (wd_db w) (AList.update i Opening (wd_phases w)) ?b"
    using w last_global_le [OF ok] none fresh
    by (cases none_subscribed)
       (auto simp: world_ok_def broker_ok_def subscribe_add_def subscribe_read_def subscribe_check_def subscriber_ok_def
         update_conv queue_ok_def split: if_splits)
  then show ?thesis using w None by (simp add: register_def set_phase_def world_ok_def)
qed (simp add: register_def w)

lemma write_ok:
  assumes w: "world_ok w"
  shows "world_ok (w\<lparr> wd_log := logged_step (wd_log w) c \<rparr>)"
proof -
  let ?d = "wd_db w" and ?d' = "fst (logged_step (wd_log w) c)"
  have ok: "outbox_ok (?d, snd (wd_log w))" using w by (simp add: world_ok_def)
  have d': "?d' = stream_step ?d c" by (simp add: logged_step_def Let_def)
  have seq: "sd_sequence ?d \<le> sd_sequence ?d'"
    and old: "\<And>e. e \<in> set (sd_events ?d') \<Longrightarrow> e \<in> set (sd_events ?d) \<or> sd_sequence ?d < se_id e"
    using stream_step_changes [OF ok, of c] unfolding d' by (auto simp: outbox_extends_def outbox_shrinks_def)
  have L: "bk_last (wd_broker w) \<le> sd_sequence ?d" using w by (simp add: world_ok_def broker_ok_def)
  have cov: "covered ?d sid L D q \<Longrightarrow> L \<le> sd_sequence ?d \<Longrightarrow> covered ?d' sid L D q" for sid L D q
    unfolding covered_def using old by (meson le_less_trans linorder_not_le)
  have cl: "client_ok ?d sid cl \<Longrightarrow> client_ok ?d' sid cl" for sid cl
    unfolding client_ok_def using old seq by (meson le_less_trans linorder_not_le order_trans)
  have "subscriber_ok ?d' (wd_phases w) (bk_last (wd_broker w)) s" if s: "s \<in> set (bk_subscribers (wd_broker w))" for s
  proof -
    have "subscriber_ok ?d (wd_phases w) (bk_last (wd_broker w)) s" using w s by (simp add: world_ok_def broker_ok_def)
    then show ?thesis unfolding subscriber_ok_def using phase_ok_mono [OF _ cov cl] L by blast
  qed
  then have "broker_ok ?d' (wd_phases w) (wd_broker w)" using w seq by (auto simp: world_ok_def broker_ok_def)
  moreover have "outbox_ok (logged_step (wd_log w) c)" using w by (intro logged_step_ok) (simp add: world_ok_def)
  ultimately show ?thesis by (simp add: world_ok_def)
qed

lemma open_ok:
  assumes ok: "outbox_ok (vw_db v, h)" and o: "open_client sid requested v (vw_db v) (vw_db v) = Inr (c, replays)"
  shows "phase_ok (vw_db v) sid L q (if replays then Replaying c 0 else Streaming c)"
proof -
  have up: "covered (vw_db v) sid L (stream_cursor (vw_db v) sid) q"
    using stream_cursor_ge [of _ "vw_db v"] by (intro covered_caught_up) auto
  have le: "stream_cursor (vw_db v) sid \<le> sd_sequence (vw_db v)" by (rule stream_cursor_le [OF ok])
  have b: "\<forall>e \<in> set (sd_events (vw_db v)). se_id e \<le> sd_sequence (vw_db v)" using retained_bounds [OF ok] by blast
  have sr: "since_reset [Snapshot_Frame n] = []" "since_reset [Reset_Frame n] = []" for n
    by (simp_all add: since_reset_def is_event_frame_def frame_events_def)
  have cur: "cursor \<le> sd_sequence (vw_db v)"
    if s: "stream_reset_required sid heat cursor (vw_db v) (vw_db v) = Inr False" for heat cursor
  proof -
    obtain w where w: "read_cursor_window sid cursor (vw_db v) = Inr w" "\<not> requires_reset w cursor"
      using s by (auto simp: stream_reset_required_def Let_def split: if_splits sum.splits)
    then have "cursor \<le> stream_cursor (vw_db v) sid"
      by (auto simp: read_cursor_window_def require_cursor_def requires_reset_def split: if_splits)
    then show ?thesis using le by simp
  qed
  show ?thesis
  proof (cases requested)
    case None
    then show ?thesis using o up le b by (auto simp: open_client_def client_ok_def sr Let_def)
  next
    case (Some cursor)
    then show ?thesis
      using o up le b cur [of "vw_heat v" cursor]
      by (auto simp: open_client_def client_ok_def sr Let_def split: sum.splits bool.splits)
  qed
qed

lemma quality_ok:
  assumes b: "broker_ok d ph b" and ok: "outbox_ok (d, h)"
  shows "broker_ok d ph (poll_quality encode sq b)"
proof (cases sq)
  case (Pair sid q)
  let ?b = "b\<lparr> bk_fingerprints := AList.update sid (fq_source_heat_id q, fq_generation q, fq_status q, fq_reason q) (bk_fingerprints b) \<rparr>"
  have "broker_ok d ph ?b" using b by (simp add: broker_ok_def)
  then have "broker_ok d ph (fanout sid (Item (quality_row sid encode q)) (?b\<lparr> bk_last := bk_last ?b \<rparr>))"
    using b by (intro fanout_ok) (auto simp: quality_row_def broker_ok_def)
  then show ?thesis using b by (simp add: poll_quality_def Pair Let_def)
qed

lemma take_item_ok:
  assumes w: "world_ok w" and s: "find_subscriber i (wd_broker w) = Some s" "sb_queue s = item # q"
    and p: "map_of (wd_phases w) i = Some (Streaming c)"
  shows "world_ok (set_phase i (Streaming (consume (current_view w h g) item c)) (w\<lparr> wd_broker := take_item i (wd_broker w) \<rparr>))"
proof -
  let ?b = "wd_broker w" and ?d = "wd_db w" and ?c = "consume (current_view w h g) item c"
  let ?f = "\<lambda>s. if sb_id s = i then s\<lparr> sb_queue := tl (sb_queue s) \<rparr> else s"
  have ok: "outbox_ok (?d, snd (wd_log w))" and bo: "broker_ok ?d (wd_phases w) ?b" using w by (auto simp: world_ok_def)
  have sm: "s \<in> set (bk_subscribers ?b)" "sb_id s = i" using find_subscriberD [OF s(1)] by auto
  have so: "queue_ok (bk_last ?b) (item # q)" "client_ok ?d (sb_session s) c" "covered ?d (sb_session s) (bk_last ?b) (cl_delivered c) (item # q)"
    using bo sm p s(2) by (auto simp: broker_ok_def subscriber_ok_def)
  have L: "bk_last ?b \<le> sd_sequence ?d" using bo by (simp add: broker_ok_def)
  have "client_ok ?d (sb_session s) ?c \<and> covered ?d (sb_session s) (bk_last ?b) (cl_delivered ?c) q"
    by (rule consume_ok [of "current_view w h g", unfolded current_view_db, OF ok refl so(2,3,1) L])
  then have new: "subscriber_ok ?d (AList.update i (Streaming ?c) (wd_phases w)) (bk_last ?b) (s\<lparr> sb_queue := q \<rparr>)"
    using queue_ok_tl [OF so(1)] sm(2) by (auto simp: subscriber_ok_def update_conv)
  have "subscriber_ok ?d (AList.update i (Streaming ?c) (wd_phases w)) (bk_last ?b) (?f t)"
    if t: "t \<in> set (bk_subscribers ?b)" for t
  proof (cases "sb_id t = i")
    case True
    then have "t = s" using same_subscriber [OF _ t sm(1)] sm(2) bo by (simp add: broker_ok_def)
    then show ?thesis using new sm(2) s(2) by simp
  next
    case False
    then show ?thesis using bo t by (auto simp: broker_ok_def subscriber_ok_def update_conv)
  qed
  moreover define B where "B = take_item i ?b"
  moreover have B: "bk_last B = bk_last ?b" "bk_queue_size B = bk_queue_size ?b" "bk_batch_size B = bk_batch_size ?b"
    "bk_subscribers B = map ?f (bk_subscribers ?b)" by (simp_all add: B_def take_item_def)
  moreover have "map sb_id (bk_subscribers B) = map sb_id (bk_subscribers ?b)" unfolding B(4) by simp
  ultimately have "\<forall>t \<in> set (bk_subscribers B). subscriber_ok ?d (AList.update i (Streaming ?c) (wd_phases w)) (bk_last B) t"
    "distinct (map sb_id (bk_subscribers B))" using bo unfolding broker_ok_def by (auto simp only: set_map image_iff)
  then have "broker_ok ?d (AList.update i (Streaming ?c) (wd_phases w)) B" using bo B(1-3) by (simp add: broker_ok_def)
  then show ?thesis using w by (simp add: world_ok_def set_phase_def B_def)
qed

lemma world_step_ok:
  assumes w: "world_ok w" and u: "uninterrupted c"
  shows "world_ok (world_step w c)"
proof -
  have ok: "outbox_ok (wd_db w, snd (wd_log w))" using w by (simp add: world_ok_def)
  show ?thesis
  proof (cases c)
    case (Write x)
    then show ?thesis by (simp add: write_ok w)
  next
    case Poll
    then show ?thesis using w poll_events_ok [OF ok] by (simp add: world_ok_def)
  next
    case (Poll_Quality sid q payload)
    then show ?thesis using w quality_ok [OF _ ok] by (simp add: world_ok_def)
  next
    case (Subscribe i sid)
    then show ?thesis by (simp add: register_ok w)
  next
    case (Open i requested heat generation)
    show ?thesis
    proof (cases "find_subscriber i (wd_broker w)")
      case (Some s)
      have o: "phase_ok (wd_db w) (sb_session s) (bk_last (wd_broker w)) (sb_queue s) (if replays then Replaying cl 0 else Streaming cl)"
        if "open_client (sb_session s) requested (current_view w heat generation) (wd_db w) (wd_db w) = Inr (cl, replays)" for cl replays
        by (rule open_ok [of "current_view w heat generation", unfolded current_view_db, OF ok that])
      have "t = s" if "t \<in> set (bk_subscribers (wd_broker w))" "sb_id t = i" for t
        using same_subscriber [OF _ that(1), of s] that(2) find_subscriberD [OF Some] w by (simp add: world_ok_def broker_ok_def)
      then show ?thesis unfolding Open world_step.simps Some prod.case option.case
        using w o by (auto simp: disconnect_ok intro!: set_phase_ok split: option.splits phase.splits sum.splits)
    qed (simp add: Open w)
  next
    case (Replay_Turn i heat generation)
    have "world_ok (set_phase i (if finished then Finishing c' n' else Replaying c' n') w)"
      if p: "map_of (wd_phases w) i = Some (Replaying cl n)"
        and t: "replay_turn (wd_db w) (current_view w heat generation) (cl, n) = ((c', n'), finished)" for cl n c' n' finished
    proof (rule set_phase_ok [OF w])
      fix s assume s: "s \<in> set (bk_subscribers (wd_broker w))" "sb_id s = i"
      then have "client_ok (wd_db w) (sb_session s) cl" using current_phase_ok [OF w s(1)] p by simp
      then show "phase_ok (wd_db w) (sb_session s) (bk_last (wd_broker w)) (sb_queue s)
          (if finished then Finishing c' n' else Replaying c' n')"
        by (rule replay_turn_ok [of "current_view w heat generation", unfolded current_view_db, OF ok _ t])
    qed
    then show ?thesis using w unfolding Replay_Turn world_step.simps
      by (auto split: option.splits phase.splits prod.splits)
  next
    case (Finish i heat generation)
    have "world_ok (set_phase i (Streaming (finish_replay (current_view w heat generation) (cl, n))) w)"
      if p: "map_of (wd_phases w) i = Some (Finishing cl n)" for cl n
    proof (rule set_phase_ok [OF w])
      fix s assume s: "s \<in> set (bk_subscribers (wd_broker w))" "sb_id s = i"
      then have f: "client_ok (wd_db w) (sb_session s) cl"
        "REPLAY_LIMIT \<le> n \<or> covered (wd_db w) (sb_session s) (bk_last (wd_broker w)) (cl_delivered cl) (sb_queue s)"
        using current_phase_ok [OF w s(1)] p by auto
      have "cl_session cl = sb_session s" using f(1) by (simp add: client_ok_def)
      from reset_client_ok [of "current_view w heat generation", unfolded current_view_db, OF ok this] f
      show "phase_ok (wd_db w) (sb_session s) (bk_last (wd_broker w)) (sb_queue s)
          (Streaming (finish_replay (current_view w heat generation) (cl, n)))"
        unfolding finish_replay_def phase_ok.simps by (cases "REPLAY_LIMIT \<le> n") auto
    qed
    then show ?thesis using w unfolding Finish world_step.simps by (auto split: option.splits phase.splits)
  next
    case (Consume i heat generation)
    then show ?thesis using w take_item_ok [OF w]
      by (auto split: option.splits phase.splits list.splits)
  next
    case (Disconnect i)
    then show ?thesis by (simp add: disconnect_ok w)
  qed (use u in simp_all)
qed


text \<open>The uninterrupted steps as a machine.\<close>

definition safe_step :: "world \<Rightarrow> world_command \<Rightarrow> world" where
  "safe_step w c = (if uninterrupted c then world_step w c else w)"

lemma new_world_ok: "0 < m \<Longrightarrow> 0 < n \<Longrightarrow> world_ok (new_world m n)"
  by (simp add: world_ok_def new_world_def outbox_ok_def broker_ok_def new_broker_def last_global_event_id_def empty_stream_db_def)

interpretation stream_world: invariant_machine safe_step "\<lambda>w. \<exists>m n. 0 < m \<and> 0 < n \<and> w = new_world m n" world_ok
proof unfold_locales
  show "world_ok w" if "\<exists>m n. 0 < m \<and> 0 < n \<and> w = new_world m n" for w
    using that by (auto intro: new_world_ok)
  show "world_ok (safe_step w c)" if "world_ok w" for w c
    using that by (simp add: safe_step_def world_step_ok)
qed

definition run_world :: "nat \<Rightarrow> nat \<Rightarrow> world_command list \<Rightarrow> world" where
  "run_world batch_size queue_size cs = foldl world_step (new_world batch_size queue_size) cs"

lemma run_world_ok:
  assumes "0 < m" "0 < n" "list_all uninterrupted cs"
  shows "world_ok (run_world m n cs)"
proof -
  have "foldl world_step w cs = foldl safe_step w cs" for w
    using assms(3) by (induction cs arbitrary: w) (auto simp: safe_step_def)
  then show ?thesis unfolding run_world_def using stream_world.reachable_inv [of "new_world m n" cs] assms(1,2) by auto
qed

text \<open>C4. The live stream loses nothing: let writers, retention, rebuilds, the broker and any
  number of connections interleave, each subscription being uninterrupted. Then for every
  streaming client, every event of its session that the outbox still holds and that its last
  snapshot (or its accepted cursor) did not cover was received since, or waits in its queue,
  or was not read by the broker yet, unless a reset marker waits in the queue; and the events
  received since the last snapshot have strictly increasing ids.\<close>
theorem stream_loses_nothing:
  assumes "0 < batch_size" "0 < queue_size" "list_all uninterrupted cs"
    and "w = run_world batch_size queue_size cs"
    and "find_subscriber i (wd_broker w) = Some s" "map_of (wd_phases w) i = Some (Streaming c)"
  shows "sorted_wrt (<) (map se_id (since_reset (cl_frames c))) \<and>
    (list_ex is_reset (sb_queue s) \<or>
     (\<forall>e \<in> set (sd_events (wd_db w)). se_session e = sb_session s \<and> cl_base c < se_id e \<longrightarrow>
        e \<in> set (since_reset (cl_frames c)) \<or> e \<in> set (queue_events (sb_queue s)) \<or> bk_last (wd_broker w) < se_id e))"
proof -
  have ok: "world_ok w" using run_world_ok [OF assms(1-3)] assms(4) by simp
  have s: "s \<in> set (bk_subscribers (wd_broker w))" "sb_id s = i" using find_subscriberD [OF assms(5)] by auto
  have c: "client_ok (wd_db w) (sb_session s) c"
      "covered (wd_db w) (sb_session s) (bk_last (wd_broker w)) (cl_delivered c) (sb_queue s)"
    using current_phase_ok [OF ok s(1)] assms(6) s(2) by auto
  have "e \<in> set (since_reset (cl_frames c)) \<or> e \<in> set (queue_events (sb_queue s)) \<or> bk_last (wd_broker w) < se_id e"
    if e: "\<not> list_ex is_reset (sb_queue s)" "e \<in> set (sd_events (wd_db w))" "se_session e = sb_session s" "cl_base c < se_id e" for e
  proof (cases "se_id e \<le> cl_delivered c")
    case True
    then show ?thesis using c(1) e by (simp add: client_ok_def)
  next
    case False
    then show ?thesis using c(2) e by (auto simp: covered_def)
  qed
  then show ?thesis using c(1) by (auto simp: client_ok_def)
qed

definition demo_write :: "string \<Rightarrow> world_command" where
  "demo_write key = Write (Append False 7 demo_origin [demo_candidate key])"

definition demo_event :: "string \<Rightarrow> int \<Rightarrow> stream_row" where
  "demo_event key i = (outbox_row 7 demo_origin (demo_candidate key))\<lparr> se_id := i \<rparr>"

lemma stream_loses_nothing_witness:
  "\<exists>w s c. w = run_world 2 2 [demo_write ''a'', Subscribe 0 ''s'', Open 0 None (Some 1) (Some 1), demo_write ''b'', demo_write ''c'', Poll,
      Consume 0 (Some 1) (Some 1)] \<and>
    find_subscriber 0 (wd_broker w) = Some s \<and> map_of (wd_phases w) 0 = Some (Streaming c) \<and>
    since_reset (cl_frames c) = [demo_event ''b'' 2] \<and> queue_events (sb_queue s) = [demo_event ''c'' 3] \<and> cl_base c = 1 \<and>
    (list_ex is_reset (sb_queue s) \<or>
     (\<forall>e \<in> set (sd_events (wd_db w)). se_session e = sb_session s \<and> cl_base c < se_id e \<longrightarrow>
        e \<in> set (since_reset (cl_frames c)) \<or> e \<in> set (queue_events (sb_queue s)) \<or> bk_last (wd_broker w) < se_id e))"
proof -
  let ?cs = "[demo_write ''a'', Subscribe 0 ''s'', Open 0 None (Some 1) (Some 1), demo_write ''b'', demo_write ''c'', Poll,
      Consume 0 (Some 1) (Some 1)]"
  define w where "w = run_world 2 2 ?cs"
  define s where "s = \<lparr> sb_id = 0, sb_session = ''s'', sb_queue = [Item (demo_event ''c'' 3)] \<rparr>"
  define c where "c = \<lparr> cl_session = ''s'', cl_delivered = 2, cl_heat = Some 1, cl_generation = Some 1,
    cl_frames = [Snapshot_Frame 1, Event_Frame (demo_event ''b'' 2)], cl_base = 1 \<rparr>"
  have s: "find_subscriber 0 (wd_broker w) = Some s" unfolding w_def s_def by code_simp
  have c: "map_of (wd_phases w) 0 = Some (Streaming c)" unfolding w_def c_def by code_simp
  have u: "list_all uninterrupted ?cs" by (simp add: demo_write_def)
  have v: "since_reset (cl_frames c) = [demo_event ''b'' 2]" "queue_events (sb_queue s) = [demo_event ''c'' 3]" "cl_base c = 1"
    unfolding c_def s_def by code_simp+
  show ?thesis
    by (intro exI [of _ w] exI [of _ s] exI [of _ c] conjI w_def s c v
        stream_loses_nothing [OF _ _ u w_def s c, THEN conjunct2]) simp_all
qed

text \<open>C29. An interrupted subscription can lose an event for another client for good: a second
  client looks for subscribers before the first is registered and assigns the cursor it then
  reads after an event was appended. The first client has the snapshot from before the event,
  an empty queue and no reset, and the broker has moved past the event.\<close>
theorem interrupted_subscription_loses_event:
  "\<exists>cs s c e. let w = run_world 128 128 cs in
    find_subscriber 0 (wd_broker w) = Some s \<and> map_of (wd_phases w) 0 = Some (Streaming c) \<and>
    e \<in> set (sd_events (wd_db w)) \<and> se_session e = sb_session s \<and> cl_base c < se_id e \<and>
    since_reset (cl_frames c) = [] \<and> sb_queue s = [] \<and> se_id e \<le> bk_last (wd_broker w)"
proof -
  let ?cs = "[Subscribe_Check 0 ''s'', Subscribe_Check 1 ''s'', Subscribe_Add 0, Open 0 None (Some 1) (Some 1),
    demo_write ''a'', Subscribe_Add 1, Poll]"
  define s where "s = \<lparr> sb_id = 0, sb_session = ''s'', sb_queue = [] :: item list \<rparr>"
  define c where "c = \<lparr> cl_session = ''s'', cl_delivered = 0, cl_heat = Some 1, cl_generation = Some 1,
    cl_frames = [Snapshot_Frame 0], cl_base = 0 \<rparr>"
  define w where "w = run_world 128 128 ?cs"
  have "find_subscriber 0 (wd_broker w) = Some s" unfolding w_def s_def by code_simp
  moreover have "map_of (wd_phases w) 0 = Some (Streaming c)" unfolding w_def c_def by code_simp
  moreover have "sd_events (wd_db w) = [demo_event ''a'' 1]" unfolding w_def by code_simp
  moreover have "bk_last (wd_broker w) = 1" unfolding w_def by code_simp
  moreover have "since_reset (cl_frames c) = []" unfolding c_def by code_simp
  moreover have "se_session (demo_event ''a'' 1) = ''s''" "se_id (demo_event ''a'' 1) = 1" by code_simp+
  ultimately have "find_subscriber 0 (wd_broker w) = Some s \<and> map_of (wd_phases w) 0 = Some (Streaming c) \<and>
    demo_event ''a'' 1 \<in> set (sd_events (wd_db w)) \<and> se_session (demo_event ''a'' 1) = sb_session s \<and>
    cl_base c < se_id (demo_event ''a'' 1) \<and>
    since_reset (cl_frames c) = [] \<and> sb_queue s = [] \<and> se_id (demo_event ''a'' 1) \<le> bk_last (wd_broker w)"
    by (simp add: s_def c_def)
  then show ?thesis unfolding w_def Let_def by blast
qed

section \<open>Catching up\<close>

definition unread :: "stream_db \<Rightarrow> broker \<Rightarrow> stream_row list" where
  "unread d b = filter (\<lambda>e. bk_last b < se_id e) (sd_events d)"

lemma poll_fold_last:
  "bk_last b \<le> bk_last (fold poll_event es b) \<and> (\<forall>e \<in> set es. se_id e \<le> bk_last (fold poll_event es b))"
proof (induction es arbitrary: b)
  case (Cons e es)
  have "bk_last b \<le> bk_last (poll_event e b)" "se_id e \<le> bk_last (poll_event e b)" by simp_all
  then show ?case using Cons.IH [of "poll_event e b"] by (auto simp del: poll_event_fields)
qed simp

lemma poll_event_subscribers:
  "map (\<lambda>s. (sb_id s, sb_session s)) (bk_subscribers (fold poll_event es b)) = map (\<lambda>s. (sb_id s, sb_session s)) (bk_subscribers b)"
proof (induction es arbitrary: b)
  case (Cons e es)
  have "map (\<lambda>s. (sb_id s, sb_session s)) (bk_subscribers (poll_event e b)) = map (\<lambda>s. (sb_id s, sb_session s)) (bk_subscribers b)"
    by (simp add: poll_event_def fanout_def)
  then show ?case using Cons by simp
qed simp

lemma find_subscriber_map:
  "map (\<lambda>s. (sb_id s, sb_session s)) (bk_subscribers b') = map (\<lambda>s. (sb_id s, sb_session s)) (bk_subscribers b) \<Longrightarrow>
   find_subscriber i b = Some s \<Longrightarrow> \<exists>s'. find_subscriber i b' = Some s' \<and> sb_session s' = sb_session s"
proof -
  have "map (\<lambda>s. (sb_id s, sb_session s)) xs' = map (\<lambda>s. (sb_id s, sb_session s)) xs \<Longrightarrow>
      find (\<lambda>s. sb_id s = i) xs = Some s \<Longrightarrow> \<exists>s'. find (\<lambda>s. sb_id s = i) xs' = Some s' \<and> sb_session s' = sb_session s" for xs xs'
    by (induction xs arbitrary: xs') (auto split: if_splits)
  then show "map (\<lambda>s. (sb_id s, sb_session s)) (bk_subscribers b') = map (\<lambda>s. (sb_id s, sb_session s)) (bk_subscribers b) \<Longrightarrow>
   find_subscriber i b = Some s \<Longrightarrow> \<exists>s'. find_subscriber i b' = Some s' \<and> sb_session s' = sb_session s"
    by (simp add: find_subscriber_def)
qed

lemma poll_progress:
  assumes ok: "outbox_ok (d, h)" and b: "bk_subscribers b \<noteq> []" "0 < bk_batch_size b" and u: "unread d b \<noteq> []"
  shows "length (unread d (poll_events d b)) < length (unread d b)"
proof -
  let ?es = "select_events (bk_last b) (bk_batch_size b) None d"
  have es: "?es = take (bk_batch_size b) (unread d b)" by (simp add: select_all_events(1) [OF ok] unread_def)
  have p: "poll_events d b = fold poll_event ?es b" using b by (simp add: poll_events_def)
  obtain e r where e: "unread d b = e # r" using u by (cases "unread d b") auto
  have "e \<in> set ?es" unfolding es e using b(2) by (cases "bk_batch_size b") auto
  then have "se_id e \<le> bk_last (poll_events d b)" "bk_last b \<le> bk_last (poll_events d b)"
    using poll_fold_last [of b ?es] unfolding p by auto
  moreover from this have "unread d (poll_events d b) = filter (\<lambda>x. bk_last (poll_events d b) < se_id x) (unread d b)"
    unfolding unread_def filter_filter by (intro filter_cong) auto
  ultimately show ?thesis using e by (simp add: length_filter_less)
       (metis le_imp_less_Suc length_filter_le)
qed

lemma polls_read_all:
  assumes w: "world_ok w" and s: "find_subscriber i (wd_broker w) = Some s" and n: "length (unread (wd_db w) (wd_broker w)) \<le> n"
  shows "\<exists>b s'. foldl world_step w (replicate n Poll) = w\<lparr> wd_broker := b \<rparr> \<and> unread (wd_db w) b = [] \<and>
    find_subscriber i b = Some s' \<and> sb_session s' = sb_session s"
  using w s n
proof (induction n arbitrary: w s)
  case 0
  then show ?case by (intro exI [of _ "wd_broker w"]) auto
next
  case (Suc n)
  let ?b = "poll_events (wd_db w) (wd_broker w)"
  let ?w = "w\<lparr> wd_broker := ?b \<rparr>"
  have ok: "outbox_ok (wd_db w, snd (wd_log w))" and bs: "0 < bk_batch_size (wd_broker w)" and ne: "bk_subscribers (wd_broker w) \<noteq> []"
    using Suc.prems find_subscriberD [OF Suc.prems(2)] by (auto simp: world_ok_def broker_ok_def)
  have w': "world_ok ?w" using world_step_ok [OF Suc.prems(1), of Poll] by simp
  have m: "map (\<lambda>s. (sb_id s, sb_session s)) (bk_subscribers ?b) = map (\<lambda>s. (sb_id s, sb_session s)) (bk_subscribers (wd_broker w))"
    by (simp add: poll_events_def poll_event_subscribers)
  obtain s1 where s1: "find_subscriber i ?b = Some s1" "sb_session s1 = sb_session s"
    using find_subscriber_map [OF m Suc.prems(2)] by blast
  have "length (unread (wd_db ?w) (wd_broker ?w)) \<le> n"
  proof (cases "unread (wd_db w) (wd_broker w) = []")
    case True
    then have "select_events (bk_last (wd_broker w)) (bk_batch_size (wd_broker w)) None (wd_db w) = []"
      by (simp add: select_all_events(1) [OF ok] unread_def)
    then show ?thesis using True by (simp add: poll_events_def)
  next
    case False
    then show ?thesis using poll_progress [OF ok ne bs] Suc.prems(3) by simp
  qed
  then obtain b s' where "foldl world_step ?w (replicate n Poll) = ?w\<lparr> wd_broker := b \<rparr>" "unread (wd_db ?w) b = []"
    "find_subscriber i b = Some s'" "sb_session s' = sb_session s1"
    using Suc.IH [OF w', of s1] s1(1) by auto
  then show ?case using s1 by auto
qed

lemma find_take_item:
  "find_subscriber i b = Some s \<Longrightarrow> find_subscriber i (take_item i b) = Some (s\<lparr> sb_queue := tl (sb_queue s) \<rparr>)"
proof -
  have "find (\<lambda>s. sb_id s = i) xs = Some s \<Longrightarrow>
    find (\<lambda>s. sb_id s = i) (map (\<lambda>s. if sb_id s = i then s\<lparr> sb_queue := tl (sb_queue s) \<rparr> else s) xs) = Some (s\<lparr> sb_queue := tl (sb_queue s) \<rparr>)" for xs
    by (induction xs) (auto split: if_splits)
  then show "find_subscriber i b = Some s \<Longrightarrow> find_subscriber i (take_item i b) = Some (s\<lparr> sb_queue := tl (sb_queue s) \<rparr>)"
    by (simp add: find_subscriber_def take_item_def)
qed

lemma consumes_drain:
  assumes "find_subscriber i (wd_broker w) = Some s" "map_of (wd_phases w) i = Some (Streaming c)" "length (sb_queue s) = m"
  shows "\<exists>s' c'. find_subscriber i (wd_broker (foldl world_step w (replicate m (Consume i heat generation)))) = Some s' \<and>
    map_of (wd_phases (foldl world_step w (replicate m (Consume i heat generation)))) i = Some (Streaming c') \<and>
    sb_queue s' = [] \<and> sb_session s' = sb_session s \<and>
    wd_log (foldl world_step w (replicate m (Consume i heat generation))) = wd_log w \<and>
    bk_last (wd_broker (foldl world_step w (replicate m (Consume i heat generation)))) = bk_last (wd_broker w)"
  using assms
proof (induction m arbitrary: w s c)
  case (Suc m)
  obtain item q where q: "sb_queue s = item # q" using Suc.prems(3) by (cases "sb_queue s") auto
  define w1 where "w1 = world_step w (Consume i heat generation)"
  have w1: "w1 = set_phase i (Streaming (consume (current_view w heat generation) item c)) (w\<lparr> wd_broker := take_item i (wd_broker w) \<rparr>)"
    using Suc.prems q by (simp add: w1_def)
  have f: "find_subscriber i (wd_broker w1) = Some (s\<lparr> sb_queue := q \<rparr>)"
    using find_take_item [OF Suc.prems(1)] q by (simp add: w1 set_phase_def)
  have p: "map_of (wd_phases w1) i = Some (Streaming (consume (current_view w heat generation) item c))"
    by (simp add: w1 set_phase_def update_conv)
  have "wd_log w1 = wd_log w" "bk_last (wd_broker w1) = bk_last (wd_broker w)" by (simp_all add: w1 set_phase_def take_item_def)
  moreover have "foldl world_step w (replicate (Suc m) (Consume i heat generation)) =
      foldl world_step w1 (replicate m (Consume i heat generation))" by (simp add: w1_def del: world_step.simps)
  ultimately show ?case using Suc.IH [OF f p] Suc.prems(3) q by simp
qed simp

text \<open>C27. A client catches up: from any state a system of uninterrupted subscriptions reaches,
  once the broker has polled as often as there are events and the client has emptied its
  queue, the client has received every retained event of its session that its last snapshot
  does not cover.\<close>
theorem stream_catches_up:
  assumes "0 < batch_size" "0 < queue_size" "list_all uninterrupted cs" "w = run_world batch_size queue_size cs"
    and "find_subscriber i (wd_broker w) = Some s" "map_of (wd_phases w) i = Some (Streaming c)"
  shows "\<exists>m w' s' c'. w' = foldl world_step w (replicate (length (sd_events (wd_db w))) Poll @ replicate m (Consume i heat generation)) \<and>
    find_subscriber i (wd_broker w') = Some s' \<and> map_of (wd_phases w') i = Some (Streaming c') \<and>
    sb_queue s' = [] \<and> wd_log w' = wd_log w \<and>
    list_all (\<lambda>e. if se_session e = sb_session s \<and> cl_base c' < se_id e then e \<in> set (since_reset (cl_frames c')) else True)
      (sd_events (wd_db w))"
proof -
  let ?n = "length (sd_events (wd_db w))"
  have ok: "world_ok w" using run_world_ok [OF assms(1-3)] assms(4) by simp
  have "length (unread (wd_db w) (wd_broker w)) \<le> ?n" by (simp add: unread_def)
  then obtain b s1 where p: "foldl world_step w (replicate ?n Poll) = w\<lparr> wd_broker := b \<rparr>" "unread (wd_db w) b = []"
    and s1: "find_subscriber i b = Some s1" "sb_session s1 = sb_session s"
    using polls_read_all [OF ok assms(5)] by blast
  define m where "m = length (sb_queue s1)"
  define w' where "w' = foldl world_step w (replicate ?n Poll @ replicate m (Consume i heat generation))"
  have w': "w' = foldl world_step (w\<lparr> wd_broker := b \<rparr>) (replicate m (Consume i heat generation))"
    unfolding w'_def foldl_append p(1) ..
  obtain s' c' where r: "find_subscriber i (wd_broker w') = Some s'" "map_of (wd_phases w') i = Some (Streaming c')"
      "sb_queue s' = []" "sb_session s' = sb_session s1" "wd_log w' = wd_log w" "bk_last (wd_broker w') = bk_last b"
    using consumes_drain [of i "w\<lparr> wd_broker := b \<rparr>" s1 c m heat generation] s1(1) assms(6) unfolding w' m_def by auto
  have u: "list_all uninterrupted (cs @ replicate ?n Poll @ replicate m (Consume i heat generation))"
    using assms(3) by (auto simp: list_all_iff)
  have "w' = run_world batch_size queue_size (cs @ replicate ?n Poll @ replicate m (Consume i heat generation))"
    by (simp add: w'_def assms(4) run_world_def)
  then have ok': "world_ok w'" using run_world_ok [OF assms(1,2) u] by simp
  have c: "client_ok (wd_db w') (sb_session s') c'" "covered (wd_db w') (sb_session s') (bk_last (wd_broker w')) (cl_delivered c') []"
    using current_phase_ok [OF ok'] find_subscriberD [OF r(1)] r(2,3) by (metis phase_ok.simps(4))+
  have "e \<in> set (since_reset (cl_frames c'))"
    if e: "e \<in> set (sd_events (wd_db w))" "se_session e = sb_session s" "cl_base c' < se_id e" for e
  proof (cases "se_id e \<le> cl_delivered c'")
    case True
    then show ?thesis using c(1) e s1(2) r(4,5) by (simp add: client_ok_def)
  next
    case False
    have "se_id e \<le> bk_last b" using p(2) e(1) by (auto simp: unread_def filter_empty_conv)
    then show ?thesis using c(2) False e s1(2) r(4-6) by (auto simp: covered_def)
  qed
  then have "list_all (\<lambda>e. if se_session e = sb_session s \<and> cl_base c' < se_id e then e \<in> set (since_reset (cl_frames c')) else True)
      (sd_events (wd_db w))" by (simp add: list_all_iff)
  then show ?thesis using r w'_def by blast
qed

lemma stream_catches_up_witness:
  "\<exists>m w' s' c'. w' = foldl world_step (run_world 2 2 [Subscribe 0 ''s'', Open 0 None (Some 1) (Some 1), demo_write ''a''])
      (replicate 1 Poll @ replicate m (Consume 0 (Some 1) (Some 1))) \<and>
    find_subscriber 0 (wd_broker w') = Some s' \<and> map_of (wd_phases w') 0 = Some (Streaming c') \<and> sb_queue s' = []"
proof -
  let ?cs = "[Subscribe 0 ''s'', Open 0 None (Some 1) (Some 1), demo_write ''a'']"
  define w where "w = run_world 2 2 ?cs"
  define s where "s = \<lparr> sb_id = 0, sb_session = ''s'', sb_queue = [] :: item list \<rparr>"
  define c where "c = \<lparr> cl_session = ''s'', cl_delivered = 0, cl_heat = Some 1, cl_generation = Some 1,
    cl_frames = [Snapshot_Frame 0], cl_base = 0 \<rparr>"
  have s: "find_subscriber 0 (wd_broker w) = Some s" unfolding w_def s_def by code_simp
  have c: "map_of (wd_phases w) 0 = Some (Streaming c)" unfolding w_def c_def by code_simp
  have l: "length (sd_events (wd_db w)) = 1" unfolding w_def by code_simp
  have u: "list_all uninterrupted ?cs" by (simp add: demo_write_def)
  have two: "(0::nat) < 2" by simp
  from stream_catches_up [OF two two u w_def s c, of "Some 1" "Some 1", unfolded l]
  show ?thesis unfolding w_def [symmetric] by blast
qed

end
