(* ===== verification/Metric_Inputs.thy ===== *)
theory Metric_Inputs
  imports Wire_Text Gap_Trends Tire_Pits
begin

text \<open>
  The immutable input of one metric evaluation: the dataclasses of
  \<open>server/timing/metric_store.py\<close> and the readings of one participant that
  \<open>server/timing/metric_engine.py\<close> builds on them. Fields that no formula and no payload reads are left out. A JSON text column holds its text;
  what \<open>json.loads\<close> makes of the sectors text is a parameter where it is read.
\<close>

section \<open>Records\<close>

record metric_session =
  ms_id :: string
  ms_mode :: string
  ms_lifecycle :: string
  ms_race_duration_s :: "int option"
  ms_required_pits :: "int option"
  ms_started_at_us :: "int option"
  ms_stopped_at_us :: "int option"
  ms_our_participant_id :: "string option"
  ms_our_class_name :: "string option"
  ms_identity_state :: string

record state_tick =
  tk_observed_at_us :: int
  tk_freshness_ms :: int
  tk_source_key :: string

record track_flag_input =
  tf_flag :: string
  tf_provider_code :: "string option"
  tf_provider_label :: "string option"
  tf_started_at_us :: int
  tf_observed_started_at_us :: "int option"
  tf_calibrated_started_at_us :: "int option"
  tf_source_message_id :: "int option"
  tf_source_key :: string

record heat_statistics =
  hs_heat_name :: "string option"
  hs_participants_started :: "int option"
  hs_participants_classified :: "int option"
  hs_participants_not_classified :: "int option"
  hs_participants_on_track :: "int option"
  hs_participants_in_pit_zone :: "int option"
  hs_participants_in_tank_zone :: "int option"
  hs_total_laps :: "int option"
  hs_total_pitstops :: "int option"
  hs_safety_car_count :: "int option"
  hs_full_course_yellow_count :: "int option"
  hs_code_60_count :: "int option"
  hs_observed_at_us :: int

record ingest_gap_input =
  ig_started_at_us :: int
  ig_reason :: string
  ig_connection_id :: "string option"

text \<open>One immutable GAP or DIFF cell of the provider with its source context.\<close>

record interval_fact =
  if_id :: int
  if_field_kind :: string
  if_raw_value :: "string option"
  if_value_ms :: "int option"
  if_value_kind :: "string option"
  if_cell_observation_id :: int
  if_source_message_id :: "int option"
  if_source_key :: string
  if_source_change_ordinal :: int
  if_observed_at_us :: int
  if_source_handle :: string
  if_observation_kind :: string
  if_subject_position_overall :: "int option"
  if_subject_state_kind :: "string option"
  if_subject_laps :: "int option"
  if_target_participant_id :: "string option"
  if_target_position_overall :: "int option"
  if_target_state_kind :: "string option"
  if_target_laps :: "int option"
  if_relation_kind :: "string option"

record participant_state =
  ps_position_overall :: "int option"
  ps_position_class :: "int option"
  ps_laps :: "int option"
  ps_state :: "string option"
  ps_state_raw :: "string option"
  ps_state_kind :: "string option"
  ps_current_driver_name :: "string option"
  ps_last_lap_ms :: "int option"
  ps_best_lap_ms :: "int option"
  ps_gap_ms :: "int option"
  ps_gap_raw :: "string option"
  ps_gap_kind :: "string option"
  ps_diff_ms :: "int option"
  ps_diff_raw :: "string option"
  ps_diff_kind :: "string option"
  ps_provider_pit_count :: "int option"
  ps_updated_at_us :: int
  ps_gap_interval_fact :: "interval_fact option"
  ps_diff_interval_fact :: "interval_fact option"

record lap_input =
  li_lap_number :: "int option"
  li_completed_at_us :: "int option"
  li_duration_ms :: "int option"
  li_sectors_json :: "string option"
  li_flag :: "string option"
  li_is_in_lap :: bool
  li_is_out_lap :: bool
  li_crosses_pit :: bool
  li_is_clean :: bool
  li_timing_event_id :: "int option"
  li_capture_sequence :: "int option"
  li_capture_at_us :: "int option"
  li_timing_eligible :: bool
  li_source_frame_id :: "int option"
  li_source_message_ordinal :: "int option"
  li_source_change_ordinal :: "int option"
  li_lap_number_is_official :: bool

record pit_stop_input =
  pi_stop_number :: int
  pi_entered_at_us :: int
  pi_exited_at_us :: "int option"
  pi_entered_lap :: "int option"
  pi_exited_lap :: "int option"
  pi_pit_lane_ms :: "int option"
  pi_completed :: bool
  pi_pit_lane_duration_source_kind :: "string option"

record tire_stint_input =
  ti_stint_number :: int
  ti_started_at_us :: int
  ti_ended_at_us :: "int option"
  ti_started_lap :: "int option"
  ti_ended_lap :: "int option"
  ti_completed_laps :: int

type_synonym json_dict = "(string \<times> json) list"

record participant_input =
  pt_id :: string
  pt_start_number :: "string option"
  pt_team_name :: "string option"
  pt_car_name :: "string option"
  pt_class_name :: "string option"
  pt_class_key :: "string option"
  pt_is_ours :: bool
  pt_active :: bool
  pt_state :: "participant_state option"
  pt_laps :: "lap_input list"
  pt_pit_stops :: "pit_stop_input list"
  pt_tire_stints :: "tire_stint_input list"
  pt_latest_timing_event_id :: "int option"
  pt_observed_lap_count_prefix :: int
  pt_clean_lap_count_prefix :: int
  pt_best_lap_ms_checkpoint :: "int option"
  pt_last_sector_ms_checkpoint :: "(string \<times> int) list"
  pt_personal_best_sector_ms_checkpoint :: "(string \<times> int) list"
  pt_active_stint_observed_lap_count_prefix :: int
  pt_active_stint_clean_lap_count_prefix :: int
  pt_active_stint_best_lap_ms_checkpoint :: "int option"
  pt_stint_summary_checkpoint :: "json_dict list"

definition active_tire_stint :: "participant_input \<Rightarrow> tire_stint_input option" where
  "active_tire_stint p = find (\<lambda>s. ti_ended_at_us s = None) (rev (pt_tire_stints p))"

record class_scope =
  cs_key :: string
  cs_display_name :: string
  cs_class_best_lap_ms :: "int option"
  cs_class_best_start_number :: "string option"
  cs_participants :: "participant_input list"

record heat_input =
  ht_source_heat_id :: int
  ht_generation :: int
  ht_external_name :: "string option"
  ht_provider_started_at_us :: "int option"
  ht_provider_finished_at_us :: "int option"
  ht_created_at_us :: int
  ht_observed_at_us :: int
  ht_session :: metric_session
  ht_latest_tick :: "state_tick option"
  ht_current_flag :: "track_flag_input option"
  ht_statistics :: "heat_statistics option"
  ht_open_ingest_gap :: "ingest_gap_input option"
  ht_participants :: "participant_input list"
  ht_class_scopes :: "class_scope list"

definition our_participant :: "heat_input \<Rightarrow> participant_input option" where
  "our_participant h =
    (case Option.bind (ms_our_participant_id (ht_session h)) (\<lambda>i. find (\<lambda>p. pt_id p = i) (ht_participants h)) of
       Some p \<Rightarrow> Some p
     | None \<Rightarrow> find pt_is_ours (ht_participants h))"

text \<open>
  \<open>casefold\<close> on Latin-1: capital letters, and the sharp s as two letters (the micro sign,
  whose folding is outside Latin-1, stays); \<open>split\<close> and \<open>join\<close> normalise the spaces.
\<close>

definition fold_case :: "char \<Rightarrow> string" where
  "fold_case c = (let n = code_point c in
     if (65 \<le> n \<and> n \<le> 90) \<or> (192 \<le> n \<and> n \<le> 222 \<and> n \<noteq> 215) then [char_of (n + 32)]
     else if n = 223 then ''ss'' else [c])"

fun split_words :: "string \<Rightarrow> string list" where
  "split_words [] = []"
| "split_words (c # s) =
    (if is_py_space c then split_words s
     else (case s of
         [] \<Rightarrow> [[c]]
       | d # _ \<Rightarrow> if is_py_space d then [c] # split_words s
                 else (case split_words s of [] \<Rightarrow> [[c]] | w # ws \<Rightarrow> (c # w) # ws)))"

fun join_words :: "string list \<Rightarrow> string" where
  "join_words [] = []"
| "join_words [w] = w"
| "join_words (w # v # ws) = w @ '' '' @ join_words (v # ws)"

definition class_key_of :: "string option \<Rightarrow> string option" where
  "class_key_of value = (case value of
     None \<Rightarrow> None
   | Some s \<Rightarrow> (let k = join_words (split_words (concat (map fold_case s))) in if k = [] then None else Some k))"

definition find_scope :: "heat_input \<Rightarrow> string \<Rightarrow> class_scope option" where
  "find_scope h key = find (\<lambda>s. cs_key s = key) (ht_class_scopes h)"

definition current_class_scope :: "heat_input \<Rightarrow> class_scope option" where
  "current_class_scope h =
    (let key = (case our_participant h of
         Some p \<Rightarrow> pt_class_key p
       | None \<Rightarrow> class_key_of (ms_our_class_name (ht_session h)))
     in Option.bind key (find_scope h))"

section \<open>Readings of one participant\<close>

definition int_at_least :: "int \<Rightarrow> int option \<Rightarrow> int option" where
  "int_at_least minimum value = (case value of Some v \<Rightarrow> if minimum \<le> v then Some v else None | None \<Rightarrow> None)"

abbreviation duration_ms_of :: "int option \<Rightarrow> int option" where "duration_ms_of \<equiv> int_at_least 1"
abbreviation rank_of :: "int option \<Rightarrow> int option" where "rank_of \<equiv> int_at_least 1"
abbreviation lap_count_of :: "int option \<Rightarrow> int option" where "lap_count_of \<equiv> int_at_least 0"

text \<open>Seconds between two instants; the first is observed, the second may be missing.\<close>

definition elapsed_s :: "int \<Rightarrow> int option \<Rightarrow> rat option" where
  "elapsed_s observed_at_us started_at_us =
    (if \<not> 0 \<le> observed_at_us \<or> \<not> is_int started_at_us 0 then None
     else Some (of_int (max 0 (observed_at_us - the started_at_us)) / 1000000))"

definition source_time_ms :: "int option \<Rightarrow> string option \<Rightarrow> int option" where
  "source_time_ms value kind = (if kind = Some ''TIME'' then int_at_least 0 value else None)"

definition source_lap_count :: "participant_input \<Rightarrow> int option" where
  "source_lap_count p =
    (case Option.bind (pt_state p) (\<lambda>s. lap_count_of (ps_laps s)) of
       Some n \<Rightarrow> Some n
     | None \<Rightarrow>
        (let observed = List.map_filter (\<lambda>l. if li_lap_number_is_official l then lap_count_of (li_lap_number l) else None) (pt_laps p)
         in if observed = [] then None else Some (Max (set observed))))"

definition timing_laps :: "participant_input \<Rightarrow> lap_input list" where
  "timing_laps p = filter li_timing_eligible (pt_laps p)"

abbreviation no_number :: int where "no_number \<equiv> 2147483647"

definition number_or :: "int \<Rightarrow> int option \<Rightarrow> int \<Rightarrow> int" where
  "number_or minimum value fallback = (case int_at_least minimum value of Some v \<Rightarrow> v | None \<Rightarrow> fallback)"

definition lap_sort_key :: "lap_input \<Rightarrow> int \<times> int \<times> int \<times> int \<times> int \<times> int" where
  "lap_sort_key l =
    (if is_int (li_source_frame_id l) 1 then
       (0, the (li_source_frame_id l), number_or 0 (li_source_message_ordinal l) no_number,
        number_or 0 (li_source_change_ordinal l) 0, number_or 1 (li_timing_event_id l) 0,
        number_or 0 (li_lap_number l) no_number)
     else
       (1, number_or 0 (li_completed_at_us l) no_number, number_or 1 (li_capture_sequence l) no_number,
        number_or 0 (li_lap_number l) no_number, number_or 1 (li_timing_event_id l) no_number,
        number_or 1 (li_duration_ms l) no_number))"

definition last_lap_ms :: "participant_input \<Rightarrow> int option" where
  "last_lap_ms p =
    (case Option.bind (pt_state p) (\<lambda>s. duration_ms_of (ps_last_lap_ms s)) of
       Some v \<Rightarrow> Some v
     | None \<Rightarrow> (let ds = List.map_filter (\<lambda>l. duration_ms_of (li_duration_ms l)) (rev (sort_key lap_sort_key (timing_laps p)))
               in case ds of [] \<Rightarrow> None | d # _ \<Rightarrow> Some d))"

definition best_lap_ms :: "participant_input \<Rightarrow> int option" where
  "best_lap_ms p =
    (case Option.bind (pt_state p) (\<lambda>s. duration_ms_of (ps_best_lap_ms s)) of
       Some v \<Rightarrow> Some v
     | None \<Rightarrow>
        (let values = List.map_filter (\<lambda>l. duration_ms_of (li_duration_ms l)) (timing_laps p) @
               (case duration_ms_of (pt_best_lap_ms_checkpoint p) of Some v \<Rightarrow> [v] | None \<Rightarrow> [])
         in if values = [] then None else Some (Min (set values))))"

definition lap_sample_of :: "participant_input \<Rightarrow> lap_input \<Rightarrow> lap_sample" where
  "lap_sample_of p l = \<lparr> lap_participant_id = Some (pt_id p), lap_number = li_lap_number l,
     lap_capture_sequence = li_capture_sequence l, lap_completed_at_us = li_completed_at_us l,
     lap_duration_ms = li_duration_ms l,
     lap_flag_kinds = (if li_is_clean l then [GREEN_FLAG]
       else (case li_flag l of Some f \<Rightarrow> if f = [] then [] else [f] | None \<Rightarrow> [])),
     lap_is_in_lap = Some (if li_is_clean l then False else li_is_in_lap l),
     lap_is_out_lap = Some (if li_is_clean l then False else li_is_out_lap l),
     lap_crosses_pit = Some (if li_is_clean l then False else li_crosses_pit l),
     lap_has_feed_gap = Some (\<not> li_is_clean l) \<rparr>"

definition lap_samples :: "participant_input \<Rightarrow> lap_sample list" where
  "lap_samples p = map (lap_sample_of p) (sort_key lap_sort_key (timing_laps p))"

definition pit_stop_of :: "pit_stop_input \<Rightarrow> pit_stop" where
  "pit_stop_of v = \<lparr> stop_number = Some (pi_stop_number v), stop_entered_at_us = Some (pi_entered_at_us v),
     stop_exited_at_us = pi_exited_at_us v, stop_entered_lap = pi_entered_lap v, stop_exited_lap = pi_exited_lap v,
     stop_pit_lane_ms = pi_pit_lane_ms v, stop_completed = Some (pi_completed v),
     stop_duration_source_kind = pi_pit_lane_duration_source_kind v \<rparr>"

definition completed_pits :: "participant_input \<Rightarrow> pit_stop list" where
  "completed_pits p = completed_pit_stops (map pit_stop_of (pt_pit_stops p))"

record pit_record =
  pr_stop_number :: "int option"
  pr_pit_in_at_us :: "int option"
  pr_pit_out_at_us :: "int option"
  pr_pit_in_lap :: "int option"
  pr_pit_out_lap :: "int option"
  pr_pit_lane_duration_ms :: "int option"

definition pit_record_of :: "pit_stop \<Rightarrow> pit_record" where
  "pit_record_of s = \<lparr> pr_stop_number = stop_number s, pr_pit_in_at_us = stop_entered_at_us s,
     pr_pit_out_at_us = stop_exited_at_us s, pr_pit_in_lap = stop_entered_lap s, pr_pit_out_lap = stop_exited_lap s,
     pr_pit_lane_duration_ms = (if stop_duration_source_kind s = Some ''RESULT_L_PIT'' then stop_pit_lane_ms s else None) \<rparr>"

definition pit_history :: "participant_input \<Rightarrow> pit_record list" where
  "pit_history p = map pit_record_of (completed_pits p)"

definition pit_durations :: "participant_input \<Rightarrow> int list" where
  "pit_durations p = List.map_filter pr_pit_lane_duration_ms (pit_history p)"

definition median_non_negative :: "rat list \<Rightarrow> rat option" where
  "median_non_negative values =
    (if values = [] then None
     else let ordered = sort values; middle = length ordered div 2 in
       if length ordered mod 2 \<noteq> 0 then Some (ordered ! middle)
       else Some ((ordered ! (middle - 1) + ordered ! middle) / 2))"

section \<open>Facts\<close>

lemma int_at_least_Some [simp]: "int_at_least m v = Some x \<longleftrightarrow> v = Some x \<and> m \<le> x"
  by (auto simp: int_at_least_def split: option.splits)

lemma median_non_negative_is_median: "median_non_negative values = median values"
  by (simp add: median_non_negative_def median_def)

text \<open>The normalizer's verdict on a lap is exactly what the pace formulas read.\<close>

lemma lap_sample_clean:
  "is_clean_lap (lap_sample_of p l) \<longleftrightarrow> li_is_clean l \<and> (\<exists>d > 0. li_duration_ms l = Some d)"
  by (cases "li_duration_ms l") (auto simp: is_clean_lap_def lap_sample_of_def positive_number_def)

lemma our_participant_in: "our_participant h = Some p \<Longrightarrow> p \<in> set (ht_participants h)"
  by (auto simp: our_participant_def find_Some_iff bind_eq_Some_conv split: option.splits)

end
