(* ===== verification/Interval_Relations.thy ===== *)
theory Interval_Relations
  imports Metric_Inputs
begin

text \<open>
  Class order and tactical intervals of \<open>server/timing/metric_engine.py\<close>: which neighbours a
  car has in its class, and the interval to another car, taken only from the provider's GAP
  and DIFF cells (\<open>_fact_context_status\<close>, \<open>_relative_interval\<close>).
\<close>

section \<open>Source facts\<close>

definition nonblank :: "string option \<Rightarrow> string option" where
  "nonblank v = (case v of None \<Rightarrow> None | Some s \<Rightarrow> if strip s = [] then None else Some (strip s))"

record fact_payload =
  fp_id :: int
  fp_field_kind :: "string option"
  fp_raw_value :: "string option"
  fp_value_ms :: "int option"
  fp_value_kind :: "string option"
  fp_cell_observation_id :: "int option"
  fp_source_message_id :: "int option"
  fp_source_key :: "string option"
  fp_source_change_ordinal :: "int option"
  fp_observed_at_us :: "int option"
  fp_source_handle :: "string option"
  fp_observation_kind :: "string option"
  fp_subject_position_overall :: "int option"
  fp_subject_state_kind :: "string option"
  fp_subject_laps :: "int option"
  fp_target_participant_id :: "string option"
  fp_target_position_overall :: "int option"
  fp_target_state_kind :: "string option"
  fp_target_laps :: "int option"
  fp_relation_kind :: "string option"

definition source_fact_payload :: "interval_fact \<Rightarrow> fact_payload" where
  "source_fact_payload f = \<lparr> fp_id = if_id f, fp_field_kind = nonblank (Some (if_field_kind f)),
     fp_raw_value = nonblank (if_raw_value f), fp_value_ms = int_at_least 0 (if_value_ms f),
     fp_value_kind = nonblank (if_value_kind f),
     fp_cell_observation_id = int_at_least 1 (Some (if_cell_observation_id f)),
     fp_source_message_id = int_at_least 1 (if_source_message_id f),
     fp_source_key = nonblank (Some (if_source_key f)),
     fp_source_change_ordinal = int_at_least 0 (Some (if_source_change_ordinal f)),
     fp_observed_at_us = int_at_least 0 (Some (if_observed_at_us f)),
     fp_source_handle = nonblank (Some (if_source_handle f)),
     fp_observation_kind = nonblank (Some (if_observation_kind f)),
     fp_subject_position_overall = int_at_least 1 (if_subject_position_overall f),
     fp_subject_state_kind = nonblank (if_subject_state_kind f),
     fp_subject_laps = int_at_least 0 (if_subject_laps f),
     fp_target_participant_id = nonblank (if_target_participant_id f),
     fp_target_position_overall = int_at_least 1 (if_target_position_overall f),
     fp_target_state_kind = nonblank (if_target_state_kind f),
     fp_target_laps = int_at_least 0 (if_target_laps f),
     fp_relation_kind = nonblank (if_relation_kind f) \<rparr>"

datatype field_kind = GAP | DIFF

definition field_text :: "field_kind \<Rightarrow> string" where
  "field_text k = (case k of GAP \<Rightarrow> ''GAP'' | DIFF \<Rightarrow> ''DIFF'')"

definition source_interval_fact :: "participant_input \<Rightarrow> field_kind \<Rightarrow> interval_fact option" where
  "source_interval_fact p k = Option.bind (pt_state p)
     (case k of GAP \<Rightarrow> ps_gap_interval_fact | DIFF \<Rightarrow> ps_diff_interval_fact)"

text \<open>The identity of a source cell: message, ordinal and cell, not its value.\<close>

type_synonym fact_pointer =
  "int option \<times> int option \<times> int option \<times> string option \<times> int option \<times> string option"

definition interval_fact_pointer :: "interval_fact option \<Rightarrow> fact_pointer option" where
  "interval_fact_pointer cell =
    (case cell of
       None \<Rightarrow> None
     | Some f \<Rightarrow>
        (let pointer = (int_at_least 1 (Some (if_id f)), int_at_least 1 (Some (if_cell_observation_id f)),
               int_at_least 1 (if_source_message_id f), nonblank (Some (if_source_key f)),
               int_at_least 0 (Some (if_source_change_ordinal f)), nonblank (Some (if_field_kind f)))
         in if pointer = (None, None, None, None, None, None) then None else Some pointer))"

section \<open>Relations\<close>

datatype interval_status =
    VALID | SELF | NO_TARGET | NO_STATE | NON_RACING_STATE | LAPPED | NO_SOURCE_FACT | INVALID_SOURCE_FACT
  | SOURCE_TARGET_MISMATCH | SOURCE_POSITION_MISMATCH | SOURCE_STATE_MISMATCH | SOURCE_LAPPED
  | STALE_LAP_CONTEXT | NO_COHERENT_SOURCE_PAIR

record relation =
  rl_target_participant_id :: "string option"
  rl_status :: interval_status
  rl_value_ms :: "int option"
  rl_relation_kind :: "string option"
  rl_source_facts :: "fact_payload list"
  rl_source_observed_at_us :: "int option"
  rl_source_age_ms :: "int option"
  rl_ours_state_kind :: "string option"
  rl_target_state_kind :: "string option"
  rl_ours_laps :: "int option"
  rl_target_laps :: "int option"

definition state_kind_of :: "participant_input \<Rightarrow> string option" where
  "state_kind_of p = Option.bind (pt_state p) ps_state_kind"

definition relation_result ::
    "int \<Rightarrow> participant_input \<Rightarrow> participant_input option \<Rightarrow> interval_status \<Rightarrow> int option \<Rightarrow> string option
      \<Rightarrow> fact_payload option list \<Rightarrow> relation" where
  "relation_result evaluated_at_us ours target status value_ms kind source_facts =
    (let facts = List.map_filter id source_facts;
         observed = List.map_filter (\<lambda>f. int_at_least 0 (fp_observed_at_us f)) facts;
         latest = (if observed = [] then None else Some (Max (set observed)))
     in \<lparr> rl_target_participant_id = map_option pt_id target, rl_status = status,
          rl_value_ms = (if status = VALID \<or> status = SELF then value_ms else None),
          rl_relation_kind = kind, rl_source_facts = facts, rl_source_observed_at_us = latest,
          rl_source_age_ms = (if 0 \<le> evaluated_at_us then map_option (\<lambda>l. max 0 (evaluated_at_us - l) div 1000) latest else None),
          rl_ours_state_kind = state_kind_of ours, rl_target_state_kind = Option.bind target state_kind_of,
          rl_ours_laps = source_lap_count ours, rl_target_laps = Option.bind target source_lap_count \<rparr>)"

definition relation_value_ms :: "relation \<Rightarrow> int option" where
  "relation_value_ms r = (if rl_status r = VALID \<or> rl_status r = SELF then int_at_least 0 (rl_value_ms r) else None)"

definition GAP_FACT_RELATIONS :: "string list" where
  "GAP_FACT_RELATIONS = [''OVERALL_LEADER'', ''GAP_TO_OVERALL_LEADER'']"

definition DIFF_FACT_RELATIONS :: "string list" where
  "DIFF_FACT_RELATIONS = [''OVERALL_AHEAD'', ''DIFF_TO_OVERALL_AHEAD'']"

definition RACING_STATE_KINDS :: "string list" where
  "RACING_STATE_KINDS = [''ON_TRACK'', ''OUT_LAP'']"

definition racing :: "string option \<Rightarrow> bool" where
  "racing k = (case k of None \<Rightarrow> False | Some s \<Rightarrow> s \<in> set RACING_STATE_KINDS)"

definition unequal_counts :: "int option \<Rightarrow> int option \<Rightarrow> bool" where
  "unequal_counts a b = (a \<noteq> None \<and> b \<noteq> None \<and> a \<noteq> b)"

definition complete_payload :: "field_kind \<Rightarrow> fact_payload \<Rightarrow> bool" where
  "complete_payload k p = (fp_field_kind p = Some (field_text k) \<and> fp_value_kind p = Some ''TIME'' \<and>
     fp_value_ms p \<noteq> None \<and> fp_cell_observation_id p \<noteq> None \<and> fp_source_message_id p \<noteq> None \<and>
     fp_source_key p \<noteq> None \<and> fp_source_change_ordinal p \<noteq> None \<and> fp_observed_at_us p \<noteq> None \<and>
     fp_source_handle p \<noteq> None \<and> fp_observation_kind p \<noteq> None)"

definition fact_context_status ::
    "interval_fact option \<Rightarrow> participant_input \<Rightarrow> participant_input \<Rightarrow> field_kind \<Rightarrow> string list
      \<Rightarrow> interval_status \<times> fact_payload option" where
  "fact_context_status cell holder target k allowed =
    (case cell of
       None \<Rightarrow> (NO_SOURCE_FACT, None)
     | Some f \<Rightarrow>
        (let p = source_fact_payload f in
         if \<not> complete_payload k p then (INVALID_SOURCE_FACT, Some p)
         else if fp_relation_kind p \<notin> Some ` set allowed \<or> fp_target_participant_id p \<noteq> Some (pt_id target)
         then (SOURCE_TARGET_MISMATCH, Some p)
         else (case (pt_state holder, pt_state target) of
             (Some hs, Some ts) \<Rightarrow>
              (let hp = rank_of (ps_position_overall hs); tp = rank_of (ps_position_overall ts);
                   hl = source_lap_count holder; tl = source_lap_count target
               in if \<not> racing (ps_state_kind hs) \<or> \<not> racing (ps_state_kind ts) then (NON_RACING_STATE, Some p)
                  else if hp = None \<or> tp = None \<or> fp_subject_position_overall p \<noteq> hp \<or> fp_target_position_overall p \<noteq> tp
                  then (SOURCE_POSITION_MISMATCH, Some p)
                  else if (k = GAP \<and> tp \<noteq> Some 1) \<or> (k = DIFF \<and> the hp \<noteq> the tp + 1)
                  then (SOURCE_POSITION_MISMATCH, Some p)
                  else if \<not> racing (fp_subject_state_kind p) \<or> \<not> racing (fp_target_state_kind p)
                  then (SOURCE_STATE_MISMATCH, Some p)
                  else if unequal_counts hl tl then (LAPPED, Some p)
                  else if unequal_counts (fp_subject_laps p) (fp_target_laps p) then (SOURCE_LAPPED, Some p)
                  else if unequal_counts (fp_subject_laps p) hl \<or> unequal_counts (fp_target_laps p) tl
                  then (STALE_LAP_CONTEXT, Some p)
                  else (VALID, Some p))
           | _ \<Rightarrow> (NO_STATE, Some p))))"

definition same_source_message :: "fact_payload \<Rightarrow> fact_payload \<Rightarrow> bool" where
  "same_source_message a b = (fp_source_message_id a = fp_source_message_id b \<and> fp_source_key a = fp_source_key b \<and>
     fp_observed_at_us a = fp_observed_at_us b \<and> fp_source_handle a = fp_source_handle b)"

section \<open>The interval to another car\<close>

text \<open>The four direct readings in the order of the code: the holder, the other car, the column.\<close>

definition direct_readings ::
    "participant_input \<Rightarrow> participant_input \<Rightarrow> (participant_input \<times> participant_input \<times> field_kind) list" where
  "direct_readings ours target = [(ours, target, GAP), (target, ours, GAP), (ours, target, DIFF), (target, ours, DIFF)]"

definition read_direct ::
    "participant_input \<times> participant_input \<times> field_kind \<Rightarrow> interval_status \<times> fact_payload option" where
  "read_direct r = (case r of (holder, other, k) \<Rightarrow>
     fact_context_status (source_interval_fact holder k) holder other k
       (case k of GAP \<Rightarrow> GAP_FACT_RELATIONS | DIFF \<Rightarrow> DIFF_FACT_RELATIONS))"

definition direct_kind :: "field_kind \<Rightarrow> string" where
  "direct_kind k = (case k of GAP \<Rightarrow> ''GAP_TO_OVERALL_LEADER'' | DIFF \<Rightarrow> ''DIFF_TO_OVERALL_AHEAD'')"

definition valid_payload :: "interval_status \<times> fact_payload option \<Rightarrow> fact_payload option" where
  "valid_payload r = (if fst r = VALID then snd r else None)"

text \<open>The first valid reading, with its column.\<close>

definition first_valid ::
    "participant_input \<Rightarrow> participant_input \<Rightarrow> (field_kind \<times> fact_payload) option" where
  "first_valid ours target =
    (case List.map_filter (\<lambda>r. map_option (Pair (snd (snd r))) (valid_payload (read_direct r))) (direct_readings ours target) of
       [] \<Rightarrow> None
     | x # _ \<Rightarrow> Some x)"

text \<open>The common leader two GAP cells point to, taken from the roster.\<close>

definition common_leader ::
    "(string \<times> participant_input) list \<Rightarrow> participant_input \<Rightarrow> participant_input \<Rightarrow> participant_input option" where
  "common_leader roster ours target =
    (case (source_interval_fact ours GAP, source_interval_fact target GAP) of
       (Some f, Some g) \<Rightarrow>
        (let i = fp_target_participant_id (source_fact_payload f)
         in if i = fp_target_participant_id (source_fact_payload g)
            then (case Option.bind i (map_of roster) of
                Some c \<Rightarrow> if pt_id c = pt_id ours \<or> pt_id c = pt_id target then None else Some c
              | None \<Rightarrow> None)
            else None)
     | _ \<Rightarrow> None)"

definition pair_reading ::
    "participant_input \<Rightarrow> participant_input \<Rightarrow> interval_status \<times> fact_payload option" where
  "pair_reading holder common =
    fact_context_status (source_interval_fact holder GAP) holder common GAP GAP_FACT_RELATIONS"

definition coherent_pair :: "fact_payload \<Rightarrow> fact_payload \<Rightarrow> bool" where
  "coherent_pair a b = (same_source_message a b \<and> \<not> unequal_counts (fp_subject_laps a) (fp_subject_laps b))"

definition unresolved ::
    "int \<Rightarrow> participant_input \<Rightarrow> participant_input \<Rightarrow> (interval_status \<times> fact_payload option) list \<Rightarrow> relation" where
  "unresolved now ours target candidates =
    relation_result now ours (Some target)
      (case filter (\<lambda>s. s \<noteq> NO_SOURCE_FACT \<and> s \<noteq> VALID) (map fst candidates) of [] \<Rightarrow> NO_SOURCE_FACT | s # _ \<Rightarrow> s)
      None None (map snd candidates)"

definition relative_interval ::
    "participant_input \<Rightarrow> participant_input option \<Rightarrow> (string \<times> participant_input) list \<Rightarrow> int \<Rightarrow> relation" where
  "relative_interval ours target roster now =
    (case target of
       None \<Rightarrow> relation_result now ours None NO_TARGET None None []
     | Some t \<Rightarrow>
        if pt_id t = pt_id ours then relation_result now ours (Some t) SELF (Some 0) (Some ''SELF'') []
        else if pt_state ours = None \<or> pt_state t = None then relation_result now ours (Some t) NO_STATE None None []
        else if \<not> racing (state_kind_of ours) \<or> \<not> racing (state_kind_of t) then
          relation_result now ours (Some t) NON_RACING_STATE None None
            (map (map_option source_fact_payload)
              [source_interval_fact ours GAP, source_interval_fact ours DIFF, source_interval_fact t GAP, source_interval_fact t DIFF])
        else if unequal_counts (source_lap_count ours) (source_lap_count t) then
          relation_result now ours (Some t) LAPPED None None []
        else (case first_valid ours t of
            Some (k, p) \<Rightarrow> relation_result now ours (Some t) VALID (fp_value_ms p) (Some (direct_kind k)) [Some p]
          | None \<Rightarrow>
             (let directs = map read_direct (direct_readings ours t) in
              case common_leader roster ours t of
                None \<Rightarrow> unresolved now ours t directs
              | Some c \<Rightarrow>
                 (case (valid_payload (pair_reading ours c), valid_payload (pair_reading t c)) of
                    (Some p, Some q) \<Rightarrow>
                      if coherent_pair p q
                      then relation_result now ours (Some t) VALID
                        (Some \<bar>the (fp_value_ms p) - the (fp_value_ms q)\<bar>) (Some ''GAP_PAIR_COMMON_OVERALL_LEADER'') [Some p, Some q]
                      else relation_result now ours (Some t) NO_COHERENT_SOURCE_PAIR None None [Some p, Some q]
                  | _ \<Rightarrow> unresolved now ours t (directs @ [pair_reading ours c, pair_reading t c])))))"

definition relative_gap_ms ::
    "participant_input \<Rightarrow> participant_input \<Rightarrow> (string \<times> participant_input) list \<Rightarrow> int \<Rightarrow> int option" where
  "relative_gap_ms ours target roster now = relation_value_ms (relative_interval ours (Some target) roster now)"

definition lap_delta :: "participant_input \<Rightarrow> participant_input option \<Rightarrow> int option" where
  "lap_delta ours target =
    (case (source_lap_count ours, Option.bind target source_lap_count) of (Some a, Some b) \<Rightarrow> Some (a - b) | _ \<Rightarrow> None)"

section \<open>Class order\<close>

definition class_rank :: "participant_input \<Rightarrow> int option" where
  "class_rank p = Option.bind (pt_state p) (\<lambda>s. rank_of (ps_position_class s))"

text \<open>The members in the order of the provider's PIC column, or nothing.\<close>

definition class_order :: "class_scope \<Rightarrow> participant_input list option" where
  "class_order scope =
    (let members = sort_key pt_id (filter pt_active (cs_participants scope))
     in if members = [] \<or> list_ex (\<lambda>m. pt_state m = None) members then None
        else if list_all (\<lambda>m. class_rank m \<noteq> None) members
        then (let positions = map (the \<circ> class_rank) members
              in if \<not> distinct positions \<or> 1 \<notin> set positions then None
                 else Some (sort_key (\<lambda>m. (the (class_rank m), pt_id m)) members))
        else None)"

definition class_best_lap_ms :: "class_scope \<Rightarrow> int option" where
  "class_best_lap_ms scope =
    (case duration_ms_of (cs_class_best_lap_ms scope) of
       Some v \<Rightarrow> Some v
     | None \<Rightarrow> (let available = List.map_filter best_lap_ms (cs_participants scope)
               in if available = [] then None else Some (Min (set available))))"

definition class_density :: "participant_input \<Rightarrow> class_scope option \<Rightarrow> int \<Rightarrow> (nat \<times> nat \<times> nat) option" where
  "class_density ours scope now =
    (case scope of
       None \<Rightarrow> None
     | Some sc \<Rightarrow>
        (let roster = dict_of (map (\<lambda>p. (pt_id p, p)) (cs_participants sc));
             known = List.map_filter (\<lambda>p. if pt_id p = pt_id ours then None else relative_gap_ms ours p roster now) (cs_participants sc)
         in if known = [] then None
            else Some (length (filter (\<lambda>g. g \<le> 5000) known), length (filter (\<lambda>g. g \<le> 10000) known),
                       length (filter (\<lambda>g. g \<le> 30000) known))))"

section \<open>What a valid interval rests on\<close>

definition overall_rank :: "participant_input \<Rightarrow> int option" where
  "overall_rank p = Option.bind (pt_state p) (\<lambda>s. rank_of (ps_position_overall s))"

text \<open>
  The contract of one reading: the cell is complete, names the other car, and still describes
  the current positions, states and laps of the two cars; a GAP cell points to the overall
  leader, a DIFF cell to the car one position ahead.
\<close>

definition source_proven ::
    "field_kind \<Rightarrow> participant_input \<Rightarrow> participant_input \<Rightarrow> fact_payload \<Rightarrow> bool" where
  "source_proven k holder other p \<longleftrightarrow>
     complete_payload k p \<and> fp_target_participant_id p = Some (pt_id other) \<and>
     (\<exists>h t. overall_rank holder = Some h \<and> overall_rank other = Some t \<and>
        fp_subject_position_overall p = Some h \<and> fp_target_position_overall p = Some t \<and>
        (case k of GAP \<Rightarrow> t = 1 | DIFF \<Rightarrow> h = t + 1)) \<and>
     racing (state_kind_of holder) \<and> racing (state_kind_of other) \<and>
     racing (fp_subject_state_kind p) \<and> racing (fp_target_state_kind p) \<and>
     \<not> unequal_counts (source_lap_count holder) (source_lap_count other) \<and>
     \<not> unequal_counts (fp_subject_laps p) (fp_target_laps p) \<and>
     \<not> unequal_counts (fp_subject_laps p) (source_lap_count holder) \<and>
     \<not> unequal_counts (fp_target_laps p) (source_lap_count other)"

lemma int_at_least_evaluates [simp]: "m \<le> v \<Longrightarrow> int_at_least m (Some v) = Some v"
  by (simp add: int_at_least_def)

lemma fact_context_valid:
  assumes "fact_context_status cell holder other k allowed = (VALID, p)"
  obtains f where "cell = Some f" "p = Some (source_fact_payload f)" "source_proven k holder other (source_fact_payload f)"
proof -
  obtain f where f: "cell = Some f"
    using assms by (cases cell) (auto simp: fact_context_status_def)
  obtain hs ts where st: "pt_state holder = Some hs" "pt_state other = Some ts"
    using assms f by (cases "pt_state holder"; cases "pt_state other")
      (auto simp: fact_context_status_def Let_def split: if_splits)
  have "p = Some (source_fact_payload f) \<and> source_proven k holder other (source_fact_payload f)"
    using assms f st by (cases k)
      (auto simp: fact_context_status_def Let_def source_proven_def overall_rank_def state_kind_of_def
            split: if_splits)
  then show thesis using f that by blast
qed

lemma source_proven_value:
  assumes "source_proven k holder other (source_fact_payload f)"
  obtains v where "fp_value_ms (source_fact_payload f) = Some v" "0 \<le> v" "if_value_ms f = Some v"
proof -
  from assms obtain v where "fp_value_ms (source_fact_payload f) = Some v"
    by (auto simp: source_proven_def complete_payload_def)
  then show thesis by (intro that[of v]) (auto simp: source_fact_payload_def)
qed

definition direct_proof ::
    "participant_input \<Rightarrow> participant_input \<Rightarrow> field_kind \<Rightarrow> fact_payload \<Rightarrow> bool" where
  "direct_proof ours target k p \<longleftrightarrow>
     (\<exists>(holder, other) \<in> {(ours, target), (target, ours)}. \<exists>f.
        source_interval_fact holder k = Some f \<and> p = source_fact_payload f \<and> source_proven k holder other p)"

lemma valid_payload_Some: "valid_payload r = Some p \<longleftrightarrow> r = (VALID, Some p)"
  by (cases r) (auto simp: valid_payload_def)

lemma first_valid_reads:
  assumes "first_valid ours target = Some (k, p)"
  obtains holder other where "(holder, other, k) \<in> set (direct_readings ours target)"
    "read_direct (holder, other, k) = (VALID, Some p)"
proof -
  have "(k, p) \<in> set (List.map_filter (\<lambda>r. map_option (Pair (snd (snd r))) (valid_payload (read_direct r)))
          (direct_readings ours target))"
    using assms unfolding first_valid_def by (auto split: list.splits)
  then obtain r where r: "r \<in> set (direct_readings ours target)" "valid_payload (read_direct r) = Some p" "snd (snd r) = k"
    by (auto simp: map_filter_def)
  obtain h u where "r = (h, u, k)" using r(3) by (metis prod.collapse)
  then show thesis using that r by (simp add: valid_payload_Some)
qed

lemma first_valid_proof:
  assumes "first_valid ours target = Some (k, p)"
  shows "direct_proof ours target k p"
proof -
  obtain holder other where r: "(holder, other, k) \<in> set (direct_readings ours target)"
      "read_direct (holder, other, k) = (VALID, Some p)" using first_valid_reads[OF assms] .
  then obtain f where "source_interval_fact holder k = Some f" "p = source_fact_payload f"
      "source_proven k holder other p"
    unfolding read_direct_def prod.case by (auto elim: fact_context_valid)
  moreover have "(holder, other) \<in> {(ours, target), (target, ours)}"
    using r(1) by (auto simp: direct_readings_def)
  ultimately show ?thesis unfolding direct_proof_def by blast
qed

definition pair_proof ::
    "(string \<times> participant_input) list \<Rightarrow> participant_input \<Rightarrow> participant_input \<Rightarrow> fact_payload \<Rightarrow> fact_payload \<Rightarrow> bool" where
  "pair_proof roster ours target p q \<longleftrightarrow>
     (\<exists>leader f g. leader \<in> snd ` set roster \<and> pt_id leader \<noteq> pt_id ours \<and> pt_id leader \<noteq> pt_id target \<and>
        source_interval_fact ours GAP = Some f \<and> p = source_fact_payload f \<and> source_proven GAP ours leader p \<and>
        source_interval_fact target GAP = Some g \<and> q = source_fact_payload g \<and> source_proven GAP target leader q \<and>
        same_source_message p q \<and> \<not> unequal_counts (fp_subject_laps p) (fp_subject_laps q))"

lemma common_leader_in:
  "common_leader roster ours target = Some c \<Longrightarrow>
     c \<in> snd ` set roster \<and> pt_id c \<noteq> pt_id ours \<and> pt_id c \<noteq> pt_id target"
  by (force simp: common_leader_def Let_def bind_eq_Some_conv dest: map_of_SomeD
      split: option.splits if_splits)

lemma pair_reading_proof:
  assumes "common_leader roster ours target = Some c"
    and "pair_reading ours c = (VALID, Some p)" "pair_reading target c = (VALID, Some q)" "coherent_pair p q"
  shows "pair_proof roster ours target p q"
proof -
  obtain f where f: "source_interval_fact ours GAP = Some f" "p = source_fact_payload f" "source_proven GAP ours c p"
    using assms(2) unfolding pair_reading_def by (auto elim: fact_context_valid)
  obtain g where g: "source_interval_fact target GAP = Some g" "q = source_fact_payload g" "source_proven GAP target c q"
    using assms(3) unfolding pair_reading_def by (auto elim: fact_context_valid)
  show ?thesis
    using f g common_leader_in[OF assms(1)] assms(4) unfolding pair_proof_def coherent_pair_def by blast
qed

lemma relation_result_sel [simp]:
  "rl_status (relation_result now a t s v k fs) = s"
  "rl_value_ms (relation_result now a t s v k fs) = (if s = VALID \<or> s = SELF then v else None)"
  "rl_source_facts (relation_result now a t s v k fs) = List.map_filter id fs"
  by (auto simp: relation_result_def Let_def)

lemma unresolved_status:
  "rl_status (unresolved now ours t cs) \<in> {NO_SOURCE_FACT} \<union> (fst ` set cs - {VALID})"
proof (cases "filter (\<lambda>s. s \<noteq> NO_SOURCE_FACT \<and> s \<noteq> VALID) (map fst cs)")
  case Nil
  then show ?thesis by (simp add: unresolved_def)
next
  case (Cons s r)
  then have "s \<in> set (filter (\<lambda>s. s \<noteq> NO_SOURCE_FACT \<and> s \<noteq> VALID) (map fst cs))" by simp
  moreover have "rl_status (unresolved now ours t cs) = s" unfolding unresolved_def Cons by simp
  ultimately show ?thesis by auto
qed

lemma fact_context_not_self: "fst (fact_context_status cell h t k al) \<noteq> SELF"
  by (auto simp: fact_context_status_def Let_def split: option.splits)

lemma read_direct_not_self: "fst (read_direct r) \<noteq> SELF"
  by (cases r) (simp add: read_direct_def fact_context_not_self)

lemma pair_reading_not_self: "fst (pair_reading h c) \<noteq> SELF"
  by (simp add: pair_reading_def fact_context_not_self)

lemma unresolved_value:
  assumes "SELF \<notin> fst ` set cs"
  shows "relation_value_ms (unresolved now ours t cs) = None" "rl_status (unresolved now ours t cs) \<noteq> VALID"
proof -
  have "rl_status (unresolved now ours t cs) \<noteq> VALID \<and> rl_status (unresolved now ours t cs) \<noteq> SELF"
    using assms unresolved_status[of now ours t cs] by force
  then show "relation_value_ms (unresolved now ours t cs) = None" "rl_status (unresolved now ours t cs) \<noteq> VALID"
    by (auto simp: relation_value_ms_def)
qed

lemma directs_not_self: "SELF \<notin> fst ` set (map read_direct rs)"
proof
  assume "SELF \<in> fst ` set (map read_direct rs)"
  then obtain r where "SELF = fst (read_direct r)" by (auto simp del: split_paired_All split_paired_Ex)
  then show False using read_direct_not_self[of r] by simp
qed

lemma directs_pair_not_self: "SELF \<notin> fst ` set (map read_direct rs @ [pair_reading a c, pair_reading b c])"
  using directs_not_self[of rs] pair_reading_not_self[of a c] pair_reading_not_self[of b c]
  unfolding set_append image_Un by (simp add: eq_commute[of SELF])

definition comparable :: "participant_input \<Rightarrow> participant_input \<Rightarrow> bool" where
  "comparable ours t \<longleftrightarrow> pt_state ours \<noteq> None \<and> pt_state t \<noteq> None \<and> racing (state_kind_of ours) \<and>
     racing (state_kind_of t) \<and> \<not> unequal_counts (source_lap_count ours) (source_lap_count t)"

definition interval_tail ::
    "participant_input \<Rightarrow> participant_input \<Rightarrow> (string \<times> participant_input) list \<Rightarrow> int \<Rightarrow> relation" where
  "interval_tail ours t roster now =
    (let directs = map read_direct (direct_readings ours t) in
     case common_leader roster ours t of
       None \<Rightarrow> unresolved now ours t directs
     | Some c \<Rightarrow>
        (case (valid_payload (pair_reading ours c), valid_payload (pair_reading t c)) of
           (Some p, Some q) \<Rightarrow>
             if coherent_pair p q
             then relation_result now ours (Some t) VALID
               (Some \<bar>the (fp_value_ms p) - the (fp_value_ms q)\<bar>) (Some ''GAP_PAIR_COMMON_OVERALL_LEADER'') [Some p, Some q]
             else relation_result now ours (Some t) NO_COHERENT_SOURCE_PAIR None None [Some p, Some q]
         | _ \<Rightarrow> unresolved now ours t (directs @ [pair_reading ours c, pair_reading t c])))"

lemma relative_interval_other:
  assumes "pt_id t \<noteq> pt_id ours" "comparable ours t"
  shows "relative_interval ours (Some t) roster now =
    (case first_valid ours t of
       Some (k, p) \<Rightarrow> relation_result now ours (Some t) VALID (fp_value_ms p) (Some (direct_kind k)) [Some p]
     | None \<Rightarrow> interval_tail ours t roster now)"
proof -
  from assms have c: "pt_state ours \<noteq> None" "pt_state t \<noteq> None" "racing (state_kind_of ours)"
      "racing (state_kind_of t)" "\<not> unequal_counts (source_lap_count ours) (source_lap_count t)"
    unfolding comparable_def by blast+
  show ?thesis
    unfolding relative_interval_def interval_tail_def option.case if_not_P[OF assms(1)]
    by (simp only: c if_False disj_not1 not_False_eq_True simp_thms)
qed

lemma relative_interval_incomparable:
  assumes "pt_id t \<noteq> pt_id ours" "\<not> comparable ours t"
  shows "rl_status (relative_interval ours (Some t) roster now) \<in> {NO_STATE, NON_RACING_STATE, LAPPED}"
proof -
  consider "pt_state ours = None \<or> pt_state t = None"
    | "\<not> (pt_state ours = None \<or> pt_state t = None)" "\<not> racing (state_kind_of ours) \<or> \<not> racing (state_kind_of t)"
    | "\<not> (pt_state ours = None \<or> pt_state t = None)" "\<not> (\<not> racing (state_kind_of ours) \<or> \<not> racing (state_kind_of t))"
      "unequal_counts (source_lap_count ours) (source_lap_count t)"
    using assms(2) unfolding comparable_def by argo
  then show ?thesis
    unfolding relative_interval_def option.case if_not_P[OF assms(1)]
    by cases (simp_all only: if_True if_False relation_result_sel insert_iff simp_thms)
qed

lemma interval_tail_valid:
  assumes "rl_status (interval_tail ours t roster now) = VALID"
  obtains p q where "pair_proof roster ours t p q"
    "rl_value_ms (interval_tail ours t roster now) = Some \<bar>the (fp_value_ms p) - the (fp_value_ms q)\<bar>"
    "rl_source_facts (interval_tail ours t roster now) = [p, q]"
proof -
  obtain c where c: "common_leader roster ours t = Some c"
    using assms unresolved_value(2)[OF directs_not_self]
    by (cases "common_leader roster ours t") (auto simp: interval_tail_def)
  obtain p q where pq: "valid_payload (pair_reading ours c) = Some p" "valid_payload (pair_reading t c) = Some q"
    using assms c unresolved_value(2)[OF directs_pair_not_self]
    by (cases "valid_payload (pair_reading ours c)"; cases "valid_payload (pair_reading t c)")
      (auto simp: interval_tail_def)
  have coh: "coherent_pair p q"
    using assms c pq by (auto simp: interval_tail_def split: if_splits)
  show thesis
    using that[OF pair_reading_proof[OF c pq[unfolded valid_payload_Some] coh]] c pq coh
    by (simp add: interval_tail_def map_filter_def)
qed


lemma comparable_reading:
  assumes "rl_status (relative_interval ours (Some t) roster now) = VALID"
  shows "pt_id t \<noteq> pt_id ours" "comparable ours t"
proof -
  show other: "pt_id t \<noteq> pt_id ours" using assms by (auto simp: relative_interval_def)
  show "comparable ours t" 
  proof (rule ccontr)
    assume "\<not> comparable ours t"
    from relative_interval_incomparable[OF other this, of roster now] show False unfolding assms by simp
  qed
qed

text \<open>C8. safety. A valid interval between two different cars is never computed from lap times: it
  is the value of one GAP or DIFF cell of one of the two cars that names the other car and still
  describes the current positions, states and laps of both; or the distance between the GAP cells
  of the two cars, taken from one source message, to the same overall leader, a third car of the
  roster. The two cars are racing and do not have different lap counts.\<close>
theorem valid_interval_is_source_proven:
  assumes "rl_status (relative_interval ours (Some t) roster now) = VALID"
  shows "comparable ours t \<and> pt_id t \<noteq> pt_id ours \<and>
    ((\<exists>k p. direct_proof ours t k p \<and> rl_source_facts (relative_interval ours (Some t) roster now) = [p] \<and>
        rl_value_ms (relative_interval ours (Some t) roster now) = fp_value_ms p) \<or>
     (\<exists>p q. pair_proof roster ours t p q \<and> rl_source_facts (relative_interval ours (Some t) roster now) = [p, q] \<and>
        rl_value_ms (relative_interval ours (Some t) roster now) = Some \<bar>the (fp_value_ms p) - the (fp_value_ms q)\<bar>))"
proof (cases "first_valid ours t")
  case None
  note c = comparable_reading[OF assms]
  have e: "relative_interval ours (Some t) roster now = interval_tail ours t roster now"
    using relative_interval_other[OF c] None by simp
  obtain p q where "pair_proof roster ours t p q"
      "rl_value_ms (interval_tail ours t roster now) = Some \<bar>the (fp_value_ms p) - the (fp_value_ms q)\<bar>"
      "rl_source_facts (interval_tail ours t roster now) = [p, q]"
    using interval_tail_valid[OF assms[unfolded e]] .
  then show ?thesis unfolding e using c by blast
next
  case (Some kp)
  obtain k p where kp: "first_valid ours t = Some (k, p)" using Some by (cases kp) simp
  note c = comparable_reading[OF assms]
  have e: "relative_interval ours (Some t) roster now
      = relation_result now ours (Some t) VALID (fp_value_ms p) (Some (direct_kind k)) [Some p]"
    using relative_interval_other[OF c] kp by simp
  have "rl_source_facts (relative_interval ours (Some t) roster now) = [p]"
      "rl_value_ms (relative_interval ours (Some t) roster now) = fp_value_ms p"
    unfolding e by (simp_all add: map_filter_def)
  then show ?thesis using c first_valid_proof[OF kp] by blast
qed

section \<open>Symmetry\<close>

lemma overall_rank_positive: "overall_rank p = Some r \<Longrightarrow> 1 \<le> r"
  by (auto simp: overall_rank_def bind_eq_Some_conv)

lemma proven_pair_exclusive:
  assumes "source_proven k ours t p" "source_proven l t ours q" "overall_rank ours \<noteq> overall_rank t"
  shows False
proof -
  obtain h u where "overall_rank ours = Some h" "overall_rank t = Some u"
      "case k of GAP \<Rightarrow> u = 1 | DIFF \<Rightarrow> h = u + 1" "case l of GAP \<Rightarrow> h = 1 | DIFF \<Rightarrow> u = h + 1"
    using assms(1,2) unfolding source_proven_def by auto
  moreover from this have "1 \<le> h" "1 \<le> u" using overall_rank_positive by blast+
  ultimately show False using assms(3) by (cases k; cases l) auto
qed

lemma read_direct_valid:
  assumes "valid_payload (read_direct (h, u, k)) = Some p"
  shows "\<exists>f. source_proven k h u (source_fact_payload f) \<and> p = source_fact_payload f"
  using assms unfolding valid_payload_Some read_direct_def prod.case by (auto elim: fact_context_valid)

lemma first_valid_unfold:
  "first_valid a b =
    (case valid_payload (read_direct (a, b, GAP)) of Some p \<Rightarrow> Some (GAP, p) | None \<Rightarrow>
     (case valid_payload (read_direct (b, a, GAP)) of Some p \<Rightarrow> Some (GAP, p) | None \<Rightarrow>
      (case valid_payload (read_direct (a, b, DIFF)) of Some p \<Rightarrow> Some (DIFF, p) | None \<Rightarrow>
       (case valid_payload (read_direct (b, a, DIFF)) of Some p \<Rightarrow> Some (DIFF, p) | None \<Rightarrow> None))))"
  by (auto simp: first_valid_def direct_readings_def map_filter_def split: option.splits)

lemma first_valid_commute:
  assumes "overall_rank a \<noteq> overall_rank b"
  shows "first_valid a b = first_valid b a"
proof -
  have x: "\<not> (valid_payload (read_direct (a, b, k)) = Some p \<and> valid_payload (read_direct (b, a, l)) = Some q)" for k l p q
    using read_direct_valid[of a b k p] read_direct_valid[of b a l q] proven_pair_exclusive[OF _ _ assms] by blast
  show ?thesis unfolding first_valid_unfold using x by (auto split: option.splits)
qed

lemma common_leader_commute: "common_leader roster a b = common_leader roster b a"
  by (auto simp: common_leader_def Let_def split: option.splits)

lemma coherent_pair_commute: "coherent_pair p q = coherent_pair q p"
  by (auto simp: coherent_pair_def same_source_message_def unequal_counts_def)

definition tail_value :: "participant_input \<Rightarrow> participant_input \<Rightarrow> (string \<times> participant_input) list \<Rightarrow> int option" where
  "tail_value a b roster = Option.bind (common_leader roster a b) (\<lambda>c.
     case (valid_payload (pair_reading a c), valid_payload (pair_reading b c)) of
       (Some p, Some q) \<Rightarrow> if coherent_pair p q then Some \<bar>the (fp_value_ms p) - the (fp_value_ms q)\<bar> else None
     | _ \<Rightarrow> None)"

lemma tail_value_commute: "tail_value a b roster = tail_value b a roster"
  unfolding tail_value_def common_leader_commute[of roster a b]
  by (rule arg_cong[where f = "Option.bind _"], rule ext)
    (auto split: option.splits simp: coherent_pair_commute abs_minus_commute)

lemma interval_tail_value: "relation_value_ms (interval_tail a b roster now) = tail_value a b roster"
proof (cases "common_leader roster a b")
  case None
  then show ?thesis
    by (simp add: interval_tail_def tail_value_def unresolved_value(1)[OF directs_not_self])
next
  case (Some c)
  show ?thesis
    using unresolved_value(1)[OF directs_pair_not_self, of now a b "direct_readings a b" a c b]
    by (auto simp: interval_tail_def tail_value_def Some Let_def relation_value_ms_def split: option.splits)
qed

lemma comparable_commute: "comparable a b = comparable b a"
  by (auto simp: comparable_def unequal_counts_def)

lemma relative_gap_cases:
  "relative_gap_ms a b roster now =
    (if pt_id b = pt_id a then Some 0
     else if comparable a b
     then (case first_valid a b of Some (k, p) \<Rightarrow> int_at_least 0 (fp_value_ms p) | None \<Rightarrow> tail_value a b roster)
     else None)"
proof (cases "pt_id b = pt_id a")
  case True
  then show ?thesis by (simp add: relative_gap_ms_def relative_interval_def relation_value_ms_def)
next
  case False
  show ?thesis
  proof (cases "comparable a b")
    case True
    note e = relative_interval_other[OF False True, of roster now]
    show ?thesis
    proof (cases "first_valid a b")
      case None
      then show ?thesis using False True e by (simp add: relative_gap_ms_def interval_tail_value)
    next
      case (Some kp)
      then show ?thesis
        using False True e by (cases kp) (simp add: relative_gap_ms_def relation_value_ms_def)
    qed
  next
    case not: False
    then show ?thesis
      using False relative_interval_incomparable[OF False not, of roster now]
      by (auto simp: relative_gap_ms_def relation_value_ms_def)
  qed
qed

text \<open>equivalence. The interval does not depend on whose side asks: when two cars hold different
  overall positions, the interval from one to the other is the interval back.\<close>
theorem relative_gap_symmetric:
  assumes "overall_rank a \<noteq> overall_rank b"
  shows "relative_gap_ms a b roster now = relative_gap_ms b a roster now"
  unfolding relative_gap_cases first_valid_commute[OF assms] tail_value_commute[of a b roster]
    comparable_commute[of a b] by (simp add: eq_commute)

lemma relative_gap_not_negative: "relative_gap_ms a b roster now = Some v \<Longrightarrow> 0 \<le> v"
  by (auto simp: relative_gap_ms_def relation_value_ms_def split: if_splits)


section \<open>Class order\<close>

text \<open>A class the provider ranks: every active car has a PIC, no two the same, one of them 1.\<close>

definition ranked_cars :: "participant_input list \<Rightarrow> bool" where
  "ranked_cars cars \<longleftrightarrow> (\<forall>m \<in> set cars. class_rank m \<noteq> None) \<and> distinct (map class_rank cars) \<and> Some 1 \<in> class_rank ` set cars"

lemma ranked_cars_mset: "mset a = mset b \<Longrightarrow> ranked_cars a = ranked_cars b"
  unfolding ranked_cars_def by (metis mset_map mset_eq_imp_distinct_iff mset_eq_setD)

lemma class_rank_state: "class_rank m \<noteq> None \<Longrightarrow> pt_state m \<noteq> None"
  by (cases "pt_state m") (auto simp: class_rank_def)

lemma ranked_cars_iff:
  assumes "\<forall>m \<in> set cars. class_rank m \<noteq> None"
  shows "ranked_cars cars \<longleftrightarrow> distinct (map (the \<circ> class_rank) cars) \<and> 1 \<in> set (map (the \<circ> class_rank) cars)"
proof -
  have "inj_on (the \<circ> class_rank) (set cars) = inj_on class_rank (set cars)"
    unfolding inj_on_def comp_def using assms by (metis option.expand)
  moreover have "1 \<in> (the \<circ> class_rank) ` set cars \<longleftrightarrow> Some 1 \<in> class_rank ` set cars"
    using assms by force
  ultimately show ?thesis using assms by (simp add: ranked_cars_def distinct_map)
qed

definition order_cars :: "participant_input list \<Rightarrow> participant_input list option" where
  "order_cars cars = (if cars = [] \<or> list_ex (\<lambda>m. pt_state m = None) cars then None
     else if list_all (\<lambda>m. class_rank m \<noteq> None) cars
     then (if \<not> distinct (map (the \<circ> class_rank) cars) \<or> 1 \<notin> set (map (the \<circ> class_rank) cars) then None
           else Some (sort_key (\<lambda>m. (the (class_rank m), pt_id m)) cars))
     else None)"

lemma order_cars_cases:
  "order_cars cars = (if ranked_cars cars then Some (sort_key (\<lambda>m. (the (class_rank m), pt_id m)) cars) else None)"
proof (cases "\<forall>m \<in> set cars. class_rank m \<noteq> None")
  case True
  then have "\<not> list_ex (\<lambda>m. pt_state m = None) cars"
    using class_rank_state unfolding list_ex_iff by blast
  moreover have "list_all (\<lambda>m. class_rank m \<noteq> None) cars" using True by (simp add: list_all_iff)
  moreover have "\<not> ranked_cars []" by (simp add: ranked_cars_def)
  ultimately show ?thesis
    unfolding order_cars_def ranked_cars_iff[OF True] by (cases "cars = []") simp_all
next
  case False
  then have "\<not> ranked_cars cars" "\<not> list_all (\<lambda>m. class_rank m \<noteq> None) cars"
    unfolding ranked_cars_def list_all_iff by blast+
  then show ?thesis unfolding order_cars_def by simp
qed

lemma class_order_cases:
  "class_order scope = (let cars = sort_key pt_id (filter pt_active (cs_participants scope)) in
    if ranked_cars cars then Some (sort_key (\<lambda>m. (the (class_rank m), pt_id m)) cars) else None)"
  unfolding Let_def order_cars_cases[symmetric] by (simp add: class_order_def order_cars_def Let_def)

lemma sorted_distinct_strict:
  "sorted (map f xs) \<Longrightarrow> distinct (map f xs) \<Longrightarrow> sorted_wrt (\<lambda>a b. f a < f b) xs"
  by (induction xs) (auto simp: order_le_less)

lemma ranked_order_strict:
  fixes cars
  assumes "ranked_cars cars"
  defines "ms \<equiv> sort_key (\<lambda>m. (the (class_rank m), pt_id m)) cars"
  shows "sorted_wrt (\<lambda>a b. the (class_rank a) < the (class_rank b)) ms"
proof (rule sorted_distinct_strict)
  have "sorted (map (\<lambda>m. (the (class_rank m), pt_id m)) ms)" by (simp add: ms_def)
  then show "sorted (map (\<lambda>m. the (class_rank m)) ms)"
    by (induction ms) (auto simp: less_eq_prod_def)
  have "ranked_cars ms" using assms ranked_cars_mset[of ms cars] by simp
  then show "distinct (map (\<lambda>m. the (class_rank m)) ms)"
    using ranked_cars_iff[of ms] by (simp add: ranked_cars_def comp_def)
qed

lemma ranked_order_leader:
  assumes "ranked_cars ms" "sorted_wrt (\<lambda>a b. the (class_rank a) < the (class_rank b)) ms"
  shows "class_rank (hd ms) = Some 1"
proof -
  obtain m rest where ms: "ms = m # rest" using assms(1) by (cases ms) (auto simp: ranked_cars_def)
  obtain l where l: "l \<in> set ms" "class_rank l = Some 1" using assms(1) unfolding ranked_cars_def by force
  obtain r where r: "class_rank m = Some r" using assms(1) ms by (auto simp: ranked_cars_def)
  then have "1 \<le> r" by (auto simp: class_rank_def bind_eq_Some_conv)
  have "l = m"
  proof (rule ccontr)
    assume "l \<noteq> m"
    then have "the (class_rank m) < the (class_rank l)" using l ms assms(2) by auto
    then show False using r l \<open>1 \<le> r\<close> by simp
  qed
  then show ?thesis using l ms by simp
qed

text \<open>functional. The class order exists exactly when the provider ranks the class: every active
  car has a class position (PIC), the positions are distinct and one of them is 1. It then lists
  exactly the active cars, by strictly increasing PIC, the leader first; the overall positions do
  not enter.\<close>
theorem class_order_by_pic:
  "case class_order scope of
     None \<Rightarrow> \<not> ranked_cars (filter pt_active (cs_participants scope))
   | Some ms \<Rightarrow> ranked_cars (filter pt_active (cs_participants scope)) \<and>
       mset ms = mset (filter pt_active (cs_participants scope)) \<and>
       sorted_wrt (\<lambda>a b. the (class_rank a) < the (class_rank b)) ms \<and> class_rank (hd ms) = Some 1"
proof -
  define cars where "cars = sort_key pt_id (filter pt_active (cs_participants scope))"
  have same: "ranked_cars cars = ranked_cars (filter pt_active (cs_participants scope))"
    by (rule ranked_cars_mset) (simp add: cars_def)
  show ?thesis
  proof (cases "ranked_cars cars")
    case True
    define ms where "ms = sort_key (\<lambda>m. (the (class_rank m), pt_id m)) cars"
    have "ranked_cars ms" using True ranked_cars_mset[of ms cars] by (simp add: ms_def)
    moreover have "sorted_wrt (\<lambda>a b. the (class_rank a) < the (class_rank b)) ms"
      unfolding ms_def by (rule ranked_order_strict[OF True])
    ultimately show ?thesis
      using ranked_order_leader[of ms] True same
      by (simp add: class_order_cases Let_def flip: cars_def ms_def) (simp add: ms_def cars_def)
  next
    case False
    then show ?thesis using same by (simp add: class_order_cases Let_def flip: cars_def)
  qed
qed

section \<open>Witnesses\<close>

definition sample_fact :: "string \<Rightarrow> int \<Rightarrow> string \<Rightarrow> int \<Rightarrow> interval_fact" where
  "sample_fact kind position other target_position = \<lparr> if_id = 7, if_field_kind = kind, if_raw_value = Some ''+1.500'',
     if_value_ms = Some 1500, if_value_kind = Some ''TIME'', if_cell_observation_id = 70, if_source_message_id = Some 41,
     if_source_key = ''r_c'', if_source_change_ordinal = 3, if_observed_at_us = 5000000, if_source_handle = ''r_c'',
     if_observation_kind = ''RESULT'', if_subject_position_overall = Some position,
     if_subject_state_kind = Some ''ON_TRACK'', if_subject_laps = Some 12, if_target_participant_id = Some other,
     if_target_position_overall = Some target_position, if_target_state_kind = Some ''ON_TRACK'',
     if_target_laps = Some 12, if_relation_kind = Some ''OVERALL_AHEAD'' \<rparr>"

definition sample_car :: "string \<Rightarrow> int \<Rightarrow> interval_fact option \<Rightarrow> participant_input" where
  "sample_car i position diff = \<lparr> pt_id = i, pt_start_number = Some i, pt_team_name = None, pt_car_name = None,
     pt_class_name = Some ''CN'', pt_class_key = Some ''cn'', pt_is_ours = False, pt_active = True,
     pt_state = Some \<lparr> ps_position_overall = Some position, ps_position_class = Some position, ps_laps = Some 12,
       ps_state = None, ps_state_raw = None, ps_state_kind = Some ''ON_TRACK'', ps_current_driver_name = None, ps_last_lap_ms = None, ps_best_lap_ms = None,
       ps_gap_ms = None, ps_gap_raw = None, ps_gap_kind = None, ps_diff_ms = None, ps_diff_raw = None, ps_diff_kind = None,
       ps_provider_pit_count = None, ps_updated_at_us = 0, ps_gap_interval_fact = None,
       ps_diff_interval_fact = diff \<rparr>,
     pt_laps = [], pt_pit_stops = [], pt_tire_stints = [], pt_latest_timing_event_id = None,
     pt_observed_lap_count_prefix = 0, pt_clean_lap_count_prefix = 0, pt_best_lap_ms_checkpoint = None,
     pt_last_sector_ms_checkpoint = [], pt_personal_best_sector_ms_checkpoint = [],
     pt_active_stint_observed_lap_count_prefix = 0, pt_active_stint_clean_lap_count_prefix = 0,
     pt_active_stint_best_lap_ms_checkpoint = None, pt_stint_summary_checkpoint = [] \<rparr>"

definition car_21 :: participant_input where "car_21 = sample_car ''21'' 4 None"
definition car_34 :: participant_input where "car_34 = sample_car ''34'' 5 (Some (sample_fact ''DIFF'' 5 ''21'' 4))"

lemma valid_interval_is_source_proven_witness:
  "comparable car_34 car_21 \<and> relative_gap_ms car_34 car_21 [] 6000000 = Some 1500"
proof -
  have v: "rl_status (relative_interval car_34 (Some car_21) [] 6000000) = VALID" by code_simp
  have "relative_gap_ms car_34 car_21 [] 6000000 = Some 1500" by code_simp
  then show ?thesis using valid_interval_is_source_proven[OF v] by blast
qed

lemma relative_gap_symmetric_witness:
  "relative_gap_ms car_21 car_34 [] 6000000 = Some 1500"
proof -
  have "overall_rank car_21 \<noteq> overall_rank car_34" by code_simp
  then have "relative_gap_ms car_21 car_34 [] 6000000 = relative_gap_ms car_34 car_21 [] 6000000"
    by (rule relative_gap_symmetric)
  moreover have "relative_gap_ms car_34 car_21 [] 6000000 = Some 1500" by code_simp
  ultimately show ?thesis by simp
qed

end
