(* ===== verification/Metric_Boundaries.thy ===== *)
theory Metric_Boundaries
  imports Interval_Relations
begin

text \<open>
  The semantic cursor of the metric runner in \<open>server/timing/metric_engine.py\<close>: the facts
  whose change is a domain event (\<open>build_boundary_state\<close>), its durable JSON form, the events
  between two states (\<open>detect_event_boundaries\<close>) and the scopes they belong to
  (\<open>_event_scopes\<close>). The JSON text is represented by the document \<open>json.loads\<close> returns
  for it; an argument \<open>None\<close> is a text it rejects.
\<close>

section \<open>State\<close>

record participant_boundary =
  pb_participant_id :: string
  pb_class_key :: "string option"
  pb_identity :: "string option \<times> string option \<times> string option \<times> string option"
  pb_driver_name :: "string option"
  pb_position_overall :: "int option"
  pb_position_class :: "int option"
  pb_completed_laps :: "int option"
  pb_state_kind :: "string option"
  pb_last_lap_ms :: "int option"
  pb_latest_timing_event_id :: "int option"
  pb_best_lap_ms :: "int option"
  pb_gap_interval_fact_pointer :: "fact_pointer option"
  pb_diff_interval_fact_pointer :: "fact_pointer option"
  pb_pits :: "(int option \<times> int option \<times> int option \<times> bool option) list"
  pb_active_stint :: "(int option \<times> int option \<times> int option) option"

type_synonym session_signature = "string option \<times> string option \<times> string option \<times> string option \<times> string option"

record metric_boundary =
  mb_source_heat_id :: int
  mb_session :: session_signature
  mb_flag :: "(string option \<times> int option \<times> string option \<times> string option) option"
  mb_source_gap :: "(int \<times> string) option"
  mb_ours_participant_id :: "string option"
  mb_participants :: "participant_boundary list"
  mb_class_order_members :: "(string \<times> string list) list"

definition completed_laps :: "participant_input \<Rightarrow> int option" where
  "completed_laps p =
    (case pt_state p of
       Some s \<Rightarrow>
         (case lap_count_of (ps_laps s) of
            Some n \<Rightarrow> Some n
          | None \<Rightarrow> source_lap_count p)
     | None \<Rightarrow> source_lap_count p)"

definition flag_start_at_us :: "heat_input \<Rightarrow> int option" where
  "flag_start_at_us h = (case ht_current_flag h of
     None \<Rightarrow> None
   | Some f \<Rightarrow> (case tf_calibrated_started_at_us f of Some c \<Rightarrow> Some c | None \<Rightarrow> Some (tf_started_at_us f)))"

definition participant_boundary_state :: "participant_input \<Rightarrow> participant_boundary" where
  "participant_boundary_state p = \<lparr> pb_participant_id = pt_id p, pb_class_key = pt_class_key p,
     pb_identity = (pt_start_number p, pt_team_name p, pt_car_name p, pt_class_name p),
     pb_driver_name = Option.bind (pt_state p) ps_current_driver_name,
     pb_position_overall = Option.bind (pt_state p) (\<lambda>s. rank_of (ps_position_overall s)),
     pb_position_class = Option.bind (pt_state p) (\<lambda>s. rank_of (ps_position_class s)),
     pb_completed_laps = completed_laps p, pb_state_kind = Option.bind (pt_state p) ps_state_kind,
     pb_last_lap_ms = last_lap_ms p, pb_latest_timing_event_id = pt_latest_timing_event_id p,
     pb_best_lap_ms = best_lap_ms p,
     pb_gap_interval_fact_pointer = interval_fact_pointer (source_interval_fact p GAP),
     pb_diff_interval_fact_pointer = interval_fact_pointer (source_interval_fact p DIFF),
     pb_pits = map (\<lambda>s. (Some (pi_stop_number s), Some (pi_entered_at_us s), pi_exited_at_us s, Some (pi_completed s)))
       (sort_key (\<lambda>s. (pi_stop_number s, pi_entered_at_us s)) (pt_pit_stops p)),
     pb_active_stint = map_option (\<lambda>s. (Some (ti_stint_number s), Some (ti_started_at_us s), Some (ti_completed_laps s)))
       (active_tire_stint p) \<rparr>"

definition order_members :: "class_scope \<Rightarrow> string \<times> string list" where
  "order_members sc = (cs_key sc, case class_order sc of None \<Rightarrow> [] | Some ms \<Rightarrow> map pt_id ms)"

definition build_boundary_state :: "heat_input \<Rightarrow> metric_boundary" where
  "build_boundary_state h = \<lparr> mb_source_heat_id = ht_source_heat_id h,
     mb_session = (Some (ms_id (ht_session h)), Some (ms_mode (ht_session h)), Some (ms_lifecycle (ht_session h)),
       map_option int_text (ms_started_at_us (ht_session h)), map_option int_text (ms_stopped_at_us (ht_session h))),
     mb_flag = map_option (\<lambda>f. (Some (tf_flag f), flag_start_at_us h, tf_provider_code f, tf_provider_label f)) (ht_current_flag h),
     mb_source_gap = map_option (\<lambda>g. (ig_started_at_us g, ig_reason g)) (ht_open_ingest_gap h),
     mb_ours_participant_id = map_option pt_id (our_participant h),
     mb_participants = map participant_boundary_state (sort_key pt_id (ht_participants h)),
     mb_class_order_members = map order_members (sort_key cs_key (ht_class_scopes h)) \<rparr>"

section \<open>Durable form\<close>

abbreviation text_json :: "string option \<Rightarrow> json" where "text_json \<equiv> opt_json JStr"
abbreviation int_json :: "int option \<Rightarrow> json" where "int_json \<equiv> opt_json JInt"

definition pointer_json :: "fact_pointer option \<Rightarrow> json" where
  "pointer_json = opt_json (\<lambda>(i, c, m, k, n, f).
     JList [int_json i, int_json c, int_json m, text_json k, int_json n, text_json f])"

definition pit_json :: "int option \<times> int option \<times> int option \<times> bool option \<Rightarrow> json" where
  "pit_json = (\<lambda>(n, i, u, c). JList [int_json n, int_json i, int_json u, opt_json JBool c])"

definition participant_json :: "participant_boundary \<Rightarrow> json" where
  "participant_json p = JObj
    [(''participant_id'', JStr (pb_participant_id p)),
     (''class_key'', text_json (pb_class_key p)),
     (''identity'', case pb_identity p of (a, b, c, d) \<Rightarrow> JList [text_json a, text_json b, text_json c, text_json d]),
     (''driver_name'', text_json (pb_driver_name p)),
     (''position_overall'', int_json (pb_position_overall p)),
     (''position_class'', int_json (pb_position_class p)),
     (''completed_laps'', int_json (pb_completed_laps p)),
     (''state_kind'', text_json (pb_state_kind p)),
     (''last_lap_ms'', int_json (pb_last_lap_ms p)),
     (''latest_timing_event_id'', int_json (pb_latest_timing_event_id p)),
     (''best_lap_ms'', int_json (pb_best_lap_ms p)),
     (''gap_interval_fact_pointer'', pointer_json (pb_gap_interval_fact_pointer p)),
     (''diff_interval_fact_pointer'', pointer_json (pb_diff_interval_fact_pointer p)),
     (''pits'', JList (map pit_json (pb_pits p))),
     (''active_stint'', opt_json (\<lambda>(a, b, c). JList [int_json a, int_json b, int_json c]) (pb_active_stint p))]"

definition serialize_metric_boundary_state :: "metric_boundary \<Rightarrow> json" where
  "serialize_metric_boundary_state s = JObj
    [(''source_heat_id'', JInt (mb_source_heat_id s)),
     (''session'', case mb_session s of (a, b, c, d, e) \<Rightarrow> JList [text_json a, text_json b, text_json c, text_json d, text_json e]),
     (''flag'', opt_json (\<lambda>(a, b, c, d). JList [text_json a, int_json b, text_json c, text_json d]) (mb_flag s)),
     (''source_gap'', opt_json (\<lambda>(a, b). JList [JInt a, JStr b]) (mb_source_gap s)),
     (''ours_participant_id'', text_json (mb_ours_participant_id s)),
     (''participants'', JList (map participant_json (mb_participants s))),
     (''class_order_members'', JList (map (\<lambda>(k, ms). JList [JStr k, JList (map JStr ms)]) (mb_class_order_members s)))]"

datatype boundary_error = ValueError string

definition optional_text :: "json \<Rightarrow> string option" where
  "optional_text j = (case j of JStr s \<Rightarrow> Some s | _ \<Rightarrow> None)"

definition optional_integer :: "json \<Rightarrow> int option" where
  "optional_integer j = (case j of JNum (PyInt i) \<Rightarrow> Some i | _ \<Rightarrow> None)"

definition optional_bool :: "json \<Rightarrow> bool option" where
  "optional_bool j = (case j of JBool b \<Rightarrow> Some b | _ \<Rightarrow> None)"

definition read_pointer :: "json \<Rightarrow> boundary_error + fact_pointer option" where
  "read_pointer j = (case j of
     JNull \<Rightarrow> Inr None
   | JList [i, c, m, k, n, f] \<Rightarrow>
      (let pointer = (int_at_least 1 (optional_integer i), int_at_least 1 (optional_integer c),
             int_at_least 1 (optional_integer m), optional_text k, int_at_least 0 (optional_integer n), optional_text f)
       in Inr (if pointer = (None, None, None, None, None, None) then None else Some pointer))
   | _ \<Rightarrow> Inl (ValueError ''Metric runner boundary state has an invalid interval fact pointer''))"

definition read_pit :: "json \<Rightarrow> boundary_error + (int option \<times> int option \<times> int option \<times> bool option)" where
  "read_pit j = (case j of
     JList [n, i, u, c] \<Rightarrow> Inr (optional_integer n, optional_integer i, optional_integer u, optional_bool c)
   | _ \<Rightarrow> Inl (ValueError ''Metric runner boundary state has an invalid pit''))"

text \<open>A loop that stops at the first error.\<close>

fun read_all :: "('a \<Rightarrow> 'e + 'b) \<Rightarrow> 'a list \<Rightarrow> 'e + 'b list" where
  "read_all f [] = Inr []"
| "read_all f (x # xs) =
    (case f x of
       Inl e \<Rightarrow> Inl e
     | Inr y \<Rightarrow> (case read_all f xs of Inl e \<Rightarrow> Inl e | Inr ys \<Rightarrow> Inr (y # ys)))"

definition read_stint :: "json \<Rightarrow> boundary_error + (int option \<times> int option \<times> int option) option" where
  "read_stint j = (case j of
     JNull \<Rightarrow> Inr None
   | JList [a, b, c] \<Rightarrow> Inr (Some (optional_integer a, optional_integer b, optional_integer c))
   | _ \<Rightarrow> Inl (ValueError ''Metric runner boundary state has an invalid active stint''))"

definition read_participant :: "json \<Rightarrow> boundary_error + participant_boundary" where
  "read_participant j = (case j of
     JObj item \<Rightarrow>
      (case jget ''participant_id'' item of
         JStr i \<Rightarrow>
          (case (jget ''identity'' item, jget ''pits'' item) of
             (JList [a, b, c, d], JList pits_raw) \<Rightarrow>
              (case read_all read_pit pits_raw of Inl e \<Rightarrow> Inl e | Inr pits \<Rightarrow>
               (case read_stint (jget ''active_stint'' item) of Inl e \<Rightarrow> Inl e | Inr stint \<Rightarrow>
                (case read_pointer (jget ''gap_interval_fact_pointer'' item) of Inl e \<Rightarrow> Inl e | Inr gap \<Rightarrow>
                 (case read_pointer (jget ''diff_interval_fact_pointer'' item) of Inl e \<Rightarrow> Inl e | Inr diff \<Rightarrow>
                   Inr \<lparr> pb_participant_id = i, pb_class_key = optional_text (jget ''class_key'' item),
                     pb_identity = (optional_text a, optional_text b, optional_text c, optional_text d),
                     pb_driver_name = optional_text (jget ''driver_name'' item),
                     pb_position_overall = optional_integer (jget ''position_overall'' item),
                     pb_position_class = optional_integer (jget ''position_class'' item),
                     pb_completed_laps = optional_integer (jget ''completed_laps'' item),
                     pb_state_kind = optional_text (jget ''state_kind'' item),
                     pb_last_lap_ms = optional_integer (jget ''last_lap_ms'' item),
                     pb_latest_timing_event_id = optional_integer (jget ''latest_timing_event_id'' item),
                     pb_best_lap_ms = optional_integer (jget ''best_lap_ms'' item),
                     pb_gap_interval_fact_pointer = gap, pb_diff_interval_fact_pointer = diff,
                     pb_pits = pits, pb_active_stint = stint \<rparr>))))
           | _ \<Rightarrow> Inl (ValueError ''Metric runner boundary state has invalid participant detail''))
       | _ \<Rightarrow> Inl (ValueError ''Metric runner boundary state has an invalid participant''))
   | _ \<Rightarrow> Inl (ValueError ''Metric runner boundary state has an invalid participant''))"

definition read_order_entry :: "json \<Rightarrow> boundary_error + (string \<times> string list)" where
  "read_order_entry j = (case j of
     JList [JStr k, JList ms] \<Rightarrow>
       if list_all (\<lambda>m. optional_text m \<noteq> None) ms then Inr (k, map (the \<circ> optional_text) ms)
       else Inl (ValueError ''Metric runner boundary state has an invalid class order entry'')
   | _ \<Rightarrow> Inl (ValueError ''Metric runner boundary state has an invalid class order entry''))"

definition read_session :: "json \<Rightarrow> boundary_error + session_signature" where
  "read_session j = (case j of
     JList [a, b, c, d, e] \<Rightarrow> Inr (optional_text a, optional_text b, optional_text c, optional_text d, optional_text e)
   | _ \<Rightarrow> Inl (ValueError ''Metric runner boundary state has an invalid session''))"

definition read_flag :: "json \<Rightarrow> boundary_error + (string option \<times> int option \<times> string option \<times> string option) option" where
  "read_flag j = (case j of
     JNull \<Rightarrow> Inr None
   | JList [a, b, c, d] \<Rightarrow> Inr (Some (optional_text a, optional_integer b, optional_text c, optional_text d))
   | _ \<Rightarrow> Inl (ValueError ''Metric runner boundary state has an invalid flag''))"

definition read_source_gap :: "json \<Rightarrow> boundary_error + (int \<times> string) option" where
  "read_source_gap j = (case j of
     JNull \<Rightarrow> Inr None
   | JList [JNum (PyInt i), JStr s] \<Rightarrow>
       if 0 \<le> i then Inr (Some (i, s)) else Inl (ValueError ''Metric runner boundary state has an invalid source gap'')
   | _ \<Rightarrow> Inl (ValueError ''Metric runner boundary state has an invalid source gap''))"

definition read_list :: "(json \<Rightarrow> boundary_error + 'a) \<Rightarrow> string \<Rightarrow> json \<Rightarrow> boundary_error + 'a list" where
  "read_list f message j = (case j of JList xs \<Rightarrow> read_all f xs | _ \<Rightarrow> Inl (ValueError message))"

definition deserialize_metric_boundary_state :: "json option \<Rightarrow> boundary_error + metric_boundary" where
  "deserialize_metric_boundary_state document = (case document of
     None \<Rightarrow> Inl (ValueError ''Metric runner boundary state is not valid JSON'')
   | Some (JObj payload) \<Rightarrow>
      (case int_at_least 1 (optional_integer (jget ''source_heat_id'' payload)) of
         None \<Rightarrow> Inl (ValueError ''Metric runner boundary state has no valid source heat'')
       | Some heat \<Rightarrow>
          (case read_session (jget ''session'' payload) of Inl e \<Rightarrow> Inl e | Inr session \<Rightarrow>
           (case read_flag (jget ''flag'' payload) of Inl e \<Rightarrow> Inl e | Inr flag \<Rightarrow>
            (case read_source_gap (jget ''source_gap'' payload) of Inl e \<Rightarrow> Inl e | Inr source_gap \<Rightarrow>
             (case read_list read_participant ''Metric runner boundary state has invalid participants'' (jget ''participants'' payload) of
                Inl e \<Rightarrow> Inl e | Inr participants \<Rightarrow>
              (case read_list read_order_entry ''Metric runner boundary state has invalid class order'' (jget ''class_order_members'' payload) of
                 Inl e \<Rightarrow> Inl e | Inr orders \<Rightarrow>
                Inr \<lparr> mb_source_heat_id = heat, mb_session = session, mb_flag = flag, mb_source_gap = source_gap,
                  mb_ours_participant_id = optional_text (jget ''ours_participant_id'' payload),
                  mb_participants = participants, mb_class_order_members = orders \<rparr>))))))
   | Some _ \<Rightarrow> Inl (ValueError ''Metric runner boundary state has no valid source heat''))"

section \<open>Events\<close>

definition identity_changed :: "participant_boundary \<Rightarrow> participant_boundary \<Rightarrow> bool" where
  "identity_changed l r = (pb_identity l \<noteq> pb_identity r \<or> pb_driver_name l \<noteq> pb_driver_name r \<or> pb_class_key l \<noteq> pb_class_key r)"

definition lap_changed :: "participant_boundary \<Rightarrow> participant_boundary \<Rightarrow> bool" where
  "lap_changed l r = (pb_completed_laps l \<noteq> pb_completed_laps r \<or> pb_last_lap_ms l \<noteq> pb_last_lap_ms r \<or>
     pb_latest_timing_event_id l \<noteq> pb_latest_timing_event_id r \<or> pb_best_lap_ms l \<noteq> pb_best_lap_ms r)"

definition participant_events ::
    "string \<Rightarrow> participant_boundary option \<Rightarrow> participant_boundary option \<Rightarrow> string list" where
  "participant_events i left right =
    (case (left, right) of
       (Some l, Some r) \<Rightarrow>
         (if identity_changed l r then [''identity:'' @ i] else []) @
         (if pb_gap_interval_fact_pointer l \<noteq> pb_gap_interval_fact_pointer r then [''interval_fact:'' @ i @ '':GAP''] else []) @
         (if pb_diff_interval_fact_pointer l \<noteq> pb_diff_interval_fact_pointer r then [''interval_fact:'' @ i @ '':DIFF''] else []) @
         (if pb_state_kind l \<noteq> pb_state_kind r then [''state:'' @ i] else []) @
         (if lap_changed l r then [''lap:'' @ i] else []) @
         (if pb_pits l \<noteq> pb_pits r \<or> pb_active_stint l \<noteq> pb_active_stint r then [''pit_or_stint:'' @ i] else []) @
         (if pb_position_overall l \<noteq> pb_position_overall r \<or> pb_position_class l \<noteq> pb_position_class r then [''position:'' @ i] else [])
     | _ \<Rightarrow> [''participant_roster:'' @ i])"

text \<open>\<open>{p.participant_id: p for p in participants}\<close>\<close>

definition by_id :: "participant_boundary list \<Rightarrow> (string \<times> participant_boundary) list" where
  "by_id ps = dict_of (map (\<lambda>p. (pb_participant_id p, p)) ps)"

text \<open>\<open>sorted(before.keys() | after.keys())\<close>\<close>

definition sorted_keys :: "('k :: linorder \<times> 'a) list \<Rightarrow> ('k \<times> 'b) list \<Rightarrow> 'k list" where
  "sorted_keys before after = sort (remdups (map fst before @ map fst after))"

definition boundary_events :: "metric_boundary \<Rightarrow> metric_boundary \<Rightarrow> string list" where
  "boundary_events prior now =
    (let before = by_id (mb_participants prior); after = by_id (mb_participants now) in
     (if mb_session prior \<noteq> mb_session now then [''session_lifecycle''] else []) @
     (if mb_flag prior \<noteq> mb_flag now then [''track_flag''] else []) @
     (if mb_source_gap prior \<noteq> mb_source_gap now then [''source_gap''] else []) @
     (if mb_ours_participant_id prior \<noteq> mb_ours_participant_id now then [''ours_identity''] else []) @
     (if mb_class_order_members prior \<noteq> mb_class_order_members now
      then map (\<lambda>(k, _). ''class_order:'' @ k) (mb_class_order_members now) else []) @
     concat (map (\<lambda>i. participant_events i (map_of before i) (map_of after i)) (sorted_keys before after)))"

definition detect_event_boundaries :: "metric_boundary option \<Rightarrow> heat_input \<Rightarrow> string list" where
  "detect_event_boundaries previous current =
    (case previous of
       None \<Rightarrow> [''initial_snapshot'']
     | Some prior \<Rightarrow>
        (let now = build_boundary_state current in
         if mb_source_heat_id prior \<noteq> mb_source_heat_id now then [''source_heat_changed'']
         else boundary_events prior now))"

section \<open>Scopes\<close>

type_synonym scope = "string \<times> string"

definition has_scope :: "heat_input \<Rightarrow> string \<Rightarrow> bool" where
  "has_scope h key = list_ex (\<lambda>sc. cs_key sc = key) (ht_class_scopes h)"

definition all_scopes :: "heat_input \<Rightarrow> scope list" where
  "all_scopes h = (''session'', ms_id (ht_session h)) # map (\<lambda>sc. (''class'', cs_key sc)) (ht_class_scopes h)
     @ map (\<lambda>p. (''participant'', pt_id p)) (ht_participants h)"

definition members_by_id :: "heat_input \<Rightarrow> (string \<times> participant_input) list" where
  "members_by_id h = dict_of (map (\<lambda>p. (pt_id p, p)) (ht_participants h))"

definition order_scopes :: "heat_input \<Rightarrow> metric_boundary \<Rightarrow> metric_boundary \<Rightarrow> scope list" where
  "order_scopes current prior now =
    (let before = dict_of (mb_class_order_members prior); after = dict_of (mb_class_order_members now);
         ours_key = Option.bind (our_participant current) pt_class_key
     in concat (map (\<lambda>key.
          if map_of before key \<noteq> map_of after key
          then (if has_scope current key then [(''class'', key)] else []) @
               (if Some key = ours_key then [(''session'', ms_id (ht_session current))] else [])
          else []) (sorted_keys before after)))"

definition participant_scopes ::
    "heat_input \<Rightarrow> string \<Rightarrow> participant_boundary option \<Rightarrow> participant_boundary option \<Rightarrow> scope list" where
  "participant_scopes current i left right =
    (let ours = our_participant current; ours_key = Option.bind ours pt_class_key;
         session = (''session'', ms_id (ht_session current))
     in if left = right then []
        else (case map_of (members_by_id current) i of
            Some p \<Rightarrow>
              [(''participant'', i)] @
              (case pt_class_key p of None \<Rightarrow> [] | Some key \<Rightarrow> [(''class'', key)]) @
              (if Some i = map_option pt_id ours \<or> pt_class_key p = ours_key then [session] else [])
          | None \<Rightarrow>
              (case Option.bind left pb_class_key of
                 None \<Rightarrow> []
               | Some key \<Rightarrow>
                  if has_scope current key then (''class'', key) # (if Some key = ours_key then [session] else []) else [])))"

definition event_scopes :: "metric_boundary option \<Rightarrow> heat_input \<Rightarrow> scope list" where
  "event_scopes previous current =
    (let now = build_boundary_state current in
     case previous of
       None \<Rightarrow> all_scopes current
     | Some prior \<Rightarrow>
        if mb_source_heat_id prior \<noteq> mb_source_heat_id now then all_scopes current
        else
         (let before = by_id (mb_participants prior); after = by_id (mb_participants now);
              session = (''session'', ms_id (ht_session current))
          in (if mb_session prior \<noteq> mb_session now \<or> mb_flag prior \<noteq> mb_flag now \<or> mb_source_gap prior \<noteq> mb_source_gap now
              then [session] else []) @
             (if mb_ours_participant_id prior \<noteq> mb_ours_participant_id now then [session] else []) @
             order_scopes current prior now @
             concat (map (\<lambda>i. participant_scopes current i (map_of before i) (map_of after i)) (sorted_keys before after))))"

section \<open>The durable form restores the state\<close>

lemma optional_text_json [simp]: "optional_text (opt_json JStr v) = v"
  by (cases v) (auto simp: opt_json_def optional_text_def)

lemma optional_text_JStr [simp]: "optional_text (JStr s) = Some s"
  by (simp add: optional_text_def)

lemma optional_integer_json [simp]: "optional_integer (opt_json JInt v) = v"
  by (cases v) (auto simp: opt_json_def optional_integer_def)

lemma optional_integer_JInt [simp]: "optional_integer (JInt i) = Some i"
  by (simp add: optional_integer_def)

lemma optional_bool_json [simp]: "optional_bool (opt_json JBool v) = v"
  by (cases v) (auto simp: opt_json_def optional_bool_def)

definition pointer_ok :: "fact_pointer option \<Rightarrow> bool" where
  "pointer_ok pointer = (case pointer of
     None \<Rightarrow> True
   | Some (i, c, m, k, n, f) \<Rightarrow>
       int_at_least 1 i = i \<and> int_at_least 1 c = c \<and> int_at_least 1 m = m \<and> int_at_least 0 n = n \<and>
       (i, c, m, k, n, f) \<noteq> (None, None, None, None, None, None))"

lemma int_at_least_idem [simp]: "int_at_least m (int_at_least m v) = int_at_least m v"
  by (auto simp: int_at_least_def split: option.splits)

lemma interval_fact_pointer_ok: "pointer_ok (interval_fact_pointer cell)"
proof (cases cell)
  case (Some f)
  obtain i c m k n u where p: "(int_at_least 1 (Some (if_id f)), int_at_least 1 (Some (if_cell_observation_id f)),
      int_at_least 1 (if_source_message_id f), nonblank (Some (if_source_key f)),
      int_at_least 0 (Some (if_source_change_ordinal f)), nonblank (Some (if_field_kind f))) = (i, c, m, k, n, u)"
    by blast
  then have "int_at_least 1 i = i" "int_at_least 1 c = c" "int_at_least 1 m = m" "int_at_least 0 n = n"
    by (metis Pair_inject int_at_least_idem)+
  then show ?thesis unfolding Some interval_fact_pointer_def option.case p Let_def by (simp add: pointer_ok_def)
qed (simp add: interval_fact_pointer_def pointer_ok_def)

lemma read_pointer_json: "pointer_ok p \<Longrightarrow> read_pointer (pointer_json p) = Inr p"
  by (cases p) (auto simp: pointer_ok_def pointer_json_def read_pointer_def opt_json_def[of _ None]
      opt_json_def[of _ "Some _"] Let_def)

lemma read_pit_json [simp]: "read_pit (pit_json p) = Inr p"
  by (cases p) (simp add: read_pit_def pit_json_def)

lemma read_all_map: "(\<And>x. x \<in> set xs \<Longrightarrow> f (g x) = Inr x) \<Longrightarrow> read_all f (map g xs) = Inr xs"
  by (induction xs) auto

lemma read_stint_json [simp]: "read_stint (opt_json (\<lambda>(a, b, c). JList [int_json a, int_json b, int_json c]) v) = Inr v"
  by (cases v) (auto simp: read_stint_def opt_json_def[of _ None] opt_json_def[of _ "Some _"])

definition participant_ok :: "participant_boundary \<Rightarrow> bool" where
  "participant_ok p = (pointer_ok (pb_gap_interval_fact_pointer p) \<and> pointer_ok (pb_diff_interval_fact_pointer p))"

lemma read_participant_json:
  assumes "participant_ok p"
  shows "read_participant (participant_json p) = Inr p"
proof -
  obtain a b c d where i: "pb_identity p = (a, b, c, d)" by (cases "pb_identity p")
  have pits: "read_all read_pit (map pit_json (pb_pits p)) = Inr (pb_pits p)" by (rule read_all_map) simp
  show ?thesis
    using assms
    by (simp add: read_participant_def participant_json_def jget_def i pits read_pointer_json participant_ok_def)
qed

lemma read_order_entry_json: "read_order_entry (case e of (k, ms) \<Rightarrow> JList [JStr k, JList (map JStr ms)]) = Inr e"
  by (cases e) (simp add: read_order_entry_def list_all_iff comp_def)

lemma read_flag_json [simp]:
  "read_flag (opt_json (\<lambda>(a, b, c, d). JList [text_json a, int_json b, text_json c, text_json d]) v) = Inr v"
  by (cases v) (auto simp: read_flag_def opt_json_def[of _ None] opt_json_def[of _ "Some _"])

definition boundary_ok :: "metric_boundary \<Rightarrow> bool" where
  "boundary_ok s = (1 \<le> mb_source_heat_id s \<and> (case mb_source_gap s of None \<Rightarrow> True | Some g \<Rightarrow> 0 \<le> fst g) \<and>
     (\<forall>p \<in> set (mb_participants s). participant_ok p))"

lemma read_source_gap_json:
  "(\<And>g. v = Some g \<Longrightarrow> 0 \<le> fst g) \<Longrightarrow> read_source_gap (opt_json (\<lambda>(a, b). JList [JInt a, JStr b]) v) = Inr v"
  by (cases v) (auto simp: read_source_gap_def opt_json_def[of _ None] opt_json_def[of _ "Some _"])

lemma deserialize_serialize:
  assumes "boundary_ok s"
  shows "deserialize_metric_boundary_state (Some (serialize_metric_boundary_state s)) = Inr s"
proof -
  obtain a b c d e where ses: "mb_session s = (a, b, c, d, e)" by (cases "mb_session s")
  have ps: "read_all read_participant (map participant_json (mb_participants s)) = Inr (mb_participants s)"
    using assms by (intro read_all_map read_participant_json) (simp add: boundary_ok_def)
  have os: "read_all read_order_entry (map (\<lambda>(k, ms). JList [JStr k, JList (map JStr ms)]) (mb_class_order_members s))
      = Inr (mb_class_order_members s)"
    by (rule read_all_map) (rule read_order_entry_json)
  have gap: "read_source_gap (opt_json (\<lambda>(a, b). JList [JInt a, JStr b]) (mb_source_gap s)) = Inr (mb_source_gap s)"
    using assms by (intro read_source_gap_json) (simp add: boundary_ok_def)
  have heat: "int_at_least 1 (Some (mb_source_heat_id s)) = Some (mb_source_heat_id s)"
    using assms by (simp add: boundary_ok_def)
  show ?thesis
    by (simp add: deserialize_metric_boundary_state_def serialize_metric_boundary_state_def jget_def ses ps os gap heat
        read_session_def read_list_def)
qed

definition heat_ok :: "heat_input \<Rightarrow> bool" where
  "heat_ok h = (1 \<le> ht_source_heat_id h \<and> (case ht_open_ingest_gap h of None \<Rightarrow> True | Some g \<Rightarrow> 0 \<le> ig_started_at_us g) \<and>
     distinct (map pt_id (ht_participants h)))"

lemma build_boundary_ok: "heat_ok h \<Longrightarrow> boundary_ok (build_boundary_state h)"
  by (auto simp: boundary_ok_def heat_ok_def build_boundary_state_def participant_ok_def
      participant_boundary_state_def interval_fact_pointer_ok split: option.splits)

text \<open>C33. roundtrip. The cursor the runner stores is read back as it was written, so a restarted
  runner compares the next frame with the same facts: for every heat with a positive id whose open
  feed gap starts at a non-negative instant.\<close>
theorem boundary_cursor_round_trip:
  assumes "heat_ok h"
  shows "deserialize_metric_boundary_state (Some (serialize_metric_boundary_state (build_boundary_state h)))
    = Inr (build_boundary_state h)"
  by (rule deserialize_serialize[OF build_boundary_ok[OF assms]])

section \<open>When there is no event\<close>

lemma participant_events_Nil: "participant_events i l r = [] \<longleftrightarrow>
    (\<exists>a b. l = Some a \<and> r = Some b \<and> a\<lparr> pb_participant_id := pb_participant_id b \<rparr> = b)"
proof (cases l)
  case (Some a)
  show ?thesis
  proof (cases r)
    case r: (Some b)
    have "participant_events i l r = [] \<longleftrightarrow> a\<lparr> pb_participant_id := pb_participant_id b \<rparr> = b"
      unfolding Some r participant_events_def identity_changed_def lap_changed_def
      by (cases a; cases b) auto
    then show ?thesis using Some r by simp
  qed (cases l; simp add: participant_events_def)
qed (cases r; simp add: participant_events_def)

lemma by_id_distinct: "distinct (map pb_participant_id ps) \<Longrightarrow> by_id ps = map (\<lambda>p. (pb_participant_id p, p)) ps"
  by (simp add: by_id_def comp_def)

lemma map_of_by_id:
  "distinct (map pb_participant_id ps) \<Longrightarrow> map_of (by_id ps) i = Some p \<longleftrightarrow> p \<in> set ps \<and> pb_participant_id p = i"
  by (auto simp: by_id_distinct map_of_eq_Some_iff comp_def)

lemma same_sorted_participants:
  assumes "sorted (map pb_participant_id xs)" "sorted (map pb_participant_id ys)"
    and "distinct (map pb_participant_id xs)" "distinct (map pb_participant_id ys)" "set xs = set ys"
  shows "xs = ys"
  by (rule map_sorted_distinct_set_unique[of pb_participant_id])
    (use assms in \<open>auto simp: distinct_map inj_on_def\<close>)

definition state_ok :: "metric_boundary \<Rightarrow> bool" where
  "state_ok s = (sorted (map pb_participant_id (mb_participants s)) \<and> distinct (map pb_participant_id (mb_participants s)))"

lemma build_participants:
  "map pb_participant_id (mb_participants (build_boundary_state h)) = map pt_id (sort_key pt_id (ht_participants h))"
  by (simp add: build_boundary_state_def participant_boundary_state_def comp_def)

lemma build_state_ok: "heat_ok h \<Longrightarrow> state_ok (build_boundary_state h)"
  by (simp add: state_ok_def heat_ok_def build_participants distinct_map)

lemma sorted_keys_set [simp]: "set (sorted_keys a b) = fst ` set a \<union> fst ` set b"
  by (simp add: sorted_keys_def)

lemma no_participant_event_iff:
  assumes "state_ok s" "state_ok t"
  shows "(\<forall>i \<in> set (sorted_keys (by_id (mb_participants s)) (by_id (mb_participants t))).
      participant_events i (map_of (by_id (mb_participants s)) i) (map_of (by_id (mb_participants t)) i) = [])
    \<longleftrightarrow> mb_participants s = mb_participants t" (is "?quiet \<longleftrightarrow> _")
proof
  have ds: "distinct (map pb_participant_id (mb_participants s))" and dt: "distinct (map pb_participant_id (mb_participants t))"
    using assms by (auto simp: state_ok_def)
  have sub: "set (mb_participants x) \<subseteq> set (mb_participants y)"
    if dx: "distinct (map pb_participant_id (mb_participants x))" and dy: "distinct (map pb_participant_id (mb_participants y))"
      and q: "\<And>i. i \<in> pb_participant_id ` set (mb_participants x) \<Longrightarrow>
        \<exists>a b. map_of (by_id (mb_participants x)) i = Some a \<and> map_of (by_id (mb_participants y)) i = Some b \<and>
          a\<lparr> pb_participant_id := pb_participant_id b \<rparr> = b" for x y
  proof
    fix p assume p: "p \<in> set (mb_participants x)"
    then obtain a b where ab: "map_of (by_id (mb_participants x)) (pb_participant_id p) = Some a"
        "map_of (by_id (mb_participants y)) (pb_participant_id p) = Some b"
        "a\<lparr> pb_participant_id := pb_participant_id b \<rparr> = b"
      using q by blast
    have "map_of (by_id (mb_participants x)) (pb_participant_id p) = Some p" using p by (simp add: map_of_by_id[OF dx])
    then have "a = p" using ab by simp
    moreover have "b \<in> set (mb_participants y)" "pb_participant_id b = pb_participant_id p"
      using ab(2) by (simp_all add: map_of_by_id[OF dy])
    ultimately show "p \<in> set (mb_participants y)" using ab(3) by (cases p) auto
  qed
  assume quiet: ?quiet
  have keys: "fst ` set (by_id (mb_participants x)) = pb_participant_id ` set (mb_participants x)"
    if "distinct (map pb_participant_id (mb_participants x))" for x
    using that by (simp add: by_id_distinct image_image)
  have "set (mb_participants s) \<subseteq> set (mb_participants t)"
    by (rule sub[OF ds dt]) (use quiet in \<open>auto simp: keys[OF ds] keys[OF dt] participant_events_Nil\<close>)
  moreover have "set (mb_participants t) \<subseteq> set (mb_participants s)"
  proof (rule sub[OF dt ds])
    fix i assume "i \<in> pb_participant_id ` set (mb_participants t)"
    then have "participant_events i (map_of (by_id (mb_participants s)) i) (map_of (by_id (mb_participants t)) i) = []"
      using quiet by (simp add: keys[OF ds] keys[OF dt])
    then obtain a b where "map_of (by_id (mb_participants s)) i = Some a" "map_of (by_id (mb_participants t)) i = Some b"
        "a\<lparr> pb_participant_id := pb_participant_id b \<rparr> = b"
      unfolding participant_events_Nil by blast
    moreover from this have "pb_participant_id a = i" "pb_participant_id b = i"
      using map_of_by_id[OF ds] map_of_by_id[OF dt] by blast+
    ultimately show "\<exists>a b. map_of (by_id (mb_participants t)) i = Some a \<and> map_of (by_id (mb_participants s)) i = Some b \<and>
        a\<lparr> pb_participant_id := pb_participant_id b \<rparr> = b"
      by (intro exI[of _ b] exI[of _ a]) (cases a; auto)
  qed
  ultimately show "mb_participants s = mb_participants t"
    using assms by (intro same_sorted_participants) (auto simp: state_ok_def)
next
  assume e: "mb_participants s = mb_participants t"
  have "participant_events i (map_of (by_id (mb_participants t)) i) (map_of (by_id (mb_participants t)) i) = []"
    if "i \<in> fst ` set (by_id (mb_participants t))" for i
  proof -
    from that obtain x where "(i, x) \<in> set (by_id (mb_participants t))" by auto
    then obtain p where "map_of (by_id (mb_participants t)) i = Some p" using weak_map_of_SomeI by fastforce
    then show ?thesis by (simp add: participant_events_Nil)
  qed
  then show ?quiet unfolding e by simp
qed

lemma boundary_events_Nil:
  assumes "state_ok s" "state_ok t" "mb_source_heat_id s = mb_source_heat_id t"
    and "mb_class_order_members t \<noteq> [] \<or> mb_class_order_members s = []"
  shows "boundary_events s t = [] \<longleftrightarrow> s = t"
proof -
  have "boundary_events s t = [] \<longleftrightarrow> mb_session s = mb_session t \<and> mb_flag s = mb_flag t \<and>
      mb_source_gap s = mb_source_gap t \<and> mb_ours_participant_id s = mb_ours_participant_id t \<and>
      mb_class_order_members s = mb_class_order_members t \<and> mb_participants s = mb_participants t"
    unfolding boundary_events_def Let_def append_is_Nil_conv concat_eq_Nil_conv
      no_participant_event_iff[OF assms(1,2), symmetric]
    using assms(4) by auto
  also have "\<dots> \<longleftrightarrow> s = t" using assms(3) by (cases s; cases t) auto
  finally show ?thesis .
qed

text \<open>functional. Between two frames of one heat the runner reports no event exactly when none
  of the facts it watches changed. The hypothesis excludes a heat that had classes and has none any
  more: the code reports a changed class order once per current class.\<close>
theorem no_event_iff_nothing_changed:
  assumes "heat_ok before" "heat_ok after" "ht_source_heat_id before = ht_source_heat_id after"
    and "ht_class_scopes after \<noteq> [] \<or> ht_class_scopes before = []"
  shows "detect_event_boundaries (Some (build_boundary_state before)) after = [] \<longleftrightarrow>
    build_boundary_state before = build_boundary_state after"
proof -
  have "mb_source_heat_id (build_boundary_state before) = mb_source_heat_id (build_boundary_state after)"
    using assms(3) by (simp add: build_boundary_state_def)
  moreover have "mb_class_order_members (build_boundary_state after) \<noteq> [] \<or> mb_class_order_members (build_boundary_state before) = []"
  proof -
    have "mb_class_order_members (build_boundary_state x) = [] \<longleftrightarrow> ht_class_scopes x = []" for x
      by (metis (no_types, lifting) build_boundary_state_def length_0_conv length_map length_sort metric_boundary.select_convs(7))
    then show ?thesis using assms(4) by simp
  qed
  ultimately show ?thesis
    using boundary_events_Nil[OF build_state_ok[OF assms(1)] build_state_ok[OF assms(2)]]
    by (simp add: detect_event_boundaries_def)
qed


section \<open>Whose chart an event belongs to\<close>

lemma no_participant_scope:
  "(''participant'', i) \<notin> set (order_scopes h s t)"
  by (auto simp: order_scopes_def Let_def split: if_splits)

lemma participant_scope_member:
  "(''participant'', i) \<in> set (participant_scopes h j l r) \<longleftrightarrow> i = j \<and> l \<noteq> r \<and> map_of (members_by_id h) j \<noteq> None"
  by (cases "map_of (members_by_id h) j"; cases "Option.bind l pb_class_key")
    (auto simp: participant_scopes_def Let_def split: option.splits)

lemma by_id_build:
  assumes "heat_ok h"
  shows "map_of (by_id (mb_participants (build_boundary_state h))) i = Some b \<longleftrightarrow>
    b \<in> set (mb_participants (build_boundary_state h)) \<and> pb_participant_id b = i"
  using build_state_ok[OF assms] by (simp add: map_of_by_id state_ok_def)

lemma members_lookup:
  "heat_ok h \<Longrightarrow> map_of (members_by_id h) i = Some p \<longleftrightarrow> p \<in> set (ht_participants h) \<and> pt_id p = i"
  by (auto simp: members_by_id_def heat_ok_def comp_def map_of_eq_Some_iff)

lemma pb_id_build [simp]: "pb_participant_id (participant_boundary_state p) = pt_id p"
  by (simp add: participant_boundary_state_def)

lemma build_participant_set:
  "set (mb_participants (build_boundary_state h)) = participant_boundary_state ` set (ht_participants h)"
  by (simp add: build_boundary_state_def)

lemma participant_scopes_concat:
  "(''participant'', i) \<in> set (concat (map (\<lambda>j. participant_scopes h j (l j) (r j)) keys)) \<longleftrightarrow>
    i \<in> set keys \<and> l i \<noteq> r i \<and> map_of (members_by_id h) i \<noteq> None"
  unfolding set_concat set_map image_image UN_iff participant_scope_member by blast

text \<open>safety. A car gets a point on its chart for an event exactly when one of its own watched
  facts changed (or it is new): a lap or a stop of another car never writes one. Cars that left the
  heat get none.\<close>
theorem participant_event_is_its_own:
  assumes "heat_ok before" "heat_ok after" "ht_source_heat_id before = ht_source_heat_id after"
  shows "(''participant'', i) \<in> set (event_scopes (Some (build_boundary_state before)) after) \<longleftrightarrow>
    (\<exists>p \<in> set (ht_participants after). pt_id p = i \<and>
       participant_boundary_state p \<notin> participant_boundary_state ` set (ht_participants before))"
proof -
  define s where "s = build_boundary_state before"
  define t where "t = build_boundary_state after"
  have heat: "mb_source_heat_id s = mb_source_heat_id t"
    using assms(3) by (simp add: s_def t_def build_boundary_state_def)
  then have same: "\<not> mb_source_heat_id s \<noteq> mb_source_heat_id t" by simp
  have "(''participant'', i) \<in> set (event_scopes (Some s) after) \<longleftrightarrow>
      i \<in> set (sorted_keys (by_id (mb_participants s)) (by_id (mb_participants t))) \<and>
      map_of (by_id (mb_participants s)) i \<noteq> map_of (by_id (mb_participants t)) i \<and>
      map_of (members_by_id after) i \<noteq> None"
    unfolding event_scopes_def Let_def option.case t_def[symmetric] if_not_P[OF same]
      set_append Un_iff participant_scopes_concat
    by (simp add: no_participant_scope)
  also have "\<dots> \<longleftrightarrow> (\<exists>p \<in> set (ht_participants after). pt_id p = i \<and>
       participant_boundary_state p \<notin> participant_boundary_state ` set (ht_participants before))"
  proof (cases "map_of (members_by_id after) i")
    case None
    then have "\<not> (\<exists>p \<in> set (ht_participants after). pt_id p = i)"
      using members_lookup[OF assms(2), of i] by fastforce
    then show ?thesis using None by blast
  next
    case (Some p)
    then have p: "p \<in> set (ht_participants after)" "pt_id p = i" using members_lookup[OF assms(2)] by blast+
    have unique: "q = p" if "q \<in> set (ht_participants after)" "pt_id q = i" for q
      using that p assms(2) by (auto simp: heat_ok_def distinct_map dest: inj_onD)
    have right: "map_of (by_id (mb_participants t)) i = Some (participant_boundary_state p)"
      unfolding t_def by_id_build[OF assms(2)] build_participant_set using p by simp
    then have "i \<in> fst ` set (by_id (mb_participants t))" by (metis domI dom_map_of_conv_image_fst)
    moreover have "map_of (by_id (mb_participants s)) i = Some (participant_boundary_state p) \<longleftrightarrow>
        participant_boundary_state p \<in> participant_boundary_state ` set (ht_participants before)"
      unfolding s_def by_id_build[OF assms(1)] build_participant_set using p by simp
    moreover have "(\<exists>q \<in> set (ht_participants after). pt_id q = i \<and>
        participant_boundary_state q \<notin> participant_boundary_state ` set (ht_participants before)) \<longleftrightarrow>
        participant_boundary_state p \<notin> participant_boundary_state ` set (ht_participants before)"
      using p unique by metis
    ultimately show ?thesis using Some right by simp
  qed
  finally show ?thesis by (simp add: s_def)
qed

section \<open>Witnesses\<close>

definition sample_heat :: "participant_input list \<Rightarrow> heat_input" where
  "sample_heat cars = \<lparr> ht_source_heat_id = 3, ht_generation = 1, ht_external_name = None, ht_provider_started_at_us = None,
     ht_provider_finished_at_us = None, ht_created_at_us = 0,
     ht_observed_at_us = 6000000,
     ht_session = \<lparr> ms_id = ''s1'', ms_mode = ''race'', ms_lifecycle = ''active'', ms_race_duration_s = None,
       ms_required_pits = None, ms_started_at_us = Some 1000000, ms_stopped_at_us = None,
       ms_our_participant_id = None, ms_our_class_name = None, ms_identity_state = ''resolved'' \<rparr>,
     ht_latest_tick = None, ht_current_flag = None, ht_statistics = None,
     ht_open_ingest_gap = Some \<lparr> ig_started_at_us = 5, ig_reason = ''connection_lost'', ig_connection_id = None \<rparr>,
     ht_participants = cars,
     ht_class_scopes = [\<lparr> cs_key = ''cn'', cs_display_name = ''CN'', cs_class_best_lap_ms = None,
       cs_class_best_start_number = None, cs_participants = cars \<rparr>] \<rparr>"

definition heat_early :: heat_input where "heat_early = sample_heat [car_21, sample_car ''34'' 5 None]"
definition heat_late :: heat_input where "heat_late = sample_heat [car_21, car_34]"

lemma heat_early_ok: "heat_ok heat_early"
  by code_simp

lemma heat_late_ok: "heat_ok heat_late"
  by code_simp

lemma boundary_cursor_round_trip_witness:
  "deserialize_metric_boundary_state (Some (serialize_metric_boundary_state (build_boundary_state heat_late)))
    = Inr (build_boundary_state heat_late)"
  by (rule boundary_cursor_round_trip[OF heat_late_ok])

lemma pb_diff_build:
  "pb_diff_interval_fact_pointer (participant_boundary_state p) = interval_fact_pointer (source_interval_fact p DIFF)"
  by (simp only: participant_boundary_state_def participant_boundary.select_convs)

lemma car_34_changed:
  "participant_boundary_state car_34 \<notin> participant_boundary_state ` set (ht_participants heat_early)"
proof -
  have "interval_fact_pointer (source_interval_fact car_34 DIFF) \<noteq> None"
    by (simp add: car_34_def sample_car_def source_interval_fact_def sample_fact_def interval_fact_pointer_def Let_def)
  moreover have "interval_fact_pointer (source_interval_fact p DIFF) = None"
    if "p \<in> set (ht_participants heat_early)" for p
    using that by (auto simp: heat_early_def sample_heat_def car_21_def
        sample_car_def source_interval_fact_def interval_fact_pointer_def)
  ultimately show ?thesis unfolding image_iff using pb_diff_build by metis
qed

lemma no_event_iff_nothing_changed_witness:
  "detect_event_boundaries (Some (build_boundary_state heat_early)) heat_late \<noteq> []"
proof -
  have "build_boundary_state heat_early \<noteq> build_boundary_state heat_late"
  proof
    assume "build_boundary_state heat_early = build_boundary_state heat_late"
    then have "participant_boundary_state ` set (ht_participants heat_early) = participant_boundary_state ` set (ht_participants heat_late)"
      by (metis build_participant_set)
    moreover have "car_34 \<in> set (ht_participants heat_late)" by (simp add: heat_late_def sample_heat_def)
    ultimately show False using car_34_changed by blast
  qed
  moreover have "ht_source_heat_id heat_early = ht_source_heat_id heat_late" "ht_class_scopes heat_late \<noteq> [] \<or> ht_class_scopes heat_early = []"
    by (simp_all add: heat_early_def heat_late_def sample_heat_def)
  ultimately show ?thesis using no_event_iff_nothing_changed[OF heat_early_ok heat_late_ok] by blast
qed

lemma participant_event_is_its_own_witness:
  "(''participant'', ''34'') \<in> set (event_scopes (Some (build_boundary_state heat_early)) heat_late) \<and>
   (''participant'', ''21'') \<notin> set (event_scopes (Some (build_boundary_state heat_early)) heat_late)"
proof -
  have h: "ht_source_heat_id heat_early = ht_source_heat_id heat_late"
    by (simp add: heat_early_def heat_late_def sample_heat_def)
  have "participant_boundary_state car_21 \<in> participant_boundary_state ` set (ht_participants heat_early)"
    by (simp add: heat_early_def sample_heat_def)
  moreover have "set (ht_participants heat_late) = {car_21, car_34}" "pt_id car_21 = ''21''" "pt_id car_34 = ''34''"
    by (simp_all add: heat_late_def sample_heat_def car_21_def car_34_def sample_car_def)
  ultimately show ?thesis
    using participant_event_is_its_own[OF heat_early_ok heat_late_ok h] car_34_changed by simp
qed

end
