(* ===== verification/Metric_Laps.thy ===== *)
theory Metric_Laps
  imports Metric_Boundaries Clock
begin

text \<open>
  Values of one car in \<open>server/timing/metric_engine.py\<close>: stints, slow laps, tyre-age trends,
  sectors and the participant document, with the fields of the sparse history. The values of a
  scope are a JSON object; a float is its exact rational number. \<open>json.loads\<close> of the stored
  sectors text is the parameter \<open>loads\<close> (\<open>None\<close>: a decode error).
\<close>

section \<open>Documents\<close>

abbreviation rat_json :: "rat option \<Rightarrow> json" where "rat_json \<equiv> opt_json (\<lambda>q. JNum (PyFloat q))"
abbreviation nat_json :: "nat \<Rightarrow> json" where "nat_json n \<equiv> JInt (int n)"

definition non_empty :: "(string \<times> json) list \<Rightarrow> json" where
  "non_empty d = (if d = [] then JNull else JObj d)"

definition payload_json :: "fact_payload \<Rightarrow> json" where
  "payload_json p = JObj
    [(''id'', JInt (fp_id p)), (''field_kind'', text_json (fp_field_kind p)), (''raw_value'', text_json (fp_raw_value p)),
     (''value_ms'', int_json (fp_value_ms p)), (''value_kind'', text_json (fp_value_kind p)),
     (''cell_observation_id'', int_json (fp_cell_observation_id p)), (''source_message_id'', int_json (fp_source_message_id p)),
     (''source_key'', text_json (fp_source_key p)), (''source_change_ordinal'', int_json (fp_source_change_ordinal p)),
     (''observed_at_us'', int_json (fp_observed_at_us p)), (''source_handle'', text_json (fp_source_handle p)),
     (''observation_kind'', text_json (fp_observation_kind p)),
     (''subject_position_overall'', int_json (fp_subject_position_overall p)),
     (''subject_state_kind'', text_json (fp_subject_state_kind p)), (''subject_laps'', int_json (fp_subject_laps p)),
     (''target_participant_id'', text_json (fp_target_participant_id p)),
     (''target_position_overall'', int_json (fp_target_position_overall p)),
     (''target_state_kind'', text_json (fp_target_state_kind p)), (''target_laps'', int_json (fp_target_laps p)),
     (''relation_kind'', text_json (fp_relation_kind p))]"

section \<open>Stints\<close>

definition in_stint :: "tire_stint_input \<Rightarrow> lap_sample \<Rightarrow> bool" where
  "in_stint s l =
    (\<not> (case lap_completed_at_us l of
          Some c \<Rightarrow> c < ti_started_at_us s
        | None \<Rightarrow> (case ti_started_lap s of
              None \<Rightarrow> False
            | Some first \<Rightarrow> (case lap_number l of None \<Rightarrow> True | Some n \<Rightarrow> n \<le> first))) \<and>
     \<not> (case (ti_ended_at_us s, lap_completed_at_us l) of (Some e, Some c) \<Rightarrow> e \<le> c | _ \<Rightarrow> False) \<and>
     \<not> (case ti_ended_lap s of
          None \<Rightarrow> False
        | Some final \<Rightarrow> (case lap_number l of None \<Rightarrow> True | Some n \<Rightarrow> final < n)))"

definition samples_for_stint :: "lap_sample list \<Rightarrow> tire_stint_input \<Rightarrow> lap_sample list" where
  "samples_for_stint samples s = filter (in_stint s) samples"

definition pace_with_prefix :: "pace_metrics \<Rightarrow> int \<Rightarrow> int \<Rightarrow> pace_metrics" where
  "pace_with_prefix pace observed_prefix clean_prefix =
    (let observed = nat (max 0 observed_prefix) + observed_lap_count pace;
         clean = nat (max 0 clean_prefix) + clean_lap_count pace
     in pace\<lparr> observed_lap_count := observed, clean_lap_count := clean,
          clean_lap_ratio := (if observed \<noteq> 0 then Some (of_nat clean / of_nat observed) else None) \<rparr>)"

definition SLOW_LAP_MAX_CLEAN_LAPS :: int where "SLOW_LAP_MAX_CLEAN_LAPS = 120"

text \<open>The two calls of \<open>calculate_pace_metrics\<close>; neither window makes it raise.\<close>

definition stint_pace :: "lap_sample list \<Rightarrow> pace_metrics" where
  "stint_pace samples = projr (calculate_pace_metrics samples False None)"

definition participant_pace :: "participant_input \<Rightarrow> pace_metrics" where
  "participant_pace p = pace_with_prefix (projr (calculate_pace_metrics (lap_samples p) True (Some SLOW_LAP_MAX_CLEAN_LAPS)))
     (pt_observed_lap_count_prefix p) (pt_clean_lap_count_prefix p)"

definition same_stint :: "tire_stint_input option \<Rightarrow> tire_stint_input \<Rightarrow> bool" where
  "same_stint active s = (case active of
     None \<Rightarrow> False
   | Some a \<Rightarrow> ti_stint_number s = ti_stint_number a \<and> ti_started_at_us s = ti_started_at_us a)"

definition stint_pace_values ::
    "participant_input \<Rightarrow> tire_stint_input \<Rightarrow> lap_sample list \<Rightarrow> pace_metrics \<times> lap_sample list" where
  "stint_pace_values p s all_samples =
    (let samples = samples_for_stint all_samples s; pace = stint_pace samples
     in (if same_stint (active_tire_stint p) s
         then pace_with_prefix pace (pt_active_stint_observed_lap_count_prefix p) (pt_active_stint_clean_lap_count_prefix p)
         else pace, samples))"

section \<open>Slow laps and tyre trends\<close>

definition STINT_TREND_MAX_POINTS :: nat where "STINT_TREND_MAX_POINTS = 60"

fun pair_slopes :: "(int \<times> int) list \<Rightarrow> rat list" where
  "pair_slopes [] = []"
| "pair_slopes ((age, duration) # points) =
    List.map_filter (\<lambda>(a, d). if a - age \<noteq> 0 then Some (of_int (d - duration) / of_int (a - age)) else None) points
      @ pair_slopes points"

definition theil_sen_slope :: "(int \<times> int) list \<Rightarrow> rat option" where
  "theil_sen_slope points = median (pair_slopes (last_n STINT_TREND_MAX_POINTS points))"

record slow_event =
  sl_lap_number :: int
  sl_threshold_ms :: rat
  sl_excess_ms :: rat

text \<open>\<open>int(abs(duration - median))\<close> cuts the fraction off.\<close>

definition cut_mad :: "rat \<Rightarrow> rat list \<Rightarrow> rat option" where
  "cut_mad center prior = median (map (\<lambda>d. of_int \<lfloor>\<bar>d - center\<bar>\<rfloor>) prior)"

definition event_threshold :: "rat list \<Rightarrow> rat option" where
  "event_threshold prior =
    (if length prior \<noteq> 10 then None
     else case median prior of None \<Rightarrow> None | Some center \<Rightarrow>
       map_option (\<lambda>d. center + max 2000 (3 * d)) (cut_mad center prior))"

definition slow_event_at :: "lap_sample list \<Rightarrow> nat \<Rightarrow> slow_event option" where
  "slow_event_at clean index =
    (let lap = clean ! index; prior = map lap_duration (take (min index 10) (drop (index - 10) clean))
     in case lap_number lap of
          None \<Rightarrow> None
        | Some number \<Rightarrow>
           (case event_threshold prior of
              None \<Rightarrow> None
            | Some threshold \<Rightarrow>
                if threshold < lap_duration lap
                then Some \<lparr> sl_lap_number = number, sl_threshold_ms = threshold, sl_excess_ms = lap_duration lap - threshold \<rparr>
                else None))"

definition slow_lap_events :: "lap_sample list \<Rightarrow> slow_event list" where
  "slow_lap_events samples =
    (let clean = last_n (nat (SLOW_LAP_MAX_CLEAN_LAPS + 10)) (filter is_clean_lap samples)
     in List.map_filter (slow_event_at clean) [0 ..< length clean])"

definition slow_event_json :: "slow_event \<Rightarrow> json" where
  "slow_event_json e = JObj [(''lap_number'', JInt (sl_lap_number e)), (''threshold_ms'', JNum (PyFloat (sl_threshold_ms e))),
     (''excess_ms'', JNum (PyFloat (sl_excess_ms e)))]"

definition age_duration_points :: "lap_sample list \<Rightarrow> tire_stint_input \<Rightarrow> (int \<times> int) list" where
  "age_duration_points samples s =
    (case ti_started_lap s of
       None \<Rightarrow> []
     | Some first \<Rightarrow> List.map_filter (\<lambda>l.
         if \<not> is_clean_lap l then None
         else case (lap_number l, lap_duration_ms l) of
             (Some n, Some d) \<Rightarrow> if 0 \<le> n - first then Some (n - first, d) else None
           | _ \<Rightarrow> None) samples)"

definition age_band :: "int \<Rightarrow> (int \<times> int) list \<Rightarrow> rat list" where
  "age_band age points = map (\<lambda>(_, d). of_int d) (filter (\<lambda>(a, _). \<bar>a - age\<bar> \<le> 2) points)"

definition near_tyre_age_pace_delta ::
    "participant_input \<Rightarrow> class_scope option \<Rightarrow> (string \<Rightarrow> lap_sample list) \<Rightarrow> (string \<times> rat option) list option" where
  "near_tyre_age_pace_delta ours scope samples_of =
    (case (scope, active_tire_stint ours) of
       (Some sc, Some ours_stint) \<Rightarrow>
        (let age = ti_completed_laps ours_stint;
             points = (\<lambda>p s. age_duration_points (samples_for_stint (samples_of (pt_id p)) s) s);
             band = age_band age (points ours ours_stint)
         in case median_non_negative band of
              None \<Rightarrow> None
            | Some m \<Rightarrow>
               if length band < 3 then None
               else Some (dict_of (map (\<lambda>c. (pt_id c,
                 case active_tire_stint c of
                   None \<Rightarrow> None
                 | Some s \<Rightarrow>
                    if 2 < \<bar>ti_completed_laps s - age\<bar> then None
                    else let other = age_band age (points c s)
                         in if length other < 3 then None else map_option (\<lambda>x. m - x) (median_non_negative other)))
                 (filter (\<lambda>c. pt_id c \<noteq> pt_id ours) (cs_participants sc)))))
     | _ \<Rightarrow> None)"

section \<open>Stint summaries\<close>

definition clean_durations :: "lap_sample list \<Rightarrow> int list" where
  "clean_durations samples = List.map_filter (\<lambda>l. if is_clean_lap l then lap_duration_ms l else None) samples"

definition least :: "int list \<Rightarrow> int option" where
  "least xs = (if xs = [] then None else Some (Min (set xs)))"

definition stint_end :: "tire_stint_input \<Rightarrow> int \<Rightarrow> int" where
  "stint_end s observed_at_us = (case ti_ended_at_us s of Some e \<Rightarrow> if e = 0 then observed_at_us else e | None \<Rightarrow> observed_at_us)"

text \<open>The checkpoint of a finished stint; the last one of a number wins.\<close>

definition checkpoint_number :: "json_dict \<Rightarrow> int option" where
  "checkpoint_number d = int_at_least 1 (optional_integer (jget ''stint_number'' d))"

definition checkpoint_of :: "participant_input \<Rightarrow> int \<Rightarrow> json_dict option" where
  "checkpoint_of p number = find (\<lambda>d. checkpoint_number d = Some number) (rev (pt_stint_summary_checkpoint p))"

definition stint_summary_of :: "int \<Rightarrow> tire_stint_input \<Rightarrow> pace_metrics \<times> lap_sample list \<Rightarrow> json_dict" where
  "stint_summary_of observed_at_us s ps =
    [(''stint_number'', JInt (ti_stint_number s)), (''completed_laps'', JInt (ti_completed_laps s)),
     (''elapsed_s'', rat_json (elapsed_s (stint_end s observed_at_us) (Some (ti_started_at_us s)))),
     (''pace_5_ms'', rat_json (pace5_ms (fst ps))), (''best_lap_ms'', int_json (least (clean_durations (snd ps)))),
     (''consistency_10_ms'', rat_json (consistency10_ms (fst ps)))]"

definition stint_summary ::
    "participant_input \<Rightarrow> int \<Rightarrow> tire_stint_input \<Rightarrow> pace_metrics \<times> lap_sample list \<Rightarrow> lap_sample list \<Rightarrow> json_dict list" where
  "stint_summary p observed_at_us active active_values all_samples =
    map (\<lambda>s.
      if s = active then stint_summary_of observed_at_us s active_values
      else (case checkpoint_of p (ti_stint_number s) of
          Some cached \<Rightarrow>
            AList.update ''elapsed_s'' (rat_json (elapsed_s (stint_end s observed_at_us) (Some (ti_started_at_us s))))
              (AList.update ''completed_laps'' (JInt (ti_completed_laps s)) cached)
        | None \<Rightarrow> stint_summary_of observed_at_us s (stint_pace_values p s all_samples)))
      (pt_tire_stints p)"


definition number_of :: "json \<Rightarrow> rat option" where
  "number_of j = (case j of JNum n \<Rightarrow> finite_value n | _ \<Rightarrow> None)"

text \<open>Pace of the stint before: from its checkpoint (the document this module wrote), or from its laps.\<close>

definition previous_stint_pace :: "participant_input \<Rightarrow> tire_stint_input \<Rightarrow> lap_sample list \<Rightarrow> rat option" where
  "previous_stint_pace p s all_samples =
    (let prior = filter (\<lambda>c. ti_stint_number c < ti_stint_number s \<and> ti_ended_at_us c \<noteq> None) (pt_tire_stints p)
     in if prior = [] then None
        else (case find (\<lambda>d. optional_integer (jget ''stint_number'' d) = Some (ti_stint_number (last prior))) (pt_stint_summary_checkpoint p) of
            Some summary \<Rightarrow> number_of (jget ''pace_5_ms'' summary)
          | None \<Rightarrow> pace5_ms (fst (stint_pace_values p (last prior) all_samples))))"

definition abrupt_deterioration :: "slow_event list \<Rightarrow> json" where
  "abrupt_deterioration events =
    (if 2 \<le> length events
     then let a = events ! (length events - 2); b = last events
          in if sl_lap_number b = sl_lap_number a + 1
             then JObj [(''laps'', JList [slow_event_json a, slow_event_json b])] else JNull
     else JNull)"

definition stint_trend :: "(int \<times> int) list \<Rightarrow> rat option" where
  "stint_trend points = (if 6 \<le> card (set (map fst points)) then theil_sen_slope points else None)"

definition sub_json :: "rat option \<Rightarrow> rat option \<Rightarrow> json" where
  "sub_json a b = (case (a, b) of (Some x, Some y) \<Rightarrow> JNum (PyFloat (x - y)) | _ \<Rightarrow> JNull)"

definition active_stint_values :: "participant_input \<Rightarrow> int \<Rightarrow> lap_sample list \<Rightarrow> json_dict" where
  "active_stint_values p observed_at_us all_samples =
    (case active_tire_stint p of
       None \<Rightarrow> map (\<lambda>k. (k, JNull))
         [''stint_number'', ''stint_started_at_us'', ''stint_elapsed_s'', ''tyre_age_laps'', ''stint_pace_5_ms'',
          ''stint_best_lap_ms'', ''stint_consistency_10_ms'', ''stint_trend_ms_per_lap'', ''stint_cumulative_pace_change_ms'',
          ''stint_pace_delta_previous_ms'', ''stint_abrupt_deterioration'', ''stint_clean_lap_count'',
          ''clean_lap_ratio_current_stint'', ''stint_summary'']
     | Some s \<Rightarrow>
        (let (pace, samples) = stint_pace_values p s all_samples;
             durations = clean_durations samples @
               (case duration_ms_of (pt_active_stint_best_lap_ms_checkpoint p) of Some b \<Rightarrow> [b] | None \<Rightarrow> []);
             points = age_duration_points samples s;
             trend = stint_trend points;
             minimum_age = least (map fst points)
         in [(''stint_number'', JInt (ti_stint_number s)),
             (''stint_started_at_us'', JInt (ti_started_at_us s)),
             (''stint_elapsed_s'', rat_json (elapsed_s observed_at_us (Some (ti_started_at_us s)))),
             (''tyre_age_laps'', JInt (ti_completed_laps s)),
             (''stint_pace_5_ms'', rat_json (pace5_ms pace)),
             (''stint_best_lap_ms'', int_json (least durations)),
             (''stint_consistency_10_ms'', rat_json (consistency10_ms pace)),
             (''stint_trend_ms_per_lap'', rat_json trend),
             (''stint_cumulative_pace_change_ms'', case (trend, minimum_age) of
                (Some t, Some a) \<Rightarrow> JNum (PyFloat (t * of_int (ti_completed_laps s - a))) | _ \<Rightarrow> JNull),
             (''stint_pace_delta_previous_ms'', sub_json (pace5_ms pace) (previous_stint_pace p s all_samples)),
             (''stint_abrupt_deterioration'', abrupt_deterioration (slow_lap_events samples)),
             (''stint_clean_lap_count'', nat_json (clean_lap_count pace)),
             (''clean_lap_ratio_current_stint'', rat_json (clean_lap_ratio pace)),
             (''stint_summary'', JList (map JObj (stint_summary p observed_at_us s (pace, samples) all_samples)))]))"

section \<open>Sectors\<close>

text \<open>\<open>int(text)\<close> raises for a digit \<open>str.isdigit\<close> accepts and \<open>int\<close> does not.\<close>

definition sector_duration_ms :: "json \<Rightarrow> value_error + int option" where
  "sector_duration_ms v =
    (let bounded = (\<lambda>raw. if 1000000 \<le> raw \<and> raw < OPEN_ENDED_TS_TIME then Some (raw div 1000) else None)
     in case v of
          JNum (PyInt raw) \<Rightarrow> Inr (bounded raw)
        | JStr s \<Rightarrow>
            if strip s \<noteq> [] \<and> list_all is_py_digit (strip s)
            then (case int_of_isdigit (strip s) of Inl e \<Rightarrow> Inl e | Inr raw \<Rightarrow> Inr (bounded raw))
            else Inr None
        | _ \<Rightarrow> Inr None)"

fun collect_sectors :: "(string \<times> json) list \<Rightarrow> value_error + (string \<times> int) list" where
  "collect_sectors [] = Inr []"
| "collect_sectors ((k, v) # d) =
    (if take 7 k \<noteq> ''sector_'' then collect_sectors d
     else case sector_duration_ms v of
         Inl e \<Rightarrow> Inl e
       | Inr r \<Rightarrow>
          (case collect_sectors d of Inl e \<Rightarrow> Inl e
           | Inr rest \<Rightarrow> Inr (case r of None \<Rightarrow> rest | Some x \<Rightarrow> (k, x) # rest)))"

definition sector_map :: "(string \<Rightarrow> json option) \<Rightarrow> string option \<Rightarrow> value_error + (string \<times> int) list" where
  "sector_map loads raw_json = (case raw_json of
     None \<Rightarrow> Inr []
   | Some s \<Rightarrow> if s = [] then Inr []
       else (case loads s of
            Some (JObj d) \<Rightarrow> (case collect_sectors d of Inl e \<Rightarrow> Inl e | Inr r \<Rightarrow> Inr (dict_of r))
          | _ \<Rightarrow> Inr []))"

fun collect_maps ::
    "(string \<Rightarrow> json option) \<Rightarrow> lap_input list \<Rightarrow> value_error + (string \<times> int) list list" where
  "collect_maps loads [] = Inr []"
| "collect_maps loads (l # ls) =
    (case sector_map loads (li_sectors_json l) of Inl e \<Rightarrow> Inl e | Inr x \<Rightarrow>
      (case collect_maps loads ls of Inl e \<Rightarrow> Inl e | Inr xs \<Rightarrow> Inr (x # xs)))"

record sector_values =
  sv_last :: "(string \<times> int) list"
  sv_personal :: "(string \<times> int) list"

definition personal_best_sectors :: "(string \<times> int) list \<Rightarrow> (string \<times> int) list list \<Rightarrow> (string \<times> int) list" where
  "personal_best_sectors checkpoint maps =
    (let keys = sort (remdups (map fst checkpoint @ concat (map (map fst) maps)))
     in map (\<lambda>k. (k, Min (set (List.map_filter (\<lambda>d. map_of d k) (maps @ [checkpoint]))))) keys)"

definition participant_sector_values :: "(string \<Rightarrow> json option) \<Rightarrow> participant_input \<Rightarrow> value_error + sector_values" where
  "participant_sector_values loads p =
    (case collect_maps loads (pt_laps p) of Inl e \<Rightarrow> Inl e | Inr maps \<Rightarrow>
      (let confirmed = filter (\<lambda>d. d \<noteq> []) maps
       in Inr \<lparr> sv_last = (if confirmed \<noteq> [] then last confirmed else dict_of (pt_last_sector_ms_checkpoint p)),
                sv_personal = personal_best_sectors (dict_of (pt_personal_best_sector_ms_checkpoint p)) maps \<rparr>))"

abbreviation sectors_json :: "(string \<times> int) list \<Rightarrow> json" where
  "sectors_json d \<equiv> non_empty (map (\<lambda>(k, v). (k, JInt v)) d)"

definition sector_values_json :: "sector_values \<Rightarrow> json_dict" where
  "sector_values_json v = [(''last_sector_ms'', sectors_json (sv_last v)), (''personal_best_sector_ms'', sectors_json (sv_personal v))]"

text \<open>The first greatest loss, as \<open>max\<close> finds it.\<close>

fun first_max :: "(string \<times> int) list \<Rightarrow> (string \<times> int) option" where
  "first_max [] = None"
| "first_max (x # xs) = (case first_max xs of None \<Rightarrow> Some x | Some y \<Rightarrow> if snd x < snd y then Some y else Some x)"

definition sector_metrics :: "participant_input \<Rightarrow> class_scope option \<Rightarrow> (string \<Rightarrow> sector_values) \<Rightarrow> json_dict" where
  "sector_metrics ours scope values_of =
    (let mine = values_of (pt_id ours); ours_best = sv_personal mine in
     case scope of
       None \<Rightarrow>
         [(''last_sector_ms'', sectors_json (sv_last mine)), (''personal_best_sector_ms'', sectors_json ours_best),
          (''class_best_sector_ms'', JNull), (''ideal_lap_ms'', JNull), (''potential_to_best_ms'', JNull),
          (''sector_delta_to_competitor_ms'', JNull), (''largest_sector_loss'', JNull)]
     | Some sc \<Rightarrow>
        (let best = dict_of (map (\<lambda>q. (pt_id q, sv_personal (values_of (pt_id q)))) (cs_participants sc));
             keys = sort (remdups (concat (map (map fst \<circ> snd) best)));
             class_best = map (\<lambda>k. (k, Min (set (List.map_filter (\<lambda>d. map_of (snd d) k) best)))) keys;
             ideal = (if keys \<noteq> [] \<and> list_all (\<lambda>k. map_of ours_best k \<noteq> None) keys
                      then Some (sum_list (map (\<lambda>k. the (map_of ours_best k)) keys)) else None);
             potential = (case (best_lap_ms ours, ideal) of (Some b, Some i) \<Rightarrow> if i \<le> b then Some (b - i) else None | _ \<Rightarrow> None);
             others = filter (\<lambda>(i, _). i \<noteq> pt_id ours) best;
             delta = (\<lambda>d. List.map_filter (\<lambda>k. case (map_of ours_best k, map_of d k) of
                (Some a, Some b) \<Rightarrow> Some (k, a - b) | _ \<Rightarrow> None) keys);
             loss = (\<lambda>i d. case first_max (filter (\<lambda>(_, v). 0 < v) (delta d)) of
                None \<Rightarrow> JNull
              | Some (k, v) \<Rightarrow> JObj [(''sector_index'', JStr k), (''delta_ms'', JInt v), (''competitor_id'', JStr i)])
         in [(''last_sector_ms'', sectors_json (sv_last mine)), (''personal_best_sector_ms'', sectors_json ours_best),
             (''class_best_sector_ms'', sectors_json class_best), (''ideal_lap_ms'', int_json ideal),
             (''potential_to_best_ms'', int_json potential),
             (''sector_delta_to_competitor_ms'', non_empty (map (\<lambda>(i, d). (i, sectors_json (delta d))) others)),
             (''largest_sector_loss'', non_empty (map (\<lambda>(i, d). (i, loss i d)) others))]))"

section \<open>The participant document\<close>

definition p10_p90_values :: "pace_metrics \<Rightarrow> lap_sample list \<Rightarrow> json_dict" where
  "p10_p90_values pace samples =
    (let durations = last_n 10 (map lap_duration (filter is_clean_lap samples))
     in if length durations \<noteq> 10
        then [(''p10_ms'', JNull), (''p90_ms'', JNull), (''spread_ms'', JNull)]
        else let ordered = sort durations
             in [(''p10_ms'', JNum (PyFloat (ordered ! 0))), (''p90_ms'', JNum (PyFloat (ordered ! 8))),
                 (''spread_ms'', rat_json (p10_p90_range_ms pace))])"

definition p10_p90_field :: "pace_metrics \<Rightarrow> lap_sample list \<Rightarrow> json_dict" where
  "p10_p90_field pace samples =
    (if p10_p90_range_ms pace = None
     then [(''p10_ms'', JNull), (''p90_ms'', JNull), (''spread_ms'', JNull)]
     else p10_p90_values pace samples)"

definition pit_record_json :: "pit_record \<Rightarrow> json" where
  "pit_record_json r = JObj [(''stop_number'', int_json (pr_stop_number r)), (''pit_in_at_us'', int_json (pr_pit_in_at_us r)),
     (''pit_out_at_us'', int_json (pr_pit_out_at_us r)), (''pit_in_lap'', int_json (pr_pit_in_lap r)),
     (''pit_out_lap'', int_json (pr_pit_out_lap r)), (''pit_lane_duration_ms'', int_json (pr_pit_lane_duration_ms r))]"

definition last_to_best_delta :: "participant_input \<Rightarrow> int option" where
  "last_to_best_delta p = (case (last_lap_ms p, best_lap_ms p) of
     (Some l, Some b) \<Rightarrow> if b \<le> l then Some (l - b) else None | _ \<Rightarrow> None)"

definition participant_values ::
    "participant_input \<Rightarrow> int \<Rightarrow> pace_metrics \<Rightarrow> lap_sample list \<Rightarrow> sector_values \<Rightarrow> json_dict" where
  "participant_values p observed_at_us pace samples sectors =
    (let state = pt_state p; durations = pit_durations p; slow = slow_lap_events samples in
     [(''participant_id'', JStr (pt_id p)), (''start_number'', text_json (pt_start_number p)),
      (''team_name'', text_json (pt_team_name p)), (''car_name'', text_json (pt_car_name p)),
      (''class_name'', text_json (pt_class_name p)), (''class_key'', text_json (pt_class_key p)),
      (''is_ours'', JBool (pt_is_ours p)), (''active'', JBool (pt_active p)),
      (''current_driver_name'', text_json (Option.bind state ps_current_driver_name)),
      (''position_overall'', int_json (Option.bind state (\<lambda>s. rank_of (ps_position_overall s)))),
      (''position_class'', int_json (Option.bind state (\<lambda>s. rank_of (ps_position_class s)))),
      (''completed_laps'', int_json (source_lap_count p)),
      (''current_state'', text_json (Option.bind state ps_state_kind)),
      (''last_lap_ms'', int_json (last_lap_ms p)), (''best_lap_ms'', int_json (best_lap_ms p)),
      (''last_to_best_delta_ms'', int_json (last_to_best_delta p)),
      (''source_gap_ms'', int_json (Option.bind state (\<lambda>s. source_time_ms (ps_gap_ms s) (ps_gap_kind s)))),
      (''source_diff_ms'', int_json (Option.bind state (\<lambda>s. source_time_ms (ps_diff_ms s) (ps_diff_kind s)))),
      (''source_gap_fact'', opt_json (payload_json \<circ> source_fact_payload) (Option.bind state ps_gap_interval_fact)),
      (''source_diff_fact'', opt_json (payload_json \<circ> source_fact_payload) (Option.bind state ps_diff_interval_fact)),
      (''pace_3_ms'', rat_json (pace3_ms pace)), (''pace_5_ms'', rat_json (pace5_ms pace)),
      (''pace_10_ms'', rat_json (pace10_ms pace)), (''consistency_10_ms'', rat_json (consistency10_ms pace)),
      (''clean_lap_p10_p90_ms'', JObj (p10_p90_field pace samples)),
      (''clean_lap_count'', nat_json (clean_lap_count pace)), (''observed_lap_count'', nat_json (observed_lap_count pace)),
      (''clean_lap_ratio'', rat_json (clean_lap_ratio pace)),
      (''slow_lap_numbers'', opt_json (\<lambda>ns. JList (map JInt ns)) (slow_lap_numbers pace)),
      (''slow_lap_anomaly'', if slow = [] then JNull else slow_event_json (last slow))]
     @ sector_values_json sectors @ active_stint_values p observed_at_us samples @
     [(''pits_completed'', if pt_tire_stints p \<noteq> [] \<or> state \<noteq> None then nat_json (length (completed_pits p)) else JNull),
      (''pit_history'', JList (map pit_record_json (pit_history p))),
      (''total_pit_lane_time_ms'', if durations = [] then JNull else JInt (sum_list durations)),
      (''median_pit_lane_time_ms'', rat_json (median_non_negative (map of_int durations)))])"

section \<open>Fields of the sparse history\<close>

definition SESSION_HISTORY_KEYS :: "string list" where
  "SESSION_HISTORY_KEYS = [''metric_version'', ''channel_status'', ''track_flag'', ''track_flag_provider_code'',
     ''flag_phase_started_at_us'', ''session_elapsed_s'', ''session_remaining_s'', ''position_overall'', ''position_class'',
     ''completed_laps'', ''current_state'', ''class_leader_id'', ''class_ahead_id'', ''class_behind_id'',
     ''lap_delta_to_class_leader'', ''lap_delta_to_ahead'', ''lap_delta_to_behind'', ''class_ahead_completed_laps'',
     ''class_behind_completed_laps'', ''class_ahead_state'', ''class_behind_state'', ''gap_to_class_leader_ms'',
     ''gap_to_ahead_ms'', ''gap_to_behind_ms'', ''relation_intervals'', ''pace_3_ms'', ''pace_5_ms'', ''pace_10_ms'',
     ''consistency_10_ms'', ''class_pace_5_ms'', ''pace_rank_class'', ''position_change'', ''track_evolution_class_ms'',
     ''tyre_age_laps'', ''pits_completed'', ''pits_required'', ''pits_remaining'', ''session_remaining_s'',
     ''next_equal_pit_in_s'', ''stint_schedule_deviation_s'', ''closure_ahead'', ''closure_behind'', ''projected_gap_ms'']"

definition CLASS_HISTORY_KEYS :: "string list" where
  "CLASS_HISTORY_KEYS = [''class_key'', ''class_best_lap_ms'', ''class_pace_5_ms'', ''class_leader_id'',
     ''class_order_basis'', ''total_completed_pits'', ''median_pit_lane_time_ms'']"

definition PARTICIPANT_HISTORY_KEYS :: "string list" where
  "PARTICIPANT_HISTORY_KEYS = [''participant_id'', ''position_overall'', ''position_class'', ''completed_laps'',
     ''current_state'', ''last_lap_ms'', ''best_lap_ms'', ''last_to_best_delta_ms'', ''source_gap_ms'', ''source_diff_ms'',
     ''pace_3_ms'', ''pace_5_ms'', ''pace_10_ms'', ''consistency_10_ms'', ''clean_lap_count'', ''observed_lap_count'',
     ''clean_lap_ratio'', ''stint_number'', ''stint_started_at_us'', ''stint_elapsed_s'', ''tyre_age_laps'',
     ''stint_pace_5_ms'', ''stint_best_lap_ms'', ''stint_consistency_10_ms'', ''stint_trend_ms_per_lap'',
     ''stint_cumulative_pace_change_ms'', ''stint_pace_delta_previous_ms'', ''stint_abrupt_deterioration'',
     ''stint_clean_lap_count'', ''clean_lap_ratio_current_stint'', ''pits_completed'', ''total_pit_lane_time_ms'',
     ''median_pit_lane_time_ms'']"

definition history_values :: "string list \<Rightarrow> json_dict \<Rightarrow> json_dict" where
  "history_values keys values =
    dict_of (List.map_filter (\<lambda>k. if jget k values = JNull then None else Some (k, jget k values)) keys)"

section \<open>Order statistics\<close>

lemma sorted_filter_le: "sorted ys \<Longrightarrow> k < length (filter (\<lambda>x. x \<le> t) ys) \<longleftrightarrow> k < length ys \<and> ys ! k \<le> (t :: 'a :: linorder)"
proof (induction ys arbitrary: k)
  case (Cons y ys)
  show ?case
  proof (cases "y \<le> t")
    case True
    then show ?thesis using Cons by (cases k) auto
  next
    case False
    then have "filter (\<lambda>x. x \<le> t) ys = []" using Cons.prems by (auto simp: filter_empty_conv)
    moreover have "\<not> (y # ys) ! k \<le> t" if "k < length (y # ys)"
      using that False Cons.prems nth_mem[of k "y # ys"] by fastforce
    ultimately show ?thesis using False by auto
  qed
qed simp

lemma sort_nth_le: "k < length xs \<Longrightarrow> sort xs ! k \<le> t \<longleftrightarrow> k < length (filter (\<lambda>x. x \<le> (t :: 'a :: linorder)) xs)"
  using sorted_filter_le[of "sort xs" k t] by (simp add: filter_sort)

lemma sort_nth_mono:
  assumes "list_all2 (\<le>) xs ys" "k < length xs"
  shows "sort xs ! k \<le> sort ys ! k"
proof -
  have len: "length xs = length ys" using assms(1) by (rule list_all2_lengthD)
  have "length (filter (\<lambda>x. x \<le> t) ys) \<le> length (filter (\<lambda>x. x \<le> t) xs)" for t
    using assms(1) by (induction rule: list_all2_induct) auto
  moreover have "k < length (filter (\<lambda>x. x \<le> sort ys ! k) ys)"
    using sort_nth_le[of k ys "sort ys ! k"] assms(2) len by simp
  ultimately have "k < length (filter (\<lambda>x. x \<le> sort ys ! k) xs)" using le_less_trans less_le_trans by blast
  then show ?thesis using sort_nth_le[OF assms(2)] by blast
qed

lemma median_mono:
  assumes "list_all2 (\<le>) xs ys" "median xs = Some a" "median ys = Some b"
  shows "a \<le> b"
proof -
  have len: "length xs = length ys" using assms(1) by (rule list_all2_lengthD)
  have n: "xs \<noteq> []" "ys \<noteq> []" using assms(2,3) by (auto simp: median_def split: if_splits)
  let ?m = "length ys div 2"
  have m: "?m < length xs" "?m - 1 < length xs" using n len by (cases ys; simp)+
  have "sort xs ! ?m \<le> sort ys ! ?m" "sort xs ! (?m - 1) \<le> sort ys ! (?m - 1)"
    using sort_nth_mono[OF assms(1)] m by blast+
  then show ?thesis using assms(2,3) n len by (auto simp: median_def Let_def split: if_splits)
qed

lemma median_some: "xs \<noteq> [] \<Longrightarrow> \<exists>m. median xs = Some m"
  by (metis median_empty_iff not_None_eq)

lemma median_const: "xs \<noteq> [] \<Longrightarrow> \<forall>x \<in> set xs. x = c \<Longrightarrow> median xs = Some c"
proof -
  assume n: "xs \<noteq> []" and c: "\<forall>x \<in> set xs. x = c"
  have "k < length xs \<Longrightarrow> sort xs ! k = c" for k using c by (metis length_sort nth_mem set_sort)
  moreover have "length xs div 2 < length xs" "length xs div 2 - 1 < length xs" using n by (cases xs; simp)+
  ultimately show "median xs = Some c" using n by (simp add: median_def Let_def)
qed

section \<open>The two slow-lap detectors\<close>

lemma mad_ms_positive: "\<forall>d \<in> set prior. 0 < d \<Longrightarrow> mad_ms (map (\<lambda>d. Some (PyFloat d)) prior) = mad prior"
proof -
  assume "\<forall>d \<in> set prior. 0 < d"
  then have "List.map_filter positive_number (map (\<lambda>d. Some (PyFloat d)) prior) = prior"
    by (induction prior) (auto simp: map_filter_simps positive_number_def)
  then show ?thesis by (simp add: mad_ms_def)
qed

lemma event_threshold_below:
  assumes "\<forall>d \<in> set prior. 0 < d" "length prior = 10" "slow_threshold prior = Some t"
  obtains t' where "event_threshold prior = Some t'" "t' \<le> t"
proof -
  have n: "prior \<noteq> []" using assms(2) by auto
  obtain c m where c: "median prior = Some c" and m: "mad prior = Some m" and t: "t = c + max 2000 (3 * m)"
    using assms by (auto simp: slow_threshold_def mad_ms_positive split: option.splits)
  obtain m' where m': "cut_mad c prior = Some m'" using median_some n by (auto simp: cut_mad_def)
  have "m' \<le> m"
  proof (rule median_mono)
    show "list_all2 (\<le>) (map (\<lambda>d. of_int \<lfloor>\<bar>d - c\<bar>\<rfloor>) prior) (map (\<lambda>d. \<bar>d - c\<bar>) prior)"
      by (simp add: list_all2_conv_all_nth)
  qed (use m' m c in \<open>simp_all add: cut_mad_def mad_def\<close>)
  then show thesis using that[of "c + max 2000 (3 * m')"] assms(2) c m' t
    by (simp add: event_threshold_def median_non_negative_is_median)
qed

lemma clean_positive: "is_clean_lap l \<Longrightarrow> 0 < lap_duration l"
  using clean_duration[of l] by auto

lemma slow_event_drop:
  assumes "10 \<le> j" "k + j < length clean"
  shows "slow_event_at (drop k clean) j = slow_event_at clean (k + j)"
  using assms by (simp add: slow_event_at_def Let_def add.commute)

lemma slow_lap_has_event:
  assumes clean: "\<forall>l \<in> set clean. is_clean_lap l" and i: "10 \<le> i" "i < length clean" and s: "slow_lap_at clean i = Some n"
  obtains e where "slow_event_at clean i = Some e" "sl_lap_number e = n"
proof -
  let ?prior = "map lap_duration (take 10 (drop (i - 10) clean))"
  obtain t where n: "lap_number (clean ! i) = Some n" and t: "slow_threshold ?prior = Some t" "t < lap_duration (clean ! i)"
    using s by (auto simp: slow_lap_at_def Let_def split: option.splits if_splits)
  have "\<forall>d \<in> set ?prior. 0 < d" using clean clean_positive by (auto dest!: in_set_takeD in_set_dropD)
  moreover have "length ?prior = 10" using i by simp
  ultimately obtain t' where t': "event_threshold ?prior = Some t'" "t' \<le> t" using event_threshold_below t(1) by blast
  have "min i 10 = 10" using i by simp
  then show thesis using that[of "\<lparr> sl_lap_number = n, sl_threshold_ms = t', sl_excess_ms = lap_duration (clean ! i) - t' \<rparr>"]
    n t(2) t' by (simp add: slow_event_at_def Let_def)
qed

text \<open>safety. The list of slow laps and the slow-lap anomaly of a car are computed by two separate
  detectors. Every lap in the list is also an event of the anomaly detector, so the anomaly shown is
  never missing while the list has an entry.\<close>
theorem listed_slow_laps_are_events:
  assumes "calculate_pace_metrics samples True (Some SLOW_LAP_MAX_CLEAN_LAPS) = Inr pace"
    and "slow_lap_numbers pace = Some numbers" "n \<in> set numbers"
  shows "\<exists>e \<in> set (slow_lap_events samples). sl_lap_number e = n"
proof -
  define clean where "clean = filter is_clean_lap samples"
  define k where "k = length clean - 130"
  have numbers: "numbers = slow_laps clean (Some 120)"
    using assms(1,2) by (auto simp: calculate_pace_metrics_def Let_def clean_def select_clean_laps_def
        SLOW_LAP_MAX_CLEAN_LAPS_def split: if_splits)
  obtain i where i: "max 10 (length clean - 120) \<le> i" "i < length clean" "slow_lap_at clean i = Some n"
    using assms(3) unfolding numbers slow_laps_def Let_def option.case by (auto simp: map_filter_def)
  have "\<forall>l \<in> set clean. is_clean_lap l" by (simp add: clean_def)
  then obtain e where e: "slow_event_at clean i = Some e" "sl_lap_number e = n"
    using slow_lap_has_event[of clean i n] i by auto
  have j: "10 \<le> i - k" "k + (i - k) = i" using i by (auto simp: k_def)
  have "slow_event_at (drop k clean) (i - k) = Some e" using slow_event_drop[OF j(1), of k clean] j i e by simp
  moreover have "i - k \<in> set [0 ..< length (drop k clean)]" using i j by auto
  moreover have "slow_lap_events samples = List.map_filter (slow_event_at (drop k clean)) [0 ..< length (drop k clean)]"
    by (simp add: slow_lap_events_def last_n_def clean_def k_def SLOW_LAP_MAX_CLEAN_LAPS_def)
  ultimately have "e \<in> set (slow_lap_events samples)" by (force simp: map_filter_def)
  then show ?thesis using e by blast
qed


section \<open>Bounded history of sectors\<close>

lemma sort_remdups_cong: "set xs = set ys \<Longrightarrow> sort (remdups xs) = sort (remdups (ys :: 'a :: linorder list))"
  by (rule sorted_distinct_set_unique) simp_all

definition sector_times :: "string \<Rightarrow> (string \<times> int) list list \<Rightarrow> int set" where
  "sector_times k maps = {v. \<exists>d \<in> set maps. map_of d k = Some v}"

lemma sector_times_set: "set (List.map_filter (\<lambda>d. map_of d k) maps) = sector_times k maps"
  by (induction maps) (auto simp: map_filter_simps sector_times_def split: option.splits)

lemma sector_times_append [simp]: "sector_times k (a @ b) = sector_times k a \<union> sector_times k b"
  by (auto simp: sector_times_def)

lemma sector_times_finite [simp]: "finite (sector_times k maps)"
  by (subst sector_times_set[symmetric]) simp

lemma sector_times_empty: "sector_times k maps = {} \<longleftrightarrow> k \<notin> set (concat (map (map fst) maps))"
proof -
  have "(\<exists>v. map_of d k = Some v) \<longleftrightarrow> k \<in> fst ` set d" for d :: "(string \<times> int) list"
    by (metis map_of_eq_None_iff not_None_eq)
  then show ?thesis by (auto simp: sector_times_def)
qed

definition sector_keys :: "(string \<times> int) list \<Rightarrow> (string \<times> int) list list \<Rightarrow> string list" where
  "sector_keys checkpoint maps = sort (remdups (map fst checkpoint @ concat (map (map fst) maps)))"

lemma personal_best_sectors_eq:
  "personal_best_sectors c maps = map (\<lambda>k. (k, Min (sector_times k (maps @ [c])))) (sector_keys c maps)"
  by (simp add: personal_best_sectors_def sector_keys_def Let_def sector_times_set)

lemma sector_keys_set: "set (sector_keys c maps) = {k. sector_times k (maps @ [c]) \<noteq> {}}"
  unfolding sector_keys_def by (auto simp: sector_times_empty)

lemma personal_best_lookup:
  "sector_times k [personal_best_sectors c maps] = (if sector_times k (maps @ [c]) = {} then {} else {Min (sector_times k (maps @ [c]))})"
proof -
  have "map_of (map (\<lambda>k. (k, f k)) ks) k = (if k \<in> set ks then Some (f k) else None)" for f :: "string \<Rightarrow> int" and ks
    by (induction ks) auto
  then show ?thesis
    unfolding personal_best_sectors_eq sector_times_def[of k "[_]"] by (simp add: sector_keys_set)
qed

lemma personal_best_resumes:
  "personal_best_sectors (personal_best_sectors c old) new = personal_best_sectors c (old @ new)"
proof -
  define T where "T = (\<lambda>k. sector_times k (old @ [c]))"
  have split: "sector_times k (new @ [personal_best_sectors c old]) = sector_times k new \<union> (if T k = {} then {} else {Min (T k)})" for k
    by (simp add: personal_best_lookup T_def del: sector_times_append) (simp add: personal_best_lookup T_def)
  have all: "sector_times k ((old @ new) @ [c]) = sector_times k new \<union> T k" for k
    by (auto simp: T_def)
  have fin: "finite (T k)" for k by (simp add: T_def)
  have empty: "sector_times k (new @ [personal_best_sectors c old]) = {} \<longleftrightarrow> sector_times k ((old @ new) @ [c]) = {}" for k
    unfolding split all by auto
  have min: "Min (sector_times k (new @ [personal_best_sectors c old])) = Min (sector_times k ((old @ new) @ [c]))"
    if "sector_times k ((old @ new) @ [c]) \<noteq> {}" for k
  proof (cases "T k = {}")
    case True
    then show ?thesis unfolding split all by simp
  next
    case False
    have "Min (sector_times k new \<union> {Min (T k)}) = Min (sector_times k new \<union> T k)"
    proof (cases "sector_times k new = {}")
      case True
      then show ?thesis by simp
    next
      case n: False
      then show ?thesis using False fin Min_Un[of "sector_times k new" "T k"] Min_Un[of "sector_times k new" "{Min (T k)}"] by simp
    qed
    then show ?thesis unfolding split all using False by simp
  qed
  have "set (sector_keys (personal_best_sectors c old) new) = set (sector_keys c (old @ new))"
    unfolding sector_keys_set using empty by blast
  then have keys: "sector_keys (personal_best_sectors c old) new = sector_keys c (old @ new)"
    by (intro sorted_distinct_set_unique) (simp_all only: sector_keys_def sorted_sort distinct_sort distinct_remdups)
  have "\<forall>k \<in> set (sector_keys c (old @ new)). sector_times k ((old @ new) @ [c]) \<noteq> {}" by (simp add: sector_keys_set)
  then show ?thesis
    unfolding personal_best_sectors_eq[of "personal_best_sectors c old" new] personal_best_sectors_eq[of c "old @ new"] keys
    using min by simp
qed


lemma collect_maps_append:
  "collect_maps loads (a @ b) =
    (case collect_maps loads a of Inl e \<Rightarrow> Inl e | Inr x \<Rightarrow>
      (case collect_maps loads b of Inl e \<Rightarrow> Inl e | Inr y \<Rightarrow> Inr (x @ y)))"
  by (induction a) (auto split: sum.splits)

lemma collect_maps_distinct: "collect_maps loads ls = Inr maps \<Longrightarrow> d \<in> set maps \<Longrightarrow> distinct (map fst d)"
proof (induction ls arbitrary: maps)
  case (Cons l ls)
  have "distinct (map fst x)" if "sector_map loads r = Inr x" for r x
    using that by (auto simp: sector_map_def split: option.splits if_splits json.splits sum.splits)
  then show ?case using Cons by (auto split: sum.splits)
qed simp

lemma personal_best_distinct: "distinct (map fst (personal_best_sectors c maps))"
  by (simp add: personal_best_sectors_def Let_def comp_def)

text \<open>equivalence. The sector bests and the last sectors of a car may be computed from a bounded
  tail of its laps: storing the values of the older laps as checkpoint and reading only the newer
  laps gives what all laps give (and the same error, when a newer text raises one).\<close>
theorem sector_checkpoint_resumes:
  assumes "participant_sector_values loads (p\<lparr> pt_laps := old \<rparr>) = Inr v"
  shows "participant_sector_values loads (p\<lparr> pt_laps := new, pt_last_sector_ms_checkpoint := sv_last v,
      pt_personal_best_sector_ms_checkpoint := sv_personal v \<rparr>)
    = participant_sector_values loads (p\<lparr> pt_laps := old @ new \<rparr>)"
proof -
  obtain maps where maps: "collect_maps loads old = Inr maps" using assms
    by (auto simp: participant_sector_values_def split: sum.splits)
  define checkpoint where "checkpoint = dict_of (pt_personal_best_sector_ms_checkpoint p)"
  have v: "sv_personal v = personal_best_sectors checkpoint maps"
      "sv_last v = (if filter (\<lambda>d. d \<noteq> []) maps \<noteq> [] then last (filter (\<lambda>d. d \<noteq> []) maps) else dict_of (pt_last_sector_ms_checkpoint p))"
    using assms maps by (auto simp: participant_sector_values_def Let_def checkpoint_def)
  have personal: "dict_of (personal_best_sectors checkpoint maps) = personal_best_sectors checkpoint maps"
    by (rule dict_of_distinct[OF personal_best_distinct])
  have final: "dict_of (sv_last v) = sv_last v"
  proof (cases "filter (\<lambda>d. d \<noteq> []) maps = []")
    case False
    then have "last (filter (\<lambda>d. d \<noteq> []) maps) \<in> set maps" by (metis filter_is_subset last_in_set subsetD)
    then have "distinct (map fst (sv_last v))" using False collect_maps_distinct[OF maps] by (simp add: v)
    then show ?thesis by (rule dict_of_distinct)
  qed (simp add: v)
  show ?thesis
  proof (cases "collect_maps loads new")
    case (Inl e)
    then show ?thesis by (simp add: participant_sector_values_def collect_maps_append maps)
  next
    case (Inr ns)
    show ?thesis
      unfolding participant_sector_values_def
      by (simp add: Inr collect_maps_append maps Let_def v(1) personal final personal_best_resumes checkpoint_def[symmetric])
        (simp add: v(2))
  qed
qed

section \<open>The trend of a stint\<close>

lemma in_map_filter: "z \<in> set (List.map_filter f xs) \<longleftrightarrow> (\<exists>q \<in> set xs. f q = Some z)"
  by (induction xs) (auto simp: map_filter_simps split: option.splits)

lemma pair_slopes_linear:
  "\<forall>(a, d) \<in> set points. of_int d = c + b * (of_int a :: rat) \<Longrightarrow> \<forall>x \<in> set (pair_slopes points). x = b"
proof (induction points rule: pair_slopes.induct)
  case (2 age duration points)
  have "of_int (d - duration) / of_int (a - age) = b" if "(a, d) \<in> set points" "a \<noteq> age" for a d
  proof -
    have "of_int d = c + b * (of_int a :: rat)" "of_int duration = c + b * (of_int age :: rat)" using 2 that by auto
    then have "(of_int (d - duration) :: rat) = b * of_int (a - age)" by (simp add: algebra_simps)
    then show ?thesis using that by simp
  qed
  then have "z = b" if "z \<in> set (List.map_filter (\<lambda>(a, d). if a - age \<noteq> 0 then Some (of_int (d - duration) / of_int (a - age)) else None) points)" for z
    using that unfolding in_map_filter by (auto simp del: of_int_diff split: if_splits)
  moreover have "\<forall>z \<in> set (pair_slopes points). z = b" using 2 by simp
  ultimately show ?case by auto
qed simp

lemma pair_slopes_nonempty:
  "(a, d) \<in> set points \<Longrightarrow> (a', d') \<in> set points \<Longrightarrow> a \<noteq> a' \<Longrightarrow> pair_slopes points \<noteq> []"
proof (induction points)
  case (Cons p points)
  obtain x y where p: "p = (x, y)" by (cases p)
  show ?case
  proof (cases "\<exists>q \<in> set points. fst q \<noteq> x")
    case True
    then obtain u w where q: "(u, w) \<in> set points" "u \<noteq> x" by force
    then have "of_int (w - y) / of_int (u - x) \<in> set (pair_slopes (p # points))"
      unfolding p pair_slopes.simps set_append Un_iff in_map_filter by force
    then show ?thesis by auto
  next
    case False
    have "fst q = x" if "q \<in> set (p # points)" for q using False p that by auto
    from this[OF Cons.prems(1)] this[OF Cons.prems(2)] Cons.prems(3) show ?thesis by simp
  qed
qed simp

text \<open>functional. The tyre trend of a stint is exact for a steady loss: when the lap times grow by
  \<open>b\<close> milliseconds per lap of tyre age, the estimate over the latest sixty laps is \<open>b\<close>, whatever the
  gaps between the laps.\<close>
theorem trend_exact_on_steady_loss:
  assumes "\<forall>(a, d) \<in> set points. of_int d = c + b * (of_int a :: rat)"
    and "6 \<le> card (set (map fst points))"
    and "x \<in> set (last_n STINT_TREND_MAX_POINTS points)" "y \<in> set (last_n STINT_TREND_MAX_POINTS points)" "fst x \<noteq> fst y"
  shows "stint_trend points = Some b"
proof -
  let ?ps = "last_n STINT_TREND_MAX_POINTS points"
  have "set ?ps \<subseteq> set points" by (simp add: last_n_def set_drop_subset)
  then have "\<forall>z \<in> set (pair_slopes ?ps). z = b" using assms(1) by (intro pair_slopes_linear[of _ c]) auto
  moreover have "pair_slopes ?ps \<noteq> []"
    using pair_slopes_nonempty[of "fst x" "snd x" ?ps "fst y" "snd y"] assms(3-5) by simp
  ultimately have "median (pair_slopes ?ps) = Some b" using median_const by blast
  then show ?thesis using assms(2) by (simp add: stint_trend_def theil_sen_slope_def)
qed

text \<open>The spread shown with the two percentiles is their difference.\<close>

lemma p10_p90_spread:
  assumes "calculate_pace_metrics samples h w = Inr pace" "p10_p90_range_ms pace \<noteq> None"
  shows "\<exists>a b. p10_p90_field pace samples = [(''p10_ms'', JNum (PyFloat a)), (''p90_ms'', JNum (PyFloat b)), (''spread_ms'', JNum (PyFloat (b - a)))]"
proof -
  define ds where "ds = last_n 10 (map lap_duration (filter is_clean_lap samples))"
  have r: "p10_p90_range_ms pace = (case (if length ds = 10 then percentile ds (1/10) else None, if length ds = 10 then percentile ds (9/10) else None) of
      (Some a, Some b) \<Rightarrow> Some (b - a) | _ \<Rightarrow> None)"
    using assms(1) by (auto simp: calculate_pace_metrics_def Let_def ds_def select_clean_laps_def split: if_splits option.splits)
  have ten: "length ds = 10" using assms(2) r by (auto split: if_splits)
  have c: "\<lceil>(9 / 10) * (10 :: rat)\<rceil> = 9" "\<lceil>(1 / 10) * (10 :: rat)\<rceil> = 1" by simp_all
  have "percentile ds (1/10) = Some (sort ds ! 0)" "percentile ds (9/10) = Some (sort ds ! 8)"
    using ten by (auto simp: percentile_def Let_def)
  then have "p10_p90_range_ms pace = Some (sort ds ! 8 - sort ds ! 0)" using r ten by simp
  then show ?thesis
    using ten unfolding p10_p90_field_def p10_p90_values_def Let_def ds_def[symmetric] by (simp add: opt_json_def)
qed

section \<open>Witnesses\<close>

definition tyre_lap :: "int \<Rightarrow> int \<Rightarrow> lap_sample" where
  "tyre_lap n d = \<lparr> lap_participant_id = Some ''21'', lap_number = Some n, lap_capture_sequence = None,
     lap_completed_at_us = Some n, lap_duration_ms = Some d, lap_flag_kinds = [GREEN_FLAG], lap_is_in_lap = Some False,
     lap_is_out_lap = Some False, lap_crosses_pit = Some False, lap_has_feed_gap = Some False \<rparr>"

text \<open>Ten laps whose median falls between two milliseconds, then one lap.\<close>

definition half_laps :: "int \<Rightarrow> lap_sample list" where
  "half_laps d = map (\<lambda>n. tyre_lap n 100000) [1, 2, 3, 4, 5] @ map (\<lambda>n. tyre_lap n 104001) [6, 7, 8, 9, 10] @ [tyre_lap 11 d]"

lemma slow_lap_lists_disagree:
  "(case calculate_pace_metrics (half_laps 108001) True (Some SLOW_LAP_MAX_CLEAN_LAPS) of
      Inl e \<Rightarrow> False | Inr pace \<Rightarrow> slow_lap_numbers pace = Some []) \<and>
   map sl_lap_number (slow_lap_events (half_laps 108001)) = [11]"
  by code_simp

lemma listed_slow_laps_are_events_witness:
  "\<exists>e \<in> set (slow_lap_events (half_laps 110000)). sl_lap_number e = 11"
proof -
  have p: "case calculate_pace_metrics (half_laps 110000) True (Some SLOW_LAP_MAX_CLEAN_LAPS) of
      Inl e \<Rightarrow> False | Inr pace \<Rightarrow> slow_lap_numbers pace = Some [11]" by code_simp
  then obtain pace where "calculate_pace_metrics (half_laps 110000) True (Some SLOW_LAP_MAX_CLEAN_LAPS) = Inr pace"
      "slow_lap_numbers pace = Some [11]" by (auto split: sum.splits)
  from listed_slow_laps_are_events[OF this] show ?thesis by simp
qed

definition sector_lap :: "string \<Rightarrow> lap_input" where
  "sector_lap s = \<lparr> li_lap_number = None, li_completed_at_us = None, li_duration_ms = None, li_sectors_json = Some s,
     li_flag = None, li_is_in_lap = False, li_is_out_lap = False, li_crosses_pit = False, li_is_clean = False,
     li_timing_event_id = None, li_capture_sequence = None, li_capture_at_us = None, li_timing_eligible = True,
     li_source_frame_id = None, li_source_message_ordinal = None, li_source_change_ordinal = None,
     li_lap_number_is_official = False \<rparr>"

definition sample_loads :: "string \<Rightarrow> json option" where
  "sample_loads s = (if s = ''a'' then Some (JObj [(''sector_1'', JInt 31000000), (''sector_2'', JInt 42000000)])
     else if s = ''b'' then Some (JObj [(''sector_1'', JInt 30500000)]) else None)"

lemma sector_checkpoint_resumes_witness:
  "map_option sv_personal (case participant_sector_values sample_loads (car_21\<lparr> pt_laps := [sector_lap ''a'', sector_lap ''b''] \<rparr>) of
     Inr v \<Rightarrow> Some v | Inl e \<Rightarrow> None) = Some [(''sector_1'', 30500), (''sector_2'', 42000)] \<and>
   (\<exists>v. participant_sector_values sample_loads (car_21\<lparr> pt_laps := [sector_lap ''a''] \<rparr>) = Inr v \<and>
      participant_sector_values sample_loads (car_21\<lparr> pt_laps := [sector_lap ''b''], pt_last_sector_ms_checkpoint := sv_last v,
        pt_personal_best_sector_ms_checkpoint := sv_personal v \<rparr>)
      = participant_sector_values sample_loads (car_21\<lparr> pt_laps := [sector_lap ''a'', sector_lap ''b''] \<rparr>))"
proof
  have "case participant_sector_values sample_loads (car_21\<lparr> pt_laps := [sector_lap ''a''] \<rparr>) of Inr v \<Rightarrow> True | Inl e \<Rightarrow> False"
    by code_simp
  then obtain v where v: "participant_sector_values sample_loads (car_21\<lparr> pt_laps := [sector_lap ''a''] \<rparr>) = Inr v"
    by (auto split: sum.splits)
  from sector_checkpoint_resumes[OF v, of "[sector_lap ''b'']"] v
  show "\<exists>v. participant_sector_values sample_loads (car_21\<lparr> pt_laps := [sector_lap ''a''] \<rparr>) = Inr v \<and>
      participant_sector_values sample_loads (car_21\<lparr> pt_laps := [sector_lap ''b''], pt_last_sector_ms_checkpoint := sv_last v,
        pt_personal_best_sector_ms_checkpoint := sv_personal v \<rparr>)
      = participant_sector_values sample_loads (car_21\<lparr> pt_laps := [sector_lap ''a'', sector_lap ''b''] \<rparr>)"
    by (intro exI[of _ v]) simp
  show "map_option sv_personal (case participant_sector_values sample_loads (car_21\<lparr> pt_laps := [sector_lap ''a'', sector_lap ''b''] \<rparr>) of
     Inr v \<Rightarrow> Some v | Inl e \<Rightarrow> None) = Some [(''sector_1'', 30500), (''sector_2'', 42000)]"
    by code_simp
qed

lemma trend_exact_on_steady_loss_witness:
  "stint_trend [(1, 90050), (2, 90100), (3, 90150), (5, 90250), (8, 90400), (9, 90450)] = Some 50"
  by (rule trend_exact_on_steady_loss[where c = 90000 and x = "(1, 90050)" and y = "(9, 90450)"])
    (simp_all add: last_n_def STINT_TREND_MAX_POINTS_def)

end
