(* ===== verification/Metric_Tactics.thy ===== *)
theory Metric_Tactics
  imports Metric_Laps
begin

text \<open>
  The tactical values of \<open>server/timing/metric_engine.py\<close>: the session document, the car's
  position against its class neighbours, the battle forecasts read from the history of earlier
  documents, and the alerts. A document is a JSON object with the keys of the source; a function
  that reads the document of another one reads its keys. The Russian labels of the trend
  directions are the parameter \<open>labels\<close>.
\<close>

section \<open>The session document\<close>

definition METRIC_ENGINE_VERSION :: int where "METRIC_ENGINE_VERSION = 6"
definition FRESHNESS_STALE_MS :: int where "FRESHNESS_STALE_MS = 3000"
definition CHANNEL_LIVE :: string where "CHANNEL_LIVE = ''LIVE''"
definition CHANNEL_STALE :: string where "CHANNEL_STALE = ''STALE''"
definition CHANNEL_OFFLINE :: string where "CHANNEL_OFFLINE = ''OFFLINE''"

definition channel_status :: "heat_input \<Rightarrow> string" where
  "channel_status h =
    (if ms_lifecycle (ht_session h) \<noteq> ''active'' \<or> ht_open_ingest_gap h \<noteq> None then CHANNEL_OFFLINE
     else if map_option tf_flag (ht_current_flag h) = Some ''FINISH'' then CHANNEL_OFFLINE
     else (case ht_latest_tick h of
         None \<Rightarrow> CHANNEL_LIVE
       | Some t \<Rightarrow> if FRESHNESS_STALE_MS < tk_freshness_ms t then CHANNEL_STALE else CHANNEL_LIVE))"

text \<open>The provider's start, unless it is out of the range a race of this length allows; \<open>or\<close> also skips zero.\<close>

definition trusted_provider_start :: "heat_input \<Rightarrow> int \<Rightarrow> int option" where
  "trusted_provider_start h observed_at_us =
    (let maximum_age_s = (case ms_race_duration_s (ht_session h) of Some d \<Rightarrow> if d = 0 then 24 * 60 * 60 else d | None \<Rightarrow> 24 * 60 * 60)
           + 6 * 60 * 60
     in case ht_provider_started_at_us h of
          None \<Rightarrow> None
        | Some t \<Rightarrow> if observed_at_us - maximum_age_s * 1000000 \<le> t \<and> t \<le> observed_at_us + 6 * 60 * 60 * 1000000 then Some t else None)"

definition session_elapsed :: "heat_input \<Rightarrow> int \<Rightarrow> rat option" where
  "session_elapsed h observed_at_us =
    (let start = trusted_provider_start h observed_at_us in
     if ms_mode (ht_session h) = ''race'' \<and> start = None \<and> map_option tf_flag (ht_current_flag h) = Some ''READY'' then Some 0
     else elapsed_s observed_at_us
       (case start of
          Some t \<Rightarrow> if t = 0 then ms_started_at_us (ht_session h) else Some t
        | None \<Rightarrow> ms_started_at_us (ht_session h)))"

definition session_remaining :: "heat_input \<Rightarrow> int \<Rightarrow> rat option" where
  "session_remaining h observed_at_us =
    (if ms_mode (ht_session h) = ''race''
     then (case (ms_race_duration_s (ht_session h), session_elapsed h observed_at_us) of
         (Some d, Some e) \<Rightarrow> Some (max 0 (of_int d - e))
       | _ \<Rightarrow> None)
     else None)"

definition statistics_json :: "heat_statistics option \<Rightarrow> json" where
  "statistics_json st = JObj (map (\<lambda>(k, f). (k, int_json (Option.bind st f)))
    [(''participants_started'', hs_participants_started), (''participants_classified'', hs_participants_classified),
     (''participants_not_classified'', hs_participants_not_classified), (''participants_on_track'', hs_participants_on_track),
     (''participants_in_pit_zone'', hs_participants_in_pit_zone), (''participants_in_tank_zone'', hs_participants_in_tank_zone),
     (''total_laps'', hs_total_laps), (''total_pitstops'', hs_total_pitstops), (''safety_car_count'', hs_safety_car_count),
     (''full_course_yellow_count'', hs_full_course_yellow_count), (''code_60_count'', hs_code_60_count)])"

definition session_values :: "heat_input \<Rightarrow> int \<Rightarrow> json_dict" where
  "session_values h observed_at_us =
    (let flag = ht_current_flag h; session = ht_session h in
     [(''metric_version'', JInt METRIC_ENGINE_VERSION),
      (''channel_status'', JStr (channel_status h)),
      (''track_flag'', text_json (map_option tf_flag flag)),
      (''track_flag_provider_code'', text_json (Option.bind flag tf_provider_code)),
      (''track_flag_provider_label'', text_json (Option.bind flag tf_provider_label)),
      (''flag_phase_started_at_us'', int_json (flag_start_at_us h)),
      (''flag_phase_elapsed_s'', rat_json (elapsed_s observed_at_us (flag_start_at_us h))),
      (''heat_name'', text_json (case Option.bind (ht_statistics h) hs_heat_name of
          Some n \<Rightarrow> if n = [] then ht_external_name h else Some n
        | None \<Rightarrow> ht_external_name h)),
      (''session_mode'', JStr (ms_mode session)),
      (''session_lifecycle'', JStr (ms_lifecycle session)),
      (''session_elapsed_s'', rat_json (session_elapsed h observed_at_us)),
      (''session_remaining_s'', rat_json (session_remaining h observed_at_us)),
      (''statistics'', statistics_json (ht_statistics h))])"

definition identity_json :: "participant_input \<Rightarrow> json" where
  "identity_json p = JObj [(''participant_id'', JStr (pt_id p)), (''start_number'', text_json (pt_start_number p)),
     (''team_name'', text_json (pt_team_name p)),
     (''driver_name'', text_json (Option.bind (pt_state p) ps_current_driver_name)),
     (''car_name'', text_json (pt_car_name p)), (''class_name'', text_json (pt_class_name p))]"

section \<open>Obligations of the race\<close>

definition OBLIGATION_KEYS :: "string list" where
  "OBLIGATION_KEYS = [''pits_required'', ''pits_remaining'', ''initial_equal_stint_target_s'', ''remaining_equal_stint_s'',
     ''stop_load_per_hour'', ''next_equal_pit_target_elapsed_s'', ''next_equal_pit_in_s'', ''stint_schedule_deviation_s'',
     ''expected_remaining_laps_range'']"

definition empty_race_obligation_values :: json_dict where
  "empty_race_obligation_values = map (\<lambda>k. (k, JNull)) OBLIGATION_KEYS"

text \<open>How many laps remain at the slow and the fast end of the current pace.\<close>

definition remaining_laps_range :: "rat \<Rightarrow> pace_metrics \<Rightarrow> (int \<times> int) option" where
  "remaining_laps_range remaining_time_s pace =
    (case (pace5_ms pace, consistency10_ms pace) of
       (Some p, Some c) \<Rightarrow>
        (let remaining_ms = remaining_time_s * 1000; slow_pace = p + c; fast_pace = max 1 (p - c)
         in Some (\<lfloor>remaining_ms / slow_pace\<rfloor>, \<lceil>remaining_ms / fast_pace\<rceil>))
     | _ \<Rightarrow> None)"

definition race_obligation_values :: "heat_input \<Rightarrow> participant_input \<Rightarrow> rat option \<Rightarrow> pace_metrics \<Rightarrow> json_dict" where
  "race_obligation_values h ours elapsed pace =
    (if ms_mode (ht_session h) \<noteq> ''race'' then empty_race_obligation_values
     else (case calculate_pit_obligations
           \<lparr> plan_duration_s = ms_race_duration_s (ht_session h), plan_required_pits = ms_required_pits (ht_session h) \<rparr>
           (completed_pits ours) (map_option PyFloat elapsed) of
         None \<Rightarrow> empty_race_obligation_values
       | Some b \<Rightarrow>
          [(''pits_required'', JInt (ob_required_pits b)), (''pits_remaining'', JInt (ob_remaining_pits b)),
           (''initial_equal_stint_target_s'', JNum (PyFloat (ob_initial_equal_stint_target_s b))),
           (''remaining_equal_stint_s'', JNum (PyFloat (ob_remaining_equal_stint_target_s b))),
           (''stop_load_per_hour'', rat_json (ob_stop_load_per_hour b)),
           (''next_equal_pit_target_elapsed_s'', rat_json (ob_next_equal_pit_elapsed_s b)),
           (''next_equal_pit_in_s'', rat_json (ob_next_equal_pit_in_s b)),
           (''stint_schedule_deviation_s'', rat_json (ob_schedule_deviation_s b)),
           (''expected_remaining_laps_range'',
             opt_json (\<lambda>(a, b). JObj [(''min_laps'', JInt a), (''max_laps'', JInt b)])
               (remaining_laps_range (ob_remaining_time_s b) pace))]))"

section \<open>Relations in documents\<close>

definition status_text :: "interval_status \<Rightarrow> string" where
  "status_text s = (case s of
     VALID \<Rightarrow> ''VALID'' | SELF \<Rightarrow> ''SELF'' | NO_TARGET \<Rightarrow> ''NO_TARGET'' | NO_STATE \<Rightarrow> ''NO_STATE''
   | NON_RACING_STATE \<Rightarrow> ''NON_RACING_STATE'' | LAPPED \<Rightarrow> ''LAPPED'' | NO_SOURCE_FACT \<Rightarrow> ''NO_SOURCE_FACT''
   | INVALID_SOURCE_FACT \<Rightarrow> ''INVALID_SOURCE_FACT'' | SOURCE_TARGET_MISMATCH \<Rightarrow> ''SOURCE_TARGET_MISMATCH''
   | SOURCE_POSITION_MISMATCH \<Rightarrow> ''SOURCE_POSITION_MISMATCH'' | SOURCE_STATE_MISMATCH \<Rightarrow> ''SOURCE_STATE_MISMATCH''
   | SOURCE_LAPPED \<Rightarrow> ''SOURCE_LAPPED'' | STALE_LAP_CONTEXT \<Rightarrow> ''STALE_LAP_CONTEXT''
   | NO_COHERENT_SOURCE_PAIR \<Rightarrow> ''NO_COHERENT_SOURCE_PAIR'')"

definition relation_dict :: "relation \<Rightarrow> json_dict" where
  "relation_dict r = [(''target_participant_id'', text_json (rl_target_participant_id r)),
     (''status'', JStr (status_text (rl_status r))), (''value_ms'', int_json (rl_value_ms r)),
     (''relation_kind'', text_json (rl_relation_kind r)), (''source_facts'', JList (map payload_json (rl_source_facts r))),
     (''source_observed_at_us'', int_json (rl_source_observed_at_us r)), (''source_age_ms'', int_json (rl_source_age_ms r)),
     (''ours_state_kind'', text_json (rl_ours_state_kind r)), (''target_state_kind'', text_json (rl_target_state_kind r)),
     (''ours_laps'', int_json (rl_ours_laps r)), (''target_laps'', int_json (rl_target_laps r))]"

text \<open>\<open>_relation_value_ms\<close> of a relation that was read from a document.\<close>

definition dict_relation_value_ms :: "json_dict \<Rightarrow> int option" where
  "dict_relation_value_ms d =
    (if optional_text (jget ''status'' d) = Some ''VALID'' \<or> optional_text (jget ''status'' d) = Some ''SELF''
     then int_at_least 0 (optional_integer (jget ''value_ms'' d)) else None)"

definition obj_of :: "json \<Rightarrow> json_dict option" where
  "obj_of j = (case j of JObj d \<Rightarrow> Some d | _ \<Rightarrow> None)"

definition is_delta_fact :: "json \<Rightarrow> bool" where
  "is_delta_fact j = (case obj_of j of
     None \<Rightarrow> False
   | Some d \<Rightarrow> optional_text (jget ''observation_kind'' d) = Some ''DELTA'')"

definition has_delta :: "json_dict \<Rightarrow> bool" where
  "has_delta interval = (case jget ''source_facts'' interval of
     JList facts \<Rightarrow> facts \<noteq> [] \<and> list_all is_delta_fact facts
   | _ \<Rightarrow> False)"

definition relation_of_values :: "json_dict \<Rightarrow> string \<Rightarrow> json_dict option" where
  "relation_of_values values relation =
    (let key = ''class_'' @ (if relation = GAP_RELATION_AHEAD then ''ahead'' else ''behind'')
     in Option.bind (obj_of (jget ''relation_intervals'' values)) (\<lambda>d. obj_of (jget key d)))"

definition gap_sample_from_values :: "int \<Rightarrow> json_dict \<Rightarrow> string \<Rightarrow> gap_sample" where
  "gap_sample_from_values observed_at_us values relation =
    (let interval = relation_of_values values relation;
         gap = Option.bind interval (\<lambda>d. if has_delta d then dict_relation_value_ms d else None);
         source_at_us = Option.bind interval (\<lambda>d. optional_integer (jget ''source_observed_at_us'' d))
     in \<lparr> gs_target_participant_id = Option.bind interval (\<lambda>d. optional_text (jget ''target_participant_id'' d)),
          gs_observed_at_us = Some (case source_at_us of Some t \<Rightarrow> t | None \<Rightarrow> observed_at_us),
          gs_gap_ms = gap,
          gs_our_lap_number = Option.bind interval (\<lambda>d. optional_integer (jget ''ours_laps'' d)),
          gs_target_lap_number = Option.bind interval (\<lambda>d. optional_integer (jget ''target_laps'' d)),
          gs_flag_kind = optional_text (jget ''track_flag'' values),
          gs_our_state_kind = Option.bind interval (\<lambda>d. optional_text (jget ''ours_state_kind'' d)),
          gs_target_state_kind = Option.bind interval (\<lambda>d. optional_text (jget ''target_state_kind'' d)),
          gs_has_feed_gap = Some (optional_text (jget ''channel_status'' values) \<noteq> Some CHANNEL_LIVE),
          gs_source_time_interval = Some (gap \<noteq> None) \<rparr>)"

section \<open>Trends in documents\<close>

definition direction_text :: "gap_direction \<Rightarrow> string" where
  "direction_text d = (case d of CLOSING \<Rightarrow> ''CLOSING'' | LOSING_GROUND \<Rightarrow> ''LOSING_GROUND''
     | PULLING_AWAY \<Rightarrow> ''PULLING_AWAY'' | BEING_CAUGHT \<Rightarrow> ''BEING_CAUGHT'' | STABLE \<Rightarrow> ''STABLE'')"

definition trend_record :: "(gap_direction \<Rightarrow> string) \<Rightarrow> gap_trend option \<Rightarrow> json" where
  "trend_record labels = opt_json (\<lambda>t. JObj
    [(''window_s'', JInt (gt_window_s t)), (''covered_s'', JNum (PyFloat (gt_covered_s t))),
     (''started_gap_ms'', JInt (gt_started_gap_ms t)), (''ended_gap_ms'', JInt (gt_ended_gap_ms t)),
     (''closure_ms_per_min'', JNum (PyFloat (gt_closure_ms_per_min t))),
     (''closure_ms_per_lap'', rat_json (gt_closure_ms_per_lap t)),
     (''direction'', JStr (direction_text (gt_direction t))), (''label'', JStr (labels (gt_direction t)))])"

definition catching_rate :: "gap_lap_trend \<Rightarrow> rat option" where
  "catching_rate t =
    (let rate = lt_closure_ms_per_lap t in
     if lt_relation t = GAP_RELATION_AHEAD \<and> lt_direction t = CLOSING \<and> 0 < rate then Some rate
     else if lt_relation t = GAP_RELATION_BEHIND \<and> lt_direction t = BEING_CAUGHT \<and> rate < 0 then Some (- rate)
     else None)"

definition catch_laps :: "gap_lap_trend \<Rightarrow> gap_sample \<Rightarrow> rat option" where
  "catch_laps t current = (case (gs_gap_ms current, catching_rate t) of
     (Some gap, Some rate) \<Rightarrow> if 0 < rate then Some (of_int gap / rate) else None
   | _ \<Rightarrow> None)"

definition lap_trend_record :: "(gap_direction \<Rightarrow> string) \<Rightarrow> gap_lap_trend option \<Rightarrow> gap_sample \<Rightarrow> json" where
  "lap_trend_record labels trend current = opt_json (\<lambda>t. JObj
    [(''window_laps'', JInt (lt_window_laps t)), (''started_gap_ms'', JInt (lt_started_gap_ms t)),
     (''ended_gap_ms'', JInt (lt_ended_gap_ms t)), (''closure_ms_per_lap'', JNum (PyFloat (lt_closure_ms_per_lap t))),
     (''direction'', JStr (direction_text (lt_direction t))), (''label'', JStr (labels (lt_direction t))),
     (''catch_laps'', rat_json (catch_laps t current))]) trend"

definition catch_record :: "catch_range option \<Rightarrow> json" where
  "catch_record = opt_json (\<lambda>c. JObj
    [(''min_laps'', JNum (PyFloat (cr_minimum_laps c))), (''max_laps'', JNum (PyFloat (cr_maximum_laps c))),
     (''min_time_ms'', JNum (PyFloat (cr_minimum_time_ms c))), (''max_time_ms'', JNum (PyFloat (cr_maximum_time_ms c))),
     (''source_windows_s'', JList (map JInt (cr_source_windows_s c)))])"

text \<open>A pace is positive where it exists; Python's division by a zero pace would raise.\<close>

definition required_pace_ms :: "string \<Rightarrow> rat option \<Rightarrow> rat option \<Rightarrow> int option \<Rightarrow> rat option \<Rightarrow> rat option" where
  "required_pace_ms relation ours_pace target_pace gap remaining =
    (case (ours_pace, target_pace, gap, remaining) of
       (Some ours, Some target, Some g, Some r) \<Rightarrow>
         if r \<le> 0 then None
         else (let horizon_laps = r * 1000 / ours in
               if horizon_laps \<le> 0 then None
               else if relation = GAP_RELATION_AHEAD then Some (target - of_int g / horizon_laps)
               else Some (target + of_int g / horizon_laps))
     | _ \<Rightarrow> None)"

definition projected_gap :: "string \<Rightarrow> int option \<Rightarrow> gap_trend option \<Rightarrow> rat \<Rightarrow> rat option" where
  "projected_gap relation gap trend laps =
    (case (gap, Option.bind trend gt_closure_ms_per_lap) of
       (Some g, Some rate) \<Rightarrow> Some (of_int g + (if relation = GAP_RELATION_AHEAD then - 1 else 1) * rate * laps)
     | _ \<Rightarrow> None)"

definition projected_gaps :: "string \<Rightarrow> int option \<Rightarrow> gap_trend option \<Rightarrow> json" where
  "projected_gaps relation gap trend =
    (case (projected_gap relation gap trend 5, projected_gap relation gap trend 10) of
       (Some a, Some b) \<Rightarrow> JObj [(''5'', JNum (PyFloat a)), (''10'', JNum (PyFloat b))]
     | _ \<Rightarrow> JNull)"

section \<open>Pit stops of the field\<close>

definition abs_deviations :: "rat \<Rightarrow> rat list \<Rightarrow> rat list" where
  "abs_deviations center durations = map (\<lambda>d. of_int \<lfloor>\<bar>d - center\<bar>\<rfloor>) durations"

definition pit_anomaly :: "participant_input \<Rightarrow> json" where
  "pit_anomaly p =
    (let durations = map of_int (pit_durations p); candidate = last durations; baseline = butlast durations in
     if length durations < 4 then JNull
     else (case median_non_negative baseline of
         None \<Rightarrow> JNull
       | Some m \<Rightarrow>
          (case median_non_negative (abs_deviations m baseline) of
             None \<Rightarrow> JNull
           | Some d \<Rightarrow>
              if \<bar>candidate - m\<bar> \<le> 3 * d then JNull
              else JObj [(''pit_lane_duration_ms'', JInt (last (pit_durations p))), (''median_ms'', JNum (PyFloat m)),
                (''mad_ms'', JNum (PyFloat d)), (''excess_ms'', JNum (PyFloat (\<bar>candidate - m\<bar> - 3 * d)))])))"

definition pits_known :: "participant_input \<Rightarrow> nat option" where
  "pits_known p = (if pt_tire_stints p \<noteq> [] \<or> pt_state p \<noteq> None then Some (length (completed_pits p)) else None)"

definition competitor_stint_state :: "int \<Rightarrow> participant_input \<Rightarrow> json" where
  "competitor_stint_state observed_at_us c =
    (let s = active_tire_stint c in JObj
     [(''stint_number'', int_json (map_option ti_stint_number s)),
      (''stint_elapsed_s'', rat_json (Option.bind s (\<lambda>s. elapsed_s observed_at_us (Some (ti_started_at_us s))))),
      (''tyre_age_laps'', int_json (map_option ti_completed_laps s)),
      (''pits_completed'', opt_json nat_json (pits_known c))])"

definition competitors :: "participant_input \<Rightarrow> class_scope \<Rightarrow> participant_input list" where
  "competitors ours sc = filter (\<lambda>c. pt_id c \<noteq> pt_id ours) (cs_participants sc)"

definition competitor_stint_and_pit_values :: "participant_input \<Rightarrow> class_scope \<Rightarrow> int \<Rightarrow> json \<times> json" where
  "competitor_stint_and_pit_values ours sc observed_at_us =
    (JObj (dict_of (map (\<lambda>c. (pt_id c, competitor_stint_state observed_at_us c)) (competitors ours sc))),
     JObj (dict_of (map (\<lambda>c. (pt_id c, int_json (map_option (\<lambda>n. int n - int (length (completed_pits ours))) (pits_known c))))
       (competitors ours sc))))"

definition class_pit_durations :: "class_scope option \<Rightarrow> int list" where
  "class_pit_durations scope = (case scope of None \<Rightarrow> [] | Some sc \<Rightarrow> concat (map pit_durations (cs_participants sc)))"

section \<open>Battle\<close>

record history_point =
  hp_observed_at_us :: int
  hp_metric_version :: int
  hp_values :: json_dict

definition latest_history_at_or_before :: "history_point list \<Rightarrow> int \<Rightarrow> history_point option" where
  "latest_history_at_or_before history cutoff_at_us =
    (let eligible = filter (\<lambda>h. hp_observed_at_us h \<le> cutoff_at_us) history
     in if eligible = [] then None else Some (last eligible))"

definition channel_is_live :: "json_dict \<Rightarrow> bool" where
  "channel_is_live values \<longleftrightarrow> optional_text (jget ''channel_status'' values) = Some CHANNEL_LIVE"

definition track_evolution_ms :: "history_point list \<Rightarrow> int \<Rightarrow> rat option \<Rightarrow> rat option" where
  "track_evolution_ms history observed_at_us current_class_pace_ms =
    (case (current_class_pace_ms, latest_history_at_or_before history (observed_at_us - 600000000)) of
       (Some pace, Some b) \<Rightarrow>
        (case number_of (jget ''class_pace_5_ms'' (hp_values b)) of
           None \<Rightarrow> None
         | Some before \<Rightarrow>
            if list_all (\<lambda>h. hp_observed_at_us b \<le> hp_observed_at_us h \<longrightarrow> channel_is_live (hp_values h)) history
            then Some (pace - before) else None)
     | _ \<Rightarrow> None)"

definition battle_samples :: "history_point list \<Rightarrow> int \<Rightarrow> json_dict \<Rightarrow> string \<Rightarrow> gap_sample list" where
  "battle_samples history observed_at_us current relation =
    map (\<lambda>h. gap_sample_from_values (hp_observed_at_us h) (hp_values h) relation) history
      @ [gap_sample_from_values observed_at_us current relation]"

definition EMPTY_BATTLE :: json_dict where
  "EMPTY_BATTLE =
    [(''closure_ahead'', JNull), (''closure_behind'', JNull),
     (''battle_lap_trend'', JObj [(''ahead'', JNull), (''behind'', JNull)]),
     (''catch_range'', JObj [(''ahead'', JNull), (''behind'', JNull)]),
     (''required_pace_to_catch_ahead_ms'', JNull), (''required_pace_to_defend_behind_ms'', JNull),
     (''projected_gap_ms'', JObj [(''ahead'', JNull), (''behind'', JNull)]),
     (''class_density'', JNull), (''position_change'', JNull), (''track_evolution_class_ms'', JNull),
     (''pit_lane_anomaly'', JNull), (''competitor_stint_state'', JNull), (''pit_offset'', JNull)]"

text \<open>An evaluation raises when a stored sector text is invalid, or a target of the battle has no pace.\<close>

datatype engine_error = SectorError value_error | AttributeError

text \<open>\<open>pace_by_participant.get(target.id).pace5_ms if target is not None else None\<close>\<close>

definition target_pace ::
    "(string \<Rightarrow> pace_metrics option) \<Rightarrow> class_scope \<Rightarrow> string option \<Rightarrow> engine_error + rat option" where
  "target_pace pace_of sc target_id =
    (case find (\<lambda>p. Some (pt_id p) = target_id) (cs_participants sc) of
       None \<Rightarrow> Inr None
     | Some p \<Rightarrow> (case pace_of (pt_id p) of None \<Rightarrow> Inl AttributeError | Some m \<Rightarrow> Inr (pace5_ms m)))"

text \<open>The battle against one neighbour: the samples, the three time windows and the lap window.\<close>

record battle_side =
  bs_current :: gap_sample
  bs_trends :: "(int \<times> gap_trend option) list"
  bs_lap_trend :: "gap_lap_trend option"

definition battle_side_of :: "history_point list \<Rightarrow> int \<Rightarrow> json_dict \<Rightarrow> string \<Rightarrow> battle_side" where
  "battle_side_of history observed_at_us current relation =
    (let samples = battle_samples history observed_at_us current relation;
         laps = calculate_gap_lap_trends samples relation GAP_LAP_WINDOWS
     in \<lparr> bs_current = last samples, bs_trends = calculate_gap_trends samples relation GAP_WINDOWS_S,
          bs_lap_trend = (case Option.bind (map_of laps 5) id of
              Some t \<Rightarrow> Some t
            | None \<Rightarrow> Option.bind (map_of laps 3) id) \<rparr>)"

definition closures_json :: "(gap_direction \<Rightarrow> string) \<Rightarrow> battle_side \<Rightarrow> json" where
  "closures_json labels s = JObj (map (\<lambda>w. (int_text w, trend_record labels (Option.bind (map_of (bs_trends s) w) id))) GAP_WINDOWS_S)"

definition class_density_json :: "(nat \<times> nat \<times> nat) option \<Rightarrow> json" where
  "class_density_json = opt_json (\<lambda>(a, b, c). JObj [(''5000'', nat_json a), (''10000'', nat_json b), (''30000'', nat_json c)])"

definition prior_position :: "history_point list \<Rightarrow> int option" where
  "prior_position history =
    (case List.map_filter (\<lambda>h. optional_integer (jget ''position_overall'' (hp_values h))) (rev history) of
       [] \<Rightarrow> None | p # _ \<Rightarrow> Some p)"

definition position_change :: "history_point list \<Rightarrow> int option \<Rightarrow> int option" where
  "position_change history current =
    (case (prior_position history, current) of (Some p, Some c) \<Rightarrow> Some (p - c) | _ \<Rightarrow> None)"

definition battle_document ::
    "(gap_direction \<Rightarrow> string) \<Rightarrow> participant_input \<Rightarrow> class_scope \<Rightarrow> int \<Rightarrow> json_dict \<Rightarrow> json_dict \<Rightarrow> rat option
      \<Rightarrow> rat option \<Rightarrow> rat option \<Rightarrow> history_point list \<Rightarrow> json_dict" where
  "battle_document labels ours sc observed_at_us session tactical ours_pace ahead_pace behind_pace history =
    (let current = dict_of (session @ tactical);
         ahead = battle_side_of history observed_at_us current GAP_RELATION_AHEAD;
         behind = battle_side_of history observed_at_us current GAP_RELATION_BEHIND;
         remaining = number_of (jget ''session_remaining_s'' session);
         catch = (\<lambda>s relation. catch_record (calculate_catch_range (bs_current s) (map snd (bs_trends s)) relation (map_option PyFloat ours_pace)));
         projected = (\<lambda>s relation. projected_gaps relation (gs_gap_ms (bs_current s)) (Option.bind (map_of (bs_trends s) 60) id));
         (stints, offsets) = competitor_stint_and_pit_values ours sc observed_at_us
     in [(''closure_ahead'', closures_json labels ahead), (''closure_behind'', closures_json labels behind),
         (''battle_lap_trend'', JObj [(''ahead'', lap_trend_record labels (bs_lap_trend ahead) (bs_current ahead)),
           (''behind'', lap_trend_record labels (bs_lap_trend behind) (bs_current behind))]),
         (''catch_range'', JObj [(''ahead'', catch ahead GAP_RELATION_AHEAD), (''behind'', catch behind GAP_RELATION_BEHIND)]),
         (''required_pace_to_catch_ahead_ms'',
           rat_json (required_pace_ms GAP_RELATION_AHEAD ours_pace ahead_pace (gs_gap_ms (bs_current ahead)) remaining)),
         (''required_pace_to_defend_behind_ms'',
           rat_json (required_pace_ms GAP_RELATION_BEHIND ours_pace behind_pace (gs_gap_ms (bs_current behind)) remaining)),
         (''projected_gap_ms'', JObj [(''ahead'', projected ahead GAP_RELATION_AHEAD), (''behind'', projected behind GAP_RELATION_BEHIND)]),
         (''class_density'', class_density_json (class_density ours (Some sc) observed_at_us)),
         (''position_change'', int_json (position_change history (optional_integer (jget ''position_overall'' tactical)))),
         (''track_evolution_class_ms'', rat_json (track_evolution_ms history observed_at_us (number_of (jget ''class_pace_5_ms'' tactical)))),
         (''pit_lane_anomaly'', pit_anomaly ours), (''competitor_stint_state'', stints), (''pit_offset'', offsets)])"

definition battle_values ::
    "(gap_direction \<Rightarrow> string) \<Rightarrow> heat_input \<Rightarrow> int \<Rightarrow> json_dict \<Rightarrow> json_dict \<Rightarrow> (string \<Rightarrow> pace_metrics option)
      \<Rightarrow> history_point list \<Rightarrow> engine_error + json_dict" where
  "battle_values labels h observed_at_us session tactical pace_of history =
    (case (our_participant h, current_class_scope h) of
       (Some ours, Some sc) \<Rightarrow>
         if ms_identity_state (ht_session h) \<noteq> ''resolved'' then Inr EMPTY_BATTLE
         else (case pace_of (pt_id ours) of
             None \<Rightarrow> Inr EMPTY_BATTLE
           | Some pace \<Rightarrow>
              (case target_pace pace_of sc (optional_text (jget ''class_ahead_id'' tactical)) of Inl e \<Rightarrow> Inl e | Inr ahead \<Rightarrow>
               (case target_pace pace_of sc (optional_text (jget ''class_behind_id'' tactical)) of Inl e \<Rightarrow> Inl e | Inr behind \<Rightarrow>
                 Inr (battle_document labels ours sc observed_at_us session tactical (pace5_ms pace) ahead behind history))))
     | _ \<Rightarrow> Inr EMPTY_BATTLE)"

section \<open>Our car\<close>

text \<open>Leader, car ahead and car behind in the order of the class; nothing for a car outside it.\<close>

type_synonym neighbours = "participant_input option \<times> participant_input option \<times> participant_input option"

fun index_of :: "string \<Rightarrow> participant_input list \<Rightarrow> nat option" where
  "index_of i [] = None"
| "index_of i (p # ps) = (if pt_id p = i then Some 0 else map_option Suc (index_of i ps))"

definition class_neighbours :: "participant_input list option \<Rightarrow> string \<Rightarrow> neighbours" where
  "class_neighbours order ours_id =
    (case order of
       None \<Rightarrow> (None, None, None)
     | Some members \<Rightarrow>
        (case index_of ours_id members of
           None \<Rightarrow> (None, None, None)
         | Some k \<Rightarrow> (Some (members ! 0), if 0 < k then Some (members ! (k - 1)) else None,
                      if k + 1 < length members then Some (members ! (k + 1)) else None)))"

definition class_pace_by_id :: "(string \<Rightarrow> pace_metrics option) \<Rightarrow> class_scope \<Rightarrow> (string \<times> rat option) list" where
  "class_pace_by_id pace_of sc = dict_of (map (\<lambda>p. (pt_id p, Option.bind (pace_of (pt_id p)) pace5_ms)) (cs_participants sc))"

abbreviation as_numbers :: "(string \<times> rat option) list \<Rightarrow> (string \<times> pynum option) list" where
  "as_numbers d \<equiv> map (\<lambda>(i, q). (i, map_option PyFloat q)) d"

definition delta_json :: "rat option \<Rightarrow> rat option \<Rightarrow> json" where
  "delta_json ours reference = rat_json (pace_delta_ms (map_option PyFloat ours) (map_option PyFloat reference))"

definition pace_references ::
    "(string \<Rightarrow> pace_metrics option) \<Rightarrow> participant_input \<Rightarrow> rat option \<Rightarrow> neighbours \<Rightarrow> rat option \<Rightarrow> (string \<times> rat option) list \<Rightarrow> json" where
  "pace_references pace_of ours ours_pace nb class_pace pace_by =
    (let against = (\<lambda>p. case Option.bind p (\<lambda>p. pace_of (pt_id p)) of None \<Rightarrow> JNull | Some m \<Rightarrow> delta_json ours_pace (pace5_ms m));
         (leader, ahead, behind) = nb
     in JObj [(''class_leader'', against leader), (''class_ahead'', against ahead), (''class_behind'', against behind),
          (''class_median'', delta_json ours_pace class_pace),
          (''competitors'', JObj (map (\<lambda>(i, q). (i, delta_json ours_pace q)) (filter (\<lambda>(i, q). i \<noteq> pt_id ours) (sort_key fst pace_by))))])"

definition TACTICAL_KEYS :: "string list" where
  "TACTICAL_KEYS = [''ours_identity'', ''ours_participant_id'', ''ours_class_key'', ''position_overall'', ''position_class'',
     ''completed_laps'', ''current_state'', ''last_lap_ms'', ''best_lap_ms'', ''last_to_best_delta_ms'',
     ''delta_to_class_best_ms'', ''class_leader_id'', ''class_ahead_id'', ''class_behind_id'',
     ''class_leader_completed_laps'', ''class_ahead_completed_laps'', ''class_behind_completed_laps'',
     ''class_leader_state'', ''class_ahead_state'', ''class_behind_state'', ''lap_delta_to_class_leader'',
     ''lap_delta_to_ahead'', ''lap_delta_to_behind'', ''gap_to_class_leader_ms'', ''gap_to_ahead_ms'', ''gap_to_behind_ms'',
     ''relation_intervals'', ''pace_3_ms'', ''pace_5_ms'', ''pace_10_ms'', ''consistency_10_ms'', ''class_pace_5_ms'',
     ''pace_rank_class'', ''pace_delta_to_reference_ms'', ''stint_number'', ''stint_started_at_us'', ''stint_elapsed_s'',
     ''tyre_age_laps'', ''stint_pace_5_ms'', ''stint_best_lap_ms'', ''stint_consistency_10_ms'', ''stint_trend_ms_per_lap'',
     ''stint_cumulative_pace_change_ms'', ''stint_pace_delta_previous_ms'', ''stint_abrupt_deterioration'',
     ''pace_delta_near_tyre_age_ms'', ''stint_clean_lap_count'', ''clean_lap_ratio_current_stint'', ''stint_summary'',
     ''pits_completed'', ''pit_history'', ''total_pit_lane_time_ms'', ''median_pit_lane_time_ms'', ''slow_lap_anomaly'',
     ''last_sector_ms'', ''personal_best_sector_ms'', ''class_best_sector_ms'', ''ideal_lap_ms'', ''potential_to_best_ms'',
     ''sector_delta_to_competitor_ms'', ''largest_sector_loss'']"

definition EMPTY_TACTICAL :: json_dict where
  "EMPTY_TACTICAL =
    map (\<lambda>k. (k, if k = ''relation_intervals'' then JObj [(''class_leader'', JNull), (''class_ahead'', JNull), (''class_behind'', JNull)]
                 else JNull)) TACTICAL_KEYS
      @ empty_race_obligation_values"

text \<open>The fields that describe the neighbours.\<close>

definition neighbour_values :: "participant_input \<Rightarrow> neighbours \<Rightarrow> (string \<times> participant_input) list \<Rightarrow> int \<Rightarrow> json_dict" where
  "neighbour_values ours nb roster observed_at_us =
    (let (leader, ahead, behind) = nb;
         rel = (\<lambda>t. relative_interval ours t roster observed_at_us)
     in [(''class_leader_id'', text_json (map_option pt_id leader)), (''class_ahead_id'', text_json (map_option pt_id ahead)),
         (''class_behind_id'', text_json (map_option pt_id behind)),
         (''class_leader_completed_laps'', int_json (Option.bind leader source_lap_count)),
         (''class_ahead_completed_laps'', int_json (Option.bind ahead source_lap_count)),
         (''class_behind_completed_laps'', int_json (Option.bind behind source_lap_count)),
         (''class_leader_state'', text_json (Option.bind leader state_kind_of)),
         (''class_ahead_state'', text_json (Option.bind ahead state_kind_of)),
         (''class_behind_state'', text_json (Option.bind behind state_kind_of)),
         (''lap_delta_to_class_leader'', int_json (lap_delta ours leader)), (''lap_delta_to_ahead'', int_json (lap_delta ours ahead)),
         (''lap_delta_to_behind'', int_json (lap_delta ours behind)),
         (''gap_to_class_leader_ms'', int_json (relation_value_ms (rel leader))),
         (''gap_to_ahead_ms'', int_json (relation_value_ms (rel ahead))),
         (''gap_to_behind_ms'', int_json (relation_value_ms (rel behind))),
         (''relation_intervals'', JObj [(''class_leader'', JObj (relation_dict (rel leader))),
           (''class_ahead'', JObj (relation_dict (rel ahead))), (''class_behind'', JObj (relation_dict (rel behind)))])])"

text \<open>The fields copied from the document of our own car.\<close>

definition COPIED_KEYS :: "string list" where
  "COPIED_KEYS = [''position_overall'', ''position_class'', ''completed_laps'', ''current_state'', ''last_lap_ms'',
     ''best_lap_ms'', ''last_to_best_delta_ms'', ''stint_number'', ''stint_started_at_us'', ''stint_elapsed_s'',
     ''tyre_age_laps'', ''stint_pace_5_ms'', ''stint_best_lap_ms'', ''stint_consistency_10_ms'', ''stint_trend_ms_per_lap'',
     ''stint_cumulative_pace_change_ms'', ''stint_pace_delta_previous_ms'', ''stint_abrupt_deterioration'',
     ''stint_clean_lap_count'', ''clean_lap_ratio_current_stint'', ''stint_summary'', ''pits_completed'', ''pit_history'',
     ''total_pit_lane_time_ms'', ''median_pit_lane_time_ms'', ''slow_lap_anomaly'']"

definition delta_to_class_best :: "participant_input \<Rightarrow> class_scope option \<Rightarrow> int option" where
  "delta_to_class_best ours scope = (case (best_lap_ms ours, Option.bind scope class_best_lap_ms) of
     (Some b, Some c) \<Rightarrow> Some (b - c) | _ \<Rightarrow> None)"

definition roster_of :: "class_scope option \<Rightarrow> (string \<times> participant_input) list" where
  "roster_of scope = (case scope of None \<Rightarrow> [] | Some sc \<Rightarrow> dict_of (map (\<lambda>p. (pt_id p, p)) (cs_participants sc)))"

definition ours_tactical_values ::
    "heat_input \<Rightarrow> int \<Rightarrow> json_dict \<Rightarrow> (string \<Rightarrow> pace_metrics option) \<Rightarrow> (string \<Rightarrow> participant_input list option)
      \<Rightarrow> (string \<Rightarrow> lap_sample list) \<Rightarrow> (string \<Rightarrow> sector_values) \<Rightarrow> json_dict" where
  "ours_tactical_values h observed_at_us session pace_of order_of samples_of sectors_of =
    (case our_participant h of
       None \<Rightarrow> EMPTY_TACTICAL
     | Some ours \<Rightarrow>
        if ms_identity_state (ht_session h) \<noteq> ''resolved'' then EMPTY_TACTICAL
        else (case pace_of (pt_id ours) of
            None \<Rightarrow> EMPTY_TACTICAL
          | Some pace \<Rightarrow>
             (let values = participant_values ours observed_at_us pace (samples_of (pt_id ours)) (sectors_of (pt_id ours));
                  scope = current_class_scope h;
                  nb = class_neighbours (Option.bind scope (\<lambda>sc. order_of (cs_key sc))) (pt_id ours);
                  pace_by = (case scope of None \<Rightarrow> [] | Some sc \<Rightarrow> class_pace_by_id pace_of sc);
                  class_pace = (case scope of None \<Rightarrow> None | Some _ \<Rightarrow> class_median_pace_ms (as_numbers pace_by))
              in dict_of (EMPTY_TACTICAL @
                  [(''ours_identity'', identity_json ours), (''ours_participant_id'', JStr (pt_id ours)),
                   (''ours_class_key'', text_json (pt_class_key ours))]
                  @ map (\<lambda>k. (k, jget k values)) COPIED_KEYS
                  @ [(''delta_to_class_best_ms'', int_json (delta_to_class_best ours scope))]
                  @ neighbour_values ours nb (roster_of scope) observed_at_us
                  @ [(''pace_3_ms'', rat_json (pace3_ms pace)), (''pace_5_ms'', rat_json (pace5_ms pace)),
                     (''pace_10_ms'', rat_json (pace10_ms pace)), (''consistency_10_ms'', rat_json (consistency10_ms pace)),
                     (''class_pace_5_ms'', rat_json class_pace),
                     (''pace_rank_class'', if pace_by = [] then JNull else opt_json nat_json (pace_rank (pt_id ours) (as_numbers pace_by))),
                     (''pace_delta_to_reference_ms'', pace_references pace_of ours (pace5_ms pace) nb class_pace pace_by),
                     (''pace_delta_near_tyre_age_ms'', opt_json (\<lambda>d. JObj (map (\<lambda>(i, q). (i, rat_json q)) d))
                       (near_tyre_age_pace_delta ours scope samples_of))]
                  @ sector_metrics ours scope sectors_of
                  @ race_obligation_values h ours (number_of (jget ''session_elapsed_s'' session)) pace))))"

definition class_values :: "class_scope \<Rightarrow> (string \<Rightarrow> pace_metrics option) \<Rightarrow> participant_input list option \<Rightarrow> json_dict" where
  "class_values sc pace_of order =
    (let pace_by = class_pace_by_id pace_of sc; durations = class_pit_durations (Some sc) in
     [(''class_key'', JStr (cs_key sc)), (''class_name'', JStr (cs_display_name sc)),
      (''participant_count'', nat_json (length (cs_participants sc))),
      (''class_best_lap_ms'', int_json (class_best_lap_ms sc)),
      (''class_best_start_number'', text_json (cs_class_best_start_number sc)),
      (''class_pace_5_ms'', rat_json (class_median_pace_ms (as_numbers pace_by))),
      (''pace_5_by_participant'', JObj (map (\<lambda>(i, q). (i, rat_json q)) (sort_key fst pace_by))),
      (''class_leader_id'', text_json (map_option (pt_id \<circ> hd) order)),
      (''class_order_basis'', text_json (map_option (\<lambda>_. ''PIC'') order)),
      (''class_order_participant_ids'', opt_json (\<lambda>ms. JList (map (JStr \<circ> pt_id) ms)) order),
      (''median_pit_lane_time_ms'', rat_json (median_non_negative (map of_int durations))),
      (''total_completed_pits'', nat_json (sum_list (map (length \<circ> completed_pits) (cs_participants sc))))])"

section \<open>Alerts\<close>

record alert =
  al_key :: string
  al_severity :: string
  al_at_us :: int
  al_fact :: json_dict
  al_numeric_consequence :: json

definition event_alert :: "string \<Rightarrow> string \<Rightarrow> int \<Rightarrow> json_dict \<Rightarrow> json \<Rightarrow> alert" where
  "event_alert k severity observed_at_us reason consequence = \<lparr> al_key = k, al_severity = severity, al_at_us = observed_at_us,
     al_fact = reason, al_numeric_consequence = consequence \<rparr>"

definition alert_json :: "alert \<Rightarrow> json" where
  "alert_json a = JObj [(''key'', JStr (al_key a)), (''severity'', JStr (al_severity a)), (''at_us'', JInt (al_at_us a)),
     (''fact'', JObj (al_fact a)), (''numeric_consequence'', al_numeric_consequence a)]"

definition CATCH_ALERT_LAPS :: rat where "CATCH_ALERT_LAPS = 5"
definition SCHEDULE_DEVIATION_ALERT_S :: rat where "SCHEDULE_DEVIATION_ALERT_S = 900"

text \<open>The alerts at the start of the function: channel, flag and heat.\<close>

definition source_alerts :: "metric_boundary option \<Rightarrow> heat_input \<Rightarrow> int \<Rightarrow> json_dict \<Rightarrow> alert list" where
  "source_alerts prior h observed_at_us session =
    (let now = build_boundary_state h; phase = jget ''flag_phase_elapsed_s'' session in
     (if jget ''channel_status'' session = JStr CHANNEL_OFFLINE \<and>
         (case prior of None \<Rightarrow> True
          | Some b \<Rightarrow> mb_source_gap b \<noteq> mb_source_gap now \<or> mb_ours_participant_id b \<noteq> mb_ours_participant_id now)
      then [event_alert ''source_offline_or_ours_missing'' ''critical'' observed_at_us
        [(''channel_status'', JStr CHANNEL_OFFLINE), (''ours_present'', JBool (our_participant h \<noteq> None))] phase] else []) @
     (case prior of
        None \<Rightarrow> []
      | Some b \<Rightarrow>
         (if mb_flag b \<noteq> mb_flag now
          then event_alert ''flag_changed'' ''action'' observed_at_us [(''track_flag'', jget ''track_flag'' session)] phase #
            (if jget ''track_flag'' session = JStr ''RED''
             then [event_alert ''red_flag_or_session_reset'' ''critical'' observed_at_us [(''track_flag'', JStr ''RED'')] phase] else [])
          else []) @
         (if mb_source_heat_id b \<noteq> mb_source_heat_id now
          then [event_alert ''red_flag_or_session_reset'' ''critical'' observed_at_us [(''source_heat_reset'', JBool True)] JNull]
          else [])))"

definition catch_alert :: "int \<Rightarrow> json_dict \<Rightarrow> string \<Rightarrow> alert list" where
  "catch_alert observed_at_us battle direction =
    (case Option.bind (obj_of (jget ''catch_range'' battle)) (\<lambda>d. obj_of (jget direction d)) of
       None \<Rightarrow> []
     | Some catch \<Rightarrow>
        (case number_of (jget ''min_laps'' catch) of
           None \<Rightarrow> []
         | Some n \<Rightarrow>
            if n \<le> CATCH_ALERT_LAPS
            then [event_alert ''catch_or_threat_crossing'' ''action'' observed_at_us
              [(''direction'', JStr direction), (''threshold_laps'', JNum (PyFloat CATCH_ALERT_LAPS))] (jget ''min_laps'' catch)]
            else []))"

definition race_alerts :: "heat_input \<Rightarrow> int \<Rightarrow> json_dict \<Rightarrow> json_dict \<Rightarrow> json_dict \<Rightarrow> alert list" where
  "race_alerts h observed_at_us session tactical battle =
    (if our_participant h = None \<or> ms_mode (ht_session h) \<noteq> ''race'' then []
     else
      (case (optional_integer (jget ''pits_remaining'' tactical), number_of (jget ''session_remaining_s'' session),
             median_non_negative (map of_int (class_pit_durations (current_class_scope h)))) of
         (Some remaining_pits, Some remaining_s, Some m) \<Rightarrow>
           (let required_s = of_int remaining_pits * m / 1000 in
            if 0 < remaining_pits \<and> remaining_s < required_s
            then [event_alert ''mandatory_pits_infeasible'' ''critical'' observed_at_us
              [(''remaining_pits'', JInt remaining_pits), (''observed_pit_cycle_ms'', JNum (PyFloat m))]
              (JNum (PyFloat (required_s - remaining_s)))] else [])
       | _ \<Rightarrow> []) @
      catch_alert observed_at_us battle ''ahead'' @ catch_alert observed_at_us battle ''behind'' @
      (case number_of (jget ''stint_schedule_deviation_s'' tactical) of
         None \<Rightarrow> []
       | Some deviation \<Rightarrow>
          if SCHEDULE_DEVIATION_ALERT_S \<le> \<bar>deviation\<bar>
          then [event_alert ''even_schedule_deviation'' ''action'' observed_at_us
            [(''threshold_s'', JNum (PyFloat SCHEDULE_DEVIATION_ALERT_S))] (jget ''stint_schedule_deviation_s'' tactical)] else []))"

definition open_pit :: "participant_input \<Rightarrow> pit_stop_input option" where
  "open_pit p = find (\<lambda>s. \<not> pi_completed s \<and> pi_exited_at_us s = None) (rev (pt_pit_stops p))"

definition pit_alerts :: "heat_input \<Rightarrow> int \<Rightarrow> alert list" where
  "pit_alerts h observed_at_us =
    (let baseline = map of_int (class_pit_durations (current_class_scope h)) in
     case Option.bind (our_participant h) open_pit of
       None \<Rightarrow> []
     | Some stop \<Rightarrow>
        if length baseline < 3 then []
        else (case median_non_negative baseline of
            None \<Rightarrow> []
          | Some m \<Rightarrow>
             (case median_non_negative (abs_deviations m baseline) of
                None \<Rightarrow> []
              | Some d \<Rightarrow>
                 (let current = of_int ((observed_at_us - pi_entered_at_us stop) div 1000) in
                  if m + 3 * d < current
                  then [event_alert ''ours_pit_too_long'' ''critical'' observed_at_us
                    [(''median_ms'', JNum (PyFloat m)), (''mad_ms'', JNum (PyFloat d)), (''stop_number'', JInt (pi_stop_number stop))]
                    (JNum (PyFloat (current - (m + 3 * d))))] else []))))"

text \<open>The deterioration of a stint is the document of \<open>abrupt_deterioration\<close>; its last lap carries the excess.\<close>

definition last_lap_excess :: "json_dict \<Rightarrow> json" where
  "last_lap_excess d = (case jget ''laps'' d of
     JList laps \<Rightarrow> (if laps = [] then JNull else case obj_of (last laps) of None \<Rightarrow> JNull | Some l \<Rightarrow> jget ''excess_ms'' l)
   | _ \<Rightarrow> JNull)"

definition stint_alerts :: "int \<Rightarrow> json_dict \<Rightarrow> alert list" where
  "stint_alerts observed_at_us tactical =
    (case obj_of (jget ''stint_abrupt_deterioration'' tactical) of
       None \<Rightarrow> []
     | Some d \<Rightarrow> [event_alert ''stint_pace_deteriorated'' ''action'' observed_at_us d (last_lap_excess d)])"

definition boundary_of :: "metric_boundary \<Rightarrow> string \<Rightarrow> participant_boundary option" where
  "boundary_of prior i = find (\<lambda>b. pb_participant_id b = i) (mb_participants prior)"

definition our_alerts :: "participant_boundary \<Rightarrow> participant_input \<Rightarrow> int \<Rightarrow> json_dict \<Rightarrow> alert list" where
  "our_alerts old ours observed_at_us tactical =
    (let position = Option.bind (pt_state ours) (\<lambda>s. rank_of (ps_position_class s)) in
     (if pb_best_lap_ms old \<noteq> best_lap_ms ours
      then [event_alert ''new_best_lap'' ''information'' observed_at_us
        [(''participant_id'', JStr (pt_id ours)), (''previous_best_ms'', int_json (pb_best_lap_ms old))] (int_json (best_lap_ms ours))]
      else []) @
     (if pb_position_class old \<noteq> position
      then [event_alert ''class_position_changed'' ''information'' observed_at_us
        [(''previous_position'', int_json (pb_position_class old)), (''current_position'', int_json position)]
        (jget ''position_change'' tactical)]
      else []) @
     (if pb_pits old \<noteq> pb_pits (participant_boundary_state ours)
      then [event_alert ''pit_completed_new_stint'' ''information'' observed_at_us
        [(''participant_id'', JStr (pt_id ours)), (''stint_number'', jget ''stint_number'' tactical)]
        (jget ''total_pit_lane_time_ms'' tactical)]
      else []))"

definition last_pit_duration :: "participant_input \<Rightarrow> json" where
  "last_pit_duration p = (if pit_history p = [] then JNull else int_json (pr_pit_lane_duration_ms (last (pit_history p))))"

definition competitor_alerts :: "participant_boundary \<Rightarrow> participant_input \<Rightarrow> int \<Rightarrow> alert list" where
  "competitor_alerts old c observed_at_us =
    (let current = participant_boundary_state c in
     (if pb_state_kind old \<noteq> pb_state_kind current \<and> pb_state_kind current \<in> {Some ''IN_PIT'', Some ''OUT_LAP''}
      then [event_alert ''competitor_pit_transition'' ''action'' observed_at_us
        [(''participant_id'', JStr (pt_id c)), (''state'', text_json (pb_state_kind current))] (nat_json (length (completed_pits c)))]
      else []) @
     (if pb_pits old \<noteq> pb_pits current
      then [event_alert ''pit_completed_new_stint'' ''information'' observed_at_us
        [(''participant_id'', JStr (pt_id c)), (''stint_number'', int_json (map_option ti_stint_number (active_tire_stint c)))]
        (last_pit_duration c)]
      else []))"

definition transition_alerts :: "metric_boundary \<Rightarrow> heat_input \<Rightarrow> int \<Rightarrow> json_dict \<Rightarrow> alert list" where
  "transition_alerts prior h observed_at_us tactical =
    (case our_participant h of
       None \<Rightarrow> []
     | Some ours \<Rightarrow>
        (case boundary_of prior (pt_id ours) of None \<Rightarrow> [] | Some old \<Rightarrow> our_alerts old ours observed_at_us tactical) @
        (let nearest = List.map_filter optional_text [jget ''class_ahead_id'' tactical, jget ''class_behind_id'' tactical];
             members = (case current_class_scope h of None \<Rightarrow> [] | Some sc \<Rightarrow> cs_participants sc)
         in concat (map (\<lambda>c. case map_of (by_id (mb_participants prior)) (pt_id c) of
              None \<Rightarrow> []
            | Some old \<Rightarrow> competitor_alerts old c observed_at_us) (filter (\<lambda>c. pt_id c \<in> set nearest) members))))"

definition order_alerts :: "metric_boundary \<Rightarrow> heat_input \<Rightarrow> int \<Rightarrow> json_dict \<Rightarrow> alert list" where
  "order_alerts prior h observed_at_us tactical =
    (case current_class_scope h of
       None \<Rightarrow> []
     | Some sc \<Rightarrow>
        (let before = (case map_of (dict_of (mb_class_order_members prior)) (cs_key sc) of None \<Rightarrow> [] | Some ms \<Rightarrow> ms)
         in if before \<noteq> snd (order_members sc)
            then [event_alert ''class_leader_or_neighbor_changed'' ''information'' observed_at_us
              (map (\<lambda>k. (k, jget k tactical)) [''class_leader_id'', ''class_ahead_id'', ''class_behind_id'']) JNull]
            else []))"

definition metric_alerts ::
    "heat_input \<Rightarrow> metric_boundary option \<Rightarrow> int \<Rightarrow> json_dict \<Rightarrow> json_dict \<Rightarrow> json_dict \<Rightarrow> alert list" where
  "metric_alerts h prior observed_at_us session tactical battle =
    source_alerts prior h observed_at_us session @ race_alerts h observed_at_us session tactical battle @
    pit_alerts h observed_at_us @ stint_alerts observed_at_us tactical @
    (case prior of None \<Rightarrow> [] | Some b \<Rightarrow>
      transition_alerts b h observed_at_us tactical @ order_alerts b h observed_at_us tactical)"

section \<open>The evaluation\<close>

record metric_candidate =
  ca_scope_kind :: string
  ca_scope_key :: string
  ca_values :: json_dict
  ca_event_boundary :: bool
  ca_history_values :: json_dict

record engine_result =
  er_source_heat_id :: int
  er_observed_at_us :: int
  er_candidates :: "metric_candidate list"
  er_event_keys :: "string list"
  er_boundary_state :: metric_boundary

definition sectors_by_id ::
    "(string \<Rightarrow> json option) \<Rightarrow> participant_input list \<Rightarrow> engine_error + (string \<times> sector_values) list" where
  "sectors_by_id loads ps = (case traverse (\<lambda>p. case participant_sector_values loads p of
       Inl e \<Rightarrow> Inl (SectorError e) | Inr v \<Rightarrow> Inr (pt_id p, v)) ps of
     Inl e \<Rightarrow> Inl e | Inr d \<Rightarrow> Inr (dict_of d))"

definition candidate_of ::
    "scope list \<Rightarrow> string list \<Rightarrow> string \<Rightarrow> string \<Rightarrow> json_dict \<Rightarrow> metric_candidate" where
  "candidate_of scopes keys kind k values = \<lparr> ca_scope_kind = kind, ca_scope_key = k, ca_values = values,
     ca_event_boundary = ((kind, k) \<in> set scopes), ca_history_values = history_values keys values \<rparr>"

definition get_or :: "'a \<Rightarrow> (string \<times> 'a) list \<Rightarrow> string \<Rightarrow> 'a" where
  "get_or fallback d k = (case map_of d k of Some v \<Rightarrow> v | None \<Rightarrow> fallback)"

definition evaluate_heat_metrics ::
    "(string \<Rightarrow> json option) \<Rightarrow> (gap_direction \<Rightarrow> string) \<Rightarrow> heat_input \<Rightarrow> metric_boundary option \<Rightarrow> history_point list
      \<Rightarrow> engine_error + engine_result" where
  "evaluate_heat_metrics loads labels h previous history =
    (let now = ht_observed_at_us h;
         session = session_values h now;
         samples_of = get_or [] (dict_of (map (\<lambda>p. (pt_id p, lap_samples p)) (ht_participants h)));
         pace_of = map_of (dict_of (map (\<lambda>p. (pt_id p, participant_pace p)) (ht_participants h)))
     in case sectors_by_id loads (ht_participants h) of Inl e \<Rightarrow> Inl e | Inr sectors \<Rightarrow>
      (let sectors_of = get_or \<lparr> sv_last = [], sv_personal = [] \<rparr> sectors;
           order_of = get_or None (dict_of (map (\<lambda>sc. (cs_key sc, class_order sc)) (ht_class_scopes h)));
           tactical = ours_tactical_values h now session pace_of order_of samples_of sectors_of
       in case battle_values labels h now session tactical pace_of history of Inl e \<Rightarrow> Inl e | Inr battle \<Rightarrow>
        (let alerts = metric_alerts h previous now session tactical battle;
             scopes = event_scopes previous h;
             values = dict_of (session @ tactical @ battle @ [(''alerts'', JList (map alert_json alerts))])
         in Inr \<lparr> er_source_heat_id = ht_source_heat_id h, er_observed_at_us = now,
              er_candidates =
                candidate_of scopes SESSION_HISTORY_KEYS ''session'' (ms_id (ht_session h)) values #
                map (\<lambda>sc. candidate_of scopes CLASS_HISTORY_KEYS ''class'' (cs_key sc)
                  (class_values sc pace_of (order_of (cs_key sc)))) (sort_key cs_key (ht_class_scopes h)) @
                map (\<lambda>p. candidate_of scopes PARTICIPANT_HISTORY_KEYS ''participant'' (pt_id p)
                  (participant_values p now (the (pace_of (pt_id p))) (samples_of (pt_id p)) (sectors_of (pt_id p))))
                  (sort_key pt_id (ht_participants h)),
              er_event_keys = detect_event_boundaries previous h,
              er_boundary_state = build_boundary_state h \<rparr>)))"

section \<open>Neighbours\<close>

lemma index_of_Some: "index_of i ms = Some k \<Longrightarrow> k < length ms \<and> pt_id (ms ! k) = i"
proof (induction ms arbitrary: k)
  case (Cons p ms)
  then show ?case by (cases k) (auto split: if_splits)
qed simp

lemma index_of_nth: "distinct (map pt_id ms) \<Longrightarrow> k < length ms \<Longrightarrow> index_of (pt_id (ms ! k)) ms = Some k"
proof (induction ms arbitrary: k)
  case (Cons p ms)
  show ?case
  proof (cases k)
    case (Suc j)
    then have "pt_id (ms ! j) \<in> pt_id ` set ms" using Cons.prems by auto
    then show ?thesis using Cons Suc by auto
  qed simp
qed simp

lemma class_order_distinct:
  assumes "class_order sc = Some ms" "distinct (map pt_id (cs_participants sc))"
  shows "distinct (map pt_id ms)" "ms \<noteq> []"
proof -
  let ?m = "sort_key pt_id (filter pt_active (cs_participants sc))"
  have ms: "ms = sort_key (\<lambda>m. (the (class_rank m), pt_id m)) ?m" "?m \<noteq> []"
    using assms(1) by (auto simp: class_order_def Let_def split: if_splits)
  have "distinct (map pt_id ?m)"
    using distinct_map_filter[OF assms(2)] mset_eq_imp_distinct_iff[of "map pt_id ?m" "map pt_id (filter pt_active (cs_participants sc))"]
    by simp
  moreover have "mset (map pt_id ms) = mset (map pt_id ?m)" unfolding ms(1) by simp
  ultimately show "distinct (map pt_id ms)" using mset_eq_imp_distinct_iff by blast
  show "ms \<noteq> []" using ms by (metis length_0_conv length_sort)
qed

lemma neighbours_at:
  assumes "distinct (map pt_id ms)" "k < length ms"
  shows "class_neighbours (Some ms) (pt_id (ms ! k)) =
    (Some (ms ! 0), if 0 < k then Some (ms ! (k - 1)) else None, if k + 1 < length ms then Some (ms ! (k + 1)) else None)"
  by (simp add: class_neighbours_def index_of_nth[OF assms])

text \<open>invariant. The tactical neighbours of the cars of one class fit together: a car is behind
  another exactly when the other is ahead of it, all cars have the same leader, and the leader is
  the one car with nobody ahead.\<close>
theorem neighbours_are_mutual:
  assumes order: "class_order sc = Some ms" and ids: "distinct (map pt_id (cs_participants sc))"
    and a: "a \<in> set ms" and b: "b \<in> set ms"
  shows "(snd (snd (class_neighbours (Some ms) (pt_id a))) = Some b \<longleftrightarrow>
      fst (snd (class_neighbours (Some ms) (pt_id b))) = Some a) \<and>
    fst (class_neighbours (Some ms) (pt_id a)) = Some (hd ms) \<and>
    (fst (snd (class_neighbours (Some ms) (pt_id a))) = None \<longleftrightarrow> a = hd ms)"
proof -
  note d = class_order_distinct[OF order ids]
  obtain i j where i: "i < length ms" "ms ! i = a" and j: "j < length ms" "ms ! j = b"
    using a b by (auto simp: in_set_conv_nth)
  have same: "ms ! x = ms ! y \<longleftrightarrow> x = y" if "x < length ms" "y < length ms" for x y
    using that d(1) by (simp add: distinct_map nth_eq_iff_index_eq)
  have h: "hd ms = ms ! 0" "0 < length ms" using d(2) by (simp_all add: hd_conv_nth)
  have "i + 1 < length ms \<and> ms ! (i + 1) = ms ! j \<longleftrightarrow> 0 < j \<and> ms ! (j - 1) = ms ! i"
    using same[of "i + 1" j] same[of "j - 1" i] i j by auto
  moreover have "ms ! i = ms ! 0 \<longleftrightarrow> i = 0" using same i h(2) by blast
  ultimately show ?thesis
    unfolding i(2)[symmetric] j(2)[symmetric] neighbours_at[OF d(1) i(1)] neighbours_at[OF d(1) j(1)] h(1) by auto
qed

section \<open>The range of remaining laps\<close>

lemma last_n_positive:
  assumes "d \<in> set (last_n n (map lap_duration (select_clean_laps laps)))"
  shows "0 < d"
proof -
  have "d \<in> lap_duration ` set (select_clean_laps laps)" using assms set_last_n by fastforce
  then show ?thesis using lap_duration_pos by (auto simp: set_select_clean)
qed

lemma pace_facts:
  assumes "calculate_pace_metrics laps b w = Inr m"
  shows "pace5_ms m = Some p \<Longrightarrow> 0 < p" "consistency10_ms m = Some c \<Longrightarrow> 0 \<le> c"
proof -
  let ?clean = "select_clean_laps laps"
  have m: "pace5_ms m = pace_window (map lap_duration ?clean) 5"
    "consistency10_ms m = map_option ((*) (14826/10000))
       (if length (last_n 10 (map lap_duration ?clean)) = 10
        then mad_ms (map (\<lambda>d. Some (PyFloat d)) (last_n 10 (map lap_duration ?clean))) else None)"
    using assms unfolding calculate_pace_metrics_def Let_def by (auto split: if_splits)
  have pos: "\<forall>d \<in> set (last_n n (map lap_duration ?clean)). 0 < d" for n
    using last_n_positive by blast
  show "0 < p" if "pace5_ms m = Some p"
  proof -
    from that have md: "median (last_n 5 (map lap_duration ?clean)) = Some p"
      unfolding m pace_window_def by (auto split: if_splits)
    let ?lo = "Min (set (last_n 5 (map lap_duration ?clean)))"
    have ne: "set (last_n 5 (map lap_duration ?clean)) \<noteq> {}" using md by auto
    have "?lo \<le> p" by (rule median_lower[OF md]) simp
    moreover have "0 < ?lo" using pos Min_in[OF _ ne] by blast
    ultimately show ?thesis by simp
  qed
  show "0 \<le> c" if c: "consistency10_ms m = Some c"
  proof -
    obtain z where z: "mad (last_n 10 (map lap_duration ?clean)) = Some z" "7413 * z = c * 5000"
      using c pos unfolding m by (auto simp: mad_ms_floats split: if_splits)
    then show ?thesis using mad_nonneg[OF z(1)] by linarith
  qed
qed

lemma participant_pace_facts:
  "pace5_ms (participant_pace p) = Some x \<Longrightarrow> 0 < x" "consistency10_ms (participant_pace p) = Some c \<Longrightarrow> 0 \<le> c"
proof -
  have "\<exists>m. calculate_pace_metrics (lap_samples p) True (Some SLOW_LAP_MAX_CLEAN_LAPS) = Inr m"
    by (simp add: calculate_pace_metrics_def Let_def SLOW_LAP_MAX_CLEAN_LAPS_def)
  then obtain m where m: "calculate_pace_metrics (lap_samples p) True (Some SLOW_LAP_MAX_CLEAN_LAPS) = Inr m" by blast
  have "pace5_ms (participant_pace p) = pace5_ms m" "consistency10_ms (participant_pace p) = consistency10_ms m"
    by (simp_all add: participant_pace_def pace_with_prefix_def m Let_def)
  then show "pace5_ms (participant_pace p) = Some x \<Longrightarrow> 0 < x" "consistency10_ms (participant_pace p) = Some c \<Longrightarrow> 0 \<le> c"
    using pace_facts[OF m] by auto
qed

text \<open>bounds. The expected range of remaining laps is sound: whoever laps steadily at any time
  between the car's pace minus and plus its consistency (and at least a millisecond) completes, in
  the time that remains, at least the lower and at most the upper number of laps.\<close>
theorem remaining_laps_are_bracketed:
  assumes range: "remaining_laps_range remaining_s (participant_pace p) = Some (lo, hi)" and r: "0 \<le> remaining_s"
    and pace: "pace5_ms (participant_pace p) = Some pace" "consistency10_ms (participant_pace p) = Some spread"
    and lap: "pace - spread \<le> lap" "lap \<le> pace + spread" "1 \<le> lap"
  shows "0 \<le> lo \<and> of_int lo \<le> remaining_s * 1000 / lap \<and> remaining_s * 1000 / lap \<le> of_int hi"
proof -
  note pos = participant_pace_facts(1)[OF pace(1)] participant_pace_facts(2)[OF pace(2)]
  have lo: "lo = \<lfloor>remaining_s * 1000 / (pace + spread)\<rfloor>" and hi: "hi = \<lceil>remaining_s * 1000 / max 1 (pace - spread)\<rceil>"
    using range by (simp_all add: remaining_laps_range_def pace Let_def)
  have "remaining_s * 1000 / (pace + spread) \<le> remaining_s * 1000 / lap"
    by (rule divide_left_mono) (use lap r in auto)
  moreover have "remaining_s * 1000 / lap \<le> remaining_s * 1000 / max 1 (pace - spread)"
    by (rule divide_left_mono) (use lap r in auto)
  ultimately have "of_int lo \<le> remaining_s * 1000 / lap" "remaining_s * 1000 / lap \<le> of_int hi"
    unfolding lo hi by linarith+
  moreover have "0 \<le> lo" unfolding lo using r pos by simp
  ultimately show ?thesis by blast
qed

section \<open>Forecasts\<close>

text \<open>functional. The required pace is exactly the pace that settles the battle at the flag: over
  the laps our car still drives, lapping at it gains the whole gap on a target ahead that keeps its
  pace, or gives away exactly the gap to one behind.\<close>
theorem required_pace_settles_the_gap:
  assumes "required_pace_ms relation (Some ours) (Some target) (Some gap) (Some remaining) = Some required" "0 < ours"
  shows "(if relation = GAP_RELATION_AHEAD then target - required else required - target) * (remaining * 1000 / ours) = of_int gap"
proof -
  have "0 < remaining" using assms by (auto simp: required_pace_ms_def split: if_splits)
  then have "remaining * 1000 / ours \<noteq> 0" using assms(2) by simp
  then show ?thesis using assms by (auto simp: required_pace_ms_def Let_def split: if_splits)
qed

section \<open>Measured gaps\<close>

text \<open>
  A document, kept at some instant, that shows a measured gap: live channel, Green, both cars on track,
  and a valid interval all of whose source cells are changes (\<open>DELTA\<close>). Such an interval stays in
  the documents that follow until its cells change; \<open>at_us\<close> is the time of its cells, which does not move
  with the document (the time of the document if it names none).
\<close>

definition measured :: "json_dict \<Rightarrow> int \<Rightarrow> string \<Rightarrow> string \<Rightarrow> int \<Rightarrow> int \<Rightarrow> bool" where
  "measured values document_us relation target gap at_us \<longleftrightarrow>
     channel_is_live values \<and> jget ''track_flag'' values = JStr GREEN_FLAG \<and>
     (\<exists>d. relation_of_values values relation = Some d \<and> has_delta d \<and> dict_relation_value_ms d = Some gap \<and>
        jget ''target_participant_id'' d = JStr target \<and>
        jget ''ours_state_kind'' d = JStr ON_TRACK_STATE \<and> jget ''target_state_kind'' d = JStr ON_TRACK_STATE \<and>
        at_us = (case optional_integer (jget ''source_observed_at_us'' d) of Some t \<Rightarrow> t | None \<Rightarrow> document_us))"

text \<open>The documents a battle is computed from, with their times.\<close>

definition documents :: "history_point list \<Rightarrow> int \<Rightarrow> json_dict \<Rightarrow> (int \<times> json_dict) list" where
  "documents history now current = map (\<lambda>h. (hp_observed_at_us h, hp_values h)) history @ [(now, current)]"

lemma optional_text_Some: "optional_text j = Some s \<longleftrightarrow> j = JStr s"
  by (cases j) (auto simp: optional_text_def)

lemma eligible_is_measured:
  assumes "is_eligible_gap_sample (gap_sample_from_values now values relation)"
    "gs_target_participant_id (gap_sample_from_values now values relation) = Some target"
    "gs_gap_ms (gap_sample_from_values now values relation) = Some gap"
    "gs_observed_at_us (gap_sample_from_values now values relation) = Some at_us"
  shows "measured values now relation target gap at_us"
  using assms
  by (auto simp: measured_def is_eligible_gap_sample_def gap_sample_from_values_def Let_def bind_eq_Some_conv
      optional_text_Some channel_is_live_def split: if_splits)

lemma in_battle_samples:
  assumes "s \<in> set (battle_samples history now current relation)"
  obtains t doc where "s = gap_sample_from_values t doc relation" "(t, doc) \<in> set (documents history now current)"
  using assms unfolding battle_samples_def documents_def by auto

text \<open>C35. safety. A closure shown to the crew rests on gaps measured apart in time: both ends of every
  time-window trend are documents, of the history or the current one, that show a gap to the same car
  measured by changed source cells on a live channel under Green; the gaps and the times reported are
  those of the cells, and the cells of the two ends are at least the window apart. So a gap that is
  merely carried over from document to document keeps its old time and makes no trend with itself.\<close>
theorem closure_rests_on_measured_gaps:
  assumes "map_of (bs_trends (battle_side_of history now current relation)) w = Some (Some t)"
  shows "\<exists>(u, first) \<in> set (documents history now current). \<exists>(v, final) \<in> set (documents history now current). \<exists>target.
    measured first u relation target (gt_started_gap_ms t) (gt_started_at_us t) \<and>
    measured final v relation target (gt_ended_gap_ms t) (gt_ended_at_us t) \<and>
    0 < w \<and> gt_started_at_us t + w * 1000000 \<le> gt_ended_at_us t"
proof -
  let ?samples = "battle_samples history now current relation" and ?docs = "set (documents history now current)"
  have w: "w \<in> set GAP_WINDOWS_S" "calculate_gap_trend ?samples relation w = Some t"
    using assms by (auto simp: battle_side_of_def Let_def calculate_gap_trends_def GAP_WINDOWS_S_def split: if_splits)
  then obtain seg where seg: "clear_span (ordered_gap_samples ?samples) seg"
    "gap_trend_between relation w (hd seg) (last seg) = Some t"
    "the (gs_observed_at_us (hd seg)) \<le> the (gs_observed_at_us (last seg)) - w * 1000000" using gap_trend_span by blast
  note ends = clear_span_ends[OF seg(1)]
  have sub: "set seg \<subseteq> set ?samples"
    using seg(1) by (auto simp: clear_span_def dest!: arg_cong[where f = set] simp flip: set_mset_mset)
  obtain target where target: "\<forall>s \<in> set seg. gs_target_participant_id s = Some target"
    using seg(1) ends(1,2) by (auto simp: clear_span_def is_eligible_gap_sample_def Let_def split: option.splits)
  have one: "\<exists>(u, d) \<in> ?docs. measured d u relation target gap at_us"
    if "s \<in> set seg" "is_eligible_gap_sample s" "gs_gap_ms s = Some gap" "gs_observed_at_us s = Some at_us" for s gap at_us
  proof -
    from that(1) sub obtain tm doc where s: "s = gap_sample_from_values tm doc relation" "(tm, doc) \<in> ?docs"
      by (blast elim: in_battle_samples)
    then have "measured doc tm relation target gap at_us" using eligible_is_measured that target by blast
    then show ?thesis using s(2) by blast
  qed
  have "gs_gap_ms (hd seg) = Some (gt_started_gap_ms t)" "gs_gap_ms (last seg) = Some (gt_ended_gap_ms t)"
    "gs_observed_at_us (hd seg) = Some (gt_started_at_us t)" "gs_observed_at_us (last seg) = Some (gt_ended_at_us t)"
    using gap_trend_between_Some[OF seg(2)] eligible_observed[OF ends(2)] eligible_observed[OF ends(3)] by auto
  moreover have "0 < w" using w(1) by (auto simp: GAP_WINDOWS_S_def)
  ultimately show ?thesis
    using one[OF hd_in_set[OF ends(1)] ends(2)] one[OF last_in_set[OF ends(1)] ends(3)] seg(3) by fastforce
qed

section \<open>Alerts\<close>

lemma set_fold_update_keys:
  "set (map fst (fold (\<lambda>(k, v) d. AList.update k v d) xs d)) = set (map fst d) \<union> set (map fst xs)"
proof (induction xs arbitrary: d)
  case (Cons x xs)
  have "fst ` set (AList.update k v d) = insert k (fst ` set d)" for k v using dom_update[of k v d] by simp
  then show ?case using Cons by (cases x) auto
qed simp

lemma dict_of_keys: "set (map fst (dict_of xs)) = set (map fst xs)"
  by (simp only: dict_of_def set_fold_update_keys) simp

lemma jget_missing: "k \<notin> set (map fst d) \<Longrightarrow> jget k d = JNull"
  using map_of_eq_None_iff[of d k] by (simp add: jget_def)

lemma current_scope_in: "current_class_scope h = Some sc \<Longrightarrow> sc \<in> set (ht_class_scopes h)"
  by (auto simp: current_class_scope_def find_scope_def find_Some_iff bind_eq_Some_conv Let_def)

lemma find_map_of: "find (\<lambda>b. f b = i) bs = map_of (map (\<lambda>b. (f b, b)) bs) i"
  by (induction bs) auto

lemma boundary_ids:
  assumes "distinct (map pt_id (ht_participants h))"
  shows "distinct (map pb_participant_id (mb_participants (build_boundary_state h)))"
proof -
  have "map pb_participant_id (mb_participants (build_boundary_state h)) = map pt_id (sort_key pt_id (ht_participants h))"
    by (simp add: build_boundary_state_def participant_boundary_state_def)
  moreover have "mset \<dots> = mset (map pt_id (ht_participants h))" by simp
  ultimately show ?thesis using assms mset_eq_imp_distinct_iff by metis
qed

lemma own_boundary:
  assumes ids: "distinct (map pt_id (ht_participants h))" and p: "p \<in> set (ht_participants h)"
  shows "map_of (by_id (mb_participants (build_boundary_state h))) (pt_id p) = Some (participant_boundary_state p)"
    "boundary_of (build_boundary_state h) (pt_id p) = Some (participant_boundary_state p)"
proof -
  let ?bs = "mb_participants (build_boundary_state h)"
  have keys: "map fst (map (\<lambda>b. (pb_participant_id b, b)) ?bs) = map pb_participant_id ?bs" by simp
  then have d: "distinct (map fst (map (\<lambda>b. (pb_participant_id b, b)) ?bs))" using boundary_ids[OF ids] by metis
  have "participant_boundary_state p \<in> set ?bs" using p by (simp add: build_boundary_state_def)
  moreover have "pb_participant_id (participant_boundary_state p) = pt_id p" by (simp add: participant_boundary_state_def)
  ultimately have m: "map_of (map (\<lambda>b. (pb_participant_id b, b)) ?bs) (pt_id p) = Some (participant_boundary_state p)"
    by (intro map_of_is_SomeI[OF d]) (auto simp: image_iff)
  show "map_of (by_id ?bs) (pt_id p) = Some (participant_boundary_state p)" unfolding by_id_def dict_of_distinct[OF d] by (rule m)
  show "boundary_of (build_boundary_state h) (pt_id p) = Some (participant_boundary_state p)"
    unfolding boundary_of_def find_map_of by (rule m)
qed

lemma own_order:
  assumes keys: "distinct (map cs_key (ht_class_scopes h))" and sc: "sc \<in> set (ht_class_scopes h)"
  shows "map_of (dict_of (mb_class_order_members (build_boundary_state h))) (cs_key sc) = Some (snd (order_members sc))"
proof -
  let ?os = "mb_class_order_members (build_boundary_state h)"
  have "map fst ?os = map cs_key (sort_key cs_key (ht_class_scopes h))" by (simp add: build_boundary_state_def order_members_def)
  moreover have "mset \<dots> = mset (map cs_key (ht_class_scopes h))" by simp
  ultimately have d: "distinct (map fst ?os)" using keys mset_eq_imp_distinct_iff by metis
  have "order_members sc \<in> set ?os" using sc by (simp add: build_boundary_state_def)
  then have "(cs_key sc, snd (order_members sc)) \<in> set ?os" by (simp add: order_members_def)
  then show ?thesis unfolding dict_of_distinct[OF d] by (rule map_of_is_SomeI[OF d])
qed

lemma our_alerts_unchanged: "our_alerts (participant_boundary_state p) p now tactical = []"
  by (simp add: our_alerts_def participant_boundary_state_def)

lemma competitor_alerts_unchanged: "competitor_alerts (participant_boundary_state c) c now = []"
  by (simp add: competitor_alerts_def)

text \<open>C36. functional. When no fact changed since the previous evaluation, exactly the standing alerts
  are raised: infeasible stops, contact forecasts, schedule deviation, an over-long stop and a
  deteriorating stint. They are raised again at every evaluation; no transition alert is.\<close>
theorem unchanged_facts_raise_standing_alerts:
  assumes ids: "distinct (map pt_id (ht_participants h))" and keys: "distinct (map cs_key (ht_class_scopes h))"
    and members: "\<forall>sc \<in> set (ht_class_scopes h). set (cs_participants sc) \<subseteq> set (ht_participants h)"
  shows "metric_alerts h (Some (build_boundary_state h)) now session tactical battle =
    race_alerts h now session tactical battle @ pit_alerts h now @ stint_alerts now tactical"
proof -
  have "source_alerts (Some (build_boundary_state h)) h now session = []" by (simp add: source_alerts_def Let_def)
  moreover have "transition_alerts (build_boundary_state h) h now tactical = []"
  proof (cases "our_participant h")
    case (Some ours)
    note own = own_boundary[OF ids]
    have "c \<in> set (ht_participants h)"
      if "c \<in> set (case current_class_scope h of None \<Rightarrow> [] | Some sc \<Rightarrow> cs_participants sc)" for c
      using that current_scope_in members by (auto split: option.splits)
    then have "(case map_of (by_id (mb_participants (build_boundary_state h))) (pt_id c) of None \<Rightarrow> [] | Some old \<Rightarrow> competitor_alerts old c now) = []"
      if "c \<in> set (case current_class_scope h of None \<Rightarrow> [] | Some sc \<Rightarrow> cs_participants sc)" for c
      using that by (simp add: own(1) competitor_alerts_unchanged)
    then show ?thesis using own(2)[OF our_participant_in[OF Some]]
      by (simp add: transition_alerts_def Some Let_def our_alerts_unchanged)
  qed (simp add: transition_alerts_def)
  moreover have "order_alerts (build_boundary_state h) h now tactical = []"
  proof (cases "current_class_scope h")
    case (Some sc)
    show ?thesis by (simp add: order_alerts_def Some own_order[OF keys current_scope_in[OF Some]])
  qed (simp add: order_alerts_def)
  ultimately show ?thesis by (simp add: metric_alerts_def)
qed

section \<open>The keys of the tactical document\<close>

lemma race_obligation_keys: "set (map fst (race_obligation_values h ours e pace)) = set OBLIGATION_KEYS"
  by (auto simp: race_obligation_values_def empty_race_obligation_values_def OBLIGATION_KEYS_def split: option.splits)

lemma sector_metrics_keys: "set (map fst (sector_metrics ours scope sectors_of)) \<subseteq> set TACTICAL_KEYS"
  unfolding sector_metrics_def TACTICAL_KEYS_def Let_def by (cases scope) simp_all

lemma neighbour_values_keys: "set (map fst (neighbour_values ours nb roster now)) \<subseteq> set TACTICAL_KEYS"
  unfolding neighbour_values_def TACTICAL_KEYS_def Let_def by (cases nb) simp

lemma copied_keys: "set COPIED_KEYS \<subseteq> set TACTICAL_KEYS"
  unfolding COPIED_KEYS_def TACTICAL_KEYS_def by simp

lemma empty_tactical_keys: "set (map fst EMPTY_TACTICAL) = set TACTICAL_KEYS \<union> set OBLIGATION_KEYS"
  by (simp add: EMPTY_TACTICAL_def empty_race_obligation_values_def image_Un image_image)

lemma own_tactical_keys:
  "list_all (\<lambda>k. k \<in> set TACTICAL_KEYS) [''ours_identity'', ''ours_participant_id'', ''ours_class_key'', ''delta_to_class_best_ms'',
     ''pace_3_ms'', ''pace_5_ms'', ''pace_10_ms'', ''consistency_10_ms'', ''class_pace_5_ms'', ''pace_rank_class'',
     ''pace_delta_to_reference_ms'', ''pace_delta_near_tyre_age_ms'']"
  by code_simp

lemma tactical_keys:
  "set (map fst (ours_tactical_values h now session pace_of order_of samples_of sectors_of)) \<subseteq> set TACTICAL_KEYS \<union> set OBLIGATION_KEYS"
proof (cases "our_participant h")
  case (Some ours)
  show ?thesis
  proof (cases "ms_identity_state (ht_session h) = ''resolved''")
    case True
    show ?thesis
    proof (cases "pace_of (pt_id ours)")
      case (Some pace)
      define K where "K = set TACTICAL_KEYS \<union> set OBLIGATION_KEYS"
      have sub: "A \<subseteq> set TACTICAL_KEYS \<Longrightarrow> A \<subseteq> K" for A unfolding K_def by blast
      have copied: "set (map fst (map (\<lambda>k. (k, jget k v)) COPIED_KEYS)) \<subseteq> K" for v
        by (rule sub) (use copied_keys in \<open>simp add: image_image\<close>)
      have obliged: "set (map fst (race_obligation_values h ours e pace)) \<subseteq> K" for e
        unfolding race_obligation_keys K_def by blast
      have start: "set (map fst EMPTY_TACTICAL) \<subseteq> K" unfolding empty_tactical_keys K_def by blast
      have mine: "set [''ours_identity'', ''ours_participant_id'', ''ours_class_key''] \<subseteq> K"
        "set [''delta_to_class_best_ms''] \<subseteq> K"
        "set [''pace_3_ms'', ''pace_5_ms'', ''pace_10_ms'', ''consistency_10_ms'', ''class_pace_5_ms'', ''pace_rank_class'',
          ''pace_delta_to_reference_ms'', ''pace_delta_near_tyre_age_ms''] \<subseteq> K"
        using own_tactical_keys by (intro sub; simp only: list.pred_inject list.set insert_subset empty_subsetI simp_thms)+
      show ?thesis
        unfolding ours_tactical_values_def \<open>our_participant h = Some ours\<close> Some Let_def True option.case K_def[symmetric]
        unfolding simp_thms not_True_eq_False if_False dict_of_keys map_append set_append Un_subset_iff list.map fst_conv
        by (intro conjI start mine copied obliged sub[OF neighbour_values_keys] sub[OF sector_metrics_keys])
    qed (use True Some empty_tactical_keys in \<open>simp add: ours_tactical_values_def\<close>)
  qed (use Some empty_tactical_keys in \<open>simp add: ours_tactical_values_def\<close>)
qed (use empty_tactical_keys in \<open>simp add: ours_tactical_values_def\<close>)

lemma no_position_change: "''position_change'' \<notin> set TACTICAL_KEYS \<union> set OBLIGATION_KEYS"
  by code_simp

lemma keyed_alert: "al_key (event_alert k s t r c) = k" "al_numeric_consequence (event_alert k s t r c) = c"
  by (simp_all add: event_alert_def)

text \<open>error. The alert on a changed class position never says by how many places the car moved:
  its numeric consequence is read from the tactical values, which have no position change (the battle
  values have it), so it is null in every evaluation.\<close>
theorem class_position_alert_is_blank:
  assumes "a \<in> set (metric_alerts h prior now session
      (ours_tactical_values h now session pace_of order_of samples_of sectors_of) battle)"
    "al_key a = ''class_position_changed''"
  shows "al_numeric_consequence a = JNull"
proof -
  let ?t = "ours_tactical_values h now session pace_of order_of samples_of sectors_of"
  have blank: "jget ''position_change'' ?t = JNull"
    using tactical_keys no_position_change by (intro jget_missing) blast
  have none: "\<forall>a \<in> set xs. al_key a \<noteq> ''class_position_changed'' \<Longrightarrow> a \<notin> set xs" for xs using assms(2) by blast
  have "a \<notin> set (source_alerts prior h now session)"
    by (rule none) (auto simp: source_alerts_def Let_def keyed_alert split: option.splits)
  moreover have "\<forall>a \<in> set (catch_alert now battle d). al_key a \<noteq> ''class_position_changed''" for d
    by (auto simp: catch_alert_def keyed_alert split: option.splits)
  then have "a \<notin> set (race_alerts h now session ?t battle)"
    by (intro none) (auto simp: race_alerts_def Let_def keyed_alert split: option.splits if_splits)
  moreover have "a \<notin> set (pit_alerts h now)"
    by (rule none) (auto simp: pit_alerts_def Let_def keyed_alert split: option.splits)
  moreover have "a \<notin> set (stint_alerts now ?t)" by (rule none) (auto simp: stint_alerts_def keyed_alert split: option.splits)
  ultimately obtain b where "a \<in> set (transition_alerts b h now ?t) \<or> a \<in> set (order_alerts b h now ?t)"
    using assms(1) by (auto simp: metric_alerts_def split: option.splits)
  moreover have "a \<notin> set (order_alerts b h now ?t)"
    by (rule none) (auto simp: order_alerts_def Let_def keyed_alert split: option.splits)
  moreover have "\<forall>a \<in> set (competitor_alerts old c now). al_key a \<noteq> ''class_position_changed''" for old c
    by (auto simp: competitor_alerts_def Let_def keyed_alert)
  ultimately obtain old ours where "a \<in> set (our_alerts old ours now ?t)"
    using assms(2) by (auto simp: transition_alerts_def Let_def split: option.splits)
  then show ?thesis using assms(2) blank by (auto simp: our_alerts_def Let_def keyed_alert split: if_splits)
qed

section \<open>Witnesses\<close>

definition front_car :: participant_input where "front_car = (sample_car ''21'' 1 None)\<lparr> pt_is_ours := True \<rparr>"
definition rear_car :: participant_input where "rear_car = sample_car ''34'' 2 None"

definition two_car_class :: class_scope where
  "two_car_class = \<lparr> cs_key = ''cn'', cs_display_name = ''CN'', cs_class_best_lap_ms = None, cs_class_best_start_number = None,
     cs_participants = [rear_car, front_car] \<rparr>"

lemma neighbours_are_mutual_witness:
  "snd (snd (class_neighbours (Some [front_car, rear_car]) ''21'')) = Some rear_car"
proof -
  have "sort_key pt_id (filter pt_active [rear_car, front_car]) = [front_car, rear_car]" by code_simp
  moreover have "sort_key (\<lambda>m. (the (class_rank m), pt_id m)) [front_car, rear_car] = [front_car, rear_car]"
    "list_all (\<lambda>m. class_rank m \<noteq> None) [front_car, rear_car]" "\<not> list_ex (\<lambda>m. pt_state m = None) [front_car, rear_car]"
    "map (the \<circ> class_rank) [front_car, rear_car] = [1, 2]" by code_simp+
  ultimately have order: "class_order two_car_class = Some [front_car, rear_car]"
    by (simp add: class_order_def two_car_class_def Let_def)
  have ids: "distinct (map pt_id (cs_participants two_car_class))" by code_simp
  have i: "pt_id front_car = ''21''" "pt_id rear_car = ''34''" by code_simp+
  have "fst (snd (class_neighbours (Some [front_car, rear_car]) ''34'')) = Some front_car"
    by (simp add: class_neighbours_def i)
  then show ?thesis using neighbours_are_mutual[OF order ids, of front_car rear_car] i by simp
qed

definition steady_lap :: "int \<Rightarrow> int \<Rightarrow> lap_input" where
  "steady_lap n d = \<lparr> li_lap_number = Some n, li_completed_at_us = Some n, li_duration_ms = Some d, li_sectors_json = None,
     li_flag = None, li_is_in_lap = False, li_is_out_lap = False, li_crosses_pit = False, li_is_clean = True,
     li_timing_event_id = Some n, li_capture_sequence = None, li_capture_at_us = None, li_timing_eligible = True,
     li_source_frame_id = Some n, li_source_message_ordinal = None, li_source_change_ordinal = None,
     li_lap_number_is_official = True \<rparr>"

definition steady_car :: participant_input where
  "steady_car = front_car\<lparr> pt_laps := map (\<lambda>n. steady_lap n (if n mod 2 = 0 then 100000 else 101000)) [1 .. 10] \<rparr>"

lemma remaining_laps_are_bracketed_witness:
  "remaining_laps_range 3600 (participant_pace steady_car) = Some (35, 37) \<and> of_int 35 \<le> 3600 * 1000 / (101000 :: rat)"
proof -
  have c: "remaining_laps_range 3600 (participant_pace steady_car) = Some (35, 37) \<and>
    pace5_ms (participant_pace steady_car) = Some 100000 \<and> consistency10_ms (participant_pace steady_car) = Some (7413/10)"
    by code_simp
  then show ?thesis
    using remaining_laps_are_bracketed[of 3600 steady_car 35 37 100000 "7413/10" 100700] by simp
qed

lemma required_pace_settles_the_gap_witness:
  "required_pace_ms GAP_RELATION_AHEAD (Some 100000) (Some 99000) (Some 3600) (Some 3600) = Some 98900 \<and>
   (99000 - 98900) * (3600 * 1000 / (100000 :: rat)) = of_int 3600"
proof -
  have r: "required_pace_ms GAP_RELATION_AHEAD (Some 100000) (Some 99000) (Some 3600) (Some 3600) = Some 98900"
    by (simp add: required_pace_ms_def)
  from required_pace_settles_the_gap[OF r] r show ?thesis by simp
qed

definition gap_document :: "int \<Rightarrow> int \<Rightarrow> json_dict" where
  "gap_document at_us gap = [(''channel_status'', JStr ''LIVE''), (''track_flag'', JStr ''GREEN''),
     (''relation_intervals'', JObj [(''class_ahead'', JObj
       [(''target_participant_id'', JStr ''34''), (''status'', JStr ''VALID''), (''value_ms'', JInt gap),
        (''source_facts'', JList [JObj [(''observation_kind'', JStr ''DELTA'')]]), (''source_observed_at_us'', JInt at_us),
        (''ours_state_kind'', JStr ''ON_TRACK''), (''target_state_kind'', JStr ''ON_TRACK''),
        (''ours_laps'', JInt 12), (''target_laps'', JInt 12)])])]"

definition gap_history :: "history_point list" where
  "gap_history = [\<lparr> hp_observed_at_us = 0, hp_metric_version = 6, hp_values = gap_document 0 4000 \<rparr>]"

text \<open>The second gap was measured 40 s after the first, in a document of 41 s.\<close>

lemma closure_rests_on_measured_gaps_witness:
  "\<exists>u v target. measured (gap_document 0 4000) u GAP_RELATION_AHEAD target 4000 0 \<and>
     measured (gap_document 40000000 3000) v GAP_RELATION_AHEAD target 3000 40000000"
proof -
  let ?side = "battle_side_of gap_history 41000000 (gap_document 40000000 3000) GAP_RELATION_AHEAD"
  have "case map_of (bs_trends ?side) 30 of Some (Some t) \<Rightarrow> gt_started_gap_ms t = 4000 \<and> gt_ended_gap_ms t = 3000 \<and>
      gt_started_at_us t = 0 \<and> gt_ended_at_us t = 40000000 | _ \<Rightarrow> False"
    by code_simp
  then obtain t where t: "map_of (bs_trends ?side) 30 = Some (Some t)" "gt_started_gap_ms t = 4000" "gt_ended_gap_ms t = 3000"
      "gt_started_at_us t = 0" "gt_ended_at_us t = 40000000"
    by (auto split: option.splits)
  have gap: "gap' = gap" if "measured (gap_document at_us gap) u GAP_RELATION_AHEAD target gap' t'" "0 \<le> gap" for gap gap' at_us u target t'
    using that by (auto simp: measured_def gap_document_def relation_of_values_def obj_of_def jget_def dict_relation_value_ms_def
        optional_text_def optional_integer_def GAP_RELATION_AHEAD_def int_at_least_def)
  have docs: "set (documents gap_history 41000000 (gap_document 40000000 3000)) = {(41000000, gap_document 40000000 3000), (0, gap_document 0 4000)}"
    by (auto simp: documents_def gap_history_def)
  obtain u first v final target where ends: "(u, first) \<in> set (documents gap_history 41000000 (gap_document 40000000 3000))"
      "(v, final) \<in> set (documents gap_history 41000000 (gap_document 40000000 3000))"
      "measured first u GAP_RELATION_AHEAD target 4000 0" "measured final v GAP_RELATION_AHEAD target 3000 40000000"
    using closure_rests_on_measured_gaps[OF t(1), unfolded t(2-5)] by blast
  have "first = gap_document 0 4000" using ends(1,3) gap[of 40000000 3000 u target 4000 0] unfolding docs by auto
  moreover have "final = gap_document 40000000 3000" using ends(2,4) gap[of 0 4000 v target 3000 40000000] unfolding docs by auto
  ultimately show ?thesis using ends(3,4) by blast
qed

definition deviation_document :: json_dict where
  "deviation_document = [(''stint_schedule_deviation_s'', JNum (PyFloat 1000))]"

lemma unchanged_facts_raise_standing_alerts_witness:
  "map al_key (metric_alerts (sample_heat [rear_car, front_car]) (Some (build_boundary_state (sample_heat [rear_car, front_car])))
     6000000 [] deviation_document []) = [''even_schedule_deviation'']"
proof -
  let ?h = "sample_heat [rear_car, front_car]"
  have a: "distinct (map pt_id (ht_participants ?h))" "distinct (map cs_key (ht_class_scopes ?h))"
    "\<forall>sc \<in> set (ht_class_scopes ?h). set (cs_participants sc) \<subseteq> set (ht_participants ?h)"
    by (code_simp, code_simp, simp add: sample_heat_def)
  have "map al_key (race_alerts ?h 6000000 [] deviation_document [] @ pit_alerts ?h 6000000 @ stint_alerts 6000000 deviation_document)
    = [''even_schedule_deviation'']" by code_simp
  then show ?thesis unfolding unchanged_facts_raise_standing_alerts[OF a] .
qed

definition unresolved_heat :: "participant_input list \<Rightarrow> heat_input" where
  "unresolved_heat cars = (let h = sample_heat cars in h\<lparr> ht_session := (ht_session h)\<lparr> ms_identity_state := ''unresolved'' \<rparr> \<rparr>)"

definition moved_car :: participant_input where "moved_car = (sample_car ''21'' 3 None)\<lparr> pt_is_ours := True \<rparr>"

definition position_alerts :: "alert list" where
  "position_alerts = metric_alerts (unresolved_heat [rear_car, front_car]) (Some (build_boundary_state (unresolved_heat [rear_car, moved_car])))
     6000000 [] (ours_tactical_values (unresolved_heat [rear_car, front_car]) 6000000 [] (\<lambda>_. None) (\<lambda>_. None) (\<lambda>_. [])
       (\<lambda>_. \<lparr> sv_last = [], sv_personal = [] \<rparr>)) [(''position_change'', JInt 2)]"

lemma position_alert_raised: "\<exists>a \<in> set position_alerts. al_key a = ''class_position_changed''"
proof -
  let ?before = "unresolved_heat [rear_car, moved_car]" and ?h = "unresolved_heat [rear_car, front_car]"
  have "distinct (map pt_id (ht_participants ?before))" "moved_car \<in> set (ht_participants ?before)" "pt_id moved_car = ''21''"
    "pt_id front_car = ''21''"
    by (code_simp, simp add: unresolved_heat_def sample_heat_def Let_def, code_simp, code_simp)
  then have old: "boundary_of (build_boundary_state ?before) (pt_id front_car) = Some (participant_boundary_state moved_car)"
    using own_boundary(2) by metis
  have ours: "our_participant ?h = Some front_car"
    by (simp add: our_participant_def unresolved_heat_def sample_heat_def rear_car_def front_car_def sample_car_def Let_def)
  have "\<exists>a \<in> set (our_alerts (participant_boundary_state moved_car) front_car 6000000 t). al_key a = ''class_position_changed''" for t
  proof -
    have "pb_position_class (participant_boundary_state moved_car) \<noteq> Option.bind (pt_state front_car) (\<lambda>s. rank_of (ps_position_class s))"
      by (simp add: participant_boundary_state_def moved_car_def front_car_def sample_car_def)
    then show ?thesis unfolding our_alerts_def Let_def by (simp add: keyed_alert bex_Un)
  qed
  then show ?thesis
    unfolding position_alerts_def metric_alerts_def transition_alerts_def option.case ours old set_append Un_iff by blast
qed

lemma class_position_alert_is_blank_witness:
  "\<exists>a \<in> set position_alerts. al_key a = ''class_position_changed'' \<and> al_numeric_consequence a = JNull"
proof -
  obtain a where a: "a \<in> set position_alerts" "al_key a = ''class_position_changed''" using position_alert_raised by blast
  from class_position_alert_is_blank[OF a(1)[unfolded position_alerts_def] a(2)] a show ?thesis by blast
qed

end
