(* ===== verification/Metric_Store.thy ===== *)
theory Metric_Store
  imports Stream_Outbox
begin

text \<open>
  Durable metrics: \<open>materialize_metric_samples\<close> of \<open>server/timing/metric_store.py\<close> with the
  tables it writes in one transaction (\<open>metric_current\<close>, \<open>metric_samples\<close>,
  \<open>state_ticks\<close>, \<open>metric_runner_state\<close>, \<open>playback_snapshots\<close>, \<open>stream_events\<close>). A JSON text
  column holds its canonical document (\<open>dumps\<close>); the gzip column of a playback snapshot holds
  the document it compresses, and SHA-256 is the parameter \<open>sha\<close>. An error is the roll-back of
  the transaction: no database is returned. Foreign keys to frames and messages are left out.
\<close>

section \<open>Tables\<close>

type_synonym scope_id = "int \<times> string \<times> string"

record current_row =
  mc_observed_at_us :: int
  mc_version :: int
  mc_values :: json
  mc_message :: "int option"
  mc_source_key :: string
  mc_created_at_us :: int
  mc_updated_at_us :: int

record sample_row =
  sr_observed_at_us :: int
  sr_version :: int
  sr_values :: json
  sr_message :: "int option"
  sr_source_key :: string
  sr_created_at_us :: int

record tick_row =
  tr_observed_at_us :: int
  tr_frame :: "int option"
  tr_source_key :: string
  tr_state_hash :: string
  tr_freshness_ms :: int
  tr_created_at_us :: int

record runner_row =
  rr_observed_at_us :: int
  rr_frame :: int
  rr_message :: "int option"
  rr_source_key :: string
  rr_version :: int
  rr_boundary_state :: json
  rr_updated_at_us :: int

record playback_row =
  py_observed_at_us :: int
  py_frame :: "int option"
  py_message :: "int option"
  py_source_key :: string
  py_projection_version :: int
  py_version :: int
  py_is_event_boundary :: bool
  py_payload :: json
  py_payload_sha256 :: string
  py_created_at_us :: int
  py_updated_at_us :: int

record metric_db =
  md_heats :: "(int \<times> string) list"
  md_current :: "(scope_id \<times> current_row) list"
  md_samples :: "((scope_id \<times> int) \<times> sample_row) list"
  md_ticks :: "((int \<times> int) \<times> tick_row) list"
  md_runner :: "(int \<times> runner_row) list"
  md_playback :: "((int \<times> int) \<times> playback_row) list"
  md_stream :: stream_db

section \<open>Requests\<close>

record sample_candidate =
  sm_scope_kind :: string
  sm_scope_key :: string
  sm_values :: "(string \<times> json) list"
  sm_event_boundary :: bool
  sm_history_values :: "(string \<times> json) list option"

record runner_candidate =
  rn_source_frame_id :: int
  rn_state_hash :: string
  rn_boundary_state :: json

record playback_candidate =
  pc_payload :: "(string \<times> json) list"
  pc_event_boundary :: bool

record write_request =
  wr_heat :: int
  wr_observed_at_us :: int
  wr_version :: int
  wr_source_key :: string
  wr_samples :: "sample_candidate list"
  wr_message :: "int option"
  wr_event_boundary :: bool
  wr_interval_us :: int
  wr_runner :: "runner_candidate option"
  wr_stream_events :: "stream_candidate list"
  wr_playback :: "playback_candidate option"

datatype metric_error = MetricStoreError string

definition METRIC_SAMPLE_INTERVAL_US :: int where "METRIC_SAMPLE_INTERVAL_US = 5000000"
definition PLAYBACK_SNAPSHOT_INTERVAL_US :: int where "PLAYBACK_SNAPSHOT_INTERVAL_US = 5000000"
definition PLAYBACK_PROJECTION_VERSION :: int where "PLAYBACK_PROJECTION_VERSION = 1"
definition SCOPE_KINDS :: "string list" where "SCOPE_KINDS = [''participant'', ''class'', ''session'']"

text \<open>\<open>_canonical_values_json\<close>: the document with sorted keys, or the error for a number that is not finite.\<close>

definition canonical_values :: "(string \<times> json) list \<Rightarrow> metric_error + json" where
  "canonical_values values = (case dumps (JObj values) of
     None \<Rightarrow> Inl (MetricStoreError ''Metric values cannot contain NaN or infinity'')
   | Some document \<Rightarrow> Inr document)"

definition argument_error :: "write_request \<Rightarrow> metric_error option" where
  "argument_error q =
    (if wr_heat q \<le> 0 then Some (MetricStoreError ''source_heat_id must be a positive integer'')
     else if wr_observed_at_us q < 0 then Some (MetricStoreError ''observed_at_us must be a non-negative integer'')
     else if wr_version q < 1 then Some (MetricStoreError ''metric_version must be a positive integer'')
     else if strip (wr_source_key q) = [] then Some (MetricStoreError ''source_key must be a non-empty string'')
     else if (case wr_message q of None \<Rightarrow> False | Some m \<Rightarrow> m \<le> 0) then Some (MetricStoreError ''source_message_id must be a positive integer or None'')
     else if wr_interval_us q \<le> 0 then Some (MetricStoreError ''interval_us must be a positive integer'')
     else if (case wr_runner q of None \<Rightarrow> False | Some r \<Rightarrow> rn_source_frame_id r \<le> 0) then Some (MetricStoreError ''runner_state source_frame_id must be a positive integer'')
     else if (case wr_runner q of None \<Rightarrow> False | Some r \<Rightarrow> rn_state_hash r = []) then Some (MetricStoreError ''runner_state state_hash must be a non-empty string'')
     else if wr_playback q \<noteq> None \<and> wr_runner q = None then Some (MetricStoreError ''playback snapshots require a durable metric runner state'')
     else (case Option.bind (wr_playback q) (\<lambda>p. case canonical_values (pc_payload p) of Inl e \<Rightarrow> Some e | Inr _ \<Rightarrow> None) of
         Some e \<Rightarrow> Some e
       | None \<Rightarrow>
          if wr_stream_events q \<noteq> [] \<and> wr_runner q = None
          then Some (MetricStoreError ''stream events require a durable metric runner state'') else None))"

record prepared_sample =
  pp_scope :: scope_id
  pp_values :: json
  pp_history_values :: json
  pp_event :: bool

definition validated_scope :: "sample_candidate \<Rightarrow> metric_error + (string \<times> string)" where
  "validated_scope c =
    (if sm_scope_kind c \<notin> set SCOPE_KINDS then Inl (MetricStoreError ''Unsupported metric scope'')
     else if strip (sm_scope_key c) = [] then Inl (MetricStoreError ''Metric scope_key must be a non-empty string'')
     else Inr (sm_scope_kind c, sm_scope_key c))"

fun prepare_samples ::
    "int \<Rightarrow> (string \<times> string) list \<Rightarrow> sample_candidate list \<Rightarrow> metric_error + prepared_sample list" where
  "prepare_samples heat seen [] = Inr []"
| "prepare_samples heat seen (c # cs) =
    (case validated_scope c of Inl e \<Rightarrow> Inl e | Inr scope \<Rightarrow>
      if scope \<in> set seen then Inl (MetricStoreError ''Duplicate metric scope in one write'')
      else (case canonical_values (sm_values c) of Inl e \<Rightarrow> Inl e | Inr current \<Rightarrow>
       (case canonical_values (case sm_history_values c of None \<Rightarrow> sm_values c | Some h \<Rightarrow> h) of Inl e \<Rightarrow> Inl e | Inr history \<Rightarrow>
        (case prepare_samples heat (scope # seen) cs of Inl e \<Rightarrow> Inl e | Inr rest \<Rightarrow>
          Inr (\<lparr> pp_scope = (heat, scope), pp_values = current, pp_history_values = history,
                 pp_event = sm_event_boundary c \<rparr> # rest)))))"

section \<open>Current state\<close>

definition observation_rank :: "int \<Rightarrow> int option \<Rightarrow> string \<Rightarrow> int \<times> int \<times> string" where
  "observation_rank observed_at_us message source_key =
    (observed_at_us, case message of Some m \<Rightarrow> m | None \<Rightarrow> - 1, source_key)"

abbreviation current_rank :: "current_row \<Rightarrow> int \<times> int \<times> string" where
  "current_rank r \<equiv> observation_rank (mc_observed_at_us r) (mc_message r) (mc_source_key r)"

definition incoming_rank :: "write_request \<Rightarrow> int \<times> int \<times> string" where
  "incoming_rank q = observation_rank (wr_observed_at_us q) (wr_message q) (wr_source_key q)"

datatype outcome = Inserted | Updated | Skipped

definition new_current_row :: "int \<Rightarrow> write_request \<Rightarrow> prepared_sample \<Rightarrow> current_row" where
  "new_current_row now q p = \<lparr> mc_observed_at_us = wr_observed_at_us q, mc_version = wr_version q,
     mc_values = pp_values p, mc_message = wr_message q, mc_source_key = wr_source_key q,
     mc_created_at_us = now, mc_updated_at_us = now \<rparr>"

definition write_current ::
    "int \<Rightarrow> write_request \<Rightarrow> prepared_sample \<Rightarrow> (scope_id \<times> current_row) list \<Rightarrow> (scope_id \<times> current_row) list \<times> outcome" where
  "write_current now q p rows =
    (case map_of rows (pp_scope p) of
       None \<Rightarrow> (AList.update (pp_scope p) (new_current_row now q p) rows, Inserted)
     | Some row \<Rightarrow>
        if current_rank row < incoming_rank q \<or> (incoming_rank q = current_rank row \<and> mc_version row < wr_version q)
        then (AList.update (pp_scope p) ((new_current_row now q p)\<lparr> mc_created_at_us := mc_created_at_us row \<rparr>) rows, Updated)
        else (rows, Skipped))"

section \<open>Sparse history\<close>

definition observed_second :: "write_request \<Rightarrow> int" where
  "observed_second q = wr_observed_at_us q div 1000000"

text \<open>The latest earlier chart point of the scope.\<close>

definition earlier_seconds :: "scope_id \<Rightarrow> int \<Rightarrow> ((scope_id \<times> int) \<times> sample_row) list \<Rightarrow> int list" where
  "earlier_seconds scope second rows =
    List.map_filter (\<lambda>((s, t), _). if s = scope \<and> t < second then Some t else None) rows"

definition previous_sample :: "scope_id \<Rightarrow> int \<Rightarrow> ((scope_id \<times> int) \<times> sample_row) list \<Rightarrow> sample_row option" where
  "previous_sample scope second rows =
    (let earlier = earlier_seconds scope second rows
     in if earlier = [] then None else map_of rows (scope, Max (set earlier)))"

definition same_sample :: "write_request \<Rightarrow> prepared_sample \<Rightarrow> sample_row \<Rightarrow> bool" where
  "same_sample q p row = (sr_version row = wr_version q \<and> sr_values row = pp_history_values p)"

definition unchanged_sample :: "write_request \<Rightarrow> prepared_sample \<Rightarrow> sample_row option \<Rightarrow> sample_row option \<Rightarrow> bool" where
  "unchanged_sample q p exact previous =
    (case exact of Some e \<Rightarrow> same_sample q p e
     | None \<Rightarrow> (case previous of Some r \<Rightarrow> same_sample q p r | None \<Rightarrow> False))"

definition wants_point :: "write_request \<Rightarrow> prepared_sample \<Rightarrow> sample_row option \<Rightarrow> bool" where
  "wants_point q p previous =
    (wr_event_boundary q \<or> pp_event p \<or>
     (case previous of
        None \<Rightarrow> True
      | Some r \<Rightarrow> sr_observed_at_us r div wr_interval_us q < wr_observed_at_us q div wr_interval_us q \<or> sr_version r \<noteq> wr_version q))"

definition new_sample_row :: "int \<Rightarrow> write_request \<Rightarrow> prepared_sample \<Rightarrow> sample_row" where
  "new_sample_row now q p = \<lparr> sr_observed_at_us = wr_observed_at_us q, sr_version = wr_version q,
     sr_values = pp_history_values p, sr_message = wr_message q, sr_source_key = wr_source_key q, sr_created_at_us = now \<rparr>"

definition write_sample ::
    "int \<Rightarrow> write_request \<Rightarrow> prepared_sample \<Rightarrow> ((scope_id \<times> int) \<times> sample_row) list
      \<Rightarrow> ((scope_id \<times> int) \<times> sample_row) list \<times> outcome" where
  "write_sample now q p rows =
    (let second = observed_second q; key = (pp_scope p, second); exact = map_of rows key;
         previous = previous_sample (pp_scope p) second rows
     in if unchanged_sample q p exact previous then (rows, Skipped)
        else if \<not> wants_point q p previous then (rows, Skipped)
        else (case exact of
            None \<Rightarrow> (AList.update key (new_sample_row now q p) rows, Inserted)
          | Some e \<Rightarrow>
             if (wr_observed_at_us q, wr_source_key q) \<le> (sr_observed_at_us e, sr_source_key e) then (rows, Skipped)
             else (AList.update key ((new_sample_row now q p)\<lparr> sr_created_at_us := sr_created_at_us e \<rparr>) rows, Updated)))"

record materialization =
  mr_inserted :: "scope_id list"
  mr_updated :: "scope_id list"
  mr_skipped :: "scope_id list"
  mr_current_inserted :: "scope_id list"
  mr_current_updated :: "scope_id list"
  mr_current_skipped :: "scope_id list"
  mr_runner_state_written :: bool
  mr_stream_events_written :: nat
  mr_playback_snapshot_written :: bool

definition no_writes :: materialization where
  "no_writes = \<lparr> mr_inserted = [], mr_updated = [], mr_skipped = [], mr_current_inserted = [], mr_current_updated = [],
     mr_current_skipped = [], mr_runner_state_written = False, mr_stream_events_written = 0,
     mr_playback_snapshot_written = False \<rparr>"

definition note_current :: "scope_id \<Rightarrow> outcome \<Rightarrow> materialization \<Rightarrow> materialization" where
  "note_current s u r = (case u of
     Inserted \<Rightarrow> r\<lparr> mr_current_inserted := mr_current_inserted r @ [s] \<rparr>
   | Updated \<Rightarrow> r\<lparr> mr_current_updated := mr_current_updated r @ [s] \<rparr>
   | Skipped \<Rightarrow> r\<lparr> mr_current_skipped := mr_current_skipped r @ [s] \<rparr>)"

definition note_sample :: "scope_id \<Rightarrow> outcome \<Rightarrow> materialization \<Rightarrow> materialization" where
  "note_sample s u r = (case u of
     Inserted \<Rightarrow> r\<lparr> mr_inserted := mr_inserted r @ [s] \<rparr>
   | Updated \<Rightarrow> r\<lparr> mr_updated := mr_updated r @ [s] \<rparr>
   | Skipped \<Rightarrow> r\<lparr> mr_skipped := mr_skipped r @ [s] \<rparr>)"

definition write_scope ::
    "int \<Rightarrow> write_request \<Rightarrow> prepared_sample \<Rightarrow> metric_db \<times> materialization \<Rightarrow> metric_db \<times> materialization" where
  "write_scope now q p dr =
    (let (d, r) = dr;
         (current, u) = write_current now q p (md_current d);
         (samples, v) = write_sample now q p (md_samples d)
     in (d\<lparr> md_current := current, md_samples := samples \<rparr>, note_sample (pp_scope p) v (note_current (pp_scope p) u r)))"

section \<open>Runner state and tick\<close>

type_synonym tick_rank = "int \<times> int \<times> string"

definition incoming_tick_rank :: "write_request \<Rightarrow> runner_candidate \<Rightarrow> tick_rank" where
  "incoming_tick_rank q r = (wr_observed_at_us q, rn_source_frame_id r, wr_source_key q)"

definition tick_rank :: "tick_row \<Rightarrow> tick_rank" where
  "tick_rank t = (tr_observed_at_us t, case tr_frame t of Some f \<Rightarrow> f | None \<Rightarrow> - 1, tr_source_key t)"

definition state_rank :: "runner_row \<Rightarrow> tick_rank" where
  "state_rank r = (rr_observed_at_us r, rr_frame r, rr_source_key r)"

definition write_tick ::
    "int \<Rightarrow> write_request \<Rightarrow> runner_candidate \<Rightarrow> ((int \<times> int) \<times> tick_row) list \<Rightarrow> ((int \<times> int) \<times> tick_row) list" where
  "write_tick now q r rows =
    (let key = (wr_heat q, observed_second q);
         row = \<lparr> tr_observed_at_us = wr_observed_at_us q, tr_frame = Some (rn_source_frame_id r), tr_source_key = wr_source_key q,
                 tr_state_hash = rn_state_hash r, tr_freshness_ms = 0, tr_created_at_us = now \<rparr>
     in case map_of rows key of
          None \<Rightarrow> AList.update key row rows
        | Some t \<Rightarrow> if tick_rank t < incoming_tick_rank q r
            then AList.update key (row\<lparr> tr_created_at_us := tr_created_at_us t \<rparr>) rows else rows)"

definition new_runner_row :: "int \<Rightarrow> write_request \<Rightarrow> runner_candidate \<Rightarrow> runner_row" where
  "new_runner_row now q r = \<lparr> rr_observed_at_us = wr_observed_at_us q, rr_frame = rn_source_frame_id r,
     rr_message = wr_message q, rr_source_key = wr_source_key q, rr_version = wr_version q,
     rr_boundary_state = rn_boundary_state r, rr_updated_at_us = now \<rparr>"

definition write_runner ::
    "int \<Rightarrow> write_request \<Rightarrow> runner_candidate \<Rightarrow> (int \<times> runner_row) list \<Rightarrow> (int \<times> runner_row) list \<times> bool" where
  "write_runner now q r rows =
    (case map_of rows (wr_heat q) of
       None \<Rightarrow> (AList.update (wr_heat q) (new_runner_row now q r) rows, True)
     | Some s \<Rightarrow>
        if state_rank s < incoming_tick_rank q r \<or> (incoming_tick_rank q r = state_rank s \<and> rr_version s < wr_version q)
        then (AList.update (wr_heat q) (new_runner_row now q r) rows, True)
        else (rows, False))"

definition write_stream ::
    "bool \<Rightarrow> int \<Rightarrow> string \<Rightarrow> write_request \<Rightarrow> runner_candidate \<Rightarrow> stream_db \<Rightarrow> metric_error + (stream_db \<times> nat)" where
  "write_stream burns now session q r d =
    (if wr_stream_events q = [] then Inr (d, 0)
     else case append_stream_events burns now
         \<lparr> so_session = session, so_heat = wr_heat q, so_frame = rn_source_frame_id r, so_message = wr_message q,
           so_source_key = wr_source_key q, so_observed_at_us = wr_observed_at_us q \<rparr> (wr_stream_events q) d of
       Inl e \<Rightarrow> Inl (MetricStoreError (''Invalid stream event: '' @ (case e of StreamEventError m \<Rightarrow> m | StreamCursorError m \<Rightarrow> m)))
     | Inr x \<Rightarrow> Inr x)"

section \<open>Playback snapshot\<close>

definition playback_rank :: "playback_row \<Rightarrow> tick_rank" where
  "playback_rank y = (py_observed_at_us y, case py_frame y of Some f \<Rightarrow> f | None \<Rightarrow> - 1, py_source_key y)"

definition previous_playback :: "int \<Rightarrow> int \<Rightarrow> ((int \<times> int) \<times> playback_row) list \<Rightarrow> playback_row option" where
  "previous_playback heat second rows =
    (let earlier = List.map_filter (\<lambda>((h, t), _). if h = heat \<and> t < second then Some t else None) rows
     in if earlier = [] then None else map_of rows (heat, Max (set earlier)))"

definition write_playback ::
    "(json \<Rightarrow> string) \<Rightarrow> int \<Rightarrow> write_request \<Rightarrow> runner_candidate \<Rightarrow> playback_candidate
      \<Rightarrow> ((int \<times> int) \<times> playback_row) list \<Rightarrow> metric_error + (((int \<times> int) \<times> playback_row) list \<times> bool)" where
  "write_playback sha now q r y rows =
    (case canonical_values (pc_payload y) of Inl e \<Rightarrow> Inl e | Inr payload \<Rightarrow>
      (let key = (wr_heat q, observed_second q); exact = map_of rows key;
           periodic = (case previous_playback (wr_heat q) (observed_second q) rows of
             None \<Rightarrow> True
           | Some p \<Rightarrow> py_observed_at_us p div PLAYBACK_SNAPSHOT_INTERVAL_US < wr_observed_at_us q div PLAYBACK_SNAPSHOT_INTERVAL_US);
           row = \<lparr> py_observed_at_us = wr_observed_at_us q, py_frame = Some (rn_source_frame_id r), py_message = wr_message q,
             py_source_key = wr_source_key q, py_projection_version = PLAYBACK_PROJECTION_VERSION, py_version = wr_version q,
             py_is_event_boundary = pc_event_boundary y, py_payload = payload, py_payload_sha256 = sha payload,
             py_created_at_us = now, py_updated_at_us = now \<rparr>
       in if \<not> (pc_event_boundary y \<or> periodic) then Inr (rows, False)
          else (case exact of
              None \<Rightarrow> Inr (AList.update key row rows, True)
            | Some e \<Rightarrow>
               if playback_rank e < incoming_tick_rank q r \<or> (incoming_tick_rank q r = playback_rank e \<and> py_version e < wr_version q)
               then Inr (AList.update key (row\<lparr> py_is_event_boundary := pc_event_boundary y \<or> py_is_event_boundary e,
                      py_created_at_us := py_created_at_us e \<rparr>) rows, True)
               else if incoming_tick_rank q r = playback_rank e \<and> sha payload \<noteq> py_payload_sha256 e
               then Inl (MetricStoreError ''Playback snapshot conflicts at an identical source rank'')
               else Inr (rows, False))))"

section \<open>The transaction\<close>

definition write_runner_part ::
    "(json \<Rightarrow> string) \<Rightarrow> bool \<Rightarrow> int \<Rightarrow> string \<Rightarrow> write_request \<Rightarrow> metric_db \<times> materialization
      \<Rightarrow> metric_error + (metric_db \<times> materialization)" where
  "write_runner_part sha burns now session q dr =
    (let (d, m) = dr in
     case wr_runner q of
       None \<Rightarrow> Inr (d, m)
     | Some r \<Rightarrow>
        (let (runner, written) = write_runner now q r (md_runner d);
             d' = d\<lparr> md_ticks := write_tick now q r (md_ticks d), md_runner := runner \<rparr>
         in if \<not> written then Inr (d', m)
            else (case write_stream burns now session q r (md_stream d') of Inl e \<Rightarrow> Inl e | Inr (stream, n) \<Rightarrow>
              (case wr_playback q of
                 None \<Rightarrow> Inr (d'\<lparr> md_stream := stream \<rparr>, m\<lparr> mr_runner_state_written := True, mr_stream_events_written := n \<rparr>)
               | Some y \<Rightarrow>
                  (case write_playback sha now q r y (md_playback d') of Inl e \<Rightarrow> Inl e | Inr (playback, w) \<Rightarrow>
                    Inr (d'\<lparr> md_stream := stream, md_playback := playback \<rparr>,
                      m\<lparr> mr_runner_state_written := True, mr_stream_events_written := n, mr_playback_snapshot_written := w \<rparr>))))))"

definition materialize_metric_samples ::
    "(json \<Rightarrow> string) \<Rightarrow> bool \<Rightarrow> int \<Rightarrow> write_request \<Rightarrow> metric_db \<Rightarrow> metric_error + (metric_db \<times> materialization)" where
  "materialize_metric_samples sha burns now q d =
    (case argument_error q of Some e \<Rightarrow> Inl e | None \<Rightarrow>
      (case prepare_samples (wr_heat q) [] (wr_samples q) of Inl e \<Rightarrow> Inl e | Inr prepared \<Rightarrow>
        if prepared = [] then Inr (d, no_writes)
        else (case map_of (md_heats d) (wr_heat q) of
            None \<Rightarrow> Inl (MetricStoreError ''Source heat does not exist'')
          | Some session \<Rightarrow> write_runner_part sha burns now session q (fold (write_scope now q) prepared (d, no_writes)))))"

section \<open>Retrying a write\<close>

lemma new_current_rank [simp]:
  "current_rank (new_current_row now q p) = incoming_rank q" "mc_version (new_current_row now q p) = wr_version q"
  by (simp_all add: new_current_row_def incoming_rank_def)

lemma write_current_cases:
  obtains (stored) row where "fst (write_current now q p rows) = AList.update (pp_scope p) row rows"
      "current_rank row = incoming_rank q" "mc_version row = wr_version q" "mc_values row = pp_values p"
  | (kept) row where "write_current now q p rows = (rows, Skipped)" "map_of rows (pp_scope p) = Some row"
      "\<not> current_rank row < incoming_rank q" "\<not> (incoming_rank q = current_rank row \<and> mc_version row < wr_version q)"
proof (cases "map_of rows (pp_scope p)")
  case None
  show thesis by (rule stored[of "new_current_row now q p"]) (simp_all only: write_current_def None option.case fst_conv
      new_current_rank, simp add: new_current_row_def)
next
  case (Some old)
  let ?row = "(new_current_row now q p)\<lparr> mc_created_at_us := mc_created_at_us old \<rparr>"
  show thesis
  proof (cases "current_rank old < incoming_rank q \<or> (incoming_rank q = current_rank old \<and> mc_version old < wr_version q)")
    case True
    have "current_rank ?row = incoming_rank q" "mc_version ?row = wr_version q" "mc_values ?row = pp_values p"
      by (simp_all add: new_current_row_def incoming_rank_def)
    moreover have "fst (write_current now q p rows) = AList.update (pp_scope p) ?row rows"
      using True by (simp only: write_current_def Some option.case if_True fst_conv)
    ultimately show thesis using stored by blast
  next
    case False
    then have "write_current now q p rows = (rows, Skipped)"
      by (simp only: write_current_def Some option.case if_False)
    then show thesis using kept Some False by blast
  qed
qed

lemma write_current_idle:
  assumes "map_of rows (pp_scope p) = Some row" "\<not> current_rank row < incoming_rank q"
    "\<not> (incoming_rank q = current_rank row \<and> mc_version row < wr_version q)"
  shows "write_current now q p rows = (rows, Skipped)"
  using assms by (simp only: write_current_def option.case) simp

lemma write_current_again:
  "write_current later q p (fst (write_current now q p rows)) = (fst (write_current now q p rows), Skipped)"
proof (cases rule: write_current_cases[of now q p rows])
  case (stored row)
  show ?thesis unfolding stored(1)
    by (rule write_current_idle[of _ _ row]) (simp_all only: stored update_Some_unfold, simp_all add: update_conv')
next
  case (kept row)
  then show ?thesis using write_current_idle by simp
qed

lemma write_current_skipped: "snd (write_current now q p rows) = Skipped \<Longrightarrow> fst (write_current now q p rows) = rows"
  by (auto simp: write_current_def split: option.splits if_splits)

lemma write_current_other:
  "pp_scope p \<noteq> s \<Longrightarrow> map_of (fst (write_current now q p rows)) s = map_of rows s"
  by (auto simp: write_current_def update_conv' split: option.splits)

lemma write_current_cong:
  "map_of rows (pp_scope p) = map_of rows' (pp_scope p) \<Longrightarrow> snd (write_current now q p rows) = snd (write_current now' q p rows')"
  by (auto simp: write_current_def split: option.splits)

lemma write_sample_skipped: "snd (write_sample now q p rows) = Skipped \<Longrightarrow> fst (write_sample now q p rows) = rows"
  by (auto simp: write_sample_def Let_def split: option.splits if_splits)

lemma earlier_seconds_Cons:
  "earlier_seconds s t (((s', t'), r) # rows) =
    (if s' = s \<and> t' < t then t' # earlier_seconds s t rows else earlier_seconds s t rows)"
  by (simp add: earlier_seconds_def map_filter_simps)

lemma earlier_seconds_Nil [simp]: "earlier_seconds s t [] = []"
  by (simp add: earlier_seconds_def map_filter_simps)

lemma earlier_seconds_update:
  "s' \<noteq> s \<or> \<not> t' < t \<Longrightarrow> earlier_seconds s t (AList.update (s', t') r rows) = earlier_seconds s t rows"
  by (induction rows) (auto simp: earlier_seconds_Cons)

lemma earlier_seconds_set: "u \<in> set (earlier_seconds s t rows) \<longleftrightarrow> u < t \<and> (s, u) \<in> fst ` set rows"
  by (induction rows) (auto simp: earlier_seconds_Cons split: if_splits)

lemma Max_earlier: "earlier_seconds s t rows \<noteq> [] \<Longrightarrow>
    Max (set (earlier_seconds s t rows)) < t \<and> (s, Max (set (earlier_seconds s t rows))) \<in> fst ` set rows"
proof -
  assume "earlier_seconds s t rows \<noteq> []"
  then have "Max (set (earlier_seconds s t rows)) \<in> set (earlier_seconds s t rows)" by (intro Max_in) auto
  then show ?thesis unfolding earlier_seconds_set by simp
qed

lemma previous_sample_update:
  assumes "s' \<noteq> s \<or> \<not> t' < t"
  shows "previous_sample s t (AList.update (s', t') r rows) = previous_sample s t rows"
proof (cases "earlier_seconds s t rows = []")
  case True
  then show ?thesis by (simp add: previous_sample_def earlier_seconds_update[OF assms])
next
  case False
  then have "Max (set (earlier_seconds s t rows)) < t" using Max_earlier by blast
  then show ?thesis using assms False
    by (auto simp: previous_sample_def Let_def earlier_seconds_update[OF assms] update_conv')
qed

lemma write_sample_cong:
  assumes "map_of rows (pp_scope p, observed_second q) = map_of rows' (pp_scope p, observed_second q)"
    and "previous_sample (pp_scope p) (observed_second q) rows = previous_sample (pp_scope p) (observed_second q) rows'"
  shows "snd (write_sample now q p rows) = snd (write_sample now' q p rows')"
  using assms by (auto simp: write_sample_def Let_def split: option.splits)

lemma write_sample_result:
  "\<exists>row. fst (write_sample now q p rows) = rows \<and> snd (write_sample now q p rows) = Skipped \<or>
     fst (write_sample now q p rows) = AList.update (pp_scope p, observed_second q) row rows \<and>
     sr_observed_at_us row = wr_observed_at_us q \<and> same_sample q p row"
  by (auto simp: write_sample_def Let_def new_sample_row_def same_sample_def split: option.splits)

lemma write_sample_again: "snd (write_sample later q p (fst (write_sample now q p rows))) = Skipped"
proof -
  obtain row where r: "fst (write_sample now q p rows) = rows \<and> snd (write_sample now q p rows) = Skipped \<or>
     fst (write_sample now q p rows) = AList.update (pp_scope p, observed_second q) row rows \<and>
     sr_observed_at_us row = wr_observed_at_us q \<and> same_sample q p row"
    using write_sample_result by blast
  then show ?thesis
  proof (elim disjE conjE)
    assume "fst (write_sample now q p rows) = rows" "snd (write_sample now q p rows) = Skipped"
    then show ?thesis using write_sample_cong[of rows p q rows later now] by simp
  next
    assume "fst (write_sample now q p rows) = AList.update (pp_scope p, observed_second q) row rows" "same_sample q p row"
    then show ?thesis by (simp add: write_sample_def Let_def update_conv' unchanged_sample_def)
  qed
qed

lemma write_sample_other:
  assumes "pp_scope p \<noteq> s"
  shows "map_of (fst (write_sample now q p rows)) (s, t) = map_of rows (s, t)"
    and "previous_sample s t (fst (write_sample now q p rows)) = previous_sample s t rows"
  using write_sample_result[of now q p rows] assms
  by (auto simp: update_conv' previous_sample_update)

text \<open>A scope is settled for a request when writing it again would change nothing.\<close>

definition settled :: "write_request \<Rightarrow> prepared_sample \<Rightarrow> metric_db \<Rightarrow> bool" where
  "settled q p d \<longleftrightarrow> snd (write_current 0 q p (md_current d)) = Skipped \<and> snd (write_sample 0 q p (md_samples d)) = Skipped"

lemma write_scope_eq:
  "write_scope now q p (d, r) =
    (d\<lparr> md_current := fst (write_current now q p (md_current d)), md_samples := fst (write_sample now q p (md_samples d)) \<rparr>,
     note_sample (pp_scope p) (snd (write_sample now q p (md_samples d)))
       (note_current (pp_scope p) (snd (write_current now q p (md_current d))) r))"
  by (simp add: write_scope_def Let_def split_beta)

lemma write_scope_settled: "settled q p (fst (write_scope now q p dr))"
proof -
  obtain d r where dr: "dr = (d, r)" by (cases dr)
  have "snd (write_current 0 q p (fst (write_current now q p (md_current d)))) = Skipped"
    by (simp add: write_current_again)
  then show ?thesis
    using write_sample_again[of 0 q p now "md_samples d"]
    by (simp add: settled_def write_scope_eq dr)
qed

lemma write_scope_keeps_settled:
  assumes "settled q p d" "pp_scope p \<noteq> pp_scope p'"
  shows "settled q p (fst (write_scope now q p' (d, r)))"
proof -
  have "snd (write_current 0 q p (fst (write_current now q p' (md_current d)))) = snd (write_current 0 q p (md_current d))"
    by (rule write_current_cong) (use assms(2) write_current_other in metis)
  moreover have "snd (write_sample 0 q p (fst (write_sample now q p' (md_samples d)))) = snd (write_sample 0 q p (md_samples d))"
    by (rule write_sample_cong) (use assms(2) write_sample_other in metis)+
  ultimately show ?thesis
    using assms(1) by (simp add: settled_def write_scope_eq)
qed

lemma fold_scopes_settled:
  "distinct (map pp_scope ps) \<Longrightarrow> (\<forall>p \<in> set ps. settled q p (fst (fold (write_scope now q) ps dr))) \<and>
    (\<forall>p. pp_scope p \<notin> pp_scope ` set ps \<longrightarrow> settled q p (fst dr) \<longrightarrow> settled q p (fst (fold (write_scope now q) ps dr)))"
proof (induction ps arbitrary: dr)
  case (Cons p ps)
  let ?m = "write_scope now q p dr"
  have ih: "\<forall>p \<in> set ps. settled q p (fst (fold (write_scope now q) ps ?m))"
    "\<And>x. pp_scope x \<notin> pp_scope ` set ps \<Longrightarrow> settled q x (fst ?m) \<Longrightarrow> settled q x (fst (fold (write_scope now q) ps ?m))"
    using Cons.IH[of ?m] Cons.prems by auto
  have "settled q p (fst (fold (write_scope now q) ps ?m))"
    by (rule ih(2)) (use Cons.prems write_scope_settled in auto)
  moreover have "settled q x (fst (fold (write_scope now q) ps ?m))"
    if "pp_scope x \<notin> pp_scope ` set (p # ps)" "settled q x (fst dr)" for x
  proof (rule ih(2))
    show "settled q x (fst ?m)"
      using write_scope_keeps_settled[of q x "fst dr" p now "snd dr"] that by simp
  qed (use that in auto)
  ultimately show ?case using ih(1) by simp
qed simp

lemma write_scope_idle:
  assumes "settled q p d"
  shows "write_scope now q p (d, r) = (d, note_sample (pp_scope p) Skipped (note_current (pp_scope p) Skipped r))"
proof -
  have c: "snd (write_current now q p (md_current d)) = Skipped"
    using assms write_current_cong[of "md_current d" p "md_current d" now q 0] by (simp add: settled_def)
  have s: "snd (write_sample now q p (md_samples d)) = Skipped"
    using assms write_sample_cong[of "md_samples d" p q "md_samples d" now 0] by (simp add: settled_def)
  show ?thesis
    using c s write_current_skipped[OF c] write_sample_skipped[OF s]
    by (simp add: write_scope_eq)
qed

text \<open>A result that reports no write.\<close>

definition reports_nothing :: "materialization \<Rightarrow> bool" where
  "reports_nothing r \<longleftrightarrow> mr_inserted r = [] \<and> mr_updated r = [] \<and> mr_current_inserted r = [] \<and> mr_current_updated r = [] \<and>
     \<not> mr_runner_state_written r \<and> mr_stream_events_written r = 0 \<and> \<not> mr_playback_snapshot_written r"

lemma reports_nothing_no_writes [simp]: "reports_nothing no_writes"
  by (simp add: reports_nothing_def no_writes_def)

lemma reports_nothing_skip [simp]:
  "reports_nothing (note_sample s Skipped (note_current s Skipped r)) = reports_nothing r"
  by (simp add: reports_nothing_def note_sample_def note_current_def)

lemma fold_scopes_idle:
  "(\<forall>p \<in> set ps. settled q p d) \<Longrightarrow> reports_nothing r \<Longrightarrow>
    \<exists>r'. fold (write_scope now q) ps (d, r) = (d, r') \<and> reports_nothing r'"
  by (induction ps arbitrary: r) (auto simp: write_scope_idle)

lemma prepare_samples_distinct:
  "prepare_samples heat seen cs = Inr ps \<Longrightarrow>
    distinct (map pp_scope ps) \<and> (\<forall>p \<in> set ps. fst (pp_scope p) = heat \<and> snd (pp_scope p) \<notin> set seen)"
proof (induction cs arbitrary: seen ps)
  case (Cons c cs)
  from Cons.prems obtain s cu hi rest where
    "validated_scope c = Inr s" "s \<notin> set seen" "prepare_samples heat (s # seen) cs = Inr rest"
    "ps = \<lparr> pp_scope = (heat, s), pp_values = cu, pp_history_values = hi, pp_event = sm_event_boundary c \<rparr> # rest"
    by (auto split: sum.splits if_splits)
  moreover from this have "distinct (map pp_scope rest)"
      "\<forall>p \<in> set rest. fst (pp_scope p) = heat \<and> snd (pp_scope p) \<notin> set (s # seen)"
    using Cons.IH by blast+
  ultimately show ?case by (auto simp: image_iff) (metis snd_conv)
qed simp

lemma new_runner_rank [simp]:
  "state_rank (new_runner_row now q r) = incoming_tick_rank q r" "rr_version (new_runner_row now q r) = wr_version q"
  by (simp_all add: state_rank_def new_runner_row_def incoming_tick_rank_def)

lemma write_runner_cases:
  "write_runner now q r rows = (AList.update (wr_heat q) (new_runner_row now q r) rows, True) \<or>
   write_runner now q r rows = (rows, False) \<and> (\<forall>later. write_runner later q r rows = (rows, False))"
  by (simp add: write_runner_def split: option.splits)

lemma write_runner_again:
  "write_runner later q r (fst (write_runner now q r rows)) = (fst (write_runner now q r rows), False)"
proof (cases "write_runner now q r rows = (rows, False)")
  case True
  then show ?thesis using write_runner_cases[of now q r rows] by auto
next
  case False
  then have e: "fst (write_runner now q r rows) = AList.update (wr_heat q) (new_runner_row now q r) rows"
    using write_runner_cases[of now q r rows] by auto
  show ?thesis unfolding e by (simp add: write_runner_def update_conv')
qed

lemma write_tick_again: "write_tick later q r (write_tick now q r rows) = write_tick now q r rows"
  by (auto simp: write_tick_def tick_rank_def incoming_tick_rank_def Let_def update_conv' split: option.splits)

lemma write_runner_part_cases:
  assumes "write_runner_part sha burns now session q (d, m) = Inr (d', m')"
  obtains (none) "wr_runner q = None" "d' = d" "m' = m"
  | (some) r playback stream where "wr_runner q = Some r"
      "d' = d\<lparr> md_ticks := write_tick now q r (md_ticks d), md_runner := fst (write_runner now q r (md_runner d)),
              md_stream := stream, md_playback := playback \<rparr>"
proof (cases "wr_runner q")
  case None
  then show thesis using none assms by (simp add: write_runner_part_def)
next
  case (Some r)
  show thesis
    using some[OF Some] assms Some
    by (cases d) (auto simp: write_runner_part_def Let_def split: prod.splits if_splits sum.splits option.splits)
qed

text \<open>functional. Writing one metric tick twice is writing it once: after an accepted write, the
  same request (a retried frame, at whatever later time) is accepted, changes no table - not the
  current values, the chart, the tick, the runner cursor, the playback archive, nor the event
  outbox - and reports that nothing was written.\<close>
theorem retried_write_changes_nothing:
  assumes "materialize_metric_samples sha burns now q d = Inr (d', r)"
  shows "\<exists>r'. materialize_metric_samples sha burns' later q d' = Inr (d', r') \<and> reports_nothing r'"
proof -
  from assms obtain ps where a: "argument_error q = None" and ps: "prepare_samples (wr_heat q) [] (wr_samples q) = Inr ps"
    by (auto simp: materialize_metric_samples_def split: option.splits sum.splits)
  show ?thesis
  proof (cases "ps = []")
    case True
    then show ?thesis using assms a ps by (simp add: materialize_metric_samples_def)
  next
    case False
    from assms a ps False obtain session where se: "map_of (md_heats d) (wr_heat q) = Some session"
      and w: "write_runner_part sha burns now session q (fold (write_scope now q) ps (d, no_writes)) = Inr (d', r)"
      by (auto simp: materialize_metric_samples_def split: option.splits)
    obtain e m where e: "fold (write_scope now q) ps (d, no_writes) = (e, m)" by fastforce
    have heats: "md_heats (fst (fold (write_scope now q) ps x)) = md_heats (fst x)" for x
    proof (induction ps arbitrary: x)
      case (Cons p ps)
      then show ?case by (cases x) (simp add: write_scope_eq)
    qed simp
    have se': "map_of (md_heats e) (wr_heat q) = Some session" using heats[of "(d, no_writes)"] se e by simp
    have settled_e: "\<forall>p \<in> set ps. settled q p e"
      using fold_scopes_settled[of ps q now "(d, no_writes)"] prepare_samples_distinct[OF ps] e by auto
    from w[unfolded e] show ?thesis
    proof (cases rule: write_runner_part_cases)
      case none
      obtain r' where "fold (write_scope later q) ps (e, no_writes) = (e, r')" "reports_nothing r'"
        using fold_scopes_idle[OF settled_e reports_nothing_no_writes] by blast
      then show ?thesis
        using none a ps False se' by (simp add: materialize_metric_samples_def write_runner_part_def)
    next
      case (some rn playback stream)
      then have "\<forall>p \<in> set ps. settled q p d'" using settled_e by (simp add: settled_def)
      then obtain r' where "fold (write_scope later q) ps (d', no_writes) = (d', r')" "reports_nothing r'"
        using fold_scopes_idle[OF _ reports_nothing_no_writes] by blast
      moreover have "write_runner later q rn (md_runner d') = (md_runner d', False)"
        unfolding some by (simp add: write_runner_again)
      moreover have "write_tick later q rn (md_ticks d') = md_ticks d'"
        unfolding some by (simp add: write_tick_again)
      moreover have "map_of (md_heats d') (wr_heat q) = Some session" unfolding some using se' by simp
      ultimately show ?thesis
        using some(1) a ps False by (simp add: materialize_metric_samples_def write_runner_part_def Let_def)
    qed
  qed
qed

section \<open>Runs of accepted writes\<close>

definition fresh_metric_db :: "metric_db \<Rightarrow> bool" where
  "fresh_metric_db d \<longleftrightarrow> md_current d = [] \<and> md_samples d = [] \<and> md_ticks d = [] \<and> md_runner d = [] \<and> md_playback d = []"

inductive metric_run :: "(json \<Rightarrow> string) \<Rightarrow> metric_db \<Rightarrow> write_request list \<Rightarrow> bool" for sha where
  start: "fresh_metric_db d \<Longrightarrow> metric_run sha d []"
| accept: "metric_run sha d ws \<Longrightarrow> materialize_metric_samples sha burns now q d = Inr (d', r) \<Longrightarrow> metric_run sha d' (ws @ [q])"

text \<open>The scopes and values a request carries.\<close>

definition offers :: "write_request \<Rightarrow> prepared_sample \<Rightarrow> bool" where
  "offers q p = (case prepare_samples (wr_heat q) [] (wr_samples q) of Inl e \<Rightarrow> False | Inr ps \<Rightarrow> p \<in> set ps)"

lemma materialize_accepted:
  assumes "materialize_metric_samples sha burns now q d = Inr (d', r)"
  obtains (empty) "prepare_samples (wr_heat q) [] (wr_samples q) = Inr []" "d' = d" "argument_error q = None"
  | (written) ps session where "prepare_samples (wr_heat q) [] (wr_samples q) = Inr ps" "ps \<noteq> []"
      "map_of (md_heats d) (wr_heat q) = Some session" "argument_error q = None"
      "write_runner_part sha burns now session q (fold (write_scope now q) ps (d, no_writes)) = Inr (d', r)"
  using assms
  by (auto simp: materialize_metric_samples_def split: option.splits sum.splits if_splits)

subsection \<open>Current values\<close>

definition write_key :: "write_request \<Rightarrow> (int \<times> int \<times> string) \<times> int" where
  "write_key q = (incoming_rank q, wr_version q)"

definition row_key :: "current_row \<Rightarrow> (int \<times> int \<times> string) \<times> int" where
  "row_key r = (current_rank r, mc_version r)"

definition next_current :: "int \<Rightarrow> write_request \<Rightarrow> prepared_sample \<Rightarrow> current_row option \<Rightarrow> current_row" where
  "next_current now q p old = (case old of
     None \<Rightarrow> new_current_row now q p
   | Some row \<Rightarrow> if row_key row < write_key q then (new_current_row now q p)\<lparr> mc_created_at_us := mc_created_at_us row \<rparr> else row)"

lemma write_current_lookup:
  "map_of (fst (write_current now q p rows)) s =
    (if s = pp_scope p then Some (next_current now q p (map_of rows (pp_scope p))) else map_of rows s)"
proof (cases "map_of rows (pp_scope p)")
  case None
  then show ?thesis by (simp add: write_current_def next_current_def update_conv')
next
  case (Some row)
  have k: "row_key row < write_key q \<longleftrightarrow> current_rank row < incoming_rank q \<or> (incoming_rank q = current_rank row \<and> mc_version row < wr_version q)"
    unfolding row_key_def write_key_def less_prod_def' by auto
  show ?thesis
    unfolding write_current_def Some option.case k[symmetric]
    by (simp add: next_current_def Some update_conv' split: if_splits)
qed

lemma row_key_next: "row_key (next_current now q p old) = (case old of None \<Rightarrow> write_key q | Some row \<Rightarrow> max (row_key row) (write_key q))"
proof (cases old)
  case None
  then show ?thesis by (simp add: next_current_def row_key_def write_key_def)
next
  case (Some row)
  have "row_key ((new_current_row now q p)\<lparr> mc_created_at_us := c \<rparr>) = write_key q" for c
    by (simp add: row_key_def write_key_def new_current_row_def incoming_rank_def)
  then show ?thesis using Some
    by (cases "row_key row < write_key q") (simp_all add: next_current_def max_absorb1 max_absorb2 less_imp_le leI)
qed

lemma fold_scopes_current:
  "distinct (map pp_scope ps) \<Longrightarrow>
    (\<forall>p \<in> set ps. map_of (md_current (fst (fold (write_scope now q) ps (d, m)))) (pp_scope p) =
        Some (next_current now q p (map_of (md_current d) (pp_scope p)))) \<and>
    (\<forall>s. s \<notin> pp_scope ` set ps \<longrightarrow> map_of (md_current (fst (fold (write_scope now q) ps (d, m)))) s = map_of (md_current d) s)"
proof (induction ps arbitrary: d m)
  case (Cons p ps)
  obtain d1 m1 where w: "write_scope now q p (d, m) = (d1, m1)" by (cases "write_scope now q p (d, m)")
  have d1: "map_of (md_current d1) s = (if s = pp_scope p then Some (next_current now q p (map_of (md_current d) (pp_scope p)))
      else map_of (md_current d) s)" for s
    using w by (auto simp: write_scope_eq write_current_lookup)
  have ih: "\<forall>x \<in> set ps. map_of (md_current (fst (fold (write_scope now q) ps (d1, m1)))) (pp_scope x) =
        Some (next_current now q x (map_of (md_current d1) (pp_scope x)))"
      "\<And>s. s \<notin> pp_scope ` set ps \<Longrightarrow> map_of (md_current (fst (fold (write_scope now q) ps (d1, m1)))) s = map_of (md_current d1) s"
    using Cons.IH[of d1 m1] Cons.prems by auto
  have other: "pp_scope x \<noteq> pp_scope p" if "x \<in> set ps" for x
    using Cons.prems that by (metis distinct.simps(2) image_eqI list.set_map list.simps(9))
  show ?case using ih Cons.prems other by (auto simp: w d1)
qed simp

text \<open>What a lookup in \<open>metric_current\<close> returns after the writes of a log.\<close>

definition current_of_log :: "write_request list \<Rightarrow> scope_id \<Rightarrow> current_row option \<Rightarrow> bool" where
  "current_of_log ws s row \<longleftrightarrow> (case row of
     None \<Rightarrow> \<not> (\<exists>q \<in> set ws. \<exists>p. offers q p \<and> pp_scope p = s)
   | Some r \<Rightarrow>
      (\<exists>q \<in> set ws. \<exists>p. offers q p \<and> pp_scope p = s \<and> row_key r = write_key q \<and> mc_values r = pp_values p) \<and>
      (\<forall>q \<in> set ws. \<forall>p. offers q p \<and> pp_scope p = s \<longrightarrow> write_key q \<le> row_key r))"

lemma current_of_log_other:
  assumes "current_of_log ws s row" "\<And>p. offers q p \<Longrightarrow> pp_scope p \<noteq> s"
  shows "current_of_log (ws @ [q]) s row"
  using assms by (auto simp: current_of_log_def split: option.splits)

lemma next_current_values:
  "next_current now q p old = row \<Longrightarrow>
    (mc_values row = pp_values p \<and> row_key row = write_key q) \<or> (old = Some row \<and> write_key q \<le> row_key row)"
  by (auto simp: next_current_def new_current_row_def row_key_def write_key_def incoming_rank_def not_less split: option.splits if_splits)

lemma current_of_log_next:
  assumes inv: "current_of_log ws s old" and p: "offers q p" "pp_scope p = s"
    and unique: "\<And>x. offers q x \<Longrightarrow> pp_scope x = s \<Longrightarrow> x = p"
  shows "current_of_log (ws @ [q]) s (Some (next_current now q p old))"
proof -
  define row where "row = next_current now q p old"
  have le: "write_key q \<le> row_key row" unfolding row_def row_key_next by (cases old) auto
  have old_le: "row_key r \<le> row_key row" if "old = Some r" for r
    unfolding row_def row_key_next using that by simp
  have "\<exists>y \<in> set (ws @ [q]). \<exists>x. offers y x \<and> pp_scope x = s \<and> row_key row = write_key y \<and> mc_values row = pp_values x"
    using next_current_values[OF row_def[symmetric]] p inv by (auto simp: current_of_log_def)
  moreover have "write_key y \<le> row_key row" if yx: "y \<in> set (ws @ [q])" "offers y x" "pp_scope x = s" for y x
  proof (cases "y = q")
    case False
    then have y: "y \<in> set ws" using yx by simp
    obtain r where r: "old = Some r" "write_key y \<le> row_key r"
    proof (cases old)
      case None
      then show thesis using inv y yx unfolding current_of_log_def by auto
    next
      case (Some r)
      then have "write_key y \<le> row_key r" using inv y yx by (auto simp: current_of_log_def)
      then show thesis using that Some by blast
    qed
    show ?thesis using order.trans[OF r(2) old_le[OF r(1)]] .
  qed (use le in simp)
  ultimately show ?thesis unfolding current_of_log_def row_def[symmetric] by auto
qed

lemma write_runner_part_current:
  assumes "write_runner_part sha burns now session q (d, m) = Inr (d', r)"
  shows "md_current d' = md_current d" "md_samples d' = md_samples d"
  using assms by (auto elim: write_runner_part_cases)

lemma metric_run_current: "metric_run sha d ws \<Longrightarrow> current_of_log ws s (map_of (md_current d) s)"
proof (induction rule: metric_run.induct)
  case (start d)
  then show ?case by (simp add: fresh_metric_db_def current_of_log_def)
next
  case (accept d ws burns now q d' r)
  from accept.hyps(2) show ?case
  proof (cases rule: materialize_accepted)
    case empty
    then show ?thesis using accept.IH current_of_log_other[of ws s _ q] by (simp add: offers_def)
  next
    case (written ps session)
    obtain e m where e: "fold (write_scope now q) ps (d, no_writes) = (e, m)" by fastforce
    have d': "md_current d' = md_current e" using written(5)[unfolded e] by (rule write_runner_part_current)
    have dist: "distinct (map pp_scope ps)" using prepare_samples_distinct[OF written(1)] by blast
    have off: "offers q p \<longleftrightarrow> p \<in> set ps" for p by (simp add: offers_def written(1))
    show ?thesis
    proof (cases "s \<in> pp_scope ` set ps")
      case True
      then obtain p where p: "p \<in> set ps" "pp_scope p = s" by blast
      have "map_of (md_current d') s = Some (next_current now q p (map_of (md_current d) s))"
        using fold_scopes_current[OF dist, of now q d no_writes] p unfolding d' e fst_conv by blast
      moreover have "current_of_log (ws @ [q]) s (Some (next_current now q p (map_of (md_current d) s)))"
      proof (rule current_of_log_next[OF accept.IH])
        fix x assume x: "offers q x" "pp_scope x = s"
        then show "x = p" using inj_onD[of pp_scope "set ps" x p] x p dist by (simp add: off distinct_map)
      qed (use p off in auto)
      ultimately show ?thesis by simp
    next
      case False
      then have "map_of (md_current d') s = map_of (md_current d) s"
        using fold_scopes_current[OF dist, of now q d no_writes] unfolding d' e fst_conv by blast
      then show ?thesis using current_of_log_other[OF accept.IH, of q] False off by auto
    qed
  qed
qed

text \<open>C14. equivalence. The dashboard converges: whatever the order and repetition in which the same
  metric ticks reach the store, every scope ends with the same current values, provided that two
  ticks of one instant, message, source and formula version carry the same values.\<close>
theorem current_values_converge:
  assumes "metric_run sha d ws" "metric_run sha' e ws'" "set ws' = set ws"
    and consistent: "\<And>q q' p p'. q \<in> set ws \<Longrightarrow> q' \<in> set ws \<Longrightarrow> offers q p \<Longrightarrow> offers q' p' \<Longrightarrow>
      pp_scope p = s \<Longrightarrow> pp_scope p' = s \<Longrightarrow> write_key q = write_key q' \<Longrightarrow> pp_values p = pp_values p'"
  shows "map_option mc_values (map_of (md_current d) s) = map_option mc_values (map_of (md_current e) s)"
proof -
  have a: "current_of_log ws s (map_of (md_current d) s)" using metric_run_current[OF assms(1)] .
  have b: "current_of_log ws s (map_of (md_current e) s)"
    using metric_run_current[OF assms(2), of s] unfolding current_of_log_def assms(3) .
  show ?thesis
  proof (cases "map_of (md_current d) s")
    case None
    then show ?thesis using a b by (auto simp: current_of_log_def split: option.splits)
  next
    case (Some r)
    then obtain r' where r': "map_of (md_current e) s = Some r'"
      using a b by (cases "map_of (md_current e) s") (auto simp: current_of_log_def)
    obtain q p where q: "q \<in> set ws" "offers q p" "pp_scope p = s" "row_key r = write_key q" "mc_values r = pp_values p"
      using a Some by (auto simp: current_of_log_def)
    obtain q' p' where q': "q' \<in> set ws" "offers q' p'" "pp_scope p' = s" "row_key r' = write_key q'" "mc_values r' = pp_values p'"
      using b r' by (auto simp: current_of_log_def)
    have "write_key q' \<le> row_key r" using a Some q' by (auto simp: current_of_log_def)
    moreover have "write_key q \<le> row_key r'" using b r' q by (auto simp: current_of_log_def)
    ultimately have "write_key q = write_key q'" using q q' by (metis order_antisym)
    then have "pp_values p = pp_values p'" using consistent[OF q(1) q'(1) q(2) q'(2) q(3) q'(3)] by blast
    then show ?thesis using Some r' q q' by simp
  qed
qed

subsection \<open>The playback archive\<close>

definition playback_behind :: "metric_db \<Rightarrow> bool" where
  "playback_behind d \<longleftrightarrow> (\<forall>h t y. map_of (md_playback d) (h, t) = Some y \<longrightarrow>
     (\<exists>r. map_of (md_runner d) h = Some r \<and> (playback_rank y, py_version y) \<le> (state_rank r, rr_version r)))"

lemma write_runner_written:
  assumes "write_runner now q r rows = (rows', True)"
  shows "map_of rows' h = (if h = wr_heat q then Some (new_runner_row now q r) else map_of rows h)"
    and "map_of rows (wr_heat q) = Some s \<Longrightarrow> (state_rank s, rr_version s) < (incoming_tick_rank q r, wr_version q)"
proof -
  have e: "rows' = AList.update (wr_heat q) (new_runner_row now q r) rows"
    using assms by (auto simp: write_runner_def split: option.splits if_splits)
  show "map_of rows' h = (if h = wr_heat q then Some (new_runner_row now q r) else map_of rows h)"
    by (simp add: e update_conv')
  show "(state_rank s, rr_version s) < (incoming_tick_rank q r, wr_version q)"
    if s: "map_of rows (wr_heat q) = Some s"
  proof -
    have "state_rank s < incoming_tick_rank q r \<or> (incoming_tick_rank q r = state_rank s \<and> rr_version s < wr_version q)"
      using assms s by (auto simp only: write_runner_def option.case split: if_splits)
    then show ?thesis unfolding less_prod_def' by auto
  qed
qed

lemma write_playback_result:
  assumes "write_playback sha now q r y rows = Inr (rows', w)"
  shows "rows' = rows \<or> (\<exists>row. rows' = AList.update (wr_heat q, observed_second q) row rows \<and>
    playback_rank row = incoming_tick_rank q r \<and> py_version row = wr_version q)"
  using assms
  by (auto simp: write_playback_def Let_def playback_rank_def incoming_tick_rank_def split: sum.splits option.splits if_splits)

text \<open>Where the runner cursor may advance, the snapshot of the same second is strictly behind.\<close>

lemma playback_no_conflict:
  assumes "playback_behind d" "write_runner now q r (md_runner d) = (rows', True)"
    and "map_of (md_playback d) (wr_heat q, observed_second q) = Some e"
  shows "(playback_rank e, py_version e) < (incoming_tick_rank q r, wr_version q)"
proof -
  obtain s where s: "map_of (md_runner d) (wr_heat q) = Some s" "(playback_rank e, py_version e) \<le> (state_rank s, rr_version s)"
    using assms(1,3) unfolding playback_behind_def by blast
  show ?thesis using order.strict_trans1[OF s(2) write_runner_written(2)[OF assms(2) s(1)]] .
qed

lemma write_playback_accepted:
  assumes "canonical_values (pc_payload y) = Inr payload"
    and "\<And>e. map_of rows (wr_heat q, observed_second q) = Some e \<Longrightarrow> (playback_rank e, py_version e) < (incoming_tick_rank q r, wr_version q)"
  shows "\<exists>x. write_playback sha now q r y rows = Inr x"
proof (cases "map_of rows (wr_heat q, observed_second q)")
  case None
  then show ?thesis using assms(1) by (auto simp: write_playback_def Let_def)
next
  case (Some e)
  then have "playback_rank e < incoming_tick_rank q r \<or> (incoming_tick_rank q r = playback_rank e \<and> py_version e < wr_version q)"
    using assms(2) unfolding less_prod_def' by auto
  then show ?thesis unfolding write_playback_def Let_def assms(1) Some sum.case option.case by (simp only: if_True split: if_split) blast
qed

lemma argument_error_playback:
  assumes "argument_error q = None" "wr_playback q = Some y"
  obtains payload where "canonical_values (pc_payload y) = Inr payload"
  using assms by (auto simp: argument_error_def split: if_splits option.splits sum.splits)

lemma write_runner_part_behind:
  assumes inv: "playback_behind d"
    and ok: "write_runner_part sha burns now session q (d, m) = Inr (d', m')"
  shows "playback_behind d'"
proof (cases "wr_runner q")
  case None
  then show ?thesis using ok inv by (simp add: write_runner_part_def)
next
  case (Some r)
  obtain rows' w where wr: "write_runner now q r (md_runner d) = (rows', w)" by fastforce
  show ?thesis
  proof (cases w)
    case False
    then have "rows' = md_runner d" using wr write_runner_cases[of now q r "md_runner d"] by auto
    then show ?thesis using ok inv Some wr False
      by (auto simp: write_runner_part_def Let_def playback_behind_def)
  next
    case True
    have run: "md_runner d' = rows'" using ok Some wr True
      by (auto simp: write_runner_part_def Let_def split: sum.splits prod.splits option.splits)
    have play: "md_playback d' = md_playback d \<or> (\<exists>row. md_playback d' = AList.update (wr_heat q, observed_second q) row (md_playback d) \<and>
        playback_rank row = incoming_tick_rank q r \<and> py_version row = wr_version q)"
      using ok Some wr True
      by (auto simp: write_runner_part_def Let_def split: sum.splits prod.splits option.splits dest!: write_playback_result)
    have old: "\<exists>s. map_of rows' h = Some s \<and> (playback_rank y, py_version y) \<le> (state_rank s, rr_version s)"
      if y: "map_of (md_playback d) (h, t) = Some y" for h t y
    proof -
      obtain s where s: "map_of (md_runner d) h = Some s" "(playback_rank y, py_version y) \<le> (state_rank s, rr_version s)"
        using inv y unfolding playback_behind_def by blast
      show ?thesis
      proof (cases "h = wr_heat q")
        case h: True
        have "(state_rank s, rr_version s) < (incoming_tick_rank q r, wr_version q)"
          using write_runner_written(2)[of now q r "md_runner d" rows' s] wr True s h by simp
        then have "(playback_rank y, py_version y) \<le> (incoming_tick_rank q r, wr_version q)"
          using s(2) by (meson order.trans less_imp_le)
        then show ?thesis using write_runner_written(1)[of now q r "md_runner d" rows' h] wr True h by simp
      next
        case False
        then show ?thesis using write_runner_written(1)[of now q r "md_runner d" rows' h] wr True s by simp
      qed
    qed
    have new: "map_of rows' (wr_heat q) = Some (new_runner_row now q r)"
      using write_runner_written(1)[of now q r "md_runner d" rows'] wr True by simp
    show ?thesis unfolding playback_behind_def run
    proof (intro allI impI)
      fix h t y assume y: "map_of (md_playback d') (h, t) = Some y"
      from play show "\<exists>s. map_of rows' h = Some s \<and> (playback_rank y, py_version y) \<le> (state_rank s, rr_version s)"
      proof (elim disjE exE conjE)
        assume "md_playback d' = md_playback d"
        then show ?thesis using old y by simp
      next
        fix row assume row: "md_playback d' = AList.update (wr_heat q, observed_second q) row (md_playback d)"
          "playback_rank row = incoming_tick_rank q r" "py_version row = wr_version q"
        show ?thesis
        proof (cases "(h, t) = (wr_heat q, observed_second q)")
          case True
          then have "y = row" using y row(1) by (simp add: update_conv')
          then show ?thesis using True new row by simp
        next
          case False
          then have "map_of (md_playback d) (h, t) = Some y" using y row(1) by (simp add: update_conv' split: if_splits)
          then show ?thesis using old by blast
        qed
      qed
    qed
  qed
qed

lemma write_scope_rest:
  "md_playback (fst (fold (write_scope now q) ps x)) = md_playback (fst x) \<and> md_runner (fst (fold (write_scope now q) ps x)) = md_runner (fst x)"
proof (induction ps arbitrary: x)
  case (Cons p ps)
  then show ?case by (cases x) (simp add: write_scope_eq)
qed simp

lemma playback_behind_scopes:
  assumes "playback_behind d" "fold (write_scope now q) ps (d, m) = (e, m')"
  shows "playback_behind e"
  using assms write_scope_rest[of now q ps "(d, m)"] by (simp add: playback_behind_def)

lemma materialize_behind:
  assumes "playback_behind d" "materialize_metric_samples sha burns now q d = Inr (d', r)"
  shows "playback_behind d'"
  using assms(2)
proof (cases rule: materialize_accepted)
  case empty
  then show ?thesis using assms(1) by simp
next
  case (written ps session)
  obtain e m where e: "fold (write_scope now q) ps (d, no_writes) = (e, m)" by fastforce
  show ?thesis
    using write_runner_part_behind[OF playback_behind_scopes[OF assms(1) e]] written(5) unfolding e by blast
qed

lemma metric_run_behind: "metric_run sha d ws \<Longrightarrow> playback_behind d"
proof (induction rule: metric_run.induct)
  case (start d)
  then show ?case by (simp add: fresh_metric_db_def playback_behind_def)
next
  case (accept d ws burns now q d' r)
  then show ?case using materialize_behind by blast
qed

text \<open>The requests the store refuses for what they ask, whatever it holds.\<close>

definition request_ok :: "write_request \<Rightarrow> bool" where
  "request_ok q \<longleftrightarrow> argument_error q = None \<and> (\<exists>ps. prepare_samples (wr_heat q) [] (wr_samples q) = Inr ps)"

lemma tick_accepted:
  assumes behind: "playback_behind d" and ok: "request_ok q" and heat: "map_of (md_heats d) (wr_heat q) = Some session"
    and stream: "\<And>r x. wr_runner q = Some r \<Longrightarrow> \<exists>y. write_stream burns now session q r x = Inr y"
  shows "\<exists>x. materialize_metric_samples sha burns now q d = Inr x"
proof -
  obtain ps where ps: "prepare_samples (wr_heat q) [] (wr_samples q) = Inr ps" and a: "argument_error q = None"
    using ok by (auto simp: request_ok_def)
  obtain e m where e: "fold (write_scope now q) ps (d, no_writes) = (e, m)" by fastforce
  note behind_e = playback_behind_scopes[OF behind e]
  have "\<exists>x. write_runner_part sha burns now session q (e, m) = Inr x"
  proof (cases "wr_runner q")
    case (Some r)
    obtain rows' w where wr: "write_runner now q r (md_runner e) = (rows', w)" by fastforce
    obtain stream' n where st: "write_stream burns now session q r (md_stream e) = Inr (stream', n)"
      using stream[OF Some, of "md_stream e"] by auto
    show ?thesis
    proof (cases "w \<and> wr_playback q \<noteq> None")
      case True
      then obtain y where y: "wr_playback q = Some y" by blast
      obtain payload where payload: "canonical_values (pc_payload y) = Inr payload" using argument_error_playback[OF a y] .
      have wr': "write_runner now q r (md_runner e) = (rows', True)" using wr True by simp
      obtain pw where "write_playback sha now q r y (md_playback e) = Inr pw"
        using write_playback_accepted[OF payload playback_no_conflict[OF behind_e wr'], of "md_playback e" sha now] by blast
      then show ?thesis using Some wr True y st by (auto simp: write_runner_part_def Let_def split: prod.splits)
    next
      case False
      then show ?thesis using Some wr st by (auto simp: write_runner_part_def Let_def split: option.splits)
    qed
  qed (simp add: write_runner_part_def)
  then show ?thesis using a ps e heat by (auto simp: materialize_metric_samples_def)
qed

text \<open>safety. A metric tick is never lost to a playback conflict: in every database the store can
  reach, a well-formed request without stream events for a known heat is accepted. The error
  "Playback snapshot conflicts at an identical source rank" cannot occur, because the archive never
  gets ahead of the runner cursor.\<close>
theorem well_formed_tick_is_accepted:
  assumes "metric_run sha d ws" "request_ok q" "map_of (md_heats d) (wr_heat q) = Some session" "wr_stream_events q = []"
  shows "\<exists>x. materialize_metric_samples sha burns now q d = Inr x"
  by (rule tick_accepted[OF metric_run_behind[OF assms(1)] assms(2,3)]) (simp add: write_stream_def assms(4))

subsection \<open>Sparse history\<close>

text \<open>Requests of one formula version at the default interval.\<close>

definition regular_request :: "int \<Rightarrow> write_request \<Rightarrow> bool" where
  "regular_request v q \<longleftrightarrow> wr_version q = v \<and> wr_interval_us q = METRIC_SAMPLE_INTERVAL_US"

text \<open>A write that marks an event boundary of a scope: for the whole request or for its sample.\<close>

definition boundary_write :: "scope_id \<Rightarrow> int \<Rightarrow> write_request \<Rightarrow> bool" where
  "boundary_write s u q \<longleftrightarrow> wr_observed_at_us q = u \<and> (wr_event_boundary q \<or>
     (\<exists>c \<in> set (wr_samples q). sm_event_boundary c \<and> s = (wr_heat q, sm_scope_kind c, sm_scope_key c)))"

definition bucket :: "int \<Rightarrow> int" where
  "bucket t = t div METRIC_SAMPLE_INTERVAL_US"

text \<open>
  The chart of writes up to the instant \<open>bound\<close>: every point is filed under its own second, none is
  newer, and of two points of a scope in a five-second bucket the later one satisfies \<open>E\<close>.
\<close>

definition chart_ok :: "(scope_id \<Rightarrow> int \<Rightarrow> bool) \<Rightarrow> int \<Rightarrow> int \<Rightarrow> ((scope_id \<times> int) \<times> sample_row) list \<Rightarrow> bool" where
  "chart_ok E v bound rows \<longleftrightarrow>
     (\<forall>s t r. map_of rows (s, t) = Some r \<longrightarrow> sr_version r = v \<and> t = sr_observed_at_us r div 1000000 \<and> sr_observed_at_us r \<le> bound) \<and>
     (\<forall>s t t' r r'. map_of rows (s, t) = Some r \<longrightarrow> map_of rows (s, t') = Some r' \<longrightarrow> t < t' \<longrightarrow>
        bucket (sr_observed_at_us r) = bucket (sr_observed_at_us r') \<longrightarrow> E s (sr_observed_at_us r'))"

lemma bucket_mono_second: "(a :: int) div 1000000 \<le> b div 1000000 \<Longrightarrow> bucket a \<le> bucket b"
proof -
  have "bucket x = (x div 1000000) div 5" for x
    unfolding bucket_def METRIC_SAMPLE_INTERVAL_US_def by (simp add: zdiv_zmult2_eq[symmetric])
  then show "a div 1000000 \<le> b div 1000000 \<Longrightarrow> bucket a \<le> bucket b" by (simp add: zdiv_mono1)
qed

lemma chart_ok_mono:
  "chart_ok E v bound rows \<Longrightarrow> bound \<le> bound' \<Longrightarrow> (\<And>s u. E s u \<Longrightarrow> F s u) \<Longrightarrow> chart_ok F v bound' rows"
  unfolding chart_ok_def by (meson order.trans)

lemma earlier_seconds_lookup:
  "u \<in> set (earlier_seconds s t rows) \<longleftrightarrow> u < t \<and> map_of rows (s, u) \<noteq> None"
  by (simp add: earlier_seconds_set map_of_eq_None_iff)

lemma previous_sample_spec:
  assumes "map_of rows (s, u) = Some r" "u < t"
  obtains w p where "previous_sample s t rows = Some p" "map_of rows (s, w) = Some p" "u \<le> w" "w < t"
proof -
  let ?E = "set (earlier_seconds s t rows)"
  have u: "u \<in> ?E" using assms by (simp add: earlier_seconds_lookup)
  then have "Max ?E \<in> ?E" by (intro Max_in) auto
  then obtain p where p: "map_of rows (s, Max ?E) = Some p" "Max ?E < t"
    by (auto simp: earlier_seconds_lookup)
  have "earlier_seconds s t rows \<noteq> []" using u by auto
  then have "previous_sample s t rows = Some p" using p by (simp add: previous_sample_def Let_def)
  then show thesis using that[OF _ p(1) _ p(2)] u by simp
qed

lemma write_sample_chart:
  assumes ok: "chart_ok E v bound rows" and later: "bound \<le> wr_observed_at_us q"
    and q: "wr_version q = v" "wr_interval_us q = METRIC_SAMPLE_INTERVAL_US"
    and event: "wr_event_boundary q \<or> pp_event p \<Longrightarrow> E (pp_scope p) (wr_observed_at_us q)"
  shows "chart_ok E v (wr_observed_at_us q) (fst (write_sample now q p rows))"
proof -
  define ob where "ob = wr_observed_at_us q"
  define s where "s = pp_scope p"
  define t where "t = observed_second q"
  have t: "t = ob div 1000000" by (simp add: t_def ob_def observed_second_def)
  show ?thesis
  proof (cases "snd (write_sample now q p rows) = Skipped")
    case True
    then show ?thesis using write_sample_skipped[OF True] chart_ok_mono[OF ok later] by simp
  next
    case False
    obtain row where row: "fst (write_sample now q p rows) = AList.update (s, t) row rows"
        "sr_observed_at_us row = ob" "sr_version row = v"
      using write_sample_result[of now q p rows] False q(1) by (auto simp: s_def t_def ob_def same_sample_def)
    have wants: "wants_point q p (previous_sample s t rows)"
      using False by (auto simp: write_sample_def Let_def s_def t_def split: if_splits option.splits)
    have fields: "sr_version r = v \<and> u = sr_observed_at_us r div 1000000 \<and> sr_observed_at_us r \<le> bound" if "map_of rows (s', u) = Some r" for s' u r
      using ok that unfolding chart_ok_def by blast
    have newest: "u \<le> t" if "map_of rows (s, u) = Some r" for u r
      using fields[OF that] later t zdiv_mono1[of "sr_observed_at_us r" ob 1000000] by (simp add: ob_def)
    have apart: "E s ob" if r: "map_of rows (s, u) = Some r" and u: "u < t" "bucket (sr_observed_at_us r) = bucket ob" for u r
    proof (rule ccontr)
      assume "\<not> E s ob"
      then have none: "\<not> wr_event_boundary q" "\<not> pp_event p" using event by (auto simp: s_def ob_def)
      obtain w x where x: "previous_sample s t rows = Some x" "map_of rows (s, w) = Some x" "u \<le> w" "w < t"
        using previous_sample_spec[OF r u(1)] by blast
      have "bucket (sr_observed_at_us x) < bucket ob"
        using wants x(1) fields[OF x(2)] q none by (simp add: wants_point_def bucket_def ob_def)
      moreover have "bucket (sr_observed_at_us r) \<le> bucket (sr_observed_at_us x)"
        by (rule bucket_mono_second) (use fields[OF r] fields[OF x(2)] x in simp)
      ultimately show False using u(2) by simp
    qed
    have look: "(s', t') = (s, t) \<and> r = row \<or> (s', t') \<noteq> (s, t) \<and> map_of rows (s', t') = Some r"
      if "map_of (AList.update (s, t) row rows) (s', t') = Some r" for s' t' r
      using that by (cases "(s', t') = (s, t)") (simp_all add: update_conv' split: if_splits)
    show ?thesis
      unfolding chart_ok_def row(1) ob_def[symmetric]
    proof (intro conjI allI impI)
      fix s' t' r assume "map_of (AList.update (s, t) row rows) (s', t') = Some r"
      then have "sr_version r = v \<and> t' = sr_observed_at_us r div 1000000 \<and> sr_observed_at_us r \<le> ob"
        using look[of s' t' r] fields[of s' t' r] row t later by (auto simp: ob_def)
      then show "sr_version r = v" "t' = sr_observed_at_us r div 1000000" "sr_observed_at_us r \<le> ob" by blast+
    next
      fix s' t1 t2 r1 r2
      assume a: "map_of (AList.update (s, t) row rows) (s', t1) = Some r1"
        "map_of (AList.update (s, t) row rows) (s', t2) = Some r2" "t1 < t2"
        "bucket (sr_observed_at_us r1) = bucket (sr_observed_at_us r2)"
      have old: "E s' (sr_observed_at_us r2)" if "map_of rows (s', t1) = Some r1" "map_of rows (s', t2) = Some r2"
        using ok that a(3,4) unfolding chart_ok_def by blast
      show "E s' (sr_observed_at_us r2)"
        using look[OF a(1)] look[OF a(2)] apart[of t1 r1] newest[of t2 r2] row(2) a(3,4) old by auto
    qed
  qed
qed

lemma prepare_samples_events:
  "prepare_samples heat seen cs = Inr ps \<Longrightarrow> p \<in> set ps \<Longrightarrow> pp_event p \<Longrightarrow>
    \<exists>c \<in> set cs. sm_event_boundary c \<and> pp_scope p = (heat, sm_scope_kind c, sm_scope_key c)"
proof (induction cs arbitrary: seen ps)
  case (Cons c cs)
  then show ?case by (auto simp: validated_scope_def split: sum.splits if_splits) blast+
qed simp

lemma fold_scopes_chart:
  assumes "\<And>p. p \<in> set ps \<Longrightarrow> wr_event_boundary q \<or> pp_event p \<Longrightarrow> E (pp_scope p) (wr_observed_at_us q)"
    "wr_version q = v" "wr_interval_us q = METRIC_SAMPLE_INTERVAL_US"
    "chart_ok E v (wr_observed_at_us q) (md_samples (fst x))"
  shows "chart_ok E v (wr_observed_at_us q) (md_samples (fst (fold (write_scope now q) ps x)))"
  using assms(1,4)
proof (induction ps arbitrary: x)
  case (Cons p ps)
  obtain d m where x: "x = (d, m)" by (cases x)
  have "chart_ok E v (wr_observed_at_us q) (md_samples (fst (write_scope now q p x)))"
    using write_sample_chart[of E v "wr_observed_at_us q" "md_samples d" q p now] Cons.prems assms(2,3)
    by (simp add: x write_scope_eq)
  then show ?case using Cons.IH[of "write_scope now q p x"] Cons.prems(1) by simp
qed simp

lemma metric_run_chart:
  assumes "metric_run sha d ws" "list_all (regular_request v) ws" "sorted (map wr_observed_at_us ws)"
  shows "chart_ok (\<lambda>s u. \<exists>q \<in> set ws. boundary_write s u q) v (if ws = [] then 0 else wr_observed_at_us (last ws)) (md_samples d)"
  using assms
proof (induction rule: metric_run.induct)
  case (start d)
  then show ?case by (simp add: fresh_metric_db_def chart_ok_def)
next
  case (accept d ws burns now q d' r)
  let ?E = "\<lambda>s u. \<exists>q' \<in> set (ws @ [q]). boundary_write s u q'"
  have pq: "regular_request v q" and pre: "list_all (regular_request v) ws" "sorted (map wr_observed_at_us ws)"
    using accept.prems by (auto simp: sorted_append)
  have "chart_ok (\<lambda>s u. \<exists>q \<in> set ws. boundary_write s u q) v (if ws = [] then 0 else wr_observed_at_us (last ws)) (md_samples d)"
    using accept.IH pre by blast
  then have ih: "chart_ok ?E v b (md_samples d)" if "(if ws = [] then 0 else wr_observed_at_us (last ws)) \<le> b" for b
    by (rule chart_ok_mono) (use that in auto)
  have bound: "(if ws = [] then 0 else wr_observed_at_us (last ws)) \<le> wr_observed_at_us q" if "argument_error q = None"
    using accept.prems(2) that by (auto simp: sorted_append argument_error_def split: if_splits)
  from accept.hyps(2) show ?case
  proof (cases rule: materialize_accepted)
    case empty
    then show ?thesis using ih[OF bound] by simp
  next
    case (written ps session)
    obtain e m where e: "fold (write_scope now q) ps (d, no_writes) = (e, m)" by fastforce
    have q: "wr_version q = v" "wr_interval_us q = METRIC_SAMPLE_INTERVAL_US" using pq by (simp_all add: regular_request_def)
    have "?E (pp_scope p) (wr_observed_at_us q)" if "p \<in> set ps" "wr_event_boundary q \<or> pp_event p" for p
      using that prepare_samples_events[OF written(1) that(1)] by (auto simp: boundary_write_def)
    then have "chart_ok ?E v (wr_observed_at_us q) (md_samples (fst (fold (write_scope now q) ps (d, no_writes))))"
      using ih[OF bound[OF written(4)]] q by (intro fold_scopes_chart) simp_all
    then show ?thesis
      using write_runner_part_current(2) written(5) unfolding e by fastforce
  qed
qed

text \<open>C34. bounds. The chart of a scope stays sparse: requests of one formula version that arrive in
  time order, at event boundaries or not, leave at most one point in every five-second bucket besides
  the points that event boundaries force: of two points of a scope in one bucket, the later one was
  observed by a request that marks an event boundary, as a whole or for that scope.\<close>
theorem history_is_sparse:
  assumes "metric_run sha d ws" "list_all (regular_request v) ws" "sorted (map wr_observed_at_us ws)"
    and "map_of (md_samples d) (s, t) = Some r" "map_of (md_samples d) (s, t') = Some r'" "t < t'"
    and "sr_observed_at_us r div METRIC_SAMPLE_INTERVAL_US = sr_observed_at_us r' div METRIC_SAMPLE_INTERVAL_US"
  shows "\<exists>q \<in> set ws. boundary_write s (sr_observed_at_us r') q"
  using metric_run_chart[OF assms(1-3)] assms(4-7) unfolding chart_ok_def bucket_def by blast

section \<open>Witnesses\<close>

definition sample_request :: "int \<Rightarrow> int \<Rightarrow> write_request" where
  "sample_request now gap = \<lparr> wr_heat = 3, wr_observed_at_us = now, wr_version = 6, wr_source_key = ''r_c'',
     wr_samples = [\<lparr> sm_scope_kind = ''session'', sm_scope_key = ''s1'', sm_values = [(''gap_ms'', JInt gap)],
       sm_event_boundary = False, sm_history_values = None \<rparr>],
     wr_message = Some now, wr_event_boundary = False, wr_interval_us = METRIC_SAMPLE_INTERVAL_US,
     wr_runner = Some \<lparr> rn_source_frame_id = 1, rn_state_hash = ''h'', rn_boundary_state = JNull \<rparr>,
     wr_stream_events = [], wr_playback = Some \<lparr> pc_payload = [(''gap_ms'', JInt gap)], pc_event_boundary = True \<rparr> \<rparr>"

definition empty_metric_db :: metric_db where
  "empty_metric_db = \<lparr> md_heats = [(3, ''s1'')], md_current = [], md_samples = [], md_ticks = [], md_runner = [],
     md_playback = [], md_stream = empty_stream_db \<rparr>"

abbreviation sample_sha :: "json \<Rightarrow> string" where "sample_sha \<equiv> (\<lambda>_. ''sha'')"

definition store_in_turn :: "write_request list \<Rightarrow> metric_db" where
  "store_in_turn qs = fold (\<lambda>q d. case materialize_metric_samples sample_sha False 9 q d of Inr (d', _) \<Rightarrow> d' | Inl _ \<Rightarrow> d) qs empty_metric_db"

definition early_request :: write_request where "early_request = sample_request 5000000 1500"
definition late_request :: write_request where "late_request = sample_request 6000000 1400"

lemma metric_run_step:
  "metric_run sample_sha (store_in_turn ws) ws \<Longrightarrow> isl (materialize_metric_samples sample_sha False 9 q (store_in_turn ws)) = False \<Longrightarrow>
    metric_run sample_sha (store_in_turn (ws @ [q])) (ws @ [q])"
  by (auto simp: store_in_turn_def intro: metric_run.accept split: sum.splits)

lemma metric_run_empty: "metric_run sample_sha (store_in_turn []) []"
  by (rule metric_run.start) (simp add: store_in_turn_def fresh_metric_db_def empty_metric_db_def)

lemma accepts_early: "isl (materialize_metric_samples sample_sha False 9 early_request (store_in_turn [])) = False"
  by code_simp

lemma accepts_late: "isl (materialize_metric_samples sample_sha False 9 late_request (store_in_turn [])) = False"
  by code_simp

lemma accepts_early_late: "isl (materialize_metric_samples sample_sha False 9 late_request (store_in_turn [early_request])) = False"
  by code_simp

lemma accepts_late_early: "isl (materialize_metric_samples sample_sha False 9 early_request (store_in_turn [late_request])) = False"
  by code_simp

lemma run_early_late: "metric_run sample_sha (store_in_turn [early_request, late_request]) [early_request, late_request]"
  using metric_run_step[OF metric_run_step[OF metric_run_empty accepts_early, unfolded append_Nil] accepts_early_late] by simp

lemma run_late_early: "metric_run sample_sha (store_in_turn [late_request, early_request]) [late_request, early_request]"
  using metric_run_step[OF metric_run_step[OF metric_run_empty accepts_late, unfolded append_Nil] accepts_late_early] by simp

lemma retried_write_changes_nothing_witness:
  "\<exists>d r. materialize_metric_samples sample_sha False 9 early_request empty_metric_db = Inr (d, r) \<and>
     (\<exists>r'. materialize_metric_samples sample_sha True 12 early_request d = Inr (d, r') \<and> reports_nothing r')"
proof -
  obtain d r where d: "materialize_metric_samples sample_sha False 9 early_request empty_metric_db = Inr (d, r)"
    using accepts_early by (cases "materialize_metric_samples sample_sha False 9 early_request empty_metric_db") (auto simp: store_in_turn_def)
  from retried_write_changes_nothing[OF d] d show ?thesis by blast
qed

lemma request_keys: "write_key early_request \<noteq> write_key late_request"
  by code_simp

lemma offers_unique: "offers q p \<Longrightarrow> offers q p' \<Longrightarrow> pp_scope p = pp_scope p' \<Longrightarrow> p = p'"
  using prepare_samples_distinct[of "wr_heat q" "[]" "wr_samples q"]
  by (auto simp: offers_def distinct_map split: sum.splits dest: inj_onD)

lemma current_values_converge_witness:
  "map_option mc_values (map_of (md_current (store_in_turn [early_request, late_request])) (3, ''session'', ''s1''))
    = map_option mc_values (map_of (md_current (store_in_turn [late_request, early_request])) (3, ''session'', ''s1'')) \<and>
   map_option mc_values (map_of (md_current (store_in_turn [early_request, late_request])) (3, ''session'', ''s1''))
    = Some (JObj [(''gap_ms'', JInt 1400)])"
proof
  show "map_option mc_values (map_of (md_current (store_in_turn [early_request, late_request])) (3, ''session'', ''s1''))
    = map_option mc_values (map_of (md_current (store_in_turn [late_request, early_request])) (3, ''session'', ''s1''))"
  proof (rule current_values_converge[OF run_early_late run_late_early])
    show "pp_values p = pp_values p'"
      if "q \<in> set [early_request, late_request]" "q' \<in> set [early_request, late_request]" "offers q p" "offers q' p'"
        "pp_scope p = (3, ''session'', ''s1'')" "pp_scope p' = (3, ''session'', ''s1'')" "write_key q = write_key q'" for q q' p p'
    proof -
      have "q = q'" using that(1,2,7) request_keys by auto
      then show ?thesis using that offers_unique by metis
    qed
  qed auto
  show "map_option mc_values (map_of (md_current (store_in_turn [early_request, late_request])) (3, ''session'', ''s1''))
    = Some (JObj [(''gap_ms'', JInt 1400)])" by code_simp
qed

lemma well_formed_tick_is_accepted_witness:
  "\<exists>x. materialize_metric_samples sample_sha False 12 late_request (store_in_turn [early_request, late_request]) = Inr x"
proof (rule well_formed_tick_is_accepted[OF run_early_late])
  have "\<exists>ps. prepare_samples (wr_heat late_request) [] (wr_samples late_request) = Inr ps"
    by (simp add: late_request_def sample_request_def validated_scope_def SCOPE_KINDS_def strip_def is_py_space_def
        canonical_values_def)
  moreover have "argument_error late_request = None" by code_simp
  ultimately show "request_ok late_request" by (simp add: request_ok_def)
  show "map_of (md_heats (store_in_turn [early_request, late_request])) (wr_heat late_request) = Some ''s1''" by code_simp
  show "wr_stream_events late_request = []" by (simp add: late_request_def sample_request_def)
qed

text \<open>The first evaluation of a heat marks every scope; the tick after it finds the bucket taken, the next event does not.\<close>

definition first_request :: write_request where
  "first_request = (sample_request 5000000 1500)\<lparr> wr_samples := map (\<lambda>c. c\<lparr> sm_event_boundary := True \<rparr>) (wr_samples (sample_request 5000000 1500)) \<rparr>"

definition event_request :: write_request where
  "event_request = (sample_request 7000000 1300)\<lparr> wr_samples := map (\<lambda>c. c\<lparr> sm_event_boundary := True \<rparr>) (wr_samples (sample_request 7000000 1300)) \<rparr>"

lemma run_boundaries:
  "metric_run sample_sha (store_in_turn [first_request, late_request, event_request]) [first_request, late_request, event_request]"
proof -
  have 1: "isl (materialize_metric_samples sample_sha False 9 first_request (store_in_turn [])) = False" by code_simp
  have 2: "isl (materialize_metric_samples sample_sha False 9 late_request (store_in_turn [first_request])) = False" by code_simp
  have 3: "isl (materialize_metric_samples sample_sha False 9 event_request (store_in_turn [first_request, late_request])) = False" by code_simp
  show ?thesis
    using metric_run_step[OF metric_run_step[OF metric_run_step[OF metric_run_empty 1, unfolded append_Nil] 2, unfolded append_Cons append_Nil] 3]
    by simp
qed

lemma history_is_sparse_witness:
  "map_of (md_samples (store_in_turn [first_request, late_request, event_request])) ((3, ''session'', ''s1''), 6) = None \<and>
   (\<exists>q \<in> set [first_request, late_request, event_request]. boundary_write (3, ''session'', ''s1'') 7000000 q)"
proof -
  define d where "d = store_in_turn [first_request, late_request, event_request]"
  define s :: scope_id where "s = (3, ''session'', ''s1'')"
  have p: "map_option sr_observed_at_us (map_of (md_samples d) (s, 5)) = Some 5000000"
    "map_option sr_observed_at_us (map_of (md_samples d) (s, 7)) = Some 7000000" "map_of (md_samples d) (s, 6) = None"
    unfolding d_def s_def by code_simp+
  then obtain r r' where r: "map_of (md_samples d) (s, 5) = Some r" "sr_observed_at_us r = 5000000"
      "map_of (md_samples d) (s, 7) = Some r'" "sr_observed_at_us r' = 7000000" by auto
  have regular: "list_all (regular_request 6) [first_request, late_request, event_request]" by code_simp
  have ordered: "sorted (map wr_observed_at_us [first_request, late_request, event_request])" by code_simp
  have "sr_observed_at_us r div METRIC_SAMPLE_INTERVAL_US = sr_observed_at_us r' div METRIC_SAMPLE_INTERVAL_US"
    using r by (simp add: METRIC_SAMPLE_INTERVAL_US_def)
  from history_is_sparse[OF run_boundaries regular ordered, folded d_def, OF r(1,3) _ this]
  show ?thesis using r(4) p(3) by (simp add: d_def s_def)
qed

end
