(* ===== verification/Metric_Runner.thy ===== *)
theory Metric_Runner
  imports Metric_Tactics Metric_Store "HOL-Library.Sublist"
begin

text \<open>
  The metric runner: \<open>server/timing/metric_runner.py\<close> with the archive payload of
  \<open>server/timing/playback.py\<close> and the two reads of \<open>server/timing/metric_store.py\<close> it starts from
  (\<open>load_metric_history\<close>, \<open>load_metric_runner_state\<close>). One committed frame is evaluated and
  materialised; the memory of the runner is a dictionary of the last boundary state per heat.
  What \<open>load_heat_metric_input\<close> returns for the committed facts comes with the frame.
\<close>

section \<open>Reading back\<close>

definition METRIC_HISTORY_LOOKBACK_US :: int where "METRIC_HISTORY_LOOKBACK_US = 30 * 60 * 1000000"

text \<open>One row of the history; its document must be an object.\<close>

definition history_point_of :: "sample_row \<Rightarrow> metric_error + history_point" where
  "history_point_of r = (case sr_values r of
     JObj values \<Rightarrow> Inr \<lparr> hp_observed_at_us = sr_observed_at_us r, hp_metric_version = sr_version r, hp_values = values \<rparr>
   | _ \<Rightarrow> Inl (MetricStoreError ''Stored metric history values must be an object''))"

definition load_metric_history ::
    "int \<Rightarrow> string \<Rightarrow> string \<Rightarrow> int option \<Rightarrow> int option \<Rightarrow> metric_db \<Rightarrow> metric_error + history_point list" where
  "load_metric_history heat kind key since version d =
    (if heat \<le> 0 then Inl (MetricStoreError ''source_heat_id must be a positive integer'')
     else if kind \<notin> set SCOPE_KINDS then Inl (MetricStoreError ''Unsupported metric scope'')
     else if strip key = [] then Inl (MetricStoreError ''Metric scope_key must be a non-empty string'')
     else if (case since of None \<Rightarrow> False | Some t \<Rightarrow> t < 0) then Inl (MetricStoreError ''since_at_us must be a non-negative integer or None'')
     else if (case version of None \<Rightarrow> False | Some v \<Rightarrow> v < 1) then Inl (MetricStoreError ''metric_version must be a positive integer or None'')
     else traverse history_point_of (map snd
       (sort_key (\<lambda>((scope, second), r). (sr_observed_at_us r, second))
         (filter (\<lambda>((scope, second), r). scope = (heat, kind, key) \<and>
            (case since of None \<Rightarrow> True | Some t \<Rightarrow> t \<le> sr_observed_at_us r) \<and>
            (case version of None \<Rightarrow> True | Some v \<Rightarrow> sr_version r = v)) (md_samples d)))))"

definition load_metric_runner_state :: "int \<Rightarrow> int option \<Rightarrow> metric_db \<Rightarrow> metric_error + runner_row option" where
  "load_metric_runner_state heat version d =
    (if heat \<le> 0 then Inl (MetricStoreError ''source_heat_id must be a positive integer'')
     else if (case version of None \<Rightarrow> False | Some v \<Rightarrow> v < 1) then Inl (MetricStoreError ''metric_version must be a positive integer or None'')
     else Inr (case map_of (md_runner d) heat of
         None \<Rightarrow> None
       | Some r \<Rightarrow> if (case version of None \<Rightarrow> True | Some v \<Rightarrow> rr_version r = v) then Some r else None))"

section \<open>Interval events\<close>

definition INTERVAL_FACT_BOUNDARY_PREFIX :: string where "INTERVAL_FACT_BOUNDARY_PREFIX = ''interval_fact:''"

text \<open>\<open>rpartition(":")\<close>: what stands before and after the last colon.\<close>

definition rpartition_colon :: "string \<Rightarrow> (string \<times> string) option" where
  "rpartition_colon s =
    (let after = rev (takeWhile (\<lambda>c. c \<noteq> CHR '':'') (rev s))
     in if length after = length s then None else Some (take (length s - length after - 1) s, after))"

definition interval_fact_boundary_parts :: "string \<Rightarrow> (string \<times> string) option" where
  "interval_fact_boundary_parts boundary =
    (if \<not> prefix INTERVAL_FACT_BOUNDARY_PREFIX boundary then None
     else (case rpartition_colon (drop (length INTERVAL_FACT_BOUNDARY_PREFIX) boundary) of
         None \<Rightarrow> None
       | Some (i, kind) \<Rightarrow> if i = [] \<or> kind \<notin> {''GAP'', ''DIFF''} then None else Some (i, kind)))"

definition is_playback_boundary :: "heat_input \<Rightarrow> engine_result \<Rightarrow> bool" where
  "is_playback_boundary h evaluation =
    (let ours_id = map_option pt_id (our_participant h);
         ours_class_key = Option.bind (our_participant h) pt_class_key;
         own_events = (case ours_id of None \<Rightarrow> [] | Some i \<Rightarrow> [''lap:'' @ i, ''pit_or_stint:'' @ i])
     in list_ex (\<lambda>k.
          k \<in> {''track_flag'', ''source_gap''} \<or> k \<in> set own_events \<or>
          (case interval_fact_boundary_parts k of
             None \<Rightarrow> False
           | Some (i, _) \<Rightarrow> Some i = ours_id \<or>
               (case map_of (members_by_id h) i of
                  None \<Rightarrow> False
                | Some p \<Rightarrow> ours_class_key \<noteq> None \<and> pt_class_key p = ours_class_key)))
        (er_event_keys evaluation))"

section \<open>Stream events\<close>

definition STREAM_SCHEMA_VERSION :: string where "STREAM_SCHEMA_VERSION = ''timing-live.v1''"

text \<open>One committed frame, with the facts the evaluation reads.\<close>

record metric_frame =
  fm_heat :: int
  fm_frame :: int
  fm_observed_at_us :: int
  fm_message :: "int option"
  fm_source_key :: string
  fm_replay_active :: bool
  fm_input :: heat_input

definition event_metadata :: "heat_input \<Rightarrow> metric_frame \<Rightarrow> json_dict" where
  "event_metadata h f = [(''schema_version'', JStr STREAM_SCHEMA_VERSION), (''session_id'', JStr (ms_id (ht_session h))),
     (''source_heat_id'', JInt (ht_source_heat_id h)), (''generation'', JInt (ht_generation h)),
     (''source_frame_id'', JInt (fm_frame f)), (''source_message_id'', int_json (fm_message f)),
     (''source_key'', JStr (fm_source_key f)), (''observed_at_us'', JInt (fm_observed_at_us f))]"

definition scope_json :: "metric_candidate \<Rightarrow> json" where
  "scope_json c = JObj [(''scope_kind'', JStr (ca_scope_kind c)), (''scope_key'', JStr (ca_scope_key c))]"

text \<open>The typed event a domain event is announced as, with the car it concerns.\<close>

definition boundary_event :: "string \<Rightarrow> (string \<times> string option) option" where
  "boundary_event k =
    (if k = ''track_flag'' then Some (''flag'', None)
     else if k = ''source_gap'' then Some (''quality'', None)
     else if prefix ''lap:'' k then Some (''lap'', Some (drop 4 k))
     else if prefix ''pit_or_stint:'' k then Some (''pit'', Some (drop 13 k))
     else None)"

text \<open>The loop over the domain events; a facet is announced once.\<close>

fun announced :: "(string \<times> string option) list \<Rightarrow> string list \<Rightarrow> ((string \<times> string option) \<times> string) list" where
  "announced seen [] = []"
| "announced seen (k # ks) =
    (case boundary_event k of
       None \<Rightarrow> announced seen ks
     | Some e \<Rightarrow> if e \<in> set seen then announced seen ks else (e, k) # announced (e # seen) ks)"

definition event_data :: "heat_input \<Rightarrow> (string \<times> string option) \<times> string \<Rightarrow> json_dict" where
  "event_data h ek =
    (let ((kind, car), boundary) = ek in
     [(''boundary'', JStr boundary)] @
     (case car of None \<Rightarrow> [] | Some i \<Rightarrow> [(''participant_id'', JStr i)]) @
     (if kind = ''flag''
      then (case ht_current_flag h of
          None \<Rightarrow> []
        | Some f \<Rightarrow> [(''flag'', JObj [(''value'', JStr (tf_flag f)), (''started_at_us'', JInt (tf_started_at_us f)),
            (''provider_code'', text_json (tf_provider_code f)), (''provider_label'', text_json (tf_provider_label f))])])
      else []) @
     (if kind = ''quality''
      then [(''open_ingest_gap'', opt_json (\<lambda>g. JObj [(''started_at_us'', JInt (ig_started_at_us g)), (''reason'', JStr (ig_reason g))])
        (ht_open_ingest_gap h))]
      else []))"

definition event_suffix :: "string option \<Rightarrow> string" where
  "event_suffix car = (case car of None \<Rightarrow> ''track'' | Some i \<Rightarrow> if i = [] then ''track'' else i)"

definition frame_prefix :: "heat_input \<Rightarrow> metric_frame \<Rightarrow> string" where
  "frame_prefix h f = ''metric:'' @ int_text (ht_source_heat_id h) @ '':'' @ int_text (fm_frame f)"

definition session_alerts :: "heat_input \<Rightarrow> engine_result \<Rightarrow> json list" where
  "session_alerts h evaluation =
    (case find (\<lambda>c. ca_scope_kind c = ''session'' \<and> ca_scope_key c = ms_id (ht_session h)) (er_candidates evaluation) of
       None \<Rightarrow> []
     | Some c \<Rightarrow> (case jget ''alerts'' (ca_values c) of JList alerts \<Rightarrow> alerts | _ \<Rightarrow> []))"

definition stream_events :: "heat_input \<Rightarrow> engine_result \<Rightarrow> metric_frame \<Rightarrow> stream_candidate list" where
  "stream_events h evaluation f =
    (let metadata = event_metadata h f; pre = frame_prefix h f;
         event = (\<lambda>kind key data. \<lparr> ec_type = kind, ec_key = pre @ key, ec_payload = JObj (metadata @ [(''data'', JObj data)]) \<rparr>);
         scopes = map scope_json (filter ca_event_boundary (er_candidates evaluation));
         updates = map (\<lambda>(i, kind). JObj [(''participant_id'', JStr i), (''field_kind'', JStr kind)])
           (List.map_filter interval_fact_boundary_parts (er_event_keys evaluation));
         alerts = session_alerts h evaluation
     in [event ''state'' '':state'' [(''event_keys'', JList (map JStr (er_event_keys evaluation))),
           (''event_scopes'', JList scopes), (''interval_fact_updates'', JList updates)],
         event ''metric'' '':metric'' [(''metric_version'', JInt METRIC_ENGINE_VERSION),
           (''scopes'', JList (map scope_json (er_candidates evaluation))),
           (''event_scopes'', JList scopes), (''interval_fact_updates'', JList updates)]]
        @ map (\<lambda>ek. event (fst (fst ek)) ('':'' @ fst (fst ek) @ '':'' @ event_suffix (snd (fst ek))) (event_data h ek))
            (announced [] (er_event_keys evaluation))
        @ (if alerts \<noteq> [] \<and> er_event_keys evaluation \<noteq> [] then [event ''alert'' '':alert'' [(''alerts'', JList alerts)]] else []))"

section \<open>The archive payload\<close>

definition PLAYBACK_SCHEMA_VERSION :: string where "PLAYBACK_SCHEMA_VERSION = ''timing-archive.v1''"

definition PLAYBACK_SESSION_KEYS :: "string list" where
  "PLAYBACK_SESSION_KEYS = [''channel_status'', ''track_flag'', ''flag_phase_elapsed_s'', ''heat_name'', ''session_elapsed_s'',
     ''session_remaining_s'', ''ours_identity'', ''ours_participant_id'', ''ours_class_key'', ''position_overall'',
     ''position_class'', ''completed_laps'', ''current_state'', ''last_lap_ms'', ''best_lap_ms'', ''class_leader_id'',
     ''class_ahead_id'', ''class_behind_id'', ''gap_to_class_leader_ms'', ''gap_to_ahead_ms'', ''gap_to_behind_ms'',
     ''relation_intervals'', ''lap_delta_to_class_leader'', ''lap_delta_to_ahead'', ''lap_delta_to_behind'', ''pace_3_ms'',
     ''pace_5_ms'', ''pace_10_ms'', ''consistency_10_ms'', ''stint_number'', ''stint_started_at_us'', ''stint_elapsed_s'',
     ''tyre_age_laps'', ''stint_pace_5_ms'', ''stint_trend_ms_per_lap'', ''pits_completed'', ''total_pit_lane_time_ms'',
     ''median_pit_lane_time_ms'', ''alerts'']"

definition PLAYBACK_PARTICIPANT_KEYS :: "string list" where
  "PLAYBACK_PARTICIPANT_KEYS = [''participant_id'', ''start_number'', ''team_name'', ''car_name'', ''class_name'', ''class_key'',
     ''is_ours'', ''current_driver_name'', ''position_overall'', ''position_class'', ''completed_laps'', ''current_state'',
     ''last_lap_ms'', ''best_lap_ms'', ''source_gap_ms'', ''source_diff_ms'', ''source_gap_fact'', ''source_diff_fact'',
     ''pace_3_ms'', ''pace_5_ms'', ''pace_10_ms'', ''consistency_10_ms'', ''stint_number'', ''tyre_age_laps'',
     ''pits_completed'', ''total_pit_lane_time_ms'', ''median_pit_lane_time_ms'']"

definition PLAYBACK_CLASS_KEYS :: "string list" where
  "PLAYBACK_CLASS_KEYS = [''class_key'', ''class_name'', ''participant_count'', ''class_best_lap_ms'', ''class_best_start_number'',
     ''class_pace_5_ms'', ''class_leader_id'', ''class_order_basis'', ''class_order_participant_ids'',
     ''median_pit_lane_time_ms'', ''total_completed_pits'']"

definition candidate_values :: "engine_result \<Rightarrow> string \<Rightarrow> string option \<Rightarrow> json_dict option" where
  "candidate_values evaluation kind key =
    (case key of
       None \<Rightarrow> None
     | Some k \<Rightarrow> map_option ca_values (find (\<lambda>c. ca_scope_kind c = kind \<and> ca_scope_key c = k) (er_candidates evaluation)))"

definition compact_values :: "json_dict option \<Rightarrow> string list \<Rightarrow> json" where
  "compact_values values keys = opt_json (\<lambda>v. JObj (map (\<lambda>k. (k, jget k v)) keys)) values"

definition raw_fact_json :: "interval_fact option \<Rightarrow> json" where
  "raw_fact_json = opt_json (\<lambda>f. JObj
    [(''id'', JInt (if_id f)), (''field_kind'', JStr (if_field_kind f)), (''raw_value'', text_json (if_raw_value f)),
     (''value_ms'', int_json (if_value_ms f)), (''value_kind'', text_json (if_value_kind f)),
     (''cell_observation_id'', JInt (if_cell_observation_id f)), (''source_message_id'', int_json (if_source_message_id f)),
     (''source_key'', JStr (if_source_key f)), (''source_change_ordinal'', JInt (if_source_change_ordinal f)),
     (''observed_at_us'', JInt (if_observed_at_us f)), (''source_handle'', JStr (if_source_handle f)),
     (''observation_kind'', JStr (if_observation_kind f)), (''subject_position_overall'', int_json (if_subject_position_overall f)),
     (''subject_state_kind'', text_json (if_subject_state_kind f)), (''subject_laps'', int_json (if_subject_laps f)),
     (''target_participant_id'', text_json (if_target_participant_id f)),
     (''target_position_overall'', int_json (if_target_position_overall f)),
     (''target_state_kind'', text_json (if_target_state_kind f)), (''target_laps'', int_json (if_target_laps f)),
     (''relation_kind'', text_json (if_relation_kind f))])"

definition state_payload :: "participant_state \<Rightarrow> json" where
  "state_payload s = JObj
    [(''position_overall'', int_json (ps_position_overall s)), (''position_class'', int_json (ps_position_class s)),
     (''laps'', int_json (ps_laps s)), (''state'', text_json (ps_state s)), (''state_raw'', text_json (ps_state_raw s)),
     (''state_kind'', text_json (ps_state_kind s)), (''driver_name'', text_json (ps_current_driver_name s)),
     (''last_lap_ms'', int_json (ps_last_lap_ms s)), (''best_lap_ms'', int_json (ps_best_lap_ms s)),
     (''gap_ms'', int_json (ps_gap_ms s)), (''gap_raw'', text_json (ps_gap_raw s)), (''gap_kind'', text_json (ps_gap_kind s)),
     (''gap_source_fact'', raw_fact_json (ps_gap_interval_fact s)), (''diff_ms'', int_json (ps_diff_ms s)),
     (''diff_raw'', text_json (ps_diff_raw s)), (''diff_kind'', text_json (ps_diff_kind s)),
     (''diff_source_fact'', raw_fact_json (ps_diff_interval_fact s)),
     (''provider_pit_count'', int_json (ps_provider_pit_count s)), (''observed_at_us'', JInt (ps_updated_at_us s))]"

definition participant_payload :: "participant_input option \<Rightarrow> json" where
  "participant_payload = opt_json (\<lambda>p. JObj
    [(''participant_id'', JStr (pt_id p)), (''start_number'', text_json (pt_start_number p)),
     (''team_name'', text_json (pt_team_name p)), (''car_name'', text_json (pt_car_name p)),
     (''class_name'', text_json (pt_class_name p)), (''class_key'', text_json (pt_class_key p)),
     (''is_ours'', JBool (pt_is_ours p)), (''state'', opt_json state_payload (pt_state p))])"

definition flag_payload :: "heat_input \<Rightarrow> json" where
  "flag_payload h = opt_json (\<lambda>f. JObj
    [(''flag'', JStr (tf_flag f)), (''provider_code'', text_json (tf_provider_code f)),
     (''provider_label'', text_json (tf_provider_label f)), (''started_at_us'', JInt (tf_started_at_us f)),
     (''observed_started_at_us'', int_json (tf_observed_started_at_us f)),
     (''calibrated_started_at_us'', int_json (tf_calibrated_started_at_us f)),
     (''source_message_id'', int_json (tf_source_message_id f)), (''source_key'', JStr (tf_source_key f))]) (ht_current_flag h)"

definition statistics_payload :: "heat_input \<Rightarrow> json" where
  "statistics_payload h = opt_json (\<lambda>s. JObj
    [(''heat_name'', text_json (hs_heat_name s)), (''participants_started'', int_json (hs_participants_started s)),
     (''participants_on_track'', int_json (hs_participants_on_track s)),
     (''participants_in_pit_zone'', int_json (hs_participants_in_pit_zone s)), (''total_laps'', int_json (hs_total_laps s)),
     (''total_pitstops'', int_json (hs_total_pitstops s)), (''safety_car_count'', int_json (hs_safety_car_count s)),
     (''code_60_count'', int_json (hs_code_60_count s)), (''full_course_yellow_count'', int_json (hs_full_course_yellow_count s)),
     (''observed_at_us'', JInt (hs_observed_at_us s))]) (ht_statistics h)"

definition session_payload :: "metric_session \<Rightarrow> json" where
  "session_payload s = JObj
    [(''id'', JStr (ms_id s)), (''mode'', JStr (ms_mode s)), (''lifecycle'', JStr (ms_lifecycle s)),
     (''race_duration_s'', int_json (ms_race_duration_s s)), (''required_pits'', int_json (ms_required_pits s)),
     (''started_at_us'', int_json (ms_started_at_us s)), (''stopped_at_us'', int_json (ms_stopped_at_us s)),
     (''identity_state'', JStr (ms_identity_state s))]"

text \<open>The payload, or the \<open>ValueError\<close> for an evaluation of another heat or instant.\<close>

definition build_playback_payload :: "heat_input \<Rightarrow> engine_result \<Rightarrow> json_dict option" where
  "build_playback_payload h evaluation =
    (if er_source_heat_id evaluation \<noteq> ht_source_heat_id h \<or> er_observed_at_us evaluation \<noteq> ht_observed_at_us h then None
     else
      (let ours = our_participant h; scope = current_class_scope h;
           computed = (\<lambda>kind key keys. compact_values (candidate_values evaluation kind key) keys)
       in Some
        [(''schema_version'', JStr PLAYBACK_SCHEMA_VERSION), (''observed_at_us'', JInt (ht_observed_at_us h)),
         (''session'', session_payload (ht_session h)),
         (''heat'', JObj [(''source_heat_id'', JInt (ht_source_heat_id h)), (''generation'', JInt (ht_generation h)),
           (''external_name'', text_json (ht_external_name h)), (''provider_started_at_us'', int_json (ht_provider_started_at_us h)),
           (''provider_finished_at_us'', int_json (ht_provider_finished_at_us h)), (''created_at_us'', JInt (ht_created_at_us h))]),
         (''measured'', JObj [(''track_flag'', flag_payload h), (''statistics'', statistics_payload h),
           (''ours'', participant_payload ours),
           (''open_ingest_gap'', opt_json (\<lambda>g. JObj [(''started_at_us'', JInt (ig_started_at_us g)), (''reason'', JStr (ig_reason g))])
             (ht_open_ingest_gap h))]),
         (''computed'', JObj [(''session'', computed ''session'' (Some (ms_id (ht_session h))) PLAYBACK_SESSION_KEYS),
           (''ours'', computed ''participant'' (map_option pt_id ours) PLAYBACK_PARTICIPANT_KEYS),
           (''class'', computed ''class'' (map_option cs_key scope) PLAYBACK_CLASS_KEYS)]),
         (''class_participants'', JList (map (\<lambda>p. JObj [(''measured'', participant_payload (Some p)),
             (''computed'', computed ''participant'' (Some (pt_id p)) PLAYBACK_PARTICIPANT_KEYS)])
           (case scope of None \<Rightarrow> [] | Some sc \<Rightarrow> cs_participants sc))),
         (''event_keys'', JList (map JStr (er_event_keys evaluation)))]))"

section \<open>Processing a frame\<close>

datatype runner_error = RunnerError string | StoreError metric_error | EngineError engine_error | RunnerValueError

type_synonym runner_memory = "(int \<times> metric_boundary) list"

definition frame_heat :: "metric_frame \<Rightarrow> heat_input" where
  "frame_heat f =
    (let h = (fm_input f)\<lparr> ht_observed_at_us := fm_observed_at_us f \<rparr>
     in if fm_replay_active f then h\<lparr> ht_session := (ht_session h)\<lparr> ms_lifecycle := ''active'' \<rparr> \<rparr> else h)"

text \<open>\<open>_state_hash\<close>: SHA-256 of the documents of the tick.\<close>

definition state_hash :: "(json \<Rightarrow> string) \<Rightarrow> metric_candidate list \<Rightarrow> string option" where
  "state_hash sha candidates = map_option sha (dumps (JList (map (\<lambda>c. JObj
    [(''scope_kind'', JStr (ca_scope_kind c)), (''scope_key'', JStr (ca_scope_key c)), (''values'', JObj (ca_values c))]) candidates)))"

definition sample_of :: "metric_candidate \<Rightarrow> sample_candidate" where
  "sample_of c = \<lparr> sm_scope_kind = ca_scope_kind c, sm_scope_key = ca_scope_key c, sm_values = ca_values c,
     sm_event_boundary = ca_event_boundary c, sm_history_values = Some (ca_history_values c) \<rparr>"

text \<open>The previous boundary state: from memory, or from the durable row.\<close>

definition previous_boundary :: "runner_memory \<Rightarrow> metric_db \<Rightarrow> int \<Rightarrow> runner_error + metric_boundary option" where
  "previous_boundary memory d heat =
    (case map_of memory heat of
       Some b \<Rightarrow> Inr (Some b)
     | None \<Rightarrow>
        (case load_metric_runner_state heat (Some METRIC_ENGINE_VERSION) d of
           Inl e \<Rightarrow> Inl (StoreError e)
         | Inr None \<Rightarrow> Inr None
         | Inr (Some row) \<Rightarrow>
            (case deserialize_metric_boundary_state (Some (rr_boundary_state row)) of
               Inl e \<Rightarrow> Inl (RunnerError ''Stored metric runner state is invalid'')
             | Inr b \<Rightarrow> if mb_source_heat_id b \<noteq> heat then Inl (RunnerError ''Stored metric runner state belongs to another heat'')
                        else Inr (Some b))))"

definition frame_request :: "heat_input \<Rightarrow> engine_result \<Rightarrow> metric_frame \<Rightarrow> string \<Rightarrow> json_dict \<Rightarrow> write_request" where
  "frame_request h evaluation f hash payload = \<lparr> wr_heat = fm_heat f, wr_observed_at_us = fm_observed_at_us f,
     wr_version = METRIC_ENGINE_VERSION, wr_source_key = fm_source_key f,
     wr_samples = map sample_of (er_candidates evaluation), wr_message = fm_message f, wr_event_boundary = False,
     wr_interval_us = METRIC_SAMPLE_INTERVAL_US,
     wr_runner = Some \<lparr> rn_source_frame_id = fm_frame f, rn_state_hash = hash,
       rn_boundary_state = serialize_metric_boundary_state (er_boundary_state evaluation) \<rparr>,
     wr_stream_events = stream_events h evaluation f,
     wr_playback = Some \<lparr> pc_payload = payload, pc_event_boundary = is_playback_boundary h evaluation \<rparr> \<rparr>"

definition remember ::
    "runner_memory \<Rightarrow> int \<Rightarrow> bool \<Rightarrow> metric_boundary \<Rightarrow> metric_boundary option \<Rightarrow> runner_memory" where
  "remember memory heat written now previous =
    (if written then AList.update heat now memory
     else (case previous of None \<Rightarrow> memory | Some b \<Rightarrow> AList.update heat b memory))"

record run_result =
  rs_evaluation :: engine_result
  rs_materialization :: materialization

text \<open>An error leaves the database and the memory as they were.\<close>

definition process_frame ::
    "(string \<Rightarrow> json option) \<Rightarrow> (gap_direction \<Rightarrow> string) \<Rightarrow> (json \<Rightarrow> string) \<Rightarrow> bool \<Rightarrow> int \<Rightarrow> bool
      \<Rightarrow> runner_memory \<Rightarrow> metric_db \<Rightarrow> metric_frame \<Rightarrow> runner_error + (runner_memory \<times> metric_db \<times> run_result)" where
  "process_frame loads labels sha burns now in_transaction memory d f =
    (if in_transaction then Inl (RunnerError ''Metric runner requires normalized facts to be committed first'')
     else
      (let h = frame_heat f in
       case load_metric_history (fm_heat f) ''session'' (ms_id (ht_session h))
         (Some (max 0 (fm_observed_at_us f - METRIC_HISTORY_LOOKBACK_US - METRIC_SAMPLE_INTERVAL_US)))
         (Some METRIC_ENGINE_VERSION) d of Inl e \<Rightarrow> Inl (StoreError e) | Inr history \<Rightarrow>
       (case previous_boundary memory d (fm_heat f) of Inl e \<Rightarrow> Inl e | Inr previous \<Rightarrow>
        (case evaluate_heat_metrics loads labels h previous history of Inl e \<Rightarrow> Inl (EngineError e) | Inr evaluation \<Rightarrow>
         (case (state_hash sha (er_candidates evaluation), build_playback_payload h evaluation) of
            (Some hash, Some payload) \<Rightarrow>
             (case materialize_metric_samples sha burns now (frame_request h evaluation f hash payload) d of
                Inl e \<Rightarrow> Inl (StoreError e)
              | Inr (d', m) \<Rightarrow>
                 Inr (remember memory (fm_heat f) (mr_runner_state_written m) (er_boundary_state evaluation) previous, d',
                   \<lparr> rs_evaluation = evaluation, rs_materialization = m \<rparr>))
          | _ \<Rightarrow> Inl RunnerValueError)))))"

section \<open>Interval events are decoded\<close>

lemma takeWhile_before: "x \<notin> set k \<Longrightarrow> takeWhile (\<lambda>c. c \<noteq> x) (k @ x # s) = k"
  by (induction k) auto

lemma rpartition_join: "CHR '':'' \<notin> set k \<Longrightarrow> rpartition_colon (i @ CHR '':'' # k) = Some (i, k)"
  by (simp add: rpartition_colon_def takeWhile_before)

lemma rpartition_parts:
  assumes "rpartition_colon s = Some (i, k)"
  shows "s = i @ CHR '':'' # k"
proof -
  let ?t = "takeWhile (\<lambda>c. c \<noteq> CHR '':'') (rev s)"
  let ?d = "dropWhile (\<lambda>c. c \<noteq> CHR '':'') (rev s)"
  have k: "k = rev ?t" "length ?t \<noteq> length s" "i = take (length s - length ?t - 1) s"
    using assms by (auto simp: rpartition_colon_def Let_def split: if_splits)
  have split: "rev s = ?t @ ?d" by simp
  have "?d \<noteq> []"
  proof
    assume "?d = []"
    then have "?t = rev s" by (metis append_Nil2 takeWhile_dropWhile_id)
    then have "length ?t = length (rev s)" by (rule arg_cong)
    then show False using k(2) unfolding length_rev by blast
  qed
  then obtain x xs where d: "?d = x # xs" by (cases ?d) auto
  then have "x = CHR '':''" using hd_dropWhile[of "\<lambda>c. c \<noteq> CHR '':''" "rev s"] by simp
  then have "s = rev xs @ CHR '':'' # rev ?t" using arg_cong[OF split, of rev] d by simp
  moreover from this have "i = rev xs" using k(3) by (metis append_eq_conv_conj diff_add_inverse2 diff_diff_left length_append length_Cons length_rev add.commute plus_1_eq_Suc)
  ultimately show ?thesis using k(1) by simp
qed

text \<open>roundtrip. An interval event is decoded to exactly the car and the column it was encoded
  with, whatever characters the car's id has (colons included); no other text is taken for one.\<close>
theorem interval_event_decoded_iff:
  "interval_fact_boundary_parts boundary = Some (i, kind) \<longleftrightarrow>
    i \<noteq> [] \<and> kind \<in> {''GAP'', ''DIFF''} \<and> boundary = ''interval_fact:'' @ i @ '':'' @ kind"
proof
  assume l: "interval_fact_boundary_parts boundary = Some (i, kind)"
  then have p: "prefix INTERVAL_FACT_BOUNDARY_PREFIX boundary" by (auto simp: interval_fact_boundary_parts_def split: if_splits)
  then obtain rest where rest: "boundary = INTERVAL_FACT_BOUNDARY_PREFIX @ rest" by (auto simp: prefix_def)
  from l p rest have parts: "rpartition_colon rest = Some (i, kind)" "i \<noteq> []" "kind \<in> {''GAP'', ''DIFF''}"
    by (auto simp: interval_fact_boundary_parts_def split: option.splits if_splits)
  have "rest = i @ '':'' @ kind" using rpartition_parts[OF parts(1)] by simp
  then show "i \<noteq> [] \<and> kind \<in> {''GAP'', ''DIFF''} \<and> boundary = ''interval_fact:'' @ i @ '':'' @ kind"
    using parts rest by (simp add: INTERVAL_FACT_BOUNDARY_PREFIX_def)
next
  assume r: "i \<noteq> [] \<and> kind \<in> {''GAP'', ''DIFF''} \<and> boundary = ''interval_fact:'' @ i @ '':'' @ kind"
  then have b: "boundary = INTERVAL_FACT_BOUNDARY_PREFIX @ (i @ CHR '':'' # kind)" by (simp add: INTERVAL_FACT_BOUNDARY_PREFIX_def)
  have "rpartition_colon (i @ CHR '':'' # kind) = Some (i, kind)" by (rule rpartition_join) (use r in auto)
  then show "interval_fact_boundary_parts boundary = Some (i, kind)"
    unfolding b interval_fact_boundary_parts_def using r by (auto simp: prefix_def)
qed

section \<open>What a write does to the runner's tables\<close>

lemma fold_scopes_rest:
  "fold (write_scope now q) ps (d, m) = (d', m') \<Longrightarrow> md_runner d' = md_runner d \<and> md_ticks d' = md_ticks d \<and>
    md_stream d' = md_stream d \<and> md_playback d' = md_playback d \<and> mr_runner_state_written m' = mr_runner_state_written m"
proof (induction ps arbitrary: d m)
  case (Cons p ps)
  obtain e k where w: "write_scope now q p (d, m) = (e, k)" by fastforce
  have "md_runner e = md_runner d \<and> md_ticks e = md_ticks d \<and> md_stream e = md_stream d \<and> md_playback e = md_playback d \<and>
      mr_runner_state_written k = mr_runner_state_written m"
    using w by (auto simp: write_scope_eq note_current_def note_sample_def split: outcome.splits)
  then show ?case using Cons.IH[of e k] Cons.prems w by simp
qed simp

lemma write_runner_result:
  obtains (stored) "write_runner now q r rows = (AList.update (wr_heat q) (new_runner_row now q r) rows, True)"
  | (kept) "write_runner now q r rows = (rows, False)"
  using write_runner_cases[of now q r rows] by blast

lemma materialize_runner:
  assumes m: "materialize_metric_samples sha burns now q d = Inr (d', m)" and r: "wr_runner q = Some r" and samples: "wr_samples q \<noteq> []"
  shows "md_ticks d' = write_tick now q r (md_ticks d)"
    and "md_runner d' = fst (write_runner now q r (md_runner d))"
    and "mr_runner_state_written m = snd (write_runner now q r (md_runner d))"
    and "\<not> mr_runner_state_written m \<Longrightarrow> md_stream d' = md_stream d \<and> md_playback d' = md_playback d"
proof -
  from m have "md_ticks d' = write_tick now q r (md_ticks d) \<and> md_runner d' = fst (write_runner now q r (md_runner d)) \<and>
      mr_runner_state_written m = snd (write_runner now q r (md_runner d)) \<and>
      (mr_runner_state_written m \<or> md_stream d' = md_stream d \<and> md_playback d' = md_playback d)"
  proof (cases rule: materialize_accepted)
    case empty
    obtain c cs where "wr_samples q = c # cs" using samples by (cases "wr_samples q") auto
    then show ?thesis using empty(1) by (auto split: sum.splits if_splits)
  next
    case (written ps session)
    obtain e k where e: "fold (write_scope now q) ps (d, no_writes) = (e, k)" by fastforce
    note rest = fold_scopes_rest[OF e]
    have k: "\<not> mr_runner_state_written k" using rest by (simp add: no_writes_def)
    show ?thesis
    proof (cases rule: write_runner_result[where now = now and q = q and r = r and rows = "md_runner d"])
      case stored
      then show ?thesis using written(5) rest unfolding e write_runner_part_def r
        by (auto simp: Let_def split: sum.splits option.splits prod.splits)
    next
      case kept
      then show ?thesis using written(5) rest k unfolding e write_runner_part_def r by (auto simp: Let_def)
    qed
  qed
  then show "md_ticks d' = write_tick now q r (md_ticks d)" "md_runner d' = fst (write_runner now q r (md_runner d))"
    "mr_runner_state_written m = snd (write_runner now q r (md_runner d))"
    "\<not> mr_runner_state_written m \<Longrightarrow> md_stream d' = md_stream d \<and> md_playback d' = md_playback d" by auto
qed

lemma write_runner_behind:
  assumes "incoming_tick_rank q r = incoming_tick_rank q' r'" "wr_version q = wr_version q'" "wr_heat q = wr_heat q'"
  shows "write_runner later q' r' (fst (write_runner now q r rows)) = (fst (write_runner now q r rows), False)"
proof (cases rule: write_runner_result[where now = now and q = q and r = r and rows = rows])
  case stored
  then show ?thesis using assms by (simp add: write_runner_def update_conv')
next
  case kept
  then obtain s where "map_of rows (wr_heat q) = Some s" "\<not> (state_rank s < incoming_tick_rank q r \<or> (incoming_tick_rank q r = state_rank s \<and> rr_version s < wr_version q))"
    by (auto simp: write_runner_def split: option.splits if_splits)
  then show ?thesis using kept assms by (simp add: write_runner_def)
qed

lemma write_tick_behind:
  assumes "incoming_tick_rank q r = incoming_tick_rank q' r'" "wr_heat q = wr_heat q'"
  shows "write_tick later q' r' (write_tick now q r rows) = write_tick now q r rows"
proof -
  have key: "observed_second q = observed_second q'" using assms by (simp add: incoming_tick_rank_def observed_second_def)
  have rank: "tick_rank t = incoming_tick_rank q r" if "tr_observed_at_us t = wr_observed_at_us q" "tr_frame t = Some (rn_source_frame_id r)"
    "tr_source_key t = wr_source_key q" for t using that by (simp add: tick_rank_def incoming_tick_rank_def)
  show ?thesis using assms key
    by (auto simp: write_tick_def Let_def update_conv' rank split: option.splits)
qed

section \<open>Runs with restarts\<close>

lemma evaluate_result:
  assumes "evaluate_heat_metrics loads labels h previous history = Inr e"
  shows "er_boundary_state e = build_boundary_state h" "er_candidates e \<noteq> []"
  using assms by (auto simp: evaluate_heat_metrics_def Let_def split: sum.splits)

lemma process_frame_accepted:
  assumes "process_frame loads labels sha burns now t memory d f = Inr (memory', d', r)"
  obtains previous evaluation hash payload m where
    "previous_boundary memory d (fm_heat f) = Inr previous"
    "er_boundary_state evaluation = build_boundary_state (frame_heat f)" "er_candidates evaluation \<noteq> []"
    "materialize_metric_samples sha burns now (frame_request (frame_heat f) evaluation f hash payload) d = Inr (d', m)"
    "memory' = remember memory (fm_heat f) (mr_runner_state_written m) (build_boundary_state (frame_heat f)) previous"
    "rs_materialization r = m"
proof -
  from assms obtain history previous evaluation hash payload m where
    "previous_boundary memory d (fm_heat f) = Inr previous"
    "evaluate_heat_metrics loads labels (frame_heat f) previous history = Inr evaluation"
    "materialize_metric_samples sha burns now (frame_request (frame_heat f) evaluation f hash payload) d = Inr (d', m)"
    "memory' = remember memory (fm_heat f) (mr_runner_state_written m) (er_boundary_state evaluation) previous"
    "rs_materialization r = m"
    by (auto simp: process_frame_def Let_def split: if_splits sum.splits option.splits prod.splits)
  then show thesis using that evaluate_result by metis
qed

lemma frame_request_simps [simp]:
  "wr_heat (frame_request h e f hash payload) = fm_heat f"
  "wr_version (frame_request h e f hash payload) = METRIC_ENGINE_VERSION"
  "wr_observed_at_us (frame_request h e f hash payload) = fm_observed_at_us f"
  "wr_source_key (frame_request h e f hash payload) = fm_source_key f"
  "wr_runner (frame_request h e f hash payload) =
     Some \<lparr> rn_source_frame_id = fm_frame f, rn_state_hash = hash, rn_boundary_state = serialize_metric_boundary_state (er_boundary_state e) \<rparr>"
  "wr_samples (frame_request h e f hash payload) = map sample_of (er_candidates e)"
  by (simp_all add: frame_request_def)

lemma frame_rank: "incoming_tick_rank (frame_request h e f hash payload)
    \<lparr> rn_source_frame_id = fm_frame f, rn_state_hash = s, rn_boundary_state = b \<rparr> = (fm_observed_at_us f, fm_frame f, fm_source_key f)"
  by (simp add: incoming_tick_rank_def)

text \<open>functional. A frame that is delivered again, to the same runner or to a restarted one, has
  no effect on the outside: the event outbox, the archive, the cursor and the tick stay as they are.\<close>
theorem redelivered_frame_emits_nothing:
  assumes "process_frame loads labels sha burns now t memory d f = Inr (memory1, d1, r1)"
    and "process_frame loads labels sha burns' later t' memory' d1 f = Inr (memory2, d2, r2)"
  shows "md_stream d2 = md_stream d1 \<and> md_playback d2 = md_playback d1 \<and> md_runner d2 = md_runner d1 \<and>
    md_ticks d2 = md_ticks d1 \<and> \<not> mr_runner_state_written (rs_materialization r2)"
proof -
  from assms(1) obtain e1 hash1 payload1 m1 where one: "er_candidates e1 \<noteq> []"
    "materialize_metric_samples sha burns now (frame_request (frame_heat f) e1 f hash1 payload1) d = Inr (d1, m1)"
    by (rule process_frame_accepted)
  from assms(2) obtain e2 hash2 payload2 m2 where two: "er_candidates e2 \<noteq> []"
    "materialize_metric_samples sha burns' later (frame_request (frame_heat f) e2 f hash2 payload2) d1 = Inr (d2, m2)"
    "rs_materialization r2 = m2"
    by (rule process_frame_accepted)
  have samples: "wr_samples (frame_request (frame_heat f) e f hash payload) \<noteq> []" if "er_candidates e \<noteq> []" for e hash payload
    using that by simp
  note first = materialize_runner[OF one(2) frame_request_simps(5) samples[OF one(1)]]
  note second = materialize_runner[OF two(2) frame_request_simps(5) samples[OF two(1)]]
  have "md_ticks d2 = md_ticks d1" unfolding second(1) first(1)
    by (rule write_tick_behind) (simp_all add: frame_rank)
  moreover have "write_runner later (frame_request (frame_heat f) e2 f hash2 payload2)
      \<lparr> rn_source_frame_id = fm_frame f, rn_state_hash = hash2, rn_boundary_state = serialize_metric_boundary_state (er_boundary_state e2) \<rparr>
      (md_runner d1) = (md_runner d1, False)"
    unfolding first(2) by (rule write_runner_behind) (simp_all add: frame_rank)
  ultimately show ?thesis using second(2-4) two(3) by simp
qed

text \<open>The facts of a frame belong to its heat.\<close>

definition frame_ok :: "metric_frame \<Rightarrow> bool" where
  "frame_ok f = (heat_ok (fm_input f) \<and> ht_source_heat_id (fm_input f) = fm_heat f)"

text \<open>The memory of the runner holds what the durable rows say.\<close>

definition memory_ok :: "runner_memory \<Rightarrow> metric_db \<Rightarrow> bool" where
  "memory_ok memory d \<longleftrightarrow> (\<forall>heat b. map_of memory heat = Some b \<longrightarrow>
     0 < heat \<and> mb_source_heat_id b = heat \<and>
     (\<exists>row. map_of (md_runner d) heat = Some row \<and> rr_version row = METRIC_ENGINE_VERSION \<and>
        deserialize_metric_boundary_state (Some (rr_boundary_state row)) = Inr b))"

lemma previous_from_rows:
  assumes "memory_ok memory d"
  shows "previous_boundary memory d heat = previous_boundary [] d heat"
proof (cases "map_of memory heat")
  case (Some b)
  with assms obtain row where "0 < heat" "mb_source_heat_id b = heat" "map_of (md_runner d) heat = Some row"
    "rr_version row = METRIC_ENGINE_VERSION" "deserialize_metric_boundary_state (Some (rr_boundary_state row)) = Inr b"
    unfolding memory_ok_def by blast
  then show ?thesis using Some by (simp add: previous_boundary_def load_metric_runner_state_def METRIC_ENGINE_VERSION_def)
qed (simp add: previous_boundary_def)

lemma previous_is_durable:
  assumes "previous_boundary [] d heat = Inr (Some b)"
  shows "0 < heat \<and> mb_source_heat_id b = heat \<and>
     (\<exists>row. map_of (md_runner d) heat = Some row \<and> rr_version row = METRIC_ENGINE_VERSION \<and>
        deserialize_metric_boundary_state (Some (rr_boundary_state row)) = Inr b)"
  using assms by (auto simp: previous_boundary_def load_metric_runner_state_def METRIC_ENGINE_VERSION_def
      split: sum.splits option.splits if_splits)

lemma memory_ok_update:
  assumes "memory_ok memory d" "0 < heat" "mb_source_heat_id b = heat" "map_of rows heat = Some row"
    "rr_version row = METRIC_ENGINE_VERSION" "deserialize_metric_boundary_state (Some (rr_boundary_state row)) = Inr b"
    "\<And>other. other \<noteq> heat \<Longrightarrow> map_of rows other = map_of (md_runner d) other" "md_runner d' = rows"
  shows "memory_ok (AList.update heat b memory) d'"
  using assms unfolding memory_ok_def by (auto simp: update_conv' split: if_splits)

lemma frame_heat_facts: "heat_ok (frame_heat f) = heat_ok (fm_input f)"
    "mb_source_heat_id (build_boundary_state (frame_heat f)) = ht_source_heat_id (fm_input f)"
  by (simp_all add: frame_heat_def heat_ok_def build_boundary_state_def Let_def)

lemma process_frame_memory:
  assumes run: "process_frame loads labels sha burns now t memory d f = Inr (memory', d', r)"
    and inv: "memory_ok memory d" and ok: "frame_ok f"
  shows "memory_ok memory' d'"
proof -
  from run obtain previous e hash payload m where p: "previous_boundary memory d (fm_heat f) = Inr previous"
    and e: "er_boundary_state e = build_boundary_state (frame_heat f)" "er_candidates e \<noteq> []"
    and w: "materialize_metric_samples sha burns now (frame_request (frame_heat f) e f hash payload) d = Inr (d', m)"
    and mem: "memory' = remember memory (fm_heat f) (mr_runner_state_written m) (build_boundary_state (frame_heat f)) previous"
    by (rule process_frame_accepted)
  let ?q = "frame_request (frame_heat f) e f hash payload" and ?b = "build_boundary_state (frame_heat f)"
  have "wr_samples ?q \<noteq> []" using e(2) by simp
  note rows = materialize_runner[OF w frame_request_simps(5) this]
  have good: "heat_ok (frame_heat f)" and id: "mb_source_heat_id ?b = fm_heat f"
    using ok unfolding frame_ok_def frame_heat_facts by blast+
  have pos: "0 < fm_heat f" using ok by (auto simp: frame_ok_def heat_ok_def)
  show ?thesis
  proof (cases "mr_runner_state_written m")
    case True
    then obtain rows' where wr: "write_runner now ?q \<lparr> rn_source_frame_id = fm_frame f, rn_state_hash = hash,
        rn_boundary_state = serialize_metric_boundary_state (er_boundary_state e) \<rparr> (md_runner d) = (rows', True)"
      using rows(3) by (metis prod.collapse)
    then have runner: "md_runner d' = rows'" using rows(2) by simp
    note at = write_runner_written(1)[OF wr]
    show ?thesis
      unfolding mem remember_def if_P[OF True]
    proof (rule memory_ok_update[OF inv pos id _ _ _ _ runner])
      show "map_of rows' (fm_heat f) = Some (new_runner_row now ?q \<lparr> rn_source_frame_id = fm_frame f, rn_state_hash = hash,
          rn_boundary_state = serialize_metric_boundary_state (er_boundary_state e) \<rparr>)" by (simp add: at)
    qed (simp_all add: new_runner_row_def e(1) deserialize_serialize[OF build_boundary_ok[OF good]] at)
  next
    case False
    have same: "md_runner d' = md_runner d"
    proof (cases rule: write_runner_result[where now = now and q = ?q and r = "\<lparr> rn_source_frame_id = fm_frame f, rn_state_hash = hash,
        rn_boundary_state = serialize_metric_boundary_state (er_boundary_state e) \<rparr>" and rows = "md_runner d"])
      case stored
      then show ?thesis using False rows(3) by simp
    next
      case kept
      then show ?thesis using rows(2) by simp
    qed
    then have keep: "memory_ok memory d'" using inv by (simp add: memory_ok_def)
    show ?thesis
    proof (cases previous)
      case None
      then show ?thesis using mem False keep by (simp add: remember_def)
    next
      case (Some b)
      then have "previous_boundary [] d (fm_heat f) = Inr (Some b)" using p previous_from_rows[OF inv] by simp
      from previous_is_durable[OF this] obtain row where "mb_source_heat_id b = fm_heat f"
        "map_of (md_runner d) (fm_heat f) = Some row" "rr_version row = METRIC_ENGINE_VERSION"
        "deserialize_metric_boundary_state (Some (rr_boundary_state row)) = Inr b" by blast
      then have "memory_ok (AList.update (fm_heat f) b memory) d'"
        by (intro memory_ok_update[OF inv pos]) (simp_all add: same)
      then show ?thesis using mem False Some by (simp add: remember_def)
    qed
  qed
qed

text \<open>A delivery (in a transaction or not, at a time) or a restart of the process, which forgets.\<close>

datatype runner_event = Deliver bool bool int metric_frame | Restart

fun runner_step ::
    "(string \<Rightarrow> json option) \<Rightarrow> (gap_direction \<Rightarrow> string) \<Rightarrow> (json \<Rightarrow> string) \<Rightarrow> runner_memory \<times> metric_db \<Rightarrow> runner_event
      \<Rightarrow> runner_memory \<times> metric_db" where
  "runner_step loads labels sha (memory, d) Restart = ([], d)"
| "runner_step loads labels sha (memory, d) (Deliver t burns now f) =
    (case process_frame loads labels sha burns now t memory d f of
       Inl e \<Rightarrow> (memory, d)
     | Inr (memory', d', r) \<Rightarrow> (memory', d'))"

fun event_ok :: "runner_event \<Rightarrow> bool" where
  "event_ok Restart = True"
| "event_ok (Deliver t burns now f) = frame_ok f"

lemma process_frame_forgets:
  assumes "memory_ok memory d" "memory_ok memory' d"
  shows "map_sum id snd (process_frame loads labels sha burns now t memory d f) =
    map_sum id snd (process_frame loads labels sha burns now t memory' d f)"
  unfolding process_frame_def Let_def previous_from_rows[OF assms(1)] previous_from_rows[OF assms(2)]
  by (simp split: sum.splits option.splits prod.splits)

lemma memory_ok_Nil: "memory_ok [] d"
  by (simp add: memory_ok_def)

lemma runner_step_memory: "memory_ok m d \<Longrightarrow> event_ok e \<Longrightarrow>
    memory_ok (fst (runner_step loads labels sha (m, d) e)) (snd (runner_step loads labels sha (m, d) e))"
  by (cases e) (auto simp: memory_ok_Nil process_frame_memory split: sum.splits prod.splits)

lemma runner_step_forgets:
  assumes "memory_ok m d" "memory_ok m' d" "e \<noteq> Restart"
  shows "snd (runner_step loads labels sha (m, d) e) = snd (runner_step loads labels sha (m', d) e)"
proof -
  obtain t burns now f where e: "e = Deliver t burns now f" using assms(3) by (cases e) auto
  show ?thesis unfolding e using process_frame_forgets[OF assms(1,2), of loads labels sha burns now t f]
    by (auto split: sum.splits prod.splits)
qed

lemma restarts_forgotten:
  "memory_ok m d \<Longrightarrow> memory_ok m' d \<Longrightarrow> list_all event_ok events \<Longrightarrow>
    snd (foldl (runner_step loads labels sha) (m, d) events) =
    snd (foldl (runner_step loads labels sha) (m', d) (filter (\<lambda>e. e \<noteq> Restart) events))"
proof (induction events arbitrary: m d m')
  case (Cons e events)
  obtain m1 d1 where s: "runner_step loads labels sha (m, d) e = (m1, d1)" by fastforce
  have inv1: "memory_ok m1 d1" using runner_step_memory[OF Cons.prems(1), of e loads labels sha] Cons.prems(3) s by simp
  show ?case
  proof (cases "e = Restart")
    case True
    then have "d1 = d" using s by simp
    then show ?thesis using Cons.IH[OF inv1, of m'] Cons.prems True s by simp
  next
    case False
    obtain m2 d2 where s': "runner_step loads labels sha (m', d) e = (m2, d2)" by fastforce
    have "d2 = d1" using runner_step_forgets[OF Cons.prems(1,2) False, of loads labels sha] s s' by simp
    moreover have "memory_ok m2 d2" using runner_step_memory[OF Cons.prems(2), of e loads labels sha] Cons.prems(3) s' by simp
    ultimately show ?thesis using Cons.IH[OF inv1, of m2] Cons.prems(3) False s s' by simp
  qed
qed simp

text \<open>C6. equivalence. Restarting the metric runner changes nothing: whatever frames are delivered, and
  wherever the process is restarted in between, the database ends up exactly as if one process had
  handled all deliveries.\<close>
theorem restarts_change_nothing:
  assumes "list_all event_ok events"
  shows "snd (foldl (runner_step loads labels sha) ([], d) events) =
    snd (foldl (runner_step loads labels sha) ([], d) (filter (\<lambda>e. e \<noteq> Restart) events))"
  by (rule restarts_forgotten[OF memory_ok_Nil memory_ok_Nil assms])

end
