(* ===== verification/Runner_Acceptance.thy ===== *)
theory Runner_Acceptance
  imports Metric_Runner
begin

text \<open>
  The metric runner always gets on: every document it builds is finite JSON, the scopes and the
  event keys of one frame are distinct, what it stored earlier can be read back, so every frame
  with readable facts is processed in every state the runner can reach.
\<close>

section \<open>Finite documents\<close>

text \<open>A value \<open>json.dumps(allow_nan=False)\<close> accepts, and a dictionary of such values.\<close>

definition fin :: "json \<Rightarrow> bool" where
  "fin j \<longleftrightarrow> dumps j \<noteq> None"

definition fin_dict :: "json_dict \<Rightarrow> bool" where
  "fin_dict d \<longleftrightarrow> (\<forall>kv \<in> set d. fin (snd kv))"

named_theorems fin_simps \<open>finiteness of documents\<close>

lemma fin_atoms [fin_simps]: "fin JNull" "fin (JBool b)" "fin (JStr s)" "fin (JInt i)" "fin (JNum (PyFloat q))"
  by (simp_all add: fin_def)

lemma all_some_None: "all_some xs \<noteq> None \<longleftrightarrow> (\<forall>x \<in> set xs. x \<noteq> None)"
  by (induction xs) (auto split: option.splits)

lemma fin_JList [fin_simps]: "fin (JList xs) \<longleftrightarrow> (\<forall>x \<in> set xs. fin x)"
  using all_some_None[of "map dumps xs"] by (auto simp: fin_def)

lemma fin_JObj [fin_simps]: "fin (JObj d) \<longleftrightarrow> fin_dict d"
  using all_some_None[of "map (\<lambda>kv. map_option (Pair (fst kv)) (dumps (snd kv))) d"] by (auto simp: fin_def fin_dict_def)

lemma fin_dict_simps [fin_simps]:
  "fin_dict []" "fin_dict (kv # d) \<longleftrightarrow> fin (snd kv) \<and> fin_dict d" "fin_dict (a @ b) \<longleftrightarrow> fin_dict a \<and> fin_dict b"
  by (auto simp: fin_dict_def)

lemma fin_dict_map [fin_simps]: "fin_dict (map g xs) \<longleftrightarrow> (\<forall>x \<in> set xs. fin (snd (g x)))"
  by (simp add: fin_dict_def)

lemma fin_opt_json [fin_simps]: "fin (opt_json g v) \<longleftrightarrow> (\<forall>x. v = Some x \<longrightarrow> fin (g x))"
  by (cases v) (simp_all add: opt_json_def fin_atoms)

lemma fin_jget: "fin_dict d \<Longrightarrow> fin (jget k d)"
  by (auto simp: jget_def fin_dict_def fin_atoms split: option.splits dest!: map_of_SomeD)

lemma set_update_subset: "set (AList.update k v d) \<subseteq> insert (k, v) (set d)"
  by (induction d) auto

lemma fin_update: "fin_dict d \<Longrightarrow> fin v \<Longrightarrow> fin_dict (AList.update k v d)"
  using set_update_subset[of k v d] by (fastforce simp: fin_dict_def)

lemma set_dict_of: "set (dict_of xs) \<subseteq> set xs"
proof -
  have "set (fold (\<lambda>(k, v) d. AList.update k v d) xs d) \<subseteq> set d \<union> set xs" for d
  proof (induction xs arbitrary: d)
    case (Cons x xs)
    obtain k v where x: "x = (k, v)" by fastforce
    show ?case using Cons.IH[of "AList.update k v d"] set_update_subset[of k v d] unfolding x by auto
  qed simp
  from this[of "[]"] show ?thesis by (simp add: dict_of_def)
qed

lemma fin_dict_of: "fin_dict xs \<Longrightarrow> fin_dict (dict_of xs)"
  using set_dict_of[of xs] by (auto simp: fin_dict_def)

lemma fin_non_empty [fin_simps]: "fin (non_empty d) \<longleftrightarrow> fin_dict d"
  by (auto simp: non_empty_def fin_simps)

lemma fin_sub_json [fin_simps]: "fin (sub_json a b)"
  by (simp add: sub_json_def fin_simps split: option.splits)

lemma fin_payload_json [fin_simps]: "fin (payload_json p)"
  by (simp add: payload_json_def fin_simps)

lemma fin_slow_event [fin_simps]: "fin (slow_event_json e)"
  by (simp add: slow_event_json_def fin_simps)

lemma fin_abrupt [fin_simps]: "fin (abrupt_deterioration es)"
  by (simp add: abrupt_deterioration_def fin_simps Let_def)

lemma fin_pit_record [fin_simps]: "fin (pit_record_json r)"
  by (simp add: pit_record_json_def fin_simps)

lemma fin_p10 [fin_simps]: "fin_dict (p10_p90_field pace samples)"
  by (simp add: p10_p90_field_def p10_p90_values_def fin_simps Let_def)

lemma fin_sector_values [fin_simps]: "fin_dict (sector_values_json v)"
  by (auto simp: sector_values_json_def fin_simps split: prod.splits)

text \<open>The checkpoints a car carries are finite documents.\<close>

definition checkpoints_fin :: "participant_input \<Rightarrow> bool" where
  "checkpoints_fin p \<longleftrightarrow> (\<forall>d \<in> set (pt_stint_summary_checkpoint p). fin_dict d)"

lemma fin_stint_summary_of [fin_simps]: "fin_dict (stint_summary_of now s ps)"
  by (simp add: stint_summary_of_def fin_simps)

lemma checkpoint_of_in: "checkpoint_of p n = Some d \<Longrightarrow> d \<in> set (pt_stint_summary_checkpoint p)"
  unfolding checkpoint_of_def find_Some_iff by (metis nth_mem set_rev)

lemma fin_stint_summary: "checkpoints_fin p \<Longrightarrow> d \<in> set (stint_summary p now active vals samples) \<Longrightarrow> fin_dict d"
  by (auto simp: stint_summary_def checkpoints_fin_def fin_simps
      intro!: fin_update dest!: checkpoint_of_in split: option.splits if_splits)

lemma fin_active_stint: "checkpoints_fin p \<Longrightarrow> fin_dict (active_stint_values p now samples)"
  using fin_stint_summary[of p]
  by (auto simp: active_stint_values_def fin_simps Let_def split: option.splits prod.splits)

lemma fin_participant_values: "checkpoints_fin p \<Longrightarrow> fin_dict (participant_values p now pace samples sectors)"
  using fin_active_stint[of p now samples]
  by (simp add: participant_values_def fin_simps Let_def)

lemma fin_session_values [fin_simps]: "fin_dict (session_values h now)"
  by (simp add: session_values_def statistics_json_def fin_simps Let_def)

lemma fin_class_values [fin_simps]: "fin_dict (class_values sc pace_of order)"
  by (auto simp: class_values_def fin_simps Let_def split: prod.splits)

lemma fin_relation_dict [fin_simps]: "fin_dict (relation_dict r)"
  by (simp add: relation_dict_def fin_simps)

lemma fin_neighbours [fin_simps]: "fin_dict (neighbour_values ours nb roster now)"
  by (simp add: neighbour_values_def fin_simps Let_def split: prod.splits)

lemma fin_obligations [fin_simps]: "fin_dict (race_obligation_values h ours e pace)"
  by (simp add: race_obligation_values_def empty_race_obligation_values_def fin_simps split: option.splits prod.splits)

lemma fin_empty_tactical [fin_simps]: "fin_dict EMPTY_TACTICAL"
  by (simp add: EMPTY_TACTICAL_def empty_race_obligation_values_def fin_simps)

lemma fin_delta [fin_simps]: "fin (delta_json a b)"
  by (simp add: delta_json_def fin_simps)

lemma fin_identity [fin_simps]: "fin (identity_json p)"
  by (simp add: identity_json_def fin_simps)

lemma fin_references [fin_simps]: "fin (pace_references pace_of ours q nb c pb)"
  by (auto simp: pace_references_def fin_simps Let_def split: prod.splits option.splits)

lemma fin_sector_metrics [fin_simps]: "fin_dict (sector_metrics ours scope sectors_of)"
  by (auto simp: sector_metrics_def fin_simps Let_def split: option.splits prod.splits)

lemma fin_tactical:
  assumes "\<And>p. our_participant h = Some p \<Longrightarrow> checkpoints_fin p"
  shows "fin_dict (ours_tactical_values h now session pace_of order_of samples_of sectors_of)"
proof (cases "our_participant h")
  case (Some p)
  note fin_jget[OF fin_participant_values[OF assms[OF Some]]]
  then show ?thesis
    by (auto simp: ours_tactical_values_def Some Let_def fin_simps intro!: fin_dict_of split: option.splits)
qed (simp add: ours_tactical_values_def fin_simps)

lemma fin_battle:
  assumes "battle_values labels h now session tactical pace_of history = Inr d"
  shows "fin_dict d"
proof -
  have doc: "fin_dict (battle_document labels ours sc now session tactical a b c history)" for ours sc a b c
    by (auto simp: battle_document_def Let_def fin_simps closures_json_def trend_record_def lap_trend_record_def catch_record_def
        projected_gaps_def class_density_json_def pit_anomaly_def competitor_stint_and_pit_values_def competitor_stint_state_def
        intro!: fin_dict_of split: option.splits prod.splits)
  show ?thesis
    using assms doc by (auto simp: battle_values_def EMPTY_BATTLE_def fin_simps split: option.splits if_splits sum.splits)
qed

lemma obj_of_fin: "obj_of j = Some d \<Longrightarrow> fin j \<Longrightarrow> fin_dict d"
  by (cases j) (auto simp: obj_of_def fin_simps)

definition alert_fin :: "alert \<Rightarrow> bool" where
  "alert_fin a \<longleftrightarrow> fin_dict (al_fact a) \<and> fin (al_numeric_consequence a)"

lemma alert_fin_event [fin_simps]: "alert_fin (event_alert k s t reason c) \<longleftrightarrow> fin_dict reason \<and> fin c"
  by (simp add: alert_fin_def event_alert_def)

lemma fin_alert_json: "alert_fin a \<Longrightarrow> fin (alert_json a)"
  by (simp add: alert_fin_def alert_json_def fin_simps)

lemma last_lap_excess_fin: "fin_dict d \<Longrightarrow> fin (last_lap_excess d)"
proof -
  assume d: "fin_dict d"
  note laps = fin_jget[OF d, of "''laps''"]
  show "fin (last_lap_excess d)"
  proof (cases "jget ''laps'' d")
    case (JList laps)
    then have "\<forall>x \<in> set laps. fin x" using laps by (simp add: fin_simps)
    then show ?thesis using obj_of_fin[of "last laps"] JList fin_jget
      by (auto simp: last_lap_excess_def fin_simps split: option.splits)
  qed (simp_all add: last_lap_excess_def fin_simps)
qed

lemma alerts_fin:
  assumes s: "fin_dict session" and t: "fin_dict tactical" and b: "fin_dict battle"
    and a: "a \<in> set (metric_alerts h prior now session tactical battle)"
  shows "alert_fin a"
proof -
  note j = fin_jget[OF s] fin_jget[OF t] fin_jget[OF b]
  have 1: "\<forall>a \<in> set (source_alerts prior h now session). alert_fin a"
    by (auto simp: source_alerts_def Let_def fin_simps j split: option.splits)
  have catch: "\<forall>a \<in> set (catch_alert now battle dir). alert_fin a" for dir
  proof -
    have "fin (jget ''min_laps'' c)" if "Option.bind (obj_of (jget ''catch_range'' battle)) (\<lambda>d. obj_of (jget dir d)) = Some c" for c
    proof -
      from that obtain d where d: "obj_of (jget ''catch_range'' battle) = Some d" "obj_of (jget dir d) = Some c"
        by (auto simp: bind_eq_Some_conv)
      have "fin_dict d" by (rule obj_of_fin[OF d(1) j(3)])
      then show ?thesis using obj_of_fin[OF d(2) fin_jget] fin_jget by blast
    qed
    then show ?thesis by (auto simp: catch_alert_def fin_simps split: option.splits)
  qed
  have 2: "\<forall>a \<in> set (race_alerts h now session tactical battle). alert_fin a"
    using catch by (auto simp: race_alerts_def Let_def fin_simps j split: option.splits if_splits)
  have 3: "\<forall>a \<in> set (pit_alerts h now). alert_fin a"
    by (auto simp: pit_alerts_def Let_def fin_simps split: option.splits)
  have 4: "\<forall>a \<in> set (stint_alerts now tactical). alert_fin a"
  proof (cases "obj_of (jget ''stint_abrupt_deterioration'' tactical)")
    case (Some d)
    have "fin_dict d" by (rule obj_of_fin[OF Some j(2)])
    then show ?thesis by (simp add: stint_alerts_def Some fin_simps last_lap_excess_fin)
  qed (simp add: stint_alerts_def)
  have ours: "\<forall>a \<in> set (our_alerts old p now tactical). alert_fin a" for old p
    by (auto simp: our_alerts_def Let_def fin_simps j)
  have other: "\<forall>a \<in> set (competitor_alerts old c now). alert_fin a" for old c
    by (auto simp: competitor_alerts_def Let_def fin_simps last_pit_duration_def)
  have 5: "\<forall>a \<in> set (transition_alerts p h now tactical). alert_fin a" for p
    using ours other by (auto simp: transition_alerts_def Let_def split: option.splits)
  have 6: "\<forall>a \<in> set (order_alerts p h now tactical). alert_fin a" for p
    by (auto simp: order_alerts_def Let_def fin_simps j split: option.splits)
  show ?thesis using a 1 2 3 4 5 6 by (auto simp: metric_alerts_def split: option.splits)
qed

lemma fin_history_values: "fin_dict values \<Longrightarrow> fin_dict (history_values keys values)"
proof -
  assume v: "fin_dict values"
  have "fin_dict (List.map_filter (\<lambda>k. if jget k values = JNull then None else Some (k, jget k values)) keys)"
    using fin_jget[OF v] by (auto simp: fin_dict_def set_map_filter split: if_splits)
  then show ?thesis unfolding history_values_def by (rule fin_dict_of)
qed

definition candidate_fin :: "metric_candidate \<Rightarrow> bool" where
  "candidate_fin c \<longleftrightarrow> fin_dict (ca_values c) \<and> fin_dict (ca_history_values c)"

lemma candidate_of_fin: "fin_dict values \<Longrightarrow> candidate_fin (candidate_of scopes keys kind k values)"
  by (simp add: candidate_fin_def candidate_of_def fin_history_values)

lemma evaluate_accepted:
  assumes "evaluate_heat_metrics loads labels h previous history = Inr e"
  obtains vals pace_of order_of samples_of sectors_of alerts tactical battle where
    "er_candidates e = candidate_of (event_scopes previous h) SESSION_HISTORY_KEYS ''session'' (ms_id (ht_session h)) vals #
       map (\<lambda>sc. candidate_of (event_scopes previous h) CLASS_HISTORY_KEYS ''class'' (cs_key sc)
         (class_values sc pace_of (order_of (cs_key sc)))) (sort_key cs_key (ht_class_scopes h)) @
       map (\<lambda>p. candidate_of (event_scopes previous h) PARTICIPANT_HISTORY_KEYS ''participant'' (pt_id p)
         (participant_values p (ht_observed_at_us h) (the (pace_of (pt_id p))) (samples_of (pt_id p)) (sectors_of (pt_id p))))
         (sort_key pt_id (ht_participants h))"
    "vals = dict_of (session_values h (ht_observed_at_us h) @ tactical @ battle @ [(''alerts'', JList (map alert_json alerts))])"
    "tactical = ours_tactical_values h (ht_observed_at_us h) (session_values h (ht_observed_at_us h)) pace_of order_of samples_of sectors_of"
    "battle_values labels h (ht_observed_at_us h) (session_values h (ht_observed_at_us h)) tactical pace_of history = Inr battle"
    "alerts = metric_alerts h previous (ht_observed_at_us h) (session_values h (ht_observed_at_us h)) tactical battle"
    "er_event_keys e = detect_event_boundaries previous h" "er_boundary_state e = build_boundary_state h"
    "er_source_heat_id e = ht_source_heat_id h" "er_observed_at_us e = ht_observed_at_us h"
proof -
  from assms obtain sectors where s: "sectors_by_id loads (ht_participants h) = Inr sectors"
    by (auto simp: evaluate_heat_metrics_def Let_def split: sum.splits)
  from assms obtain battle where b: "battle_values labels h (ht_observed_at_us h) (session_values h (ht_observed_at_us h))
      (ours_tactical_values h (ht_observed_at_us h) (session_values h (ht_observed_at_us h))
        (map_of (dict_of (map (\<lambda>p. (pt_id p, participant_pace p)) (ht_participants h))))
        (get_or None (dict_of (map (\<lambda>sc. (cs_key sc, class_order sc)) (ht_class_scopes h))))
        (get_or [] (dict_of (map (\<lambda>p. (pt_id p, lap_samples p)) (ht_participants h))))
        (get_or \<lparr> sv_last = [], sv_personal = [] \<rparr> sectors))
      (map_of (dict_of (map (\<lambda>p. (pt_id p, participant_pace p)) (ht_participants h)))) history = Inr battle"
    unfolding evaluate_heat_metrics_def Let_def s sum.case by (auto split: sum.splits)
  note e = assms[unfolded evaluate_heat_metrics_def Let_def s sum.case b sum.inject(2), symmetric]
  show thesis by (rule that[OF _ refl refl b refl]) (simp_all add: e)
qed

lemma evaluate_fin:
  assumes e: "evaluate_heat_metrics loads labels h previous history = Inr e"
    and p: "\<forall>p \<in> set (ht_participants h). checkpoints_fin p"
  shows "\<forall>c \<in> set (er_candidates e). candidate_fin c"
proof -
  from e obtain vals pace_of order_of samples_of sectors_of alerts tactical battle where c:
    "er_candidates e = candidate_of (event_scopes previous h) SESSION_HISTORY_KEYS ''session'' (ms_id (ht_session h)) vals #
       map (\<lambda>sc. candidate_of (event_scopes previous h) CLASS_HISTORY_KEYS ''class'' (cs_key sc)
         (class_values sc pace_of (order_of (cs_key sc)))) (sort_key cs_key (ht_class_scopes h)) @
       map (\<lambda>p. candidate_of (event_scopes previous h) PARTICIPANT_HISTORY_KEYS ''participant'' (pt_id p)
         (participant_values p (ht_observed_at_us h) (the (pace_of (pt_id p))) (samples_of (pt_id p)) (sectors_of (pt_id p))))
         (sort_key pt_id (ht_participants h))"
    and v: "vals = dict_of (session_values h (ht_observed_at_us h) @ tactical @ battle @ [(''alerts'', JList (map alert_json alerts))])"
    and t: "tactical = ours_tactical_values h (ht_observed_at_us h) (session_values h (ht_observed_at_us h)) pace_of order_of samples_of sectors_of"
    and b: "battle_values labels h (ht_observed_at_us h) (session_values h (ht_observed_at_us h)) tactical pace_of history = Inr battle"
    and a: "alerts = metric_alerts h previous (ht_observed_at_us h) (session_values h (ht_observed_at_us h)) tactical battle"
    by (rule evaluate_accepted)
  have tf: "fin_dict tactical" unfolding t by (rule fin_tactical) (use p our_participant_in in blast)
  note bf = fin_battle[OF b]
  have "\<forall>x \<in> set alerts. fin (alert_json x)" unfolding a
    using alerts_fin[OF fin_session_values tf bf] fin_alert_json by blast
  then have "fin_dict vals" unfolding v using tf bf by (intro fin_dict_of) (simp add: fin_simps)
  then show ?thesis unfolding c using p
    by (auto intro!: candidate_of_fin fin_class_values fin_participant_values)
qed

section \<open>Scopes of one evaluation\<close>

definition candidate_scope :: "metric_candidate \<Rightarrow> string \<times> string" where
  "candidate_scope c = (ca_scope_kind c, ca_scope_key c)"

lemma candidate_of_scope [simp]: "candidate_scope (candidate_of scopes keys kind k values) = (kind, k)"
  by (simp add: candidate_scope_def candidate_of_def)

lemma distinct_sorted_keys: "distinct (map f xs) \<Longrightarrow> distinct (map f (sort_key g xs))"
proof -
  assume d: "distinct (map f xs)"
  have "mset (map f (sort_key g xs)) = mset (map f xs)" by simp
  then show ?thesis using d mset_eq_imp_distinct_iff by metis
qed

definition blank :: "string \<Rightarrow> bool" where
  "blank s \<longleftrightarrow> strip s = []"

text \<open>The identifiers of a heat are proper and unique.\<close>

definition named :: "heat_input \<Rightarrow> bool" where
  "named h \<longleftrightarrow> \<not> blank (ms_id (ht_session h)) \<and> list_all (\<lambda>sc. \<not> blank (cs_key sc)) (ht_class_scopes h) \<and>
     list_all (\<lambda>p. \<not> blank (pt_id p)) (ht_participants h) \<and> distinct (map cs_key (ht_class_scopes h)) \<and>
     distinct (map pt_id (ht_participants h))"

lemma evaluate_scopes:
  assumes e: "evaluate_heat_metrics loads labels h previous history = Inr e" and n: "named h"
  shows "distinct (map candidate_scope (er_candidates e))"
    "\<forall>c \<in> set (er_candidates e). ca_scope_kind c \<in> set SCOPE_KINDS \<and> \<not> blank (ca_scope_key c)"
    "find (\<lambda>c. ca_scope_kind c = ''session'' \<and> ca_scope_key c = ms_id (ht_session h)) (er_candidates e) = Some (hd (er_candidates e))"
proof -
  from e obtain vals pace_of order_of samples_of sectors_of where c:
    "er_candidates e = candidate_of (event_scopes previous h) SESSION_HISTORY_KEYS ''session'' (ms_id (ht_session h)) vals #
       map (\<lambda>sc. candidate_of (event_scopes previous h) CLASS_HISTORY_KEYS ''class'' (cs_key sc)
         (class_values sc pace_of (order_of (cs_key sc)))) (sort_key cs_key (ht_class_scopes h)) @
       map (\<lambda>p. candidate_of (event_scopes previous h) PARTICIPANT_HISTORY_KEYS ''participant'' (pt_id p)
         (participant_values p (ht_observed_at_us h) (the (pace_of (pt_id p))) (samples_of (pt_id p)) (sectors_of (pt_id p))))
         (sort_key pt_id (ht_participants h))"
    by (rule evaluate_accepted)
  have m: "map candidate_scope (er_candidates e) = (''session'', ms_id (ht_session h)) #
      map (Pair ''class'') (map cs_key (sort_key cs_key (ht_class_scopes h))) @
      map (Pair ''participant'') (map pt_id (sort_key pt_id (ht_participants h)))"
    unfolding c by (simp add: comp_def)
  have "distinct (map cs_key (sort_key cs_key (ht_class_scopes h)))" "distinct (map pt_id (sort_key pt_id (ht_participants h)))"
    using n distinct_sorted_keys unfolding named_def by blast+
  then have d: "distinct (map (Pair k) (map cs_key (sort_key cs_key (ht_class_scopes h))))"
    "distinct (map (Pair k) (map pt_id (sort_key pt_id (ht_participants h))))" for k :: string
    by (simp_all only: distinct_map inj_on_def prod.inject) simp_all
  show "distinct (map candidate_scope (er_candidates e))" unfolding m using d by auto
  show "\<forall>c \<in> set (er_candidates e). ca_scope_kind c \<in> set SCOPE_KINDS \<and> \<not> blank (ca_scope_key c)"
    using n unfolding c by (auto simp: candidate_of_def SCOPE_KINDS_def named_def list_all_iff)
  show "find (\<lambda>c. ca_scope_kind c = ''session'' \<and> ca_scope_key c = ms_id (ht_session h)) (er_candidates e) = Some (hd (er_candidates e))"
    unfolding c by (simp add: candidate_of_def)
qed

section \<open>The stream events of a frame are accepted\<close>

lemma boundary_event_cases:
  assumes "boundary_event k = Some (kind, car)"
  obtains (track) "kind \<in> {''flag'', ''quality''}" "car = None"
  | (lap) i where "kind = ''lap''" "car = Some i" "k = ''lap:'' @ i"
  | (pit) i where "kind = ''pit''" "car = Some i" "k = ''pit_or_stint:'' @ i"
  using assms by (auto simp: boundary_event_def prefix_def split: if_splits)

lemma announced_spec:
  "distinct (map fst (announced seen ks)) \<and> (\<forall>(e, k) \<in> set (announced seen ks). e \<notin> set seen \<and> k \<in> set ks \<and> boundary_event k = Some e)"
proof (induction seen ks rule: announced.induct)
  case (2 seen k ks)
  show ?case
  proof (cases "boundary_event k")
    case None
    then show ?thesis using 2(1) by auto
  next
    case (Some e)
    show ?thesis
    proof (cases "e \<in> set seen")
      case True
      then show ?thesis using 2(2)[OF Some] Some by auto
    next
      case False
      then show ?thesis using 2(3)[OF Some] Some by auto
    qed
  qed
qed simp

text \<open>A lap or pit event names a car of the heat.\<close>

lemma typed_event_names_member:
  assumes k: "k \<in> set (detect_event_boundaries previous h)" and e: "boundary_event k = Some (kind, Some i)"
  shows "i \<in> pt_id ` set (ht_participants h)"
proof -
  let ?pre = "k = ''lap:'' @ i \<or> k = ''pit_or_stint:'' @ i"
  from e have pre: ?pre by (cases rule: boundary_event_cases) auto
  then obtain prior where prior: "previous = Some prior" "k \<in> set (boundary_events prior (build_boundary_state h))"
    using k by (auto simp: detect_event_boundaries_def Let_def split: option.splits if_splits)
  let ?after = "by_id (mb_participants (build_boundary_state h))"
  obtain j where "k \<in> set (participant_events j (map_of (by_id (mb_participants prior)) j) (map_of ?after j))"
    using prior(2) pre unfolding boundary_events_def Let_def by (auto split: if_splits)
  then obtain r where "j = i" "map_of ?after i = Some r"
    using pre by (auto simp: participant_events_def split: option.splits if_splits)
  then have "i \<in> set (map fst ?after)" by (metis map_of_eq_None_iff option.distinct(1) set_map)
  then have "i \<in> set (map fst (map (\<lambda>p. (pb_participant_id p, p)) (mb_participants (build_boundary_state h))))"
    unfolding by_id_def dict_of_keys .
  then show ?thesis by (auto simp: build_boundary_state_def participant_boundary_state_def)
qed

definition facet_key :: "string \<times> string option \<Rightarrow> string" where
  "facet_key e = '':'' @ fst e @ '':'' @ event_suffix (snd e)"

definition facet_ok :: "string \<times> string option \<Rightarrow> bool" where
  "facet_ok e \<longleftrightarrow> e \<in> {(''flag'', None), (''quality'', None)} \<or> (\<exists>i. i \<noteq> [] \<and> e \<in> {(''lap'', Some i), (''pit'', Some i)})"

lemma facet_key_inj: "facet_ok e \<Longrightarrow> facet_ok e' \<Longrightarrow> facet_key e = facet_key e' \<Longrightarrow> e = e'"
  by (auto simp: facet_ok_def facet_key_def event_suffix_def)

lemma facet_key_other: "facet_ok e \<Longrightarrow> facet_key e \<notin> {'':state'', '':metric'', '':alert''}"
  by (auto simp: facet_ok_def facet_key_def)

lemma facet_type: "facet_ok e \<Longrightarrow> fst e \<in> set STREAM_EVENT_TYPES"
  by (auto simp: facet_ok_def STREAM_EVENT_TYPES_def)

lemma facet_length: "facet_ok e \<Longrightarrow> (\<And>i. snd e = Some i \<Longrightarrow> length i \<le> 400) \<Longrightarrow> length (facet_key e) \<le> 410"
  by (auto simp: facet_ok_def facet_key_def event_suffix_def)

lemma fin_metadata [fin_simps]: "fin_dict (event_metadata h f)"
  by (simp add: event_metadata_def fin_simps)

lemma fin_event_data [fin_simps]: "fin_dict (event_data h ek)"
  by (auto simp: event_data_def fin_simps Let_def split: prod.splits option.splits)

lemma fin_scope_json [fin_simps]: "fin (scope_json c)"
  by (simp add: scope_json_def fin_simps)

lemma fin_session_alerts:
  assumes "\<forall>c \<in> set (er_candidates e). candidate_fin c"
  shows "fin (JList (session_alerts h e))"
proof (cases "find (\<lambda>c. ca_scope_kind c = ''session'' \<and> ca_scope_key c = ms_id (ht_session h)) (er_candidates e)")
  case (Some c)
  then have "c \<in> set (er_candidates e)" by (auto simp: find_Some_iff)
  then have "fin (jget ''alerts'' (ca_values c))" using assms fin_jget by (auto simp: candidate_fin_def)
  then show ?thesis by (cases "jget ''alerts'' (ca_values c)") (auto simp: session_alerts_def Some fin_simps)
qed (simp add: session_alerts_def fin_simps)

lemma candidate_accepted: "candidate_error [] \<lparr> ec_type = t, ec_key = k, ec_payload = JObj d \<rparr> = None \<longleftrightarrow>
    t \<in> set STREAM_EVENT_TYPES \<and> k \<noteq> [] \<and> length k \<le> 500 \<and> fin_dict d"
  using fin_JObj[of d] by (auto simp: candidate_error_def fin_def)

lemma stream_events_ok:
  assumes e: "evaluate_heat_metrics loads labels h previous history = Inr e" and n: "named h"
    and c: "\<forall>c \<in> set (er_candidates e). candidate_fin c"
    and len: "length (frame_prefix h f) \<le> 80" "\<forall>p \<in> set (ht_participants h). length (pt_id p) \<le> 400"
  shows "candidates_ok (stream_events h e f)"
proof -
  let ?ks = "er_event_keys e" and ?pre = "frame_prefix h f"
  let ?an = "announced [] ?ks"
  have keys: "?ks = detect_event_boundaries previous h" using e by (rule evaluate_accepted)
  have facet: "facet_ok (fst x) \<and> (\<forall>i. snd (fst x) = Some i \<longrightarrow> length i \<le> 400)" if x: "x \<in> set ?an" for x
  proof -
    obtain kind car k where xx: "x = ((kind, car), k)" by (cases x) auto
    have k: "k \<in> set ?ks" "boundary_event k = Some (kind, car)" using announced_spec[of "[]" ?ks] x xx by auto
    have car: "length i \<le> 400 \<and> i \<noteq> []" if "car = Some i" for i
    proof -
      have "i \<in> pt_id ` set (ht_participants h)" using typed_event_names_member k that unfolding keys by blast
      then show ?thesis using len(2) n by (auto simp: named_def list_all_iff blank_def)
    qed
    from k(2) show ?thesis unfolding xx by (cases rule: boundary_event_cases) (use car in \<open>auto simp: facet_ok_def\<close>)
  qed
  define mid where "mid = map (\<lambda>ek. \<lparr> ec_type = fst (fst ek), ec_key = ?pre @ '':'' @ fst (fst ek) @ '':'' @ event_suffix (snd (fst ek)),
      ec_payload = JObj (event_metadata h f @ [(''data'', JObj (event_data h ek))]) \<rparr>) ?an"
  have midkeys: "map ec_key mid = map (\<lambda>ek. ?pre @ facet_key (fst ek)) ?an"
    by (simp add: mid_def facet_key_def comp_def)
  have "distinct (map (\<lambda>ek. ?pre @ facet_key (fst ek)) ?an)"
  proof -
    have "distinct (map fst ?an)" using announced_spec by blast
    moreover have "inj_on (\<lambda>e. ?pre @ facet_key e) (fst ` set ?an)"
    proof (rule inj_onI)
      fix u v assume "u \<in> fst ` set ?an" "v \<in> fst ` set ?an" and eq: "?pre @ facet_key u = ?pre @ facet_key v"
      then obtain x y where x: "x \<in> set ?an" "u = fst x" and y: "y \<in> set ?an" "v = fst y" by blast
      from eq have "facet_key (fst x) = facet_key (fst y)" using x y by simp
      then show "u = v" using facet_key_inj[OF conjunct1[OF facet[OF x(1)]] conjunct1[OF facet[OF y(1)]]] x y by simp
    qed
    ultimately show ?thesis using distinct_map[of "\<lambda>e. ?pre @ facet_key e" "map fst ?an"] by (simp add: comp_def)
  qed
  then have d: "distinct (map ec_key mid)" unfolding midkeys .
  have other: "?pre @ s \<notin> ec_key ` set mid" if "s \<in> {'':state'', '':metric'', '':alert''}" for s
  proof
    assume "?pre @ s \<in> ec_key ` set mid"
    then have "?pre @ s \<in> set (map (\<lambda>ek. ?pre @ facet_key (fst ek)) ?an)" unfolding midkeys[symmetric] by simp
    then obtain ek where "ek \<in> set ?an" "s = facet_key (fst ek)" by auto
    then show False using facet_key_other facet that by blast
  qed
  have midok: "candidate_error [] x = None" if "x \<in> set mid" for x
  proof -
    from that obtain ek where ek: "ek \<in> set ?an" and x: "x = \<lparr> ec_type = fst (fst ek), ec_key = ?pre @ facet_key (fst ek),
        ec_payload = JObj (event_metadata h f @ [(''data'', JObj (event_data h ek))]) \<rparr>"
      by (auto simp: mid_def facet_key_def)
    have "length (facet_key (fst ek)) \<le> 410" using facet[OF ek] facet_length by blast
    then have "length (?pre @ facet_key (fst ek)) \<le> 500" using len(1) by simp
    moreover have "?pre @ facet_key (fst ek) \<noteq> []" by (simp add: frame_prefix_def)
    moreover have "fst (fst ek) \<in> set STREAM_EVENT_TYPES" using facet[OF ek] facet_type by blast
    ultimately show ?thesis unfolding x candidate_accepted by (simp add: fin_simps)
  qed
  define ends where "ends s t p = \<lparr> ec_type = t, ec_key = ?pre @ s, ec_payload = JObj (event_metadata h f @ [(''data'', JObj p)]) \<rparr>" for s t p
  have ok: "candidate_error [] (ends s t p) = None" if "t \<in> set STREAM_EVENT_TYPES" "length s \<le> 400" "fin_dict p" for s t p
    unfolding ends_def candidate_accepted using that len(1) by (simp add: fin_simps frame_prefix_def)
  define scopes where "scopes = map scope_json (filter ca_event_boundary (er_candidates e))"
  define updates where "updates = map (\<lambda>(i, kind). JObj [(''participant_id'', JStr i), (''field_kind'', JStr kind)])
      (List.map_filter interval_fact_boundary_parts ?ks)"
  define p where "p = [(''event_keys'', JList (map JStr ?ks)), (''event_scopes'', JList scopes), (''interval_fact_updates'', JList updates)]"
  define q where "q = [(''metric_version'', JInt METRIC_ENGINE_VERSION), (''scopes'', JList (map scope_json (er_candidates e))),
      (''event_scopes'', JList scopes), (''interval_fact_updates'', JList updates)]"
  have ev: "stream_events h e f = [ends '':state'' ''state'' p, ends '':metric'' ''metric'' q] @ mid @
      (if session_alerts h e \<noteq> [] \<and> ?ks \<noteq> [] then [ends '':alert'' ''alert'' [(''alerts'', JList (session_alerts h e))]] else [])"
    by (simp add: stream_events_def Let_def mid_def ends_def p_def q_def scopes_def updates_def)
  have "fin x" if "x \<in> set updates" for x using that by (auto simp: updates_def fin_simps)
  then have pq: "fin_dict p" "fin_dict q" by (auto simp: p_def q_def scopes_def fin_simps)
  have types: "''state'' \<in> set STREAM_EVENT_TYPES" "''metric'' \<in> set STREAM_EVENT_TYPES" "''alert'' \<in> set STREAM_EVENT_TYPES"
    by (simp_all add: STREAM_EVENT_TYPES_def)
  have endkeys: "ec_key (ends s t p) = ?pre @ s" for s t p by (simp add: ends_def)
  have "distinct (map ec_key (stream_events h e f))"
    unfolding ev using d other by (simp add: endkeys image_iff)
  moreover have "\<forall>x \<in> set (stream_events h e f). candidate_error [] x = None"
    unfolding ev using midok ok[OF types(1) _ pq(1)] ok[OF types(2) _ pq(2)]
      ok[OF types(3), of "'':alert''"] fin_session_alerts[OF c, of h] by (auto simp: fin_simps)
  ultimately show ?thesis by (simp add: candidates_ok_def list_all_iff)
qed

section \<open>The archive payload is accepted\<close>

lemma fin_compact: "\<forall>v. values = Some v \<longrightarrow> fin_dict v \<Longrightarrow> fin (compact_values values keys)"
  by (auto simp: compact_values_def fin_simps fin_jget)

lemma fin_candidate_values: "\<forall>c \<in> set (er_candidates e). candidate_fin c \<Longrightarrow> candidate_values e kind key = Some v \<Longrightarrow> fin_dict v"
  by (auto simp: candidate_values_def find_Some_iff candidate_fin_def split: option.splits)

lemma fin_raw_fact [fin_simps]: "fin (raw_fact_json v)"
  by (simp add: raw_fact_json_def fin_simps)

lemma fin_participant_payload [fin_simps]: "fin (participant_payload p)"
  by (simp add: participant_payload_def state_payload_def fin_simps)

lemma playback_payload_fin:
  assumes "build_playback_payload h e = Some payload" "\<forall>c \<in> set (er_candidates e). candidate_fin c"
  shows "fin_dict payload"
proof -
  have c: "fin (compact_values (candidate_values e kind key) keys)" for kind key keys
    by (rule fin_compact) (use fin_candidate_values[OF assms(2)] in blast)
  show ?thesis
    using assms(1) by (auto simp: build_playback_payload_def Let_def fin_simps c session_payload_def flag_payload_def statistics_payload_def
        split: if_splits)
qed

section \<open>Evaluation\<close>

definition scopes_known :: "heat_input \<Rightarrow> bool" where
  "scopes_known h \<longleftrightarrow> list_all (\<lambda>sc. list_all (\<lambda>p. pt_id p \<in> set (map pt_id (ht_participants h))) (cs_participants sc)) (ht_class_scopes h)"

definition sectors_readable :: "(string \<Rightarrow> json option) \<Rightarrow> heat_input \<Rightarrow> bool" where
  "sectors_readable loads h \<longleftrightarrow> (case sectors_by_id loads (ht_participants h) of Inl e \<Rightarrow> False | Inr s \<Rightarrow> True)"

lemma evaluation_succeeds:
  assumes s: "sectors_readable loads h" and k: "scopes_known h"
  shows "\<exists>e. evaluate_heat_metrics loads labels h previous history = Inr e"
proof -
  obtain sectors where sec: "sectors_by_id loads (ht_participants h) = Inr sectors"
    using s by (auto simp: sectors_readable_def split: sum.splits)
  let ?pace = "map_of (dict_of (map (\<lambda>p. (pt_id p, participant_pace p)) (ht_participants h)))"
  have pace: "?pace i \<noteq> None" if "i \<in> pt_id ` set (ht_participants h)" for i
  proof -
    have "i \<in> set (map fst (dict_of (map (\<lambda>p. (pt_id p, participant_pace p)) (ht_participants h))))"
      using that unfolding dict_of_keys by auto
    then show ?thesis by (metis map_of_eq_None_iff set_map)
  qed
  have target: "\<exists>t. target_pace ?pace sc i = Inr t" if "sc \<in> set (ht_class_scopes h)" for sc i
  proof (cases "find (\<lambda>p. Some (pt_id p) = i) (cs_participants sc)")
    case (Some p)
    then have "p \<in> set (cs_participants sc)" by (auto simp: find_Some_iff)
    then have "pt_id p \<in> pt_id ` set (ht_participants h)" using k that by (auto simp: scopes_known_def list_all_iff)
    then show ?thesis using pace[of "pt_id p"] Some by (auto simp: target_pace_def)
  qed (simp add: target_pace_def)
  have member: "sc \<in> set (ht_class_scopes h)" if "current_class_scope h = Some sc" for sc
    using that by (auto simp: current_class_scope_def find_scope_def Let_def bind_eq_Some_conv find_Some_iff split: option.splits)
  have battle: "\<exists>b. battle_values labels h now session tactical ?pace history = Inr b" for now session tactical
  proof (cases "\<exists>ours sc. our_participant h = Some ours \<and> current_class_scope h = Some sc")
    case True
    then obtain ours sc where o: "our_participant h = Some ours" "current_class_scope h = Some sc" by blast
    note t = target[OF member[OF o(2)]]
    obtain a where "target_pace ?pace sc (optional_text (jget ''class_ahead_id'' tactical)) = Inr a" using t by blast
    moreover obtain b where "target_pace ?pace sc (optional_text (jget ''class_behind_id'' tactical)) = Inr b" using t by blast
    ultimately show ?thesis by (simp add: battle_values_def o split: option.split)
  next
    case False
    then show ?thesis by (auto simp: battle_values_def split: option.splits)
  qed
  obtain b where b: "battle_values labels h (ht_observed_at_us h) (session_values h (ht_observed_at_us h))
      (ours_tactical_values h (ht_observed_at_us h) (session_values h (ht_observed_at_us h)) ?pace
        (get_or None (dict_of (map (\<lambda>sc. (cs_key sc, class_order sc)) (ht_class_scopes h))))
        (get_or [] (dict_of (map (\<lambda>p. (pt_id p, lap_samples p)) (ht_participants h))))
        (get_or \<lparr> sv_last = [], sv_personal = [] \<rparr> sectors)) ?pace history = Inr b"
    using battle by blast
  show ?thesis unfolding evaluate_heat_metrics_def Let_def sec sum.case b by blast
qed

section \<open>Samples\<close>

lemma canonical_fin: "fin_dict v \<Longrightarrow> \<exists>d. canonical_values v = Inr d"
  using fin_JObj[of v] by (auto simp: canonical_values_def fin_def)

lemma canonical_object: "canonical_values v = Inr d \<Longrightarrow> \<exists>kvs. d = JObj kvs"
  by (auto simp: canonical_values_def split: option.splits)

lemma sample_of_simps [simp]: "sm_scope_kind (sample_of c) = ca_scope_kind c" "sm_scope_key (sample_of c) = ca_scope_key c"
    "sm_values (sample_of c) = ca_values c" "sm_history_values (sample_of c) = Some (ca_history_values c)"
  by (simp_all add: sample_of_def)

lemma samples_prepared:
  "distinct (map candidate_scope cs) \<Longrightarrow> \<forall>c \<in> set cs. candidate_scope c \<notin> set seen \<Longrightarrow>
    \<forall>c \<in> set cs. ca_scope_kind c \<in> set SCOPE_KINDS \<and> \<not> blank (ca_scope_key c) \<and> candidate_fin c \<Longrightarrow>
    \<exists>ps. prepare_samples heat seen (map sample_of cs) = Inr ps"
proof (induction cs arbitrary: seen)
  case (Cons c cs)
  have v: "validated_scope (sample_of c) = Inr (candidate_scope c)"
    using Cons.prems(3) by (simp add: validated_scope_def sample_of_def candidate_scope_def blank_def)
  obtain a b where "canonical_values (ca_values c) = Inr a" "canonical_values (ca_history_values c) = Inr b"
    using Cons.prems(3) canonical_fin by (auto simp: candidate_fin_def) metis
  moreover obtain ps where "prepare_samples heat (candidate_scope c # seen) (map sample_of cs) = Inr ps"
  proof -
    have "distinct (map candidate_scope cs)" "\<forall>x \<in> set cs. candidate_scope x \<notin> set (candidate_scope c # seen)"
      "\<forall>c \<in> set cs. ca_scope_kind c \<in> set SCOPE_KINDS \<and> \<not> blank (ca_scope_key c) \<and> candidate_fin c"
      using Cons.prems by (auto simp: image_iff)
    from Cons.IH[OF this] show thesis using that by blast
  qed
  ultimately show ?case using Cons.prems(2) v by simp
qed simp

section \<open>What every write keeps\<close>

definition charts_ok :: "metric_db \<Rightarrow> bool" where
  "charts_ok d \<longleftrightarrow> (\<forall>x \<in> set (md_samples d). \<exists>v. sr_values (snd x) = JObj v)"

lemma prepared_objects: "prepare_samples heat seen cs = Inr ps \<Longrightarrow> p \<in> set ps \<Longrightarrow> \<exists>v. pp_history_values p = JObj v"
proof (induction cs arbitrary: seen ps)
  case (Cons c cs)
  from Cons.prems(1) obtain x a b rest where "canonical_values (case sm_history_values c of None \<Rightarrow> sm_values c | Some h \<Rightarrow> h) = Inr b"
    "prepare_samples heat (x # seen) cs = Inr rest"
    "ps = \<lparr> pp_scope = (heat, x), pp_values = a, pp_history_values = b, pp_event = sm_event_boundary c \<rparr> # rest"
    by (auto split: sum.splits if_splits)
  then show ?case using Cons.IH[of "x # seen" rest] Cons.prems(2) canonical_object by auto
qed simp

lemma write_sample_object:
  assumes "\<forall>x \<in> set rows. \<exists>v. sr_values (snd x) = JObj v" "\<exists>v. pp_history_values p = JObj v"
  shows "\<forall>x \<in> set (fst (write_sample now q p rows)). \<exists>v. sr_values (snd x) = JObj v"
proof -
  have n: "\<exists>v. sr_values (new_sample_row now q p) = JObj v" using assms(2) by (simp add: new_sample_row_def)
  show ?thesis unfolding write_sample_def Let_def
    using assms(1) n by (auto split: option.splits dest!: subsetD[OF set_update_subset])
qed

lemma fold_scopes_kept:
  "charts_ok d \<Longrightarrow> \<forall>p \<in> set ps. \<exists>v. pp_history_values p = JObj v \<Longrightarrow>
    charts_ok (fst (fold (write_scope now q) ps (d, m))) \<and> md_heats (fst (fold (write_scope now q) ps (d, m))) = md_heats d"
proof (induction ps arbitrary: d m)
  case (Cons p ps)
  let ?d = "d\<lparr> md_current := fst (write_current now q p (md_current d)), md_samples := fst (write_sample now q p (md_samples d)) \<rparr>"
  have "charts_ok ?d" using Cons.prems write_sample_object[of "md_samples d" p now q] by (simp add: charts_ok_def)
  then show ?case using Cons.IH[of ?d] Cons.prems(2) by (simp add: write_scope_eq)
qed simp

lemma materialize_kept:
  assumes "materialize_metric_samples sha burns now q d = Inr (d', m)" "charts_ok d"
  shows "charts_ok d' \<and> md_heats d' = md_heats d"
  using assms(1)
proof (cases rule: materialize_accepted)
  case (written ps session)
  obtain e k where e: "fold (write_scope now q) ps (d, no_writes) = (e, k)" by fastforce
  have "charts_ok e \<and> md_heats e = md_heats d"
    using fold_scopes_kept[OF assms(2), of ps now q no_writes] prepared_objects[OF written(1)] unfolding e fst_conv by blast
  moreover have "md_samples d' = md_samples e \<and> md_heats d' = md_heats e"
    using written(5) unfolding e by (cases rule: write_runner_part_cases) simp_all
  ultimately show ?thesis by (simp add: charts_ok_def)
qed (use assms(2) in simp)

section \<open>A runner never gets stuck\<close>

definition cursors_ok :: "metric_db \<Rightarrow> bool" where
  "cursors_ok d \<longleftrightarrow> (\<forall>heat row. map_of (md_runner d) heat = Some row \<longrightarrow> rr_version row = METRIC_ENGINE_VERSION \<and>
     (\<exists>b. deserialize_metric_boundary_state (Some (rr_boundary_state row)) = Inr b \<and> mb_source_heat_id b = heat))"

definition runner_inv :: "metric_db \<Rightarrow> runner_memory \<times> metric_db \<Rightarrow> bool" where
  "runner_inv d0 st \<longleftrightarrow> memory_ok (fst st) (snd st) \<and> playback_behind (snd st) \<and> charts_ok (snd st) \<and> cursors_ok (snd st) \<and>
     md_heats (snd st) = md_heats d0"

lemma process_frame_inv:
  assumes run: "process_frame loads labels sha burns now t memory d f = Inr (memory', d', r)" and ok: "frame_ok f"
    and inv: "runner_inv d0 (memory, d)"
  shows "runner_inv d0 (memory', d')"
proof -
  have i: "memory_ok memory d" "playback_behind d" "charts_ok d" "cursors_ok d" "md_heats d = md_heats d0"
    using inv by (simp_all add: runner_inv_def)
  from run obtain e hash payload m where e: "er_boundary_state e = build_boundary_state (frame_heat f)" "er_candidates e \<noteq> []"
    and w: "materialize_metric_samples sha burns now (frame_request (frame_heat f) e f hash payload) d = Inr (d', m)"
    by (rule process_frame_accepted)
  let ?q = "frame_request (frame_heat f) e f hash payload"
  have "wr_samples ?q \<noteq> []" using e(2) by simp
  note rows = materialize_runner(2)[OF w frame_request_simps(5) this]
  have good: "heat_ok (frame_heat f)" and id: "mb_source_heat_id (build_boundary_state (frame_heat f)) = fm_heat f"
    using ok unfolding frame_ok_def frame_heat_facts by blast+
  have "cursors_ok d'"
  proof (cases rule: write_runner_result[where now = now and q = ?q and r = "\<lparr> rn_source_frame_id = fm_frame f, rn_state_hash = hash,
        rn_boundary_state = serialize_metric_boundary_state (er_boundary_state e) \<rparr>" and rows = "md_runner d"])
    case stored
    then show ?thesis using i(4) rows deserialize_serialize[OF build_boundary_ok[OF good]] id e(1)
      by (auto simp: cursors_ok_def update_conv' new_runner_row_def)
  next
    case kept
    then show ?thesis using i(4) rows by (simp add: cursors_ok_def)
  qed
  then show ?thesis
    using process_frame_memory[OF run i(1) ok] materialize_behind[OF i(2) w] materialize_kept[OF w i(3)] i(5)
    by (simp add: runner_inv_def)
qed

lemma runner_step_inv: "runner_inv d0 st \<Longrightarrow> event_ok e \<Longrightarrow> runner_inv d0 (runner_step loads labels sha st e)"
  by (cases st; cases e) (auto split: sum.splits prod.splits intro: process_frame_inv, simp add: runner_inv_def memory_ok_Nil)

lemma runner_reaches_inv: "list_all event_ok events \<Longrightarrow> runner_inv d0 st \<Longrightarrow> runner_inv d0 (foldl (runner_step loads labels sha) st events)"
  by (induction events arbitrary: st) (simp_all add: runner_step_inv)

lemma fresh_inv: "fresh_metric_db d \<Longrightarrow> runner_inv d ([], d)"
  by (simp add: runner_inv_def memory_ok_Nil playback_behind_def charts_ok_def cursors_ok_def fresh_metric_db_def)

lemma previous_readable:
  assumes "memory_ok memory d" "cursors_ok d" "0 < heat"
  shows "\<exists>p. previous_boundary memory d heat = Inr p"
  unfolding previous_from_rows[OF assms(1)]
proof (cases "map_of (md_runner d) heat")
  case (Some row)
  then obtain b where "rr_version row = METRIC_ENGINE_VERSION" "deserialize_metric_boundary_state (Some (rr_boundary_state row)) = Inr b"
    "mb_source_heat_id b = heat" using assms(2) unfolding cursors_ok_def by blast
  then show "\<exists>p. previous_boundary [] d heat = Inr p"
    using Some assms(3) by (simp add: previous_boundary_def load_metric_runner_state_def METRIC_ENGINE_VERSION_def)
next
  case None
  then show "\<exists>p. previous_boundary [] d heat = Inr p"
    using assms(3) by (simp add: previous_boundary_def load_metric_runner_state_def METRIC_ENGINE_VERSION_def)
qed

lemma traverse_accepts: "\<forall>x \<in> set xs. \<exists>y. g x = Inr y \<Longrightarrow> \<exists>ys. traverse g xs = Inr ys"
  by (induction xs) auto

lemma history_readable:
  assumes "charts_ok d" "0 < heat" "\<not> blank key"
  shows "\<exists>hs. load_metric_history heat ''session'' key (Some (max 0 since)) (Some METRIC_ENGINE_VERSION) d = Inr hs"
proof -
  have p: "\<exists>y. history_point_of (snd x) = Inr y" if "x \<in> set (md_samples d)" for x
    using assms(1) that by (auto simp: charts_ok_def history_point_of_def)
  have "\<exists>hs. traverse history_point_of (map snd (sort_key g (filter P (md_samples d)))) = Inr hs" for g :: "_ \<Rightarrow> int \<times> int" and P
    by (rule traverse_accepts) (use p in auto)
  then show ?thesis using assms(2,3) unfolding load_metric_history_def
    by (simp add: SCOPE_KINDS_def blank_def METRIC_ENGINE_VERSION_def)
qed

text \<open>What the acceptance of a frame asks of its facts.\<close>

definition frame_ready :: "(string \<Rightarrow> json option) \<Rightarrow> metric_frame \<Rightarrow> bool" where
  "frame_ready loads f \<longleftrightarrow> frame_ok f \<and> 0 < fm_frame f \<and> 0 \<le> fm_observed_at_us f \<and>
     (case fm_message f of None \<Rightarrow> True | Some i \<Rightarrow> 0 < i) \<and> \<not> blank (fm_source_key f) \<and>
     named (fm_input f) \<and> scopes_known (fm_input f) \<and> sectors_readable loads (fm_input f) \<and>
     list_all checkpoints_fin (ht_participants (fm_input f)) \<and>
     list_all (\<lambda>p. length (pt_id p) \<le> 400) (ht_participants (fm_input f)) \<and> length (frame_prefix (fm_input f) f) \<le> 80"

lemma frame_heat_kept [simp]:
  "ht_participants (frame_heat f) = ht_participants (fm_input f)" "ht_class_scopes (frame_heat f) = ht_class_scopes (fm_input f)"
  "ms_id (ht_session (frame_heat f)) = ms_id (ht_session (fm_input f))" "ht_source_heat_id (frame_heat f) = ht_source_heat_id (fm_input f)"
  by (simp_all add: frame_heat_def Let_def)

lemma frame_heat_ready:
  "named (frame_heat f) = named (fm_input f)" "scopes_known (frame_heat f) = scopes_known (fm_input f)"
  "sectors_readable loads (frame_heat f) = sectors_readable loads (fm_input f)"
  "frame_prefix (frame_heat f) f = frame_prefix (fm_input f) f"
  by (simp_all add: named_def scopes_known_def sectors_readable_def frame_prefix_def)

lemma payload_built:
  assumes "evaluate_heat_metrics loads labels h previous history = Inr e"
  shows "\<exists>payload. build_playback_payload h e = Some payload"
  using assms by (rule evaluate_accepted) (simp add: build_playback_payload_def Let_def)

lemma hash_computed:
  assumes "\<forall>c \<in> set cs. candidate_fin c" "\<And>j. sha j \<noteq> []"
  shows "\<exists>h. state_hash sha cs = Some h \<and> h \<noteq> []"
proof -
  have "fin (JList (map (\<lambda>c. JObj [(''scope_kind'', JStr (ca_scope_kind c)), (''scope_key'', JStr (ca_scope_key c)),
      (''values'', JObj (ca_values c))]) cs))"
    using assms(1) by (simp add: fin_simps candidate_fin_def)
  then show ?thesis using assms(2) by (auto simp: state_hash_def fin_def)
qed

lemma request_accepted:
  assumes d: "playback_behind d" "map_of (md_heats d) (fm_heat f) = Some sid" "sid \<noteq> []"
    and f: "frame_ready loads f" and h: "h = frame_heat f"
    and e: "evaluate_heat_metrics loads labels h previous history = Inr e"
    and p: "build_playback_payload h e = Some payload" and hash: "hash \<noteq> []"
  shows "\<exists>x. materialize_metric_samples sha burns now (frame_request h e f hash payload) d = Inr x"
proof (rule tick_accepted[OF d(1)])
  let ?q = "frame_request h e f hash payload"
  have cp: "\<forall>p \<in> set (ht_participants h). checkpoints_fin p" and names: "named h"
    and len: "length (frame_prefix h f) \<le> 80" "\<forall>p \<in> set (ht_participants h). length (pt_id p) \<le> 400"
    using f unfolding h frame_heat_ready frame_heat_kept frame_ready_def list_all_iff by blast+
  note cf = evaluate_fin[OF e cp]
  note scopes = evaluate_scopes[OF e names]
  have pos: "0 < fm_heat f" using f by (auto simp: frame_ready_def frame_ok_def heat_ok_def)
  obtain pv where pv: "canonical_values payload = Inr pv" using canonical_fin[OF playback_payload_fin[OF p cf]] by blast
  show "request_ok ?q"
  proof -
    have "\<exists>ps. prepare_samples (wr_heat ?q) [] (wr_samples ?q) = Inr ps"
      unfolding frame_request_simps by (rule samples_prepared) (use scopes cf in auto)
    moreover have "argument_error ?q = None"
      using f pos hash pv by (simp add: argument_error_def frame_request_def frame_ready_def blank_def METRIC_ENGINE_VERSION_def
          METRIC_SAMPLE_INTERVAL_US_def split: option.splits)
    ultimately show ?thesis by (simp add: request_ok_def)
  qed
  show "map_of (md_heats d) (wr_heat ?q) = Some sid" using d(2) by simp
  fix r x assume r: "wr_runner ?q = Some r"
  have c: "candidates_ok (stream_events h e f)" by (rule stream_events_ok[OF e names cf len])
  let ?a = "\<lparr> so_session = sid, so_heat = wr_heat ?q, so_frame = rn_source_frame_id r, so_message = wr_message ?q,
      so_source_key = wr_source_key ?q, so_observed_at_us = wr_observed_at_us ?q \<rparr>"
  have ev: "wr_stream_events ?q = stream_events h e f" "wr_message ?q = fm_message f" "rn_source_frame_id r = fm_frame f"
    using r by (auto simp: frame_request_def)
  have "origin_error ?a = None"
    using d(3) pos f by (simp add: origin_error_def ev frame_ready_def blank_def split: option.splits)
  moreover obtain y where "append_loop burns now ?a [] (stream_events h e f) x = Inr y"
    using append_loop_accepts[of burns now ?a "[]" "stream_events h e f" x] c by auto
  ultimately have "append_stream_events burns now ?a (wr_stream_events ?q) x = Inr y" by (simp add: append_stream_events_def ev)
  then show "\<exists>y. write_stream burns now sid ?q r x = Inr y" by (simp add: write_stream_def)
qed

lemma frame_accepted:
  assumes inv: "runner_inv d0 (memory, d)" and f: "frame_ready loads f"
    and heat: "map_of (md_heats d0) (fm_heat f) = Some sid" "sid \<noteq> []" and sha: "\<And>j. sha j \<noteq> []"
  shows "\<exists>x. process_frame loads labels sha burns now False memory d f = Inr x"
proof -
  define h where "h = frame_heat f"
  have i: "memory_ok memory d" "playback_behind d" "charts_ok d" "cursors_ok d" "map_of (md_heats d) (fm_heat f) = Some sid"
    using inv heat by (simp_all add: runner_inv_def)
  have pos: "0 < fm_heat f" using f by (auto simp: frame_ready_def frame_ok_def heat_ok_def)
  have key: "\<not> blank (ms_id (ht_session h))" and s: "sectors_readable loads h" "scopes_known h"
    and cp: "\<forall>p \<in> set (ht_participants h). checkpoints_fin p"
    using f unfolding h_def frame_heat_ready frame_heat_kept frame_ready_def named_def list_all_iff by blast+
  obtain history where history: "load_metric_history (fm_heat f) ''session'' (ms_id (ht_session h))
      (Some (max 0 (fm_observed_at_us f - METRIC_HISTORY_LOOKBACK_US - METRIC_SAMPLE_INTERVAL_US))) (Some METRIC_ENGINE_VERSION) d = Inr history"
    using history_readable[OF i(3) pos key] by blast
  obtain previous where previous: "previous_boundary memory d (fm_heat f) = Inr previous"
    using previous_readable[OF i(1,4) pos] by blast
  obtain e where e: "evaluate_heat_metrics loads labels h previous history = Inr e"
    using evaluation_succeeds[OF s] by blast
  obtain hash where hash: "state_hash sha (er_candidates e) = Some hash" "hash \<noteq> []"
    using hash_computed[of "er_candidates e" sha] evaluate_fin[OF e cp] sha by blast
  obtain payload where payload: "build_playback_payload h e = Some payload" using payload_built[OF e] by blast
  obtain d' m where w: "materialize_metric_samples sha burns now (frame_request h e f hash payload) d = Inr (d', m)"
    using request_accepted[OF i(2,5) heat(2) f h_def e payload hash(2), of sha burns now] by auto
  show ?thesis
    unfolding process_frame_def h_def[symmetric] Let_def history sum.case previous e hash(1) payload prod.case option.case w by simp
qed

text \<open>C5. liveness. The metric runner never gets stuck: from an empty metric store, after whatever frames
  were delivered - in transactions, late, twice, refused - and whatever restarts, every frame with
  readable facts of a known heat is processed. No document the runner wrote earlier, no stored
  cursor, no archived second and no event key it announced before stands in its way.\<close>
theorem ready_frame_is_processed:
  assumes "fresh_metric_db d0" "list_all event_ok events" "frame_ready loads f"
    and "map_of (md_heats d0) (fm_heat f) = Some sid" "sid \<noteq> []" "\<And>j. sha j \<noteq> []"
    and "foldl (runner_step loads labels sha) ([], d0) events = (memory, d)"
  shows "\<exists>x. process_frame loads labels sha burns now False memory d f = Inr x"
proof -
  have "runner_inv d0 (memory, d)"
    using runner_reaches_inv[OF assms(2) fresh_inv[OF assms(1)], of loads labels sha] assms(7) by simp
  from frame_accepted[OF this assms(3-6)] show ?thesis .
qed

section \<open>Samples of the theorems\<close>

definition quiet_heat :: heat_input where
  "quiet_heat = (sample_heat [])\<lparr> ht_open_ingest_gap := None, ht_class_scopes := [] \<rparr>"

definition quiet_frame :: "int \<Rightarrow> metric_frame" where
  "quiet_frame i = \<lparr> fm_heat = 3, fm_frame = i, fm_observed_at_us = 6000000, fm_message = Some 41, fm_source_key = ''r_c'',
     fm_replay_active = False, fm_input = quiet_heat \<rparr>"

definition runner_db :: metric_db where
  "runner_db = \<lparr> md_heats = [(3, ''s1'')], md_current = [], md_samples = [], md_ticks = [], md_runner = [], md_playback = [],
     md_stream = empty_stream_db \<rparr>"

lemma quiet_ready: "frame_ready (\<lambda>_. None) (quiet_frame 5)" "frame_ready (\<lambda>_. None) (quiet_frame 6)"
  by code_simp+

lemma quiet_ok: "frame_ok (quiet_frame 5)" "frame_ok (quiet_frame 6)"
  using quiet_ready by (simp_all add: frame_ready_def)

lemma runner_db_fresh: "fresh_metric_db runner_db"
  by (simp add: fresh_metric_db_def runner_db_def)

lemma runner_db_heat: "map_of (md_heats runner_db) (fm_heat (quiet_frame i)) = Some ''s1''"
  by (simp add: runner_db_def quiet_frame_def)

abbreviation quiet_process :: "runner_memory \<Rightarrow> metric_db \<Rightarrow> metric_frame \<Rightarrow> runner_error + (runner_memory \<times> metric_db \<times> run_result)" where
  "quiet_process \<equiv> process_frame (\<lambda>_. None) (\<lambda>_. []) (\<lambda>_. ''h'') False 9 False"

lemma redelivered_frame_emits_nothing_witness:
  "\<exists>m1 d1 r1 m2 d2 r2. quiet_process [] runner_db (quiet_frame 5) = Inr (m1, d1, r1) \<and>
     quiet_process [] d1 (quiet_frame 5) = Inr (m2, d2, r2) \<and> md_stream d2 = md_stream d1"
proof -
  note acc = frame_accepted[OF _ quiet_ready(1) runner_db_heat, of _ _ "\<lambda>_. ''h''" "\<lambda>_. []" False 9, simplified]
  obtain m1 d1 r1 where 1: "quiet_process [] runner_db (quiet_frame 5) = Inr (m1, d1, r1)"
    using acc[OF fresh_inv[OF runner_db_fresh]] by auto
  have "runner_inv runner_db ([], d1)"
    using process_frame_inv[OF 1 quiet_ok(1) fresh_inv[OF runner_db_fresh]] by (simp add: runner_inv_def memory_ok_Nil)
  then obtain m2 d2 r2 where 2: "quiet_process [] d1 (quiet_frame 5) = Inr (m2, d2, r2)" using acc by blast
  show ?thesis using redelivered_frame_emits_nothing[OF 1 2] 1 2 by blast
qed

lemma restarts_change_nothing_witness:
  "snd (foldl (runner_step (\<lambda>_. None) (\<lambda>_. []) (\<lambda>_. ''h'')) ([], runner_db)
      [Deliver False False 9 (quiet_frame 5), Restart, Deliver False False 12 (quiet_frame 6)]) =
   snd (foldl (runner_step (\<lambda>_. None) (\<lambda>_. []) (\<lambda>_. ''h'')) ([], runner_db)
      [Deliver False False 9 (quiet_frame 5), Deliver False False 12 (quiet_frame 6)])"
  using restarts_change_nothing[of "[Deliver False False 9 (quiet_frame 5), Restart, Deliver False False 12 (quiet_frame 6)]"
      "\<lambda>_. None" "\<lambda>_. []" "\<lambda>_. ''h''" runner_db] quiet_ok by simp

lemma ready_frame_is_processed_witness:
  "\<exists>x. process_frame (\<lambda>_. None) (\<lambda>_. []) (\<lambda>_. ''h'') False 12 False
      (fst (foldl (runner_step (\<lambda>_. None) (\<lambda>_. []) (\<lambda>_. ''h'')) ([], runner_db) [Deliver False False 9 (quiet_frame 5), Restart]))
      (snd (foldl (runner_step (\<lambda>_. None) (\<lambda>_. []) (\<lambda>_. ''h'')) ([], runner_db) [Deliver False False 9 (quiet_frame 5), Restart]))
      (quiet_frame 6) = Inr x"
  by (rule ready_frame_is_processed[OF runner_db_fresh _ quiet_ready(2) runner_db_heat _ _ prod.collapse[symmetric]])
    (use quiet_ok in simp_all)

end
