(* ===== verification/Ingest_Store.thy ===== *)
theory Ingest_Store
  imports Lifecycle
begin

text \<open>
  The durable ingest: \<open>server/timing/ingest_store.py\<close>, the envelope decoder of
  \<open>server/timing/protocol.py\<close> and the checkpoint writer of \<open>server/timing/db.py\<close>, over the tables of
  migrations 0001 and 0016. JSON parsing, LZString decompression and SHA-256 are parameters, new
  uuids are inputs. A text column that holds JSON holds the value it encodes. The column
  \<open>source_heat_id\<close> of \<open>ingest_gaps\<close>, which no code sets, and row-creation times are left out.
\<close>

section \<open>Tables\<close>

record ingest_session =
  is_id :: string
  is_source :: nat
  is_lifecycle :: lifecycle

record run_row =
  ru_id :: string
  ru_session :: string
  ru_reducer_version :: string
  ru_started_at_us :: int
  ru_stopped_at_us :: "int option"
  ru_stop_reason :: "string option"

record connection_row =
  ic_id :: string
  ic_run :: string
  ic_ordinal :: int
  ic_timekeeper_id :: string
  ic_display_marker :: "string option"
  ic_connected_at_us :: int
  ic_disconnected_at_us :: "int option"
  ic_disconnect_reason :: "string option"

datatype decode_state = RawPending | RawDecoded | RawFailed

record frame_row =
  fr_id :: int
  fr_session :: string
  fr_connection :: string
  fr_sequence :: int
  fr_received_at_us :: int
  fr_monotonic_ns :: int
  fr_upstream_cursor :: json
  fr_groups_token :: json
  fr_raw :: string
  fr_raw_sha256 :: string
  fr_decode_state :: decode_state
  fr_decode_error :: "string option"
  fr_processed_at_us :: "int option"

record message_row =
  mg_frame :: int
  mg_ordinal :: nat
  mg_handle :: string
  mg_args :: json
  mg_compressed :: bool

record gap_row =
  gp_id :: int
  gp_session :: string
  gp_connection :: "string option"
  gp_started_at_us :: int
  gp_ended_at_us :: "int option"
  gp_reason :: string

record checkpoint_row =
  ck_id :: int
  ck_heat :: int
  ck_frame :: "int option"
  ck_source_key :: string
  ck_observed_at_us :: int
  ck_state_hash :: string
  ck_payload :: json
  ck_format :: string
  ck_format_version :: int
  ck_reducer_version :: string

record ingest_db =
  ib_in_transaction :: bool
  ib_sources :: "(nat \<times> int option) list"
  ib_sessions :: "ingest_session list"
  ib_heats :: "(int \<times> string) list"
  ib_runs :: "run_row list"
  ib_connections :: "connection_row list"
  ib_frames :: "frame_row list"
  ib_messages :: "message_row list"
  ib_gaps :: "gap_row list"
  ib_checkpoints :: "checkpoint_row list"

datatype ingest_error =
    RawStoreError string
  | RawCheckpointError string
  | UniqueViolation string
  | BindError

text \<open>SQL vocabulary: updates with a WHERE clause, \<open>COALESCE\<close>, the next \<open>INTEGER PRIMARY KEY\<close>.\<close>

definition update_where :: "('a \<Rightarrow> bool) \<Rightarrow> ('a \<Rightarrow> 'a) \<Rightarrow> 'a list \<Rightarrow> 'a list" where
  "update_where P g rows = map (\<lambda>r. if P r then g r else r) rows"

definition coalesce :: "'a option \<Rightarrow> 'a \<Rightarrow> 'a option" where
  "coalesce v w = (case v of None \<Rightarrow> Some w | Some x \<Rightarrow> Some x)"

definition next_id :: "int list \<Rightarrow> int" where
  "next_id ids = (if ids = [] then 1 else Max (set ids) + 1)"

text \<open>\<open>_write_transaction\<close>: the body runs alone; when it raises, the caller keeps the old tables.\<close>

definition raw_transaction ::
    "(ingest_db \<Rightarrow> ingest_error + ingest_db \<times> 'a) \<Rightarrow> ingest_db \<Rightarrow> ingest_error + ingest_db \<times> 'a" where
  "raw_transaction body d =
    (if ib_in_transaction d then Inl (RawStoreError ''Ingest write requires a connection without an open transaction'')
     else body d)"

section \<open>Messages\<close>

record signalr_message =
  sg_handle :: string
  sg_args :: "json list"
  sg_compressed :: bool

text \<open>\<open>json.dumps(sort_keys=True)\<close>, which accepts every value.\<close>

fun canonical_doc :: "json \<Rightarrow> json" where
  "canonical_doc (JList xs) = JList (map canonical_doc xs)"
| "canonical_doc (JObj kvs) = JObj (sort_key fst (map (\<lambda>kv. (fst kv, canonical_doc (snd kv))) kvs))"
| "canonical_doc v = v"

text \<open>What \<open>decode_envelope\<close> can raise: the type and text of the exception.\<close>

datatype decode_error = DecodeError string string

definition protocol_error :: "string \<Rightarrow> decode_error" where
  "protocol_error m = DecodeError ''ProtocolError'' m"

text \<open>\<open>value.split("::", 1)[0]\<close>\<close>

fun without_checksum :: "string \<Rightarrow> string" where
  "without_checksum (a # b # s) =
    (if a = CHR '':'' \<and> b = CHR '':'' then [] else a # without_checksum (b # s))"
| "without_checksum s = s"

text \<open>\<open>loads\<close> is \<open>json.loads\<close> (nothing for invalid JSON); \<open>decompress\<close> is LZString's decoder, which may raise or return nothing.\<close>

definition decode_utf16_payload ::
    "(string \<Rightarrow> json option) \<Rightarrow> (string \<Rightarrow> decode_error + string option) \<Rightarrow> string \<Rightarrow> decode_error + json list" where
  "decode_utf16_payload loads decompress value =
    (case decompress (without_checksum value) of
       Inl e \<Rightarrow> Inl e
     | Inr None \<Rightarrow> Inl (protocol_error ''Unable to decompress initial SignalR payload'')
     | Inr (Some decoded) \<Rightarrow>
        (case loads decoded of
           None \<Rightarrow> Inl (protocol_error ''Decoded initial SignalR payload was not JSON'')
         | Some (JList entries) \<Rightarrow> Inr entries
         | Some _ \<Rightarrow> Inl (protocol_error ''Decoded initial SignalR payload was not a message list'')))"

text \<open>An entry \<open>[handle, arg, ...]\<close>; anything else is skipped.\<close>

definition entry_of :: "json \<Rightarrow> (string \<times> json list) option" where
  "entry_of entry = (case entry of JList (JStr handle # args) \<Rightarrow> Some (handle, args) | _ \<Rightarrow> None)"

definition messages_from_entries :: "json list \<Rightarrow> bool \<Rightarrow> signalr_message list" where
  "messages_from_entries entries compressed =
    map (\<lambda>(handle, args). \<lparr> sg_handle = handle, sg_args = args, sg_compressed = compressed \<rparr>) (List.map_filter entry_of entries)"

fun envelope_messages ::
    "(string \<Rightarrow> json option) \<Rightarrow> (string \<Rightarrow> decode_error + string option) \<Rightarrow> json list \<Rightarrow> decode_error + signalr_message list" where
  "envelope_messages loads decompress [] = Inr []"
| "envelope_messages loads decompress (entry # entries) =
    (case entry_of entry of
       None \<Rightarrow> envelope_messages loads decompress entries
     | Some (handle, args) \<Rightarrow>
        (case (if handle = ''_'' \<and> args \<noteq> [] then (case hd args of JStr payload \<Rightarrow> Some payload | _ \<Rightarrow> None) else None) of
           Some payload \<Rightarrow>
             (case decode_utf16_payload loads decompress payload of
                Inl e \<Rightarrow> Inl e
              | Inr inner \<Rightarrow> map_sum id (\<lambda>rest. messages_from_entries inner True @ rest) (envelope_messages loads decompress entries))
         | None \<Rightarrow> map_sum id (\<lambda>rest. \<lparr> sg_handle = handle, sg_args = args, sg_compressed = False \<rparr> # rest)
             (envelope_messages loads decompress entries)))"

text \<open>Iterating \<open>envelope.get("M", [])\<close>: the elements of a list; the characters of a text and the keys of an
  object are no entries; a number, a boolean or null raises.\<close>

definition not_iterable :: "string \<Rightarrow> decode_error" where
  "not_iterable t = DecodeError ''TypeError'' ([CHR 0x27] @ t @ [CHR 0x27] @ '' object is not iterable'')"

definition iterated :: "json option \<Rightarrow> decode_error + json list" where
  "iterated m = (case m of
     None \<Rightarrow> Inr []
   | Some (JList entries) \<Rightarrow> Inr entries
   | Some (JStr s) \<Rightarrow> Inr (map (\<lambda>c. JStr [c]) s)
   | Some (JObj kvs) \<Rightarrow> Inr (map (\<lambda>kv. JStr (fst kv)) kvs)
   | Some JNull \<Rightarrow> Inl (not_iterable ''NoneType'')
   | Some (JBool b) \<Rightarrow> Inl (not_iterable ''bool'')
   | Some (JNum (PyInt i)) \<Rightarrow> Inl (not_iterable ''int'')
   | Some (JNum n) \<Rightarrow> Inl (not_iterable ''float''))"

definition decode_envelope ::
    "(string \<Rightarrow> json option) \<Rightarrow> (string \<Rightarrow> decode_error + string option) \<Rightarrow> string
      \<Rightarrow> decode_error + (string \<times> json) list \<times> signalr_message list" where
  "decode_envelope loads decompress raw_text =
    (case loads raw_text of
       None \<Rightarrow> Inl (protocol_error ''SignalR frame was not JSON'')
     | Some (JObj envelope) \<Rightarrow>
        (case iterated (map_of envelope ''M'') of
           Inl e \<Rightarrow> Inl e
         | Inr entries \<Rightarrow> map_sum id (Pair envelope) (envelope_messages loads decompress entries))
     | Some _ \<Rightarrow> Inl (protocol_error ''SignalR frame was not an object''))"

definition safe_error :: "decode_error \<Rightarrow> string" where
  "safe_error e = (case e of DecodeError t m \<Rightarrow> take 1000 (t @ '': '' @ m))"

section \<open>Checkpoints\<close>

definition LEGACY_CHECKPOINT_FORMAT :: string where "LEGACY_CHECKPOINT_FORMAT = ''legacy''"
definition RUNTIME_CHECKPOINT_FORMAT :: string where "RUNTIME_CHECKPOINT_FORMAT = ''timing-normalizer''"
definition RUNTIME_CHECKPOINT_FORMAT_VERSION :: int where "RUNTIME_CHECKPOINT_FORMAT_VERSION = 1"

definition frame_source_key :: "string \<Rightarrow> int \<Rightarrow> string" where
  "frame_source_key connection sequence = connection @ '':'' @ int_text sequence"

record checkpoint_request =
  cq_heat :: int
  cq_frame :: "int option"
  cq_source_key :: string
  cq_observed_at_us :: int
  cq_state :: json
  cq_format :: string
  cq_format_version :: int
  cq_reducer_version :: string

definition frame_by_id :: "int \<Rightarrow> frame_row list \<Rightarrow> frame_row option" where
  "frame_by_id i rows = find (\<lambda>f. fr_id f = i) rows"

text \<open>The provenance a runtime checkpoint must have: its frame and its heat belong together.\<close>

definition provenance_ok :: "checkpoint_request \<Rightarrow> ingest_db \<Rightarrow> bool" where
  "provenance_ok q d =
    (case (map_of (ib_heats d) (cq_heat q), Option.bind (cq_frame q) (\<lambda>i. frame_by_id i (ib_frames d))) of
       (Some session, Some f) \<Rightarrow> session = fr_session f \<and> cq_source_key q = frame_source_key (fr_connection f) (fr_sequence f) \<and>
         cq_observed_at_us q = fr_received_at_us f
     | _ \<Rightarrow> False)"

definition existing_checkpoint :: "checkpoint_request \<Rightarrow> checkpoint_row list \<Rightarrow> checkpoint_row option" where
  "existing_checkpoint q rows = find (\<lambda>c. ck_heat c = cq_heat q \<and> ck_format c = cq_format q \<and> ck_format_version c = cq_format_version q \<and>
     (if cq_format q = RUNTIME_CHECKPOINT_FORMAT then ck_frame c = cq_frame q \<and> ck_frame c \<noteq> None
      else ck_observed_at_us c = cq_observed_at_us q)) rows"

text \<open>The new tables and whether a row was inserted; the payload column holds its document.\<close>

definition save_checkpoint :: "(json \<Rightarrow> string) \<Rightarrow> checkpoint_request \<Rightarrow> ingest_db \<Rightarrow> ingest_error + ingest_db \<times> bool" where
  "save_checkpoint sha q d =
    (if cq_format q = [] then Inl (RawCheckpointError ''checkpoint_format must be a non-empty string'')
     else if cq_format_version q < 0 then Inl (RawCheckpointError ''checkpoint_format_version must be a non-negative integer'')
     else if cq_reducer_version q = [] then Inl (RawCheckpointError ''reducer_version must be a non-empty string'')
     else
      (let runtime = (cq_format q = RUNTIME_CHECKPOINT_FORMAT) in
       if runtime \<and> (case cq_frame q of None \<Rightarrow> True | Some i \<Rightarrow> i \<le> 0)
       then Inl (RawCheckpointError ''runtime checkpoint requires a positive source_frame_id'')
       else if runtime \<and> \<not> provenance_ok q d
       then Inl (RawCheckpointError ''runtime checkpoint source heat/frame provenance is invalid'')
       else
        (let document = canonical_doc (cq_state q); hash = sha document in
         case existing_checkpoint q (ib_checkpoints d) of
           Some c \<Rightarrow>
             if ck_state_hash c \<noteq> hash then Inl (RawCheckpointError ''Checkpoint conflicts with existing state at the same source anchor'')
             else Inr (d, False)
         | None \<Rightarrow> Inr (d\<lparr> ib_checkpoints := ib_checkpoints d @
             [\<lparr> ck_id = next_id (map ck_id (ib_checkpoints d)), ck_heat = cq_heat q, ck_frame = cq_frame q,
                ck_source_key = cq_source_key q, ck_observed_at_us = cq_observed_at_us q, ck_state_hash = hash,
                ck_payload = document, ck_format = cq_format q, ck_format_version = cq_format_version q,
                ck_reducer_version = cq_reducer_version q \<rparr>] \<rparr>, True))))"

section \<open>Runs\<close>

record ingest_connection =
  cn_id :: string
  cn_run :: string
  cn_ordinal :: int

record stored_frame =
  sf_id :: int
  sf_connection :: string
  sf_sequence :: int
  sf_received_at_us :: int
  sf_source_key :: string

record raw_store =
  st_session :: string
  st_run :: "string option"
  st_recovered_gap :: "int option"

definition session_lifecycle :: "string \<Rightarrow> ingest_db \<Rightarrow> lifecycle option" where
  "session_lifecycle sid d = map_option is_lifecycle (find (\<lambda>s. is_id s = sid) (ib_sessions d))"

definition is_session_active :: "raw_store \<Rightarrow> ingest_db \<Rightarrow> bool" where
  "is_session_active s d = (session_lifecycle (st_session s) d = Some Active)"

definition open_runs :: "string \<Rightarrow> ingest_db \<Rightarrow> run_row list" where
  "open_runs sid d = filter (\<lambda>r. ru_session r = sid \<and> ru_stopped_at_us r = None) (ib_runs d)"

text \<open>The open runs with their open connections, \<open>None\<close> where a run has none (LEFT JOIN); the latest of them.\<close>

definition orphan_run :: "string \<Rightarrow> ingest_db \<Rightarrow> (run_row \<times> connection_row option) option" where
  "orphan_run sid d =
    (let joined = concat (map (\<lambda>r.
           let upstreams = filter (\<lambda>c. ic_run c = ru_id r \<and> ic_disconnected_at_us c = None) (ib_connections d)
           in if upstreams = [] then [(r, None)] else map (\<lambda>c. (r, Some c)) upstreams) (open_runs sid d));
         ordered = sort_key (\<lambda>(r, c). (- ru_started_at_us r, case c of None \<Rightarrow> (1, 0) | Some x \<Rightarrow> (0 :: int, - ic_ordinal x))) joined
     in case ordered of [] \<Rightarrow> None | x # xs \<Rightarrow> Some x)"

definition last_frame_at :: "string \<Rightarrow> ingest_db \<Rightarrow> int option" where
  "last_frame_at connection d =
    (let times = map fr_received_at_us (filter (\<lambda>f. fr_connection f = connection) (ib_frames d))
     in if times = [] then None else Some (Max (set times)))"

text \<open>\<open>a or b or c\<close> on optional integers: zero counts as missing.\<close>

definition or_else :: "int option \<Rightarrow> int \<Rightarrow> int" where
  "or_else v w = (case v of None \<Rightarrow> w | Some i \<Rightarrow> if i = 0 then w else i)"

definition orphan_gap_start :: "run_row \<times> connection_row option \<Rightarrow> ingest_db \<Rightarrow> int" where
  "orphan_gap_start orphan d =
    (case orphan of (run, upstream) \<Rightarrow>
       or_else (Option.bind upstream (\<lambda>c. last_frame_at (ic_id c) d))
         (or_else (map_option ic_connected_at_us upstream) (ru_started_at_us run)))"

text \<open>The open gap of a session that started last.\<close>

definition open_gap :: "string \<Rightarrow> ingest_db \<Rightarrow> gap_row option" where
  "open_gap sid d =
    (case sort_key (\<lambda>g. (- gp_started_at_us g, - gp_id g)) (filter (\<lambda>g. gp_session g = sid \<and> gp_ended_at_us g = None) (ib_gaps d)) of
       [] \<Rightarrow> None | g # gs \<Rightarrow> Some g)"

definition insert_gap :: "string \<Rightarrow> string option \<Rightarrow> int \<Rightarrow> int option \<Rightarrow> string \<Rightarrow> ingest_db \<Rightarrow> ingest_db \<times> int" where
  "insert_gap sid connection started ended reason d =
    (let i = next_id (map gp_id (ib_gaps d))
     in (d\<lparr> ib_gaps := ib_gaps d @ [\<lparr> gp_id = i, gp_session = sid, gp_connection = connection, gp_started_at_us = started,
           gp_ended_at_us = ended, gp_reason = reason \<rparr>] \<rparr>, i))"

definition RAW_REDUCER_VERSION :: string where "RAW_REDUCER_VERSION = ''timeservice-signalr-normalizer-v1''"

text \<open>Closing the rows a dead worker left open; the gap it leaves behind.\<close>

definition close_orphans :: "string \<Rightarrow> int \<Rightarrow> ingest_db \<Rightarrow> ingest_db" where
  "close_orphans sid now d =
    (let runs = map ru_id (open_runs sid d)
     in d\<lparr> ib_connections := update_where (\<lambda>c. ic_run c \<in> set runs \<and> ic_disconnected_at_us c = None)
             (\<lambda>c. c\<lparr> ic_disconnected_at_us := Some now, ic_disconnect_reason := coalesce (ic_disconnect_reason c) ''worker_restart'' \<rparr>)
             (ib_connections d),
           ib_runs := update_where (\<lambda>r. ru_session r = sid \<and> ru_stopped_at_us r = None)
             (\<lambda>r. r\<lparr> ru_stopped_at_us := Some now, ru_stop_reason := coalesce (ru_stop_reason r) ''worker_restart_recovered'' \<rparr>)
             (ib_runs d) \<rparr>)"

definition recover_gap :: "string \<Rightarrow> int \<Rightarrow> ingest_db \<Rightarrow> ingest_db \<times> int option" where
  "recover_gap sid now d =
    (let existing = open_gap sid d in
     case orphan_run sid d of
       Some orphan \<Rightarrow>
         (case existing of
            Some g \<Rightarrow> (close_orphans sid now d, Some (gp_id g))
          | None \<Rightarrow> apsnd Some (insert_gap sid (map_option ic_id (snd orphan)) (min now (orphan_gap_start orphan d)) None ''worker_restart''
              (close_orphans sid now d)))
     | None \<Rightarrow> (d, map_option gp_id existing))"

definition start_run :: "string \<Rightarrow> int \<Rightarrow> string \<Rightarrow> raw_store \<Rightarrow> ingest_db \<Rightarrow> ingest_error + ingest_db \<times> raw_store" where
  "start_run version now run_id s = raw_transaction (\<lambda>d.
    (case session_lifecycle (st_session s) d of
       None \<Rightarrow> Inl (RawStoreError (''Analysis session does not exist: '' @ st_session s))
     | Some l \<Rightarrow>
        if l \<noteq> Active then Inl (RawStoreError (''Cannot start timing ingest for a '' @ lifecycle_text l @ '' analysis session''))
        else
         (let (d', gap) = recover_gap (st_session s) now d
          in Inr (d'\<lparr> ib_runs := ib_runs d' @ [\<lparr> ru_id = run_id, ru_session = st_session s, ru_reducer_version = version,
                ru_started_at_us = now, ru_stopped_at_us = None, ru_stop_reason = None \<rparr>] \<rparr>,
              s\<lparr> st_recovered_gap := gap, st_run := Some run_id \<rparr>))))"

definition finish_run :: "string \<Rightarrow> int \<Rightarrow> raw_store \<Rightarrow> ingest_db \<Rightarrow> ingest_error + ingest_db" where
  "finish_run reason now s d =
    (case st_run s of
       None \<Rightarrow> Inr d
     | Some run_id \<Rightarrow> map_sum id fst (raw_transaction (\<lambda>d. Inr (d\<lparr> ib_runs := update_where (\<lambda>r. ru_id r = run_id)
         (\<lambda>r. r\<lparr> ru_stopped_at_us := coalesce (ru_stopped_at_us r) now, ru_stop_reason := coalesce (ru_stop_reason r) (take 1000 reason) \<rparr>)
         (ib_runs d) \<rparr>, ())) d))"

section \<open>Connections and gaps\<close>

record bootstrap =
  bt_source_url :: string
  bt_timekeeper_id :: string
  bt_display_marker :: "string option"

definition open_connection :: "string \<Rightarrow> int \<Rightarrow> bootstrap \<Rightarrow> raw_store \<Rightarrow> ingest_db \<Rightarrow> ingest_error + ingest_db \<times> ingest_connection" where
  "open_connection connection_id now b s d =
    (case st_run s of
       None \<Rightarrow> Inl (RawStoreError ''start_run must be called before opening an upstream connection'')
     | Some run_id \<Rightarrow> raw_transaction (\<lambda>d.
         let ordinals = map ic_ordinal (filter (\<lambda>c. ic_run c = run_id) (ib_connections d)); ordinal = (if ordinals = [] then 0 else Max (set ordinals)) + 1
         in Inr (d\<lparr> ib_connections := ib_connections d @ [\<lparr> ic_id = connection_id, ic_run = run_id, ic_ordinal = ordinal,
               ic_timekeeper_id = bt_timekeeper_id b, ic_display_marker = bt_display_marker b, ic_connected_at_us = now,
               ic_disconnected_at_us = None, ic_disconnect_reason = None \<rparr>] \<rparr>,
             \<lparr> cn_id = connection_id, cn_run = run_id, cn_ordinal = ordinal \<rparr>)) d)"

definition close_connection :: "ingest_connection \<Rightarrow> string \<Rightarrow> int \<Rightarrow> ingest_db \<Rightarrow> ingest_error + ingest_db" where
  "close_connection c reason now d = map_sum id fst (raw_transaction (\<lambda>d. Inr (d\<lparr> ib_connections :=
     update_where (\<lambda>r. ic_id r = cn_id c \<and> ic_run r = cn_run c)
       (\<lambda>r. r\<lparr> ic_disconnected_at_us := coalesce (ic_disconnected_at_us r) now,
               ic_disconnect_reason := coalesce (ic_disconnect_reason r) (take 1000 reason) \<rparr>) (ib_connections d) \<rparr>, ())) d)"

definition record_gap :: "string option \<Rightarrow> string \<Rightarrow> int \<Rightarrow> int option \<Rightarrow> raw_store \<Rightarrow> ingest_db \<Rightarrow> ingest_error + ingest_db \<times> int" where
  "record_gap connection reason started ended s =
    raw_transaction (\<lambda>d. Inr (insert_gap (st_session s) connection started ended (take 1000 reason) d))"

definition close_gap :: "int \<Rightarrow> int \<Rightarrow> raw_store \<Rightarrow> ingest_db \<Rightarrow> ingest_error + ingest_db" where
  "close_gap gap ended s d = map_sum id fst (raw_transaction (\<lambda>d. Inr (d\<lparr> ib_gaps :=
     update_where (\<lambda>g. gp_id g = gap \<and> gp_session g = st_session s \<and> gp_ended_at_us g = None)
       (\<lambda>g. g\<lparr> gp_ended_at_us := Some ended \<rparr>) (ib_gaps d) \<rparr>, ())) d)"

section \<open>Frames\<close>

definition persist_raw_frame ::
    "(string \<Rightarrow> string) \<Rightarrow> ingest_connection \<Rightarrow> int \<Rightarrow> string \<Rightarrow> int \<Rightarrow> int \<Rightarrow> raw_store \<Rightarrow> ingest_db
      \<Rightarrow> ingest_error + ingest_db \<times> stored_frame" where
  "persist_raw_frame sha c sequence raw_text received monotonic s d =
    (if sequence < 1 then Inl (RawStoreError ''Frame sequence must be a positive integer'')
     else raw_transaction (\<lambda>d.
       if list_ex (\<lambda>f. fr_connection f = cn_id c \<and> fr_sequence f = sequence) (ib_frames d)
       then Inl (UniqueViolation ''feed_frames.ingest_connection_id, feed_frames.frame_sequence'')
       else
        (let i = next_id (map fr_id (ib_frames d))
         in Inr (d\<lparr> ib_frames := ib_frames d @ [\<lparr> fr_id = i, fr_session = st_session s, fr_connection = cn_id c, fr_sequence = sequence,
               fr_received_at_us = received, fr_monotonic_ns = monotonic, fr_upstream_cursor = JNull, fr_groups_token = JNull,
               fr_raw = raw_text, fr_raw_sha256 = sha raw_text, fr_decode_state = RawPending, fr_decode_error = None,
               fr_processed_at_us = None \<rparr>],
             ib_sources := map (\<lambda>(i, seen). if \<exists>x \<in> set (ib_sessions d). is_id x = st_session s \<and> is_source x = i then (i, Some received) else (i, seen))
               (ib_sources d) \<rparr>,
             \<lparr> sf_id = i, sf_connection = cn_id c, sf_sequence = sequence, sf_received_at_us = received,
               sf_source_key = frame_source_key (cn_id c) sequence \<rparr>))) d)"

definition find_frame :: "raw_store \<Rightarrow> stored_frame \<Rightarrow> ingest_db \<Rightarrow> frame_row option" where
  "find_frame s f d = find (\<lambda>r. fr_id r = sf_id f \<and> fr_session r = st_session s \<and> fr_connection r = sf_connection f \<and>
     fr_sequence r = sf_sequence f) (ib_frames d)"

definition stored_messages :: "int \<Rightarrow> ingest_db \<Rightarrow> signalr_message list" where
  "stored_messages i d = map (\<lambda>m. \<lparr> sg_handle = mg_handle m, sg_args = (case mg_args m of JList xs \<Rightarrow> xs | _ \<Rightarrow> []),
     sg_compressed = mg_compressed m \<rparr>) (sort_key mg_ordinal (filter (\<lambda>m. mg_frame m = i) (ib_messages d)))"

text \<open>A value \<open>sqlite3\<close> can bind: no list, no object, no integer beyond 64 bits.\<close>

definition bindable :: "json \<Rightarrow> bool" where
  "bindable v = (case v of JList _ \<Rightarrow> False | JObj _ \<Rightarrow> False
     | JNum (PyInt i) \<Rightarrow> - (2 ^ 63) \<le> i \<and> i < 2 ^ 63 | _ \<Rightarrow> True)"

definition message_rows :: "int \<Rightarrow> signalr_message list \<Rightarrow> message_row list" where
  "message_rows i messages = map (\<lambda>(k, m). \<lparr> mg_frame = i, mg_ordinal = k, mg_handle = sg_handle m,
     mg_args = canonical_doc (JList (sg_args m)), mg_compressed = sg_compressed m \<rparr>) (enumerate 0 messages)"

text \<open>The second transaction of \<open>decode_frame\<close>, which reads the state again under the writer lock.\<close>

definition store_decoded ::
    "int \<Rightarrow> (string \<times> json) list \<Rightarrow> signalr_message list \<Rightarrow> ingest_db \<Rightarrow> ingest_error + ingest_db \<times> signalr_message list" where
  "store_decoded i envelope messages = raw_transaction (\<lambda>d.
    (case frame_by_id i (ib_frames d) of
       None \<Rightarrow> Inl (RawStoreError ''Raw frame disappeared during decode'')
     | Some r \<Rightarrow>
        (case fr_decode_state r of
           RawDecoded \<Rightarrow> Inr (d, stored_messages i d)
         | RawFailed \<Rightarrow> Inl (RawStoreError ''Unsupported frame decode state: failed'')
         | RawPending \<Rightarrow>
             if \<not> (bindable (jget ''C'' envelope) \<and> bindable (jget ''G'' envelope)) then Inl BindError
             else Inr (d\<lparr> ib_frames := update_where (\<lambda>f. fr_id f = i)
                 (\<lambda>f. f\<lparr> fr_upstream_cursor := jget ''C'' envelope, fr_groups_token := jget ''G'' envelope,
                         fr_decode_state := RawDecoded, fr_decode_error := None \<rparr>) (ib_frames d),
                 ib_messages := ib_messages d @ message_rows i messages \<rparr>, messages))))"

definition decode_frame ::
    "(string \<Rightarrow> json option) \<Rightarrow> (string \<Rightarrow> decode_error + string option) \<Rightarrow> int \<Rightarrow> raw_store \<Rightarrow> stored_frame \<Rightarrow> ingest_db
      \<Rightarrow> ingest_error + ingest_db \<times> signalr_message list" where
  "decode_frame loads decompress now s f d =
    (case find_frame s f d of
       None \<Rightarrow> Inl (RawStoreError (''Raw frame not found: '' @ sf_source_key f))
     | Some r \<Rightarrow>
        (case fr_decode_state r of
           RawFailed \<Rightarrow> Inr (d, [])
         | RawDecoded \<Rightarrow> Inr (d, stored_messages (sf_id f) d)
         | RawPending \<Rightarrow>
            (case decode_envelope loads decompress (fr_raw r) of
               Inl e \<Rightarrow> raw_transaction (\<lambda>d. Inr (d\<lparr> ib_frames := update_where (\<lambda>x. fr_id x = sf_id f \<and> fr_decode_state x = RawPending)
                 (\<lambda>x. x\<lparr> fr_decode_state := RawFailed, fr_decode_error := Some (safe_error e), fr_processed_at_us := Some now \<rparr>) (ib_frames d) \<rparr>, [])) d
             | Inr (envelope, messages) \<Rightarrow> store_decoded (sf_id f) envelope messages d)))"

record frame_checkpoint =
  fc_heat :: int
  fc_frame :: int
  fc_source_key :: string
  fc_observed_at_us :: int
  fc_reducer_version :: string
  fc_state :: json

definition validate_checkpoint :: "stored_frame \<Rightarrow> frame_checkpoint \<Rightarrow> ingest_error option" where
  "validate_checkpoint f c =
    (if fc_heat c \<le> 0 then Some (RawStoreError ''checkpoint source_heat_id must be a positive integer'')
     else if fc_frame c \<noteq> sf_id f then Some (RawStoreError ''checkpoint source_frame_id must match the processed frame'')
     else if fc_source_key c \<noteq> sf_source_key f then Some (RawStoreError ''checkpoint source_key must match the processed frame'')
     else if fc_observed_at_us c \<noteq> sf_received_at_us f then Some (RawStoreError ''checkpoint observed_at_us must match the processed frame'')
     else if fc_reducer_version c = [] then Some (RawStoreError ''checkpoint reducer_version must be a non-empty string'')
     else None)"

definition runtime_request :: "frame_checkpoint \<Rightarrow> checkpoint_request" where
  "runtime_request c = \<lparr> cq_heat = fc_heat c, cq_frame = Some (fc_frame c), cq_source_key = fc_source_key c,
     cq_observed_at_us = fc_observed_at_us c, cq_state = fc_state c, cq_format = RUNTIME_CHECKPOINT_FORMAT,
     cq_format_version = RUNTIME_CHECKPOINT_FORMAT_VERSION, cq_reducer_version = fc_reducer_version c \<rparr>"

definition anchor_checkpoint :: "(json \<Rightarrow> string) \<Rightarrow> stored_frame \<Rightarrow> frame_checkpoint option \<Rightarrow> ingest_db \<Rightarrow> ingest_error + ingest_db" where
  "anchor_checkpoint sha f checkpoint d =
    (case checkpoint of
       None \<Rightarrow> Inr d
     | Some c \<Rightarrow>
        (case validate_checkpoint f c of
           Some e \<Rightarrow> Inl e
         | None \<Rightarrow> map_sum id fst (save_checkpoint sha (runtime_request c) d)))"

definition mark_processed ::
    "(json \<Rightarrow> string) \<Rightarrow> int \<Rightarrow> frame_checkpoint option \<Rightarrow> raw_store \<Rightarrow> stored_frame \<Rightarrow> ingest_db \<Rightarrow> ingest_error + ingest_db" where
  "mark_processed sha now checkpoint s f d = map_sum id fst (raw_transaction (\<lambda>d.
    (case find_frame s f d of
       None \<Rightarrow> Inl (RawStoreError (''Raw frame not found while marking processed: '' @ sf_source_key f))
     | Some r \<Rightarrow>
        if fr_decode_state r \<noteq> RawDecoded then Inl (RawStoreError (''Only decoded frames can be marked processed: '' @ sf_source_key f))
        else if fr_processed_at_us r \<noteq> None then Inr (d, ())
        else
         (case anchor_checkpoint sha f checkpoint d of
            Inl e \<Rightarrow> Inl e
          | Inr d' \<Rightarrow> Inr (d'\<lparr> ib_frames := update_where (\<lambda>x. fr_id x = sf_id f \<and> fr_decode_state x = RawDecoded \<and> fr_processed_at_us x = None)
              (\<lambda>x. x\<lparr> fr_processed_at_us := Some now \<rparr>) (ib_frames d') \<rparr>, ())))) d)"

definition stored_frame_of :: "frame_row \<Rightarrow> stored_frame" where
  "stored_frame_of r = \<lparr> sf_id = fr_id r, sf_connection = fr_connection r, sf_sequence = fr_sequence r,
     sf_received_at_us = fr_received_at_us r, sf_source_key = frame_source_key (fr_connection r) (fr_sequence r) \<rparr>"

definition pending_decoded_frames :: "raw_store \<Rightarrow> ingest_db \<Rightarrow> stored_frame list" where
  "pending_decoded_frames s d = map stored_frame_of (sort_key fr_id
     (filter (\<lambda>r. fr_session r = st_session s \<and> fr_decode_state r = RawDecoded \<and> fr_processed_at_us r = None) (ib_frames d)))"

section \<open>Replay\<close>

lemma update_where_Nil [simp]: "update_where P g [] = []"
  by (simp add: update_where_def)

lemma update_where_Cons [simp]: "update_where P g (x # xs) = (if P x then g x else x) # update_where P g xs"
  by (simp add: update_where_def)

lemma map_update_where [simp]: "(\<And>x. h (g x) = h x) \<Longrightarrow> map h (update_where P g xs) = map h xs"
  by (simp add: update_where_def)

lemma set_update_where: "x \<in> set (update_where P g xs) \<longleftrightarrow> (\<exists>y \<in> set xs. x = (if P y then g y else y))"
  by (auto simp: update_where_def)

lemma find_update_where:
  "(\<And>x. Q (g x) = Q x) \<Longrightarrow> find Q (update_where P g xs) = map_option (\<lambda>x. if P x then g x else x) (find Q xs)"
  by (induction xs) auto

lemma sort_key_sorted_map: "(\<And>x. f (h x) = f x) \<Longrightarrow> sort_key f (map h (sort_key f xs)) = map h (sort_key f xs)"
  by (rule sort_key_id_if_sorted) (simp add: comp_def)

lemma canonical_doc_idem [simp]: "canonical_doc (canonical_doc v) = canonical_doc v"
proof (induction v rule: canonical_doc.induct)
  case (2 kvs)
  let ?h = "\<lambda>kv :: string \<times> json. (fst kv, canonical_doc (snd kv))"
  have "map ?h (sort_key fst (map ?h kvs)) = sort_key fst (map ?h kvs)"
    using 2 by (intro map_idI) auto
  then show ?case by (simp add: sort_key_id_if_sorted)
qed (simp_all add: comp_def cong: map_cong)

definition replayed :: "signalr_message \<Rightarrow> signalr_message" where
  "replayed m = m\<lparr> sg_args := map canonical_doc (sg_args m) \<rparr>"

lemma replayed_idem [simp]: "replayed (replayed m) = replayed m"
  by (simp add: replayed_def comp_def)

lemma message_rows_sorted: "sort_key mg_ordinal (message_rows i messages) = message_rows i messages"
proof -
  have "map mg_ordinal (message_rows i messages) = [0..<length messages]"
    by (simp add: message_rows_def comp_def case_prod_beta enumerate_eq_zip)
  then show ?thesis by (intro sort_key_id_if_sorted) simp
qed

lemma message_rows_frame: "m \<in> set (message_rows i messages) \<Longrightarrow> mg_frame m = i"
  by (auto simp: message_rows_def)

lemma filter_message_rows: "filter (\<lambda>m. mg_frame m = j) (message_rows i messages) = (if j = i then message_rows i messages else [])"
  using message_rows_frame by (auto simp: filter_id_conv filter_empty_conv)

lemma stored_message_rows:
  "filter (\<lambda>m. mg_frame m = i) (ib_messages d) = message_rows i messages \<Longrightarrow> stored_messages i d = map replayed messages"
proof -
  assume r: "filter (\<lambda>m. mg_frame m = i) (ib_messages d) = message_rows i messages"
  show ?thesis unfolding stored_messages_def r message_rows_sorted
    by (rule nth_equalityI) (auto simp: message_rows_def replayed_def nth_enumerate_eq)
qed

section \<open>Commands of the store\<close>

text \<open>The calls of the worker and the operator's stop, over the same tables.\<close>

datatype raw_command =
    Start_Run string int string raw_store
  | Finish_Run string int raw_store
  | Open_Connection string int bootstrap raw_store
  | Close_Connection ingest_connection string int
  | Record_Gap "string option" string int "int option" raw_store
  | Close_Gap int int raw_store
  | Persist ingest_connection int string int int raw_store
  | Decode int raw_store stored_frame
  | Mark int "frame_checkpoint option" raw_store stored_frame
  | Set_Sessions "ingest_session list"
  | Add_Heat int string

definition kept :: "ingest_db \<Rightarrow> ingest_error + ingest_db \<Rightarrow> ingest_db" where
  "kept d r = (case r of Inl e \<Rightarrow> d | Inr d' \<Rightarrow> d')"

fun raw_step ::
    "(string \<Rightarrow> json option) \<Rightarrow> (string \<Rightarrow> decode_error + string option) \<Rightarrow> (string \<Rightarrow> string) \<Rightarrow> (json \<Rightarrow> string)
      \<Rightarrow> ingest_db \<Rightarrow> raw_command \<Rightarrow> ingest_db" where
  "raw_step loads decompress sha sha' d (Start_Run version now run_id s) = kept d (map_sum id fst (start_run version now run_id s d))"
| "raw_step loads decompress sha sha' d (Finish_Run reason now s) = kept d (finish_run reason now s d)"
| "raw_step loads decompress sha sha' d (Open_Connection i now b s) = kept d (map_sum id fst (open_connection i now b s d))"
| "raw_step loads decompress sha sha' d (Close_Connection c reason now) = kept d (close_connection c reason now d)"
| "raw_step loads decompress sha sha' d (Record_Gap c reason started ended s) = kept d (map_sum id fst (record_gap c reason started ended s d))"
| "raw_step loads decompress sha sha' d (Close_Gap g ended s) = kept d (close_gap g ended s d)"
| "raw_step loads decompress sha sha' d (Persist c n raw received monotonic s) =
    kept d (map_sum id fst (persist_raw_frame sha c n raw received monotonic s d))"
| "raw_step loads decompress sha sha' d (Decode now s f) = kept d (map_sum id fst (decode_frame loads decompress now s f d))"
| "raw_step loads decompress sha sha' d (Mark now c s f) = kept d (mark_processed sha' now c s f d)"
| "raw_step loads decompress sha sha' d (Set_Sessions rows) = d\<lparr> ib_sessions := rows \<rparr>"
| "raw_step loads decompress sha sha' d (Add_Heat h sid) =
    (if h \<in> fst ` set (ib_heats d) then d else d\<lparr> ib_heats := ib_heats d @ [(h, sid)] \<rparr>)"

section \<open>What a command does to the evidence\<close>

lemma map_sum_id_Inr: "map_sum id g x = Inr y \<longleftrightarrow> (\<exists>z. x = Inr z \<and> g z = y)"
  by (cases x) auto

lemma raw_transaction_Inr: "raw_transaction body d = Inr x \<Longrightarrow> body d = Inr x"
  by (simp add: raw_transaction_def split: if_splits)

abbreviation evidence_tables :: "ingest_db \<Rightarrow> frame_row list \<times> message_row list \<times> checkpoint_row list" where
  "evidence_tables d \<equiv> (ib_frames d, ib_messages d, ib_checkpoints d)"

lemma insert_gap_tables [simp]:
  "ib_frames (fst (insert_gap sid c started ended reason d)) = ib_frames d"
  "ib_messages (fst (insert_gap sid c started ended reason d)) = ib_messages d"
  "ib_checkpoints (fst (insert_gap sid c started ended reason d)) = ib_checkpoints d"
  "ib_heats (fst (insert_gap sid c started ended reason d)) = ib_heats d"
  by (simp_all add: insert_gap_def Let_def)

lemma recover_gap_tables [simp]:
  "ib_frames (fst (recover_gap sid now d)) = ib_frames d" "ib_messages (fst (recover_gap sid now d)) = ib_messages d"
  "ib_checkpoints (fst (recover_gap sid now d)) = ib_checkpoints d" "ib_heats (fst (recover_gap sid now d)) = ib_heats d"
  by (simp_all add: recover_gap_def close_orphans_def Let_def split: option.splits)

lemma start_run_tables: "start_run version now run_id s d = Inr (d', s') \<Longrightarrow>
    evidence_tables d' = evidence_tables d \<and> ib_heats d' = ib_heats d"
  by (auto simp: start_run_def case_prod_beta dest!: raw_transaction_Inr split: option.splits if_splits)

lemma other_tables:
  "finish_run reason now s d = Inr d' \<Longrightarrow> evidence_tables d' = evidence_tables d \<and> ib_heats d' = ib_heats d"
  "open_connection i now b s d = Inr (d', c) \<Longrightarrow> evidence_tables d' = evidence_tables d \<and> ib_heats d' = ib_heats d"
  "close_connection c0 reason now d = Inr d' \<Longrightarrow> evidence_tables d' = evidence_tables d \<and> ib_heats d' = ib_heats d"
  "record_gap c1 reason started ended s d = Inr (d', g) \<Longrightarrow> evidence_tables d' = evidence_tables d \<and> ib_heats d' = ib_heats d"
  "close_gap g ended' s d = Inr d' \<Longrightarrow> evidence_tables d' = evidence_tables d \<and> ib_heats d' = ib_heats d"
  by (auto simp: finish_run_def open_connection_def close_connection_def record_gap_def close_gap_def raw_transaction_def insert_gap_def Let_def
      split: option.splits if_splits)

definition new_frame_row :: "(string \<Rightarrow> string) \<Rightarrow> ingest_connection \<Rightarrow> int \<Rightarrow> string \<Rightarrow> int \<Rightarrow> int \<Rightarrow> raw_store \<Rightarrow> ingest_db \<Rightarrow> frame_row" where
  "new_frame_row sha c n raw received monotonic s d = \<lparr> fr_id = next_id (map fr_id (ib_frames d)), fr_session = st_session s,
     fr_connection = cn_id c, fr_sequence = n, fr_received_at_us = received, fr_monotonic_ns = monotonic, fr_upstream_cursor = JNull,
     fr_groups_token = JNull, fr_raw = raw, fr_raw_sha256 = sha raw, fr_decode_state = RawPending, fr_decode_error = None,
     fr_processed_at_us = None \<rparr>"

lemma persist_tables:
  assumes "persist_raw_frame sha c n raw received monotonic s d = Inr (d', f)"
  shows "evidence_tables d' = (ib_frames d @ [new_frame_row sha c n raw received monotonic s d], ib_messages d, ib_checkpoints d)"
    "ib_heats d' = ib_heats d" "\<forall>x \<in> set (ib_frames d). (fr_connection x, fr_sequence x) \<noteq> (cn_id c, n)"
    "f = stored_frame_of (new_frame_row sha c n raw received monotonic s d)"
  using assms
  by (auto simp: persist_raw_frame_def new_frame_row_def stored_frame_of_def Let_def list_ex_iff dest!: raw_transaction_Inr split: if_splits)

abbreviation fail_frame :: "decode_error \<Rightarrow> int \<Rightarrow> frame_row \<Rightarrow> frame_row" where
  "fail_frame e now x \<equiv> x\<lparr> fr_decode_state := RawFailed, fr_decode_error := Some (safe_error e), fr_processed_at_us := Some now \<rparr>"

abbreviation decode_row :: "(string \<times> json) list \<Rightarrow> frame_row \<Rightarrow> frame_row" where
  "decode_row envelope x \<equiv> x\<lparr> fr_upstream_cursor := jget ''C'' envelope, fr_groups_token := jget ''G'' envelope,
     fr_decode_state := RawDecoded, fr_decode_error := None \<rparr>"

lemma find_frame_by_id: "find_frame s f d = Some r \<Longrightarrow> r \<in> set (ib_frames d) \<and> fr_id r = sf_id f \<and> fr_session r = st_session s \<and>
    fr_connection r = sf_connection f \<and> fr_sequence r = sf_sequence f"
  by (auto simp: find_frame_def find_Some_iff)

lemma frame_by_id_in: "frame_by_id i rows = Some r \<Longrightarrow> r \<in> set rows \<and> fr_id r = i"
  by (auto simp: frame_by_id_def find_Some_iff)

lemma decode_frame_cases:
  assumes "decode_frame loads decompress now s f d = Inr (d', messages)"
  obtains (failed_before) "d' = d" "messages = []" "\<exists>r. find_frame s f d = Some r \<and> fr_decode_state r = RawFailed"
  | (decoded_before) "d' = d" "messages = stored_messages (sf_id f) d" "\<exists>r \<in> set (ib_frames d). fr_id r = sf_id f \<and> fr_decode_state r = RawDecoded"
  | (failed) r e where "find_frame s f d = Some r" "fr_decode_state r = RawPending" "messages = []"
      "d' = d\<lparr> ib_frames := update_where (\<lambda>x. fr_id x = sf_id f \<and> fr_decode_state x = RawPending) (fail_frame e now) (ib_frames d) \<rparr>"
  | (decoded) r r' envelope where "find_frame s f d = Some r" "fr_decode_state r = RawPending"
      "frame_by_id (sf_id f) (ib_frames d) = Some r'" "fr_decode_state r' = RawPending"
      "d' = d\<lparr> ib_frames := update_where (\<lambda>x. fr_id x = sf_id f) (decode_row envelope) (ib_frames d),
               ib_messages := ib_messages d @ message_rows (sf_id f) messages \<rparr>"
proof -
  from assms obtain r where r: "find_frame s f d = Some r" by (auto simp: decode_frame_def split: option.splits)
  note row = find_frame_by_id[OF r]
  show thesis
  proof (cases "fr_decode_state r")
    case RawFailed
    then show thesis using assms r failed_before by (simp add: decode_frame_def)
  next
    case RawDecoded
    then show thesis using assms r decoded_before row by (auto simp: decode_frame_def)
  next
    case p: RawPending
    show thesis
    proof (cases "decode_envelope loads decompress (fr_raw r)")
      case (Inl e)
      then show thesis using assms r p failed by (auto simp: decode_frame_def dest!: raw_transaction_Inr)
    next
      case (Inr em)
      obtain envelope ms where em: "em = (envelope, ms)" by fastforce
      then have st: "store_decoded (sf_id f) envelope ms d = Inr (d', messages)" using assms r p Inr by (simp add: decode_frame_def)
      then obtain r' where r': "frame_by_id (sf_id f) (ib_frames d) = Some r'"
        by (auto simp: store_decoded_def dest!: raw_transaction_Inr split: option.splits)
      show thesis
      proof (cases "fr_decode_state r'")
        case RawPending
        then have "messages = ms" "d' = d\<lparr> ib_frames := update_where (\<lambda>x. fr_id x = sf_id f) (decode_row envelope) (ib_frames d),
               ib_messages := ib_messages d @ message_rows (sf_id f) ms \<rparr>"
          using st r' by (auto simp: store_decoded_def dest!: raw_transaction_Inr split: if_splits)
        then show thesis using decoded[OF r p r' RawPending] by simp
      next
        case RawDecoded
        then have "d' = d" "messages = stored_messages (sf_id f) d"
          using st r' by (auto simp: store_decoded_def dest!: raw_transaction_Inr)
        moreover have "\<exists>r \<in> set (ib_frames d). fr_id r = sf_id f \<and> fr_decode_state r = RawDecoded"
          using frame_by_id_in[OF r'] RawDecoded by blast
        ultimately show thesis by (rule decoded_before)
      next
        case RawFailed
        then show thesis using st r' by (auto simp: store_decoded_def dest!: raw_transaction_Inr)
      qed
    qed
  qed
qed


text \<open>The row a checkpoint request stores.\<close>

definition anchored :: "stored_frame \<Rightarrow> frame_row \<Rightarrow> ingest_db \<Rightarrow> checkpoint_row \<Rightarrow> bool" where
  "anchored f r d c \<longleftrightarrow> ck_format c = RUNTIME_CHECKPOINT_FORMAT \<and> ck_format_version c = RUNTIME_CHECKPOINT_FORMAT_VERSION \<and>
     ck_frame c = Some (fr_id r) \<and> map_of (ib_heats d) (ck_heat c) = Some (fr_session r) \<and>
     ck_source_key c = frame_source_key (fr_connection r) (fr_sequence r) \<and> ck_observed_at_us c = fr_received_at_us r"

lemma save_runtime_cases:
  assumes "save_checkpoint sha q d = Inr (d', w)" "cq_format q = RUNTIME_CHECKPOINT_FORMAT"
  obtains (same) "d' = d"
  | (inserted) i r c where "cq_frame q = Some i" "frame_by_id i (ib_frames d) = Some r" "d' = d\<lparr> ib_checkpoints := ib_checkpoints d @ [c] \<rparr>"
      "ck_heat c = cq_heat q" "ck_frame c = Some i" "ck_format c = RUNTIME_CHECKPOINT_FORMAT" "ck_format_version c = cq_format_version q"
      "map_of (ib_heats d) (cq_heat q) = Some (fr_session r)" "ck_source_key c = frame_source_key (fr_connection r) (fr_sequence r)"
      "ck_observed_at_us c = fr_received_at_us r" "existing_checkpoint q (ib_checkpoints d) = None"
proof (cases "existing_checkpoint q (ib_checkpoints d)")
  case None
  have ok: "provenance_ok q d" "\<exists>i. cq_frame q = Some i \<and> 0 < i"
    using assms by (auto simp: save_checkpoint_def Let_def split: if_splits option.splits)
  then obtain i r where i: "cq_frame q = Some i" "frame_by_id i (ib_frames d) = Some r"
    "map_of (ib_heats d) (cq_heat q) = Some (fr_session r)" "cq_source_key q = frame_source_key (fr_connection r) (fr_sequence r)"
    "cq_observed_at_us q = fr_received_at_us r"
    by (auto simp: provenance_ok_def split: option.splits)
  then show thesis using assms None
    by (intro inserted[OF i(1,2) _ _ _ _ _ i(3)]) (auto simp: save_checkpoint_def Let_def split: if_splits)
next
  case (Some c)
  then have "d' = d" using assms(1) by (auto simp: save_checkpoint_def Let_def split: if_splits)
  then show thesis by (rule same)
qed

lemma mark_processed_cases:
  assumes "mark_processed sha now c s f d = Inr d'"
  obtains (again) "d' = d"
  | (marked) r cs where "find_frame s f d = Some r" "fr_decode_state r = RawDecoded" "fr_processed_at_us r = None"
      "d' = d\<lparr> ib_frames := update_where (\<lambda>x. fr_id x = sf_id f \<and> fr_decode_state x = RawDecoded \<and> fr_processed_at_us x = None)
               (\<lambda>x. x\<lparr> fr_processed_at_us := Some now \<rparr>) (ib_frames d), ib_checkpoints := ib_checkpoints d @ cs \<rparr>"
      "cs = [] \<or> (\<exists>x r'. cs = [x] \<and> frame_by_id (sf_id f) (ib_frames d) = Some r' \<and> anchored f r' d x \<and>
         (\<forall>y \<in> set (ib_checkpoints d). \<not> (ck_format y = RUNTIME_CHECKPOINT_FORMAT \<and> ck_format_version y = RUNTIME_CHECKPOINT_FORMAT_VERSION \<and>
            ck_heat y = ck_heat x \<and> ck_frame y = ck_frame x)))"
proof -
  from assms obtain r where r: "find_frame s f d = Some r" "fr_decode_state r = RawDecoded"
    by (auto simp: mark_processed_def raw_transaction_def split: option.splits if_splits)
  show thesis
  proof (cases "fr_processed_at_us r")
    case (Some t)
    then show thesis using assms r again by (auto simp: mark_processed_def raw_transaction_def split: if_splits)
  next
    case None
    then obtain d1 where d1: "anchor_checkpoint sha f c d = Inr d1"
      "d' = d1\<lparr> ib_frames := update_where (\<lambda>x. fr_id x = sf_id f \<and> fr_decode_state x = RawDecoded \<and> fr_processed_at_us x = None)
               (\<lambda>x. x\<lparr> fr_processed_at_us := Some now \<rparr>) (ib_frames d1) \<rparr>"
      using assms r by (auto simp: mark_processed_def raw_transaction_def split: if_splits sum.splits)
    show thesis
    proof (cases c)
      case None
      then have "d1 = d" using d1 by (simp add: anchor_checkpoint_def)
      then show thesis using d1(2) \<open>fr_processed_at_us r = None\<close> by (intro marked[OF r _ _, of "[]"]) simp_all
    next
      case (Some k)
      then obtain w where v: "validate_checkpoint f k = None" and sv: "save_checkpoint sha (runtime_request k) d = Inr (d1, w)"
        using d1(1) by (auto simp: anchor_checkpoint_def map_sum_id_Inr split: option.splits)
      have req: "cq_format (runtime_request k) = RUNTIME_CHECKPOINT_FORMAT" "cq_frame (runtime_request k) = Some (sf_id f)"
        "cq_format_version (runtime_request k) = RUNTIME_CHECKPOINT_FORMAT_VERSION"
        using v by (auto simp: runtime_request_def validate_checkpoint_def split: if_splits)
      from sv req(1) show thesis
      proof (cases rule: save_runtime_cases)
        case same
        then show thesis using d1(2) \<open>fr_processed_at_us r = None\<close> by (intro marked[OF r _ _, of "[]"]) simp_all
      next
        case (inserted i r' x)
        then have i: "i = sf_id f" using req by simp
        have "anchored f r' d x"
          using inserted frame_by_id_in[OF inserted(2)] req by (simp add: anchored_def)
        moreover have "\<forall>y \<in> set (ib_checkpoints d). \<not> (ck_format y = RUNTIME_CHECKPOINT_FORMAT \<and> ck_format_version y = RUNTIME_CHECKPOINT_FORMAT_VERSION \<and>
            ck_heat y = ck_heat x \<and> ck_frame y = ck_frame x)"
          using inserted(11) inserted(4,5) i req by (auto simp: existing_checkpoint_def find_None_iff)
        ultimately show thesis
          using d1(2) inserted(2,3) i \<open>fr_processed_at_us r = None\<close> by (intro marked[OF r _ _, of "[x]"]) auto
      qed
    qed
  qed
qed

section \<open>The evidence of a database\<close>

lemma kept_cases:
  obtains (kept) "kept d r = d" | (new) d' where "r = Inr d'" "kept d r = d'"
  by (cases r) (auto simp: kept_def)

text \<open>What one command does to frames, messages and checkpoints.\<close>

lemma raw_step_cases:
  obtains (same) "evidence_tables (raw_step loads decompress sha sha' d cmd) = evidence_tables d"
  | (persisted) c n raw received monotonic s where
      "evidence_tables (raw_step loads decompress sha sha' d cmd) =
        (ib_frames d @ [new_frame_row sha c n raw received monotonic s d], ib_messages d, ib_checkpoints d)"
      "\<forall>x \<in> set (ib_frames d). (fr_connection x, fr_sequence x) \<noteq> (cn_id c, n)"
  | (failed) i e now where
      "evidence_tables (raw_step loads decompress sha sha' d cmd) =
        (update_where (\<lambda>x. fr_id x = i \<and> fr_decode_state x = RawPending) (fail_frame e now) (ib_frames d), ib_messages d, ib_checkpoints d)"
  | (decoded) i r envelope messages where "frame_by_id i (ib_frames d) = Some r" "fr_decode_state r = RawPending"
      "evidence_tables (raw_step loads decompress sha sha' d cmd) =
        (update_where (\<lambda>x. fr_id x = i) (decode_row envelope) (ib_frames d), ib_messages d @ message_rows i messages, ib_checkpoints d)"
  | (marked) f r now cs where "r \<in> set (ib_frames d)" "fr_id r = sf_id f" "fr_decode_state r = RawDecoded"
      "evidence_tables (raw_step loads decompress sha sha' d cmd) =
        (update_where (\<lambda>x. fr_id x = sf_id f \<and> fr_decode_state x = RawDecoded \<and> fr_processed_at_us x = None)
           (\<lambda>x. x\<lparr> fr_processed_at_us := Some now \<rparr>) (ib_frames d), ib_messages d, ib_checkpoints d @ cs)"
      "cs = [] \<or> (\<exists>x r'. cs = [x] \<and> frame_by_id (sf_id f) (ib_frames d) = Some r' \<and> anchored f r' d x \<and>
         (\<forall>y \<in> set (ib_checkpoints d). \<not> (ck_format y = RUNTIME_CHECKPOINT_FORMAT \<and> ck_format_version y = RUNTIME_CHECKPOINT_FORMAT_VERSION \<and>
            ck_heat y = ck_heat x \<and> ck_frame y = ck_frame x)))"
proof (cases cmd)
  case (Start_Run version now run_id s)
  then show thesis using start_run_tables
    by (cases rule: kept_cases[of d "map_sum id fst (start_run version now run_id s d)"])
      (auto simp: map_sum_id_Inr intro: same)
next
  case (Finish_Run reason now s)
  then show thesis using other_tables(1)
    by (cases rule: kept_cases[of d "finish_run reason now s d"]) (auto intro: same)
next
  case (Open_Connection i now b s)
  then show thesis using other_tables(2)
    by (cases rule: kept_cases[of d "map_sum id fst (open_connection i now b s d)"]) (auto simp: map_sum_id_Inr intro: same)
next
  case (Close_Connection c reason now)
  then show thesis using other_tables(3)
    by (cases rule: kept_cases[of d "close_connection c reason now d"]) (auto intro: same)
next
  case (Record_Gap c reason started ended s)
  then show thesis using other_tables(4)
    by (cases rule: kept_cases[of d "map_sum id fst (record_gap c reason started ended s d)"]) (auto simp: map_sum_id_Inr intro: same)
next
  case (Close_Gap g ended s)
  then show thesis using other_tables(5)
    by (cases rule: kept_cases[of d "close_gap g ended s d"]) (auto intro: same)
next
  case (Persist c n raw received monotonic s)
  show thesis
  proof (cases rule: kept_cases[of d "map_sum id fst (persist_raw_frame sha c n raw received monotonic s d)"])
    case kept
    then show thesis using Persist same by simp
  next
    case (new d')
    then obtain f where "persist_raw_frame sha c n raw received monotonic s d = Inr (d', f)" by (auto simp: map_sum_id_Inr)
    from persist_tables(1,3)[OF this] show thesis using new Persist by (intro persisted) auto
  qed
next
  case (Decode now s f)
  show thesis
  proof (cases rule: kept_cases[of d "map_sum id fst (decode_frame loads decompress now s f d)"])
    case kept
    then show thesis using Decode same by simp
  next
    case (new d')
    then obtain messages where "decode_frame loads decompress now s f d = Inr (d', messages)" by (auto simp: map_sum_id_Inr)
    then show thesis
    proof (cases rule: decode_frame_cases)
      case (failed r e)
      then show thesis using new Decode that(3)[where i = "sf_id f" and e = e and now = now] by simp
    next
      case (decoded r r' envelope)
      then show thesis using new Decode that(4)[where i = "sf_id f" and r = r' and envelope = envelope and messages = messages] by simp
    qed (use new Decode same in simp_all)
  qed
next
  case (Mark now c s f)
  show thesis
  proof (cases rule: kept_cases[of d "mark_processed sha' now c s f d"])
    case kept
    then show thesis using Mark same by simp
  next
    case (new d')
    from new(1) show thesis
    proof (cases rule: mark_processed_cases)
      case again
      then show thesis using new Mark same by simp
    next
      case (marked r cs)
      note row = find_frame_by_id[OF marked(1)]
      show thesis
        by (rule that(5)[where r = r and f = f and now = now and cs = cs]) (use row marked new Mark in \<open>simp_all\<close>)
    qed
  qed
qed (use same in auto)

text \<open>The life of one row: its evidence never changes, its state only leaves \<open>pending\<close>, a mark stays.\<close>

definition advances :: "frame_row \<Rightarrow> frame_row \<Rightarrow> bool" where
  "advances f f' \<longleftrightarrow> fr_id f' = fr_id f \<and> fr_session f' = fr_session f \<and> fr_connection f' = fr_connection f \<and>
     fr_sequence f' = fr_sequence f \<and> fr_received_at_us f' = fr_received_at_us f \<and> fr_monotonic_ns f' = fr_monotonic_ns f \<and>
     fr_raw f' = fr_raw f \<and> fr_raw_sha256 f' = fr_raw_sha256 f \<and>
     (fr_decode_state f \<noteq> RawPending \<longrightarrow> fr_decode_state f' = fr_decode_state f) \<and>
     (fr_processed_at_us f \<noteq> None \<longrightarrow> fr_decode_state f \<noteq> RawPending \<longrightarrow> fr_processed_at_us f' = fr_processed_at_us f)"

lemma advances_refl [simp]: "advances f f"
  by (simp add: advances_def)

lemma advances_trans: "advances f g \<Longrightarrow> advances g h \<Longrightarrow> advances f h"
  by (auto simp: advances_def)

definition evidence_kept :: "ingest_db \<Rightarrow> ingest_db \<Rightarrow> bool" where
  "evidence_kept d d' \<longleftrightarrow> (\<exists>new. list_all2 advances (ib_frames d) (take (length (ib_frames d)) (ib_frames d')) \<and>
     ib_frames d' = take (length (ib_frames d)) (ib_frames d') @ new)"

lemma evidence_kept_alt:
  "evidence_kept d d' \<longleftrightarrow> (\<exists>old new. ib_frames d' = old @ new \<and> list_all2 advances (ib_frames d) old)"
proof
  assume "\<exists>old new. ib_frames d' = old @ new \<and> list_all2 advances (ib_frames d) old"
  then obtain old new where o: "ib_frames d' = old @ new" "list_all2 advances (ib_frames d) old" by blast
  then have "take (length (ib_frames d)) (ib_frames d') = old" using list_all2_lengthD[OF o(2)] by simp
  then show "evidence_kept d d'" using o by (auto simp: evidence_kept_def)
qed (auto simp: evidence_kept_def)

lemma evidence_kept_refl [simp]: "evidence_kept d d"
  unfolding evidence_kept_alt by (intro exI[of _ "ib_frames d"] exI[of _ "[]"]) (simp add: list.rel_refl)

lemma evidence_kept_trans:
  assumes "evidence_kept d d1" "evidence_kept d1 d2"
  shows "evidence_kept d d2"
proof -
  obtain o1 n1 o2 n2 where 1: "ib_frames d1 = o1 @ n1" "list_all2 advances (ib_frames d) o1"
    and 2: "ib_frames d2 = o2 @ n2" "list_all2 advances (o1 @ n1) o2"
    using assms unfolding evidence_kept_alt by metis
  obtain a b where ab: "o2 = a @ b" "list_all2 advances o1 a" using 2(2) by (auto simp: list_all2_append1)
  have "list_all2 advances (ib_frames d) a" using list_all2_trans[OF _ 1(2) ab(2), of advances] advances_trans by blast
  then show ?thesis using 2(1) ab(1) unfolding evidence_kept_alt by auto
qed

lemma update_where_advances: "(\<And>x. x \<in> set xs \<Longrightarrow> P x \<Longrightarrow> advances x (g x)) \<Longrightarrow> list_all2 advances xs (update_where P g xs)"
  by (induction xs) auto

section \<open>Invariant of the tables\<close>

abbreviation runtime_row :: "checkpoint_row \<Rightarrow> bool" where
  "runtime_row c \<equiv> ck_format c = RUNTIME_CHECKPOINT_FORMAT \<and> ck_format_version c = RUNTIME_CHECKPOINT_FORMAT_VERSION"

definition checkpoint_anchored :: "ingest_db \<Rightarrow> checkpoint_row \<Rightarrow> bool" where
  "checkpoint_anchored d c \<longleftrightarrow> (\<exists>r \<in> set (ib_frames d). ck_frame c = Some (fr_id r) \<and> fr_decode_state r = RawDecoded \<and>
     fr_processed_at_us r \<noteq> None \<and> map_of (ib_heats d) (ck_heat c) = Some (fr_session r) \<and>
     ck_source_key c = frame_source_key (fr_connection r) (fr_sequence r) \<and> ck_observed_at_us c = fr_received_at_us r)"

definition raw_ok :: "ingest_db \<Rightarrow> bool" where
  "raw_ok d \<longleftrightarrow> sorted_wrt (<) (map fr_id (ib_frames d)) \<and> (\<forall>f \<in> set (ib_frames d). 0 < fr_id f) \<and>
     distinct (map (\<lambda>f. (fr_connection f, fr_sequence f)) (ib_frames d)) \<and>
     (\<forall>f \<in> set (ib_frames d). fr_processed_at_us f \<noteq> None \<longrightarrow> fr_decode_state f \<noteq> RawPending) \<and>
     (\<forall>m \<in> set (ib_messages d). \<exists>f \<in> set (ib_frames d). fr_id f = mg_frame m \<and> fr_decode_state f = RawDecoded) \<and>
     (\<forall>f \<in> set (ib_frames d). fr_decode_state f = RawDecoded \<longrightarrow>
        (\<exists>ms. filter (\<lambda>m. mg_frame m = fr_id f) (ib_messages d) = message_rows (fr_id f) ms)) \<and>
     (\<forall>c \<in> set (ib_checkpoints d). runtime_row c \<longrightarrow> checkpoint_anchored d c) \<and>
     distinct (map (\<lambda>c. (ck_heat c, ck_frame c)) (filter runtime_row (ib_checkpoints d)))"

definition fresh_ingest_db :: "ingest_db \<Rightarrow> bool" where
  "fresh_ingest_db d \<longleftrightarrow> ib_frames d = [] \<and> ib_messages d = [] \<and> ib_checkpoints d = []"

lemma fresh_raw_ok: "fresh_ingest_db d \<Longrightarrow> raw_ok d"
  by (simp add: fresh_ingest_db_def raw_ok_def)

lemma raw_ok_same_row: "raw_ok d \<Longrightarrow> f \<in> set (ib_frames d) \<Longrightarrow> g \<in> set (ib_frames d) \<Longrightarrow> fr_id f = fr_id g \<Longrightarrow> f = g"
proof -
  assume ok: "raw_ok d" and f: "f \<in> set (ib_frames d)" and g: "g \<in> set (ib_frames d)" and eq: "fr_id f = fr_id g"
  have "distinct (map fr_id (ib_frames d))" using ok unfolding raw_ok_def strict_sorted_iff by blast
  then have "inj_on fr_id (set (ib_frames d))" unfolding distinct_map by blast
  then show "f = g" using f g eq by (blast dest: inj_onD)
qed

lemma next_id_above: "i \<in> set ids \<Longrightarrow> i < next_id ids"
  using Max_ge[of "set ids" i] by (auto simp: next_id_def)

lemma next_id_pos: "\<forall>i \<in> set ids. 0 < i \<Longrightarrow> 0 < next_id ids"
proof (cases ids)
  case (Cons i more)
  assume "\<forall>i \<in> set ids. 0 < i"
  then have "0 < i" "i < next_id ids" using Cons next_id_above[of i ids] by auto
  then show ?thesis by simp
qed (simp add: next_id_def)

lemma heats_kept: "ib_heats (raw_step loads decompress sha sha' d cmd) = ib_heats d \<or>
    (\<exists>h sid. h \<notin> fst ` set (ib_heats d) \<and> ib_heats (raw_step loads decompress sha sha' d cmd) = ib_heats d @ [(h, sid)])"
proof -
  have k: "ib_heats (kept d r) = ib_heats d" if "\<And>d'. r = Inr d' \<Longrightarrow> ib_heats d' = ib_heats d" for r
    using that by (auto simp: kept_def split: sum.split)
  have dec: "ib_heats d' = ib_heats d" if "decode_frame loads decompress now s f d = Inr (d', ms)" for now s f d' ms
    using that by (cases rule: decode_frame_cases) simp_all
  have mk: "ib_heats d' = ib_heats d" if "mark_processed sha' now c s f d = Inr d'" for now c s f d'
    using that by (cases rule: mark_processed_cases) simp_all
  show ?thesis
    by (cases cmd) (auto simp: map_sum_id_Inr intro!: k dest: start_run_tables other_tables persist_tables(2) dec mk)
qed

lemma map_of_heats_kept:
  "map_of (ib_heats d) h = Some sid \<Longrightarrow> map_of (ib_heats (raw_step loads decompress sha sha' d cmd)) h = Some sid"
  using heats_kept[of loads decompress sha sha' d cmd] by (auto simp: map_add_Some_iff dest: map_of_SomeD)

lemma step_frames_advance:
  assumes "raw_ok d"
  shows "evidence_kept d (raw_step loads decompress sha sha' d cmd)"
proof (cases rule: raw_step_cases[of loads decompress sha sha' d cmd])
  case same
  then show ?thesis unfolding evidence_kept_alt by (intro exI[of _ "ib_frames d"] exI[of _ "[]"]) (simp add: list.rel_refl)
next
  case (persisted c n raw received monotonic s)
  then show ?thesis unfolding evidence_kept_alt
    by (intro exI[of _ "ib_frames d"] exI[of _ "[new_frame_row sha c n raw received monotonic s d]"]) (simp add: list.rel_refl)
next
  case (failed i e now)
  have "list_all2 advances (ib_frames d) (update_where (\<lambda>x. fr_id x = i \<and> fr_decode_state x = RawPending) (fail_frame e now) (ib_frames d))"
    by (rule update_where_advances) (simp add: advances_def)
  then show ?thesis using failed unfolding evidence_kept_alt by (intro exI[of _ "ib_frames (raw_step loads decompress sha sha' d cmd)"] exI[of _ "[]"]) simp
next
  case (decoded i r envelope messages)
  note ri = frame_by_id_in[OF decoded(1)]
  have "list_all2 advances (ib_frames d) (update_where (\<lambda>x. fr_id x = i) (decode_row envelope) (ib_frames d))"
  proof (rule update_where_advances)
    fix x assume "x \<in> set (ib_frames d)" "fr_id x = i"
    then have "x = r" using raw_ok_same_row[OF assms] ri by blast
    then show "advances x (decode_row envelope x)" using decoded(2) by (simp add: advances_def)
  qed
  then show ?thesis using decoded unfolding evidence_kept_alt by (intro exI[of _ "ib_frames (raw_step loads decompress sha sha' d cmd)"] exI[of _ "[]"]) simp
next
  case (marked f r now cs)
  have "list_all2 advances (ib_frames d) (update_where (\<lambda>x. fr_id x = sf_id f \<and> fr_decode_state x = RawDecoded \<and> fr_processed_at_us x = None)
           (\<lambda>x. x\<lparr> fr_processed_at_us := Some now \<rparr>) (ib_frames d))"
    by (rule update_where_advances) (simp add: advances_def)
  then show ?thesis using marked unfolding evidence_kept_alt by (intro exI[of _ "ib_frames (raw_step loads decompress sha sha' d cmd)"] exI[of _ "[]"]) simp
qed

lemma ball_update_where: "(\<forall>x \<in> set (update_where P g xs). Q x) \<longleftrightarrow> (\<forall>y \<in> set xs. Q (if P y then g y else y))"
  by (auto simp: update_where_def)

lemma bex_update_where: "(\<exists>x \<in> set (update_where P g xs). Q x) \<longleftrightarrow> (\<exists>y \<in> set xs. Q (if P y then g y else y))"
  by (auto simp: update_where_def)

lemma anchored_advances:
  assumes c: "checkpoint_anchored d c" and h: "\<And>h sid. map_of (ib_heats d) h = Some sid \<Longrightarrow> map_of (ib_heats d') h = Some sid"
    and f: "\<And>r. r \<in> set (ib_frames d) \<Longrightarrow> fr_decode_state r = RawDecoded \<Longrightarrow> fr_processed_at_us r \<noteq> None \<Longrightarrow> \<exists>r' \<in> set (ib_frames d'). advances r r'"
  shows "checkpoint_anchored d' c"
proof -
  from c obtain r where r: "r \<in> set (ib_frames d)" "ck_frame c = Some (fr_id r)" "fr_decode_state r = RawDecoded" "fr_processed_at_us r \<noteq> None"
    "map_of (ib_heats d) (ck_heat c) = Some (fr_session r)" "ck_source_key c = frame_source_key (fr_connection r) (fr_sequence r)"
    "ck_observed_at_us c = fr_received_at_us r" unfolding checkpoint_anchored_def by blast
  obtain r' where r': "r' \<in> set (ib_frames d')" "advances r r'" using f[OF r(1,3,4)] by blast
  show ?thesis unfolding checkpoint_anchored_def
    by (rule bexI[OF _ r'(1)]) (use r r'(2) h[OF r(5)] in \<open>auto simp: advances_def\<close>)
qed

lemma evidence_kept_member:
  assumes "evidence_kept d d'" "r \<in> set (ib_frames d)"
  shows "\<exists>r' \<in> set (ib_frames d'). advances r r'"
proof -
  obtain old new where o: "ib_frames d' = old @ new" "list_all2 advances (ib_frames d) old" using assms(1) unfolding evidence_kept_alt by blast
  obtain i where i: "i < length (ib_frames d)" "ib_frames d ! i = r" using assms(2) by (auto simp: in_set_conv_nth)
  then have "advances r (old ! i)" "old ! i \<in> set old" using o(2) by (auto simp: list_all2_conv_all_nth)
  then show ?thesis using o(1) by auto
qed

lemma raw_ok_cong:
  assumes t: "evidence_tables d' = evidence_tables d"
    and h: "\<And>h sid. map_of (ib_heats d) h = Some sid \<Longrightarrow> map_of (ib_heats d') h = Some sid" and ok: "raw_ok d"
  shows "raw_ok d'"
proof -
  have e: "ib_frames d' = ib_frames d" "ib_messages d' = ib_messages d" "ib_checkpoints d' = ib_checkpoints d" using t by auto
  have c: "checkpoint_anchored d' c" if "checkpoint_anchored d c" for c
    by (rule anchored_advances[OF that h]) (use e advances_refl in \<open>auto intro!: bexI\<close>)
  show ?thesis using ok c unfolding raw_ok_def e by simp
qed

lemma filter_messages_other:
  "j \<noteq> i \<Longrightarrow> filter (\<lambda>m. mg_frame m = j) (xs @ message_rows i ms) = filter (\<lambda>m. mg_frame m = j) xs"
  by (simp add: filter_message_rows)

lemma raw_step_ok:
  assumes ok: "raw_ok d"
  shows "raw_ok (raw_step loads decompress sha sha' d cmd)"
proof -
  let ?d = "raw_step loads decompress sha sha' d cmd"
  note heats = map_of_heats_kept[of d _ _ loads decompress sha sha' cmd]
  note parts = ok[unfolded raw_ok_def]
  have kept: "checkpoint_anchored ?d c" if "checkpoint_anchored d c" for c
    using anchored_advances[OF that heats] evidence_kept_member[OF step_frames_advance[OF ok]] by blast
  show ?thesis
  proof (cases rule: raw_step_cases[of loads decompress sha sha' d cmd])
    case same
    show ?thesis by (rule raw_ok_cong[OF same heats ok])
  next
    case (persisted c n raw received monotonic s)
    let ?f = "new_frame_row sha c n raw received monotonic s d"
    have f: "fr_id ?f = next_id (map fr_id (ib_frames d))" "fr_decode_state ?f = RawPending" "fr_processed_at_us ?f = None"
      "(fr_connection ?f, fr_sequence ?f) = (cn_id c, n)" by (simp_all add: new_frame_row_def)
    have above: "fr_id x < fr_id ?f" if "x \<in> set (ib_frames d)" for x
      unfolding f(1) by (rule next_id_above) (use that in simp)
    have t: "ib_frames ?d = ib_frames d @ [?f]" "ib_messages ?d = ib_messages d" "ib_checkpoints ?d = ib_checkpoints d" using persisted(1) by auto
    have "sorted_wrt (<) (map fr_id (ib_frames d @ [?f]))" using parts above by (auto simp: sorted_wrt_append)
    moreover have "0 < fr_id ?f" unfolding f(1) by (rule next_id_pos) (use parts in auto)
    moreover have "distinct (map (\<lambda>f. (fr_connection f, fr_sequence f)) (ib_frames d @ [?f]))"
      using parts persisted(2) f(4) by auto
    ultimately show ?thesis using parts kept f unfolding raw_ok_def t by auto
  next
    case (failed i e now)
    let ?P = "\<lambda>x. fr_id x = i \<and> fr_decode_state x = RawPending"
    have t: "ib_frames ?d = update_where ?P (fail_frame e now) (ib_frames d)" "ib_messages ?d = ib_messages d" "ib_checkpoints ?d = ib_checkpoints d"
      using failed by auto
    have m: "map fr_id (ib_frames ?d) = map fr_id (ib_frames d)"
      "map (\<lambda>f. (fr_connection f, fr_sequence f)) (ib_frames ?d) = map (\<lambda>f. (fr_connection f, fr_sequence f)) (ib_frames d)"
      unfolding t by simp_all
    have dec: "f \<in> set (ib_frames ?d) \<and> fr_decode_state f = RawDecoded \<longleftrightarrow> f \<in> set (ib_frames d) \<and> fr_decode_state f = RawDecoded" for f
      unfolding t set_update_where by (auto split: if_splits) (metis decode_state.distinct(1))
    show ?thesis unfolding raw_ok_def m t(2,3)
    proof (intro conjI)
      show "\<forall>f\<in>set (ib_frames ?d). 0 < fr_id f" using parts unfolding t ball_update_where by auto
      show "\<forall>f\<in>set (ib_frames ?d). fr_processed_at_us f \<noteq> None \<longrightarrow> fr_decode_state f \<noteq> RawPending"
        using parts unfolding t ball_update_where by auto
      show "\<forall>m\<in>set (ib_messages d). \<exists>f\<in>set (ib_frames ?d). fr_id f = mg_frame m \<and> fr_decode_state f = RawDecoded"
        using parts dec by blast
      show "\<forall>f\<in>set (ib_frames ?d). fr_decode_state f = RawDecoded \<longrightarrow>
        (\<exists>ms. filter (\<lambda>m. mg_frame m = fr_id f) (ib_messages d) = message_rows (fr_id f) ms)" using parts dec by blast
    qed (use parts kept in auto)
  next
    case (decoded i r envelope messages)
    note ri = frame_by_id_in[OF decoded(1)]
    let ?P = "\<lambda>x. fr_id x = i"
    have t: "ib_frames ?d = update_where ?P (decode_row envelope) (ib_frames d)" "ib_messages ?d = ib_messages d @ message_rows i messages"
      "ib_checkpoints ?d = ib_checkpoints d" using decoded(3) by auto
    have m: "map fr_id (ib_frames ?d) = map fr_id (ib_frames d)"
      "map (\<lambda>f. (fr_connection f, fr_sequence f)) (ib_frames ?d) = map (\<lambda>f. (fr_connection f, fr_sequence f)) (ib_frames d)"
      unfolding t by simp_all
    have only: "x = r" if "x \<in> set (ib_frames d)" "fr_id x = i" for x using raw_ok_same_row[OF ok that(1)] ri that(2) by simp
    have none: "filter (\<lambda>m. mg_frame m = i) (ib_messages d) = []"
    proof -
      have "\<not> (\<exists>m \<in> set (ib_messages d). mg_frame m = i)" using parts only decoded(2) by (metis decode_state.distinct(1))
      then show ?thesis by (simp add: filter_empty_conv)
    qed
    have new: "decode_row envelope r \<in> set (ib_frames ?d)" unfolding t set_update_where using ri by auto
    show ?thesis unfolding raw_ok_def m t(3)
    proof (intro conjI)
      show "\<forall>f\<in>set (ib_frames ?d). 0 < fr_id f" using parts unfolding t ball_update_where by auto
      show "\<forall>f\<in>set (ib_frames ?d). fr_processed_at_us f \<noteq> None \<longrightarrow> fr_decode_state f \<noteq> RawPending"
        using parts unfolding t ball_update_where by auto
      show "\<forall>m\<in>set (ib_messages ?d). \<exists>f\<in>set (ib_frames ?d). fr_id f = mg_frame m \<and> fr_decode_state f = RawDecoded"
      proof
        fix m assume "m \<in> set (ib_messages ?d)"
        then consider "m \<in> set (ib_messages d)" | "mg_frame m = i" unfolding t using message_rows_frame by auto
        then show "\<exists>f\<in>set (ib_frames ?d). fr_id f = mg_frame m \<and> fr_decode_state f = RawDecoded"
        proof cases
          case 1
          then obtain f where f: "f \<in> set (ib_frames d)" "fr_id f = mg_frame m" "fr_decode_state f = RawDecoded" using parts by blast
          then have "fr_id f \<noteq> i" using only decoded(2) by auto
          then have "f \<in> set (ib_frames ?d)" unfolding t set_update_where using f(1) by auto
          then show ?thesis using f by blast
        next
          case 2
          then show ?thesis by (intro bexI[OF _ new]) (use ri in simp)
        qed
      qed
      show "\<forall>f\<in>set (ib_frames ?d). fr_decode_state f = RawDecoded \<longrightarrow>
        (\<exists>ms. filter (\<lambda>m. mg_frame m = fr_id f) (ib_messages ?d) = message_rows (fr_id f) ms)"
      proof (intro ballI impI)
        fix f assume f: "f \<in> set (ib_frames ?d)" "fr_decode_state f = RawDecoded"
        show "\<exists>ms. filter (\<lambda>m. mg_frame m = fr_id f) (ib_messages ?d) = message_rows (fr_id f) ms"
        proof (cases "fr_id f = i")
          case True
          then show ?thesis unfolding t using none by (auto simp: filter_message_rows)
        next
          case False
          then have "f \<in> set (ib_frames d)" using f(1) unfolding t set_update_where by (auto split: if_splits)
          then show ?thesis unfolding t filter_messages_other[OF False] using parts f(2) by blast
        qed
      qed
    qed (use parts kept in auto)
  next
    case (marked f r now cs)
    let ?P = "\<lambda>x. fr_id x = sf_id f \<and> fr_decode_state x = RawDecoded \<and> fr_processed_at_us x = None" and ?g = "\<lambda>x. x\<lparr> fr_processed_at_us := Some now \<rparr>"
    have t: "ib_frames ?d = update_where ?P ?g (ib_frames d)" "ib_messages ?d = ib_messages d" "ib_checkpoints ?d = ib_checkpoints d @ cs"
      using marked(4) by auto
    have m: "map fr_id (ib_frames ?d) = map fr_id (ib_frames d)"
      "map (\<lambda>f. (fr_connection f, fr_sequence f)) (ib_frames ?d) = map (\<lambda>f. (fr_connection f, fr_sequence f)) (ib_frames d)"
      unfolding t by simp_all
    have dec: "(\<exists>x \<in> set (ib_frames ?d). fr_id x = j \<and> fr_decode_state x = RawDecoded) \<longleftrightarrow> (\<exists>x \<in> set (ib_frames d). fr_id x = j \<and> fr_decode_state x = RawDecoded)" for j
      unfolding t bex_update_where by (rule bex_cong[OF refl]) auto
    have cs: "checkpoint_anchored ?d x" if x: "x \<in> set cs" for x
    proof -
      from marked(5) x obtain r' where r': "frame_by_id (sf_id f) (ib_frames d) = Some r'" "anchored f r' d x" by auto
      then have "r' = r" using frame_by_id_in[OF r'(1)] raw_ok_same_row[OF ok _ marked(1)] marked(2) by simp
      let ?r = "if ?P r then ?g r else r"
      have "?r \<in> set (ib_frames ?d)" unfolding t set_update_where using marked(1) by blast
      moreover have "fr_processed_at_us ?r \<noteq> None" "fr_decode_state ?r = RawDecoded" using marked(2,3) by auto
      moreover have "map_of (ib_heats ?d) (ck_heat x) = Some (fr_session r)" using heats r'(2) \<open>r' = r\<close> by (auto simp: anchored_def)
      ultimately show ?thesis unfolding checkpoint_anchored_def
        by (intro bexI[of _ ?r]) (use r'(2) \<open>r' = r\<close> in \<open>auto simp: anchored_def\<close>)
    qed
    have dist: "distinct (map (\<lambda>c. (ck_heat c, ck_frame c)) (filter runtime_row (ib_checkpoints d @ cs)))"
      using parts marked(5) by (auto simp: image_iff)
    show ?thesis unfolding raw_ok_def m t(2)
    proof (intro conjI)
      show "\<forall>f\<in>set (ib_frames ?d). 0 < fr_id f" using parts unfolding t ball_update_where by auto
      show "\<forall>f\<in>set (ib_frames ?d). fr_processed_at_us f \<noteq> None \<longrightarrow> fr_decode_state f \<noteq> RawPending"
        using parts unfolding t ball_update_where by auto
      show "\<forall>m\<in>set (ib_messages d). \<exists>f\<in>set (ib_frames ?d). fr_id f = mg_frame m \<and> fr_decode_state f = RawDecoded"
        using parts dec by blast
      show "\<forall>f\<in>set (ib_frames ?d). fr_decode_state f = RawDecoded \<longrightarrow>
        (\<exists>ms. filter (\<lambda>m. mg_frame m = fr_id f) (ib_messages d) = message_rows (fr_id f) ms)"
      proof (intro ballI impI)
        fix x assume x: "x \<in> set (ib_frames ?d)" "fr_decode_state x = RawDecoded"
        then obtain y where y: "y \<in> set (ib_frames d)" "fr_id y = fr_id x" "fr_decode_state y = RawDecoded"
          unfolding t set_update_where by (auto split: if_splits)
        then have "\<exists>ms. filter (\<lambda>m. mg_frame m = fr_id y) (ib_messages d) = message_rows (fr_id y) ms" using parts by blast
        then show "\<exists>ms. filter (\<lambda>m. mg_frame m = fr_id x) (ib_messages d) = message_rows (fr_id x) ms" unfolding y(2) .
      qed
      show "\<forall>c\<in>set (ib_checkpoints ?d). runtime_row c \<longrightarrow> checkpoint_anchored ?d c" using parts kept cs unfolding t(3) by auto
      show "distinct (map (\<lambda>c. (ck_heat c, ck_frame c)) (filter runtime_row (ib_checkpoints ?d)))" using dist unfolding t(3) .
    qed (use parts in auto)
  qed
qed

interpretation raw: invariant_machine "raw_step loads decompress sha sha'" fresh_ingest_db raw_ok
  for loads decompress sha sha'
  by unfold_locales (simp_all add: fresh_raw_ok raw_step_ok)

text \<open>C38. invariant. In every database the ingest can reach, the raw evidence is sound: frames are numbered
  in receive order, a socket never stores two frames under one sequence number, no frame is marked
  processed before it is decoded or has failed, every decoded frame has its complete numbered
  messages and no other frame has any, and every runtime checkpoint is anchored, under the frame's
  own key and receive time, to a processed frame of its heat's session, one per heat and frame.\<close>
theorem raw_evidence_well_formed:
  assumes "fresh_ingest_db d"
  shows "raw_ok (foldl (raw_step loads decompress sha sha') d commands)"
  by (rule raw.reachable_inv[OF assms])

lemma evidence_kept_run: "raw_ok d \<Longrightarrow> evidence_kept d (foldl (raw_step loads decompress sha sha') d commands)"
proof (induction commands arbitrary: d)
  case (Cons c cs)
  show ?case using evidence_kept_trans[OF step_frames_advance[OF Cons.prems] Cons.IH[OF raw_step_ok[OF Cons.prems]]] by simp
qed simp

text \<open>safety. Nothing ever rewrites the evidence: whatever the worker, its restarts and the operator do
  next, every stored frame keeps its place, its bytes, its hash, its sequence number and its times;
  its decode state leaves \<open>pending\<close> at most once, and a mark on a decoded frame stays.\<close>
theorem raw_evidence_is_immutable:
  assumes "fresh_ingest_db d0" and "d = foldl (raw_step loads decompress sha sha') d0 before"
  shows "evidence_kept d (foldl (raw_step loads decompress sha sha') d after)"
  using evidence_kept_run[OF raw.reachable_inv[OF assms(1)]] assms(2) by blast

section \<open>Decoded messages are the replay contract\<close>

lemma messages_kept:
  assumes ok: "raw_ok d" and f: "f \<in> set (ib_frames d)" "fr_decode_state f = RawDecoded"
  shows "stored_messages (fr_id f) (raw_step loads decompress sha sha' d cmd) = stored_messages (fr_id f) d"
proof (cases rule: raw_step_cases[of loads decompress sha sha' d cmd])
  case (decoded i r envelope messages)
  have "fr_id f \<noteq> i" using raw_ok_same_row[OF ok f(1)] frame_by_id_in[OF decoded(1)] decoded(2) f(2) by auto
  then show ?thesis using decoded(3) filter_messages_other[of "fr_id f" i "ib_messages d" messages] by (simp add: stored_messages_def)
qed (simp_all add: stored_messages_def)

lemma messages_kept_run:
  "raw_ok d \<Longrightarrow> f \<in> set (ib_frames d) \<Longrightarrow> fr_decode_state f = RawDecoded \<Longrightarrow>
    stored_messages (fr_id f) (foldl (raw_step loads decompress sha sha') d commands) = stored_messages (fr_id f) d"
proof (induction commands arbitrary: d f)
  case (Cons c cs)
  let ?d = "raw_step loads decompress sha sha' d c"
  obtain f' where f': "f' \<in> set (ib_frames ?d)" "advances f f'"
    using evidence_kept_member[OF step_frames_advance[OF Cons.prems(1)] Cons.prems(2)] by blast
  have "fr_id f' = fr_id f" "fr_decode_state f' = RawDecoded" using f'(2) Cons.prems(3) by (auto simp: advances_def)
  then show ?case using Cons.IH[OF raw_step_ok[OF Cons.prems(1)] f'(1)] messages_kept[OF Cons.prems, of loads decompress sha sha' c] by simp
qed simp

lemma find_frame_row:
  assumes ok: "raw_ok d" and r: "r \<in> set (ib_frames d)" "fr_id r = sf_id f" "fr_session r = st_session s" "fr_connection r = sf_connection f"
    "fr_sequence r = sf_sequence f"
  shows "find_frame s f d = Some r"
proof -
  have "find_frame s f d \<noteq> None" using r by (auto simp: find_frame_def find_None_iff)
  then obtain x where x: "find_frame s f d = Some x" by blast
  then show ?thesis using find_frame_by_id[OF x] raw_ok_same_row[OF ok _ r(1)] r(2) by auto
qed

lemma decode_result:
  assumes ok: "raw_ok d" and run: "decode_frame loads decompress now s f d = Inr (d1, messages)" and m: "messages \<noteq> []"
  shows "\<exists>r \<in> set (ib_frames d1). fr_id r = sf_id f \<and> fr_session r = st_session s \<and> fr_connection r = sf_connection f \<and>
      fr_sequence r = sf_sequence f \<and> fr_decode_state r = RawDecoded"
    and "stored_messages (sf_id f) d1 = map replayed messages"
proof -
  obtain r0 where r0: "find_frame s f d = Some r0" using run by (auto simp: decode_frame_def split: option.splits)
  note row = find_frame_by_id[OF r0]
  from run have "(\<exists>r \<in> set (ib_frames d1). fr_id r = sf_id f \<and> fr_session r = st_session s \<and> fr_connection r = sf_connection f \<and>
      fr_sequence r = sf_sequence f \<and> fr_decode_state r = RawDecoded) \<and> stored_messages (sf_id f) d1 = map replayed messages"
  proof (cases rule: decode_frame_cases)
    case decoded_before
    then obtain r where r: "r \<in> set (ib_frames d)" "fr_id r = sf_id f" "fr_decode_state r = RawDecoded" by blast
    then have "r = r0" using raw_ok_same_row[OF ok, of r r0] row by simp
    moreover obtain ms where "filter (\<lambda>m. mg_frame m = fr_id r) (ib_messages d) = message_rows (fr_id r) ms"
      using ok r(1,3) unfolding raw_ok_def by blast
    then have "stored_messages (sf_id f) d = map replayed ms" using stored_message_rows r(2) by simp
    ultimately show ?thesis using decoded_before(1,2) r row by (auto simp: comp_def)
  next
    case (decoded r r' envelope)
    have same: "x = r'" if "x \<in> set (ib_frames d)" "fr_id x = sf_id f" for x
      using raw_ok_same_row[OF ok that(1)] frame_by_id_in[OF decoded(3)] that(2) by simp
    have "r' = r0" using same row by blast
    have "decode_row envelope r' \<in> set (ib_frames d1)" unfolding decoded(5) using frame_by_id_in[OF decoded(3)] by (auto simp: set_update_where)
    moreover have "filter (\<lambda>m. mg_frame m = sf_id f) (ib_messages d) = []"
    proof -
      have "\<not> (\<exists>m \<in> set (ib_messages d). mg_frame m = sf_id f)"
        using ok same decoded(4) unfolding raw_ok_def by (metis decode_state.distinct(1))
      then show ?thesis by (simp add: filter_empty_conv)
    qed
    then have "stored_messages (sf_id f) d1 = map replayed messages"
      by (intro stored_message_rows) (simp add: decoded(5) filter_message_rows)
    ultimately show ?thesis using row \<open>r' = r0\<close> by (intro conjI bexI[of _ "decode_row envelope r'"]) simp_all
  qed (use m in simp_all)
  then show "\<exists>r \<in> set (ib_frames d1). fr_id r = sf_id f \<and> fr_session r = st_session s \<and> fr_connection r = sf_connection f \<and>
      fr_sequence r = sf_sequence f \<and> fr_decode_state r = RawDecoded" "stored_messages (sf_id f) d1 = map replayed messages" by blast+
qed

text \<open>C39. roundtrip. The decoded messages are the replay contract: once a frame has been decoded, decoding it
  again - in a later process, with another decompressor or parser, after whatever the ingest did in
  between - writes nothing and returns the very same messages, up to the order of object keys.\<close>
theorem decoded_frame_replays:
  assumes "fresh_ingest_db d0" and "d = foldl (raw_step loads decompress sha sha') d0 before"
    and "decode_frame loads decompress now s f d = Inr (d1, messages)" and "messages \<noteq> []"
    and "d2 = foldl (raw_step loads decompress sha sha') d1 after"
  shows "decode_frame loads' decompress' later s f d2 = Inr (d2, map replayed messages)"
proof -
  have ok: "raw_ok d" unfolding assms(2) by (rule raw.reachable_inv[OF assms(1)])
  have "d1 = raw_step loads decompress sha sha' d (Decode now s f)" using assms(3) by (simp add: kept_def)
  then have ok1: "raw_ok d1" using raw_step_ok[OF ok, of loads decompress sha sha' "Decode now s f"] by simp
  note res = decode_result[OF ok assms(3,4)]
  then obtain r where r: "r \<in> set (ib_frames d1)" "fr_id r = sf_id f" "fr_session r = st_session s" "fr_connection r = sf_connection f"
      "fr_sequence r = sf_sequence f" "fr_decode_state r = RawDecoded" by blast
  have ok2: "raw_ok d2" unfolding assms(5) by (rule raw.run_inv[OF ok1])
  obtain r2 where r2: "r2 \<in> set (ib_frames d2)" "advances r r2"
    using evidence_kept_member[OF evidence_kept_run[OF ok1] r(1)] unfolding assms(5) by blast
  have "find_frame s f d2 = Some r2" by (rule find_frame_row[OF ok2 r2(1)]) (use r r2(2) in \<open>auto simp: advances_def\<close>)
  moreover have "fr_decode_state r2 = RawDecoded" using r(6) r2(2) by (auto simp: advances_def)
  moreover have "stored_messages (sf_id f) d2 = map replayed messages"
    using messages_kept_run[OF ok1 r(1,6)] res(2) r(2) unfolding assms(5) by simp
  ultimately show ?thesis by (simp add: decode_frame_def)
qed

section \<open>Witnesses\<close>

definition demo_ingest_db :: ingest_db where
  "demo_ingest_db = \<lparr> ib_in_transaction = False, ib_sources = [(1, None)],
     ib_sessions = [\<lparr> is_id = ''s'', is_source = 1, is_lifecycle = Active \<rparr>], ib_heats = [(7, ''s'')], ib_runs = [], ib_connections = [],
     ib_frames = [], ib_messages = [], ib_gaps = [], ib_checkpoints = [] \<rparr>"

definition demo_raw_store :: raw_store where
  "demo_raw_store = \<lparr> st_session = ''s'', st_run = Some ''r'', st_recovered_gap = None \<rparr>"

definition demo_loads :: "string \<Rightarrow> json option" where
  "demo_loads s = Some (JObj [(''C'', JStr s), (''M'', JList [JList [JStr ''a_i'', JObj [(''b'', JNull), (''a'', JStr s)]]])])"

definition demo_decompress :: "string \<Rightarrow> decode_error + string option" where
  "demo_decompress s = Inr None"

definition demo_bootstrap :: bootstrap where
  "demo_bootstrap = \<lparr> bt_source_url = ''u'', bt_timekeeper_id = ''t'', bt_display_marker = None \<rparr>"

abbreviation demo_raw_step :: "ingest_db \<Rightarrow> raw_command \<Rightarrow> ingest_db" where
  "demo_raw_step \<equiv> raw_step demo_loads demo_decompress (\<lambda>s. s) (\<lambda>v. ''h'')"

definition demo_commands :: "raw_command list" where
  "demo_commands = [Start_Run ''v'' 10 ''r'' (demo_raw_store\<lparr> st_run := None \<rparr>), Open_Connection ''c'' 11 demo_bootstrap demo_raw_store,
     Persist \<lparr> cn_id = ''c'', cn_run = ''r'', cn_ordinal = 1 \<rparr> 1 ''x'' 12 13 demo_raw_store]"

definition demo_frame :: stored_frame where
  "demo_frame = \<lparr> sf_id = 1, sf_connection = ''c'', sf_sequence = 1, sf_received_at_us = 12, sf_source_key = ''c:1'' \<rparr>"

definition demo_checkpoint :: frame_checkpoint where
  "demo_checkpoint = \<lparr> fc_heat = 7, fc_frame = 1, fc_source_key = ''c:1'', fc_observed_at_us = 12, fc_reducer_version = ''v'', fc_state = JNull \<rparr>"

definition demo_rest :: "raw_command list" where
  "demo_rest = [Decode 14 demo_raw_store demo_frame, Mark 15 (Some demo_checkpoint) demo_raw_store demo_frame,
     Finish_Run ''stop'' 16 demo_raw_store]"

lemma demo_fresh [simp]: "fresh_ingest_db demo_ingest_db"
  by (simp add: fresh_ingest_db_def demo_ingest_db_def)

lemma raw_evidence_well_formed_witness:
  "raw_ok (foldl demo_raw_step demo_ingest_db (demo_commands @ demo_rest)) \<and>
   map fr_processed_at_us (ib_frames (foldl demo_raw_step demo_ingest_db (demo_commands @ demo_rest))) = [Some 15] \<and>
   map ck_frame (ib_checkpoints (foldl demo_raw_step demo_ingest_db (demo_commands @ demo_rest))) = [Some 1]"
  by (intro conjI raw_evidence_well_formed demo_fresh) code_simp+

lemma raw_evidence_is_immutable_witness:
  "evidence_kept (foldl demo_raw_step demo_ingest_db demo_commands) (foldl demo_raw_step (foldl demo_raw_step demo_ingest_db demo_commands) demo_rest) \<and>
   map fr_decode_state (ib_frames (foldl demo_raw_step demo_ingest_db demo_commands)) = [RawPending]"
  by (intro conjI raw_evidence_is_immutable[OF demo_fresh refl]) code_simp

lemma decoded_frame_replays_witness:
  "\<exists>d1 m. decode_frame demo_loads demo_decompress 14 demo_raw_store demo_frame (foldl demo_raw_step demo_ingest_db demo_commands) = Inr (d1, [m]) \<and>
     decode_frame (\<lambda>_. None) demo_decompress 99 demo_raw_store demo_frame (foldl demo_raw_step d1 demo_rest)
       = Inr (foldl demo_raw_step d1 demo_rest, [replayed m]) \<and> replayed m \<noteq> m"
proof -
  define out where "out = decode_frame demo_loads demo_decompress 14 demo_raw_store demo_frame (foldl demo_raw_step demo_ingest_db demo_commands)"
  have e: "\<exists>d1. out = Inr (d1, [\<lparr> sg_handle = ''a_i'', sg_args = [JObj [(''b'', JNull), (''a'', JStr ''x'')]], sg_compressed = False \<rparr>])"
    unfolding out_def by (rule exI[of _ "fst (projr (decode_frame demo_loads demo_decompress 14 demo_raw_store demo_frame (foldl demo_raw_step demo_ingest_db demo_commands)))"]) code_simp
  then obtain d1 m where d: "out = Inr (d1, [m])" and m: "m = \<lparr> sg_handle = ''a_i'', sg_args = [JObj [(''b'', JNull), (''a'', JStr ''x'')]], sg_compressed = False \<rparr>"
    by blast
  have "replayed m \<noteq> m" unfolding m by code_simp
  moreover have "decode_frame (\<lambda>_. None) demo_decompress 99 demo_raw_store demo_frame (foldl demo_raw_step d1 demo_rest)
       = Inr (foldl demo_raw_step d1 demo_rest, map replayed [m])"
    by (rule decoded_frame_replays[OF demo_fresh refl _ _ refl]) (use d in \<open>auto simp: out_def\<close>)
  ultimately show ?thesis using d unfolding out_def by auto
qed

end
