(* ===== verification/Ingest_Worker.thy ===== *)
theory Ingest_Worker
  imports Ingest_Store
begin

text \<open>
  The ingest supervisor: \<open>TimingIngestSupervisor.run_session\<close> and \<open>run_forever\<close> of
  \<open>server/timing/ingest.py\<close>. One session's task is a state machine over the tables of
  \<open>Ingest_Store\<close>: a step runs to the next commit or the next \<open>await\<close>, so a crash can fall between
  any two transactions. What the socket, the clock, the frame processor and the operator do comes
  with the events; a processor is configured. The log holds the frames handed to the processor. Processors leave no
  transaction open; the tables of one session change only through its own task.
\<close>

section \<open>State\<close>

datatype worker_phase =
    Recovering "stored_frame list"
  | Recovered stored_frame "signalr_message list" "stored_frame list"
  | Connecting
  | Reading
  | Opened string int int
  | Ready string int int
  | Persisted stored_frame
  | Decoded_Frame stored_frame "signalr_message list"
  | Handed stored_frame
  | Empty_Frame stored_frame
  | Disconnecting string bool
  | Disconnected string int
  | Waiting
  | Quitting

record worker =
  wk_store :: raw_store
  wk_phase :: worker_phase
  wk_pending_gap :: "int option"
  wk_failures :: nat
  wk_upstream :: "ingest_connection option"
  wk_sequence :: int

record ingest_world =
  iw_worker :: "worker option"
  iw_db :: ingest_db
  iw_log :: "int list"

text \<open>What the processor does with a frame it is handed, and the checkpoint it offers afterwards.\<close>

datatype processor_outcome = Committed | Raised string

datatype ingest_event =
    Launch int string
  | Advance int string processor_outcome "frame_checkpoint option"
  | Received string int int string int bootstrap
  | Ended
  | Broken string
  | Cancel
  | Crash
  | Stop_Session lifecycle
  | New_Heat int string

text \<open>The parameters of a world: JSON parser, decompressor, the two hashes.\<close>

record codec =
  co_loads :: "string \<Rightarrow> json option"
  co_decompress :: "string \<Rightarrow> decode_error + string option"
  co_sha :: "string \<Rightarrow> string"
  co_doc_sha :: "json \<Rightarrow> string"

section \<open>The task of one session\<close>

text \<open>The end of the task: its run is closed with a reason, the connection is closed.\<close>

definition end_task :: "string \<Rightarrow> int \<Rightarrow> raw_store \<Rightarrow> ingest_db \<Rightarrow> worker option \<times> ingest_db" where
  "end_task reason now s d = (None, kept d (finish_run reason now s d))"

definition disconnect :: "string \<Rightarrow> worker \<Rightarrow> worker" where
  "disconnect error w = w\<lparr> wk_phase := Disconnecting (''error:'' @ error) False \<rparr>"

definition error_name :: "ingest_error \<Rightarrow> string" where
  "error_name e = (case e of RawStoreError _ \<Rightarrow> ''IngestStoreError'' | RawCheckpointError _ \<Rightarrow> ''CheckpointError''
     | UniqueViolation _ \<Rightarrow> ''IntegrityError'' | BindError \<Rightarrow> ''ProgrammingError'')"

definition launch :: "int \<Rightarrow> string \<Rightarrow> string \<Rightarrow> ingest_db \<Rightarrow> worker option \<times> ingest_db" where
  "launch now run_id sid d =
    (case start_run RAW_REDUCER_VERSION now run_id \<lparr> st_session = sid, st_run = None, st_recovered_gap = None \<rparr> d of
       Inl e \<Rightarrow> (None, d)
     | Inr (d', s) \<Rightarrow> (Some \<lparr> wk_store = s, wk_phase = Recovering (pending_decoded_frames s d'), wk_pending_gap = st_recovered_gap s,
         wk_failures = 0, wk_upstream = None, wk_sequence = 0 \<rparr>, d'))"

text \<open>Replaying one frame the previous process left pending; the processor is handed the frame when it has messages.\<close>

definition recover_step ::
    "codec \<Rightarrow> int \<Rightarrow> processor_outcome \<Rightarrow> stored_frame \<Rightarrow> stored_frame list \<Rightarrow> worker \<Rightarrow> ingest_db
      \<Rightarrow> worker option \<times> ingest_db \<times> int list" where
  "recover_step co now outcome f fs w d =
    (case decode_frame (co_loads co) (co_decompress co) now (wk_store w) f d of
       Inl e \<Rightarrow> (case end_task (''error:'' @ error_name e) now (wk_store w) d of (v, d') \<Rightarrow> (v, d', []))
     | Inr (d', messages) \<Rightarrow>
        if messages = [] then (Some (w\<lparr> wk_phase := Recovered f [] fs \<rparr>), d', [])
        else (case outcome of
            Committed \<Rightarrow> (Some (w\<lparr> wk_phase := Recovered f messages fs \<rparr>), d', [sf_id f])
          | Raised t \<Rightarrow> (case end_task (''error:'' @ t) now (wk_store w) d' of (v, d'') \<Rightarrow> (v, d'', [sf_id f]))))"

text \<open>A frame of the open socket is stored before anything else happens to it.\<close>

definition store_frame :: "codec \<Rightarrow> string \<Rightarrow> int \<Rightarrow> int \<Rightarrow> worker \<Rightarrow> ingest_connection \<Rightarrow> ingest_db \<Rightarrow> worker \<times> ingest_db" where
  "store_frame co raw received monotonic w c d =
    (let w' = w\<lparr> wk_sequence := wk_sequence w + 1 \<rparr> in
     case persist_raw_frame (co_sha co) c (wk_sequence w') raw received monotonic (wk_store w) d of
       Inl e \<Rightarrow> (disconnect (error_name e) w', d)
     | Inr (d', f) \<Rightarrow> (w'\<lparr> wk_phase := Persisted f \<rparr>, d'))"

text \<open>A step of the task from its phase; the third component is what the processor was handed.\<close>

definition advance ::
    "codec \<Rightarrow> int \<Rightarrow> string \<Rightarrow> processor_outcome \<Rightarrow> frame_checkpoint option \<Rightarrow> worker \<Rightarrow> ingest_db
      \<Rightarrow> worker option \<times> ingest_db \<times> int list" where
  "advance co now run_id outcome checkpoint w d =
    (let s = wk_store w; still = (Some w, d, []); ended = (\<lambda>reason d. case end_task reason now s d of (v, d') \<Rightarrow> (v, d', [])) in
     case wk_phase w of
       Recovering [] \<Rightarrow> (Some (w\<lparr> wk_phase := Connecting \<rparr>), d, [])
     | Recovering (f # fs) \<Rightarrow> recover_step co now outcome f fs w d
     | Recovered f messages fs \<Rightarrow>
        (case mark_processed (co_doc_sha co) now (if messages = [] then None else checkpoint) s f d of
           Inl e \<Rightarrow> ended (''error:'' @ error_name e) d
         | Inr d' \<Rightarrow> (Some (w\<lparr> wk_phase := Recovering fs \<rparr>), d', []))
     | Connecting \<Rightarrow>
        if is_session_active s d then (Some (w\<lparr> wk_phase := Reading, wk_upstream := None, wk_sequence := 0 \<rparr>), d, [])
        else ended ''session_inactive'' d
     | Opened raw received monotonic \<Rightarrow>
        (case wk_pending_gap w of
           None \<Rightarrow> (Some (w\<lparr> wk_phase := Ready raw received monotonic, wk_failures := 0 \<rparr>), d, [])
         | Some g \<Rightarrow>
            (case close_gap g now s d of
               Inl e \<Rightarrow> (Some (disconnect (error_name e) w), d, [])
             | Inr d' \<Rightarrow> (Some (w\<lparr> wk_phase := Ready raw received monotonic, wk_pending_gap := None, wk_failures := 0 \<rparr>), d', [])))
     | Ready raw received monotonic \<Rightarrow>
        (case wk_upstream w of
           None \<Rightarrow> still
         | Some c \<Rightarrow> (case store_frame co raw received monotonic w c d of (w', d') \<Rightarrow> (Some w', d', [])))
     | Persisted f \<Rightarrow>
        (case decode_frame (co_loads co) (co_decompress co) now s f d of
           Inl e \<Rightarrow> (Some (disconnect (error_name e) w), d, [])
         | Inr (d', messages) \<Rightarrow>
            (if messages \<noteq> [] then (Some (w\<lparr> wk_phase := Decoded_Frame f messages \<rparr>), d', [])
             else if (case frame_by_id (sf_id f) (ib_frames d') of None \<Rightarrow> False | Some r \<Rightarrow> fr_decode_state r = RawDecoded)
             then (Some (w\<lparr> wk_phase := Empty_Frame f \<rparr>), d', [])
             else (Some (w\<lparr> wk_phase := Reading \<rparr>), d', [])))
     | Decoded_Frame f messages \<Rightarrow>
        (case outcome of
           Committed \<Rightarrow> (Some (w\<lparr> wk_phase := Handed f \<rparr>), d, [sf_id f])
         | Raised t \<Rightarrow> (Some (disconnect t w), d, [sf_id f]))
     | Handed f \<Rightarrow>
        (case mark_processed (co_doc_sha co) now checkpoint s f d of
           Inl e \<Rightarrow> (Some (disconnect (error_name e) w), d, [])
         | Inr d' \<Rightarrow> (Some (w\<lparr> wk_phase := Reading \<rparr>), d', []))
     | Empty_Frame f \<Rightarrow>
        (case mark_processed (co_doc_sha co) now None s f d of
           Inl e \<Rightarrow> (Some (disconnect (error_name e) w), d, [])
         | Inr d' \<Rightarrow> (Some (w\<lparr> wk_phase := Reading \<rparr>), d', []))
     | Disconnecting reason cancelled \<Rightarrow>
        (case (case wk_upstream w of None \<Rightarrow> Inr d | Some c \<Rightarrow> close_connection c reason now d) of
           Inl e \<Rightarrow> ended (''error:'' @ error_name e) d
         | Inr d' \<Rightarrow> (Some (w\<lparr> wk_phase := if cancelled then Quitting else Disconnected reason now \<rparr>), d', []))
     | Disconnected reason since \<Rightarrow>
        if \<not> is_session_active s d then ended ''session_inactive'' d
        else (case record_gap (map_option cn_id (wk_upstream w)) reason since None s d of
            Inl e \<Rightarrow> ended (''error:'' @ error_name e) d
          | Inr (d', g) \<Rightarrow> (Some (w\<lparr> wk_phase := Waiting, wk_pending_gap := Some g, wk_failures := wk_failures w + 1, wk_upstream := None \<rparr>), d', []))
     | Waiting \<Rightarrow> (Some (w\<lparr> wk_phase := Connecting \<rparr>), d, [])
     | Quitting \<Rightarrow>
        if wk_pending_gap w = None \<and> is_session_active s d
        then (case record_gap None ''worker_restart'' now None s d of
            Inl e \<Rightarrow> (None, d, [])
          | Inr (d', g) \<Rightarrow> (Some (w\<lparr> wk_pending_gap := Some g \<rparr>), d', []))
        else ended ''supervisor_cancelled'' d
     | Reading \<Rightarrow> still)"

text \<open>The delay before the next attempt.\<close>

definition RECONNECT_BACKOFF_S :: "int list" where "RECONNECT_BACKOFF_S = [1, 2, 5, 10, 30]"

definition reconnect_delay :: "nat \<Rightarrow> int" where
  "reconnect_delay failures = RECONNECT_BACKOFF_S ! min failures (length RECONNECT_BACKOFF_S - 1)"

section \<open>Worlds\<close>

definition with_worker :: "(worker \<Rightarrow> ingest_db \<Rightarrow> worker option \<times> ingest_db \<times> int list) \<Rightarrow> ingest_world \<Rightarrow> ingest_world" where
  "with_worker g x = (case iw_worker x of
     None \<Rightarrow> x
   | Some w \<Rightarrow> (case g w (iw_db x) of (v, d, handed) \<Rightarrow> \<lparr> iw_worker = v, iw_db = d, iw_log = iw_log x @ handed \<rparr>))"

fun ingest_step :: "codec \<Rightarrow> string \<Rightarrow> ingest_world \<Rightarrow> ingest_event \<Rightarrow> ingest_world" where
  "ingest_step co sid x (Launch now run_id) =
    (if iw_worker x \<noteq> None then x
     else (case launch now run_id sid (iw_db x) of (v, d) \<Rightarrow> x\<lparr> iw_worker := v, iw_db := d \<rparr>))"
| "ingest_step co sid x (Advance now run_id outcome checkpoint) = with_worker (advance co now run_id outcome checkpoint) x"
| "ingest_step co sid x (Received raw received monotonic connection_id now b) = with_worker (\<lambda>w d.
    (case wk_phase w of
       Reading \<Rightarrow> (case wk_upstream w of
           Some c \<Rightarrow> (Some (w\<lparr> wk_phase := Ready raw received monotonic \<rparr>), d, [])
         | None \<Rightarrow> (case open_connection connection_id now b (wk_store w) d of
             Inl e \<Rightarrow> (Some (disconnect (error_name e) w), d, [])
           | Inr (d', c) \<Rightarrow> (Some (w\<lparr> wk_phase := Opened raw received monotonic, wk_upstream := Some c \<rparr>), d', [])))
     | _ \<Rightarrow> (Some w, d, []))) x"
| "ingest_step co sid x Ended = with_worker (\<lambda>w d.
    (if wk_phase w = Reading then (Some (w\<lparr> wk_phase := Disconnecting ''socket_closed'' False \<rparr>), d, []) else (Some w, d, []))) x"
| "ingest_step co sid x (Broken error) = with_worker (\<lambda>w d.
    (if wk_phase w = Reading then (Some (disconnect error w), d, []) else (Some w, d, []))) x"
| "ingest_step co sid x Cancel = with_worker (\<lambda>w d.
    (if wk_phase w = Reading then (Some (w\<lparr> wk_phase := Disconnecting ''supervisor_cancelled'' True \<rparr>), d, [])
     else if wk_phase w = Waiting then (Some (w\<lparr> wk_phase := Quitting \<rparr>), d, []) else (Some w, d, []))) x"
| "ingest_step co sid x Crash = x\<lparr> iw_worker := None \<rparr>"
| "ingest_step co sid x (Stop_Session l) =
    (if l \<in> {Stopped, Aborted}
     then x\<lparr> iw_db := (iw_db x)\<lparr> ib_sessions := update_where (\<lambda>s. is_id s = sid \<and> is_lifecycle s = Active) (\<lambda>s. s\<lparr> is_lifecycle := l \<rparr>)
       (ib_sessions (iw_db x)) \<rparr> \<rparr> else x)"
| "ingest_step co sid x (New_Heat h s) =
    (if h \<in> fst ` set (ib_heats (iw_db x)) then x else x\<lparr> iw_db := (iw_db x)\<lparr> ib_heats := ib_heats (iw_db x) @ [(h, s)] \<rparr> \<rparr>)"

section \<open>The supervisor\<close>

text \<open>One turn of \<open>run_forever\<close>: finished tasks are dropped, a stopped session's task is left to finish,
  every active session without a task gets one.\<close>

definition supervise :: "string list \<Rightarrow> (string \<times> bool) list \<Rightarrow> (string \<times> bool) list" where
  "supervise desired tasks =
    (let running = filter (\<lambda>(i, finished). \<not> finished) tasks
     in running @ map (\<lambda>i. (i, False)) (filter (\<lambda>i. i \<notin> set (map fst running)) (remdups desired)))"

lemma supervise_one_task_each:
  assumes "distinct (map fst tasks)"
  shows "distinct (map fst (supervise desired tasks)) \<and> set desired \<subseteq> set (map fst (supervise desired tasks)) \<and>
    (\<forall>i. (i, False) \<in> set tasks \<longrightarrow> (i, False) \<in> set (supervise desired tasks))"
proof -
  let ?running = "filter (\<lambda>(i, finished). \<not> finished) tasks"
  have m: "map fst (supervise desired tasks) = map fst ?running @ filter (\<lambda>i. i \<notin> set (map fst ?running)) (remdups desired)"
    by (simp only: supervise_def Let_def map_append map_map comp_def fst_conv map_ident)
  have "distinct (map fst ?running)" using assms by (induction tasks) auto
  then have "distinct (map fst (supervise desired tasks))" unfolding m by (simp add: Int_def)
  moreover have "set desired \<subseteq> set (map fst (supervise desired tasks))" unfolding m by auto
  ultimately show ?thesis by (auto simp: supervise_def Let_def)
qed

section \<open>The steps of the task as commands of the store\<close>

lemma kept_Inr [simp]: "kept d (Inr d') = d'" and kept_Inl [simp]: "kept d (Inl e) = d"
  by (simp_all add: kept_def)

abbreviation co_step :: "codec \<Rightarrow> ingest_db \<Rightarrow> raw_command \<Rightarrow> ingest_db" where
  "co_step co \<equiv> raw_step (co_loads co) (co_decompress co) (co_sha co) (co_doc_sha co)"

definition commands_of :: "codec \<Rightarrow> ingest_db \<Rightarrow> ingest_db \<Rightarrow> bool" where
  "commands_of co d d' \<longleftrightarrow> (\<exists>cs. d' = foldl (co_step co) d cs)"

lemma commands_refl [simp]: "commands_of co d d"
  unfolding commands_of_def by (rule exI[of _ "[]"]) simp

lemma commands_one: "co_step co d c = d' \<Longrightarrow> commands_of co d d'"
  unfolding commands_of_def by (rule exI[of _ "[c]"]) simp

lemma commands_trans: "commands_of co d d1 \<Longrightarrow> commands_of co d1 d2 \<Longrightarrow> commands_of co d d2"
  unfolding commands_of_def by (metis foldl_append)

lemma commands_end_task: "commands_of co d (snd (end_task reason now s d))"
  by (rule commands_one[where c = "Finish_Run reason now s"]) (simp add: end_task_def)

lemma commands_decode: "decode_frame (co_loads co) (co_decompress co) now s f d = Inr (d', ms) \<Longrightarrow> commands_of co d d'"
  by (rule commands_one[where c = "Decode now s f"]) simp

lemma commands_mark: "mark_processed (co_doc_sha co) now c s f d = Inr d' \<Longrightarrow> commands_of co d d'"
  by (rule commands_one[where c = "Mark now c s f"]) simp

lemma commands_other:
  "close_gap g now s d = Inr d' \<Longrightarrow> commands_of co d d'"
  "close_connection c reason now d = Inr d' \<Longrightarrow> commands_of co d d'"
  "record_gap x reason started ended s d = Inr (d', i) \<Longrightarrow> commands_of co d d'"
  "open_connection j now b s d = Inr (d', y) \<Longrightarrow> commands_of co d d'"
  by (rule commands_one[where c = "Close_Gap g now s"], simp,
      rule commands_one[where c = "Close_Connection c reason now"], simp,
      rule commands_one[where c = "Record_Gap x reason started ended s"], simp,
      rule commands_one[where c = "Open_Connection j now b s"], simp)

lemma commands_store_frame: "commands_of co d (snd (store_frame co raw received monotonic w c d))"
proof (rule commands_one[where c = "Persist c (wk_sequence w + 1) raw received monotonic (wk_store w)"])
  show "co_step co d (Persist c (wk_sequence w + 1) raw received monotonic (wk_store w)) = snd (store_frame co raw received monotonic w c d)"
    by (auto simp: store_frame_def Let_def split: sum.splits)
qed

lemma commands_recover: "recover_step co now outcome f fs w d = (v, d', handed) \<Longrightarrow> commands_of co d d'"
  using commands_end_task[of co] commands_decode[of co now "wk_store w" f d]
  by (auto simp: recover_step_def split: sum.splits prod.splits processor_outcome.splits if_splits intro: commands_trans)
    (metis commands_trans snd_conv)+

lemma commands_advance: "advance co now run_id outcome checkpoint w d = (v, d', handed) \<Longrightarrow> commands_of co d d'"
proof -
  assume a: "advance co now run_id outcome checkpoint w d = (v, d', handed)"
  note e = commands_end_task[of co]
  show ?thesis
  proof (cases "wk_phase w")
    case (Recovering fs)
    then show ?thesis using a by (cases fs) (auto simp: advance_def Let_def dest: commands_recover)
  next
    case (Recovered f ms fs)
    then show ?thesis using a e by (auto simp: advance_def Let_def dest: commands_mark split: sum.splits prod.splits) (metis snd_conv)
  next
    case Connecting
    then show ?thesis using a e by (auto simp: advance_def Let_def split: if_splits prod.splits) (metis snd_conv)
  next
    case (Ready raw received monotonic)
    then show ?thesis using a commands_store_frame[of co d raw received monotonic w]
      by (auto simp: advance_def Let_def split: option.splits prod.splits) (metis snd_conv)
  next
    case (Disconnecting reason cancelled)
    then show ?thesis using a e by (auto simp: advance_def Let_def dest: commands_other split: sum.splits prod.splits option.splits) (metis snd_conv)+
  next
    case (Disconnected reason since)
    then show ?thesis using a e by (auto simp: advance_def Let_def dest: commands_other split: sum.splits prod.splits if_splits) (metis snd_conv)+
  next
    case Quitting
    then show ?thesis using a e by (auto simp: advance_def Let_def dest: commands_other split: sum.splits prod.splits if_splits) (metis snd_conv)+
  qed (use a in \<open>auto simp: advance_def Let_def dest: commands_mark commands_decode commands_other
      split: sum.splits prod.splits option.splits if_splits processor_outcome.splits\<close>)
qed

lemma commands_ingest_step: "commands_of co (iw_db x) (iw_db (ingest_step co sid x e))"
proof (cases e)
  case (Launch now run_id)
  have "commands_of co (iw_db x) (snd (launch now run_id sid (iw_db x)))"
    by (rule commands_one[where c = "Start_Run RAW_REDUCER_VERSION now run_id \<lparr> st_session = sid, st_run = None, st_recovered_gap = None \<rparr>"])
      (auto simp: launch_def split: sum.splits)
  then show ?thesis using Launch by (auto split: prod.splits)
next
  case (Advance now run_id outcome checkpoint)
  then show ?thesis by (auto simp: with_worker_def dest: commands_advance split: option.splits prod.splits)
next
  case (Received raw received monotonic i now b)
  then show ?thesis by (auto simp: with_worker_def dest: commands_other split: option.splits prod.splits worker_phase.splits sum.splits)
next
  case (Stop_Session l)
  let ?rows = "update_where (\<lambda>s. is_id s = sid \<and> is_lifecycle s = Active) (\<lambda>s. s\<lparr> is_lifecycle := l \<rparr>) (ib_sessions (iw_db x))"
  show ?thesis using Stop_Session commands_one[of co "iw_db x" "Set_Sessions ?rows"] by simp
next
  case (New_Heat h s)
  show ?thesis using New_Heat commands_one[where co = co and d = "iw_db x" and c = "Add_Heat h s"]
    by (cases "h \<in> fst ` set (ib_heats (iw_db x))") simp_all
qed (auto simp: with_worker_def split: option.splits)

lemma commands_raw_ok: "commands_of co d d' \<Longrightarrow> raw_ok d \<Longrightarrow> raw_ok d'"
  unfolding commands_of_def using raw.run_inv by blast

end
