(* ===== verification/Ingest_Order.thy ===== *)
theory Ingest_Order
  imports Ingest_Worker "HOL-Library.Sublist"
begin

text \<open>
  Order of processing: across crashes, restarts and reconnects of the worker of \<open>Ingest_Worker\<close>, which
  decoded frames the processor has been handed and which it is still owed. \<open>delivery_ok\<close> is the
  invariant of the state machine, phase by phase; the property follows by induction over the events.
\<close>

section \<open>The frames the processor owes\<close>

definition has_messages :: "ingest_db \<Rightarrow> frame_row \<Rightarrow> bool" where
  "has_messages d r \<longleftrightarrow> stored_messages (fr_id r) d \<noteq> []"

definition decoded_rows :: "string \<Rightarrow> ingest_db \<Rightarrow> frame_row list" where
  "decoded_rows sid d = filter (\<lambda>r. fr_session r = sid \<and> fr_decode_state r = RawDecoded) (ib_frames d)"

definition pending_rows :: "string \<Rightarrow> ingest_db \<Rightarrow> frame_row list" where
  "pending_rows sid d = filter (\<lambda>r. fr_processed_at_us r = None) (decoded_rows sid d)"

text \<open>The decoded frames of a session that carry messages, in receive order; those not marked processed.\<close>

definition decoded_ids :: "string \<Rightarrow> ingest_db \<Rightarrow> int list" where
  "decoded_ids sid d = map fr_id (filter (has_messages d) (decoded_rows sid d))"

definition owed_ids :: "string \<Rightarrow> ingest_db \<Rightarrow> int list" where
  "owed_ids sid d = map fr_id (filter (has_messages d) (pending_rows sid d))"

lemma same_evidence:
  assumes "evidence_tables d' = evidence_tables d"
  shows "decoded_rows sid d' = decoded_rows sid d" "pending_rows sid d' = pending_rows sid d" "has_messages d' = has_messages d"
    "decoded_ids sid d' = decoded_ids sid d" "owed_ids sid d' = owed_ids sid d"
  using assms by (simp_all add: decoded_rows_def pending_rows_def has_messages_def decoded_ids_def owed_ids_def stored_messages_def fun_eq_iff)

lemma pending_decoded_frames_rows:
  assumes "raw_ok d" "st_session s = sid"
  shows "pending_decoded_frames s d = map stored_frame_of (pending_rows sid d)"
proof -
  let ?rows = "filter (\<lambda>r. fr_session r = st_session s \<and> fr_decode_state r = RawDecoded \<and> fr_processed_at_us r = None) (ib_frames d)"
  have "sorted (map fr_id (ib_frames d))" using assms(1) unfolding raw_ok_def strict_sorted_iff by blast
  then have "sorted (map fr_id ?rows)" by (rule sorted_filter)
  then have "sort_key fr_id ?rows = ?rows" by (rule sort_key_id_if_sorted)
  moreover have "pending_rows sid d = ?rows" using assms(2) by (simp add: pending_rows_def decoded_rows_def conj_assoc)
  ultimately show ?thesis by (simp only: pending_decoded_frames_def)
qed

lemma decoded_ids_distinct: "raw_ok d \<Longrightarrow> distinct (decoded_ids sid d)"
proof -
  assume ok: "raw_ok d"
  have "distinct (map fr_id (ib_frames d))" using ok unfolding raw_ok_def strict_sorted_iff by blast
  then show ?thesis by (simp add: decoded_ids_def decoded_rows_def distinct_map_filter)
qed

lemma persist_owed:
  assumes "persist_raw_frame sha c n raw received monotonic s d = Inr (d', f)" and ok: "raw_ok d"
  shows "pending_rows sid d' = pending_rows sid d" "decoded_ids sid d' = decoded_ids sid d"
    "\<exists>r. ib_frames d' = ib_frames d @ [r] \<and> f = stored_frame_of r \<and> fr_session r = st_session s \<and> fr_decode_state r = RawPending"
proof -
  note t = persist_tables[OF assms(1)]
  have m: "has_messages d' = has_messages d" using t(1) by (simp add: has_messages_def stored_messages_def fun_eq_iff)
  have r: "decoded_rows sid d' = decoded_rows sid d" using t(1) by (simp add: decoded_rows_def new_frame_row_def)
  show "pending_rows sid d' = pending_rows sid d" "decoded_ids sid d' = decoded_ids sid d"
    by (simp_all add: pending_rows_def decoded_ids_def m r)
  show "\<exists>r. ib_frames d' = ib_frames d @ [r] \<and> f = stored_frame_of r \<and> fr_session r = st_session s \<and> fr_decode_state r = RawPending"
    using t by (simp add: new_frame_row_def)
qed

lemma filter_update_where_same:
  "(\<And>x. x \<in> set xs \<Longrightarrow> P x \<Longrightarrow> \<not> Q x \<and> \<not> Q (g x)) \<Longrightarrow> filter Q (update_where P g xs) = filter Q xs"
  by (induction xs) auto

lemma map_filter_update_where:
  "(\<And>x. x \<in> set xs \<Longrightarrow> P x \<Longrightarrow> Q (g x) = Q x \<and> h (g x) = h x) \<Longrightarrow> map h (filter Q (update_where P g xs)) = map h (filter Q xs)"
  by (induction xs) auto

lemma decoded_ids_alt: "decoded_ids sid d = map fr_id (filter (\<lambda>r. fr_session r = sid \<and> fr_decode_state r = RawDecoded \<and> has_messages d r) (ib_frames d))"
  by (simp add: decoded_ids_def decoded_rows_def conj_assoc)

lemma pending_rows_alt: "pending_rows sid d = filter (\<lambda>r. fr_session r = sid \<and> fr_decode_state r = RawDecoded \<and> fr_processed_at_us r = None) (ib_frames d)"
  by (simp add: pending_rows_def decoded_rows_def conj_assoc)

lemma owed_ids_alt: "owed_ids sid d = map fr_id (filter (has_messages d) (pending_rows sid d))"
  by (fact owed_ids_def)

lemma find_snoc_new: "(\<And>x. x \<in> set xs \<Longrightarrow> \<not> P x) \<Longrightarrow> find P (xs @ [y]) = (if P y then Some y else None)"
  by (induction xs) auto

text \<open>Decoding the newest frame of the session.\<close>

lemma decode_newest:
  assumes ok: "raw_ok d" and rows: "ib_frames d = rs @ [r]" and f: "f = stored_frame_of r" "fr_session r = sid" "st_session s = sid"
    and p: "fr_decode_state r = RawPending" and run: "decode_frame loads decompress now s f d = Inr (d', messages)"
  shows "(decoded_ids sid d' = decoded_ids sid d \<and> pending_rows sid d' = pending_rows sid d \<and> messages = [] \<and>
        (case frame_by_id (sf_id f) (ib_frames d') of None \<Rightarrow> False | Some x \<Rightarrow> fr_decode_state x = RawDecoded) = False) \<or>
    (\<exists>r'. pending_rows sid d' = pending_rows sid d @ [r'] \<and> f = stored_frame_of r' \<and> (has_messages d' r' \<longleftrightarrow> messages \<noteq> []) \<and>
        decoded_ids sid d' = decoded_ids sid d @ (if messages = [] then [] else [fr_id r']))"
proof -
  have s: "sorted_wrt (<) (map fr_id rs @ [fr_id r])" using ok rows unfolding raw_ok_def by simp
  then have other: "fr_id x \<noteq> fr_id r" if "x \<in> set rs" for x using that by (auto simp: sorted_wrt_append)
  have unprocessed: "fr_processed_at_us r = None" using ok rows p unfolding raw_ok_def by auto
  have find: "find_frame s f d = Some r" by (rule find_frame_row[OF ok]) (use rows f in \<open>simp_all add: stored_frame_of_def\<close>)
  have upd: "update_where P g (ib_frames d) = rs @ [if P r then g r else r]" if "\<And>x. x \<in> set rs \<Longrightarrow> P x \<Longrightarrow> fr_id x = fr_id r" for P g
  proof -
    have "map (\<lambda>x. if P x then g x else x) rs = rs" using that other by (intro map_idI) auto
    then show ?thesis by (simp add: rows update_where_def)
  qed
  from run show ?thesis
  proof (cases rule: decode_frame_cases)
    case (failed r0 e)
    have "ib_frames d' = rs @ [fail_frame e now r]" unfolding failed(4) using f p by (simp add: stored_frame_of_def) (subst upd, simp_all)
    moreover have "ib_messages d' = ib_messages d" using failed(4) by simp
    ultimately have "decoded_ids sid d' = decoded_ids sid d \<and> pending_rows sid d' = pending_rows sid d"
      using rows p by (simp add: decoded_ids_alt pending_rows_alt has_messages_def stored_messages_def)
    moreover have "frame_by_id (sf_id f) (ib_frames d') = Some (fail_frame e now r)"
      using \<open>ib_frames d' = rs @ [fail_frame e now r]\<close> other f(1) by (simp add: frame_by_id_def stored_frame_of_def find_snoc_new)
    ultimately show ?thesis using failed(3) by simp
  next
    case (decoded r0 r1 envelope)
    let ?r = "decode_row envelope r"
    have fr: "ib_frames d' = rs @ [?r]" using decoded(5) f upd by (simp add: stored_frame_of_def)
    have none: "filter (\<lambda>m. mg_frame m = fr_id r) (ib_messages d) = []"
      using ok rows p other unfolding raw_ok_def filter_empty_conv by (metis UnE decode_state.distinct(1) empty_iff insert_iff list.set(1) list.simps(15) set_append)
    have sm: "stored_messages (fr_id r) d' = map replayed messages"
      by (rule stored_message_rows) (use decoded(5) none f(1) in \<open>simp add: filter_message_rows stored_frame_of_def\<close>)
    have keep: "has_messages d' x = has_messages d x" if "x \<in> set rs" for x
      using other[OF that] decoded(5) filter_messages_other[of "fr_id x" "fr_id r"] f(1) by (simp add: has_messages_def stored_messages_def stored_frame_of_def)
    have "decoded_ids sid d' = decoded_ids sid d @ (if messages = [] then [] else [fr_id ?r])"
      using rows p f(2) sm keep unfolding decoded_ids_alt fr rows by (auto simp: has_messages_def cong: filter_cong)
    moreover have "pending_rows sid d' = pending_rows sid d @ [?r]"
      unfolding pending_rows_alt fr using rows p f(2) unprocessed by simp
    moreover have "has_messages d' ?r \<longleftrightarrow> messages \<noteq> []" using sm by (simp add: has_messages_def)
    moreover have "f = stored_frame_of ?r" using f(1) by (simp add: stored_frame_of_def)
    ultimately show ?thesis by blast
  qed (use find p ok rows f other in \<open>auto simp: stored_frame_of_def\<close>)
qed

lemma filter_update_where_gone:
  "(\<And>x. \<not> Q (g x)) \<Longrightarrow> filter Q (update_where P g xs) = filter (\<lambda>x. \<not> P x) (filter Q xs)"
  by (induction xs) auto

text \<open>Marking the first owed frame.\<close>

lemma pending_row_in:
  assumes "pending_rows sid d = r # rs"
  shows "r \<in> set (ib_frames d)" "fr_session r = sid" "fr_decode_state r = RawDecoded" "fr_processed_at_us r = None"
proof -
  have "r \<in> set (pending_rows sid d)" using assms by simp
  then show "r \<in> set (ib_frames d)" "fr_session r = sid" "fr_decode_state r = RawDecoded" "fr_processed_at_us r = None"
    by (auto simp: pending_rows_alt)
qed

lemma find_pending:
  assumes ok: "raw_ok d" and rows: "pending_rows sid d = r # rs" and s: "st_session s = sid" "f = stored_frame_of r"
  shows "find_frame s f d = Some r"
  by (rule find_frame_row[OF ok pending_row_in(1)[OF rows]]) (use pending_row_in(2)[OF rows] s in \<open>simp_all add: stored_frame_of_def\<close>)

lemma anchor_tables:
  assumes "anchor_checkpoint sha f c d = Inr d1"
  shows "ib_frames d1 = ib_frames d" "ib_messages d1 = ib_messages d" "ib_in_transaction d1 = ib_in_transaction d"
  using assms by (auto simp: anchor_checkpoint_def map_sum_id_Inr save_checkpoint_def Let_def split: option.splits if_splits)

lemma mark_first:
  assumes ok: "raw_ok d" and rows: "pending_rows sid d = r # rs" and s: "st_session s = sid" "f = stored_frame_of r"
    and run: "mark_processed sha now c s f d = Inr d'"
  shows "pending_rows sid d' = rs" "decoded_ids sid d' = decoded_ids sid d" "has_messages d' = has_messages d"
proof -
  note pr = pending_row_in[OF rows]
  have fi: "sf_id f = fr_id r" using s(2) by (simp add: stored_frame_of_def)
  have "find_frame s f d = Some r" by (rule find_pending[OF ok rows s])
  then obtain d1 where d1: "anchor_checkpoint sha f c d = Inr d1" and d': "d' = d1\<lparr> ib_frames := update_where
      (\<lambda>x. fr_id x = fr_id r \<and> fr_decode_state x = RawDecoded \<and> fr_processed_at_us x = None) (\<lambda>x. x\<lparr> fr_processed_at_us := Some now \<rparr>) (ib_frames d1) \<rparr>"
    using run pr(3,4) fi by (auto simp: mark_processed_def raw_transaction_def map_sum_id_Inr split: if_splits sum.splits)
  note t = anchor_tables[OF d1]
  show m: "has_messages d' = has_messages d" unfolding d' by (simp add: has_messages_def stored_messages_def fun_eq_iff t)
  show "decoded_ids sid d' = decoded_ids sid d"
    unfolding decoded_ids_alt m unfolding d' by (simp add: t) (rule map_filter_update_where, simp add: has_messages_def)
  have "pending_rows sid d' = filter (\<lambda>x. \<not> (fr_id x = fr_id r \<and> fr_decode_state x = RawDecoded \<and> fr_processed_at_us x = None)) (pending_rows sid d)"
    unfolding pending_rows_alt unfolding d' by (simp add: t) (subst filter_update_where_gone, simp_all)
  also have "\<dots> = rs"
  proof -
    have "distinct (map fr_id (ib_frames d))" using ok unfolding raw_ok_def strict_sorted_iff by blast
    then have "distinct (map fr_id (pending_rows sid d))" unfolding pending_rows_alt by (rule distinct_map_filter)
    then show ?thesis unfolding rows using pr(3,4) by (auto intro!: filter_True) (metis imageI)
  qed
  finally show "pending_rows sid d' = rs" .
qed

section \<open>The log follows the frames\<close>

text \<open>The log, with immediate repetitions removed, is a prefix of the decoded frames; what is left is owed, and the
  last frame of the log may be owed once more.\<close>

definition follows :: "int list \<Rightarrow> int list \<Rightarrow> int list \<Rightarrow> bool" where
  "follows handed decoded owed \<longleftrightarrow> (\<exists>rest. decoded = remdups_adj handed @ rest \<and>
     (owed = rest \<or> (handed \<noteq> [] \<and> owed = last handed # rest)))"

lemma remdups_adj_snoc: "remdups_adj (xs @ [x]) = (if xs \<noteq> [] \<and> last xs = x then remdups_adj xs else remdups_adj xs @ [x])"
  by (cases xs rule: rev_cases) (auto simp: remdups_adj_append_two)

lemma follows_hand_over:
  assumes "follows handed decoded (i # owed)" "distinct decoded"
  shows "decoded = remdups_adj (handed @ [i]) @ owed"
proof -
  obtain rest where d: "decoded = remdups_adj handed @ rest" and o: "i # owed = rest \<or> (handed \<noteq> [] \<and> i # owed = last handed # rest)"
    using assms(1) unfolding follows_def by blast
  show ?thesis
  proof (cases "handed \<noteq> [] \<and> last handed = i")
    case True
    then have "i \<in> set (remdups_adj handed)" by auto
    then have "i \<notin> set rest" using assms(2) d by auto
    then show ?thesis using o d True by (auto simp: remdups_adj_snoc)
  next
    case False
    then show ?thesis using o d by (auto simp: remdups_adj_snoc)
  qed
qed

definition delivery_ok :: "string \<Rightarrow> ingest_world \<Rightarrow> bool" where
  "delivery_ok sid x \<longleftrightarrow>
    (let d = iw_db x; done = remdups_adj (iw_log x); rows = pending_rows sid d; behind = follows (iw_log x) (decoded_ids sid d) (owed_ids sid d);
         current = (decoded_ids sid d = done)
     in raw_ok d \<and> \<not> ib_in_transaction d \<and>
       (case iw_worker x of
          None \<Rightarrow> behind
        | Some w \<Rightarrow> st_session (wk_store w) = sid \<and>
           (case wk_phase w of
              Recovering fs \<Rightarrow> fs = map stored_frame_of rows \<and> behind
            | Recovered f ms fs \<Rightarrow> (\<exists>r rs. rows = r # rs \<and> f = stored_frame_of r \<and> fs = map stored_frame_of rs \<and> (has_messages d r \<longleftrightarrow> ms \<noteq> []) \<and>
                (if ms = [] then behind
                 else iw_log x \<noteq> [] \<and> last (iw_log x) = fr_id r \<and> decoded_ids sid d = done @ map fr_id (filter (has_messages d) rs)))
            | Persisted f \<Rightarrow> rows = [] \<and> current \<and>
                (\<exists>rs r. ib_frames d = rs @ [r] \<and> f = stored_frame_of r \<and> fr_session r = sid \<and> fr_decode_state r = RawPending)
            | Decoded_Frame f ms \<Rightarrow> (\<exists>r. rows = [r] \<and> f = stored_frame_of r \<and> has_messages d r \<and> decoded_ids sid d = done @ [fr_id r])
            | Handed f \<Rightarrow> (\<exists>r. rows = [r] \<and> f = stored_frame_of r \<and> has_messages d r \<and> current \<and> iw_log x \<noteq> [] \<and> last (iw_log x) = fr_id r)
            | Empty_Frame f \<Rightarrow> (\<exists>r. rows = [r] \<and> f = stored_frame_of r \<and> \<not> has_messages d r \<and> current)
            | _ \<Rightarrow> rows = [] \<and> current)))"

lemma delivery_behind:
  assumes "delivery_ok sid x"
  shows "follows (iw_log x) (decoded_ids sid (iw_db x)) (owed_ids sid (iw_db x))"
proof (cases "iw_worker x")
  case (Some w)
  then show ?thesis using assms
    by (cases "wk_phase w") (fastforce simp: delivery_ok_def Let_def follows_def owed_ids_def split: if_splits)+
qed (use assms in \<open>simp add: delivery_ok_def Let_def\<close>)

text \<open>A live error: the processor fails on a frame it is handed by the open socket, or the mark of that frame fails.\<close>

definition live_error :: "codec \<Rightarrow> string \<Rightarrow> ingest_world \<Rightarrow> ingest_event \<Rightarrow> bool" where
  "live_error co sid x e =
    (case (iw_worker x, iw_worker (ingest_step co sid x e)) of
       (Some w, Some w') \<Rightarrow>
         (case (wk_phase w, wk_phase w') of
            (Decoded_Frame f ms, Disconnecting reason cancelled) \<Rightarrow> True
          | (Handed f, Disconnecting reason cancelled) \<Rightarrow> True
          | _ \<Rightarrow> False)
     | _ \<Rightarrow> False)"

fun smooth_run :: "codec \<Rightarrow> string \<Rightarrow> ingest_world \<Rightarrow> ingest_event list \<Rightarrow> bool" where
  "smooth_run co sid x [] = True"
| "smooth_run co sid x (e # es) = (\<not> live_error co sid x e \<and> smooth_run co sid (ingest_step co sid x e) es)"

lemma transaction_tables:
  "start_run version now run_id s d = Inr (d', s') \<Longrightarrow> ib_in_transaction d' = ib_in_transaction d"
  "finish_run reason now s d = Inr d' \<Longrightarrow> ib_in_transaction d' = ib_in_transaction d"
  "open_connection i now b s d = Inr (d', c) \<Longrightarrow> ib_in_transaction d' = ib_in_transaction d"
  "close_connection c0 reason now d = Inr d' \<Longrightarrow> ib_in_transaction d' = ib_in_transaction d"
  "record_gap c1 reason started ended s d = Inr (d', g) \<Longrightarrow> ib_in_transaction d' = ib_in_transaction d"
  "close_gap g ended' s d = Inr d' \<Longrightarrow> ib_in_transaction d' = ib_in_transaction d"
  "persist_raw_frame sha c n raw received monotonic s d = Inr (d', f) \<Longrightarrow> ib_in_transaction d' = ib_in_transaction d"
  by (auto simp: start_run_def finish_run_def open_connection_def close_connection_def record_gap_def close_gap_def persist_raw_frame_def
      insert_gap_def recover_gap_def close_orphans_def Let_def case_prod_beta map_sum_id_Inr raw_transaction_def split: option.splits if_splits)

lemma transaction_decode_mark:
  "decode_frame loads decompress now s f d = Inr (d', ms) \<Longrightarrow> ib_in_transaction d' = ib_in_transaction d"
  "mark_processed sha now c s f d = Inr d' \<Longrightarrow> ib_in_transaction d' = ib_in_transaction d"
  by (erule decode_frame_cases; simp) (erule mark_processed_cases; simp)

definition same_transaction :: "ingest_db \<Rightarrow> ingest_db \<Rightarrow> bool" where
  "same_transaction d d' \<longleftrightarrow> ib_in_transaction d' = ib_in_transaction d"

lemmas same_transaction_intros = transaction_tables[folded same_transaction_def] transaction_decode_mark[folded same_transaction_def]

lemma transaction_step: "same_transaction d (raw_step loads decompress sha sha' d cmd)"
proof -
  have k: "same_transaction d (kept d r)" if "\<And>d'. r = Inr d' \<Longrightarrow> same_transaction d d'" for r
    by (cases r) (use that in \<open>simp_all add: kept_def same_transaction_def[of d d]\<close>)
  show ?thesis
    by (cases cmd) (auto simp: map_sum_id_Inr intro!: k dest: same_transaction_intros, simp_all add: same_transaction_def)
qed

lemma commands_transaction: "commands_of co d d' \<Longrightarrow> ib_in_transaction d' = ib_in_transaction d"
proof -
  have "ib_in_transaction (foldl (co_step co) d cs) = ib_in_transaction d" for cs
    by (induction cs arbitrary: d) (simp_all add: transaction_step[unfolded same_transaction_def])
  then show "commands_of co d d' \<Longrightarrow> ib_in_transaction d' = ib_in_transaction d" by (auto simp: commands_of_def)
qed

fun idle_phase :: "worker_phase \<Rightarrow> bool" where
  "idle_phase (Recovering fs) = False"
| "idle_phase (Recovered f ms fs) = False"
| "idle_phase (Persisted f) = False"
| "idle_phase (Decoded_Frame f ms) = False"
| "idle_phase (Handed f) = False"
| "idle_phase (Empty_Frame f) = False"
| "idle_phase p = True"

definition tables_ok :: "ingest_db \<Rightarrow> bool" where
  "tables_ok d \<longleftrightarrow> raw_ok d \<and> \<not> ib_in_transaction d"

lemma commands_tables_ok: "commands_of co d d' \<Longrightarrow> tables_ok d \<Longrightarrow> tables_ok d'"
  by (simp add: tables_ok_def commands_raw_ok commands_transaction)

lemma delivery_idle: "idle_phase (wk_phase w) \<Longrightarrow> delivery_ok sid \<lparr> iw_worker = Some w, iw_db = d, iw_log = l \<rparr> \<longleftrightarrow>
    tables_ok d \<and> st_session (wk_store w) = sid \<and> pending_rows sid d = [] \<and> decoded_ids sid d = remdups_adj l"
  by (cases "wk_phase w") (simp_all add: delivery_ok_def Let_def tables_ok_def)

lemma delivery_none: "delivery_ok sid \<lparr> iw_worker = None, iw_db = d, iw_log = l \<rparr> \<longleftrightarrow>
    tables_ok d \<and> follows l (decoded_ids sid d) (owed_ids sid d)"
  by (simp add: delivery_ok_def Let_def tables_ok_def)

lemma delivery_worker:
  assumes "delivery_ok sid \<lparr> iw_worker = Some w, iw_db = d, iw_log = l \<rparr>"
  shows "tables_ok d" "st_session (wk_store w) = sid" "follows l (decoded_ids sid d) (owed_ids sid d)"
  using assms delivery_behind[OF assms] by (simp_all add: delivery_ok_def Let_def tables_ok_def)

lemma finished_tables [simp]:
  "ib_frames (kept d (finish_run reason now s d)) = ib_frames d" "ib_messages (kept d (finish_run reason now s d)) = ib_messages d"
  "ib_checkpoints (kept d (finish_run reason now s d)) = ib_checkpoints d"
  by (auto simp: kept_def dest: other_tables split: sum.splits)

lemma advance_store:
  assumes "advance co now run_id outcome checkpoint w d = (Some w', d', h)"
  shows "wk_store w' = wk_store w"
proof (cases "wk_phase w")
  case (Recovering fs)
  then show ?thesis using assms
    by (cases fs) (auto simp: advance_def Let_def recover_step_def end_task_def split: sum.splits if_splits processor_outcome.splits)
qed (use assms in \<open>auto simp: advance_def Let_def store_frame_def disconnect_def end_task_def
      split: sum.splits option.splits if_splits prod.splits processor_outcome.splits\<close>)

lemma idle_advance:
  assumes "advance co now run_id outcome checkpoint w d = (v, d', h)" "idle_phase (wk_phase w)" "\<And>raw a b. wk_phase w \<noteq> Ready raw a b"
  shows "h = [] \<and> evidence_tables d' = evidence_tables d \<and> (case v of None \<Rightarrow> True | Some w' \<Rightarrow> idle_phase (wk_phase w'))"
proof (cases "wk_phase w")
  case (Opened raw received monotonic)
  then show ?thesis using assms(1) by (auto simp: advance_def Let_def disconnect_def dest: other_tables split: sum.splits option.splits)
next
  case (Disconnecting reason cancelled)
  then show ?thesis using assms(1)
    by (auto simp: advance_def Let_def end_task_def dest: other_tables split: sum.splits option.splits)
next
  case (Disconnected reason since)
  then show ?thesis using assms(1)
    by (auto simp: advance_def Let_def end_task_def dest: other_tables split: sum.splits if_splits)
next
  case Quitting
  then show ?thesis using assms(1)
    by (auto simp: advance_def Let_def end_task_def dest: other_tables split: sum.splits if_splits)
qed (use assms in \<open>auto simp: advance_def Let_def end_task_def split: if_splits\<close>)

lemma follows_same:
  assumes "evidence_tables d' = evidence_tables d" "follows l (decoded_ids sid d) (owed_ids sid d)"
  shows "follows l (decoded_ids sid d') (owed_ids sid d')"
  using assms(2) unfolding same_evidence[OF assms(1)] .

lemma delivery_idle_advance:
  assumes ok: "delivery_ok sid \<lparr> iw_worker = Some w, iw_db = d, iw_log = l \<rparr>" and run: "advance co now run_id outcome checkpoint w d = (v, d', h)"
    and idle: "idle_phase (wk_phase w)" "\<And>raw a b. wk_phase w \<noteq> Ready raw a b"
  shows "delivery_ok sid \<lparr> iw_worker = v, iw_db = d', iw_log = l @ h \<rparr>"
proof -
  note dw = delivery_worker[OF ok]
  have t: "tables_ok d'" by (rule commands_tables_ok[OF commands_advance[OF run] dw(1)])
  note e = idle_advance[OF run idle]
  then have ev: "evidence_tables d' = evidence_tables d" by blast
  have p: "pending_rows sid d' = []" "decoded_ids sid d' = remdups_adj l" using ok idle(1) by (simp_all add: delivery_idle same_evidence[OF ev])
  show ?thesis
  proof (cases v)
    case None
    then show ?thesis using t e follows_same[OF ev dw(3)] by (simp add: delivery_none)
  next
    case (Some w')
    then show ?thesis using t e p dw(2) advance_store[OF run[unfolded Some]] by (simp add: delivery_idle)
  qed
qed

lemma delivery_ready:
  assumes ok: "delivery_ok sid \<lparr> iw_worker = Some w, iw_db = d, iw_log = l \<rparr>" and run: "advance co now run_id outcome checkpoint w d = (v, d', h)"
    and phase: "wk_phase w = Ready raw a b"
  shows "delivery_ok sid \<lparr> iw_worker = v, iw_db = d', iw_log = l @ h \<rparr>"
proof (cases "wk_upstream w")
  case None
  then show ?thesis using run phase ok by (auto simp: advance_def Let_def)
next
  case (Some c)
  note dw = delivery_worker[OF ok]
  have t: "tables_ok d'" by (rule commands_tables_ok[OF commands_advance[OF run] dw(1)])
  have p: "pending_rows sid d = []" "decoded_ids sid d = remdups_adj l" using ok phase by (simp_all add: delivery_idle)
  obtain w' where w': "store_frame co raw a b w c d = (w', d')" "v = Some w'" "h = []"
    using run phase Some by (auto simp: advance_def Let_def split: prod.splits)
  show ?thesis
  proof (cases "persist_raw_frame (co_sha co) c (wk_sequence w + 1) raw a b (wk_store w) d")
    case (Inl e)
    then have "d' = d" "wk_phase w' = Disconnecting (''error:'' @ error_name e) False" using w'(1) by (auto simp: store_frame_def disconnect_def)
    then show ?thesis using t p w' dw(2) advance_store[OF run[unfolded w'(2)]] by (simp add: delivery_idle)
  next
    case (Inr y)
    then obtain f where "y = (d', f)" and ph: "wk_phase w' = Persisted f" using w'(1) by (cases y) (auto simp: store_frame_def)
    then have per: "persist_raw_frame (co_sha co) c (wk_sequence w + 1) raw a b (wk_store w) d = Inr (d', f)" using Inr by simp
    have "raw_ok d" using dw(1) by (simp add: tables_ok_def)
    note po = persist_owed[OF per this]
    obtain r where "ib_frames d' = ib_frames d @ [r]" "f = stored_frame_of r" "fr_session r = sid" "fr_decode_state r = RawPending"
      using po(3) dw(2) by auto
    then show ?thesis using po(1,2) p t ph w' dw(2) advance_store[OF run[unfolded w'(2)]] by (simp add: delivery_ok_def Let_def tables_ok_def)
  qed
qed

lemma recover_decode:
  assumes ok: "tables_ok d" and rows: "pending_rows sid d = r # rs" and s: "st_session s = sid"
  shows "decode_frame loads decompress now s (stored_frame_of r) d = Inr (d, stored_messages (fr_id r) d)"
proof -
  have "find_frame s (stored_frame_of r) d = Some r" using ok by (intro find_pending[OF _ rows s refl]) (simp add: tables_ok_def)
  then show ?thesis using pending_row_in(3)[OF rows] by (simp add: decode_frame_def stored_frame_of_def)
qed

lemma owed_Cons: "pending_rows sid d = r # rs \<Longrightarrow> owed_ids sid d =
    (if has_messages d r then fr_id r # map fr_id (filter (has_messages d) rs) else map fr_id (filter (has_messages d) rs))"
  by (simp add: owed_ids_def)

lemma follows_handed:
  assumes ok: "tables_ok d" and rows: "pending_rows sid d = r # rs" "has_messages d r" and f: "follows l (decoded_ids sid d) (owed_ids sid d)"
  shows "decoded_ids sid d = remdups_adj (l @ [fr_id r]) @ map fr_id (filter (has_messages d) rs)"
    "follows (l @ [fr_id r]) (decoded_ids sid d) (owed_ids sid d)"
proof -
  have dist: "distinct (decoded_ids sid d)" using ok by (simp add: tables_ok_def decoded_ids_distinct)
  have o: "owed_ids sid d = fr_id r # map fr_id (filter (has_messages d) rs)" using rows by (simp add: owed_Cons)
  show e: "decoded_ids sid d = remdups_adj (l @ [fr_id r]) @ map fr_id (filter (has_messages d) rs)"
    by (rule follows_hand_over[OF f[unfolded o] dist])
  show "follows (l @ [fr_id r]) (decoded_ids sid d) (owed_ids sid d)" unfolding follows_def
    by (rule exI[of _ "map fr_id (filter (has_messages d) rs)"]) (use e o in simp)
qed

lemma delivery_recovering:
  assumes ok: "delivery_ok sid \<lparr> iw_worker = Some w, iw_db = d, iw_log = l \<rparr>" and run: "advance co now run_id outcome checkpoint w d = (v, d', h)"
    and phase: "wk_phase w = Recovering fs"
  shows "delivery_ok sid \<lparr> iw_worker = v, iw_db = d', iw_log = l @ h \<rparr>"
proof (cases fs)
  case Nil
  have p: "pending_rows sid d = []" and t: "tables_ok d" and s: "st_session (wk_store w) = sid" and f: "follows l (decoded_ids sid d) (owed_ids sid d)"
    using ok phase Nil by (simp_all add: delivery_ok_def Let_def tables_ok_def)
  have "decoded_ids sid d = remdups_adj l" using f p by (auto simp: follows_def owed_ids_def)
  then show ?thesis using run phase Nil p t s by (auto simp: advance_def Let_def delivery_idle)
next
  case (Cons g gs)
  note dw = delivery_worker[OF ok]
  have t: "tables_ok d'" by (rule commands_tables_ok[OF commands_advance[OF run] dw(1)])
  have "map stored_frame_of (pending_rows sid d) = g # gs" using ok phase Cons by (simp add: delivery_ok_def Let_def)
  then obtain r rs where rows: "pending_rows sid d = r # rs" and g: "g = stored_frame_of r" "gs = map stored_frame_of rs" by blast
  note dec = recover_decode[OF dw(1) rows dw(2)]
  have hm: "has_messages d r \<longleftrightarrow> stored_messages (fr_id r) d \<noteq> []" by (simp add: has_messages_def)
  have id: "sf_id g = fr_id r" using g by (simp add: stored_frame_of_def)
  show ?thesis
  proof (cases "stored_messages (fr_id r) d = []")
    case True
    then have "v = Some (w\<lparr> wk_phase := Recovered g [] gs \<rparr>)" "d' = d" "h = []"
      using run phase Cons dec g by (auto simp: advance_def Let_def recover_step_def)
    then show ?thesis using dw rows g hm True by (simp add: delivery_ok_def Let_def tables_ok_def)
  next
    case False
    note fh = follows_handed[OF dw(1) rows hm[THEN iffD2, OF False] dw(3)]
    show ?thesis
    proof (cases outcome)
      case Committed
      then have "v = Some (w\<lparr> wk_phase := Recovered g (stored_messages (fr_id r) d) gs \<rparr>)" "d' = d" "h = [fr_id r]"
        using run phase Cons dec g False id by (auto simp: advance_def Let_def recover_step_def)
      then show ?thesis using dw rows g hm False fh(1) by (simp add: delivery_ok_def Let_def tables_ok_def)
    next
      case (Raised e)
      then have "v = None" "h = [fr_id r]" "evidence_tables d' = evidence_tables d"
        using run phase Cons dec g False id by (auto simp: advance_def Let_def recover_step_def end_task_def)
      then show ?thesis using t follows_same[OF _ fh(2)] by (simp add: delivery_none)
    qed
  qed
qed

lemma delivery_recovered:
  assumes ok: "delivery_ok sid \<lparr> iw_worker = Some w, iw_db = d, iw_log = l \<rparr>" and run: "advance co now run_id outcome checkpoint w d = (v, d', h)"
    and phase: "wk_phase w = Recovered f ms fs"
  shows "delivery_ok sid \<lparr> iw_worker = v, iw_db = d', iw_log = l @ h \<rparr>"
proof -
  note dw = delivery_worker[OF ok]
  have t: "tables_ok d'" by (rule commands_tables_ok[OF commands_advance[OF run] dw(1)])
  have rk: "raw_ok d" using dw(1) by (simp add: tables_ok_def)
  obtain r rs where rows: "pending_rows sid d = r # rs" and f: "f = stored_frame_of r" "fs = map stored_frame_of rs"
    and hm: "has_messages d r \<longleftrightarrow> ms \<noteq> []" and l: "ms \<noteq> [] \<Longrightarrow> decoded_ids sid d = remdups_adj l @ map fr_id (filter (has_messages d) rs)"
    using ok phase by (auto simp: delivery_ok_def Let_def split: if_splits)
  let ?c = "if ms = [] then None else checkpoint"
  show ?thesis
  proof (cases "mark_processed (co_doc_sha co) now ?c (wk_store w) f d")
    case (Inl e)
    then have e: "v = None" "h = []" "evidence_tables d' = evidence_tables d" using run phase by (auto simp: advance_def Let_def end_task_def)
    then show ?thesis using t follows_same[OF e(3) dw(3)] by (simp add: delivery_none)
  next
    case (Inr d1)
    then have e: "v = Some (w\<lparr> wk_phase := Recovering fs \<rparr>)" "d' = d1" "h = []" using run phase by (auto simp: advance_def Let_def)
    note mk = mark_first[OF rk rows dw(2) f(1) Inr]
    have "owed_ids sid d1 = map fr_id (filter (has_messages d) rs)" by (simp add: owed_ids_def mk)
    then have "follows l (decoded_ids sid d1) (owed_ids sid d1)"
      using dw(3) hm l unfolding mk(2) owed_Cons[OF rows] by (cases "ms = []") (auto simp: follows_def)
    then show ?thesis using e t dw(2) f(2) mk(1) by (simp add: delivery_ok_def Let_def tables_ok_def)
  qed
qed

lemma delivery_persisted:
  assumes ok: "delivery_ok sid \<lparr> iw_worker = Some w, iw_db = d, iw_log = l \<rparr>" and run: "advance co now run_id outcome checkpoint w d = (v, d', h)"
    and phase: "wk_phase w = Persisted f"
  shows "delivery_ok sid \<lparr> iw_worker = v, iw_db = d', iw_log = l @ h \<rparr>"
proof -
  note dw = delivery_worker[OF ok]
  have t: "tables_ok d'" by (rule commands_tables_ok[OF commands_advance[OF run] dw(1)])
  have rk: "raw_ok d" using dw(1) by (simp add: tables_ok_def)
  obtain rs r where p: "pending_rows sid d = []" "decoded_ids sid d = remdups_adj l" and r: "ib_frames d = rs @ [r]" "f = stored_frame_of r"
      "fr_session r = sid" "fr_decode_state r = RawPending"
    using ok phase by (auto simp: delivery_ok_def Let_def)
  show ?thesis
  proof (cases "decode_frame (co_loads co) (co_decompress co) now (wk_store w) f d")
    case (Inl e)
    then have "v = Some (disconnect (error_name e) w)" "d' = d" "h = []" using run phase by (auto simp: advance_def Let_def)
    then show ?thesis using p dw by (simp add: delivery_idle disconnect_def)
  next
    case (Inr y)
    obtain d1 ms where y: "y = (d1, ms)" by fastforce
    have d1: "d' = d1" "h = []" using run phase Inr y by (auto simp: advance_def Let_def split: if_splits option.splits)
    have st: "st_session (wk_store (w\<lparr> wk_phase := p \<rparr>)) = sid" for p using dw(2) by simp
    from decode_newest[OF rk r(1,2,3) dw(2) r(4) Inr[unfolded y]] show ?thesis
    proof (elim disjE exE conjE)
      assume same: "decoded_ids sid d1 = decoded_ids sid d" "pending_rows sid d1 = pending_rows sid d" "ms = []"
        "(case frame_by_id (sf_id f) (ib_frames d1) of None \<Rightarrow> False | Some x \<Rightarrow> fr_decode_state x = RawDecoded) = False"
      then have "v = Some (w\<lparr> wk_phase := Reading \<rparr>)" using run phase Inr y by (auto simp: advance_def Let_def split: option.splits)
      then show ?thesis using same p t d1 st by (simp add: delivery_idle)
    next
      fix r' assume n: "pending_rows sid d1 = pending_rows sid d @ [r']" "f = stored_frame_of r'" "has_messages d1 r' \<longleftrightarrow> ms \<noteq> []"
        "decoded_ids sid d1 = decoded_ids sid d @ (if ms = [] then [] else [fr_id r'])"
      show ?thesis
      proof (cases "ms = []")
        case True
        have "r' \<in> set (ib_frames d1)" "fr_decode_state r' = RawDecoded" using pending_row_in[OF n(1)[unfolded p(1) append_Nil]] by auto
        then have "frame_by_id (fr_id r') (ib_frames d1) \<noteq> None" by (auto simp: frame_by_id_def find_None_iff)
        then obtain x where x: "frame_by_id (fr_id r') (ib_frames d1) = Some x" by blast
        have "raw_ok d1" using t d1(1) by (simp add: tables_ok_def)
        then have "x = r'" using raw_ok_same_row[of d1 x r'] frame_by_id_in[OF x] \<open>r' \<in> set (ib_frames d1)\<close> by blast
        then have "frame_by_id (sf_id f) (ib_frames d1) = Some r'" using x n(2) by (simp add: stored_frame_of_def)
        then have "v = Some (w\<lparr> wk_phase := Empty_Frame f \<rparr>)"
          using run phase Inr y True \<open>fr_decode_state r' = RawDecoded\<close> by (auto simp: advance_def Let_def)
        then show ?thesis using n p t d1 st True by (simp add: delivery_ok_def Let_def tables_ok_def)
      next
        case False
        then have "v = Some (w\<lparr> wk_phase := Decoded_Frame f ms \<rparr>)" using run phase Inr y by (auto simp: advance_def Let_def)
        then show ?thesis using n p t d1 st False by (simp add: delivery_ok_def Let_def tables_ok_def)
      qed
    qed
  qed
qed

lemma mark_empty_succeeds:
  assumes ok: "tables_ok d" and rows: "pending_rows sid d = r # rs" and s: "st_session s = sid"
  shows "\<exists>d'. mark_processed sha now None s (stored_frame_of r) d = Inr d'"
proof -
  have "find_frame s (stored_frame_of r) d = Some r" using ok by (intro find_pending[OF _ rows s refl]) (simp add: tables_ok_def)
  then show ?thesis using pending_row_in(3,4)[OF rows] ok by (simp add: mark_processed_def raw_transaction_def tables_ok_def anchor_checkpoint_def)
qed

lemma delivery_marks:
  assumes ok: "delivery_ok sid \<lparr> iw_worker = Some w, iw_db = d, iw_log = l \<rparr>" and run: "advance co now run_id outcome checkpoint w d = (v, d', h)"
    and phase: "wk_phase w = Handed f \<or> wk_phase w = Empty_Frame f"
    and smooth: "case v of None \<Rightarrow> True | Some w' \<Rightarrow> wk_phase w = Handed f \<longrightarrow> (\<forall>reason b. wk_phase w' \<noteq> Disconnecting reason b)"
  shows "delivery_ok sid \<lparr> iw_worker = v, iw_db = d', iw_log = l @ h \<rparr>"
proof -
  note dw = delivery_worker[OF ok]
  have t: "tables_ok d'" by (rule commands_tables_ok[OF commands_advance[OF run] dw(1)])
  have rk: "raw_ok d" using dw(1) by (simp add: tables_ok_def)
  obtain r where rows: "pending_rows sid d = [r]" and f: "f = stored_frame_of r" and p: "decoded_ids sid d = remdups_adj l"
    using ok phase by (auto simp: delivery_ok_def Let_def)
  define c where "c = (if wk_phase w = Handed f then checkpoint else None)"
  obtain d1 where d1: "mark_processed (co_doc_sha co) now c (wk_store w) f d = Inr d1"
  proof (cases "wk_phase w = Handed f")
    case True
    then show ?thesis using run smooth that by (auto simp: c_def advance_def Let_def disconnect_def split: sum.splits)
  next
    case False
    then show ?thesis using mark_empty_succeeds[OF dw(1) rows dw(2)] f that by (auto simp: c_def)
  qed
  have "v = Some (w\<lparr> wk_phase := Reading \<rparr>)" "d' = d1" "h = []" using run phase d1 by (auto simp: advance_def Let_def c_def)
  then show ?thesis using mark_first[OF rk rows dw(2) f d1] t dw(2) p by (simp add: delivery_idle)
qed

lemma delivery_decoded:
  assumes ok: "delivery_ok sid \<lparr> iw_worker = Some w, iw_db = d, iw_log = l \<rparr>" and run: "advance co now run_id outcome checkpoint w d = (v, d', h)"
    and phase: "wk_phase w = Decoded_Frame f ms"
    and smooth: "case v of None \<Rightarrow> True | Some w' \<Rightarrow> (\<forall>reason b. wk_phase w' \<noteq> Disconnecting reason b)"
  shows "delivery_ok sid \<lparr> iw_worker = v, iw_db = d', iw_log = l @ h \<rparr>"
proof -
  note dw = delivery_worker[OF ok]
  obtain r where rows: "pending_rows sid d = [r]" and f: "f = stored_frame_of r" "has_messages d r" and p: "decoded_ids sid d = remdups_adj l @ [fr_id r]"
    using ok phase by (auto simp: delivery_ok_def Let_def)
  have out: "outcome = Committed" using run phase smooth by (cases outcome) (auto simp: advance_def Let_def disconnect_def)
  then have v: "v = Some (w\<lparr> wk_phase := Handed f \<rparr>)" "d' = d" "h = [fr_id r]" using run phase f by (auto simp: advance_def Let_def stored_frame_of_def)
  have "decoded_ids sid d = remdups_adj (l @ [fr_id r])"
    using follows_handed(1)[OF dw(1) rows f(2) dw(3)] by simp
  then show ?thesis using v rows f dw by (simp add: delivery_ok_def Let_def tables_ok_def)
qed

lemma delivery_advance:
  assumes ok: "delivery_ok sid \<lparr> iw_worker = Some w, iw_db = d, iw_log = l \<rparr>" and run: "advance co now run_id outcome checkpoint w d = (v, d', h)"
    and smooth: "\<not> live_error co sid \<lparr> iw_worker = Some w, iw_db = d, iw_log = l \<rparr> (Advance now run_id outcome checkpoint)"
  shows "delivery_ok sid \<lparr> iw_worker = v, iw_db = d', iw_log = l @ h \<rparr>"
proof -
  have calm: "case v of None \<Rightarrow> True | Some w' \<Rightarrow> (\<forall>reason b. wk_phase w' \<noteq> Disconnecting reason b)"
    if "(\<exists>f. wk_phase w = Handed f) \<or> (\<exists>f ms. wk_phase w = Decoded_Frame f ms)"
    using smooth that run by (cases v) (auto simp: live_error_def with_worker_def)
  show ?thesis
  proof (cases "wk_phase w")
    case (Handed f)
    then show ?thesis using delivery_marks[OF ok run, of f] calm by (auto split: option.splits)
  next
    case (Empty_Frame f)
    then show ?thesis using delivery_marks[OF ok run, of f] by (auto split: option.splits)
  next
    case (Decoded_Frame f ms)
    then show ?thesis using delivery_decoded[OF ok run, of f ms] calm by (auto split: option.splits)
  qed (use delivery_idle_advance[OF ok run] delivery_ready[OF ok run] delivery_recovering[OF ok run] delivery_recovered[OF ok run]
      delivery_persisted[OF ok run] in auto)
qed

lemma delivery_launch:
  assumes "tables_ok d" "follows l (decoded_ids sid d) (owed_ids sid d)" "launch now run_id sid d = (v, d')"
  shows "delivery_ok sid \<lparr> iw_worker = v, iw_db = d', iw_log = l \<rparr>"
proof (cases "start_run RAW_REDUCER_VERSION now run_id \<lparr> st_session = sid, st_run = None, st_recovered_gap = None \<rparr> d")
  case (Inl e)
  then show ?thesis using assms by (simp add: launch_def delivery_none)
next
  case (Inr y)
  obtain d1 s where y: "y = (d1, s)" by fastforce
  have c: "commands_of co d d1"
    by (rule commands_one[where c = "Start_Run RAW_REDUCER_VERSION now run_id \<lparr> st_session = sid, st_run = None, st_recovered_gap = None \<rparr>"])
      (simp add: Inr y)
  have e: "evidence_tables d1 = evidence_tables d" using start_run_tables[OF Inr[unfolded y]] by blast
  have s: "st_session s = sid" using Inr y
    by (auto simp: start_run_def case_prod_beta dest!: raw_transaction_Inr split: option.splits if_splits)
  note t = commands_tables_ok[OF c assms(1)]
  have "pending_decoded_frames s d1 = map stored_frame_of (pending_rows sid d1)"
    by (rule pending_decoded_frames_rows[OF _ s]) (use t in \<open>simp add: tables_ok_def\<close>)
  then show ?thesis using assms(3) Inr y s t follows_same[OF e assms(2)] by (auto simp: launch_def delivery_ok_def Let_def tables_ok_def)
qed

lemma delivery_received:
  assumes ok: "delivery_ok sid \<lparr> iw_worker = Some w, iw_db = d, iw_log = l \<rparr>" and phase: "wk_phase w = Reading"
  shows "delivery_ok sid (ingest_step co sid \<lparr> iw_worker = Some w, iw_db = d, iw_log = l \<rparr> (Received raw received monotonic i now b))"
proof -
  have p: "tables_ok d" "st_session (wk_store w) = sid" "pending_rows sid d = []" "decoded_ids sid d = remdups_adj l"
    using ok phase by (simp_all add: delivery_idle)
  show ?thesis
  proof (cases "wk_upstream w")
    case (Some c)
    then show ?thesis using p phase by (simp add: with_worker_def delivery_idle)
  next
    case None
    show ?thesis
    proof (cases "open_connection i now b (wk_store w) d")
      case (Inl e)
      then show ?thesis using p phase None by (simp add: with_worker_def delivery_idle disconnect_def)
    next
      case (Inr y)
      obtain d1 c where y: "y = (d1, c)" by fastforce
      have e: "evidence_tables d1 = evidence_tables d" using other_tables(2)[OF Inr[unfolded y]] by blast
      have "tables_ok d1" by (rule commands_tables_ok[OF commands_other(4)[OF Inr[unfolded y]] p(1)])
      then show ?thesis using Inr y p phase None by (simp add: with_worker_def delivery_idle same_evidence[OF e])
    qed
  qed
qed

lemma delivery_step:
  assumes "delivery_ok sid x" "\<not> live_error co sid x e"
  shows "delivery_ok sid (ingest_step co sid x e)"
proof -
  obtain v d l where x: "x = \<lparr> iw_worker = v, iw_db = d, iw_log = l \<rparr>" by (cases x) auto
  note ok = assms(1)[unfolded x]
  have behind: "tables_ok d" "follows l (decoded_ids sid d) (owed_ids sid d)"
    using delivery_behind[OF ok] ok by (simp_all add: delivery_ok_def Let_def tables_ok_def)
  have kept_tables: "delivery_ok sid \<lparr> iw_worker = v, iw_db = d', iw_log = l \<rparr>"
    if "evidence_tables d' = evidence_tables d" "ib_in_transaction d' = ib_in_transaction d" "raw_ok d'" for d'
  proof -
    have f: "ib_frames d' = ib_frames d" and r: "raw_ok d' = raw_ok d" using that behind(1) by (simp_all add: tables_ok_def)
    show ?thesis using ok unfolding delivery_ok_def Let_def ingest_world.simps same_evidence[OF that(1)] that(2) f r .
  qed
  show ?thesis
  proof (cases e)
    case (Launch now run_id)
    then show ?thesis using ok behind delivery_launch[of d l sid now run_id] unfolding x by (cases v) (auto split: prod.splits)
  next
    case (Advance now run_id outcome checkpoint)
    then show ?thesis using ok assms(2) delivery_advance[of sid _ d l co now run_id outcome checkpoint] unfolding x
      by (cases v) (auto simp: with_worker_def split: prod.splits)
  next
    case (Received raw received monotonic i now b)
    show ?thesis
    proof (cases v)
      case (Some w)
      then show ?thesis using ok delivery_received[of sid w d l co raw received monotonic i now b] Received unfolding x
        by (cases "wk_phase w") (simp_all add: with_worker_def)
    qed (use ok Received x in \<open>simp add: with_worker_def\<close>)
  next
    case Crash
    then show ?thesis using behind by (simp add: x delivery_none)
  next
    case (Stop_Session lc)
    have "raw_ok (iw_db (ingest_step co sid x e))" by (rule commands_raw_ok[OF commands_ingest_step]) (use behind x in \<open>simp add: tables_ok_def\<close>)
    then show ?thesis using Stop_Session ok by (auto simp: x intro: kept_tables)
  next
    case (New_Heat h s)
    have "raw_ok (iw_db (ingest_step co sid x e))" by (rule commands_raw_ok[OF commands_ingest_step]) (use behind x in \<open>simp add: tables_ok_def\<close>)
    then show ?thesis using New_Heat ok by (auto simp: x intro: kept_tables)
  qed (use ok in \<open>(cases v; auto simp: x with_worker_def delivery_idle disconnect_def)+\<close>)
qed

lemma delivery_run: "delivery_ok sid x \<Longrightarrow> smooth_run co sid x es \<Longrightarrow> delivery_ok sid (foldl (ingest_step co sid) x es)"
  by (induction es arbitrary: x) (simp_all add: delivery_step)

text \<open>A service that has not started yet.\<close>

definition idle_world :: "ingest_world \<Rightarrow> bool" where
  "idle_world x \<longleftrightarrow> iw_worker x = None \<and> iw_log x = [] \<and> fresh_ingest_db (iw_db x) \<and> \<not> ib_in_transaction (iw_db x)"

lemma idle_delivery: "idle_world x \<Longrightarrow> delivery_ok sid x"
  by (simp add: idle_world_def delivery_ok_def Let_def fresh_raw_ok follows_def decoded_ids_def owed_ids_def pending_rows_def decoded_rows_def fresh_ingest_db_def)

text \<open>C2. liveness. No decoded frame is skipped and none is processed out of order: whatever crashes,
  restarts, reconnects, processor failures during recovery and operator stops come in between, the
  frames handed to the processor are, up to immediate repetitions, an initial part of the session's
  decoded frames in receive order, and all of them whenever the worker waits for the provider. The
  one exception, a processor that fails on a frame of the open socket, is excluded here: it leaves
  the frame behind while newer ones go on.\<close>
theorem frames_processed_in_order:
  assumes "idle_world x0" and "smooth_run co sid x0 es" and "x = foldl (ingest_step co sid) x0 es"
  shows "prefix (remdups_adj (iw_log x)) (decoded_ids sid (iw_db x)) \<and>
    (case iw_worker x of None \<Rightarrow> True
     | Some w \<Rightarrow> wk_phase w = Reading \<or> wk_phase w = Connecting \<longrightarrow> decoded_ids sid (iw_db x) = remdups_adj (iw_log x))"
proof -
  have ok: "delivery_ok sid x" unfolding assms(3) by (rule delivery_run[OF idle_delivery[OF assms(1)] assms(2)])
  have "prefix (remdups_adj (iw_log x)) (decoded_ids sid (iw_db x))" using delivery_behind[OF ok] by (auto simp: follows_def)
  moreover have "decoded_ids sid (iw_db x) = remdups_adj (iw_log x)"
    if "iw_worker x = Some w" "wk_phase w = Reading \<or> wk_phase w = Connecting" for w
    using ok that by (auto simp: delivery_ok_def Let_def)
  ultimately show ?thesis by (auto split: option.splits)
qed

end
