(* ===== verification/Ingest_Gaps.thy ===== *)
theory Ingest_Gaps
  imports Ingest_Order
begin

text \<open>
  Source gaps: the gap rows of a session against the worker of \<open>Ingest_Worker\<close>. \<open>gaps_ok\<close> is the
  invariant that downtime has an open gap; \<open>orphaned\<close> is the state of a gap the worker has forgotten.
  The witnesses of the worker's properties are concrete runs.
\<close>

section \<open>Gaps\<close>

definition gap_is_open :: "string \<Rightarrow> int \<Rightarrow> ingest_db \<Rightarrow> bool" where
  "gap_is_open sid g d \<longleftrightarrow> (\<exists>r \<in> set (ib_gaps d). gp_id r = g \<and> gp_session r = sid \<and> gp_ended_at_us r = None)"

definition run_is_open :: "string \<Rightarrow> string option \<Rightarrow> ingest_db \<Rightarrow> bool" where
  "run_is_open sid i d \<longleftrightarrow> (\<exists>r \<in> set (ib_runs d). Some (ru_id r) = i \<and> ru_session r = sid \<and> ru_stopped_at_us r = None)"

text \<open>The worker has had a connection to the provider.\<close>

definition was_connected :: "ingest_db \<Rightarrow> bool" where
  "was_connected d \<longleftrightarrow> ib_connections d \<noteq> []"

definition session_active :: "string \<Rightarrow> ingest_db \<Rightarrow> bool" where
  "session_active sid d \<longleftrightarrow> session_lifecycle sid d = Some Active"

definition gap_tables :: "ingest_db \<Rightarrow> gap_row list \<times> run_row list \<times> bool \<times> ingest_session list \<times> bool" where
  "gap_tables d = (ib_gaps d, ib_runs d, was_connected d, ib_sessions d, ib_in_transaction d)"

lemma same_gap_tables:
  assumes "gap_tables d' = gap_tables d"
  shows "gap_is_open sid g d' = gap_is_open sid g d" "run_is_open sid i d' = run_is_open sid i d" "was_connected d' = was_connected d"
    "session_active sid d' = session_active sid d" "ib_in_transaction d' = ib_in_transaction d"
  using assms by (simp_all add: gap_tables_def gap_is_open_def run_is_open_def session_active_def session_lifecycle_def)

text \<open>While a session is active and has been connected, either the socket is open - then the run is - or the gap the worker
  will close is; after the worker's end one of the two is left for the next one to find.\<close>

definition gaps_ok :: "string \<Rightarrow> ingest_world \<Rightarrow> bool" where
  "gaps_ok sid x \<longleftrightarrow> \<not> ib_in_transaction (iw_db x) \<and>
    (case iw_worker x of
       None \<Rightarrow> session_active sid (iw_db x) \<longrightarrow> was_connected (iw_db x) \<longrightarrow>
         (\<exists>g. gap_is_open sid g (iw_db x)) \<or> (\<exists>i. run_is_open sid (Some i) (iw_db x))
     | Some w \<Rightarrow> st_session (wk_store w) = sid \<and> run_is_open sid (st_run (wk_store w)) (iw_db x) \<and>
         (case wk_pending_gap w of None \<Rightarrow> True | Some g \<Rightarrow> gap_is_open sid g (iw_db x)) \<and>
         (wk_upstream w = None \<longrightarrow> session_active sid (iw_db x) \<longrightarrow> was_connected (iw_db x) \<longrightarrow> wk_pending_gap w \<noteq> None) \<and>
         (case wk_phase w of Recovering fs \<Rightarrow> wk_upstream w = None | Recovered f ms fs \<Rightarrow> wk_upstream w = None | Connecting \<Rightarrow> wk_upstream w = None
            | Waiting \<Rightarrow> wk_upstream w = None | Opened raw a b \<Rightarrow> wk_upstream w \<noteq> None | _ \<Rightarrow> True))"

lemma first_of_sorted:
  fixes f :: "'a \<Rightarrow> 'b::linorder"
  shows "(case sort_key f xs of [] \<Rightarrow> None | y # ys \<Rightarrow> Some y) = None \<longleftrightarrow> xs = []"
    "(case sort_key f xs of [] \<Rightarrow> None | y # ys \<Rightarrow> Some y) = Some z \<Longrightarrow> z \<in> set xs"
proof -
  have s: "set (sort_key f xs) = set xs" by simp
  show "(case sort_key f xs of [] \<Rightarrow> None | y # ys \<Rightarrow> Some y) = None \<longleftrightarrow> xs = []"
    using s by (cases "sort_key f xs") auto
  show "(case sort_key f xs of [] \<Rightarrow> None | y # ys \<Rightarrow> Some y) = Some z \<Longrightarrow> z \<in> set xs"
    using s by (cases "sort_key f xs") auto
qed

lemma open_gap_iff: "open_gap sid d = None \<longleftrightarrow> \<not> (\<exists>g. gap_is_open sid g d)"
  unfolding open_gap_def first_of_sorted(1) by (auto simp: gap_is_open_def filter_empty_conv)

lemma open_gap_is_open: "open_gap sid d = Some g \<Longrightarrow> gap_is_open sid (gp_id g) d"
  unfolding open_gap_def by (drule first_of_sorted(2)) (auto simp: gap_is_open_def)

lemma orphan_run_exists: "run_is_open sid (Some i) d \<Longrightarrow> orphan_run sid d \<noteq> None"
proof -
  assume "run_is_open sid (Some i) d"
  then have r: "open_runs sid d \<noteq> []" by (auto simp: run_is_open_def open_runs_def filter_empty_conv)
  define rows where "rows r = (let upstreams = filter (\<lambda>c. ic_run c = ru_id r \<and> ic_disconnected_at_us c = None) (ib_connections d)
           in if upstreams = [] then [(r, None)] else map (\<lambda>c. (r, Some c)) upstreams)" for r :: run_row
  have "rows r \<noteq> []" for r by (simp add: rows_def Let_def)
  then have "concat (map rows (open_runs sid d)) \<noteq> []" using r by (cases "open_runs sid d") auto
  then show ?thesis unfolding rows_def orphan_run_def Let_def first_of_sorted(1) .
qed

lemma insert_gap_open: "insert_gap sid c started None reason d = (d', g) \<Longrightarrow> gap_is_open sid g d'"
  by (auto simp: insert_gap_def Let_def gap_is_open_def)

lemma insert_gap_keeps: "gap_is_open s g d \<Longrightarrow> gap_is_open s g (fst (insert_gap sid c started ended reason d))"
  by (auto simp: insert_gap_def Let_def gap_is_open_def)

lemma insert_gap_rest [simp]:
  "ib_runs (fst (insert_gap sid c started ended reason d)) = ib_runs d"
  "ib_connections (fst (insert_gap sid c started ended reason d)) = ib_connections d"
  "ib_sessions (fst (insert_gap sid c started ended reason d)) = ib_sessions d"
  "ib_in_transaction (fst (insert_gap sid c started ended reason d)) = ib_in_transaction d"
  by (simp_all add: insert_gap_def Let_def)

lemma gap_tables_rest:
  "mark_processed sha now c s f d = Inr d' \<Longrightarrow> gap_tables d' = gap_tables d"
  "decode_frame loads decompress now s f d = Inr (d', ms) \<Longrightarrow> gap_tables d' = gap_tables d"
  "persist_raw_frame sha0 k n raw received monotonic s d = Inr (d', g) \<Longrightarrow> gap_tables d' = gap_tables d"
  "close_connection k reason now d = Inr d' \<Longrightarrow> gap_tables d' = gap_tables d"
     apply (erule mark_processed_cases; simp add: gap_tables_def was_connected_def)
    apply (erule decode_frame_cases; simp add: gap_tables_def was_connected_def)
   apply (auto simp: gap_tables_def was_connected_def update_where_def persist_raw_frame_def close_connection_def map_sum_id_Inr raw_transaction_def Let_def
       split: if_splits)
  done

lemma record_gap_effect:
  assumes "record_gap c reason started None s d = Inr (d', g)"
  shows "gap_is_open (st_session s) g d'" "run_is_open sid i d' = run_is_open sid i d" "was_connected d' = was_connected d"
    "session_active sid d' = session_active sid d" "ib_in_transaction d' = ib_in_transaction d"
proof -
  have i: "insert_gap (st_session s) c started None (take 1000 reason) d = (d', g)" using assms by (auto simp: record_gap_def dest!: raw_transaction_Inr)
  show "gap_is_open (st_session s) g d'" by (rule insert_gap_open[OF i])
  have d': "d' = fst (insert_gap (st_session s) c started None (take 1000 reason) d)" using i by simp
  show "run_is_open sid i d' = run_is_open sid i d" "was_connected d' = was_connected d" "session_active sid d' = session_active sid d"
    "ib_in_transaction d' = ib_in_transaction d"
    unfolding d' by (simp_all add: run_is_open_def was_connected_def session_active_def session_lifecycle_def)
qed

lemma close_gap_effect:
  assumes "close_gap g now s d = Inr d'"
  shows "run_is_open sid i d' = run_is_open sid i d" "was_connected d' = was_connected d"
    "session_active sid d' = session_active sid d" "ib_in_transaction d' = ib_in_transaction d"
  using assms by (auto simp: close_gap_def map_sum_id_Inr raw_transaction_def run_is_open_def was_connected_def session_active_def session_lifecycle_def
      split: if_splits)

lemma open_connection_effect:
  assumes "open_connection i now b s d = Inr (d', c)"
  shows "run_is_open sid j d' = run_is_open sid j d" "gap_is_open sid g d' = gap_is_open sid g d"
    "session_active sid d' = session_active sid d" "ib_in_transaction d' = ib_in_transaction d"
  using assms by (auto simp: open_connection_def raw_transaction_def run_is_open_def gap_is_open_def session_active_def session_lifecycle_def Let_def
      split: if_splits option.splits)

lemma finish_run_effect:
  shows "gap_is_open sid g (kept d (finish_run reason now s d)) = gap_is_open sid g d"
    "was_connected (kept d (finish_run reason now s d)) = was_connected d"
    "session_active sid (kept d (finish_run reason now s d)) = session_active sid d"
    "ib_in_transaction (kept d (finish_run reason now s d)) = ib_in_transaction d"
  by (auto simp: finish_run_def kept_def raw_transaction_def gap_is_open_def was_connected_def session_active_def session_lifecycle_def bex_update_where
      split: option.splits if_splits)

lemma record_gap_succeeds: "\<not> ib_in_transaction d \<Longrightarrow> \<exists>d' g. record_gap c reason started ended s d = Inr (d', g)"
  by (simp add: record_gap_def raw_transaction_def insert_gap_def Let_def)

lemma close_connection_succeeds: "\<not> ib_in_transaction d \<Longrightarrow> \<exists>d'. close_connection c reason now d = Inr d'"
  by (simp add: close_connection_def raw_transaction_def)

lemma is_active: "is_session_active s d = session_active (st_session s) d"
  by (simp add: is_session_active_def session_active_def)

text \<open>The next worker adopts what its predecessor left.\<close>

lemma start_run_gap:
  assumes run: "start_run version now run_id s d = Inr (d', s')" and act: "session_active sid d" and s: "st_session s = sid"
    and left: "was_connected d \<Longrightarrow> (\<exists>g. gap_is_open sid g d) \<or> (\<exists>i. run_is_open sid (Some i) d)"
    and conn: "was_connected d' \<Longrightarrow> was_connected d"
  shows "st_session s' = sid" "run_is_open sid (st_run s') d'" "\<not> ib_in_transaction d'"
    "case st_recovered_gap s' of None \<Rightarrow> True | Some g \<Rightarrow> gap_is_open sid g d'" "was_connected d' \<Longrightarrow> st_recovered_gap s' \<noteq> None"
proof -
  obtain d1 gap where rg: "recover_gap sid now d = (d1, gap)" by fastforce
  have e: "d' = d1\<lparr> ib_runs := ib_runs d1 @ [\<lparr> ru_id = run_id, ru_session = sid, ru_reducer_version = version,
                ru_started_at_us = now, ru_stopped_at_us = None, ru_stop_reason = None \<rparr>] \<rparr>" "s' = s\<lparr> st_recovered_gap := gap, st_run := Some run_id \<rparr>"
    using run s rg by (auto simp: start_run_def dest!: raw_transaction_Inr split: option.splits if_splits)
  show "st_session s' = sid" "run_is_open sid (st_run s') d'" using e s by (auto simp: run_is_open_def)
  have "\<not> ib_in_transaction d" using run by (auto simp: start_run_def raw_transaction_def split: if_splits)
  then show "\<not> ib_in_transaction d'" using transaction_tables(1)[OF run] by simp
  have co: "gap_is_open sid g (close_orphans sid now d) = gap_is_open sid g d" for g by (simp add: close_orphans_def gap_is_open_def Let_def)
  have gap: "(case gap of None \<Rightarrow> open_gap sid d = None \<and> orphan_run sid d = None | Some g \<Rightarrow> gap_is_open sid g d1)"
  proof (cases "open_gap sid d")
    case (Some g)
    then show ?thesis using rg co[of "gp_id g"] open_gap_is_open[OF Some] by (auto simp: recover_gap_def Let_def split: option.splits)
  next
    case None
    then show ?thesis using rg insert_gap_open by (auto simp: recover_gap_def Let_def apsnd_def map_prod_def split: option.splits prod.splits)
  qed
  then show "case st_recovered_gap s' of None \<Rightarrow> True | Some g \<Rightarrow> gap_is_open sid g d'"
    using e by (auto simp: gap_is_open_def split: option.splits)
  assume "was_connected d'"
  then have "(\<exists>g. gap_is_open sid g d) \<or> (\<exists>i. run_is_open sid (Some i) d)" using left conn by blast
  then have "open_gap sid d \<noteq> None \<or> orphan_run sid d \<noteq> None" using open_gap_iff[of sid d] orphan_run_exists[of sid _ d] by blast
  then show "st_recovered_gap s' \<noteq> None" using gap e by (auto split: option.splits)
qed

abbreviation unlinked_phase :: "worker_phase \<Rightarrow> bool" where
  "unlinked_phase p \<equiv> (case p of Recovering fs \<Rightarrow> True | Recovered f ms fs \<Rightarrow> True | Connecting \<Rightarrow> True | Waiting \<Rightarrow> True | _ \<Rightarrow> False)"

abbreviation opened_phase :: "worker_phase \<Rightarrow> bool" where
  "opened_phase p \<equiv> (case p of Opened raw a b \<Rightarrow> True | _ \<Rightarrow> False)"

lemma gaps_worker: "gaps_ok sid \<lparr> iw_worker = Some w, iw_db = d, iw_log = l \<rparr> \<longleftrightarrow>
    \<not> ib_in_transaction d \<and> st_session (wk_store w) = sid \<and> run_is_open sid (st_run (wk_store w)) d \<and>
    (case wk_pending_gap w of None \<Rightarrow> True | Some g \<Rightarrow> gap_is_open sid g d) \<and>
    (wk_upstream w = None \<longrightarrow> session_active sid d \<longrightarrow> was_connected d \<longrightarrow> wk_pending_gap w \<noteq> None) \<and>
    (unlinked_phase (wk_phase w) \<longrightarrow> wk_upstream w = None) \<and> (opened_phase (wk_phase w) \<longrightarrow> wk_upstream w \<noteq> None)"
  by (cases "wk_phase w"; cases "wk_pending_gap w") (auto simp: gaps_ok_def)

lemma gaps_none: "gaps_ok sid \<lparr> iw_worker = None, iw_db = d, iw_log = l \<rparr> \<longleftrightarrow>
    \<not> ib_in_transaction d \<and> (session_active sid d \<longrightarrow> was_connected d \<longrightarrow> (\<exists>g. gap_is_open sid g d) \<or> (\<exists>i. run_is_open sid (Some i) d))"
  by (simp add: gaps_ok_def)

lemma gaps_keep:
  assumes "gaps_ok sid \<lparr> iw_worker = Some w, iw_db = d, iw_log = l \<rparr>" "gap_tables d' = gap_tables d"
    "wk_store w' = wk_store w" "wk_pending_gap w' = wk_pending_gap w" "wk_upstream w' = wk_upstream w"
    "unlinked_phase (wk_phase w') \<longrightarrow> wk_upstream w = None" "\<not> opened_phase (wk_phase w')"
  shows "gaps_ok sid \<lparr> iw_worker = Some w', iw_db = d', iw_log = l' \<rparr>"
  using assms(1,3-7) unfolding gaps_worker same_gap_tables[OF assms(2)] by simp

lemma gaps_end:
  assumes "gaps_ok sid \<lparr> iw_worker = Some w, iw_db = d, iw_log = l \<rparr>" "gap_tables d' = gap_tables d"
    "wk_upstream w = None \<or> \<not> session_active sid d \<or> wk_pending_gap w \<noteq> None"
  shows "gaps_ok sid \<lparr> iw_worker = None, iw_db = kept d' (finish_run reason now s d'), iw_log = l' \<rparr>"
  using assms(1,3) unfolding gaps_worker gaps_none finish_run_effect same_gap_tables[OF assms(2)]
  by (auto split: option.splits)

lemma gaps_advance:
  assumes ok: "gaps_ok sid \<lparr> iw_worker = Some w, iw_db = d, iw_log = l \<rparr>" and run: "advance co now run_id outcome checkpoint w d = (v, d', h)"
  shows "gaps_ok sid \<lparr> iw_worker = v, iw_db = d', iw_log = l @ h \<rparr>"
proof -
  have same: "gap_tables d = gap_tables d" ..
  have tx: "\<not> ib_in_transaction d" and s: "st_session (wk_store w) = sid" using ok by (simp_all add: gaps_worker)
  note keep = gaps_keep[OF ok] and stop = gaps_end[OF ok]
  have act: "is_session_active (wk_store w) d = session_active sid d" using s by (simp add: is_active)
  show ?thesis
  proof (cases "wk_phase w")
    case (Recovering fs)
    then have u: "wk_upstream w = None" using ok by (simp add: gaps_worker)
    show ?thesis
    proof (cases fs)
      case Nil
      then show ?thesis using run Recovering u by (auto simp: advance_def Let_def intro: keep)
    next
      case (Cons f gs)
      then show ?thesis using run Recovering u
        by (auto simp: advance_def Let_def recover_step_def end_task_def split: sum.splits if_splits processor_outcome.splits
            intro!: keep stop intro: gap_tables_rest)
    qed
  next
    case (Recovered f ms fs)
    then have u: "wk_upstream w = None" using ok by (simp add: gaps_worker)
    then show ?thesis using run Recovered
      by (auto simp: advance_def Let_def end_task_def split: sum.splits intro!: keep stop intro: gap_tables_rest)
  next
    case Connecting
    then have u: "wk_upstream w = None" using ok by (simp add: gaps_worker)
    show ?thesis
    proof (cases "session_active sid d")
      case True
      then have "v = Some (w\<lparr> wk_phase := Reading, wk_upstream := None, wk_sequence := 0 \<rparr>)" "d' = d" "h = []"
        using run Connecting act by (auto simp: advance_def Let_def)
      then show ?thesis using u by (auto intro: keep)
    next
      case False
      then show ?thesis using run Connecting act u by (auto simp: advance_def Let_def end_task_def intro: stop)
    qed
  next
    case (Opened raw a b)
    show ?thesis
    proof (cases "wk_pending_gap w")
      case None
      then show ?thesis using run Opened by (auto simp: advance_def Let_def intro: keep)
    next
      case (Some g)
      show ?thesis
      proof (cases "close_gap g now (wk_store w) d")
        case (Inl e)
        then show ?thesis using run Opened Some by (auto simp: advance_def Let_def disconnect_def intro: keep)
      next
        case (Inr d1)
        then have v: "v = Some (w\<lparr> wk_phase := Ready raw a b, wk_pending_gap := None, wk_failures := 0 \<rparr>)" "d' = d1" "h = []"
          using run Opened Some by (auto simp: advance_def Let_def)
        show ?thesis using ok Opened unfolding v append_Nil2 gaps_worker by (auto simp: close_gap_effect[OF Inr])
      qed
    qed
  next
    case (Ready raw a b)
    then show ?thesis using run
      by (auto simp: advance_def Let_def store_frame_def disconnect_def split: option.splits sum.splits prod.splits intro!: keep intro: gap_tables_rest)
  next
    case (Persisted f)
    then show ?thesis using run
      by (auto simp: advance_def Let_def disconnect_def split: option.splits sum.splits prod.splits if_splits intro!: keep intro: gap_tables_rest)
  next
    case (Disconnecting reason cancelled)
    show ?thesis
    proof (cases "wk_upstream w")
      case None
      then show ?thesis using run Disconnecting by (cases cancelled) (auto simp: advance_def Let_def intro!: keep)
    next
      case (Some c)
      obtain d1 where "close_connection c reason now d = Inr d1" using close_connection_succeeds[OF tx] by blast
      then show ?thesis using run Disconnecting Some by (cases cancelled) (auto simp: advance_def Let_def intro!: keep intro: gap_tables_rest)
    qed
  next
    case (Disconnected reason since)
    show ?thesis
    proof (cases "session_active sid d")
      case False
      then show ?thesis using run Disconnected act by (auto simp: advance_def Let_def end_task_def intro: stop)
    next
      case True
      obtain d1 g where r: "record_gap (map_option cn_id (wk_upstream w)) reason since None (wk_store w) d = Inr (d1, g)"
        using record_gap_succeeds[OF tx] by blast
      then have v: "v = Some (w\<lparr> wk_phase := Waiting, wk_pending_gap := Some g, wk_failures := wk_failures w + 1, wk_upstream := None \<rparr>)" "d' = d1" "h = []"
        using run Disconnected act True by (auto simp: advance_def Let_def)
      note rg = record_gap_effect[OF r]
      then show ?thesis using ok unfolding v append_Nil2 gaps_worker by (auto simp: rg(2-5))
    qed
  next
    case Quitting
    show ?thesis
    proof (cases "wk_pending_gap w = None \<and> session_active sid d")
      case True
      obtain d1 g where r: "record_gap None ''worker_restart'' now None (wk_store w) d = Inr (d1, g)"
        using record_gap_succeeds[OF tx] by blast
      then have v: "v = Some (w\<lparr> wk_pending_gap := Some g \<rparr>)" "d' = d1" "h = []"
        using run Quitting act True by (auto simp: advance_def Let_def)
      note rg = record_gap_effect[OF r]
      then show ?thesis using ok Quitting unfolding v append_Nil2 gaps_worker by (auto simp: rg(2-5))
    next
      case False
      then have v: "v = None" "d' = kept d (finish_run ''supervisor_cancelled'' now (wk_store w) d)" "h = []"
        using run Quitting act by (auto simp: advance_def Let_def end_task_def)
      show ?thesis unfolding v by (rule stop[OF same]) (use False in auto)
    qed
  next
    case Waiting
    then have "wk_upstream w = None" using ok by (simp add: gaps_worker)
    then show ?thesis using run Waiting by (auto simp: advance_def Let_def intro: keep)
  qed (use run in \<open>auto simp: advance_def Let_def disconnect_def split: sum.splits processor_outcome.splits intro!: keep intro: gap_tables_rest\<close>)
qed

lemma gaps_launch:
  assumes ok: "gaps_ok sid \<lparr> iw_worker = None, iw_db = d, iw_log = l \<rparr>" and run: "launch now run_id sid d = (v, d')"
  shows "gaps_ok sid \<lparr> iw_worker = v, iw_db = d', iw_log = l \<rparr>"
proof (cases "start_run RAW_REDUCER_VERSION now run_id \<lparr> st_session = sid, st_run = None, st_recovered_gap = None \<rparr> d")
  case (Inl e)
  then show ?thesis using ok run by (simp add: launch_def)
next
  case (Inr y)
  obtain d1 s where y: "y = (d1, s)" by fastforce
  note st = Inr[unfolded y]
  have act: "session_active sid d"
    using st by (auto simp: start_run_def session_active_def dest!: raw_transaction_Inr split: option.splits if_splits)
  have c: "was_connected d1 = was_connected d"
    using st by (auto simp: start_run_def case_prod_beta was_connected_def recover_gap_def close_orphans_def Let_def update_where_def dest!: raw_transaction_Inr
        split: option.splits if_splits)
  have l: "was_connected d \<Longrightarrow> (\<exists>g. gap_is_open sid g d) \<or> (\<exists>i. run_is_open sid (Some i) d)"
    using ok act by (simp add: gaps_none)
  note sg = start_run_gap[OF st act _ l c[THEN iffD1], simplified]
  have v: "v = Some \<lparr> wk_store = s, wk_phase = Recovering (pending_decoded_frames s d1), wk_pending_gap = st_recovered_gap s,
         wk_failures = 0, wk_upstream = None, wk_sequence = 0 \<rparr>" "d' = d1"
    using run st by (auto simp: launch_def)
  show ?thesis unfolding v gaps_worker using sg by simp
qed

lemma gaps_step:
  assumes "gaps_ok sid x"
  shows "gaps_ok sid (ingest_step co sid x e)"
proof -
  obtain v d l where x: "x = \<lparr> iw_worker = v, iw_db = d, iw_log = l \<rparr>" by (cases x) auto
  note ok = assms[unfolded x]
  show ?thesis
  proof (cases e)
    case (Launch now run_id)
    then show ?thesis using ok gaps_launch[of sid d l now run_id] unfolding x by (cases v) (auto split: prod.splits)
  next
    case (Advance now run_id outcome checkpoint)
    then show ?thesis using ok gaps_advance[of sid _ d l co now run_id outcome checkpoint] unfolding x
      by (cases v) (auto simp: with_worker_def split: prod.splits)
  next
    case (Received raw received monotonic i now b)
    show ?thesis
    proof (cases v)
      case (Some w)
      show ?thesis
      proof (cases "wk_phase w = Reading")
        case False
        then show ?thesis using ok Received Some unfolding x by (cases "wk_phase w") (auto simp: with_worker_def)
      next
        case True
        show ?thesis
        proof (cases "wk_upstream w")
          case (Some c)
          then show ?thesis using ok Received \<open>v = Some w\<close> True unfolding x by (auto simp: with_worker_def intro: gaps_keep)
        next
          case None
          show ?thesis
          proof (cases "open_connection i now b (wk_store w) d")
            case (Inl e')
            then show ?thesis using ok Received \<open>v = Some w\<close> True None unfolding x
              by (auto simp: with_worker_def disconnect_def intro: gaps_keep)
          next
            case (Inr y)
            obtain d1 c where y: "y = (d1, c)" by fastforce
            have s: "ingest_step co sid x e = \<lparr> iw_worker = Some (w\<lparr> wk_phase := Opened raw received monotonic, wk_upstream := Some c \<rparr>), iw_db = d1, iw_log = l \<rparr>"
              using Received \<open>v = Some w\<close> True None Inr y unfolding x by (simp add: with_worker_def)
            note oc = open_connection_effect[OF Inr[unfolded y]]
            show ?thesis using ok unfolding s \<open>v = Some w\<close> gaps_worker by (auto simp: oc split: option.splits)
          qed
        qed
      qed
    qed (use ok Received x in \<open>simp add: with_worker_def\<close>)
  next
    case Crash
    have "gaps_ok sid \<lparr> iw_worker = None, iw_db = d, iw_log = l \<rparr>"
    proof (cases v)
      case (Some w)
      have r: "run_is_open sid (st_run (wk_store w)) d" "\<not> ib_in_transaction d" using ok[unfolded Some gaps_worker] by auto
      then obtain i where "st_run (wk_store w) = Some i" by (cases "st_run (wk_store w)") (auto simp: run_is_open_def)
      then show ?thesis using r unfolding gaps_none by auto
    qed (use ok in simp)
    then show ?thesis using Crash by (simp add: x)
  next
    case (Stop_Session lc)
    let ?d = "d\<lparr> ib_sessions := update_where (\<lambda>s. is_id s = sid \<and> is_lifecycle s = Active) (\<lambda>s. s\<lparr> is_lifecycle := lc \<rparr>) (ib_sessions d) \<rparr>"
    show ?thesis
    proof (cases "lc \<in> {Stopped, Aborted}")
      case True
      have f: "find (\<lambda>s. is_id s = sid) (ib_sessions ?d) = map_option (\<lambda>s. if is_id s = sid \<and> is_lifecycle s = Active then s\<lparr> is_lifecycle := lc \<rparr> else s)
          (find (\<lambda>s. is_id s = sid) (ib_sessions d))"
        by simp (rule find_update_where, simp)
      have act: "session_active sid ?d \<Longrightarrow> session_active sid d"
        unfolding session_active_def session_lifecycle_def f using True by (auto split: if_splits)
      have same: "gap_is_open sid g ?d = gap_is_open sid g d" "run_is_open sid i ?d = run_is_open sid i d" "was_connected ?d = was_connected d"
        "ib_in_transaction ?d = ib_in_transaction d" for g i
        by (simp_all add: gap_is_open_def run_is_open_def was_connected_def)
      have s: "ingest_step co sid x e = \<lparr> iw_worker = v, iw_db = ?d, iw_log = l \<rparr>" using Stop_Session True x by simp
      show ?thesis
      proof (cases v)
        case None
        then show ?thesis using ok act unfolding s None gaps_none same by blast
      next
        case (Some w)
        then show ?thesis using ok act unfolding s Some gaps_worker same by blast
      qed
    next
      case False
      then show ?thesis using Stop_Session ok x by simp
    qed
  next
    case (New_Heat h s)
    have t: "gap_tables (d\<lparr> ib_heats := rows \<rparr>) = gap_tables d" for rows by (simp add: gap_tables_def was_connected_def)
    have "gaps_ok sid \<lparr> iw_worker = v, iw_db = d\<lparr> ib_heats := rows \<rparr>, iw_log = l \<rparr>" for rows
    proof (cases v)
      case None
      show ?thesis using ok unfolding None gaps_none same_gap_tables[OF t] .
    next
      case (Some w)
      show ?thesis using ok unfolding Some gaps_worker same_gap_tables[OF t] .
    qed
    then show ?thesis using New_Heat ok by (simp add: x)
  qed (use ok in \<open>(cases v; auto simp: x with_worker_def disconnect_def intro: gaps_keep)+\<close>)
qed

lemma gaps_run: "gaps_ok sid x \<Longrightarrow> gaps_ok sid (foldl (ingest_step co sid) x es)"
  by (induction es arbitrary: x) (simp_all add: gaps_step)

text \<open>C3. invariant. Downtime is never hidden: from the first connection on, whenever the worker of an active
  session has no open socket - after a disconnect, a failed attempt, a crash or a restart of the
  service - the session has an open gap, the one the worker closes when the provider answers again.\<close>
theorem downtime_has_open_gap:
  assumes "idle_world x0" and "ib_connections (iw_db x0) = []" and "x = foldl (ingest_step co sid) x0 es"
    and "iw_worker x = Some w" and "wk_upstream w = None" and "session_active sid (iw_db x)" and "was_connected (iw_db x)"
  shows "\<exists>g. wk_pending_gap w = Some g \<and> gap_is_open sid g (iw_db x)"
proof -
  have "gaps_ok sid x0" using assms(1,2) by (simp add: gaps_ok_def idle_world_def was_connected_def)
  then have "gaps_ok sid x" unfolding assms(3) by (rule gaps_run)
  then have "gaps_ok sid \<lparr> iw_worker = Some w, iw_db = iw_db x, iw_log = iw_log x \<rparr>" using assms(4) by (cases x) simp
  then show ?thesis using assms(5-7) unfolding gaps_worker by (auto split: option.splits)
qed

section \<open>A gap that is never closed\<close>

definition orphaned :: "string \<Rightarrow> int \<Rightarrow> ingest_world \<Rightarrow> bool" where
  "orphaned sid g x \<longleftrightarrow> gap_is_open sid g (iw_db x) \<and> (case iw_worker x of None \<Rightarrow> True | Some w \<Rightarrow> wk_pending_gap w \<noteq> Some g)"

lemma close_gap_other: "close_gap g' now s d = Inr d' \<Longrightarrow> g' \<noteq> g \<Longrightarrow> gap_is_open sid g d \<Longrightarrow> gap_is_open sid g d'"
  by (auto simp: close_gap_def map_sum_id_Inr raw_transaction_def gap_is_open_def bex_update_where split: if_splits)

lemma record_gap_other:
  assumes "record_gap c reason started ended s d = Inr (d', g')" "gap_is_open sid g d"
  shows "gap_is_open sid g d'" "g' \<noteq> g"
proof -
  have i: "insert_gap (st_session s) c started ended (take 1000 reason) d = (d', g')" using assms(1) by (auto simp: record_gap_def dest!: raw_transaction_Inr)
  then show "gap_is_open sid g d'" using insert_gap_keeps[OF assms(2), of "st_session s" c started ended "take 1000 reason"] by simp
  have "g \<in> set (map gp_id (ib_gaps d))" using assms(2) by (auto simp: gap_is_open_def)
  then have "g < next_id (map gp_id (ib_gaps d))" by (rule next_id_above)
  then show "g' \<noteq> g" using i by (auto simp: insert_gap_def Let_def)
qed

lemma same_tables_gap: "gap_tables d' = gap_tables d \<Longrightarrow> gap_is_open sid g d \<Longrightarrow> gap_is_open sid g d'"
  using same_gap_tables(1) by blast

lemma orphaned_advance:
  assumes o: "gap_is_open sid g d" and run: "advance co now run_id outcome checkpoint w d = (v, d', h)"
    and p: "wk_pending_gap w \<noteq> Some g \<or> (\<exists>reason since. wk_phase w = Disconnected reason since \<and> is_session_active (wk_store w) d \<and> \<not> ib_in_transaction d)"
  shows "orphaned sid g \<lparr> iw_worker = v, iw_db = d', iw_log = l \<rparr>"
proof (cases "\<exists>reason since. wk_phase w = Disconnected reason since \<and> is_session_active (wk_store w) d \<and> \<not> ib_in_transaction d")
  case True
  then obtain reason since d1 g1 where ph: "wk_phase w = Disconnected reason since" "is_session_active (wk_store w) d"
    and r: "record_gap (map_option cn_id (wk_upstream w)) reason since None (wk_store w) d = Inr (d1, g1)"
    using record_gap_succeeds by metis
  then have "v = Some (w\<lparr> wk_phase := Waiting, wk_pending_gap := Some g1, wk_failures := wk_failures w + 1, wk_upstream := None \<rparr>)" "d' = d1"
    using run by (auto simp: advance_def Let_def)
  then show ?thesis using record_gap_other[OF r o] by (simp add: orphaned_def)
next
  case False
  then have n: "wk_pending_gap w \<noteq> Some g" using p by blast
  note keep = same_tables_gap[OF gap_tables_rest(1) o] same_tables_gap[OF gap_tables_rest(2) o] same_tables_gap[OF gap_tables_rest(3) o]
    same_tables_gap[OF gap_tables_rest(4) o]
  show ?thesis
  proof (cases "wk_phase w")
    case (Recovering fs)
    show ?thesis
    proof (cases fs)
      case Nil
      then show ?thesis using run n o Recovering by (auto simp: orphaned_def advance_def Let_def)
    next
      case (Cons a list)
      have dec: "gap_is_open sid g d1" if "decode_frame (co_loads co) (co_decompress co) now (wk_store w) a d = Inr (d1, b)" for d1 b
        by (rule keep(2)[OF that])
      then show ?thesis using run n o Recovering Cons
        by (auto simp: orphaned_def advance_def Let_def recover_step_def end_task_def finish_run_effect split: sum.splits if_splits processor_outcome.splits)
    qed
  next
    case (Disconnecting reason cancelled)
    then show ?thesis using run n o
      by (cases "wk_upstream w") (auto simp: orphaned_def advance_def Let_def end_task_def finish_run_effect split: sum.splits dest: keep)
  next
    case (Disconnected reason since)
    then show ?thesis using run n o False
      by (auto simp: orphaned_def advance_def Let_def end_task_def finish_run_effect split: sum.splits if_splits dest: record_gap_other)
  next
    case (Opened raw a b)
    then show ?thesis using run n o
      by (cases "wk_pending_gap w") (auto simp: orphaned_def advance_def Let_def disconnect_def split: sum.splits dest: close_gap_other)
  next
    case (Ready raw a b)
    then show ?thesis using run n o
      by (auto simp: orphaned_def advance_def Let_def store_frame_def disconnect_def split: option.splits sum.splits prod.splits dest: keep)
  next
    case Quitting
    then show ?thesis using run n o
      by (auto simp: orphaned_def advance_def Let_def end_task_def finish_run_effect split: sum.splits if_splits dest: record_gap_other)
  qed (use run n o in \<open>auto simp: orphaned_def advance_def Let_def disconnect_def end_task_def finish_run_effect
      split: sum.splits if_splits option.splits processor_outcome.splits dest: keep\<close>)
qed

lemma orphaned_step:
  assumes o: "orphaned sid g x" and e: "\<And>now i. e \<noteq> Launch now i"
  shows "orphaned sid g (ingest_step co sid' x e)"
proof -
  obtain v d l where x: "x = \<lparr> iw_worker = v, iw_db = d, iw_log = l \<rparr>" by (cases x) auto
  have open_g: "gap_is_open sid g d" and p: "case v of None \<Rightarrow> True | Some w \<Rightarrow> wk_pending_gap w \<noteq> Some g" using o by (auto simp: orphaned_def x)
  show ?thesis
  proof (cases e)
    case (Advance now run_id outcome checkpoint)
    show ?thesis
    proof (cases v)
      case (Some w)
      obtain v' d' h where a: "advance co now run_id outcome checkpoint w d = (v', d', h)" by (cases "advance co now run_id outcome checkpoint w d")
      have "orphaned sid g \<lparr> iw_worker = v', iw_db = d', iw_log = l @ h \<rparr>" by (rule orphaned_advance[OF open_g a]) (use p Some in simp)
      then show ?thesis using Advance Some a by (simp add: x with_worker_def)
    qed (use o Advance x in \<open>simp add: with_worker_def\<close>)
  next
    case (Received raw received monotonic i now b)
    show ?thesis
    proof (cases v)
      case (Some w)
      then show ?thesis using open_g p Received x
        by (cases "wk_phase w"; cases "wk_upstream w")
          (auto simp: orphaned_def with_worker_def disconnect_def open_connection_effect(2) split: sum.splits prod.splits)
    qed (use o Received x in \<open>simp add: with_worker_def\<close>)
  next
    case (Launch now i)
    then show ?thesis using e by blast
  next
    case (Stop_Session lc)
    then show ?thesis using open_g p by (auto simp: x orphaned_def gap_is_open_def)
  next
    case (New_Heat h s)
    then show ?thesis using open_g p by (auto simp: x orphaned_def gap_is_open_def)
  qed (use open_g p in \<open>(cases v; auto simp: x with_worker_def disconnect_def orphaned_def)+\<close>)
qed

text \<open>C37. safety. A second failure orphans the gap: when an attempt to reconnect fails before the provider
  answers, the worker records another gap and forgets the first, so the first one stays open - the
  channel offline and every later lap unclean for its readers - through all later reconnects, until
  another worker of the session is started.\<close>
theorem second_failure_orphans_gap:
  assumes "iw_worker x = Some w" and "wk_phase w = Disconnected reason since" and "wk_upstream w = None"
    and "is_session_active (wk_store w) (iw_db x)" and "\<not> ib_in_transaction (iw_db x)"
    and "wk_pending_gap w = Some g" and "gap_is_open sid g (iw_db x)" and "\<forall>now i. Launch now i \<notin> set later"
  shows "gap_is_open sid g (iw_db (foldl (ingest_step co sid) (ingest_step co sid x (Advance now run_id outcome checkpoint)) later))"
proof -
  obtain d l where x: "x = \<lparr> iw_worker = Some w, iw_db = d, iw_log = l \<rparr>" using assms(1) by (cases x) auto
  obtain v' d' h where a: "advance co now run_id outcome checkpoint w d = (v', d', h)" by (cases "advance co now run_id outcome checkpoint w d")
  have "orphaned sid g \<lparr> iw_worker = v', iw_db = d', iw_log = l @ h \<rparr>"
    by (rule orphaned_advance[OF _ a]) (use assms x in auto)
  then have first: "orphaned sid g (ingest_step co sid x (Advance now run_id outcome checkpoint))" using a by (simp add: x with_worker_def)
  have "orphaned sid g (foldl (ingest_step co sid) y es)" if "orphaned sid g y" "\<forall>now i. Launch now i \<notin> set es" for y es
    using that
  proof (induction es arbitrary: y)
    case (Cons e es)
    have "orphaned sid g (ingest_step co sid y e)" by (rule orphaned_step[OF Cons.prems(1)]) (use Cons.prems(2) in auto)
    then show ?case using Cons by simp
  qed simp
  then show ?thesis using first assms(8) by (auto simp: orphaned_def)
qed

section \<open>Witnesses\<close>

definition demo_codec :: codec where
  "demo_codec = \<lparr> co_loads = demo_loads, co_decompress = demo_decompress, co_sha = (\<lambda>s. s), co_doc_sha = (\<lambda>v. ''h'') \<rparr>"

definition demo_ingest_world :: ingest_world where
  "demo_ingest_world = \<lparr> iw_worker = None, iw_db = demo_ingest_db, iw_log = [] \<rparr>"

abbreviation demo_go :: "int \<Rightarrow> ingest_event" where "demo_go t \<equiv> Advance t ''g'' Committed None"

abbreviation demo_ingest_step :: "ingest_world \<Rightarrow> ingest_event \<Rightarrow> ingest_world" where "demo_ingest_step \<equiv> ingest_step demo_codec ''s''"

definition demo_connect :: "string \<Rightarrow> ingest_event list" where
  "demo_connect c = [demo_go 1, demo_go 2, Received ''x'' 3 4 c 5 demo_bootstrap, demo_go 6, demo_go 7, demo_go 8]"

definition demo_crash_events :: "ingest_event list" where
  "demo_crash_events = Launch 1 ''r1'' # demo_connect ''c1'' @ [demo_go 9, Crash, Launch 20 ''r2'', demo_go 21, demo_go 22, demo_go 23, demo_go 24]"

definition demo_broken_events :: "ingest_event list" where
  "demo_broken_events = Launch 1 ''r1'' # demo_connect ''c1'' @ [demo_go 9, demo_go 10, Broken ''OSError'', demo_go 11, demo_go 12]"

definition demo_broken_again :: "ingest_event list" where
  "demo_broken_again = demo_broken_events @ [demo_go 13, demo_go 14, Broken ''OSError'', demo_go 15]"

lemma demo_idle: "idle_world demo_ingest_world" "ib_connections (iw_db demo_ingest_world) = []"
  by (simp_all add: idle_world_def demo_ingest_world_def demo_ingest_db_def fresh_ingest_db_def)

lemma frames_processed_in_order_witness:
  "prefix (remdups_adj [1, 1]) (decoded_ids ''s'' (iw_db (foldl demo_ingest_step demo_ingest_world demo_crash_events))) \<and>
   iw_log (foldl demo_ingest_step demo_ingest_world demo_crash_events) = [1, 1]"
proof -
  have l: "iw_log (foldl demo_ingest_step demo_ingest_world demo_crash_events) = [1, 1]" by code_simp
  have "smooth_run demo_codec ''s'' demo_ingest_world demo_crash_events" by code_simp
  from frames_processed_in_order[OF demo_idle(1) this refl] l show ?thesis by (simp only: conj_ac)
qed

text \<open>The exception: a processor that fails on a live frame; the frame behind it is processed first.\<close>

definition demo_failing_events :: "ingest_event list" where
  "demo_failing_events = Launch 1 ''r1'' # demo_connect ''c1'' @ [Advance 9 ''g'' (Raised ''KeyError'') None, demo_go 10, demo_go 11, demo_go 12] @
     tl (demo_connect ''c2'') @ [demo_go 13, demo_go 14, Crash, Launch 20 ''r2'', demo_go 21]"

lemma live_failure_reorders:
  "iw_log (foldl demo_ingest_step demo_ingest_world demo_failing_events) = [1, 2, 1] \<and>
   decoded_ids ''s'' (iw_db (foldl demo_ingest_step demo_ingest_world demo_failing_events)) = [1, 2]"
  by code_simp

definition demo_down :: ingest_world where "demo_down = foldl demo_ingest_step demo_ingest_world demo_broken_events"

lemma downtime_has_open_gap_witness:
  "\<exists>g. wk_pending_gap (the (iw_worker demo_down)) = Some g \<and> gap_is_open ''s'' g (iw_db demo_down)"
proof (rule downtime_has_open_gap[OF demo_idle demo_down_def])
  show "iw_worker demo_down = Some (the (iw_worker demo_down))" by code_simp
qed code_simp+

definition demo_down_again :: ingest_world where "demo_down_again = foldl demo_ingest_step demo_ingest_world demo_broken_again"

definition demo_back :: ingest_world where
  "demo_back = foldl demo_ingest_step (demo_ingest_step demo_down_again (demo_go 16)) (demo_go 17 # demo_connect ''c2'' @ [demo_go 18, demo_go 19])"

lemma second_failure_orphans_gap_witness:
  "gap_is_open ''s'' 1 (iw_db demo_back) \<and> wk_phase (the (iw_worker demo_back)) = Reading \<and> wk_upstream (the (iw_worker demo_back)) \<noteq> None \<and>
   wk_pending_gap (the (iw_worker demo_back)) = None"
proof (intro conjI)
  show "gap_is_open ''s'' 1 (iw_db demo_back)"
    unfolding demo_back_def
  proof (rule second_failure_orphans_gap[where w = "the (iw_worker demo_down_again)" and reason = "''error:OSError''" and since = 15])
    show "iw_worker demo_down_again = Some (the (iw_worker demo_down_again))" by code_simp
    show "\<forall>now i. Launch now i \<notin> set (demo_go 17 # demo_connect ''c2'' @ [demo_go 18, demo_go 19])" by (simp add: demo_connect_def)
  qed code_simp+
qed code_simp+

end
