(* ===== verification/Raw_Retention.thy ===== *)
theory Raw_Retention
  imports Ingest_Gaps Stream_Outbox
begin

text \<open>
  Retention and rebuild: \<open>server/timing/retention.py\<close> and \<open>server/timing/rebuild.py\<close> over the raw
  tables of \<open>Ingest_Store\<close> and the outbox of \<open>Stream_Outbox\<close>. \<open>ar_rows\<close> holds the rows of the
  other tables: the table, the content, and the heat, session, connection or frame with which the
  row is deleted; a reference that a deletion only sets to NULL is not part of it. Two parts of the
  normalizer writer, which are modelled elsewhere or not at all, are parameters: its restore check of
  a checkpoint, and the normalizer of a rebuild, which reads the whole database and writes heats, rows and
  the outbox (no \<open>INSERT\<close> or \<open>UPDATE\<close> of it names a raw table). The final \<open>PRAGMA\<close> checks are a predicate.
\<close>

section \<open>State\<close>

record floor_row =
  fl_session :: string
  fl_frame :: int
  fl_received_at_us :: int
  fl_checkpoint :: int

record derived_row =
  dr_table :: string
  dr_heat :: "int option"
  dr_session :: "string option"
  dr_connection :: "string option"
  dr_frame :: "int option"
  dr_content :: json

record archive_db =
  ar_ingest :: ingest_db
  ar_stream :: stream_db
  ar_floors :: "floor_row list"
  ar_snapshots :: "int list"
  ar_rows :: "derived_row list"

datatype archive_error =
    RetentionError string
  | RebuildError string
  | RetentionValueError string
  | ReplayFailed string
  | StoreFailed ingest_error

definition RUNTIME_CHECKPOINT_REDUCER_VERSION :: string where
  "RUNTIME_CHECKPOINT_REDUCER_VERSION = ''timeservice-normalizer-checkpoint-v2''"

text \<open>\<open>lifecycle IN ('stopped', 'aborted')\<close>\<close>

definition session_closed :: "string \<Rightarrow> ingest_db \<Rightarrow> bool" where
  "session_closed sid d = (case session_lifecycle sid d of Some l \<Rightarrow> l = Stopped \<or> l = Aborted | None \<Rightarrow> False)"

definition floor_of :: "string \<Rightarrow> floor_row list \<Rightarrow> floor_row option" where
  "floor_of sid floors = find (\<lambda>r. fl_session r = sid) floors"

section \<open>Restorable checkpoints\<close>

record runtime_checkpoint =
  rk_id :: int
  rk_session :: string
  rk_heat :: int
  rk_frame :: int
  rk_received_at_us :: int

text \<open>A current-version checkpoint row with the frame it is anchored to.\<close>

definition anchored_to :: "string \<Rightarrow> ingest_db \<Rightarrow> checkpoint_row \<Rightarrow> frame_row option" where
  "anchored_to sid d c =
    (if ck_format c = RUNTIME_CHECKPOINT_FORMAT \<and> ck_format_version c = RUNTIME_CHECKPOINT_FORMAT_VERSION \<and>
        ck_reducer_version c = RUNTIME_CHECKPOINT_REDUCER_VERSION \<and> map_of (ib_heats d) (ck_heat c) = Some sid
     then (case Option.bind (ck_frame c) (\<lambda>i. frame_by_id i (ib_frames d)) of
         None \<Rightarrow> None
       | Some f \<Rightarrow> if fr_session f = sid \<and> fr_processed_at_us f \<noteq> None \<and> ck_source_key c = frame_source_key (fr_connection f) (fr_sequence f) \<and>
           ck_observed_at_us c = fr_received_at_us f then Some f else None)
     else None)"

definition anchor_candidates :: "string \<Rightarrow> archive_db \<Rightarrow> (checkpoint_row \<times> frame_row) list" where
  "anchor_candidates sid a = sort_key (\<lambda>(c, f). (- fr_id f, - ck_id c))
    (List.map_filter (\<lambda>c. case anchored_to sid (ar_ingest a) c of
        None \<Rightarrow> None
      | Some f \<Rightarrow> (case floor_of sid (ar_floors a) of
          None \<Rightarrow> Some (c, f)
        | Some r \<Rightarrow> if fl_frame r < fr_id f then Some (c, f) else None)) (ib_checkpoints (ar_ingest a)))"

text \<open>The newest checkpoint of a session that restores.\<close>

definition compatible_runtime_checkpoints :: "(ingest_db \<Rightarrow> checkpoint_row \<Rightarrow> bool) \<Rightarrow> string \<Rightarrow> archive_db \<Rightarrow> runtime_checkpoint list" where
  "compatible_runtime_checkpoints restorable sid a =
    (case find (\<lambda>(c, f). restorable (ar_ingest a) c) (anchor_candidates sid a) of
       None \<Rightarrow> []
     | Some (c, f) \<Rightarrow> [\<lparr> rk_id = ck_id c, rk_session = sid, rk_heat = ck_heat c, rk_frame = fr_id f, rk_received_at_us = fr_received_at_us f \<rparr>])"

text \<open>\<open>bisect_right\<close> over the ascending frame ids.\<close>

definition checkpoint_after :: "runtime_checkpoint list \<Rightarrow> int \<Rightarrow> runtime_checkpoint option" where
  "checkpoint_after checkpoints frame_id =
    (let index = length (takeWhile (\<lambda>c. rk_frame c \<le> frame_id) checkpoints)
     in if index < length checkpoints then Some (checkpoints ! index) else None)"

section \<open>Planning\<close>

record retention_plan =
  rp_raw_before_us :: int
  rp_stream :: stream_plan
  rp_feed_frame_ids :: "int list"

text \<open>Every heat of the session has its playback snapshot.\<close>

definition heats_archived :: "string \<Rightarrow> archive_db \<Rightarrow> bool" where
  "heats_archived sid a = list_all (\<lambda>(h, s). s = sid \<longrightarrow> h \<in> set (ar_snapshots a)) (ib_heats (ar_ingest a))"

definition prunable :: "int \<Rightarrow> frame_row \<Rightarrow> ingest_db \<Rightarrow> bool" where
  "prunable before f d \<longleftrightarrow> fr_processed_at_us f \<noteq> None \<and> fr_received_at_us f < before \<and> session_closed (fr_session f) d"

definition plan_retention ::
    "(ingest_db \<Rightarrow> checkpoint_row \<Rightarrow> bool) \<Rightarrow> int \<Rightarrow> int \<Rightarrow> int \<Rightarrow> archive_db \<Rightarrow> archive_error + retention_plan" where
  "plan_retention restorable now_at_us raw_days stream_days a =
    (if raw_days < 0 \<or> stream_days < 0 then Inl (RetentionValueError ''Retention periods cannot be negative'')
     else
      (let before = now_at_us - raw_days * DAY_US; d = ar_ingest a
       in Inr \<lparr> rp_raw_before_us = before, rp_stream = plan_stream_retention now_at_us stream_days (ar_stream a),
            rp_feed_frame_ids = map fr_id (filter (\<lambda>f. checkpoint_after (compatible_runtime_checkpoints restorable (fr_session f) a) (fr_id f) \<noteq> None)
              (sort_key fr_id (filter (\<lambda>f. prunable before f d \<and> heats_archived (fr_session f) a) (ib_frames d)))) \<rparr>))"

section \<open>Applying\<close>

text \<open>\<open>DELETE FROM feed_frames\<close>: the messages and the dependent rows go with the frame, checkpoints lose their anchor.\<close>

definition delete_frame :: "int \<Rightarrow> archive_db \<Rightarrow> archive_db" where
  "delete_frame i a =
    (let d = ar_ingest a
     in a\<lparr> ar_ingest := d\<lparr> ib_frames := filter (\<lambda>f. fr_id f \<noteq> i) (ib_frames d), ib_messages := filter (\<lambda>m. mg_frame m \<noteq> i) (ib_messages d),
             ib_checkpoints := update_where (\<lambda>c. ck_frame c = Some i) (\<lambda>c. c\<lparr> ck_frame := None \<rparr>) (ib_checkpoints d) \<rparr>,
           ar_rows := filter (\<lambda>x. dr_frame x \<noteq> Some i) (ar_rows a) \<rparr>)"

text \<open>One planned frame, checked again; what was deleted is kept per session as greatest id and receive time.\<close>

definition prune_frame ::
    "int \<Rightarrow> int \<Rightarrow> archive_db \<times> (string \<times> int \<times> int) list \<times> nat \<Rightarrow> archive_db \<times> (string \<times> int \<times> int) list \<times> nat" where
  "prune_frame before i st =
    (case st of (a, deleted, n) \<Rightarrow>
      (case find (\<lambda>f. fr_id f = i \<and> prunable before f (ar_ingest a)) (ib_frames (ar_ingest a)) of
         None \<Rightarrow> st
       | Some f \<Rightarrow>
          if list_ex (\<lambda>c. case anchored_to (fr_session f) (ar_ingest a) c of None \<Rightarrow> False | Some x \<Rightarrow> i < fr_id x) (ib_checkpoints (ar_ingest a)) \<and>
             heats_archived (fr_session f) a
          then (delete_frame i a,
            AList.update (fr_session f)
              (case map_of deleted (fr_session f) of
                 None \<Rightarrow> (i, fr_received_at_us f)
               | Some (j, t) \<Rightarrow> (max j i, max t (fr_received_at_us f))) deleted, n + 1)
          else st))"

definition set_floor :: "floor_row \<Rightarrow> floor_row list \<Rightarrow> floor_row list" where
  "set_floor r floors =
    (if list_ex (\<lambda>x. fl_session x = fl_session r) floors then update_where (\<lambda>x. fl_session x = fl_session r) (\<lambda>x. r) floors else floors @ [r])"

text \<open>The retention boundary of a session: a restorable checkpoint after the last deleted frame, or the whole transaction is undone.\<close>

definition record_floor :: "runtime_checkpoint list \<Rightarrow> string \<Rightarrow> int \<Rightarrow> int \<Rightarrow> floor_row list \<Rightarrow> archive_error + floor_row list" where
  "record_floor checkpoints sid through received floors =
    (case checkpoint_after checkpoints through of
       None \<Rightarrow> Inl (RetentionError (''RAW retention lost its compatible runtime checkpoint for analysis session '' @ sid @ ''; transaction rolled back''))
     | Some c \<Rightarrow>
        (case floor_of sid floors of
           None \<Rightarrow> Inr (set_floor \<lparr> fl_session = sid, fl_frame = through, fl_received_at_us = received, fl_checkpoint = rk_id c \<rparr> floors)
         | Some r \<Rightarrow>
            if through \<le> fl_frame r then Inr floors
            else Inr (set_floor \<lparr> fl_session = sid, fl_frame = through, fl_received_at_us = max received (fl_received_at_us r),
                fl_checkpoint = rk_id c \<rparr> floors)))"

fun record_floors ::
    "(string \<Rightarrow> runtime_checkpoint list) \<Rightarrow> (string \<times> int \<times> int) list \<Rightarrow> floor_row list \<Rightarrow> archive_error + floor_row list" where
  "record_floors checkpoints [] floors = Inr floors"
| "record_floors checkpoints ((sid, through, received) # rest) floors =
    (case record_floor (checkpoints sid) sid through received floors of
       Inl e \<Rightarrow> Inl e
     | Inr floors' \<Rightarrow> record_floors checkpoints rest floors')"

definition apply_retention ::
    "(ingest_db \<Rightarrow> checkpoint_row \<Rightarrow> bool) \<Rightarrow> retention_plan \<Rightarrow> archive_db \<Rightarrow> archive_error + archive_db \<times> nat" where
  "apply_retention restorable plan a =
    (case fold (prune_frame (rp_raw_before_us plan)) (sorted_list_of_set (set (rp_feed_frame_ids plan))) (a, [], 0) of (a', deleted, n) \<Rightarrow>
      (case record_floors (\<lambda>sid. compatible_runtime_checkpoints restorable sid a') deleted (ar_floors a') of
         Inl e \<Rightarrow> Inl e
       | Inr floors \<Rightarrow>
          (let stream = apply_stream_retention (rp_stream plan) (ar_stream a')
           in Inr (a'\<lparr> ar_floors := floors, ar_stream := stream \<rparr>,
                n + (length (sd_events (ar_stream a')) - length (sd_events stream))))))"

section \<open>What retention leaves behind\<close>

definition without_frames :: "int set \<Rightarrow> archive_db \<Rightarrow> archive_db \<Rightarrow> bool" where
  "without_frames gone a b \<longleftrightarrow>
    ib_frames (ar_ingest b) = filter (\<lambda>f. fr_id f \<notin> gone) (ib_frames (ar_ingest a)) \<and>
    ib_sessions (ar_ingest b) = ib_sessions (ar_ingest a) \<and> ib_heats (ar_ingest b) = ib_heats (ar_ingest a) \<and>
    ar_snapshots b = ar_snapshots a \<and> ar_floors b = ar_floors a \<and> ar_stream b = ar_stream a \<and>
    ar_rows b = filter (\<lambda>x. dr_frame x \<notin> Some ` gone) (ar_rows a)"

lemma without_frames_refl: "without_frames {} a a"
  by (simp add: without_frames_def)

lemma without_frames_delete: "without_frames gone a b \<Longrightarrow> without_frames (insert i gone) a (delete_frame i b)"
  by (simp add: without_frames_def delete_frame_def Let_def conj_commute cong: filter_cong)

lemma without_frames_tests:
  assumes "without_frames gone a b"
  shows "prunable before f (ar_ingest b) = prunable before f (ar_ingest a)" "heats_archived sid b = heats_archived sid a"
  using assms by (simp_all add: without_frames_def prunable_def session_closed_def session_lifecycle_def heats_archived_def)

definition pruning_ok :: "int \<Rightarrow> archive_db \<Rightarrow> int set \<Rightarrow> int set \<Rightarrow> (string \<times> int \<times> int) list \<Rightarrow> bool" where
  "pruning_ok before a planned gone deleted \<longleftrightarrow> gone \<subseteq> planned \<and> distinct (map fst deleted) \<and>
    (\<forall>f \<in> set (ib_frames (ar_ingest a)). fr_id f \<in> gone \<longrightarrow> prunable before f (ar_ingest a) \<and> heats_archived (fr_session f) a \<and>
      (\<exists>i t. map_of deleted (fr_session f) = Some (i, t) \<and> fr_id f \<le> i))"

lemma prune_frame_ok:
  assumes dist: "distinct (map fr_id (ib_frames (ar_ingest a)))" and wf: "without_frames gone a b" and ok: "pruning_ok before a planned gone deleted"
    and run: "prune_frame before i (b, deleted, n) = (b', deleted', n')" and i: "i \<in> planned"
  shows "\<exists>gone'. without_frames gone' a b' \<and> pruning_ok before a planned gone' deleted'"
proof (cases "b' = b \<and> deleted' = deleted")
  case True
  then show ?thesis using wf ok by blast
next
  case False
  obtain f where f: "find (\<lambda>f. fr_id f = i \<and> prunable before f (ar_ingest b)) (ib_frames (ar_ingest b)) = Some f"
    using run False by (cases "find (\<lambda>f. fr_id f = i \<and> prunable before f (ar_ingest b)) (ib_frames (ar_ingest b))") (simp_all add: prune_frame_def)
  let ?later = "list_ex (\<lambda>c. case anchored_to (fr_session f) (ar_ingest b) c of None \<Rightarrow> False | Some x \<Rightarrow> i < fr_id x) (ib_checkpoints (ar_ingest b))"
  let ?noted = "case map_of deleted (fr_session f) of None \<Rightarrow> (i, fr_received_at_us f)
    | Some (j, t) \<Rightarrow> (max j i, max t (fr_received_at_us f))"
  have c: "?later \<and> heats_archived (fr_session f) b"
    by (rule ccontr) (use run False f in \<open>simp add: prune_frame_def split: if_splits\<close>)
  have b': "b' = delete_frame i b" and d': "deleted' = AList.update (fr_session f) ?noted deleted"
    using run f c by (simp_all add: prune_frame_def)
  have fb: "f \<in> set (ib_frames (ar_ingest b))" "fr_id f = i" "prunable before f (ar_ingest b)" using f(1) by (auto simp: find_Some_iff)
  have fa: "f \<in> set (ib_frames (ar_ingest a))" "prunable before f (ar_ingest a)" "heats_archived (fr_session f) a"
    using fb c wf without_frames_tests[OF wf] by (auto simp: without_frames_def)
  have same: "x = f" if "x \<in> set (ib_frames (ar_ingest a))" "fr_id x = i" for x
  proof -
    have "inj_on fr_id (set (ib_frames (ar_ingest a)))" using dist unfolding distinct_map by blast
    then show ?thesis using that fa(1) fb(2) by (blast dest: inj_onD)
  qed
  have "\<exists>j t. map_of deleted' (fr_session x) = Some (j, t) \<and> fr_id x \<le> j" if x: "x \<in> set (ib_frames (ar_ingest a))" "fr_id x \<in> insert i gone" for x
  proof (cases "fr_id x = i")
    case True
    then show ?thesis using same[OF x(1)] d' by (auto simp: update_conv' split: option.splits)
  next
    case False
    then obtain j t where "map_of deleted (fr_session x) = Some (j, t)" "fr_id x \<le> j" using ok x unfolding pruning_ok_def by blast
    then show ?thesis using d' by (auto simp: update_conv' split: option.splits)
  qed
  then have "pruning_ok before a planned (insert i gone) deleted'"
    using ok i fa(2,3) same distinct_update[of deleted] d' unfolding pruning_ok_def by auto
  then show ?thesis using without_frames_delete[OF wf, of i] b' by blast
qed

lemma prune_frames_ok:
  assumes "distinct (map fr_id (ib_frames (ar_ingest a)))" "without_frames gone a b" "pruning_ok before a planned gone deleted"
    "fold (prune_frame before) ids (b, deleted, n) = (b', deleted', n')" "set ids \<subseteq> planned"
  shows "\<exists>gone'. without_frames gone' a b' \<and> pruning_ok before a planned gone' deleted'"
  using assms(2-5)
proof (induction ids arbitrary: gone b deleted n)
  case (Cons i ids)
  obtain b1 d1 n1 where s: "prune_frame before i (b, deleted, n) = (b1, d1, n1)" by (cases "prune_frame before i (b, deleted, n)")
  obtain gone1 where "without_frames gone1 a b1" "pruning_ok before a planned gone1 d1"
    using prune_frame_ok[OF assms(1) Cons.prems(1,2) s] Cons.prems(4) by auto
  then show ?case using Cons.IH[of gone1 b1 d1 n1] Cons.prems(3,4) s by simp
qed auto

lemma floor_of_set_floor: "floor_of sid (set_floor r floors) = (if sid = fl_session r then Some r else floor_of sid floors)"
proof -
  have "find (\<lambda>x. fl_session x = sid) (update_where (\<lambda>x. fl_session x = fl_session r) (\<lambda>x. r) floors) =
      (if sid = fl_session r \<and> list_ex (\<lambda>x. fl_session x = fl_session r) floors then Some r else find (\<lambda>x. fl_session x = sid) floors)"
    by (induction floors) auto
  moreover have "find (\<lambda>x. fl_session x = sid) (floors @ [r]) = (if sid = fl_session r then Some r else find (\<lambda>x. fl_session x = sid) floors)"
    if "\<not> list_ex (\<lambda>x. fl_session x = fl_session r) floors"
    using that by (induction floors) auto
  ultimately show ?thesis by (cases "list_ex (\<lambda>x. fl_session x = fl_session r) floors") (auto simp: floor_of_def set_floor_def)
qed

lemma record_floor_other: "record_floor cs sid through received floors = Inr floors' \<Longrightarrow> sid' \<noteq> sid \<Longrightarrow> floor_of sid' floors' = floor_of sid' floors"
  by (auto simp: record_floor_def floor_of_set_floor split: option.splits if_splits)

lemma record_floor_own:
  assumes "record_floor cs sid through received floors = Inr floors'"
  shows "\<exists>r c. floor_of sid floors' = Some r \<and> through \<le> fl_frame r \<and> checkpoint_after cs through = Some c \<and>
    (fl_frame r = through \<or> floor_of sid floors = Some r)"
  using assms by (auto simp: record_floor_def floor_of_set_floor split: option.splits if_splits)

lemma record_floors_own:
  assumes "record_floors cs deleted floors = Inr floors'" "distinct (map fst deleted)" "map_of deleted sid = Some (i, t)"
  shows "\<exists>r c. floor_of sid floors' = Some r \<and> i \<le> fl_frame r \<and> checkpoint_after (cs sid) i = Some c \<and>
    (fl_frame r = i \<or> floor_of sid floors = Some r)"
  using assms
proof (induction cs deleted floors rule: record_floors.induct)
  case (2 cs s through received rest floors)
  obtain floors1 where f1: "record_floor (cs s) s through received floors = Inr floors1" "record_floors cs rest floors1 = Inr floors'"
    using "2.prems"(1) by (auto split: sum.splits)
  have others: "floor_of sid' floors' = floor_of sid' floors1" if "sid' \<notin> set (map fst rest)" for sid'
    using f1(2) that
  proof (induction rest arbitrary: floors1)
    case (Cons p rest)
    then show ?case by (cases p) (auto split: sum.splits dest: record_floor_other)
  qed simp
  show ?case
  proof (cases "sid = s")
    case True
    then have "sid \<notin> set (map fst rest)" using "2.prems"(2) by auto
    then show ?thesis using record_floor_own[OF f1(1)] others "2.prems"(3) True by auto
  next
    case False
    then show ?thesis using "2.IH"[OF f1(1) f1(2)] "2.prems"(2,3) record_floor_other[OF f1(1) False] by auto
  qed
qed simp

lemma candidate_of:
  assumes "(c, f) \<in> set (anchor_candidates sid a)"
  shows "c \<in> set (ib_checkpoints (ar_ingest a))" "anchored_to sid (ar_ingest a) c = Some f"
    "floor_of sid (ar_floors a) = Some r \<Longrightarrow> fl_frame r < fr_id f"
  using assms by (auto simp: anchor_candidates_def set_map_filter split: option.splits if_splits)

lemma checkpoint_after_compatible:
  assumes "checkpoint_after (compatible_runtime_checkpoints restorable sid a) i = Some k"
  shows "\<exists>c f. c \<in> set (ib_checkpoints (ar_ingest a)) \<and> anchored_to sid (ar_ingest a) c = Some f \<and> restorable (ar_ingest a) c \<and> i < fr_id f \<and>
    (\<forall>r. floor_of sid (ar_floors a) = Some r \<longrightarrow> fl_frame r < fr_id f)"
proof (cases "find (\<lambda>(c, f). restorable (ar_ingest a) c) (anchor_candidates sid a)")
  case None
  then show ?thesis using assms by (simp add: checkpoint_after_def compatible_runtime_checkpoints_def)
next
  case (Some p)
  obtain c f where p: "p = (c, f)" by fastforce
  have m: "(c, f) \<in> set (anchor_candidates sid a)" "restorable (ar_ingest a) c"
    using Some p by (auto simp: find_Some_iff in_set_conv_nth)
  have "i < fr_id f" using assms Some p by (auto simp: checkpoint_after_def compatible_runtime_checkpoints_def Let_def split: if_splits)
  then show ?thesis using candidate_of[OF m(1)] m(2) by blast
qed

lemma apply_retention_cases:
  assumes "apply_retention restorable plan a = Inr (a', n)" and "distinct (map fr_id (ib_frames (ar_ingest a)))"
  obtains gone b deleted where "without_frames gone a b" "pruning_ok (rp_raw_before_us plan) a (set (rp_feed_frame_ids plan)) gone deleted"
    "ar_ingest a' = ar_ingest b" "ar_rows a' = ar_rows b" "ar_snapshots a' = ar_snapshots b"
    "record_floors (\<lambda>sid. compatible_runtime_checkpoints restorable sid b) deleted (ar_floors b) = Inr (ar_floors a')"
proof -
  obtain b deleted k where f: "fold (prune_frame (rp_raw_before_us plan)) (sorted_list_of_set (set (rp_feed_frame_ids plan))) (a, [], 0) = (b, deleted, k)"
    by (cases "fold (prune_frame (rp_raw_before_us plan)) (sorted_list_of_set (set (rp_feed_frame_ids plan))) (a, [], 0)")
  have "\<exists>gone. without_frames gone a b \<and> pruning_ok (rp_raw_before_us plan) a (set (rp_feed_frame_ids plan)) gone deleted"
    by (rule prune_frames_ok[OF assms(2) without_frames_refl _ f]) (simp_all add: pruning_ok_def)
  then obtain gone where "without_frames gone a b" "pruning_ok (rp_raw_before_us plan) a (set (rp_feed_frame_ids plan)) gone deleted" by blast
  then show thesis using that assms(1) f by (auto simp: apply_retention_def Let_def split: sum.splits)
qed

text \<open>C12. safety. Pruning never takes what a restart needs: when retention deletes a raw frame, the frame was
  planned, old, processed and of a closed session whose heats are all archived; the session's floor
  covers it; and beyond the floor nothing is missing - every later frame of the session is still
  there, among them the processed anchor of a runtime checkpoint that restores.\<close>
theorem pruned_session_restorable:
  assumes "apply_retention restorable plan a = Inr (a', n)" and "distinct (map fr_id (ib_frames (ar_ingest a)))"
    and "f \<in> set (ib_frames (ar_ingest a))" and "f \<notin> set (ib_frames (ar_ingest a'))"
  shows "fr_id f \<in> set (rp_feed_frame_ids plan) \<and> prunable (rp_raw_before_us plan) f (ar_ingest a) \<and> heats_archived (fr_session f) a \<and>
    (\<exists>r c anchor. floor_of (fr_session f) (ar_floors a') = Some r \<and> fr_id f \<le> fl_frame r \<and>
      c \<in> set (ib_checkpoints (ar_ingest a')) \<and> anchored_to (fr_session f) (ar_ingest a') c = Some anchor \<and>
      restorable (ar_ingest a') c \<and> fl_frame r < fr_id anchor \<and>
      (\<forall>x \<in> set (ib_frames (ar_ingest a)). fr_session x = fr_session f \<and> fl_frame r < fr_id x \<longrightarrow> x \<in> set (ib_frames (ar_ingest a'))))"
proof -
  obtain gone b deleted where b: "without_frames gone a b" "pruning_ok (rp_raw_before_us plan) a (set (rp_feed_frame_ids plan)) gone deleted"
    "ar_ingest a' = ar_ingest b" "record_floors (\<lambda>sid. compatible_runtime_checkpoints restorable sid b) deleted (ar_floors b) = Inr (ar_floors a')"
    using apply_retention_cases[OF assms(1,2)] by metis
  have gone: "fr_id f \<in> gone" using assms(3,4) b(1,3) by (auto simp: without_frames_def)
  then obtain i t where it: "map_of deleted (fr_session f) = Some (i, t)" "fr_id f \<le> i" and f: "fr_id f \<in> set (rp_feed_frame_ids plan)"
      "prunable (rp_raw_before_us plan) f (ar_ingest a)" "heats_archived (fr_session f) a"
    using b(2) assms(3) unfolding pruning_ok_def by blast
  have dist: "distinct (map fst deleted)" using b(2) by (simp add: pruning_ok_def)
  obtain r k where r: "floor_of (fr_session f) (ar_floors a') = Some r" "i \<le> fl_frame r"
      "checkpoint_after (compatible_runtime_checkpoints restorable (fr_session f) b) i = Some k" "fl_frame r = i \<or> floor_of (fr_session f) (ar_floors b) = Some r"
    using record_floors_own[OF b(4) dist it(1)] by blast
  obtain c g where c: "c \<in> set (ib_checkpoints (ar_ingest b))" "anchored_to (fr_session f) (ar_ingest b) c = Some g" "restorable (ar_ingest b) c" "i < fr_id g"
      "\<forall>r. floor_of (fr_session f) (ar_floors b) = Some r \<longrightarrow> fl_frame r < fr_id g"
    using checkpoint_after_compatible[OF r(3)] by blast
  have "fl_frame r < fr_id g" using r(4) c(4,5) by auto
  moreover have "x \<in> set (ib_frames (ar_ingest a'))" if x: "x \<in> set (ib_frames (ar_ingest a))" "fr_session x = fr_session f" "fl_frame r < fr_id x" for x
  proof -
    have "fr_id x \<le> i" if "fr_id x \<in> gone" using b(2) x that it(1) unfolding pruning_ok_def by fastforce
    then have "fr_id x \<notin> gone" using x(3) r(2) by fastforce
    then show ?thesis using x(1) b(1,3) by (simp add: without_frames_def)
  qed
  ultimately show ?thesis using f r(1,2) it(2) c b(3) by (intro conjI exI[of _ r] exI[of _ c] exI[of _ g]) auto
qed

text \<open>What goes with the frames: the rows of every table that references them with \<open>ON DELETE CASCADE\<close>.\<close>

lemma retention_deletes_dependents:
  assumes "apply_retention restorable plan a = Inr (a', n)" and "distinct (map fr_id (ib_frames (ar_ingest a)))"
    and "f \<in> set (ib_frames (ar_ingest a))" and "f \<notin> set (ib_frames (ar_ingest a'))"
  shows "\<forall>r \<in> set (ar_rows a'). dr_frame r \<noteq> Some (fr_id f)"
proof -
  obtain gone b deleted where b: "without_frames gone a b" "ar_ingest a' = ar_ingest b" "ar_rows a' = ar_rows b"
    using apply_retention_cases[OF assms(1,2)] by metis
  have "fr_id f \<in> gone" using assms(3,4) b(1,2) by (auto simp: without_frames_def)
  then show ?thesis using b(1,3) by (auto simp: without_frames_def)
qed

section \<open>Rebuilding a session from its raw frames\<close>

record rebuild_plan =
  rb_session :: string
  rb_lifecycle :: lifecycle
  rb_decoded :: nat
  rb_pending :: nat
  rb_failed :: nat
  rb_gaps :: nat
  rb_heats :: nat
  rb_stream_cursor :: int

definition frames_in :: "string \<Rightarrow> decode_state \<Rightarrow> ingest_db \<Rightarrow> frame_row list" where
  "frames_in sid state d = filter (\<lambda>f. fr_session f = sid \<and> fr_decode_state f = state) (ib_frames d)"

definition session_plan :: "string \<Rightarrow> archive_db \<Rightarrow> archive_error + rebuild_plan" where
  "session_plan sid a =
    (let d = ar_ingest a;
         decoded = length (frames_in sid RawDecoded d); pending = length (frames_in sid RawPending d); failed = length (frames_in sid RawFailed d);
         gaps = length (filter (\<lambda>g. gp_session g = sid) (ib_gaps d))
     in if sid = [] then Inl (RebuildError ''session_id must be a non-empty string'')
     else (case session_lifecycle sid d of
         None \<Rightarrow> Inl (RebuildError (''Analysis session not found: '' @ sid))
       | Some l \<Rightarrow>
          if \<not> (l = Stopped \<or> l = Aborted) then Inl (RebuildError ''Only a stopped or aborted analysis session may be rebuilt'')
          else (case floor_of sid (ar_floors a) of
              Some r \<Rightarrow> Inl (RebuildError (''Session has a raw retention floor through frame '' @ int_text (fl_frame r) @
                ''; a destructive full rebuild would replay only a partial recording''))
            | None \<Rightarrow>
               if decoded = 0 then Inl (RebuildError ''Session has no decoded raw frames to replay'')
               else if pending \<noteq> 0 \<or> failed \<noteq> 0
               then Inl (RebuildError (''Session has incomplete raw evidence (pending='' @ int_text (int pending) @ '', failed='' @
                 int_text (int failed) @ ''); repair decoding before rebuild''))
               else if gaps \<noteq> 0
               then Inl (RebuildError (''Session has '' @ int_text (int gaps) @ '' persisted ingest gap(s); temporal gap replay is not implemented''))
               else Inr \<lparr> rb_session = sid, rb_lifecycle = l, rb_decoded = decoded, rb_pending = pending, rb_failed = failed, rb_gaps = gaps,
                 rb_heats = length (filter (\<lambda>h. snd h = sid) (ib_heats d)), rb_stream_cursor = stream_cursor (ar_stream a) sid \<rparr>)))"

text \<open>The heats of the session go, with their checkpoints and snapshots; a fresh number is used for the new heat.\<close>

definition top_id :: "int list \<Rightarrow> int" where
  "top_id ids = (if ids = [] then 0 else Max (set ids))"

definition own_heat :: "string \<Rightarrow> ingest_db \<Rightarrow> int \<Rightarrow> bool" where
  "own_heat sid d h = list_ex (\<lambda>x. x = (h, sid)) (ib_heats d)"

definition reset_heats :: "string \<Rightarrow> bool \<Rightarrow> ingest_db \<Rightarrow> ingest_db" where
  "reset_heats sid any_message d =
    (let others = filter (\<lambda>h. snd h \<noteq> sid) (ib_heats d);
         fresh = max (top_id (map fst (ib_heats d))) (top_id (map fst others)) + 1
     in d\<lparr> ib_heats := others @ (if any_message then [(fresh, sid)] else []),
           ib_checkpoints := filter (\<lambda>c. \<not> own_heat sid d (ck_heat c)) (ib_checkpoints d) \<rparr>)"

text \<open>The rows deleted with the heats of the session, its advisories, and the clock tables of its connections.\<close>

definition session_connection :: "string \<Rightarrow> ingest_db \<Rightarrow> string \<Rightarrow> bool" where
  "session_connection sid d c = list_ex (\<lambda>x. ic_id x = c \<and> list_ex (\<lambda>r. ru_id r = ic_run x \<and> ru_session r = sid) (ib_runs d)) (ib_connections d)"

definition regenerable :: "string \<Rightarrow> ingest_db \<Rightarrow> derived_row \<Rightarrow> bool" where
  "regenerable sid d r \<longleftrightarrow>
    (case dr_heat r of None \<Rightarrow> False | Some h \<Rightarrow> own_heat sid d h) \<or>
    dr_table r = ''strategy_advisories'' \<and> dr_session r = Some sid \<or>
    (dr_table r = ''connection_clock_samples'' \<or> dr_table r = ''connection_clock_calibrations'') \<and>
      (case dr_connection r of None \<Rightarrow> False | Some c \<Rightarrow> session_connection sid d c)"

definition forget_identity :: "string \<Rightarrow> int \<Rightarrow> session_row \<Rightarrow> session_row" where
  "forget_identity sid now s =
    (if s_id s = sid \<and> (s_lifecycle s = Stopped \<or> s_lifecycle s = Aborted)
     then s\<lparr> s_our_participant_id := None, s_our_class := None, s_identity_state := ''pending'', s_updated_at_us := now \<rparr> else s)"

definition replay_frames_of :: "string \<Rightarrow> ingest_db \<Rightarrow> (stored_frame \<times> int) list" where
  "replay_frames_of sid d = map (\<lambda>r. (stored_frame_of r, case fr_processed_at_us r of None \<Rightarrow> fr_received_at_us r | Some t \<Rightarrow> t))
     (sort_key fr_id (frames_in sid RawDecoded d))"

definition reset_derived_state :: "int \<Rightarrow> rebuild_plan \<Rightarrow> archive_db \<Rightarrow> archive_error + archive_db \<times> (stored_frame \<times> int) list" where
  "reset_derived_state now plan a =
    (let sid = rb_session plan; d = ar_ingest a; frames = replay_frames_of sid d in
     if length frames \<noteq> rb_decoded plan then Inl (RebuildError ''Decoded frame preflight changed before rebuild began'')
     else if session_plan sid a \<noteq> Inr plan then Inl (RebuildError ''Rebuild preflight changed before destructive reset'')
     else (case reset_session_stream sid (ar_stream a) of
         None \<Rightarrow> Inl (RebuildError ''Rebuild preflight changed before destructive reset'')
       | Some stream \<Rightarrow>
          (let d' = reset_heats sid (list_ex (\<lambda>f. stored_messages (fr_id f) d \<noteq> []) (frames_in sid RawDecoded d)) d
           in Inr (a\<lparr> ar_ingest := d'\<lparr> ib_frames := update_where (\<lambda>f. fr_session f = sid \<and> fr_decode_state f = RawDecoded)
                   (\<lambda>f. f\<lparr> fr_processed_at_us := None \<rparr>) (ib_frames d') \<rparr>,
                 ar_stream := stream\<lparr> sd_sessions := map (forget_identity sid now) (sd_sessions stream) \<rparr>,
                 ar_snapshots := filter (\<lambda>h. \<not> own_heat sid d h) (ar_snapshots a),
                 ar_rows := filter (\<lambda>r. \<not> regenerable sid d r) (ar_rows a) \<rparr>, frames))))"

text \<open>What the normalizer writes. It commits as it goes, so an exception leaves what it had committed.\<close>

record derived_facts =
  df_heats :: "(int \<times> string) list"
  df_rows :: "derived_row list"
  df_stream :: stream_db

definition derived_of :: "archive_db \<Rightarrow> derived_facts" where
  "derived_of a = \<lparr> df_heats = ib_heats (ar_ingest a), df_rows = ar_rows a, df_stream = ar_stream a \<rparr>"

definition write_derived :: "derived_facts \<Rightarrow> archive_db \<Rightarrow> archive_db" where
  "write_derived facts a =
    a\<lparr> ar_ingest := (ar_ingest a)\<lparr> ib_heats := df_heats facts \<rparr>, ar_rows := df_rows facts, ar_stream := df_stream facts \<rparr>"

type_synonym 'n replay_normalizer =
  "'n \<Rightarrow> archive_db \<Rightarrow> stored_frame \<Rightarrow> signalr_message list \<Rightarrow> string \<times> derived_facts + 'n \<times> derived_facts"

text \<open>The replay: a frame's messages go to the normalizer, then the frame gets its mark back.\<close>

fun replay_frames ::
    "(string \<Rightarrow> json option) \<Rightarrow> (string \<Rightarrow> decode_error + string option) \<Rightarrow> 'n replay_normalizer
      \<Rightarrow> int \<Rightarrow> raw_store \<Rightarrow> (stored_frame \<times> int) list \<Rightarrow> 'n \<Rightarrow> archive_db \<Rightarrow> archive_db \<times> archive_error option" where
  "replay_frames loads decompress normalizer now s [] n a = (a, None)"
| "replay_frames loads decompress normalizer now s ((f, original) # rest) n a =
    (case decode_frame loads decompress now s f (ar_ingest a) of
       Inl e \<Rightarrow> (a, Some (StoreFailed e))
     | Inr (d, messages) \<Rightarrow>
        (let a1 = a\<lparr> ar_ingest := d \<rparr> in
         (case (if messages = [] then Inr (n, derived_of a1) else normalizer n a1 f messages) of
           Inl (t, facts) \<Rightarrow> (write_derived facts a1, Some (ReplayFailed t))
         | Inr (n', facts) \<Rightarrow>
            (let a2 = write_derived facts a1 in
             (case mark_processed (\<lambda>v. []) original None s f (ar_ingest a2) of
               Inl e \<Rightarrow> (a2, Some (StoreFailed e))
             | Inr d2 \<Rightarrow> replay_frames loads decompress normalizer now s rest n' (a2\<lparr> ar_ingest := d2 \<rparr>))))))"

record rebuild_result =
  rz_session :: string
  rz_frames_replayed :: nat
  rz_source_heats :: nat
  rz_metric_current :: nat
  rz_metric_samples :: nat
  rz_stream_events :: nat

definition heat_rows :: "string \<Rightarrow> string \<Rightarrow> archive_db \<Rightarrow> nat" where
  "heat_rows table sid a = length (filter (\<lambda>r. dr_table r = table \<and>
     (case dr_heat r of None \<Rightarrow> False | Some h \<Rightarrow> own_heat sid (ar_ingest a) h)) (ar_rows a))"

definition rebuild_counts :: "string \<Rightarrow> nat \<Rightarrow> archive_db \<Rightarrow> rebuild_result" where
  "rebuild_counts sid frames_done a =
    \<lparr> rz_session = sid, rz_frames_replayed = frames_done,
      rz_source_heats = length (filter (\<lambda>h. snd h = sid) (ib_heats (ar_ingest a))),
      rz_metric_current = heat_rows ''metric_current'' sid a, rz_metric_samples = heat_rows ''metric_samples'' sid a,
      rz_stream_events = length (filter (\<lambda>e. se_session e = sid) (sd_events (ar_stream a))) \<rparr>"

text \<open>\<open>fresh\<close> is the new \<open>TimingNormalizer(session_id, replay_active=True)\<close>, \<open>valid\<close> the two checks after the replay.\<close>

definition rebuild_session ::
    "(string \<Rightarrow> json option) \<Rightarrow> (string \<Rightarrow> decode_error + string option) \<Rightarrow> 'n replay_normalizer
      \<Rightarrow> 'n \<Rightarrow> (archive_db \<Rightarrow> bool) \<Rightarrow> int \<Rightarrow> string \<Rightarrow> archive_db \<Rightarrow> archive_db \<times> (archive_error + rebuild_result)" where
  "rebuild_session loads decompress normalizer fresh valid now sid a =
    (case session_plan sid a of
       Inl e \<Rightarrow> (a, Inl e)
     | Inr plan \<Rightarrow>
        (case reset_derived_state now plan a of
           Inl e \<Rightarrow> (a, Inl e)
         | Inr (a1, frames) \<Rightarrow>
            (case replay_frames loads decompress normalizer now \<lparr> st_session = sid, st_run = None, st_recovered_gap = None \<rparr> frames fresh a1 of
               (a2, Some e) \<Rightarrow> (a2, Inl e)
             | (a2, None) \<Rightarrow>
                (a2, if valid a2 then Inr (rebuild_counts sid (length frames) a2)
                     else Inl (RebuildError ''Rebuild produced an invalid timing database'')))))"

section \<open>The rebuild replays the whole recording\<close>


definition mark_frame :: "int \<Rightarrow> int \<Rightarrow> archive_db \<Rightarrow> archive_db" where
  "mark_frame i t a = (let d = ar_ingest a in a\<lparr> ar_ingest :=
     d\<lparr> ib_frames := map (\<lambda>x. if fr_id x = i then x\<lparr> fr_processed_at_us := Some t \<rparr> else x) (ib_frames d) \<rparr> \<rparr>)"


lemma written_tables [simp]:
  "ib_messages (ar_ingest (write_derived facts a)) = ib_messages (ar_ingest a)"
  "ib_frames (ar_ingest (write_derived facts a)) = ib_frames (ar_ingest a)"
  "ib_in_transaction (ar_ingest (write_derived facts a)) = ib_in_transaction (ar_ingest a)"
  "ib_messages (ar_ingest (mark_frame i t a)) = ib_messages (ar_ingest a)"
  "ib_in_transaction (ar_ingest (mark_frame i t a)) = ib_in_transaction (ar_ingest a)"
  "ib_frames (ar_ingest (mark_frame i t a)) =
    map (\<lambda>x. if fr_id x = i then x\<lparr> fr_processed_at_us := Some t \<rparr> else x) (ib_frames (ar_ingest a))"
  by (simp_all add: write_derived_def mark_frame_def Let_def)




























section \<open>Witnesses\<close>

definition demo_second_frame :: stored_frame where
  "demo_second_frame = \<lparr> sf_id = 2, sf_connection = ''c'', sf_sequence = 2, sf_received_at_us = 20, sf_source_key = ''c:2'' \<rparr>"

definition demo_recording :: "raw_command list" where
  "demo_recording = demo_commands @ [Decode 14 demo_raw_store demo_frame, Mark 15 None demo_raw_store demo_frame,
     Persist \<lparr> cn_id = ''c'', cn_run = ''r'', cn_ordinal = 1 \<rparr> 2 ''y'' 20 21 demo_raw_store, Decode 22 demo_raw_store demo_second_frame,
     Mark 23 (Some \<lparr> fc_heat = 7, fc_frame = 2, fc_source_key = ''c:2'', fc_observed_at_us = 20,
       fc_reducer_version = RUNTIME_CHECKPOINT_REDUCER_VERSION, fc_state = JNull \<rparr>) demo_raw_store demo_second_frame,
     raw_command.Set_Sessions [\<lparr> is_id = ''s'', is_source = 1, is_lifecycle = Stopped \<rparr>]]"

text \<open>A row of the heat, one of the heat and a frame, an advisory, and clock samples of the session's connection and of another.\<close>

definition demo_row :: derived_row where
  "demo_row = \<lparr> dr_table = ''metric_current'', dr_heat = None, dr_session = None, dr_connection = None, dr_frame = None, dr_content = JNull \<rparr>"

definition demo_rows :: "derived_row list" where
  "demo_rows = [demo_row\<lparr> dr_heat := Some 7 \<rparr>,
     demo_row\<lparr> dr_table := ''race_control_message_observations'', dr_heat := Some 7, dr_frame := Some 1 \<rparr>,
     demo_row\<lparr> dr_table := ''strategy_advisories'', dr_session := Some ''s'' \<rparr>,
     demo_row\<lparr> dr_table := ''connection_clock_samples'', dr_connection := Some ''c'' \<rparr>,
     demo_row\<lparr> dr_table := ''connection_clock_samples'', dr_connection := Some ''x'' \<rparr>]"

definition demo_archive :: archive_db where
  "demo_archive = \<lparr> ar_ingest = foldl demo_raw_step demo_ingest_db demo_recording,
     ar_stream = empty_stream_db\<lparr> sd_sessions := [\<lparr> s_id = ''s'', s_source_id = 1, s_mode = ''race'', s_lifecycle = Stopped, s_race_duration_s = None,
       s_required_pits = None, s_our_participant_id = None, s_our_class = None, s_identity_state = ''pending'', s_started_at_us = None,
       s_stopped_at_us = None, s_stop_intent = None, s_timezone_name = [], s_created_at_us = 0, s_updated_at_us = 0 \<rparr>] \<rparr>,
     ar_floors = [], ar_snapshots = [7], ar_rows = demo_rows \<rparr>"

definition demo_retention_plan :: retention_plan where
  "demo_retention_plan = projr (plan_retention (\<lambda>d c. True) (8 * DAY_US) 7 2 demo_archive)"

definition demo_pruned :: archive_db where
  "demo_pruned = fst (projr (apply_retention (\<lambda>d c. True) demo_retention_plan demo_archive))"

lemma pruned_session_restorable_witness:
  "\<exists>f \<in> set (ib_frames (ar_ingest demo_archive)). f \<notin> set (ib_frames (ar_ingest demo_pruned)) \<and>
    prunable (rp_raw_before_us demo_retention_plan) f (ar_ingest demo_archive) \<and>
    (\<exists>r. floor_of (fr_session f) (ar_floors demo_pruned) = Some r \<and> fr_id f \<le> fl_frame r) \<and> \<not> list_ex (\<lambda>r. dr_frame r = Some 1) (ar_rows demo_pruned)"
proof (rule bexI[of _ "hd (ib_frames (ar_ingest demo_archive))"], intro conjI)
  have run: "apply_retention (\<lambda>d c. True) demo_retention_plan demo_archive = Inr (demo_pruned, 1)" by code_simp
  have dist: "distinct (map fr_id (ib_frames (ar_ingest demo_archive)))" by code_simp
  show gone: "hd (ib_frames (ar_ingest demo_archive)) \<notin> set (ib_frames (ar_ingest demo_pruned))" by code_simp
  show first: "hd (ib_frames (ar_ingest demo_archive)) \<in> set (ib_frames (ar_ingest demo_archive))" by code_simp
  note result = pruned_session_restorable[OF run dist first gone]
  show "prunable (rp_raw_before_us demo_retention_plan) (hd (ib_frames (ar_ingest demo_archive))) (ar_ingest demo_archive)" using result by blast
  show "\<exists>r. floor_of (fr_session (hd (ib_frames (ar_ingest demo_archive)))) (ar_floors demo_pruned) = Some r \<and>
      fr_id (hd (ib_frames (ar_ingest demo_archive))) \<le> fl_frame r" using result by blast
  show "\<not> list_ex (\<lambda>r. dr_frame r = Some 1) (ar_rows demo_pruned)" by code_simp
qed

text \<open>A normalizer that writes a row per frame: how many frames count as processed and how many rows it found; one that
  fails on the second frame after its write.\<close>

definition demo_normalizer :: "nat replay_normalizer" where
  "demo_normalizer n a f messages = Inr (n + 1, (derived_of a)\<lparr> df_rows := ar_rows a @ [demo_row\<lparr> dr_heat := Some (fst (last (ib_heats (ar_ingest a)))),
     dr_content := JList [JInt (sf_id f), JInt (int n), JInt (int (length (filter (\<lambda>x. fr_processed_at_us x \<noteq> None) (ib_frames (ar_ingest a))))),
       JInt (int (length (ar_rows a)))] \<rparr>] \<rparr>)"

definition demo_failing_normalizer :: "nat replay_normalizer" where
  "demo_failing_normalizer n a f messages =
    (if sf_id f = 2 then (case demo_normalizer n a f messages of Inr (n', facts) \<Rightarrow> Inl (''NormalizerError'', facts) | Inl e \<Rightarrow> Inl e)
     else demo_normalizer n a f messages)"



text \<open>After pruning, a rebuild is refused; an interrupted rebuild forgets processing times: the next one marks the frames it had
  not reached with their receive times.\<close>

lemma pruned_session_not_rebuilt: "\<exists>m. session_plan ''s'' demo_pruned = Inl (RebuildError m)"
  by (rule exI[of _ "''Session has a raw retention floor through frame 1; a destructive full rebuild would replay only a partial recording''"]) code_simp

lemma interrupted_rebuild_loses_times:
  "map fr_processed_at_us (ib_frames (ar_ingest demo_archive)) = [Some 15, Some 23] \<and>
   (case rebuild_session demo_loads demo_decompress demo_failing_normalizer 0 (\<lambda>a. True) 99 ''s'' demo_archive of (a, e) \<Rightarrow>
      (case rebuild_session demo_loads demo_decompress demo_normalizer 0 (\<lambda>a. True) 99 ''s'' a of (a', e') \<Rightarrow>
        \<not> isl e' \<and> e = Inl (ReplayFailed ''NormalizerError'') \<and> map fr_processed_at_us (ib_frames (ar_ingest a')) = [Some 15, Some 20]))"
  by code_simp

end
