(* ===== verification/Car_Facts.thy ===== *)
theory Car_Facts
  imports Provider_Records Metric_Inputs Ingest_Store
begin

text \<open>
  The facts of the cars of one heat as \<open>server/timing/normalizer_writer.py\<close> writes them: the cells
  observed in the result grid, the current row of every car, laps, the track flag, and the part of
  the frame transaction that fills them. Pit stops and tyre stints are declared here and written in
  \<open>Pit_Ledger\<close>. A cell is stored with the canonical key of its column; the participant of a row and
  the number of a canonical lap come with the message, since identities are not modelled. An identifier made
  by \<open>uuid5\<close> is named by what it hashes. Intervals, speed, calibration ids, the log of
  state observations, the columns set by the history of cautions and the change to a new heat are left
  out; the flag field of a heat is a scalar.
\<close>

section \<open>Messages and cells\<close>

record frame_message =
  mx_id :: int
  mx_frame :: int
  mx_ordinal :: int
  mx_handle :: string
  mx_source_key :: string
  mx_received_at_us :: int
  mx_connection :: string

record observed_cell =
  oc_id :: int
  oc_participant :: "string option"
  oc_key :: "string option"
  oc_value_text :: "string option"
  oc_message :: int
  oc_source_key :: string
  oc_change_ordinal :: int
  oc_frame :: int
  oc_message_ordinal :: int

record cell_fact =
  cf_id :: int
  cf_value_text :: "string option"
  cf_message :: int
  cf_source_key :: string
  cf_change_ordinal :: int

record driver_stint =
  dv_raw :: "string option"
  dv_kind :: string
  dv_provider_ts_time :: "int option"
  dv_duration_ms :: "int option"

section \<open>Tables\<close>

text \<open>Provenance of a value of the current row: cell, message, source key and receive time.\<close>

type_synonym provenance = "int \<times> int \<times> string \<times> int"

record car_row =
  cu_participant :: string
  cu_position_overall :: "int option"
  cu_position_class :: "int option"
  cu_marker :: "string option"
  cu_laps :: "int option"
  cu_state_raw :: "string option"
  cu_state_kind :: string
  cu_state_source :: "provenance option"
  cu_timer_raw :: "string option"
  cu_timer_provider_us :: "int option"
  cu_timer_at_us :: "int option"
  cu_driver :: "string option"
  cu_last_lap_ms :: "int option"
  cu_best_lap_ms :: "int option"
  cu_sectors :: json_dict
  cu_pit_count :: "int option"
  cu_pit_count_raw :: "string option"
  cu_pit_count_source :: "provenance option"
  cu_pit_time_raw :: "string option"
  cu_pit_time_source :: "provenance option"
  cu_stint_raw :: "string option"
  cu_stint_kind :: "string option"
  cu_stint_provider_ts_time :: "int option"
  cu_stint_at_us :: "int option"
  cu_stint_duration_ms :: "int option"
  cu_stint_source :: "provenance option"
  cu_message :: int
  cu_source_key :: string
  cu_updated_at_us :: int

datatype lap_name = GridLap string string int | TrackerLap string string

record lap_fact =
  lf_id :: lap_name
  lf_participant :: string
  lf_number :: int
  lf_completed_at_us :: "int option"
  lf_duration_ms :: "int option"
  lf_sectors :: "(string \<times> string option) list option"
  lf_flag :: "string option"
  lf_is_in_lap :: bool
  lf_is_out_lap :: bool
  lf_crosses_pit :: bool
  lf_is_clean :: bool
  lf_message :: int
  lf_source_key :: string
  lf_completion_passing :: "int option"
  lf_duration_cell :: "int option"
  lf_duration_message :: "int option"
  lf_duration_key :: "string option"
  lf_sector_cells :: "(string \<times> int) list option"

text \<open>The identifier of a stop or a stint hashes its participant and its number.\<close>

record stop_fact =
  pk_participant :: string
  pk_number :: int
  pk_entered_at_us :: int
  pk_exited_at_us :: "int option"
  pk_entered_lap :: "int option"
  pk_exited_lap :: "int option"
  pk_lane_ms :: "int option"
  pk_completed :: bool
  pk_entered_message :: int
  pk_entered_key :: string
  pk_entered_state_cell :: "int option"
  pk_entered_count_cell :: "int option"
  pk_entered_at_source :: "(int \<times> int \<times> string) option"
  pk_exited_message :: "int option"
  pk_exited_key :: "string option"
  pk_exited_state_cell :: "int option"
  pk_exited_count_cell :: "int option"
  pk_lane_source :: "(int \<times> int \<times> string) option"

record stint_fact =
  ty_participant :: string
  ty_number :: int
  ty_started_at_us :: int
  ty_ended_at_us :: "int option"
  ty_started_lap :: "int option"
  ty_ended_lap :: "int option"
  ty_completed_laps :: int
  ty_message :: int
  ty_source_key :: string

record flag_period =
  ph_flag :: string
  ph_provider_code :: "string option"
  ph_provider_label :: "string option"
  ph_started_at_us :: int
  ph_ended_at_us :: "int option"
  ph_message :: int
  ph_source_key :: string
  ph_ended_message :: "int option"
  ph_ended_key :: "string option"
  ph_raw :: "string option"

record flag_now =
  fk_flag :: string
  fk_provider_code :: "string option"
  fk_provider_label :: "string option"
  fk_started_at_us :: int
  fk_message :: int
  fk_source_key :: string
  fk_raw :: "string option"

record pending_pit =
  pe_context :: frame_message
  pe_participant :: string
  pe_state_event :: "result_state option"
  pe_state_cell :: "cell_fact option"
  pe_count_event :: "int option"
  pe_count_cell :: "cell_fact option"
  pe_lap_number :: "int option"
  pe_pit_time_event :: "cell_fact option"
  pe_previous :: "car_row option"

text \<open>
  \<open>hf_clocks\<close>, \<open>hf_heat_flag\<close> (the field \<open>f\<close> of the merged heat) and \<open>hf_pending\<close> are attributes of
  the normalizer, the other components tables. \<open>hf_passings\<close> maps a passing observation to the frame
  of its message, \<open>hf_gaps\<close> are the source gaps of the session.
\<close>

record heat_facts =
  hf_clocks :: "(string \<times> clock_calibrator) list"
  hf_heat_flag :: "json option"
  hf_pending :: "pending_pit list"
  hf_cells :: "observed_cell list"
  hf_cars :: "car_row list"
  hf_laps :: "lap_fact list"
  hf_stops :: "stop_fact list"
  hf_stints :: "stint_fact list"
  hf_periods :: "flag_period list"
  hf_flag :: "flag_now option"
  hf_passings :: "(int \<times> int) list"
  hf_gaps :: "(int \<times> int option) list"

text \<open>\<open>ORDER BY f DESC LIMIT 1\<close>, and \<open>COALESCE(MAX(f), 0)\<close>.\<close>

definition top_by :: "('a \<Rightarrow> int) \<Rightarrow> 'a list \<Rightarrow> 'a option" where
  "top_by f rows = (case sort_key (\<lambda>r. - f r) rows of [] \<Rightarrow> None | r # _ \<Rightarrow> Some r)"

definition max_or_zero :: "int list \<Rightarrow> int" where
  "max_or_zero ns = (if ns = [] then 0 else Max (set ns))"

section \<open>Reading cells\<close>

definition RESULT_EVENT_TIMESTAMP_WINDOW_US :: int where
  "RESULT_EVENT_TIMESTAMP_WINDOW_US = 26 * 60 * 60 * 1000000"

definition duration_us_to_ms :: "json \<Rightarrow> int option" where
  "duration_us_to_ms value = (case parse_ts_time value of
     None \<Rightarrow> None
   | Some source_us \<Rightarrow> if 1000000 \<le> source_us \<and> source_us < OPEN_ENDED_TS_TIME then Some (source_us div 1000) else None)"

definition event_ts_time :: "json \<Rightarrow> int option" where
  "event_ts_time value = (case parse_ts_time value of
     None \<Rightarrow> None
   | Some t \<Rightarrow> if t = 0 \<or> is_open_ended_ts_time value then None else Some t)"

definition parse_driver_stint :: "(json \<Rightarrow> string) \<Rightarrow> json \<Rightarrow> driver_stint" where
  "parse_driver_stint render value = (case as_text render value of
     None \<Rightarrow> \<lparr> dv_raw = None, dv_kind = ''UNKNOWN'', dv_provider_ts_time = None, dv_duration_ms = None \<rparr>
   | Some raw \<Rightarrow>
      (let unknown = \<lparr> dv_raw = Some raw, dv_kind = ''UNKNOWN'', dv_provider_ts_time = None, dv_duration_ms = None \<rparr>;
           prefix = hd raw;
           payload = JStr (strip (tl raw))
       in if prefix \<in> {CHR ''S'', CHR ''s'', CHR ''P'', CHR ''p''}
          then (case parse_ts_time payload of
                  Some t \<Rightarrow> if t \<noteq> 0 \<and> t \<noteq> OPEN_ENDED_TS_TIME
                    then unknown\<lparr> dv_kind := (if prefix \<in> {CHR ''S'', CHR ''s''} then ''START_TS'' else ''POINT_TS''),
                           dv_provider_ts_time := Some t \<rparr>
                    else unknown
                | None \<Rightarrow> unknown)
          else if prefix \<in> {CHR ''L'', CHR ''l''}
          then (case duration_us_to_ms payload of
                  Some d \<Rightarrow> unknown\<lparr> dv_kind := ''DURATION'', dv_duration_ms := Some d \<rparr>
                | None \<Rightarrow> unknown)
          else unknown))"

definition clock_for :: "string \<Rightarrow> heat_facts \<Rightarrow> clock_calibrator" where
  "clock_for connection s = (case map_of (hf_clocks s) connection of
     Some c \<Rightarrow> c | None \<Rightarrow> \<lparr> max_samples = 31, offsets_us = [] \<rparr>)"

definition calibrated_result_event_at_us :: "heat_facts \<Rightarrow> frame_message \<Rightarrow> int option \<Rightarrow> int option" where
  "calibrated_result_event_at_us s ctx provider_ts_time =
    (case to_utc_us (opt_json JInt provider_ts_time) (clock_for (mx_connection ctx) s) of
       None \<Rightarrow> None
     | Some calibrated \<Rightarrow>
         if mx_received_at_us ctx - RESULT_EVENT_TIMESTAMP_WINDOW_US \<le> calibrated
            \<and> calibrated \<le> mx_received_at_us ctx + RESULT_EVENT_TIMESTAMP_WINDOW_US
         then Some calibrated else None)"

definition observe_clock ::
    "(string \<Rightarrow> int option option) \<Rightarrow> frame_message \<Rightarrow> json \<Rightarrow> heat_facts \<Rightarrow> string option \<times> heat_facts" where
  "observe_clock fromiso ctx args s =
    (case observe_server_time fromiso (mx_handle ctx) args (RJson (JInt (mx_received_at_us ctx)))
            (clock_for (mx_connection ctx) s) of
       (result, c) \<Rightarrow>
         (case result of Inl _ \<Rightarrow> Some ''ValueError'' | Inr _ \<Rightarrow> None,
          s\<lparr> hf_clocks := AList.update (mx_connection ctx) c (hf_clocks s) \<rparr>))"

text \<open>One cell of a result message: its ordinal, the participant and key of its place, its value.\<close>

record cell_change =
  cg_ordinal :: int
  cg_participant :: "string option"
  cg_key :: "string option"
  cg_value :: json

definition insert_cell :: "(json \<Rightarrow> string) \<Rightarrow> frame_message \<Rightarrow> cell_change \<Rightarrow> heat_facts \<Rightarrow> heat_facts" where
  "insert_cell render ctx change s =
    (if \<exists>c \<in> set (hf_cells s). oc_source_key c = mx_source_key ctx \<and> oc_change_ordinal c = cg_ordinal change then s
     else s\<lparr> hf_cells := hf_cells s @
       [\<lparr> oc_id = next_id (map oc_id (hf_cells s)), oc_participant = cg_participant change, oc_key = cg_key change,
          oc_value_text = as_text render (cg_value change), oc_message = mx_id ctx, oc_source_key = mx_source_key ctx,
          oc_change_ordinal = cg_ordinal change, oc_frame = mx_frame ctx, oc_message_ordinal = mx_ordinal ctx \<rparr>] \<rparr>)"

definition message_cells :: "heat_facts \<Rightarrow> string \<Rightarrow> int \<Rightarrow> string \<Rightarrow> observed_cell list" where
  "message_cells s participant message key = sort_key oc_id
     (filter (\<lambda>c. oc_participant c = Some participant \<and> oc_message c = message \<and> oc_key c = Some key) (hf_cells s))"

definition result_cell_observation :: "heat_facts \<Rightarrow> string \<Rightarrow> int \<Rightarrow> string \<Rightarrow> observed_cell option" where
  "result_cell_observation s participant message key =
    (case message_cells s participant message key of [c] \<Rightarrow> Some c | _ \<Rightarrow> None)"

definition row_event_cells :: "heat_facts \<Rightarrow> string \<Rightarrow> int \<Rightarrow> string \<Rightarrow> cell_fact option" where
  "row_event_cells s participant message key =
    (if key \<in> {''state'', ''pit_stops'', ''pit_time'', ''driver_stint'', ''laps'', ''gap'', ''diff''}
     then map_option (\<lambda>c. \<lparr> cf_id = oc_id c, cf_value_text = oc_value_text c, cf_message = oc_message c,
            cf_source_key = oc_source_key c, cf_change_ordinal = oc_change_ordinal c \<rparr>)
            (result_cell_observation s participant message key)
     else None)"

text \<open>\<open>canonical_key GLOB 'sector_[0-9]*'\<close>.\<close>

definition sector_glob :: "string \<Rightarrow> bool" where
  "sector_glob key \<longleftrightarrow> take 7 key = ''sector_'' \<and> drop 7 key \<noteq> [] \<and> is_ascii_digit (key ! 7)"

definition place :: "observed_cell \<Rightarrow> int \<times> int" where
  "place c = (oc_frame c, oc_message_ordinal c)"

definition result_sectors_for_lap :: "heat_facts \<Rightarrow> string \<Rightarrow> observed_cell option \<Rightarrow> (string \<times> string option \<times> int) list" where
  "result_sectors_for_lap s participant last_cell = (case last_cell of
     None \<Rightarrow> []
   | Some lc \<Rightarrow>
      (let own = filter (\<lambda>c. oc_participant c = Some participant) (hf_cells s);
           earlier = filter (\<lambda>c. oc_key c = Some ''last_lap'' \<and> place c < place lc) own;
           sectors = List.map_filter (\<lambda>c. case oc_key c of
               Some key \<Rightarrow> if sector_glob key then Some (key, c) else None | None \<Rightarrow> None) own;
           rows = (case sort_key (\<lambda>c. (place c, oc_change_ordinal c)) earlier of
               [] \<Rightarrow> sort_key (\<lambda>(key, c). (key, oc_change_ordinal c))
                      (filter (\<lambda>(key, c). oc_message c = oc_message lc) sectors)
             | first # rest \<Rightarrow> (let previous = last (first # rest) in
                 sort_key (\<lambda>(key, c). (key, place c, oc_change_ordinal c))
                   (filter (\<lambda>(key, c). place previous < place c \<and> place c \<le> place lc) sectors)))
       in dict_of (map (\<lambda>(key, c). (key,
            (if duration_us_to_ms (opt_json JStr (oc_value_text c)) \<noteq> None then oc_value_text c else None), oc_id c)) rows)))"

section \<open>The track flag\<close>

text \<open>\<open>_key\<close> on a text: folded case, single spaces.\<close>

definition key_text :: "string option \<Rightarrow> string option" where
  "key_text value = (case Option.bind value (\<lambda>v. if strip v = [] then None else Some (strip v)) of
     None \<Rightarrow> None | Some s \<Rightarrow> Some (join_words (split_words (concat (map fold_case s)))))"

definition same_flag_values :: "(json \<Rightarrow> string) \<Rightarrow> flag_state \<Rightarrow> flag_state \<Rightarrow> bool" where
  "same_flag_values render l r \<longleftrightarrow>
    fl_kind l = fl_kind r \<and> fl_provider_code l = fl_provider_code r \<and>
    (fl_kind l \<noteq> ''UNKNOWN'' \<or>
     key_text (if fl_provider_label l \<in> {None, Some []} then as_text render (fl_raw l) else fl_provider_label l) =
     key_text (if fl_provider_label r \<in> {None, Some []} then as_text render (fl_raw r) else fl_provider_label r))"

definition same_flag_state :: "(json \<Rightarrow> string) \<Rightarrow> flag_now \<Rightarrow> flag_state \<Rightarrow> bool" where
  "same_flag_state render current flag = same_flag_values render
     \<lparr> fl_raw = opt_json JStr (fk_raw current), fl_kind = fk_flag current,
       fl_provider_code = fl_provider_code (canonical_flag (opt_json JStr (fk_provider_code current))),
       fl_provider_label = fk_provider_label current \<rparr> flag"

definition write_immediate_flag ::
    "(json \<Rightarrow> string) \<Rightarrow> frame_message \<Rightarrow> flag_state \<Rightarrow> heat_facts \<Rightarrow> string option \<times> heat_facts" where
  "write_immediate_flag render ctx flag s =
    (if (case hf_flag s of Some current \<Rightarrow> same_flag_state render current flag | None \<Rightarrow> False) then (None, s)
     else
      (let closed = (if hf_flag s = None then hf_periods s
             else update_where (\<lambda>p. ph_ended_at_us p = None)
               (\<lambda>p. p\<lparr> ph_ended_at_us := Some (mx_received_at_us ctx), ph_ended_message := Some (mx_id ctx),
                       ph_ended_key := Some (mx_source_key ctx) \<rparr>) (hf_periods s));
           code = map_option int_text (fl_provider_code flag)
       in if \<exists>p \<in> set closed. ph_source_key p = mx_source_key ctx then (Some ''IntegrityError'', s)
          else (None, s\<lparr> hf_periods := closed @
                 [\<lparr> ph_flag = fl_kind flag, ph_provider_code = code, ph_provider_label = fl_provider_label flag,
                    ph_started_at_us = mx_received_at_us ctx, ph_ended_at_us = None, ph_message = mx_id ctx,
                    ph_source_key = mx_source_key ctx, ph_ended_message = None, ph_ended_key = None,
                    ph_raw = as_text render (fl_raw flag) \<rparr>],
               hf_flag := Some \<lparr> fk_flag = fl_kind flag, fk_provider_code = code, fk_provider_label = fl_provider_label flag,
                    fk_started_at_us = mx_received_at_us ctx, fk_message = mx_id ctx, fk_source_key = mx_source_key ctx,
                    fk_raw = as_text render (fl_raw flag) \<rparr> \<rparr>)))"

text \<open>\<open>h_i\<close> replaces the heat, \<open>h_h\<close> merges into it; \<open>f\<close> is the flag field of the patch.\<close>

definition update_heat ::
    "(json \<Rightarrow> string) \<Rightarrow> frame_message \<Rightarrow> json option \<Rightarrow> heat_facts \<Rightarrow> string option \<times> heat_facts" where
  "update_heat render ctx f s =
    (let old_flag = map_option canonical_flag (hf_heat_flag s);
         merged = s\<lparr> hf_heat_flag := (if mx_handle ctx = ''h_h'' \<and> f = None then hf_heat_flag s else f) \<rparr>
     in case f of
          None \<Rightarrow> (None, merged)
        | Some v \<Rightarrow>
           (case old_flag of
              None \<Rightarrow> write_immediate_flag render ctx (canonical_flag v) merged
            | Some old \<Rightarrow> if same_flag_values render old (canonical_flag v) then (None, merged)
                          else write_immediate_flag render ctx (canonical_flag v) merged))"

section \<open>Laps\<close>

definition current_flag_kind :: "heat_facts \<Rightarrow> string option" where
  "current_flag_kind s = map_option fk_flag (hf_flag s)"

text \<open>\<open>started < b AND (ended IS NULL OR ended > a)\<close>.\<close>

definition meets :: "int \<Rightarrow> int \<Rightarrow> int \<Rightarrow> int option \<Rightarrow> bool" where
  "meets a b started ended \<longleftrightarrow> started < b \<and> (case ended of None \<Rightarrow> True | Some e \<Rightarrow> e > a)"

definition completed_laps_of :: "string \<Rightarrow> heat_facts \<Rightarrow> lap_fact list" where
  "completed_laps_of participant s =
    filter (\<lambda>l. lf_participant l = participant \<and> lf_completed_at_us l \<noteq> None) (hf_laps s)"

definition is_clean_lap_fact :: "heat_facts \<Rightarrow> string \<Rightarrow> int option \<Rightarrow> string option \<Rightarrow> bool" where
  "is_clean_lap_fact s participant completed_at_us state_kind =
    (case completed_at_us of
       None \<Rightarrow> False
     | Some completed \<Rightarrow>
        state_kind \<notin> {Some ''IN_PIT'', Some ''OUT_LAP''} \<and> current_flag_kind s = Some ''GREEN'' \<and>
        (case Option.bind (top_by lf_number (completed_laps_of participant s)) lf_completed_at_us of
           None \<Rightarrow> False
         | Some started \<Rightarrow>
            \<not> (\<exists>p \<in> set (hf_periods s). ph_flag p \<noteq> ''GREEN'' \<and>
                 meets started completed (ph_started_at_us p) (ph_ended_at_us p)) \<and>
            \<not> (\<exists>p \<in> set (hf_stops s). pk_participant p = participant \<and> pk_completed p \<and>
                 meets started completed (pk_entered_at_us p) (pk_exited_at_us p)) \<and>
            \<not> (\<exists>(a, b) \<in> set (hf_gaps s). meets started completed a b)))"

text \<open>\<open>INSERT OR IGNORE\<close>: the key of the table and the number of the lap are unique.\<close>

definition insert_lap :: "lap_fact \<Rightarrow> heat_facts \<Rightarrow> heat_facts \<times> bool" where
  "insert_lap l s =
    (if \<exists>m \<in> set (hf_laps s). lf_id m = lf_id l \<or> (lf_participant m = lf_participant l \<and> lf_number m = lf_number l)
     then (s, False) else (s\<lparr> hf_laps := hf_laps s @ [l] \<rparr>, True))"

definition grid_lap ::
    "frame_message \<Rightarrow> string \<Rightarrow> int \<Rightarrow> int option \<Rightarrow> string \<Rightarrow> heat_facts \<Rightarrow> int \<Rightarrow> lap_fact" where
  "grid_lap ctx participant current_lap source_ms state_kind s number =
    (let last_cell = result_cell_observation s participant (mx_id ctx) ''last_lap'';
         source_sectors = result_sectors_for_lap s participant last_cell;
         is_latest = (number = current_lap);
         completed_at_us = (if is_latest then Some (mx_received_at_us ctx) else None);
         timed = (is_latest \<and> source_ms \<noteq> None \<and> last_cell \<noteq> None);
         sectored = (is_latest \<and> source_sectors \<noteq> [])
     in \<lparr> lf_id = GridLap participant (mx_source_key ctx) number, lf_participant = participant,
          lf_number = number, lf_completed_at_us = completed_at_us,
          lf_duration_ms = (if timed then source_ms else None),
          lf_sectors = (if sectored then Some (map (\<lambda>(k, v, _). (k, v)) source_sectors) else None),
          lf_flag = current_flag_kind s,
          lf_is_in_lap = (is_latest \<and> state_kind = ''IN_PIT''), lf_is_out_lap = (is_latest \<and> state_kind = ''OUT_LAP''),
          lf_crosses_pit = (is_latest \<and> state_kind = ''IN_PIT''),
          lf_is_clean = (is_latest \<and> is_clean_lap_fact s participant completed_at_us (Some state_kind)),
          lf_message = mx_id ctx, lf_source_key = mx_source_key ctx, lf_completion_passing = None,
          lf_duration_cell = (if timed then map_option oc_id last_cell else None),
          lf_duration_message = (if timed then Some (mx_id ctx) else None),
          lf_duration_key = (if timed then Some (mx_source_key ctx) else None),
          lf_sector_cells = (if sectored then Some (map (\<lambda>(k, _, i). (k, i)) source_sectors) else None) \<rparr>)"

definition complete_laps_from_grid ::
    "frame_message \<Rightarrow> string \<Rightarrow> int \<Rightarrow> int \<Rightarrow> int option \<Rightarrow> string \<Rightarrow> heat_facts \<Rightarrow> heat_facts" where
  "complete_laps_from_grid ctx participant previous_lap current_lap source_ms state_kind s =
    fold (\<lambda>n s. fst (insert_lap (grid_lap ctx participant current_lap source_ms state_kind s n) s))
      [previous_lap + 1..current_lap] s"

definition find_car :: "string \<Rightarrow> heat_facts \<Rightarrow> car_row option" where
  "find_car participant s = find (\<lambda>c. cu_participant c = participant) (hf_cars s)"

definition active_stint :: "string \<Rightarrow> heat_facts \<Rightarrow> stint_fact option" where
  "active_stint participant s =
    top_by ty_number (filter (\<lambda>t. ty_participant t = participant \<and> ty_ended_at_us t = None) (hf_stints s))"

definition update_stint :: "stint_fact \<Rightarrow> (stint_fact \<Rightarrow> stint_fact) \<Rightarrow> heat_facts \<Rightarrow> heat_facts" where
  "update_stint t g s = s\<lparr> hf_stints :=
     update_where (\<lambda>r. ty_participant r = ty_participant t \<and> ty_number r = ty_number t) g (hf_stints s) \<rparr>"

definition tracker_lap ::
    "frame_message \<Rightarrow> string \<Rightarrow> string \<Rightarrow> int option \<Rightarrow> int option \<Rightarrow> int \<Rightarrow> string \<Rightarrow> heat_facts \<Rightarrow> lap_fact" where
  "tracker_lap ctx participant event_fingerprint completed_at_us passing canonical_lap_number kind s =
    (let completed = (case completed_at_us of Some t \<Rightarrow> t | None \<Rightarrow> mx_received_at_us ctx)
     in \<lparr> lf_id = TrackerLap participant event_fingerprint, lf_participant = participant,
          lf_number = canonical_lap_number, lf_completed_at_us = Some completed, lf_duration_ms = None,
          lf_sectors = None, lf_flag = current_flag_kind s, lf_is_in_lap = (kind = ''IN_PIT''),
          lf_is_out_lap = (kind = ''OUT_LAP''), lf_crosses_pit = (kind = ''IN_PIT''),
          lf_is_clean = is_clean_lap_fact s participant (Some completed) (Some kind),
          lf_message = mx_id ctx, lf_source_key = mx_source_key ctx, lf_completion_passing = passing,
          lf_duration_cell = None, lf_duration_message = None, lf_duration_key = None, lf_sector_cells = None \<rparr>)"

definition complete_lap_from_tracker ::
    "frame_message \<Rightarrow> string \<Rightarrow> string \<Rightarrow> int option \<Rightarrow> int option \<Rightarrow> int \<Rightarrow> heat_facts \<Rightarrow> heat_facts" where
  "complete_lap_from_tracker ctx participant event_fingerprint completed_at_us passing canonical_lap_number s =
    (case find_car participant s of
       None \<Rightarrow> s
     | Some car \<Rightarrow>
        if cu_laps car \<noteq> None then s
        else
         (let (s', inserted) = insert_lap (tracker_lap ctx participant event_fingerprint completed_at_us passing
                  canonical_lap_number (cu_state_kind car) s) s
          in if inserted
             then (case active_stint participant s' of
                     None \<Rightarrow> s'
                   | Some t \<Rightarrow> update_stint t (\<lambda>r. r\<lparr> ty_completed_laps := ty_completed_laps r + 1 \<rparr>) s')
             else s'))"

text \<open>
  A new passing observation that completes a canonical lap: the part of \<open>_write_tracker_passings\<close>
  that writes these tables.
\<close>

record lap_passage =
  lg_context :: frame_message
  lg_participant :: string
  lg_fingerprint :: string
  lg_passing :: int
  lg_provider_us :: "int option"
  lg_lap_number :: int

definition record_passage :: "lap_passage \<Rightarrow> heat_facts \<Rightarrow> heat_facts" where
  "record_passage g s =
    complete_lap_from_tracker (lg_context g) (lg_participant g) (lg_fingerprint g)
      (to_utc_us (opt_json JInt (lg_provider_us g)) (clock_for (mx_connection (lg_context g)) s))
      (Some (lg_passing g)) (lg_lap_number g)
      (s\<lparr> hf_passings := AList.update (lg_passing g) (mx_frame (lg_context g)) (hf_passings s) \<rparr>)"

definition passed_in :: "int \<Rightarrow> heat_facts \<Rightarrow> lap_fact \<Rightarrow> bool" where
  "passed_in frame s l = (Option.bind (lf_completion_passing l) (map_of (hf_passings s)) = Some frame)"

definition car_kind :: "string \<Rightarrow> heat_facts \<Rightarrow> string option" where
  "car_kind participant s = map_option cu_state_kind (find_car participant s)"

definition reconcile_frame_tracker_lap_states :: "int \<Rightarrow> heat_facts \<Rightarrow> heat_facts" where
  "reconcile_frame_tracker_lap_states frame s =
    s\<lparr> hf_laps := update_where (passed_in frame s)
        (\<lambda>l. if car_kind (lf_participant l) s = Some ''IN_PIT''
             then l\<lparr> lf_is_in_lap := True, lf_is_out_lap := False, lf_crosses_pit := True, lf_is_clean := False \<rparr>
             else if car_kind (lf_participant l) s = Some ''OUT_LAP''
             then l\<lparr> lf_is_in_lap := False, lf_is_out_lap := True, lf_crosses_pit := False, lf_is_clean := False \<rparr>
             else l) (hf_laps s) \<rparr>"

text \<open>The pair is attached when the participant has one open lap and one LAST cell in the frame.\<close>

definition attach_last :: "lap_fact list \<Rightarrow> observed_cell list \<Rightarrow> string \<Rightarrow> heat_facts \<Rightarrow> heat_facts" where
  "attach_last candidates lasts participant s =
    (case (filter (\<lambda>l. lf_participant l = participant) candidates,
           filter (\<lambda>c. oc_participant c = Some participant) lasts) of
       ([lap], [lc]) \<Rightarrow>
        (case duration_us_to_ms (opt_json JStr (oc_value_text lc)) of
           None \<Rightarrow> s
         | Some duration_ms \<Rightarrow>
            (let source_sectors = result_sectors_for_lap s participant (Some lc);
                 kind = car_kind participant s
             in s\<lparr> hf_laps := update_where
                  (\<lambda>l. lf_id l = lf_id lap \<and> lf_duration_ms l = None \<and> lf_duration_cell l = None)
                  (\<lambda>l. l\<lparr> lf_duration_ms := Some duration_ms,
                     lf_sectors := (if source_sectors \<noteq> [] then Some (map (\<lambda>(k, v, _). (k, v)) source_sectors) else None),
                     lf_duration_cell := Some (oc_id lc), lf_duration_message := Some (oc_message lc),
                     lf_duration_key := Some (oc_source_key lc),
                     lf_sector_cells := (if source_sectors \<noteq> [] then Some (map (\<lambda>(k, _, i). (k, i)) source_sectors) else None),
                     lf_is_in_lap := (kind = Some ''IN_PIT''), lf_is_out_lap := (kind = Some ''OUT_LAP''),
                     lf_crosses_pit := (lf_crosses_pit lap \<or> kind = Some ''IN_PIT''),
                     lf_is_clean := (kind \<notin> {Some ''IN_PIT'', Some ''OUT_LAP''} \<and> lf_is_clean lap) \<rparr>)
                  (hf_laps s) \<rparr>))
     | _ \<Rightarrow> s)"

definition reconcile_tracker_lap_sources :: "int \<Rightarrow> heat_facts \<Rightarrow> heat_facts" where
  "reconcile_tracker_lap_sources frame s =
    (let candidates = filter (\<lambda>l. passed_in frame s l \<and> lf_duration_ms l = None \<and> lf_duration_cell l = None) (hf_laps s);
         lasts = filter (\<lambda>c. oc_frame c = frame \<and> oc_key c = Some ''last_lap'') (hf_cells s)
     in fold (attach_last candidates lasts) (sort (remdups (map lf_participant candidates))) s)"

end
