(* ===== verification/Pit_Ledger.thy ===== *)
theory Pit_Ledger
  imports Car_Facts
begin

text \<open>
  Pit stops and tyre stints of \<open>server/timing/normalizer_writer.py\<close> over the tables of \<open>Car_Facts\<close>:
  the row writer \<open>_write_row_state\<close>, the pit transitions it queues, their reconciliation after the
  tracker facts of the frame, and the frame transaction that composes them.
\<close>

section \<open>Pit transitions\<close>

definition effective_lap_number :: "heat_facts \<Rightarrow> string \<Rightarrow> int option \<Rightarrow> int option" where
  "effective_lap_number s participant source_lap_number = (case source_lap_number of
     Some n \<Rightarrow> Some n
   | None \<Rightarrow>
      (let n = max_or_zero (map lf_number (filter (\<lambda>l. lf_participant l = participant) (hf_laps s)))
       in if n > 0 then Some n else None))"

definition initial_upper :: "char \<Rightarrow> string option \<Rightarrow> bool" where
  "initial_upper c raw = (case raw of Some (d # _) \<Rightarrow> d = c \<or> code_point d = code_point c + 32 | _ \<Rightarrow> False)"

text \<open>The rest \<open>raw[1:]\<close> of a cell.\<close>

definition cell_rest :: "string option \<Rightarrow> json" where
  "cell_rest raw = (case raw of Some (_ # rest) \<Rightarrow> JStr rest | _ \<Rightarrow> JNull)"

definition pit_entered_at_us :: "heat_facts \<Rightarrow> string option \<Rightarrow> frame_message \<Rightarrow> int" where
  "pit_entered_at_us s raw ctx =
    (case (if initial_upper CHR ''S'' raw then calibrated_result_event_at_us s ctx (event_ts_time (cell_rest raw)) else None) of
       Some t \<Rightarrow> t | None \<Rightarrow> mx_received_at_us ctx)"

definition pit_entry_time_source :: "heat_facts \<Rightarrow> cell_fact option \<Rightarrow> frame_message \<Rightarrow> cell_fact option" where
  "pit_entry_time_source s source ctx = (case source of
     None \<Rightarrow> None
   | Some c \<Rightarrow>
      if initial_upper CHR ''S'' (cf_value_text c)
         \<and> calibrated_result_event_at_us s ctx (event_ts_time (cell_rest (cf_value_text c))) \<noteq> None
      then Some c else None)"

definition pit_duration_ms :: "string option \<Rightarrow> int option" where
  "pit_duration_ms raw = (if initial_upper CHR ''L'' raw then duration_us_to_ms (cell_rest raw) else None)"

definition cell_source :: "cell_fact \<Rightarrow> int \<times> int \<times> string" where
  "cell_source c = (cf_id c, cf_message c, cf_source_key c)"

section \<open>Tyre stints\<close>

definition stints_of :: "string \<Rightarrow> heat_facts \<Rightarrow> stint_fact list" where
  "stints_of participant s = filter (\<lambda>t. ty_participant t = participant) (hf_stints s)"

definition new_stint :: "frame_message \<Rightarrow> string \<Rightarrow> int \<Rightarrow> int option \<Rightarrow> stint_fact" where
  "new_stint ctx participant number started_lap =
    \<lparr> ty_participant = participant, ty_number = number, ty_started_at_us = mx_received_at_us ctx,
      ty_ended_at_us = None, ty_started_lap = started_lap, ty_ended_lap = None, ty_completed_laps = 0,
      ty_message = mx_id ctx, ty_source_key = mx_source_key ctx \<rparr>"

definition ensure_tire_stint :: "frame_message \<Rightarrow> string \<Rightarrow> int option \<Rightarrow> heat_facts \<Rightarrow> heat_facts" where
  "ensure_tire_stint ctx participant source_lap s =
    (let lap = effective_lap_number s participant source_lap in
     case active_stint participant s of
       None \<Rightarrow> s\<lparr> hf_stints := hf_stints s @
         [new_stint ctx participant (max_or_zero (map ty_number (stints_of participant s)) + 1) lap] \<rparr>
     | Some t \<Rightarrow>
        (case (lap, ty_started_lap t) of
           (Some n, Some started) \<Rightarrow>
             update_stint t (\<lambda>r. r\<lparr> ty_completed_laps := max (ty_completed_laps r) (max 0 (n - started)) \<rparr>) s
         | _ \<Rightarrow> s))"

definition insert_stint :: "stint_fact \<Rightarrow> heat_facts \<Rightarrow> heat_facts" where
  "insert_stint t s =
    (if \<exists>r \<in> set (hf_stints s). ty_participant r = ty_participant t \<and> ty_number r = ty_number t then s
     else s\<lparr> hf_stints := hf_stints s @ [t] \<rparr>)"

definition complete_tire_stint :: "frame_message \<Rightarrow> string \<Rightarrow> int option \<Rightarrow> heat_facts \<Rightarrow> heat_facts" where
  "complete_tire_stint ctx participant source_lap s =
    (let lap = effective_lap_number s participant source_lap in
     case active_stint participant s of
       Some t \<Rightarrow>
        (let completed = (case (lap, ty_started_lap t) of (Some n, Some started) \<Rightarrow> max 0 (n - started) | _ \<Rightarrow> 0)
         in insert_stint (new_stint ctx participant (ty_number t + 1) lap)
              (update_stint t (\<lambda>r. if ty_ended_at_us r = None
                 then r\<lparr> ty_ended_at_us := Some (mx_received_at_us ctx), ty_ended_lap := lap,
                         ty_completed_laps := max (ty_completed_laps r) completed \<rparr> else r) s))
     | None \<Rightarrow> insert_stint (new_stint ctx participant 1 lap) s)"

section \<open>Pit stops\<close>

definition stops_of :: "string \<Rightarrow> heat_facts \<Rightarrow> stop_fact list" where
  "stops_of participant s = filter (\<lambda>p. pk_participant p = participant) (hf_stops s)"

definition opened_stop :: "string \<Rightarrow> heat_facts \<Rightarrow> stop_fact option" where
  "opened_stop participant s = top_by pk_number (filter (\<lambda>p. \<not> pk_completed p) (stops_of participant s))"

text \<open>The laps of a participant with their start: \<open>LAG(completed_at_us) OVER (ORDER BY lap_number)\<close>.\<close>

definition lap_intervals :: "string \<Rightarrow> heat_facts \<Rightarrow> (lap_fact \<times> int option) list" where
  "lap_intervals participant s =
    (let laps = sort_key lf_number (completed_laps_of participant s)
     in zip laps (None # map lf_completed_at_us laps))"

definition pit_overlaps :: "heat_facts \<Rightarrow> string \<Rightarrow> lap_fact \<Rightarrow> int option \<Rightarrow> bool" where
  "pit_overlaps s participant l started =
    (case (started, lf_completed_at_us l) of
       (Some a, Some b) \<Rightarrow> \<exists>p \<in> set (stops_of participant s). pk_completed p \<and>
         meets a b (pk_entered_at_us p) (pk_exited_at_us p)
     | _ \<Rightarrow> False)"

definition invalidate_clean_laps_for_pit :: "string \<Rightarrow> heat_facts \<Rightarrow> heat_facts" where
  "invalidate_clean_laps_for_pit participant s =
    (let crossed = map (lf_id \<circ> fst) (filter (\<lambda>(l, started). pit_overlaps s participant l started) (lap_intervals participant s))
     in s\<lparr> hf_laps := update_where (\<lambda>l. lf_id l \<in> set crossed)
           (\<lambda>l. l\<lparr> lf_is_clean := False, lf_crosses_pit := True \<rparr>) (hf_laps s) \<rparr>)"

definition entry_stop_number :: "heat_facts \<Rightarrow> string \<Rightarrow> int option \<Rightarrow> int option \<Rightarrow> int" where
  "entry_stop_number s participant count_event previous_count =
    (let max_stop = max_or_zero (map pk_number (stops_of participant s));
         source = (case count_event of
             Some n \<Rightarrow> if n > 0 then Some n else (case previous_count of Some m \<Rightarrow> if m > 0 then Some m else None | None \<Rightarrow> None)
           | None \<Rightarrow> (case previous_count of Some m \<Rightarrow> if m > 0 then Some m else None | None \<Rightarrow> None));
         number = (case source of Some n \<Rightarrow> n | None \<Rightarrow> max_stop + 1)
     in if number \<le> max_stop then max_stop + 1 else number)"

definition pit_state_entered :: "pending_pit \<Rightarrow> bool" where
  "pit_state_entered e = (case (pe_state_event e, pe_previous e) of
     (Some st, Some previous) \<Rightarrow> st_kind st = ''IN_PIT'' \<and> cu_state_kind previous \<noteq> ''IN_PIT''
   | _ \<Rightarrow> False)"

definition enter_pit :: "pending_pit \<Rightarrow> cell_fact option \<Rightarrow> int option \<Rightarrow> heat_facts \<Rightarrow> heat_facts \<times> bool" where
  "enter_pit e pit_time_event lap s =
    (let ctx = pe_context e;
         participant = pe_participant e;
         previous_count = Option.bind (pe_previous e) cu_pit_count;
         number = entry_stop_number s participant (pe_count_event e) previous_count;
         entry = pit_entry_time_source s pit_time_event ctx;
         increased = (case (pe_count_event e, previous_count) of (Some n, Some m) \<Rightarrow> n > m | _ \<Rightarrow> False)
     in if \<exists>p \<in> set (hf_stops s). pk_participant p = participant \<and> pk_number p = number then (s, False)
        else (s\<lparr> hf_stops := hf_stops s @
          [\<lparr> pk_participant = participant, pk_number = number,
             pk_entered_at_us = pit_entered_at_us s (Option.bind entry cf_value_text) ctx,
             pk_exited_at_us = None, pk_entered_lap = lap, pk_exited_lap = None, pk_lane_ms = None, pk_completed = False,
             pk_entered_message = mx_id ctx, pk_entered_key = mx_source_key ctx,
             pk_entered_state_cell = map_option cf_id (pe_state_cell e),
             pk_entered_count_cell = (if increased then map_option cf_id (pe_count_cell e) else None),
             pk_entered_at_source = map_option cell_source entry,
             pk_exited_message = None, pk_exited_key = None, pk_exited_state_cell = None,
             pk_exited_count_cell = None, pk_lane_source = None \<rparr>] \<rparr>, True))"

definition close_stop :: "pending_pit \<Rightarrow> cell_fact option \<Rightarrow> int option \<Rightarrow> stop_fact \<Rightarrow> heat_facts \<Rightarrow> heat_facts \<times> bool" where
  "close_stop e pit_time_event lap opened s =
    (let ctx = pe_context e;
         duration = pit_duration_ms (Option.bind pit_time_event cf_value_text);
         source = (if duration \<noteq> None then pit_time_event else None);
         target = (\<lambda>p. pk_participant p = pk_participant opened \<and> pk_number p = pk_number opened \<and> \<not> pk_completed p)
     in (s\<lparr> hf_stops := update_where target
             (\<lambda>p. p\<lparr> pk_exited_at_us := Some (mx_received_at_us ctx), pk_exited_lap := lap, pk_lane_ms := duration,
                pk_completed := True, pk_exited_message := Some (mx_id ctx), pk_exited_key := Some (mx_source_key ctx),
                pk_exited_state_cell := map_option cf_id (pe_state_cell e),
                pk_exited_count_cell := map_option cf_id (pe_count_cell e),
                pk_lane_source := map_option cell_source source \<rparr>) (hf_stops s) \<rparr>,
         list_ex target (hf_stops s)))"

definition reconcile_pit_and_tire_stint :: "pending_pit \<Rightarrow> cell_fact option \<Rightarrow> heat_facts \<Rightarrow> heat_facts" where
  "reconcile_pit_and_tire_stint e pit_time_event s =
    (let ctx = pe_context e;
         participant = pe_participant e;
         was_in_pit = (map_option cu_state_kind (pe_previous e) = Some ''IN_PIT'');
         lap = effective_lap_number s participant (pe_lap_number e);
         opened = opened_stop participant s;
         had_opened_pit = (opened \<noteq> None);
         (s1, inserted) = (if pit_state_entered e then enter_pit e pit_time_event lap s else (s, False));
         opened1 = (if inserted then find (\<lambda>p. pk_participant p = participant \<and>
             pk_number p = entry_stop_number s participant (pe_count_event e) (Option.bind (pe_previous e) cu_pit_count)) (hf_stops s1)
           else opened);
         exits_pit = ((case pe_state_event e of Some st \<Rightarrow> st_kind st \<in> {''ON_TRACK'', ''OUT_LAP''} | None \<Rightarrow> False)
           \<and> (was_in_pit \<or> had_opened_pit));
         (s2, closed) = (case opened1 of
             Some p \<Rightarrow> if exits_pit
               then (case close_stop e pit_time_event lap p s1 of (s', c) \<Rightarrow> (complete_tire_stint ctx participant lap s', c))
               else (ensure_tire_stint ctx participant lap s1, False)
           | None \<Rightarrow> (ensure_tire_stint ctx participant lap s1, False))
     in if inserted \<or> closed then invalidate_clean_laps_for_pit participant s2 else s2)"

text \<open>A single entry time anywhere in the frame belongs to the entry of its car.\<close>

definition pit_time_for :: "heat_facts \<Rightarrow> pending_pit list \<Rightarrow> pending_pit \<Rightarrow> cell_fact option" where
  "pit_time_for s events e =
    (let candidates = List.map_filter (\<lambda>f. pit_entry_time_source s (pe_pit_time_event f) (pe_context f))
           (filter (\<lambda>f. pe_participant f = pe_participant e) events)
     in case candidates of [c] \<Rightarrow> if pit_state_entered e then Some c else pe_pit_time_event e
        | _ \<Rightarrow> pe_pit_time_event e)"

definition reconcile_frame_pit_events :: "heat_facts \<Rightarrow> heat_facts" where
  "reconcile_frame_pit_events s =
    (let events = map (\<lambda>e. (e, pit_time_for s (hf_pending s) e)) (hf_pending s)
     in fold (\<lambda>(e, t). reconcile_pit_and_tire_stint e t) events s)"

section \<open>The current row of a car\<close>

text \<open>The values of one row of the grid after a message, with the participant of the row.\<close>

record row_image =
  rg_participant :: "string option"
  rg_values :: json_dict

definition row_state :: "json_dict \<Rightarrow> car_row option \<Rightarrow> result_state" where
  "row_state row old = (case map_of row ''state'' of
     Some v \<Rightarrow> parse_result_state v
   | None \<Rightarrow> (case old of
       Some o1 \<Rightarrow> (unknown_state (opt_json JStr (cu_state_raw o1)))
         \<lparr> st_kind := (if cu_state_kind o1 = [] then ''UNKNOWN'' else cu_state_kind o1) \<rparr>
     | None \<Rightarrow> unknown_state JNull))"

text \<open>A value that follows its cell: new with the cell, else the one of the old row.\<close>

definition carried :: "cell_fact option \<Rightarrow> 'a option \<Rightarrow> (car_row \<Rightarrow> 'a option) \<Rightarrow> car_row option \<Rightarrow> 'a option" where
  "carried source new_value field old = (if source \<noteq> None then new_value else Option.bind old field)"

definition source_of :: "frame_message \<Rightarrow> cell_fact option \<Rightarrow> provenance option" where
  "source_of ctx source = map_option (\<lambda>c. (cf_id c, mx_id ctx, mx_source_key ctx, mx_received_at_us ctx)) source"

definition car_row_after ::
    "(json \<Rightarrow> string) \<Rightarrow> heat_facts \<Rightarrow> frame_message \<Rightarrow> string \<Rightarrow> json_dict \<Rightarrow> car_row option \<Rightarrow> car_row" where
  "car_row_after render s ctx participant row old =
    (let current = row_state row old;
         cell = row_event_cells s participant (mx_id ctx);
         state_cell = cell ''state'';
         count_cell = cell ''pit_stops'';
         time_cell = cell ''pit_time'';
         stint_cell = cell ''driver_stint'';
         stint = parse_driver_stint render (jget ''driver_stint'' row)
     in \<lparr> cu_participant = participant,
          cu_position_overall = as_int (jget ''position_overall'' row) (Some 0),
          cu_position_class = as_int (jget ''position_class'' row) (Some 0),
          cu_marker = as_text render (jget ''marker'' row),
          cu_laps = as_int (jget ''laps'' row) (Some 0),
          cu_state_raw = as_text render (st_raw current), cu_state_kind = st_kind current,
          cu_state_source = carried state_cell (source_of ctx state_cell) cu_state_source old,
          cu_timer_raw = carried state_cell (st_timer_target_raw current) cu_timer_raw old,
          cu_timer_provider_us = carried state_cell (st_timer_target_ts_time current) cu_timer_provider_us old,
          cu_timer_at_us = carried state_cell
            (calibrated_result_event_at_us s ctx (st_timer_target_ts_time current)) cu_timer_at_us old,
          cu_driver = as_text render (jget ''current_driver'' row),
          cu_last_lap_ms = duration_us_to_ms (jget ''last_lap'' row),
          cu_best_lap_ms = duration_us_to_ms (jget ''best_lap'' row),
          cu_sectors = filter (\<lambda>(k, _). take 7 k = ''sector_'') row,
          cu_pit_count = as_int (jget ''pit_stops'' row) (Some 0),
          cu_pit_count_raw = as_text render (jget ''pit_stops'' row),
          cu_pit_count_source = carried count_cell (source_of ctx count_cell) cu_pit_count_source old,
          cu_pit_time_raw = as_text render (jget ''pit_time'' row),
          cu_pit_time_source = carried time_cell (source_of ctx time_cell) cu_pit_time_source old,
          cu_stint_raw = dv_raw stint,
          cu_stint_kind = carried stint_cell (Some (dv_kind stint)) cu_stint_kind old,
          cu_stint_provider_ts_time = carried stint_cell (dv_provider_ts_time stint) cu_stint_provider_ts_time old,
          cu_stint_at_us = carried stint_cell
            (calibrated_result_event_at_us s ctx (dv_provider_ts_time stint)) cu_stint_at_us old,
          cu_stint_duration_ms = carried stint_cell (dv_duration_ms stint) cu_stint_duration_ms old,
          cu_stint_source = carried stint_cell (source_of ctx stint_cell) cu_stint_source old,
          cu_message = mx_id ctx, cu_source_key = mx_source_key ctx, cu_updated_at_us = mx_received_at_us ctx \<rparr>)"

definition upsert_car :: "car_row \<Rightarrow> heat_facts \<Rightarrow> heat_facts" where
  "upsert_car c s = s\<lparr> hf_cars :=
     (if find_car (cu_participant c) s = None then hf_cars s @ [c]
      else update_where (\<lambda>r. cu_participant r = cu_participant c) (\<lambda>_. c) (hf_cars s)) \<rparr>"

text \<open>An L-PIT cell repeated by a snapshot is not an event.\<close>

definition fresh_pit_time :: "frame_message \<Rightarrow> cell_fact option \<Rightarrow> car_row option \<Rightarrow> cell_fact option" where
  "fresh_pit_time ctx time_cell old = (case time_cell of
     None \<Rightarrow> None
   | Some c \<Rightarrow>
      if mx_handle ctx = ''r_c'' \<or> (case old of None \<Rightarrow> True | Some o1 \<Rightarrow> cf_value_text c \<noteq> cu_pit_time_raw o1)
      then Some c else None)"

definition source_laps :: "cell_fact option \<Rightarrow> int option" where
  "source_laps lap_cell = Option.bind lap_cell (\<lambda>c. as_int (opt_json JStr (cf_value_text c)) (Some 0))"

definition pending_of ::
    "heat_facts \<Rightarrow> frame_message \<Rightarrow> string \<Rightarrow> json_dict \<Rightarrow> car_row option \<Rightarrow> pending_pit list" where
  "pending_of s ctx participant row old =
    (let cell = row_event_cells s participant (mx_id ctx);
         state_cell = cell ''state''; count_cell = cell ''pit_stops''; time_cell = cell ''pit_time''
     in if state_cell \<noteq> None \<or> count_cell \<noteq> None \<or> time_cell \<noteq> None
        then [\<lparr> pe_context = ctx, pe_participant = participant,
                pe_state_event = map_option (\<lambda>c. parse_result_state (opt_json JStr (cf_value_text c))) state_cell,
                pe_state_cell = state_cell,
                pe_count_event = Option.bind count_cell (\<lambda>c. as_int (opt_json JStr (cf_value_text c)) (Some 0)),
                pe_count_cell = count_cell, pe_lap_number = as_int (jget ''laps'' row) (Some 0),
                pe_pit_time_event = fresh_pit_time ctx time_cell old, pe_previous = old \<rparr>]
        else [])"

definition write_row_state :: "(json \<Rightarrow> string) \<Rightarrow> frame_message \<Rightarrow> row_image \<Rightarrow> heat_facts \<Rightarrow> heat_facts" where
  "write_row_state render ctx im s = (case rg_participant im of
     None \<Rightarrow> s
   | Some participant \<Rightarrow>
      (let row = rg_values im;
           old = find_car participant s;
           car = car_row_after render s ctx participant row old;
           s1 = upsert_car car s;
           s2 = (case (Option.bind old cu_laps, source_laps (row_event_cells s participant (mx_id ctx) ''laps'')) of
               (Some previous, Some laps) \<Rightarrow>
                 if laps > previous
                 then complete_laps_from_grid ctx participant previous laps
                        (duration_us_to_ms (jget ''last_lap'' row)) (cu_state_kind car) s1
                 else s1
             | _ \<Rightarrow> s1);
           s3 = ensure_tire_stint ctx participant (as_int (jget ''laps'' row) (Some 0)) s2
       in s3\<lparr> hf_pending := hf_pending s3 @ pending_of s ctx participant row old \<rparr>))"

section \<open>The frame\<close>

text \<open>What the messages of a frame ask of these tables, in the order of their ordinals.\<close>

datatype fact_event =
    ServerTime frame_message json
  | HeatUpdate frame_message "json option"
  | ResultRows frame_message "cell_change list" "row_image list"
  | Passages "lap_passage list"

definition write_result_changes ::
    "(json \<Rightarrow> string) \<Rightarrow> frame_message \<Rightarrow> cell_change list \<Rightarrow> row_image list \<Rightarrow> heat_facts \<Rightarrow> heat_facts" where
  "write_result_changes render ctx changes images s =
    fold (write_row_state render ctx) images (fold (insert_cell render ctx) changes s)"

fun apply_fact :: "(json \<Rightarrow> string) \<Rightarrow> (string \<Rightarrow> int option option) \<Rightarrow> fact_event \<Rightarrow> heat_facts \<Rightarrow> string option \<times> heat_facts" where
  "apply_fact render fromiso (ServerTime ctx args) s = observe_clock fromiso ctx args s"
| "apply_fact render fromiso (HeatUpdate ctx f) s = update_heat render ctx f s"
| "apply_fact render fromiso (ResultRows ctx changes images) s = (None, write_result_changes render ctx changes images s)"
| "apply_fact render fromiso (Passages passages) s = (None, fold record_passage passages s)"

fun apply_facts :: "(json \<Rightarrow> string) \<Rightarrow> (string \<Rightarrow> int option option) \<Rightarrow> fact_event list \<Rightarrow> heat_facts \<Rightarrow> string option \<times> heat_facts" where
  "apply_facts render fromiso [] s = (None, s)"
| "apply_facts render fromiso (e # es) s =
    (case apply_fact render fromiso e s of
       (Some err, s') \<Rightarrow> (Some err, s')
     | (None, s') \<Rightarrow> apply_facts render fromiso es s')"

text \<open>A frame that raises leaves the tables as they were; the attributes keep what they were told.\<close>

definition process_frame_facts ::
    "(json \<Rightarrow> string) \<Rightarrow> (string \<Rightarrow> int option option) \<Rightarrow> int \<Rightarrow> fact_event list \<Rightarrow> heat_facts \<Rightarrow> string option \<times> heat_facts" where
  "process_frame_facts render fromiso frame events s =
    (case apply_facts render fromiso events (s\<lparr> hf_pending := [] \<rparr>) of
       (Some err, s') \<Rightarrow> (Some err, s\<lparr> hf_clocks := hf_clocks s', hf_heat_flag := hf_heat_flag s', hf_pending := [] \<rparr>)
     | (None, s') \<Rightarrow>
        (None, (reconcile_frame_pit_events (reconcile_tracker_lap_sources frame
                 (reconcile_frame_tracker_lap_states frame s')))\<lparr> hf_pending := [] \<rparr>))"

end
