(* ===== verification/Tyre_Ledger.thy ===== *)
theory Tyre_Ledger
  imports Pit_Ledger
begin

text \<open>
  The tyre and pit ledger of every car: \<open>ledger_ok\<close> is an invariant of the frame transaction of
  \<open>Pit_Ledger\<close>, whatever the frames contain and in whatever order they come. What one entry and one exit add
  to the ledger, and what a state cell lost inside the pit lane does to it.
\<close>


section \<open>Rows of one car\<close>

lemma filter_update_own: "(\<And>r. P (g r) = P r) \<Longrightarrow> filter P (update_where Q g rows) = update_where Q g (filter P rows)"
  by (induction rows) (auto simp: update_where_def)

lemma filter_update_other: "(\<And>r. Q r \<Longrightarrow> \<not> P r \<and> \<not> P (g r)) \<Longrightarrow> filter P (update_where Q g rows) = filter P rows"
  by (induction rows) (auto simp: update_where_def)

lemma map_update_same: "(\<And>r. Q r \<Longrightarrow> f (g r) = f r) \<Longrightarrow> map f (update_where Q g rows) = map f rows"
  by (auto simp: update_where_def)

lemma top_by_None [simp]: "top_by f rows = None \<longleftrightarrow> rows = []"
  by (auto simp: top_by_def split: list.splits dest: arg_cong [where f = length])

lemma top_by_in: "top_by f rows = Some r \<Longrightarrow> r \<in> set rows"
  by (auto simp: top_by_def split: list.splits) (metis list.set_intros(1) set_sort)

lemma top_by_single [simp]: "top_by f [r] = Some r"
  by (simp add: top_by_def)

lemma max_or_zero_Nil [simp]: "max_or_zero [] = 0"
  by (simp add: max_or_zero_def)

lemma max_or_zero_ge: "n \<in> set ns \<Longrightarrow> n \<le> max_or_zero ns"
  by (auto simp: max_or_zero_def)

section \<open>The ledger of one car\<close>

text \<open>
  Stints are numbered from 1 without a gap; each one ends where the next one starts, in time and in
  laps, and the last one is open.
\<close>

definition tiled :: "stint_fact list \<Rightarrow> bool" where
  "tiled ts \<longleftrightarrow> ts = [] \<or>
     (map ty_number ts = [1..int (length ts)] \<and>
      map ty_ended_at_us ts = map (Some \<circ> ty_started_at_us) (tl ts) @ [None] \<and>
      map ty_ended_lap ts = map ty_started_lap (tl ts) @ [None])"

text \<open>Stops are numbered upwards; a stop is completed when it has an exit.\<close>

definition stops_numbered :: "stop_fact list \<Rightarrow> bool" where
  "stops_numbered ps \<longleftrightarrow> sorted_wrt (<) (map pk_number ps) \<and>
     (\<forall>p \<in> set ps. 0 < pk_number p \<and> (pk_completed p \<longleftrightarrow> pk_exited_at_us p \<noteq> None))"

definition exits_match :: "stop_fact list \<Rightarrow> stint_fact list \<Rightarrow> bool" where
  "exits_match ps ts \<longleftrightarrow>
     mset (List.map_filter pk_exited_at_us ps) = mset (List.map_filter ty_ended_at_us ts)"

definition car_ledger_ok :: "string \<Rightarrow> heat_facts \<Rightarrow> bool" where
  "car_ledger_ok p s \<longleftrightarrow> tiled (stints_of p s) \<and> stops_numbered (stops_of p s) \<and> exits_match (stops_of p s) (stints_of p s)"

definition ledger_ok :: "heat_facts \<Rightarrow> bool" where
  "ledger_ok s \<longleftrightarrow> (\<forall>p. car_ledger_ok p s) \<and> (\<forall>e \<in> set (hf_pending s). stints_of (pe_participant e) s \<noteq> [])"

lemma tiled_snoc:
  "tiled (us @ [t]) \<longleftrightarrow> map ty_number (us @ [t]) = [1..int (length us) + 1] \<and>
     map ty_ended_at_us us = map (Some \<circ> ty_started_at_us) (tl (us @ [t])) \<and> ty_ended_at_us t = None \<and>
     map ty_ended_lap us = map ty_started_lap (tl (us @ [t])) \<and> ty_ended_lap t = None"
  by (cases us) (auto simp: tiled_def)

lemma tiled_next:
  assumes t: "tiled (us @ [t])"
    and c: "ty_number c = ty_number t" "ty_started_at_us c = ty_started_at_us t" "ty_started_lap c = ty_started_lap t"
      "ty_ended_at_us c = Some (ty_started_at_us n)" "ty_ended_lap c = ty_started_lap n"
    and n: "ty_number n = ty_number t + 1" "ty_ended_at_us n = None" "ty_ended_lap n = None"
  shows "tiled (us @ [c, n])"
proof -
  have num: "map ty_number us @ [ty_number t] = [1..int (length us) + 1]" using t by (simp add: tiled_snoc)
  moreover have "[1..int (length us) + 1] = [1..int (length us)] @ [int (length us) + 1]"
    using upto_rec2 [of 1 "int (length us) + 1"] by simp
  ultimately have "ty_number t = int (length us) + 1" by simp
  moreover have "[1..int (length us) + 2] = [1..int (length us) + 1] @ [int (length us) + 2]"
    using upto_rec2 [of 1 "int (length us) + 2"] by (simp add: add.commute)
  ultimately have "tiled ((us @ [c]) @ [n])"
    unfolding tiled_snoc using t [unfolded tiled_snoc] c n num by (cases us) simp_all
  then show ?thesis by simp
qed

lemma tiled_open:
  assumes "tiled (us @ [t])" shows "filter (\<lambda>t. ty_ended_at_us t = None) (us @ [t]) = [t]"
proof -
  have "map ty_ended_at_us us = map (Some \<circ> ty_started_at_us) (tl (us @ [t]))" "ty_ended_at_us t = None"
    using assms by (simp_all add: tiled_snoc)
  then have "None \<notin> set (map ty_ended_at_us us)" by auto
  then have "filter (\<lambda>t. ty_ended_at_us t = None) us = []" by (auto simp: filter_empty_conv) (metis image_eqI option.exhaust)
  then show ?thesis using \<open>ty_ended_at_us t = None\<close> by simp
qed

lemma tiled_distinct: "tiled ts \<Longrightarrow> distinct (map ty_number ts)"
  by (auto simp: tiled_def)

lemma active_stint_alt: "active_stint p s = top_by ty_number (filter (\<lambda>t. ty_ended_at_us t = None) (stints_of p s))"
  by (simp add: active_stint_def stints_of_def conj_commute)

lemma active_stint_tiled:
  assumes "tiled (stints_of p s)"
  shows "active_stint p s = (if stints_of p s = [] then None else Some (last (stints_of p s)))"
proof (cases "stints_of p s" rule: rev_cases)
  case (snoc us t)
  then show ?thesis using assms tiled_open [of us t] by (simp add: active_stint_alt)
qed (simp add: active_stint_alt)


section \<open>Steps that leave the ledger alone\<close>

definition stint_view :: "stint_fact \<Rightarrow> int \<times> int \<times> int option \<times> int option \<times> int option" where
  "stint_view t = (ty_number t, ty_started_at_us t, ty_ended_at_us t, ty_started_lap t, ty_ended_lap t)"

definition same_ledger :: "heat_facts \<Rightarrow> heat_facts \<Rightarrow> bool" where
  "same_ledger s' s \<longleftrightarrow> (\<forall>q. map stint_view (stints_of q s') = map stint_view (stints_of q s)) \<and> hf_stops s' = hf_stops s"

lemma same_ledger_refl [simp]: "same_ledger s s"
  by (simp add: same_ledger_def)

lemma same_ledger_trans: "same_ledger c b \<Longrightarrow> same_ledger b a \<Longrightarrow> same_ledger c a"
  by (simp add: same_ledger_def)

lemma same_ledger_tables: "hf_stints s' = hf_stints s \<Longrightarrow> hf_stops s' = hf_stops s \<Longrightarrow> same_ledger s' s"
  by (simp add: same_ledger_def stints_of_def)

lemma map_filter_map_cong:
  assumes "map f xs = map f ys" shows "List.map_filter f xs = List.map_filter f ys"
proof -
  have "List.map_filter f zs = map the (filter (\<lambda>y. y \<noteq> None) (map f zs))" for zs
    by (simp add: map_filter_def filter_map comp_def)
  then show ?thesis using assms by simp
qed

lemma tiled_cong:
  assumes v: "map stint_view ts = map stint_view us" shows "tiled ts \<longleftrightarrow> tiled us"
proof -
  have p: "map (f \<circ> stint_view) ts = map (f \<circ> stint_view) us" "map (f \<circ> stint_view) (tl ts) = map (f \<circ> stint_view) (tl us)" for f
    using v by (metis map_map, metis map_map map_tl)
  show ?thesis
    using p(1) [of fst] p(1) [of "fst \<circ> snd \<circ> snd"] p(2) [of "Some \<circ> fst \<circ> snd"]
      p(1) [of "snd \<circ> snd \<circ> snd \<circ> snd"] p(2) [of "fst \<circ> snd \<circ> snd \<circ> snd"] map_eq_imp_length_eq [OF v]
    by (auto simp: tiled_def stint_view_def comp_def)
qed

lemma stint_view_ended: "map stint_view ts = map stint_view us \<Longrightarrow> map ty_ended_at_us ts = map ty_ended_at_us us"
  by (drule arg_cong [where f = "map (fst \<circ> snd \<circ> snd)"]) (simp add: stint_view_def comp_def)

lemma car_ledger_cong:
  assumes "same_ledger s' s" shows "car_ledger_ok p s' \<longleftrightarrow> car_ledger_ok p s"
proof -
  have v: "map stint_view (stints_of p s') = map stint_view (stints_of p s)" "stops_of p s' = stops_of p s"
    using assms by (simp_all add: same_ledger_def stops_of_def)
  show ?thesis using tiled_cong [OF v(1)] map_filter_map_cong [OF stint_view_ended [OF v(1)]]
    by (simp add: car_ledger_ok_def exits_match_def v(2))
qed

lemma same_ledger_stints: "same_ledger s' s \<Longrightarrow> stints_of p s' = [] \<longleftrightarrow> stints_of p s = []"
  unfolding same_ledger_def by (metis map_is_Nil_conv)

lemma ledger_ok_same:
  "same_ledger s' s \<Longrightarrow> set (hf_pending s') \<subseteq> set (hf_pending s) \<Longrightarrow> ledger_ok s \<Longrightarrow> ledger_ok s'"
  by (auto simp: ledger_ok_def car_ledger_cong same_ledger_stints)

lemma stints_of_update:
  "(\<And>r. ty_participant (g r) = ty_participant r) \<Longrightarrow> stints_of q (update_stint t g s) =
    update_where (\<lambda>r. ty_participant r = ty_participant t \<and> ty_number r = ty_number t) g (stints_of q s)"
  by (simp add: stints_of_def update_stint_def filter_update_own)

lemma update_stint_other [simp]:
  "hf_stops (update_stint t g s) = hf_stops s" "hf_pending (update_stint t g s) = hf_pending s"
  "hf_laps (update_stint t g s) = hf_laps s" "hf_cars (update_stint t g s) = hf_cars s"
  "hf_clocks (update_stint t g s) = hf_clocks s" "hf_cells (update_stint t g s) = hf_cells s"
  "hf_flag (update_stint t g s) = hf_flag s" "hf_periods (update_stint t g s) = hf_periods s"
  "hf_gaps (update_stint t g s) = hf_gaps s" "hf_passings (update_stint t g s) = hf_passings s"
  "hf_heat_flag (update_stint t g s) = hf_heat_flag s"
  by (simp_all add: update_stint_def)

lemma update_stint_same:
  assumes "\<And>r. stint_view (g r) = stint_view r" "\<And>r. ty_participant (g r) = ty_participant r"
  shows "same_ledger (update_stint t g s) s"
  using assms by (auto simp: same_ledger_def stints_of_update map_update_same)

lemma insert_lap_other [simp]:
  "hf_stints (fst (insert_lap l s)) = hf_stints s" "hf_stops (fst (insert_lap l s)) = hf_stops s"
  "hf_pending (fst (insert_lap l s)) = hf_pending s" "hf_cars (fst (insert_lap l s)) = hf_cars s"
  "hf_clocks (fst (insert_lap l s)) = hf_clocks s" "hf_cells (fst (insert_lap l s)) = hf_cells s"
  "hf_flag (fst (insert_lap l s)) = hf_flag s" "hf_periods (fst (insert_lap l s)) = hf_periods s"
  "hf_gaps (fst (insert_lap l s)) = hf_gaps s" "hf_passings (fst (insert_lap l s)) = hf_passings s"
  by (simp_all add: insert_lap_def)

lemma grid_laps_other [simp]:
  "hf_stints (complete_laps_from_grid ctx p a b ms k s) = hf_stints s"
  "hf_stops (complete_laps_from_grid ctx p a b ms k s) = hf_stops s"
  "hf_pending (complete_laps_from_grid ctx p a b ms k s) = hf_pending s"
  "hf_cars (complete_laps_from_grid ctx p a b ms k s) = hf_cars s"
  "hf_clocks (complete_laps_from_grid ctx p a b ms k s) = hf_clocks s"
  "hf_cells (complete_laps_from_grid ctx p a b ms k s) = hf_cells s"
proof -
  have "f (fold (\<lambda>n s. fst (insert_lap (grid_lap ctx p b ms k s n) s)) ns s) = f s"
    if "\<And>l s. f (fst (insert_lap l s)) = f s" for f :: "heat_facts \<Rightarrow> 'x" and ns
    by (induction ns arbitrary: s) (simp_all add: that)
  note * = this
  show "hf_stints (complete_laps_from_grid ctx p a b ms k s) = hf_stints s"
    unfolding complete_laps_from_grid_def by (rule *) simp
  show "hf_stops (complete_laps_from_grid ctx p a b ms k s) = hf_stops s"
    unfolding complete_laps_from_grid_def by (rule *) simp
  show "hf_pending (complete_laps_from_grid ctx p a b ms k s) = hf_pending s"
    unfolding complete_laps_from_grid_def by (rule *) simp
  show "hf_cars (complete_laps_from_grid ctx p a b ms k s) = hf_cars s"
    unfolding complete_laps_from_grid_def by (rule *) simp
  show "hf_clocks (complete_laps_from_grid ctx p a b ms k s) = hf_clocks s"
    unfolding complete_laps_from_grid_def by (rule *) simp
  show "hf_cells (complete_laps_from_grid ctx p a b ms k s) = hf_cells s"
    unfolding complete_laps_from_grid_def by (rule *) simp
qed


lemma record_passage_ledger:
  "same_ledger (record_passage g s) s \<and> hf_pending (record_passage g s) = hf_pending s"
proof -
  have "same_ledger (complete_lap_from_tracker ctx p fp c i n t) t \<and>
      hf_pending (complete_lap_from_tracker ctx p fp c i n t) = hf_pending t" for ctx p fp c i n t
    unfolding complete_lap_from_tracker_def
    by (auto simp: Let_def insert_lap_def stint_view_def same_ledger_tables split: option.splits prod.splits if_splits
        intro!: same_ledger_trans [OF update_stint_same same_ledger_tables])
  from this [of "lg_context g" "lg_participant g" "lg_fingerprint g"]
  show ?thesis unfolding record_passage_def
    by (metis (no_types, lifting) heat_facts.select_convs heat_facts.surjective heat_facts.update_convs(11) same_ledger_tables same_ledger_trans)
qed

lemma cells_ledger:
  "hf_stints (fold (insert_cell render ctx) changes s) = hf_stints s"
  "hf_stops (fold (insert_cell render ctx) changes s) = hf_stops s"
  "hf_pending (fold (insert_cell render ctx) changes s) = hf_pending s"
  by (induction changes arbitrary: s) (simp_all add: insert_cell_def)

lemma passages_ledger:
  "same_ledger (fold record_passage gs s) s \<and> hf_pending (fold record_passage gs s) = hf_pending s"
  by (induction gs arbitrary: s) (simp_all, metis record_passage_ledger same_ledger_trans)

lemma flag_ledger:
  "write_immediate_flag render ctx flag s = (err, s') \<Longrightarrow>
    hf_stints s' = hf_stints s \<and> hf_stops s' = hf_stops s \<and> hf_pending s' = hf_pending s"
  by (auto simp: write_immediate_flag_def Let_def split: if_splits)

lemma heat_ledger:
  "update_heat render ctx f s = (err, s') \<Longrightarrow>
    hf_stints s' = hf_stints s \<and> hf_stops s' = hf_stops s \<and> hf_pending s' = hf_pending s"
  by (auto simp: update_heat_def Let_def dest!: flag_ledger split: option.splits if_splits)

lemma clock_ledger:
  "observe_clock fromiso ctx args s = (err, s') \<Longrightarrow>
    hf_stints s' = hf_stints s \<and> hf_stops s' = hf_stops s \<and> hf_pending s' = hf_pending s"
  by (auto simp: observe_clock_def split: prod.splits)

section \<open>The steps that write the ledger\<close>

lemma stints_of_append [simp]: "stints_of q (s\<lparr> hf_stints := hf_stints s @ [t] \<rparr>) = stints_of q s @ (if ty_participant t = q then [t] else [])"
  by (simp add: stints_of_def)

lemma exits_match_append:
  "ty_ended_at_us t = None \<Longrightarrow> exits_match ps (ts @ [t]) \<longleftrightarrow> exits_match ps ts"
  by (simp add: exits_match_def map_filter_snoc)

text \<open>\<open>_ensure_tire_stint\<close> opens the first stint of a car and touches no boundary after that.\<close>

lemma ensure_cases:
  assumes "tiled (stints_of p s)"
  obtains (first) lap where "stints_of p s = []" "ensure_tire_stint ctx p n s = s\<lparr> hf_stints := hf_stints s @ [new_stint ctx p 1 lap] \<rparr>"
  | (kept) "stints_of p s \<noteq> []" "same_ledger (ensure_tire_stint ctx p n s) s"
proof (cases "stints_of p s = []")
  case True
  then have "ensure_tire_stint ctx p n s = s\<lparr> hf_stints := hf_stints s @ [new_stint ctx p 1 (effective_lap_number s p n)] \<rparr>"
    using active_stint_tiled [OF assms] by (simp add: ensure_tire_stint_def Let_def)
  then show thesis using True first by blast
next
  case False
  then have "same_ledger (ensure_tire_stint ctx p n s) s" using active_stint_tiled [OF assms]
    by (auto simp: ensure_tire_stint_def Let_def stint_view_def intro!: update_stint_same split: option.splits)
  then show thesis using False kept by blast
qed

lemma ensure_pending [simp]: "hf_pending (ensure_tire_stint ctx p n s) = hf_pending s"
  by (simp add: ensure_tire_stint_def Let_def split: option.splits)

lemma ensure_ledger:
  assumes "ledger_ok s" shows "ledger_ok (ensure_tire_stint ctx p n s) \<and> stints_of p (ensure_tire_stint ctx p n s) \<noteq> []"
proof -
  have t: "tiled (stints_of p s)" using assms by (simp add: ledger_ok_def car_ledger_ok_def)
  show ?thesis
    using t
  proof (cases rule: ensure_cases [where ctx = ctx and n = n])
    case (first lap)
    let ?t = "new_stint ctx p 1 lap"
    have "ty_ended_at_us ?t = None" "tiled [?t]" "ty_participant ?t = p"
      by (simp_all add: new_stint_def tiled_def)
    moreover have "exits_match (stops_of p s) [?t] = exits_match (stops_of p s) []"
      using exits_match_append [of ?t "stops_of p s" "[]"] calculation by simp
    moreover have "exits_match (stops_of p s) []"
      using assms first(1) unfolding ledger_ok_def car_ledger_ok_def by metis
    moreover have "stops_of q (s\<lparr> hf_stints := hf_stints s @ [?t] \<rparr>) = stops_of q s" for q
      by (simp add: stops_of_def)
    ultimately have "car_ledger_ok q (s\<lparr> hf_stints := hf_stints s @ [?t] \<rparr>)" for q
      using assms first(1) by (auto simp: ledger_ok_def car_ledger_ok_def)
    then show ?thesis using assms unfolding first(2)
      by (simp add: ledger_ok_def new_stint_def)
  next
    case kept
    then show ?thesis using ledger_ok_same [OF kept(2) _ assms] same_ledger_stints [OF kept(2)] by simp
  qed
qed

lemma write_row_ledger:
  assumes "ledger_ok s" shows "ledger_ok (write_row_state render ctx im s)"
proof (cases "rg_participant im")
  case (Some p)
  let ?row = "rg_values im"
  let ?old = "find_car p s"
  let ?car = "car_row_after render s ctx p ?row ?old"
  let ?s1 = "upsert_car ?car s"
  let ?s2 = "case (Option.bind ?old cu_laps, source_laps (row_event_cells s p (mx_id ctx) ''laps'')) of
       (Some previous, Some laps) \<Rightarrow> if laps > previous
         then complete_laps_from_grid ctx p previous laps (duration_us_to_ms (jget ''last_lap'' ?row)) (cu_state_kind ?car) ?s1 else ?s1
     | _ \<Rightarrow> ?s1"
  let ?s3 = "ensure_tire_stint ctx p (as_int (jget ''laps'' ?row) (Some 0)) ?s2"
  have "hf_stints ?s2 = hf_stints s \<and> hf_stops ?s2 = hf_stops s \<and> hf_pending ?s2 = hf_pending s"
    by (simp add: upsert_car_def split: option.splits)
  then have "ledger_ok ?s2" using ledger_ok_same [OF same_ledger_tables _ assms] by simp
  then have s3: "ledger_ok ?s3" "stints_of p ?s3 \<noteq> []" using ensure_ledger by blast+
  have "pe_participant e = p" if "e \<in> set (pending_of s ctx p ?row ?old)" for e
    using that by (simp add: pending_of_def Let_def split: if_splits)
  then have "ledger_ok (?s3\<lparr> hf_pending := hf_pending ?s3 @ pending_of s ctx p ?row ?old \<rparr>)"
    using s3 by (auto simp: ledger_ok_def car_ledger_ok_def stints_of_def stops_of_def)
  then show ?thesis by (simp add: write_row_state_def Some Let_def)
qed (simp add: write_row_state_def assms)

lemma apply_fact_ledger:
  assumes "ledger_ok s" "apply_fact render fromiso e s = (err, s')" shows "ledger_ok s'"
proof (cases e)
  case (ServerTime ctx args)
  then show ?thesis using assms clock_ledger [of fromiso ctx args s err s'] ledger_ok_same [OF same_ledger_tables _ assms(1)] by simp
next
  case (HeatUpdate ctx f)
  then show ?thesis using assms heat_ledger [of render ctx f s err s'] ledger_ok_same [OF same_ledger_tables _ assms(1)] by simp
next
  case (ResultRows ctx changes images)
  have "ledger_ok (fold (insert_cell render ctx) changes s)"
    using ledger_ok_same [OF same_ledger_tables _ assms(1)] by (simp add: cells_ledger)
  then have "ledger_ok (fold (write_row_state render ctx) images (fold (insert_cell render ctx) changes s))"
    by (induction images arbitrary: s rule: rev_induct) (simp_all add: write_row_ledger)
  then show ?thesis using ResultRows assms(2) by (simp add: write_result_changes_def)
next
  case (Passages gs)
  then show ?thesis using assms passages_ledger [of gs s] ledger_ok_same [OF _ _ assms(1)] by fastforce
qed

lemma apply_facts_ledger:
  "ledger_ok s \<Longrightarrow> apply_facts render fromiso es s = (err, s') \<Longrightarrow> ledger_ok s'"
proof (induction es arbitrary: s)
  case (Cons e es)
  obtain err1 s1 where e: "apply_fact render fromiso e s = (err1, s1)" by fastforce
  then have "ledger_ok s1" using Cons.prems(1) apply_fact_ledger by blast
  then show ?case using Cons e by (cases err1) auto
qed simp


lemma stops_of_append [simp]: "stops_of q (s\<lparr> hf_stops := hf_stops s @ [p] \<rparr>) = stops_of q s @ (if pk_participant p = q then [p] else [])"
  by (simp add: stops_of_def)

lemma entry_number_above:
  assumes "stops_numbered (stops_of p s)"
  shows "0 < entry_stop_number s p a b" "q \<in> set (stops_of p s) \<Longrightarrow> pk_number q < entry_stop_number s p a b"
proof -
  have m: "max_or_zero (map pk_number (stops_of p s)) < entry_stop_number s p a b"
    by (simp add: entry_stop_number_def Let_def)
  have "0 \<le> max_or_zero (map pk_number (stops_of p s))"
  proof (cases "stops_of p s")
    case (Cons q ps)
    then have "0 < pk_number q" using assms by (simp add: stops_numbered_def)
    then show ?thesis using max_or_zero_ge [of "pk_number q" "map pk_number (stops_of p s)"] Cons by simp
  qed simp
  then show "0 < entry_stop_number s p a b" using m by simp
  show "pk_number q < entry_stop_number s p a b" if "q \<in> set (stops_of p s)"
    using that m max_or_zero_ge [of "pk_number q" "map pk_number (stops_of p s)"] by simp
qed

text \<open>An entry appends an open stop with the next number.\<close>

lemma enter_pit_appends:
  assumes ok: "car_ledger_ok (pe_participant e) s" and e: "enter_pit e t lap s = (s1, ins)"
  shows "\<exists>p. s1 = s\<lparr> hf_stops := hf_stops s @ [p] \<rparr> \<and> ins \<and> \<not> pk_completed p \<and> pk_exited_at_us p = None \<and>
    pk_participant p = pe_participant e \<and>
    pk_number p = entry_stop_number s (pe_participant e) (pe_count_event e) (Option.bind (pe_previous e) cu_pit_count)"
proof -
  let ?p = "pe_participant e"
  have "pk_number q \<noteq> entry_stop_number s ?p a b" if "q \<in> set (hf_stops s)" "pk_participant q = ?p" for q a b
    using entry_number_above(2) [of ?p s q a b] ok that by (force simp: car_ledger_ok_def stops_of_def)
  then show ?thesis using e by (auto simp: enter_pit_def Let_def split: if_splits)
qed

lemma enter_ledger:
  assumes ok: "ledger_ok s" and e: "enter_pit e t lap s = (s1, ins)"
  shows "ledger_ok s1 \<and> hf_stints s1 = hf_stints s \<and> hf_pending s1 = hf_pending s"
proof -
  let ?c = "pe_participant e"
  have c: "car_ledger_ok q s" for q using ok by (simp add: ledger_ok_def)
  obtain p where p: "s1 = s\<lparr> hf_stops := hf_stops s @ [p] \<rparr>" "\<not> pk_completed p" "pk_exited_at_us p = None"
      "pk_participant p = ?c" "\<exists>a b. pk_number p = entry_stop_number s ?c a b"
    using enter_pit_appends [OF c e] by blast
  have "\<forall>q \<in> set (stops_of ?c s). pk_number q < pk_number p" "0 < pk_number p"
    using p(5) entry_number_above [of ?c s] c [of ?c] by (auto simp: car_ledger_ok_def)
  then have "stops_numbered (stops_of ?c s @ [p])" using c [of ?c] p(2,3)
    by (auto simp: car_ledger_ok_def stops_numbered_def sorted_wrt_append)
  moreover have "exits_match (stops_of ?c s @ [p]) (stints_of ?c s)" using c [of ?c] p(3)
    by (simp add: car_ledger_ok_def exits_match_def map_filter_snoc)
  moreover have "stints_of q s1 = stints_of q s" for q by (simp add: p(1) stints_of_def)
  ultimately have "car_ledger_ok q s1" for q using c [of q] c [of ?c] p(4) by (auto simp: p(1) car_ledger_ok_def)
  then show ?thesis using ok p(1) by (simp add: ledger_ok_def stints_of_def)
qed

lemma update_at:
  assumes "\<And>r. r \<in> set xs \<union> set ys \<Longrightarrow> \<not> Q r" "Q x"
  shows "update_where Q g (xs @ x # ys) = xs @ g x # ys"
  using assms by (induction xs) (auto simp: update_where_def map_idI)

lemma map_filter_at: "List.map_filter f (xs @ x # ys) = List.map_filter f xs @ (case f x of None \<Rightarrow> [] | Some y \<Rightarrow> [y]) @ List.map_filter f ys"
  by (simp add: map_filter_def split: option.splits)

text \<open>Closing a stop completes the stint of its car.\<close>

lemma close_stop_effect:
  assumes ok: "stops_numbered (stops_of c s)" and o1: "op \<in> set (stops_of c s)" "\<not> pk_completed op"
    and e: "pe_participant e = c" "close_stop e t lap op s = (s1, cl)"
  obtains as bs op1 where "stops_of c s = as @ op # bs" "stops_of c s1 = as @ op1 # bs"
    "pk_number op1 = pk_number op" "pk_completed op1" "pk_exited_at_us op1 = Some (mx_received_at_us (pe_context e))"
    "cl" "\<And>q. q \<noteq> c \<Longrightarrow> stops_of q s1 = stops_of q s" "hf_stints s1 = hf_stints s" "hf_pending s1 = hf_pending s"
    "hf_laps s1 = hf_laps s"
proof -
  obtain as bs where l: "stops_of c s = as @ op # bs" using o1(1) by (meson split_list)
  have pc: "pk_participant op = c" using o1(1) by (simp add: stops_of_def)
  let ?Q = "\<lambda>p. pk_participant p = pk_participant op \<and> pk_number p = pk_number op \<and> \<not> pk_completed p"
  obtain g where s1: "s1 = s\<lparr> hf_stops := update_where ?Q g (hf_stops s) \<rparr>" and cl: "cl = list_ex ?Q (hf_stops s)"
    and g: "\<And>r. pk_participant (g r) = pk_participant r" "\<And>r. pk_number (g r) = pk_number r"
      "\<And>r. pk_completed (g r)" "\<And>r. pk_exited_at_us (g r) = Some (mx_received_at_us (pe_context e))"
    using e(2) by (auto simp: close_stop_def Let_def)
  have "distinct (map pk_number (as @ op # bs))"
    using ok l by (simp add: stops_numbered_def strict_sorted_iff)
  then have "\<not> ?Q r" if "r \<in> set as \<union> set bs" for r using that by (force simp: image_iff)
  then have "update_where ?Q g (as @ op # bs) = as @ g op # bs" using o1(2) by (intro update_at) auto
  then have "stops_of c s1 = as @ g op # bs" using l by (simp add: s1 stops_of_def filter_update_own g)
  moreover have "stops_of q s1 = stops_of q s" if "q \<noteq> c" for q
    using that pc by (simp add: s1 stops_of_def) (rule filter_update_other, simp add: g)
  moreover have cl using o1 pc unfolding cl by (auto simp: list_ex_iff stops_of_def)
  ultimately show thesis using that [of as bs "g op"] l g by (simp add: s1)
qed

lemma complete_stint_effect:
  assumes ok: "tiled (us @ [t])" and s: "stints_of c s = us @ [t]"
  obtains d n where "stints_of c (complete_tire_stint ctx c lap s) = us @ [d, n]" "tiled (us @ [d, n])"
    "ty_ended_at_us d = Some (mx_received_at_us ctx)" "ty_ended_at_us n = None"
    "\<And>q. q \<noteq> c \<Longrightarrow> stints_of q (complete_tire_stint ctx c lap s) = stints_of q s"
proof -
  let ?n = "new_stint ctx c (ty_number t + 1) (effective_lap_number s c lap)"
  have act: "active_stint c s = Some t" using ok s by (simp add: active_stint_tiled)
  have pc: "ty_participant t = c" using arg_cong [OF s, of set] by (auto simp: stints_of_def)
  have open_t: "ty_ended_at_us t = None" using ok by (simp add: tiled_snoc)
  obtain g where g: "complete_tire_stint ctx c lap s = insert_stint ?n (update_stint t g s)"
    and g': "\<And>r. ty_participant (g r) = ty_participant r" "\<And>r. ty_number (g r) = ty_number r"
      "ty_ended_at_us (g t) = Some (mx_received_at_us ctx)" "ty_ended_lap (g t) = effective_lap_number s c lap"
      "ty_started_at_us (g t) = ty_started_at_us t" "ty_started_lap (g t) = ty_started_lap t"
    using act open_t by (simp add: complete_tire_stint_def Let_def)
  let ?s1 = "update_stint t g s"
  have num: "map ty_number (us @ [t]) = [1..int (length us) + 1]" using ok by (simp add: tiled_snoc)
  then have "distinct (map ty_number (us @ [t]))" by (metis distinct_upto)
  then have "\<not> (ty_participant r = ty_participant t \<and> ty_number r = ty_number t)" if "r \<in> set us" for r
    using that by (force simp: image_iff)
  then have s1: "stints_of c ?s1 = us @ [g t]"
    using update_at [of us "[]" "\<lambda>r. ty_participant r = ty_participant t \<and> ty_number r = ty_number t" t g]
    by (simp add: stints_of_update [OF g'(1)] s)
  have other: "stints_of q ?s1 = stints_of q s" if "q \<noteq> c" for q
    using that pc by (simp add: stints_of_def update_stint_def) (rule filter_update_other, simp add: g')
  have "tiled (us @ [g t, ?n])" using g' by (intro tiled_next [OF ok]) (simp_all add: new_stint_def)
  have lower: "ty_number r < ty_number t + 1" if "r \<in> set (us @ [g t])" for r
  proof -
    have "map ty_number (us @ [g t]) = [1..int (length us) + 1]" using num g' by simp
    then have "ty_number r \<in> {1..int (length us) + 1}" using that by (metis image_eqI set_map set_upto)
    moreover have "last (map ty_number (us @ [t])) = int (length us) + 1"
      unfolding num using upto_rec2 [of 1 "int (length us) + 1"] by simp
    ultimately show ?thesis by simp
  qed
  have fresh: "\<not> (\<exists>r \<in> set (hf_stints ?s1). ty_participant r = c \<and> ty_number r = ty_number t + 1)"
  proof
    assume "\<exists>r \<in> set (hf_stints ?s1). ty_participant r = c \<and> ty_number r = ty_number t + 1"
    then obtain r where "r \<in> set (stints_of c ?s1)" "ty_number r = ty_number t + 1" by (auto simp: stints_of_def)
    then show False using s1 lower by fastforce
  qed
  then have ins: "complete_tire_stint ctx c lap s = ?s1\<lparr> hf_stints := hf_stints ?s1 @ [?n] \<rparr>"
    unfolding g by (simp add: insert_stint_def new_stint_def)
  show thesis
    by (rule that [of "g t" ?n]) (use \<open>tiled (us @ [g t, ?n])\<close> s1 other g' in \<open>auto simp: ins new_stint_def\<close>)
qed


lemma exit_ledger:
  assumes ok: "ledger_ok s" and o1: "op \<in> set (stops_of c s)" "\<not> pk_completed op"
    and ne: "stints_of c s \<noteq> []"
    and e: "pe_participant e = c" "close_stop e t lap op s = (s1, cl)"
  shows "ledger_ok (complete_tire_stint (pe_context e) c lap s1)"
proof -
  have c: "car_ledger_ok q s" for q using ok by (simp add: ledger_ok_def)
  then have num: "stops_numbered (stops_of c s)" by (simp add: car_ledger_ok_def)
  obtain as bs op1 where ps: "stops_of c s = as @ op # bs" "stops_of c s1 = as @ op1 # bs"
    and op1: "pk_number op1 = pk_number op" "pk_completed op1" "pk_exited_at_us op1 = Some (mx_received_at_us (pe_context e))"
    and rest: "\<And>q. q \<noteq> c \<Longrightarrow> stops_of q s1 = stops_of q s" "hf_stints s1 = hf_stints s" "hf_pending s1 = hf_pending s"
    using close_stop_effect [OF num o1 e] by metis
  obtain us tt where ts: "stints_of c s1 = us @ [tt]" using ne rest(2) by (metis rev_exhaust stints_of_def)
  then have tl: "tiled (us @ [tt])" using c [of c] rest(2) by (simp add: car_ledger_ok_def stints_of_def)
  let ?s2 = "complete_tire_stint (pe_context e) c lap s1"
  obtain d n where dn: "stints_of c ?s2 = us @ [d, n]" "tiled (us @ [d, n])"
      "ty_ended_at_us d = Some (mx_received_at_us (pe_context e))" "ty_ended_at_us n = None"
      "\<And>q. q \<noteq> c \<Longrightarrow> stints_of q ?s2 = stints_of q s1"
    using complete_stint_effect [OF tl ts] by metis
  have tables: "hf_stops ?s2 = hf_stops s1" "hf_pending ?s2 = hf_pending s1"
    by (simp_all add: complete_tire_stint_def insert_stint_def Let_def split: option.splits)
  have none: "ty_ended_at_us tt = None" using tl by (simp add: tiled_snoc)
  have "pk_exited_at_us op = None" using num o1 by (simp add: stops_numbered_def)
  then have "exits_match (as @ op1 # bs) (us @ [d, n])"
    using c [of c] ts ps(1) rest(2) op1 dn(3,4) none
      map_filter_at [of ty_ended_at_us us d "[n]"] map_filter_at [of ty_ended_at_us us tt "[]"]
    by (simp add: car_ledger_ok_def exits_match_def map_filter_at stints_of_def)
  moreover have "stops_numbered (as @ op1 # bs)" using num op1 ps(1) by (simp add: stops_numbered_def)
  ultimately have "car_ledger_ok q ?s2" for q
    using c [of q] dn(1,2,5) ps(2) rest(1,2) tables by (cases "q = c") (simp_all add: car_ledger_ok_def stops_of_def stints_of_def)
  moreover have "stints_of q ?s2 = [] \<longleftrightarrow> stints_of q s = []" for q
    using dn(1,5) ne rest(2) by (cases "q = c") (auto simp: stints_of_def)
  ultimately show ?thesis using ok tables rest(3) by (simp add: ledger_ok_def)
qed

lemma invalidate_ledger: "ledger_ok (invalidate_clean_laps_for_pit c s) = ledger_ok s"
  by (simp add: invalidate_clean_laps_for_pit_def Let_def ledger_ok_def car_ledger_ok_def stints_of_def stops_of_def)

lemma find_entered:
  assumes num: "stops_numbered (stops_of c s)" and r: "r \<in> set (stops_of c s)" "\<not> pk_completed r"
    and f: "find (\<lambda>p. pk_participant p = c \<and> pk_number p = pk_number r) (hf_stops s) = Some q"
  shows "q = r"
proof -
  have q: "q \<in> set (stops_of c s)" "pk_number q = pk_number r"
    using f by (auto simp: find_Some_iff stops_of_def) 
  moreover have "distinct (map pk_number (stops_of c s))" using num by (simp add: stops_numbered_def strict_sorted_iff)
  ultimately show ?thesis using r(1) by (simp add: distinct_map inj_on_def)
qed

lemma reconcile_ledger:
  assumes ok: "ledger_ok s" and ne: "stints_of (pe_participant e) s \<noteq> []"
  shows "ledger_ok (reconcile_pit_and_tire_stint e t s)"
proof -
  let ?c = "pe_participant e"
  let ?lap = "effective_lap_number s ?c (pe_lap_number e)"
  let ?num = "entry_stop_number s ?c (pe_count_event e) (Option.bind (pe_previous e) cu_pit_count)"
  obtain s1 ins where e1: "(if pit_state_entered e then enter_pit e t ?lap s else (s, False)) = (s1, ins)" by fastforce
  define opened1 where "opened1 = (if ins then find (\<lambda>p. pk_participant p = ?c \<and> pk_number p = ?num) (hf_stops s1)
    else opened_stop ?c s)"
  have s1: "ledger_ok s1" "hf_stints s1 = hf_stints s"
    using e1 ok enter_ledger [OF ok, of e t ?lap s1 ins] by (auto split: if_splits)
  then have ne1: "stints_of ?c s1 \<noteq> []" using ne by (simp add: stints_of_def)
  have o1: "op \<in> set (stops_of ?c s1) \<and> \<not> pk_completed op" if "opened1 = Some op" for op
  proof (cases ins)
    case True
    then have "enter_pit e t ?lap s = (s1, ins)" using e1 by (simp split: if_splits)
    then obtain p where p: "s1 = s\<lparr> hf_stops := hf_stops s @ [p] \<rparr>" "\<not> pk_completed p" "pk_participant p = ?c" "pk_number p = ?num"
      using enter_pit_appends [of e s] ok by (metis ledger_ok_def)
    have "stops_numbered (stops_of ?c s1)" using s1(1) by (simp add: ledger_ok_def car_ledger_ok_def)
    moreover have "p \<in> set (stops_of ?c s1)" using p by simp
    ultimately show ?thesis using find_entered [of ?c s1 p op] that p(2,4) True by (simp add: opened1_def)
  next
    case False
    then have "s1 = s" using e1 enter_pit_appends [of e s t ?lap s1 ins] ok by (auto simp: ledger_ok_def split: if_splits)
    then show ?thesis using False that top_by_in by (fastforce simp: opened1_def opened_stop_def)
  qed
  have step: "ledger_ok (case close_stop e t ?lap op s1 of (s', cl) \<Rightarrow> complete_tire_stint (pe_context e) ?c ?lap s')"
    if "opened1 = Some op" for op
    using exit_ledger [OF s1(1) _ _ ne1 refl] o1 [OF that] by (auto split: prod.splits)
  define exits where "exits \<longleftrightarrow> (case pe_state_event e of Some st \<Rightarrow> st_kind st \<in> {''ON_TRACK'', ''OUT_LAP''} | None \<Rightarrow> False)
    \<and> (map_option cu_state_kind (pe_previous e) = Some ''IN_PIT'' \<or> opened_stop ?c s \<noteq> None)"
  obtain s2 cl where s2: "(case opened1 of
      Some p \<Rightarrow> if exits then (case close_stop e t ?lap p s1 of (s', c) \<Rightarrow> (complete_tire_stint (pe_context e) ?c ?lap s', c))
        else (ensure_tire_stint (pe_context e) ?c ?lap s1, False)
    | None \<Rightarrow> (ensure_tire_stint (pe_context e) ?c ?lap s1, False)) = (s2, cl)" by fastforce
  have "reconcile_pit_and_tire_stint e t s = (if ins \<or> cl then invalidate_clean_laps_for_pit ?c s2 else s2)"
    unfolding reconcile_pit_and_tire_stint_def Let_def e1 prod.case opened1_def [symmetric] exits_def [symmetric] s2 by (rule refl)
  moreover have "ledger_ok s2"
    using s2 step ensure_ledger [OF s1(1)] by (auto split: option.splits prod.splits if_splits)
  ultimately show ?thesis by (simp add: invalidate_ledger)
qed


lemma reconcile_pending: "hf_pending (reconcile_pit_and_tire_stint e t s) = hf_pending s"
proof -
  have i: "hf_pending (invalidate_clean_laps_for_pit c s) = hf_pending s" for c s
    by (simp add: invalidate_clean_laps_for_pit_def Let_def)
  have c: "hf_pending (complete_tire_stint ctx c n s) = hf_pending s" for ctx c n s
    by (simp add: complete_tire_stint_def insert_stint_def Let_def split: option.splits)
  have x: "close_stop e t n op s = (s1, b) \<Longrightarrow> hf_pending s1 = hf_pending s" for n op s s1 b
    by (auto simp: close_stop_def Let_def)
  have n: "enter_pit e t n s = (s1, b) \<Longrightarrow> hf_pending s1 = hf_pending s" for n s s1 b
    by (auto simp: enter_pit_def Let_def split: if_splits)
  show ?thesis
    unfolding reconcile_pit_and_tire_stint_def Let_def
    by (auto simp: i c split: option.splits prod.splits if_splits dest!: n x)
qed

lemma reconcile_frame_ledger:
  assumes "ledger_ok s" shows "ledger_ok (reconcile_frame_pit_events s)"
proof -
  have "ledger_ok (fold (\<lambda>(e, t). reconcile_pit_and_tire_stint e t) es s)"
    if "fst ` set es \<subseteq> set (hf_pending s)" "ledger_ok s" for es s
    using that
  proof (induction es arbitrary: s)
    case (Cons et es)
    then show ?case using reconcile_ledger [of s "fst et" "snd et"] reconcile_pending [of "fst et" "snd et" s]
      by (cases et) (auto simp: ledger_ok_def)
  qed simp
  then show ?thesis using assms by (simp add: reconcile_frame_pit_events_def Let_def image_image)
qed

lemma attach_ledger:
  "hf_stints (fold (attach_last cs ls) ps s) = hf_stints s \<and> hf_stops (fold (attach_last cs ls) ps s) = hf_stops s \<and>
    hf_pending (fold (attach_last cs ls) ps s) = hf_pending s"
proof (induction ps arbitrary: s)
  case (Cons p ps)
  have "hf_stints (attach_last cs ls p s) = hf_stints s \<and> hf_stops (attach_last cs ls p s) = hf_stops s \<and>
    hf_pending (attach_last cs ls p s) = hf_pending s"
    by (simp add: attach_last_def Let_def split: list.splits option.splits)
  then show ?case using Cons by simp
qed simp

lemma lap_reconciliation_ledger:
  "same_ledger (reconcile_tracker_lap_sources f (reconcile_frame_tracker_lap_states f s)) s \<and>
    hf_pending (reconcile_tracker_lap_sources f (reconcile_frame_tracker_lap_states f s)) = hf_pending s"
  by (simp add: reconcile_tracker_lap_sources_def reconcile_frame_tracker_lap_states_def Let_def attach_ledger same_ledger_tables)

definition frame_step ::
    "(json \<Rightarrow> string) \<Rightarrow> (string \<Rightarrow> int option option) \<Rightarrow> heat_facts \<Rightarrow> int \<times> fact_event list \<Rightarrow> heat_facts" where
  "frame_step render fromiso s f = snd (process_frame_facts render fromiso (fst f) (snd f) s)"

text \<open>A heat whose cars have no facts yet.\<close>

definition fresh_heat :: "heat_facts \<Rightarrow> bool" where
  "fresh_heat s \<longleftrightarrow> hf_pending s = [] \<and> hf_cells s = [] \<and> hf_cars s = [] \<and> hf_laps s = [] \<and> hf_stops s = [] \<and>
     hf_stints s = [] \<and> hf_passings s = []"

lemma fresh_ledger: "fresh_heat s \<Longrightarrow> ledger_ok s"
  by (simp add: fresh_heat_def ledger_ok_def car_ledger_ok_def tiled_def stops_numbered_def exits_match_def stints_of_def
      stops_of_def map_filter_simps)

lemma ledger_ok_tables:
  "hf_stints s' = hf_stints s \<Longrightarrow> hf_stops s' = hf_stops s \<Longrightarrow> hf_pending s' = [] \<Longrightarrow> ledger_ok s \<Longrightarrow> ledger_ok s'"
  by (rule ledger_ok_same [OF same_ledger_tables]) simp_all

lemma frame_ledger: "ledger_ok s \<Longrightarrow> ledger_ok (frame_step render fromiso s f)"
proof -
  assume ok: "ledger_ok s"
  let ?s0 = "s\<lparr> hf_pending := [] \<rparr>"
  obtain err s1 where a: "apply_facts render fromiso (snd f) ?s0 = (err, s1)" by fastforce
  have "ledger_ok ?s0" using ok by (rule ledger_ok_tables [rotated 3]) simp_all
  then have s1: "ledger_ok s1" using a by (rule apply_facts_ledger)
  let ?s2 = "reconcile_tracker_lap_sources (fst f) (reconcile_frame_tracker_lap_states (fst f) s1)"
  have "ledger_ok ?s2"
    using ledger_ok_same [OF conjunct1 [OF lap_reconciliation_ledger] _ s1] lap_reconciliation_ledger [of "fst f" s1] by simp
  then have "ledger_ok (reconcile_frame_pit_events ?s2)" by (rule reconcile_frame_ledger)
  then have "ledger_ok ((reconcile_frame_pit_events ?s2)\<lparr> hf_pending := [] \<rparr>)" by (rule ledger_ok_tables [rotated 3]) simp_all
  moreover have "ledger_ok (s\<lparr> hf_clocks := hf_clocks s1, hf_heat_flag := hf_heat_flag s1, hf_pending := [] \<rparr>)"
    using ok by (rule ledger_ok_tables [rotated 3]) simp_all
  ultimately show ?thesis using a by (cases err) (simp_all add: frame_step_def process_frame_facts_def)
qed

interpretation ledger: invariant_machine "frame_step render fromiso" fresh_heat ledger_ok for render fromiso
  by unfold_locales (auto intro: fresh_ledger frame_ledger)

lemma tiled_ends:
  assumes "tiled ts" shows "List.map_filter ty_ended_at_us ts = map ty_started_at_us (tl ts)"
proof (cases "ts = []")
  case False
  then have "map ty_ended_at_us ts = map (Some \<circ> ty_started_at_us) (tl ts) @ [None]" using assms by (simp add: tiled_def)
  moreover have "List.map_filter f xs = List.map_filter id (map f xs)" for f :: "'a \<Rightarrow> 'b option" and xs
    by (simp add: map_filter_def filter_map comp_def)
  moreover have "List.map_filter id (map (Some \<circ> g) xs @ [None]) = map g xs" for g :: "'a \<Rightarrow> 'b" and xs
    by (simp add: map_filter_def filter_map comp_def)
  ultimately show ?thesis by metis
qed (simp add: map_filter_simps)

lemma completed_exits:
  assumes "stops_numbered ps" shows "length (filter pk_completed ps) = length (List.map_filter pk_exited_at_us ps)"
  using assms by (auto simp: stops_numbered_def map_filter_def comp_def intro!: arg_cong [where f = length] filter_cong)


section \<open>A small race\<close>

definition pit_context :: "int \<Rightarrow> int \<Rightarrow> frame_message" where
  "pit_context i t = \<lparr> mx_id = i, mx_frame = i, mx_ordinal = 0, mx_handle = ''r_c'', mx_source_key = int_text i,
     mx_received_at_us = t, mx_connection = ''c'' \<rparr>"

definition state_rows :: "int \<Rightarrow> int \<Rightarrow> string \<Rightarrow> fact_event" where
  "state_rows i t v = ResultRows (pit_context i t)
     [\<lparr> cg_ordinal = 0, cg_participant = Some ''7'', cg_key = Some ''state'', cg_value = JStr v \<rparr>]
     [\<lparr> rg_participant = Some ''7'', rg_values = [(''state'', JStr v)] \<rparr>]"

definition state_frame :: "int \<Rightarrow> int \<Rightarrow> string \<Rightarrow> int \<times> fact_event list" where
  "state_frame i t v = (i, [state_rows i t v])"

definition empty_heat :: heat_facts where
  "empty_heat = \<lparr> hf_clocks = [], hf_heat_flag = None, hf_pending = [], hf_cells = [], hf_cars = [], hf_laps = [],
     hf_stops = [], hf_stints = [], hf_periods = [], hf_flag = None, hf_passings = [], hf_gaps = [] \<rparr>"

definition one_stop_race :: "(int \<times> fact_event list) list" where
  "one_stop_race = [state_frame 1 100 ''E1'', state_frame 2 200 ''SIn Pit'', state_frame 3 300 ''SOut Lap'', state_frame 4 400 ''E2'']"

definition run_demo :: "(int \<times> fact_event list) list \<Rightarrow> heat_facts" where
  "run_demo = foldl (frame_step (\<lambda>_. []) (\<lambda>_. None)) empty_heat"

definition reentry_race :: "(int \<times> fact_event list) list" where
  "reentry_race = [state_frame 1 100 ''E1'', state_frame 2 200 ''SIn Pit'', state_frame 3 210 ''S?'',
     state_frame 4 220 ''SIn Pit'', state_frame 5 300 ''SOut Lap'', state_frame 6 400 ''E2'']"

lemma empty_heat_fresh: "fresh_heat empty_heat"
  by (simp add: fresh_heat_def empty_heat_def)

section \<open>What one transition adds\<close>

definition open_stops :: "string \<Rightarrow> heat_facts \<Rightarrow> nat" where
  "open_stops c s = length (filter (\<lambda>p. \<not> pk_completed p) (stops_of c s))"

definition counted_stops :: "string \<Rightarrow> heat_facts \<Rightarrow> nat" where
  "counted_stops c s = length (filter pk_completed (stops_of c s))"

lemma invalidate_rows [simp]:
  "stops_of c (invalidate_clean_laps_for_pit d s) = stops_of c s"
  "stints_of c (invalidate_clean_laps_for_pit d s) = stints_of c s"
  by (simp_all add: invalidate_clean_laps_for_pit_def Let_def stops_of_def stints_of_def)

lemma ensure_rows:
  assumes "ledger_ok s" "stints_of c s \<noteq> []"
  shows "hf_stops (ensure_tire_stint ctx c n s) = hf_stops s \<and>
    length (stints_of c (ensure_tire_stint ctx c n s)) = length (stints_of c s)"
proof -
  have "tiled (stints_of c s)" using assms(1) by (simp add: ledger_ok_def car_ledger_ok_def)
  then have "same_ledger (ensure_tire_stint ctx c n s) s"
    by (cases rule: ensure_cases [where ctx = ctx and n = n]) (use assms in auto)
  then show ?thesis unfolding same_ledger_def by (metis length_map)
qed

text \<open>An entry opens a stop and touches no other.\<close>

lemma entry_opens:
  assumes ok: "ledger_ok s" and e: "pit_state_entered e" and ne: "stints_of (pe_participant e) s \<noteq> []"
  shows "open_stops (pe_participant e) (reconcile_pit_and_tire_stint e t s) = open_stops (pe_participant e) s + 1 \<and>
    counted_stops (pe_participant e) (reconcile_pit_and_tire_stint e t s) = counted_stops (pe_participant e) s \<and>
    length (stints_of (pe_participant e) (reconcile_pit_and_tire_stint e t s)) = length (stints_of (pe_participant e) s)"
proof -
  let ?c = "pe_participant e"
  let ?lap = "effective_lap_number s ?c (pe_lap_number e)"
  obtain s1 ins where e1: "enter_pit e t ?lap s = (s1, ins)" by fastforce
  obtain p where p: "s1 = s\<lparr> hf_stops := hf_stops s @ [p] \<rparr>" ins "\<not> pk_completed p" "pk_participant p = ?c"
    using enter_pit_appends [OF _ e1] ok by (auto simp: ledger_ok_def)
  have s1: "ledger_ok s1" "stints_of ?c s1 = stints_of ?c s" using enter_ledger [OF ok e1] by (simp_all add: stints_of_def)
  have k: "(case pe_state_event e of None \<Rightarrow> False | Some st \<Rightarrow> st_kind st \<in> {''ON_TRACK'', ''OUT_LAP''}) = False"
    using e by (auto simp: pit_state_entered_def split: option.splits)
  have "reconcile_pit_and_tire_stint e t s = invalidate_clean_laps_for_pit ?c (ensure_tire_stint (pe_context e) ?c ?lap s1)"
    using e p(2) unfolding reconcile_pit_and_tire_stint_def Let_def k by (simp add: e1 split: option.splits)
  moreover have "stops_of ?c (ensure_tire_stint (pe_context e) ?c ?lap s1) = stops_of ?c s @ [p]"
    using ensure_rows [OF s1(1), of ?c] s1(2) ne p(4) by (simp add: stops_of_def p(1))
  ultimately show ?thesis
    using ensure_rows [OF s1(1), of ?c] s1(2) ne p(3) by (simp add: open_stops_def counted_stops_def)
qed

text \<open>An outbound state closes one open stop and changes the tyres.\<close>

lemma exit_closes:
  assumes ok: "ledger_ok s" and ne: "stints_of (pe_participant e) s \<noteq> []"
    and k: "pe_state_event e = Some st" "st_kind st \<in> {''ON_TRACK'', ''OUT_LAP''}"
    and o1: "0 < open_stops (pe_participant e) s"
  shows "open_stops (pe_participant e) (reconcile_pit_and_tire_stint e t s) + 1 = open_stops (pe_participant e) s \<and>
    counted_stops (pe_participant e) (reconcile_pit_and_tire_stint e t s) = counted_stops (pe_participant e) s + 1 \<and>
    length (stints_of (pe_participant e) (reconcile_pit_and_tire_stint e t s)) = length (stints_of (pe_participant e) s) + 1"
proof -
  let ?c = "pe_participant e"
  let ?lap = "effective_lap_number s ?c (pe_lap_number e)"
  have c: "car_ledger_ok ?c s" using ok by (simp add: ledger_ok_def)
  have "opened_stop ?c s \<noteq> None" using o1 by (auto simp: open_stops_def opened_stop_def)
  then obtain op where op: "opened_stop ?c s = Some op" by blast
  have mem: "op \<in> set (stops_of ?c s)" "\<not> pk_completed op" using top_by_in [OF op [unfolded opened_stop_def]] by auto
  obtain s1 cl where x: "close_stop e t ?lap op s = (s1, cl)" by fastforce
  obtain as bs op1 where ps: "stops_of ?c s = as @ op # bs" "stops_of ?c s1 = as @ op1 # bs" "pk_completed op1"
      and cl: cl "hf_stints s1 = hf_stints s"
    using close_stop_effect [OF _ mem refl x] c unfolding car_ledger_ok_def by metis
  obtain us tt where ts: "stints_of ?c s = us @ [tt]" using ne by (metis rev_exhaust)
  then have s1: "stints_of ?c s1 = us @ [tt]" "tiled (us @ [tt])" using cl(2) c by (simp_all add: stints_of_def car_ledger_ok_def)
  let ?s2 = "complete_tire_stint (pe_context e) ?c ?lap s1"
  obtain d n where dn: "stints_of ?c ?s2 = us @ [d, n]" using complete_stint_effect [OF s1(2,1)] by metis
  have tables: "stops_of ?c ?s2 = stops_of ?c s1"
    by (simp add: complete_tire_stint_def insert_stint_def Let_def stops_of_def split: option.splits)
  have ent: "\<not> pit_state_entered e" using k by (auto simp: pit_state_entered_def split: option.splits)
  have "reconcile_pit_and_tire_stint e t s = invalidate_clean_laps_for_pit ?c ?s2"
    using k ent op x cl(1) unfolding reconcile_pit_and_tire_stint_def Let_def by simp
  then show ?thesis using ps mem(2) ts dn tables by (simp add: open_stops_def counted_stops_def)
qed

section \<open>Properties\<close>

text \<open>C9. invariant. In every heat, after any frames in any order, the tyre stints of a car are numbered
  from 1, each one ends at the time and lap where the next one starts, exactly the last one is open, and
  the tyres were changed exactly at the exits of the completed pit stops, whose numbers increase: there is
  one stint more than there are completed stops.\<close>
theorem tyre_ledger_tiles_race:
  fixes frames :: "(int \<times> fact_event list) list"
  assumes "fresh_heat s"
  shows "let s' = foldl (frame_step render fromiso) s frames; ts = stints_of p s'; ps = stops_of p s' in
    map ty_number ts = [1..int (length ts)] \<and>
    (ts \<noteq> [] \<longrightarrow>
      map ty_ended_at_us ts = map (Some \<circ> ty_started_at_us) (tl ts) @ [None] \<and>
      map ty_ended_lap ts = map ty_started_lap (tl ts) @ [None] \<and>
      length ts = length (filter pk_completed ps) + 1) \<and>
    sorted_wrt (<) (map pk_number ps) \<and>
    mset (List.map_filter pk_exited_at_us ps) = mset (map ty_started_at_us (tl ts))"
proof -
  let ?s' = "foldl (frame_step render fromiso) s frames"
  have c: "car_ledger_ok p ?s'" using ledger.reachable_inv [OF assms] by (simp add: ledger_ok_def)
  then have t: "tiled (stints_of p ?s')" and n: "stops_numbered (stops_of p ?s')"
    and m: "mset (List.map_filter pk_exited_at_us (stops_of p ?s')) = mset (map ty_started_at_us (tl (stints_of p ?s')))"
    using tiled_ends by (auto simp: car_ledger_ok_def exits_match_def)
  have "length (filter pk_completed (stops_of p ?s')) = length (stints_of p ?s') - 1"
    using completed_exits [OF n] mset_eq_length [OF m] by simp
  then show ?thesis using t n m
    by (cases "stints_of p ?s'") (simp_all add: Let_def tiled_def stops_numbered_def)
qed

lemma tyre_ledger_tiles_race_witness:
  "length (stints_of ''7'' (run_demo one_stop_race)) = 2 \<and>
   length (filter pk_completed (stops_of ''7'' (run_demo one_stop_race))) = 1 \<and>
   mset (List.map_filter pk_exited_at_us (stops_of ''7'' (run_demo one_stop_race))) = {#300#}"
proof -
  have e: "stints_of ''7'' (run_demo one_stop_race) \<noteq> [] \<and>
      map ty_started_at_us (stints_of ''7'' (run_demo one_stop_race)) = [100, 300]" by code_simp
  then have l: "length (stints_of ''7'' (run_demo one_stop_race)) = 2" by (metis length_map length_Cons list.size(3) numeral_2_eq_2)
  show ?thesis
    using tyre_ledger_tiles_race [OF empty_heat_fresh, where p = "''7''" and render = "\<lambda>_. []" and fromiso = "\<lambda>_. None" and frames = one_stop_race] e l
    by (simp add: run_demo_def [symmetric] Let_def map_tl)
qed

text \<open>C40. safety. A stop that is open when its car enters again is never closed by the entry. When the
  STATE cells of one visit to the pit lane read IN_PIT, something unreadable, IN_PIT, the exit closes the
  second stop only, and the next outbound STATE cell closes the first: one visit counts as two
  pit stops and two tyre changes.\<close>
theorem reentry_counts_two_stops:
  assumes "ledger_ok s" and "stints_of p s \<noteq> []" and "0 < open_stops p s"
    and "pe_participant entry = p" "pit_state_entered entry"
    and "pe_participant out = p" "pe_state_event out = Some st" "st_kind st \<in> {''ON_TRACK'', ''OUT_LAP''}"
    and "pe_participant later = p" "pe_state_event later = Some st'" "st_kind st' \<in> {''ON_TRACK'', ''OUT_LAP''}"
  shows "let s' = reconcile_pit_and_tire_stint later t3
      (reconcile_pit_and_tire_stint out t2 (reconcile_pit_and_tire_stint entry t1 s)) in
    counted_stops p s' = counted_stops p s + 2 \<and> length (stints_of p s') = length (stints_of p s) + 2"
proof -
  let ?s1 = "reconcile_pit_and_tire_stint entry t1 s"
  let ?s2 = "reconcile_pit_and_tire_stint out t2 ?s1"
  have 1: "ledger_ok ?s1" "open_stops p ?s1 = open_stops p s + 1" "counted_stops p ?s1 = counted_stops p s"
      "length (stints_of p ?s1) = length (stints_of p s)"
    using entry_opens [of s entry t1] reconcile_ledger [of s entry t1] assms by auto
  then have n1: "stints_of p ?s1 \<noteq> []" "0 < open_stops p ?s1" using assms(2) by (metis length_0_conv, simp)
  have 2: "ledger_ok ?s2" "open_stops p ?s2 = open_stops p s" "counted_stops p ?s2 = counted_stops p s + 1"
      "length (stints_of p ?s2) = length (stints_of p s) + 1"
    using exit_closes [of ?s1 out, unfolded assms(6), OF 1(1) n1(1) assms(7,8) n1(2), of t2]
      reconcile_ledger [of ?s1 out t2, unfolded assms(6), OF 1(1) n1(1)] 1 by simp_all
  then have n2: "stints_of p ?s2 \<noteq> []" "0 < open_stops p ?s2" using assms(3) by auto
  show ?thesis
    using exit_closes [of ?s2 later, unfolded assms(9), OF 2(1) n2(1) assms(10,11) n2(2), of t3] 2 by simp
qed

definition seen_in :: "heat_facts \<Rightarrow> int \<Rightarrow> int \<Rightarrow> string \<Rightarrow> pending_pit" where
  "seen_in s i t v = \<lparr> pe_context = pit_context i t, pe_participant = ''7'',
     pe_state_event = Some (parse_result_state (JStr v)), pe_state_cell = None, pe_count_event = None,
     pe_count_cell = None, pe_lap_number = None, pe_pit_time_event = None, pe_previous = find_car ''7'' s \<rparr>"

definition lost_in_pit :: heat_facts where
  "lost_in_pit = run_demo [state_frame 1 100 ''E1'', state_frame 2 200 ''SIn Pit'', state_frame 3 210 ''S?'']"

lemma reentry_counts_two_stops_witness:
  "let s' = reconcile_pit_and_tire_stint (seen_in lost_in_pit 6 400 ''E2'') None
      (reconcile_pit_and_tire_stint (seen_in lost_in_pit 5 300 ''SOut Lap'') None
        (reconcile_pit_and_tire_stint (seen_in lost_in_pit 4 220 ''SIn Pit'') None lost_in_pit)) in
    counted_stops ''7'' s' = counted_stops ''7'' lost_in_pit + 2 \<and>
    length (stints_of ''7'' s') = length (stints_of ''7'' lost_in_pit) + 2"
proof -
  have ok: "ledger_ok lost_in_pit"
    unfolding lost_in_pit_def run_demo_def by (rule ledger.reachable_inv [OF empty_heat_fresh])
  have "length (stints_of ''7'' lost_in_pit) = 1 \<and> open_stops ''7'' lost_in_pit = 1 \<and>
      pit_state_entered (seen_in lost_in_pit 4 220 ''SIn Pit'')" by code_simp
  then have h: "stints_of ''7'' lost_in_pit \<noteq> []" "0 < open_stops ''7'' lost_in_pit"
      "pit_state_entered (seen_in lost_in_pit 4 220 ''SIn Pit'')" by auto
  have k: "st_kind (parse_result_state (JStr ''SOut Lap'')) \<in> {''ON_TRACK'', ''OUT_LAP''}"
      "st_kind (parse_result_state (JStr ''E2'')) \<in> {''ON_TRACK'', ''OUT_LAP''}" by code_simp+
  show ?thesis
    by (rule reentry_counts_two_stops [OF ok h(1,2) _ h(3) _ _ k(1) _ _ k(2)]) (simp_all add: seen_in_def)
qed

text \<open>The whole race: one visit, two stops, three sets of tyres.\<close>

lemma reentry_race_counts:
  "counted_stops ''7'' (run_demo reentry_race) = 2 \<and> length (stints_of ''7'' (run_demo reentry_race)) = 3"
  by code_simp

end
