(* ===== verification/Clean_Laps.thy ===== *)
theory Clean_Laps
  imports Tyre_Ledger
begin

text \<open>
  Clean laps against pit stops: over the tables of \<open>Car_Facts\<close> and \<open>Pit_Ledger\<close>, a lap that is marked
  clean does not meet a completed stop of its car. The mark is set when the lap is inserted
  (\<open>_is_clean_lap\<close>) and withdrawn when a later stop reaches back (\<open>_invalidate_clean_laps_for_pit\<close>).
\<close>

section \<open>Laps in the order of their numbers\<close>

definition in_number_order :: "string \<Rightarrow> heat_facts \<Rightarrow> bool" where
  "in_number_order p s \<longleftrightarrow> sorted_wrt (<) (map lf_number (completed_laps_of p s))"

definition spans_of :: "lap_fact list \<Rightarrow> (lap_fact \<times> int option) list" where
  "spans_of laps = zip laps (None # map lf_completed_at_us laps)"

definition clear_of_stops :: "string \<Rightarrow> heat_facts \<Rightarrow> bool" where
  "clear_of_stops p s \<longleftrightarrow>
    (\<forall>(l, started) \<in> set (spans_of (completed_laps_of p s)). lf_is_clean l \<longrightarrow> \<not> pit_overlaps s p l started)"

definition clean_inv :: "heat_facts \<Rightarrow> bool" where
  "clean_inv s \<longleftrightarrow> distinct (map lf_id (hf_laps s)) \<and> (\<forall>p. in_number_order p s \<longrightarrow> clear_of_stops p s)"

lemma sort_key_in_order: "sorted_wrt (<) (map lf_number laps) \<Longrightarrow> sort_key lf_number laps = laps"
  unfolding strict_sorted_iff by (rule sort_key_id_if_sorted) simp

lemma lap_intervals_spans: "in_number_order p s \<Longrightarrow> lap_intervals p s = spans_of (completed_laps_of p s)"
  by (simp add: in_number_order_def lap_intervals_def spans_of_def sort_key_in_order Let_def)

lemma spans_snoc:
  "spans_of (laps @ [l]) = spans_of laps @ [(l, if laps = [] then None else lf_completed_at_us (last laps))]"
proof (cases laps rule: rev_cases)
  case (snoc ms m)
  have "zip (ms @ [m, l]) (None # map lf_completed_at_us ms @ [lf_completed_at_us m, lf_completed_at_us l]) =
      zip (ms @ [m]) (None # map lf_completed_at_us ms) @ [(l, lf_completed_at_us m)]"
    using zip_append [of "ms @ [m]" "None # map lf_completed_at_us ms" "[l]" "[lf_completed_at_us m, lf_completed_at_us l]"]
    by simp
  moreover have "zip (ms @ [m]) (None # map lf_completed_at_us ms @ [lf_completed_at_us m]) =
      zip (ms @ [m]) (None # map lf_completed_at_us ms)"
    using zip_append2 [of "ms @ [m]" "None # map lf_completed_at_us ms" "[lf_completed_at_us m]"] by simp
  ultimately show ?thesis by (simp add: spans_of_def snoc)
qed (simp add: spans_of_def)

text \<open>The newest completed lap is the last one.\<close>

lemma top_by_last:
  assumes "sorted_wrt (<) (map f rows)" "rows \<noteq> []" shows "top_by f rows = Some (last rows)"
proof -
  have s: "sorted_wrt (\<lambda>a b. f a < f b) rows" using assms(1) by (simp add: sorted_wrt_map)
  then have "sort_key (\<lambda>r. - f r) rows = rev rows"
  proof (induction rows)
    case (Cons r rows)
    have "sort_key (\<lambda>r. - f r) (r # rows) = insort_key (\<lambda>r. - f r) r (rev rows)" using Cons by simp
    also have "\<dots> = rev rows @ [r]"
    proof -
      have "\<forall>x \<in> set xs. - f x < - f r \<Longrightarrow> insort_key (\<lambda>r. - f r) r xs = xs @ [r]" for xs
        by (induction xs) auto
      then show ?thesis using Cons.prems by simp
    qed
    finally show ?case by simp
  qed simp
  moreover have "rev rows = last rows # rev (butlast rows)"
    using assms(2) by (metis append_butlast_last_id rev_eq_Cons_iff rev_rev_ident)
  ultimately show ?thesis by (simp add: top_by_def)
qed

lemma pit_overlaps_cong: "stops_of p s' = stops_of p s \<Longrightarrow> pit_overlaps s' p = pit_overlaps s p"
  by (simp add: pit_overlaps_def fun_eq_iff split: option.splits)

section \<open>Steps that only withdraw marks\<close>

definition same_lap :: "lap_fact \<Rightarrow> lap_fact \<Rightarrow> bool" where
  "same_lap m l \<longleftrightarrow> lf_id m = lf_id l \<and> lf_participant m = lf_participant l \<and> lf_number m = lf_number l \<and>
     lf_completed_at_us m = lf_completed_at_us l \<and> (lf_is_clean m \<longrightarrow> lf_is_clean l)"

definition withdraws :: "heat_facts \<Rightarrow> heat_facts \<Rightarrow> bool" where
  "withdraws s' s \<longleftrightarrow> list_all2 same_lap (hf_laps s') (hf_laps s)"

lemma same_lap_refl [simp]: "same_lap l l"
  by (simp add: same_lap_def)

lemma withdraws_same: "hf_laps s' = hf_laps s \<Longrightarrow> withdraws s' s"
  by (simp add: withdraws_def list.rel_refl)

lemma withdraws_trans: "withdraws c b \<Longrightarrow> withdraws b a \<Longrightarrow> withdraws c a"
  unfolding withdraws_def by (rule list_all2_trans [of same_lap same_lap same_lap]) (auto simp: same_lap_def)

lemma withdraws_update:
  "(\<And>l. l \<in> set (hf_laps s) \<Longrightarrow> Q l \<Longrightarrow> same_lap (g l) l) \<Longrightarrow> hf_laps s' = update_where Q g (hf_laps s) \<Longrightarrow> withdraws s' s"
  by (simp add: withdraws_def update_where_def list_all2_map1 list.rel_refl_strong)

lemma withdraws_completed:
  assumes "withdraws s' s"
  shows "list_all2 same_lap (completed_laps_of p s') (completed_laps_of p s)"
  using assms unfolding withdraws_def completed_laps_of_def
  by (induction rule: list_all2_induct) (auto simp: same_lap_def)

lemma withdraws_ids: "withdraws s' s \<Longrightarrow> map lf_id (hf_laps s') = map lf_id (hf_laps s)"
  unfolding withdraws_def by (induction rule: list_all2_induct) (auto simp: same_lap_def)

lemma withdraws_numbers:
  assumes "withdraws s' s" shows "in_number_order p s' = in_number_order p s"
proof -
  have "map lf_number (completed_laps_of p s') = map lf_number (completed_laps_of p s)"
    using withdraws_completed [OF assms, of p] by (induction rule: list_all2_induct) (auto simp: same_lap_def)
  then show ?thesis by (simp add: in_number_order_def)
qed

lemma spans_withdrawn:
  assumes "list_all2 same_lap ms ls" "(m, started) \<in> set (spans_of ms)"
  shows "\<exists>l. (l, started) \<in> set (spans_of ls) \<and> same_lap m l"
proof -
  obtain i where i: "i < length ms" "ms ! i = m" "(None # map lf_completed_at_us ms) ! i = started"
    using assms(2) by (auto simp: spans_of_def in_set_zip)
  have len: "length ms = length ls" using assms(1) by (rule list_all2_lengthD)
  have same: "same_lap (ms ! j) (ls ! j)" if "j < length ms" for j using assms(1) that by (rule list_all2_nthD)
  have "(None # map lf_completed_at_us ls) ! i = started"
    using i len same [of "i - 1"] by (cases i) (auto simp: same_lap_def)
  then show ?thesis using i len same [of i] unfolding spans_of_def in_set_zip by (intro exI [of _ "ls ! i"]) force
qed

lemma withdraws_clear:
  assumes w: "withdraws s' s" and st: "stops_of p s' = stops_of p s" and c: "clear_of_stops p s"
  shows "clear_of_stops p s'"
  unfolding clear_of_stops_def
proof safe
  fix m started
  assume m: "(m, started) \<in> set (spans_of (completed_laps_of p s'))" "lf_is_clean m" "pit_overlaps s' p m started"
  obtain l where l: "(l, started) \<in> set (spans_of (completed_laps_of p s))" "same_lap m l"
    using spans_withdrawn [OF withdraws_completed [OF w] m(1)] by blast
  then show False using c m(2,3) unfolding clear_of_stops_def
    by (auto simp: same_lap_def pit_overlaps_def st split: option.splits)
qed

lemma clean_inv_withdraws:
  "withdraws s' s \<Longrightarrow> hf_stops s' = hf_stops s \<Longrightarrow> clean_inv s \<Longrightarrow> clean_inv s'"
  using withdraws_clear [of s' s] by (auto simp: clean_inv_def withdraws_numbers stops_of_def dest: withdraws_ids)

section \<open>Inserting a lap\<close>

lemma insert_lap_clean:
  assumes ok: "clean_inv s"
    and l: "lf_is_clean l \<Longrightarrow> is_clean_lap_fact s (lf_participant l) (lf_completed_at_us l) k"
  shows "clean_inv (fst (insert_lap l s))"
proof (cases "\<exists>m \<in> set (hf_laps s). lf_id m = lf_id l \<or> (lf_participant m = lf_participant l \<and> lf_number m = lf_number l)")
  case False
  let ?s = "s\<lparr> hf_laps := hf_laps s @ [l] \<rparr>"
  have "clear_of_stops p ?s" if "in_number_order p ?s" for p
  proof (cases "lf_participant l = p \<and> lf_completed_at_us l \<noteq> None")
    case True
    let ?laps = "completed_laps_of p s"
    have c: "completed_laps_of p ?s = ?laps @ [l]" using True by (simp add: completed_laps_of_def)
    then have order: "in_number_order p s" using that by (simp add: in_number_order_def sorted_wrt_append)
    then have old: "clear_of_stops p s" using ok by (simp add: clean_inv_def)
    have st: "pit_overlaps ?s p = pit_overlaps s p" by (rule pit_overlaps_cong) (simp add: stops_of_def)
    have "\<not> pit_overlaps s p l (if ?laps = [] then None else lf_completed_at_us (last ?laps))" if clean: "lf_is_clean l"
    proof (cases "?laps = []")
      case False
      then have "top_by lf_number ?laps = Some (last ?laps)" using order top_by_last by (auto simp: in_number_order_def)
      then show ?thesis using l [OF clean] True False
        by (auto simp: is_clean_lap_fact_def pit_overlaps_def stops_of_def split: option.splits)
    qed (simp add: pit_overlaps_def)
    then show ?thesis using old unfolding clear_of_stops_def c spans_snoc st by auto
  next
    case False
    then have c: "completed_laps_of p ?s = completed_laps_of p s" by (auto simp: completed_laps_of_def)
    then show ?thesis using that ok
      by (simp add: clean_inv_def in_number_order_def clear_of_stops_def pit_overlaps_cong [of p ?s s] stops_of_def)
  qed
  then show ?thesis using False ok by (auto simp: insert_lap_def clean_inv_def)
qed (use ok in \<open>simp add: insert_lap_def\<close>)


lemma clean_inv_laps: "hf_laps s' = hf_laps s \<Longrightarrow> hf_stops s' = hf_stops s \<Longrightarrow> clean_inv s \<Longrightarrow> clean_inv s'"
  by (rule clean_inv_withdraws [OF withdraws_same])

lemma record_passage_clean:
  assumes "clean_inv s" shows "clean_inv (record_passage g s)"
proof -
  have "clean_inv (complete_lap_from_tracker ctx p fp c i n t)" if ok: "clean_inv t" for ctx p fp c i n t
  proof (cases "find_car p t")
    case (Some car)
    show ?thesis
    proof (cases "cu_laps car")
      case None
      let ?l = "tracker_lap ctx p fp c i n (cu_state_kind car) t"
      have "complete_lap_from_tracker ctx p fp c i n t =
          (if snd (insert_lap ?l t)
           then (case active_stint p (fst (insert_lap ?l t)) of None \<Rightarrow> fst (insert_lap ?l t)
             | Some u \<Rightarrow> update_stint u (\<lambda>r. r\<lparr> ty_completed_laps := ty_completed_laps r + 1 \<rparr>) (fst (insert_lap ?l t)))
           else fst (insert_lap ?l t))"
        using Some None by (simp add: complete_lap_from_tracker_def case_prod_beta)
      moreover have "clean_inv (fst (insert_lap ?l t))"
        by (rule insert_lap_clean [OF ok, where k = "Some (cu_state_kind car)"]) (simp add: tracker_lap_def Let_def)
      ultimately show ?thesis by (auto split: option.splits intro: clean_inv_laps [rotated 2])
    qed (simp add: complete_lap_from_tracker_def Some ok)
  qed (simp add: complete_lap_from_tracker_def ok)
  moreover have "clean_inv (s\<lparr> hf_passings := x \<rparr>)" for x using assms by (rule clean_inv_laps [rotated 2]) simp_all
  ultimately show ?thesis by (simp add: record_passage_def)
qed

lemma grid_laps_clean:
  assumes "clean_inv s" shows "clean_inv (complete_laps_from_grid ctx p a b ms k s)"
proof -
  have "clean_inv (fold (\<lambda>n s. fst (insert_lap (grid_lap ctx p b ms k s n) s)) ns s)" if "clean_inv s" for ns s
    using that
  proof (induction ns arbitrary: s)
    case (Cons n ns)
    have "clean_inv (fst (insert_lap (grid_lap ctx p b ms k s n) s))"
      by (rule insert_lap_clean [OF Cons.prems, where k = "Some k"]) (simp add: grid_lap_def Let_def split: if_splits)
    then show ?case using Cons.IH by simp
  qed simp
  then show ?thesis using assms by (simp add: complete_laps_from_grid_def)
qed

lemma ensure_laps [simp]: "hf_laps (ensure_tire_stint ctx p n s) = hf_laps s" "hf_stops (ensure_tire_stint ctx p n s) = hf_stops s"
  by (simp_all add: ensure_tire_stint_def Let_def split: option.splits)

lemma complete_laps [simp]: "hf_laps (complete_tire_stint ctx p n s) = hf_laps s" "hf_stops (complete_tire_stint ctx p n s) = hf_stops s"
  by (simp_all add: complete_tire_stint_def insert_stint_def Let_def split: option.splits)

lemma write_row_clean:
  assumes "clean_inv s" shows "clean_inv (write_row_state render ctx im s)"
proof (cases "rg_participant im")
  case (Some p)
  let ?row = "rg_values im"
  let ?old = "find_car p s"
  let ?car = "car_row_after render s ctx p ?row ?old"
  have u: "clean_inv (upsert_car ?car s)" using assms by (rule clean_inv_laps [rotated 2]) (simp_all add: upsert_car_def)
  define s2 where "s2 = (case (Option.bind ?old cu_laps, source_laps (row_event_cells s p (mx_id ctx) ''laps'')) of
       (Some previous, Some laps) \<Rightarrow> if laps > previous
         then complete_laps_from_grid ctx p previous laps (duration_us_to_ms (jget ''last_lap'' ?row)) (cu_state_kind ?car) (upsert_car ?car s)
         else upsert_car ?car s
     | _ \<Rightarrow> upsert_car ?car s)"
  have "clean_inv s2" using u by (auto simp: s2_def grid_laps_clean split: option.splits)
  then have "clean_inv ((ensure_tire_stint ctx p (as_int (jget ''laps'' ?row) (Some 0)) s2)\<lparr> hf_pending := x \<rparr>)" for x
    by (rule clean_inv_laps [rotated 2]) simp_all
  then show ?thesis by (simp add: write_row_state_def Some Let_def s2_def)
qed (simp add: write_row_state_def assms)

lemma apply_fact_clean:
  assumes ok: "clean_inv s" and a: "apply_fact render fromiso e s = (err, s')" shows "clean_inv s'"
proof (cases e)
  case (ServerTime ctx args)
  then show ?thesis using a ok by (auto simp: observe_clock_def split: prod.splits intro: clean_inv_laps [OF _ _ ok])
next
  case (HeatUpdate ctx f)
  have "write_immediate_flag render ctx flag t = (x, y) \<Longrightarrow> hf_laps y = hf_laps t \<and> hf_stops y = hf_stops t" for flag t x y
    by (auto simp: write_immediate_flag_def Let_def split: if_splits)
  then have "hf_laps s' = hf_laps s \<and> hf_stops s' = hf_stops s"
    using a HeatUpdate by (fastforce simp: update_heat_def Let_def split: option.splits if_splits)
  then show ?thesis using clean_inv_laps [OF _ _ ok] by simp
next
  case (ResultRows ctx changes images)
  have "hf_laps (fold (insert_cell render ctx) changes s) = hf_laps s \<and> hf_stops (fold (insert_cell render ctx) changes s) = hf_stops s"
    by (induction changes arbitrary: s) (simp_all add: insert_cell_def)
  then have "clean_inv (fold (insert_cell render ctx) changes s)" using clean_inv_laps [OF _ _ ok] by simp
  then have "clean_inv (fold (write_row_state render ctx) images (fold (insert_cell render ctx) changes s))"
    by (induction images rule: rev_induct) (simp_all add: write_row_clean)
  then show ?thesis using ResultRows a by (simp add: write_result_changes_def)
next
  case (Passages gs)
  have "clean_inv (fold record_passage gs s)" using ok by (induction gs arbitrary: s) (simp_all add: record_passage_clean)
  then show ?thesis using Passages a by simp
qed

lemma apply_facts_clean: "clean_inv s \<Longrightarrow> apply_facts render fromiso es s = (err, s') \<Longrightarrow> clean_inv s'"
proof (induction es arbitrary: s)
  case (Cons e es)
  obtain err1 s1 where e: "apply_fact render fromiso e s = (err1, s1)" by fastforce
  then show ?case using Cons apply_fact_clean [OF Cons.prems(1) e] by (cases err1) auto
qed simp


section \<open>After the messages\<close>

lemma lap_states_clean:
  assumes "clean_inv s" shows "clean_inv (reconcile_frame_tracker_lap_states f s)"
proof (rule clean_inv_withdraws [OF _ _ assms])
  show "withdraws (reconcile_frame_tracker_lap_states f s) s"
    by (rule withdraws_update [where Q = "passed_in f s"]) (auto simp: reconcile_frame_tracker_lap_states_def same_lap_def)
qed (simp add: reconcile_frame_tracker_lap_states_def)

lemma pair_case: "(case (xs, ys) of ([x], [y]) \<Rightarrow> f x y | _ \<Rightarrow> z) = (if length xs = 1 \<and> length ys = 1 then f (hd xs) (hd ys) else z)"
  by (auto split: list.splits)

text \<open>A candidate keeps its row until its own turn.\<close>

lemma attach_last_rows:
  assumes ok: "clean_inv s" and c: "\<forall>l \<in> set cs. lf_participant l = p \<longrightarrow> l \<in> set (hf_laps s)"
  shows "clean_inv (attach_last cs ls p s)"
    and "l \<in> set (hf_laps s) \<Longrightarrow> lf_participant l \<noteq> p \<Longrightarrow> l \<in> set (hf_laps (attach_last cs ls p s))"
proof -
  consider (same) "attach_last cs ls p s = s"
    | (attached) lap g where "filter (\<lambda>l. lf_participant l = p) cs = [lap]"
      "hf_laps (attach_last cs ls p s) = update_where (\<lambda>l. lf_id l = lf_id lap \<and> lf_duration_ms l = None \<and> lf_duration_cell l = None) g (hf_laps s)"
      "hf_stops (attach_last cs ls p s) = hf_stops s"
      "\<And>l. lf_id (g l) = lf_id l \<and> lf_participant (g l) = lf_participant l \<and> lf_number (g l) = lf_number l \<and>
        lf_completed_at_us (g l) = lf_completed_at_us l \<and> (lf_is_clean (g l) \<longrightarrow> lf_is_clean lap)"
  proof (cases "\<exists>lap lc d. filter (\<lambda>l. lf_participant l = p) cs = [lap] \<and> filter (\<lambda>c. oc_participant c = Some p) ls = [lc] \<and>
      duration_us_to_ms (opt_json JStr (oc_value_text lc)) = Some d")
    case True
    then obtain lap lc d where *: "filter (\<lambda>l. lf_participant l = p) cs = [lap]"
      "filter (\<lambda>c. oc_participant c = Some p) ls = [lc]" "duration_us_to_ms (opt_json JStr (oc_value_text lc)) = Some d" by blast
    show thesis
      by (rule that(2) [OF *(1)], simp add: attach_last_def Let_def *, simp add: attach_last_def Let_def *, simp)
  next
    case False
    have "duration_us_to_ms (opt_json JStr (oc_value_text (hd B))) = None"
      if "length A = 1" "length B = 1" "A = filter (\<lambda>l. lf_participant l = p) cs" "B = filter (\<lambda>c. oc_participant c = Some p) ls" for A B
    proof -
      obtain a b where "A = [a]" "B = [b]" using \<open>length A = 1\<close> \<open>length B = 1\<close> by (metis One_nat_def length_0_conv length_Suc_conv)
      then show ?thesis using False that(3,4) by (cases "duration_us_to_ms (opt_json JStr (oc_value_text b))") auto
    qed
    from this [OF _ _ refl refl] have "attach_last cs ls p s = s" unfolding attach_last_def pair_case by simp
    then show thesis by (rule that(1))
  qed
  note cases = this
  have ids: "distinct (map lf_id (hf_laps s))" using ok by (simp add: clean_inv_def)
  show "clean_inv (attach_last cs ls p s)"
    using cases
  proof cases
    case attached
    have "lap \<in> set (filter (\<lambda>l. lf_participant l = p) cs)" using attached(1) by simp
    then have lap: "lap \<in> set (hf_laps s)" using c by simp
    have "same_lap (g l) l" if "l \<in> set (hf_laps s)" "lf_id l = lf_id lap" for l
    proof -
      have "l = lap" using ids that lap by (auto simp: distinct_map dest: inj_onD)
      then show ?thesis using attached(4) by (simp add: same_lap_def)
    qed
    then have "withdraws (attach_last cs ls p s) s" using attached(2) by (intro withdraws_update) auto
    then show ?thesis using attached(3) ok clean_inv_withdraws by blast
  qed (simp add: ok)
  show "l \<in> set (hf_laps (attach_last cs ls p s))" if l: "l \<in> set (hf_laps s)" "lf_participant l \<noteq> p"
    using cases
  proof cases
    case attached
    have "lap \<in> set (filter (\<lambda>l. lf_participant l = p) cs)" using attached(1) by simp
    then have lap: "lap \<in> set (hf_laps s)" "lf_participant lap = p" using c by simp_all
    then have "lf_id l \<noteq> lf_id lap" using ids l by (auto simp: distinct_map dest: inj_onD)
    then show ?thesis using l(1) unfolding attached(2) set_update_where by auto
  qed (simp add: l)
qed

lemma sources_clean:
  assumes "clean_inv s" shows "clean_inv (reconcile_tracker_lap_sources f s)"
proof -
  have "clean_inv (fold (attach_last cs ls) ps s)"
    if "clean_inv s" "distinct ps" "\<forall>l \<in> set cs. lf_participant l \<in> set ps \<longrightarrow> l \<in> set (hf_laps s)" for cs ls ps s
    using that
  proof (induction ps arbitrary: s)
    case (Cons p ps)
    have "\<forall>l \<in> set cs. lf_participant l = p \<longrightarrow> l \<in> set (hf_laps s)" using Cons.prems(3) by simp
    note a = attach_last_rows [OF Cons.prems(1) this]
    have "\<forall>l \<in> set cs. lf_participant l \<in> set ps \<longrightarrow> l \<in> set (hf_laps (attach_last cs ls p s))"
      using a(2) Cons.prems(2,3) by fastforce
    then show ?case using Cons.IH [OF a(1)] Cons.prems(2) by simp
  qed simp
  then show ?thesis using assms by (simp add: reconcile_tracker_lap_sources_def Let_def)
qed

section \<open>Pit transitions\<close>

lemma invalidate_withdraws: "withdraws (invalidate_clean_laps_for_pit p s) s"
  by (rule withdraws_update [where Q = "\<lambda>l. lf_id l \<in> set (map (lf_id \<circ> fst) (filter (\<lambda>(l, started). pit_overlaps s p l started) (lap_intervals p s)))"
        and g = "\<lambda>l. l\<lparr> lf_is_clean := False, lf_crosses_pit := True \<rparr>"])
    (simp_all add: invalidate_clean_laps_for_pit_def Let_def same_lap_def)

text \<open>Whatever the marks were, the laps of the car are clear afterwards.\<close>

lemma invalidate_clears:
  assumes "in_number_order p s" shows "clear_of_stops p (invalidate_clean_laps_for_pit p s)"
  unfolding clear_of_stops_def
proof safe
  let ?s = "invalidate_clean_laps_for_pit p s"
  fix m started
  assume m: "(m, started) \<in> set (spans_of (completed_laps_of p ?s))" "lf_is_clean m" "pit_overlaps ?s p m started"
  obtain l where l: "(l, started) \<in> set (spans_of (completed_laps_of p s))" "same_lap m l"
    using spans_withdrawn [OF withdraws_completed [OF invalidate_withdraws] m(1)] by blast
  have "pit_overlaps s p l started"
    using m(3) l(2) by (simp add: pit_overlaps_cong [of p ?s s] pit_overlaps_def same_lap_def split: option.splits)
  then have "lf_id l \<in> set (map (lf_id \<circ> fst) (filter (\<lambda>(l, started). pit_overlaps s p l started) (lap_intervals p s)))"
    using l(1) lap_intervals_spans [OF assms] by force
  then obtain X where X: "hf_laps ?s = update_where (\<lambda>l. lf_id l \<in> X) (\<lambda>l. l\<lparr> lf_is_clean := False, lf_crosses_pit := True \<rparr>) (hf_laps s)"
      "lf_id l \<in> X"
    by (auto simp: invalidate_clean_laps_for_pit_def Let_def)
  have "m \<in> set (hf_laps ?s)"
    using m(1) by (auto simp: spans_of_def completed_laps_of_def dest: set_zip_leftD)
  then obtain y where y: "m = (if lf_id y \<in> X then y\<lparr> lf_is_clean := False, lf_crosses_pit := True \<rparr> else y)"
    unfolding X(1) set_update_where by blast
  then have "lf_id y = lf_id m" by simp
  then have "lf_id y \<in> X" using l(2) X(2) by (simp add: same_lap_def)
  then show False using y m(2) by simp
qed

text \<open>What a transition does to laps and stops: nothing, or one car's stops change and its laps are checked again.\<close>

lemma reconcile_shape:
  obtains (same) s2 where "reconcile_pit_and_tire_stint e t s = s2" "hf_laps s2 = hf_laps s" "hf_stops s2 = hf_stops s"
  | (changed) s2 where "reconcile_pit_and_tire_stint e t s = invalidate_clean_laps_for_pit (pe_participant e) s2"
      "hf_laps s2 = hf_laps s" "\<And>q. q \<noteq> pe_participant e \<Longrightarrow> stops_of q s2 = stops_of q s"
proof -
  let ?c = "pe_participant e"
  let ?lap = "effective_lap_number s ?c (pe_lap_number e)"
  have n: "enter_pit e t n s = (s1, b) \<Longrightarrow> hf_laps s1 = hf_laps s \<and> (\<not> b \<longrightarrow> hf_stops s1 = hf_stops s) \<and>
      (\<forall>q. q \<noteq> ?c \<longrightarrow> stops_of q s1 = stops_of q s)" for n s s1 b
    by (auto simp: enter_pit_def Let_def stops_of_def split: if_splits)
  have x: "hf_laps s1 = hf_laps s \<and> (\<not> b \<longrightarrow> hf_stops s1 = hf_stops s) \<and> (\<forall>q. q \<noteq> pk_participant op \<longrightarrow> stops_of q s1 = stops_of q s)"
    if c: "close_stop e t n op s = (s1, b)" for n op s s1 b
  proof -
    let ?Q = "\<lambda>p. pk_participant p = pk_participant op \<and> pk_number p = pk_number op \<and> \<not> pk_completed p"
    obtain g where g: "s1 = s\<lparr> hf_stops := update_where ?Q g (hf_stops s) \<rparr>" "b = list_ex ?Q (hf_stops s)"
      "\<And>r. pk_participant (g r) = pk_participant r"
      using c by (auto simp: close_stop_def Let_def)
    have "stops_of q s1 = stops_of q s" if "q \<noteq> pk_participant op" for q
      using that by (simp add: g(1) stops_of_def) (rule filter_update_other, simp add: g(3))
    moreover have "update_where ?Q g (hf_stops s) = hf_stops s" if "\<not> b"
      using that by (auto simp: g(2) update_where_def list_ex_iff intro!: map_idI)
    ultimately show ?thesis by (simp add: g(1))
  qed
  obtain s1 ins where e1: "(if pit_state_entered e then enter_pit e t ?lap s else (s, False)) = (s1, ins)" by fastforce
  have s1: "hf_laps s1 = hf_laps s" "\<not> ins \<Longrightarrow> hf_stops s1 = hf_stops s" "\<And>q. q \<noteq> ?c \<Longrightarrow> stops_of q s1 = stops_of q s"
    using e1 n [of ?lap s s1 ins] by (auto split: if_splits)
  define opened1 where "opened1 = (if ins then find (\<lambda>p. pk_participant p = ?c \<and> pk_number p =
      entry_stop_number s ?c (pe_count_event e) (Option.bind (pe_previous e) cu_pit_count)) (hf_stops s1) else opened_stop ?c s)"
  have op: "pk_participant op = ?c" if "opened1 = Some op" for op
    using that by (auto simp: opened1_def opened_stop_def stops_of_def find_Some_iff dest!: top_by_in split: if_splits)
  define exits where "exits \<longleftrightarrow> (case pe_state_event e of Some st \<Rightarrow> st_kind st \<in> {''ON_TRACK'', ''OUT_LAP''} | None \<Rightarrow> False)
    \<and> (map_option cu_state_kind (pe_previous e) = Some ''IN_PIT'' \<or> opened_stop ?c s \<noteq> None)"
  obtain s2 cl where s2: "(case opened1 of
      Some p \<Rightarrow> if exits then (case close_stop e t ?lap p s1 of (s', c) \<Rightarrow> (complete_tire_stint (pe_context e) ?c ?lap s', c))
        else (ensure_tire_stint (pe_context e) ?c ?lap s1, False)
    | None \<Rightarrow> (ensure_tire_stint (pe_context e) ?c ?lap s1, False)) = (s2, cl)" by fastforce
  have r: "reconcile_pit_and_tire_stint e t s = (if ins \<or> cl then invalidate_clean_laps_for_pit ?c s2 else s2)"
    unfolding reconcile_pit_and_tire_stint_def Let_def e1 prod.case opened1_def [symmetric] exits_def [symmetric] s2 by (rule refl)
  have 2: "hf_laps s2 = hf_laps s1 \<and> (\<not> cl \<longrightarrow> hf_stops s2 = hf_stops s1) \<and> (\<forall>q. q \<noteq> ?c \<longrightarrow> stops_of q s2 = stops_of q s1)"
  proof (cases opened1)
    case (Some p)
    obtain s' c where x': "close_stop e t ?lap p s1 = (s', c)" by fastforce
    have so: "stops_of q (complete_tire_stint (pe_context e) ?c ?lap s') = stops_of q s'"
        "stops_of q (ensure_tire_stint (pe_context e) ?c ?lap s1) = stops_of q s1" for q by (simp_all add: stops_of_def)
    show ?thesis using s2 x [OF x'] op [OF Some] so by (auto simp: Some x' split: if_splits)
  next
    case None
    then have "s2 = ensure_tire_stint (pe_context e) ?c ?lap s1" using s2 by simp
    then show ?thesis by (simp add: stops_of_def)
  qed
  show thesis
  proof (cases "ins \<or> cl")
    case True
    then show thesis using that(2) [of s2] r 2 s1 by simp
  next
    case False
    then show thesis using that(1) [of s2] r 2 s1 by simp
  qed
qed

lemma reconcile_clean:
  assumes "clean_inv s" shows "clean_inv (reconcile_pit_and_tire_stint e t s)"
proof (cases rule: reconcile_shape [of e t s])
  case (same s2)
  then show ?thesis using clean_inv_laps [OF _ _ assms] by metis
next
  case (changed s2)
  let ?c = "pe_participant e"
  let ?s = "invalidate_clean_laps_for_pit ?c s2"
  have w: "withdraws ?s s" by (rule withdraws_trans [OF invalidate_withdraws withdraws_same]) (rule changed(2))
  have "clear_of_stops q ?s" if o1: "in_number_order q ?s" for q
  proof (cases "q = ?c")
    case True
    have "in_number_order ?c s2" using o1 True withdraws_numbers [OF invalidate_withdraws] by blast
    then show ?thesis using invalidate_clears True by simp
  next
    case False
    have "in_number_order q s" using o1 withdraws_numbers [OF w] by blast
    then have "clear_of_stops q s" using assms by (simp add: clean_inv_def)
    then show ?thesis using withdraws_clear [OF w] changed(3) [OF False] by simp
  qed
  then show ?thesis using assms withdraws_ids [OF w] changed(1) by (simp add: clean_inv_def)
qed

lemma frame_clean:
  assumes ok: "clean_inv s" shows "clean_inv (frame_step render fromiso s f)"
proof -
  obtain err s1 where a: "apply_facts render fromiso (snd f) (s\<lparr> hf_pending := [] \<rparr>) = (err, s1)" by fastforce
  have "clean_inv (s\<lparr> hf_pending := [] \<rparr>)" using ok by (rule clean_inv_laps [rotated 2]) simp_all
  then have s1: "clean_inv s1" using a by (rule apply_facts_clean)
  let ?s2 = "reconcile_tracker_lap_sources (fst f) (reconcile_frame_tracker_lap_states (fst f) s1)"
  have "clean_inv (fold (\<lambda>(e, t). reconcile_pit_and_tire_stint e t) es s2)" if "clean_inv s2" for es s2
    using that by (induction es arbitrary: s2) (auto simp: reconcile_clean)
  then have "clean_inv (reconcile_frame_pit_events ?s2)"
    using s1 by (simp add: reconcile_frame_pit_events_def Let_def sources_clean lap_states_clean)
  then have "clean_inv ((reconcile_frame_pit_events ?s2)\<lparr> hf_pending := [] \<rparr>)" by (rule clean_inv_laps [rotated 2]) simp_all
  moreover have "clean_inv (s\<lparr> hf_clocks := x, hf_heat_flag := y, hf_pending := [] \<rparr>)" for x y
    using ok by (rule clean_inv_laps [rotated 2]) simp_all
  ultimately show ?thesis using a by (cases err) (simp_all add: frame_step_def process_frame_facts_def)
qed

lemma fresh_clean: "fresh_heat s \<Longrightarrow> clean_inv s"
  by (simp add: fresh_heat_def clean_inv_def clear_of_stops_def completed_laps_of_def spans_of_def)

interpretation clean: invariant_machine "frame_step render fromiso" fresh_heat clean_inv for render fromiso
  by unfold_locales (auto intro: fresh_clean frame_clean)

section \<open>Property\<close>

text \<open>C10. safety. In every heat, after any frames, as long as the laps of a car were completed in the order
  of their numbers, a lap marked clean does not meet any completed pit stop of that car: the stop is entered
  when the lap is over or left before it starts, however late the stop is learnt.\<close>
theorem clean_laps_avoid_stops:
  fixes frames :: "(int \<times> fact_event list) list"
  assumes "fresh_heat s" and "s' = foldl (frame_step render fromiso) s frames" and "in_number_order p s'"
    and "(l, Some started) \<in> set (lap_intervals p s')" and "lf_is_clean l" and "lf_completed_at_us l = Some completed"
    and "stop \<in> set (stops_of p s')" and "pk_completed stop"
  shows "completed \<le> pk_entered_at_us stop \<or> (\<exists>exited. pk_exited_at_us stop = Some exited \<and> exited \<le> started)"
proof -
  have "clean_inv s'" unfolding assms(2) by (rule clean.reachable_inv [OF assms(1)])
  then have "clear_of_stops p s'" using assms(3) by (simp add: clean_inv_def)
  then have "\<not> pit_overlaps s' p l (Some started)"
    using assms(4,5) lap_intervals_spans [OF assms(3)] by (auto simp: clear_of_stops_def)
  then have "\<not> meets started completed (pk_entered_at_us stop) (pk_exited_at_us stop)"
    using assms(6-8) by (auto simp: pit_overlaps_def)
  then show ?thesis by (auto simp: meets_def split: option.splits)
qed

definition lap_passed :: "int \<Rightarrow> int \<Rightarrow> int \<Rightarrow> fact_event" where
  "lap_passed i t n = Passages [\<lparr> lg_context = (pit_context i t)\<lparr> mx_ordinal := 1 \<rparr>, lg_participant = ''7'',
     lg_fingerprint = int_text i, lg_passing = i, lg_provider_us = None, lg_lap_number = n \<rparr>]"

definition lap_frame :: "int \<Rightarrow> int \<Rightarrow> int \<Rightarrow> int \<times> fact_event list" where
  "lap_frame i t n = (i, [lap_passed i t n])"

definition green_frame :: "int \<Rightarrow> int \<Rightarrow> int \<times> fact_event list" where
  "green_frame i t = (i, [HeatUpdate ((pit_context i t)\<lparr> mx_handle := ''h_i'' \<rparr>) (Some (JInt 6))])"

definition clean_race :: "(int \<times> fact_event list) list" where
  "clean_race = [green_frame 1 50, state_frame 2 60 ''E1'', lap_frame 3 100 1, lap_frame 4 200 2,
     state_frame 5 250 ''SIn Pit'', state_frame 6 300 ''SOut Lap'', lap_frame 7 400 3]"

text \<open>The second lap is clean and over before the stop; the third one contains its exit and is not clean.\<close>

lemma clean_laps_avoid_stops_witness:
  "\<exists>(l :: lap_fact) (stop :: stop_fact). lf_number l = 2 \<and> lf_is_clean l \<and> pk_exited_at_us stop = Some 300 \<and> 200 \<le> pk_entered_at_us stop"
proof -
  let ?s = "run_demo clean_race"
  have e: "map (\<lambda>(l, st). (lf_number l, lf_completed_at_us l, st, lf_is_clean l)) (lap_intervals ''7'' ?s) =
      [(1, Some 100, None, False), (2, Some 200, Some 100, True), (3, Some 400, Some 200, False)] \<and>
      map (\<lambda>p. (pk_completed p, pk_exited_at_us p)) (stops_of ''7'' ?s) = [(True, Some 300)] \<and> in_number_order ''7'' ?s"
    by code_simp
  then have "(2, Some 200, Some 100, True) \<in> set (map (\<lambda>(l, st). (lf_number l, lf_completed_at_us l, st, lf_is_clean l)) (lap_intervals ''7'' ?s))"
      "(True, Some 300) \<in> set (map (\<lambda>p. (pk_completed p, pk_exited_at_us p)) (stops_of ''7'' ?s))" by simp_all
  then obtain l stop where h: "(l, Some 100) \<in> set (lap_intervals ''7'' ?s)" "lf_number l = 2" "lf_completed_at_us l = Some 200"
      "lf_is_clean l" "stop \<in> set (stops_of ''7'' ?s)" "pk_completed stop" "pk_exited_at_us stop = Some 300" by auto
  have "200 \<le> pk_entered_at_us stop \<or> (\<exists>x. pk_exited_at_us stop = Some x \<and> x \<le> 100)"
    by (rule clean_laps_avoid_stops [OF empty_heat_fresh _ _ h(1,4,3,5,6), where render = "\<lambda>_. []" and fromiso = "\<lambda>_. None" and frames = clean_race])
      (use e in \<open>simp_all add: run_demo_def\<close>)
  then have "200 \<le> pk_entered_at_us stop" using h(7) by simp
  then show ?thesis using h(2,4,7) by blast
qed

end
