(* ===== verification/Frame_Order.thy ===== *)
theory Frame_Order
  imports Tyre_Ledger
begin

text \<open>
  The order of the messages of one frame. A finish-line passing and a result row can come in either order;
  the pit transitions are applied after both, so the ledger of stops and stints is the same. The marks of the
  completed lap are not: they are corrected for IN_PIT and OUT_LAP only.
\<close>

section \<open>What the ledger depends on\<close>

definition lap_identity :: "lap_fact \<Rightarrow> lap_name \<times> string \<times> int" where
  "lap_identity l = (lf_id l, lf_participant l, lf_number l)"

definition lap_keys :: "heat_facts \<Rightarrow> (lap_name \<times> string \<times> int) set" where
  "lap_keys s = lap_identity ` set (hf_laps s)"

definition agree :: "heat_facts \<Rightarrow> heat_facts \<Rightarrow> bool" where
  "agree s t \<longleftrightarrow> hf_clocks s = hf_clocks t \<and> hf_pending s = hf_pending t \<and> hf_stops s = hf_stops t \<and>
     hf_stints s = hf_stints t \<and> lap_keys s = lap_keys t"

lemma numbers_of_keys:
  "set (map lf_number (filter (\<lambda>l. lf_participant l = p) (hf_laps s))) = {n. \<exists>i. (i, p, n) \<in> lap_keys s}"
  by (auto simp: lap_keys_def lap_identity_def image_iff)

lemma max_or_zero_set: "set xs = set ys \<Longrightarrow> max_or_zero xs = max_or_zero ys"
  by (auto simp: max_or_zero_def)

lemma effective_agree:
  assumes "lap_keys s = lap_keys t" shows "effective_lap_number s p n = effective_lap_number t p n"
proof -
  have "max_or_zero (map lf_number (filter (\<lambda>l. lf_participant l = p) (hf_laps s))) =
      max_or_zero (map lf_number (filter (\<lambda>l. lf_participant l = p) (hf_laps t)))"
    by (rule max_or_zero_set) (simp only: numbers_of_keys assms)
  then show ?thesis by (simp add: effective_lap_number_def split: option.split)
qed

lemma agree_views:
  assumes "agree s t"
  shows "stops_of p s = stops_of p t" "stints_of p s = stints_of p t" "active_stint p s = active_stint p t"
    "opened_stop p s = opened_stop p t" "effective_lap_number s p n = effective_lap_number t p n"
    "calibrated_result_event_at_us s ctx ts = calibrated_result_event_at_us t ctx ts"
    "entry_stop_number s p a b = entry_stop_number t p a b"
  using assms effective_agree [of s t p n]
  by (simp_all add: agree_def stops_of_def stints_of_def active_stint_def opened_stop_def clock_for_def
      calibrated_result_event_at_us_def entry_stop_number_def)

lemma agree_stints: "agree s t \<Longrightarrow> agree (s\<lparr> hf_stints := f (hf_stints s) \<rparr>) (t\<lparr> hf_stints := f (hf_stints t) \<rparr>)"
  by (simp add: agree_def lap_keys_def)

lemma agree_stops: "agree s t \<Longrightarrow> agree (s\<lparr> hf_stops := f (hf_stops s) \<rparr>) (t\<lparr> hf_stops := f (hf_stops t) \<rparr>)"
  by (simp add: agree_def lap_keys_def)

lemma agree_update_stint: "agree s t \<Longrightarrow> agree (update_stint u g s) (update_stint u g t)"
  unfolding update_stint_def by (rule agree_stints)

lemma agree_ensure:
  assumes "agree s t" shows "agree (ensure_tire_stint ctx p n s) (ensure_tire_stint ctx p n t)"
proof -
  note v = agree_views [OF assms]
  show ?thesis
    unfolding ensure_tire_stint_def Let_def v(2,3) v(5)
    by (auto split: option.splits intro: agree_update_stint [OF assms] assms
        agree_stints [OF assms, where f = "\<lambda>ts. ts @ [x]" for x])
qed

lemma agree_insert_stint: "agree s t \<Longrightarrow> agree (insert_stint u s) (insert_stint u t)"
  using agree_stints [of s t "\<lambda>ts. ts @ [u]"] by (auto simp: insert_stint_def agree_def)

lemma agree_complete:
  assumes "agree s t" shows "agree (complete_tire_stint ctx p n s) (complete_tire_stint ctx p n t)"
  unfolding complete_tire_stint_def Let_def agree_views [OF assms]
  by (auto split: option.splits intro: agree_insert_stint agree_update_stint assms)

lemma lap_keys_marks:
  "(\<And>l. lap_identity (g l) = lap_identity l) \<Longrightarrow> lap_keys (s\<lparr> hf_laps := update_where Q g (hf_laps s) \<rparr>) = lap_keys s"
  unfolding lap_keys_def set_map [symmetric] by simp

lemma agree_invalidate: "agree s t \<Longrightarrow> agree (invalidate_clean_laps_for_pit p s) (invalidate_clean_laps_for_pit q t)"
proof -
  have "lap_keys (invalidate_clean_laps_for_pit p s) = lap_keys s" for p s
    unfolding invalidate_clean_laps_for_pit_def Let_def by (rule lap_keys_marks) (simp add: lap_identity_def)
  then show "agree s t \<Longrightarrow> ?thesis" by (simp add: agree_def) (simp add: invalidate_clean_laps_for_pit_def Let_def)
qed

lemma agree_times:
  assumes "agree s t"
  shows "pit_entry_time_source s c ctx = pit_entry_time_source t c ctx" "pit_entered_at_us s raw ctx = pit_entered_at_us t raw ctx"
  unfolding pit_entry_time_source_def pit_entered_at_us_def agree_views(6) [OF assms] by (rule refl)+

lemma agree_enter:
  assumes "agree s t"
  shows "agree (fst (enter_pit e x n s)) (fst (enter_pit e x n t)) \<and> snd (enter_pit e x n s) = snd (enter_pit e x n t)"
proof -
  have "hf_stops s = hf_stops t" using assms by (simp add: agree_def)
  then show ?thesis unfolding enter_pit_def Let_def agree_views [OF assms] agree_times [OF assms]
    using assms by (auto simp: agree_def lap_keys_def)
qed

lemma agree_close:
  assumes "agree s t"
  shows "agree (fst (close_stop e x n op s)) (fst (close_stop e x n op t)) \<and> snd (close_stop e x n op s) = snd (close_stop e x n op t)"
  using assms unfolding close_stop_def Let_def by (simp add: agree_def lap_keys_def)

lemma agree_reconcile:
  assumes "agree s t" shows "agree (reconcile_pit_and_tire_stint e x s) (reconcile_pit_and_tire_stint e x t)"
proof -
  note v = agree_views [OF assms]
  let ?c = "pe_participant e"
  let ?lap = "effective_lap_number t ?c (pe_lap_number e)"
  let ?enter = "\<lambda>u. if pit_state_entered e then enter_pit e x ?lap u else (u, False)"
  obtain s1 t1 ins where e1: "?enter s = (s1, ins)" "?enter t = (t1, ins)" and 1: "agree s1 t1"
    using agree_enter [OF assms, of e x ?lap] assms by (cases "?enter s"; cases "?enter t") (auto split: if_splits)
  have find1: "find P (hf_stops s1) = find P (hf_stops t1)" for P using 1 by (simp add: agree_def)
  define op where "op = (if ins then find (\<lambda>p. pk_participant p = ?c \<and> pk_number p =
      entry_stop_number t ?c (pe_count_event e) (Option.bind (pe_previous e) cu_pit_count)) (hf_stops t1) else opened_stop ?c t)"
  define exits where "exits \<longleftrightarrow> (case pe_state_event e of Some st \<Rightarrow> st_kind st \<in> {''ON_TRACK'', ''OUT_LAP''} | None \<Rightarrow> False)
    \<and> (map_option cu_state_kind (pe_previous e) = Some ''IN_PIT'' \<or> opened_stop ?c t \<noteq> None)"
  define rest where "rest u = (case op of
      Some p \<Rightarrow> if exits then (case close_stop e x ?lap p u of (s', c) \<Rightarrow> (complete_tire_stint (pe_context e) ?c ?lap s', c))
        else (ensure_tire_stint (pe_context e) ?c ?lap u, False)
    | None \<Rightarrow> (ensure_tire_stint (pe_context e) ?c ?lap u, False))" for u
  have "agree (fst (rest s1)) (fst (rest t1)) \<and> snd (rest s1) = snd (rest t1)"
    using agree_close [OF 1, of e x ?lap] agree_ensure [OF 1]
    by (simp add: rest_def case_prod_beta agree_complete split: option.split)
  then obtain s2 t2 cl where 2: "rest s1 = (s2, cl)" "rest t1 = (t2, cl)" "agree s2 t2"
    by (cases "rest s1"; cases "rest t1") auto
  have "reconcile_pit_and_tire_stint e x s = (if ins \<or> cl then invalidate_clean_laps_for_pit ?c s2 else s2)"
    unfolding reconcile_pit_and_tire_stint_def Let_def v e1 prod.case find1 op_def [symmetric] exits_def [symmetric]
      rest_def [symmetric] 2 by (rule refl)
  moreover have "reconcile_pit_and_tire_stint e x t = (if ins \<or> cl then invalidate_clean_laps_for_pit ?c t2 else t2)"
    unfolding reconcile_pit_and_tire_stint_def Let_def e1 prod.case op_def [symmetric] exits_def [symmetric]
      rest_def [symmetric] 2 by (rule refl)
  ultimately show ?thesis using 2(3) agree_invalidate by simp
qed

lemma agree_frame_pits:
  assumes "agree s t" shows "agree (reconcile_frame_pit_events s) (reconcile_frame_pit_events t)"
proof -
  have "agree (fold (\<lambda>(e, x). reconcile_pit_and_tire_stint e x) es u) (fold (\<lambda>(e, x). reconcile_pit_and_tire_stint e x) es w)"
    if "agree u w" for es u w
    using that by (induction es arbitrary: u w) (auto simp: agree_reconcile)
  moreover have "pit_time_for s es e = pit_time_for t es e" for es e
    unfolding pit_time_for_def agree_times [OF assms] by (rule refl)
  moreover have "hf_pending s = hf_pending t" using assms by (simp add: agree_def)
  ultimately show ?thesis using assms by (simp add: reconcile_frame_pit_events_def Let_def)
qed


section \<open>A passing before or after a row\<close>

text \<open>
  \<open>ahead g k s t\<close>: \<open>t\<close> is \<open>s\<close> with the lap of the passing \<open>g\<close> and one lap more on the open stint \<open>k\<close> of its car.
\<close>

definition counted :: "stint_fact \<Rightarrow> stint_fact" where
  "counted r = r\<lparr> ty_completed_laps := ty_completed_laps r + 1 \<rparr>"

definition on_stint :: "string \<Rightarrow> int \<Rightarrow> stint_fact \<Rightarrow> bool" where
  "on_stint p k r \<longleftrightarrow> ty_participant r = p \<and> ty_number r = k"

definition ahead :: "lap_passage \<Rightarrow> int \<Rightarrow> heat_facts \<Rightarrow> heat_facts \<Rightarrow> bool" where
  "ahead g k s t \<longleftrightarrow> hf_clocks t = hf_clocks s \<and> hf_pending t = hf_pending s \<and> hf_stops t = hf_stops s \<and>
     hf_cells t = hf_cells s \<and> hf_cars t = hf_cars s \<and>
     hf_stints t = update_where (on_stint (lg_participant g) k) counted (hf_stints s) \<and>
     lap_keys t = insert (TrackerLap (lg_participant g) (lg_fingerprint g), lg_participant g, lg_lap_number g) (lap_keys s)"

text \<open>
  Before the passing: the car is known without LAPS, its stint \<open>k\<close> is open, the passing is new and its
  number is the next one.
\<close>

definition before_passing :: "lap_passage \<Rightarrow> int \<Rightarrow> heat_facts \<Rightarrow> bool" where
  "before_passing g k s \<longleftrightarrow> (let p = lg_participant g in
     (\<exists>car. find_car p s = Some car \<and> cu_laps car = None) \<and>
     (\<exists>t. active_stint p s = Some t \<and> ty_number t = k \<and> 0 \<le> ty_completed_laps t \<and>
        (\<forall>n. ty_started_lap t = Some n \<longrightarrow> 0 \<le> n)) \<and>
     distinct (map ty_number (stints_of p s)) \<and>
     (\<forall>l \<in> set (hf_laps s). lf_id l \<noteq> TrackerLap p (lg_fingerprint g)) \<and>
     lg_lap_number g = max_or_zero (map lf_number (filter (\<lambda>l. lf_participant l = p) (hf_laps s))) + 1)"

lemma ahead_agree: "ahead g k s t \<Longrightarrow> ahead g k s u \<Longrightarrow> agree t u"
  by (simp add: ahead_def agree_def)

lemma lap_keys_insert: "lap_keys (s\<lparr> hf_laps := hf_laps s @ [l] \<rparr>) = insert (lap_identity l) (lap_keys s)"
  by (simp add: lap_keys_def)

lemma passing_is_ahead:
  assumes "before_passing g k s" shows "ahead g k s (record_passage g s)"
proof -
  let ?p = "lg_participant g"
  obtain car t where car: "find_car ?p s = Some car" "cu_laps car = None"
    and t: "active_stint ?p s = Some t" "ty_number t = k"
    and new: "\<forall>l \<in> set (hf_laps s). lf_id l \<noteq> TrackerLap ?p (lg_fingerprint g)"
    and n: "lg_lap_number g = max_or_zero (map lf_number (filter (\<lambda>l. lf_participant l = ?p) (hf_laps s))) + 1"
    using assms by (auto simp: before_passing_def Let_def)
  have tp: "ty_participant t = ?p" using top_by_in [OF t(1) [unfolded active_stint_def]] by simp
  define s0 where "s0 = s\<lparr> hf_passings := AList.update (lg_passing g) (mx_frame (lg_context g)) (hf_passings s) \<rparr>"
  let ?at = "to_utc_us (opt_json JInt (lg_provider_us g)) (clock_for (mx_connection (lg_context g)) s)"
  let ?l = "tracker_lap (lg_context g) ?p (lg_fingerprint g) ?at (Some (lg_passing g)) (lg_lap_number g) (cu_state_kind car) s0"
  have key: "lap_identity ?l = (TrackerLap ?p (lg_fingerprint g), ?p, lg_lap_number g)"
    by (simp add: tracker_lap_def Let_def lap_identity_def)
  have "lf_number l \<noteq> lg_lap_number g" if "l \<in> set (hf_laps s)" "lf_participant l = ?p" for l
    using that n max_or_zero_ge [of "lf_number l" "map lf_number (filter (\<lambda>l. lf_participant l = ?p) (hf_laps s))"] by force
  then have "insert_lap ?l s0 = (s0\<lparr> hf_laps := hf_laps s @ [?l] \<rparr>, True)"
    using new key by (auto simp: insert_lap_def s0_def lap_identity_def)
  moreover have "active_stint ?p (s0\<lparr> hf_laps := hf_laps s @ [?l] \<rparr>) = Some t" "find_car ?p s0 = Some car"
    using t car by (simp_all add: s0_def active_stint_def find_car_def)
  ultimately have "record_passage g s = update_stint t counted (s0\<lparr> hf_laps := hf_laps s @ [?l] \<rparr>)"
    using car(2) by (simp add: record_passage_def complete_lap_from_tracker_def s0_def [symmetric] counted_def [abs_def])
  then show ?thesis using key t(2) tp
    by (simp add: ahead_def update_stint_def s0_def on_stint_def [abs_def] lap_keys_def)
qed


lemma sort_key_map: "sort_key f (map h xs) = map h (sort_key (f \<circ> h) xs)"
proof (induction xs)
  case (Cons x xs)
  have "insort_key f (h x) (map h ys) = map h (insort_key (f \<circ> h) x ys)" for ys by (induction ys) auto
  then show ?case using Cons by (simp add: comp_def)
qed simp

lemma top_by_map: "(\<And>x. f (h x) = f x) \<Longrightarrow> top_by f (map h xs) = map_option h (top_by f xs)"
  by (simp add: top_by_def sort_key_map comp_def split: list.split)

lemma counted_simps [simp]:
  "ty_participant (counted r) = ty_participant r" "ty_number (counted r) = ty_number r"
  "ty_ended_at_us (counted r) = ty_ended_at_us r" "ty_started_lap (counted r) = ty_started_lap r"
  "ty_completed_laps (counted r) = ty_completed_laps r + 1"
  by (simp_all add: counted_def)

lemma ahead_other:
  assumes a: "ahead g k s t" and q: "q \<noteq> lg_participant g"
  shows "active_stint q t = active_stint q s" "stints_of q t = stints_of q s" "effective_lap_number t q n = effective_lap_number s q n"
proof -
  have st: "hf_stints t = update_where (on_stint (lg_participant g) k) counted (hf_stints s)" using a by (simp add: ahead_def)
  show "active_stint q t = active_stint q s" unfolding active_stint_def st
    by (subst filter_update_other) (use q in \<open>auto simp: on_stint_def\<close>)
  show "stints_of q t = stints_of q s" unfolding stints_of_def st
    by (rule filter_update_other) (use q in \<open>auto simp: on_stint_def\<close>)
  have "max_or_zero (map lf_number (filter (\<lambda>l. lf_participant l = q) (hf_laps t))) =
      max_or_zero (map lf_number (filter (\<lambda>l. lf_participant l = q) (hf_laps s)))"
    by (rule max_or_zero_set) (use a q in \<open>simp only: numbers_of_keys ahead_def, auto\<close>)
  then show "effective_lap_number t q n = effective_lap_number s q n" by (simp add: effective_lap_number_def split: option.split)
qed

lemma update_where_comm:
  assumes "\<And>r. r \<in> set xs \<Longrightarrow> P r \<Longrightarrow> Q r \<Longrightarrow> g (f r) = f (g r)"
    and "\<And>r. P (g r) = P r" "\<And>r. Q (f r) = Q r"
  shows "update_where Q g (update_where P f xs) = update_where P f (update_where Q g xs)"
  using assms unfolding update_where_def by auto

lemma ensure_other_ahead:
  assumes a: "ahead g k s t" and q: "q \<noteq> lg_participant g"
  shows "ahead g k (ensure_tire_stint ctx q n s) (ensure_tire_stint ctx q n t)"
proof -
  note o1 = ahead_other [OF a q]
  have st: "hf_stints t = update_where (on_stint (lg_participant g) k) counted (hf_stints s)" using a by (simp add: ahead_def)
  have new: "ahead g k (s\<lparr> hf_stints := hf_stints s @ [x] \<rparr>) (t\<lparr> hf_stints := hf_stints t @ [x] \<rparr>)" if "ty_participant x = q" for x
    using a q that by (simp add: ahead_def lap_keys_def update_where_def on_stint_def)
  have upd: "ahead g k (update_stint u f s) (update_stint u f t)"
    if "ty_participant u = q" "\<And>r. ty_participant (f r) = ty_participant r" "\<And>r. ty_number (f r) = ty_number r" for u f
    using a q that update_where_comm [of "hf_stints s" "on_stint (lg_participant g) k"
        "\<lambda>r. ty_participant r = ty_participant u \<and> ty_number r = ty_number u" f counted]
    by (auto simp: ahead_def lap_keys_def update_stint_def on_stint_def)
  have part: "ty_participant u = q" if "active_stint q s = Some u" for u
    using top_by_in [OF that [unfolded active_stint_def]] by simp
  show ?thesis
    unfolding ensure_tire_stint_def Let_def o1
    by (auto simp: new_stint_def a part split: option.split intro!: new upd)
qed

text \<open>On the car of the passing: the lap counted before or after the row comes to the same.\<close>

definition age :: "int option \<Rightarrow> stint_fact \<Rightarrow> stint_fact" where
  "age lap r = (case (lap, ty_started_lap r) of
     (Some n, Some started) \<Rightarrow> r\<lparr> ty_completed_laps := max (ty_completed_laps r) (max 0 (n - started)) \<rparr> | _ \<Rightarrow> r)"

lemma ensure_open:
  assumes "active_stint p s = Some u" and "distinct (map ty_number (stints_of p s))"
  shows "ensure_tire_stint ctx p None s =
    s\<lparr> hf_stints := update_where (on_stint p (ty_number u)) (age (effective_lap_number s p None)) (hf_stints s) \<rparr>"
proof -
  have u: "u \<in> set (stints_of p s)" "ty_participant u = p"
    using top_by_in [OF assms(1) [unfolded active_stint_def]] by (simp_all add: stints_of_def)
  have one: "r = u" if "r \<in> set (hf_stints s)" "on_stint p (ty_number u) r" for r
    using that assms(2) u(1) by (auto simp: distinct_map on_stint_def stints_of_def dest: inj_onD)
  have id: "update_where (on_stint p (ty_number u)) f (hf_stints s) = hf_stints s" if "f u = u" for f
    unfolding update_where_def by (rule map_idI) (use one that in force)
  have eq: "update_where (on_stint p (ty_number u)) f (hf_stints s) = update_where (on_stint p (ty_number u)) h (hf_stints s)"
    if "f u = h u" for f h
    using one that by (auto simp: update_where_def)
  show ?thesis
  proof (cases "\<exists>n m. effective_lap_number s p None = Some n \<and> ty_started_lap u = Some m")
    case True
    then obtain n m where nm: "effective_lap_number s p None = Some n" "ty_started_lap u = Some m" by blast
    then show ?thesis
      using eq [of "\<lambda>r. r\<lparr> ty_completed_laps := max (ty_completed_laps r) (max 0 (n - m)) \<rparr>" "age (Some n)"]
      by (simp add: ensure_tire_stint_def assms(1) update_stint_def on_stint_def [abs_def] u(2) age_def)
  next
    case False
    then have "age (effective_lap_number s p None) u = u" by (auto simp: age_def split: option.splits)
    then show ?thesis using False id
      by (auto simp: ensure_tire_stint_def assms(1) split: option.splits)
  qed
qed


lemma max_or_zero_insert:
  assumes "set xs = insert m S" "\<And>x. x \<in> S \<Longrightarrow> x < m" shows "max_or_zero xs = m"
proof -
  have "xs \<noteq> []" using assms(1) by auto
  moreover have "Max (set xs) = m"
  proof (rule Max_eqI)
    show "y \<le> m" if "y \<in> set xs" for y using that assms by (auto dest: less_imp_le)
    show "m \<in> set xs" using assms(1) by simp
  qed simp
  ultimately show ?thesis by (simp add: max_or_zero_def)
qed

lemma ensure_own_ahead:
  assumes a: "ahead g k s t" and b: "before_passing g k s"
  shows "ahead g k (ensure_tire_stint ctx (lg_participant g) None s) (ensure_tire_stint ctx (lg_participant g) None t) \<and>
    before_passing g k (ensure_tire_stint ctx (lg_participant g) None s)"
proof -
  let ?p = "lg_participant g"
  let ?M = "max_or_zero (map lf_number (filter (\<lambda>l. lf_participant l = ?p) (hf_laps s)))"
  obtain u where u: "active_stint ?p s = Some u" "ty_number u = k" "0 \<le> ty_completed_laps u"
      "\<And>n. ty_started_lap u = Some n \<Longrightarrow> 0 \<le> n"
    and d: "distinct (map ty_number (stints_of ?p s))" and n: "lg_lap_number g = ?M + 1"
    using b by (auto simp: before_passing_def Let_def)
  have st: "hf_stints t = update_where (on_stint ?p k) counted (hf_stints s)" using a by (simp add: ahead_def)
  have stt: "stints_of ?p t = update_where (on_stint ?p k) counted (stints_of ?p s)"
    unfolding stints_of_def st by (rule filter_update_own) simp
  have act: "active_stint ?p (x\<lparr> hf_stints := update_where (on_stint ?p k) h (hf_stints x) \<rparr>) =
      map_option (\<lambda>r. if on_stint ?p k r then h r else r) (active_stint ?p x)"
    if "\<And>r. ty_participant (h r) = ty_participant r" "\<And>r. ty_number (h r) = ty_number r" "\<And>r. ty_ended_at_us (h r) = ty_ended_at_us r" for h x
    unfolding active_stint_def
    by (simp add: filter_update_own that) (simp add: update_where_def top_by_map that)
  have up: "ty_participant u = ?p" using top_by_in [OF u(1) [unfolded active_stint_def]] by simp
  have "active_stint ?p t = active_stint ?p (s\<lparr> hf_stints := update_where (on_stint ?p k) counted (hf_stints s) \<rparr>)"
    by (simp add: active_stint_def st)
  then have ut: "active_stint ?p t = Some (counted u)" using act [of counted s] u up by (simp add: on_stint_def)
  have dt: "distinct (map ty_number (stints_of ?p t))" using d by (simp add: stt)
  define ls where "ls = effective_lap_number s ?p None"
  define lt where "lt = effective_lap_number t ?p None"
  have ns: "set (map lf_number (filter (\<lambda>l. lf_participant l = ?p) (hf_laps t))) =
      insert (?M + 1) (set (map lf_number (filter (\<lambda>l. lf_participant l = ?p) (hf_laps s))))"
    using a n by (simp only: numbers_of_keys ahead_def, auto)
  then have "max_or_zero (map lf_number (filter (\<lambda>l. lf_participant l = ?p) (hf_laps t))) = ?M + 1"
    by (rule max_or_zero_insert) (use max_or_zero_ge in force)
  then have lap: "lt = (if 0 < ?M + 1 then Some (?M + 1) else None)" "ls = (if 0 < ?M then Some ?M else None)"
    by (simp_all add: lt_def ls_def effective_lap_number_def Let_def)
  have aged: "age lt (counted u) = counted (age ls u)"
    using u(3,4) by (cases "ty_started_lap u") (auto simp: age_def counted_def lap)
  have one: "r = u" if "r \<in> set (hf_stints s)" "on_stint ?p k r" for r
    using that d u(2) top_by_in [OF u(1) [unfolded active_stint_def]] up
    by (auto simp: distinct_map on_stint_def stints_of_def dest: inj_onD)
  have age_simps: "ty_participant (age x r) = ty_participant r" "ty_number (age x r) = ty_number r"
    "ty_ended_at_us (age x r) = ty_ended_at_us r" "ty_started_lap (age x r) = ty_started_lap r" for x r
    by (simp_all add: age_def split: option.split)
  have swap: "update_where (on_stint ?p k) (age lt) (update_where (on_stint ?p k) counted (hf_stints s)) =
      update_where (on_stint ?p k) counted (update_where (on_stint ?p k) (age ls) (hf_stints s))"
    unfolding update_where_def map_map
  proof (rule map_cong [OF refl])
    fix r assume r: "r \<in> set (hf_stints s)"
    have "on_stint ?p k (counted r) = on_stint ?p k r" "on_stint ?p k (age ls r) = on_stint ?p k r"
      by (simp_all add: on_stint_def age_simps)
    then show "((\<lambda>r. if on_stint ?p k r then age lt r else r) \<circ> (\<lambda>r. if on_stint ?p k r then counted r else r)) r =
        ((\<lambda>r. if on_stint ?p k r then counted r else r) \<circ> (\<lambda>r. if on_stint ?p k r then age ls r else r)) r"
      using one [OF r] aged by auto
  qed
  let ?s1 = "s\<lparr> hf_stints := update_where (on_stint ?p k) (age ls) (hf_stints s) \<rparr>"
  have e: "ensure_tire_stint ctx ?p None s = ?s1"
      "ensure_tire_stint ctx ?p None t = t\<lparr> hf_stints := update_where (on_stint ?p k) (age lt) (hf_stints t) \<rparr>"
    using ensure_open [OF u(1) d, of ctx] ensure_open [OF ut dt, of ctx] u(2) by (simp_all add: ls_def lt_def)
  have "active_stint ?p ?s1 = Some (age ls u)" using act [of "age ls" s] u(1,2) up by (simp add: age_simps on_stint_def)
  moreover have "0 \<le> ty_completed_laps (age ls u)" using u(3) by (auto simp: age_def split: option.split)
  moreover have "distinct (map ty_number (stints_of ?p ?s1))"
    using d by (simp add: stints_of_def filter_update_own age_simps)
  ultimately have "before_passing g k ?s1" using b u(2,4)
    by (simp add: before_passing_def Let_def age_simps find_car_def)
  then show ?thesis using a swap st unfolding e by (simp add: ahead_def lap_keys_def)
qed


text \<open>Laps of the grid belong to other cars and have names of their own.\<close>

definition clashes :: "lap_name \<times> string \<times> int \<Rightarrow> (lap_name \<times> string \<times> int) set \<Rightarrow> bool" where
  "clashes key keys \<longleftrightarrow> (\<exists>(i, p, n) \<in> keys. i = fst key \<or> (p, n) = snd key)"

lemma insert_lap_keys:
  "lap_keys (fst (insert_lap l s)) = (if clashes (lap_identity l) (lap_keys s) then lap_keys s else insert (lap_identity l) (lap_keys s))"
proof -
  have "clashes (lap_identity l) (lap_keys s) \<longleftrightarrow>
      (\<exists>m \<in> set (hf_laps s). lf_id m = lf_id l \<or> (lf_participant m = lf_participant l \<and> lf_number m = lf_number l))"
    by (auto simp: clashes_def lap_keys_def lap_identity_def)
  then have "insert_lap l s = (if clashes (lap_identity l) (lap_keys s) then (s, False) else (s\<lparr> hf_laps := hf_laps s @ [l] \<rparr>, True))"
    by (simp add: insert_lap_def)
  then show ?thesis by (simp add: lap_keys_insert)
qed

lemma insert_grid_ahead:
  assumes a: "ahead g k s t" and b: "before_passing g k s" and q: "q \<noteq> lg_participant g"
    and l: "lap_identity l = (GridLap q x n, q, n)" and m: "lap_identity m = lap_identity l"
  shows "ahead g k (fst (insert_lap l s)) (fst (insert_lap m t)) \<and> before_passing g k (fst (insert_lap l s))"
proof -
  have "clashes (lap_identity m) (lap_keys t) = clashes (lap_identity l) (lap_keys s)"
    using a q unfolding m l by (auto simp: ahead_def clashes_def)
  then have "ahead g k (fst (insert_lap l s)) (fst (insert_lap m t))"
    using a by (auto simp: ahead_def insert_lap_keys m)
  moreover have "before_passing g k (fst (insert_lap l s))"
  proof -
    have "lf_participant l \<noteq> lg_participant g" "lf_id l \<noteq> TrackerLap (lg_participant g) (lg_fingerprint g)"
      using l q by (simp_all add: lap_identity_def)
    then show ?thesis using b
      by (auto simp: insert_lap_def before_passing_def Let_def find_car_def active_stint_def stints_of_def)
  qed
  ultimately show ?thesis by blast
qed

lemma grid_ahead:
  assumes "ahead g k s t" and "before_passing g k s" and q: "q \<noteq> lg_participant g"
  shows "ahead g k (complete_laps_from_grid ctx q a b ms kd s) (complete_laps_from_grid ctx q a b ms kd t) \<and>
    before_passing g k (complete_laps_from_grid ctx q a b ms kd s)"
proof -
  let ?f = "\<lambda>n s. fst (insert_lap (grid_lap ctx q b ms kd s n) s)"
  have "ahead g k (fold ?f ns s) (fold ?f ns t) \<and> before_passing g k (fold ?f ns s)" if "ahead g k s t" "before_passing g k s" for ns s t
    using that
  proof (induction ns arbitrary: s t)
    case (Cons n ns)
    have key: "lap_identity (grid_lap ctx q b ms kd u n) = (GridLap q (mx_source_key ctx) n, q, n)" for u
      by (simp add: grid_lap_def Let_def lap_identity_def)
    have "ahead g k (?f n s) (?f n t) \<and> before_passing g k (?f n s)"
      by (rule insert_grid_ahead [OF Cons.prems q]) (simp_all add: key)
    then show ?case using Cons.IH [of "?f n s" "?f n t"] by simp
  qed simp
  then show ?thesis using assms by (simp add: complete_laps_from_grid_def)
qed

lemma find_car_upsert: "find_car p (upsert_car c s) = (if cu_participant c = p then Some c else find_car p s)"
proof -
  have "find (\<lambda>r. cu_participant r = p) (update_where (\<lambda>r. cu_participant r = cu_participant c) (\<lambda>_. c) xs) =
      (if cu_participant c = p then map_option (\<lambda>_. c) (find (\<lambda>r. cu_participant r = p) xs) else find (\<lambda>r. cu_participant r = p) xs)" for xs
    by (induction xs) auto
  moreover have "find P (xs @ [c]) = (case find P xs of None \<Rightarrow> if P c then Some c else None | Some x \<Rightarrow> Some x)" for P xs
    by (induction xs) auto
  ultimately show ?thesis by (auto simp: find_car_def upsert_car_def split: option.split)
qed

lemma ensure_other_stints: "q \<noteq> p \<Longrightarrow> stints_of p (ensure_tire_stint ctx q n s) = stints_of p s"
proof -
  assume q: "q \<noteq> p"
  have "stints_of p (update_stint u f s) = stints_of p s"
    if "active_stint q s = Some u" "\<And>r. ty_participant (f r) = ty_participant r" for u f
    using top_by_in [OF that(1) [unfolded active_stint_def]] q that(2)
    by (auto simp: stints_of_def update_stint_def intro!: filter_update_other)
  then show ?thesis using q by (simp add: ensure_tire_stint_def Let_def new_stint_def split: option.split)
qed

lemma before_passing_ensure:
  assumes "before_passing g k s" "q \<noteq> lg_participant g" shows "before_passing g k (ensure_tire_stint ctx q n s)"
proof -
  have "hf_cars (ensure_tire_stint ctx q n s) = hf_cars s" "hf_laps (ensure_tire_stint ctx q n s) = hf_laps s"
    by (simp_all add: ensure_tire_stint_def Let_def split: option.split)
  then show ?thesis using assms ensure_other_stints [OF assms(2)]
    by (simp add: before_passing_def Let_def find_car_def active_stint_alt)
qed

lemma row_ahead:
  assumes a: "ahead g k s t" and b: "before_passing g k s"
    and no_laps: "rg_participant im = Some (lg_participant g) \<Longrightarrow> as_int (jget ''laps'' (rg_values im)) (Some 0) = None"
  shows "ahead g k (write_row_state render ctx im s) (write_row_state render ctx im t) \<and>
    before_passing g k (write_row_state render ctx im s)"
proof (cases "rg_participant im")
  case (Some q)
  let ?p = "lg_participant g"
  let ?row = "rg_values im"
  let ?old = "find_car q s"
  have same: "hf_cells t = hf_cells s" "hf_cars t = hf_cars s" "hf_clocks t = hf_clocks s" using a by (simp_all add: ahead_def)
  have cells: "row_event_cells t = row_event_cells s"
    by (simp add: fun_eq_iff row_event_cells_def result_cell_observation_def message_cells_def same)
  have times: "calibrated_result_event_at_us t = calibrated_result_event_at_us s"
    by (simp add: fun_eq_iff calibrated_result_event_at_us_def clock_for_def same)
  have old: "find_car q t = ?old" by (simp add: find_car_def same)
  have car: "car_row_after render t ctx q ?row ?old = car_row_after render s ctx q ?row ?old"
    by (simp add: car_row_after_def cells times)
  have pend: "pending_of t ctx q ?row ?old = pending_of s ctx q ?row ?old" by (simp add: pending_of_def cells)
  let ?car = "car_row_after render s ctx q ?row ?old"
  have up: "ahead g k (upsert_car ?car s) (upsert_car ?car t) \<and> before_passing g k (upsert_car ?car s)"
  proof -
    have c: "cu_participant ?car = q" "cu_laps ?car = as_int (jget ''laps'' ?row) (Some 0)" by (simp_all add: car_row_after_def Let_def)
    have "before_passing g k (upsert_car ?car s)"
      using b no_laps Some c by (auto simp: before_passing_def Let_def find_car_upsert) (auto simp: upsert_car_def active_stint_def stints_of_def)
    moreover have "find_car q t = ?old" by (rule old)
    ultimately show ?thesis using a c by (auto simp: upsert_car_def ahead_def lap_keys_def)
  qed
  define laps where "laps u = (case (Option.bind ?old cu_laps, source_laps (row_event_cells s q (mx_id ctx) ''laps'')) of
       (Some previous, Some laps) \<Rightarrow> if laps > previous
         then complete_laps_from_grid ctx q previous laps (duration_us_to_ms (jget ''last_lap'' ?row)) (cu_state_kind ?car) u else u
     | _ \<Rightarrow> u)" for u
  have "q \<noteq> ?p" if "Option.bind ?old cu_laps \<noteq> None" using that b by (auto simp: before_passing_def Let_def)
  then have 2: "ahead g k (laps (upsert_car ?car s)) (laps (upsert_car ?car t)) \<and> before_passing g k (laps (upsert_car ?car s))"
    using up grid_ahead by (auto simp: laps_def split: option.splits)
  let ?n = "as_int (jget ''laps'' ?row) (Some 0)"
  have 3: "ahead g k (ensure_tire_stint ctx q ?n (laps (upsert_car ?car s))) (ensure_tire_stint ctx q ?n (laps (upsert_car ?car t))) \<and>
      before_passing g k (ensure_tire_stint ctx q ?n (laps (upsert_car ?car s)))"
  proof (cases "q = ?p")
    case True
    have "?n = None" using no_laps Some True by simp
    then show ?thesis using ensure_own_ahead [OF conjunct1 [OF 2] conjunct2 [OF 2], of ctx] True by simp
  next
    case False
    then show ?thesis using ensure_other_ahead before_passing_ensure 2 by blast
  qed
  show ?thesis using 3 unfolding write_row_state_def Some option.case Let_def old cells car pend laps_def [symmetric]
    by (simp add: ahead_def before_passing_def Let_def find_car_def active_stint_def stints_of_def lap_keys_def)
qed (use a b in \<open>simp add: write_row_state_def\<close>)


section \<open>The frame\<close>

lemma cells_ahead:
  assumes "ahead g k s t" and "before_passing g k s"
  shows "ahead g k (insert_cell render ctx c s) (insert_cell render ctx c t) \<and> before_passing g k (insert_cell render ctx c s)"
  using assms by (simp add: insert_cell_def ahead_def lap_keys_def before_passing_def Let_def find_car_def active_stint_def stints_of_def)

definition no_laps_for :: "string \<Rightarrow> row_image \<Rightarrow> bool" where
  "no_laps_for p im \<longleftrightarrow> (rg_participant im = Some p \<longrightarrow> as_int (jget ''laps'' (rg_values im)) (Some 0) = None)"

lemma changes_ahead:
  assumes "ahead g k s t" and "before_passing g k s" and "\<And>im. im \<in> set images \<Longrightarrow> no_laps_for (lg_participant g) im"
  shows "ahead g k (write_result_changes render ctx changes images s) (write_result_changes render ctx changes images t) \<and>
    before_passing g k (write_result_changes render ctx changes images s)"
proof -
  have cells: "ahead g k (fold (insert_cell render ctx) cs s) (fold (insert_cell render ctx) cs t) \<and>
      before_passing g k (fold (insert_cell render ctx) cs s)" if "ahead g k s t" "before_passing g k s" for cs s t
    using that
  proof (induction cs arbitrary: s t)
    case (Cons c cs)
    have "ahead g k (insert_cell render ctx c s) (insert_cell render ctx c t)" "before_passing g k (insert_cell render ctx c s)"
      using cells_ahead [OF Cons.prems, of render ctx c] by simp_all
    then show ?case using Cons.IH by simp
  qed simp
  have rows: "ahead g k (fold (write_row_state render ctx) ims s) (fold (write_row_state render ctx) ims t) \<and>
      before_passing g k (fold (write_row_state render ctx) ims s)"
    if "ahead g k s t" "before_passing g k s" "\<And>im. im \<in> set ims \<Longrightarrow> no_laps_for (lg_participant g) im" for ims s t
    using that
  proof (induction ims arbitrary: s t)
    case (Cons im ims)
    have "rg_participant im = Some (lg_participant g) \<Longrightarrow> as_int (jget ''laps'' (rg_values im)) (Some 0) = None"
      using Cons.prems(3) [of im] by (simp add: no_laps_for_def)
    from row_ahead [OF Cons.prems(1,2) this, of render ctx]
    have "ahead g k (write_row_state render ctx im s) (write_row_state render ctx im t)" "before_passing g k (write_row_state render ctx im s)"
      by simp_all
    then show ?case using Cons.IH Cons.prems(3) by simp
  qed simp
  have 1: "ahead g k (fold (insert_cell render ctx) changes s) (fold (insert_cell render ctx) changes t)"
      "before_passing g k (fold (insert_cell render ctx) changes s)" using cells assms(1,2) by blast+
  show ?thesis unfolding write_result_changes_def using rows [OF 1 assms(3)] by blast
qed

text \<open>The messages of a frame that a passing may be delivered among.\<close>

fun other_rows :: "string \<Rightarrow> fact_event \<Rightarrow> bool" where
  "other_rows p (ResultRows ctx changes images) = list_all (no_laps_for p) images"
| "other_rows p _ = False"

fun_cases other_rowsE: "other_rows p e"

lemma rows_ahead:
  assumes "ahead g k s t" and "before_passing g k s" and "\<And>e. e \<in> set es \<Longrightarrow> other_rows (lg_participant g) e"
  shows "\<exists>s' t'. apply_facts render fromiso es s = (None, s') \<and> apply_facts render fromiso es t = (None, t') \<and>
    ahead g k s' t' \<and> before_passing g k s'"
  using assms
proof (induction es arbitrary: s t)
  case (Cons e es)
  obtain ctx changes images where e: "e = ResultRows ctx changes images" "list_all (no_laps_for (lg_participant g)) images"
    using Cons.prems(3) [of e] by (auto elim: other_rowsE)
  have "ahead g k (write_result_changes render ctx changes images s) (write_result_changes render ctx changes images t) \<and>
      before_passing g k (write_result_changes render ctx changes images s)"
    by (rule changes_ahead [OF Cons.prems(1,2)]) (use e(2) in \<open>simp add: list_all_iff\<close>)
  then show ?case using Cons.IH Cons.prems(3) e(1) by simp
qed simp

lemma rows_before:
  assumes "before_passing g k s" and "\<And>e. e \<in> set es \<Longrightarrow> other_rows (lg_participant g) e"
  shows "\<exists>s'. apply_facts render fromiso es s = (None, s') \<and> before_passing g k s'"
  using rows_ahead [OF passing_is_ahead [OF assms(1)] assms] by blast

lemma apply_facts_append:
  "apply_facts render fromiso (xs @ ys) s = (case apply_facts render fromiso xs s of
     (Some err, s') \<Rightarrow> (Some err, s') | (None, s') \<Rightarrow> apply_facts render fromiso ys s')"
  by (induction xs arbitrary: s) (auto split: prod.split option.split)

lemma apply_passage: "apply_facts render fromiso (Passages [g] # es) s = apply_facts render fromiso es (record_passage g s)"
  by simp

lemma moved_passage:
  assumes "before_passing g k s" and "\<And>e. e \<in> set (es @ fs) \<Longrightarrow> other_rows (lg_participant g) e"
  shows "\<exists>a b. apply_facts render fromiso (es @ Passages [g] # fs) s = (None, a) \<and>
    apply_facts render fromiso (Passages [g] # es @ fs) s = (None, b) \<and> agree a b"
proof -
  obtain s1 where 1: "apply_facts render fromiso es s = (None, s1)" "before_passing g k s1"
    using rows_before [where es = es and render = render and fromiso = fromiso, OF assms(1) assms(2)] by auto
  obtain s2 t2 where 2: "apply_facts render fromiso fs s1 = (None, s2)" "apply_facts render fromiso fs (record_passage g s1) = (None, t2)"
      "ahead g k s2 t2" using rows_ahead [where es = fs and render = render and fromiso = fromiso, OF passing_is_ahead [OF 1(2)] 1(2) assms(2)] by auto
  obtain s3 t3 where 3: "apply_facts render fromiso (es @ fs) s = (None, s3)"
      "apply_facts render fromiso (es @ fs) (record_passage g s) = (None, t3)" "ahead g k s3 t3"
    using rows_ahead [OF passing_is_ahead [OF assms(1)] assms] by blast
  have "s3 = s2" using 1 2(1) 3(1) by (simp add: apply_facts_append)
  then have "agree t2 t3" using 2(3) 3(3) ahead_agree by blast
  then show ?thesis using 1(1) 2(2) 3(2) by (simp add: apply_facts_append)
qed

section \<open>The reconciliations\<close>

lemma agree_marks:
  assumes "agree s t" and "\<And>l. lap_identity (f l) = lap_identity l" and "\<And>l. lap_identity (h l) = lap_identity l"
  shows "agree (s\<lparr> hf_laps := update_where P f (hf_laps s) \<rparr>) (t\<lparr> hf_laps := update_where Q h (hf_laps t) \<rparr>)"
  using assms(1) lap_keys_marks [OF assms(2)] lap_keys_marks [OF assms(3)] by (simp add: agree_def)

lemma agree_lap_states:
  "agree s t \<Longrightarrow> agree (reconcile_frame_tracker_lap_states f s) (reconcile_frame_tracker_lap_states f t)"
  unfolding reconcile_frame_tracker_lap_states_def by (rule agree_marks) (simp_all add: lap_identity_def)

lemma agree_refl: "agree s s"
  by (simp add: agree_def)

lemma agree_trans: "agree s t \<Longrightarrow> agree t u \<Longrightarrow> agree s u"
  by (simp add: agree_def)

lemma agree_sym: "agree s t \<Longrightarrow> agree t s"
  by (simp add: agree_def)

lemma attach_agree: "agree (attach_last cs ls p s) s"
proof -
  have "agree (s\<lparr> hf_laps := update_where P f (hf_laps s) \<rparr>) s" if "\<And>l. lap_identity (f l) = lap_identity l" for P f
    using lap_keys_marks [OF that] by (simp add: agree_def)
  then show ?thesis
    by (auto simp: attach_last_def Let_def lap_identity_def agree_refl split: list.split option.split)
qed

lemma sources_agree: "agree (reconcile_tracker_lap_sources f s) s"
proof -
  have "agree (fold (attach_last cs ls) ps s) s" for cs ls ps
  proof (induction ps arbitrary: s)
    case (Cons p ps)
    show ?case using agree_trans [OF Cons.IH attach_agree, of cs ls p s] by simp
  qed (simp add: agree_refl)
  then show ?thesis by (simp add: reconcile_tracker_lap_sources_def Let_def)
qed

lemma agree_sources: "agree s t \<Longrightarrow> agree (reconcile_tracker_lap_sources f s) (reconcile_tracker_lap_sources f t)"
  using sources_agree agree_trans agree_sym by metis

section \<open>Property\<close>

text \<open>C11. equivalence. A finish-line passing that counts a lap may come at any place among the result
  messages of its frame. For a car without a LAPS column and with an open tyre stint, and a passing not
  yet recorded whose number is one more than the last lap of the car, the pit stops, the tyre stints with
  their completed laps and the laps counted are those of the frame with the passing first, whatever
  STATE, PIT and L-PIT cells the other messages carry for that car.\<close>
theorem tyre_ledger_ignores_message_order:
  assumes "before_passing g k s" and "\<And>e. e \<in> set (before @ after) \<Longrightarrow> other_rows (lg_participant g) e"
  shows "let run = (\<lambda>events. process_frame_facts render fromiso frame events s);
      a = run (before @ Passages [g] # after); b = run (Passages [g] # before @ after) in
    fst a = None \<and> fst b = None \<and> hf_stops (snd a) = hf_stops (snd b) \<and> hf_stints (snd a) = hf_stints (snd b) \<and>
    lap_keys (snd a) = lap_keys (snd b)"
proof -
  let ?s = "s\<lparr> hf_pending := [] \<rparr>"
  have "before_passing g k ?s" using assms(1) by (simp add: before_passing_def Let_def find_car_def active_stint_def stints_of_def)
  from moved_passage [OF this assms(2), of before after render fromiso]
  obtain a b where ab: "apply_facts render fromiso (before @ Passages [g] # after) ?s = (None, a)"
      "apply_facts render fromiso (Passages [g] # before @ after) ?s = (None, b)" "agree a b" by blast
  let ?final = "\<lambda>u. reconcile_frame_pit_events (reconcile_tracker_lap_sources frame (reconcile_frame_tracker_lap_states frame u))"
  have "agree (?final a) (?final b)" using ab(3) by (intro agree_frame_pits agree_sources agree_lap_states)
  then show ?thesis
    unfolding process_frame_facts_def ab(1,2) Let_def by (simp add: agree_def lap_keys_def)
qed

text \<open>For evaluation, by the kind of the message.\<close>

lemma apply_facts_code [code]:
  "apply_facts render fromiso [] s = (None, s)"
  "apply_facts render fromiso (Passages gs # es) s = apply_facts render fromiso es (fold record_passage gs s)"
  "apply_facts render fromiso (ResultRows ctx changes images # es) s =
    apply_facts render fromiso es (write_result_changes render ctx changes images s)"
  "apply_facts render fromiso (HeatUpdate ctx f # es) s = (case update_heat render ctx f s of
     (Some err, s') \<Rightarrow> (Some err, s') | (None, s') \<Rightarrow> apply_facts render fromiso es s')"
  "apply_facts render fromiso (ServerTime ctx args # es) s = (case observe_clock fromiso ctx args s of
     (Some err, s') \<Rightarrow> (Some err, s') | (None, s') \<Rightarrow> apply_facts render fromiso es s')"
  by simp_all

text \<open>A car on track; in frame 2 it completes its first lap in the pit lane.\<close>

definition first_lap :: "int \<Rightarrow> int \<Rightarrow> lap_passage" where
  "first_lap i t = \<lparr> lg_context = (pit_context (i + 100) t)\<lparr> mx_frame := i, mx_ordinal := 1, mx_handle := ''t_p'' \<rparr>,
     lg_participant = ''7'', lg_fingerprint = int_text i, lg_passing = i, lg_provider_us = None, lg_lap_number = 1 \<rparr>"

definition seen_once :: heat_facts where
  "seen_once = run_demo [state_frame 1 100 ''E1'']"

lemma tyre_ledger_ignores_message_order_witness:
  "let a = snd (process_frame_facts (\<lambda>_. []) (\<lambda>_. None) 2 [state_rows 2 200 ''SIn Pit'', Passages [first_lap 2 200]] seen_once);
       b = snd (process_frame_facts (\<lambda>_. []) (\<lambda>_. None) 2 [Passages [first_lap 2 200], state_rows 2 200 ''SIn Pit''] seen_once) in
   hf_stops a = hf_stops b \<and> hf_stints a = hf_stints b \<and> map ty_completed_laps (hf_stints b) = [1] \<and> length (hf_stops b) = 1"
proof -
  have "map (\<lambda>c. cu_laps c) (hf_cars seen_once) = [None] \<and> find_car ''7'' seen_once \<noteq> None \<and>
      map (\<lambda>t. (ty_number t, ty_started_lap t, ty_completed_laps t)) (stints_of ''7'' seen_once) = [(1, None, 0)] \<and>
      active_stint ''7'' seen_once = Some (hd (hf_stints seen_once)) \<and> stints_of ''7'' seen_once = hf_stints seen_once \<and>
      hf_laps seen_once = []" by code_simp
  then have "before_passing (first_lap 2 200) 1 seen_once"
    by (auto simp: before_passing_def first_lap_def Let_def max_or_zero_def find_car_def map_eq_Cons_conv split: if_splits)
  moreover have "other_rows (lg_participant (first_lap 2 200)) e" if "e \<in> set ([state_rows 2 200 ''SIn Pit''] @ [])" for e
    using that by (simp add: state_rows_def no_laps_for_def jget_def as_int_def)
  ultimately have eq: "let run = (\<lambda>events. process_frame_facts (\<lambda>_. []) (\<lambda>_. None) 2 events seen_once);
      a = run ([state_rows 2 200 ''SIn Pit''] @ Passages [first_lap 2 200] # []);
      b = run (Passages [first_lap 2 200] # [state_rows 2 200 ''SIn Pit''] @ []) in
    fst a = None \<and> fst b = None \<and> hf_stops (snd a) = hf_stops (snd b) \<and> hf_stints (snd a) = hf_stints (snd b) \<and>
    lap_keys (snd a) = lap_keys (snd b)"
    by (rule tyre_ledger_ignores_message_order)
  have "let b = snd (process_frame_facts (\<lambda>_. []) (\<lambda>_. None) 2 [Passages [first_lap 2 200], state_rows 2 200 ''SIn Pit''] seen_once) in
      map ty_completed_laps (hf_stints b) = [1] \<and> length (hf_stops b) = 1" by code_simp
  then show ?thesis using eq unfolding Let_def by simp
qed

text \<open>
  The marks of the lap do depend on the order: a car that leaves its out lap on the line is marked with the
  out lap when the passing comes before the STATE cell, and not when it comes after it. The
  reconciliation corrects a lap towards IN_PIT and OUT_LAP only.
\<close>

definition on_out_lap :: heat_facts where
  "on_out_lap = run_demo [state_frame 1 100 ''E1'', state_frame 2 200 ''SIn Pit'', state_frame 3 300 ''SOut Lap'']"

theorem lap_marks_follow_message_order:
  "map lf_is_out_lap (hf_laps (snd (process_frame_facts (\<lambda>_. []) (\<lambda>_. None) 4
     [Passages [first_lap 4 400], state_rows 4 400 ''E2''] on_out_lap))) = [True] \<and>
   map lf_is_out_lap (hf_laps (snd (process_frame_facts (\<lambda>_. []) (\<lambda>_. None) 4
     [state_rows 4 400 ''E2'', Passages [first_lap 4 400]] on_out_lap))) = [False]"
  by code_simp

end
