(* ===== verification/Spec2Isabelle.thy ===== *)
theory Spec2Isabelle
  imports Pace Gap_Trends Tire_Pits Lifecycle Clock Provider_Records Result_Grid Canonical_Laps Race_Control Live_Stream Runner_Acceptance Ingest_Gaps Raw_Retention Clean_Laps Frame_Order
begin

text \<open>
  Verification library of balchug.racing's live-timing service (\<open>server/timing\<close>).

  \<^bold>\<open>The program.\<close> A recorder subscribes to a provider's SignalR feed and stores every raw
  frame; a normalizer reduces the frames to facts in SQLite (result grid, laps, pits, flags,
  messages); a metric runner derives analytics from the facts; both append to an outbox from
  which an HTTP service streams live updates. Engineers control analysis sessions through
  the same service.

  \<^bold>\<open>Theories and sources.\<close>
  \<^item> \<open>Timing_Prelude\<close>, \<open>Wire_Text\<close>: shared vocabulary; Python numbers, dictionaries, JSON
    values and text primitives; the interfaces \<open>invariant_machine\<close>,
    \<open>checkpointed_machine\<close> and \<open>keyed_latest\<close> (locales) that the components implement.
  \<^item> \<open>Pace\<close>, \<open>Gap_Trends\<close>, \<open>Tire_Pits\<close>: \<open>metrics.py\<close>, the pure analytics: clean-lap pace and
    slow laps, gap trends and contact forecasts, pit history, tyre ledger and obligations.
  \<^item> \<open>Lifecycle\<close>: \<open>lifecycle.py\<close> and its tables: sessions, idempotency keys, audit trail.
  \<^item> \<open>Clock\<close>, \<open>Result_Schema\<close>, \<open>Provider_Records\<close>: \<open>normalization.py\<close>: the provider clock
    calibrator, the result schema, participants' state, flags, statistics and passings.
  \<^item> \<open>Result_Grid\<close>: \<open>result_grid.py\<close>, the reducer of sparse grid changes, with checkpoints.
  \<^item> \<open>Canonical_Laps\<close>: \<open>canonical_laps.py\<close>, laps from tracker passings and their
    reconciliation with the provider's LAST cells.
  \<^item> \<open>Race_Control\<close>: \<open>screen_messages.py\<close>, \<open>race_control_store.py\<close>,
    \<open>race_control_backfill.py\<close>: the message board, its ledger and its rebuild.
  \<^item> \<open>Ingest_Store\<close>: \<open>ingest_store.py\<close>, the envelope decoder of \<open>protocol.py\<close>, the checkpoint
    writer of \<open>db.py\<close>; \<open>Ingest_Worker\<close>, \<open>Ingest_Order\<close>, \<open>Ingest_Gaps\<close>: the supervisor of
    \<open>ingest.py\<close> as a state machine with crashes, the order in which frames reach the processor,
    and the source gaps.
  \<^item> \<open>Car_Facts\<close>, \<open>Pit_Ledger\<close>: the part of \<open>normalizer_writer.py\<close> that writes cells, current rows,
    laps, the track flag, pit stops and tyre stints of one heat, up to the frame transaction;
    \<open>Tyre_Ledger\<close>, \<open>Clean_Laps\<close>, \<open>Frame_Order\<close>: its invariants and the order of messages.
  \<^item> \<open>Raw_Retention\<close>: \<open>retention.py\<close> and \<open>rebuild.py\<close> over the raw tables.
  \<^item> \<open>Metric_Inputs\<close>, \<open>Interval_Relations\<close>, \<open>Metric_Boundaries\<close>, \<open>Metric_Laps\<close>,
    \<open>Metric_Tactics\<close>: \<open>metric_engine.py\<close>, from the input records of \<open>metric_store.py\<close> to
    the documents of cars, classes and sessions, the domain events and the alerts.
  \<^item> \<open>Metric_Store\<close>: the write path of \<open>metric_store.py\<close>; \<open>Metric_Runner\<close>, \<open>Runner_Acceptance\<close>:
    \<open>metric_runner.py\<close>, the reads it starts from, the archive payload of \<open>playback.py\<close>, and why
    every frame is accepted.
  \<^item> \<open>Stream_Outbox\<close>: \<open>stream_events.py\<close>, the cursor reads of \<open>sse.py\<close>, the stream part of
    \<open>retention.py\<close> and \<open>rebuild.py\<close>; \<open>Sse_Frames\<close>: the wire format; \<open>Live_Stream\<close>: the broker of
    \<open>sse.py\<close> and the streaming endpoint of \<open>api.py\<close>.

  \<^bold>\<open>Correspondence.\<close> Definitions keep the names of the functions they translate; private
  functions lose the leading underscore, a name that HOL uses gets a suffix. A dataclass or a
  table row is a record, a table is a list of rows in insertion order, an enumeration of
  strings is a datatype, a dictionary an association list. Exceptions are the left summand of
  a sum type; a transaction that raises returns no new state, so the caller keeps the old
  one. SQL statements are list functions with the WHERE, ORDER BY and conflict clauses of the
  source.

  \<^bold>\<open>Abstractions.\<close> Finite floats are exact rationals; infinities and NaN are values of their
  own. Strings are sequences of Latin-1 code points. A JSON text column holds the value it
  encodes. Hash functions, ISO timestamp parsing, float rendering, UUIDs and the iteration
  order of Python sets are parameters. Row-creation timestamps are left out where nothing
  reads them. Referenced rows exist where the schema has a foreign key.

  \<^bold>\<open>What the lemmas show.\<close> For the stateful components: an invariant of the tables kept by
  every operation (interpretations of \<open>invariant_machine\<close>), idempotence under redelivery,
  exact acceptance conditions, and refinement of an abstract machine (the session automaton,
  the message board that keeps the fields of hidden messages, related to the provider's own). For reducers: checkpoint and resume equals the
  uninterrupted run. For the ingest worker: across crashes and reconnects every decoded frame
  reaches the processor, in order, and downtime has an open gap. For retention and rebuild: what
  is pruned is covered by a restorable checkpoint, and a rebuild erases what it can regenerate and
  is then a new normalizer over the whole recording.
  For the ledgers of pits and tyres: stints tile the race and change exactly at the exits of completed stops,
  clean laps meet no completed stop, and the place of a finish-line passing in its frame does not matter.
  For the analytics: exact characterisations, bounds and independence of
  delivery order; every evaluated frame is stored. For the live stream: in every interleaving of
  writers, retention, broker and clients no retained event is lost, and clients catch up.

  \<^bold>\<open>Bounds and termination.\<close> The replay loop of the endpoint is a function with a measure (at
  most 1,024 replayed events); no definition uses fuel.

  \<^bold>\<open>Not modelled.\<close> The read API (\<open>read_api.py\<close>) and \<open>load_heat_metric_input\<close>: SQL joins that
  shape rows into documents without changing state. In \<open>normalizer_writer.py\<close>: identities of
  participants, heats and layouts, statistics, flag periods reconciled with the provider's history, interval
  facts, the ledger of LAST cells, the log of state observations and the runtime checkpoint; the facts of
  the cars take the participant of a row and the number of a canonical lap from outside.
  Gap coordinates (decimal arithmetic of display strings). Operations, health, HTTP routing,
  command lines, network and file I/O of the recorder and the importer, the video archive
  services around ffmpeg, tests and the web front end.
\<close>

end
